(* ===== verification/Amalgam_Prelude.thy ===== *)
theory Amalgam_Prelude
  imports Complex_Main "HOL-Library.AList" "HOL-Library.Word" "HOL-Library.List_Lexorder"
    "HOL-Library.Char_ord"
begin

text \<open>
  Shared material of the development: the bounds of the machine integers the Rust code uses,
  the conversions \<open>i64::try_from(x).unwrap_or(i64::MAX)\<close> and \<open>checked_add\<close>, the
  representation of \<open>HashMap\<close> by association lists with distinct keys, the UTF-8 white-space
  test behind \<open>str::trim().is_empty()\<close>, and two interfaces used by the components: a finite
  map (with the bulk removals the stores perform) and a state machine whose operations keep an
  invariant.
\<close>

named_theorems machine_defs \<open>definitions of the machine-integer conversions\<close>
named_theorems hmap_simps \<open>lookup after an update of an association list\<close>

section \<open>Machine integers\<close>

abbreviation i64_min :: int where
  "i64_min \<equiv> - 9223372036854775808"

abbreviation i64_max :: int where
  "i64_max \<equiv> 9223372036854775807"

abbreviation u64_max :: nat where
  "u64_max \<equiv> 18446744073709551615"

abbreviation u128_max :: nat where
  "u128_max \<equiv> 340282366920938463463374607431768211455"

definition in_i64 :: "int \<Rightarrow> bool" where
  "in_i64 x \<longleftrightarrow> i64_min \<le> x \<and> x \<le> i64_max"

text \<open>\<open>i64::try_from(x).unwrap_or(i64::MAX)\<close>: every value outside the range becomes the maximum.\<close>

definition i64_or_max :: "int \<Rightarrow> int" where
  "i64_or_max x = (if in_i64 x then x else i64_max)"

definition checked_add_u64 :: "nat \<Rightarrow> nat \<Rightarrow> nat option" where
  "checked_add_u64 a b = (if a + b \<le> u64_max then Some (a + b) else None)"

definition saturating_add_u64 :: "nat \<Rightarrow> nat \<Rightarrow> nat" where
  "saturating_add_u64 a b = min (a + b) u64_max"

definition saturating_add_u128 :: "nat \<Rightarrow> nat \<Rightarrow> nat" where
  "saturating_add_u128 a b = min (a + b) u128_max"

lemmas [machine_defs] = in_i64_def i64_or_max_def checked_add_u64_def saturating_add_u64_def
  saturating_add_u128_def

lemma in_i64_i64_or_max [simp]: "in_i64 (i64_or_max x)"
  by (simp add: machine_defs)

lemma i64_or_max_id [simp]: "in_i64 x \<Longrightarrow> i64_or_max x = x"
  by (simp add: machine_defs)

lemma in_i64_min [simp]: "in_i64 a \<Longrightarrow> in_i64 b \<Longrightarrow> in_i64 (min a b)"
  by (simp add: min_def)

lemma in_i64_max [simp]: "in_i64 a \<Longrightarrow> in_i64 b \<Longrightarrow> in_i64 (max a b)"
  by (simp add: max_def)

lemma i64_or_max_nonneg_add: "i64_min \<le> x \<Longrightarrow> i64_or_max x = min x i64_max"
  by (auto simp: machine_defs)

section \<open>Hash maps\<close>

text \<open>
  A \<open>HashMap\<close> is an association list with distinct keys. Iteration order is the list order;
  the operations below never expose more of it than the source does.
\<close>

type_synonym ('k, 'v) hmap = "('k \<times> 'v) list"

abbreviation hm_get :: "('k, 'v) hmap \<Rightarrow> 'k \<Rightarrow> 'v option" where
  "hm_get \<equiv> map_of"

abbreviation hm_insert :: "'k \<Rightarrow> 'v \<Rightarrow> ('k, 'v) hmap \<Rightarrow> ('k, 'v) hmap" where
  "hm_insert \<equiv> AList.update"

abbreviation hm_remove :: "'k \<Rightarrow> ('k, 'v) hmap \<Rightarrow> ('k, 'v) hmap" where
  "hm_remove \<equiv> AList.delete"

definition hm_ok :: "('k, 'v) hmap \<Rightarrow> bool" where
  "hm_ok m \<longleftrightarrow> distinct (map fst m)"

definition hm_retain :: "('k \<Rightarrow> 'v \<Rightarrow> bool) \<Rightarrow> ('k, 'v) hmap \<Rightarrow> ('k, 'v) hmap" where
  "hm_retain P m = filter (\<lambda>(k, v). P k v) m"

fun hm_remove_all :: "'k list \<Rightarrow> ('k, 'v) hmap \<Rightarrow> ('k, 'v) hmap" where
  "hm_remove_all [] m = m"
| "hm_remove_all (k # ks) m = hm_remove_all ks (hm_remove k m)"

lemma hm_ok_Nil [simp]: "hm_ok []"
  by (simp add: hm_ok_def)

lemma hm_ok_insert [simp]: "hm_ok m \<Longrightarrow> hm_ok (hm_insert k v m)"
  by (simp add: hm_ok_def distinct_update)

lemma hm_ok_remove [simp]: "hm_ok m \<Longrightarrow> hm_ok (hm_remove k m)"
  by (simp add: hm_ok_def distinct_delete)

lemma hm_ok_retain [simp]: "hm_ok m \<Longrightarrow> hm_ok (hm_retain P m)"
  by (simp add: hm_ok_def hm_retain_def distinct_map_filter)

lemma hm_get_insert [hmap_simps]: "hm_get (hm_insert k v m) = (hm_get m)(k \<mapsto> v)"
  by (simp add: update_conv')

lemma hm_get_remove [hmap_simps]: "hm_get (hm_remove k m) = (hm_get m)(k := None)"
  by (simp add: delete_conv')

lemma hm_get_retain [hmap_simps]:
  "hm_ok m \<Longrightarrow> hm_get (hm_retain P m) k = (case hm_get m k of None \<Rightarrow> None
     | Some v \<Rightarrow> if P k v then Some v else None)"
proof (induction m)
  case Nil
  then show ?case by (simp add: hm_retain_def)
next
  case (Cons kv m)
  obtain k' v' where kv: "kv = (k', v')" by (cases kv)
  from Cons.prems have "hm_ok m" and "k' \<notin> fst ` set m"
    by (simp_all add: hm_ok_def kv)
  moreover from this have "hm_get m k' = None"
    by (simp add: map_of_eq_None_iff)
  ultimately show ?case
    using Cons.IH by (auto simp: kv hm_retain_def split: option.splits)
qed

lemma hm_get_SomeD: "hm_get m k = Some v \<Longrightarrow> (k, v) \<in> set m"
  by (rule map_of_SomeD)

lemma hm_get_eq_Some: "hm_ok m \<Longrightarrow> hm_get m k = Some v \<longleftrightarrow> (k, v) \<in> set m"
  by (simp add: hm_ok_def)

lemma length_hm_remove:
  assumes "hm_ok m"
  shows "length (hm_remove k m) = length m - (if hm_get m k = None then 0 else 1)"
  using assms
proof (induction m)
  case Nil
  then show ?case by simp
next
  case (Cons kv m)
  obtain k' v' where kv: "kv = (k', v')" by (cases kv)
  from Cons.prems have ok: "hm_ok m" and notin: "k' \<notin> fst ` set m"
    by (simp_all add: hm_ok_def kv)
  show ?case
  proof (cases "k = k'")
    case True
    with notin have "hm_remove k m = m" by (simp add: delete_idem)
    with True show ?thesis by (simp add: kv)
  next
    case False
    have "hm_get m k \<noteq> None \<Longrightarrow> 0 < length m" by (cases m) auto
    with False Cons.IH [OF ok] show ?thesis by (auto simp: kv)
  qed
qed

lemma length_hm_insert:
  "length (hm_insert k v m) = length m + (if hm_get m k = None then 1 else 0)"
  by (induction m) auto

lemma length_hm_retain: "length (hm_retain P m) \<le> length m"
  by (simp add: hm_retain_def)

subsection \<open>Sums over a map\<close>

definition hm_sum :: "('v \<Rightarrow> nat) \<Rightarrow> ('k, 'v) hmap \<Rightarrow> nat" where
  "hm_sum w m = sum_list (map (\<lambda>(k, v). w v) m)"

lemma hm_sum_simps [simp]:
  "hm_sum w [] = 0"
  "hm_sum w ((k, v) # m) = w v + hm_sum w m"
  by (simp_all add: hm_sum_def)

lemma hm_sum_remove:
  assumes "hm_ok m"
  shows "hm_sum w m = (case hm_get m k of None \<Rightarrow> 0 | Some v \<Rightarrow> w v) + hm_sum w (hm_remove k m)"
  using assms
proof (induction m)
  case Nil
  then show ?case by simp
next
  case (Cons kv m)
  obtain k' v' where kv: "kv = (k', v')" by (cases kv)
  from Cons.prems have ok: "hm_ok m" and notin: "k' \<notin> fst ` set m"
    by (simp_all add: hm_ok_def kv)
  show ?case
  proof (cases "k = k'")
    case True
    with notin show ?thesis by (simp add: kv delete_idem)
  next
    case False
    with Cons.IH [OF ok] show ?thesis by (simp add: kv split: option.splits)
  qed
qed

lemma hm_sum_insert_absent:
  "hm_get m k = None \<Longrightarrow> hm_sum w (hm_insert k v m) = hm_sum w m + w v"
  by (induction m) (auto split: if_splits)

lemma hm_sum_member_le: "hm_ok m \<Longrightarrow> hm_get m k = Some v \<Longrightarrow> w v \<le> hm_sum w m"
  by (simp add: hm_sum_remove [of m w k])

section \<open>Interfaces\<close>

text \<open>
  The finite-map contract the stores rely on. It is interpreted below on the association lists;
  the store proofs use the consequences for sequences of removals (victims of an eviction,
  expired keys).
\<close>

locale finite_map =
  fixes get :: "'m \<Rightarrow> 'k \<Rightarrow> 'v option"
    and ins :: "'k \<Rightarrow> 'v \<Rightarrow> 'm \<Rightarrow> 'm"
    and rem :: "'k \<Rightarrow> 'm \<Rightarrow> 'm"
    and len :: "'m \<Rightarrow> nat"
    and ok :: "'m \<Rightarrow> bool"
    and rem_all :: "'k list \<Rightarrow> 'm \<Rightarrow> 'm"
  assumes get_ins: "ok m \<Longrightarrow> get (ins k v m) = (get m)(k \<mapsto> v)"
    and get_rem: "ok m \<Longrightarrow> get (rem k m) = (get m)(k := None)"
    and ok_ins: "ok m \<Longrightarrow> ok (ins k v m)"
    and ok_rem: "ok m \<Longrightarrow> ok (rem k m)"
    and len_rem: "ok m \<Longrightarrow> len (rem k m) = len m - (if get m k = None then 0 else 1)"
    and len_ins: "ok m \<Longrightarrow> len (ins k v m) = len m + (if get m k = None then 1 else 0)"
    and rem_all_Nil: "rem_all [] m = m"
    and rem_all_Cons: "rem_all (k # ks) m = rem_all ks (rem k m)"
begin

lemma ok_rem_all: "ok m \<Longrightarrow> ok (rem_all ks m)"
  by (induction ks arbitrary: m) (simp_all add: rem_all_Nil rem_all_Cons ok_rem)

lemma get_rem_all: "ok m \<Longrightarrow> get (rem_all ks m) k = (if k \<in> set ks then None else get m k)"
  by (induction ks arbitrary: m) (auto simp: rem_all_Nil rem_all_Cons ok_rem get_rem)

lemma len_rem_all_le: "ok m \<Longrightarrow> len (rem_all ks m) \<le> len m"
proof (induction ks arbitrary: m)
  case Nil
  then show ?case by (simp add: rem_all_Nil)
next
  case (Cons k ks)
  have "len (rem_all ks (rem k m)) \<le> len (rem k m)" using Cons by (simp add: ok_rem)
  also have "\<dots> \<le> len m" using Cons.prems by (simp add: len_rem)
  finally show ?case by (simp add: rem_all_Cons)
qed

lemma len_ins_rem: "ok m \<Longrightarrow> len (ins k v (rem k m)) = len (rem k m) + 1"
  by (simp add: len_ins ok_rem get_rem)

end

interpretation hm: finite_map map_of AList.update AList.delete length hm_ok hm_remove_all
  by unfold_locales (simp_all add: hmap_simps length_hm_remove length_hm_insert)

text \<open>
  A component whose operations are events of a step function: an invariant of the start state
  that every event keeps holds after every sequence of events.
\<close>

locale invariant_machine =
  fixes step :: "'s \<Rightarrow> 'e \<Rightarrow> 's"
    and inv :: "'s \<Rightarrow> bool"
  assumes step_inv: "inv s \<Longrightarrow> inv (step s e)"
begin

lemma run_inv: "inv s \<Longrightarrow> inv (foldl step s es)"
  by (induction es arbitrary: s) (simp_all add: step_inv)

end

text \<open>
  A component whose operations are guarded: an operation is not enabled in every state. A run
  takes the events in order and exists exactly when each is enabled where it occurs.
\<close>

fun run_guarded :: "('e \<Rightarrow> 's \<Rightarrow> 's option) \<Rightarrow> 'e list \<Rightarrow> 's \<Rightarrow> 's option" where
  "run_guarded act [] s = Some s"
| "run_guarded act (e # es) s = (case act e s of None \<Rightarrow> None | Some s' \<Rightarrow> run_guarded act es s')"

lemma run_guarded_append:
  "run_guarded act (xs @ ys) s = (case run_guarded act xs s of None \<Rightarrow> None | Some s' \<Rightarrow> run_guarded act ys s')"
  by (induction xs arbitrary: s) (auto split: option.splits)

locale guarded_machine =
  fixes act :: "'e \<Rightarrow> 's \<Rightarrow> 's option"
    and ok :: "'s \<Rightarrow> bool"
  assumes act_ok: "ok s \<Longrightarrow> act e s = Some s' \<Longrightarrow> ok s'"
begin

lemma run_ok: "ok s \<Longrightarrow> run_guarded act es s = Some s' \<Longrightarrow> ok s'"
  by (induction es arbitrary: s) (auto split: option.splits intro: act_ok)

text \<open>A property that every enabled event of a well-formed state keeps is kept by runs.\<close>

lemma run_keeps:
  assumes keep: "\<And>s e s'. ok s \<Longrightarrow> act e s = Some s' \<Longrightarrow> P s \<Longrightarrow> P s'"
  shows "ok s \<Longrightarrow> P s \<Longrightarrow> run_guarded act es s = Some s' \<Longrightarrow> P s'"
proof (induction es arbitrary: s)
  case (Cons e es)
  then obtain t where "act e s = Some t" "run_guarded act es t = Some s'" by (auto split: option.splits)
  with Cons keep act_ok show ?case by metis
qed simp

end

section \<open>Blank strings\<close>

text \<open>
  \<open>str::trim().is_empty()\<close>: a string is blank when it consists of Unicode white space only.
  A Rust \<open>str\<close> is a list of UTF-8 bytes; the white-space characters are U+0009 to U+000D,
  U+0020, U+0085, U+00A0, U+1680, U+2000 to U+200A, U+2028, U+2029, U+202F, U+205F and U+3000.
\<close>

definition byte_of :: "char \<Rightarrow> nat" where
  "byte_of c = of_char c"

definition ascii_space :: "nat \<Rightarrow> bool" where
  "ascii_space b \<longleftrightarrow> (9 \<le> b \<and> b \<le> 13) \<or> b = 32"

definition two_byte_space :: "nat \<Rightarrow> nat \<Rightarrow> bool" where
  "two_byte_space a b \<longleftrightarrow> a = 194 \<and> (b = 133 \<or> b = 160)"

definition three_byte_space :: "nat \<Rightarrow> nat \<Rightarrow> nat \<Rightarrow> bool" where
  "three_byte_space a b c \<longleftrightarrow>
     a = 225 \<and> b = 154 \<and> c = 128
   \<or> a = 226 \<and> b = 128 \<and> (128 \<le> c \<and> c \<le> 138 \<or> c = 168 \<or> c = 169 \<or> c = 175)
   \<or> a = 226 \<and> b = 129 \<and> c = 159
   \<or> a = 227 \<and> b = 128 \<and> c = 128"

fun blank_bytes :: "nat list \<Rightarrow> bool" where
  "blank_bytes [] = True"
| "blank_bytes (a # rest) =
     (if ascii_space a then blank_bytes rest
      else case rest of
        [] \<Rightarrow> False
      | b # rest' \<Rightarrow>
          if two_byte_space a b then blank_bytes rest'
          else case rest' of
            [] \<Rightarrow> False
          | c # rest'' \<Rightarrow> three_byte_space a b c \<and> blank_bytes rest'')"

definition blank :: "string \<Rightarrow> bool" where
  "blank s = blank_bytes (map byte_of s)"

lemma blank_Nil [simp]: "blank []"
  by (simp add: blank_def)

text \<open>The optional maximum \<open>old.map_or(new, |old| old.max(new))\<close> used by every marker merge.\<close>

definition opt_max :: "int option \<Rightarrow> int \<Rightarrow> int" where
  "opt_max old new = (case old of None \<Rightarrow> new | Some o' \<Rightarrow> max o' new)"

lemma opt_max_ge: "new \<le> opt_max old new" "old = Some o' \<Longrightarrow> o' \<le> opt_max old new"
  by (auto simp: opt_max_def split: option.splits)

end
