(* ===== verification/Amalgam_Time.thy ===== *)
theory Amalgam_Time
  imports Amalgam_Prelude
begin

text \<open>
  The time abstractions of \<open>src/time.rs\<close> and \<open>src/time/local.rs\<close>. A \<open>Timestamp\<close> is an
  \<open>i64\<close> count of 100 ns ticks, kept here as an \<^typ>\<open>int\<close> with every conversion back to
  64 bits written out; a \<open>Duration\<close> is its number of nanoseconds, so that \<open>as_secs\<close> and
  \<open>subsec_nanos\<close> are division and remainder by \<open>10 ^ 9\<close>; an \<open>Instant\<close> is a number of
  nanoseconds on the monotonic clock with the \<open>i64\<close> seconds range of the Unix
  representation. The lemmas give the bounds of the saturating arithmetic, its agreement with
  plain nanosecond division, the round trips between ticks and durations, and the
  equivalence of the monotonic deadlines with the timestamps they were prepared from.
\<close>

named_theorems time_defs \<open>definitions of the time arithmetic\<close>

type_synonym timestamp = int
type_synonym duration = nat
type_synonym instant = nat

section \<open>Durations\<close>

definition duration_ok :: "duration \<Rightarrow> bool" where
  "duration_ok d \<longleftrightarrow> d < 2 ^ 64 * 1000000000"

abbreviation duration_max :: duration where
  "duration_max \<equiv> 18446744073709551615999999999"

definition as_secs :: "duration \<Rightarrow> nat" where
  "as_secs d = d div 1000000000"

definition subsec_nanos :: "duration \<Rightarrow> nat" where
  "subsec_nanos d = d mod 1000000000"

definition duration_new :: "nat \<Rightarrow> nat \<Rightarrow> duration" where
  "duration_new secs nanos = secs * 1000000000 + nanos"

definition from_secs :: "nat \<Rightarrow> duration" where
  "from_secs s = duration_new s 0"

section \<open>Timestamps\<close>

definition TICKS_PER_SECOND :: int where
  "TICKS_PER_SECOND = 10000000"

definition NANOS_PER_TICK :: int where
  "NANOS_PER_TICK = 100"

definition Timestamp_MIN :: timestamp where
  "Timestamp_MIN = i64_min"

definition Timestamp_MAX :: timestamp where
  "Timestamp_MAX = i64_max"

definition duration_ticks_wide :: "duration \<Rightarrow> int" where
  "duration_ticks_wide d =
     int (as_secs d) * TICKS_PER_SECOND + int (subsec_nanos d div nat NANOS_PER_TICK)"

definition unsigned_ticks_to_duration :: "nat \<Rightarrow> duration" where
  "unsigned_ticks_to_duration ticks =
     (let seconds = ticks div nat TICKS_PER_SECOND;
          nanos = (ticks mod nat TICKS_PER_SECOND) * nat NANOS_PER_TICK
      in duration_new seconds nanos)"

definition saturating_add :: "timestamp \<Rightarrow> duration \<Rightarrow> timestamp" where
  "saturating_add t d = i64_or_max (t + duration_ticks_wide d)"

definition saturating_duration_since :: "timestamp \<Rightarrow> timestamp \<Rightarrow> duration" where
  "saturating_duration_since t earlier =
     (if t \<le> earlier then 0 else unsigned_ticks_to_duration (nat (t - earlier)))"

definition is_before :: "timestamp \<Rightarrow> timestamp \<Rightarrow> bool" where
  "is_before t other \<longleftrightarrow> t < other"

definition duration_to_ticks :: "duration \<Rightarrow> int" where
  "duration_to_ticks d = i64_or_max (duration_ticks_wide d)"

definition ticks_to_duration :: "int \<Rightarrow> duration" where
  "ticks_to_duration ticks = unsigned_ticks_to_duration (nat (max ticks 0))"

text \<open>\<open>LifetimeSpan\<close>: the tick count of a lifetime, prepared once.\<close>

datatype lifetime_span = LifetimeSpan int

definition LifetimeSpan_new :: "duration \<Rightarrow> lifetime_span" where
  "LifetimeSpan_new d = LifetimeSpan (duration_ticks_wide d)"

fun span_after :: "lifetime_span \<Rightarrow> timestamp \<Rightarrow> timestamp" where
  "span_after (LifetimeSpan s) t = i64_or_max (t + s)"

text \<open>
  \<open>timestamp_from_system_time\<close>: the system time as signed nanoseconds relative to the Unix
  epoch; \<open>duration_since\<close> is its \<open>Ok\<close> branch from the epoch on and its \<open>Err\<close> branch, with
  the distance, before it. Ticks before the epoch are rounded towards minus infinity.
\<close>

definition timestamp_from_system_time :: "int \<Rightarrow> timestamp" where
  "timestamp_from_system_time st =
     (if 0 \<le> st then duration_to_ticks (nat st)
      else let n = - st;
               ticks = (n + NANOS_PER_TICK - 1) div NANOS_PER_TICK
           in if in_i64 (- ticks) then - ticks else i64_min)"

lemmas [time_defs] = as_secs_def subsec_nanos_def duration_new_def from_secs_def
  TICKS_PER_SECOND_def NANOS_PER_TICK_def Timestamp_MIN_def Timestamp_MAX_def
  duration_ticks_wide_def unsigned_ticks_to_duration_def

section \<open>Clocks\<close>

datatype clock_timing = RealTimeTiming | Controlled

record manual_clock =
  ticks :: int

definition ManualClock_new :: "timestamp \<Rightarrow> manual_clock" where
  "ManualClock_new start = \<lparr>ticks = start\<rparr>"

definition ManualClock_advance :: "duration \<Rightarrow> manual_clock \<Rightarrow> manual_clock" where
  "ManualClock_advance d c = c\<lparr>ticks := saturating_add (ticks c) d\<rparr>"

definition ManualClock_set :: "timestamp \<Rightarrow> manual_clock \<Rightarrow> manual_clock" where
  "ManualClock_set t c = c\<lparr>ticks := t\<rparr>"

definition ManualClock_now :: "manual_clock \<Rightarrow> timestamp" where
  "ManualClock_now c = ticks c"

definition ManualClock_default :: manual_clock where
  "ManualClock_default = ManualClock_new (1000000000 * TICKS_PER_SECOND)"

section \<open>Timeouts\<close>

datatype timeout = Infinite | After duration

fun Timeout_from_option :: "duration option \<Rightarrow> timeout" where
  "Timeout_from_option (Some d) = After d"
| "Timeout_from_option None = Infinite"

fun is_infinite :: "timeout \<Rightarrow> bool" where
  "is_infinite Infinite = True"
| "is_infinite (After d) = False"

fun is_immediate :: "timeout \<Rightarrow> bool" where
  "is_immediate Infinite = False"
| "is_immediate (After d) = (d = 0)"

fun as_duration :: "timeout \<Rightarrow> duration option" where
  "as_duration Infinite = None"
| "as_duration (After d) = Some d"

fun timeout_min :: "timeout \<Rightarrow> timeout \<Rightarrow> timeout" where
  "timeout_min Infinite o' = o'"
| "timeout_min s Infinite = s"
| "timeout_min (After a) (After b) = After (min a b)"

section \<open>Monotonic instants and local deadlines\<close>

text \<open>
  \<open>Instant::checked_add\<close>: the sum must stay within the \<open>i64\<close> seconds of the monotonic clock.
\<close>

definition instant_checked_add :: "instant \<Rightarrow> duration \<Rightarrow> instant option" where
  "instant_checked_add now d = (if now + d < 2 ^ 63 * 1000000000 then Some (now + d) else None)"

record local_clock =
  epoch :: timestamp
  origin :: instant

definition LocalClock_sample :: "local_clock \<Rightarrow> instant \<Rightarrow> timestamp \<times> instant" where
  "LocalClock_sample c elapsed = (saturating_add (epoch c) (elapsed - origin c), elapsed)"

definition LocalClock_now :: "local_clock \<Rightarrow> instant \<Rightarrow> timestamp" where
  "LocalClock_now c elapsed = fst (LocalClock_sample c elapsed)"

datatype write_time = Clock timestamp | Elapsed timestamp instant

fun write_time_now :: "write_time \<Rightarrow> timestamp" where
  "write_time_now (Clock now) = now"
| "write_time_now (Elapsed now i) = now"

fun physical_start :: "write_time \<Rightarrow> instant \<Rightarrow> instant" where
  "physical_start (Clock now) current = current"
| "physical_start (Elapsed now i) current = i"

datatype monotonic_deadline = At instant | BeyondRange

fun deadline_expired :: "monotonic_deadline \<Rightarrow> instant \<Rightarrow> bool" where
  "deadline_expired (At deadline) now = (deadline \<le> now)"
| "deadline_expired BeyondRange now = False"

definition LocalClock_deadline :: "local_clock \<Rightarrow> timestamp \<Rightarrow> monotonic_deadline" where
  "LocalClock_deadline c t =
     (case instant_checked_add (origin c) (saturating_duration_since t (epoch c)) of
        Some deadline \<Rightarrow> At deadline
      | None \<Rightarrow> BeyondRange)"

section \<open>Arithmetic lemmas\<close>

lemma duration_ticks_wide_nonneg [simp]: "0 \<le> duration_ticks_wide d"
  by (simp add: time_defs)

text \<open>
  The i128 intermediate value never leaves its range: a duration has fewer than \<open>2 ^ 88\<close>
  ticks, far below \<open>2 ^ 127\<close>.
\<close>

lemma duration_ticks_wide_eq: "duration_ticks_wide d = int (d div 100)"
proof -
  have "d div 1000000000 = d div 100 div 10000000"
    using div_mult2_eq [of d 100 10000000] by simp
  moreover have "d mod 1000000000 div 100 = d div 100 mod 10000000"
    using mod_mult2_eq [of d 100 10000000] by simp
  ultimately have "(d div 1000000000) * 10000000 + (d mod 1000000000) div 100 = d div 100"
    by simp
  then have "int (d div 1000000000) * 10000000 + int (d mod 1000000000 div 100) = int (d div 100)"
    by (metis of_nat_add of_nat_mult of_nat_numeral)
  then show ?thesis by (simp add: time_defs)
qed

lemma duration_ticks_wide_mono: "a \<le> b \<Longrightarrow> duration_ticks_wide a \<le> duration_ticks_wide b"
  by (simp add: duration_ticks_wide_eq div_le_mono)

lemma unsigned_ticks_to_duration_eq: "unsigned_ticks_to_duration n = n * 100"
proof -
  define q r where "q = n div 10000000" and "r = n mod 10000000"
  have "n = q * 10000000 + r" by (simp add: q_def r_def)
  then have "q * 1000000000 + r * 100 = n * 100" by simp
  then show ?thesis by (simp add: time_defs q_def r_def)
qed

lemma saturating_add_eq:
  "in_i64 t \<Longrightarrow> saturating_add t d = min (t + int (d div 100)) i64_max"
  unfolding saturating_add_def duration_ticks_wide_eq
  by (auto simp: machine_defs)

lemma in_i64_saturating_add [simp]: "in_i64 (saturating_add t d)"
  by (simp add: saturating_add_def)

lemma saturating_add_ge: "in_i64 t \<Longrightarrow> t \<le> saturating_add t d"
  by (simp add: saturating_add_eq) (simp add: machine_defs)

lemma saturating_add_mono:
  "in_i64 t \<Longrightarrow> in_i64 u \<Longrightarrow> t \<le> u \<Longrightarrow> a \<le> b \<Longrightarrow> saturating_add t a \<le> saturating_add u b"
  using div_le_mono [of a b 100] by (simp add: saturating_add_eq)

lemma saturating_add_zero [simp]: "in_i64 t \<Longrightarrow> saturating_add t 0 = t"
  by (simp add: saturating_add_eq) (simp add: in_i64_def)

lemma saturating_add_assoc_le:
  "in_i64 t \<Longrightarrow> saturating_add t a \<le> saturating_add (saturating_add t a) b"
  by (simp add: saturating_add_ge)

lemma saturating_duration_since_eq:
  "saturating_duration_since t e = nat (t - e) * 100"
  by (simp add: saturating_duration_since_def unsigned_ticks_to_duration_eq)

lemma saturating_duration_since_zero [simp]: "t \<le> e \<Longrightarrow> saturating_duration_since t e = 0"
  by (simp add: saturating_duration_since_eq)

lemma saturating_duration_since_pos:
  "0 < saturating_duration_since t e \<longleftrightarrow> e < t"
  by (simp add: saturating_duration_since_eq)

lemma saturating_duration_since_ok:
  "in_i64 t \<Longrightarrow> in_i64 e \<Longrightarrow> duration_ok (saturating_duration_since t e)"
  by (simp add: saturating_duration_since_eq duration_ok_def in_i64_def) linarith

text \<open>Adding back the distance between two timestamps gives the later one exactly.\<close>

lemma saturating_add_duration_since:
  assumes "in_i64 t" and "in_i64 e" and "e \<le> t"
  shows "saturating_add e (saturating_duration_since t e) = t"
  using assms by (simp add: saturating_add_eq saturating_duration_since_eq) (simp add: machine_defs)

lemma span_after_saturating_add:
  "span_after (LifetimeSpan_new d) t = saturating_add t d"
  by (simp add: LifetimeSpan_new_def saturating_add_def)

lemma LifetimeSpan_new_eq_iff:
  "LifetimeSpan_new a = LifetimeSpan_new b \<longleftrightarrow> a div 100 = b div 100"
  by (simp add: LifetimeSpan_new_def duration_ticks_wide_eq)

section \<open>Properties\<close>

text \<open>
  The split conversion of a \<open>Duration\<close> to 100 ns ticks (whole seconds times the tick
  rate plus the sub-second nanoseconds divided by 100) equals the plain division of its
  nanosecond count by 100, and the value fits the \<open>i128\<close> it is computed in for every
  representable duration and every \<open>i64\<close> timestamp it is added to.
\<close>

theorem split_tick_conversion:
  assumes "duration_ok d" and "in_i64 t"
  shows "duration_ticks_wide d = int (d div 100)
    \<and> \<bar>t + duration_ticks_wide d\<bar> < 2 ^ 127
    \<and> saturating_add t d = min (t + int (d div 100)) i64_max"
proof -
  have "d div 100 < 2 ^ 64 * 10000000"
    using assms(1) by (simp add: duration_ok_def less_mult_imp_div_less)
  then have "int (d div 100) < 2 ^ 64 * 10000000" by (simp del: of_nat_less_iff)
  moreover have "- (2 ^ 63) \<le> t" "t < 2 ^ 63" using assms(2) by (simp_all add: in_i64_def)
  ultimately have "\<bar>t + int (d div 100)\<bar> < 2 ^ 127" by simp
  then show ?thesis using assms by (simp add: duration_ticks_wide_eq saturating_add_eq)
qed

theorem split_tick_conversion_witness:
  "duration_ok 1999999999 \<and> in_i64 7 \<and> duration_ticks_wide 1999999999 = 19999999
   \<and> saturating_add 7 1999999999 = 20000006"
  using split_tick_conversion [of 1999999999 7] by (simp add: duration_ok_def in_i64_def)

text \<open>
  Round trips between ticks and durations: converting a duration to ticks and back loses
  exactly the part below 100 ns (saturating at \<open>i64::MAX\<close> ticks), converting a nonnegative
  tick count to a duration and back is the identity, and adding to a timestamp the distance
  to a later one gives the later one.
\<close>

theorem tick_duration_round_trips:
  assumes "0 \<le> n" and "n \<le> i64_max" and "in_i64 e" and "in_i64 t" and "e \<le> t"
  shows "duration_to_ticks (ticks_to_duration n) = n
    \<and> ticks_to_duration (duration_to_ticks d) = min (d div 100) (nat i64_max) * 100
    \<and> saturating_add e (saturating_duration_since t e) = t"
proof -
  have "duration_to_ticks (ticks_to_duration n) = n"
    using assms(1,2)
    by (simp add: duration_to_ticks_def ticks_to_duration_def unsigned_ticks_to_duration_eq
        duration_ticks_wide_eq machine_defs)
  moreover have "duration_to_ticks d = min (int (d div 100)) i64_max"
    by (simp add: duration_to_ticks_def duration_ticks_wide_eq i64_or_max_nonneg_add)
  then have "ticks_to_duration (duration_to_ticks d) = min (d div 100) (nat i64_max) * 100"
    by (simp add: ticks_to_duration_def unsigned_ticks_to_duration_eq min_def nat_le_iff)
  ultimately show ?thesis
    using saturating_add_duration_since [OF assms(4,3,5)] by simp
qed

theorem tick_duration_round_trips_witness:
  "duration_to_ticks (ticks_to_duration 15000000) = 15000000
   \<and> ticks_to_duration (duration_to_ticks 1500000099) = 1500000000
   \<and> saturating_add (- 5) (saturating_duration_since 20 (- 5)) = 20"
  using tick_duration_round_trips [of 15000000 "- 5" 20 1500000099] by (simp add: in_i64_def)

lemma LocalClock_now_less_iff:
  assumes "in_i64 (epoch c)" and "in_i64 t" and "epoch c < t"
  shows "LocalClock_now c i < t \<longleftrightarrow> epoch c + int ((i - origin c) div 100) < t"
  using assms
  by (simp add: LocalClock_now_def LocalClock_sample_def saturating_add_eq min_less_iff_disj)
    (simp add: in_i64_def)

text \<open>
  The monotonic deadline that a local cache stores for a timestamp decides expiry exactly
  as the timestamp itself does: at an instant not before the clock's origin, the deadline has
  expired if and only if the clock's reading has reached the timestamp. This is what allows
  the ready path to compare instants without projecting them to UTC.
\<close>

theorem local_deadline_agrees:
  assumes "in_i64 (epoch c)" and "in_i64 t" and "epoch c < t"
    and "origin c \<le> i" and "i < 2 ^ 63 * 1000000000"
  shows "deadline_expired (LocalClock_deadline c t) i \<longleftrightarrow> \<not> is_before (LocalClock_now c i) t"
proof -
  define n where "n = nat (t - epoch c)"
  have t: "t = epoch c + int n" using assms(3) by (simp add: n_def)
  have since: "saturating_duration_since t (epoch c) = n * 100"
    by (simp add: saturating_duration_since_eq n_def)
  have now: "LocalClock_now c i < t \<longleftrightarrow> (i - origin c) div 100 < n"
    using LocalClock_now_less_iff [OF assms(1-3), of i] t by simp
  have "origin c + n * 100 \<le> i \<longleftrightarrow> n \<le> (i - origin c) div 100"
    using assms(4) by (simp add: less_eq_div_iff_mult_less_eq le_diff_conv2 add.commute)
  then have "deadline_expired (LocalClock_deadline c t) i \<longleftrightarrow> n \<le> (i - origin c) div 100"
    using assms(5) since by (auto simp: LocalClock_deadline_def instant_checked_add_def)
  then show ?thesis using now by (simp add: is_before_def not_less)
qed

theorem local_deadline_agrees_witness:
  "deadline_expired (LocalClock_deadline \<lparr>epoch = 0, origin = 50\<rparr> 3) 349
     \<longleftrightarrow> \<not> is_before (LocalClock_now \<lparr>epoch = 0, origin = 50\<rparr> 349) 3"
  using local_deadline_agrees [of "\<lparr>epoch = 0, origin = 50\<rparr>" 3 349] by (simp add: in_i64_def)

end
