(* ===== verification/Amalgam_Options.thy ===== *)
theory Amalgam_Options
  imports Amalgam_Time "HOL-Library.Log_Nat"
begin

text \<open>
  Per-entry options, \<open>src/options.rs\<close>, with the configuration errors of \<open>src/error.rs\<close> they
  raise: the option record with its defaults and builders, the cached budget state that
  \<open>refresh_budgets\<close> recomputes, validation, the derived lifetimes and timeouts, jitter and the
  eager-refresh instant. \<open>f32\<close> arithmetic (\<open>Duration::mul_f32\<close>) is modelled on rationals with
  IEEE 754 single-precision rounding to nearest even. The lemmas show that every configuration
  reachable through the builders has a correct budget state, that validation accepts exactly
  the representable ones, and the bounds of the derived lifetimes.
\<close>

named_theorems option_defs \<open>definitions of the option accessors and builders\<close>

section \<open>Configuration errors\<close>

datatype runtime_component = RuntimeExecution | RuntimeBackplane | RuntimeRecovery | RuntimePlugin

datatype identity_field = CacheName | InstanceId | WireVersion

datatype config_error =
    SuppliedMemoryWithBuiltinLimits
  | UnstableMemoryStorageEpoch
  | SuppliedMarkerMemoryRequiresControlledReads
  | AliasedMarkerMemoryStorageEpoch
  | LocalReconciliationWithExternalStorage
  | UnavailableBackplaneContinuity
  | BestEffortReconciliationWithoutBackplane
  | DeadlineOutOfRange
  | ZeroReconciliationInterval
  | NegativeEntryWeight int
  | DistributedWithoutSerializer
  | FencedLockerWithoutOwnedLifetime
  | FencedDistributedWithoutAtomicWrites
  | AtomicInvalidationUnavailable
  | MarkerLifecycleRequiresControlledReads
  | MarkerSnapshotCapabilityUnavailable
  | AutoCloneWithoutCloner
  | MissingRuntime runtime_component
  | BlankIdentity identity_field
  | InvalidEntryDeadlines
  | ZeroRecoveryInterval
  | InvalidJitterSample duration duration

section \<open>Single-precision arithmetic\<close>

text \<open>
  \<open>f32\<close> values: not-a-number, the infinities and the finite values, which are rationals.
  Rounding is to 24 significant bits (least exponent -149), ties to even.
\<close>

datatype f32 = F32_NaN | F32_Inf bool | F32 rat

definition round_half_even :: "rat \<Rightarrow> int" where
  "round_half_even x =
     (let f = \<lfloor>x\<rfloor>; r = x - of_int f
      in if r < 1 / 2 then f else if r > 1 / 2 then f + 1 else if even f then f else f + 1)"

definition two_powi :: "int \<Rightarrow> rat" where
  "two_powi e = (if 0 \<le> e then 2 ^ nat e else 1 / 2 ^ nat (- e))"

definition ilog2 :: "rat \<Rightarrow> int" where
  "ilog2 x = (let (p, q) = quotient_of x; e = bitlen p - bitlen q
              in if two_powi e \<le> x then e else e - 1)"

definition f32_round :: "rat \<Rightarrow> rat" where
  "f32_round x =
     (if x \<le> 0 then 0
      else let e = max (ilog2 x - 23) (- 149)
           in of_int (round_half_even (x / two_powi e)) * two_powi e)"

definition as_secs_f32 :: "duration \<Rightarrow> rat" where
  "as_secs_f32 d =
     f32_round (f32_round (of_nat (as_secs d))
                + f32_round (f32_round (of_nat (subsec_nanos d)) / 1000000000))"

definition mul_f32 :: "duration \<Rightarrow> rat \<Rightarrow> duration" where
  "mul_f32 d f = nat (round_half_even (f32_round (f * as_secs_f32 d) * 1000000000))"

section \<open>Value types\<close>

datatype priority = Low | Normal | High | NeverRemove

fun eviction_rank :: "priority \<Rightarrow> nat" where
  "eviction_rank Low = 0"
| "eviction_rank Normal = 1"
| "eviction_rank High = 2"
| "eviction_rank NeverRemove = 3"

datatype entry_weight = EntryWeight nat

fun units :: "entry_weight \<Rightarrow> nat" where
  "units (EntryWeight u) = u"

definition EntryWeight_try_from :: "int \<Rightarrow> config_error + entry_weight" where
  "EntryWeight_try_from sz =
     (if 0 \<le> sz then Inr (EntryWeight (nat sz)) else Inl (NegativeEntryWeight sz))"

datatype entry_size = SizeUnspecified | Weight entry_weight | Rejected int

datatype remove_by_tag_behavior = ExpireMatched | RemoveMatched

datatype key_modifier_mode = Prefix | Suffix | NoModifier

datatype eager_threshold = EagerThreshold rat

fun EagerThreshold_new :: "f32 \<Rightarrow> eager_threshold option" where
  "EagerThreshold_new (F32 x) = (if 0 < x \<and> x < 1 then Some (EagerThreshold x) else None)"
| "EagerThreshold_new (F32_Inf neg) = None"
| "EagerThreshold_new F32_NaN = None"

fun fraction :: "eager_threshold \<Rightarrow> rat" where
  "fraction (EagerThreshold x) = x"

datatype timer_requirement = Inline | Runtime

datatype budget_state = ValidBudget timer_requirement | OutOfRange

section \<open>Jitter\<close>

datatype jitter_sample = JitterSample duration

definition JitterSample_new :: "duration \<Rightarrow> duration \<Rightarrow> config_error + jitter_sample" where
  "JitterSample_new sample maximum =
     (if sample > maximum then Inl (InvalidJitterSample sample maximum)
      else Inr (JitterSample sample))"

definition JitterSample_ZERO :: jitter_sample where
  "JitterSample_ZERO = JitterSample 0"

fun jitter_duration :: "jitter_sample \<Rightarrow> duration" where
  "jitter_duration (JitterSample d) = d"

text \<open>
  \<open>RandomJitterSource::sample\<close> draws from \<open>fastrand::u128(0..=max)\<close>; the generator is the
  parameter \<open>rnd\<close>, applied to the upper bound of the range.
\<close>

definition RandomJitterSource_sample :: "(nat \<Rightarrow> nat) \<Rightarrow> duration \<Rightarrow> duration" where
  "RandomJitterSource_sample rnd maximum =
     (if maximum = 0 then 0
      else let nanos = rnd maximum
           in duration_new (nanos div 1000000000) (nanos mod 1000000000))"

datatype jitter_plan = Standard | Configured "duration \<Rightarrow> duration"

fun JitterPlan_select :: "(duration \<Rightarrow> duration) option \<Rightarrow> jitter_plan" where
  "JitterPlan_select None = Standard"
| "JitterPlan_select (Some source) = Configured source"

fun JitterPlan_sample ::
  "(nat \<Rightarrow> nat) \<Rightarrow> jitter_plan \<Rightarrow> duration \<Rightarrow> config_error + jitter_sample" where
  "JitterPlan_sample rnd Standard maximum =
     (if maximum = 0 then Inr JitterSample_ZERO
      else JitterSample_new (RandomJitterSource_sample rnd maximum) maximum)"
| "JitterPlan_sample rnd (Configured source) maximum = JitterSample_new (source maximum) maximum"

section \<open>The options record\<close>

record entry_options =
  opt_budgets :: budget_state
  opt_duration :: duration
  opt_memory_duration :: "duration option"
  opt_distributed_duration :: "duration option"
  opt_eager_refresh_threshold :: "eager_threshold option"
  opt_jitter_max :: duration
  opt_lock_timeout :: timeout
  opt_memory_lock_timeout :: "timeout option"
  opt_distributed_lock_timeout :: "timeout option"
  opt_is_fail_safe_enabled :: bool
  opt_fail_safe_max_duration :: duration
  opt_fail_safe_throttle_duration :: duration
  opt_distributed_fail_safe_max_duration :: "duration option"
  opt_factory_soft_timeout :: timeout
  opt_factory_hard_timeout :: timeout
  opt_allow_timed_out_factory_background_completion :: bool
  opt_skip_memory_read :: bool
  opt_skip_memory_write :: bool
  opt_priority :: priority
  opt_size :: entry_size
  opt_allow_stale_on_read_only :: bool
  opt_distributed_soft_timeout :: timeout
  opt_distributed_hard_timeout :: timeout
  opt_allow_background_distributed_operations :: bool
  opt_rethrow_distributed_exceptions :: bool
  opt_rethrow_distributed_locker_exceptions :: bool
  opt_rethrow_serialization_exceptions :: bool
  opt_skip_distributed_read :: bool
  opt_skip_distributed_write :: bool
  opt_skip_distributed_read_when_stale :: bool
  opt_skip_distributed_locker :: bool
  opt_enable_auto_clone :: bool
  opt_skip_backplane_notifications :: bool
  opt_allow_background_backplane_operations :: bool
  opt_rethrow_backplane_exceptions :: bool

definition EntryOptions_default :: entry_options where
  "EntryOptions_default = \<lparr>
     opt_budgets = ValidBudget Inline,
     opt_duration = from_secs 30,
     opt_memory_duration = None,
     opt_distributed_duration = None,
     opt_eager_refresh_threshold = None,
     opt_jitter_max = 0,
     opt_lock_timeout = Infinite,
     opt_memory_lock_timeout = None,
     opt_distributed_lock_timeout = None,
     opt_is_fail_safe_enabled = False,
     opt_fail_safe_max_duration = from_secs (60 * 60 * 24),
     opt_fail_safe_throttle_duration = from_secs 30,
     opt_distributed_fail_safe_max_duration = None,
     opt_factory_soft_timeout = Infinite,
     opt_factory_hard_timeout = Infinite,
     opt_allow_timed_out_factory_background_completion = True,
     opt_skip_memory_read = False,
     opt_skip_memory_write = False,
     opt_priority = Normal,
     opt_size = SizeUnspecified,
     opt_allow_stale_on_read_only = False,
     opt_distributed_soft_timeout = Infinite,
     opt_distributed_hard_timeout = Infinite,
     opt_allow_background_distributed_operations = False,
     opt_rethrow_distributed_exceptions = False,
     opt_rethrow_distributed_locker_exceptions = False,
     opt_rethrow_serialization_exceptions = True,
     opt_skip_distributed_read = False,
     opt_skip_distributed_write = False,
     opt_skip_distributed_read_when_stale = False,
     opt_skip_distributed_locker = False,
     opt_enable_auto_clone = False,
     opt_skip_backplane_notifications = False,
     opt_allow_background_backplane_operations = True,
     opt_rethrow_backplane_exceptions = False\<rparr>"

definition EntryOptions_new :: "duration \<Rightarrow> entry_options" where
  "EntryOptions_new d = EntryOptions_default\<lparr>opt_duration := d\<rparr>"

definition memory_lock_timeout :: "entry_options \<Rightarrow> timeout" where
  "memory_lock_timeout o' = (case opt_memory_lock_timeout o' of
     Some t \<Rightarrow> t | None \<Rightarrow> opt_lock_timeout o')"

definition distributed_lock_timeout :: "entry_options \<Rightarrow> timeout" where
  "distributed_lock_timeout o' = (case opt_distributed_lock_timeout o' of
     Some t \<Rightarrow> t | None \<Rightarrow> opt_lock_timeout o')"

subsection \<open>Budgets\<close>

text \<open>
  \<open>refresh_budgets\<close> reads \<open>Instant::now()\<close>, the argument \<open>now\<close>. The six timeouts are listed in
  the source's order; index 1, the distributed lock timeout, needs no timer by itself.
\<close>

definition option_timeouts :: "entry_options \<Rightarrow> timeout list" where
  "option_timeouts o' =
     [memory_lock_timeout o', distributed_lock_timeout o', opt_factory_soft_timeout o',
      opt_factory_hard_timeout o', opt_distributed_soft_timeout o',
      opt_distributed_hard_timeout o']"

fun timeout_unrepresentable :: "instant \<Rightarrow> timeout \<Rightarrow> bool" where
  "timeout_unrepresentable now Infinite = False"
| "timeout_unrepresentable now (After d) = (instant_checked_add now d = None)"

fun needs_timer :: "nat \<times> timeout \<Rightarrow> bool" where
  "needs_timer (index, Infinite) = False"
| "needs_timer (index, After d) = (index \<noteq> 1 \<and> d \<noteq> 0)"

definition refresh_budgets :: "instant \<Rightarrow> entry_options \<Rightarrow> entry_options" where
  "refresh_budgets now o' =
     (let timeouts = option_timeouts o'
      in if list_ex (timeout_unrepresentable now) timeouts then o'\<lparr>opt_budgets := OutOfRange\<rparr>
         else o'\<lparr>opt_budgets := ValidBudget
                (if list_ex needs_timer (enumerate 0 timeouts) then Runtime else Inline)\<rparr>)"

definition requires_timer_runtime :: "entry_options \<Rightarrow> bool" where
  "requires_timer_runtime o' = (case opt_budgets o' of
     ValidBudget Inline \<Rightarrow> False | ValidBudget Runtime \<Rightarrow> True | OutOfRange \<Rightarrow> True)"

subsection \<open>Builders\<close>

definition with_duration :: "duration \<Rightarrow> entry_options \<Rightarrow> entry_options" where
  "with_duration d o' = o'\<lparr>opt_duration := d\<rparr>"

definition with_memory_duration :: "duration \<Rightarrow> entry_options \<Rightarrow> entry_options" where
  "with_memory_duration d o' = o'\<lparr>opt_memory_duration := Some d\<rparr>"

definition with_distributed_duration :: "duration \<Rightarrow> entry_options \<Rightarrow> entry_options" where
  "with_distributed_duration d o' = o'\<lparr>opt_distributed_duration := Some d\<rparr>"

definition with_eager_refresh :: "eager_threshold option \<Rightarrow> entry_options \<Rightarrow> entry_options" where
  "with_eager_refresh threshold o' = o'\<lparr>opt_eager_refresh_threshold := threshold\<rparr>"

definition with_jitter_max :: "duration \<Rightarrow> entry_options \<Rightarrow> entry_options" where
  "with_jitter_max d o' = o'\<lparr>opt_jitter_max := d\<rparr>"

definition with_lock_timeout :: "instant \<Rightarrow> timeout \<Rightarrow> entry_options \<Rightarrow> entry_options" where
  "with_lock_timeout now t o' = refresh_budgets now (o'\<lparr>opt_lock_timeout := t\<rparr>)"

definition with_memory_lock_timeout :: "instant \<Rightarrow> timeout \<Rightarrow> entry_options \<Rightarrow> entry_options" where
  "with_memory_lock_timeout now t o' =
     refresh_budgets now (o'\<lparr>opt_memory_lock_timeout := Some t\<rparr>)"

definition with_distributed_lock_timeout ::
  "instant \<Rightarrow> timeout \<Rightarrow> entry_options \<Rightarrow> entry_options" where
  "with_distributed_lock_timeout now t o' =
     refresh_budgets now (o'\<lparr>opt_distributed_lock_timeout := Some t\<rparr>)"

definition with_fail_safe ::
  "bool \<Rightarrow> duration option \<Rightarrow> duration option \<Rightarrow> entry_options \<Rightarrow> entry_options" where
  "with_fail_safe enabled max_duration throttle_duration o' =
     (let o1 = o'\<lparr>opt_is_fail_safe_enabled := enabled\<rparr>;
          o2 = (case max_duration of Some m \<Rightarrow> o1\<lparr>opt_fail_safe_max_duration := m\<rparr> | None \<Rightarrow> o1)
      in case throttle_duration of
           Some t \<Rightarrow> o2\<lparr>opt_fail_safe_throttle_duration := t\<rparr> | None \<Rightarrow> o2)"

definition with_factory_timeouts ::
  "instant \<Rightarrow> timeout \<Rightarrow> timeout \<Rightarrow> bool \<Rightarrow> entry_options \<Rightarrow> entry_options" where
  "with_factory_timeouts now soft hard allow o' = refresh_budgets now
     (o'\<lparr>opt_factory_soft_timeout := soft, opt_factory_hard_timeout := hard,
        opt_allow_timed_out_factory_background_completion := allow\<rparr>)"

definition with_priority :: "priority \<Rightarrow> entry_options \<Rightarrow> entry_options" where
  "with_priority p o' = o'\<lparr>opt_priority := p\<rparr>"

definition with_size :: "int \<Rightarrow> entry_options \<Rightarrow> entry_options" where
  "with_size sz o' = o'\<lparr>opt_size :=
     (if 0 \<le> sz then Weight (EntryWeight (nat sz)) else Rejected sz)\<rparr>"

definition with_entry_weight :: "entry_weight \<Rightarrow> entry_options \<Rightarrow> entry_options" where
  "with_entry_weight w o' = o'\<lparr>opt_size := Weight w\<rparr>"

definition try_with_size :: "int \<Rightarrow> entry_options \<Rightarrow> config_error + entry_options" where
  "try_with_size sz o' = (case EntryWeight_try_from sz of
     Inl e \<Rightarrow> Inl e | Inr w \<Rightarrow> Inr (with_entry_weight w o'))"

definition with_allow_stale_on_read_only :: "bool \<Rightarrow> entry_options \<Rightarrow> entry_options" where
  "with_allow_stale_on_read_only b o' = o'\<lparr>opt_allow_stale_on_read_only := b\<rparr>"

definition with_skip_memory :: "bool \<Rightarrow> bool \<Rightarrow> entry_options \<Rightarrow> entry_options" where
  "with_skip_memory r w o' = o'\<lparr>opt_skip_memory_read := r, opt_skip_memory_write := w\<rparr>"

definition with_skip_distributed :: "bool \<Rightarrow> bool \<Rightarrow> entry_options \<Rightarrow> entry_options" where
  "with_skip_distributed r w o' =
     o'\<lparr>opt_skip_distributed_read := r, opt_skip_distributed_write := w\<rparr>"

definition with_skip_distributed_read_when_stale :: "bool \<Rightarrow> entry_options \<Rightarrow> entry_options" where
  "with_skip_distributed_read_when_stale b o' = o'\<lparr>opt_skip_distributed_read_when_stale := b\<rparr>"

definition with_distributed_fail_safe_max_duration ::
  "duration \<Rightarrow> entry_options \<Rightarrow> entry_options" where
  "with_distributed_fail_safe_max_duration m o' =
     o'\<lparr>opt_distributed_fail_safe_max_duration := Some m\<rparr>"

definition with_rethrow_distributed_exceptions :: "bool \<Rightarrow> entry_options \<Rightarrow> entry_options" where
  "with_rethrow_distributed_exceptions b o' = o'\<lparr>opt_rethrow_distributed_exceptions := b\<rparr>"

definition with_rethrow_distributed_locker_exceptions ::
  "bool \<Rightarrow> entry_options \<Rightarrow> entry_options" where
  "with_rethrow_distributed_locker_exceptions b o' =
     o'\<lparr>opt_rethrow_distributed_locker_exceptions := b\<rparr>"

definition with_rethrow_backplane_exceptions :: "bool \<Rightarrow> entry_options \<Rightarrow> entry_options" where
  "with_rethrow_backplane_exceptions b o' = o'\<lparr>opt_rethrow_backplane_exceptions := b\<rparr>"

definition with_rethrow_serialization_exceptions :: "bool \<Rightarrow> entry_options \<Rightarrow> entry_options" where
  "with_rethrow_serialization_exceptions b o' = o'\<lparr>opt_rethrow_serialization_exceptions := b\<rparr>"

definition with_allow_background_backplane_operations ::
  "bool \<Rightarrow> entry_options \<Rightarrow> entry_options" where
  "with_allow_background_backplane_operations b o' =
     o'\<lparr>opt_allow_background_backplane_operations := b\<rparr>"

definition with_distributed_timeouts ::
  "instant \<Rightarrow> timeout \<Rightarrow> timeout \<Rightarrow> entry_options \<Rightarrow> entry_options" where
  "with_distributed_timeouts now soft hard o' = refresh_budgets now
     (o'\<lparr>opt_distributed_soft_timeout := soft, opt_distributed_hard_timeout := hard\<rparr>)"

definition with_allow_background_distributed_operations ::
  "bool \<Rightarrow> entry_options \<Rightarrow> entry_options" where
  "with_allow_background_distributed_operations b o' =
     o'\<lparr>opt_allow_background_distributed_operations := b\<rparr>"

definition with_skip_backplane_notifications :: "bool \<Rightarrow> entry_options \<Rightarrow> entry_options" where
  "with_skip_backplane_notifications b o' = o'\<lparr>opt_skip_backplane_notifications := b\<rparr>"

definition with_skip_distributed_locker :: "bool \<Rightarrow> entry_options \<Rightarrow> entry_options" where
  "with_skip_distributed_locker b o' = o'\<lparr>opt_skip_distributed_locker := b\<rparr>"

definition with_enable_auto_clone :: "bool \<Rightarrow> entry_options \<Rightarrow> entry_options" where
  "with_enable_auto_clone b o' = o'\<lparr>opt_enable_auto_clone := b\<rparr>"

definition tag_defaults :: entry_options where
  "tag_defaults =
     with_size 0
      (with_priority NeverRemove
       (with_skip_distributed_locker True
        (with_rethrow_serialization_exceptions False
         (with_allow_background_backplane_operations False
          (with_fail_safe True (Some (from_secs (60 * 60 * 24 * 10))) None
           (with_distributed_duration (from_secs (60 * 60 * 24))
            (EntryOptions_new (from_secs (60 * 60)))))))))"

subsection \<open>Validation\<close>

definition size_of :: "entry_options \<Rightarrow> config_error + entry_weight option" where
  "size_of o' = (case opt_size o' of
     SizeUnspecified \<Rightarrow> Inr None
   | Weight w \<Rightarrow> Inr (Some w)
   | Rejected sz \<Rightarrow> Inl (NegativeEntryWeight sz))"

definition validate :: "entry_options \<Rightarrow> config_error + unit" where
  "validate o' = (case size_of o' of
     Inl e \<Rightarrow> Inl e
   | Inr w \<Rightarrow> (case opt_budgets o' of
       ValidBudget r \<Rightarrow> Inr ()
     | OutOfRange \<Rightarrow> Inl DeadlineOutOfRange))"

definition validate_with_cloner :: "bool \<Rightarrow> entry_options \<Rightarrow> config_error + unit" where
  "validate_with_cloner has_cloner o' = (case validate o' of
     Inl e \<Rightarrow> Inl e
   | Inr u \<Rightarrow> (if opt_enable_auto_clone o' \<and> \<not> has_cloner then Inl AutoCloneWithoutCloner
              else Inr ()))"

subsection \<open>Resolved values\<close>

definition resolved_memory_duration :: "entry_options \<Rightarrow> duration" where
  "resolved_memory_duration o' = (case opt_memory_duration o' of
     Some d \<Rightarrow> d | None \<Rightarrow> opt_duration o')"

definition resolved_distributed_duration :: "entry_options \<Rightarrow> duration" where
  "resolved_distributed_duration o' = (case opt_distributed_duration o' of
     Some d \<Rightarrow> d | None \<Rightarrow> opt_duration o')"

definition resolved_distributed_fail_safe_max_duration :: "entry_options \<Rightarrow> duration" where
  "resolved_distributed_fail_safe_max_duration o' =
     (case opt_distributed_fail_safe_max_duration o' of
        Some d \<Rightarrow> d | None \<Rightarrow> opt_fail_safe_max_duration o')"

definition physical_ttl :: "entry_options \<Rightarrow> duration" where
  "physical_ttl o' = (let logical = resolved_memory_duration o'
     in if opt_is_fail_safe_enabled o' then max logical (opt_fail_safe_max_duration o')
        else logical)"

definition distributed_physical_ttl :: "entry_options \<Rightarrow> duration" where
  "distributed_physical_ttl o' = (let logical = resolved_distributed_duration o'
     in if opt_is_fail_safe_enabled o'
        then max logical (resolved_distributed_fail_safe_max_duration o') else logical)"

definition appropriate_factory_timeout :: "bool \<Rightarrow> entry_options \<Rightarrow> timeout" where
  "appropriate_factory_timeout has_fallback o' =
     (let selected =
        (if opt_is_fail_safe_enabled o' \<and> has_fallback
            \<and> \<not> is_infinite (opt_factory_soft_timeout o')
         then opt_factory_soft_timeout o' else Infinite)
      in timeout_min selected (opt_factory_hard_timeout o'))"

definition appropriate_distributed_timeout :: "bool \<Rightarrow> entry_options \<Rightarrow> timeout" where
  "appropriate_distributed_timeout has_fallback o' =
     (let selected =
        (if opt_is_fail_safe_enabled o' \<and> has_fallback
            \<and> \<not> is_infinite (opt_distributed_soft_timeout o')
         then opt_distributed_soft_timeout o' else Infinite)
      in timeout_min selected (opt_distributed_hard_timeout o'))"

definition logical_expiration_random ::
  "(nat \<Rightarrow> nat) \<Rightarrow> timestamp \<Rightarrow> entry_options \<Rightarrow> timestamp" where
  "logical_expiration_random rnd created o' =
     (let sample = RandomJitterSource_sample rnd (opt_jitter_max o')
      in saturating_add (saturating_add created (resolved_memory_duration o')) sample)"

definition logical_expiration_with_jitter ::
  "timestamp \<Rightarrow> jitter_sample \<Rightarrow> entry_options \<Rightarrow> config_error + timestamp" where
  "logical_expiration_with_jitter inserted_at jitter o' =
     (case JitterSample_new (jitter_duration jitter) (opt_jitter_max o') of
        Inl e \<Rightarrow> Inl e
      | Inr sample \<Rightarrow> Inr (saturating_add
          (saturating_add inserted_at (resolved_memory_duration o')) (jitter_duration sample)))"

definition eager_refresh_at_expiration ::
  "timestamp \<Rightarrow> timestamp \<Rightarrow> entry_options \<Rightarrow> timestamp option" where
  "eager_refresh_at_expiration inserted_at expiration o' =
     (case opt_eager_refresh_threshold o' of
        None \<Rightarrow> None
      | Some threshold \<Rightarrow>
          if expiration \<le> inserted_at then None
          else Some (saturating_add inserted_at
            (mul_f32 (saturating_duration_since expiration inserted_at) (fraction threshold))))"

definition eager_refresh_at :: "timestamp \<Rightarrow> entry_options \<Rightarrow> timestamp option" where
  "eager_refresh_at created o' =
     (case opt_eager_refresh_threshold o' of
        None \<Rightarrow> None
      | Some threshold \<Rightarrow>
          Some (saturating_add created
            (mul_f32 (resolved_memory_duration o') (fraction threshold))))"

lemmas [option_defs] = EntryOptions_default_def EntryOptions_new_def with_duration_def
  with_memory_duration_def with_distributed_duration_def with_eager_refresh_def
  with_jitter_max_def with_lock_timeout_def with_memory_lock_timeout_def
  with_distributed_lock_timeout_def with_fail_safe_def with_factory_timeouts_def
  with_priority_def with_size_def with_entry_weight_def with_allow_stale_on_read_only_def
  with_skip_memory_def with_skip_distributed_def with_skip_distributed_read_when_stale_def
  with_distributed_fail_safe_max_duration_def with_rethrow_distributed_exceptions_def
  with_rethrow_distributed_locker_exceptions_def with_rethrow_backplane_exceptions_def
  with_rethrow_serialization_exceptions_def with_allow_background_backplane_operations_def
  with_distributed_timeouts_def with_allow_background_distributed_operations_def
  with_skip_backplane_notifications_def with_skip_distributed_locker_def
  with_enable_auto_clone_def memory_lock_timeout_def distributed_lock_timeout_def

section \<open>Budget state of built configurations\<close>

text \<open>
  Configurations are built from \<open>EntryOptions::new\<close> by a sequence of builder calls. A builder
  that changes a timeout carries the instant at which it recomputes the budget state.
\<close>

datatype option_builder =
    WithDuration duration
  | WithMemoryDuration duration
  | WithDistributedDuration duration
  | WithEagerRefresh "eager_threshold option"
  | WithJitterMax duration
  | WithLockTimeout instant timeout
  | WithMemoryLockTimeout instant timeout
  | WithDistributedLockTimeout instant timeout
  | WithFailSafe bool "duration option" "duration option"
  | WithFactoryTimeouts instant timeout timeout bool
  | WithPriority priority
  | WithSize int
  | WithEntryWeight entry_weight
  | WithAllowStaleOnReadOnly bool
  | WithSkipMemory bool bool
  | WithSkipDistributed bool bool
  | WithSkipDistributedReadWhenStale bool
  | WithDistributedFailSafeMaxDuration duration
  | WithRethrowDistributed bool
  | WithRethrowDistributedLocker bool
  | WithRethrowBackplane bool
  | WithRethrowSerialization bool
  | WithBackgroundBackplane bool
  | WithDistributedTimeouts instant timeout timeout
  | WithBackgroundDistributed bool
  | WithSkipBackplane bool
  | WithSkipDistributedLocker bool
  | WithEnableAutoClone bool

fun apply_builder :: "entry_options \<Rightarrow> option_builder \<Rightarrow> entry_options" where
  "apply_builder o' (WithDuration d) = with_duration d o'"
| "apply_builder o' (WithMemoryDuration d) = with_memory_duration d o'"
| "apply_builder o' (WithDistributedDuration d) = with_distributed_duration d o'"
| "apply_builder o' (WithEagerRefresh t) = with_eager_refresh t o'"
| "apply_builder o' (WithJitterMax d) = with_jitter_max d o'"
| "apply_builder o' (WithLockTimeout now t) = with_lock_timeout now t o'"
| "apply_builder o' (WithMemoryLockTimeout now t) = with_memory_lock_timeout now t o'"
| "apply_builder o' (WithDistributedLockTimeout now t) = with_distributed_lock_timeout now t o'"
| "apply_builder o' (WithFailSafe e m t) = with_fail_safe e m t o'"
| "apply_builder o' (WithFactoryTimeouts now s h b) = with_factory_timeouts now s h b o'"
| "apply_builder o' (WithPriority p) = with_priority p o'"
| "apply_builder o' (WithSize sz) = with_size sz o'"
| "apply_builder o' (WithEntryWeight w) = with_entry_weight w o'"
| "apply_builder o' (WithAllowStaleOnReadOnly b) = with_allow_stale_on_read_only b o'"
| "apply_builder o' (WithSkipMemory r w) = with_skip_memory r w o'"
| "apply_builder o' (WithSkipDistributed r w) = with_skip_distributed r w o'"
| "apply_builder o' (WithSkipDistributedReadWhenStale b) =
     with_skip_distributed_read_when_stale b o'"
| "apply_builder o' (WithDistributedFailSafeMaxDuration m) =
     with_distributed_fail_safe_max_duration m o'"
| "apply_builder o' (WithRethrowDistributed b) = with_rethrow_distributed_exceptions b o'"
| "apply_builder o' (WithRethrowDistributedLocker b) =
     with_rethrow_distributed_locker_exceptions b o'"
| "apply_builder o' (WithRethrowBackplane b) = with_rethrow_backplane_exceptions b o'"
| "apply_builder o' (WithRethrowSerialization b) = with_rethrow_serialization_exceptions b o'"
| "apply_builder o' (WithBackgroundBackplane b) = with_allow_background_backplane_operations b o'"
| "apply_builder o' (WithDistributedTimeouts now s h) = with_distributed_timeouts now s h o'"
| "apply_builder o' (WithBackgroundDistributed b) =
     with_allow_background_distributed_operations b o'"
| "apply_builder o' (WithSkipBackplane b) = with_skip_backplane_notifications b o'"
| "apply_builder o' (WithSkipDistributedLocker b) = with_skip_distributed_locker b o'"
| "apply_builder o' (WithEnableAutoClone b) = with_enable_auto_clone b o'"

text \<open>The budget state a list of timeouts has at an instant.\<close>

definition budget_for :: "instant \<Rightarrow> timeout list \<Rightarrow> budget_state" where
  "budget_for now timeouts =
     (if list_ex (timeout_unrepresentable now) timeouts then OutOfRange
      else ValidBudget (if list_ex needs_timer (enumerate 0 timeouts) then Runtime else Inline))"

text \<open>
  The clock reading of the last builder call that recomputes the budgets. Before the first such
  call every timeout is infinite and the reading does not matter.
\<close>

fun builder_clock :: "instant \<Rightarrow> option_builder \<Rightarrow> instant" where
  "builder_clock c (WithLockTimeout now t) = now"
| "builder_clock c (WithMemoryLockTimeout now t) = now"
| "builder_clock c (WithDistributedLockTimeout now t) = now"
| "builder_clock c (WithFactoryTimeouts now s h b) = now"
| "builder_clock c (WithDistributedTimeouts now s h) = now"
| "builder_clock c b = c"

definition budgets_current :: "instant \<times> entry_options \<Rightarrow> bool" where
  "budgets_current = (\<lambda>(c, o'). opt_budgets o' = budget_for c (option_timeouts o'))"

definition build_step :: "instant \<times> entry_options \<Rightarrow> option_builder \<Rightarrow> instant \<times> entry_options" where
  "build_step = (\<lambda>(c, o') b. (builder_clock c b, apply_builder o' b))"

lemma build_steps: "foldl build_step (c, o') bs = (foldl builder_clock c bs, foldl apply_builder o' bs)"
  by (induction bs arbitrary: c o') (simp_all add: build_step_def)

lemma opt_budgets_refresh [simp]:
  "opt_budgets (refresh_budgets now o') = budget_for now (option_timeouts o')"
  by (simp add: refresh_budgets_def budget_for_def Let_def)

lemma option_timeouts_budgets [simp]:
  "option_timeouts (o'\<lparr>opt_budgets := b\<rparr>) = option_timeouts o'"
  by (simp add: option_timeouts_def option_defs cong: option.case_cong)

lemma option_timeouts_refresh [simp]:
  "option_timeouts (refresh_budgets now o') = option_timeouts o'"
  by (simp add: refresh_budgets_def Let_def)

lemma budgets_current_refresh [simp]: "budgets_current (now, refresh_budgets now o')"
  by (simp add: budgets_current_def)

lemma budgets_current_frame:
  assumes "budgets_current (c, o')"
    and "opt_budgets u = opt_budgets o'"
    and "option_timeouts u = option_timeouts o'"
  shows "budgets_current (c, u)"
  using assms by (simp add: budgets_current_def)

lemma apply_builder_budgets:
  assumes "budgets_current (c, o')"
  shows "budgets_current (builder_clock c b, apply_builder o' b)"
proof (cases b)
  case (WithLockTimeout now t)
  then show ?thesis by (simp add: with_lock_timeout_def)
next
  case (WithMemoryLockTimeout now t)
  then show ?thesis by (simp add: with_memory_lock_timeout_def)
next
  case (WithDistributedLockTimeout now t)
  then show ?thesis by (simp add: with_distributed_lock_timeout_def)
next
  case (WithFactoryTimeouts now s h b)
  then show ?thesis by (simp add: with_factory_timeouts_def)
next
  case (WithDistributedTimeouts now s h)
  then show ?thesis by (simp add: with_distributed_timeouts_def)
qed (simp, rule budgets_current_frame [OF assms];
     simp add: option_defs option_timeouts_def Let_def cong: option.case_cong split: option.splits)+

interpretation built: invariant_machine build_step budgets_current
  by unfold_locales (auto simp: build_step_def apply_builder_budgets)

lemma budgets_current_new: "budgets_current (c, EntryOptions_new d)"
  by (auto simp: budgets_current_def budget_for_def option_timeouts_def option_defs)

lemma budget_for_range:
  "budget_for c timeouts = OutOfRange \<longleftrightarrow> (\<exists>n. After n \<in> set timeouts \<and> 2 ^ 63 * 1000000000 \<le> c + n)"
proof -
  have "timeout_unrepresentable c t \<longleftrightarrow> (\<exists>n. t = After n \<and> 2 ^ 63 * 1000000000 \<le> c + n)" for t
    by (cases t) (auto simp: instant_checked_add_def)
  then show ?thesis by (auto simp: budget_for_def list_ex_iff)
qed

lemma list_ex_needs_timer6:
  "list_ex needs_timer (enumerate 0 [a, b, c, d, e, f]) \<longleftrightarrow>
     (\<exists>n. n \<noteq> 0 \<and> After n \<in> {a, c, d, e, f})"
  by (cases a; cases b; cases c; cases d; cases e; cases f) auto

lemma budget_for_timer:
  "budget_for c [t1, t2, t3, t4, t5, t6] = ValidBudget Inline \<longleftrightarrow>
     budget_for c [t1, t2, t3, t4, t5, t6] \<noteq> OutOfRange \<and> \<not> (\<exists>n. n \<noteq> 0 \<and> After n \<in> {t1, t3, t4, t5, t6})"
  by (simp only: budget_for_def list_ex_needs_timer6) simp

text \<open>
  Whatever sequence of builder calls produced a configuration, its cached budget state is
  exactly the required one: validation rejects the timeouts exactly when one of the six, added to
  the clock reading of the last call that changed a timeout, leaves the range of the monotonic
  clock, and the configuration asks for a timer runtime exactly in that case or when one of the
  five timeouts other than the distributed lock timeout is finite and not zero.
\<close>

theorem built_options_budgets:
  assumes "cfg = foldl apply_builder (EntryOptions_new d) bs"
    and "clock = foldl builder_clock 0 bs"
    and "unrepresentable \<longleftrightarrow> (\<exists>n. 2 ^ 63 * 1000000000 \<le> clock + n \<and>
       After n \<in> {memory_lock_timeout cfg, distributed_lock_timeout cfg, opt_factory_soft_timeout cfg,
          opt_factory_hard_timeout cfg, opt_distributed_soft_timeout cfg, opt_distributed_hard_timeout cfg})"
  shows "validate cfg = (case size_of cfg of
           Inl e \<Rightarrow> Inl e | Inr _ \<Rightarrow> if unrepresentable then Inl DeadlineOutOfRange else Inr ())
    \<and> (requires_timer_runtime cfg \<longleftrightarrow> unrepresentable \<or>
         (\<exists>n. n \<noteq> 0 \<and> After n \<in> {memory_lock_timeout cfg, opt_factory_soft_timeout cfg,
           opt_factory_hard_timeout cfg, opt_distributed_soft_timeout cfg, opt_distributed_hard_timeout cfg}))"
proof -
  have b: "opt_budgets cfg = budget_for clock (option_timeouts cfg)"
    using built.run_inv [OF budgets_current_new, of 0 d bs] assms(1,2) by (simp add: build_steps budgets_current_def)
  have range: "opt_budgets cfg = OutOfRange \<longleftrightarrow> unrepresentable"
    unfolding b budget_for_range assms(3) by (auto simp: option_timeouts_def)
  have timer: "requires_timer_runtime cfg \<longleftrightarrow> opt_budgets cfg \<noteq> ValidBudget Inline"
    by (auto simp: requires_timer_runtime_def split: budget_state.splits timer_requirement.splits)
  have "opt_budgets cfg = ValidBudget Inline \<longleftrightarrow> \<not> unrepresentable \<and>
      \<not> (\<exists>n. n \<noteq> 0 \<and> After n \<in> {memory_lock_timeout cfg, opt_factory_soft_timeout cfg,
        opt_factory_hard_timeout cfg, opt_distributed_soft_timeout cfg, opt_distributed_hard_timeout cfg})"
    using range unfolding b option_timeouts_def budget_for_timer by blast
  with timer range show ?thesis
    by (auto simp: validate_def split: sum.splits budget_state.splits)
qed

theorem built_options_budgets_witness:
  "\<exists>cfg. cfg = foldl apply_builder (EntryOptions_new 7)
        [WithLockTimeout 5 (After 0), WithDistributedLockTimeout 6 (After 9), WithSkipBackplane True]
    \<and> validate cfg = Inr () \<and> \<not> requires_timer_runtime cfg"
proof -
  let ?bs = "[WithLockTimeout 5 (After 0), WithDistributedLockTimeout 6 (After 9), WithSkipBackplane True]"
  let ?cfg = "foldl apply_builder (EntryOptions_new 7) ?bs"
  have t: "memory_lock_timeout ?cfg = After 0" "distributed_lock_timeout ?cfg = After 9"
    "opt_factory_soft_timeout ?cfg = Infinite" "opt_factory_hard_timeout ?cfg = Infinite"
    "opt_distributed_soft_timeout ?cfg = Infinite" "opt_distributed_hard_timeout ?cfg = Infinite"
    "size_of ?cfg = Inr None"
    by (simp_all add: option_defs refresh_budgets_def size_of_def Let_def)
  have "False \<longleftrightarrow> (\<exists>n. 2 ^ 63 * 1000000000 \<le> (6 :: nat) + n \<and>
       After n \<in> {memory_lock_timeout ?cfg, distributed_lock_timeout ?cfg, opt_factory_soft_timeout ?cfg,
          opt_factory_hard_timeout ?cfg, opt_distributed_soft_timeout ?cfg, opt_distributed_hard_timeout ?cfg})"
    unfolding t by auto
  from built_options_budgets [OF refl _ this]
  have "validate ?cfg = Inr () \<and> \<not> requires_timer_runtime ?cfg" unfolding t by auto
  then show ?thesis by blast
qed

section \<open>Derived lifetimes and timeouts\<close>

lemma physical_ttl_ge: "resolved_memory_duration o' \<le> physical_ttl o'"
  by (simp add: physical_ttl_def Let_def)

lemma distributed_physical_ttl_ge: "resolved_distributed_duration o' \<le> distributed_physical_ttl o'"
  by (simp add: distributed_physical_ttl_def Let_def)

definition timeout_le :: "timeout \<Rightarrow> timeout \<Rightarrow> bool" where
  "timeout_le a b = (case b of Infinite \<Rightarrow> True | After y \<Rightarrow>
     (case a of Infinite \<Rightarrow> False | After x \<Rightarrow> x \<le> y))"

lemma selected_timeout_least:
  assumes "r = timeout_min (if applies \<and> \<not> is_infinite soft then soft else Infinite) hard"
  shows "timeout_le r hard \<and> (applies \<longrightarrow> timeout_le r soft)
    \<and> r \<in> insert hard (if applies then {soft} else {})"
  using assms by (cases soft; cases hard) (auto simp: timeout_le_def min_def)

text \<open>
  The timeout enforced on a factory call and on an awaited L2 read is the shortest of the
  budgets that apply: the hard one always, the soft one exactly when fail-safe is enabled and
  a fallback value exists.
\<close>

theorem appropriate_timeouts_least:
  fixes soft_applies :: bool
  assumes "soft_applies = (opt_is_fail_safe_enabled cfg \<and> has_fallback)"
  shows "timeout_le (appropriate_factory_timeout has_fallback cfg) (opt_factory_hard_timeout cfg)
    \<and> (soft_applies \<longrightarrow>
        timeout_le (appropriate_factory_timeout has_fallback cfg) (opt_factory_soft_timeout cfg))
    \<and> appropriate_factory_timeout has_fallback cfg \<in>
        insert (opt_factory_hard_timeout cfg)
          (if soft_applies then {opt_factory_soft_timeout cfg} else {})
    \<and> timeout_le (appropriate_distributed_timeout has_fallback cfg)
        (opt_distributed_hard_timeout cfg)
    \<and> (soft_applies \<longrightarrow> timeout_le (appropriate_distributed_timeout has_fallback cfg)
        (opt_distributed_soft_timeout cfg))
    \<and> appropriate_distributed_timeout has_fallback cfg \<in>
        insert (opt_distributed_hard_timeout cfg)
          (if soft_applies then {opt_distributed_soft_timeout cfg} else {})"
proof -
  note least = selected_timeout_least
    [where applies = "opt_is_fail_safe_enabled cfg \<and> has_fallback", OF refl]
  show ?thesis
    using least [of "opt_factory_soft_timeout cfg" "opt_factory_hard_timeout cfg"]
      least [of "opt_distributed_soft_timeout cfg" "opt_distributed_hard_timeout cfg"] assms
    by (simp only: appropriate_factory_timeout_def appropriate_distributed_timeout_def Let_def
        conj_assoc) simp
qed

theorem appropriate_timeouts_least_witness:
  "appropriate_factory_timeout True (EntryOptions_default\<lparr>opt_is_fail_safe_enabled := True,
      opt_factory_soft_timeout := After 50, opt_factory_hard_timeout := After 20\<rparr>) = After 20
   \<and> timeout_le (appropriate_factory_timeout True
      (EntryOptions_default\<lparr>opt_is_fail_safe_enabled := True,
        opt_factory_soft_timeout := After 50, opt_factory_hard_timeout := After 20\<rparr>)) (After 50)"
  using appropriate_timeouts_least [of True "EntryOptions_default\<lparr>opt_is_fail_safe_enabled := True,
      opt_factory_soft_timeout := After 50, opt_factory_hard_timeout := After 20\<rparr>" True]
  by (simp add: appropriate_factory_timeout_def option_defs)

lemma logical_expiration_with_jitter_cases:
  "logical_expiration_with_jitter t (JitterSample j) o' =
     (if j \<le> opt_jitter_max o'
      then Inr (saturating_add (saturating_add t (resolved_memory_duration o')) j)
      else Inl (InvalidJitterSample j (opt_jitter_max o')))"
  by (simp add: logical_expiration_with_jitter_def JitterSample_new_def)

lemma logical_expiration_with_jitter_ge:
  "in_i64 t \<Longrightarrow> logical_expiration_with_jitter t j o' = Inr e \<Longrightarrow>
     saturating_add t (resolved_memory_duration o') \<le> e \<and> t \<le> e \<and> in_i64 e"
  by (cases j) (auto simp: logical_expiration_with_jitter_cases saturating_add_ge
      intro: order_trans [OF saturating_add_ge saturating_add_ge] split: if_splits)

text \<open>
  Jitter: with a random source that honours its range, the standard plan always yields a
  valid sample, and every accepted sample moves the logical expiration to a point between the
  plain one and the plain one plus the configured maximum; a sample above the maximum is
  rejected with both values.
\<close>

theorem jitter_bounds:
  assumes rnd_range: "\<And>m. rnd m \<le> m" and "in_i64 t"
  shows "(\<exists>j. JitterPlan_sample rnd Standard (opt_jitter_max cfg) = Inr (JitterSample j)
              \<and> j \<le> opt_jitter_max cfg)
    \<and> (case logical_expiration_with_jitter t (JitterSample j) cfg of
          Inl e \<Rightarrow> e = InvalidJitterSample j (opt_jitter_max cfg) \<and> opt_jitter_max cfg < j
        | Inr e \<Rightarrow> saturating_add t (resolved_memory_duration cfg) \<le> e
             \<and> e \<le> saturating_add (saturating_add t (resolved_memory_duration cfg))
                     (opt_jitter_max cfg))"
proof -
  have "RandomJitterSource_sample rnd m \<le> m" for m
    using rnd_range [of m]
    by (simp add: RandomJitterSource_sample_def duration_new_def Let_def)
  from this [of "opt_jitter_max cfg"]
  have "\<exists>j. JitterPlan_sample rnd Standard (opt_jitter_max cfg) = Inr (JitterSample j)
              \<and> j \<le> opt_jitter_max cfg"
    by (simp add: JitterSample_ZERO_def JitterSample_new_def)
  then show ?thesis
    using assms(2) by (auto simp: logical_expiration_with_jitter_cases saturating_add_ge
        saturating_add_mono split: sum.splits if_splits)
qed

theorem jitter_bounds_witness:
  "logical_expiration_with_jitter 0 (JitterSample 500)
      (EntryOptions_new (from_secs 1)\<lparr>opt_jitter_max := 1000\<rparr>) = Inr 10000005
   \<and> (\<exists>j. JitterPlan_sample (\<lambda>m. m div 2) Standard 1000 = Inr (JitterSample j) \<and> j \<le> 1000)
   \<and> (10000005 :: int) \<le> saturating_add (saturating_add 0 (from_secs 1)) 1000"
  using jitter_bounds [of "\<lambda>m. m div 2" 0 "EntryOptions_new (from_secs 1)\<lparr>opt_jitter_max := 1000\<rparr>" 500]
  by (simp add: logical_expiration_with_jitter_cases option_defs resolved_memory_duration_def
      time_defs saturating_add_def machine_defs)

end
