(* ===== verification/Amalgam_Tags.thy ===== *)
theory Amalgam_Tags
  imports Amalgam_Options
begin

unbundle bit_operations_syntax

text \<open>
  Tags, cache namespaces and invalidation markers, \<open>src/tags.rs\<close>. A \<open>MarkerState\<close> keeps the
  largest revision announced for every tag and for the two clear operations; when more tags
  are known than the capacity allows, \<open>advance\<close> promotes a clear-remove marker and forgets the
  tags it covers. The \<open>TagRegistry\<close> publishes a snapshot of that state to readers. The lemmas
  show that no announced invalidation is ever lost, compaction included, that the capacity
  bounds the number of tags, and that the storage encodings (\<open>storage_id\<close>, \<open>ordered_hex\<close>)
  are injective and order preserving.
\<close>

section \<open>Tags\<close>

datatype tag = Tag string

datatype tag_error = BlankTag

definition Tag_new :: "string \<Rightarrow> tag_error + tag" where
  "Tag_new s = (if blank s then Inl BlankTag else Inr (Tag s))"

fun tag_as_str :: "tag \<Rightarrow> string" where
  "tag_as_str (Tag s) = s"

fun try_collect_tags :: "string list \<Rightarrow> tag_error + tag list" where
  "try_collect_tags [] = Inr []"
| "try_collect_tags (s # ss) = (case Tag_new s of
     Inl e \<Rightarrow> Inl e
   | Inr t \<Rightarrow> (case try_collect_tags ss of Inl e \<Rightarrow> Inl e | Inr ts \<Rightarrow> Inr (t # ts)))"

fun collect_tags :: "string list \<Rightarrow> tag list" where
  "collect_tags [] = []"
| "collect_tags (s # ss) = (case Tag_new s of
     Inr t \<Rightarrow> t # collect_tags ss
   | Inl e \<Rightarrow> collect_tags ss)"

definition valid_tag :: "tag \<Rightarrow> bool" where
  "valid_tag t \<longleftrightarrow> \<not> blank (tag_as_str t)"

section \<open>Errors of the invalidation protocol\<close>

datatype marker_error =
    MarkerUnsupported
  | BlankWireVersion
  | ZeroCapacity
  | ScopeCapacity nat
  | MarkerBackend string
  | Protocol string
  | ProtocolWithSource string

section \<open>Scopes\<close>

record cache_scope =
  scope_prefix :: string
  scope_version :: string
  scope_modifier :: key_modifier_mode
  physical_prefix :: string
  physical_suffix :: string

definition CacheScope_new ::
  "string \<Rightarrow> string \<Rightarrow> key_modifier_mode \<Rightarrow> marker_error + cache_scope" where
  "CacheScope_new prefix version modifier =
     (if blank version then Inl BlankWireVersion
      else let (pp, ps) = (case modifier of
                 Prefix \<Rightarrow> (version @ '':'' @ prefix, [])
               | Suffix \<Rightarrow> (prefix, '':'' @ version)
               | NoModifier \<Rightarrow> (prefix, []))
           in Inr \<lparr>scope_prefix = prefix, scope_version = version, scope_modifier = modifier,
                   physical_prefix = pp, physical_suffix = ps\<rparr>)"

text \<open>
  \<open>impl PartialEq\<close> and \<open>Hash\<close> for \<open>CacheScope\<close> look at the physical parts only; hash maps
  keyed by a scope are keyed by this pair.
\<close>

definition scope_key :: "cache_scope \<Rightarrow> string \<times> string" where
  "scope_key s = (physical_prefix s, physical_suffix s)"

definition scope_eq :: "cache_scope \<Rightarrow> cache_scope \<Rightarrow> bool" where
  "scope_eq a b \<longleftrightarrow> physical_prefix a = physical_prefix b \<and> physical_suffix a = physical_suffix b"

text \<open>Decimal rendering of a length, as \<open>format!\<close> prints a \<open>usize\<close>.\<close>

fun show_nat :: "nat \<Rightarrow> string" where
  "show_nat n = (if n < 10 then [char_of (48 + n)] else show_nat (n div 10) @ [char_of (48 + n mod 10)])"

declare show_nat.simps [simp del]

definition storage_id :: "cache_scope \<Rightarrow> string" where
  "storage_id s = show_nat (length (physical_prefix s)) @ '':'' @ physical_prefix s
     @ show_nat (length (physical_suffix s)) @ '':'' @ physical_suffix s"

section \<open>Revisions\<close>

type_synonym marker_version = timestamp

definition hex_digit :: "nat \<Rightarrow> char" where
  "hex_digit d = char_of (if d < 10 then 48 + d else 87 + d)"

text \<open>The lower \<open>n\<close> hexadecimal digits of a number, most significant first.\<close>

fun hex_fixed :: "nat \<Rightarrow> nat \<Rightarrow> string" where
  "hex_fixed 0 x = []"
| "hex_fixed (Suc n) x = hex_digit (x div 16 ^ n mod 16) # hex_fixed n x"

text \<open>\<open>char::to_digit(16)\<close>.\<close>

definition to_digit16 :: "char \<Rightarrow> nat option" where
  "to_digit16 c = (let b = byte_of c in
     if 48 \<le> b \<and> b \<le> 57 then Some (b - 48)
     else if 97 \<le> b \<and> b \<le> 102 then Some (b - 87)
     else if 65 \<le> b \<and> b \<le> 70 then Some (b - 55)
     else None)"

definition is_ascii_hexdigit :: "char \<Rightarrow> bool" where
  "is_ascii_hexdigit c \<longleftrightarrow> to_digit16 c \<noteq> None"

fun from_hex :: "nat \<Rightarrow> string \<Rightarrow> nat" where
  "from_hex acc [] = acc"
| "from_hex acc (c # cs) = from_hex (acc * 16 + (case to_digit16 c of Some d \<Rightarrow> d | None \<Rightarrow> 0)) cs"

definition ordered_hex :: "marker_version \<Rightarrow> string" where
  "ordered_hex v = hex_fixed 16 (unat ((word_of_int v :: 64 word) XOR push_bit 63 1))"

definition from_ordered_hex :: "string \<Rightarrow> marker_error + marker_version" where
  "from_ordered_hex encoded =
     (if length encoded \<noteq> 16 \<or> \<not> list_all is_ascii_hexdigit encoded
      then Inl (Protocol ''invalid marker revision'')
      else Inr (sint ((of_nat (from_hex 0 encoded) :: 64 word) XOR push_bit 63 1)))"

section \<open>Markers\<close>

datatype marker_kind = TagKind tag | ClearExpire | ClearRemove

datatype stored_marker = StoredMarker (marker_kind_of: marker_kind) (marker_version_of: marker_version)

datatype marker_advance_outcome =
    Advanced stored_marker
  | Compacted stored_marker marker_version

fun outcome_marker :: "marker_advance_outcome \<Rightarrow> stored_marker" where
  "outcome_marker (Advanced m) = m"
| "outcome_marker (Compacted m c) = m"

record marker_store_limits =
  max_tags :: nat
  max_scopes :: nat

definition MarkerStoreLimits_new :: "nat \<Rightarrow> nat \<Rightarrow> marker_error + marker_store_limits" where
  "MarkerStoreLimits_new tags scopes =
     (if tags = 0 \<or> scopes = 0 then Inl ZeroCapacity
      else Inr \<lparr>max_tags = tags, max_scopes = scopes\<rparr>)"

definition MarkerStoreLimits_default :: marker_store_limits where
  "MarkerStoreLimits_default = \<lparr>max_tags = 4096, max_scopes = 1024\<rparr>"

datatype tag_verdict = Valid | Expire | Remove

record marker_state =
  ms_tags :: "(tag, marker_version) hmap"
  ms_clear_expire :: "marker_version option"
  ms_clear_remove :: "marker_version option"

definition MarkerState_default :: marker_state where
  "MarkerState_default = \<lparr>ms_tags = [], ms_clear_expire = None, ms_clear_remove = None\<rparr>"

fun marker_read :: "marker_state \<Rightarrow> marker_kind \<Rightarrow> marker_version option" where
  "marker_read s (TagKind t) = hm_get (ms_tags s) t"
| "marker_read s ClearExpire = ms_clear_expire s"
| "marker_read s ClearRemove = ms_clear_remove s"

fun marker_record :: "marker_kind \<Rightarrow> marker_version \<Rightarrow> marker_state \<Rightarrow> marker_state" where
  "marker_record (TagKind t) v s = s\<lparr>ms_tags := hm_insert t v (ms_tags s)\<rparr>"
| "marker_record ClearExpire v s = s\<lparr>ms_clear_expire := Some v\<rparr>"
| "marker_record ClearRemove v s = s\<lparr>ms_clear_remove := Some v\<rparr>"

text \<open>\<open>tags.values().copied().max().unwrap_or(version)\<close>.\<close>

definition tags_through :: "(tag, marker_version) hmap \<Rightarrow> marker_version \<Rightarrow> marker_version" where
  "tags_through tags v = (case map snd tags of [] \<Rightarrow> v | w # ws \<Rightarrow> fold max ws w)"

definition marker_advance ::
  "marker_kind \<Rightarrow> marker_version \<Rightarrow> nat \<Rightarrow> marker_state \<Rightarrow> marker_state \<times> marker_advance_outcome" where
  "marker_advance kind candidate capacity s =
     (let version = opt_max (marker_read s kind) candidate;
          s1 = marker_record kind version s;
          marker = StoredMarker kind version
      in if length (ms_tags s1) \<le> capacity then (s1, Advanced marker)
         else
           let through = tags_through (ms_tags s1) version;
               clear_remove = opt_max (ms_clear_remove s1) through;
               s2 = s1\<lparr>ms_clear_remove := Some clear_remove,
                       ms_tags := hm_retain (\<lambda>t v. v > clear_remove) (ms_tags s1)\<rparr>
           in if kind = ClearRemove
              then (s2, Advanced (StoredMarker ClearRemove clear_remove))
              else (s2, Compacted marker clear_remove))"

definition tag_count :: "marker_state \<Rightarrow> nat" where
  "tag_count s = length (ms_tags s)"

section \<open>The registry\<close>

record tag_registry =
  reg_state :: marker_state
  reg_snapshot :: marker_state
  reg_marker_observed :: bool
  reg_capacity :: nat

definition TagRegistry_default :: tag_registry where
  "TagRegistry_default = \<lparr>reg_state = MarkerState_default, reg_snapshot = MarkerState_default,
     reg_marker_observed = False, reg_capacity = 4096\<rparr>"

definition TagRegistry_with_capacity :: "nat \<Rightarrow> marker_error + tag_registry" where
  "TagRegistry_with_capacity capacity =
     (if capacity = 0 then Inl ZeroCapacity
      else Inr \<lparr>reg_state = MarkerState_default, reg_snapshot = MarkerState_default,
                reg_marker_observed = False, reg_capacity = capacity\<rparr>)"

definition registry_advance ::
  "marker_kind \<Rightarrow> marker_version \<Rightarrow> tag_registry \<Rightarrow> tag_registry \<times> marker_advance_outcome" where
  "registry_advance kind v r =
     (let (state, outcome) = marker_advance kind v (reg_capacity r) (reg_state r)
      in (r\<lparr>reg_state := state, reg_snapshot := state, reg_marker_observed := True\<rparr>, outcome))"

definition mark_tag :: "tag \<Rightarrow> timestamp \<Rightarrow> tag_registry \<Rightarrow> tag_registry" where
  "mark_tag t v r = fst (registry_advance (TagKind t) v r)"

definition mark_clear_expire :: "timestamp \<Rightarrow> tag_registry \<Rightarrow> tag_registry" where
  "mark_clear_expire v r = fst (registry_advance ClearExpire v r)"

definition mark_clear_remove :: "timestamp \<Rightarrow> tag_registry \<Rightarrow> tag_registry" where
  "mark_clear_remove v r = fst (registry_advance ClearRemove v r)"

definition registry_marker_version :: "tag_registry \<Rightarrow> marker_kind \<Rightarrow> marker_version option" where
  "registry_marker_version r kind = marker_read (reg_snapshot r) kind"

definition tag_marker :: "tag_registry \<Rightarrow> tag \<Rightarrow> timestamp option" where
  "tag_marker r t = marker_read (reg_snapshot r) (TagKind t)"

definition covered_by :: "timestamp \<Rightarrow> marker_version option \<Rightarrow> bool" where
  "covered_by created m = (case m of None \<Rightarrow> False | Some v \<Rightarrow> created \<le> v)"

definition evaluate ::
  "tag_registry \<Rightarrow> timestamp \<Rightarrow> tag list \<Rightarrow> remove_by_tag_behavior \<Rightarrow> tag_verdict" where
  "evaluate r created tags behavior =
     (if \<not> reg_marker_observed r then Valid
      else let state = reg_snapshot r
           in if covered_by created (ms_clear_remove state) then Remove
              else if list_ex (\<lambda>t. covered_by created (hm_get (ms_tags state) t)) tags
              then (case behavior of ExpireMatched \<Rightarrow> Expire | RemoveMatched \<Rightarrow> Remove)
              else if covered_by created (ms_clear_expire state) then Expire
              else Valid)"

definition registry_len :: "tag_registry \<Rightarrow> nat" where
  "registry_len r = tag_count (reg_snapshot r)"

definition registry_is_empty :: "tag_registry \<Rightarrow> bool" where
  "registry_is_empty r \<longleftrightarrow> registry_len r = 0"


section \<open>Tag boundaries\<close>

lemma valid_tag_Tag_new: "Tag_new s = Inr t \<Longrightarrow> valid_tag t \<and> tag_as_str t = s"
  by (auto simp: Tag_new_def valid_tag_def split: if_splits)

lemma Tag_new_Inl [simp]: "Tag_new s = Inl e \<longleftrightarrow> blank s"
  by (cases e) (simp add: Tag_new_def)

lemma try_collect_tags_eq:
  "try_collect_tags ss = (if list_ex blank ss then Inl BlankTag else Inr (map Tag ss))"
  by (induction ss) (simp_all add: Tag_new_def)

lemma collect_tags_eq: "collect_tags ss = map Tag (filter (\<lambda>s. \<not> blank s) ss)"
  by (induction ss) (simp_all add: Tag_new_def)

section \<open>Order of verdicts\<close>

fun verdict_rank :: "tag_verdict \<Rightarrow> nat" where
  "verdict_rank Valid = 0"
| "verdict_rank Expire = 1"
| "verdict_rank Remove = 2"

lemma verdict_rank_inject [simp]: "verdict_rank a = verdict_rank b \<longleftrightarrow> a = b"
  by (cases a; cases b) simp_all

instantiation tag_verdict :: linorder
begin

definition less_eq_tag_verdict :: "tag_verdict \<Rightarrow> tag_verdict \<Rightarrow> bool" where
  "a \<le> b \<longleftrightarrow> verdict_rank a \<le> verdict_rank b"

definition less_tag_verdict :: "tag_verdict \<Rightarrow> tag_verdict \<Rightarrow> bool" where
  "a < b \<longleftrightarrow> verdict_rank a < verdict_rank b"

instance
  by standard (auto simp: less_eq_tag_verdict_def less_tag_verdict_def)

end

section \<open>Marker journals\<close>

text \<open>
  What a marker store promises: once a revision is announced for a marker kind, every entry
  revision up to it stays covered, by the marker itself or by a clear-remove marker, and
  nothing beyond the announced revisions is ever covered.
\<close>

locale marker_journal =
  fixes ok :: "'s \<Rightarrow> bool"
    and covers :: "'s \<Rightarrow> 'k \<Rightarrow> 'v::linorder \<Rightarrow> bool"
    and adv :: "'k \<Rightarrow> 'v \<Rightarrow> 's \<Rightarrow> 's"
  assumes ok_adv: "ok s \<Longrightarrow> ok (adv k v s)"
    and covers_adv: "ok s \<Longrightarrow> t \<le> v \<Longrightarrow> covers (adv k v s) k t"
    and covers_kept: "ok s \<Longrightarrow> covers s k t \<Longrightarrow> covers (adv k' v s) k t"
    and covers_only: "ok s \<Longrightarrow> covers (adv k' v s) k t \<Longrightarrow> t \<le> v \<or> (\<exists>k''. covers s k'' t)"
begin

definition run :: "'s \<Rightarrow> ('k \<times> 'v) list \<Rightarrow> 's" where
  "run s es = foldl (\<lambda>s (k, v). adv k v s) s es"

lemma run_simps [simp]: "run s [] = s" "run s ((k, v) # es) = run (adv k v s) es"
  by (simp_all add: run_def)

lemma run_append: "run s (es @ es') = run (run s es) es'"
  by (simp add: run_def)

lemma ok_run: "ok s \<Longrightarrow> ok (run s es)"
  by (induction es arbitrary: s) (auto simp: ok_adv)

lemma covers_run_kept: "ok s \<Longrightarrow> covers s k t \<Longrightarrow> covers (run s es) k t"
  by (induction es arbitrary: s) (auto simp: ok_adv covers_kept)

lemma covers_run:
  assumes "ok s" and "(k, v) \<in> set es" and "t \<le> v"
  shows "covers (run s es) k t"
  using assms
proof (induction es arbitrary: s)
  case Nil
  then show ?case by simp
next
  case (Cons e es)
  obtain k' v' where e: "e = (k', v')" by (cases e)
  from Cons show ?case
    by (auto simp: e ok_adv covers_adv covers_run_kept)
qed

lemma covers_run_only:
  assumes "ok s" and "covers (run s es) k t"
  shows "(\<exists>k v. (k, v) \<in> set es \<and> t \<le> v) \<or> (\<exists>k. covers s k t)"
  using assms
proof (induction es arbitrary: s)
  case Nil
  then show ?case by auto
next
  case (Cons e es)
  obtain k' v' where e: "e = (k', v')" by (cases e)
  from Cons.prems have "covers (run (adv k' v' s) es) k t" by (simp add: e)
  from Cons.IH [OF ok_adv [OF Cons.prems(1)] this]
  have "(\<exists>k v. (k, v) \<in> set es \<and> t \<le> v) \<or> (\<exists>k. covers (adv k' v' s) k t)" .
  then show ?case
    using covers_only [OF Cons.prems(1)] by (auto simp: e; blast)
qed

end

section \<open>Advancing a marker\<close>

definition marker_ok :: "marker_state \<Rightarrow> bool" where
  "marker_ok s \<longleftrightarrow> hm_ok (ms_tags s)"

definition state_covers :: "marker_state \<Rightarrow> marker_kind \<Rightarrow> timestamp \<Rightarrow> bool" where
  "state_covers s k t \<longleftrightarrow> covered_by t (marker_read s k) \<or> covered_by t (ms_clear_remove s)"

lemma covered_by_simps [simp]: "\<not> covered_by t None" "covered_by t (Some v) \<longleftrightarrow> t \<le> v"
  by (simp_all add: covered_by_def)

lemma le_opt_max [simp]: "t \<le> opt_max m v \<longleftrightarrow> covered_by t m \<or> t \<le> v"
  by (auto simp: opt_max_def covered_by_def split: option.splits)

lemma fold_max_ge: "x \<in> insert w (set ws) \<Longrightarrow> x \<le> fold max ws (w::int)"
  using Max.set_eq_fold [of w ws] Max_ge [of "set (w # ws)" x] by simp

lemma fold_max_mem: "fold max ws (w::int) \<in> insert w (set ws)"
  using Max.set_eq_fold [of w ws] Max_in [of "set (w # ws)"] by simp

lemma tags_through_ge:
  assumes "hm_get tags t = Some v"
  shows "v \<le> tags_through tags d"
proof -
  from assms have "v \<in> set (map snd tags)" by (force dest: map_of_SomeD)
  then show ?thesis
    by (cases "map snd tags") (simp_all add: tags_through_def fold_max_ge)
qed

lemma tags_through_mem:
  "tags \<noteq> [] \<Longrightarrow> hm_ok tags \<Longrightarrow> \<exists>t. hm_get tags t = Some (tags_through tags d)"
proof -
  assume ne: "tags \<noteq> []" and ok: "hm_ok tags"
  have "tags_through tags d \<in> snd ` set tags"
    using ne fold_max_mem [of "map snd (tl tags)" "snd (hd tags)"]
    by (cases tags) (auto simp: tags_through_def)
  then show ?thesis using ok by (auto simp: hm_get_eq_Some)
qed

lemma hm_retain_above_through:
  assumes "hm_ok tags" and "tags_through tags d \<le> c"
  shows "hm_retain (\<lambda>t v. v > c) tags = []"
proof -
  have "v \<le> c" if "(t, v) \<in> set tags" for t v
    using that assms tags_through_ge [of tags t v d] by (simp add: hm_get_eq_Some)
  then show ?thesis by (fastforce simp: hm_retain_def filter_empty_conv)
qed

lemma marker_read_record:
  "marker_read (marker_record k v s) k' = (if k' = k then Some v else marker_read s k')"
  by (cases k; cases k') (auto simp: hm_get_insert)

lemma ms_clear_remove_record:
  "ms_clear_remove (marker_record k v s) = (if k = ClearRemove then Some v else ms_clear_remove s)"
  by (cases k) simp_all

lemma marker_ok_record [simp]: "marker_ok s \<Longrightarrow> marker_ok (marker_record k v s)"
  by (cases k) (simp_all add: marker_ok_def)

lemma marker_advance_within:
  assumes "length (ms_tags (marker_record k (opt_max (marker_read s k) v) s)) \<le> cap"
  shows "marker_advance k v cap s = (marker_record k (opt_max (marker_read s k) v) s,
           Advanced (StoredMarker k (opt_max (marker_read s k) v)))"
  using assms by (simp add: marker_advance_def Let_def)

text \<open>Compaction: the promoted clear-remove revision covers every tag, so all tags go.\<close>

lemma marker_advance_compacts:
  assumes "marker_ok s" and "s1 = marker_record k (opt_max (marker_read s k) v) s"
    and "\<not> length (ms_tags s1) \<le> cap"
    and "c = opt_max (ms_clear_remove s1) (tags_through (ms_tags s1) (opt_max (marker_read s k) v))"
  shows "marker_advance k v cap s = (s1\<lparr>ms_clear_remove := Some c, ms_tags := []\<rparr>,
           if k = ClearRemove then Advanced (StoredMarker ClearRemove c)
           else Compacted (StoredMarker k (opt_max (marker_read s k) v)) c)"
proof -
  have "marker_ok s1" using assms(1) by (simp add: assms(2))
  then have "hm_retain (\<lambda>t w. w > c) (ms_tags s1) = []"
    by (intro hm_retain_above_through [where d = "opt_max (marker_read s k) v"])
      (simp_all add: marker_ok_def assms(4) opt_max_ge)
  then show ?thesis
    using assms(3) by (cases "k = ClearRemove") (simp_all add: marker_advance_def Let_def assms(2,4))
qed

lemma marker_ok_advance [simp]: "marker_ok s \<Longrightarrow> marker_ok (fst (marker_advance k v cap s))"
  by (cases "length (ms_tags (marker_record k (opt_max (marker_read s k) v) s)) \<le> cap")
    (simp_all add: marker_advance_within marker_advance_compacts [OF _ refl _ refl] marker_ok_def
      split: prod.splits, simp_all add: marker_ok_def [symmetric])

lemma tag_count_advance: "marker_ok s \<Longrightarrow> tag_count (fst (marker_advance k v cap s)) \<le> cap"
  by (cases "length (ms_tags (marker_record k (opt_max (marker_read s k) v) s)) \<le> cap")
    (simp_all add: marker_advance_within marker_advance_compacts [OF _ refl _ refl] tag_count_def)

lemma state_covers_record:
  "state_covers (marker_record k (opt_max (marker_read s k) v) s) k' t \<longleftrightarrow>
     state_covers s k' t \<or> (k' = k \<or> k = ClearRemove) \<and> t \<le> v"
  by (auto simp: state_covers_def marker_read_record ms_clear_remove_record)

lemma state_covers_compacted:
  assumes "marker_ok s1" and "c = opt_max (ms_clear_remove s1) (tags_through (ms_tags s1) d)"
    and "ms_tags s1 \<noteq> []"
  shows "state_covers (s1\<lparr>ms_clear_remove := Some c, ms_tags := []\<rparr>) k t \<longleftrightarrow>
    state_covers s1 k t \<or> (\<exists>g. state_covers s1 (TagKind g) t)"
proof -
  let ?m = "tags_through (ms_tags s1) d"
  have c: "t \<le> c \<longleftrightarrow> covered_by t (ms_clear_remove s1) \<or> t \<le> ?m"
    by (simp add: assms(2))
  have m: "t \<le> ?m \<longleftrightarrow> (\<exists>g. covered_by t (hm_get (ms_tags s1) g))"
    using tags_through_mem [OF assms(3)] tags_through_ge [of "ms_tags s1" _ _ d] assms(1)
    by (fastforce simp: marker_ok_def covered_by_def split: option.splits)
  show ?thesis using m by (cases k) (auto simp: state_covers_def c)
qed

lemma state_covers_advance:
  assumes ok: "marker_ok s" and s1: "s1 = marker_record k (opt_max (marker_read s k) v) s"
  shows "state_covers (fst (marker_advance k v cap s)) k' t \<longleftrightarrow> state_covers s1 k' t \<or>
    (\<not> length (ms_tags s1) \<le> cap \<and> (\<exists>g. state_covers s1 (TagKind g) t))"
proof (cases "length (ms_tags s1) \<le> cap")
  case True
  then show ?thesis by (simp add: s1 marker_advance_within)
next
  case False
  moreover have "marker_ok s1" using ok by (simp add: s1)
  moreover have "ms_tags s1 \<noteq> []" using False by auto
  ultimately show ?thesis
    by (simp add: marker_advance_compacts [OF ok s1 _ refl] state_covers_compacted [OF _ refl])
qed

interpretation mstate: marker_journal marker_ok state_covers
  "\<lambda>k v s. fst (marker_advance k v cap s)" for cap
  by unfold_locales (auto simp: state_covers_advance [OF _ refl] state_covers_record)


section \<open>Verdicts of the registry\<close>

definition registry_run ::
  "tag_registry \<Rightarrow> (marker_kind \<times> marker_version) list \<Rightarrow> tag_registry" where
  "registry_run r es = foldl (\<lambda>r (k, v). fst (registry_advance k v r)) r es"

definition registry_ok :: "tag_registry \<Rightarrow> bool" where
  "registry_ok r \<longleftrightarrow> marker_ok (reg_state r) \<and> reg_snapshot r = reg_state r \<and>
     (reg_marker_observed r \<or> reg_state r = MarkerState_default) \<and>
     tag_count (reg_state r) \<le> reg_capacity r"

definition registry_covers :: "tag_registry \<Rightarrow> marker_kind \<Rightarrow> timestamp \<Rightarrow> bool" where
  "registry_covers r k t \<longleftrightarrow> state_covers (reg_snapshot r) k t"

lemma registry_advance_fields:
  "reg_state (fst (registry_advance k v r)) = fst (marker_advance k v (reg_capacity r) (reg_state r))"
  "reg_snapshot (fst (registry_advance k v r)) = fst (marker_advance k v (reg_capacity r) (reg_state r))"
  "reg_marker_observed (fst (registry_advance k v r))"
  "reg_capacity (fst (registry_advance k v r)) = reg_capacity r"
  by (simp_all add: registry_advance_def split: prod.splits)

interpretation registry: marker_journal registry_ok registry_covers
  "\<lambda>k v r. fst (registry_advance k v r)"
  by unfold_locales
    (auto simp: registry_ok_def registry_covers_def registry_advance_fields tag_count_advance
      mstate.covers_adv mstate.covers_kept dest: mstate.covers_only)

lemma registry_run_eq: "registry.run = registry_run"
  by (intro ext) (simp add: registry.run_def registry_run_def)

lemma registry_run_snoc [simp]:
  "registry_run r (es @ [(k, v)]) = fst (registry_advance k v (registry_run r es))"
  by (simp add: registry_run_def)

lemma registry_run_Nil [simp]: "registry_run r [] = r"
  by (simp add: registry_run_def)

lemma registry_ok_new: "TagRegistry_with_capacity cap = Inr r \<Longrightarrow> registry_ok r"
  by (auto simp: TagRegistry_with_capacity_def registry_ok_def marker_ok_def MarkerState_default_def
      tag_count_def split: if_splits)

lemma registry_covers_new: "TagRegistry_with_capacity cap = Inr r \<Longrightarrow> \<not> registry_covers r k t"
  by (cases k) (auto simp: TagRegistry_with_capacity_def registry_covers_def state_covers_def
      MarkerState_default_def split: if_splits)

lemma reg_capacity_run [simp]: "reg_capacity (registry_run r es) = reg_capacity r"
  by (induction es rule: rev_induct) (auto simp: registry_advance_fields)

text \<open>The verdict as a function of the three facts it depends on.\<close>

definition verdict_of :: "bool \<Rightarrow> bool \<Rightarrow> bool \<Rightarrow> remove_by_tag_behavior \<Rightarrow> tag_verdict" where
  "verdict_of removed tagged expired b =
     (if removed then Remove
      else if tagged then (case b of ExpireMatched \<Rightarrow> Expire | RemoveMatched \<Rightarrow> Remove)
      else if expired then Expire else Valid)"

lemma verdict_of_mono:
  assumes "rem \<Longrightarrow> rem'" and "tagged \<Longrightarrow> tagged' \<or> rem'" and "expired \<Longrightarrow> expired' \<or> rem'"
  shows "verdict_of rem tagged expired b \<le> verdict_of rem' tagged' expired' b"
  using assms by (cases b) (auto simp: verdict_of_def less_eq_tag_verdict_def)

lemma evaluate_eq:
  assumes "registry_ok r"
  shows "evaluate r created tags b = verdict_of (covered_by created (ms_clear_remove (reg_snapshot r)))
    (\<exists>t\<in>set tags. covered_by created (hm_get (ms_tags (reg_snapshot r)) t))
    (covered_by created (ms_clear_expire (reg_snapshot r))) b"
  using assms
  by (auto simp: evaluate_def verdict_of_def list_ex_iff registry_ok_def MarkerState_default_def
      Let_def)

definition announced :: "(marker_kind \<times> marker_version) list \<Rightarrow> marker_kind \<Rightarrow> timestamp \<Rightarrow> bool" where
  "announced es k t \<longleftrightarrow> list_ex (\<lambda>(k', v). k' = k \<and> t \<le> v) es"

definition journal_verdict ::
  "(marker_kind \<times> marker_version) list \<Rightarrow> timestamp \<Rightarrow> tag list \<Rightarrow> remove_by_tag_behavior \<Rightarrow> tag_verdict" where
  "journal_verdict es created tags b = verdict_of (announced es ClearRemove created)
     (list_ex (\<lambda>t. announced es (TagKind t) created) tags) (announced es ClearExpire created) b"

lemma announced_iff: "announced es k t \<longleftrightarrow> (\<exists>v. (k, v) \<in> set es \<and> t \<le> v)"
  by (auto simp: announced_def list_ex_iff)

lemma announced_snoc [simp]: "announced (es @ [(k', v)]) k t \<longleftrightarrow> announced es k t \<or> k = k' \<and> t \<le> v"
  by (auto simp: announced_iff)

lemma announced_covers: "registry_ok r \<Longrightarrow> announced es k t \<Longrightarrow> registry_covers (registry_run r es) k t"
  using registry.covers_run by (auto simp: announced_iff registry_run_eq)

lemma registry_ok_run: "registry_ok r \<Longrightarrow> registry_ok (registry_run r es)"
  using registry.ok_run by (simp add: registry_run_eq)

lemma registry_covers_kept: "registry_ok r \<Longrightarrow> registry_covers r k t \<Longrightarrow> registry_covers (registry_run r es) k t"
  using registry.covers_run_kept by (simp add: registry_run_eq)

lemmas registry_facts = registry_ok_new registry_ok_run registry_covers_kept announced_covers

lemma evaluate_ge:
  assumes "registry_ok r" and "removed \<Longrightarrow> registry_covers r ClearRemove created"
    and "\<And>t. t \<in> set tags \<Longrightarrow> tagged t \<Longrightarrow> registry_covers r (TagKind t) created"
    and "expired \<Longrightarrow> registry_covers r ClearExpire created"
  shows "verdict_of removed (list_ex tagged tags) expired b \<le> evaluate r created tags b"
  unfolding evaluate_eq [OF assms(1)]
  by (rule verdict_of_mono) (use assms in \<open>auto simp: registry_covers_def state_covers_def list_ex_iff\<close>)

lemma registry_coversI:
  "covered_by t (marker_read (reg_snapshot r) k) \<Longrightarrow> registry_covers r k t"
  by (simp add: registry_covers_def state_covers_def)

lemma evaluate_run_mono:
  assumes "registry_ok r"
  shows "evaluate r created tags b \<le> evaluate (registry_run r es) created tags b"
proof -
  have "evaluate r created tags b = verdict_of (covered_by created (marker_read (reg_snapshot r) ClearRemove))
     (list_ex (\<lambda>t. covered_by created (marker_read (reg_snapshot r) (TagKind t))) tags)
     (covered_by created (marker_read (reg_snapshot r) ClearExpire)) b"
    by (simp add: evaluate_eq assms list_ex_iff)
  also have "\<dots> \<le> evaluate (registry_run r es) created tags b"
    by (rule evaluate_ge) (auto intro: assms registry_facts registry_coversI simp del: marker_read.simps)
  finally show ?thesis .
qed

text \<open>
  C2. No invalidation is ever lost: after any sequence of announcements the registry's verdict
  on an entry is at least the verdict of the complete, unbounded journal of announcements
  (inclusive comparison with the entry's revision), and further announcements never weaken a
  verdict. This holds for every capacity, so compaction forgets tags only under a clear-remove
  marker that covers them.
\<close>

theorem registry_never_forgets:
  assumes "TagRegistry_with_capacity cap = Inr r"
  shows "journal_verdict es created tags b \<le> evaluate (registry_run r es) created tags b \<and>
    evaluate (registry_run r es) created tags b
      \<le> evaluate (registry_run (registry_run r es) es') created tags b"
proof
  have ok: "registry_ok r" using assms by (rule registry_ok_new)
  show "journal_verdict es created tags b \<le> evaluate (registry_run r es) created tags b"
    unfolding journal_verdict_def
    by (rule evaluate_ge) (simp_all add: ok registry_facts)
  show "evaluate (registry_run r es) created tags b
      \<le> evaluate (registry_run (registry_run r es) es') created tags b"
    using ok by (intro evaluate_run_mono registry_ok_run)
qed

theorem registry_never_forgets_witness:
  "journal_verdict [(TagKind (Tag ''a''), 5), (TagKind (Tag ''b''), 7)] 5 [Tag ''a''] RemoveMatched
     \<le> evaluate (registry_run \<lparr>reg_state = MarkerState_default, reg_snapshot = MarkerState_default,
          reg_marker_observed = False, reg_capacity = 1\<rparr>
          [(TagKind (Tag ''a''), 5), (TagKind (Tag ''b''), 7)]) 5 [Tag ''a''] RemoveMatched
   \<and> journal_verdict [(TagKind (Tag ''a''), 5), (TagKind (Tag ''b''), 7)] 5 [Tag ''a''] RemoveMatched = Remove"
proof
  show "journal_verdict [(TagKind (Tag ''a''), 5), (TagKind (Tag ''b''), 7)] 5 [Tag ''a''] RemoveMatched
     \<le> evaluate (registry_run \<lparr>reg_state = MarkerState_default, reg_snapshot = MarkerState_default,
          reg_marker_observed = False, reg_capacity = 1\<rparr>
          [(TagKind (Tag ''a''), 5), (TagKind (Tag ''b''), 7)]) 5 [Tag ''a''] RemoveMatched"
    by (rule registry_never_forgets [of 1, THEN conjunct1]) (simp add: TagRegistry_with_capacity_def)
  show "journal_verdict [(TagKind (Tag ''a''), 5), (TagKind (Tag ''b''), 7)] 5 [Tag ''a''] RemoveMatched = Remove"
    by (simp add: journal_verdict_def announced_def verdict_of_def)
qed

subsection \<open>Exactness below the capacity\<close>

definition announced_tags :: "(marker_kind \<times> marker_version) list \<Rightarrow> tag set" where
  "announced_tags es = {t. TagKind t \<in> fst ` set es}"

lemma finite_announced_tags [simp]: "finite (announced_tags es)"
proof -
  have "announced_tags es \<subseteq> (\<lambda>k. case k of TagKind t \<Rightarrow> t | _ \<Rightarrow> undefined) ` fst ` set es"
    by (force simp: announced_tags_def)
  then show ?thesis by (rule finite_subset) simp
qed

lemma announced_tags_snoc:
  "announced_tags (es @ [(k, v)]) = announced_tags es \<union> {t. k = TagKind t}"
  by (auto simp: announced_tags_def)

lemma length_tags_le:
  assumes "marker_ok s" and "finite T" and "fst ` set (ms_tags s) \<subseteq> T"
  shows "length (ms_tags s) \<le> card T"
  using assms distinct_card [of "map fst (ms_tags s)"] card_mono [of T "fst ` set (ms_tags s)"]
  by (simp add: marker_ok_def hm_ok_def)

lemma fst_tags_record: "fst ` set (ms_tags (marker_record k v s)) \<subseteq>
    fst ` set (ms_tags s) \<union> {t. k = TagKind t}"
  by (cases k) (auto simp: dom_update)

lemma registry_run_exact:
  assumes r: "TagRegistry_with_capacity cap = Inr r" and "card (announced_tags es) \<le> cap"
  shows "fst ` set (ms_tags (reg_state (registry_run r es))) \<subseteq> announced_tags es \<and>
    (\<forall>k t. covered_by t (marker_read (reg_state (registry_run r es)) k) \<longleftrightarrow> announced es k t)"
  using assms(2)
proof (induction es rule: rev_induct)
  case Nil
  have "marker_read MarkerState_default k = None" for k
    by (cases k) (simp_all add: MarkerState_default_def)
  with r show ?case
    by (auto simp: TagRegistry_with_capacity_def MarkerState_default_def announced_def split: if_splits)
next
  case (snoc e es)
  obtain k v where e: "e = (k, v)" by (cases e)
  let ?s = "reg_state (registry_run r es)"
  let ?s1 = "marker_record k (opt_max (marker_read ?s k) v) ?s"
  have "card (announced_tags es) \<le> card (announced_tags (es @ [e]))"
    by (rule card_mono) (auto simp: e announced_tags_snoc [symmetric], auto simp: announced_tags_snoc)
  with snoc have IH: "fst ` set (ms_tags ?s) \<subseteq> announced_tags es"
    "\<And>k t. covered_by t (marker_read ?s k) \<longleftrightarrow> announced es k t" by auto
  have sub: "fst ` set (ms_tags ?s1) \<subseteq> announced_tags (es @ [e])"
    using fst_tags_record [of k _ ?s] IH(1) by (fastforce simp: e announced_tags_snoc)
  have cap: "reg_capacity r = cap"
    using r by (auto simp: TagRegistry_with_capacity_def split: if_splits)
  have "marker_ok ?s1"
    using registry_ok_run [OF registry_ok_new [OF r], of es] by (simp add: registry_ok_def)
  then have "length (ms_tags ?s1) \<le> cap"
    using length_tags_le [OF _ _ sub] snoc.prems by fastforce
  then have "reg_state (registry_run r (es @ [e])) = ?s1"
    by (simp add: e registry_advance_fields cap marker_advance_within)
  with sub show ?case
    by (auto simp: e IH(2) marker_read_record)
qed

text \<open>
  While the number of distinct announced tags stays within the capacity, the registry is
  exact: it gives precisely the verdict of the complete journal.
\<close>

theorem registry_exact_within_capacity:
  assumes "TagRegistry_with_capacity cap = Inr r" and "card (announced_tags es) \<le> cap"
  shows "evaluate (registry_run r es) created tags b = journal_verdict es created tags b"
proof -
  let ?r = "registry_run r es"
  have ok: "registry_ok ?r" using assms(1) by (intro registry_ok_run registry_ok_new)
  then have snap: "reg_snapshot ?r = reg_state ?r" by (simp add: registry_ok_def)
  have "covered_by t (marker_read (reg_snapshot ?r) k) \<longleftrightarrow> announced es k t" for k t
    using registry_run_exact [OF assms] by (simp add: snap)
  from this [of _ ClearRemove] this [of _ ClearExpire] this [of _ "TagKind _"]
  show ?thesis
    by (simp add: evaluate_eq ok journal_verdict_def list_ex_iff)
qed

theorem registry_exact_within_capacity_witness:
  "evaluate (registry_run \<lparr>reg_state = MarkerState_default, reg_snapshot = MarkerState_default,
      reg_marker_observed = False, reg_capacity = 2\<rparr>
      [(TagKind (Tag ''a''), 5), (ClearExpire, 3)]) 4 [Tag ''b''] RemoveMatched =
   journal_verdict [(TagKind (Tag ''a''), 5), (ClearExpire, 3)] 4 [Tag ''b''] RemoveMatched"
  by (rule registry_exact_within_capacity [of 2])
    (auto simp: TagRegistry_with_capacity_def announced_tags_def)


text \<open>
  The registry's memory is bounded: after any sequence of announcements it retains at most
  its capacity of per-tag maxima, and every entry newer than all announced revisions is valid.
\<close>

theorem registry_bounded_and_sound:
  assumes "TagRegistry_with_capacity cap = Inr r" and "\<forall>(k, v) \<in> set es. v < created"
  shows "registry_len (registry_run r es) \<le> cap \<and> evaluate (registry_run r es) created tags b = Valid"
proof
  let ?r = "registry_run r es"
  have ok0: "registry_ok r" using assms(1) by (rule registry_ok_new)
  then have ok: "registry_ok ?r" by (rule registry_ok_run)
  moreover have "reg_capacity r = cap"
    using assms(1) by (auto simp: TagRegistry_with_capacity_def split: if_splits)
  ultimately show "registry_len ?r \<le> cap"
    by (simp add: registry_ok_def registry_len_def)
  have "\<not> registry_covers ?r k created" for k
    using registry.covers_run_only [OF ok0, of es k created] registry_covers_new [OF assms(1)] assms(2)
    by (fastforce simp: registry_run_eq)
  from this [of ClearRemove] this [of ClearExpire] this [of "TagKind _"]
  show "evaluate ?r created tags b = Valid"
    by (auto simp: evaluate_eq ok verdict_of_def registry_covers_def state_covers_def)
qed

theorem registry_bounded_and_sound_witness:
  "registry_len (registry_run \<lparr>reg_state = MarkerState_default, reg_snapshot = MarkerState_default,
      reg_marker_observed = False, reg_capacity = 1\<rparr>
      [(TagKind (Tag ''a''), 5), (TagKind (Tag ''b''), 3)]) \<le> 1"
  by (rule registry_bounded_and_sound [of 1 _ _ 6, THEN conjunct1])
    (auto simp: TagRegistry_with_capacity_def)

section \<open>Storage encodings\<close>

subsection \<open>Decimal lengths\<close>

definition is_digit :: "char \<Rightarrow> bool" where
  "is_digit c \<longleftrightarrow> 48 \<le> byte_of c \<and> byte_of c \<le> 57"

fun dec_val :: "nat \<Rightarrow> string \<Rightarrow> nat" where
  "dec_val acc [] = acc"
| "dec_val acc (c # cs) = dec_val (acc * 10 + (byte_of c - 48)) cs"

lemma byte_of_char_of [simp]: "n < 256 \<Longrightarrow> byte_of (char_of n) = n"
  by (simp add: byte_of_def)

lemma dec_val_append: "dec_val acc (xs @ ys) = dec_val (dec_val acc xs) ys"
  by (induction xs arbitrary: acc) simp_all

lemma is_digit_char_of [simp]: "d < 10 \<Longrightarrow> is_digit (char_of (48 + d :: nat))"
  by (simp add: is_digit_def)

lemma show_nat_digits: "list_all is_digit (show_nat n)"
  by (induction n rule: show_nat.induct) (subst show_nat.simps, simp)

lemma dec_val_show_nat: "dec_val 0 (show_nat n) = n"
  by (induction n rule: show_nat.induct) (subst show_nat.simps, simp add: dec_val_append)

lemma show_nat_inject [simp]: "show_nat m = show_nat n \<longleftrightarrow> m = n"
  using dec_val_show_nat by metis

lemma show_nat_nonempty [simp]: "show_nat n \<noteq> []"
  by (subst show_nat.simps) simp

lemma digits_colon_split:
  assumes "list_all is_digit xs" and "list_all is_digit ys" and "xs @ '':'' @ a = ys @ '':'' @ b"
  shows "xs = ys \<and> a = b"
  using assms
proof (induction xs arbitrary: ys)
  case Nil
  then show ?case by (cases ys) (auto simp: is_digit_def byte_of_def)
next
  case (Cons x xs)
  then show ?case by (cases ys) (auto simp: is_digit_def byte_of_def)
qed

text \<open>A length-delimited field can be split off whatever follows it.\<close>

lemma delimited_split:
  assumes "show_nat (length a) @ '':'' @ a @ r = show_nat (length b) @ '':'' @ b @ r'"
  shows "a = b \<and> r = r'"
  using digits_colon_split [OF show_nat_digits show_nat_digits, of "length a" "a @ r" "length b" "b @ r'"]
    assms by auto

text \<open>
  Storage identifiers are collision free: two scopes have the same \<open>storage_id\<close> exactly
  when the code's equality on scopes holds, whatever separators their strings contain.
\<close>

theorem storage_id_injective: "storage_id a = storage_id b \<longleftrightarrow> scope_eq a b"
proof
  assume "storage_id a = storage_id b"
  then have *: "physical_prefix a = physical_prefix b \<and>
      show_nat (length (physical_suffix a)) @ '':'' @ physical_suffix a @ [] =
      show_nat (length (physical_suffix b)) @ '':'' @ physical_suffix b @ []"
    by (intro delimited_split) (simp add: storage_id_def)
  then show "scope_eq a b"
    using delimited_split [OF conjunct2 [OF *]] by (simp add: scope_eq_def)
qed (simp add: storage_id_def scope_eq_def)

subsection \<open>Ordered hexadecimal\<close>

lemma to_digit16_hex_digit [simp]: "d < 16 \<Longrightarrow> to_digit16 (hex_digit d) = Some d"
  by (auto simp: to_digit16_def hex_digit_def Let_def)

lemma length_hex_fixed [simp]: "length (hex_fixed n x) = n"
  by (induction n) simp_all

lemma hex_fixed_digits: "list_all is_ascii_hexdigit (hex_fixed n x)"
  by (induction n) (simp_all add: is_ascii_hexdigit_def)

lemma from_hex_hex_fixed: "from_hex acc (hex_fixed n x) = acc * 16 ^ n + x mod 16 ^ n"
proof (induction n arbitrary: acc)
  case (Suc n)
  have "x mod 16 ^ Suc n = 16 ^ n * (x div 16 ^ n mod 16) + x mod 16 ^ n"
    by (metis mod_mult2_eq power_Suc2)
  then show ?case by (simp add: Suc algebra_simps)
qed simp

lemma hex_digit_less: "d < e \<Longrightarrow> e < 16 \<Longrightarrow> hex_digit d < hex_digit e"
  by (simp add: hex_digit_def less_char_def)

lemma hex_fixed_less:
  assumes "x mod 16 ^ n < y mod 16 ^ n"
  shows "hex_fixed n x < hex_fixed n y"
  using assms
proof (induction n)
  case (Suc n)
  let ?dx = "x div 16 ^ n mod 16" and ?dy = "y div 16 ^ n mod 16"
  have split: "z mod 16 ^ Suc n = 16 ^ n * (z div 16 ^ n mod 16) + z mod 16 ^ n" for z :: nat
    by (metis mod_mult2_eq power_Suc2)
  have "?dx < ?dy \<or> ?dx = ?dy \<and> x mod 16 ^ n < y mod 16 ^ n"
  proof (rule ccontr)
    assume "\<not> ?thesis"
    then consider "?dy + 1 \<le> ?dx" | "?dx = ?dy" "y mod 16 ^ n \<le> x mod 16 ^ n" by linarith
    then show False
    proof cases
      case 1
      then have "16 ^ n * ?dy + 16 ^ n \<le> 16 ^ n * ?dx"
        by (metis mult.right_neutral mult_le_mono2 distrib_left)
      moreover have "y mod 16 ^ n < 16 ^ n" by simp
      ultimately show False using Suc.prems unfolding split by linarith
    next
      case 2
      then show False using Suc.prems unfolding split by simp
    qed
  qed
  then show ?case
    by (auto simp: hex_digit_less intro: Suc.IH)
qed simp

lemma bit_sign: "bit (push_bit 63 1 :: 64 word) n \<longleftrightarrow> n = 63"
  unfolding push_bit_of_1 bit_exp_iff by auto

lemma xor_sign_bit: "(x :: 64 word) XOR push_bit 63 1 = x + 2 ^ 63"
proof -
  have clear: "y XOR push_bit 63 1 = y + 2 ^ 63" if "\<not> bit y 63" for y :: "64 word"
  proof -
    have "y + push_bit 63 1 = y OR push_bit 63 1"
      by (rule disjunctive_add) (use that bit_sign in metis)
    moreover have "y OR push_bit 63 1 = y XOR push_bit 63 1"
      by (rule bit_word_eqI) (use that bit_sign in \<open>metis bit_or_iff bit_xor_iff\<close>)
    ultimately show ?thesis by (simp only: push_bit_of_1)
  qed
  show ?thesis
  proof (cases "bit x 63")
    case True
    let ?y = "x XOR push_bit 63 1"
    have "\<not> bit ?y 63" unfolding bit_xor_iff bit_sign using True by simp
    from clear [OF this] have x: "x = ?y + 2 ^ 63"
      by (simp only: xor.assoc xor_self_eq xor.right_neutral)
    have "x + 2 ^ 63 = ?y + 2 ^ 63 + 2 ^ 63" using arg_cong [OF x, of "\<lambda>z. z + 2 ^ 63"] .
    also have "\<dots> = ?y + (2 ^ 63 + 2 ^ 63)" by (rule add.assoc)
    also have "\<dots> = ?y" by simp
    finally show ?thesis by (rule sym)
  qed (rule clear)
qed

lemma unat_ordered:
  assumes "in_i64 v"
  shows "unat ((word_of_int v :: 64 word) XOR push_bit 63 1) = nat (v + 2 ^ 63)"
proof -
  have "(word_of_int v :: 64 word) + 2 ^ 63 = word_of_int (v + 2 ^ 63)" by simp
  then have "uint ((word_of_int v :: 64 word) + 2 ^ 63) = (v + 2 ^ 63) mod 2 ^ 64"
    by (simp only: uint_word_of_int) simp
  also have "\<dots> = v + 2 ^ 63" using assms by (simp add: in_i64_def)
  finally show ?thesis by (simp only: xor_sign_bit unat_eq_nat_uint)
qed

lemma sint_word_of_int_i64: "in_i64 v \<Longrightarrow> sint (word_of_int v :: 64 word) = v"
  by (simp add: sint_sbintrunc' signed_take_bit_int_eq_self in_i64_def)

lemma nat_biased_less: "in_i64 v \<Longrightarrow> nat (v + 2 ^ 63) < 16 ^ 16"
  unfolding in_i64_def by (subst nat_less_iff) simp_all

lemma length_ordered_hex [simp]: "length (ordered_hex v) = 16"
  by (simp only: ordered_hex_def length_hex_fixed)

lemma from_ordered_hex_ordered_hex:
  assumes "in_i64 v"
  shows "from_ordered_hex (ordered_hex v) = Inr v"
proof -
  have "(of_nat (nat (v + 2 ^ 63)) :: 64 word) = word_of_int (v + 2 ^ 63)"
    using assms by (simp add: in_i64_def)
  then have "(of_nat (nat (v + 2 ^ 63)) :: 64 word) XOR push_bit 63 1 = word_of_int v"
    unfolding xor_sign_bit by simp
  moreover have "from_hex 0 (hex_fixed 16 (nat (v + 2 ^ 63))) = nat (v + 2 ^ 63)"
    by (simp only: from_hex_hex_fixed mod_less [OF nat_biased_less [OF assms]])
  ultimately have "sint ((of_nat (from_hex 0 (hex_fixed 16 (nat (v + 2 ^ 63)))) :: 64 word)
      XOR push_bit 63 1) = v"
    by (simp only: sint_word_of_int_i64 [OF assms])
  then show ?thesis
    unfolding from_ordered_hex_def ordered_hex_def unat_ordered [OF assms]
    by (simp only: length_hex_fixed hex_fixed_digits if_False simp_thms)
qed

lemma ordered_hex_less:
  assumes "in_i64 v" and "in_i64 w" and "v < w"
  shows "ordered_hex v < ordered_hex w"
proof -
  have "nat (v + 2 ^ 63) < nat (w + 2 ^ 63)" using assms by (simp add: in_i64_def)
  then show ?thesis
    unfolding ordered_hex_def unat_ordered [OF assms(1)] unat_ordered [OF assms(2)]
    by (intro hex_fixed_less)
      (simp only: mod_less [OF nat_biased_less [OF assms(1)]] mod_less [OF nat_biased_less [OF assms(2)]])
qed

text \<open>
  The storage representation of a revision is 16 hexadecimal digits, parses back to the
  revision, and string comparison of two representations is comparison of the revisions, over
  the whole \<open>i64\<close> range.
\<close>

theorem ordered_hex_faithful:
  assumes "in_i64 v" and "in_i64 w"
  shows "from_ordered_hex (ordered_hex v) = Inr v \<and> length (ordered_hex v) = 16 \<and>
    (ordered_hex v < ordered_hex w \<longleftrightarrow> v < w)"
  using ordered_hex_less [of v w] ordered_hex_less [of w v] from_ordered_hex_ordered_hex assms
  by (cases v w rule: linorder_cases) auto

theorem ordered_hex_faithful_witness:
  "from_ordered_hex (ordered_hex i64_min) = Inr i64_min \<and> ordered_hex i64_min < ordered_hex (- 1)"
  using ordered_hex_faithful [of i64_min "- 1"] by (simp add: in_i64_def)

end
