(* ===== verification/Amalgam_Backplane.thy ===== *)
theory Amalgam_Backplane
  imports Amalgam_Tags
begin

text \<open>
  The notification envelope of \<open>src/backplane.rs\<close>: data messages, typed marker commands and the
  control frame that carries a marker command inside the source identity of a data message.
  The JSON codec of the frame is code of the \<open>serde_json\<close> crate; it is a pair of parameters
  \<open>to_vec\<close> and \<open>from_slice\<close>, and the round trip relies on the documented law that parsing
  returns what was serialized. The lemmas show that decoding inverts encoding for every valid
  command, that no data message is taken for a control command, and that what is decoded
  satisfies the invariants of its types. The continuity epoch of a connection is here too.
\<close>

section \<open>Messages\<close>

datatype backplane_action = SetAction | RemoveAction | ExpireAction

record backplane_message =
  msg_source_id :: string
  msg_timestamp :: timestamp
  msg_action :: backplane_action
  msg_key :: string

record marker_command =
  cmd_source_id :: string
  cmd_scope :: cache_scope
  cmd_marker :: stored_marker

definition MarkerCommand_new ::
  "string \<Rightarrow> cache_scope \<Rightarrow> stored_marker \<Rightarrow> marker_error + marker_command" where
  "MarkerCommand_new source scope marker =
     (if blank source then Inl (Protocol ''control source must not be blank'')
      else Inr \<lparr>cmd_source_id = source, cmd_scope = scope, cmd_marker = marker\<rparr>)"

datatype backplane_command = DataCommand backplane_message | MarkerCmd marker_command

fun command_source_id :: "backplane_command \<Rightarrow> string" where
  "command_source_id (DataCommand m) = msg_source_id m"
| "command_source_id (MarkerCmd c) = cmd_source_id c"

section \<open>Control frames\<close>

text \<open>The unit separator U+001F followed by the protocol name.\<close>

definition CONTROL_PREFIX :: string where
  "CONTROL_PREFIX = char_of (31 :: nat) # ''amalgam-control-v2:''"

datatype wire_marker = WireTag string | WireClearExpire | WireClearRemove

datatype source_frame =
    DataFrame string
  | MarkerFrame string string string nat wire_marker int

fun encode_hex :: "string \<Rightarrow> string" where
  "encode_hex [] = []"
| "encode_hex (b # bs) = hex_digit (byte_of b div 16) # hex_digit (byte_of b mod 16) # encode_hex bs"

definition decode_pair :: "char \<Rightarrow> char \<Rightarrow> marker_error + char" where
  "decode_pair h l = (case to_digit16 h of
     None \<Rightarrow> Inl (Protocol ''invalid hex frame'')
   | Some high \<Rightarrow> (case to_digit16 l of
       None \<Rightarrow> Inl (Protocol ''invalid hex frame'')
     | Some low \<Rightarrow> Inr (char_of (16 * high + low))))"

text \<open>The chunks of two bytes, decoded in order; the first failure is returned.\<close>

fun decode_pairs :: "string \<Rightarrow> marker_error + string" where
  "decode_pairs (h # l # rest) = (case decode_pair h l of
     Inl e \<Rightarrow> Inl e
   | Inr b \<Rightarrow> (case decode_pairs rest of Inl e \<Rightarrow> Inl e | Inr bs \<Rightarrow> Inr (b # bs)))"
| "decode_pairs short = Inr []"

definition decode_hex :: "string \<Rightarrow> marker_error + string" where
  "decode_hex encoded =
     (if odd (length encoded) then Inl (Protocol ''odd hex frame length'')
      else decode_pairs encoded)"

fun modifier_byte :: "key_modifier_mode \<Rightarrow> nat" where
  "modifier_byte Prefix = 1"
| "modifier_byte Suffix = 2"
| "modifier_byte NoModifier = 3"

definition modifier_from_byte :: "nat \<Rightarrow> marker_error + key_modifier_mode" where
  "modifier_from_byte b =
     (if b = 1 then Inr Prefix else if b = 2 then Inr Suffix else if b = 3 then Inr NoModifier
      else Inl (Protocol (''unknown namespace modifier '' @ show_nat b)))"

type_synonym frame_writer = "source_frame \<Rightarrow> string + string"
type_synonym frame_reader = "string \<Rightarrow> string + source_frame"

definition encode_source :: "frame_writer \<Rightarrow> source_frame \<Rightarrow> marker_error + string" where
  "encode_source to_vec frame = (case to_vec frame of
     Inl e \<Rightarrow> Inl (ProtocolWithSource e)
   | Inr bytes \<Rightarrow> Inr (CONTROL_PREFIX @ encode_hex bytes))"

fun wire_marker_of :: "marker_kind \<Rightarrow> wire_marker" where
  "wire_marker_of (TagKind t) = WireTag (tag_as_str t)"
| "wire_marker_of ClearExpire = WireClearExpire"
| "wire_marker_of ClearRemove = WireClearRemove"

definition marker_frame :: "marker_command \<Rightarrow> source_frame" where
  "marker_frame c = MarkerFrame (cmd_source_id c) (scope_prefix (cmd_scope c))
     (scope_version (cmd_scope c)) (modifier_byte (scope_modifier (cmd_scope c)))
     (wire_marker_of (marker_kind_of (cmd_marker c))) (marker_version_of (cmd_marker c))"

fun into_message :: "frame_writer \<Rightarrow> backplane_command \<Rightarrow> marker_error + backplane_message" where
  "into_message to_vec (DataCommand m) =
     (if take (length CONTROL_PREFIX) (msg_source_id m) = CONTROL_PREFIX
      then case encode_source to_vec (DataFrame (msg_source_id m)) of
             Inl e \<Rightarrow> Inl e
           | Inr source \<Rightarrow> Inr (m\<lparr>msg_source_id := source\<rparr>)
      else Inr m)"
| "into_message to_vec (MarkerCmd c) =
     (case encode_source to_vec (marker_frame c) of
        Inl e \<Rightarrow> Inl e
      | Inr source \<Rightarrow> Inr \<lparr>msg_source_id = source, msg_timestamp = marker_version_of (cmd_marker c),
          msg_action = SetAction, msg_key = storage_id (cmd_scope c)\<rparr>)"

fun wire_kind :: "wire_marker \<Rightarrow> marker_error + marker_kind" where
  "wire_kind (WireTag s) = (case Tag_new s of
     Inl e \<Rightarrow> Inl (ProtocolWithSource ''cache tag must not be blank'')
   | Inr t \<Rightarrow> Inr (TagKind t))"
| "wire_kind WireClearExpire = Inr ClearExpire"
| "wire_kind WireClearRemove = Inr ClearRemove"

fun frame_command :: "backplane_message \<Rightarrow> source_frame \<Rightarrow> marker_error + backplane_command" where
  "frame_command m (DataFrame source) = Inr (DataCommand (m\<lparr>msg_source_id := source\<rparr>))"
| "frame_command m (MarkerFrame source prefix version modifier marker tk) =
     (case modifier_from_byte modifier of Inl e \<Rightarrow> Inl e
      | Inr md \<Rightarrow> (case CacheScope_new prefix version md of Inl e \<Rightarrow> Inl e
      | Inr scope \<Rightarrow> (case wire_kind marker of Inl e \<Rightarrow> Inl e
      | Inr kind \<Rightarrow>
          if msg_timestamp m \<noteq> tk \<or> msg_key m \<noteq> storage_id scope \<or> msg_action m \<noteq> SetAction
          then Inl (Protocol ''control envelope disagrees with its typed frame'')
          else (case MarkerCommand_new source scope (StoredMarker kind tk) of
                  Inl e \<Rightarrow> Inl e
                | Inr c \<Rightarrow> Inr (MarkerCmd c)))))"

definition from_message :: "frame_reader \<Rightarrow> backplane_message \<Rightarrow> marker_error + backplane_command" where
  "from_message from_slice m =
     (if take (length CONTROL_PREFIX) (msg_source_id m) \<noteq> CONTROL_PREFIX then Inr (DataCommand m)
      else case decode_hex (drop (length CONTROL_PREFIX) (msg_source_id m)) of
             Inl e \<Rightarrow> Inl e
           | Inr bytes \<Rightarrow> (case from_slice bytes of
               Inl e \<Rightarrow> Inl (ProtocolWithSource e)
             | Inr frame \<Rightarrow> frame_command m frame))"

section \<open>Continuity\<close>

type_synonym continuity_epoch = nat

definition ContinuityEpoch_INITIAL :: continuity_epoch where
  "ContinuityEpoch_INITIAL = 1"

definition continuity_next :: "continuity_epoch \<Rightarrow> marker_error + continuity_epoch" where
  "continuity_next ep = (case checked_add_u64 ep 1 of
     Some n \<Rightarrow> Inr n
   | None \<Rightarrow> Inl (Protocol ''backplane continuity epoch exhausted''))"

datatype backplane_state =
    Connected continuity_epoch
  | Disconnected continuity_epoch
  | BackplaneStopped

section \<open>Validity\<close>

text \<open>
  The type invariants the constructors establish: the physical parts of a scope are derived
  from its fields, a tag is not blank, and neither is the source of a command.
\<close>

definition scope_wf :: "cache_scope \<Rightarrow> bool" where
  "scope_wf s \<longleftrightarrow> CacheScope_new (scope_prefix s) (scope_version s) (scope_modifier s) = Inr s"

fun kind_wf :: "marker_kind \<Rightarrow> bool" where
  "kind_wf (TagKind t) = valid_tag t"
| "kind_wf ClearExpire = True"
| "kind_wf ClearRemove = True"

definition command_wf :: "marker_command \<Rightarrow> bool" where
  "command_wf c \<longleftrightarrow> \<not> blank (cmd_source_id c) \<and> scope_wf (cmd_scope c)
     \<and> kind_wf (marker_kind_of (cmd_marker c))"

fun bp_command_wf :: "backplane_command \<Rightarrow> bool" where
  "bp_command_wf (DataCommand m) = True"
| "bp_command_wf (MarkerCmd c) = command_wf c"

lemma CacheScope_new_wf: "CacheScope_new p v md = Inr s \<Longrightarrow> scope_wf s"
  by (auto simp: CacheScope_new_def scope_wf_def Let_def split: if_splits key_modifier_mode.splits)

lemma MarkerCommand_new_wf:
  "MarkerCommand_new source scope marker = Inr c \<Longrightarrow> scope_wf scope \<Longrightarrow> kind_wf (marker_kind_of marker)
   \<Longrightarrow> command_wf c"
  by (auto simp: MarkerCommand_new_def command_wf_def split: if_splits)

lemma wire_kind_wf: "wire_kind w = Inr k \<Longrightarrow> kind_wf k"
  by (cases w) (auto simp: Tag_new_def valid_tag_def split: if_splits)

lemma wire_kind_of [simp]: "kind_wf k \<Longrightarrow> wire_kind (wire_marker_of k) = Inr k"
proof (cases k)
  case (TagKind t)
  then show "kind_wf k \<Longrightarrow> ?thesis" by (cases t) (simp add: Tag_new_def valid_tag_def)
qed simp_all

lemma modifier_round_trip [simp]: "modifier_from_byte (modifier_byte md) = Inr md"
  by (cases md) (simp_all add: modifier_from_byte_def)

section \<open>Hexadecimal frames\<close>

lemma byte_of_less [simp]: "byte_of c < 256"
  by (simp add: byte_of_def)

lemma decode_pair_encode [simp]:
  "decode_pair (hex_digit (byte_of b div 16)) (hex_digit (byte_of b mod 16)) = Inr b"
proof -
  have "byte_of b div 16 < 16" using byte_of_less [of b] by linarith
  moreover have "16 * (byte_of b div 16) + byte_of b mod 16 = byte_of b" by simp
  ultimately show ?thesis by (simp add: decode_pair_def byte_of_def)
qed

lemma length_encode_hex [simp]: "length (encode_hex bs) = 2 * length bs"
  by (induction bs) simp_all

lemma decode_pairs_encode [simp]: "decode_pairs (encode_hex bs) = Inr bs"
  by (induction bs) simp_all

lemma decode_encode_hex [simp]: "decode_hex (encode_hex bs) = Inr bs"
  by (simp add: decode_hex_def)

section \<open>Round trip\<close>

lemma from_encoded_source:
  assumes "encode_source to_vec frame = Inr source"
    and "\<And>bytes. to_vec frame = Inr bytes \<Longrightarrow> from_slice bytes = Inr frame"
  shows "from_message from_slice (m\<lparr>msg_source_id := source\<rparr>) = frame_command (m\<lparr>msg_source_id := source\<rparr>) frame"
  using assms by (auto simp: encode_source_def from_message_def split: sum.splits)

lemma frame_command_marker:
  assumes "command_wf c" and "msg_timestamp m = marker_version_of (cmd_marker c)"
    and "msg_key m = storage_id (cmd_scope c)" and "msg_action m = SetAction"
  shows "frame_command m (marker_frame c) = Inr (MarkerCmd c)"
  using assms by (cases "cmd_marker c")
    (simp add: marker_frame_def command_wf_def scope_wf_def MarkerCommand_new_def)

lemma marker_message_round_trip:
  assumes "command_wf c" and "into_message to_vec (MarkerCmd c) = Inr m"
    and rt: "\<And>f bytes. to_vec f = Inr bytes \<Longrightarrow> from_slice bytes = Inr f"
  shows "from_message from_slice m = Inr (MarkerCmd c)"
proof -
  let ?m = "\<lambda>s. \<lparr>msg_source_id = s, msg_timestamp = marker_version_of (cmd_marker c),
     msg_action = SetAction, msg_key = storage_id (cmd_scope c)\<rparr>"
  obtain source where s: "encode_source to_vec (marker_frame c) = Inr source" and m: "m = ?m source"
    using assms(2) by (auto split: sum.splits)
  have "from_message from_slice ((?m [])\<lparr>msg_source_id := source\<rparr>) =
      frame_command ((?m [])\<lparr>msg_source_id := source\<rparr>) (marker_frame c)"
    by (rule from_encoded_source [OF s rt])
  then show ?thesis
    by (simp add: m frame_command_marker [OF assms(1)])
qed

lemma data_message_round_trip:
  assumes "into_message to_vec (DataCommand d) = Inr m"
    and rt: "\<And>f bytes. to_vec f = Inr bytes \<Longrightarrow> from_slice bytes = Inr f"
  shows "from_message from_slice m = Inr (DataCommand d)"
proof (cases "take (length CONTROL_PREFIX) (msg_source_id d) = CONTROL_PREFIX")
  case True
  with assms(1) obtain source where
    s: "encode_source to_vec (DataFrame (msg_source_id d)) = Inr source" and m: "m = d\<lparr>msg_source_id := source\<rparr>"
    by (auto split: sum.splits)
  show ?thesis using from_encoded_source [OF s rt, where m = d] by (simp add: m)
next
  case False
  with assms(1) show ?thesis by (simp add: from_message_def)
qed

text \<open>
  Decoding a published envelope returns the command that was encoded, for every data message
  (even one whose source imitates a control frame) and every well-formed marker command, as soon
  as the JSON codec parses what it wrote.
\<close>

theorem backplane_round_trip:
  assumes "bp_command_wf c" and "into_message to_vec c = Inr m"
    and "\<And>f bytes. to_vec f = Inr bytes \<Longrightarrow> from_slice bytes = Inr f"
  shows "from_message from_slice m = Inr c"
  using assms by (cases c) (auto intro: marker_message_round_trip data_message_round_trip simp del: into_message.simps)

text \<open>A codec that knows one frame, for the instance below.\<close>

definition demo_scope :: cache_scope where
  "demo_scope = \<lparr>scope_prefix = ''p'', scope_version = ''v'', scope_modifier = Suffix,
     physical_prefix = ''p'', physical_suffix = '':v''\<rparr>"

definition demo_command :: marker_command where
  "demo_command = \<lparr>cmd_source_id = ''n1'', cmd_scope = demo_scope,
     cmd_marker = StoredMarker (TagKind (Tag ''t'')) 7\<rparr>"

definition demo_writer :: frame_writer where
  "demo_writer f = (if f = marker_frame demo_command then Inr ''J'' else Inl ''unsupported'')"

definition demo_reader :: frame_reader where
  "demo_reader bs = (if bs = ''J'' then Inr (marker_frame demo_command) else Inl ''unsupported'')"

lemma demo_command_wf: "command_wf demo_command"
  by (simp add: command_wf_def demo_command_def demo_scope_def scope_wf_def CacheScope_new_def valid_tag_def
      blank_def byte_of_def ascii_space_def two_byte_space_def)

definition demo_message :: backplane_message where
  "demo_message = \<lparr>msg_source_id = CONTROL_PREFIX @ ''4a'', msg_timestamp = 7,
     msg_action = SetAction, msg_key = ''1:p2::v''\<rparr>"

lemma demo_into_message: "into_message demo_writer (MarkerCmd demo_command) = Inr demo_message"
  by (simp add: encode_source_def demo_writer_def demo_message_def hex_digit_def byte_of_def char_of_def)
    (simp add: demo_command_def demo_scope_def storage_id_def show_nat.simps char_of_def bit_simps)

theorem backplane_round_trip_witness:
  "from_message demo_reader demo_message = Inr (MarkerCmd demo_command)"
  by (rule backplane_round_trip [where to_vec = demo_writer])
    (simp_all add: demo_command_wf demo_into_message del: into_message.simps,
     auto simp: demo_writer_def demo_reader_def split: if_splits)

text \<open>
  Decoding trusts nothing: whatever the JSON parser returns, a message without the control
  prefix stays the data message it is, and a decoded marker command has a non-blank source, a
  scope and tag that passed validation, and agrees with its envelope in key, revision and action.
\<close>

theorem control_decoding_sound:
  "(take (length CONTROL_PREFIX) (msg_source_id m) \<noteq> CONTROL_PREFIX
      \<longrightarrow> from_message from_slice m = Inr (DataCommand m))
   \<and> (from_message from_slice m = Inr (MarkerCmd c)
      \<longrightarrow> command_wf c \<and> msg_key m = storage_id (cmd_scope c) \<and> msg_action m = SetAction
        \<and> msg_timestamp m = marker_version_of (cmd_marker c))"
proof -
  have "frame_command m f = Inr (MarkerCmd c) \<Longrightarrow>
      command_wf c \<and> msg_key m = storage_id (cmd_scope c) \<and> msg_action m = SetAction
        \<and> msg_timestamp m = marker_version_of (cmd_marker c)" for f
    by (cases f) (auto simp: MarkerCommand_new_def command_wf_def wire_kind_wf CacheScope_new_wf
        split: sum.splits if_splits)
  then show ?thesis by (auto simp: from_message_def split: sum.splits if_splits)
qed

theorem control_decoding_sound_witness:
  "command_wf demo_command \<and> msg_key demo_message = storage_id (cmd_scope demo_command)"
proof -
  have "from_message demo_reader demo_message = Inr (MarkerCmd demo_command)"
    by (rule marker_message_round_trip [OF demo_command_wf demo_into_message])
      (auto simp: demo_writer_def demo_reader_def split: if_splits)
  then show ?thesis
    using control_decoding_sound [of demo_message demo_reader demo_command] by blast
qed

end
