(* ===== verification/Amalgam_Snapshots.thy ===== *)
theory Amalgam_Snapshots
  imports Amalgam_Backplane
begin

text \<open>
  Control snapshots, \<open>src/marker_snapshots.rs\<close>, and the marker payloads of the recovery queue,
  \<open>src/recovery/marker_snapshots.rs\<close>. A snapshot is an expiring observation of an invalidation
  revision; a marker mutation waiting for recovery moves from durable advancement over population
  to notification and may carry one committed clear (its compaction) inherited from superseded
  work. The lemmas show the order of the deadlines, that merging a maximum only raises a revision,
  that superseding is a strict order, that stages only move forward, and that inheriting keeps
  the strongest clear obligation without ever failing on well-formed work.
\<close>

section \<open>Control snapshots\<close>

datatype marker_lifecycle_policy = DurableOnly | CachedSnapshots

datatype marker_snapshot_validation_error = InvalidSnapshotDeadlines | ZeroSnapshotCapacity

record marker_snapshot =
  snap_version :: marker_version
  snap_created :: timestamp
  snap_logical :: timestamp
  snap_physical :: timestamp

definition MarkerSnapshot_new ::
  "marker_version \<Rightarrow> timestamp \<Rightarrow> timestamp \<Rightarrow> timestamp \<Rightarrow> marker_snapshot_validation_error + marker_snapshot" where
  "MarkerSnapshot_new version created logical physical =
     (if created > logical \<or> logical > physical then Inl InvalidSnapshotDeadlines
      else Inr \<lparr>snap_version = version, snap_created = created, snap_logical = logical,
                snap_physical = physical\<rparr>)"

definition MarkerSnapshot_fresh :: "marker_version \<Rightarrow> entry_options \<Rightarrow> timestamp \<Rightarrow> marker_snapshot" where
  "MarkerSnapshot_fresh version options now =
     \<lparr>snap_version = version, snap_created = now,
      snap_logical = saturating_add now (resolved_distributed_duration options),
      snap_physical = saturating_add now (distributed_physical_ttl options)\<rparr>"

definition snapshot_is_fresh :: "marker_snapshot \<Rightarrow> timestamp \<Rightarrow> bool" where
  "snapshot_is_fresh s now \<longleftrightarrow> now < snap_logical s \<and> now < snap_physical s"

definition snapshot_is_physically_expired :: "marker_snapshot \<Rightarrow> timestamp \<Rightarrow> bool" where
  "snapshot_is_physically_expired s now \<longleftrightarrow> now \<ge> snap_physical s"

definition snapshot_remaining_ttl :: "marker_snapshot \<Rightarrow> timestamp \<Rightarrow> duration" where
  "snapshot_remaining_ttl s now = saturating_duration_since (snap_physical s) now"

definition with_maximum :: "marker_version option \<Rightarrow> marker_snapshot \<Rightarrow> marker_snapshot" where
  "with_maximum maximum s =
     s\<lparr>snap_version := (case maximum of None \<Rightarrow> snap_version s | Some v \<Rightarrow> max v (snap_version s))\<rparr>"

definition snapshot_supersedes :: "marker_snapshot \<Rightarrow> marker_snapshot \<Rightarrow> bool" where
  "snapshot_supersedes a b \<longleftrightarrow> snap_version a > snap_version b
     \<or> snap_version a = snap_version b \<and> snap_created a > snap_created b"

datatype marker_snapshot_limits = MarkerSnapshotLimits (snapshot_max_entries: nat)

definition MarkerSnapshotLimits_new ::
  "nat \<Rightarrow> marker_snapshot_validation_error + marker_snapshot_limits" where
  "MarkerSnapshotLimits_new n =
     (if n = 0 then Inl ZeroSnapshotCapacity else Inr (MarkerSnapshotLimits n))"

definition MarkerSnapshotLimits_default :: marker_snapshot_limits where
  "MarkerSnapshotLimits_default = MarkerSnapshotLimits 4096"

datatype marker_snapshot_renewal =
    RenewalStored marker_snapshot
  | RenewalKeptNewer marker_snapshot
  | RenewalExpired

datatype marker_snapshot_read =
    ReadSnapshot marker_snapshot
  | ReadMissing "marker_version option"

fun read_snapshot_of :: "marker_snapshot_read \<Rightarrow> marker_snapshot option" where
  "read_snapshot_of (ReadSnapshot s) = Some s"
| "read_snapshot_of (ReadMissing m) = None"

fun read_maximum :: "marker_snapshot_read \<Rightarrow> marker_version option" where
  "read_maximum (ReadSnapshot s) = Some (snap_version s)"
| "read_maximum (ReadMissing m) = m"

section \<open>Recovery errors\<close>

datatype recovery_error =
    GenerationExhausted
  | IdentityExhausted
  | ZeroDelay
  | MissingRuntime
  | ExecutorAlreadyConfigured
  | RecoveryStopped
  | UnsupportedMarkerExecutor
  | SnapshotWritesSkipped
  | MarkerIdentityChanged
  | InvalidMarkerStage
  | InvalidBarrier
  | TaskFailed string

datatype capture_error = CaptureConfig config_error | CaptureRecovery recovery_error

section \<open>Observation repairs\<close>

datatype marker_snapshot_participation = Unleased | Fenced | Cooperative

record marker_snapshot_replay =
  replay_scope :: cache_scope
  replay_kind :: marker_kind
  replay_snapshot :: marker_snapshot
  replay_options :: entry_options
  replay_participation :: marker_snapshot_participation

definition capture_snapshot_replay ::
  "cache_scope \<Rightarrow> marker_kind \<Rightarrow> marker_snapshot \<Rightarrow> entry_options \<Rightarrow> marker_snapshot_participation
   \<Rightarrow> capture_error + marker_snapshot_replay" where
  "capture_snapshot_replay scope kind snapshot options participation = (case validate options of
     Inl e \<Rightarrow> Inl (CaptureConfig e)
   | Inr u \<Rightarrow>
       if opt_skip_distributed_write options then Inl (CaptureRecovery SnapshotWritesSkipped)
       else Inr \<lparr>replay_scope = scope, replay_kind = kind, replay_snapshot = snapshot,
                 replay_options = options, replay_participation = participation\<rparr>)"

section \<open>Marker mutations\<close>

datatype marker_mutation_phase =
    AdvancePhase entry_options marker_snapshot
  | PopulatePhase entry_options marker_snapshot "marker_command list"
  | NotifyPhase "marker_command list"

datatype marker_mutation_recovery =
  MarkerMutation (mm_command: marker_command) (mm_phase: marker_mutation_phase)
    (pending_compaction: "marker_mutation_recovery option")

fun is_advance_phase :: "marker_mutation_phase \<Rightarrow> bool" where
  "is_advance_phase (AdvancePhase opts s) = True"
| "is_advance_phase ph = False"

fun is_notify_phase :: "marker_mutation_phase \<Rightarrow> bool" where
  "is_notify_phase (NotifyPhase cs) = True"
| "is_notify_phase ph = False"

abbreviation mm_version :: "marker_mutation_recovery \<Rightarrow> marker_version" where
  "mm_version w \<equiv> marker_version_of (cmd_marker (mm_command w))"

abbreviation mm_kind :: "marker_mutation_recovery \<Rightarrow> marker_kind" where
  "mm_kind w \<equiv> marker_kind_of (cmd_marker (mm_command w))"

abbreviation mm_scope :: "marker_mutation_recovery \<Rightarrow> cache_scope" where
  "mm_scope w \<equiv> cmd_scope (mm_command w)"

definition with_compaction ::
  "marker_mutation_recovery \<Rightarrow> marker_mutation_recovery option \<Rightarrow> recovery_error + marker_mutation_recovery" where
  "with_compaction w child = (case child of
     None \<Rightarrow> Inr (MarkerMutation (mm_command w) (mm_phase w) None)
   | Some c \<Rightarrow>
       if \<not> scope_eq (mm_scope c) (mm_scope w) \<or> mm_kind c \<noteq> ClearRemove
          \<or> pending_compaction c \<noteq> None \<or> is_advance_phase (mm_phase c)
       then Inl MarkerIdentityChanged
       else Inr (MarkerMutation (mm_command w) (mm_phase w) (Some c)))"

fun completed_compaction :: "marker_mutation_recovery \<Rightarrow> marker_mutation_recovery option" where
  "completed_compaction (MarkerMutation cmd (AdvancePhase opts s) inh) = None"
| "completed_compaction (MarkerMutation cmd (PopulatePhase opts s []) inh) = None"
| "completed_compaction (MarkerMutation cmd (PopulatePhase opts s (c # cs)) inh) =
     Some (MarkerMutation c (PopulatePhase opts
       (MarkerSnapshot_fresh (marker_version_of (cmd_marker c)) opts (snap_created s)) []) None)"
| "completed_compaction (MarkerMutation cmd (NotifyPhase []) inh) = None"
| "completed_compaction (MarkerMutation cmd (NotifyPhase (c # cs)) inh) =
     Some (MarkerMutation c (NotifyPhase []) None)"

text \<open>\<open>Iterator::max_by_key\<close> on \<open>(version, notify stage)\<close>: the last of the greatest candidates.\<close>

definition compaction_le :: "marker_mutation_recovery \<Rightarrow> marker_mutation_recovery \<Rightarrow> bool" where
  "compaction_le a b \<longleftrightarrow> mm_version a < mm_version b
     \<or> mm_version a = mm_version b \<and> (is_notify_phase (mm_phase a) \<longrightarrow> is_notify_phase (mm_phase b))"

fun max_compaction :: "marker_mutation_recovery list \<Rightarrow> marker_mutation_recovery option" where
  "max_compaction [] = None"
| "max_compaction (w # ws) = Some (foldl (\<lambda>b x. if compaction_le b x then x else b) w ws)"

fun opt_list :: "'a option \<Rightarrow> 'a list" where
  "opt_list None = []"
| "opt_list (Some x) = [x]"

definition compaction_candidates ::
  "marker_mutation_recovery \<Rightarrow> marker_mutation_recovery \<Rightarrow> marker_mutation_recovery list" where
  "compaction_candidates w previous = opt_list (completed_compaction previous)
     @ opt_list (pending_compaction previous) @ opt_list (pending_compaction w)"

definition inherit_compaction ::
  "marker_mutation_recovery \<Rightarrow> marker_mutation_recovery \<Rightarrow> recovery_error + marker_mutation_recovery" where
  "inherit_compaction w previous = with_compaction w (max_compaction (compaction_candidates w previous))"

definition committed_notification :: "marker_command \<Rightarrow> marker_mutation_recovery" where
  "committed_notification c = MarkerMutation c (NotifyPhase []) None"

definition capture_mutation ::
  "marker_command \<Rightarrow> entry_options \<Rightarrow> timestamp \<Rightarrow> capture_error + marker_mutation_recovery" where
  "capture_mutation c options created = (case validate options of
     Inl e \<Rightarrow> Inl (CaptureConfig e)
   | Inr u \<Rightarrow>
       if opt_skip_distributed_write options then Inl (CaptureRecovery SnapshotWritesSkipped)
       else Inr (MarkerMutation c (AdvancePhase options
              (MarkerSnapshot_fresh (marker_version_of (cmd_marker c)) options created)) None))"

definition population ::
  "marker_mutation_recovery \<Rightarrow> marker_command \<Rightarrow> marker_command list
   \<Rightarrow> recovery_error + marker_mutation_recovery" where
  "population w c additional =
     (if \<not> scope_eq (mm_scope w) (cmd_scope c) \<or> mm_kind w \<noteq> marker_kind_of (cmd_marker c)
         \<or> mm_version w > marker_version_of (cmd_marker c) then Inl MarkerIdentityChanged
      else if length additional > 1
         \<or> additional \<noteq> [] \<and> marker_kind_of (cmd_marker c) = ClearRemove then Inl MarkerIdentityChanged
      else if list_ex (\<lambda>x. \<not> scope_eq (cmd_scope x) (cmd_scope c)
         \<or> marker_kind_of (cmd_marker x) \<noteq> ClearRemove) additional then Inl MarkerIdentityChanged
      else (case mm_phase w of
        AdvancePhase options snapshot \<Rightarrow>
          Inr (MarkerMutation c (PopulatePhase options
            (with_maximum (Some (marker_version_of (cmd_marker c))) snapshot) additional)
            (pending_compaction w))
      | _ \<Rightarrow> Inl InvalidMarkerStage))"

definition notification :: "marker_mutation_recovery \<Rightarrow> recovery_error + marker_mutation_recovery" where
  "notification w = (case mm_phase w of
     PopulatePhase options snapshot additional \<Rightarrow>
       if opt_skip_backplane_notifications options then Inl InvalidMarkerStage
       else Inr (MarkerMutation (mm_command w) (NotifyPhase additional) (pending_compaction w))
   | _ \<Rightarrow> Inl InvalidMarkerStage)"

section \<open>Snapshot lemmas\<close>

definition snapshot_ok :: "marker_snapshot \<Rightarrow> bool" where
  "snapshot_ok s \<longleftrightarrow> snap_created s \<le> snap_logical s \<and> snap_logical s \<le> snap_physical s"

lemma MarkerSnapshot_new_ok: "MarkerSnapshot_new v c l p = Inr s \<Longrightarrow> snapshot_ok s"
  by (auto simp: MarkerSnapshot_new_def snapshot_ok_def split: if_splits)

lemma resolved_le_distributed_physical_ttl:
  "resolved_distributed_duration opts \<le> distributed_physical_ttl opts"
  by (simp add: distributed_physical_ttl_def Let_def)

lemma MarkerSnapshot_fresh_ok:
  assumes "in_i64 now"
  shows "snapshot_ok (MarkerSnapshot_fresh v opts now)"
  using saturating_add_ge [OF assms] saturating_add_mono [OF assms assms order_refl resolved_le_distributed_physical_ttl]
  by (simp add: snapshot_ok_def MarkerSnapshot_fresh_def)

lemma with_maximum_simps [simp]:
  "snap_created (with_maximum m s) = snap_created s"
  "snap_logical (with_maximum m s) = snap_logical s"
  "snap_physical (with_maximum m s) = snap_physical s"
  by (simp_all add: with_maximum_def)

lemma with_maximum_ok [simp]: "snapshot_ok (with_maximum m s) = snapshot_ok s"
  by (simp add: snapshot_ok_def)

lemma with_maximum_ge: "snap_version s \<le> snap_version (with_maximum m s)"
  "m = Some v \<Longrightarrow> v \<le> snap_version (with_maximum m s)"
  by (auto simp: with_maximum_def split: option.splits)

lemma snapshot_supersedes_irrefl [simp]: "\<not> snapshot_supersedes s s"
  by (simp add: snapshot_supersedes_def)

lemma snapshot_supersedes_trans:
  "snapshot_supersedes a b \<Longrightarrow> snapshot_supersedes b c \<Longrightarrow> snapshot_supersedes a c"
  by (auto simp: snapshot_supersedes_def)

section \<open>Well-formed mutations\<close>

fun phase_additional :: "marker_mutation_phase \<Rightarrow> marker_command list" where
  "phase_additional (AdvancePhase opts s) = []"
| "phase_additional (PopulatePhase opts s cs) = cs"
| "phase_additional (NotifyPhase cs) = cs"

definition clear_fact :: "cache_scope \<Rightarrow> marker_command \<Rightarrow> bool" where
  "clear_fact scope c \<longleftrightarrow> scope_eq (cmd_scope c) scope \<and> marker_kind_of (cmd_marker c) = ClearRemove"

definition clear_obligation :: "cache_scope \<Rightarrow> marker_mutation_recovery \<Rightarrow> bool" where
  "clear_obligation scope c \<longleftrightarrow> clear_fact scope (mm_command c) \<and> pending_compaction c = None
     \<and> \<not> is_advance_phase (mm_phase c) \<and> phase_additional (mm_phase c) = []"

definition mutation_wf :: "marker_mutation_recovery \<Rightarrow> bool" where
  "mutation_wf w \<longleftrightarrow> length (phase_additional (mm_phase w)) \<le> 1
     \<and> list_all (clear_fact (mm_scope w)) (phase_additional (mm_phase w))
     \<and> list_all (clear_obligation (mm_scope w)) (opt_list (pending_compaction w))"

text \<open>The committed clears a mutation still has to publish.\<close>

definition clear_debt :: "marker_mutation_recovery \<Rightarrow> marker_command list" where
  "clear_debt w = phase_additional (mm_phase w) @ map mm_command (opt_list (pending_compaction w))"

lemma scope_eq_refl [simp]: "scope_eq a a"
  by (simp add: scope_eq_def)

lemma scope_eq_sym: "scope_eq a b \<Longrightarrow> scope_eq b a"
  by (simp add: scope_eq_def)

lemma scope_eq_trans: "scope_eq a b \<Longrightarrow> scope_eq b c \<Longrightarrow> scope_eq a c"
  by (simp add: scope_eq_def)

lemma clear_obligation_scope: "scope_eq a b \<Longrightarrow> clear_obligation a c \<Longrightarrow> clear_obligation b c"
  by (auto simp: clear_obligation_def clear_fact_def intro: scope_eq_trans)

lemma completed_compaction_obligation:
  "mutation_wf w \<Longrightarrow> completed_compaction w = Some c \<Longrightarrow> clear_obligation (mm_scope w) c"
  by (cases w rule: completed_compaction.cases)
    (auto simp: mutation_wf_def clear_obligation_def)

lemma candidates_obligation:
  assumes "mutation_wf w" and "mutation_wf p" and "scope_eq (mm_scope w) (mm_scope p)"
    and "c \<in> set (compaction_candidates w p)"
  shows "clear_obligation (mm_scope w) c"
proof -
  have "clear_obligation (mm_scope p) c \<or> clear_obligation (mm_scope w) c"
    using assms completed_compaction_obligation [OF assms(2)]
    by (cases "completed_compaction p"; cases "pending_compaction p"; cases "pending_compaction w")
      (auto simp: compaction_candidates_def mutation_wf_def)
  then show ?thesis using clear_obligation_scope scope_eq_sym [OF assms(3)] by blast
qed

lemma compaction_le_refl: "compaction_le a a"
  by (simp add: compaction_le_def)

lemma compaction_le_trans: "compaction_le a b \<Longrightarrow> compaction_le b c \<Longrightarrow> compaction_le a c"
  by (auto simp: compaction_le_def)

lemma compaction_le_total: "\<not> compaction_le a b \<Longrightarrow> compaction_le b a"
  by (auto simp: compaction_le_def)

lemma foldl_compaction:
  "let m = foldl (\<lambda>b x. if compaction_le b x then x else b) w ws
   in m \<in> set (w # ws) \<and> (\<forall>x \<in> set (w # ws). compaction_le x m)"
proof (induction ws arbitrary: w)
  case Nil
  then show ?case by (simp add: compaction_le_refl)
next
  case (Cons v ws)
  let ?b = "if compaction_le w v then v else w"
  let ?m = "foldl (\<lambda>b x. if compaction_le b x then x else b) ?b ws"
  have m: "?m \<in> set (?b # ws)" "\<forall>x \<in> set (?b # ws). compaction_le x ?m"
    using Cons.IH [of ?b] unfolding Let_def by (rule conjunct1, rule conjunct2)
  have "compaction_le w ?b" "compaction_le v ?b"
    by (simp_all add: compaction_le_refl compaction_le_total)
  then have "compaction_le w ?m" "compaction_le v ?m"
    using m(2) compaction_le_trans by (meson list.set_intros(1))+
  moreover have "?m \<in> set (w # v # ws)" using m(1) by (auto split: if_splits)
  ultimately show ?case using m(2) by (simp add: Let_def)
qed

lemma max_compaction_Some:
  assumes "max_compaction ws = Some m"
  shows "m \<in> set ws" and "x \<in> set ws \<Longrightarrow> compaction_le x m"
  using assms foldl_compaction by (cases ws; simp add: Let_def; blast)+

lemma max_compaction_None [simp]: "max_compaction ws = None \<longleftrightarrow> ws = []"
  by (cases ws) simp_all

lemma inherit_compaction_ok:
  assumes "mutation_wf w" and "mutation_wf p" and "scope_eq (mm_scope w) (mm_scope p)"
  shows "inherit_compaction w p = Inr (MarkerMutation (mm_command w) (mm_phase w)
           (max_compaction (compaction_candidates w p)))"
proof (cases "max_compaction (compaction_candidates w p)")
  case None
  then show ?thesis by (simp add: inherit_compaction_def with_compaction_def)
next
  case (Some c)
  then have "clear_obligation (mm_scope w) c"
    using candidates_obligation [OF assms] max_compaction_Some(1) by blast
  with Some show ?thesis
    by (simp add: inherit_compaction_def with_compaction_def clear_obligation_def clear_fact_def)
qed

lemma inherit_compaction_wf:
  assumes "mutation_wf w" and "mutation_wf p" and "scope_eq (mm_scope w) (mm_scope p)"
    and "inherit_compaction w p = Inr w'"
  shows "mutation_wf w'" and "mm_command w' = mm_command w" and "mm_phase w' = mm_phase w"
proof -
  have w': "w' = MarkerMutation (mm_command w) (mm_phase w) (max_compaction (compaction_candidates w p))"
    using inherit_compaction_ok [OF assms(1-3)] assms(4) by simp
  then show "mm_command w' = mm_command w" "mm_phase w' = mm_phase w" by simp_all
  show "mutation_wf w'"
    using assms(1) candidates_obligation [OF assms(1-3)]
    by (cases "max_compaction (compaction_candidates w p)")
      (auto simp: w' mutation_wf_def dest: max_compaction_Some(1))
qed

lemma debt_in_candidates:
  assumes "mutation_wf p" and "x \<in> set (clear_debt p)"
  shows "\<exists>c \<in> set (compaction_candidates w p). mm_command c = x"
proof -
  consider "x \<in> set (phase_additional (mm_phase p))" | c where "pending_compaction p = Some c" "mm_command c = x"
    using assms(2) by (cases "pending_compaction p") (auto simp: clear_debt_def)
  then show ?thesis
  proof cases
    case 1
    then have "\<exists>c. completed_compaction p = Some c \<and> mm_command c = x"
      using assms(1) by (cases p rule: completed_compaction.cases) (auto simp: mutation_wf_def)
    then show ?thesis by (auto simp: compaction_candidates_def)
  next
    case 2
    then show ?thesis by (auto simp: compaction_candidates_def)
  qed
qed

text \<open>
  Replacing a pending marker mutation never loses a committed clear: for well-formed work in
  one namespace inheriting cannot fail, it keeps the new command and stage, and every clear the
  replaced work (or the new work's own child) still owed is covered by a clear of at least that
  revision that the result owes.
\<close>

theorem compaction_debt_inherited:
  assumes "mutation_wf w" and "mutation_wf p" and "scope_eq (mm_scope w) (mm_scope p)"
  shows "\<exists>w'. inherit_compaction w p = Inr w' \<and> mutation_wf w'
      \<and> mm_command w' = mm_command w \<and> mm_phase w' = mm_phase w
      \<and> (\<forall>x \<in> set (clear_debt p) \<union> set (clear_debt w). \<exists>y \<in> set (clear_debt w').
            marker_version_of (cmd_marker x) \<le> marker_version_of (cmd_marker y))"
proof -
  let ?cs = "compaction_candidates w p"
  define w' where "w' = MarkerMutation (mm_command w) (mm_phase w) (max_compaction ?cs)"
  have i: "inherit_compaction w p = Inr w'"
    using inherit_compaction_ok [OF assms] by (simp add: w'_def)
  have cover: "\<exists>y \<in> set (clear_debt w'). mm_version c \<le> marker_version_of (cmd_marker y)"
    if "c \<in> set ?cs" for c
  proof -
    from that obtain m where m: "max_compaction ?cs = Some m" by (cases "max_compaction ?cs") auto
    then show ?thesis
      using max_compaction_Some(2) [OF m that] by (auto simp: clear_debt_def w'_def compaction_le_def)
  qed
  have own: "x \<in> set (phase_additional (mm_phase w)) \<or> (\<exists>c \<in> set ?cs. mm_command c = x)"
    if "x \<in> set (clear_debt w)" for x
    using that by (cases "pending_compaction w") (auto simp: clear_debt_def compaction_candidates_def)
  have "\<exists>y \<in> set (clear_debt w'). marker_version_of (cmd_marker x) \<le> marker_version_of (cmd_marker y)"
    if "x \<in> set (clear_debt p) \<union> set (clear_debt w)" for x
  proof -
    have "x \<in> set (phase_additional (mm_phase w)) \<or> (\<exists>c \<in> set ?cs. mm_command c = x)"
      using that debt_in_candidates [OF assms(2), of x w] own [of x] by blast
    then show ?thesis
    proof
      assume "x \<in> set (phase_additional (mm_phase w))"
      then have "x \<in> set (clear_debt w')" by (simp add: clear_debt_def w'_def)
      then show ?thesis by blast
    next
      assume "\<exists>c \<in> set ?cs. mm_command c = x"
      then show ?thesis using cover by blast
    qed
  qed
  then show ?thesis
    using i inherit_compaction_wf [OF assms i] by blast
qed

theorem compaction_debt_inherited_witness:
  "\<exists>w'. inherit_compaction
       (MarkerMutation (demo_command\<lparr>cmd_marker := StoredMarker (TagKind (Tag ''t'')) 9\<rparr>) (NotifyPhase []) None)
       (MarkerMutation demo_command (NotifyPhase [demo_command\<lparr>cmd_marker := StoredMarker ClearRemove 5\<rparr>]) None)
       = Inr w'
     \<and> list_ex (\<lambda>y. 5 \<le> marker_version_of (cmd_marker y)) (clear_debt w')"
  using compaction_debt_inherited
    [of "MarkerMutation (demo_command\<lparr>cmd_marker := StoredMarker (TagKind (Tag ''t'')) 9\<rparr>) (NotifyPhase []) None"
        "MarkerMutation demo_command (NotifyPhase [demo_command\<lparr>cmd_marker := StoredMarker ClearRemove 5\<rparr>]) None"]
  by (auto simp: mutation_wf_def clear_fact_def clear_debt_def list_ex_iff)

text \<open>
  Control snapshots: a fresh snapshot has its deadlines in order, merging a durable maximum
  keeps the deadlines and yields the larger revision, and superseding is a strict order, so a
  lower revision, or an older insertion of the same revision, never displaces a newer snapshot.
\<close>

theorem snapshot_protocol:
  assumes "in_i64 now"
  shows "snapshot_ok (MarkerSnapshot_fresh v opts now)
    \<and> with_maximum (Some u) (MarkerSnapshot_fresh v opts now) = MarkerSnapshot_fresh (max u v) opts now
    \<and> (snapshot_is_fresh s t \<and> snapshot_ok s \<longrightarrow> \<not> snapshot_is_physically_expired s t)
    \<and> (snapshot_supersedes a b \<and> snapshot_supersedes b c \<longrightarrow> snapshot_supersedes a c)
    \<and> (snapshot_supersedes a b \<longrightarrow> \<not> snapshot_supersedes b a)
    \<and> (snapshot_supersedes a b \<or> snapshot_supersedes b a
         \<or> snap_version a = snap_version b \<and> snap_created a = snap_created b)"
  using MarkerSnapshot_fresh_ok [OF assms, of v opts] snapshot_supersedes_trans [of a b]
  by (auto simp: with_maximum_def MarkerSnapshot_fresh_def snapshot_supersedes_def
      snapshot_is_fresh_def snapshot_is_physically_expired_def)

theorem snapshot_protocol_witness:
  "snapshot_ok (MarkerSnapshot_fresh 3 tag_defaults 100)"
  using snapshot_protocol [of 100 3 tag_defaults] by (simp add: in_i64_def)

section \<open>Stages\<close>

fun phase_rank :: "marker_mutation_phase \<Rightarrow> nat" where
  "phase_rank (AdvancePhase opts s) = 0"
| "phase_rank (PopulatePhase opts s cs) = 1"
| "phase_rank (NotifyPhase cs) = 2"

lemma capture_mutation_wf: "capture_mutation c opts t = Inr w \<Longrightarrow> mutation_wf w"
  by (auto simp: capture_mutation_def mutation_wf_def split: sum.splits if_splits)

lemma committed_notification_wf [simp]: "mutation_wf (committed_notification c)"
  by (simp add: committed_notification_def mutation_wf_def)

lemma notification_Inr:
  "notification w = Inr w' \<longleftrightarrow> (\<exists>opts s cs. mm_phase w = PopulatePhase opts s cs
     \<and> \<not> opt_skip_backplane_notifications opts
     \<and> w' = MarkerMutation (mm_command w) (NotifyPhase cs) (pending_compaction w))"
  by (auto simp: notification_def split: marker_mutation_phase.splits if_splits)

lemma notification_wf: "mutation_wf w \<Longrightarrow> notification w = Inr w' \<Longrightarrow> mutation_wf w'"
  by (auto simp: notification_Inr mutation_wf_def)

lemma population_Inr:
  "population w c cs = Inr w' \<longleftrightarrow>
     scope_eq (mm_scope w) (cmd_scope c) \<and> mm_kind w = marker_kind_of (cmd_marker c)
     \<and> mm_version w \<le> marker_version_of (cmd_marker c)
     \<and> length cs \<le> 1 \<and> (cs \<noteq> [] \<longrightarrow> marker_kind_of (cmd_marker c) \<noteq> ClearRemove)
     \<and> list_all (clear_fact (cmd_scope c)) cs
     \<and> (\<exists>opts s. mm_phase w = AdvancePhase opts s
         \<and> w' = MarkerMutation c (PopulatePhase opts
                  (with_maximum (Some (marker_version_of (cmd_marker c))) s) cs) (pending_compaction w))"
  by (cases "mm_phase w")
    (auto simp: population_def list_ex_iff list_all_iff clear_fact_def split: if_splits)

lemma population_wf:
  assumes "mutation_wf w" and "population w c cs = Inr w'"
  shows "mutation_wf w'"
proof -
  have "scope_eq (mm_scope w) (cmd_scope c)" using assms(2) by (simp add: population_Inr)
  with assms show ?thesis
    by (cases "pending_compaction w")
      (auto simp: population_Inr mutation_wf_def intro: clear_obligation_scope)
qed

text \<open>
  The stages of a marker mutation move forward only, and never change its identity: durable
  advancement may only be followed by population, population by notification; both keep the
  namespace, the kind and the inherited clear, and never lower the committed revision.
\<close>

theorem marker_stages_forward:
  "(population w c cs = Inr w1 \<longrightarrow> phase_rank (mm_phase w) = 0 \<and> phase_rank (mm_phase w1) = 1
      \<and> scope_eq (mm_scope w1) (mm_scope w) \<and> mm_kind w1 = mm_kind w \<and> mm_version w \<le> mm_version w1
      \<and> pending_compaction w1 = pending_compaction w \<and> (mutation_wf w \<longrightarrow> mutation_wf w1))
   \<and> (notification w = Inr w2 \<longrightarrow> phase_rank (mm_phase w) = 1 \<and> phase_rank (mm_phase w2) = 2
      \<and> mm_command w2 = mm_command w \<and> clear_debt w2 = clear_debt w
      \<and> (mutation_wf w \<longrightarrow> mutation_wf w2))"
  using population_wf [of w c cs w1] notification_wf [of w w2]
  by (auto simp: population_Inr notification_Inr clear_debt_def intro: scope_eq_sym)

theorem marker_stages_forward_witness:
  "phase_rank (mm_phase (MarkerMutation demo_command
     (NotifyPhase []) None)) = 2 \<and>
   phase_rank (mm_phase (MarkerMutation demo_command
     (PopulatePhase tag_defaults (MarkerSnapshot_fresh 7 tag_defaults 0) []) None)) = 1"
  using marker_stages_forward
    [of "MarkerMutation demo_command (PopulatePhase tag_defaults (MarkerSnapshot_fresh 7 tag_defaults 0) []) None"
        _ _ _ "MarkerMutation demo_command (NotifyPhase []) None"]
  by (simp add: notification_def tag_defaults_def option_defs EntryOptions_new_def EntryOptions_default_def)

end
