(* ===== verification/Amalgam_Entry.thy ===== *)
theory Amalgam_Entry
  imports Amalgam_Tags
begin

text \<open>
  The cache entry envelope, \<open>src/entry.rs\<close> and \<open>src/entry/plain.rs\<close>: an immutable value with
  the metadata that decides freshness, fail-safe and eager refresh. Modelled are all
  constructors (fresh, throttled, rehydrated, hydrated into memory, fail-safe default), the
  derived copies, the prepared plans of default writes and the in-place replacement of an
  unshared payload. A cloned value is the value itself. The shared counter behind a
  \<open>ContinuityStamp\<close> is an address whose current contents is the argument \<open>ep\<close>. The lemmas show
  that logical expiration never passes physical expiration, that no derived copy renews a
  source deadline, and that the prepared plans agree with the general construction.
\<close>

named_theorems entry_defs \<open>definitions of the entry constructors\<close>

section \<open>Metadata\<close>

datatype freshness = Fresh | Stale

fun is_fresh :: "freshness \<Rightarrow> bool" where
  "is_fresh Fresh = True"
| "is_fresh Stale = False"

datatype entry_origin = OriginFresh "timestamp option" | OriginFailSafe

datatype retention_metadata = RetentionUnspecified | RetentionSpecified "entry_weight option" priority

record metadata =
  md_created :: timestamp
  md_inserted_at :: timestamp
  md_logical_expiration :: timestamp
  md_physical_expiration :: timestamp
  md_backend_ttl :: duration
  md_origin :: entry_origin
  md_etag :: "string option"
  md_last_modified :: "timestamp option"
  md_tags :: "tag list"
  md_retention :: retention_metadata

definition meta_size :: "metadata \<Rightarrow> entry_weight option" where
  "meta_size m = (case md_retention m of
     RetentionUnspecified \<Rightarrow> None | RetentionSpecified sz p \<Rightarrow> sz)"

definition meta_priority :: "metadata \<Rightarrow> priority" where
  "meta_priority m = (case md_retention m of
     RetentionUnspecified \<Rightarrow> Normal | RetentionSpecified sz p \<Rightarrow> p)"

definition stored_priority :: "metadata \<Rightarrow> priority option" where
  "stored_priority m = (case md_retention m of
     RetentionUnspecified \<Rightarrow> None | RetentionSpecified sz p \<Rightarrow> Some p)"

definition meta_eager_refresh_at :: "metadata \<Rightarrow> timestamp option" where
  "meta_eager_refresh_at m = (case md_origin m of
     OriginFresh eager \<Rightarrow> eager | OriginFailSafe \<Rightarrow> None)"

definition is_from_fail_safe :: "metadata \<Rightarrow> bool" where
  "is_from_fail_safe m = (case md_origin m of OriginFresh eager \<Rightarrow> False | OriginFailSafe \<Rightarrow> True)"

section \<open>Entries\<close>

record continuity_stamp =
  stamp_epoch :: nat
  stamp_captured :: nat

definition ContinuityStamp_new :: "nat \<Rightarrow> nat \<Rightarrow> continuity_stamp" where
  "ContinuityStamp_new counter captured = \<lparr>stamp_epoch = counter, stamp_captured = captured\<rparr>"

definition stamp_is_current :: "(nat \<Rightarrow> nat) \<Rightarrow> continuity_stamp \<Rightarrow> bool" where
  "stamp_is_current ep s \<longleftrightarrow> ep (stamp_epoch s) = stamp_captured s"

datatype eligibility = LocalEntry | Hydrated continuity_stamp

record 'v entry =
  en_value :: 'v
  en_meta :: metadata
  en_eligibility :: eligibility

definition is_read_eligible :: "(nat \<Rightarrow> nat) \<Rightarrow> 'v entry \<Rightarrow> bool" where
  "is_read_eligible ep e = (case en_eligibility e of
     LocalEntry \<Rightarrow> True | Hydrated stamp \<Rightarrow> stamp_is_current ep stamp)"

definition backend_ttl_at :: "timestamp \<Rightarrow> 'v entry \<Rightarrow> duration" where
  "backend_ttl_at now e = saturating_duration_since (md_physical_expiration (en_meta e)) now"

definition entry_freshness :: "timestamp \<Rightarrow> 'v entry \<Rightarrow> freshness" where
  "entry_freshness now e =
     (if is_before now (md_logical_expiration (en_meta e)) then Fresh else Stale)"

definition is_logically_expired :: "timestamp \<Rightarrow> 'v entry \<Rightarrow> bool" where
  "is_logically_expired now e \<longleftrightarrow> \<not> is_before now (md_logical_expiration (en_meta e))"

definition is_physically_expired :: "timestamp \<Rightarrow> 'v entry \<Rightarrow> bool" where
  "is_physically_expired now e \<longleftrightarrow> \<not> is_before now (md_physical_expiration (en_meta e))"

definition should_eager_refresh :: "timestamp \<Rightarrow> 'v entry \<Rightarrow> bool" where
  "should_eager_refresh now e = (case meta_eager_refresh_at (en_meta e) of
     Some t \<Rightarrow> \<not> is_before now t \<and> is_before now (md_logical_expiration (en_meta e))
   | None \<Rightarrow> False)"

section \<open>Derived copies\<close>

definition at_insertion :: "timestamp \<Rightarrow> 'v entry \<Rightarrow> 'v entry" where
  "at_insertion inserted_at e =
     (if inserted_at = md_inserted_at (en_meta e) then e
      else e\<lparr>en_meta := (en_meta e)\<lparr>md_inserted_at := inserted_at,
               md_backend_ttl := backend_ttl_at inserted_at e\<rparr>\<rparr>)"

definition with_hydrated_value :: "'v \<Rightarrow> continuity_stamp \<Rightarrow> 'v entry \<Rightarrow> 'v entry" where
  "with_hydrated_value v stamp e = e\<lparr>en_value := v, en_eligibility := Hydrated stamp\<rparr>"

definition without_eager_refresh :: "'v entry \<Rightarrow> 'v entry" where
  "without_eager_refresh e = (case md_origin (en_meta e) of
     OriginFresh eager \<Rightarrow> e\<lparr>en_meta := (en_meta e)\<lparr>md_origin := OriginFresh None\<rparr>\<rparr>
   | OriginFailSafe \<Rightarrow> e)"

definition with_value :: "'v \<Rightarrow> 'v entry \<Rightarrow> 'v entry" where
  "with_value v e = e\<lparr>en_value := v\<rparr>"

definition with_retention :: "entry_weight option \<Rightarrow> priority \<Rightarrow> 'v entry \<Rightarrow> 'v entry" where
  "with_retention sz p e = e\<lparr>en_meta := (en_meta e)\<lparr>md_retention := RetentionSpecified sz p\<rparr>\<rparr>"

definition with_logical_expiration_at :: "timestamp \<Rightarrow> timestamp \<Rightarrow> 'v entry \<Rightarrow> 'v entry" where
  "with_logical_expiration_at t inserted_at e =
     (let m = en_meta e
      in e\<lparr>en_meta := m\<lparr>
           md_logical_expiration := min t (md_physical_expiration m),
           md_inserted_at := inserted_at,
           md_origin := (case md_origin m of
              OriginFresh eager \<Rightarrow> OriginFresh None | OriginFailSafe \<Rightarrow> OriginFailSafe),
           md_backend_ttl := saturating_duration_since (md_physical_expiration m) inserted_at\<rparr>\<rparr>)"

definition with_logical_expiration :: "timestamp \<Rightarrow> 'v entry \<Rightarrow> 'v entry" where
  "with_logical_expiration t e = with_logical_expiration_at t t e"

section \<open>Fresh entries\<close>

definition fresh_retention ::
  "entry_options \<Rightarrow> entry_weight option \<Rightarrow> bool \<Rightarrow> retention_metadata" where
  "fresh_retention o' sz conditional =
     (if sz \<noteq> None \<or> opt_priority o' \<noteq> Normal \<or> opt_is_fail_safe_enabled o' \<or> conditional
      then RetentionSpecified sz (opt_priority o') else RetentionUnspecified)"

definition prepare_fresh_with_jitter ::
  "'v \<Rightarrow> entry_options \<Rightarrow> timestamp \<Rightarrow> timestamp \<Rightarrow> jitter_sample \<Rightarrow> tag list \<Rightarrow> string option
     \<Rightarrow> timestamp option \<Rightarrow> config_error + 'v entry" where
  "prepare_fresh_with_jitter v o' snapshot_created inserted_at jitter tags etag last_modified =
     (case size_of o' of
        Inl e \<Rightarrow> Inl e
      | Inr sz \<Rightarrow>
          (case logical_expiration_with_jitter inserted_at jitter o' of
             Inl e \<Rightarrow> Inl e
           | Inr logical \<Rightarrow>
               let physical = max (saturating_add inserted_at (physical_ttl o')) logical
               in Inr \<lparr>en_value = v,
                    en_meta = \<lparr>md_created = snapshot_created, md_inserted_at = inserted_at,
                      md_logical_expiration = logical, md_physical_expiration = physical,
                      md_backend_ttl = saturating_duration_since physical inserted_at,
                      md_origin = OriginFresh (eager_refresh_at_expiration inserted_at logical o'),
                      md_etag = etag, md_last_modified = last_modified, md_tags = tags,
                      md_retention = fresh_retention o' sz
                        (opt_eager_refresh_threshold o' \<noteq> None \<or> etag \<noteq> None
                          \<or> last_modified \<noteq> None)\<rparr>,
                    en_eligibility = LocalEntry\<rparr>))"

definition try_fresh_with_jitter ::
  "'v \<Rightarrow> entry_options \<Rightarrow> timestamp \<Rightarrow> timestamp \<Rightarrow> jitter_sample \<Rightarrow> tag list \<Rightarrow> string option
     \<Rightarrow> timestamp option \<Rightarrow> config_error + 'v entry" where
  "try_fresh_with_jitter = prepare_fresh_with_jitter"

definition try_fresh_at ::
  "(nat \<Rightarrow> nat) \<Rightarrow> 'v \<Rightarrow> entry_options \<Rightarrow> timestamp \<Rightarrow> timestamp \<Rightarrow> tag list \<Rightarrow> string option
     \<Rightarrow> timestamp option \<Rightarrow> config_error + 'v entry" where
  "try_fresh_at rnd v o' snapshot_created inserted_at tags etag last_modified =
     (case JitterSample_new (RandomJitterSource_sample rnd (opt_jitter_max o')) (opt_jitter_max o') of
        Inl e \<Rightarrow> Inl e
      | Inr jitter \<Rightarrow>
          try_fresh_with_jitter v o' snapshot_created inserted_at jitter tags etag last_modified)"

text \<open>The legacy adapters panic on an error; a panic is \<open>None\<close>.\<close>

definition or_panic :: "config_error + 'a \<Rightarrow> 'a option" where
  "or_panic r = (case r of Inl e \<Rightarrow> None | Inr x \<Rightarrow> Some x)"

definition fresh_at ::
  "(nat \<Rightarrow> nat) \<Rightarrow> 'v \<Rightarrow> entry_options \<Rightarrow> timestamp \<Rightarrow> timestamp \<Rightarrow> tag list \<Rightarrow> string option
     \<Rightarrow> timestamp option \<Rightarrow> 'v entry option" where
  "fresh_at rnd v o' snapshot_created inserted_at tags etag last_modified =
     or_panic (try_fresh_at rnd v o' snapshot_created inserted_at tags etag last_modified)"

definition entry_fresh ::
  "(nat \<Rightarrow> nat) \<Rightarrow> 'v \<Rightarrow> entry_options \<Rightarrow> timestamp \<Rightarrow> tag list \<Rightarrow> string option
     \<Rightarrow> timestamp option \<Rightarrow> 'v entry option" where
  "entry_fresh rnd v o' created tags etag last_modified =
     fresh_at rnd v o' created created tags etag last_modified"

section \<open>Fail-safe entries\<close>

definition try_throttled ::
  "(nat \<Rightarrow> nat) \<Rightarrow> 'v entry \<Rightarrow> entry_options \<Rightarrow> timestamp \<Rightarrow> config_error + 'v entry option" where
  "try_throttled ep source o' now =
     (case validate o' of
        Inl e \<Rightarrow> Inl e
      | Inr u \<Rightarrow>
          if \<not> is_read_eligible ep source \<or> is_physically_expired now source then Inr None
          else let m = en_meta source; physical = md_physical_expiration m
               in Inr (Some \<lparr>en_value = en_value source,
                    en_meta = \<lparr>md_created = md_created m, md_inserted_at = now,
                      md_logical_expiration =
                        min (saturating_add now (opt_fail_safe_throttle_duration o')) physical,
                      md_physical_expiration = physical,
                      md_backend_ttl = saturating_duration_since physical now,
                      md_origin = OriginFailSafe, md_etag = md_etag m,
                      md_last_modified = md_last_modified m, md_tags = md_tags m,
                      md_retention = md_retention m\<rparr>,
                    en_eligibility = en_eligibility source\<rparr>))"

definition throttled ::
  "(nat \<Rightarrow> nat) \<Rightarrow> 'v entry \<Rightarrow> entry_options \<Rightarrow> timestamp \<Rightarrow> 'v entry option option" where
  "throttled ep source o' now = or_panic (try_throttled ep source o' now)"

definition try_from_fail_safe_default ::
  "'v \<Rightarrow> entry_options \<Rightarrow> timestamp \<Rightarrow> config_error + 'v entry" where
  "try_from_fail_safe_default v o' now =
     (case size_of o' of
        Inl e \<Rightarrow> Inl e
      | Inr sz \<Rightarrow>
          let throttle = opt_fail_safe_throttle_duration o';
              physical = saturating_add now (physical_ttl o')
          in Inr \<lparr>en_value = v,
               en_meta = \<lparr>md_created = now, md_inserted_at = now,
                 md_logical_expiration = min (saturating_add now throttle) physical,
                 md_physical_expiration = physical, md_backend_ttl = physical_ttl o',
                 md_origin = OriginFailSafe, md_etag = None, md_last_modified = None,
                 md_tags = [], md_retention = RetentionSpecified sz (opt_priority o')\<rparr>,
               en_eligibility = LocalEntry\<rparr>)"

definition from_fail_safe_default :: "'v \<Rightarrow> entry_options \<Rightarrow> timestamp \<Rightarrow> 'v entry option" where
  "from_fail_safe_default v o' now = or_panic (try_from_fail_safe_default v o' now)"

section \<open>Rehydration\<close>

definition try_rehydrate_with_retention ::
  "'v \<Rightarrow> timestamp \<Rightarrow> timestamp \<Rightarrow> timestamp \<Rightarrow> bool \<Rightarrow> string option \<Rightarrow> timestamp option \<Rightarrow> tag list
     \<Rightarrow> retention_metadata \<Rightarrow> timestamp \<Rightarrow> config_error + 'v entry" where
  "try_rehydrate_with_retention v created logical physical from_fail_safe etag last_modified tags
       retention now =
     (if logical > physical then Inl InvalidEntryDeadlines
      else Inr \<lparr>en_value = v,
             en_meta = \<lparr>md_created = created, md_inserted_at = now,
               md_logical_expiration = logical, md_physical_expiration = physical,
               md_backend_ttl = saturating_duration_since physical now,
               md_origin = (if from_fail_safe then OriginFailSafe else OriginFresh None),
               md_etag = etag, md_last_modified = last_modified, md_tags = tags,
               md_retention = retention\<rparr>,
             en_eligibility = LocalEntry\<rparr>)"

definition try_rehydrate ::
  "'v \<Rightarrow> timestamp \<Rightarrow> timestamp \<Rightarrow> timestamp \<Rightarrow> bool \<Rightarrow> string option \<Rightarrow> timestamp option \<Rightarrow> tag list
     \<Rightarrow> timestamp \<Rightarrow> config_error + 'v entry" where
  "try_rehydrate v created logical physical from_fail_safe etag last_modified tags now =
     try_rehydrate_with_retention v created logical physical from_fail_safe etag last_modified tags
       RetentionUnspecified now"

definition rehydrate ::
  "'v \<Rightarrow> timestamp \<Rightarrow> timestamp \<Rightarrow> timestamp \<Rightarrow> bool \<Rightarrow> string option \<Rightarrow> timestamp option \<Rightarrow> tag list
     \<Rightarrow> timestamp \<Rightarrow> 'v entry option" where
  "rehydrate v created logical physical from_fail_safe etag last_modified tags now =
     or_panic (try_rehydrate v created logical physical from_fail_safe etag last_modified tags now)"

text \<open>
  \<open>prepare_memory_hydration\<close> yields metadata; the caller attaches a value and its
  eligibility.
\<close>

definition hydrated_retention ::
  "retention_metadata \<Rightarrow> entry_weight option \<Rightarrow> priority \<Rightarrow> retention_metadata" where
  "hydrated_retention r requested p = (case r of
     RetentionSpecified sz q \<Rightarrow>
       RetentionSpecified (case sz of Some w \<Rightarrow> Some w | None \<Rightarrow> requested) q
   | RetentionUnspecified \<Rightarrow> RetentionSpecified requested p)"

definition prepare_memory_hydration ::
  "(nat \<Rightarrow> nat) \<Rightarrow> entry_options \<Rightarrow> timestamp \<Rightarrow> 'v entry \<Rightarrow> config_error + metadata option" where
  "prepare_memory_hydration ep o' now e =
     (case size_of o' of
        Inl er \<Rightarrow> Inl er
      | Inr requested \<Rightarrow>
          if \<not> is_read_eligible ep e \<or> is_physically_expired now e then Inr None
          else
            let m = en_meta e;
                logical = min (md_logical_expiration m)
                            (saturating_add now (resolved_memory_duration o'));
                physical = max (min (md_physical_expiration m)
                            (saturating_add now (physical_ttl o'))) logical
            in Inr (Some (m\<lparr>md_inserted_at := now,
                 md_logical_expiration := logical,
                 md_physical_expiration := physical,
                 md_backend_ttl := saturating_duration_since physical now,
                 md_retention := hydrated_retention (md_retention m) requested (opt_priority o'),
                 md_origin := (case md_origin m of
                    OriginFailSafe \<Rightarrow> OriginFailSafe
                  | OriginFresh eager \<Rightarrow> OriginFresh
                      (case opt_eager_refresh_threshold o' of
                         None \<Rightarrow> None
                       | Some threshold \<Rightarrow>
                           if now < logical
                           then Some (saturating_add now
                             (mul_f32 (saturating_duration_since logical now) (fraction threshold)))
                           else None))\<rparr>)))"

definition hydration_with_value :: "'v \<Rightarrow> eligibility \<Rightarrow> metadata \<Rightarrow> 'v entry" where
  "hydration_with_value v el m = \<lparr>en_value = v, en_meta = m, en_eligibility = el\<rparr>"

definition hydration_with_hydrated_value ::
  "'v \<Rightarrow> continuity_stamp \<Rightarrow> metadata \<Rightarrow> 'v entry" where
  "hydration_with_hydrated_value v stamp m = hydration_with_value v (Hydrated stamp) m"

definition for_memory_hydration ::
  "(nat \<Rightarrow> nat) \<Rightarrow> entry_options \<Rightarrow> timestamp \<Rightarrow> 'v entry \<Rightarrow> config_error + 'v entry option" where
  "for_memory_hydration ep o' now e = (case prepare_memory_hydration ep o' now e of
     Inl er \<Rightarrow> Inl er
   | Inr None \<Rightarrow> Inr None
   | Inr (Some m) \<Rightarrow> Inr (Some (hydration_with_value (en_value e) (en_eligibility e) m)))"

section \<open>Prepared plans of default writes\<close>

record fresh_plan =
  plan_logical :: lifetime_span
  plan_physical :: lifetime_span
  plan_retention :: retention_metadata

definition FreshPlan_for_options :: "entry_options \<Rightarrow> config_error + fresh_plan option" where
  "FreshPlan_for_options o' =
     (if opt_jitter_max o' \<noteq> 0 \<or> opt_eager_refresh_threshold o' \<noteq> None then Inr None
      else case size_of o' of
        Inl e \<Rightarrow> Inl e
      | Inr sz \<Rightarrow> Inr (Some \<lparr>plan_logical = LifetimeSpan_new (resolved_memory_duration o'),
                 plan_physical = LifetimeSpan_new (physical_ttl o'),
                 plan_retention = fresh_retention o' sz False\<rparr>))"

definition FreshPlan_prepare :: "fresh_plan \<Rightarrow> 'v \<Rightarrow> timestamp \<Rightarrow> tag list \<Rightarrow> 'v entry" where
  "FreshPlan_prepare p v now tags =
     (let logical = span_after (plan_logical p) now;
          physical = max (span_after (plan_physical p) now) logical
      in \<lparr>en_value = v,
          en_meta = \<lparr>md_created = now, md_inserted_at = now,
            md_logical_expiration = logical, md_physical_expiration = physical,
            md_backend_ttl = saturating_duration_since physical now,
            md_origin = OriginFresh None, md_etag = None, md_last_modified = None,
            md_tags = tags, md_retention = plan_retention p\<rparr>,
          en_eligibility = LocalEntry\<rparr>)"

record plain_metadata =
  pm_created :: timestamp
  pm_expires :: timestamp

definition PlainPlan_metadata :: "lifetime_span \<Rightarrow> timestamp \<Rightarrow> plain_metadata" where
  "PlainPlan_metadata lifetime now = \<lparr>pm_created = now, pm_expires = span_after lifetime now\<rparr>"

definition plain_into_fresh :: "plain_metadata \<Rightarrow> 'v \<Rightarrow> tag list \<Rightarrow> 'v entry" where
  "plain_into_fresh pm v tags =
     \<lparr>en_value = v,
      en_meta = \<lparr>md_created = pm_created pm, md_inserted_at = pm_created pm,
        md_logical_expiration = pm_expires pm, md_physical_expiration = pm_expires pm,
        md_backend_ttl = saturating_duration_since (pm_expires pm) (pm_created pm),
        md_origin = OriginFresh None, md_etag = None, md_last_modified = None,
        md_tags = tags, md_retention = RetentionUnspecified\<rparr>,
      en_eligibility = LocalEntry\<rparr>"

definition PlainPlan_prepare :: "lifetime_span \<Rightarrow> 'v \<Rightarrow> timestamp \<Rightarrow> tag list \<Rightarrow> 'v entry" where
  "PlainPlan_prepare lifetime v now tags = plain_into_fresh (PlainPlan_metadata lifetime now) v tags"

definition plain_install :: "plain_metadata \<Rightarrow> metadata \<Rightarrow> metadata" where
  "plain_install pm m = m\<lparr>
     md_created := pm_created pm, md_inserted_at := pm_created pm,
     md_logical_expiration := pm_expires pm, md_physical_expiration := pm_expires pm,
     md_backend_ttl := saturating_duration_since (pm_expires pm) (pm_created pm),
     md_origin := OriginFresh None, md_etag := None, md_last_modified := None,
     md_tags := [], md_retention := RetentionUnspecified\<rparr>"

datatype default_fresh_plan = PlainPlan lifetime_span | Prepared fresh_plan | General

definition DefaultFreshPlan_for_options :: "entry_options \<Rightarrow> config_error + default_fresh_plan" where
  "DefaultFreshPlan_for_options o' = (case FreshPlan_for_options o' of
     Inl e \<Rightarrow> Inl e
   | Inr None \<Rightarrow> Inr General
   | Inr (Some plan) \<Rightarrow>
       if plan_retention plan = RetentionUnspecified \<and> plan_logical plan = plan_physical plan
       then Inr (PlainPlan (plan_logical plan)) else Inr (Prepared plan))"

text \<open>
  In-place replacement needs the only reference to the representation
  (\<open>Arc::get_mut\<close>); the argument \<open>unique\<close> says whether it is.
\<close>

datatype 'v plain_replacement = Replaced 'v | Shared 'v

definition replace_plain ::
  "bool \<Rightarrow> 'v \<Rightarrow> plain_metadata \<Rightarrow> 'v entry \<Rightarrow> 'v entry \<times> 'v plain_replacement" where
  "replace_plain unique incoming pm e =
     (if \<not> unique then (e, Shared incoming)
      else (e\<lparr>en_value := incoming, en_meta := plain_install pm (en_meta e),
               en_eligibility := LocalEntry\<rparr>, Replaced (en_value e)))"

definition replace_unique_payload ::
  "bool \<Rightarrow> 'v entry \<Rightarrow> 'v entry \<Rightarrow> 'v entry \<times> 'v option" where
  "replace_unique_payload unique fresh e =
     (if \<not> unique then (e, None)
      else (e\<lparr>en_value := en_value fresh, en_meta := en_meta fresh,
               en_eligibility := en_eligibility fresh\<rparr>, Some (en_value e)))"

lemmas [entry_defs] = at_insertion_def with_hydrated_value_def without_eager_refresh_def
  with_value_def with_retention_def with_logical_expiration_at_def with_logical_expiration_def
  backend_ttl_at_def


section \<open>Well-formed entries\<close>

definition entry_ok :: "'v entry \<Rightarrow> bool" where
  "entry_ok e \<longleftrightarrow>
     md_logical_expiration (en_meta e) \<le> md_physical_expiration (en_meta e)
   \<and> in_i64 (md_logical_expiration (en_meta e)) \<and> in_i64 (md_physical_expiration (en_meta e))"

lemma prepare_fresh_with_jitter_Inr:
  assumes "prepare_fresh_with_jitter v o' created t j tags etag lm = Inr e"
  obtains sz logical where "size_of o' = Inr sz" and "logical_expiration_with_jitter t j o' = Inr logical"
    and "en_value e = v" and "md_created (en_meta e) = created" and "md_inserted_at (en_meta e) = t"
    and "md_logical_expiration (en_meta e) = logical"
    and "md_physical_expiration (en_meta e) = max (saturating_add t (physical_ttl o')) logical"
    and "md_tags (en_meta e) = tags"
  using assms
  by (auto simp: prepare_fresh_with_jitter_def Let_def split: sum.splits)

lemma entry_ok_fresh:
  assumes "prepare_fresh_with_jitter v o' created t j tags etag lm = Inr e" and "in_i64 t"
  shows "entry_ok e"
proof -
  from assms(1) obtain sz logical where "logical_expiration_with_jitter t j o' = Inr logical"
    "md_logical_expiration (en_meta e) = logical"
    "md_physical_expiration (en_meta e) = max (saturating_add t (physical_ttl o')) logical"
    by (rule prepare_fresh_with_jitter_Inr)
  with logical_expiration_with_jitter_ge [OF assms(2)] show ?thesis
    by (auto simp: entry_ok_def max_def)
qed

lemma entry_ok_rehydrate:
  "try_rehydrate_with_retention v c l p ff etag lm tags r now = Inr e \<Longrightarrow> in_i64 l \<Longrightarrow> in_i64 p \<Longrightarrow> entry_ok e"
  by (auto simp: try_rehydrate_with_retention_def entry_ok_def split: if_splits)

lemma entry_ok_fail_safe_default: "try_from_fail_safe_default v o' now = Inr e \<Longrightarrow> entry_ok e"
  by (auto simp: try_from_fail_safe_default_def entry_ok_def Let_def min_def split: sum.splits)

subsection \<open>Operations that derive an entry from another\<close>

datatype 'v derivation =
    Throttle entry_options timestamp
  | ExpireAt timestamp timestamp
  | Hydrate entry_options timestamp
  | AtInsertion timestamp
  | WithHydratedValue 'v continuity_stamp
  | WithoutEagerRefresh
  | WithValue 'v
  | WithRetention "entry_weight option" priority

text \<open>A derivation that is refused (an error, or a source no longer usable) has no result.\<close>

definition granted :: "config_error + 'a option \<Rightarrow> 'a option" where
  "granted r = (case r of Inl e \<Rightarrow> None | Inr x \<Rightarrow> x)"

fun derive :: "(nat \<Rightarrow> nat) \<Rightarrow> 'v entry \<Rightarrow> 'v derivation \<Rightarrow> 'v entry option" where
  "derive ep e (Throttle o' now) = granted (try_throttled ep e o' now)"
| "derive ep e (ExpireAt t i) = Some (with_logical_expiration_at t i e)"
| "derive ep e (Hydrate o' now) = granted (for_memory_hydration ep o' now e)"
| "derive ep e (AtInsertion t) = Some (at_insertion t e)"
| "derive ep e (WithHydratedValue v s) = Some (with_hydrated_value v s e)"
| "derive ep e WithoutEagerRefresh = Some (without_eager_refresh e)"
| "derive ep e (WithValue v) = Some (with_value v e)"
| "derive ep e (WithRetention sz p) = Some (with_retention sz p e)"

fun derive_all :: "(nat \<Rightarrow> nat) \<Rightarrow> 'v entry \<Rightarrow> 'v derivation list \<Rightarrow> 'v entry option" where
  "derive_all ep e [] = Some e"
| "derive_all ep e (d # ds) = (case derive ep e d of None \<Rightarrow> None | Some e' \<Rightarrow> derive_all ep e' ds)"

text \<open>The facts a derivation may not change, and the deadline it may not extend.\<close>

definition descends :: "'v entry \<Rightarrow> 'v entry \<Rightarrow> bool" where
  "descends e e' \<longleftrightarrow>
     entry_ok e' \<and> md_physical_expiration (en_meta e') \<le> md_physical_expiration (en_meta e)
   \<and> md_created (en_meta e') = md_created (en_meta e) \<and> md_tags (en_meta e') = md_tags (en_meta e)
   \<and> md_etag (en_meta e') = md_etag (en_meta e)
   \<and> md_last_modified (en_meta e') = md_last_modified (en_meta e)
   \<and> (is_from_fail_safe (en_meta e) \<longrightarrow> is_from_fail_safe (en_meta e'))"

lemma descends_trans: "descends a b \<Longrightarrow> descends b c \<Longrightarrow> descends a c"
  by (auto simp: descends_def)

lemma try_throttled_descends:
  assumes "entry_ok e" and "try_throttled ep e o' now = Inr (Some e')"
  shows "descends e e'"
  using assms
  by (auto simp: try_throttled_def descends_def entry_ok_def Let_def is_from_fail_safe_def
      split: sum.splits if_splits)

lemma prepare_memory_hydration_Some:
  assumes "prepare_memory_hydration ep o' now e = Inr (Some m)" and "entry_ok e" and "in_i64 now"
  shows "md_logical_expiration m =
      min (md_logical_expiration (en_meta e)) (saturating_add now (resolved_memory_duration o'))"
    and "md_physical_expiration m =
      min (md_physical_expiration (en_meta e)) (saturating_add now (physical_ttl o'))"
    and "md_created m = md_created (en_meta e)" and "md_tags m = md_tags (en_meta e)"
    and "md_etag m = md_etag (en_meta e)" and "md_last_modified m = md_last_modified (en_meta e)"
    and "is_from_fail_safe m = is_from_fail_safe (en_meta e)"
    and "is_read_eligible ep e" and "now < md_physical_expiration (en_meta e)"
proof -
  have "saturating_add now (resolved_memory_duration o') \<le> saturating_add now (physical_ttl o')"
    using assms(3) by (intro saturating_add_mono) (simp_all add: physical_ttl_ge)
  then have "max (min (md_physical_expiration (en_meta e)) (saturating_add now (physical_ttl o')))
      (min (md_logical_expiration (en_meta e)) (saturating_add now (resolved_memory_duration o')))
      = min (md_physical_expiration (en_meta e)) (saturating_add now (physical_ttl o'))"
    using assms(2) by (auto simp: entry_ok_def)
  with assms(1) show "md_physical_expiration m =
      min (md_physical_expiration (en_meta e)) (saturating_add now (physical_ttl o'))"
    by (auto simp: prepare_memory_hydration_def Let_def split: sum.splits if_splits)
qed (use assms(1) in \<open>auto simp: prepare_memory_hydration_def Let_def is_physically_expired_def
      is_before_def is_from_fail_safe_def split: sum.splits if_splits entry_origin.splits\<close>)

lemma for_memory_hydration_descends:
  assumes "entry_ok e" and "in_i64 now" and "for_memory_hydration ep o' now e = Inr (Some e')"
  shows "descends e e'"
proof -
  from assms(3) obtain m where m: "prepare_memory_hydration ep o' now e = Inr (Some m)"
    and e': "e' = hydration_with_value (en_value e) (en_eligibility e) m"
    by (auto simp: for_memory_hydration_def split: sum.splits option.splits)
  note facts = prepare_memory_hydration_Some [OF m assms(1,2)]
  have "saturating_add now (resolved_memory_duration o') \<le> saturating_add now (physical_ttl o')"
    using assms(2) by (intro saturating_add_mono) (simp_all add: physical_ttl_ge)
  then show ?thesis
    using assms(1) by (auto simp: descends_def e' hydration_with_value_def facts entry_ok_def)
qed

fun derivation_ok :: "'v derivation \<Rightarrow> bool" where
  "derivation_ok (Throttle o' now) = in_i64 now"
| "derivation_ok (ExpireAt t i) = (in_i64 t \<and> in_i64 i)"
| "derivation_ok (Hydrate o' now) = in_i64 now"
| "derivation_ok (AtInsertion t) = in_i64 t"
| "derivation_ok d = True"

lemma derive_descends:
  assumes "entry_ok e" and "derivation_ok d" and "derive ep e d = Some e'"
  shows "descends e e'"
proof (cases d)
  case (Throttle o' now)
  with assms show ?thesis
    by (auto simp: granted_def intro: try_throttled_descends split: sum.splits)
next
  case (Hydrate o' now)
  with assms show ?thesis
    by (auto simp: granted_def intro: for_memory_hydration_descends split: sum.splits)
qed (use assms in \<open>auto simp: descends_def entry_defs entry_ok_def is_from_fail_safe_def Let_def
      split: entry_origin.splits if_splits\<close>)

text \<open>
  C5. Derived copies never renew a source: along any sequence of throttling, expiring, memory
  hydration, re-insertion and the other copying operations, the logical deadline stays within
  the physical one, the physical deadline never moves later, the creation revision, the tags
  and the conditional-request facts are those of the source, and a value that came from a
  fail-safe activation keeps that mark.
\<close>

theorem derived_entries_never_renew:
  assumes "entry_ok e" and "list_all derivation_ok ds" and "derive_all ep e ds = Some e'"
  shows "descends e e'"
  using assms
proof (induction ds arbitrary: e)
  case Nil
  then show ?case by (simp add: descends_def)
next
  case (Cons d ds)
  from Cons.prems obtain e1 where e1: "derive ep e d = Some e1" and rest: "derive_all ep e1 ds = Some e'"
    by (auto split: option.splits)
  have d1: "descends e e1" using Cons.prems e1 by (intro derive_descends) simp_all
  then have "descends e1 e'" using Cons.IH [of e1] Cons.prems rest by (simp add: descends_def)
  with d1 show ?case by (rule descends_trans)
qed

definition sample_entry :: "nat entry" where
  "sample_entry = FreshPlan_prepare \<lparr>plan_logical = LifetimeSpan 10, plan_physical = LifetimeSpan 90,
     plan_retention = RetentionUnspecified\<rparr> 7 100 [Tag ''t'']"

theorem derived_entries_never_renew_witness:
  "case derive_all (\<lambda>c. 0) sample_entry
      [ExpireAt 105 120, Throttle (EntryOptions_new (from_secs 1)) 130, WithValue 8] of
     None \<Rightarrow> False
   | Some e' \<Rightarrow> descends sample_entry e' \<and> md_physical_expiration (en_meta e') = 190
       \<and> en_value e' = 8 \<and> md_created (en_meta e') = 100"
proof -
  let ?ds = "[ExpireAt 105 120, Throttle (EntryOptions_new (from_secs 1)) 130, WithValue (8::nat)]"
  have ok: "entry_ok sample_entry"
    by (simp add: sample_entry_def FreshPlan_prepare_def entry_ok_def machine_defs)
  obtain e' where e': "derive_all (\<lambda>c. 0) sample_entry ?ds = Some e'"
    and v: "md_physical_expiration (en_meta e') = 190" "en_value e' = 8" "md_created (en_meta e') = 100"
    by (simp add: sample_entry_def FreshPlan_prepare_def granted_def try_throttled_def validate_def
        size_of_def option_defs is_read_eligible_def is_physically_expired_def is_before_def
        with_logical_expiration_at_def with_value_def Let_def machine_defs)
  have "descends sample_entry e'"
    by (rule derived_entries_never_renew [OF ok _ e']) (simp add: in_i64_def)
  with e' v show ?thesis by simp
qed


section \<open>Fresh entries and prepared plans\<close>

text \<open>
  Fresh construction: it fails exactly on a negative size (first) or a jitter sample above
  the maximum, and otherwise yields an entry with ordered deadlines that lives at least the
  configured memory duration, at least the fail-safe window physically, and whose backend TTL
  is the distance from insertion to the physical deadline.
\<close>

theorem fresh_entry_lifetime:
  assumes "in_i64 t"
  shows "case try_fresh_with_jitter v cfg created t (JitterSample j) tags etag lm of
      Inl er \<Rightarrow> (\<exists>sz. opt_size cfg = Rejected sz \<and> er = NegativeEntryWeight sz)
         \<or> (\<forall>sz. opt_size cfg \<noteq> Rejected sz) \<and> opt_jitter_max cfg < j
            \<and> er = InvalidJitterSample j (opt_jitter_max cfg)
    | Inr e \<Rightarrow> entry_ok e \<and> j \<le> opt_jitter_max cfg
         \<and> saturating_add t (resolved_memory_duration cfg) \<le> md_logical_expiration (en_meta e)
         \<and> saturating_add t (physical_ttl cfg) \<le> md_physical_expiration (en_meta e)
         \<and> saturating_add t (md_backend_ttl (en_meta e)) = md_physical_expiration (en_meta e)
         \<and> (100 \<le> resolved_memory_duration cfg \<and> t < i64_max \<longrightarrow> entry_freshness t e = Fresh)"
proof (cases "try_fresh_with_jitter v cfg created t (JitterSample j) tags etag lm")
  case (Inl er)
  then show ?thesis
    by (auto simp: try_fresh_with_jitter_def prepare_fresh_with_jitter_def size_of_def Let_def
        logical_expiration_with_jitter_cases split: sum.splits entry_size.splits if_splits)
next
  case (Inr e)
  then have prep: "prepare_fresh_with_jitter v cfg created t (JitterSample j) tags etag lm = Inr e"
    by (simp add: try_fresh_with_jitter_def)
  then obtain sz l where l: "logical_expiration_with_jitter t (JitterSample j) cfg = Inr l"
    and dl: "md_logical_expiration (en_meta e) = l"
    and dp: "md_physical_expiration (en_meta e) = max (saturating_add t (physical_ttl cfg)) l"
    by (rule prepare_fresh_with_jitter_Inr)
  have ok: "entry_ok e" using entry_ok_fresh [OF prep assms] .
  note ge = logical_expiration_with_jitter_ge [OF assms l]
  have ttl: "md_backend_ttl (en_meta e) = saturating_duration_since (md_physical_expiration (en_meta e)) t"
    using prep by (auto simp: prepare_fresh_with_jitter_def Let_def split: sum.splits)
  have "saturating_add t (md_backend_ttl (en_meta e)) = md_physical_expiration (en_meta e)"
    unfolding ttl using assms ge ok
    by (intro saturating_add_duration_since) (auto simp: dp entry_ok_def)
  moreover have "100 \<le> resolved_memory_duration cfg \<Longrightarrow> t < i64_max \<Longrightarrow> t < l"
    using ge assms div_le_mono [of 100 "resolved_memory_duration cfg" 100]
    by (auto simp: saturating_add_eq min_le_iff_disj)
  ultimately show ?thesis
    using Inr ok ge l
    by (auto simp: dl dp entry_freshness_def is_before_def logical_expiration_with_jitter_cases
        split: if_splits)
qed

theorem fresh_entry_lifetime_witness:
  "case try_fresh_with_jitter ''v'' (EntryOptions_new (from_secs 1)) 3 5 (JitterSample 0) [] None None of
      Inl er \<Rightarrow> False
    | Inr e \<Rightarrow> entry_ok e \<and> entry_freshness 5 e = Fresh"
  using fresh_entry_lifetime [where t = 5 and v = "''v''" and cfg = "EntryOptions_new (from_secs 1)"
      and created = 3 and j = 0 and tags = "[]" and etag = None and lm = None]
  by (auto simp: in_i64_def option_defs resolved_memory_duration_def time_defs split: sum.splits)

lemma FreshPlan_prepare_general:
  assumes "FreshPlan_for_options o' = Inr (Some plan)" and "in_i64 now"
  shows "prepare_fresh_with_jitter v o' now now JitterSample_ZERO tags None None =
    Inr (FreshPlan_prepare plan v now tags)"
proof -
  from assms(1) obtain sz where sz: "size_of o' = Inr sz" "opt_jitter_max o' = 0"
    "opt_eager_refresh_threshold o' = None"
    and plan: "plan = \<lparr>plan_logical = LifetimeSpan_new (resolved_memory_duration o'),
       plan_physical = LifetimeSpan_new (physical_ttl o'), plan_retention = fresh_retention o' sz False\<rparr>"
    by (auto simp: FreshPlan_for_options_def split: if_splits sum.splits)
  show ?thesis
    by (simp add: prepare_fresh_with_jitter_def sz plan FreshPlan_prepare_def JitterSample_ZERO_def
        logical_expiration_with_jitter_cases span_after_saturating_add eager_refresh_at_expiration_def Let_def)
qed

fun default_prepare :: "default_fresh_plan \<Rightarrow> 'v \<Rightarrow> timestamp \<Rightarrow> tag list \<Rightarrow> 'v entry option" where
  "default_prepare (PlainPlan lifetime) v now tags = Some (PlainPlan_prepare lifetime v now tags)"
| "default_prepare (Prepared plan) v now tags = Some (FreshPlan_prepare plan v now tags)"
| "default_prepare General v now tags = None"

text \<open>
  The prepared fast paths are equivalent to the general construction: whenever a plan other
  than the general one is selected for a configuration, what it prepares at any instant is
  exactly the entry that the general construction builds with zero jitter; and an in-place
  replacement by the plain plan leaves the very entry that plan would have allocated, handing
  back the retired value.
\<close>

theorem prepared_plans_agree:
  assumes "DefaultFreshPlan_for_options cfg = Inr plan" and "in_i64 now"
    and "default_prepare plan v now tags = Some e"
  shows "try_fresh_with_jitter v cfg now now JitterSample_ZERO tags None None = Inr e
    \<and> (\<forall>lifetime old. plan = PlainPlan lifetime \<longrightarrow>
         replace_plain True v (PlainPlan_metadata lifetime now) old =
           (PlainPlan_prepare lifetime v now [], Replaced (en_value old)))"
proof -
  from assms(1) assms(3) obtain fp where fp: "FreshPlan_for_options cfg = Inr (Some fp)"
    and plan: "plan = (if plan_retention fp = RetentionUnspecified \<and> plan_logical fp = plan_physical fp
      then PlainPlan (plan_logical fp) else Prepared fp)"
    by (auto simp: DefaultFreshPlan_for_options_def split: sum.splits option.splits if_splits)
  have "e = FreshPlan_prepare fp v now tags"
    using assms(3)
    by (auto simp: plan PlainPlan_prepare_def plain_into_fresh_def PlainPlan_metadata_def
        FreshPlan_prepare_def Let_def split: if_splits)
  with FreshPlan_prepare_general [OF fp assms(2)]
  have "try_fresh_with_jitter v cfg now now JitterSample_ZERO tags None None = Inr e"
    by (simp add: try_fresh_with_jitter_def)
  then show ?thesis
    by (simp add: replace_plain_def plain_install_def PlainPlan_prepare_def plain_into_fresh_def
        PlainPlan_metadata_def)
qed

theorem prepared_plans_agree_witness:
  "DefaultFreshPlan_for_options (EntryOptions_new (from_secs 1)) = Inr (PlainPlan (LifetimeSpan 10000000))
   \<and> try_fresh_with_jitter ''v'' (EntryOptions_new (from_secs 1)) 5 5 JitterSample_ZERO [] None None =
       Inr (PlainPlan_prepare (LifetimeSpan 10000000) ''v'' 5 [])"
proof
  show plan: "DefaultFreshPlan_for_options (EntryOptions_new (from_secs 1)) =
      Inr (PlainPlan (LifetimeSpan 10000000))"
    by (simp add: DefaultFreshPlan_for_options_def FreshPlan_for_options_def option_defs size_of_def
        fresh_retention_def resolved_memory_duration_def physical_ttl_def LifetimeSpan_new_def time_defs)
  show "try_fresh_with_jitter ''v'' (EntryOptions_new (from_secs 1)) 5 5 JitterSample_ZERO [] None None =
       Inr (PlainPlan_prepare (LifetimeSpan 10000000) ''v'' 5 [])"
    using prepared_plans_agree [OF plan, of 5 "''v''" "[]"] by (simp add: in_i64_def)
qed

section \<open>Serving stale values\<close>

lemma Stale_iff: "f = Stale \<longleftrightarrow> f \<noteq> Fresh"
  by (cases f) simp_all

text \<open>
  Throttling a stale value: invalid options are reported, a source that is physically
  expired or whose continuity stamp is outdated is never re-served, and otherwise the copy is
  fresh from now until the throttle window ends or the original physical deadline is reached,
  whichever comes first; it is marked as a fail-safe value and never eagerly refreshed.
\<close>

theorem throttled_window:
  assumes "in_i64 now"
  shows "case try_throttled ep source cfg now of
      Inl er \<Rightarrow> validate cfg = Inl er
    | Inr None \<Rightarrow> validate cfg = Inr () \<and> (\<not> is_read_eligible ep source \<or> is_physically_expired now source)
    | Inr (Some e) \<Rightarrow> validate cfg = Inr () \<and> is_read_eligible ep e \<and> en_value e = en_value source
        \<and> (\<forall>t. entry_freshness t e = Fresh \<longleftrightarrow>
             t < saturating_add now (opt_fail_safe_throttle_duration cfg) \<and> \<not> is_physically_expired t source)
        \<and> (\<forall>t. is_physically_expired t e \<longleftrightarrow> is_physically_expired t source)
        \<and> (\<forall>t. \<not> should_eager_refresh t e) \<and> is_from_fail_safe (en_meta e)"
  by (auto simp: try_throttled_def is_read_eligible_def entry_freshness_def is_physically_expired_def
      is_before_def should_eager_refresh_def meta_eager_refresh_at_def is_from_fail_safe_def Let_def
      split: sum.splits option.splits)

theorem throttled_window_witness:
  "case try_throttled (\<lambda>c. 0) sample_entry (EntryOptions_new (from_secs 1)) 150 of
      Inr (Some e) \<Rightarrow> en_value e = 7 \<and> entry_freshness 189 e = Fresh \<and> entry_freshness 190 e = Stale
    | _ \<Rightarrow> False"
proof -
  have v: "validate (EntryOptions_new (from_secs 1)) = Inr ()"
    by (simp add: validate_def size_of_def option_defs)
  have s: "is_read_eligible (\<lambda>c. 0) sample_entry" "\<And>t. is_physically_expired t sample_entry \<longleftrightarrow> 190 \<le> t"
    "en_value sample_entry = 7"
    by (auto simp: sample_entry_def FreshPlan_prepare_def is_read_eligible_def is_physically_expired_def
        is_before_def machine_defs)
  show ?thesis
    using throttled_window [where now = 150 and ep = "\<lambda>c. 0" and source = sample_entry
        and cfg = "EntryOptions_new (from_secs 1)"] v s
    by (auto simp: in_i64_def option_defs saturating_add_eq time_defs Stale_iff
        split: sum.splits option.splits)
qed

text \<open>
  Hydrating a distributed entry into memory: rejected sizes are reported, dead or outdated
  snapshots are absent, and the local copy expires at the earlier of its source deadline and
  the local lifetime, logically and physically, keeping the source's explicit retention and
  filling in only what is missing.
\<close>

theorem memory_hydration_bounds:
  assumes "entry_ok e" and "in_i64 now"
  shows "case for_memory_hydration ep cfg now e of
      Inl er \<Rightarrow> size_of cfg = Inl er
    | Inr None \<Rightarrow> \<not> is_read_eligible ep e \<or> is_physically_expired now e
    | Inr (Some e') \<Rightarrow>
        md_logical_expiration (en_meta e') =
          min (md_logical_expiration (en_meta e)) (saturating_add now (resolved_memory_duration cfg))
      \<and> md_physical_expiration (en_meta e') =
          min (md_physical_expiration (en_meta e)) (saturating_add now (physical_ttl cfg))
      \<and> meta_priority (en_meta e') =
          (case stored_priority (en_meta e) of Some p \<Rightarrow> p | None \<Rightarrow> opt_priority cfg)
      \<and> en_value e' = en_value e \<and> en_eligibility e' = en_eligibility e"
proof (cases "for_memory_hydration ep cfg now e")
  case (Inl er)
  then show ?thesis
    by (auto simp: for_memory_hydration_def prepare_memory_hydration_def Let_def
        split: sum.splits option.splits if_splits)
next
  case (Inr r)
  show ?thesis
  proof (cases r)
    case None
    with Inr show ?thesis
      by (auto simp: for_memory_hydration_def prepare_memory_hydration_def Let_def
          split: sum.splits option.splits if_splits)
  next
    case (Some e')
    with Inr obtain m where m: "prepare_memory_hydration ep cfg now e = Inr (Some m)"
      and e': "e' = hydration_with_value (en_value e) (en_eligibility e) m"
      by (auto simp: for_memory_hydration_def split: sum.splits option.splits)
    have "meta_priority m = (case stored_priority (en_meta e) of Some p \<Rightarrow> p | None \<Rightarrow> opt_priority cfg)"
      using m by (auto simp: prepare_memory_hydration_def Let_def meta_priority_def stored_priority_def
          hydrated_retention_def split: sum.splits if_splits retention_metadata.splits)
    with Inr Some prepare_memory_hydration_Some [OF m assms] show ?thesis
      by (simp add: e' hydration_with_value_def)
  qed
qed

theorem memory_hydration_bounds_witness:
  "case for_memory_hydration (\<lambda>c. 0) (EntryOptions_new 500) 120 sample_entry of
      Inr (Some e') \<Rightarrow> md_logical_expiration (en_meta e') = 110 \<and> md_physical_expiration (en_meta e') = 125
    | _ \<Rightarrow> False"
proof -
  have ok: "entry_ok sample_entry"
    by (simp add: sample_entry_def FreshPlan_prepare_def entry_ok_def machine_defs)
  have s: "is_read_eligible (\<lambda>c. 0) sample_entry" "\<not> is_physically_expired 120 sample_entry"
    "md_logical_expiration (en_meta sample_entry) = 110" "md_physical_expiration (en_meta sample_entry) = 190"
    by (auto simp: sample_entry_def FreshPlan_prepare_def is_read_eligible_def is_physically_expired_def
        is_before_def machine_defs)
  show ?thesis
    using memory_hydration_bounds [OF ok, where now = 120 and ep = "\<lambda>c. 0"
        and cfg = "EntryOptions_new 500"] s
    by (auto simp: in_i64_def option_defs saturating_add_eq resolved_memory_duration_def physical_ttl_def
        size_of_def split: sum.splits option.splits)
qed

text \<open>
  The backend TTL recorded for a fail-safe default is the configured lifetime itself, not
  the distance to the physical deadline that the field is documented to hold: near the end of
  the timestamp range it exceeds that distance, so the recorded TTL outlives the deadline.
\<close>

theorem fail_safe_default_ttl_diverges:
  "\<exists>cfg now e. in_i64 now \<and> try_from_fail_safe_default () cfg now = Inr e
     \<and> md_backend_ttl (en_meta e) \<noteq> saturating_duration_since (md_physical_expiration (en_meta e)) now"
proof -
  let ?cfg = "EntryOptions_new (from_secs 1)"
  have "size_of ?cfg = Inr None" "physical_ttl ?cfg = 1000000000"
    by (simp_all add: size_of_def option_defs physical_ttl_def resolved_memory_duration_def time_defs)
  then obtain e where "try_from_fail_safe_default () ?cfg i64_max = Inr e"
    "md_backend_ttl (en_meta e) = 1000000000" "md_physical_expiration (en_meta e) = i64_max"
    by (simp add: try_from_fail_safe_default_def Let_def saturating_add_eq in_i64_def)
  moreover have "in_i64 i64_max" by (simp add: in_i64_def)
  ultimately show ?thesis by (metis saturating_duration_since_zero order_refl zero_neq_numeral)
qed

end
