(* ===== verification/Amalgam_Distributed.thy ===== *)
theory Amalgam_Distributed
  imports Amalgam_Snapshots Amalgam_Entry
begin

text \<open>
  Entries on the wire, \<open>src/distributed.rs\<close>: the distributed entry and snapshot built from a local
  entry and the entry options, their validation, and the conversions back to an entry. The errors
  of \<open>src/error.rs\<close> that the modelled code produces are one type. The lemmas show that the
  conversions keep every fact about the value, that a snapshot of a well-formed entry is always
  valid, and that the cache's own conversion equals the public one.
\<close>

section \<open>Errors\<close>

datatype factory_cancellation_reason =
    CallerCancelled | CallerDropped | SoftTimeout | HardTimeout | CacheShutdown | LeaseLostReason | ScopeFinished

datatype lease_error =
    LeaseMissingRuntime | InvalidTtl | InvalidToken | InvalidDeadline | UnsupportedTokenAcquisition
  | UnsupportedRenewal | OpaqueLifetime | UnsupportedFencing | LeaseLost | AcquisitionTimeout
  | LeaseCancelled | CleanupTimeout | LeaseTask string | LeaseBackend string

datatype circuit_component = DistributedCircuit | BackplaneCircuit

text \<open>
  The variants of \<open>Error\<close> that the modelled code constructs or passes on. The source of a codec,
  transport or clone error is opaque, and the two factory failures (with and without source) are one.
\<close>

datatype cache_error =
    ErrTag tag_error
  | ErrMarker marker_error
  | ErrLease lease_error
  | ErrRecovery recovery_error
  | ErrConfig config_error
  | ErrOperationCancelled factory_cancellation_reason
  | ErrCacheClosed
  | ErrSerialization string
  | ErrDeserialization string
  | ErrCodecSerialization string
  | ErrCodecDeserialization string
  | ErrDistributed string
  | ErrBackplane string
  | ErrTransportDistributed string
  | ErrTransportBackplane string
  | ErrClone string
  | ErrFactory string
  | ErrFactoryPanicked
  | ErrFactoryCancelled factory_cancellation_reason
  | ErrCircuitOpen circuit_component
  | ErrFactoryTimeout duration
  | ErrLockTimeout duration
  | ErrDistributedTimeout duration
  | ErrMemoryLocker string

definition lift_error :: "('e \<Rightarrow> cache_error) \<Rightarrow> 'e + 'a \<Rightarrow> cache_error + 'a" where
  "lift_error f r = (case r of Inl e \<Rightarrow> Inl (f e) | Inr x \<Rightarrow> Inr x)"

lemma lift_error_simps [simp]: "lift_error f (Inl e) = Inl (f e)" "lift_error f (Inr x) = Inr x"
  by (simp_all add: lift_error_def)

lemma lift_error_Inr [simp]: "lift_error f r = Inr x \<longleftrightarrow> r = Inr x"
  by (cases r) simp_all

section \<open>Distributed entries\<close>

record 'v distributed_entry =
  de_value :: 'v
  de_created_ticks :: int
  de_logical_ticks :: int
  de_physical_ticks :: int
  de_is_from_fail_safe :: bool
  de_etag :: "string option"
  de_last_modified_ticks :: "int option"
  de_tags :: "string list"

definition distributed_from_entry :: "'v entry \<Rightarrow> 'v distributed_entry" where
  "distributed_from_entry e = (let m = en_meta e in
     \<lparr>de_value = en_value e, de_created_ticks = md_created m,
      de_logical_ticks = md_logical_expiration m, de_physical_ticks = md_physical_expiration m,
      de_is_from_fail_safe = is_from_fail_safe m, de_etag = md_etag m,
      de_last_modified_ticks = md_last_modified m, de_tags = map tag_as_str (md_tags m)\<rparr>)"

fun validate_tags :: "string list \<Rightarrow> cache_error + unit" where
  "validate_tags [] = Inr ()"
| "validate_tags (t # ts) = (case Tag_new t of Inl e \<Rightarrow> Inl (ErrTag e) | Inr _ \<Rightarrow> validate_tags ts)"

definition distributed_validate :: "'v distributed_entry \<Rightarrow> cache_error + unit" where
  "distributed_validate d =
     (if de_logical_ticks d > de_physical_ticks d then Inl (ErrConfig InvalidEntryDeadlines)
      else validate_tags (de_tags d))"

definition distributed_from_entry_with_options ::
  "'v entry \<Rightarrow> entry_options \<Rightarrow> timestamp \<Rightarrow> cache_error + 'v distributed_entry" where
  "distributed_from_entry_with_options e opts inserted_at =
     (case validate opts of
        Inl er \<Rightarrow> Inl (ErrConfig er)
      | Inr _ \<Rightarrow>
          let snapshot = distributed_from_entry e;
              logical = saturating_add inserted_at (resolved_distributed_duration opts);
              physical = saturating_add inserted_at (distributed_physical_ttl opts);
              snapshot = (if is_from_fail_safe (en_meta e)
                then snapshot\<lparr>de_logical_ticks := min logical (md_logical_expiration (en_meta e)),
                              de_physical_ticks := min physical (md_physical_expiration (en_meta e))\<rparr>
                else snapshot\<lparr>de_logical_ticks := logical, de_physical_ticks := physical\<rparr>)
          in case distributed_validate snapshot of Inl er \<Rightarrow> Inl er | Inr _ \<Rightarrow> Inr snapshot)"

definition try_into_entry_with_retention ::
  "timestamp \<Rightarrow> retention_metadata \<Rightarrow> 'v distributed_entry \<Rightarrow> cache_error + 'v entry" where
  "try_into_entry_with_retention now retention d =
     (case try_collect_tags (de_tags d) of
        Inl er \<Rightarrow> Inl (ErrTag er)
      | Inr tags \<Rightarrow> lift_error ErrConfig (try_rehydrate_with_retention (de_value d)
          (de_created_ticks d) (de_logical_ticks d) (de_physical_ticks d) (de_is_from_fail_safe d)
          (de_etag d) (de_last_modified_ticks d) tags retention now))"

definition distributed_try_into_entry :: "timestamp \<Rightarrow> 'v distributed_entry \<Rightarrow> cache_error + 'v entry" where
  "distributed_try_into_entry now d = try_into_entry_with_retention now RetentionUnspecified d"

definition distributed_into_entry :: "timestamp \<Rightarrow> 'v distributed_entry \<Rightarrow> 'v entry option" where
  "distributed_into_entry now d = (case distributed_try_into_entry now d of
     Inl er \<Rightarrow> None | Inr e \<Rightarrow> Some e)"

section \<open>Snapshots of entries\<close>

datatype snapshot_retention = SnapUnspecified | SnapSpecified "entry_weight option" priority

record 'v distributed_snapshot =
  ds_entry :: "'v distributed_entry"
  ds_inserted_at :: timestamp
  ds_retention :: snapshot_retention

definition DistributedSnapshot_new ::
  "'v distributed_entry \<Rightarrow> timestamp \<Rightarrow> snapshot_retention \<Rightarrow> cache_error + 'v distributed_snapshot" where
  "DistributedSnapshot_new d inserted_at retention =
     (case distributed_validate d of
        Inl er \<Rightarrow> Inl er
      | Inr _ \<Rightarrow> Inr \<lparr>ds_entry = d, ds_inserted_at = inserted_at, ds_retention = retention\<rparr>)"

definition snapshot_backend_ttl_at :: "timestamp \<Rightarrow> 'v distributed_snapshot \<Rightarrow> duration" where
  "snapshot_backend_ttl_at now s = saturating_duration_since (de_physical_ticks (ds_entry s)) now"

definition snapshot_from_entry_with_options ::
  "'v entry \<Rightarrow> entry_options \<Rightarrow> timestamp \<Rightarrow> cache_error + 'v distributed_snapshot" where
  "snapshot_from_entry_with_options e opts inserted_at =
     (let retention = (case stored_priority (en_meta e) of
            Some p \<Rightarrow> SnapSpecified (meta_size (en_meta e)) p
          | None \<Rightarrow> SnapUnspecified)
      in case distributed_from_entry_with_options e opts inserted_at of
           Inl er \<Rightarrow> Inl er
         | Inr d \<Rightarrow> DistributedSnapshot_new d inserted_at retention)"

definition try_into_cache_entry :: "timestamp \<Rightarrow> 'v distributed_snapshot \<Rightarrow> cache_error + 'v entry" where
  "try_into_cache_entry now s =
     (let retention = (case ds_retention s of
            SnapUnspecified \<Rightarrow> RetentionUnspecified
          | SnapSpecified sz p \<Rightarrow> RetentionSpecified sz p)
      in try_into_entry_with_retention now retention (ds_entry s))"

definition snapshot_try_into_entry :: "timestamp \<Rightarrow> 'v distributed_snapshot \<Rightarrow> cache_error + 'v entry" where
  "snapshot_try_into_entry now s =
     (case distributed_try_into_entry now (ds_entry s) of
        Inl er \<Rightarrow> Inl er
      | Inr e \<Rightarrow> Inr (case ds_retention s of
            SnapUnspecified \<Rightarrow> e
          | SnapSpecified sz p \<Rightarrow> with_retention sz p e))"

definition snapshot_for_memory_hydration ::
  "(nat \<Rightarrow> nat) \<Rightarrow> entry_options \<Rightarrow> timestamp \<Rightarrow> 'v distributed_snapshot \<Rightarrow> cache_error + 'v entry option" where
  "snapshot_for_memory_hydration ep opts now s =
     (case snapshot_try_into_entry now s of
        Inl er \<Rightarrow> Inl er
      | Inr e \<Rightarrow> lift_error ErrConfig (for_memory_hydration ep opts now e))"

section \<open>Facts\<close>

lemma validate_tags_eq: "validate_tags ts = (if list_ex blank ts then Inl (ErrTag BlankTag) else Inr ())"
  by (induction ts) (simp_all add: Tag_new_def)

lemma distributed_validate_eq:
  "distributed_validate d = (if de_logical_ticks d > de_physical_ticks d then Inl (ErrConfig InvalidEntryDeadlines)
     else if list_ex blank (de_tags d) then Inl (ErrTag BlankTag) else Inr ())"
  by (simp add: distributed_validate_def validate_tags_eq)

text \<open>Building an entry fails exactly on what validation refuses, although with tags first.\<close>

lemma try_into_entry_with_retention_eq:
  "try_into_entry_with_retention now r d =
     (if list_ex blank (de_tags d) then Inl (ErrTag BlankTag)
      else if de_logical_ticks d > de_physical_ticks d then Inl (ErrConfig InvalidEntryDeadlines)
      else Inr \<lparr>en_value = de_value d,
             en_meta = \<lparr>md_created = de_created_ticks d, md_inserted_at = now,
               md_logical_expiration = de_logical_ticks d, md_physical_expiration = de_physical_ticks d,
               md_backend_ttl = saturating_duration_since (de_physical_ticks d) now,
               md_origin = (if de_is_from_fail_safe d then OriginFailSafe else OriginFresh None),
               md_etag = de_etag d, md_last_modified = de_last_modified_ticks d,
               md_tags = map Tag (de_tags d), md_retention = r\<rparr>,
             en_eligibility = LocalEntry\<rparr>)"
  by (simp add: try_into_entry_with_retention_def try_collect_tags_eq try_rehydrate_with_retention_def)

lemma validate_accepts_iff: "(\<exists>e. try_into_entry_with_retention now r d = Inr e) \<longleftrightarrow> distributed_validate d = Inr ()"
  by (auto simp: try_into_entry_with_retention_eq distributed_validate_eq)

lemma meta_retention_snapshot:
  "(case (case stored_priority m of Some p \<Rightarrow> SnapSpecified (meta_size m) p | None \<Rightarrow> SnapUnspecified) of
      SnapUnspecified \<Rightarrow> RetentionUnspecified | SnapSpecified sz p \<Rightarrow> RetentionSpecified sz p) = md_retention m"
  by (simp add: stored_priority_def meta_size_def split: retention_metadata.splits)

lemma cache_entry_eq_public:
  "try_into_cache_entry now s = snapshot_try_into_entry now s"
  by (cases "ds_retention s")
    (simp_all add: try_into_cache_entry_def snapshot_try_into_entry_def distributed_try_into_entry_def
      try_into_entry_with_retention_eq with_retention_def)

lemma distributed_from_entry_fields [simp]:
  "de_value (distributed_from_entry e) = en_value e"
  "de_created_ticks (distributed_from_entry e) = md_created (en_meta e)"
  "de_is_from_fail_safe (distributed_from_entry e) = is_from_fail_safe (en_meta e)"
  "de_etag (distributed_from_entry e) = md_etag (en_meta e)"
  "de_last_modified_ticks (distributed_from_entry e) = md_last_modified (en_meta e)"
  "de_tags (distributed_from_entry e) = map tag_as_str (md_tags (en_meta e))"
  by (simp_all add: distributed_from_entry_def Let_def)

lemma list_ex_blank_tags: "list_all valid_tag ts \<Longrightarrow> \<not> list_ex blank (map tag_as_str ts)"
  by (induction ts) (simp_all add: valid_tag_def)

text \<open>The deadlines an entry gets on the wire.\<close>

definition wire_deadlines :: "'v entry \<Rightarrow> entry_options \<Rightarrow> timestamp \<Rightarrow> timestamp \<times> timestamp" where
  "wire_deadlines e opts t =
     (let l = saturating_add t (resolved_distributed_duration opts);
          p = saturating_add t (distributed_physical_ttl opts)
      in if is_from_fail_safe (en_meta e)
         then (min l (md_logical_expiration (en_meta e)), min p (md_physical_expiration (en_meta e))) else (l, p))"

lemma wire_deadlines_ordered:
  assumes "entry_ok e" and "in_i64 t" and "wire_deadlines e opts t = (l, p)"
  shows "l \<le> p \<and> in_i64 l \<and> in_i64 p"
proof -
  have "resolved_distributed_duration opts \<le> distributed_physical_ttl opts"
    by (simp add: distributed_physical_ttl_def Let_def)
  then have "saturating_add t (resolved_distributed_duration opts) \<le> saturating_add t (distributed_physical_ttl opts)"
    using assms(2) by (intro saturating_add_mono) simp_all
  then show ?thesis
    using assms by (auto simp: wire_deadlines_def Let_def entry_ok_def min_def split: if_splits)
qed

lemma snapshot_from_entry_eq:
  assumes "entry_ok e" and "in_i64 t" and "list_all valid_tag (md_tags (en_meta e))" and "validate opts = Inr u"
  shows "snapshot_from_entry_with_options e opts t = Inr \<lparr>ds_entry = (distributed_from_entry e)\<lparr>
       de_logical_ticks := fst (wire_deadlines e opts t), de_physical_ticks := snd (wire_deadlines e opts t)\<rparr>,
     ds_inserted_at = t,
     ds_retention = (case stored_priority (en_meta e) of Some p \<Rightarrow> SnapSpecified (meta_size (en_meta e)) p
       | None \<Rightarrow> SnapUnspecified)\<rparr>"
proof -
  obtain l p where w: "wire_deadlines e opts t = (l, p)" by fastforce
  then have lp: "\<not> p < l" using wire_deadlines_ordered [OF assms(1,2)] by fastforce
  let ?d = "(distributed_from_entry e)\<lparr>de_logical_ticks := l, de_physical_ticks := p\<rparr>"
  have v: "distributed_validate ?d = Inr ()"
    using lp list_ex_blank_tags [OF assms(3)] by (simp add: distributed_validate_eq)
  have "distributed_from_entry_with_options e opts t = Inr ?d"
    using w v assms(4) by (simp add: distributed_from_entry_with_options_def wire_deadlines_def Let_def split: if_splits)
  with v w show ?thesis by (simp add: snapshot_from_entry_with_options_def DistributedSnapshot_new_def Let_def)
qed

section \<open>Properties\<close>

text \<open>
  What one node writes another node reads: a snapshot of a well-formed entry is built exactly
  when the options are valid, and converting it back gives the same value, creation revision,
  fail-safe mark, conditional headers, tags and retention, with the deadlines of the distributed
  lifetime, which for a fail-safe value never exceed the entry's own. The conversion of the
  cache and the public one agree.
\<close>

theorem snapshot_round_trip:
  assumes "entry_ok e" and "in_i64 t" and "list_all valid_tag (md_tags (en_meta e))"
  shows "case snapshot_from_entry_with_options e opts t of
      Inl er \<Rightarrow> (\<exists>c. validate opts = Inl c \<and> er = ErrConfig c)
    | Inr s \<Rightarrow> validate opts = Inr ()
        \<and> try_into_cache_entry now s = snapshot_try_into_entry now s
        \<and> try_into_cache_entry now s = Inr \<lparr>en_value = en_value e,
            en_meta = (en_meta e)\<lparr>md_inserted_at := now,
              md_logical_expiration := fst (wire_deadlines e opts t),
              md_physical_expiration := snd (wire_deadlines e opts t),
              md_backend_ttl := saturating_duration_since (snd (wire_deadlines e opts t)) now,
              md_origin := (if is_from_fail_safe (en_meta e) then OriginFailSafe else OriginFresh None)\<rparr>,
            en_eligibility = LocalEntry\<rparr>
        \<and> snd (wire_deadlines e opts t) \<le> saturating_add t (distributed_physical_ttl opts)
        \<and> (is_from_fail_safe (en_meta e) \<longrightarrow>
             snd (wire_deadlines e opts t) \<le> md_physical_expiration (en_meta e))"
proof (cases "validate opts")
  case (Inl c)
  then show ?thesis
    by (simp add: snapshot_from_entry_with_options_def distributed_from_entry_with_options_def)
next
  case (Inr u)
  obtain l p where w: "wire_deadlines e opts t = (l, p)" by fastforce
  then have lp: "\<not> p < l" using wire_deadlines_ordered [OF assms(1,2)] by fastforce
  have b: "p \<le> saturating_add t (distributed_physical_ttl opts)"
    "is_from_fail_safe (en_meta e) \<Longrightarrow> p \<le> md_physical_expiration (en_meta e)"
    using w by (auto simp: wire_deadlines_def Let_def split: if_splits)
  have t: "map (Tag \<circ> tag_as_str) ts = ts" for ts by (induction ts) (simp_all, metis tag.exhaust tag_as_str.simps)
  show ?thesis
    using b lp list_ex_blank_tags [OF assms(3)]
    by (simp add: snapshot_from_entry_eq [OF assms Inr] Inr cache_entry_eq_public [symmetric] try_into_cache_entry_def
        try_into_entry_with_retention_eq w meta_retention_snapshot t Let_def)
qed

lemma sample_entry_facts:
  "entry_ok sample_entry" "list_all valid_tag (md_tags (en_meta sample_entry))" "validate (EntryOptions_new 500) = Inr ()"
  by (simp_all add: sample_entry_def FreshPlan_prepare_def entry_ok_def machine_defs valid_tag_def blank_def
      ascii_space_def byte_of_def validate_def size_of_def option_defs)

theorem snapshot_round_trip_witness:
  "\<exists>s. snapshot_from_entry_with_options sample_entry (EntryOptions_new 500) 120 = Inr s
     \<and> try_into_cache_entry 130 s = snapshot_try_into_entry 130 s"
  using snapshot_round_trip [OF sample_entry_facts(1) _ sample_entry_facts(2), of 120 "EntryOptions_new 500" 130]
  by (cases "snapshot_from_entry_with_options sample_entry (EntryOptions_new 500) 120")
    (simp_all add: in_i64_def sample_entry_facts(3))

text \<open>
  A copy hydrated from a snapshot into memory never outlives the snapshot: whatever the local
  options, its physical deadline is at most the one on the wire, its logical deadline at most the
  physical one, its creation revision and tags are those of the snapshot, and an expired snapshot
  yields no copy at all.
\<close>

theorem hydration_never_outlives_snapshot:
  assumes "in_i64 (de_logical_ticks (ds_entry s))" and "in_i64 (de_physical_ticks (ds_entry s))" and "in_i64 now"
    and "snapshot_for_memory_hydration ep opts now s = Inr r"
  shows "case r of
      None \<Rightarrow> now \<ge> de_physical_ticks (ds_entry s)
    | Some e \<Rightarrow> now < de_physical_ticks (ds_entry s)
        \<and> md_physical_expiration (en_meta e) \<le> de_physical_ticks (ds_entry s)
        \<and> md_logical_expiration (en_meta e) \<le> md_physical_expiration (en_meta e)
        \<and> md_created (en_meta e) = de_created_ticks (ds_entry s)
        \<and> md_tags (en_meta e) = map Tag (de_tags (ds_entry s))"
proof -
  from assms(4) obtain x where x: "try_into_cache_entry now s = Inr x" "for_memory_hydration ep opts now x = Inr r"
    by (auto simp: snapshot_for_memory_hydration_def cache_entry_eq_public split: sum.splits)
  have x': "entry_ok x" "en_eligibility x = LocalEntry" "md_created (en_meta x) = de_created_ticks (ds_entry s)"
    "md_tags (en_meta x) = map Tag (de_tags (ds_entry s))" "md_physical_expiration (en_meta x) = de_physical_ticks (ds_entry s)"
    using x(1) assms(1,2)
    by (auto simp: try_into_cache_entry_def try_into_entry_with_retention_eq entry_ok_def Let_def split: if_splits)
  show ?thesis
  proof (cases r)
    case None
    then show ?thesis using x(2) x'
      by (auto simp: for_memory_hydration_def prepare_memory_hydration_def is_read_eligible_def
          is_physically_expired_def is_before_def Let_def split: sum.splits option.splits if_splits)
  next
    case (Some e)
    then have "descends x e" using for_memory_hydration_descends [OF x'(1) assms(3)] x(2) by simp
    moreover have "now < de_physical_ticks (ds_entry s)" using x(2) Some x'
      by (auto simp: for_memory_hydration_def prepare_memory_hydration_def is_read_eligible_def
          is_physically_expired_def is_before_def Let_def split: sum.splits option.splits if_splits)
    ultimately show ?thesis using Some x' by (auto simp: descends_def entry_ok_def)
  qed
qed

theorem hydration_never_outlives_snapshot_witness:
  "\<exists>(s :: nat distributed_snapshot) e. snapshot_for_memory_hydration (\<lambda>c. 0) (EntryOptions_new 500) 120 s = Inr (Some e)
     \<and> md_physical_expiration (en_meta e) \<le> de_physical_ticks (ds_entry s)"
proof -
  let ?d = "\<lparr>de_value = 7::nat, de_created_ticks = 100, de_logical_ticks = 110, de_physical_ticks = 190,
    de_is_from_fail_safe = True, de_etag = None, de_last_modified_ticks = None, de_tags = []\<rparr>"
  let ?s = "\<lparr>ds_entry = ?d, ds_inserted_at = 120, ds_retention = SnapUnspecified\<rparr>"
  obtain e where e: "snapshot_for_memory_hydration (\<lambda>c. 0) (EntryOptions_new 500) 120 ?s = Inr (Some e)"
    by (simp add: snapshot_for_memory_hydration_def cache_entry_eq_public [symmetric] try_into_cache_entry_def
        try_into_entry_with_retention_eq for_memory_hydration_def prepare_memory_hydration_def size_of_def
        option_defs is_read_eligible_def is_physically_expired_def is_before_def Let_def)
  from hydration_never_outlives_snapshot [OF _ _ _ e] e show ?thesis
    by (intro exI [of _ ?s] exI [of _ e]) (auto simp: in_i64_def)
qed

end
