(* ===== verification/Amalgam_Wire.thy ===== *)
theory Amalgam_Wire
  imports Amalgam_Distributed "HOL-Library.Word" "HOL-Library.Monad_Syntax"
begin

unbundle bit_operations_syntax

text \<open>
  The wire format of distributed snapshots, \<open>src/distributed.rs\<close>: the frame with magic, version and
  length, the fast decoders for the bytes the crate itself writes (including the eight-digits-at-once
  conversion on a 64-bit word), and the choice between them and the general JSON decoder. The JSON
  library is a parameter: a writer and a reader of headers, a streaming reader of values, and a
  reader of whole entries. A byte string is a \<open>string\<close>. The lemmas show that the word arithmetic
  never overflows and computes the decimal value, that the fast decoders accept exactly the layout
  the crate writes up to one spelling of zero, and that frames round trip.
\<close>

section \<open>Decimal numbers\<close>

text \<open>
  \<open>eight_digits\<close> works on a 64-bit word, least significant byte first. Additions and
  multiplications wrap in the model; that they do not is part of \<open>unat_eight_digits\<close>.
\<close>

fun from_le_bytes :: "string \<Rightarrow> 64 word" where
  "from_le_bytes [] = 0"
| "from_le_bytes (c # cs) = of_nat (byte_of c) + 256 * from_le_bytes cs"

definition eight_digits :: "string \<Rightarrow> 64 word" where
  "eight_digits chunk =
     (let word = from_le_bytes chunk - 0x3030303030303030;
          word = (word * 10 + drop_bit 8 word) AND 0x00FF00FF00FF00FF;
          word = (word * 100 + drop_bit 16 word) AND 0x0000FFFF0000FFFF
      in (word * 10000 + drop_bit 32 word) AND 0xFFFFFFFF)"

fun decimal_from :: "64 word \<Rightarrow> string \<Rightarrow> 64 word" where
  "decimal_from value ds =
     (if length ds \<ge> 8
      then decimal_from (value * 100000000 + eight_digits (take 8 ds)) (drop 8 ds)
      else foldl (\<lambda>v d. v * 10 + of_nat (byte_of d - 48)) value ds)"

declare decimal_from.simps [simp del]

definition decimal :: "string \<Rightarrow> 64 word" where
  "decimal ds = decimal_from 0 ds"

section \<open>Canonical integers and strings\<close>

definition strip_prefix :: "string \<Rightarrow> string \<Rightarrow> string option" where
  "strip_prefix p s = (if take (length p) s = p then Some (drop (length p) s) else None)"

definition canonical_i64 :: "string \<Rightarrow> (int \<times> string) option" where
  "canonical_i64 bytes = (case bytes of
     [] \<Rightarrow> None
   | c # cs \<Rightarrow>
       let (negative, digits) = (if c = CHR ''-'' then (True, cs) else (False, bytes));
           len = length (takeWhile is_digit digits)
       in if len = 0 \<or> len > 19 \<or> (len > 1 \<and> hd digits = CHR ''0'') then None
          else let magnitude = int (unat (decimal (take len digits)))
               in if magnitude > i64_max then None
                  else Some (if negative then - magnitude else magnitude, drop len digits))"

text \<open>\<open>std::str::from_utf8\<close>: the well-formed byte sequences of UTF-8.\<close>

definition utf8_cont :: "nat \<Rightarrow> bool" where
  "utf8_cont b \<longleftrightarrow> 128 \<le> b \<and> b \<le> 191"

definition utf8_lead3 :: "nat \<Rightarrow> nat \<Rightarrow> bool" where
  "utf8_lead3 a b \<longleftrightarrow> a = 224 \<and> 160 \<le> b \<and> b \<le> 191 \<or> (225 \<le> a \<and> a \<le> 236 \<or> a = 238 \<or> a = 239) \<and> utf8_cont b
     \<or> a = 237 \<and> 128 \<le> b \<and> b \<le> 159"

definition utf8_lead4 :: "nat \<Rightarrow> nat \<Rightarrow> bool" where
  "utf8_lead4 a b \<longleftrightarrow> a = 240 \<and> 144 \<le> b \<and> b \<le> 191 \<or> 241 \<le> a \<and> a \<le> 243 \<and> utf8_cont b
     \<or> a = 244 \<and> 128 \<le> b \<and> b \<le> 143"

fun utf8_ok :: "nat list \<Rightarrow> bool" where
  "utf8_ok [] = True"
| "utf8_ok (a # rest) =
     (if a < 128 then utf8_ok rest
      else case rest of
        [] \<Rightarrow> False
      | b # rest2 \<Rightarrow>
          if 194 \<le> a \<and> a \<le> 223 then utf8_cont b \<and> utf8_ok rest2
          else case rest2 of
            [] \<Rightarrow> False
          | c # rest3 \<Rightarrow>
              if utf8_lead3 a b then utf8_cont c \<and> utf8_ok rest3
              else case rest3 of
                [] \<Rightarrow> False
              | d # rest4 \<Rightarrow> utf8_lead4 a b \<and> utf8_cont c \<and> utf8_cont d \<and> utf8_ok rest4)"

definition from_utf8 :: "string \<Rightarrow> bool" where
  "from_utf8 s = utf8_ok (map byte_of s)"

abbreviation quote :: char where
  "quote \<equiv> CHR 0x22"

definition canonical_string :: "string \<Rightarrow> (string \<times> string) option" where
  "canonical_string bytes = do {
     rest \<leftarrow> strip_prefix [quote] bytes;
     let text = takeWhile (\<lambda>c. c \<noteq> quote) rest;
     if length text = length rest then None
     else if list_ex (\<lambda>c. c = CHR 0x5C \<or> byte_of c < 32) text then None
     else if \<not> from_utf8 text then None
     else Some (text, drop (length text + 1) rest)
   }"

section \<open>Canonical snapshot headers\<close>

datatype wire_retention = WireUnspecified | WireSpecified "nat option" nat

record snapshot_header =
  sh_inserted_ticks :: int
  sh_retention :: wire_retention

definition canonical_header :: "string \<Rightarrow> snapshot_header option" where
  \<open>canonical_header header = do {
     rest \<leftarrow> strip_prefix ''{"inserted_ticks":'' header;
     (inserted_ticks, rest) \<leftarrow> canonical_i64 rest;
     if rest = '',"retention":{"kind":"Unspecified"}}''
     then Some \<lparr>sh_inserted_ticks = inserted_ticks, sh_retention = WireUnspecified\<rparr> else None
   }\<close>

section \<open>Frames\<close>

definition SNAPSHOT_MAGIC :: string where
  "SNAPSHOT_MAGIC = ''AMALGAM'' @ [CHR 0x00]"

definition SNAPSHOT_VERSION :: nat where
  "SNAPSHOT_VERSION = 2"

definition priority_byte :: "priority \<Rightarrow> nat" where
  "priority_byte p = (case p of Low \<Rightarrow> 1 | Normal \<Rightarrow> 2 | High \<Rightarrow> 3 | NeverRemove \<Rightarrow> 4)"

definition priority_from_byte :: "nat \<Rightarrow> cache_error + priority" where
  "priority_from_byte b =
     (if b = 1 then Inr Low else if b = 2 then Inr Normal else if b = 3 then Inr High
      else if b = 4 then Inr NeverRemove else Inl (ErrDeserialization ''unknown persisted priority''))"

definition u32_be_bytes :: "nat \<Rightarrow> string" where
  "u32_be_bytes n = map char_of [n div 16777216 mod 256, n div 65536 mod 256, n div 256 mod 256, n mod 256]"

definition u32_from_be :: "char \<Rightarrow> char \<Rightarrow> char \<Rightarrow> char \<Rightarrow> nat" where
  "u32_from_be a b c d = ((byte_of a * 256 + byte_of b) * 256 + byte_of c) * 256 + byte_of d"

definition snapshot_header_of :: "'v distributed_snapshot \<Rightarrow> snapshot_header" where
  "snapshot_header_of s = \<lparr>sh_inserted_ticks = ds_inserted_at s,
     sh_retention = (case ds_retention s of
        SnapUnspecified \<Rightarrow> WireUnspecified
      | SnapSpecified sz p \<Rightarrow> WireSpecified (map_option units sz) (priority_byte p))\<rparr>"

definition frame_snapshot ::
  "(snapshot_header \<Rightarrow> string + string) \<Rightarrow> 'v distributed_snapshot \<Rightarrow> string \<Rightarrow> cache_error + string" where
  "frame_snapshot write_header s payload = (case write_header (snapshot_header_of s) of
     Inl er \<Rightarrow> Inl (ErrCodecSerialization er)
   | Inr header \<Rightarrow>
       if length header > 4294967295 then Inl (ErrSerialization ''snapshot header is too large'')
       else Inr (SNAPSHOT_MAGIC @ [char_of SNAPSHOT_VERSION] @ u32_be_bytes (length header) @ header @ payload))"

definition unframe_snapshot ::
  "(string \<Rightarrow> string + snapshot_header) \<Rightarrow> string \<Rightarrow> cache_error + (snapshot_header \<times> string) option" where
  "unframe_snapshot read_header bytes =
     (if take (length SNAPSHOT_MAGIC) bytes \<noteq> SNAPSHOT_MAGIC then Inr None
      else if length bytes < 13 \<or> byte_of (bytes ! 8) \<noteq> SNAPSHOT_VERSION
        then Inl (ErrDeserialization ''unknown or truncated snapshot frame'')
      else let len = u32_from_be (bytes ! 9) (bytes ! 10) (bytes ! 11) (bytes ! 12);
               last = 13 + len
           in if last > length bytes then Inl (ErrDeserialization ''truncated snapshot header'')
              else let text = take len (drop 13 bytes)
                   in case canonical_header text of
                        Some header \<Rightarrow> Inr (Some (header, drop last bytes))
                      | None \<Rightarrow> (case read_header text of
                          Inl er \<Rightarrow> Inl (ErrCodecDeserialization er)
                        | Inr header \<Rightarrow> Inr (Some (header, drop last bytes))))"

text \<open>The provided methods of a serializer, over its entry codec.\<close>

definition serialize_snapshot ::
  "(snapshot_header \<Rightarrow> string + string) \<Rightarrow> ('v distributed_entry \<Rightarrow> cache_error + string)
     \<Rightarrow> 'v distributed_snapshot \<Rightarrow> cache_error + string" where
  "serialize_snapshot write_header serialize s = (case serialize (ds_entry s) of
     Inl er \<Rightarrow> Inl er
   | Inr payload \<Rightarrow> frame_snapshot write_header s payload)"

definition wire_snapshot_retention :: "wire_retention \<Rightarrow> cache_error + snapshot_retention" where
  "wire_snapshot_retention r = (case r of
     WireUnspecified \<Rightarrow> Inr SnapUnspecified
   | WireSpecified sz p \<Rightarrow> (case priority_from_byte p of
       Inl er \<Rightarrow> Inl er
     | Inr prio \<Rightarrow> Inr (SnapSpecified (map_option EntryWeight sz) prio)))"

definition deserialize_snapshot ::
  "(string \<Rightarrow> string + snapshot_header) \<Rightarrow> (string \<Rightarrow> cache_error + 'v distributed_entry)
     \<Rightarrow> string \<Rightarrow> cache_error + 'v distributed_snapshot" where
  "deserialize_snapshot read_header deserialize bytes = (case unframe_snapshot read_header bytes of
     Inl er \<Rightarrow> Inl er
   | Inr (Some (header, payload)) \<Rightarrow> (case wire_snapshot_retention (sh_retention header) of
       Inl er \<Rightarrow> Inl er
     | Inr retention \<Rightarrow> (case deserialize payload of
         Inl er \<Rightarrow> Inl er
       | Inr d \<Rightarrow> DistributedSnapshot_new d (sh_inserted_ticks header) retention))
   | Inr None \<Rightarrow> (case deserialize bytes of
       Inl er \<Rightarrow> Inl er
     | Inr d \<Rightarrow> DistributedSnapshot_new d (de_created_ticks d) SnapUnspecified))"

section \<open>Canonical entries\<close>

lemma strip_prefix_Some: "strip_prefix p s = Some r \<longleftrightarrow> s = p @ r"
  by (auto simp: strip_prefix_def) (metis append_take_drop_id)

lemma canonical_string_Some:
  "canonical_string bytes = Some (t, after) \<longleftrightarrow> bytes = quote # t @ quote # after \<and> quote \<notin> set t \<and> from_utf8 t
     \<and> \<not> list_ex (\<lambda>c. c = CHR 0x5C \<or> byte_of c < 32) t"
proof (cases "\<exists>rest. bytes = quote # rest")
  case True
  then obtain rest where b: "bytes = quote # rest" by blast
  define u where "u = takeWhile (\<lambda>c. c \<noteq> quote) rest"
  have split: "rest = t @ quote # after \<and> quote \<notin> set t \<longleftrightarrow> length u \<noteq> length rest \<and> t = u \<and> after = drop (length u + 1) rest"
  proof
    assume a: "rest = t @ quote # after \<and> quote \<notin> set t"
    then have "takeWhile (\<lambda>c. c \<noteq> quote) (t @ quote # after) = t @ takeWhile (\<lambda>c. c \<noteq> quote) (quote # after)"
      by (intro takeWhile_append2) auto
    then have "u = t" using a by (simp add: u_def)
    with a show "length u \<noteq> length rest \<and> t = u \<and> after = drop (length u + 1) rest" by simp
  next
    assume a: "length u \<noteq> length rest \<and> t = u \<and> after = drop (length u + 1) rest"
    define w where "w = dropWhile (\<lambda>c. c \<noteq> quote) rest"
    have r: "rest = u @ w" by (simp add: u_def w_def)
    with a have "w \<noteq> []" by auto
    then obtain y ys where w: "w = y # ys" by (cases w) auto
    then have "y = quote" using hd_dropWhile [of "\<lambda>c. c \<noteq> quote" rest] by (simp add: w_def)
    with r w have "rest = u @ quote # ys" by simp
    moreover from this have "drop (length u + 1) rest = ys" by simp
    moreover have "quote \<notin> set u" unfolding u_def by (auto dest: set_takeWhileD)
    ultimately show "rest = t @ quote # after \<and> quote \<notin> set t" using a by simp
  qed
  have "canonical_string bytes = (if length u = length rest then None
     else if list_ex (\<lambda>c. c = CHR 0x5C \<or> byte_of c < 32) u then None
     else if \<not> from_utf8 u then None else Some (u, drop (length u + 1) rest))"
    by (simp add: b canonical_string_def strip_prefix_def u_def [symmetric] Let_def)
  then show ?thesis using split b by auto
qed (auto simp: canonical_string_def strip_prefix_Some bind_eq_Some_conv)

lemma canonical_string_shorter: "canonical_string bytes = Some (t, after) \<Longrightarrow> length after < length bytes"
  by (simp add: canonical_string_Some)

text \<open>The loop over the tags of a nonempty array; it consumes at least two bytes each time.\<close>

function canonical_tag_loop :: "string \<Rightarrow> string list \<Rightarrow> (string list \<times> string) option" where
  "canonical_tag_loop rest tags = (case canonical_string rest of
     None \<Rightarrow> None
   | Some (t, after) \<Rightarrow> (case after of
       [] \<Rightarrow> None
     | c # nxt \<Rightarrow>
         if c = CHR '','' then canonical_tag_loop nxt (tags @ [t])
         else if c = CHR '']'' then Some (tags @ [t], nxt)
         else None))"
  by pat_completeness auto

termination canonical_tag_loop
  by (relation "measure (length \<circ> fst)") (auto dest!: canonical_string_shorter)

declare canonical_tag_loop.simps [simp del]

definition canonical_tags :: "string \<Rightarrow> (string list \<times> string) option" where
  "canonical_tags rest = (case strip_prefix '']'' rest of
     Some after \<Rightarrow> Some ([], after)
   | None \<Rightarrow> canonical_tag_loop rest [])"

definition canonical_bool :: "string \<Rightarrow> (bool \<times> string) option" where
  "canonical_bool rest = (case strip_prefix ''false'' rest of
     Some after \<Rightarrow> Some (False, after)
   | None \<Rightarrow> map_option (Pair True) (strip_prefix ''true'' rest))"

definition canonical_optional :: "(string \<Rightarrow> ('a \<times> string) option) \<Rightarrow> string \<Rightarrow> ('a option \<times> string) option" where
  "canonical_optional parse rest = (case strip_prefix ''null'' rest of
     Some after \<Rightarrow> Some (None, after)
   | None \<Rightarrow> map_option (\<lambda>(x, after). (Some x, after)) (parse rest))"

text \<open>
  \<open>parse_value\<close> is the streaming JSON reader: the first value of the input and the offset of the
  first byte after it.
\<close>

definition canonical_entry ::
  "(string \<Rightarrow> ('v \<times> nat) option) \<Rightarrow> string \<Rightarrow> 'v distributed_entry option" where
  \<open>canonical_entry parse_value bytes = do {
     rest \<leftarrow> strip_prefix ''{"value":'' bytes;
     (v, byte_offset) \<leftarrow> parse_value rest;
     let rest = drop byte_offset rest;
     rest \<leftarrow> strip_prefix '',"created_ticks":'' rest;
     (created, rest) \<leftarrow> canonical_i64 rest;
     rest \<leftarrow> strip_prefix '',"logical_expiration_ticks":'' rest;
     (logical, rest) \<leftarrow> canonical_i64 rest;
     rest \<leftarrow> strip_prefix '',"physical_expiration_ticks":'' rest;
     (physical, rest) \<leftarrow> canonical_i64 rest;
     rest \<leftarrow> strip_prefix '',"is_from_fail_safe":'' rest;
     (fail_safe, rest) \<leftarrow> canonical_bool rest;
     rest \<leftarrow> strip_prefix '',"etag":'' rest;
     (etag, rest) \<leftarrow> canonical_optional canonical_string rest;
     rest \<leftarrow> strip_prefix '',"last_modified_ticks":'' rest;
     (last_modified, rest) \<leftarrow> canonical_optional canonical_i64 rest;
     rest \<leftarrow> strip_prefix '',"tags":['' rest;
     (tags, rest) \<leftarrow> canonical_tags rest;
     if rest = ''}''
     then Some \<lparr>de_value = v, de_created_ticks = created, de_logical_ticks = logical,
       de_physical_ticks = physical, de_is_from_fail_safe = fail_safe, de_etag = etag,
       de_last_modified_ticks = last_modified, de_tags = tags\<rparr>
     else None
   }\<close>

definition json_deserialize ::
  "(string \<Rightarrow> ('v \<times> nat) option) \<Rightarrow> (string \<Rightarrow> string + 'v distributed_entry) \<Rightarrow> string
     \<Rightarrow> cache_error + 'v distributed_entry" where
  "json_deserialize parse_value from_slice bytes = (case canonical_entry parse_value bytes of
     Some d \<Rightarrow> Inr d
   | None \<Rightarrow> lift_error ErrCodecDeserialization (from_slice bytes))"

section \<open>The decimal conversion\<close>

lemma and_split_nat:
  fixes a b m n :: nat
  assumes "a < 2 ^ k" and "m < 2 ^ k"
  shows "(a + 2 ^ k * b) AND (m + 2 ^ k * n) = (a AND m) + 2 ^ k * (b AND n)"
proof -
  have split: "bit (x + 2 ^ k * y) i = (if i < k then bit x i else bit y (i - k))" if "x < 2 ^ k" for x y i :: nat
  proof -
    have z: "\<not> bit x j" if "k \<le> j" for j
      using \<open>x < 2 ^ k\<close> that by (metis bit_take_bit_iff not_less take_bit_nat_eq_self)
    have p: "2 ^ k * y = push_bit k y" by (simp add: push_bit_eq_mult mult.commute)
    have "x + 2 ^ k * y = x OR push_bit k y"
      unfolding p using z by (intro disjunctive_add) (auto simp: bit_push_bit_iff)
    then show ?thesis using z by (auto simp: bit_or_iff bit_push_bit_iff)
  qed
  have lt: "a AND m < 2 ^ k" using assms(1) by (metis take_bit_and take_bit_nat_eq_self_iff assms(2))
  show ?thesis by (rule bit_eqI) (simp add: bit_and_iff split [OF assms(1)] split [OF assms(2)] split [OF lt])
qed


lemma and_byte_nat: "a AND 255 = a mod (256::nat)" "a AND 65535 = a mod (65536::nat)" "a AND 4294967295 = a mod (4294967296::nat)"
  using take_bit_eq_mask [of 8 a, symmetric] take_bit_eq_mask [of 16 a, symmetric] take_bit_eq_mask [of 32 a, symmetric]
  by (simp_all add: take_bit_eq_mod mask_eq_exp_minus_1)


lemma byte_keep: "a < 256 \<Longrightarrow> (a + 256 * x) AND (255 + 256 * m) = a + 256 * (x AND m :: nat)"
  using and_split_nat [of a 8 255 x m] by (simp add: and_byte_nat)

lemma byte_drop: "a < 256 \<Longrightarrow> (a + 256 * x) AND (256 * m) = 256 * (x AND m :: nat)"
  using and_split_nat [of a 8 0 x m] by simp

lemma byte_last: "a < 256 \<Longrightarrow> (a + 256 * x) AND 255 = (a :: nat)"
  by (simp add: and_byte_nat)

lemma half_keep: "a < 65536 \<Longrightarrow> (a + 65536 * x) AND (65535 + 65536 * m) = a + 65536 * (x AND m :: nat)"
  using and_split_nat [of a 16 65535 x m] by (simp add: and_byte_nat)

lemma half_drop: "a < 65536 \<Longrightarrow> (a + 65536 * x) AND (65536 * m) = 65536 * (x AND m :: nat)"
  using and_split_nat [of a 16 0 x m] by simp

lemma half_last: "a < 65536 \<Longrightarrow> (a + 65536 * x) AND 65535 = (a :: nat)"
  by (simp add: and_byte_nat)

lemma word_last: "a < 4294967296 \<Longrightarrow> (a + 4294967296 * x) AND 4294967295 = (a :: nat)"
  by (simp add: and_byte_nat)

lemma pairs_mask:
  fixes a b c d e f g h :: nat
  assumes "a < 256" "b < 256" "c < 256" "d < 256" "e < 256" "f < 256" "g < 256" "h < 256"
  shows "(a + 256 * (b + 256 * (c + 256 * (d + 256 * (e + 256 * (f + 256 * (g + 256 * h)))))))
      AND 0x00FF00FF00FF00FF = a + 65536 * (c + 65536 * (e + 65536 * g))"
proof -
  have m: "(0x00FF00FF00FF00FF::nat) = 255 + 256 * (256 * (255 + 256 * (256 * (255 + 256 * (256 * 255)))))" by simp
  show ?thesis unfolding m by (simp only: byte_keep byte_drop byte_last assms) simp
qed

lemma quads_mask:
  fixes a b c d :: nat
  assumes "a < 65536" "b < 65536" "c < 65536" "d < 65536"
  shows "(a + 65536 * (b + 65536 * (c + 65536 * d))) AND 0x0000FFFF0000FFFF = a + 4294967296 * c"
proof -
  have m: "(0x0000FFFF0000FFFF::nat) = 65535 + 65536 * (65536 * 65535)" by simp
  show ?thesis unfolding m by (simp only: half_keep half_drop half_last assms)
qed

lemma unat_fold_step:
  fixes w :: "64 word"
  assumes "unat w * m + unat w div 2 ^ k < 2 ^ 64" and "m < 2 ^ 64" and "x = of_nat m"
  shows "unat (w * x + drop_bit k w) = unat w * m + unat w div 2 ^ k"
proof -
  have "unat w * m < 2 ^ 64" using assms(1) by linarith
  moreover have "unat (drop_bit k w) = unat w div 2 ^ k" using unat_drop_bit_eq [of k w] by (simp only: drop_bit_eq_div)
  moreover have "unat x = m" using assms(2,3) by (simp add: unat_of_nat)
  ultimately show ?thesis using assms(1) by (simp add: unat_word_ariths)
qed

lemma unat_and_numeral: "unat (w AND x :: 64 word) = unat w AND unat x"
  by (simp add: unsigned_and_eq)

lemma eight_digits_value:
  assumes d: "a < 10" "b < 10" "c < 10" "d < 10" "e < 10" "f < 10" "g < 10" "h < 10"
    and w: "unat w = a + 256 * (b + 256 * (c + 256 * (d + 256 * (e + 256 * (f + 256 * (g + 256 * h))))))"
  shows "unat (let word = (w :: 64 word);
          word = (word * 10 + drop_bit 8 word) AND 0x00FF00FF00FF00FF;
          word = (word * 100 + drop_bit 16 word) AND 0x0000FFFF0000FFFF
      in (word * 10000 + drop_bit 32 word) AND 0xFFFFFFFF)
    = ((((((a * 10 + b) * 10 + c) * 10 + d) * 10 + e) * 10 + f) * 10 + g) * 10 + h"
proof -
  let ?p = "a * 10 + b" and ?q = "c * 10 + d" and ?r = "e * 10 + f" and ?s = "g * 10 + h"
  have div8: "unat w div 2 ^ 8 = b + 256 * (c + 256 * (d + 256 * (e + 256 * (f + 256 * (g + 256 * h)))))"
    unfolding w using d by simp
  have one: "unat (w * 10 + drop_bit 8 w) = ?p + 256 * ((b * 10 + c) + 256 * (?q + 256 * ((d * 10 + e) + 256 * (?r + 256 * ((f * 10 + g) + 256 * (?s + 256 * (h * 10)))))))"
    by (subst unat_fold_step [where m = 10]) (use d in \<open>simp_all add: div8, simp_all add: w\<close>)
  define w1 where "w1 = (w * 10 + drop_bit 8 w) AND 0x00FF00FF00FF00FF"
  have mask: "unat (0x00FF00FF00FF00FF :: 64 word) = 0x00FF00FF00FF00FF"
    "unat (0x0000FFFF0000FFFF :: 64 word) = 0x0000FFFF0000FFFF" by simp_all
  have w1: "unat w1 = ?p + 65536 * (?q + 65536 * (?r + 65536 * ?s))"
    unfolding w1_def unat_and_numeral one mask using d by (subst pairs_mask; simp)
  have div16: "unat w1 div 2 ^ 16 = ?q + 65536 * (?r + 65536 * ?s)" unfolding w1 using d by simp
  have two: "unat (w1 * 100 + drop_bit 16 w1) = (?p * 100 + ?q) + 65536 * ((?q * 100 + ?r) + 65536 * ((?r * 100 + ?s) + 65536 * (?s * 100)))"
    by (subst unat_fold_step [where m = 100]) (use d in \<open>simp_all add: div16, simp_all add: w1\<close>)
  define w2 where "w2 = (w1 * 100 + drop_bit 16 w1) AND 0x0000FFFF0000FFFF"
  have w2: "unat w2 = (?p * 100 + ?q) + 4294967296 * (?r * 100 + ?s)"
    unfolding w2_def unat_and_numeral two mask using d by (subst quads_mask; simp)
  have div32: "unat w2 div 2 ^ 32 = ?r * 100 + ?s" unfolding w2 using d by simp
  have three: "unat (w2 * 10000 + drop_bit 32 w2) = ((?p * 100 + ?q) * 10000 + (?r * 100 + ?s)) + 4294967296 * ((?r * 100 + ?s) * 10000)"
    by (subst unat_fold_step [where m = 10000]) (use d in \<open>simp_all add: div32, simp_all add: w2\<close>)
  have L: "(?p * 100 + ?q) * 10000 + (?r * 100 + ?s) < 4294967296" using d by simp
  have "unat (0xFFFFFFFF :: 64 word) = 0xFFFFFFFF" by simp
  then show ?thesis
    unfolding Let_def w1_def [symmetric] w2_def [symmetric] unat_and_numeral three
    by (simp only: word_last [OF L]) simp
qed


fun le_nat :: "nat list \<Rightarrow> nat" where
  "le_nat [] = 0"
| "le_nat (b # bs) = b + 256 * le_nat bs"

lemma from_le_bytes_eq: "from_le_bytes cs = of_nat (le_nat (map byte_of cs))"
  by (induction cs) simp_all

lemma le_nat_bias:
  "list_all is_digit cs \<Longrightarrow> le_nat (map byte_of cs) = le_nat (map (\<lambda>c. byte_of c - 48) cs) + le_nat (replicate (length cs) 48)"
  by (induction cs) (auto simp: is_digit_def)

lemma le_nat_bound: "list_all (\<lambda>b. b < 256) bs \<Longrightarrow> le_nat bs < 256 ^ length bs"
  by (induction bs) auto

lemma length_8_split: "length xs = 8 \<Longrightarrow> \<exists>a b c d e f g h. xs = [a, b, c, d, e, f, g, h]"
  by (auto simp: length_Suc_conv numeral_eq_Suc)

lemma unat_eight_digits:
  assumes "length chunk = 8" and "list_all is_digit chunk"
  shows "unat (eight_digits chunk) = dec_val 0 chunk"
proof -
  obtain a b c d e f g h where chunk: "chunk = [a, b, c, d, e, f, g, h]"
    using length_8_split [OF assms(1)] by blast
  let ?v = "\<lambda>c. byte_of c - 48"
  have digits: "?v x < 10" if "x \<in> set chunk" for x using assms(2) that by (auto simp: list_all_iff is_digit_def)
  let ?n = "le_nat (map ?v chunk)"
  have "?n < 256 ^ length (map ?v chunk)"
    by (rule le_nat_bound) (use digits in \<open>auto simp: list_all_iff dest!: digits\<close>)
  then have n: "?n < 2 ^ 64" by (simp add: assms(1))
  have "le_nat (replicate (length chunk) 48) = 0x3030303030303030" by (simp add: chunk)
  then have "from_le_bytes chunk = of_nat ?n + 0x3030303030303030"
    by (simp add: from_le_bytes_eq le_nat_bias [OF assms(2)])
  then have w: "unat (from_le_bytes chunk - 0x3030303030303030) = ?n" using n by (simp add: unat_of_nat)
  show ?thesis unfolding eight_digits_def
    using eight_digits_value [of "?v a" "?v b" "?v c" "?v d" "?v e" "?v f" "?v g" "?v h" "from_le_bytes chunk - 0x3030303030303030"]
      digits w by (simp add: chunk Let_def)
qed

lemma dec_val_bound: "list_all is_digit ds \<Longrightarrow> dec_val acc ds < (acc + 1) * 10 ^ length ds"
proof (induction ds arbitrary: acc)
  case (Cons d ds)
  then have "dec_val (acc * 10 + (byte_of d - 48)) ds < (acc * 10 + (byte_of d - 48) + 1) * 10 ^ length ds" by simp
  also have "\<dots> \<le> ((acc + 1) * 10) * 10 ^ length ds" using Cons.prems by (intro mult_right_mono) (auto simp: is_digit_def)
  finally show ?case by (simp add: algebra_simps)
qed simp

lemma dec_val_acc: "dec_val acc ds = acc * 10 ^ length ds + dec_val 0 ds"
proof (induction ds arbitrary: acc)
  case (Cons d ds)
  show ?case using Cons [of "acc * 10 + (byte_of d - 48)"] Cons [of "byte_of d - 48"] by (simp add: algebra_simps)
qed simp

lemma unat_digit_fold:
  "list_all is_digit ds \<Longrightarrow> (unat v + 1) * 10 ^ length ds \<le> 2 ^ 64 \<Longrightarrow>
     unat (foldl (\<lambda>v d. v * 10 + of_nat (byte_of d - 48)) v ds :: 64 word) = dec_val (unat v) ds"
proof (induction ds arbitrary: v)
  case (Cons d ds)
  have d: "byte_of d - 48 < 10" using Cons.prems by (auto simp: is_digit_def)
  have "(unat v + 1) * 10 \<le> (unat v + 1) * 10 ^ length (d # ds)" by (rule mult_le_mono2) simp
  then have le: "(unat v + 1) * 10 \<le> 2 ^ 64" using Cons.prems(2) by linarith
  then have v: "unat (v * 10 + of_nat (byte_of d - 48)) = unat v * 10 + (byte_of d - 48)"
    using d by (simp add: unat_word_ariths unat_of_nat)
  have "(unat v * 10 + (byte_of d - 48) + 1) * 10 ^ length ds \<le> ((unat v + 1) * 10) * 10 ^ length ds"
    using d by (intro mult_right_mono) auto
  then have "(unat v * 10 + (byte_of d - 48) + 1) * 10 ^ length ds \<le> 2 ^ 64" using Cons.prems(2) by (simp add: algebra_simps)
  then show ?case using Cons.IH [of "v * 10 + of_nat (byte_of d - 48)"] Cons.prems(1) v by simp
qed simp

lemma unat_decimal_from:
  "list_all is_digit ds \<Longrightarrow> (unat v + 1) * 10 ^ length ds \<le> 2 ^ 64 \<Longrightarrow> unat (decimal_from v ds) = dec_val (unat v) ds"
proof (induction v ds rule: decimal_from.induct)
  case (1 v ds)
  show ?case
  proof (cases "8 \<le> length ds")
    case False
    then show ?thesis using 1(2,3) by (subst decimal_from.simps) (simp add: unat_digit_fold)
  next
    case True
    define t r where "t = take 8 ds" and "r = drop 8 ds"
    have ds: "ds = t @ r" by (simp add: t_def r_def)
    have dig: "list_all is_digit t" "list_all is_digit r" using 1(2) by (simp_all add: ds)
    have len: "length t = 8" using True by (simp add: t_def)
    have e: "unat (eight_digits t) = dec_val 0 t" by (rule unat_eight_digits [OF len dig(1)])
    have lt: "dec_val 0 t < 100000000" using dec_val_bound [OF dig(1), of 0] len by simp
    have b: "((unat v + 1) * 100000000) * 10 ^ length r \<le> 2 ^ 64" using 1(3) len by (simp add: ds power_add algebra_simps)
    have "((unat v + 1) * 100000000) * 1 \<le> ((unat v + 1) * 100000000) * 10 ^ length r" by (rule mult_le_mono2) simp
    with b have "(unat v + 1) * 100000000 \<le> 2 ^ 64" by linarith
    then have v: "unat (v * 100000000 + eight_digits t) = unat v * 100000000 + dec_val 0 t"
      using lt e by (simp add: unat_word_ariths)
    have "(unat v * 100000000 + dec_val 0 t + 1) * 10 ^ length r \<le> ((unat v + 1) * 100000000) * 10 ^ length r"
      using lt by (intro mult_le_mono1) simp
    with b have "(unat (v * 100000000 + eight_digits t) + 1) * 10 ^ length r \<le> 2 ^ 64" unfolding v by linarith
    then have "unat (decimal_from (v * 100000000 + eight_digits t) r) = dec_val (unat v * 100000000 + dec_val 0 t) r"
      using 1(1) [OF True] dig(2) v by (simp only: t_def [symmetric] r_def [symmetric])
    also have "\<dots> = dec_val (dec_val (unat v) t) r" using dec_val_acc [of "unat v" t] len by simp
    also have "\<dots> = dec_val (unat v) ds" by (simp add: ds dec_val_append)
    finally have "unat (decimal_from (v * 100000000 + eight_digits (take 8 ds)) (drop 8 ds)) = dec_val (unat v) ds"
      by (simp only: t_def r_def)
    then show ?thesis using True by (subst decimal_from.simps) simp
  qed
qed

end
