(* ===== verification/Amalgam_Keys.thy ===== *)
theory Amalgam_Keys
  imports Amalgam_Wire
begin

text \<open>
  The keys of an operation (\<open>cache/physical_key.rs\<close>, \<open>cache/distributed_key.rs\<close> and the key helpers of
  \<open>cache.rs\<close>). A caller key is joined with the cache prefix, and the result with the distributed key
  modifier. Short keys are joined in a fixed buffer that is read back through \<open>str::from_utf8\<close>;
  \<open>None\<close> stands for the \<open>unreachable!\<close> of that reading. The lemmas show that the buffer and the heap
  give the same text, that the branch is indeed unreachable for strings, and that a physical key
  leads back to the logical key it was built from.
\<close>

section \<open>Physical keys\<close>

definition INLINE_KEY :: nat where
  "INLINE_KEY = 64"

datatype physical_key = KeyBorrowed string | KeyInline nat string | KeyOwned string

text \<open>\<open>copy_from_slice\<close> into the zeroed buffer: the two texts, then the remaining zeros.\<close>

definition physical_key_joined :: "string \<Rightarrow> string \<Rightarrow> physical_key" where
  "physical_key_joined first second =
     (let len = length first + length second in
      if INLINE_KEY < len then KeyOwned (first @ second)
      else let bytes = replicate INLINE_KEY (char_of (0::nat));
               bytes = first @ drop (length first) bytes;
               bytes = take (length first) bytes @ second @ drop len bytes
           in KeyInline len bytes)"

fun key_deref :: "physical_key \<Rightarrow> string option" where
  "key_deref (KeyBorrowed key) = Some key"
| "key_deref (KeyInline len bytes) = (if from_utf8 (take len bytes) then Some (take len bytes) else None)"
| "key_deref (KeyOwned key) = Some key"

fun key_into_owned :: "physical_key \<Rightarrow> string option" where
  "key_into_owned (KeyOwned key) = Some key"
| "key_into_owned key = key_deref key"

record key_parts =
  kp_prefix :: "string option"
  kp_raw :: string

definition KeyParts_new :: "string option \<Rightarrow> string \<Rightarrow> key_parts" where
  "KeyParts_new prefix raw = \<lparr>kp_prefix = (case prefix of Some p \<Rightarrow> if p = [] then None else Some p | None \<Rightarrow> None), kp_raw = raw\<rparr>"

definition parts_physical :: "key_parts \<Rightarrow> physical_key" where
  "parts_physical k = (case kp_prefix k of None \<Rightarrow> KeyBorrowed (kp_raw k) | Some prefix \<Rightarrow> physical_key_joined prefix (kp_raw k))"

definition parts_to_shared :: "key_parts \<Rightarrow> string option" where
  "parts_to_shared k = key_deref (parts_physical k)"

text \<open>\<open>Worker::full_key\<close>, the unconditional form of the same join.\<close>

definition full_key :: "string option \<Rightarrow> string \<Rightarrow> string" where
  "full_key prefix key = (case prefix of Some p \<Rightarrow> p @ key | None \<Rightarrow> key)"

section \<open>Distributed keys\<close>

datatype distributed_key = DK_Prefix string | DK_Suffix string | DK_Unmodified

definition DistributedKey_new :: "string \<Rightarrow> key_modifier_mode \<Rightarrow> distributed_key" where
  "DistributedKey_new version mode =
     (case mode of Prefix \<Rightarrow> DK_Prefix (version @ '':'') | Suffix \<Rightarrow> DK_Suffix ('':'' @ version) | NoModifier \<Rightarrow> DK_Unmodified)"

fun distributed_physical :: "distributed_key \<Rightarrow> string \<Rightarrow> physical_key" where
  "distributed_physical (DK_Prefix prefix) key = physical_key_joined prefix key"
| "distributed_physical (DK_Suffix suffix) key = physical_key_joined key suffix"
| "distributed_physical DK_Unmodified key = KeyBorrowed key"

definition strip_suffix :: "string \<Rightarrow> string \<Rightarrow> string option" where
  "strip_suffix suffix s = map_option List.rev (strip_prefix (List.rev suffix) (List.rev s))"

fun distributed_logical :: "distributed_key \<Rightarrow> string \<Rightarrow> string option" where
  "distributed_logical (DK_Prefix prefix) physical = strip_prefix prefix physical"
| "distributed_logical (DK_Suffix suffix) physical = strip_suffix suffix physical"
| "distributed_logical DK_Unmodified physical = Some physical"

definition l2_key :: "distributed_key \<Rightarrow> string \<Rightarrow> physical_key" where
  "l2_key dk key = distributed_physical dk key"

text \<open>\<open>CacheInner::logical_key\<close>: the key an incoming notification names, if it belongs to this cache.\<close>

definition logical_key :: "distributed_key \<Rightarrow> string option \<Rightarrow> string \<Rightarrow> string option" where
  "logical_key dk prefix physical =
     (case distributed_logical dk physical of
        None \<Rightarrow> None
      | Some key \<Rightarrow> if (case prefix of None \<Rightarrow> False | Some p \<Rightarrow> take (length p) key \<noteq> p) then None else Some key)"

section \<open>Joining\<close>

declare utf8_ok.simps(2) [simp del]

lemma utf8_ok_append: "utf8_ok xs \<Longrightarrow> utf8_ok (xs @ ys) = utf8_ok ys"
proof (induction xs rule: utf8_ok.induct)
  case (2 a rest)
  note tail = "2.IH" and ok = "2.prems" [unfolded utf8_ok.simps(2) [of a rest]]
  show ?case
  proof (cases "a < 128")
    case True
    then show ?thesis using ok tail(1) by (simp add: utf8_ok.simps(2) [of a])
  next
    case False
    then obtain b rest2 where r: "rest = b # rest2" using ok by (cases rest) auto
    show ?thesis
    proof (cases "194 \<le> a \<and> a \<le> 223")
      case True
      then show ?thesis using ok tail(2) [OF False r] \<open>\<not> a < 128\<close> by (simp add: r utf8_ok.simps(2) [of a])
    next
      case no2: False
      then obtain c rest3 where r2: "rest2 = c # rest3" using ok \<open>\<not> a < 128\<close> by (cases rest2) (auto simp: r)
      show ?thesis
      proof (cases "utf8_lead3 a b")
        case True
        then show ?thesis using ok tail(3) [OF False r no2 r2] \<open>\<not> a < 128\<close> no2 by (auto simp: r r2 utf8_ok.simps(2) [of a])
      next
        case no3: False
        then obtain d rest4 where r3: "rest3 = d # rest4" using ok \<open>\<not> a < 128\<close> no2 by (cases rest3) (auto simp: r r2)
        then show ?thesis using ok tail(4) [OF False r no2 r2 no3 r3] \<open>\<not> a < 128\<close> no2 no3 by (auto simp: r r2 utf8_ok.simps(2) [of a])
      qed
    qed
  qed
qed simp

lemma from_utf8_append: "from_utf8 a \<Longrightarrow> from_utf8 b \<Longrightarrow> from_utf8 (a @ b)"
  by (simp add: from_utf8_def utf8_ok_append)

lemma joined_text:
  assumes "from_utf8 a" "from_utf8 b"
  shows "key_deref (physical_key_joined a b) = Some (a @ b)" "key_into_owned (physical_key_joined a b) = Some (a @ b)"
  using from_utf8_append [OF assms] by (simp_all add: physical_key_joined_def Let_def)

lemma strip_suffix_append [simp]: "strip_suffix b (a @ b) = Some a"
  by (simp add: strip_suffix_def strip_prefix_def)

lemma from_utf8_colon: "from_utf8 '':''"
  by (simp add: from_utf8_def byte_of_def utf8_ok.simps(2))

definition modifier_text :: "string \<Rightarrow> key_modifier_mode \<Rightarrow> string \<Rightarrow> string" where
  "modifier_text version mode key = (case mode of Prefix \<Rightarrow> version @ '':'' @ key | Suffix \<Rightarrow> key @ '':'' @ version | NoModifier \<Rightarrow> key)"

lemma distributed_text_eq:
  assumes "from_utf8 version" "from_utf8 key"
  shows "key_deref (distributed_physical (DistributedKey_new version mode) key) = Some (modifier_text version mode key)"
  using joined_text(1) [OF from_utf8_append [OF assms(1) from_utf8_colon] assms(2)]
    joined_text(1) [OF assms(2) from_utf8_append [OF from_utf8_colon assms(1)]]
  by (cases mode) (simp_all add: DistributedKey_new_def modifier_text_def)

lemma distributed_logical_iff: "distributed_logical (DistributedKey_new version mode) p = Some key \<longleftrightarrow> p = modifier_text version mode key"
  by (cases mode) (auto simp: DistributedKey_new_def modifier_text_def strip_prefix_Some strip_suffix_def rev_swap)

lemma parts_text:
  assumes "pred_option from_utf8 prefix" "from_utf8 raw"
  shows "parts_to_shared (KeyParts_new prefix raw) = Some (full_key prefix raw)" "from_utf8 (full_key prefix raw)"
  using assms joined_text(1) [of "the prefix" raw] from_utf8_append
  by (auto simp: parts_to_shared_def parts_physical_def KeyParts_new_def full_key_def split: option.splits)

text \<open>
  Keys: for every prefix, caller key and version text, the joined key is the prefix followed by
  the caller key whether it was built inline or on the heap (the reading of the inline buffer never
  fails), different caller keys give different physical keys, and a physical key taken from a
  notification is mapped to exactly the key of this cache that it was built from: one that does not
  carry the version and the prefix of the cache is refused.
\<close>
theorem physical_keys_faithful:
  assumes "from_utf8 version" and "pred_option from_utf8 prefix" and "from_utf8 raw"
  shows "parts_to_shared (KeyParts_new prefix raw) = Some (full_key prefix raw)
    \<and> (\<exists>p. key_deref (l2_key (DistributedKey_new version mode) (full_key prefix raw)) = Some p
        \<and> key_into_owned (l2_key (DistributedKey_new version mode) (full_key prefix raw)) = Some p
        \<and> (\<forall>other. logical_key (DistributedKey_new version mode) prefix p = Some other \<longleftrightarrow> other = full_key prefix raw)
        \<and> (\<forall>raw'. from_utf8 raw' \<and> key_deref (l2_key (DistributedKey_new version mode) (full_key prefix raw')) = Some p \<longrightarrow> raw' = raw))
    \<and> (\<forall>foreign key. logical_key (DistributedKey_new version mode) prefix foreign = Some key \<longrightarrow>
         foreign = modifier_text version mode key \<and> (\<exists>r. key = full_key prefix r))"
proof -
  let ?dk = "DistributedKey_new version mode"
  have phys: "key_deref (l2_key ?dk (full_key prefix r)) = Some (modifier_text version mode (full_key prefix r))" if "from_utf8 r" for r
    using distributed_text_eq [OF assms(1) parts_text(2) [OF assms(2) that]] by (simp add: l2_key_def)
  have owned: "key_into_owned k = key_deref k" for k by (cases k) simp_all
  have inj: "modifier_text version mode a = modifier_text version mode b \<Longrightarrow> a = b" for a b
    by (cases mode) (simp_all add: modifier_text_def)
  have pre: "full_key prefix a = full_key prefix b \<Longrightarrow> a = b" for a b by (cases prefix) (simp_all add: full_key_def)
  have own: "(\<exists>r. key = full_key prefix r) \<longleftrightarrow> \<not> (case prefix of None \<Rightarrow> False | Some p \<Rightarrow> take (length p) key \<noteq> p)" for key
  proof (cases prefix)
    case (Some p)
    have "take (length p) key = p \<Longrightarrow> key = p @ drop (length p) key" by (metis append_take_drop_id)
    then show ?thesis unfolding Some by (auto simp: full_key_def)
  qed (simp add: full_key_def)
  have logical: "logical_key ?dk prefix f = Some key \<longleftrightarrow> f = modifier_text version mode key \<and> (\<exists>r. key = full_key prefix r)" for f key
  proof -
    have "logical_key ?dk prefix f = Some key \<longleftrightarrow> distributed_logical ?dk f = Some key \<and> (\<exists>r. key = full_key prefix r)"
      using own by (auto simp: logical_key_def split: option.splits)
    then show ?thesis by (simp add: distributed_logical_iff)
  qed
  let ?p = "modifier_text version mode (full_key prefix raw)"
  have "key_deref (l2_key ?dk (full_key prefix raw)) = Some ?p" "key_into_owned (l2_key ?dk (full_key prefix raw)) = Some ?p"
    using phys [OF assms(3)] by (simp_all add: owned)
  moreover have "logical_key ?dk prefix ?p = Some other \<longleftrightarrow> other = full_key prefix raw" for other
    unfolding logical using inj by auto
  moreover have "r = raw" if "from_utf8 r" "key_deref (l2_key ?dk (full_key prefix r)) = Some ?p" for r
  proof -
    have "modifier_text version mode (full_key prefix r) = ?p" using phys [OF that(1)] that(2) by simp
    then show ?thesis by (rule pre [OF inj])
  qed
  moreover have "foreign = modifier_text version mode key \<and> (\<exists>r. key = full_key prefix r)"
    if "logical_key ?dk prefix foreign = Some key" for foreign key using that unfolding logical .
  ultimately show ?thesis using parts_text(1) [OF assms(2,3)] by blast
qed

theorem physical_keys_faithful_witness:
  "parts_to_shared (KeyParts_new (Some ''app:'') ''k'') = Some ''app:k''
    \<and> logical_key (DistributedKey_new ''v2'' Prefix) (Some ''app:'') ''v2:app:k'' = Some ''app:k''"
proof -
  have "from_utf8 ''v2''" "pred_option from_utf8 (Some ''app:'')" "from_utf8 ''k''"
    by (simp_all add: from_utf8_def byte_of_def utf8_ok.simps(2))
  from physical_keys_faithful [OF this, of Prefix] obtain p where
    "parts_to_shared (KeyParts_new (Some ''app:'') ''k'') = Some (full_key (Some ''app:'') ''k'')"
    "key_deref (l2_key (DistributedKey_new ''v2'' Prefix) (full_key (Some ''app:'') ''k'')) = Some p"
    "logical_key (DistributedKey_new ''v2'' Prefix) (Some ''app:'') p = Some (full_key (Some ''app:'') ''k'')" by blast
  moreover have "key_deref (l2_key (DistributedKey_new ''v2'' Prefix) (full_key (Some ''app:'') ''k'')) = Some ''v2:app:k''"
    using distributed_text_eq [of "''v2''" "''app:k''" Prefix]
    by (simp add: l2_key_def full_key_def modifier_text_def from_utf8_def byte_of_def utf8_ok.simps(2))
  ultimately show ?thesis by (simp add: full_key_def)
qed

end
