(* ===== verification/Amalgam_Origins.thy ===== *)
theory Amalgam_Origins
  imports Amalgam_Prelude
begin

text \<open>
  Active origin revisions, \<open>src/memory/origin.rs\<close>. A factory that may later write a key first
  captures the key's revision; every explicit mutation of the key advances it, so that the late
  write of a superseded factory can be refused. Revision counters are shared objects: a
  \<open>revision_heap\<close> holds the counter and the number of strong references per address, and
  \<open>Weak::upgrade\<close> succeeds while that number is positive. The lemmas keep the registration of
  every outstanding snapshot exact, so that no mutation between capture and commit is missed.
\<close>

record revision_heap =
  rh_value :: "nat \<Rightarrow> nat"
  rh_strong :: "nat \<Rightarrow> nat"
  rh_fresh :: nat

definition revision_heap_empty :: revision_heap where
  "revision_heap_empty = \<lparr>rh_value = (\<lambda>r. 0), rh_strong = (\<lambda>r. 0), rh_fresh = 0\<rparr>"

definition upgrade :: "revision_heap \<Rightarrow> nat \<Rightarrow> nat option" where
  "upgrade h r = (if 0 < rh_strong h r then Some r else None)"

text \<open>\<open>Arc::clone\<close>, and dropping a strong reference.\<close>

definition retain_rev :: "nat \<Rightarrow> revision_heap \<Rightarrow> revision_heap" where
  "retain_rev r h = h\<lparr>rh_strong := (rh_strong h)(r := rh_strong h r + 1)\<rparr>"

definition release_rev :: "nat \<Rightarrow> revision_heap \<Rightarrow> revision_heap" where
  "release_rev r h = h\<lparr>rh_strong := (rh_strong h)(r := rh_strong h r - 1)\<rparr>"

definition Revision_current :: "revision_heap \<Rightarrow> nat \<Rightarrow> nat" where
  "Revision_current h r = rh_value h r"

definition Revision_advance :: "nat \<Rightarrow> revision_heap \<Rightarrow> revision_heap" where
  "Revision_advance r h =
     h\<lparr>rh_value := (rh_value h)(r := saturating_add_u64 (Revision_current h r) 1)\<rparr>"

record active_revision =
  ar_revision :: nat
  ar_snapshots :: nat

record origins =
  og_active :: "(string, active_revision) hmap"

definition Origins_default :: origins where
  "Origins_default = \<lparr>og_active = []\<rparr>"

datatype origin_error = GenerationExhausted

definition active_upgrade :: "origins \<Rightarrow> revision_heap \<Rightarrow> string \<Rightarrow> nat option" where
  "active_upgrade og h key = (case hm_get (og_active og) key of
     None \<Rightarrow> None | Some active \<Rightarrow> upgrade h (ar_revision active))"

definition origins_register :: "string \<Rightarrow> nat \<Rightarrow> origins \<Rightarrow> origins" where
  "origins_register key revision og = (case hm_get (og_active og) key of
     Some active \<Rightarrow>
       if ar_revision active = revision
       then og\<lparr>og_active := hm_insert key (active\<lparr>ar_snapshots := ar_snapshots active + 1\<rparr>) (og_active og)\<rparr>
       else og\<lparr>og_active := hm_insert key \<lparr>ar_revision = revision, ar_snapshots = 1\<rparr> (og_active og)\<rparr>
   | None \<Rightarrow> og\<lparr>og_active := hm_insert key \<lparr>ar_revision = revision, ar_snapshots = 1\<rparr> (og_active og)\<rparr>)"

text \<open>
  The result of a capture is the revision (one more strong reference to it) and its value.
\<close>

definition select_revision ::
  "string \<Rightarrow> nat option \<Rightarrow> origins \<Rightarrow> revision_heap \<Rightarrow> nat \<times> revision_heap" where
  "select_revision key provided og h = (case active_upgrade og h key of
     Some revision \<Rightarrow> (revision, h)
   | None \<Rightarrow> (case provided of
       Some p \<Rightarrow> (p, h)
     | None \<Rightarrow> (rh_fresh h, h\<lparr>rh_value := (rh_value h)(rh_fresh h := 1),
                              rh_fresh := rh_fresh h + 1\<rparr>)))"

definition capture_from ::
  "string \<Rightarrow> nat option \<Rightarrow> origins \<times> revision_heap
     \<Rightarrow> origin_error + (origins \<times> revision_heap) \<times> nat \<times> nat" where
  "capture_from key provided s = (case s of (og, h) \<Rightarrow>
     let (revision, h1) = select_revision key provided og h;
         captured = Revision_current h1 revision
     in if captured = u64_max then Inl GenerationExhausted
        else Inr ((origins_register key revision og, retain_rev revision h1), revision, captured))"

definition origins_advance :: "string \<Rightarrow> origins \<times> revision_heap \<Rightarrow> origins \<times> revision_heap" where
  "origins_advance key s = (case s of (og, h) \<Rightarrow>
     if og_active og = [] then (og, h)
     else case active_upgrade og h key of
       Some revision \<Rightarrow> (og, Revision_advance revision h)
     | None \<Rightarrow> (og, h))"

definition origins_forget :: "string \<Rightarrow> nat \<Rightarrow> origins \<Rightarrow> origins" where
  "origins_forget key revision og = (case hm_get (og_active og) key of
     Some active \<Rightarrow>
       if ar_revision active = revision
       then if ar_snapshots active - 1 = 0
            then og\<lparr>og_active := hm_remove key (og_active og)\<rparr>
            else og\<lparr>og_active := hm_insert key
                     (active\<lparr>ar_snapshots := ar_snapshots active - 1\<rparr>) (og_active og)\<rparr>
       else og
   | None \<Rightarrow> og)"

record revision_snapshot =
  rs_revision :: nat
  rs_captured :: nat
  rs_generation :: nat

definition RevisionSnapshot_new :: "nat \<Rightarrow> nat \<Rightarrow> nat \<Rightarrow> revision_snapshot" where
  "RevisionSnapshot_new revision captured generation =
     \<lparr>rs_revision = revision, rs_captured = captured, rs_generation = generation\<rparr>"

definition snapshot_matches :: "revision_heap \<Rightarrow> nat \<Rightarrow> revision_snapshot \<Rightarrow> bool" where
  "snapshot_matches h generation s \<longleftrightarrow>
     generation \<noteq> u64_max \<and> rs_generation s = generation
   \<and> Revision_current h (rs_revision s) = rs_captured s"

text \<open>Dropping a \<open>MemoryOrigin\<close>: its registration goes first, then its reference.\<close>

definition origin_drop ::
  "string \<Rightarrow> nat \<Rightarrow> origins \<times> revision_heap \<Rightarrow> origins \<times> revision_heap" where
  "origin_drop key revision s = (case s of (og, h) \<Rightarrow>
     (origins_forget key revision og, release_rev revision h))"

section \<open>Outstanding snapshots\<close>

text \<open>
  The registration invariant relative to the outstanding captures (key and revision of each
  \<open>MemoryOrigin\<close> not dropped yet).
\<close>

definition origins_ok :: "(string \<times> nat) list \<Rightarrow> origins \<times> revision_heap \<Rightarrow> bool" where
  "origins_ok outs s \<longleftrightarrow> (case s of (og, h) \<Rightarrow>
     hm_ok (og_active og)
   \<and> (\<forall>k ar. hm_get (og_active og) k = Some ar \<longrightarrow>
        count_list outs (k, ar_revision ar) = ar_snapshots ar \<and> 0 < ar_snapshots ar)
   \<and> (\<forall>k r. (k, r) \<in> set outs \<longrightarrow> (\<exists>ar. hm_get (og_active og) k = Some ar \<and> ar_revision ar = r))
   \<and> (\<forall>r. length (filter (\<lambda>(k, r'). r' = r) outs) \<le> rh_strong h r)
   \<and> (\<forall>k r. (k, r) \<in> set outs \<longrightarrow> r < rh_fresh h))"

lemma origins_okI:
  assumes "hm_ok (og_active og)"
    and "\<And>k ar. hm_get (og_active og) k = Some ar \<Longrightarrow>
      count_list outs (k, ar_revision ar) = ar_snapshots ar \<and> 0 < ar_snapshots ar"
    and "\<And>k r. (k, r) \<in> set outs \<Longrightarrow> \<exists>ar. hm_get (og_active og) k = Some ar \<and> ar_revision ar = r"
    and "\<And>r. length (filter (\<lambda>(k, r'). r' = r) outs) \<le> rh_strong h r"
    and "\<And>k r. (k, r) \<in> set outs \<Longrightarrow> r < rh_fresh h"
  shows "origins_ok outs (og, h)"
  using assms by (simp add: origins_ok_def)

lemma origins_okD:
  assumes "origins_ok outs (og, h)"
  shows "hm_ok (og_active og)"
    and "hm_get (og_active og) k = Some ar \<Longrightarrow> count_list outs (k, ar_revision ar) = ar_snapshots ar"
    and "hm_get (og_active og) k = Some ar \<Longrightarrow> 0 < ar_snapshots ar"
    and "(k, r) \<in> set outs \<Longrightarrow> \<exists>ar. hm_get (og_active og) k = Some ar \<and> ar_revision ar = r"
    and "length (filter (\<lambda>(k, r'). r' = r) outs) \<le> rh_strong h r"
    and "(k, r) \<in> set outs \<Longrightarrow> r < rh_fresh h"
  using assms unfolding origins_ok_def by (blast | metis old.prod.case)+

lemma origins_ok_empty: "origins_ok [] (Origins_default, h)"
  by (rule origins_okI) (simp_all add: Origins_default_def)

lemma origins_ok_frame:
  "origins_ok outs (og, h) \<Longrightarrow> rh_strong h' = rh_strong h \<Longrightarrow> rh_fresh h' = rh_fresh h \<Longrightarrow>
     origins_ok outs (og, h')"
  by (simp add: origins_ok_def)

lemma origins_ok_active:
  assumes "origins_ok outs (og, h)" and "(k, r) \<in> set outs"
  shows "active_upgrade og h k = Some r" and "og_active og \<noteq> []"
proof -
  from origins_okD(4) [OF assms] obtain ar where ar: "hm_get (og_active og) k = Some ar" "ar_revision ar = r"
    by blast
  have "(k, r) \<in> set (filter (\<lambda>(k, r'). r' = r) outs)" using assms(2) by simp
  then have "0 < length (filter (\<lambda>(k, r'). r' = r) outs)" by (rule length_pos_if_in_set)
  also have "\<dots> \<le> rh_strong h r" using origins_okD(5) [OF assms(1)] .
  finally show "active_upgrade og h k = Some r" using ar by (simp add: active_upgrade_def upgrade_def)
  show "og_active og \<noteq> []" using ar by auto
qed

lemma origins_ok_registered:
  assumes "origins_ok outs (og, h)" and "hm_get (og_active og) k = Some ar"
  shows "(k, ar_revision ar) \<in> set outs"
  using origins_okD(2,3) [OF assms] count_notin [of "(k, ar_revision ar)" outs] by fastforce

lemma rh_value_advance:
  "rh_value (snd (origins_advance k (og, h))) r =
     (if og_active og \<noteq> [] \<and> active_upgrade og h k = Some r then min (rh_value h r + 1) u64_max
      else rh_value h r)"
  by (auto simp: origins_advance_def Revision_advance_def Revision_current_def saturating_add_u64_def
      split: option.splits)

lemma origins_advance_frame:
  "fst (origins_advance k (og, h)) = og" "rh_strong (snd (origins_advance k (og, h))) = rh_strong h"
  "rh_fresh (snd (origins_advance k (og, h))) = rh_fresh h"
  by (simp_all add: origins_advance_def Revision_advance_def split: option.splits)

lemma origins_ok_advance: "origins_ok outs s \<Longrightarrow> origins_ok outs (origins_advance k s)"
  by (cases s, cases "origins_advance k s")
    (metis fst_conv snd_conv origins_advance_frame origins_ok_frame)

lemma capture_from_Inr:
  assumes "capture_from k provided (og, h) = Inr (s', r, c)" and "\<forall>p. provided = Some p \<longrightarrow> p < rh_fresh h"
    and "\<forall>r. active_upgrade og h k = Some r \<longrightarrow> r < rh_fresh h"
  obtains h1 where "s' = (origins_register k r og, retain_rev r h1)" and "rh_strong h1 = rh_strong h"
    and "c = rh_value h1 r" and "c \<noteq> u64_max" and "\<And>r'. r' < rh_fresh h \<Longrightarrow> rh_value h1 r' = rh_value h r'"
    and "active_upgrade og h k = None \<or> active_upgrade og h k = Some r"
    and "r < rh_fresh h1" and "rh_fresh h \<le> rh_fresh h1"
    and "\<And>x. rh_value h1 x = rh_value h x \<or> rh_value h1 x = 1"
proof
  obtain r' h1 where sel: "select_revision k provided og h = (r', h1)"
    by (cases "select_revision k provided og h")
  note * = assms(1) [unfolded capture_from_def sel Let_def prod.case Revision_current_def]
  note d = sel [unfolded select_revision_def]
  from * have r: "r' = r" by (simp split: if_splits)
  let ?h = "snd (select_revision k provided og h)"
  show "s' = (origins_register k r og, retain_rev r ?h)" "c = rh_value ?h r" "c \<noteq> u64_max"
    using * by (auto simp: sel split: if_splits)
  show "rh_strong ?h = rh_strong h" "rh_fresh h \<le> rh_fresh ?h"
    "\<And>r'. r' < rh_fresh h \<Longrightarrow> rh_value ?h r' = rh_value h r'"
    "\<And>x. rh_value ?h x = rh_value h x \<or> rh_value ?h x = 1"
    by (auto simp: select_revision_def split: option.splits)
  show "r < rh_fresh ?h" "active_upgrade og h k = None \<or> active_upgrade og h k = Some r"
    using assms(2,3) d by (auto simp: sel r split: option.splits)
qed

lemma origins_ok_upgrade_fresh:
  assumes "origins_ok outs (og, h)" and "active_upgrade og h k = Some r"
  shows "r < rh_fresh h"
proof -
  from assms(2) obtain ar where "hm_get (og_active og) k = Some ar" "ar_revision ar = r"
    by (auto simp: active_upgrade_def upgrade_def split: option.splits if_splits)
  then show ?thesis using origins_ok_registered [OF assms(1)] origins_okD(6) [OF assms(1)] by blast
qed

lemma origins_ok_capture:
  assumes ok: "origins_ok outs (og, h)" and cap: "capture_from k provided (og, h) = Inr (s', r, c)"
    and prov: "\<forall>p. provided = Some p \<longrightarrow> p < rh_fresh h"
  shows "origins_ok ((k, r) # outs) s'"
proof -
  from capture_from_Inr [OF cap prov] origins_ok_upgrade_fresh [OF ok]
  obtain h1 where s': "s' = (origins_register k r og, retain_rev r h1)"
    and strong: "rh_strong h1 = rh_strong h"
    and r: "active_upgrade og h k = None \<or> active_upgrade og h k = Some r"
    and fresh: "r < rh_fresh h1" "rh_fresh h \<le> rh_fresh h1"
    by blast
  have strong_ok: "length (filter (\<lambda>(k, r'). r' = x) ((k, r) # outs)) \<le> rh_strong (retain_rev r h1) x" for x
    using origins_okD(5) [OF ok, of x] by (auto simp: retain_rev_def strong)
  have same: "ar_revision ar = r" if "hm_get (og_active og) k = Some ar" for ar
    using origins_ok_active(1) [OF ok origins_ok_registered [OF ok that]] r by simp
  have absent: "count_list outs (k, x) = 0" if "hm_get (og_active og) k = None" for x
    using origins_okD(4) [OF ok, of k x] that count_notin [of "(k, x)" outs] by fastforce
  let ?og = "origins_register k r og"
  have get: "hm_get (og_active ?og) k' = (if k' = k then Some \<lparr>ar_revision = r,
      ar_snapshots = Suc (count_list outs (k, r))\<rparr> else hm_get (og_active og) k')" for k'
    using same absent origins_okD(2) [OF ok, of k]
    by (cases "hm_get (og_active og) k") (auto simp: origins_register_def hmap_simps)
  show ?thesis unfolding s'
  proof (rule origins_okI)
    show "hm_ok (og_active ?og)"
      using origins_okD(1) [OF ok] by (simp add: origins_register_def split: option.splits)
    show "count_list ((k, r) # outs) (k', ar_revision ar) = ar_snapshots ar \<and> 0 < ar_snapshots ar"
      if "hm_get (og_active ?og) k' = Some ar" for k' ar
      using that origins_okD(2,3) [OF ok, of k' ar] by (auto simp: get split: if_splits)
    show "\<exists>ar. hm_get (og_active ?og) k' = Some ar \<and> ar_revision ar = r'"
      if "(k', r') \<in> set ((k, r) # outs)" for k' r'
      using that origins_okD(4) [OF ok, of k' r'] same by (auto simp: get)
    show "r' < rh_fresh (retain_rev r h1)" if "(k', r') \<in> set ((k, r) # outs)" for k' r'
      using that fresh origins_okD(6) [OF ok, of k' r'] by (auto simp: retain_rev_def)
  qed (rule strong_ok)
qed

lemma length_filter_remove1:
  "x \<in> set xs \<Longrightarrow> length (filter P (remove1 x xs)) = length (filter P xs) - (if P x then 1 else 0)"
  by (simp add: filter_remove1 length_remove1)

lemma count_list_remove1:
  "count_list (remove1 x xs) y = count_list xs y - (if x = y then 1 else 0)"
  by (induction xs) auto

lemma origins_ok_drop:
  assumes ok: "origins_ok outs (og, h)" and mem: "(k, r) \<in> set outs"
  shows "origins_ok (remove1 (k, r) outs) (origin_drop k r (og, h))"
proof -
  let ?outs = "remove1 (k, r) outs" and ?og = "origins_forget k r og"
  from origins_okD(4) [OF assms] obtain ar where ar: "hm_get (og_active og) k = Some ar" "ar_revision ar = r"
    by blast
  have n: "ar_snapshots ar = count_list outs (k, r)" "0 < ar_snapshots ar"
    using origins_okD(2,3) [OF ok ar(1)] ar(2) by simp_all
  have cnt: "count_list ?outs (k, r) = ar_snapshots ar - 1" by (simp add: count_list_remove1 n)
  have get: "hm_get (og_active ?og) k' = (if k' = k then
      (if count_list ?outs (k, r) = 0 then None else Some (ar\<lparr>ar_snapshots := count_list ?outs (k, r)\<rparr>))
      else hm_get (og_active og) k')" for k'
    using n unfolding cnt by (simp add: origins_forget_def ar hmap_simps)
  have strong: "length (filter (\<lambda>(k, r'). r' = x) ?outs) \<le> rh_strong (release_rev r h) x" for x
    using origins_okD(5) [OF ok, of x] mem
    by (auto simp: length_filter_remove1 release_rev_def intro: diff_le_mono)
  show ?thesis unfolding origin_drop_def prod.case
  proof (rule origins_okI)
    show "hm_ok (og_active ?og)"
      using origins_okD(1) [OF ok] by (simp add: origins_forget_def split: option.splits)
    show "count_list ?outs (k', ar_revision a) = ar_snapshots a \<and> 0 < ar_snapshots a"
      if "hm_get (og_active ?og) k' = Some a" for k' a
      using that origins_okD(2,3) [OF ok, of k' a] ar(2)
      by (auto simp: get count_list_remove1 split: if_splits)
    show "\<exists>a. hm_get (og_active ?og) k' = Some a \<and> ar_revision a = r'"
      if "(k', r') \<in> set ?outs" for k' r'
    proof -
      have "(k', r') \<in> set outs" using that set_remove1_subset by fastforce
      then obtain a where a: "hm_get (og_active og) k' = Some a" "ar_revision a = r'"
        using origins_okD(4) [OF ok] by blast
      moreover have "count_list ?outs (k', r') \<noteq> 0" using that by (metis count_list_0_iff)
      ultimately show ?thesis using ar by (auto simp: get)
    qed
    show "r' < rh_fresh (release_rev r h)" if "(k', r') \<in> set ?outs" for k' r'
      using that set_remove1_subset origins_okD(6) [OF ok, of k' r'] by (fastforce simp: release_rev_def)
  qed (rule strong)
qed

end
