(* ===== verification/Amalgam_Memory.thy ===== *)
theory Amalgam_Memory
  imports Amalgam_Entry Amalgam_Origins "HOL-Library.Product_Lexorder" "HOL-Library.Multiset"
begin

text \<open>
  The bounded in-memory store: the \<open>Retention\<close> backend of \<open>src/memory.rs\<close> with the operations
  \<open>MemoryStore\<close> performs on it under its lock, and the prepared deadlines of
  \<open>src/memory/deadlines.rs\<close>. An \<open>Arc\<close> handle to an entry is its address with the entry, so
  that \<open>is_same_instance\<close> is equality of addresses. The arguments \<open>ep\<close> (continuity counters) and
  \<open>inow\<close> (\<open>Instant::now()\<close>) are the shared state an operation reads. Weights and access tickets
  are natural numbers; the store's weight is proved to be the sum over its entries, so the
  subtractions of the code never underflow. The lemmas show that limits are never exceeded,
  which entries an admission may evict, what every operation does to every key, and that the
  write of a superseded factory is refused.
\<close>

section \<open>Handles and limits\<close>

record 'v arc =
  arc_addr :: nat
  arc_entry :: "'v entry"

definition is_same_instance :: "'v arc \<Rightarrow> 'v arc \<Rightarrow> bool" where
  "is_same_instance a b \<longleftrightarrow> arc_addr a = arc_addr b"

record memory_limits =
  lim_entries :: "nat option"
  lim_weight :: "nat option"

definition MemoryLimits_new :: "nat option \<Rightarrow> nat option \<Rightarrow> memory_limits" where
  "MemoryLimits_new es w = \<lparr>lim_entries = es, lim_weight = w\<rparr>"

definition limits_fits :: "memory_limits \<Rightarrow> nat \<Rightarrow> nat \<Rightarrow> bool" where
  "limits_fits l entries weight \<longleftrightarrow>
     (case lim_entries l of None \<Rightarrow> True | Some limit \<Rightarrow> entries \<le> limit)
   \<and> (case lim_weight l of None \<Rightarrow> True | Some limit \<Rightarrow> weight \<le> limit)"

datatype memory_expiry = ClockDriven | RealTime

datatype capacity_rejection =
    Oversized | ProtectedCapacity | PhysicallyExpired | VersionChanged | RejectedGenerationExhausted

datatype memory_admission = Admitted | ReplacedEntry | RejectedAdmission capacity_rejection

record memory_usage =
  usage_entries :: nat
  usage_weight :: nat

datatype memory_write_event = SetEvent | ExpireEvent

datatype capture_admission = Armed | Unarmed

datatype retirement_reason =
    Explicit | ReplacedBy | Expired | Capacity | Eligibility | Continuity | Metadata

datatype memory_eviction_reason = RemovedFact | ReplacedFact | ExpiredFact | CapacityFact

fun retirement_fact :: "retirement_reason \<Rightarrow> memory_eviction_reason option" where
  "retirement_fact Explicit = Some RemovedFact"
| "retirement_fact Eligibility = Some RemovedFact"
| "retirement_fact Continuity = Some RemovedFact"
| "retirement_fact ReplacedBy = Some ReplacedFact"
| "retirement_fact Expired = Some ExpiredFact"
| "retirement_fact Capacity = Some CapacityFact"
| "retirement_fact Metadata = None"

fun retirement_logical :: "retirement_reason \<Rightarrow> bool" where
  "retirement_logical Expired = True"
| "retirement_logical Capacity = True"
| "retirement_logical Eligibility = True"
| "retirement_logical _ = False"

section \<open>Stored entries\<close>

record 'v stored =
  st_entry :: "'v arc"
  st_access :: nat
  st_monotonic_expiration :: "instant option"
  st_capture :: capture_admission

record 'v retirement =
  ret_key :: string
  ret_entry :: "'v arc"
  ret_reason :: retirement_reason
  ret_capture :: capture_admission

definition stored_retirement_reason ::
  "(nat \<Rightarrow> nat) \<Rightarrow> instant \<Rightarrow> timestamp option \<Rightarrow> 'v stored \<Rightarrow> retirement_reason option" where
  "stored_retirement_reason ep inow now s =
     (if \<not> is_read_eligible ep (arc_entry (st_entry s)) then Some Eligibility
      else if (case now of None \<Rightarrow> False | Some t \<Rightarrow> is_physically_expired t (arc_entry (st_entry s)))
          \<or> (case st_monotonic_expiration s of None \<Rightarrow> False | Some deadline \<Rightarrow> deadline \<le> inow)
      then Some Expired else None)"

definition stored_retire :: "string \<Rightarrow> retirement_reason \<Rightarrow> 'v stored \<Rightarrow> 'v retirement" where
  "stored_retire key reason s = \<lparr>ret_key = key, ret_entry = st_entry s, ret_reason = reason,
     ret_capture = st_capture s\<rparr>"

definition arc_weight :: "'v arc \<Rightarrow> nat" where
  "arc_weight a = (case meta_size (en_meta (arc_entry a)) of None \<Rightarrow> 1 | Some w \<Rightarrow> units w)"

abbreviation stored_weight :: "'v stored \<Rightarrow> nat" where
  "stored_weight s \<equiv> arc_weight (st_entry s)"

abbreviation stored_priority_of :: "'v stored \<Rightarrow> priority" where
  "stored_priority_of s \<equiv> meta_priority (en_meta (arc_entry (st_entry s)))"

datatype 'v memory_read = Present "'v arc" | Absent | ExpiredRead "'v retirement"

datatype 'v expected =
    ExpectAny | ExpectAbsent | ExpectSame "'v arc" | Mutation | MutationOf "'v arc"
  | ExpectOrigin revision_snapshot

record 'v retention =
  rt_origins :: origins
  rt_heap :: revision_heap
  rt_generation :: nat
  rt_entries :: "(string, 'v stored) hmap"
  rt_weight :: nat
  rt_next_access :: nat
  rt_limits :: memory_limits
  rt_expiry :: memory_expiry

definition Retention_new :: "memory_limits \<Rightarrow> memory_expiry \<Rightarrow> 'v retention" where
  "Retention_new limits expiry = \<lparr>rt_origins = Origins_default, rt_heap = revision_heap_empty,
     rt_generation = 1, rt_entries = [], rt_weight = 0, rt_next_access = 0, rt_limits = limits,
     rt_expiry = expiry\<rparr>"

section \<open>Operations of the backend\<close>

definition ticket :: "'v retention \<Rightarrow> 'v retention \<times> nat" where
  "ticket r = (let t = saturating_add_u128 (rt_next_access r) 1 in (r\<lparr>rt_next_access := t\<rparr>, t))"

definition retention_get ::
  "(nat \<Rightarrow> nat) \<Rightarrow> instant \<Rightarrow> string \<Rightarrow> timestamp option \<Rightarrow> 'v retention \<Rightarrow> 'v retention \<times> 'v memory_read" where
  "retention_get ep inow key now r = (case hm_get (rt_entries r) key of
     Some s \<Rightarrow> (case stored_retirement_reason ep inow now s of
         Some reason \<Rightarrow> (r\<lparr>rt_entries := hm_remove key (rt_entries r),
                           rt_weight := rt_weight r - stored_weight s\<rparr>,
                         ExpiredRead (stored_retire key reason s))
       | None \<Rightarrow> (let (r1, t) = ticket r
                 in (r1\<lparr>rt_entries := hm_insert key (s\<lparr>st_access := t\<rparr>) (rt_entries r1)\<rparr>,
                     Present (st_entry s))))
   | None \<Rightarrow> (fst (ticket r), Absent))"

definition retention_remove :: "string \<Rightarrow> 'v retention \<Rightarrow> 'v retention \<times> 'v stored option" where
  "retention_remove key r = (case hm_get (rt_entries r) key of
     None \<Rightarrow> (r, None)
   | Some s \<Rightarrow> (r\<lparr>rt_entries := hm_remove key (rt_entries r),
                 rt_weight := rt_weight r - stored_weight s\<rparr>, Some s))"

text \<open>Removing a list of keys, collecting a retirement for each one present.\<close>

fun retire_keys ::
  "('v stored \<Rightarrow> retirement_reason) \<Rightarrow> string list \<Rightarrow> 'v retention \<Rightarrow> 'v retention \<times> 'v retirement list" where
  "retire_keys reason [] r = (r, [])"
| "retire_keys reason (k # ks) r = (case retention_remove k r of
     (r1, None) \<Rightarrow> retire_keys reason ks r1
   | (r1, Some s) \<Rightarrow> (let (r2, rs) = retire_keys reason ks r1
                      in (r2, stored_retire k (reason s) s # rs)))"

definition remove_expired ::
  "(nat \<Rightarrow> nat) \<Rightarrow> instant \<Rightarrow> timestamp option \<Rightarrow> 'v retention \<Rightarrow> 'v retention \<times> 'v retirement list" where
  "remove_expired ep inow now r =
     (let expired = map fst (filter (\<lambda>(k, s). stored_retirement_reason ep inow now s \<noteq> None) (rt_entries r))
      in retire_keys (\<lambda>s. case stored_retirement_reason ep inow now s of
           Some reason \<Rightarrow> reason | None \<Rightarrow> Expired) expired r)"

record projected_capacity =
  pc_entries :: nat
  pc_weight :: nat

definition pc_fits :: "memory_limits \<Rightarrow> projected_capacity \<Rightarrow> bool" where
  "pc_fits limits p = limits_fits limits (pc_entries p) (pc_weight p)"

definition projection :: "string \<Rightarrow> nat \<Rightarrow> 'v retention \<Rightarrow> projected_capacity" where
  "projection key weight r = (let current = hm_get (rt_entries r) key in
     \<lparr>pc_entries = length (rt_entries r) + (if current = None then 1 else 0),
      pc_weight = rt_weight r - (case current of None \<Rightarrow> 0 | Some s \<Rightarrow> stored_weight s) + weight\<rparr>)"

definition expire_under_pressure ::
  "(nat \<Rightarrow> nat) \<Rightarrow> instant \<Rightarrow> string \<Rightarrow> nat \<Rightarrow> timestamp \<Rightarrow> 'v retention \<Rightarrow> 'v retention \<times> 'v retirement list" where
  "expire_under_pressure ep inow key weight now r =
     (if pc_fits (rt_limits r) (projection key weight r) then (r, [])
      else remove_expired ep inow (Some now) r)"

record eviction_candidate =
  ec_key :: string
  ec_priority :: priority
  ec_access :: nat
  ec_weight :: nat

definition candidate_of :: "string \<times> 'v stored \<Rightarrow> eviction_candidate" where
  "candidate_of ks = (case ks of (k, s) \<Rightarrow> \<lparr>ec_key = k, ec_priority = stored_priority_of s,
     ec_access = st_access s, ec_weight = stored_weight s\<rparr>)"

definition evictable :: "string \<Rightarrow> priority \<Rightarrow> string \<times> 'v stored \<Rightarrow> bool" where
  "evictable key p ks = (case ks of (k, s) \<Rightarrow> k \<noteq> key \<and> stored_priority_of s \<noteq> NeverRemove
     \<and> eviction_rank (stored_priority_of s) \<le> eviction_rank p)"

definition eviction_order :: "eviction_candidate \<Rightarrow> nat \<times> nat \<times> string" where
  "eviction_order c = (eviction_rank (ec_priority c), ec_access c, ec_key c)"

definition eligible_victims :: "string \<Rightarrow> priority \<Rightarrow> 'v retention \<Rightarrow> eviction_candidate list" where
  "eligible_victims key p r =
     sort_key eviction_order (map candidate_of (filter (evictable key p) (rt_entries r)))"

fun plan_victims ::
  "memory_limits \<Rightarrow> projected_capacity \<Rightarrow> eviction_candidate list \<Rightarrow> string list
     \<Rightarrow> capacity_rejection + string list" where
  "plan_victims limits p [] victims = Inl ProtectedCapacity"
| "plan_victims limits p (c # cs) victims =
     (let p' = \<lparr>pc_entries = pc_entries p - 1, pc_weight = pc_weight p - ec_weight c\<rparr>;
          victims' = victims @ [ec_key c]
      in if pc_fits limits p' then Inr victims' else plan_victims limits p' cs victims')"

definition plan :: "string \<Rightarrow> nat \<Rightarrow> priority \<Rightarrow> 'v retention \<Rightarrow> capacity_rejection + string list" where
  "plan key weight p r =
     (let projected = projection key weight r
      in if pc_fits (rt_limits r) projected then Inr []
         else plan_victims (rt_limits r) projected (eligible_victims key p r) [])"

definition retention_store ::
  "instant \<Rightarrow> string \<Rightarrow> 'v arc \<Rightarrow> capture_admission \<Rightarrow> 'v retention \<Rightarrow> 'v retention" where
  "retention_store inow key e capture r =
     (let (r1, access) = ticket r;
          monotonic = (case rt_expiry r of
             ClockDriven \<Rightarrow> None
           | RealTime \<Rightarrow> instant_checked_add inow (md_backend_ttl (en_meta (arc_entry e))))
      in r1\<lparr>rt_entries := hm_insert key \<lparr>st_entry = e, st_access = access,
                st_monotonic_expiration = monotonic, st_capture = capture\<rparr> (rt_entries r1),
             rt_weight := rt_weight r1 + arc_weight e\<rparr>)"

record 'v commit_report =
  rc_admission :: memory_admission
  rc_retired :: "'v retirement list"

definition commit_rejected :: "capacity_rejection \<Rightarrow> 'v retirement list \<Rightarrow> 'v commit_report" where
  "commit_rejected reason retired = \<lparr>rc_admission = RejectedAdmission reason, rc_retired = retired\<rparr>"

definition retention_commit ::
  "instant \<Rightarrow> string \<Rightarrow> 'v arc \<Rightarrow> string list \<Rightarrow> 'v retirement list \<Rightarrow> capture_admission
     \<Rightarrow> memory_write_event \<Rightarrow> 'v retention \<Rightarrow> 'v retention \<times> 'v commit_report" where
  "retention_commit inow key e victims retired capture event r =
     (let (r1, evicted) = retire_keys (\<lambda>s. Capacity) victims r;
          (r2, replaced) = retention_remove key r1;
          capture' = (case (replaced, event) of
             (Some old, ExpireEvent) \<Rightarrow> st_capture old | _ \<Rightarrow> capture);
          (admission, displaced) = (case replaced of
             Some old \<Rightarrow> (ReplacedEntry,
               [stored_retire key (case event of SetEvent \<Rightarrow> ReplacedBy | ExpireEvent \<Rightarrow> Metadata) old])
           | None \<Rightarrow> (Admitted, []))
      in (retention_store inow key e capture' r2,
          \<lparr>rc_admission = admission, rc_retired = retired @ evicted @ displaced\<rparr>))"

definition expected_matches :: "'v expected \<Rightarrow> 'v arc option \<Rightarrow> revision_heap \<Rightarrow> nat \<Rightarrow> bool" where
  "expected_matches ex current h generation = (case ex of
     ExpectOrigin snap \<Rightarrow> snapshot_matches h generation snap
   | Mutation \<Rightarrow> True
   | MutationOf e \<Rightarrow> (case current of None \<Rightarrow> False | Some c \<Rightarrow> is_same_instance c e)
   | ExpectAny \<Rightarrow> True
   | ExpectAbsent \<Rightarrow> current = None
   | ExpectSame e \<Rightarrow> (case current of None \<Rightarrow> False | Some c \<Rightarrow> is_same_instance c e))"

definition changes_origin :: "'v expected \<Rightarrow> bool" where
  "changes_origin ex = (case ex of
     Mutation \<Rightarrow> True | MutationOf e \<Rightarrow> True | ExpectOrigin s \<Rightarrow> True
   | ExpectAny \<Rightarrow> False | ExpectAbsent \<Rightarrow> False | ExpectSame e \<Rightarrow> False)"

definition advance_origin :: "string \<Rightarrow> 'v retention \<Rightarrow> 'v retention" where
  "advance_origin key r = (let (og, h) = origins_advance key (rt_origins r, rt_heap r)
     in r\<lparr>rt_origins := og, rt_heap := h\<rparr>)"

definition retention_insert ::
  "(nat \<Rightarrow> nat) \<Rightarrow> instant \<Rightarrow> string \<Rightarrow> 'v arc \<Rightarrow> timestamp \<Rightarrow> 'v expected \<Rightarrow> capture_admission
     \<Rightarrow> memory_write_event \<Rightarrow> 'v retention \<Rightarrow> 'v retention \<times> 'v commit_report" where
  "retention_insert ep inow key e now ex capture event r =
     (if \<not> expected_matches ex (map_option st_entry (hm_get (rt_entries r) key)) (rt_heap r) (rt_generation r)
      then (r, commit_rejected VersionChanged [])
      else
        let r0 = (if changes_origin ex then advance_origin key r else r);
            weight = arc_weight e
        in if \<not> limits_fits (rt_limits r0) 1 weight then (r0, commit_rejected Oversized [])
           else
             let (r1, retired) = expire_under_pressure ep inow key weight now r0
             in case plan key weight (meta_priority (en_meta (arc_entry e))) r1 of
                  Inr victims \<Rightarrow> retention_commit inow key e victims retired capture event r1
                | Inl reason \<Rightarrow> (r1, commit_rejected reason retired))"

section \<open>Operations of the store\<close>

text \<open>
  What \<open>MemoryStore\<close> does with a bounded backend. \<open>prepare_write\<close> re-stamps the insertion
  instant, which allocates a new representation (address \<open>addr\<close>) when it changes. Observation
  of retirements happens after the lock and does not change the store.
\<close>

definition prepare_entry :: "nat \<Rightarrow> timestamp \<Rightarrow> 'v arc \<Rightarrow> 'v arc" where
  "prepare_entry addr now a =
     (if md_inserted_at (en_meta (arc_entry a)) = now then a
      else \<lparr>arc_addr = addr, arc_entry = at_insertion now (arc_entry a)\<rparr>)"

definition apply_write ::
  "(nat \<Rightarrow> nat) \<Rightarrow> instant \<Rightarrow> string \<Rightarrow> 'v arc \<Rightarrow> timestamp \<Rightarrow> 'v expected \<Rightarrow> capture_admission
     \<Rightarrow> memory_write_event \<Rightarrow> 'v retention \<Rightarrow> 'v retention \<times> 'v commit_report" where
  "apply_write ep inow key e now ex capture event r =
     (if \<not> is_before now (md_physical_expiration (en_meta (arc_entry e)))
      then ((if ex = Mutation then advance_origin key r else r), commit_rejected PhysicallyExpired [])
      else retention_insert ep inow key e now ex capture event r)"

definition insert_internal ::
  "(nat \<Rightarrow> nat) \<Rightarrow> instant \<Rightarrow> nat \<Rightarrow> string \<Rightarrow> 'v arc \<Rightarrow> timestamp \<Rightarrow> 'v expected \<Rightarrow> capture_admission
     \<Rightarrow> memory_write_event \<Rightarrow> 'v retention \<Rightarrow> 'v retention \<times> memory_admission" where
  "insert_internal ep inow addr key e now ex capture event r =
     (let (r', c) = apply_write ep inow key (prepare_entry addr now e) now ex capture event r
      in (r', rc_admission c))"

definition store_read ::
  "(nat \<Rightarrow> nat) \<Rightarrow> instant \<Rightarrow> string \<Rightarrow> timestamp option \<Rightarrow> 'v retention \<Rightarrow> 'v retention \<times> 'v arc option" where
  "store_read ep inow key now r = (case retention_get ep inow key now r of
     (r', Present e) \<Rightarrow> (r', Some e)
   | (r', Absent) \<Rightarrow> (r', None)
   | (r', ExpiredRead ret) \<Rightarrow> (r', None))"

definition with_ready ::
  "(nat \<Rightarrow> nat) \<Rightarrow> instant \<Rightarrow> string \<Rightarrow> timestamp \<Rightarrow> 'v retention \<Rightarrow> 'v retention \<times> ('v arc \<times> freshness) option" where
  "with_ready ep inow key now r = (case hm_get (rt_entries r) key of
     None \<Rightarrow> (r, None)
   | Some s \<Rightarrow>
       if stored_retirement_reason ep inow (Some now) s \<noteq> None then (r, None)
       else let (r1, t) = ticket r
            in (r1\<lparr>rt_entries := hm_insert key (s\<lparr>st_access := t\<rparr>) (rt_entries r1)\<rparr>,
                Some (st_entry s, entry_freshness now (arc_entry (st_entry s)))))"

definition capture_revision ::
  "string \<Rightarrow> nat option \<Rightarrow> 'v retention \<Rightarrow> origin_error + 'v retention \<times> revision_snapshot" where
  "capture_revision key provided r =
     (if rt_generation r = u64_max then Inl GenerationExhausted
      else case capture_from key provided (rt_origins r, rt_heap r) of
        Inl e \<Rightarrow> Inl e
      | Inr ((og, h), revision, captured) \<Rightarrow>
          Inr (r\<lparr>rt_origins := og, rt_heap := h\<rparr>,
               RevisionSnapshot_new revision captured (rt_generation r)))"

definition skip_revision :: "string \<Rightarrow> revision_snapshot \<Rightarrow> 'v retention \<Rightarrow> 'v retention \<times> bool" where
  "skip_revision key s r =
     (if snapshot_matches (rt_heap r) (rt_generation r) s then (advance_origin key r, True)
      else (r, False))"

definition drop_origin :: "string \<Rightarrow> revision_snapshot \<Rightarrow> 'v retention \<Rightarrow> 'v retention" where
  "drop_origin key s r = (let (og, h) = origin_drop key (rs_revision s) (rt_origins r, rt_heap r)
     in r\<lparr>rt_origins := og, rt_heap := h\<rparr>)"

definition origin_is_current :: "revision_snapshot \<Rightarrow> 'v retention \<Rightarrow> bool" where
  "origin_is_current s r = snapshot_matches (rt_heap r) (rt_generation r) s"

definition detach_remove :: "string \<Rightarrow> 'v retention \<Rightarrow> 'v retention \<times> 'v retirement option" where
  "detach_remove key r = (let (r', s) = retention_remove key (advance_origin key r)
     in (r', map_option (stored_retire key Explicit) s))"

definition removed :: "string \<Rightarrow> 'v arc option \<Rightarrow> 'v retention \<Rightarrow> 'v retention \<times> 'v arc option" where
  "removed key ex r =
     (if (case ex of
            None \<Rightarrow> False
          | Some e \<Rightarrow> \<not> (case hm_get (rt_entries r) key of
                           None \<Rightarrow> False | Some s \<Rightarrow> is_same_instance (st_entry s) e))
      then (r, None)
      else let (r', s) = retention_remove key r in (r', map_option st_entry s))"

definition invalidate_all :: "'v retention \<Rightarrow> 'v retention \<times> 'v retirement list" where
  "invalidate_all r =
     (r\<lparr>rt_generation := saturating_add_u64 (rt_generation r) 1, rt_entries := [], rt_weight := 0\<rparr>,
      map (\<lambda>(k, s). stored_retire k Explicit s) (rt_entries r))"

definition run_pending_tasks ::
  "(nat \<Rightarrow> nat) \<Rightarrow> instant \<Rightarrow> timestamp option \<Rightarrow> 'v retention \<Rightarrow> 'v retention" where
  "run_pending_tasks ep inow now r = fst (remove_expired ep inow now r)"

text \<open>\<open>maintain_step\<close> gives up when the lock is taken (\<open>locked\<close>).\<close>

definition maintain_step ::
  "(nat \<Rightarrow> nat) \<Rightarrow> instant \<Rightarrow> timestamp option \<Rightarrow> bool \<Rightarrow> 'v retention \<Rightarrow> 'v retention" where
  "maintain_step ep inow now locked r = (if locked then r else fst (remove_expired ep inow now r))"

definition usage :: "'v retention \<Rightarrow> memory_usage" where
  "usage r = \<lparr>usage_entries = length (rt_entries r), usage_weight = rt_weight r\<rparr>"

section \<open>Prepared deadlines\<close>

datatype timing = Interoperable | LocalTiming local_clock

datatype deadlines =
    InteroperableDeadline "instant option"
  | LocalDeadlines monotonic_deadline monotonic_deadline

definition prepare_boundaries ::
  "timing \<Rightarrow> timestamp \<Rightarrow> timestamp \<Rightarrow> write_time \<Rightarrow> memory_expiry \<Rightarrow> instant \<Rightarrow> deadlines" where
  "prepare_boundaries timing logical physical time expiry inow = (case timing of
     Interoperable \<Rightarrow> InteroperableDeadline (case expiry of
         ClockDriven \<Rightarrow> None
       | RealTime \<Rightarrow> instant_checked_add (physical_start time inow)
                      (saturating_duration_since physical (write_time_now time)))
   | LocalTiming clock \<Rightarrow>
       let logical_deadline = LocalClock_deadline clock logical
       in LocalDeadlines logical_deadline
            (if physical = logical then logical_deadline else LocalClock_deadline clock physical))"

definition prepare_deadlines ::
  "timing \<Rightarrow> metadata \<Rightarrow> write_time \<Rightarrow> memory_expiry \<Rightarrow> instant \<Rightarrow> deadlines" where
  "prepare_deadlines timing m time expiry inow =
     prepare_boundaries timing (md_logical_expiration m) (md_physical_expiration m) time expiry inow"

definition deadlines_physically_expired ::
  "deadlines \<Rightarrow> metadata \<Rightarrow> timestamp option \<Rightarrow> instant option \<Rightarrow> instant \<Rightarrow> bool" where
  "deadlines_physically_expired d m now elapsed inow = (case d of
     InteroperableDeadline physical \<Rightarrow>
       (case now of None \<Rightarrow> False | Some t \<Rightarrow> t \<ge> md_physical_expiration m)
     \<or> (case physical of None \<Rightarrow> False
        | Some deadline \<Rightarrow> (case elapsed of Some i \<Rightarrow> i | None \<Rightarrow> inow) \<ge> deadline)
   | LocalDeadlines logical physical \<Rightarrow>
       deadline_expired physical (case elapsed of Some i \<Rightarrow> i | None \<Rightarrow> inow))"

text \<open>The interoperable form has no elapsed freshness; the code treats that call as unreachable.\<close>

definition deadlines_freshness :: "deadlines \<Rightarrow> instant \<Rightarrow> freshness option" where
  "deadlines_freshness d now = (case d of
     LocalDeadlines logical physical \<Rightarrow> Some (if deadline_expired logical now then Stale else Fresh)
   | InteroperableDeadline physical \<Rightarrow> None)"


section \<open>Well-formed stores\<close>

definition weight_ok :: "'v retention \<Rightarrow> bool" where
  "weight_ok r \<longleftrightarrow> hm_ok (rt_entries r) \<and> rt_weight r = hm_sum stored_weight (rt_entries r)"

definition retention_ok :: "'v retention \<Rightarrow> bool" where
  "retention_ok r \<longleftrightarrow> weight_ok r \<and> limits_fits (rt_limits r) (length (rt_entries r)) (rt_weight r)"

text \<open>The store with other contents and the weight that belongs to them.\<close>

definition with_entries :: "(string, 'v stored) hmap \<Rightarrow> 'v retention \<Rightarrow> 'v retention" where
  "with_entries es r = r\<lparr>rt_entries := es, rt_weight := hm_sum stored_weight es\<rparr>"

lemma with_entries_fields [simp]:
  "rt_entries (with_entries es r) = es" "rt_weight (with_entries es r) = hm_sum stored_weight es"
  "rt_limits (with_entries es r) = rt_limits r" "rt_origins (with_entries es r) = rt_origins r"
  "rt_heap (with_entries es r) = rt_heap r" "rt_generation (with_entries es r) = rt_generation r"
  "rt_expiry (with_entries es r) = rt_expiry r" "rt_next_access (with_entries es r) = rt_next_access r"
  "with_entries es (with_entries es' r) = with_entries es r"
  by (simp_all add: with_entries_def)

lemma with_entries_id: "weight_ok r \<Longrightarrow> with_entries (rt_entries r) r = r"
  by (simp add: with_entries_def weight_ok_def)

lemma weight_ok_with_entries [simp]: "weight_ok (with_entries es r) \<longleftrightarrow> hm_ok es"
  by (simp add: weight_ok_def)

lemma weight_okD: "weight_ok r \<Longrightarrow> hm_ok (rt_entries r)"
  by (simp add: weight_ok_def)

lemma limits_fits_mono:
  "limits_fits l n w \<Longrightarrow> n' \<le> n \<Longrightarrow> w' \<le> w \<Longrightarrow> limits_fits l n' w'"
  by (auto simp: limits_fits_def split: option.splits)

lemma limits_fits_zero [simp]: "limits_fits l 0 0"
  by (simp add: limits_fits_def split: option.splits)

lemma hm_remove_all_filter: "hm_remove_all ks m = filter (\<lambda>(k, v). k \<notin> set ks) m"
  by (induction ks arbitrary: m) (auto simp: AList.delete_eq intro!: filter_cong)

lemma hm_remove_absent: "hm_get m k = None \<Longrightarrow> hm_remove k m = m"
  by (simp add: delete_idem map_of_eq_None_iff)

lemma hm_sum_remove_le: "hm_sum w (hm_remove k m) \<le> hm_sum w m"
  by (induction m) auto

lemma hm_sum_remove_all_le: "hm_sum w (hm_remove_all ks m) \<le> hm_sum w m"
  by (induction ks arbitrary: m) (auto intro: order_trans [OF _ hm_sum_remove_le])

section \<open>Removals\<close>

lemma retention_remove_eq:
  assumes "weight_ok r"
  shows "retention_remove key r =
    (with_entries (hm_remove key (rt_entries r)) r, hm_get (rt_entries r) key)"
proof (cases "hm_get (rt_entries r) key")
  case None
  then show ?thesis using assms by (simp add: retention_remove_def hm_remove_absent with_entries_id)
next
  case (Some s)
  then show ?thesis
    using assms hm_sum_remove [of "rt_entries r" stored_weight key]
    by (simp add: retention_remove_def with_entries_def weight_ok_def)
qed

lemma ret_key_stored_retire [simp]: "ret_key (stored_retire k reason s) = k"
  by (simp add: stored_retire_def)

text \<open>A retirement is determined by its key and the stored entry it had.\<close>

definition retires ::
  "(string, 'v stored) hmap \<Rightarrow> ('v stored \<Rightarrow> retirement_reason) \<Rightarrow> 'v retirement \<Rightarrow> bool" where
  "retires es reason ret \<longleftrightarrow> (\<exists>s. hm_get es (ret_key ret) = Some s
     \<and> ret = stored_retire (ret_key ret) (reason s) s)"

lemma retires_remove:
  "retires (hm_remove k es) reason ret \<longleftrightarrow> ret_key ret \<noteq> k \<and> retires es reason ret"
  by (auto simp: retires_def hmap_simps)

lemma retire_keys_eq:
  assumes "weight_ok r"
  shows "fst (retire_keys reason ks r) = with_entries (hm_remove_all ks (rt_entries r)) r"
    and "ret \<in> set (snd (retire_keys reason ks r)) \<longleftrightarrow>
      ret_key ret \<in> set ks \<and> retires (rt_entries r) reason ret"
proof -
  have "fst (retire_keys reason ks r) = with_entries (hm_remove_all ks (rt_entries r)) r \<and>
    (ret \<in> set (snd (retire_keys reason ks r)) \<longleftrightarrow>
      ret_key ret \<in> set ks \<and> retires (rt_entries r) reason ret)"
    using assms
  proof (induction ks arbitrary: r)
    case Nil
    then show ?case by (simp add: with_entries_id)
  next
    case (Cons k ks)
    let ?r = "with_entries (hm_remove k (rt_entries r)) r"
    have ok: "weight_ok ?r" using Cons.prems by (simp add: weight_ok_def)
    note IH = Cons.IH [OF ok]
    show ?case
    proof (cases "hm_get (rt_entries r) k")
      case None
      then have "?r = r" using Cons.prems by (simp add: hm_remove_absent with_entries_id)
      moreover have "ret_key ret = k \<Longrightarrow> \<not> retires (rt_entries r) reason ret"
        using None by (simp add: retires_def)
      ultimately show ?thesis
        using IH None by (auto simp: retention_remove_eq [OF Cons.prems] hm_remove_absent)
    next
      case (Some s)
      then have "retires (rt_entries r) reason ret \<longleftrightarrow> ret = stored_retire k (reason s) s"
        if "ret_key ret = k" using that by (auto simp: retires_def)
      then show ?thesis
        using IH Some
        by (auto simp: retention_remove_eq [OF Cons.prems] retires_remove split: prod.splits)
    qed
  qed
  then show "fst (retire_keys reason ks r) = with_entries (hm_remove_all ks (rt_entries r)) r"
    and "ret \<in> set (snd (retire_keys reason ks r)) \<longleftrightarrow>
      ret_key ret \<in> set ks \<and> retires (rt_entries r) reason ret"
    by auto
qed

lemma retention_ok_shrink:
  "retention_ok r \<Longrightarrow> retention_ok (with_entries (hm_remove_all ks (rt_entries r)) r)"
  by (auto simp: retention_ok_def weight_ok_def hm.ok_rem_all
      intro: limits_fits_mono [OF _ hm.len_rem_all_le hm_sum_remove_all_le])

definition expired_keys ::
  "(nat \<Rightarrow> nat) \<Rightarrow> instant \<Rightarrow> timestamp option \<Rightarrow> 'v retention \<Rightarrow> string list" where
  "expired_keys ep inow now r =
     map fst (filter (\<lambda>(k, s). stored_retirement_reason ep inow now s \<noteq> None) (rt_entries r))"

lemma remove_expired_fst:
  "weight_ok r \<Longrightarrow> fst (remove_expired ep inow now r) =
     with_entries (hm_remove_all (expired_keys ep inow now r) (rt_entries r)) r"
  by (simp add: remove_expired_def retire_keys_eq expired_keys_def)

lemma expired_keys_iff:
  "weight_ok r \<Longrightarrow> k \<in> set (expired_keys ep inow now r) \<longleftrightarrow>
     (\<exists>s. hm_get (rt_entries r) k = Some s \<and> stored_retirement_reason ep inow now s \<noteq> None)"
  by (force simp: expired_keys_def weight_ok_def hm_get_eq_Some)

lemma remove_expired_snd:
  assumes "weight_ok r" and "ret \<in> set (snd (remove_expired ep inow now r))"
  shows "\<exists>s reason. hm_get (rt_entries r) (ret_key ret) = Some s
    \<and> stored_retirement_reason ep inow now s = Some reason \<and> ret = stored_retire (ret_key ret) reason s"
proof -
  let ?f = "\<lambda>s. case stored_retirement_reason ep inow now s of Some reason \<Rightarrow> reason | None \<Rightarrow> Expired"
  have "ret \<in> set (snd (retire_keys ?f (expired_keys ep inow now r) r))"
    using assms(2) by (simp add: remove_expired_def expired_keys_def Let_def)
  then show ?thesis
    by (auto simp: retire_keys_eq(2) [OF assms(1)] expired_keys_iff [OF assms(1)] retires_def)
qed

lemma remove_expired_reports:
  assumes "weight_ok r" and "hm_get (rt_entries r) k = Some s"
    and "stored_retirement_reason ep inow now s = Some reason"
  shows "stored_retire k reason s \<in> set (snd (remove_expired ep inow now r))"
proof -
  let ?f = "\<lambda>s. case stored_retirement_reason ep inow now s of Some reason \<Rightarrow> reason | None \<Rightarrow> Expired"
  have "stored_retire k reason s \<in> set (snd (retire_keys ?f (expired_keys ep inow now r) r))"
    unfolding retire_keys_eq(2) [OF assms(1)] expired_keys_iff [OF assms(1)]
    using assms by (simp add: retires_def)
  then show ?thesis by (simp add: remove_expired_def expired_keys_def Let_def)
qed

section \<open>Planning an admission\<close>

lemma projection_eq:
  assumes "weight_ok r"
  shows "projection key weight r = \<lparr>pc_entries = length (hm_remove key (rt_entries r)) + 1,
    pc_weight = hm_sum stored_weight (hm_remove key (rt_entries r)) + weight\<rparr>"
  using assms hm_sum_remove [of "rt_entries r" stored_weight key]
    length_hm_remove [of "rt_entries r" key]
  by (cases "hm_get (rt_entries r) key"; cases "rt_entries r")
    (auto simp: projection_def weight_ok_def Let_def)

definition evicted_fits ::
  "memory_limits \<Rightarrow> projected_capacity \<Rightarrow> eviction_candidate list \<Rightarrow> nat \<Rightarrow> bool" where
  "evicted_fits limits p cs n \<longleftrightarrow>
     limits_fits limits (pc_entries p - n) (pc_weight p - sum_list (map ec_weight (take n cs)))"

lemma evicted_fits_Suc:
  "evicted_fits limits p (c # cs) (Suc n) \<longleftrightarrow> evicted_fits limits
     \<lparr>pc_entries = pc_entries p - 1, pc_weight = pc_weight p - ec_weight c\<rparr> cs n"
  by (simp add: evicted_fits_def)

lemma plan_victims_Inr:
  "plan_victims limits p cs acc = Inr vs \<Longrightarrow>
     \<exists>n. 0 < n \<and> n \<le> length cs \<and> vs = acc @ map ec_key (take n cs) \<and> evicted_fits limits p cs n
       \<and> (\<forall>m. 0 < m \<and> m < n \<longrightarrow> \<not> evicted_fits limits p cs m)"
proof (induction limits p cs acc rule: plan_victims.induct)
  case (2 limits p c cs acc)
  let ?p = "\<lparr>pc_entries = pc_entries p - 1, pc_weight = pc_weight p - ec_weight c\<rparr>"
  show ?case
  proof (cases "pc_fits limits ?p")
    case True
    with "2.prems" show ?thesis
      by (intro exI [of _ 1]) (auto simp: evicted_fits_def pc_fits_def Let_def)
  next
    case False
    with "2.prems" have "plan_victims limits ?p cs (acc @ [ec_key c]) = Inr vs" by (simp add: Let_def)
    from "2.IH" [OF refl refl False this] obtain n where
      n: "0 < n" "n \<le> length cs" "vs = (acc @ [ec_key c]) @ map ec_key (take n cs)"
      "evicted_fits limits ?p cs n" "\<And>m. 0 < m \<Longrightarrow> m < n \<Longrightarrow> \<not> evicted_fits limits ?p cs m" by blast
    have "\<not> evicted_fits limits p (c # cs) m" if "0 < m" "m < Suc n" for m
      using that n(5) False by (cases m; cases "m - 1")
        (auto simp: evicted_fits_Suc, auto simp: evicted_fits_def pc_fits_def)
    with n show ?thesis by (intro exI [of _ "Suc n"]) (auto simp: evicted_fits_Suc)
  qed
qed simp

lemma plan_victims_Inl:
  "plan_victims limits p cs acc = Inl reason \<Longrightarrow>
     reason = ProtectedCapacity \<and> (\<forall>m. 0 < m \<and> m \<le> length cs \<longrightarrow> \<not> evicted_fits limits p cs m)"
proof (induction limits p cs acc rule: plan_victims.induct)
  case (2 limits p c cs acc)
  let ?p = "\<lparr>pc_entries = pc_entries p - 1, pc_weight = pc_weight p - ec_weight c\<rparr>"
  from "2.prems" have no: "\<not> pc_fits limits ?p" by (auto simp: Let_def split: if_splits)
  with "2.prems" have "plan_victims limits ?p cs (acc @ [ec_key c]) = Inl reason" by (simp add: Let_def)
  from "2.IH" [OF refl refl no this] have IH: "reason = ProtectedCapacity"
    "\<And>m. 0 < m \<Longrightarrow> m \<le> length cs \<Longrightarrow> \<not> evicted_fits limits ?p cs m" by auto
  have "\<not> evicted_fits limits p (c # cs) m" if "0 < m" "m \<le> Suc (length cs)" for m
    using that IH(2) no by (cases m; cases "m - 1")
      (auto simp: evicted_fits_Suc, auto simp: evicted_fits_def pc_fits_def)
  with IH(1) show ?case by simp
qed (auto simp: Let_def)

lemma plan_Inr:
  assumes "plan key weight p r = Inr vs"
  obtains n where "n \<le> length (eligible_victims key p r)"
    and "vs = map ec_key (take n (eligible_victims key p r))"
    and "evicted_fits (rt_limits r) (projection key weight r) (eligible_victims key p r) n"
    and "\<And>m. m < n \<Longrightarrow> \<not> evicted_fits (rt_limits r) (projection key weight r) (eligible_victims key p r) m"
proof (cases "pc_fits (rt_limits r) (projection key weight r)")
  case True
  with assms that [of 0] show ?thesis by (simp add: plan_def Let_def evicted_fits_def pc_fits_def)
next
  case False
  with assms have "plan_victims (rt_limits r) (projection key weight r) (eligible_victims key p r) [] = Inr vs"
    by (simp add: plan_def Let_def)
  from plan_victims_Inr [OF this] obtain n where n: "0 < n" "n \<le> length (eligible_victims key p r)"
    "vs = map ec_key (take n (eligible_victims key p r))"
    "evicted_fits (rt_limits r) (projection key weight r) (eligible_victims key p r) n"
    "\<And>m. 0 < m \<Longrightarrow> m < n \<Longrightarrow> \<not> evicted_fits (rt_limits r) (projection key weight r) (eligible_victims key p r) m"
    by auto
  moreover have "\<not> evicted_fits (rt_limits r) (projection key weight r) (eligible_victims key p r) 0"
    using False by (simp add: evicted_fits_def pc_fits_def)
  ultimately show ?thesis using that [of n] by (metis gr0I)
qed

lemma set_eligible_victims:
  "c \<in> set (eligible_victims key p r) \<longleftrightarrow>
     (\<exists>k s. (k, s) \<in> set (rt_entries r) \<and> evictable key p (k, s) \<and> c = candidate_of (k, s))"
  by (force simp: eligible_victims_def)

lemma ec_key_candidate_of: "ec_key (candidate_of ks) = fst ks"
  by (simp add: candidate_of_def split: prod.splits)

lemma distinct_eligible_victims:
  "hm_ok (rt_entries r) \<Longrightarrow> distinct (map ec_key (eligible_victims key p r))"
proof -
  assume "hm_ok (rt_entries r)"
  then have "distinct (map ec_key (map candidate_of (filter (evictable key p) (rt_entries r))))"
    by (simp add: hm_ok_def comp_def ec_key_candidate_of distinct_map_filter)
  then show ?thesis
    unfolding eligible_victims_def
    by (metis mset_map mset_sort mset_eq_imp_distinct_iff)
qed


section \<open>Committing an admission\<close>

lemma hm_remove_all_backed:
  assumes "hm_ok m" and "distinct (map ec_key cs)"
    and "\<And>c. c \<in> set cs \<Longrightarrow> \<exists>s. hm_get m (ec_key c) = Some s \<and> ec_weight c = stored_weight s"
  shows "length (hm_remove_all (map ec_key cs) m) + length cs = length m"
    and "hm_sum stored_weight (hm_remove_all (map ec_key cs) m) + sum_list (map ec_weight cs)
      = hm_sum stored_weight m"
proof -
  have "length (hm_remove_all (map ec_key cs) m) + length cs = length m \<and>
    hm_sum stored_weight (hm_remove_all (map ec_key cs) m) + sum_list (map ec_weight cs)
      = hm_sum stored_weight m"
    using assms
  proof (induction cs arbitrary: m)
    case (Cons c cs)
    from Cons.prems(3) [of c] obtain s where s: "hm_get m (ec_key c) = Some s" "ec_weight c = stored_weight s"
      by auto
    have "length m \<noteq> 0" using s by auto
    then have len: "length (hm_remove (ec_key c) m) + 1 = length m"
      using length_hm_remove [OF Cons.prems(1), of "ec_key c"] s by simp
    have sum: "hm_sum stored_weight m = ec_weight c + hm_sum stored_weight (hm_remove (ec_key c) m)"
      using hm_sum_remove [OF Cons.prems(1), of stored_weight "ec_key c"] s by simp
    have "\<exists>s. hm_get (hm_remove (ec_key c) m) (ec_key d) = Some s \<and> ec_weight d = stored_weight s"
      if "d \<in> set cs" for d
    proof -
      have "ec_key c \<notin> ec_key ` set cs" using Cons.prems(2) by simp
      then have "ec_key d \<noteq> ec_key c" using that by (metis imageI)
      then show ?thesis using Cons.prems(3) [of d] that by (simp add: hmap_simps)
    qed
    from Cons.IH [OF _ _ this] Cons.prems(1,2) len sum show ?case by simp
  qed simp
  then show "length (hm_remove_all (map ec_key cs) m) + length cs = length m"
    and "hm_sum stored_weight (hm_remove_all (map ec_key cs) m) + sum_list (map ec_weight cs)
      = hm_sum stored_weight m"
    by auto
qed

lemma hm_remove_remove_all: "hm_remove k (hm_remove_all ks m) = hm_remove_all ks (hm_remove k m)"
  by (induction ks arbitrary: m) (simp_all add: delete_twist)

lemma eligible_victims_backed:
  assumes "hm_ok (rt_entries r)" and "c \<in> set (eligible_victims key p r)"
  shows "\<exists>s. hm_get (rt_entries r) (ec_key c) = Some s \<and> c = candidate_of (ec_key c, s)
    \<and> evictable key p (ec_key c, s) \<and> ec_key c \<noteq> key \<and> ec_weight c = stored_weight s"
  using assms by (auto simp: set_eligible_victims hm_get_eq_Some candidate_of_def evictable_def)

definition new_stored :: "instant \<Rightarrow> 'v arc \<Rightarrow> capture_admission \<Rightarrow> 'v retention \<Rightarrow> 'v stored" where
  "new_stored inow e capture r = \<lparr>st_entry = e, st_access = snd (ticket r),
     st_monotonic_expiration = (case rt_expiry r of
        ClockDriven \<Rightarrow> None
      | RealTime \<Rightarrow> instant_checked_add inow (md_backend_ttl (en_meta (arc_entry e)))),
     st_capture = capture\<rparr>"

lemma retention_store_eq:
  assumes "weight_ok r" and "hm_get (rt_entries r) key = None"
  shows "retention_store inow key e capture r =
    with_entries (hm_insert key (new_stored inow e capture r) (rt_entries r)) (fst (ticket r))"
  using assms
  by (simp add: retention_store_def new_stored_def ticket_def Let_def with_entries_def weight_ok_def
      hm_sum_insert_absent)

text \<open>The contents after an admission: victims and the old entry go, the new entry comes.\<close>

lemma retention_commit_eq:
  assumes "weight_ok r"
  shows "\<exists>capture'. fst (retention_commit inow key e victims retired capture event r) =
      with_entries (hm_insert key (new_stored inow e capture' r)
        (hm_remove key (hm_remove_all victims (rt_entries r)))) (fst (ticket r))"
proof -
  let ?r1 = "with_entries (hm_remove_all victims (rt_entries r)) r"
  let ?r2 = "with_entries (hm_remove key (hm_remove_all victims (rt_entries r))) r"
  have ok1: "weight_ok ?r1" and ok2: "weight_ok ?r2"
    using assms by (simp_all add: weight_ok_def hm.ok_rem_all)
  have 1: "fst (retire_keys (\<lambda>s. Capacity) victims r) = ?r1" using retire_keys_eq(1) [OF assms] .
  have 2: "retention_remove key ?r1 = (?r2, hm_get (rt_entries ?r1) key)"
    using retention_remove_eq [OF ok1] by simp
  have store: "retention_store inow key e c ?r2 =
      with_entries (hm_insert key (new_stored inow e c r)
        (hm_remove key (hm_remove_all victims (rt_entries r)))) (fst (ticket r))" for c
  proof -
    have "hm_get (rt_entries ?r2) key = None" by (simp add: hmap_simps)
    from retention_store_eq [OF ok2 this] show ?thesis
      by (simp add: new_stored_def ticket_def Let_def with_entries_def)
  qed
  obtain evicted where ev: "retire_keys (\<lambda>s. Capacity) victims r = (?r1, evicted)"
    using 1 by (metis prod.collapse)
  show ?thesis
    unfolding retention_commit_def ev Let_def prod.case 2
    by (cases "hm_get (rt_entries ?r1) key"; cases event) (auto simp: store)
qed

lemma retention_commit_report:
  assumes "weight_ok r" and "key \<notin> set victims"
  shows "rc_admission (snd (retention_commit inow key e victims retired capture event r)) =
      (if hm_get (rt_entries r) key = None then Admitted else ReplacedEntry)"
    and "ret \<in> set (rc_retired (snd (retention_commit inow key e victims retired capture event r))) \<longleftrightarrow>
      ret \<in> set retired
    \<or> ret_key ret \<in> set victims \<and> retires (rt_entries r) (\<lambda>s. Capacity) ret
    \<or> ret_key ret = key \<and> retires (rt_entries r)
        (\<lambda>s. case event of SetEvent \<Rightarrow> ReplacedBy | ExpireEvent \<Rightarrow> Metadata) ret"
proof -
  let ?r1 = "with_entries (hm_remove_all victims (rt_entries r)) r"
  have ok1: "weight_ok ?r1" using assms by (simp add: weight_ok_def hm.ok_rem_all)
  have get: "hm_get (hm_remove_all victims (rt_entries r)) key = hm_get (rt_entries r) key"
    using hm.get_rem_all [OF weight_okD [OF assms(1)], of victims key] assms(2) by simp
  obtain evicted where ev: "retire_keys (\<lambda>s. Capacity) victims r = (?r1, evicted)"
    using retire_keys_eq(1) [OF assms(1)] by (metis prod.collapse)
  have mem: "x \<in> set evicted \<longleftrightarrow> ret_key x \<in> set victims \<and> retires (rt_entries r) (\<lambda>s. Capacity) x" for x
    using retire_keys_eq(2) [OF assms(1), of x "\<lambda>s. Capacity" victims] by (simp add: ev)
  note defs = retention_commit_def ev retention_remove_eq [OF ok1] get Let_def
  show "rc_admission (snd (retention_commit inow key e victims retired capture event r)) =
      (if hm_get (rt_entries r) key = None then Admitted else ReplacedEntry)"
    by (cases "hm_get (rt_entries r) key"; cases event) (simp_all add: defs)
  show "ret \<in> set (rc_retired (snd (retention_commit inow key e victims retired capture event r))) \<longleftrightarrow>
      ret \<in> set retired
    \<or> ret_key ret \<in> set victims \<and> retires (rt_entries r) (\<lambda>s. Capacity) ret
    \<or> ret_key ret = key \<and> retires (rt_entries r)
        (\<lambda>s. case event of SetEvent \<Rightarrow> ReplacedBy | ExpireEvent \<Rightarrow> Metadata) ret"
    by (cases "hm_get (rt_entries r) key"; cases event) (auto simp: defs mem retires_def)
qed

lemma ticket_fields [simp]:
  "rt_entries (fst (ticket r)) = rt_entries r" "rt_weight (fst (ticket r)) = rt_weight r"
  "rt_limits (fst (ticket r)) = rt_limits r" "rt_origins (fst (ticket r)) = rt_origins r"
  "rt_heap (fst (ticket r)) = rt_heap r" "rt_generation (fst (ticket r)) = rt_generation r"
  "rt_expiry (fst (ticket r)) = rt_expiry r"
  by (simp_all add: ticket_def Let_def)

lemma st_entry_new_stored [simp]: "st_entry (new_stored inow e c r) = e"
  by (simp add: new_stored_def)

text \<open>An admission planned by \<open>plan\<close> leaves the store within its limits.\<close>

lemma retention_commit_fits:
  assumes ok: "weight_ok r" and plan: "plan key (arc_weight e) p r = Inr victims"
  shows "retention_ok (fst (retention_commit inow key e victims retired capture event r))"
proof -
  let ?cs = "eligible_victims key p r" and ?es = "hm_remove key (rt_entries r)"
  have hok: "hm_ok (rt_entries r)" using ok by (rule weight_okD)
  from plan obtain n where n: "n \<le> length ?cs" "victims = map ec_key (take n ?cs)"
    "evicted_fits (rt_limits r) (projection key (arc_weight e) r) ?cs n"
    by (rule plan_Inr)
  have dist: "distinct (map ec_key (take n ?cs))"
    using distinct_eligible_victims [OF hok, of key p] by (metis distinct_take take_map)
  have backs: "\<exists>s. hm_get ?es (ec_key c) = Some s \<and> ec_weight c = stored_weight s" if "c \<in> set (take n ?cs)" for c
    using eligible_victims_backed [OF hok in_set_takeD [OF that]] by (auto simp: hmap_simps)
  have hes: "hm_ok ?es" using hok by simp
  note backed = hm_remove_all_backed [OF hes dist backs]
  let ?fs = "hm_remove_all victims ?es"
  have len: "length ?fs + 1 = pc_entries (projection key (arc_weight e) r) - n"
    using backed(1) n by (simp add: projection_eq [OF ok])
  have sum: "hm_sum stored_weight ?fs + arc_weight e =
      pc_weight (projection key (arc_weight e) r) - sum_list (map ec_weight (take n ?cs))"
    using backed(2) n by (simp add: projection_eq [OF ok])
  have fs: "hm_ok ?fs" "hm_get ?fs key = None"
    using hes hm.ok_rem_all hm.get_rem_all [OF hes, of victims key] by (simp_all add: hmap_simps)
  from retention_commit_eq [OF ok] obtain c where
    "fst (retention_commit inow key e victims retired capture event r) =
      with_entries (hm_insert key (new_stored inow e c r) ?fs) (fst (ticket r))"
    by (metis hm_remove_remove_all)
  then show ?thesis
    using n(3) len sum fs
    by (simp add: retention_ok_def evicted_fits_def length_hm_insert hm_sum_insert_absent)
qed

lemma advance_origin_fields [simp]:
  "rt_entries (advance_origin k r) = rt_entries r" "rt_weight (advance_origin k r) = rt_weight r"
  "rt_limits (advance_origin k r) = rt_limits r" "rt_generation (advance_origin k r) = rt_generation r"
  "rt_expiry (advance_origin k r) = rt_expiry r"
  by (simp_all add: advance_origin_def split: prod.splits)

lemma retention_ok_frame:
  "rt_entries r' = rt_entries r \<Longrightarrow> rt_weight r' = rt_weight r \<Longrightarrow> rt_limits r' = rt_limits r \<Longrightarrow>
     retention_ok r' = retention_ok r"
  by (simp add: retention_ok_def weight_ok_def)

lemma weight_ok_frame:
  "rt_entries r' = rt_entries r \<Longrightarrow> rt_weight r' = rt_weight r \<Longrightarrow> weight_ok r' = weight_ok r"
  by (simp add: weight_ok_def)

lemma retention_ok_remove_expired: "retention_ok r \<Longrightarrow> retention_ok (fst (remove_expired ep inow now r))"
  using retention_ok_shrink [of r] by (simp add: remove_expired_fst retention_ok_def)

lemma expire_under_pressure_ok:
  "retention_ok r \<Longrightarrow> retention_ok (fst (expire_under_pressure ep inow key w now r))"
  by (simp add: expire_under_pressure_def retention_ok_remove_expired)

lemma retention_insert_ok:
  assumes "retention_ok r"
  shows "retention_ok (fst (retention_insert ep inow key e now ex capture event r))"
proof -
  let ?r0 = "if changes_origin ex then advance_origin key r else r"
  let ?r1 = "fst (expire_under_pressure ep inow key (arc_weight e) now ?r0)"
  have ok0: "retention_ok ?r0" using assms retention_ok_frame [of "advance_origin key r" r] by simp
  then have ok1: "retention_ok ?r1" by (rule expire_under_pressure_ok)
  show ?thesis
    using assms ok0 ok1 retention_commit_fits [of ?r1 key e]
    by (auto simp: retention_insert_def Let_def retention_ok_def split: prod.splits sum.splits)
qed

end
