(* ===== verification/Amalgam_Memory_Facts.thy ===== *)
theory Amalgam_Memory_Facts
  imports Amalgam_Memory
begin

text \<open>
  Properties of the bounded store: limits are respected after every sequence of operations,
  the effect of an admission on every key, the eviction policy, the refusal of superseded
  factory writes, and the prepared local deadlines.
\<close>

section \<open>Sequences of store operations\<close>

datatype 'v memory_op =
    OpInsert instant nat string "'v arc" timestamp "'v expected" capture_admission memory_write_event
  | OpRead instant string "timestamp option"
  | OpReady instant string timestamp
  | OpRemove string "'v arc option"
  | OpDetach string
  | OpClear
  | OpExpire instant "timestamp option"
  | OpMaintain instant "timestamp option" bool
  | OpInvalidateOrigin string
  | OpCapture string "nat option"
  | OpSkip string revision_snapshot
  | OpDrop string revision_snapshot

text \<open>Each operation comes with the continuity counters it sees.\<close>

fun memory_step :: "'v retention \<Rightarrow> (nat \<Rightarrow> nat) \<times> 'v memory_op \<Rightarrow> 'v retention" where
  "memory_step r (ep, OpInsert inow addr key e now ex capture event) =
     fst (insert_internal ep inow addr key e now ex capture event r)"
| "memory_step r (ep, OpRead inow key now) = fst (store_read ep inow key now r)"
| "memory_step r (ep, OpReady inow key now) = fst (with_ready ep inow key now r)"
| "memory_step r (ep, OpRemove key ex) = fst (removed key ex r)"
| "memory_step r (ep, OpDetach key) = fst (detach_remove key r)"
| "memory_step r (ep, OpClear) = fst (invalidate_all r)"
| "memory_step r (ep, OpExpire inow now) = run_pending_tasks ep inow now r"
| "memory_step r (ep, OpMaintain inow now locked) = maintain_step ep inow now locked r"
| "memory_step r (ep, OpInvalidateOrigin key) = advance_origin key r"
| "memory_step r (ep, OpCapture key provided) = (case capture_revision key provided r of
     Inl e \<Rightarrow> r | Inr (r', s) \<Rightarrow> r')"
| "memory_step r (ep, OpSkip key s) = fst (skip_revision key s r)"
| "memory_step r (ep, OpDrop key s) = drop_origin key s r"

lemma hm_sum_touch:
  "hm_get m k = Some s \<Longrightarrow> w s' = w s \<Longrightarrow> hm_sum w (hm_insert k s' m) = hm_sum w m"
  by (induction m) (auto split: if_splits)

definition bounded :: "memory_limits \<Rightarrow> 'v retention \<Rightarrow> bool" where
  "bounded l r \<longleftrightarrow> retention_ok r \<and> rt_limits r = l"

lemma bounded_weight_ok: "bounded l r \<Longrightarrow> weight_ok r"
  by (simp add: bounded_def retention_ok_def)

lemma bounded_frame:
  assumes "bounded l r" and "rt_entries r' = rt_entries r" and "rt_weight r' = rt_weight r"
    and "rt_limits r' = rt_limits r"
  shows "bounded l r'"
  using assms retention_ok_frame [of r' r] by (simp add: bounded_def)

lemma bounded_touch:
  assumes "bounded l r" and "hm_get (rt_entries r) k = Some s"
  shows "bounded l (fst (ticket r)\<lparr>rt_entries := hm_insert k (s\<lparr>st_access := t\<rparr>) (rt_entries r)\<rparr>)"
  using assms by (auto simp: bounded_def retention_ok_def weight_ok_def length_hm_insert hm_sum_touch)

lemma bounded_shrink: "bounded l r \<Longrightarrow> bounded l (with_entries (hm_remove_all ks (rt_entries r)) r)"
  by (simp add: bounded_def retention_ok_shrink)

lemma bounded_remove: "bounded l r \<Longrightarrow> bounded l (fst (retention_remove k r))"
  using bounded_shrink [of l r "[k]"] by (simp add: retention_remove_eq bounded_weight_ok)

lemma bounded_remove_expired: "bounded l r \<Longrightarrow> bounded l (fst (remove_expired ep inow now r))"
  by (simp add: remove_expired_fst bounded_weight_ok bounded_shrink)

lemma bounded_advance: "bounded l r \<Longrightarrow> bounded l (advance_origin key r)"
  by (erule bounded_frame) simp_all

lemma bounded_commit:
  assumes "bounded l r" and "plan key (arc_weight e) p r = Inr victims"
  shows "bounded l (fst (retention_commit inow key e victims retired capture event r))"
proof -
  have "rt_limits (fst (retention_commit inow key e victims retired capture event r)) = rt_limits r"
    using retention_commit_eq [OF bounded_weight_ok [OF assms(1)], of inow key e victims retired capture event]
    by auto
  then show ?thesis
    using assms retention_commit_fits [OF bounded_weight_ok [OF assms(1)] assms(2)] by (simp add: bounded_def)
qed

lemma bounded_insert:
  assumes "bounded l r"
  shows "bounded l (fst (retention_insert ep inow key e now ex capture event r))"
proof -
  let ?r0 = "if changes_origin ex then advance_origin key r else r"
  let ?x = "expire_under_pressure ep inow key (arc_weight e) now ?r0"
  have b0: "bounded l ?r0" using assms bounded_advance by auto
  then have b1: "bounded l (fst ?x)"
    by (simp add: expire_under_pressure_def bounded_remove_expired)
  show ?thesis
    using assms b0 b1 bounded_commit [OF b1]
    by (auto simp: retention_insert_def Let_def split_beta split: sum.splits)
qed

lemma bounded_apply_write:
  "bounded l r \<Longrightarrow> bounded l (fst (apply_write ep inow key e now ex capture event r))"
  by (simp add: apply_write_def bounded_insert bounded_advance)

lemma bounded_get: "bounded l r \<Longrightarrow> bounded l (fst (retention_get ep inow key now r))"
  using bounded_remove [of l r key] bounded_touch [of l r key "the (hm_get (rt_entries r) key)"]
    bounded_frame [of l r "fst (ticket r)"]
  by (auto simp: retention_get_def retention_remove_def split_beta Let_def split: option.splits)

lemma fst_store_read: "fst (store_read ep inow key now r) = fst (retention_get ep inow key now r)"
  by (simp add: store_read_def split: prod.splits memory_read.splits)

lemma bounded_ready: "bounded l r \<Longrightarrow> bounded l (fst (with_ready ep inow key now r))"
  using bounded_touch [of l r key "the (hm_get (rt_entries r) key)"]
  by (auto simp: with_ready_def split_beta Let_def split: option.splits)

lemma bounded_removed: "bounded l r \<Longrightarrow> bounded l (fst (removed key ex r))"
  by (simp add: removed_def split_beta bounded_remove)

lemma bounded_detach: "bounded l r \<Longrightarrow> bounded l (fst (detach_remove key r))"
  by (simp add: detach_remove_def split_beta bounded_remove bounded_advance)

lemma bounded_clear: "bounded l r \<Longrightarrow> bounded l (fst (invalidate_all r))"
  by (simp add: invalidate_all_def bounded_def retention_ok_def weight_ok_def)

lemma bounded_capture: "bounded l r \<Longrightarrow> capture_revision key provided r = Inr (r', s) \<Longrightarrow> bounded l r'"
  by (erule bounded_frame) (auto simp: capture_revision_def split: if_splits sum.splits)

lemma bounded_skip: "bounded l r \<Longrightarrow> bounded l (fst (skip_revision key s r))"
  by (simp add: skip_revision_def bounded_advance)

lemma bounded_drop: "bounded l r \<Longrightarrow> bounded l (drop_origin key s r)"
  by (erule bounded_frame) (simp_all add: drop_origin_def split_beta)

lemmas bounded_ops = bounded_apply_write bounded_get bounded_ready bounded_removed bounded_detach
  bounded_clear bounded_capture bounded_skip bounded_drop bounded_remove_expired bounded_advance

interpretation memory: invariant_machine memory_step "bounded l" for l :: memory_limits
proof
  fix r :: "'a retention" and op
  assume "bounded l r"
  then show "bounded l (memory_step r op)"
    by (cases "(r, op)" rule: memory_step.cases)
      (auto simp: insert_internal_def split_beta fst_store_read run_pending_tasks_def maintain_step_def
        bounded_ops split: sum.splits)
qed

lemma bounded_new: "bounded l (Retention_new l expiry)"
  by (simp add: bounded_def retention_ok_def weight_ok_def Retention_new_def)

text \<open>
  C1. The bounded store never exceeds its limits: after any sequence of insertions, reads,
  removals, clears, expirations and origin operations, the number of entries and the total
  weight fit the configured limits, and the cached weight is exactly the sum of the weights of
  the stored entries (so the code's subtractions cannot underflow).
\<close>

theorem memory_within_limits:
  assumes "r = foldl memory_step (Retention_new limits expiry) ops"
  shows "limits_fits limits (usage_entries (usage r)) (usage_weight (usage r))
    \<and> usage_weight (usage r) = hm_sum stored_weight (rt_entries r) \<and> distinct (map fst (rt_entries r))"
proof -
  have "bounded limits r" unfolding assms by (rule memory.run_inv [OF bounded_new])
  then show ?thesis
    by (auto simp: bounded_def retention_ok_def weight_ok_def usage_def hm_ok_def)
qed

definition plain_arc :: "nat \<Rightarrow> nat \<Rightarrow> 'v \<Rightarrow> 'v arc" where
  "plain_arc addr weight v = \<lparr>arc_addr = addr, arc_entry = with_retention (Some (EntryWeight weight)) Normal
     (PlainPlan_prepare (LifetimeSpan 50) v 100 [])\<rparr>"

theorem memory_within_limits_witness:
  "limits_fits (MemoryLimits_new (Some 1) None)
     (usage_entries (usage (foldl memory_step (Retention_new (MemoryLimits_new (Some 1) None) ClockDriven)
        [(\<lambda>c. 0, OpInsert 0 7 ''a'' (plain_arc 1 1 ''x'') 100 Mutation Unarmed SetEvent),
         (\<lambda>c. 0, OpInsert 0 8 ''b'' (plain_arc 2 1 ''y'') 100 Mutation Unarmed SetEvent)])))
     (usage_weight (usage (foldl memory_step (Retention_new (MemoryLimits_new (Some 1) None) ClockDriven)
        [(\<lambda>c. 0, OpInsert 0 7 ''a'' (plain_arc 1 1 ''x'') 100 Mutation Unarmed SetEvent),
         (\<lambda>c. 0, OpInsert 0 8 ''b'' (plain_arc 2 1 ''y'') 100 Mutation Unarmed SetEvent)])))"
  by (rule memory_within_limits [OF refl, THEN conjunct1])


section \<open>The effect of an admission\<close>

definition lookup :: "'v retention \<Rightarrow> string \<Rightarrow> 'v arc option" where
  "lookup r k = map_option st_entry (hm_get (rt_entries r) k)"

definition reported :: "'v retirement list \<Rightarrow> 'v retention \<Rightarrow> string \<Rightarrow> bool" where
  "reported rets r k \<longleftrightarrow> list_ex (\<lambda>ret. ret_key ret = k \<and> lookup r k = Some (ret_entry ret)) rets"

text \<open>The report of an insertion that replaced the representation of its own key.\<close>

definition replacement_reported :: "memory_write_event \<Rightarrow> string \<Rightarrow> 'v arc \<Rightarrow> 'v commit_report \<Rightarrow> bool" where
  "replacement_reported event key old c \<longleftrightarrow> rc_admission c = ReplacedEntry
     \<and> (\<exists>ret \<in> set (rc_retired c). ret_key ret = key \<and> ret_entry ret = old
          \<and> ret_reason ret = (case event of SetEvent \<Rightarrow> ReplacedBy | ExpireEvent \<Rightarrow> Metadata))"

lemma ret_entry_stored_retire [simp]: "ret_entry (stored_retire k reason s) = st_entry s"
  "ret_reason (stored_retire k reason s) = reason"
  by (simp_all add: stored_retire_def)

lemma reportedI:
  "hm_get (rt_entries r) k = Some s \<Longrightarrow> stored_retire k reason s \<in> set rets \<Longrightarrow> reported rets r k"
  by (force simp: reported_def list_ex_iff lookup_def)

lemma expire_under_pressure_cases:
  assumes "weight_ok r" and "expire_under_pressure ep inow key w now r = (r1, rets)"
  obtains ks where "r1 = with_entries (hm_remove_all ks (rt_entries r)) r"
    and "\<And>k s. k \<in> set ks \<Longrightarrow> hm_get (rt_entries r) k = Some s \<Longrightarrow> reported rets r k"
    and "\<And>ret. ret \<in> set rets \<Longrightarrow> lookup r (ret_key ret) = Some (ret_entry ret) \<and> ret_reason ret \<noteq> Capacity"
proof (cases "pc_fits (rt_limits r) (projection key w r)")
  case True
  with assms that [of "[]"] show ?thesis by (simp add: expire_under_pressure_def with_entries_id)
next
  case False
  then have x: "remove_expired ep inow (Some now) r = (r1, rets)"
    using assms(2) by (simp add: expire_under_pressure_def)
  have r1: "r1 = with_entries (hm_remove_all (expired_keys ep inow (Some now) r) (rt_entries r)) r"
    using remove_expired_fst [OF assms(1), of ep inow "Some now"] by (simp add: x)
  have mem: "lookup r (ret_key ret) = Some (ret_entry ret) \<and> ret_reason ret \<noteq> Capacity"
    if "ret \<in> set rets" for ret
  proof -
    from remove_expired_snd [OF assms(1), of ret ep inow "Some now"] that
    obtain s reason where s: "hm_get (rt_entries r) (ret_key ret) = Some s"
      "stored_retirement_reason ep inow (Some now) s = Some reason"
      "ret = stored_retire (ret_key ret) reason s" by (auto simp: x)
    have "reason \<noteq> Capacity" using s(2) by (auto simp: stored_retirement_reason_def split: if_splits)
    moreover have "ret_entry ret = st_entry s" "ret_reason ret = reason"
      by (subst s(3), simp)+
    ultimately show ?thesis using s(1) by (simp add: lookup_def)
  qed
  have rep: "reported rets r k"
    if k: "k \<in> set (expired_keys ep inow (Some now) r)" and g: "hm_get (rt_entries r) k = Some s" for k s
  proof -
    from k g obtain reason where "stored_retirement_reason ep inow (Some now) s = Some reason"
      by (auto simp: expired_keys_iff [OF assms(1)])
    from remove_expired_reports [OF assms(1) g this] show ?thesis by (simp add: x reportedI [OF g])
  qed
  show ?thesis by (rule that [OF r1]) (use rep mem in blast)+
qed

lemma lookup_remove_all:
  "hm_ok (rt_entries r) \<Longrightarrow> lookup (with_entries (hm_remove_all ks (rt_entries r)) r) k =
     (if k \<in> set ks then None else lookup r k)"
  by (simp add: lookup_def hm.get_rem_all)

lemma reported_append: "reported (xs @ ys) r k \<longleftrightarrow> reported xs r k \<or> reported ys r k"
  by (simp add: reported_def)

lemma plan_victims_not_key:
  assumes "hm_ok (rt_entries r)" and "plan key w p r = Inr victims" and "k \<in> set victims"
  obtains s where "hm_get (rt_entries r) k = Some s" and "evictable key p (k, s)" and "k \<noteq> key"
proof -
  from assms(2) obtain n where "victims = map ec_key (take n (eligible_victims key p r))"
    by (rule plan_Inr)
  with assms(3) obtain c where c: "c \<in> set (eligible_victims key p r)" "ec_key c = k"
    by (auto dest: in_set_takeD)
  from eligible_victims_backed [OF assms(1) c(1)] c(2) that show ?thesis by blast
qed

lemma commit_effect:
  assumes ok: "weight_ok r1" and victims: "plan key (arc_weight e) p r1 = Inr victims"
    and x: "retention_commit inow key e victims retired capture event r1 = (r', c)"
  shows "lookup r' key = Some e" and "rc_admission c = Admitted \<or> rc_admission c = ReplacedEntry"
    and "k \<noteq> key \<Longrightarrow> lookup r' k = (if k \<in> set victims then None else lookup r1 k)"
    and "k \<in> set victims \<Longrightarrow> reported (rc_retired c) r1 k"
    and "ret \<in> set (rc_retired c) \<Longrightarrow> ret \<in> set retired \<or> lookup r1 (ret_key ret) = Some (ret_entry ret)"
    and "ret \<in> set (rc_retired c) \<Longrightarrow> ret_reason ret = Capacity \<Longrightarrow> ret \<in> set retired \<or> ret_key ret \<in> set victims"
    and "set retired \<subseteq> set (rc_retired c)"
    and "lookup r1 key = Some old \<Longrightarrow> replacement_reported event key old c"
    and "lookup r1 key = None \<Longrightarrow> rc_admission c = Admitted"
proof -
  have hok: "hm_ok (rt_entries r1)" using ok by (rule weight_okD)
  have key: "key \<notin> set victims" using plan_victims_not_key [OF hok victims] by blast
  from retention_commit_eq [OF ok, of inow key e victims retired capture event]
  obtain cap where r': "r' = with_entries (hm_insert key (new_stored inow e cap r1)
        (hm_remove key (hm_remove_all victims (rt_entries r1)))) (fst (ticket r1))"
    by (auto simp: x)
  show "lookup r' key = Some e" by (simp add: r' lookup_def hmap_simps)
  show "k \<noteq> key \<Longrightarrow> lookup r' k = (if k \<in> set victims then None else lookup r1 k)"
    by (simp add: r' lookup_def hmap_simps hm.get_rem_all [OF hok])
  note rep = retention_commit_report [OF ok key, where inow = inow and e = e and retired = retired
      and capture = capture and event = event, unfolded x snd_conv]
  show "rc_admission c = Admitted \<or> rc_admission c = ReplacedEntry" by (simp add: rep(1))
  show "k \<in> set victims \<Longrightarrow> reported (rc_retired c) r1 k"
  proof -
    assume k: "k \<in> set victims"
    from plan_victims_not_key [OF hok victims k] obtain s where s: "hm_get (rt_entries r1) k = Some s" by blast
    have "stored_retire k Capacity s \<in> set (rc_retired c)" using k s by (simp add: rep(2) retires_def)
    with s show ?thesis by (rule reportedI)
  qed
  have retires_lookup: "retires (rt_entries r1) f ret \<Longrightarrow>
      lookup r1 (ret_key ret) = Some (ret_entry ret) \<and> (\<exists>s. ret_reason ret = f s)" for f
    unfolding retires_def lookup_def by (metis option.simps(9) ret_entry_stored_retire)
  show "ret \<in> set (rc_retired c) \<Longrightarrow> ret \<in> set retired \<or> lookup r1 (ret_key ret) = Some (ret_entry ret)"
    using retires_lookup by (auto simp: rep(2))
  show "ret \<in> set (rc_retired c) \<Longrightarrow> ret_reason ret = Capacity \<Longrightarrow> ret \<in> set retired \<or> ret_key ret \<in> set victims"
    using retires_lookup by (cases event) (fastforce simp: rep(2))+
  show "set retired \<subseteq> set (rc_retired c)" by (auto simp: rep(2))
  show "lookup r1 key = None \<Longrightarrow> rc_admission c = Admitted" by (simp add: rep(1) lookup_def)
  show "lookup r1 key = Some old \<Longrightarrow> replacement_reported event key old c"
  proof -
    assume "lookup r1 key = Some old"
    then obtain s where s: "hm_get (rt_entries r1) key = Some s" "st_entry s = old" by (auto simp: lookup_def)
    let ?ret = "stored_retire key (case event of SetEvent \<Rightarrow> ReplacedBy | ExpireEvent \<Rightarrow> Metadata) s"
    have "?ret \<in> set (rc_retired c)" using s by (simp add: rep(2) retires_def)
    then show ?thesis using s unfolding replacement_reported_def rep(1) by (intro conjI bexI [of _ ?ret]) auto
  qed
qed


definition origin_advanced :: "'v expected \<Rightarrow> string \<Rightarrow> 'v retention \<Rightarrow> 'v retention" where
  "origin_advanced ex key r = (if changes_origin ex then advance_origin key r else r)"

lemma origin_advanced_fields [simp]:
  "rt_entries (origin_advanced ex key r) = rt_entries r"
  "rt_weight (origin_advanced ex key r) = rt_weight r"
  "rt_limits (origin_advanced ex key r) = rt_limits r"
  "lookup (origin_advanced ex key r) k = lookup r k"
  "weight_ok (origin_advanced ex key r) \<longleftrightarrow> weight_ok r"
  "reported rets (origin_advanced ex key r) k \<longleftrightarrow> reported rets r k"
  by (simp_all add: origin_advanced_def lookup_def weight_ok_def reported_def)

lemma retention_insert_elim:
  assumes "retention_insert ep inow key e now ex capture event r = (r', c)"
  obtains
    (version) "r' = r" and "c = commit_rejected VersionChanged []"
  | (oversized) "r' = origin_advanced ex key r" and "c = commit_rejected Oversized []"
      and "\<not> limits_fits (rt_limits r) 1 (arc_weight e)"
  | (protected) rets reason where
      "expire_under_pressure ep inow key (arc_weight e) now (origin_advanced ex key r) = (r', rets)"
      and "plan key (arc_weight e) (meta_priority (en_meta (arc_entry e))) r' = Inl reason"
      and "c = commit_rejected reason rets"
  | (committed) r1 rets victims where
      "expire_under_pressure ep inow key (arc_weight e) now (origin_advanced ex key r) = (r1, rets)"
      and "plan key (arc_weight e) (meta_priority (en_meta (arc_entry e))) r1 = Inr victims"
      and "retention_commit inow key e victims rets capture event r1 = (r', c)"
  using assms
  by (fastforce simp: retention_insert_def Let_def origin_advanced_def
      split: if_splits prod.splits sum.splits)

lemma plan_Inl: "plan key w p r = Inl reason \<Longrightarrow> reason = ProtectedCapacity"
  by (auto simp: plan_def Let_def split: if_splits dest: plan_victims_Inl)

lemma insert_effect:
  assumes "weight_ok r" and "retention_insert ep inow key e now ex capture event r = (r', c)"
  shows "(case rc_admission c of
      RejectedAdmission reason \<Rightarrow>
        (reason \<noteq> ProtectedCapacity \<longrightarrow> rt_entries r' = rt_entries r)
      \<and> (\<forall>k. lookup r' k = lookup r k \<or> lookup r' k = None \<and> reported (rc_retired c) r k)
    | _ \<Rightarrow> lookup r' key = Some e
      \<and> (case lookup r key of
           None \<Rightarrow> rc_admission c = Admitted
         | Some old \<Rightarrow> replacement_reported event key old c \<or> rc_admission c = Admitted \<and> reported (rc_retired c) r key)
      \<and> (\<forall>k. k \<noteq> key \<longrightarrow>
           lookup r' k = lookup r k \<or> lookup r' k = None \<and> reported (rc_retired c) r k))
    \<and> (\<forall>ret \<in> set (rc_retired c). lookup r (ret_key ret) = Some (ret_entry ret))"
  using assms(2)
proof (cases rule: retention_insert_elim)
  case version
  then show ?thesis by (simp add: commit_rejected_def)
next
  case oversized
  then show ?thesis by (simp add: commit_rejected_def)
next
  case (protected rets reason)
  have ok0: "weight_ok (origin_advanced ex key r)" using assms(1) by simp
  from expire_under_pressure_cases [OF ok0 protected(1)] obtain ks where
    r': "r' = with_entries (hm_remove_all ks (rt_entries r)) (origin_advanced ex key r)"
    and rep: "\<And>k s. k \<in> set ks \<Longrightarrow> hm_get (rt_entries r) k = Some s \<Longrightarrow> reported rets r k"
    and mem: "\<And>ret. ret \<in> set rets \<Longrightarrow> lookup r (ret_key ret) = Some (ret_entry ret)"
    by (metis origin_advanced_fields(1,4,6))
  have "lookup r' k = lookup r k \<or> lookup r' k = None \<and> reported rets r k" for k
    using rep [of k] hm.get_rem_all [OF weight_okD [OF assms(1)], of ks k]
    by (cases "hm_get (rt_entries r) k") (auto simp: r' lookup_def)
  with mem plan_Inl [OF protected(2)] show ?thesis by (simp add: protected(3) commit_rejected_def)
next
  case (committed r1 rets victims)
  have ok0: "weight_ok (origin_advanced ex key r)" using assms(1) by simp
  from expire_under_pressure_cases [OF ok0 committed(1)] obtain ks where
    r1: "r1 = with_entries (hm_remove_all ks (rt_entries r)) (origin_advanced ex key r)"
    and rep: "\<And>k s. k \<in> set ks \<Longrightarrow> hm_get (rt_entries r) k = Some s \<Longrightarrow> reported rets r k"
    and mem: "\<And>ret. ret \<in> set rets \<Longrightarrow> lookup r (ret_key ret) = Some (ret_entry ret)"
    by (metis origin_advanced_fields(1,4,6))
  have ok1: "weight_ok r1" using assms(1) by (simp add: r1 weight_ok_def hm.ok_rem_all)
  have l1: "lookup r1 k = (if k \<in> set ks then None else lookup r k)" for k
    using hm.get_rem_all [OF weight_okD [OF assms(1)], of ks k] by (simp add: r1 lookup_def)
  note eff = commit_effect [OF ok1 committed(2,3)]
  have repc: "reported rets r k \<Longrightarrow> reported (rc_retired c) r k" for k
    using eff(7) by (auto simp: reported_def list_ex_iff)
  have rep1: "reported (rc_retired c) r1 k \<Longrightarrow> reported (rc_retired c) r k" for k
    by (auto simp: reported_def list_ex_iff l1 split: if_splits)
  have "lookup r' k = lookup r k \<or> lookup r' k = None \<and> reported (rc_retired c) r k" if "k \<noteq> key" for k
    using eff(3) [OF that] eff(4) [of k] rep [of k] repc [of k] rep1 [of k] l1 [of k]
    by (cases "hm_get (rt_entries r) k") (auto simp: lookup_def split: if_splits)
  moreover have "lookup r (ret_key ret) = Some (ret_entry ret)" if "ret \<in> set (rc_retired c)" for ret
    using eff(5) [OF that] mem [of ret] l1 by (auto split: if_splits)
  moreover have "case lookup r key of None \<Rightarrow> rc_admission c = Admitted
      | Some old \<Rightarrow> replacement_reported event key old c \<or> rc_admission c = Admitted \<and> reported (rc_retired c) r key"
  proof (cases "key \<in> set ks")
    case True
    then show ?thesis using eff(9) l1 [of key] rep [of key] repc [of key] by (auto simp: lookup_def split: option.split)
  next
    case False
    then show ?thesis using eff(8) eff(9) l1 [of key] by (auto split: option.split)
  qed
  ultimately show ?thesis using eff(1,2) by auto
qed


section \<open>The eviction policy\<close>

lemma sorted_eligible_victims: "sorted (map eviction_order (eligible_victims key p r))"
  by (simp add: eligible_victims_def)

lemma take_before_drop:
  assumes "hm_ok (rt_entries r)" and "c \<in> set (take n (eligible_victims key p r))"
    and "d \<in> set (eligible_victims key p r)" and "ec_key d \<notin> set (map ec_key (take n (eligible_victims key p r)))"
  shows "eviction_order c < eviction_order d"
proof -
  let ?cs = "eligible_victims key p r"
  have "d \<in> set (drop n ?cs)"
    using assms(3,4) by (metis append_take_drop_id set_append Un_iff image_eqI set_map)
  moreover have "sorted (map eviction_order (take n ?cs) @ map eviction_order (drop n ?cs))"
    using sorted_eligible_victims [of key p r] by (metis append_take_drop_id map_append)
  ultimately have "eviction_order c \<le> eviction_order d" using assms(2) by (auto simp: sorted_append)
  moreover have "ec_key c \<noteq> ec_key d" using assms(2,4) by (metis imageI set_map)
  ultimately show ?thesis by (auto simp: eviction_order_def order.order_iff_strict)
qed

text \<open>
  The eviction policy: an entry retired for capacity is never pinned, never of a higher
  priority than the candidate and never the candidate's own key, and it precedes every evictable
  entry that survives in the order of priority, then least recent access, then key.
\<close>

theorem eviction_policy:
  assumes "weight_ok r" and "retention_insert ep inow key e now ex capture event r = (r', c)"
    and "ret \<in> set (rc_retired c)" and "ret_reason ret = Capacity"
  shows "\<exists>s. hm_get (rt_entries r) (ret_key ret) = Some s
    \<and> evictable key (meta_priority (en_meta (arc_entry e))) (ret_key ret, s)
    \<and> (\<forall>k t. hm_get (rt_entries r) k = Some t \<and> lookup r' k \<noteq> None
          \<and> evictable key (meta_priority (en_meta (arc_entry e))) (k, t)
        \<longrightarrow> eviction_order (candidate_of (ret_key ret, s)) < eviction_order (candidate_of (k, t)))"
  using assms(2)
proof (cases rule: retention_insert_elim)
  case (protected rets reason)
  have ok0: "weight_ok (origin_advanced ex key r)" using assms(1) by simp
  show ?thesis using assms(3,4) expire_under_pressure_cases [OF ok0 protected(1)]
    by (auto simp: protected(3) commit_rejected_def)
next
  case (committed r1 rets victims)
  let ?p = "meta_priority (en_meta (arc_entry e))"
  have ok0: "weight_ok (origin_advanced ex key r)" using assms(1) by simp
  from expire_under_pressure_cases [OF ok0 committed(1)] obtain ks where
    r1: "r1 = with_entries (hm_remove_all ks (rt_entries r)) (origin_advanced ex key r)"
    and mem: "\<And>ret. ret \<in> set rets \<Longrightarrow> ret_reason ret \<noteq> Capacity"
    by (metis origin_advanced_fields(1))
  have ok1: "weight_ok r1" using assms(1) by (simp add: r1 weight_ok_def hm.ok_rem_all)
  have hok1: "hm_ok (rt_entries r1)" using ok1 by (rule weight_okD)
  have get1: "hm_get (rt_entries r1) k = (if k \<in> set ks then None else hm_get (rt_entries r) k)" for k
    using hm.get_rem_all [OF weight_okD [OF assms(1)], of ks k] by (simp add: r1)
  note eff = commit_effect [OF ok1 committed(2,3)]
  from eff(6) [OF assms(3,4)] mem [of ret] assms(4) have v: "ret_key ret \<in> set victims" by auto
  from committed(2) obtain n where vs: "victims = map ec_key (take n (eligible_victims key ?p r1))"
    by (rule plan_Inr)
  with v obtain cd where cd: "cd \<in> set (take n (eligible_victims key ?p r1))" "ec_key cd = ret_key ret" by auto
  from eligible_victims_backed [OF hok1 in_set_takeD [OF cd(1)]] cd(2) obtain s where
    s: "hm_get (rt_entries r1) (ret_key ret) = Some s" "cd = candidate_of (ret_key ret, s)"
    "evictable key ?p (ret_key ret, s)" by auto
  have "eviction_order cd < eviction_order (candidate_of (k, t))"
    if t: "hm_get (rt_entries r) k = Some t" "lookup r' k \<noteq> None" "evictable key ?p (k, t)" for k t
  proof (rule take_before_drop [OF hok1 cd(1)])
    have "k \<noteq> key" using t(3) by (simp add: evictable_def)
    with eff(3) [of k] t(2) have nv: "k \<notin> set victims" "lookup r1 k \<noteq> None" by (auto split: if_splits)
    then have "hm_get (rt_entries r1) k = Some t" using t(1) get1 [of k] by (auto simp: lookup_def split: if_splits)
    then show "candidate_of (k, t) \<in> set (eligible_victims key ?p r1)"
      using t(3) hok1 by (auto simp: set_eligible_victims hm_get_eq_Some)
    show "ec_key (candidate_of (k, t)) \<notin> set (map ec_key (take n (eligible_victims key ?p r1)))"
      using nv(1) by (simp add: ec_key_candidate_of flip: vs set_map)
  qed
  with s get1 show ?thesis by (auto split: if_splits)
qed (use assms(3) in \<open>simp_all add: commit_rejected_def\<close>)


lemmas memory_eval = retention_insert_def expected_matches_def changes_origin_def advance_origin_def
  origins_advance_def limits_fits_def expire_under_pressure_def pc_fits_def projection_def plan_def
  eligible_victims_def retention_commit_def retention_store_def retention_remove_def ticket_def
  remove_expired_def stored_retirement_reason_def evictable_def candidate_of_def Retention_new_def
  MemoryLimits_new_def plain_arc_def arc_weight_def meta_size_def meta_priority_def with_retention_def
  PlainPlan_prepare_def plain_into_fresh_def PlainPlan_metadata_def is_read_eligible_def
  is_physically_expired_def is_before_def Origins_default_def saturating_add_u128_def
  stored_retire_def commit_rejected_def Let_def machine_defs

definition demo_store :: "string retention" where
  "demo_store = fst (retention_insert (\<lambda>c. 0) 0 ''a'' (plain_arc 1 1 ''x'') 100 Mutation Unarmed SetEvent
     (Retention_new (MemoryLimits_new (Some 1) None) ClockDriven))"

lemma weight_ok_demo_store: "weight_ok demo_store"
  unfolding demo_store_def by (rule bounded_weight_ok [OF bounded_insert [OF bounded_new]])

lemma demo_store_insert:
  "rc_retired (snd (retention_insert (\<lambda>c. 0) 0 ''b'' (plain_arc 2 1 ''y'') 100 Mutation Unarmed SetEvent
     demo_store)) = [\<lparr>ret_key = ''a'', ret_entry = plain_arc 1 1 ''x'', ret_reason = Capacity,
        ret_capture = Unarmed\<rparr>]"
  by (simp add: demo_store_def memory_eval)


theorem eviction_policy_witness:
  "\<exists>s. hm_get (rt_entries demo_store) ''a'' = Some s \<and> evictable ''b'' Normal (''a'', s)"
proof -
  obtain r' c where x: "retention_insert (\<lambda>c. 0) 0 ''b'' (plain_arc 2 1 ''y'') 100 Mutation Unarmed SetEvent
     demo_store = (r', c)" by fastforce
  have "rc_retired c = [\<lparr>ret_key = ''a'', ret_entry = plain_arc 1 1 ''x'', ret_reason = Capacity,
        ret_capture = Unarmed\<rparr>]" using demo_store_insert by (simp only: x snd_conv)
  then show ?thesis
    using eviction_policy [OF weight_ok_demo_store x, of "\<lparr>ret_key = ''a'', ret_entry = plain_arc 1 1 ''x'',
        ret_reason = Capacity, ret_capture = Unarmed\<rparr>"]
    by (auto simp: plain_arc_def with_retention_def meta_priority_def)
qed

lemma evicted_fits_contents:
  assumes ok: "weight_ok r" and n: "n \<le> length (eligible_victims key p r)"
    and vs: "vs = key # map ec_key (take n (eligible_victims key p r))"
  shows "evicted_fits (rt_limits r) (projection key w r) (eligible_victims key p r) n \<longleftrightarrow>
    limits_fits (rt_limits r) (length (hm_remove_all vs (rt_entries r)) + 1)
      (hm_sum stored_weight (hm_remove_all vs (rt_entries r)) + w)"
proof -
  let ?cs = "take n (eligible_victims key p r)" and ?es = "hm_remove key (rt_entries r)"
  have hok: "hm_ok (rt_entries r)" using ok by (rule weight_okD)
  have dist: "distinct (map ec_key ?cs)"
    using distinct_eligible_victims [OF hok, of key p] by (metis distinct_take take_map)
  have backs: "\<exists>s. hm_get ?es (ec_key c) = Some s \<and> ec_weight c = stored_weight s" if "c \<in> set ?cs" for c
    using eligible_victims_backed [OF hok in_set_takeD [OF that]] by (auto simp: hmap_simps)
  have hes: "hm_ok ?es" using hok by simp
  note backed = hm_remove_all_backed [OF hes dist backs]
  have "length ?es + 1 - n = length (hm_remove_all vs (rt_entries r)) + 1"
    using backed(1) n by (simp add: vs)
  moreover have "hm_sum stored_weight ?es + w - sum_list (map ec_weight ?cs) =
      hm_sum stored_weight (hm_remove_all vs (rt_entries r)) + w"
    using backed(2) by (simp add: vs)
  ultimately show ?thesis
    unfolding evicted_fits_def projection_eq [OF ok] projected_capacity.simps by (simp only:)
qed

text \<open>
  Planning is minimal and complete: the planned victims are the shortest prefix of the
  eviction order whose removal makes room for the candidate, and a candidate is refused for
  protected capacity only if evicting every evictable entry would still not make room.
\<close>

theorem plan_minimal_complete:
  assumes "weight_ok r"
    and "room = (\<lambda>n. let gone = key # map ec_key (take n (eligible_victims key p r))
      in limits_fits (rt_limits r) (length (hm_remove_all gone (rt_entries r)) + 1)
           (hm_sum stored_weight (hm_remove_all gone (rt_entries r)) + w))"
  shows "case plan key w p r of
      Inr victims \<Rightarrow> \<exists>n \<le> length (eligible_victims key p r).
        victims = map ec_key (take n (eligible_victims key p r)) \<and> room n \<and> (\<forall>m < n. \<not> room m)
    | Inl reason \<Rightarrow> reason = ProtectedCapacity \<and> (\<forall>m \<le> length (eligible_victims key p r). \<not> room m)"
proof -
  have room: "room n \<longleftrightarrow> evicted_fits (rt_limits r) (projection key w r) (eligible_victims key p r) n"
    if "n \<le> length (eligible_victims key p r)" for n
    using evicted_fits_contents [OF assms(1) that refl] by (simp add: assms(2) Let_def)
  show ?thesis
  proof (cases "plan key w p r")
    case (Inr victims)
    from plan_Inr [OF this] obtain n where "n \<le> length (eligible_victims key p r)"
      "victims = map ec_key (take n (eligible_victims key p r))"
      "evicted_fits (rt_limits r) (projection key w r) (eligible_victims key p r) n"
      "\<And>m. m < n \<Longrightarrow> \<not> evicted_fits (rt_limits r) (projection key w r) (eligible_victims key p r) m" by blast
    then show ?thesis using Inr room by auto
  next
    case (Inl reason)
    then have no: "\<not> pc_fits (rt_limits r) (projection key w r)"
      and pv: "plan_victims (rt_limits r) (projection key w r) (eligible_victims key p r) [] = Inl reason"
      by (auto simp: plan_def Let_def split: if_splits)
    have "\<not> evicted_fits (rt_limits r) (projection key w r) (eligible_victims key p r) m"
      if "m \<le> length (eligible_victims key p r)" for m
      using that plan_victims_Inl [OF pv] no by (cases m) (auto simp: evicted_fits_def pc_fits_def)
    then show ?thesis using Inl room plan_victims_Inl [OF pv] by simp
  qed
qed

theorem plan_minimal_complete_witness:
  "plan ''b'' 1 Normal demo_store = Inr [''a''] \<and> plan ''b'' 1 Low demo_store = Inl ProtectedCapacity
   \<and> \<not> limits_fits (rt_limits demo_store) (length (hm_remove_all [''b''] (rt_entries demo_store)) + 1)
       (hm_sum stored_weight (hm_remove_all [''b''] (rt_entries demo_store)) + 1)"
proof -
  have p: "plan ''b'' 1 Normal demo_store = Inr [''a'']" "plan ''b'' 1 Low demo_store = Inl ProtectedCapacity"
    by (simp_all add: demo_store_def memory_eval)
  from plan_minimal_complete [OF weight_ok_demo_store refl, where key = "''b''" and w = 1 and p = Low]
  have "\<not> limits_fits (rt_limits demo_store) (length (hm_remove_all [''b''] (rt_entries demo_store)) + 1)
       (hm_sum stored_weight (hm_remove_all [''b''] (rt_entries demo_store)) + 1)"
    unfolding p(2) sum.case Let_def by (metis le0 list.simps(8) take_0)
  with p show ?thesis by blast
qed

section \<open>Prepared local deadlines\<close>

text \<open>
  For a cache on its own local clock, the prepared deadlines of a stored entry decide
  physical expiry and freshness at any later instant exactly as the entry's timestamps do at
  the clock's reading.
\<close>

theorem local_deadlines_exact:
  assumes "in_i64 (epoch clock)" and "entry_ok en" and "m = en_meta en"
    and "epoch clock < md_logical_expiration m"
    and "origin clock \<le> i" and "i < 2 ^ 63 * 1000000000"
    and "d = prepare_deadlines (LocalTiming clock) m time expiry inow"
  shows "deadlines_physically_expired d m now (Some i) inow' = is_physically_expired (LocalClock_now clock i) en
    \<and> deadlines_freshness d i = Some (entry_freshness (LocalClock_now clock i) en)"
proof -
  have l: "in_i64 (md_logical_expiration m)" "in_i64 (md_physical_expiration m)"
    "epoch clock < md_physical_expiration m"
    using assms(2,4) by (auto simp: entry_ok_def assms(3))
  have agree: "deadline_expired (LocalClock_deadline clock t) i \<longleftrightarrow> \<not> is_before (LocalClock_now clock i) t"
    if "in_i64 t" "epoch clock < t" for t
    using local_deadline_agrees [OF assms(1) that assms(5,6)] .
  show ?thesis
    using agree [OF l(1) assms(4)] agree [OF l(2,3)]
    by (auto simp: assms(3,7) prepare_deadlines_def prepare_boundaries_def Let_def
        deadlines_physically_expired_def deadlines_freshness_def is_physically_expired_def entry_freshness_def)
qed

theorem local_deadlines_exact_witness:
  "deadlines_freshness (prepare_deadlines (LocalTiming \<lparr>epoch = 0, origin = 50\<rparr>) (en_meta sample_entry)
      (Clock 100) ClockDriven 0) 11050 = Some (entry_freshness
        (LocalClock_now \<lparr>epoch = 0, origin = 50\<rparr> 11050) sample_entry)"
proof -
  have "entry_ok sample_entry" "md_logical_expiration (en_meta sample_entry) = 110"
    by (simp_all add: sample_entry_def FreshPlan_prepare_def entry_ok_def machine_defs)
  then show ?thesis
    by (intro local_deadlines_exact [THEN conjunct2, OF _ _ refl _ _ _ refl]) (simp_all add: in_i64_def)
qed

end
