(* ===== verification/Amalgam_Observations.thy ===== *)
theory Amalgam_Observations
  imports Amalgam_Memory_Facts Amalgam_Snapshots
begin

text \<open>
  \<open>marker_reads.rs\<close> and \<open>marker_reads/memory.rs\<close>: what a cache remembers of the invalidation markers
  it has read. An observation says whether a marker was present in the authority that was asked, and
  why it may be older than that authority; it is kept in a first level of its own, under keys that
  name the authority, together with one shortcut per clear marker that is valid for one
  continuity epoch. The lemmas show that merging an observation with a known maximum is a join that
  never lowers a revision, that the shortcut of another epoch or of a tag is never used, that the keys of
  different authorities and markers never collide, and that a fresh observation is what a ready
  lookup returns.
\<close>

section \<open>Observations\<close>

datatype marker_read_policy = DurableRequired | OptionsControlled

datatype marker_read_failure =
    LockTimeoutFailure
  | SoftTimeoutFailure
  | HardTimeoutFailure
  | FactorySoftTimeoutFailure
  | FactoryHardTimeoutFailure
  | BackendFailure
  | ProtocolFailure

datatype marker_read_outcome =
    ReadCached
  | ReadObserved
  | ReadLocal
  | ReadKnownMaximum
  | ReadSkipped
  | ReadStaleFallback marker_read_failure
  | ReadUnavailable marker_read_failure

datatype marker_presence = MarkerPresent marker_version | MarkerAbsent

datatype marker_observation =
    Confirmed marker_presence
  | LocalFact marker_presence
  | KnownMaximum marker_version
  | Retained marker_presence marker_read_failure

fun observation_presence :: "marker_observation \<Rightarrow> marker_presence" where
  "observation_presence (Confirmed p) = p"
| "observation_presence (LocalFact p) = p"
| "observation_presence (Retained p f) = p"
| "observation_presence (KnownMaximum v) = MarkerPresent v"

fun observation_outcome :: "marker_observation \<Rightarrow> marker_read_outcome" where
  "observation_outcome (Confirmed p) = ReadCached"
| "observation_outcome (LocalFact p) = ReadLocal"
| "observation_outcome (KnownMaximum v) = ReadKnownMaximum"
| "observation_outcome (Retained p f) = ReadStaleFallback f"

fun observed_outcome :: "marker_observation \<Rightarrow> marker_read_outcome" where
  "observed_outcome (Confirmed p) = ReadObserved"
| "observed_outcome (LocalFact p) = ReadLocal"
| "observed_outcome (KnownMaximum v) = ReadKnownMaximum"
| "observed_outcome (Retained p f) = ReadStaleFallback f"

definition reconcile_maximum :: "marker_version option \<Rightarrow> marker_observation \<Rightarrow> marker_observation" where
  "reconcile_maximum maximum obs =
     (case (observation_presence obs, maximum) of
        (MarkerAbsent, Some m) \<Rightarrow> KnownMaximum m
      | (MarkerPresent v, Some m) \<Rightarrow> if m > v then KnownMaximum m else obs
      | (_, None) \<Rightarrow> obs)"

fun presence_version :: "marker_presence \<Rightarrow> marker_version option" where
  "presence_version (MarkerPresent v) = Some v"
| "presence_version MarkerAbsent = None"

abbreviation observation_version :: "marker_observation \<Rightarrow> marker_version option" where
  "observation_version obs \<equiv> presence_version (observation_presence obs)"

section \<open>Clear shortcuts\<close>

datatype clear_observation = ClearUnknown | ClearKnown nat marker_read_outcome

record clear_observations =
  clears_remove :: clear_observation
  clears_expire :: clear_observation

definition reset_clears :: clear_observations where
  "reset_clears = \<lparr>clears_remove = ClearUnknown, clears_expire = ClearUnknown\<rparr>"

fun clear_of :: "marker_kind \<Rightarrow> clear_observations \<Rightarrow> clear_observation option" where
  "clear_of ClearRemove c = Some (clears_remove c)"
| "clear_of ClearExpire c = Some (clears_expire c)"
| "clear_of (TagKind t) c = None"

definition clear_status :: "marker_kind \<Rightarrow> nat \<Rightarrow> clear_observations \<Rightarrow> marker_read_outcome option" where
  "clear_status kind ep c =
     (case clear_of kind c of
        Some (ClearKnown captured outcome) \<Rightarrow> if captured = ep then Some outcome else None
      | _ \<Rightarrow> None)"

fun initialize_clear :: "marker_kind \<Rightarrow> nat \<Rightarrow> marker_read_outcome \<Rightarrow> clear_observations \<Rightarrow> clear_observations" where
  "initialize_clear ClearRemove ep outcome c = c\<lparr>clears_remove := ClearKnown ep (if outcome = ReadObserved then ReadCached else outcome)\<rparr>"
| "initialize_clear ClearExpire ep outcome c = c\<lparr>clears_expire := ClearKnown ep (if outcome = ReadObserved then ReadCached else outcome)\<rparr>"
| "initialize_clear (TagKind t) ep outcome c = c"

section \<open>Keys\<close>

fun observations_key :: "marker_kind \<Rightarrow> string" where
  "observations_key ClearRemove = ''clear:remove''"
| "observations_key ClearExpire = ''clear:expire''"
| "observations_key (TagKind t) = ''tag:'' @ tag_as_str t"

datatype marker_memory_namespace = LocalNamespace string | DurableNamespace cache_scope

fun namespace_text :: "marker_memory_namespace \<Rightarrow> string \<times> string" where
  "namespace_text (LocalNamespace prefix) = (''local'', prefix)"
| "namespace_text (DurableNamespace scope) = (''durable'', storage_id scope)"

definition namespace_key :: "marker_memory_namespace \<Rightarrow> marker_kind \<Rightarrow> string" where
  "namespace_key ns kind =
     (let (authority, scope) = namespace_text ns
      in char_of (31::nat) # ''amalgam/marker-memory/'' @ authority @ ''/'' @ encode_hex scope @ ''/'' @ encode_hex (observations_key kind))"

definition MarkerLeaseKey_new :: "cache_scope \<Rightarrow> marker_kind \<Rightarrow> string" where
  "MarkerLeaseKey_new scope kind =
     char_of (31::nat) # ''amalgam/v2/marker-locks/'' @ encode_hex (storage_id scope) @ ''/'' @ encode_hex (observations_key kind)"

section \<open>Ready lookups\<close>

datatype clear_shortcut = AllowShortcut | BypassShortcut

datatype marker_ready = ReadyCached marker_observation | ReadyShortcut marker_read_outcome | ReadySkipped "marker_version option"

fun ready_outcome :: "marker_ready \<Rightarrow> marker_read_outcome" where
  "ready_outcome (ReadyCached obs) = observation_outcome obs"
| "ready_outcome (ReadyShortcut outcome) = outcome"
| "ready_outcome (ReadySkipped m) = ReadSkipped"

fun ready_maximum :: "marker_ready \<Rightarrow> marker_version option" where
  "ready_maximum (ReadyCached obs) = observation_version obs"
| "ready_maximum (ReadyShortcut outcome) = None"
| "ready_maximum (ReadySkipped m) = m"

text \<open>\<open>ready_value\<close> over the built-in store, which is never the supplied local one.\<close>

definition ready_value ::
  "marker_lifecycle_policy \<Rightarrow> marker_memory_namespace \<Rightarrow> (nat \<Rightarrow> nat) \<Rightarrow> instant \<Rightarrow> marker_kind \<Rightarrow> entry_options \<Rightarrow> timestamp \<Rightarrow> nat
   \<Rightarrow> clear_shortcut \<Rightarrow> clear_observations \<Rightarrow> marker_observation retention \<Rightarrow> marker_observation retention \<times> marker_ready option" where
  "ready_value lifecycle ns ep inow kind opts now captured shortcut clears m =
     (case (case shortcut of AllowShortcut \<Rightarrow> clear_status kind captured clears | BypassShortcut \<Rightarrow> None) of
        Some outcome \<Rightarrow> (m, Some (ReadyShortcut outcome))
      | None \<Rightarrow>
          let (m, cached) = (if opt_skip_memory_read opts then (m, None) else with_ready ep inow (namespace_key ns kind) now m);
              cached = map_option (arc_entry \<circ> fst) cached
          in case cached of
               Some e \<Rightarrow>
                 if is_fresh (entry_freshness now e)
                 then (m, if lifecycle = CachedSnapshots \<and> should_eager_refresh now e then None else Some (ReadyCached (en_value e)))
                 else if opt_skip_distributed_read opts \<or> opt_skip_distributed_read_when_stale opts
                 then (m, case lifecycle of DurableOnly \<Rightarrow> Some (ReadySkipped (observation_version (en_value e))) | CachedSnapshots \<Rightarrow> None)
                 else (m, None)
             | None \<Rightarrow>
                 if opt_skip_distributed_read opts
                 then (m, case lifecycle of DurableOnly \<Rightarrow> Some (ReadySkipped None) | CachedSnapshots \<Rightarrow> None)
                 else (m, None))"

section \<open>Maxima\<close>

fun join_version :: "marker_version option \<Rightarrow> marker_version option \<Rightarrow> marker_version option" where
  "join_version None b = b"
| "join_version (Some a) None = Some a"
| "join_version (Some a) (Some b) = Some (max a b)"

definition version_le :: "marker_version option \<Rightarrow> marker_version option \<Rightarrow> bool" where
  "version_le a b = (case a of None \<Rightarrow> True | Some x \<Rightarrow> (case b of None \<Rightarrow> False | Some y \<Rightarrow> x \<le> y))"

lemma version_le_refl [simp]: "version_le a a"
  by (simp add: version_le_def split: option.split)

lemma version_le_trans: "version_le a b \<Longrightarrow> version_le b c \<Longrightarrow> version_le a c"
  by (auto simp: version_le_def split: option.splits)

lemma version_le_join [simp]: "version_le a (join_version a b)" "version_le b (join_version a b)"
  by (cases a; cases b; simp add: version_le_def)+

lemma join_version_least: "version_le a c \<Longrightarrow> version_le b c \<Longrightarrow> version_le (join_version a b) c"
  by (cases a; cases b) (auto simp: version_le_def split: option.splits)

lemma reconcile_maximum_version [simp]: "observation_version (reconcile_maximum m obs) = join_version (observation_version obs) m"
  by (cases "observation_presence obs"; cases m) (auto simp: reconcile_maximum_def)

lemma reconcile_maximum_idem [simp]: "reconcile_maximum m (reconcile_maximum m obs) = reconcile_maximum m obs"
  by (cases "observation_presence obs"; cases m) (auto simp: reconcile_maximum_def)

text \<open>
  What a merge of facts promises to whoever keeps maxima: the result is at least both, and merging what is
  already known changes nothing.
\<close>

locale maximum_merge =
  fixes version :: "'o \<Rightarrow> marker_version option" and merge :: "marker_version option \<Rightarrow> 'o \<Rightarrow> 'o"
  assumes merge_version: "version (merge m x) = join_version (version x) m"
    and merge_known: "version_le m (version x) \<Longrightarrow> merge m x = x"
begin

lemma merge_grows: "version_le (version x) (version (merge m x))" "version_le m (version (merge m x))"
  by (simp_all add: merge_version)

lemma merge_all: "version_le (version x) (version (fold merge ms x)) \<and> (\<forall>m\<in>set ms. version_le m (version (fold merge ms x)))"
proof (induction ms arbitrary: x)
  case (Cons m ms)
  show ?case using Cons.IH [of "merge m x"] merge_grows(1) [of x m] merge_grows(2) [of m x] by (auto intro: version_le_trans)
qed simp

lemma merge_absorbs: "version_le m' (version (merge m x)) \<Longrightarrow> merge m' (merge m x) = merge m x"
  by (rule merge_known)

end

interpretation obs_merge: maximum_merge "observation_version" reconcile_maximum
proof
  show "observation_version (reconcile_maximum m x) = join_version (observation_version x) m" for m x by simp
  show "version_le m (observation_version x) \<Longrightarrow> reconcile_maximum m x = x" for m x
    by (cases "observation_presence x"; cases m) (auto simp: reconcile_maximum_def version_le_def)
qed

lemma snapshot_merge_version: "snap_version (with_maximum m s) = the (join_version (Some (snap_version s)) m)"
  by (cases m) (simp_all add: with_maximum_def max.commute)

interpretation snap_merge: maximum_merge "\<lambda>s. Some (snap_version s)" with_maximum
proof
  show "Some (snap_version (with_maximum m x)) = join_version (Some (snap_version x)) m" for m x
    by (cases m) (simp_all add: with_maximum_def max.commute)
  show "version_le m (Some (snap_version x)) \<Longrightarrow> with_maximum m x = x" for m x
    by (cases m) (simp_all add: with_maximum_def version_le_def max_absorb2)
qed

section \<open>Shortcuts and keys\<close>

lemma clear_status_Some:
  "clear_status kind ep c = Some outcome \<longleftrightarrow> clear_of kind c = Some (ClearKnown ep outcome)"
  by (auto simp: clear_status_def split: option.splits clear_observation.splits)

lemma clear_status_reset [simp]: "clear_status kind ep reset_clears = None"
  by (cases kind) (simp_all add: clear_status_def reset_clears_def)

lemma clear_status_initialize:
  "clear_status k ep' (initialize_clear kind ep outcome c) =
     (if k = kind \<and> (\<forall>t. kind \<noteq> TagKind t) then (if ep' = ep then Some (if outcome = ReadObserved then ReadCached else outcome) else None)
      else clear_status k ep' c)"
  by (cases kind; cases k) (simp_all add: clear_status_def)

lemma encode_hex_inject [simp]: "encode_hex a = encode_hex b \<longleftrightarrow> a = b"
  by (metis decode_encode_hex sum.inject(2))

lemma hex_digit_not_slash: "n < 16 \<Longrightarrow> hex_digit n \<noteq> CHR ''/''"
proof
  assume "n < 16" "hex_digit n = CHR ''/''"
  then have "of_char (hex_digit n) = (47::nat)" by simp
  then show False using \<open>n < 16\<close> by (simp add: hex_digit_def split: if_splits)
qed

lemma encode_hex_no_slash: "CHR ''/'' \<notin> set (encode_hex bs)"
proof (induction bs)
  case (Cons b bs)
  have "byte_of b div 16 < 16" "byte_of b mod 16 < 16" using byte_of_less [of b] by (linarith, simp)
  then have "hex_digit (byte_of b div 16) \<noteq> CHR ''/''" "hex_digit (byte_of b mod 16) \<noteq> CHR ''/''" by (simp_all only: hex_digit_not_slash not_False_eq_True)
  then show ?case using Cons by auto
qed simp

lemma split_at_separator:
  assumes "a @ c # b = a' @ c # b'" "c \<notin> set a" "c \<notin> set a'"
  shows "a = a' \<and> b = b'"
  using assms by (auto simp: append_eq_append_conv2 append_eq_Cons_conv Cons_eq_append_conv)

lemma observations_key_inject: "observations_key k = observations_key k' \<longleftrightarrow> k = k'"
proof (cases k)
  case (TagKind t)
  then show ?thesis by (cases k'; cases t) (auto, metis tag_as_str.simps tag.exhaust)
qed (cases k'; simp)+

definition same_namespace :: "marker_memory_namespace \<Rightarrow> marker_memory_namespace \<Rightarrow> bool" where
  "same_namespace a b =
     (case (a, b) of
        (LocalNamespace p, LocalNamespace q) \<Rightarrow> p = q
      | (DurableNamespace s, DurableNamespace t) \<Rightarrow> scope_eq s t
      | _ \<Rightarrow> False)"

lemma namespace_text_inject: "namespace_text a = namespace_text b \<longleftrightarrow> same_namespace a b"
  by (cases a; cases b) (simp_all add: same_namespace_def storage_id_injective)

lemma namespace_authority: "fst (namespace_text ns) \<in> {''local'', ''durable''}"
  by (cases ns) simp_all

text \<open>
  The records of two authorities, scopes or markers never share a key of the observation memory, and two markers
  share a lease only if they are the same marker of the same scope.
\<close>
theorem marker_keys_distinct:
  "(namespace_key a k = namespace_key b k' \<longleftrightarrow> same_namespace a b \<and> k = k')
   \<and> (MarkerLeaseKey_new s k = MarkerLeaseKey_new t k' \<longleftrightarrow> scope_eq s t \<and> k = k')"
proof -
  have sep: "encode_hex x @ CHR ''/'' # encode_hex y = encode_hex x' @ CHR ''/'' # encode_hex y' \<longleftrightarrow> x = x' \<and> y = y'" for x y x' y'
    using split_at_separator [of "encode_hex x" "CHR ''/''" "encode_hex y" "encode_hex x'" "encode_hex y'"] encode_hex_no_slash by auto
  have full: "namespace_key ns k = char_of (31::nat) # ''amalgam/marker-memory/'' @ fst (namespace_text ns) @ CHR ''/'' # encode_hex (snd (namespace_text ns)) @ CHR ''/'' # encode_hex (observations_key k)" for ns k
    by (cases ns) (simp_all add: namespace_key_def)
  have "CHR ''/'' \<notin> set (fst (namespace_text ns))" for ns by (cases ns) simp_all
  then have "namespace_key a k = namespace_key b k' \<longleftrightarrow> fst (namespace_text a) = fst (namespace_text b)
      \<and> encode_hex (snd (namespace_text a)) @ CHR ''/'' # encode_hex (observations_key k) = encode_hex (snd (namespace_text b)) @ CHR ''/'' # encode_hex (observations_key k')"
    unfolding full using split_at_separator [of "fst (namespace_text a)" "CHR ''/''" _ "fst (namespace_text b)"] by auto
  also have "\<dots> \<longleftrightarrow> namespace_text a = namespace_text b \<and> k = k'" unfolding sep observations_key_inject by (auto simp: prod_eq_iff)
  finally have "namespace_key a k = namespace_key b k' \<longleftrightarrow> same_namespace a b \<and> k = k'" unfolding namespace_text_inject .
  moreover have "MarkerLeaseKey_new s k = MarkerLeaseKey_new t k' \<longleftrightarrow> scope_eq s t \<and> k = k'"
    using sep [of "storage_id s" "observations_key k" "storage_id t" "observations_key k'"]
    by (simp add: MarkerLeaseKey_new_def storage_id_injective observations_key_inject)
  ultimately show ?thesis ..
qed

lemma ready_value_cached:
  assumes "ready_value lifecycle ns ep inow kind opts now captured shortcut clears m = (m', Some (ReadyCached obs))"
  shows "\<exists>e. with_ready ep inow (namespace_key ns kind) now m = (m', Some (e, Fresh)) \<and> en_value (arc_entry e) = obs"
  using assms
  by (auto simp: ready_value_def Let_def with_ready_def split: option.splits if_splits prod.splits marker_lifecycle_policy.splits)
    (metis (no_types, lifting) is_fresh.elims(2))+

end
