(* ===== verification/Amalgam_Recovery.thy ===== *)
theory Amalgam_Recovery
  imports Amalgam_Snapshots
begin

text \<open>
  The recovery queue of \<open>src/recovery.rs\<close>: failed side effects wait under their key until they
  are replayed, superseded, expired or out of budget. Every method that takes the queue mutex is
  one definition on the service record, and the asynchronous worker is a sequence of such
  critical sections with anything in between. A fence (\<open>dyn RecoveryFence\<close>) is an identity with
  its immutable generation; whether it is current at a call is an argument of that call, as the
  clock reading is. The replay executor is an argument too: what happens while it runs is an
  arbitrary list of critical sections of other callers.
\<close>

section \<open>Work\<close>

datatype recovery_action = ActionSet | ActionRemove | ActionExpire

record recovery_item =
  item_key :: string
  item_action :: recovery_action
  item_timestamp :: timestamp
  item_expires_at :: timestamp
  item_remaining_retries :: "nat option"

record recovery_config =
  rc_enabled :: bool
  rc_delay :: duration
  rc_max_items :: "nat option"
  rc_max_retries :: "nat option"

definition RecoveryConfig_default :: recovery_config where
  "RecoveryConfig_default = \<lparr>rc_enabled = True, rc_delay = from_secs 5, rc_max_items = Some 1024,
     rc_max_retries = None\<rparr>"

type_synonym operation_generation = nat

definition generation_next :: "operation_generation \<Rightarrow> recovery_error + operation_generation" where
  "generation_next g = (case checked_add_u64 g 1 of
     Some n \<Rightarrow> Inr n
   | None \<Rightarrow> Inl GenerationExhausted)"

datatype recovery_fence = Fence (fence_lane: nat) (fence_generation: operation_generation)

datatype data_mutation =
    MutSet string timestamp
  | MutRemove
  | MutExpire string timestamp

fun mutation_remaining_ttl :: "data_mutation \<Rightarrow> timestamp \<Rightarrow> duration option" where
  "mutation_remaining_ttl (MutSet bytes physical) now = Some (saturating_duration_since physical now)"
| "mutation_remaining_ttl (MutExpire bytes physical) now = Some (saturating_duration_since physical now)"
| "mutation_remaining_ttl MutRemove now = None"

datatype pending_mutation =
    Legacy
  | Commit data_mutation "backplane_command option"
  | FencedCommit data_mutation "backplane_command option"
  | ColdExpire timestamp "backplane_command option"
  | Notify backplane_command

datatype marker_replay = AdvanceOnly | AdvanceAndNotify | NotifyOnly

datatype recovery_stage_transition = StageAdvanced | StageUnchanged | StageSuperseded

datatype recovery_work =
    DataWork recovery_item pending_mutation
  | MarkerWork marker_command marker_replay
  | MutationWork marker_mutation_recovery
  | SnapshotWork marker_snapshot_replay

fun work_item :: "recovery_work \<Rightarrow> recovery_item option" where
  "work_item (DataWork item mutation) = Some item"
| "work_item (MarkerWork c stage) = None"
| "work_item (MutationWork w) = None"
| "work_item (SnapshotWork w) = None"

text \<open>Scopes are compared by their physical parts, so the key holds \<open>scope_key\<close>.\<close>

datatype recovery_key =
    DataKey string
  | MarkerKey "string \<times> string" marker_kind
  | SnapshotKey "string \<times> string" marker_kind

definition command_key :: "marker_command \<Rightarrow> recovery_key" where
  "command_key c = MarkerKey (scope_key (cmd_scope c)) (marker_kind_of (cmd_marker c))"

fun work_key :: "recovery_work \<Rightarrow> recovery_key" where
  "work_key (DataWork item mutation) = DataKey (item_key item)"
| "work_key (MarkerWork c stage) = command_key c"
| "work_key (MutationWork w) = command_key (mm_command w)"
| "work_key (SnapshotWork w) = SnapshotKey (scope_key (replay_scope w)) (replay_kind w)"

fun work_timestamp :: "recovery_work \<Rightarrow> timestamp" where
  "work_timestamp (DataWork item mutation) = item_timestamp item"
| "work_timestamp (MarkerWork c stage) = marker_version_of (cmd_marker c)"
| "work_timestamp (MutationWork w) = mm_version w"
| "work_timestamp (SnapshotWork w) = snap_version (replay_snapshot w)"

fun work_expires_at :: "recovery_work \<Rightarrow> timestamp option" where
  "work_expires_at (DataWork item mutation) = Some (item_expires_at item)"
| "work_expires_at (MarkerWork c stage) = None"
| "work_expires_at (MutationWork w) = None"
| "work_expires_at (SnapshotWork w) = Some (snap_physical (replay_snapshot w))"

fun work_supersedes :: "recovery_work \<Rightarrow> recovery_work \<Rightarrow> bool" where
  "work_supersedes (SnapshotWork w) previous = (case previous of
     SnapshotWork p \<Rightarrow> snapshot_supersedes (replay_snapshot w) (replay_snapshot p)
   | _ \<Rightarrow> False)"
| "work_supersedes w previous = (work_timestamp w > work_timestamp previous)"

section \<open>Tickets and the queue\<close>

type_synonym recovery_id = nat

record replay_ticket =
  ticket_id :: recovery_id
  ticket_work :: recovery_work
  ticket_generation :: operation_generation
  ticket_fence :: "recovery_fence option"

definition fence_is_current :: "(recovery_fence \<Rightarrow> bool) \<Rightarrow> replay_ticket \<Rightarrow> bool" where
  "fence_is_current current t = (case ticket_fence t of
     None \<Rightarrow> True
   | Some f \<Rightarrow> fence_generation f = ticket_generation t \<and> current f)"

datatype replay_outcome = ReplayPaused | ReplayApplied | ReplaySuperseded | ReplayExpired

datatype enqueue_outcome =
    EnqQueued recovery_id
  | EnqReplaced recovery_id
  | EnqSuperseded
  | EnqDisabled
  | EnqCapacityRejected
  | EnqExpired
  | EnqBudgetExhausted

datatype supersede_outcome = SupRemoved | SupUnchanged

datatype recovery_start = Started | AlreadyRunning | StartDisabled

datatype attempt_state = Pending | InFlight

record queued =
  q_ticket :: replay_ticket
  q_remaining :: "nat option"
  q_state :: attempt_state

datatype recovery_barrier = BarrierReady | BarrierDisconnected | BarrierAfter instant

text \<open>
  The service: configuration, the queue state behind its mutex (\<open>entries\<close>, \<open>next_id\<close>), whether
  an executor was installed, whether a worker is owned, the stop flag and the barrier.
\<close>

record recovery_service =
  rs_config :: recovery_config
  rs_entries :: "(recovery_key, queued) hmap"
  rs_next_id :: "nat option"
  rs_executor :: bool
  rs_worker :: bool
  rs_stop :: bool
  rs_barrier :: recovery_barrier

definition recovery_try_new ::
  "recovery_config \<Rightarrow> instant \<Rightarrow> recovery_error + recovery_service" where
  "recovery_try_new config now =
     (if rc_enabled config \<and> rc_delay config = 0 then Inl ZeroDelay
      else if rc_enabled config \<and> instant_checked_add now (rc_delay config) = None then Inl InvalidBarrier
      else Inr \<lparr>rs_config = config, rs_entries = [], rs_next_id = Some 1, rs_executor = False,
                rs_worker = False, rs_stop = False, rs_barrier = BarrierReady\<rparr>)"

definition try_set_executor :: "recovery_service \<Rightarrow> recovery_service \<times> (recovery_error + unit)" where
  "try_set_executor s =
     (if rs_executor s then (s, Inl ExecutorAlreadyConfigured)
      else (s\<lparr>rs_executor := True\<rparr>, Inr ()))"

definition recovery_len :: "recovery_service \<Rightarrow> nat" where
  "recovery_len s = length (rs_entries s)"

definition recovery_is_empty :: "recovery_service \<Rightarrow> bool" where
  "recovery_is_empty s \<longleftrightarrow> recovery_len s = 0"

subsection \<open>Admission\<close>

text \<open>
  The part of \<open>enqueue_work\<close> before the queue is locked: the first stop check, the expiry and
  the fence. \<open>None\<close> means admission continues under the mutex.
\<close>

definition enqueue_precheck ::
  "timestamp \<Rightarrow> (recovery_fence \<Rightarrow> bool) \<Rightarrow> recovery_work \<Rightarrow> recovery_fence option \<Rightarrow> recovery_service
   \<Rightarrow> (recovery_error + enqueue_outcome) option" where
  "enqueue_precheck now current work fence s =
     (if \<not> rc_enabled (rs_config s) then Some (Inr EnqDisabled)
      else if rs_stop s then Some (Inl RecoveryStopped)
      else if (case work_expires_at work of None \<Rightarrow> False | Some expiry \<Rightarrow> now \<ge> expiry)
        then Some (Inr EnqExpired)
      else if (case fence of None \<Rightarrow> False | Some f \<Rightarrow> \<not> current f) then Some (Inr EnqSuperseded)
      else None)"

definition retry_budget :: "recovery_config \<Rightarrow> recovery_work \<Rightarrow> nat option" where
  "retry_budget config work = map_option (\<lambda>retries. retries + 1)
     (case Option.bind (work_item work) item_remaining_retries of
        Some r \<Rightarrow> Some r
      | None \<Rightarrow> rc_max_retries config)"

definition is_older ::
  "operation_generation option \<Rightarrow> recovery_work \<Rightarrow> replay_ticket \<Rightarrow> bool" where
  "is_older generation work existing = (case generation of
     Some g \<Rightarrow> if ticket_fence existing \<noteq> None then g \<le> ticket_generation existing
              else \<not> work_supersedes work (ticket_work existing)
   | None \<Rightarrow> \<not> work_supersedes work (ticket_work existing))"

text \<open>The compaction a pending marker mutation leaves to the work that replaces it.\<close>

definition inherit_work :: "recovery_work \<Rightarrow> recovery_work \<Rightarrow> recovery_error + recovery_work" where
  "inherit_work work existing = (case existing of
     MutationWork previous \<Rightarrow> (case work of
       MutationWork nxt \<Rightarrow> (case inherit_compaction nxt previous of
         Inl e \<Rightarrow> Inl e
       | Inr w \<Rightarrow> Inr (MutationWork w))
     | MarkerWork c stage \<Rightarrow>
         if stage = NotifyOnly
         then (case inherit_compaction (committed_notification c) previous of
            Inl e \<Rightarrow> Inl e
          | Inr w \<Rightarrow> Inr (if pending_compaction w \<noteq> None then MutationWork w else work))
         else Inr work
     | _ \<Rightarrow> Inr work)
   | _ \<Rightarrow> Inr work)"

fun expiring :: "(recovery_key, queued) hmap \<Rightarrow> (recovery_key \<times> timestamp) list" where
  "expiring [] = []"
| "expiring ((k, q) # m) = (case work_expires_at (ticket_work (q_ticket q)) of
     None \<Rightarrow> expiring m
   | Some e \<Rightarrow> (k, e) # expiring m)"

text \<open>\<open>Iterator::min_by_key\<close>: the first of the earliest deadlines in iteration order.\<close>

fun min_expiry :: "(recovery_key \<times> timestamp) list \<Rightarrow> (recovery_key \<times> timestamp) option" where
  "min_expiry [] = None"
| "min_expiry (x # xs) = Some (foldl (\<lambda>b y. if snd y < snd b then y else b) x xs)"

definition make_room ::
  "timestamp \<Rightarrow> (recovery_key, queued) hmap \<Rightarrow> (recovery_key, queued) hmap" where
  "make_room bound m = (case min_expiry (expiring m) of
     None \<Rightarrow> m
   | Some (victim, expiry) \<Rightarrow> if expiry < bound then hm_remove victim m else m)"

definition install ::
  "recovery_key \<Rightarrow> recovery_work \<Rightarrow> recovery_fence option \<Rightarrow> nat option \<Rightarrow> bool \<Rightarrow> recovery_service
   \<Rightarrow> recovery_service \<times> (recovery_error + enqueue_outcome)" where
  "install key work fence remaining replaced s = (case rs_next_id s of
     None \<Rightarrow> (s, Inl IdentityExhausted)
   | Some n \<Rightarrow>
       let t = \<lparr>ticket_id = n, ticket_work = work,
                ticket_generation = (case fence of Some f \<Rightarrow> fence_generation f | None \<Rightarrow> n),
                ticket_fence = fence\<rparr>
       in (s\<lparr>rs_next_id := checked_add_u64 n 1,
             rs_entries := hm_insert key \<lparr>q_ticket = t, q_remaining = remaining, q_state = Pending\<rparr>
               (rs_entries s)\<rparr>,
           Inr (if replaced then EnqReplaced n else EnqQueued n)))"

definition enqueue_new ::
  "recovery_key \<Rightarrow> recovery_work \<Rightarrow> recovery_fence option \<Rightarrow> nat option \<Rightarrow> recovery_service
   \<Rightarrow> recovery_service \<times> (recovery_error + enqueue_outcome)" where
  "enqueue_new key work fence remaining s = (case rc_max_items (rs_config s) of
     None \<Rightarrow> install key work fence remaining False s
   | Some limit \<Rightarrow>
       if length (rs_entries s) < limit then install key work fence remaining False s
       else let bound = (case work_expires_at work of Some e \<Rightarrow> e | None \<Rightarrow> Timestamp_MAX);
                s' = s\<lparr>rs_entries := make_room bound (rs_entries s)\<rparr>
            in if length (rs_entries s') \<ge> limit then (s', Inr EnqCapacityRejected)
               else install key work fence remaining False s')"

text \<open>The critical section of \<open>enqueue_work\<close>.\<close>

definition enqueue_locked ::
  "recovery_work \<Rightarrow> recovery_fence option \<Rightarrow> recovery_service
   \<Rightarrow> recovery_service \<times> (recovery_error + enqueue_outcome)" where
  "enqueue_locked work fence s =
     (let key = work_key work; remaining = retry_budget (rs_config s) work
      in if rs_stop s then (s, Inl RecoveryStopped)
         else case hm_get (rs_entries s) key of
           Some existing \<Rightarrow>
             if is_older (map_option fence_generation fence) work (q_ticket existing)
             then (s, Inr EnqSuperseded)
             else (case inherit_work work (ticket_work (q_ticket existing)) of
                     Inl e \<Rightarrow> (s, Inl e)
                   | Inr work' \<Rightarrow> install key work' fence remaining True s)
         | None \<Rightarrow> enqueue_new key work fence remaining s)"

definition enqueue_work ::
  "timestamp \<Rightarrow> (recovery_fence \<Rightarrow> bool) \<Rightarrow> recovery_work \<Rightarrow> recovery_fence option \<Rightarrow> recovery_service
   \<Rightarrow> recovery_service \<times> (recovery_error + enqueue_outcome)" where
  "enqueue_work now current work fence s = (case enqueue_precheck now current work fence s of
     Some r \<Rightarrow> (s, r)
   | None \<Rightarrow> enqueue_locked work fence s)"

definition enqueue_legacy ::
  "timestamp \<Rightarrow> recovery_item \<Rightarrow> recovery_service \<Rightarrow> recovery_service" where
  "enqueue_legacy now item s = fst (enqueue_work now (\<lambda>f. True) (DataWork item Legacy) None s)"

definition enqueue_versioned ::
  "timestamp \<Rightarrow> (recovery_fence \<Rightarrow> bool) \<Rightarrow> recovery_work \<Rightarrow> recovery_fence \<Rightarrow> recovery_service
   \<Rightarrow> recovery_service \<times> (recovery_error + enqueue_outcome)" where
  "enqueue_versioned now current work fence = enqueue_work now current work (Some fence)"

definition enqueue_marker ::
  "timestamp \<Rightarrow> marker_command \<Rightarrow> marker_replay \<Rightarrow> recovery_service
   \<Rightarrow> recovery_service \<times> (recovery_error + enqueue_outcome)" where
  "enqueue_marker now c stage = enqueue_work now (\<lambda>f. True) (MarkerWork c stage) None"

definition enqueue_marker_mutation ::
  "timestamp \<Rightarrow> marker_mutation_recovery \<Rightarrow> recovery_service
   \<Rightarrow> recovery_service \<times> (recovery_error + enqueue_outcome)" where
  "enqueue_marker_mutation now w = enqueue_work now (\<lambda>f. True) (MutationWork w) None"

definition enqueue_marker_snapshot ::
  "timestamp \<Rightarrow> marker_snapshot_replay \<Rightarrow> recovery_service
   \<Rightarrow> recovery_service \<times> (recovery_error + enqueue_outcome)" where
  "enqueue_marker_snapshot now w = enqueue_work now (\<lambda>f. True) (SnapshotWork w) None"

subsection \<open>Removal\<close>

definition supersede_through ::
  "string \<Rightarrow> operation_generation \<Rightarrow> recovery_service \<Rightarrow> recovery_service \<times> supersede_outcome" where
  "supersede_through key generation s = (case hm_get (rs_entries s) (DataKey key) of
     None \<Rightarrow> (s, SupUnchanged)
   | Some q \<Rightarrow>
       if ticket_generation (q_ticket q) \<le> generation
       then (s\<lparr>rs_entries := hm_remove (DataKey key) (rs_entries s)\<rparr>, SupRemoved)
       else (s, SupUnchanged))"

definition cancel_through ::
  "string \<Rightarrow> timestamp \<Rightarrow> recovery_service \<Rightarrow> recovery_service \<times> supersede_outcome" where
  "cancel_through key when s = (case hm_get (rs_entries s) (DataKey key) of
     None \<Rightarrow> (s, SupUnchanged)
   | Some q \<Rightarrow>
       if work_timestamp (ticket_work (q_ticket q)) \<le> when
       then (s\<lparr>rs_entries := hm_remove (DataKey key) (rs_entries s)\<rparr>, SupRemoved)
       else (s, SupUnchanged))"

text \<open>The entry a ticket still owns: same key, same identity.\<close>

definition owned :: "replay_ticket \<Rightarrow> recovery_service \<Rightarrow> queued option" where
  "owned t s = (case hm_get (rs_entries s) (work_key (ticket_work t)) of
     None \<Rightarrow> None
   | Some q \<Rightarrow> if ticket_id (q_ticket q) = ticket_id t then Some q else None)"

definition put_owned :: "replay_ticket \<Rightarrow> queued \<Rightarrow> recovery_service \<Rightarrow> recovery_service" where
  "put_owned t q s = s\<lparr>rs_entries := hm_insert (work_key (ticket_work t)) q (rs_entries s)\<rparr>"

definition ticket_is_current :: "(recovery_fence \<Rightarrow> bool) \<Rightarrow> replay_ticket \<Rightarrow> recovery_service \<Rightarrow> bool" where
  "ticket_is_current current t s \<longleftrightarrow> fence_is_current current t \<and> owned t s \<noteq> None"

definition complete :: "replay_ticket \<Rightarrow> recovery_service \<Rightarrow> recovery_service \<times> supersede_outcome" where
  "complete t s = (case owned t s of
     None \<Rightarrow> (s, SupUnchanged)
   | Some q \<Rightarrow> (s\<lparr>rs_entries := hm_remove (work_key (ticket_work t)) (rs_entries s)\<rparr>, SupRemoved))"

definition record_failure :: "replay_ticket \<Rightarrow> recovery_service \<Rightarrow> recovery_service" where
  "record_failure t s = (case owned t s of
     None \<Rightarrow> s
   | Some q \<Rightarrow> (case q_remaining q of
       None \<Rightarrow> put_owned t (q\<lparr>q_state := Pending\<rparr>) s
     | Some r \<Rightarrow>
         if r \<le> 1 then s\<lparr>rs_entries := hm_remove (work_key (ticket_work t)) (rs_entries s)\<rparr>
         else put_owned t (q\<lparr>q_remaining := Some (r - 1), q_state := Pending\<rparr>) s))"

definition release_claim :: "replay_ticket \<Rightarrow> recovery_service \<Rightarrow> recovery_service" where
  "release_claim t s = (case owned t s of
     None \<Rightarrow> s
   | Some q \<Rightarrow> put_owned t (q\<lparr>q_state := Pending\<rparr>) s)"

subsection \<open>Stages\<close>

fun notification_of :: "pending_mutation \<Rightarrow> backplane_command option" where
  "notification_of (Commit m n) = n"
| "notification_of (FencedCommit m n) = n"
| "notification_of (ColdExpire l n) = n"
| "notification_of Legacy = None"
| "notification_of (Notify c) = None"

text \<open>The work left when its storage stage is done; \<open>None\<close> when there is no such stage.\<close>

fun notification_work :: "recovery_work \<Rightarrow> recovery_work option" where
  "notification_work (DataWork item mutation) =
     map_option (\<lambda>c. DataWork item (Notify c)) (notification_of mutation)"
| "notification_work (MarkerWork c stage) =
     (if stage = AdvanceAndNotify then Some (MarkerWork c NotifyOnly) else None)"
| "notification_work (MutationWork w) = (case mm_phase w of
     PopulatePhase options snapshot additional \<Rightarrow>
       if \<not> opt_skip_backplane_notifications options
       then (case notification w of Inl e \<Rightarrow> None | Inr w' \<Rightarrow> Some (MutationWork w'))
       else None
   | _ \<Rightarrow> None)"
| "notification_work (SnapshotWork w) = None"

definition set_work :: "recovery_work \<Rightarrow> queued \<Rightarrow> queued" where
  "set_work w q = q\<lparr>q_ticket := (q_ticket q)\<lparr>ticket_work := w\<rparr>\<rparr>"

definition notification_stage ::
  "replay_ticket \<Rightarrow> recovery_service \<Rightarrow> recovery_service \<times> recovery_stage_transition" where
  "notification_stage t s = (case owned t s of
     None \<Rightarrow> (s, StageSuperseded)
   | Some q \<Rightarrow> (case notification_work (ticket_work (q_ticket q)) of
       None \<Rightarrow> (s, StageUnchanged)
     | Some w \<Rightarrow> (put_owned t (set_work w q) s, StageAdvanced)))"

definition marker_population_stage ::
  "replay_ticket \<Rightarrow> marker_mutation_recovery \<Rightarrow> recovery_service
   \<Rightarrow> recovery_service \<times> recovery_stage_transition" where
  "marker_population_stage t w s = (case owned t s of
     None \<Rightarrow> (s, StageSuperseded)
   | Some q \<Rightarrow> (put_owned t (set_work (MutationWork w) q) s, StageAdvanced))"

definition marker_work :: "cache_scope \<Rightarrow> marker_kind \<Rightarrow> recovery_service \<Rightarrow> replay_ticket option" where
  "marker_work scope kind s = map_option q_ticket (hm_get (rs_entries s) (MarkerKey (scope_key scope) kind))"

definition marker_snapshot_work ::
  "cache_scope \<Rightarrow> marker_kind \<Rightarrow> recovery_service \<Rightarrow> replay_ticket option" where
  "marker_snapshot_work scope kind s =
     map_option q_ticket (hm_get (rs_entries s) (SnapshotKey (scope_key scope) kind))"

definition snapshot :: "string \<Rightarrow> recovery_service \<Rightarrow> replay_ticket option" where
  "snapshot key s = map_option q_ticket (hm_get (rs_entries s) (DataKey key))"

subsection \<open>Replay\<close>

definition claim :: "recovery_key \<Rightarrow> recovery_service \<Rightarrow> recovery_service \<times> replay_ticket option" where
  "claim key s = (case hm_get (rs_entries s) key of
     None \<Rightarrow> (s, None)
   | Some q \<Rightarrow>
       if q_state q = InFlight then (s, None)
       else (s\<lparr>rs_entries := hm_insert key (q\<lparr>q_state := InFlight\<rparr>) (rs_entries s)\<rparr>,
             Some (q_ticket q)))"

text \<open>The default \<open>replay_ticket\<close> of an executor that only knows data items.\<close>

definition default_replay_ticket ::
  "(recovery_fence \<Rightarrow> bool) \<Rightarrow> (recovery_item \<Rightarrow> string + unit) \<Rightarrow> replay_ticket
   \<Rightarrow> (recovery_error + string) + replay_outcome" where
  "default_replay_ticket current replay t =
     (if \<not> fence_is_current current t then Inr ReplaySuperseded
      else case ticket_work t of
        DataWork item mutation \<Rightarrow> (case replay item of
          Inl e \<Rightarrow> Inl (Inr e)
        | Inr u \<Rightarrow> Inr ReplayApplied)
      | _ \<Rightarrow> Inl (Inl UnsupportedMarkerExecutor))"

definition barrier_paused :: "recovery_barrier \<Rightarrow> instant \<Rightarrow> bool" where
  "barrier_paused b now = (case b of
     BarrierReady \<Rightarrow> False
   | BarrierDisconnected \<Rightarrow> True
   | BarrierAfter until \<Rightarrow> now < until)"

definition suspend :: "recovery_service \<Rightarrow> recovery_service" where
  "suspend s = s\<lparr>rs_barrier := BarrierDisconnected\<rparr>"

definition pause_after_reconnect ::
  "instant \<Rightarrow> recovery_service \<Rightarrow> recovery_service \<times> (recovery_error + unit)" where
  "pause_after_reconnect now s = (case instant_checked_add now (rc_delay (rs_config s)) of
     None \<Rightarrow> (s, Inl InvalidBarrier)
   | Some until \<Rightarrow> (s\<lparr>rs_barrier := BarrierAfter until\<rparr>, Inr ()))"

definition try_spawn :: "bool \<Rightarrow> recovery_service \<Rightarrow> recovery_service \<times> (recovery_error + recovery_start)" where
  "try_spawn has_runtime s =
     (if \<not> rc_enabled (rs_config s) then (s, Inr StartDisabled)
      else if rs_stop s then (s, Inl RecoveryStopped)
      else if \<not> has_runtime then (s, Inl MissingRuntime)
      else if rs_worker s then (s, Inr AlreadyRunning)
      else (s\<lparr>rs_worker := True\<rparr>, Inr Started))"

definition recovery_stop :: "recovery_service \<Rightarrow> recovery_service" where
  "recovery_stop s = s\<lparr>rs_stop := True, rs_entries := []\<rparr>"

text \<open>\<open>joined\<close> is the result of awaiting the worker; a cancelled task is not an error.\<close>

definition recovery_shutdown ::
  "(string \<times> bool) option \<Rightarrow> recovery_service \<Rightarrow> recovery_service \<times> (recovery_error + unit)" where
  "recovery_shutdown joined s =
     (let s' = (recovery_stop s)\<lparr>rs_worker := False\<rparr>
      in case (rs_worker s, joined) of
           (True, Some (failure, cancelled)) \<Rightarrow>
             if cancelled then (s', Inr ()) else (s', Inl (TaskFailed failure))
         | _ \<Rightarrow> (s', Inr ()))"

section \<open>Critical sections and the worker\<close>

text \<open>
  One event per critical section of the service. \<open>EvEnqueue\<close> is the locked part of an
  admission whose pre-checks passed, possibly long before.
\<close>

datatype recovery_event =
    EvEnqueue recovery_work "recovery_fence option"
  | EvSupersede string operation_generation
  | EvCancel string timestamp
  | EvComplete replay_ticket
  | EvFail replay_ticket
  | EvRelease replay_ticket
  | EvNotify replay_ticket
  | EvPopulate replay_ticket marker_mutation_recovery
  | EvClaim recovery_key
  | EvStop
  | EvSuspend
  | EvResume instant
  | EvSpawn bool
  | EvSetExecutor

fun work_wf :: "recovery_work \<Rightarrow> bool" where
  "work_wf (MutationWork w) = mutation_wf w"
| "work_wf w = True"

text \<open>
  The payloads that exist: marker mutations come from their factories, and a stage change is
  computed from the pending mutation by \<open>population\<close>, \<open>notification\<close> or \<open>with_compaction\<close>,
  which keep namespace and kind.
\<close>

fun event_wf :: "recovery_event \<Rightarrow> bool" where
  "event_wf (EvEnqueue w f) = work_wf w"
| "event_wf (EvPopulate t w) = (mutation_wf w \<and> command_key (mm_command w) = work_key (ticket_work t))"
| "event_wf e = True"

fun recovery_apply :: "recovery_service \<Rightarrow> recovery_event \<Rightarrow> recovery_service" where
  "recovery_apply s (EvEnqueue w f) = fst (enqueue_locked w f s)"
| "recovery_apply s (EvSupersede k g) = fst (supersede_through k g s)"
| "recovery_apply s (EvCancel k t) = fst (cancel_through k t s)"
| "recovery_apply s (EvComplete t) = fst (complete t s)"
| "recovery_apply s (EvFail t) = record_failure t s"
| "recovery_apply s (EvRelease t) = release_claim t s"
| "recovery_apply s (EvNotify t) = fst (notification_stage t s)"
| "recovery_apply s (EvPopulate t w) = fst (marker_population_stage t w s)"
| "recovery_apply s (EvClaim k) = fst (claim k s)"
| "recovery_apply s EvStop = recovery_stop s"
| "recovery_apply s EvSuspend = suspend s"
| "recovery_apply s (EvResume now) = fst (pause_after_reconnect now s)"
| "recovery_apply s (EvSpawn b) = fst (try_spawn b s)"
| "recovery_apply s EvSetExecutor = fst (try_set_executor s)"

definition recovery_step :: "recovery_service \<Rightarrow> recovery_event \<Rightarrow> recovery_service" where
  "recovery_step s e = (if event_wf e then recovery_apply s e else s)"

definition recovery_run :: "recovery_service \<Rightarrow> recovery_event list \<Rightarrow> recovery_service" where
  "recovery_run = foldl recovery_step"

text \<open>
  What the worker meets while it drains: the clock and the fences when it looks at a claimed
  ticket, the critical sections of other callers before each claim, and the executor, whose
  asynchronous replay ends with a result after any critical sections of others.
\<close>

record drain_env =
  de_now :: "recovery_key \<Rightarrow> timestamp"
  de_current :: "recovery_key \<Rightarrow> recovery_fence \<Rightarrow> bool"
  de_before :: "recovery_key \<Rightarrow> recovery_event list"
  de_replay :: "replay_ticket \<Rightarrow> recovery_service \<Rightarrow> recovery_event list \<times> (string + replay_outcome)"

definition ticket_obsolete :: "drain_env \<Rightarrow> recovery_key \<Rightarrow> replay_ticket \<Rightarrow> bool" where
  "ticket_obsolete env key t \<longleftrightarrow>
     (case work_expires_at (ticket_work t) of None \<Rightarrow> False | Some expiry \<Rightarrow> de_now env key \<ge> expiry)
     \<or> \<not> fence_is_current (de_current env key) t"

fun finish_replay :: "replay_ticket \<Rightarrow> string + replay_outcome \<Rightarrow> recovery_service \<Rightarrow> recovery_service" where
  "finish_replay t (Inr ReplayPaused) s = release_claim t s"
| "finish_replay t (Inr ReplayApplied) s = fst (complete t s)"
| "finish_replay t (Inr ReplaySuperseded) s = fst (complete t s)"
| "finish_replay t (Inr ReplayExpired) s = fst (complete t s)"
| "finish_replay t (Inl e) s = record_failure t s"

definition drain_key :: "drain_env \<Rightarrow> recovery_service \<Rightarrow> recovery_key \<Rightarrow> recovery_service" where
  "drain_key env s0 key = (let s = recovery_run s0 (de_before env key) in
     case claim key s of
       (s1, None) \<Rightarrow> s1
     | (s1, Some t) \<Rightarrow>
         if ticket_obsolete env key t then fst (complete t s1)
         else let (others, result) = de_replay env t s1
              in finish_replay t result (recovery_run s1 others))"

definition drain_once :: "drain_env \<Rightarrow> instant \<Rightarrow> recovery_service \<Rightarrow> recovery_service" where
  "drain_once env now s =
     (if barrier_paused (rs_barrier s) now then s
      else foldl (drain_key env) s (map fst (rs_entries s)))"

end
