(* ===== verification/Amalgam_Lanes.thy ===== *)
theory Amalgam_Lanes
  imports Amalgam_Recovery Amalgam_Memory
begin

text \<open>
  Mutation lanes, \<open>src/commit.rs\<close> and \<open>src/commit/ordered.rs\<close>: the outcomes a commit reports, the
  revision of a key with the fences captured from it, and the ordered admission of mutations of one
  key. The admission is a concurrent state machine over its atomic accesses. The lemmas show an
  inductive invariant of it, and from that exclusion, first-come service, that no wake-up is
  lost, and that a queued mutation can always be served.
\<close>

section \<open>Reports of a commit\<close>

datatype skip_reason = SkipPolicy | SkipPhysicallyExpired | SkipSuperseded

datatype 'e effect_outcome =
    EffectBatch "'e effect_outcome list"
  | NotConfigured
  | EffectSkipped skip_reason
  | EffectApplied
  | EffectRecoveryQueued 'e
  | EffectFailedSuppressed 'e

definition EffectBatch_new :: "'e effect_outcome \<Rightarrow> 'e effect_outcome list \<Rightarrow> 'e effect_outcome list" where
  "EffectBatch_new first remaining = first # remaining"

definition effects :: "'e effect_outcome list \<Rightarrow> 'e effect_outcome" where
  "effects outcomes = (case outcomes of
     [] \<Rightarrow> NotConfigured
   | first # rest \<Rightarrow> (case rest of
       [] \<Rightarrow> first
     | second # others \<Rightarrow> EffectBatch (EffectBatch_new first (second # others))))"

datatype local_effect =
    LocalStored memory_admission | LocalRemoved | LocalExpired | LocalInvalidated | LocalSkipped

record 'e mutation_report =
  report_local :: local_effect
  report_distributed :: "'e effect_outcome"
  report_backplane :: "'e effect_outcome"

definition reports :: "'e mutation_report list \<Rightarrow> 'e mutation_report" where
  "reports rs = \<lparr>report_local = LocalInvalidated,
     report_distributed = effects (map report_distributed rs),
     report_backplane = effects (map report_backplane rs)\<rparr>"

text \<open>
  The supervised completion of a commit: the channel delivers a finished result, the panic of the
  task, or nothing when the sender was dropped. A panic is re-raised in the waiter.
\<close>

datatype ('e, 'r) task_result = TaskCompleted "'e + 'r" | TaskPanicked

datatype ('e, 'r) waited = Returned "'e + 'r" | WaiterPanics

definition completion_wait :: "'e \<Rightarrow> ('e, 'r) task_result option \<Rightarrow> ('e, 'r) waited" where
  "completion_wait cache_closed received = (case received of
     Some (TaskCompleted result) \<Rightarrow> Returned result
   | Some TaskPanicked \<Rightarrow> WaiterPanics
   | None \<Rightarrow> Returned (Inl cache_closed))"

datatype ('e, 'r) mutation_receipt = ReceiptCompleted 'r | ReceiptScheduled "('e, 'r) task_result option"

fun receipt_wait :: "'e \<Rightarrow> ('e, 'r) mutation_receipt \<Rightarrow> ('e, 'r) waited" where
  "receipt_wait cache_closed (ReceiptCompleted report) = Returned (Inr report)"
| "receipt_wait cache_closed (ReceiptScheduled received) = completion_wait cache_closed received"

text \<open>The failures retained anywhere in an outcome, in execution order.\<close>

fun outcome_failures :: "'e effect_outcome \<Rightarrow> 'e list" where
  "outcome_failures (EffectBatch stages) = concat (map outcome_failures stages)"
| "outcome_failures (EffectRecoveryQueued cause) = [cause]"
| "outcome_failures (EffectFailedSuppressed cause) = [cause]"
| "outcome_failures outcome = []"

lemma effects_failures: "outcome_failures (effects outcomes) = concat (map outcome_failures outcomes)"
  by (simp add: effects_def EffectBatch_new_def split: list.splits)

section \<open>Revisions and fences of a key\<close>

text \<open>
  \<open>KeyLane\<close> without its admission: the generation counter and the latest mutation timestamp. A
  fence keeps the generation it captured and the value of the continuity epoch at that moment.
\<close>

record key_lane =
  kl_generation :: nat
  kl_timestamp :: "timestamp option"

definition KeyLane_new :: key_lane where
  "KeyLane_new = \<lparr>kl_generation = 0, kl_timestamp = None\<rparr>"

record lane_fence =
  lf_generation :: operation_generation
  lf_captured_epoch :: nat

definition lane_snapshot :: "key_lane \<Rightarrow> nat \<Rightarrow> lane_fence" where
  "lane_snapshot kl ep = \<lparr>lf_generation = kl_generation kl, lf_captured_epoch = ep\<rparr>"

definition advance_revision :: "key_lane \<Rightarrow> recovery_error + key_lane \<times> operation_generation" where
  "advance_revision kl = (case checked_add_u64 (kl_generation kl) 1 of
     None \<Rightarrow> Inl recovery_error.GenerationExhausted
   | Some n \<Rightarrow> Inr (kl\<lparr>kl_generation := n\<rparr>, n))"

definition lane_advance ::
  "timestamp \<Rightarrow> nat \<Rightarrow> key_lane \<Rightarrow> recovery_error + key_lane \<times> lane_fence" where
  "lane_advance t ep kl = (case advance_revision kl of
     Inl e \<Rightarrow> Inl e
   | Inr (kl', generation) \<Rightarrow>
       Inr (kl'\<lparr>kl_timestamp := Some (opt_max (kl_timestamp kl') t)\<rparr>,
            \<lparr>lf_generation = generation, lf_captured_epoch = ep\<rparr>))"

definition lane_fence_current :: "lane_fence \<Rightarrow> key_lane \<Rightarrow> bool" where
  "lane_fence_current f kl \<longleftrightarrow> kl_generation kl = lf_generation f"

definition passive_is_current :: "lane_fence \<Rightarrow> key_lane \<Rightarrow> nat \<Rightarrow> bool" where
  "passive_is_current f kl ep \<longleftrightarrow> lane_fence_current f kl \<and> ep = lf_captured_epoch f"

definition lane_continuity_stamp :: "nat \<Rightarrow> lane_fence \<Rightarrow> nat \<times> nat" where
  "lane_continuity_stamp ep_id f = (ep_id, lf_captured_epoch f)"

text \<open>A sequence of mutations of the key; a failed advance leaves the lane as it is.\<close>

fun lane_mutations :: "(timestamp \<times> nat) list \<Rightarrow> key_lane \<Rightarrow> key_lane" where
  "lane_mutations [] kl = kl"
| "lane_mutations ((t, ep) # ms) kl =
     lane_mutations ms (case lane_advance t ep kl of Inl e \<Rightarrow> kl | Inr (kl', f) \<Rightarrow> kl')"

lemma lane_advance_Inr:
  "lane_advance t ep kl = Inr (kl', f) \<Longrightarrow> kl_generation kl' = kl_generation kl + 1 \<and>
     lf_generation f = kl_generation kl' \<and> lf_captured_epoch f = ep \<and>
     kl_timestamp kl' = Some (opt_max (kl_timestamp kl) t)"
  by (auto simp: lane_advance_def advance_revision_def checked_add_u64_def split: if_splits)

lemma lane_mutations_mono:
  "kl_generation kl \<le> kl_generation (lane_mutations ms kl)"
  "kl_timestamp kl = Some t \<Longrightarrow> \<exists>u. kl_timestamp (lane_mutations ms kl) = Some u \<and> t \<le> u"
proof (induction ms arbitrary: kl t)
  case (Cons m ms)
  obtain x ep where m: "m = (x, ep)" by (cases m)
  {
    case 1
    show ?case
    proof (cases "lane_advance x ep kl")
      case (Inr r)
      then obtain kl' f where r: "lane_advance x ep kl = Inr (kl', f)" by (cases r) auto
      show ?thesis using lane_advance_Inr [OF r] Cons.IH(1) [of kl'] by (simp add: m r)
    qed (simp add: m Cons.IH(1))
  next
    case 2
    show ?case
    proof (cases "lane_advance x ep kl")
      case (Inr r)
      then obtain kl' f where r: "lane_advance x ep kl = Inr (kl', f)" by (cases r) auto
      have "kl_timestamp kl' = Some (max t x)" using lane_advance_Inr [OF r] 2 by (simp add: opt_max_def)
      then show ?thesis using Cons.IH(2) [of kl'] by (fastforce simp: m r)
    qed (simp add: m Cons.IH(2) [OF 2])
  }
qed auto

text \<open>
  A successful mutation supersedes every earlier fence of its key for good: a fence captured
  before it is current under no later sequence of mutations, neither actively nor passively. The
  new fence is current until the next successful mutation. The recorded timestamp never
  moves backwards. The only failure is an exhausted 64-bit generation, which then stays refused.
\<close>

theorem superseded_fence_stays_superseded:
  assumes old: "lf_generation f \<le> kl_generation kl" and adv: "lane_advance t ep kl = Inr (kl', g)"
  shows "\<not> lane_fence_current f (lane_mutations ms kl')
    \<and> \<not> passive_is_current f (lane_mutations ms kl') ep'
    \<and> passive_is_current g kl' ep
    \<and> (\<exists>u. kl_timestamp (lane_mutations ms kl') = Some u \<and> t \<le> u)
    \<and> ((\<exists>r. lane_advance t' ep' kl' = Inr r) \<longleftrightarrow> kl_generation kl' < u64_max)"
proof -
  note a = lane_advance_Inr [OF adv]
  have "lf_generation f < kl_generation (lane_mutations ms kl')"
    using a old lane_mutations_mono(1) [of kl' ms] by simp
  moreover obtain u where "kl_timestamp (lane_mutations ms kl') = Some u" "opt_max (kl_timestamp kl) t \<le> u"
    using lane_mutations_mono(2) [of kl' _ ms] a by blast
  moreover from this(2) have "t \<le> u" by (rule order_trans [OF opt_max_ge(1)])
  ultimately show ?thesis using a
    by (auto simp: lane_fence_current_def passive_is_current_def lane_advance_def advance_revision_def
        checked_add_u64_def)
qed

theorem superseded_fence_stays_superseded_witness:
  "\<not> lane_fence_current (lane_snapshot KeyLane_new 0) (lane_mutations [(3, 0)] \<lparr>kl_generation = 1, kl_timestamp = Some 5\<rparr>)"
proof -
  have "lane_advance 5 0 KeyLane_new = Inr (\<lparr>kl_generation = 1, kl_timestamp = Some 5\<rparr>, \<lparr>lf_generation = 1, lf_captured_epoch = 0\<rparr>)"
    by (simp add: lane_advance_def advance_revision_def checked_add_u64_def KeyLane_new_def opt_max_def)
  from superseded_fence_stays_superseded [OF _ this, of "lane_snapshot KeyLane_new 0" "[(3, 0)]" 0 0]
  show ?thesis by (simp add: lane_snapshot_def KeyLane_new_def)
qed

section \<open>Admission and the queue of suspended mutations\<close>

text \<open>
  The shared state of one lane: its admission word, its queue in the shard map (\<open>None\<close>: no entry
  for the lane), the holder of the shard mutex, and for every acquisition its position in the code
  together with the \<open>granted\<close> flag and the registered waker of its waiter node and whether that
  waker has been called since the last poll. The shard is shared with other lanes; they only take
  and release its mutex. One event is one atomic access of the code or one critical section whose
  inner accesses no other event can separate.
\<close>

datatype gate_state = Gate_Free | Gate_Held | Gate_Queued

datatype lane_pc =
    LNew
  | LEnqueue | LLoop | LSaw gate_state
  | LRegister | LCheck | LSuspended | LWithdraw
  | LOwner | LRelease | LHandoff | LWake nat
  | LFinished | LUnreachable

datatype shard_holder = ByAcquisition nat | ByOtherLane

record lane =
  ln_gate :: gate_state
  ln_queue :: "nat list option"
  ln_mutex :: "shard_holder option"
  ln_pc :: "nat \<Rightarrow> lane_pc"
  ln_granted :: "nat \<Rightarrow> bool"
  ln_waker :: "nat \<Rightarrow> bool"
  ln_woken :: "nat \<Rightarrow> bool"

definition admission_claim :: "lane \<Rightarrow> lane \<times> bool" where
  "admission_claim s = (if ln_gate s = Gate_Free then (s\<lparr>ln_gate := Gate_Held\<rparr>, True) else (s, False))"

definition mark_queued :: "lane \<Rightarrow> lane \<times> bool" where
  "mark_queued s = (if ln_gate s = Gate_Held then (s\<lparr>ln_gate := Gate_Queued\<rparr>, True) else (s, False))"

definition release_ready :: "lane \<Rightarrow> lane \<times> bool" where
  "release_ready s = (if ln_gate s = Gate_Held then (s\<lparr>ln_gate := Gate_Free\<rparr>, True) else (s, False))"

definition set_pc :: "nat \<Rightarrow> lane_pc \<Rightarrow> lane \<Rightarrow> lane" where
  "set_pc p c s = s\<lparr>ln_pc := (ln_pc s)(p := c)\<rparr>"

definition push_waiter :: "nat \<Rightarrow> lane \<Rightarrow> lane" where
  "push_waiter p s = s\<lparr>ln_queue := Some ((case ln_queue s of None \<Rightarrow> [] | Some ws \<Rightarrow> ws) @ [p]), ln_mutex := None\<rparr>"

definition handoff :: "lane \<Rightarrow> lane \<times> nat option" where
  "handoff s =
     (let (nxt, queue) = (case ln_queue s of
            None \<Rightarrow> (None, None)
          | Some [] \<Rightarrow> (None, None)
          | Some (w # ws) \<Rightarrow> (Some w, if ws = [] then None else Some ws));
          state = (case nxt of
            Some w \<Rightarrow> if queue \<noteq> None then Gate_Queued else Gate_Held
          | None \<Rightarrow> Gate_Free)
      in (s\<lparr>ln_queue := queue, ln_gate := state,
            ln_granted := (case nxt of None \<Rightarrow> ln_granted s | Some w \<Rightarrow> (ln_granted s)(w := True))\<rparr>, nxt))"

definition withdraw :: "nat \<Rightarrow> lane \<Rightarrow> lane \<times> bool option" where
  "withdraw p s =
     (if ln_granted s p then (s, Some True)
      else case ln_queue s of
        None \<Rightarrow> (s, None)
      | Some ws \<Rightarrow>
          if p \<notin> set ws then (s, None)
          else let ws' = remove1 p ws
               in if ws' = [] then (s\<lparr>ln_queue := None, ln_gate := Gate_Held\<rparr>, Some False)
                  else (s\<lparr>ln_queue := Some ws'\<rparr>, Some False))"

text \<open>
  Events: \<open>TryLock\<close> is \<open>try_lock\<close>, \<open>Poll\<close> the executor polling the future (its first poll makes
  the uncontended claim; later polls may be spurious), \<open>Advance\<close> the next atomic step inside a poll, a guard drop or a
  cancellation, \<open>Cancel\<close> dropping an unfinished future, \<open>DropGuard\<close> dropping the guard.
\<close>

datatype lane_event =
    TryLock nat | Advance nat | Poll nat | Cancel nat | DropGuard nat | OtherLock | OtherUnlock

definition advance_lane :: "nat \<Rightarrow> lane \<Rightarrow> lane option" where
  "advance_lane p s = (case ln_pc s p of
     LEnqueue \<Rightarrow> if ln_mutex s = None then Some (set_pc p LLoop (s\<lparr>ln_mutex := Some (ByAcquisition p)\<rparr>)) else None
   | LLoop \<Rightarrow> Some (if ln_gate s = Gate_Queued then set_pc p LRegister (push_waiter p s)
                    else set_pc p (LSaw (ln_gate s)) s)
   | LSaw Gate_Free \<Rightarrow> (case admission_claim s of (s', got) \<Rightarrow>
       Some (if got then set_pc p LOwner (s'\<lparr>ln_mutex := None\<rparr>) else set_pc p LLoop s'))
   | LSaw Gate_Held \<Rightarrow> (case mark_queued s of (s', ok) \<Rightarrow>
       Some (if ok then set_pc p LRegister (push_waiter p s') else set_pc p LLoop s'))
   | LRegister \<Rightarrow> Some (set_pc p LCheck (s\<lparr>ln_waker := (ln_waker s)(p := True)\<rparr>))
   | LCheck \<Rightarrow> Some (set_pc p (if ln_granted s p then LOwner else LSuspended) s)
   | LWithdraw \<Rightarrow> if ln_mutex s \<noteq> None then None
       else (case withdraw p s of
               (s', None) \<Rightarrow> Some (set_pc p LUnreachable s')
             | (s', Some owned_now) \<Rightarrow> Some (set_pc p (if owned_now then LRelease else LFinished) s'))
   | LRelease \<Rightarrow> (case release_ready s of (s', done) \<Rightarrow> Some (set_pc p (if done then LFinished else LHandoff) s'))
   | LHandoff \<Rightarrow> if ln_mutex s \<noteq> None then None
       else (case handoff s of (s', nxt) \<Rightarrow>
               Some (set_pc p (case nxt of None \<Rightarrow> LFinished | Some w \<Rightarrow> LWake w) s'))
   | LWake w \<Rightarrow> Some (set_pc p LFinished
       (if ln_waker s w then s\<lparr>ln_waker := (ln_waker s)(w := False), ln_woken := (ln_woken s)(w := True)\<rparr> else s))
   | _ \<Rightarrow> None)"

fun lane_act :: "lane_event \<Rightarrow> lane \<Rightarrow> lane option" where
  "lane_act (Advance p) s = advance_lane p s"
| "lane_act (TryLock p) s = (case ln_pc s p of
     LNew \<Rightarrow> (case admission_claim s of (s', got) \<Rightarrow> Some (set_pc p (if got then LOwner else LFinished) s'))
   | _ \<Rightarrow> None)"
| "lane_act (Poll p) s = (case ln_pc s p of
     LNew \<Rightarrow> (case admission_claim s of (s', got) \<Rightarrow> Some (set_pc p (if got then LOwner else LEnqueue) s'))
   | LSuspended \<Rightarrow> Some (set_pc p LRegister (s\<lparr>ln_woken := (ln_woken s)(p := False)\<rparr>))
   | _ \<Rightarrow> None)"
| "lane_act (Cancel p) s = (case ln_pc s p of
     LNew \<Rightarrow> Some (set_pc p LFinished s)
   | LSuspended \<Rightarrow> Some (set_pc p LWithdraw s)
   | _ \<Rightarrow> None)"
| "lane_act (DropGuard p) s = (if ln_pc s p = LOwner then Some (set_pc p LRelease s) else None)"
| "lane_act OtherLock s = (if ln_mutex s = None then Some (s\<lparr>ln_mutex := Some ByOtherLane\<rparr>) else None)"
| "lane_act OtherUnlock s = (if ln_mutex s = Some ByOtherLane then Some (s\<lparr>ln_mutex := None\<rparr>) else None)"

section \<open>Invariant\<close>

definition waiters :: "lane \<Rightarrow> nat list" where
  "waiters s = (case ln_queue s of None \<Rightarrow> [] | Some ws \<Rightarrow> ws)"

definition wake_pending :: "lane \<Rightarrow> nat \<Rightarrow> bool" where
  "wake_pending s p \<longleftrightarrow> (\<exists>r. ln_pc s r = LWake p)"

text \<open>What one acquisition may observe in each of its positions.\<close>

fun local_ok :: "lane_pc \<Rightarrow> bool \<Rightarrow> bool \<Rightarrow> bool \<Rightarrow> bool \<Rightarrow> bool \<Rightarrow> bool \<Rightarrow> bool \<Rightarrow> bool" where
  "local_ok LNew own inq mut wk g wa wo = (\<not> own \<and> \<not> inq \<and> \<not> mut \<and> \<not> wk \<and> \<not> g)"
| "local_ok LEnqueue own inq mut wk g wa wo = (\<not> own \<and> \<not> inq \<and> \<not> mut \<and> \<not> wk \<and> \<not> g)"
| "local_ok LLoop own inq mut wk g wa wo = (\<not> own \<and> \<not> inq \<and> mut \<and> \<not> wk \<and> \<not> g)"
| "local_ok (LSaw st) own inq mut wk g wa wo = (st \<noteq> Gate_Queued \<and> \<not> own \<and> \<not> inq \<and> mut \<and> \<not> wk \<and> \<not> g)"
| "local_ok LRegister own inq mut wk g wa wo = (own = g \<and> inq = (\<not> g) \<and> \<not> mut \<and> (wk \<longrightarrow> g))"
| "local_ok LCheck own inq mut wk g wa wo = (own = g \<and> inq = (\<not> g) \<and> \<not> mut \<and> (wk \<longrightarrow> g) \<and> (g \<or> wa))"
| "local_ok LSuspended own inq mut wk g wa wo =
     (own = g \<and> inq = (\<not> g) \<and> \<not> mut \<and> (wk \<longrightarrow> g) \<and> (if g then wo \<or> wa \<and> wk else wa))"
| "local_ok LWithdraw own inq mut wk g wa wo = (own = g \<and> inq = (\<not> g) \<and> \<not> mut \<and> (wk \<longrightarrow> g))"
| "local_ok LOwner own inq mut wk g wa wo = (own \<and> \<not> inq \<and> \<not> mut \<and> (wk \<longrightarrow> g))"
| "local_ok LRelease own inq mut wk g wa wo = (own \<and> \<not> inq \<and> \<not> mut \<and> (wk \<longrightarrow> g))"
| "local_ok LHandoff own inq mut wk g wa wo = (own \<and> \<not> inq \<and> \<not> mut \<and> (wk \<longrightarrow> g))"
| "local_ok (LWake q) own inq mut wk g wa wo = (\<not> own \<and> \<not> inq \<and> \<not> mut \<and> (wk \<longrightarrow> g))"
| "local_ok LFinished own inq mut wk g wa wo = (\<not> own \<and> \<not> inq \<and> \<not> mut \<and> (wk \<longrightarrow> g))"
| "local_ok LUnreachable own inq mut wk g wa wo = False"

definition place :: "nat option \<Rightarrow> lane \<Rightarrow> lane_pc \<Rightarrow> nat \<Rightarrow> bool" where
  "place w s c p = local_ok c (w = Some p) (p \<in> set (waiters s)) (ln_mutex s = Some (ByAcquisition p))
     (wake_pending s p) (ln_granted s p) (ln_waker s p) (ln_woken s p)"

definition gate_ok :: "nat option \<Rightarrow> gate_state \<Rightarrow> nat list option \<Rightarrow> bool" where
  "gate_ok w gate queue \<longleftrightarrow> (w = None \<longleftrightarrow> gate = Gate_Free) \<and> (gate = Gate_Queued \<longleftrightarrow> queue \<noteq> None)
     \<and> (case queue of None \<Rightarrow> True | Some ws \<Rightarrow> ws \<noteq> [] \<and> distinct ws)"

definition lane_inv :: "nat option \<Rightarrow> lane \<Rightarrow> bool" where
  "lane_inv w s \<longleftrightarrow> gate_ok w (ln_gate s) (ln_queue s) \<and> (\<forall>p. place w s (ln_pc s p) p)"

lemma lane_invD: "lane_inv w s \<Longrightarrow> gate_ok w (ln_gate s) (ln_queue s)" "lane_inv w s \<Longrightarrow> place w s (ln_pc s p) p"
  by (simp_all add: lane_inv_def)

fun is_wake :: "lane_pc \<Rightarrow> bool" where
  "is_wake (LWake q) = True"
| "is_wake c = False"

lemma wake_pending_update:
  "ln_pc s' = (ln_pc s)(p := c) \<Longrightarrow> \<not> is_wake (ln_pc s p) \<Longrightarrow> \<not> is_wake c \<Longrightarrow> wake_pending s' q = wake_pending s q"
  unfolding wake_pending_def by (metis fun_upd_apply is_wake.simps(1))

text \<open>A step of one acquisition that does not disturb what the others observe.\<close>

lemma inv_local_step:
  assumes inv: "lane_inv w s" and pc: "ln_pc s' = (ln_pc s)(p := c)"
    and nw: "\<not> is_wake (ln_pc s p)" "\<not> is_wake c"
    and gate: "gate_ok w' (ln_gate s') (ln_queue s')"
    and own: "\<And>q. q \<noteq> p \<Longrightarrow> (w' = Some q) = (w = Some q)"
    and inq: "\<And>q. q \<noteq> p \<Longrightarrow> (q \<in> set (waiters s')) = (q \<in> set (waiters s))"
    and mut: "\<And>q. q \<noteq> p \<Longrightarrow> (ln_mutex s' = Some (ByAcquisition q)) = (ln_mutex s = Some (ByAcquisition q))"
    and flags: "\<And>q. q \<noteq> p \<Longrightarrow> ln_granted s' q = ln_granted s q \<and> ln_waker s' q = ln_waker s q \<and> ln_woken s' q = ln_woken s q"
    and here: "local_ok c (w' = Some p) (p \<in> set (waiters s')) (ln_mutex s' = Some (ByAcquisition p))
       (wake_pending s p) (ln_granted s' p) (ln_waker s' p) (ln_woken s' p)"
  shows "lane_inv w' s'"
proof -
  have wk: "wake_pending s' q = wake_pending s q" for q by (rule wake_pending_update [OF pc nw])
  have "place w' s' (ln_pc s' q) q" for q
  proof (cases "q = p")
    case True
    then show ?thesis using here by (simp add: place_def pc wk)
  next
    case False
    then show ?thesis
      using lane_invD(2) [OF inv, of q] by (simp add: place_def pc wk own inq mut flags)
  qed
  with gate show ?thesis by (simp add: lane_inv_def)
qed

lemmas lane_updates = set_pc_def admission_claim_def mark_queued_def release_ready_def push_waiter_def
  waiters_def gate_ok_def

lemmas lane_step = advance_lane_def lane_updates place_def withdraw_def Let_def

lemma inv_advance_quiet:
  assumes inv: "lane_inv w s" and act: "advance_lane p s = Some s'"
    and "ln_pc s p \<noteq> LHandoff" and "\<not> is_wake (ln_pc s p)" and "ln_pc s p \<noteq> LWithdraw"
  shows "\<exists>w'. lane_inv w' s'"
proof -
  note facts = act lane_invD(1) [OF inv] lane_invD(2) [OF inv, of p]
  show ?thesis
  proof (cases "ln_pc s p")
  case LEnqueue
  have "lane_inv (w) s'"
    by (rule inv_local_step [OF inv, where p = p and c = "LLoop"]) (use facts LEnqueue in \<open>auto simp: lane_step split: if_splits\<close>)
  then show ?thesis ..
next
  case LLoop
  have "lane_inv (w) s'"
    by (rule inv_local_step [OF inv, where p = p and c = "if ln_gate s = Gate_Queued then LRegister else LSaw (ln_gate s)"]) (use facts LLoop in \<open>auto simp: lane_step split: if_splits\<close>)
  then show ?thesis ..
next
  case LRegister
  have "lane_inv (w) s'"
    by (rule inv_local_step [OF inv, where p = p and c = "LCheck"]) (use facts LRegister in \<open>auto simp: lane_step split: if_splits\<close>)
  then show ?thesis ..
next
  case LCheck
  have "lane_inv (w) s'"
    by (rule inv_local_step [OF inv, where p = p and c = "if ln_granted s p then LOwner else LSuspended"]) (use facts LCheck in \<open>auto simp: lane_step split: if_splits\<close>)
  then show ?thesis ..
next
  case LRelease
  have "lane_inv (if ln_gate s = Gate_Held then None else w) s'"
    by (rule inv_local_step [OF inv, where p = p and c = "if ln_gate s = Gate_Held then LFinished else LHandoff"]) (use facts LRelease in \<open>auto simp: lane_step split: if_splits\<close>)
  then show ?thesis ..
next
  case (LSaw st)
  then have st: "st = Gate_Free \<or> st = Gate_Held"
    using lane_invD(2) [OF inv, of p] by (cases st) (auto simp: place_def)
  have "lane_inv (if st = Gate_Free \<and> ln_gate s = Gate_Free then Some p else w) s'"
    by (rule inv_local_step [OF inv, where p = p and c = "if ln_gate s \<noteq> st then LLoop else if st = Gate_Free then LOwner else LRegister"])
      (use facts LSaw st in \<open>auto simp: lane_step split: if_splits option.splits\<close>)
  then show ?thesis ..
qed (use assms in \<open>simp_all add: advance_lane_def\<close>)
qed

lemma inv_withdraw:
  assumes inv: "lane_inv w s" and act: "advance_lane p s = Some s'" and pc: "ln_pc s p = LWithdraw"
  shows "lane_inv w s'"
proof -
  note facts = act pc lane_invD(1) [OF inv] lane_invD(2) [OF inv, of p]
  show ?thesis
  proof (cases "ln_granted s p")
    case True
    show ?thesis
      by (rule inv_local_step [OF inv, where p = p and c = LRelease]) (use facts True in \<open>auto simp: lane_step split: if_splits\<close>)
  next
    case False
    with facts obtain ws where ws: "ln_queue s = Some ws" "p \<in> set ws" "distinct ws" "w \<noteq> None" "w \<noteq> Some p"
      by (auto simp: place_def gate_ok_def waiters_def split: option.splits)
    then have r: "set (remove1 p ws) = set ws - {p}" "distinct (remove1 p ws)" by simp_all
    show ?thesis
    proof (cases "remove1 p ws = []")
      case True
      then have one: "set ws = {p}" using r(1) ws(2) by auto
      have s': "s' = s\<lparr>ln_queue := None, ln_gate := Gate_Held, ln_pc := (ln_pc s)(p := LFinished)\<rparr>"
        using facts(1,2) False ws(1,2) True by (simp add: lane_step split: if_splits)
      show ?thesis
        by (rule inv_local_step [OF inv, where p = p and c = LFinished])
          (use facts(3,4) pc ws one in \<open>auto simp: s' waiters_def gate_ok_def place_def\<close>)
    next
      case ne: False
      have s': "s' = s\<lparr>ln_queue := Some (remove1 p ws), ln_pc := (ln_pc s)(p := LFinished)\<rparr>"
        using facts(1,2) False ws(1,2) ne by (simp add: lane_step split: if_splits)
      show ?thesis
        by (rule inv_local_step [OF inv, where p = p and c = LFinished])
          (use facts(3,4) pc ws r ne in \<open>auto simp: s' waiters_def gate_ok_def place_def\<close>)
    qed
  qed
qed

lemma inv_outer:
  assumes inv: "lane_inv w s" and act: "lane_act e s = Some s'" and "\<And>p. e \<noteq> Advance p"
  shows "\<exists>w'. lane_inv w' s'"
proof (cases e)
  case (TryLock p)
  note facts = act TryLock lane_invD(1) [OF inv] lane_invD(2) [OF inv, of p]
  show ?thesis
  proof (cases "ln_pc s p")
    case LNew
    have "lane_inv (if ln_gate s = Gate_Free then Some p else w) s'"
      by (rule inv_local_step [OF inv, where p = p and c = "if ln_gate s = Gate_Free then LOwner else LFinished"])
        (use facts LNew in \<open>auto simp: lane_step split: if_splits\<close>)
    then show ?thesis ..
  qed (use facts in simp_all)
next
  case (Poll p)
  note facts = act Poll lane_invD(1) [OF inv] lane_invD(2) [OF inv, of p]
  show ?thesis
  proof (cases "ln_pc s p")
    case LNew
    have "lane_inv (if ln_gate s = Gate_Free then Some p else w) s'"
      by (rule inv_local_step [OF inv, where p = p and c = "if ln_gate s = Gate_Free then LOwner else LEnqueue"])
        (use facts LNew in \<open>auto simp: lane_step split: if_splits\<close>)
    then show ?thesis ..
  next
    case LSuspended
    have "lane_inv w s'"
      by (rule inv_local_step [OF inv, where p = p and c = LRegister])
        (use facts LSuspended in \<open>auto simp: lane_step split: if_splits\<close>)
    then show ?thesis ..
  qed (use facts in simp_all)
next
  case (Cancel p)
  have "lane_inv w s'"
    by (rule inv_local_step [OF inv, where p = p and c = "if ln_pc s p = LNew then LFinished else LWithdraw"])
      (use act Cancel lane_invD(1) [OF inv] lane_invD(2) [OF inv, of p] in
        \<open>cases "ln_pc s p"; auto simp: lane_step split: if_splits\<close>)+
  then show ?thesis ..
next
  case (DropGuard p)
  have "lane_inv w s'"
    by (rule inv_local_step [OF inv, where p = p and c = LRelease])
      (use act DropGuard lane_invD(1) [OF inv] lane_invD(2) [OF inv, of p] in
        \<open>auto simp: lane_step split: if_splits\<close>)
  then show ?thesis ..
next
  case OtherLock
  have "lane_inv w s'"
    using act OtherLock inv by (auto simp: lane_inv_def place_def waiters_def wake_pending_def split: if_splits)
  then show ?thesis ..
next
  case OtherUnlock
  have "lane_inv w s'"
    using act OtherUnlock inv by (auto simp: lane_inv_def place_def waiters_def wake_pending_def split: if_splits)
  then show ?thesis ..
qed (use assms(3) in simp)


lemma inv_handoff:
  assumes inv: "lane_inv w s" and act: "advance_lane p s = Some s'" and pc: "ln_pc s p = LHandoff"
  shows "\<exists>w'. lane_inv w' s'"
proof -
  note g = lane_invD(1) [OF inv] and here = lane_invD(2) [OF inv, of p]
  have w: "w = Some p" and m: "ln_mutex s = None"
    using here pc act by (auto simp: place_def advance_lane_def split: if_splits)
  show ?thesis
  proof (cases "ln_queue s")
    case None
    have s': "s' = s\<lparr>ln_queue := None, ln_gate := Gate_Free, ln_pc := (ln_pc s)(p := LFinished)\<rparr>"
      using act pc m None by (simp add: advance_lane_def handoff_def set_pc_def)
    have "lane_inv None s'"
      by (rule inv_local_step [OF inv, where p = p and c = LFinished])
        (use g here pc w None in \<open>simp_all add: s' waiters_def gate_ok_def place_def\<close>)
    then show ?thesis ..
  next
    case (Some q)
    then obtain v vs where q: "q = v # vs" "distinct (v # vs)"
      using g by (cases q) (auto simp: gate_ok_def)
    let ?queue = "if vs = [] then None else Some vs"
    have s': "s' = s\<lparr>ln_queue := ?queue, ln_gate := (if vs = [] then Gate_Held else Gate_Queued),
        ln_granted := (ln_granted s)(v := True), ln_pc := (ln_pc s)(p := LWake v)\<rparr>"
      using act pc m Some q by (cases "vs = []") (simp_all add: advance_lane_def handoff_def set_pc_def)
    have vs: "waiters s' = vs" by (simp add: s' waiters_def)
    have sel: "ln_pc s' = (ln_pc s)(p := LWake v)" "ln_mutex s' = ln_mutex s" "ln_waker s' = ln_waker s"
      "ln_woken s' = ln_woken s" "ln_granted s' = (ln_granted s)(v := True)" by (simp_all add: s')
    have ws: "waiters s = v # vs" using Some q by (simp add: waiters_def)
    have v: "v \<noteq> p" using here pc ws by (auto simp: place_def)
    have wk: "wake_pending s' r = (wake_pending s r \<or> r = v)" for r
      using pc by (auto simp: wake_pending_def s') (metis lane_pc.distinct)
    have "place (Some v) s' (ln_pc s' r) r" for r
    proof -
      consider "r = p" | "r = v" | "r \<noteq> p" "r \<noteq> v" by blast
      then show ?thesis
      proof cases
        case 1
        then show ?thesis using here pc v ws by (auto simp: place_def vs sel wk)
      next
        case 2
        then show ?thesis
          using lane_invD(2) [OF inv, of v] v ws q(2) w
          by (cases "ln_pc s v") (auto simp: place_def vs wk sel)
      next
        case 3
        then show ?thesis
          using lane_invD(2) [OF inv, of r] ws w by (simp add: place_def vs wk sel)
      qed
    qed
    moreover have "gate_ok (Some v) (ln_gate s') (ln_queue s')" using q(2) by (simp add: s' gate_ok_def)
    ultimately show ?thesis unfolding lane_inv_def by blast
  qed
qed

lemma inv_wake:
  assumes inv: "lane_inv w s" and act: "advance_lane p s = Some s'" and pc: "ln_pc s p = LWake v"
  shows "lane_inv w s'"
proof -
  let ?fl = "\<lambda>r. if r = v \<and> ln_waker s v then (False, True) else (ln_waker s r, ln_woken s r)"
  have s': "ln_pc s' = (ln_pc s)(p := LFinished)" "waiters s' = waiters s" "ln_mutex s' = ln_mutex s"
    "ln_granted s' = ln_granted s" "ln_gate s' = ln_gate s" "ln_queue s' = ln_queue s"
    "(ln_waker s' r, ln_woken s' r) = ?fl r" for r
    using act pc by (cases "ln_waker s v"; auto simp: advance_lane_def set_pc_def waiters_def)+
  have gv: "ln_granted s v"
    using lane_invD(2) [OF inv, of v] pc by (cases "ln_pc s v") (auto simp: place_def wake_pending_def)
  have wk: "wake_pending s' r \<longrightarrow> wake_pending s r" "r \<noteq> v \<longrightarrow> wake_pending s' r = wake_pending s r" for r
    using pc by (auto simp: wake_pending_def s'(1)) (metis lane_pc.inject(2))
  have "place w s' (ln_pc s' r) r" for r
  proof (cases "r = p")
    case True
    then show ?thesis using lane_invD(2) [OF inv, of p] pc wk(1) [of p] by (auto simp: place_def s'(1-4))
  next
    case False
    have "local_ok (ln_pc s r) (w = Some r) (r \<in> set (waiters s)) (ln_mutex s = Some (ByAcquisition r))
        (wake_pending s' r) (ln_granted s r) (ln_waker s' r) (ln_woken s' r)"
      using lane_invD(2) [OF inv, of r] wk [of r] gv s'(7) [of r]
      by (cases "ln_pc s r") (auto simp: place_def split: if_splits)
    with False show ?thesis by (simp add: place_def s'(1-4))
  qed
  with lane_invD(1) [OF inv] show ?thesis by (simp add: lane_inv_def s'(5,6))
qed

lemma lane_inv_act:
  assumes "lane_inv w s" and "lane_act e s = Some s'"
  shows "\<exists>w'. lane_inv w' s'"
proof (cases "\<exists>p. e = Advance p")
  case False
  then show ?thesis using inv_outer [OF assms] by blast
next
  case True
  then obtain p where act: "advance_lane p s = Some s'" using assms(2) by auto
  show ?thesis
    using inv_advance_quiet [OF assms(1) act] inv_withdraw [OF assms(1) act] inv_handoff [OF assms(1) act]
      inv_wake [OF assms(1) act] by (cases "ln_pc s p") auto
qed

definition lane_ok :: "lane \<Rightarrow> bool" where
  "lane_ok s \<longleftrightarrow> (\<exists>w. lane_inv w s)"

interpretation lanes: guarded_machine lane_act lane_ok
  by unfold_locales (use lane_inv_act in \<open>auto simp: lane_ok_def\<close>)

definition new_lane :: lane where
  "new_lane = \<lparr>ln_gate = Gate_Free, ln_queue = None, ln_mutex = None, ln_pc = (\<lambda>_. LNew),
     ln_granted = (\<lambda>_. False), ln_waker = (\<lambda>_. False), ln_woken = (\<lambda>_. False)\<rparr>"

lemma lane_inv_new: "lane_inv None new_lane"
  by (simp add: lane_inv_def gate_ok_def place_def new_lane_def waiters_def wake_pending_def)

lemma lane_ok_new: "lane_ok new_lane"
  using lane_inv_new by (auto simp: lane_ok_def)

lemma lane_reachable_inv: "run_guarded lane_act es new_lane = Some s \<Longrightarrow> \<exists>w. lane_inv w s"
  using lanes.run_ok [OF lane_ok_new] by (simp add: lane_ok_def)

section \<open>Order of service\<close>

fun pre_queue :: "lane_pc \<Rightarrow> bool" where
  "pre_queue LNew = True" | "pre_queue LEnqueue = True"
| "pre_queue LLoop = True" | "pre_queue (LSaw st) = True" | "pre_queue c = False"

lemma lane_act_queue:
  assumes inv: "lane_inv w s" and act: "lane_act e s = Some s'"
  shows "(\<exists>v. waiters s' = filter (\<lambda>x. x \<noteq> v) (waiters s)) \<or> (\<exists>p. waiters s' = waiters s @ [p] \<and> pre_queue (ln_pc s p))"
proof -
  have same: "waiters s' = waiters s \<Longrightarrow> ?thesis"
  proof -
    assume *: "waiters s' = waiters s"
    obtain v where "v \<notin> set (waiters s)" using ex_new_if_finite [OF infinite_UNIV_nat, of "set (waiters s)"] by auto
    then have "waiters s' = filter (\<lambda>x. x \<noteq> v) (waiters s)" using * by (metis (mono_tags, lifting) filter_True)
    then show ?thesis by blast
  qed
  have d: "distinct (waiters s)" using lane_invD(1) [OF inv] by (auto simp: gate_ok_def waiters_def split: option.splits)
  show ?thesis
  proof (cases "\<exists>p. e = Advance p")
    case False
    then have "waiters s' = waiters s"
      using act by (cases e) (auto simp: lane_updates split: lane_pc.splits if_splits)
    then show ?thesis by (rule same)
  next
    case True
    then obtain p where a: "advance_lane p s = Some s'" using act by auto
    consider (other) "ln_pc s p \<noteq> LHandoff" "ln_pc s p \<noteq> LWithdraw" | (hand) "ln_pc s p = LHandoff" | (draw) "ln_pc s p = LWithdraw" by blast
    then show ?thesis
    proof cases
      case other
      then have "waiters s' = waiters s \<or> waiters s' = waiters s @ [p] \<and> pre_queue (ln_pc s p)"
        using a by (cases "ln_pc s p") (auto simp: advance_lane_def lane_updates split: if_splits gate_state.splits option.splits)
      then show ?thesis using same by blast
    next
      case hand
      then have "waiters s' = tl (waiters s)"
        using a by (auto simp: advance_lane_def lane_updates handoff_def Let_def split: if_splits option.splits list.splits)
      then have "waiters s' = filter (\<lambda>x. x \<noteq> hd (waiters s)) (waiters s)"
        using d by (cases "waiters s") (auto simp: filter_id_conv intro!: sym [OF filter_True])
      then show ?thesis by blast
    next
      case draw
      then have "waiters s' = remove1 p (waiters s) \<or> waiters s' = waiters s"
        using a by (auto simp: advance_lane_def lane_updates withdraw_def Let_def split: if_splits option.splits)
      then have "waiters s' = waiters s \<or> waiters s' = filter (\<lambda>x. x \<noteq> p) (waiters s)"
        using d by (auto simp: distinct_remove1_removeAll removeAll_filter_not_eq eq_commute)
      then show ?thesis using same by blast
    qed
  qed
qed


definition precedes :: "nat \<Rightarrow> nat \<Rightarrow> nat list \<Rightarrow> bool" where
  "precedes a b xs \<longleftrightarrow> (\<exists>us vs. xs = us @ a # vs \<and> b \<in> set vs)"

lemma precedes_mem: "precedes a b xs \<Longrightarrow> a \<in> set xs \<and> b \<in> set xs"
  by (auto simp: precedes_def)

lemma precedes_snoc: "precedes a b xs \<Longrightarrow> precedes a b (xs @ ys)"
  unfolding precedes_def by (metis Un_iff append_Cons append_assoc set_append)

lemma precedes_last: "a \<in> set xs \<Longrightarrow> precedes a p (xs @ [p])"
  unfolding precedes_def by (metis append_Cons append_assoc in_set_conv_decomp list.set_intros(1) Un_iff set_append)

lemma precedes_filter: "precedes a b xs \<Longrightarrow> P a \<Longrightarrow> P b \<Longrightarrow> precedes a b (filter P xs)"
  unfolding precedes_def by fastforce

lemma precedes_not_head: "precedes a b xs \<Longrightarrow> distinct xs \<Longrightarrow> b \<noteq> hd xs"
  unfolding precedes_def by (elim exE conjE, rename_tac us vs, case_tac us) auto

lemma inv_notin_queue: "lane_inv w s \<Longrightarrow> pre_queue (ln_pc s p) \<Longrightarrow> p \<notin> set (waiters s) \<and> \<not> ln_granted s p"
  by (drule lane_invD(2) [of _ _ p], cases "ln_pc s p") (auto simp: place_def)

lemma pre_queue_mono: "lane_act e s = Some s' \<Longrightarrow> pre_queue (ln_pc s' p) \<Longrightarrow> pre_queue (ln_pc s p)"
  by (cases e) (auto simp: advance_lane_def lane_updates withdraw_def handoff_def Let_def
      split: lane_pc.splits gate_state.splits if_splits option.splits list.splits)

fun owning :: "lane_pc \<Rightarrow> bool \<Rightarrow> bool" where
  "owning LOwner g = True" | "owning LRelease g = True" | "owning LHandoff g = True"
| "owning LRegister g = g" | "owning LCheck g = g" | "owning LSuspended g = g" | "owning LWithdraw g = g"
| "owning c g = False"

definition holds_lane :: "lane \<Rightarrow> nat \<Rightarrow> bool" where
  "holds_lane s p = owning (ln_pc s p) (ln_granted s p)"

text \<open>An acquisition that has queued and has been neither granted the lane nor withdrawn.\<close>

definition awaits_grant :: "lane \<Rightarrow> nat \<Rightarrow> bool" where
  "awaits_grant s p \<longleftrightarrow> ln_pc s p \<in> {LRegister, LCheck, LSuspended, LWithdraw} \<and> \<not> ln_granted s p"

lemma inv_owner: "lane_inv w s \<Longrightarrow> (w = Some p) = holds_lane s p"
  by (drule lane_invD(2) [of _ _ p], cases "ln_pc s p") (auto simp: place_def holds_lane_def)

lemma inv_awaits: "lane_inv w s \<Longrightarrow> awaits_grant s p \<longleftrightarrow> p \<in> set (waiters s)"
  by (drule lane_invD(2) [of _ _ p], cases "ln_pc s p") (auto simp: place_def awaits_grant_def)

lemma inv_distinct: "lane_inv w s \<Longrightarrow> distinct (waiters s)"
  by (drule lane_invD(1)) (auto simp: gate_ok_def waiters_def split: option.splits)

lemma queued_gate: "lane_inv w s \<Longrightarrow> waiters s \<noteq> [] \<Longrightarrow> ln_gate s = Gate_Queued \<and> w \<noteq> None"
  by (drule lane_invD(1)) (auto simp: gate_ok_def waiters_def split: option.splits)

text \<open>While somebody waits, the lane is gained only by the head of the queue and from its holder.\<close>

lemma gained_by_head:
  assumes "lane_act e s = Some s'" and "ln_gate s = Gate_Queued" and "holds_lane s' b" and "\<not> holds_lane s b"
    and "pre_queue (ln_pc s b) \<Longrightarrow> \<not> ln_granted s b"
  shows "waiters s \<noteq> [] \<and> b = hd (waiters s)"
  using assms by (cases e) (auto simp: holds_lane_def advance_lane_def lane_updates withdraw_def handoff_def Let_def
      split: lane_pc.splits gate_state.splits if_splits option.splits list.splits)

text \<open>Whoever has queued waits, has been granted the lane, or was withdrawn.\<close>

definition queued_outcome :: "nat \<Rightarrow> lane \<Rightarrow> bool" where
  "queued_outcome a s \<longleftrightarrow> a \<in> set (waiters s) \<or> ln_granted s a \<or> ln_pc s a = LFinished"

lemma remove1_empty: "remove1 x ys = [] \<Longrightarrow> y \<in> set ys \<Longrightarrow> y = x"
  by (metis in_set_remove1 empty_iff list.set(1))

lemma queued_outcome_act:
  assumes "lane_act e s = Some s'" and "queued_outcome a s"
  shows "queued_outcome a s'"
  using assms unfolding queued_outcome_def
  by (cases e) (auto simp: advance_lane_def lane_updates withdraw_def handoff_def Let_def dest: remove1_empty
      split: lane_pc.splits gate_state.splits if_splits option.splits list.splits)

text \<open>
  The order in which \<open>a\<close> and \<open>b\<close> queued: as long as \<open>a\<close> waits, \<open>b\<close> does not hold the lane, and if
  \<open>b\<close> waits too, it waits behind \<open>a\<close>.
\<close>

definition ahead_of :: "nat \<Rightarrow> nat \<Rightarrow> lane \<Rightarrow> bool" where
  "ahead_of a b s \<longleftrightarrow> \<not> pre_queue (ln_pc s a) \<and> queued_outcome a s \<and>
     (a \<in> set (waiters s) \<longrightarrow> \<not> holds_lane s b \<and> (b \<in> set (waiters s) \<longrightarrow> precedes a b (waiters s)))"

lemma ahead_of_act:
  assumes inv: "lane_inv w s" and act: "lane_act e s = Some s'" and ahead: "ahead_of a b s"
  shows "ahead_of a b s'"
proof -
  have pre: "\<not> pre_queue (ln_pc s' a)" using ahead pre_queue_mono [OF act] by (auto simp: ahead_of_def)
  moreover have "queued_outcome a s'" using ahead queued_outcome_act [OF act] by (simp add: ahead_of_def)
  moreover have "\<not> holds_lane s' b \<and> (b \<in> set (waiters s') \<longrightarrow> precedes a b (waiters s'))" if a': "a \<in> set (waiters s')"
  proof
    have a: "a \<in> set (waiters s)" using lane_act_queue [OF inv act] a' ahead by (auto simp: ahead_of_def)
    then have old: "\<not> holds_lane s b" "b \<in> set (waiters s) \<Longrightarrow> precedes a b (waiters s)"
      using ahead by (auto simp: ahead_of_def)
    have gate: "ln_gate s = Gate_Queued" using queued_gate [OF inv] a by force
    show "\<not> holds_lane s' b"
      using gained_by_head [OF act gate _ old(1)] inv_notin_queue [OF inv, of b] old(2) precedes_not_head inv_distinct [OF inv] by (metis hd_in_set)
    from lane_act_queue [OF inv act] show "b \<in> set (waiters s') \<longrightarrow> precedes a b (waiters s')"
    proof (elim disjE exE conjE)
      fix v assume "waiters s' = filter (\<lambda>x. x \<noteq> v) (waiters s)"
      then show ?thesis using a' old(2) precedes_filter [of a b "waiters s" "\<lambda>x. x \<noteq> v"] by auto
    next
      fix p assume "waiters s' = waiters s @ [p]"
      then show ?thesis using a old(2) precedes_snoc [of a b "waiters s" "[p]"] precedes_last [of a "waiters s" p] by auto
    qed
  qed
  ultimately show ?thesis by (simp add: ahead_of_def)
qed

lemma ahead_of_run:
  "lane_ok s \<Longrightarrow> ahead_of a b s \<Longrightarrow> run_guarded lane_act es s = Some s' \<Longrightarrow> ahead_of a b s'"
  by (rule lanes.run_keeps [of "ahead_of a b" s es s']) (auto simp: lane_ok_def intro: ahead_of_act)

section \<open>Progress\<close>

text \<open>
  An executor polls a suspended future only after its waker was called. The steps of such an
  execution are those of \<^const>\<open>lane_act\<close> without the spurious polls.
\<close>

definition executor_act :: "lane_event \<Rightarrow> lane \<Rightarrow> lane option" where
  "executor_act e s = (case e of
     Poll p \<Rightarrow> if ln_pc s p = LSuspended \<and> \<not> ln_woken s p then None else lane_act e s
   | _ \<Rightarrow> lane_act e s)"

lemma executor_act_lane: "executor_act e s = Some t \<Longrightarrow> lane_act e s = Some t"
  by (auto simp: executor_act_def split: lane_event.splits if_splits)

lemma executor_run_lane: "run_guarded executor_act es s = Some t \<Longrightarrow> run_guarded lane_act es s = Some t"
  by (induction es arbitrary: s) (auto split: option.splits dest: executor_act_lane)

definition lane_reach :: "nat \<Rightarrow> lane \<Rightarrow> lane \<Rightarrow> bool" where
  "lane_reach n s s' \<longleftrightarrow> (\<exists>es. length es \<le> n \<and> (\<forall>p. Cancel p \<notin> set es) \<and> run_guarded executor_act es s = Some s')"

lemma lane_reach_refl: "lane_reach n s s"
  unfolding lane_reach_def by (rule exI [of _ "[]"]) simp

lemma lane_reach_trans: "lane_reach m s t \<Longrightarrow> lane_reach n t u \<Longrightarrow> lane_reach (m + n) s u"
  unfolding lane_reach_def
proof (elim exE conjE)
  fix es fs assume "length es \<le> m" "\<forall>p. Cancel p \<notin> set es" "run_guarded executor_act es s = Some t"
    "length fs \<le> n" "\<forall>p. Cancel p \<notin> set fs" "run_guarded executor_act fs t = Some u"
  then show "\<exists>es. length es \<le> m + n \<and> (\<forall>p. Cancel p \<notin> set es) \<and> run_guarded executor_act es s = Some u"
    by (intro exI [of _ "es @ fs"]) (simp add: run_guarded_append)
qed

lemma lane_reach_step: "executor_act e s = Some t \<Longrightarrow> (\<And>p. e \<noteq> Cancel p) \<Longrightarrow> lane_reach n t u \<Longrightarrow> lane_reach (Suc n) s u"
  unfolding lane_reach_def
proof (elim exE conjE)
  fix es assume "executor_act e s = Some t" "\<And>p. e \<noteq> Cancel p" "length es \<le> n" "\<forall>p. Cancel p \<notin> set es" "run_guarded executor_act es t = Some u"
  then show "\<exists>es. length es \<le> Suc n \<and> (\<forall>p. Cancel p \<notin> set es) \<and> run_guarded executor_act es s = Some u"
    by (intro exI [of _ "e # es"]) auto
qed

lemma lane_reach_mono: "lane_reach m s t \<Longrightarrow> m \<le> n \<Longrightarrow> lane_reach n s t"
  unfolding lane_reach_def using le_trans by blast

lemma lane_reach_inv: "lane_reach n s t \<Longrightarrow> lane_inv w s \<Longrightarrow> \<exists>w'. lane_inv w' t"
  unfolding lane_reach_def using lanes.run_ok [of s _ t] executor_run_lane by (fastforce simp: lane_ok_def)

lemma withdraw_cancelled:
  "lane_act e s = Some t \<Longrightarrow> ln_pc t p = LWithdraw \<Longrightarrow> ln_pc s p = LWithdraw \<or> e = Cancel p"
  by (cases e) (auto simp: advance_lane_def lane_updates withdraw_def handoff_def Let_def
      split: lane_pc.splits gate_state.splits if_splits option.splits list.splits)

lemma lane_reach_uncancelled: "lane_reach n s t \<Longrightarrow> ln_pc s p \<noteq> LWithdraw \<Longrightarrow> ln_pc t p \<noteq> LWithdraw"
  unfolding lane_reach_def
proof (elim exE conjE)
  fix es show "\<forall>p. Cancel p \<notin> set es \<Longrightarrow> run_guarded executor_act es s = Some t \<Longrightarrow>
      ln_pc s p \<noteq> LWithdraw \<Longrightarrow> ln_pc t p \<noteq> LWithdraw"
    by (induction es arbitrary: s) (auto split: option.splits dest!: executor_act_lane withdraw_cancelled [of _ _ _ p])
qed

text \<open>
  How many steps the holder of the lane is away from having handed it on. A holder that sleeps
  without having been woken needs the releasing thread to call its waker first.
\<close>

definition owner_rank :: "lane \<Rightarrow> nat \<Rightarrow> nat" where
  "owner_rank s p = (case ln_pc s p of
     LSuspended \<Rightarrow> if ln_woken s p then 6 else 7
   | LRegister \<Rightarrow> 5 | LCheck \<Rightarrow> 4 | LOwner \<Rightarrow> 3 | LWithdraw \<Rightarrow> 3 | LRelease \<Rightarrow> 2 | _ \<Rightarrow> 1)"

lemma owner_rank_bounds: "1 \<le> owner_rank s p" "owner_rank s p \<le> 7"
  by (simp_all add: owner_rank_def split: lane_pc.split)

lemma owner_rank_local: "ln_pc t p = ln_pc s p \<Longrightarrow> ln_woken t p = ln_woken s p \<Longrightarrow> owner_rank t p = owner_rank s p"
  by (simp add: owner_rank_def)

lemma owner_rank_pc:
  "holds_lane s p \<Longrightarrow> owner_rank s p = 1 \<Longrightarrow> ln_pc s p = LHandoff"
  "holds_lane s p \<Longrightarrow> owner_rank s p = 3 \<Longrightarrow> ln_pc s p \<noteq> LWithdraw \<Longrightarrow> ln_pc s p = LOwner"
  "awaits_grant s p \<Longrightarrow> 3 \<le> owner_rank s p"
  by (auto simp: holds_lane_def owner_rank_def awaits_grant_def split: lane_pc.splits if_splits)

lemma owner_step:
  assumes inv: "lane_inv w s" and h: "holds_lane s p" and m: "ln_mutex s = None" and r: "1 < owner_rank s p"
    and g: "owner_rank s p = 2 \<Longrightarrow> ln_gate s = Gate_Queued"
  shows "\<exists>e t. executor_act e s = Some t \<and> (\<forall>q. e \<noteq> Cancel q) \<and> holds_lane t p
    \<and> owner_rank s p = Suc (owner_rank t p) \<and> ln_gate t = ln_gate s \<and> ln_mutex t = None \<and> waiters t = waiters s"
proof (cases "ln_pc s p")
  case LOwner
  with assms show ?thesis
    by (intro exI [of _ "DropGuard p"]) (simp add: executor_act_def holds_lane_def set_pc_def waiters_def owner_rank_def)
next
  case LSuspended
  show ?thesis
  proof (cases "ln_woken s p")
    case True
    with LSuspended h m show ?thesis
      by (intro exI [of _ "Poll p"]) (simp add: executor_act_def holds_lane_def set_pc_def waiters_def owner_rank_def)
  next
    case False
    with LSuspended h lane_invD(2) [OF inv, of p] obtain v where v: "ln_pc s v = LWake p" "ln_waker s p"
      by (auto simp: place_def holds_lane_def wake_pending_def split: if_splits)
    moreover from v(1) LSuspended have "v \<noteq> p" by auto
    ultimately have v: "ln_pc s v = LWake p" "ln_waker s p" "v \<noteq> p" by blast+
    with False LSuspended h m show ?thesis
      by (intro exI [of _ "Advance v"])
        (simp add: executor_act_def advance_lane_def holds_lane_def set_pc_def waiters_def owner_rank_def)
  qed
qed (use assms in \<open>intro exI [of _ "Advance p"],
  simp add: executor_act_def holds_lane_def advance_lane_def lane_updates withdraw_def owner_rank_def\<close>)+

lemma owner_descends:
  "lane_inv w s \<Longrightarrow> holds_lane s p \<Longrightarrow> ln_mutex s = None \<Longrightarrow> 1 \<le> n \<Longrightarrow> n \<le> owner_rank s p \<Longrightarrow>
     (n = 1 \<Longrightarrow> ln_gate s = Gate_Queued) \<Longrightarrow>
     \<exists>t. lane_reach (owner_rank s p - n) s t \<and> owner_rank t p = n \<and> holds_lane t p \<and>
       ln_mutex t = None \<and> waiters t = waiters s"
proof (induction "owner_rank s p - n" arbitrary: w s)
  case 0
  then show ?case by (intro exI [of _ s]) (simp add: lane_reach_refl)
next
  case (Suc d)
  then have "1 < owner_rank s p" "owner_rank s p = 2 \<Longrightarrow> n = 1" by auto
  then obtain e t where t: "executor_act e s = Some t" "\<forall>q. e \<noteq> Cancel q" "holds_lane t p"
      "owner_rank s p = Suc (owner_rank t p)" "ln_gate t = ln_gate s" "ln_mutex t = None" "waiters t = waiters s"
    using owner_step [OF Suc.prems(1-3)] Suc.prems(6) by blast
  have one: "lane_reach 1 s t" using lane_reach_step [OF t(1) _ lane_reach_refl [of 0]] t(2) by simp
  obtain w' where inv: "lane_inv w' t" using lane_reach_inv [OF one Suc.prems(1)] by blast
  have "d = owner_rank t p - n" "n \<le> owner_rank t p" using Suc.hyps(2) t(4) by auto
  then obtain u where u: "lane_reach (owner_rank t p - n) t u" "owner_rank u p = n" "holds_lane u p"
      "ln_mutex u = None" "waiters u = waiters t"
    using Suc.hyps(1) [OF _ inv t(3,6) Suc.prems(4)] Suc.prems(6) t(5) by metis
  have "lane_reach (owner_rank s p - n) s u"
    using lane_reach_trans [OF one u(1)] t(4) \<open>n \<le> owner_rank t p\<close> by (simp add: Suc_diff_le)
  with u t(7) show ?case by auto
qed

lemma handoff_serves_head:
  assumes inv: "lane_inv w s" and pc: "ln_pc s p = LHandoff" and m: "ln_mutex s = None" and q: "waiters s = v # vs"
  shows "\<exists>t. executor_act (Advance p) s = Some t \<and> holds_lane t v \<and> 3 \<le> owner_rank t v \<and> waiters t = vs \<and> ln_mutex t = None"
proof -
  have r: "3 \<le> owner_rank s v" using inv_awaits [OF inv, of v] q owner_rank_pc(3) by simp
  have queue: "ln_queue s = Some (v # vs)" using q by (auto simp: waiters_def split: option.splits)
  have v: "owning (ln_pc s v) True" "v \<noteq> p"
    using lane_invD(2) [OF inv, of v] q pc by (cases "ln_pc s v"; auto simp: place_def)+
  then have "\<exists>t. executor_act (Advance p) s = Some t \<and> holds_lane t v \<and> waiters t = vs \<and> ln_mutex t = None
      \<and> ln_pc t v = ln_pc s v \<and> ln_woken t v = ln_woken s v"
    using pc m queue by (cases vs) (simp_all add: executor_act_def advance_lane_def set_pc_def handoff_def waiters_def holds_lane_def)
  then show ?thesis using r owner_rank_local by metis
qed

lemma head_served:
  assumes inv: "lane_inv w s" and q: "waiters s = v # vs" and m: "ln_mutex s = None"
  shows "\<exists>t. lane_reach 7 s t \<and> holds_lane t v \<and> 3 \<le> owner_rank t v \<and> waiters t = vs \<and> ln_mutex t = None"
proof -
  obtain p where p: "holds_lane s p" "ln_gate s = Gate_Queued"
    using queued_gate [OF inv] q inv_owner [OF inv] by auto
  obtain t where t: "lane_reach (owner_rank s p - 1) s t" "owner_rank t p = 1" "holds_lane t p"
      "ln_mutex t = None" "waiters t = waiters s"
    using owner_descends [OF inv p(1) m, of 1] p(2) owner_rank_bounds by auto
  have "lane_reach 6 s t" using lane_reach_mono [OF t(1), of 6] owner_rank_bounds(2) [of s p] by simp
  moreover obtain w' where v: "lane_inv w' t" using lane_reach_inv [OF t(1) inv] by blast
  moreover obtain u where u: "executor_act (Advance p) t = Some u" "holds_lane u v" "3 \<le> owner_rank u v" "waiters u = vs" "ln_mutex u = None"
    using handoff_serves_head [OF v owner_rank_pc(1) [OF t(3,2)] t(4)] t(5) q by auto
  moreover have "lane_reach 1 t u" using lane_reach_step [OF u(1) _ lane_reach_refl [of 0]] by simp
  ultimately have "lane_reach (6 + 1) s u" using lane_reach_trans by blast
  with u show ?thesis by auto
qed

lemma position_served:
  "lane_inv w s \<Longrightarrow> ln_mutex s = None \<Longrightarrow> k < length (waiters s) \<Longrightarrow> waiters s ! k = p \<Longrightarrow>
     \<exists>t. lane_reach (7 * Suc k) s t \<and> holds_lane t p \<and> 3 \<le> owner_rank t p \<and> waiters t = drop (Suc k) (waiters s) \<and> ln_mutex t = None"
proof (induction k arbitrary: w s)
  case 0
  then show ?case using head_served [OF 0(1) _ 0(2), of p "tl (waiters s)"] by (cases "waiters s") auto
next
  case (Suc k)
  then obtain v vs where q: "waiters s = v # vs" by (cases "waiters s") auto
  then obtain t where t: "lane_reach 7 s t" "waiters t = vs" "ln_mutex t = None"
    using head_served [OF Suc.prems(1) _ Suc.prems(2)] by blast
  obtain w' where "lane_inv w' t" using lane_reach_inv [OF t(1) Suc.prems(1)] by blast
  then obtain u where u: "lane_reach (7 * Suc k) t u" "holds_lane u p" "3 \<le> owner_rank u p" "waiters u = drop (Suc k) (waiters t)" "ln_mutex u = None"
    using Suc.IH [of w' t] t Suc.prems q by auto
  have "lane_reach (7 + 7 * Suc k) s u" by (rule lane_reach_trans [OF t(1) u(1)])
  with u t q show ?case by (intro exI [of _ u]) simp
qed

lemma mutex_freed:
  assumes inv: "lane_inv w s" and q: "waiters s \<noteq> []"
  shows "\<exists>t ys. lane_reach 2 s t \<and> ln_mutex t = None \<and> waiters t = waiters s @ ys"
proof -
  have gate: "ln_gate s = Gate_Queued" using queued_gate [OF inv q] by simp
  have loop: "\<exists>u ys. lane_reach 1 t u \<and> ln_mutex u = None \<and> waiters u = waiters t @ ys"
    if "ln_pc t p = LLoop" "ln_gate t = Gate_Queued" for t p
    using that lane_reach_step [of "Advance p" t _ 0, OF _ _ lane_reach_refl]
    by (simp add: executor_act_def advance_lane_def push_waiter_def set_pc_def) (fastforce simp: waiters_def)
  consider (free) "ln_mutex s = None" | (other) "ln_mutex s = Some ByOtherLane" | (acq) p where "ln_mutex s = Some (ByAcquisition p)"
    by (metis not_None_eq shard_holder.exhaust)
  then show ?thesis
  proof cases
    case free
    then show ?thesis by (intro exI [of _ s] exI [of _ "[]"]) (simp add: lane_reach_refl)
  next
    case other
    then have "executor_act OtherUnlock s = Some (s\<lparr>ln_mutex := None\<rparr>)" by (simp add: executor_act_def)
    then have "lane_reach (Suc 1) s (s\<lparr>ln_mutex := None\<rparr>)" by (rule lane_reach_step) (simp_all add: lane_reach_refl)
    then show ?thesis by (intro exI [of _ "s\<lparr>ln_mutex := None\<rparr>"] exI [of _ "[]"]) (simp add: numeral_2_eq_2 waiters_def)
  next
    case acq
    then have "ln_pc s p = LLoop \<or> ln_pc s p = LSaw Gate_Free \<or> ln_pc s p = LSaw Gate_Held"
      using lane_invD(2) [OF inv, of p] by (cases "ln_pc s p") (auto simp: place_def, metis gate_state.exhaust)
    then show ?thesis
    proof (elim disjE)
      assume "ln_pc s p = LLoop"
      then show ?thesis using loop [of s p] gate lane_reach_mono [of 1 s _ 2] by fastforce
    next
      assume saw: "ln_pc s p = LSaw Gate_Free"
      then have "executor_act (Advance p) s = Some (set_pc p LLoop s)" using gate by (simp add: executor_act_def advance_lane_def admission_claim_def)
      then show ?thesis using loop [of "set_pc p LLoop s" p] gate lane_reach_step [of "Advance p" s "set_pc p LLoop s" 1]
        by (fastforce simp: set_pc_def waiters_def numeral_2_eq_2)
    next
      assume saw: "ln_pc s p = LSaw Gate_Held"
      then have "executor_act (Advance p) s = Some (set_pc p LLoop s)" using gate by (simp add: executor_act_def advance_lane_def mark_queued_def)
      then show ?thesis using loop [of "set_pc p LLoop s" p] gate lane_reach_step [of "Advance p" s "set_pc p LLoop s" 1]
        by (fastforce simp: set_pc_def waiters_def numeral_2_eq_2)
    qed
  qed
qed

section \<open>Properties\<close>

text \<open>
  C11. Mutual exclusion: after every interleaving of claims, polls, cancellations and
  guard drops at most one acquisition holds the lane, the admission word is free exactly when
  nobody holds it, it says \<open>Queued\<close> exactly when somebody waits, and the two branches the code
  declares unreachable (a cancelled waiter missing from its queue) are never taken.
\<close>

theorem lane_exclusive:
  assumes "run_guarded lane_act es new_lane = Some s"
  shows "(holds_lane s p \<and> holds_lane s q \<longrightarrow> p = q)
    \<and> (ln_gate s = Gate_Free \<longleftrightarrow> (\<forall>r. \<not> holds_lane s r))
    \<and> (ln_gate s = Gate_Queued \<longleftrightarrow> waiters s \<noteq> [])
    \<and> distinct (waiters s) \<and> (p \<in> set (waiters s) \<longrightarrow> \<not> holds_lane s p)
    \<and> ln_pc s p \<noteq> LUnreachable"
proof -
  obtain w where inv: "lane_inv w s" using lane_reachable_inv [OF assms] by blast
  note own = inv_owner [OF inv] and gate = lane_invD(1) [OF inv]
  have "\<not> holds_lane s p" if "p \<in> set (waiters s)"
    using that lane_invD(2) [OF inv, of p] by (cases "ln_pc s p") (auto simp: place_def holds_lane_def)
  moreover have "ln_pc s p \<noteq> LUnreachable" using lane_invD(2) [OF inv, of p] by (auto simp: place_def)
  moreover have "(ln_gate s = Gate_Free) = (\<forall>r. \<not> holds_lane s r)"
    using gate own by (metis gate_ok_def not_None_eq)
  moreover have "ln_gate s = Gate_Queued \<longleftrightarrow> waiters s \<noteq> []" "distinct (waiters s)"
    using gate by (auto simp: gate_ok_def waiters_def split: option.splits)
  ultimately show ?thesis using own by (metis option.inject)
qed

definition demo_contention :: "lane_event list" where
  "demo_contention = [Poll 0, Poll 1, Advance 1, Advance 1, Advance 1, Advance 1, Advance 1,
     Poll 2, Advance 2, Advance 2, Advance 2, Advance 2]"

definition demo_lane :: lane where
  "demo_lane = \<lparr>ln_gate = Gate_Queued, ln_queue = Some [1, 2], ln_mutex = None,
     ln_pc = (\<lambda>_. LNew)(0 := LOwner, 1 := LSuspended, 2 := LSuspended), ln_granted = (\<lambda>_. False),
     ln_waker = (\<lambda>_. False)(1 := True, 2 := True), ln_woken = (\<lambda>_. False)\<rparr>"

lemma demo_contention_run: "run_guarded lane_act demo_contention new_lane = Some demo_lane"
  by (simp add: demo_contention_def demo_lane_def new_lane_def advance_lane_def admission_claim_def
      mark_queued_def set_pc_def push_waiter_def fun_upd_twist)

theorem lane_exclusive_witness:
  "holds_lane demo_lane 0 \<and> \<not> holds_lane demo_lane 1 \<and> ln_gate demo_lane = Gate_Queued"
  using lane_exclusive [OF demo_contention_run, of 0 1]
  by (simp add: demo_lane_def holds_lane_def waiters_def)

text \<open>
  C12. First come, first served: when \<open>a\<close> already waits for the lane at a moment when \<open>b\<close> has not
  queued yet, then whatever happens later, \<open>b\<close> holds the lane, by queueing or by claiming it, only
  after \<open>a\<close> was granted the lane or was cancelled and withdrawn.
\<close>

theorem lane_fifo:
  assumes "run_guarded lane_act es new_lane = Some s" and "awaits_grant s a" and "pre_queue (ln_pc s b)"
    and "run_guarded lane_act fs s = Some s'" and "holds_lane s' b"
  shows "\<not> awaits_grant s' a \<and> (ln_granted s' a \<or> ln_pc s' a = LFinished)"
proof -
  obtain w where inv: "lane_inv w s" using lane_reachable_inv [OF assms(1)] by blast
  then have ok: "lane_ok s" by (auto simp: lane_ok_def)
  have a: "a \<in> set (waiters s)" using inv_awaits [OF inv] assms(2) by simp
  have "holds_lane s b = False" using assms(3) by (cases "ln_pc s b") (simp_all add: holds_lane_def)
  then have "ahead_of a b s"
    using a inv_notin_queue [OF inv] assms(3) by (auto simp: ahead_of_def queued_outcome_def)
  then have ahead: "ahead_of a b s'" by (rule ahead_of_run [OF ok _ assms(4)])
  obtain w' where "lane_inv w' s'" using lanes.run_ok [OF ok assms(4)] by (auto simp: lane_ok_def)
  from inv_awaits [OF this] show ?thesis using ahead assms(5) by (auto simp: ahead_of_def queued_outcome_def)
qed

definition demo_first :: lane where
  "demo_first = \<lparr>ln_gate = Gate_Queued, ln_queue = Some [1], ln_mutex = None,
     ln_pc = (\<lambda>_. LNew)(0 := LOwner, 1 := LSuspended), ln_granted = (\<lambda>_. False),
     ln_waker = (\<lambda>_. False)(1 := True), ln_woken = (\<lambda>_. False)\<rparr>"

lemma demo_first_run: "run_guarded lane_act (take 7 demo_contention) new_lane = Some demo_first"
  by (simp add: demo_contention_def demo_first_def new_lane_def advance_lane_def admission_claim_def
      mark_queued_def set_pc_def push_waiter_def fun_upd_twist)

theorem lane_fifo_witness:
  "\<exists>s'. run_guarded lane_act (drop 7 demo_contention @ [DropGuard 0, Advance 0, Advance 0, Advance 0, Poll 1,
      Advance 1, Advance 1, DropGuard 1, Advance 1, Advance 1]) demo_first = Some s'
    \<and> holds_lane s' 2 \<and> \<not> awaits_grant s' 1"
proof -
  let ?fs = "drop 7 demo_contention @ [DropGuard 0, Advance 0, Advance 0, Advance 0, Poll 1, Advance 1, Advance 1,
      DropGuard 1, Advance 1, Advance 1]"
  obtain s' where s': "run_guarded lane_act ?fs demo_first = Some s'" "holds_lane s' 2"
    by (simp add: demo_first_def demo_contention_def advance_lane_def set_pc_def release_ready_def handoff_def
        admission_claim_def mark_queued_def push_waiter_def holds_lane_def)
  have "awaits_grant demo_first 1" "pre_queue (ln_pc demo_first 2)" by (simp_all add: awaits_grant_def demo_first_def)
  from lane_fifo [OF demo_first_run this s'] s' show ?thesis by blast
qed

text \<open>
  No wake-up is lost: a suspended acquisition that has been granted the lane has been woken,
  or its waker is registered and the releasing thread is about to call it. One that has not been
  granted waits in the queue with its waker registered.
\<close>

theorem lane_no_lost_wakeup:
  assumes "run_guarded lane_act es new_lane = Some s" and "ln_pc s p = LSuspended"
  shows "if ln_granted s p then holds_lane s p \<and> (ln_woken s p \<or> ln_waker s p \<and> (\<exists>r. ln_pc s r = LWake p))
    else p \<in> set (waiters s) \<and> ln_waker s p"
proof -
  obtain w where "lane_inv w s" using lane_reachable_inv [OF assms(1)] by blast
  from lane_invD(2) [OF this, of p] assms(2) show ?thesis
    by (auto simp: place_def holds_lane_def wake_pending_def split: if_splits)
qed

theorem lane_no_lost_wakeup_witness: "1 \<in> set (waiters demo_lane) \<and> ln_waker demo_lane 1"
  using lane_no_lost_wakeup [OF demo_contention_run, of 1] by (simp add: demo_lane_def)

text \<open>
  C13. Progress without spurious polls: from every reachable state, an acquisition at position \<open>k\<close>
  of the queue that has not been cancelled obtains its guard by an execution with no further
  cancellation, in which a suspended acquisition is polled only after its waker was called. At
  most \<open>2 + 7 * (k + 1) + 4\<close> atomic steps are enough: two to let whoever is inside the shard's
  critical section leave it, seven for each holder in front to be woken, polled, drop its guard and
  hand the lane on, and four to be woken and polled itself. No waiter is left asleep.
\<close>

theorem lane_progress:
  assumes "run_guarded lane_act es new_lane = Some s" and "k < length (waiters s)"
    and "ln_pc s (waiters s ! k) \<noteq> LWithdraw"
  shows "\<exists>fs s'. length fs \<le> 2 + 7 * Suc k + 4 \<and> (\<forall>p. Cancel p \<notin> set fs)
    \<and> run_guarded executor_act fs s = Some s' \<and> ln_pc s' (waiters s ! k) = LOwner"
proof -
  let ?p = "waiters s ! k"
  obtain w where inv: "lane_inv w s" using lane_reachable_inv [OF assms(1)] by blast
  have ne: "waiters s \<noteq> []" using assms(2) by auto
  obtain t ys where t: "lane_reach 2 s t" "ln_mutex t = None" "waiters t = waiters s @ ys"
    using mutex_freed [OF inv ne] by blast
  obtain v where v: "lane_inv v t" using lane_reach_inv [OF t(1) inv] by blast
  have "k < length (waiters t)" "waiters t ! k = ?p" using t(3) assms(2) by (simp_all add: nth_append)
  then obtain u where u: "lane_reach (7 * Suc k) t u" "holds_lane u ?p" "3 \<le> owner_rank u ?p" "ln_mutex u = None"
    using position_served [OF v t(2)] by blast
  have su: "lane_reach (2 + 7 * Suc k) s u" by (rule lane_reach_trans [OF t(1) u(1)])
  obtain x where x: "lane_inv x u" using lane_reach_inv [OF su inv] by blast
  obtain z where z: "lane_reach (owner_rank u ?p - 3) u z" "owner_rank z ?p = 3" "holds_lane z ?p"
    using owner_descends [OF x u(2,4) _ u(3)] by auto
  have "lane_reach 4 u z" using lane_reach_mono [OF z(1)] owner_rank_bounds(2) [of u ?p] by simp
  then have sz: "lane_reach (2 + 7 * Suc k + 4) s z" by (rule lane_reach_trans [OF su])
  have "ln_pc z ?p = LOwner"
    using owner_rank_pc(2) [OF z(3,2)] lane_reach_uncancelled [OF sz assms(3)] by blast
  with sz show ?thesis unfolding lane_reach_def by blast
qed

theorem lane_progress_witness:
  "\<exists>fs s'. length fs \<le> 20 \<and> run_guarded executor_act fs demo_lane = Some s' \<and> ln_pc s' 2 = LOwner"
  using lane_progress [OF demo_contention_run, of 1] by (auto simp: demo_lane_def waiters_def)

end
