(* ===== verification/Amalgam_Circuit.thy ===== *)
theory Amalgam_Circuit
  imports Amalgam_Time
begin

text \<open>
  The circuit breaker of \<open>src/circuit.rs\<close>: a duration and one atomic \<open>i64\<close>, the tick at which
  the breaker closes again, with \<open>i64::MIN\<close> as the closed sentinel. The operations are modelled
  twice: as whole calls on the record, and as sequences of atomic accesses (\<open>load\<close>,
  \<open>compare_exchange\<close>, \<open>fetch_max\<close>, \<open>swap\<close>) that any number of threads interleave. The lemmas
  show that a call running alone behaves as the whole call, that every transition is reported
  by exactly one caller under every interleaving, and that no trip shortens the open window.
\<close>

section \<open>Calls\<close>

definition CLOSED :: int where
  "CLOSED = i64_min"

datatype circuit_check = CheckClosed | CheckOpen timestamp | ClosedAfterCooldown

record circuit_breaker =
  open_duration :: duration
  reopen_at :: int

definition CircuitBreaker_new :: "duration \<Rightarrow> circuit_breaker" where
  "CircuitBreaker_new d = \<lparr>open_duration = d, reopen_at = CLOSED\<rparr>"

definition is_disabled :: "circuit_breaker \<Rightarrow> bool" where
  "is_disabled cb \<longleftrightarrow> open_duration cb = 0"

definition check :: "timestamp \<Rightarrow> circuit_breaker \<Rightarrow> circuit_breaker \<times> circuit_check" where
  "check now cb =
     (if is_disabled cb then (cb, CheckClosed)
      else let reopen = reopen_at cb
           in if reopen = CLOSED then (cb, CheckClosed)
              else if now < reopen then (cb, CheckOpen reopen)
              else (cb\<lparr>reopen_at := CLOSED\<rparr>, ClosedAfterCooldown))"

definition is_closed :: "timestamp \<Rightarrow> circuit_breaker \<Rightarrow> circuit_breaker \<times> bool" where
  "is_closed now cb = (let (cb', r) = check now cb
     in (cb', case r of CheckOpen until \<Rightarrow> False | _ \<Rightarrow> True))"

definition is_closed_without_clock :: "circuit_breaker \<Rightarrow> bool" where
  "is_closed_without_clock cb \<longleftrightarrow> is_disabled cb \<or> reopen_at cb = CLOSED"

definition trip_deadline :: "timestamp \<Rightarrow> duration \<Rightarrow> int" where
  "trip_deadline now d = max (saturating_add now d) (min (now + 1) i64_max)"

definition trip :: "timestamp \<Rightarrow> circuit_breaker \<Rightarrow> circuit_breaker \<times> bool" where
  "trip now cb =
     (if is_disabled cb then (cb, False)
      else let reopen = trip_deadline now (open_duration cb); previous = reopen_at cb
           in (cb\<lparr>reopen_at := max previous reopen\<rparr>, previous = CLOSED))"

definition close :: "circuit_breaker \<Rightarrow> circuit_breaker \<times> bool" where
  "close cb =
     (if reopen_at cb = CLOSED then (cb, False)
      else (cb\<lparr>reopen_at := CLOSED\<rparr>, reopen_at cb \<noteq> CLOSED))"

section \<open>Atomic steps\<close>

datatype circuit_call = CallCheck timestamp | CallTrip timestamp | CallClose

datatype circuit_result = Checked circuit_check | Tripped bool | ForcedClosed bool

text \<open>
  A thread inside a call: about to make its first access, between the load and the
  compare-exchange of \<open>check\<close>, between the load and the swap of \<open>close\<close>, or returned.
\<close>

datatype circuit_proc =
    Begin circuit_call
  | CheckLoaded timestamp int
  | CloseLoaded
  | Returned circuit_result

fun circuit_atomic :: "duration \<Rightarrow> int \<Rightarrow> circuit_proc \<Rightarrow> int \<times> circuit_proc" where
  "circuit_atomic d reg (Begin (CallCheck now)) =
     (if d = 0 then (reg, Returned (Checked CheckClosed))
      else if reg = CLOSED then (reg, Returned (Checked CheckClosed))
      else if now < reg then (reg, Returned (Checked (CheckOpen reg)))
      else (reg, CheckLoaded now reg))"
| "circuit_atomic d reg (CheckLoaded now reopen) =
     (if reg = reopen then (CLOSED, Returned (Checked ClosedAfterCooldown))
      else (reg, Begin (CallCheck now)))"
| "circuit_atomic d reg (Begin (CallTrip now)) =
     (if d = 0 then (reg, Returned (Tripped False))
      else (max reg (trip_deadline now d), Returned (Tripped (reg = CLOSED))))"
| "circuit_atomic d reg (Begin CallClose) =
     (if reg = CLOSED then (reg, Returned (ForcedClosed False)) else (reg, CloseLoaded))"
| "circuit_atomic d reg CloseLoaded = (CLOSED, Returned (ForcedClosed (reg \<noteq> CLOSED)))"
| "circuit_atomic d reg (Returned r) = (reg, Returned r)"

text \<open>Any thread may take the next atomic step.\<close>

inductive circuit_step ::
  "duration \<Rightarrow> int \<times> circuit_proc list \<Rightarrow> int \<times> circuit_proc list \<Rightarrow> bool" for d where
  step: "i < length ps \<Longrightarrow> circuit_atomic d reg (ps ! i) = (reg', p') \<Longrightarrow>
    circuit_step d (reg, ps) (reg', ps[i := p'])"

inductive_cases circuit_stepE: "circuit_step d s s'"

abbreviation circuit_steps ::
  "duration \<Rightarrow> int \<times> circuit_proc list \<Rightarrow> int \<times> circuit_proc list \<Rightarrow> bool" where
  "circuit_steps d \<equiv> (circuit_step d)\<^sup>*\<^sup>*"

section \<open>Calls running alone\<close>

fun circuit_solo :: "nat \<Rightarrow> duration \<Rightarrow> int \<Rightarrow> circuit_proc \<Rightarrow> int \<times> circuit_proc" where
  "circuit_solo 0 d reg p = (reg, p)"
| "circuit_solo (Suc n) d reg p = (let (reg', p') = circuit_atomic d reg p in circuit_solo n d reg' p')"

fun circuit_whole :: "circuit_call \<Rightarrow> circuit_breaker \<Rightarrow> circuit_breaker \<times> circuit_result" where
  "circuit_whole (CallCheck now) cb = (let (cb', r) = check now cb in (cb', Checked r))"
| "circuit_whole (CallTrip now) cb = (let (cb', r) = trip now cb in (cb', Tripped r))"
| "circuit_whole CallClose cb = (let (cb', r) = close cb in (cb', ForcedClosed r))"

text \<open>
  Every call of the breaker that runs without interference finishes within two atomic
  accesses and has exactly the effect and the result of the sequential call.
\<close>

theorem circuit_solo_whole:
  "circuit_solo 2 (open_duration cb) (reopen_at cb) (Begin call) =
     (reopen_at (fst (circuit_whole call cb)), Returned (snd (circuit_whole call cb)))"
  by (cases call)
    (auto simp: numeral_2_eq_2 check_def trip_def close_def is_disabled_def Let_def)

section \<open>Exactly-once reporting\<close>

fun opened :: "circuit_proc \<Rightarrow> nat" where
  "opened (Returned (Tripped True)) = 1"
| "opened p = 0"

fun closed_by :: "circuit_proc \<Rightarrow> nat" where
  "closed_by (Returned (Checked ClosedAfterCooldown)) = 1"
| "closed_by (Returned (ForcedClosed True)) = 1"
| "closed_by p = 0"

definition open_now :: "int \<Rightarrow> nat" where
  "open_now reg = (if reg = CLOSED then 0 else 1)"

fun proc_ok :: "circuit_proc \<Rightarrow> bool" where
  "proc_ok (Begin (CallTrip now)) = in_i64 now"
| "proc_ok (CheckLoaded now reopen) = (reopen \<noteq> CLOSED)"
| "proc_ok p = True"

definition total :: "(circuit_proc \<Rightarrow> nat) \<Rightarrow> circuit_proc list \<Rightarrow> nat" where
  "total f ps = sum_list (map f ps)"

lemma total_update: "i < length ps \<Longrightarrow> total f (ps[i := p]) + f (ps ! i) = total f ps + f p"
  by (induction ps arbitrary: i) (auto simp: total_def split: nat.splits)

lemma trip_deadline_bounds:
  assumes "in_i64 now"
  shows "CLOSED < trip_deadline now d" and "trip_deadline now d \<le> i64_max"
    and "saturating_add now d \<le> trip_deadline now d"
  using assms in_i64_saturating_add [of now d]
  by (auto simp: trip_deadline_def CLOSED_def in_i64_def max_def min_def)

definition circuit_ok :: "nat \<Rightarrow> int \<times> circuit_proc list \<Rightarrow> bool" where
  "circuit_ok k s \<longleftrightarrow> (case s of (reg, ps) \<Rightarrow>
     in_i64 reg \<and> list_all proc_ok ps
   \<and> k + total opened ps = total closed_by ps + open_now reg)"

lemma circuit_atomic_ok:
  assumes "circuit_atomic d reg p = (reg', p')" and "proc_ok p" and "in_i64 reg"
  shows "in_i64 reg' \<and> proc_ok p'
    \<and> opened p' + closed_by p + open_now reg = closed_by p' + opened p + open_now reg'"
proof -
  have closed: "in_i64 CLOSED" by (simp add: CLOSED_def in_i64_def)
  have trip: "in_i64 (max reg (trip_deadline now d)) \<and> max reg (trip_deadline now d) \<noteq> CLOSED"
    if "in_i64 now" for now
  proof -
    note bounds = trip_deadline_bounds [OF that, of d]
    then have "in_i64 (trip_deadline now d)" by (auto simp: in_i64_def CLOSED_def)
    moreover have "CLOSED < max reg (trip_deadline now d)"
      using bounds(1) by (rule less_le_trans) simp
    ultimately show ?thesis using assms(3) by simp
  qed
  show ?thesis
  proof (cases p)
    case (Begin call)
    show ?thesis
    proof (cases call)
      case (CallTrip now)
      with Begin assms trip [of now] show ?thesis
        by (cases "reg = CLOSED") (auto simp: open_now_def split: if_splits)
    qed (use Begin assms in \<open>auto split: if_splits\<close>)
  qed (use assms closed in \<open>auto simp: open_now_def split: if_splits\<close>)
qed

lemma circuit_step_ok: "circuit_step d s s' \<Longrightarrow> circuit_ok k s \<Longrightarrow> circuit_ok k s'"
proof (erule circuit_stepE, goal_cases)
  case (1 i ps reg reg' p')
  then have ok: "proc_ok (ps ! i)" "in_i64 reg" "list_all proc_ok ps"
    and eq: "k + total opened ps = total closed_by ps + open_now reg"
    by (auto simp: circuit_ok_def list_all_length)
  note atomic = circuit_atomic_ok [OF 1(5) ok(1,2)]
  have "list_all proc_ok (ps[i := p'])"
    using ok(3) atomic 1(4) by (simp add: list_all_length nth_list_update)
  moreover have "k + total opened (ps[i := p']) = total closed_by (ps[i := p']) + open_now reg'"
    using total_update [OF 1(4), of opened p'] total_update [OF 1(4), of closed_by p'] atomic eq
    by linarith
  ultimately show ?case using 1 atomic by (simp add: circuit_ok_def)
qed

lemma circuit_steps_ok: "circuit_steps d s s' \<Longrightarrow> circuit_ok k s \<Longrightarrow> circuit_ok k s'"
  by (induction rule: rtranclp_induct) (auto intro: circuit_step_ok)

lemma total_Begin [simp]: "total opened (map Begin calls) = 0" "total closed_by (map Begin calls) = 0"
  by (induction calls) (auto simp: total_def)

text \<open>
  C4. Under every interleaving of any number of concurrent \<open>check\<close>, \<open>trip\<close> and \<open>close\<close> calls on
  a closed breaker, transitions are reported exactly once: the number of calls that reported
  opening it is the number of calls that reported closing it, plus one exactly when the breaker
  is open now. No transition is missed and none is announced twice.
\<close>

theorem circuit_reports_once:
  assumes "circuit_steps d (CLOSED, map Begin calls) (reg, ps)"
    and "\<forall>now. CallTrip now \<in> set calls \<longrightarrow> in_i64 now"
  shows "total opened ps = total closed_by ps + (if reg = CLOSED then 0 else 1)"
proof -
  have "list_all proc_ok (map Begin calls)"
    unfolding list_all_iff
  proof
    fix p assume "p \<in> set (map Begin calls)"
    then obtain c where "p = Begin c" "c \<in> set calls" by auto
    then show "proc_ok p" using assms(2) by (cases c) simp_all
  qed
  then have "circuit_ok 0 (CLOSED, map Begin calls)"
    by (simp add: circuit_ok_def open_now_def in_i64_def CLOSED_def)
  from circuit_steps_ok [OF assms(1) this] show ?thesis
    by (simp add: circuit_ok_def open_now_def)
qed

theorem circuit_reports_once_witness:
  "\<exists>reg ps. circuit_steps 100 (CLOSED, map Begin [CallTrip 5, CallClose]) (reg, ps)
     \<and> reg = CLOSED \<and> total opened ps = 1 \<and> total closed_by ps = 1"
proof -
  let ?calls = "[CallTrip 5, CallClose]"
  let ?fin = "[Returned (Tripped True), Returned (ForcedClosed True)]"
  have 1: "circuit_step 100 (CLOSED, map Begin ?calls) (6, [Returned (Tripped True), Begin CallClose])"
    using circuit_step.step [of 0 "map Begin ?calls" 100 CLOSED 6 "Returned (Tripped True)"]
    by (simp add: trip_deadline_def CLOSED_def saturating_add_eq in_i64_def)
  have 2: "circuit_step 100 (6, [Returned (Tripped True), Begin CallClose])
      (6, [Returned (Tripped True), CloseLoaded])"
    using circuit_step.step [of 1 "[Returned (Tripped True), Begin CallClose]" 100 6 6 CloseLoaded]
    by (simp add: CLOSED_def)
  have 3: "circuit_step 100 (6, [Returned (Tripped True), CloseLoaded]) (CLOSED, ?fin)"
    using circuit_step.step [of 1 "[Returned (Tripped True), CloseLoaded]" 100 6 CLOSED
        "Returned (ForcedClosed True)"] by (simp add: CLOSED_def)
  from 1 2 3 have run: "circuit_steps 100 (CLOSED, map Begin ?calls) (CLOSED, ?fin)"
    by (meson converse_rtranclp_into_rtranclp rtranclp.rtrancl_refl)
  have "\<forall>now. CallTrip now \<in> set ?calls \<longrightarrow> in_i64 now" by (simp add: in_i64_def)
  from circuit_reports_once [OF run this] run show ?thesis
    by (intro exI conjI) (assumption, auto simp: total_def)
qed

section \<open>The open window\<close>

lemma open_duration_trip [simp]: "open_duration (fst (trip now cb)) = open_duration cb"
  by (simp add: trip_def Let_def)

lemma trip_ge:
  "reopen_at cb \<le> reopen_at (fst (trip now cb))"
  by (simp add: trip_def Let_def)

lemma trips_ge: "reopen_at cb \<le> reopen_at (foldl (\<lambda>cb t. fst (trip t cb)) cb ts)"
  by (induction ts arbitrary: cb) (auto intro: order_trans [OF trip_ge])

lemma open_duration_trips [simp]:
  "open_duration (foldl (\<lambda>cb t. fst (trip t cb)) cb ts) = open_duration cb"
  by (induction ts arbitrary: cb) simp_all

text \<open>
  A trip keeps an enabled breaker open for its whole duration: after a trip at \<open>now\<close>,
  whatever delayed failures with older or newer clock readings trip it again, a check at any
  earlier time than \<open>now\<close> plus the duration is refused with an end at least that late, the
  state stays unchanged, and even a duration below one tick blocks the instant of the trip.
\<close>

theorem circuit_window_kept:
  assumes "in_i64 now" and "0 < open_duration cb"
    and "cb' = foldl (\<lambda>cb t. fst (trip t cb)) (fst (trip now cb)) later"
    and "t < saturating_add now (open_duration cb) \<or> t = now \<and> now < i64_max"
  shows "\<exists>until. check t cb' = (cb', CheckOpen until)
    \<and> saturating_add now (open_duration cb) \<le> until \<and> \<not> snd (trip t cb')"
proof -
  have "trip_deadline now (open_duration cb) \<le> reopen_at (fst (trip now cb))"
    using assms(2) by (simp add: trip_def is_disabled_def Let_def)
  also have "\<dots> \<le> reopen_at cb'" using trips_ge by (simp add: assms(3))
  finally have ge: "trip_deadline now (open_duration cb) \<le> reopen_at cb'" .
  have "t < trip_deadline now (open_duration cb)"
    using assms(1,4) by (auto simp: trip_deadline_def less_max_iff_disj)
  with ge trip_deadline_bounds [OF assms(1), of "open_duration cb"]
  have "t < reopen_at cb'" "reopen_at cb' \<noteq> CLOSED"
    "saturating_add now (open_duration cb) \<le> reopen_at cb'" by auto
  moreover have "open_duration cb' \<noteq> 0" using assms(2) by (simp add: assms(3))
  ultimately show ?thesis by (simp add: check_def trip_def is_disabled_def Let_def)
qed

theorem circuit_window_kept_witness:
  "\<exists>until. check 1005 (foldl (\<lambda>cb t. fst (trip t cb)) (fst (trip 1000 (CircuitBreaker_new 1000))) [3])
      = (foldl (\<lambda>cb t. fst (trip t cb)) (fst (trip 1000 (CircuitBreaker_new 1000))) [3], CheckOpen until)
     \<and> 1010 \<le> until"
  using circuit_window_kept [of 1000 "CircuitBreaker_new 1000", OF _ _ refl, of 1005 "[3]"]
  by (auto simp: in_i64_def CircuitBreaker_new_def saturating_add_eq)

end
