(* ===== verification/Amalgam_Worker.thy ===== *)
theory Amalgam_Worker
  imports Amalgam_Keys Amalgam_Observations Amalgam_Lanes Amalgam_Circuit
begin

text \<open>
  The state that the operations of one cache share, and the helpers of \<open>cache.rs\<close>, \<open>cache/ready.rs\<close>
  and \<open>cache/runtime.rs\<close> that every operation calls: marker verdicts, value copies, the circuit of a
  component, the classification of failures and the reaction to a change of the backplane's
  connection. The first level is the bounded built-in store of Amalgam_Memory; the registry, the
  key lanes, the circuits and the recovery queue are the models of their own theories. An operation
  maps the shared state to a new one and a result; between any two of its accesses other
  operations may change the state arbitrarily, which the environment of each operation expresses
  by functions on the state. The continuity epoch has the address 0 in the stamps of entries.
\<close>

section \<open>Shared state\<close>

datatype cache_level = MemoryLevel | DistributedLevel | OriginLevel | BackplaneLevel

datatype operation_outcome = OutHit | OutStaleHit | OutMiss | OutStored | OutRemoved | OutExpired | OutInvalidated

datatype marker_snapshot_write_outcome = SnapshotStored | SnapshotKeptNewer | SnapshotExpired | SnapshotBackendFailure | SnapshotProtocolFailure

datatype cache_event =
    Hit_event string bool
  | Miss_event string
  | Set_event string
  | Remove_event string
  | Expire_event string
  | FailSafeActivate_event string
  | FactorySyntheticTimeout_event string
  | FactorySuccess_event string
  | FactoryError_event string
  | BackgroundFactorySuccess_event string
  | EagerRefresh_event string
  | CircuitBreakerChange_event circuit_component bool
  | SerializationError_event string
  | DeserializationError_event string
  | MessagePublished_event string
  | MemoryHit_event string bool
  | MemoryMiss_event string
  | MemoryRemove_event string
  | DistributedHit_event string bool
  | DistributedMiss_event string
  | DistributedSet_event string
  | DistributedRemove_event string
  | MessageReceived_event string
  | MarkerReceived_event marker_command
  | BackplaneReceived_event backplane_message
  | RemoveByTag_event string
  | Clear_event
  | MarkerRead_event marker_kind marker_read_outcome
  | MarkerSnapshotWrite_event marker_kind marker_snapshot_write_outcome
  | MarkerEagerRefresh_event marker_kind

datatype reconciliation_policy = LocalOnly | ExpirationPolicy | Periodic duration | BackplaneContinuity | BackplaneBestEffort

fun invalidates_on_gap :: "reconciliation_policy \<Rightarrow> bool" where
  "invalidates_on_gap LocalOnly = True"
| "invalidates_on_gap (Periodic d) = True"
| "invalidates_on_gap BackplaneContinuity = True"
| "invalidates_on_gap ExpirationPolicy = False"
| "invalidates_on_gap BackplaneBestEffort = False"

datatype lease_policy = FencedPolicy | CooperativePolicy

record 'v cache_config =
  cc_hybrid :: bool
  cc_backplane :: bool
  cc_disable_tagging :: bool
  cc_remove_by_tag :: remove_by_tag_behavior
  cc_cloner :: "('v \<Rightarrow> cache_error + 'v) option"
  cc_reconciliation :: reconciliation_policy
  cc_lease_policy :: lease_policy
  cc_durable_markers :: bool
  cc_marker_reads :: marker_read_policy
  cc_immediate_plan :: bool
  cc_distributed_key :: distributed_key
  cc_instance :: string

record 'v worker =
  wk_memory :: "'v retention"
  wk_tags :: tag_registry
  wk_observed :: "marker_observation retention"
  wk_clears :: clear_observations
  wk_epoch :: nat
  wk_lanes :: "(string, key_lane) hmap"
  wk_locked :: "string list"
  wk_l2 :: circuit_breaker
  wk_bp :: circuit_breaker
  wk_recovery :: "recovery_service option"
  wk_health :: "backplane_state option"
  wk_admitted :: bool
  wk_closed :: bool
  wk_events :: "cache_event list"

abbreviation wk_ep :: "'v worker \<Rightarrow> nat \<Rightarrow> nat" where
  "wk_ep w \<equiv> (\<lambda>_. wk_epoch w)"

type_synonym ('v, 'a) worker_result = "'v worker \<times> (cache_error + 'a)"

definition worker_lane :: "string \<Rightarrow> 'v worker \<Rightarrow> key_lane" where
  "worker_lane key w = (case hm_get (wk_lanes w) key of None \<Rightarrow> KeyLane_new | Some kl \<Rightarrow> kl)"

definition emit :: "cache_event \<Rightarrow> 'v worker \<Rightarrow> 'v worker" where
  "emit e w = w\<lparr>wk_events := wk_events w @ [e]\<rparr>"

section \<open>Verdicts and copies\<close>

definition worker_tags :: "'v cache_config \<Rightarrow> 'v entry \<Rightarrow> 'v worker \<Rightarrow> tag_verdict" where
  "worker_tags cfg e w =
     (if cc_disable_tagging cfg then Valid
      else evaluate (wk_tags w) (md_created (en_meta e)) (md_tags (en_meta e)) (cc_remove_by_tag cfg))"

text \<open>\<open>serializers::copy_value\<close>: an ordinary clone yields an equal value; a configured cloner is a parameter.\<close>

definition copy_value :: "('v \<Rightarrow> cache_error + 'v) option \<Rightarrow> entry_options \<Rightarrow> 'v \<Rightarrow> cache_error + 'v" where
  "copy_value cloner opts v =
     (case validate opts of
        Inl e \<Rightarrow> Inl (ErrConfig e)
      | Inr _ \<Rightarrow>
          if \<not> opt_enable_auto_clone opts then Inr v
          else case cloner of Some f \<Rightarrow> f v | None \<Rightarrow> Inl (ErrConfig AutoCloneWithoutCloner))"

definition newer_of :: "'v entry option \<Rightarrow> 'v entry \<Rightarrow> 'v entry" where
  "newer_of existing candidate =
     (case existing of
        Some e \<Rightarrow> if md_created (en_meta e) \<ge> md_created (en_meta candidate) then e else candidate
      | None \<Rightarrow> candidate)"

section \<open>Circuits and failures\<close>

fun component_circuit :: "circuit_component \<Rightarrow> 'v worker \<Rightarrow> circuit_breaker" where
  "component_circuit DistributedCircuit w = wk_l2 w"
| "component_circuit BackplaneCircuit w = wk_bp w"

fun with_circuit :: "circuit_component \<Rightarrow> circuit_breaker \<Rightarrow> 'v worker \<Rightarrow> 'v worker" where
  "with_circuit DistributedCircuit c w = w\<lparr>wk_l2 := c\<rparr>"
| "with_circuit BackplaneCircuit c w = w\<lparr>wk_bp := c\<rparr>"

definition circuit_admits :: "circuit_component \<Rightarrow> timestamp \<Rightarrow> 'v worker \<Rightarrow> 'v worker \<times> bool" where
  "circuit_admits component now w =
     (let c = component_circuit component w in
      if is_closed_without_clock c then (w, True)
      else let (c', r) = check now c; w' = with_circuit component c' w
           in case r of
                CheckOpen _ \<Rightarrow> (w', False)
              | CheckClosed \<Rightarrow> (w', True)
              | ClosedAfterCooldown \<Rightarrow> (emit (CircuitBreakerChange_event component True) w', True))"

definition close_circuit :: "circuit_component \<Rightarrow> 'v worker \<Rightarrow> 'v worker" where
  "close_circuit component w =
     (let (c', changed) = close (component_circuit component w); w' = with_circuit component c' w
      in if changed then emit (CircuitBreakerChange_event component True) w' else w')"

definition trip_circuit :: "circuit_component \<Rightarrow> timestamp \<Rightarrow> 'v worker \<Rightarrow> 'v worker" where
  "trip_circuit component now w =
     (let (c', changed) = trip now (component_circuit component w); w' = with_circuit component c' w
      in if changed then emit (CircuitBreakerChange_event component False) w' else w')"

definition failure :: "string \<Rightarrow> timestamp \<Rightarrow> cache_error \<Rightarrow> 'v worker \<Rightarrow> 'v worker" where
  "failure key now error w =
     (case error of
        ErrSerialization _ \<Rightarrow> emit (SerializationError_event key) w
      | ErrDeserialization _ \<Rightarrow> emit (DeserializationError_event key) w
      | ErrCodecSerialization _ \<Rightarrow> emit (SerializationError_event key) w
      | ErrCodecDeserialization _ \<Rightarrow> emit (DeserializationError_event key) w
      | ErrDistributed _ \<Rightarrow> trip_circuit DistributedCircuit now w
      | ErrLease le \<Rightarrow> (case le of LeaseBackend _ \<Rightarrow> trip_circuit DistributedCircuit now w | _ \<Rightarrow> w)
      | ErrMarker me \<Rightarrow> (case me of MarkerBackend _ \<Rightarrow> trip_circuit DistributedCircuit now w | _ \<Rightarrow> w)
      | ErrBackplane _ \<Rightarrow> trip_circuit BackplaneCircuit now w
      | ErrTransportDistributed _ \<Rightarrow> trip_circuit DistributedCircuit now w
      | ErrTransportBackplane _ \<Rightarrow> trip_circuit BackplaneCircuit now w
      | _ \<Rightarrow> w)"

definition l2_read_rethrow :: "entry_options \<Rightarrow> cache_error \<Rightarrow> bool" where
  "l2_read_rethrow opts error =
     (case error of
        ErrSerialization _ \<Rightarrow> opt_rethrow_serialization_exceptions opts
      | ErrDeserialization _ \<Rightarrow> opt_rethrow_serialization_exceptions opts
      | ErrCodecSerialization _ \<Rightarrow> opt_rethrow_serialization_exceptions opts
      | ErrCodecDeserialization _ \<Rightarrow> opt_rethrow_serialization_exceptions opts
      | ErrConfig _ \<Rightarrow> True
      | ErrClone _ \<Rightarrow> True
      | ErrTag _ \<Rightarrow> True
      | ErrOperationCancelled _ \<Rightarrow> True
      | ErrFactoryCancelled _ \<Rightarrow> True
      | _ \<Rightarrow> opt_rethrow_distributed_exceptions opts)"

section \<open>Connection changes\<close>

fun is_connected :: "backplane_state \<Rightarrow> bool" where
  "is_connected (Connected e) = True"
| "is_connected (Disconnected e) = False"
| "is_connected BackplaneStopped = False"

text \<open>\<open>CacheInner::close\<close>: the first closer stops the recovery queue. Scopes and plugins are not part of the state.\<close>

definition close_cache :: "'v worker \<Rightarrow> 'v worker" where
  "close_cache w = (if wk_closed w then w else w\<lparr>wk_closed := True, wk_recovery := map_option recovery_stop (wk_recovery w)\<rparr>)"

text \<open>The built-in memories never fail to invalidate; only a controlled marker policy keeps observations.\<close>

definition invalidate_memory_layers :: "'v cache_config \<Rightarrow> 'v worker \<Rightarrow> 'v worker" where
  "invalidate_memory_layers cfg w =
     (let w = w\<lparr>wk_memory := fst (invalidate_all (wk_memory w))\<rparr>
      in case cc_marker_reads cfg of
           DurableRequired \<Rightarrow> w
         | OptionsControlled \<Rightarrow> w\<lparr>wk_clears := reset_clears, wk_observed := fst (invalidate_all (wk_observed w))\<rparr>)"

definition continuity_gap :: "'v cache_config \<Rightarrow> 'v worker \<Rightarrow> 'v worker" where
  "continuity_gap cfg w =
     (let w = (if invalidates_on_gap (cc_reconciliation cfg)
               then invalidate_memory_layers cfg
                      (case checked_add_u64 (wk_epoch w) 1 of Some n \<Rightarrow> w\<lparr>wk_epoch := n\<rparr> | None \<Rightarrow> close_cache w)
               else w)
      in w\<lparr>wk_recovery := map_option suspend (wk_recovery w)\<rparr>)"

text \<open>
  \<open>ensure_health\<close> with the connection state the provider reports (\<open>None\<close>: no backplane or no health
  stream). An exhausted epoch closes the cache.
\<close>

definition ensure_health :: "'v cache_config \<Rightarrow> backplane_state option \<Rightarrow> instant \<Rightarrow> 'v worker \<Rightarrow> 'v worker" where
  "ensure_health cfg latest inow w =
     (case latest of
        None \<Rightarrow> w
      | Some current \<Rightarrow>
          if wk_health w = Some current then w
          else
            let gap = (\<not> is_connected current \<or> wk_health w \<noteq> None);
                invalidate = (gap \<and> invalidates_on_gap (cc_reconciliation cfg));
                bumped = checked_add_u64 (wk_epoch w) 1;
                exhausted = (invalidate \<and> bumped = None);
                w1 = w\<lparr>wk_health := Some current,
                       wk_epoch := (if invalidate then (case bumped of Some n \<Rightarrow> n | None \<Rightarrow> wk_epoch w) else wk_epoch w)\<rparr>;
                w2 = (if is_connected current
                      then w1\<lparr>wk_admitted := True, wk_recovery := map_option (fst \<circ> pause_after_reconnect inow) (wk_recovery w1)\<rparr>
                      else w1\<lparr>wk_recovery := map_option suspend (wk_recovery w1)\<rparr>);
                w3 = (if invalidate then invalidate_memory_layers cfg w2 else w2)
            in if exhausted then close_cache w3 else w3)"

lemma close_frames [simp]:
  "wk_memory (close_cache w) = wk_memory w" "wk_tags (close_cache w) = wk_tags w" "wk_epoch (close_cache w) = wk_epoch w"
  "wk_lanes (close_cache w) = wk_lanes w" "wk_locked (close_cache w) = wk_locked w" "wk_health (close_cache w) = wk_health w" "wk_closed (close_cache w)"
  "wk_events (close_cache w) = wk_events w" "wk_admitted (close_cache w) = wk_admitted w" "wk_l2 (close_cache w) = wk_l2 w" "wk_bp (close_cache w) = wk_bp w"
  "wk_observed (close_cache w) = wk_observed w" "wk_clears (close_cache w) = wk_clears w"
  by (simp_all add: close_cache_def)

lemma layers_frames [simp]:
  "wk_memory (invalidate_memory_layers cfg w) = fst (invalidate_all (wk_memory w))" "wk_tags (invalidate_memory_layers cfg w) = wk_tags w"
  "wk_epoch (invalidate_memory_layers cfg w) = wk_epoch w" "wk_lanes (invalidate_memory_layers cfg w) = wk_lanes w"
  "wk_locked (invalidate_memory_layers cfg w) = wk_locked w" "wk_health (invalidate_memory_layers cfg w) = wk_health w"
  "wk_closed (invalidate_memory_layers cfg w) = wk_closed w" "wk_recovery (invalidate_memory_layers cfg w) = wk_recovery w"
  "wk_events (invalidate_memory_layers cfg w) = wk_events w" "wk_admitted (invalidate_memory_layers cfg w) = wk_admitted w"
  "wk_l2 (invalidate_memory_layers cfg w) = wk_l2 w" "wk_bp (invalidate_memory_layers cfg w) = wk_bp w"
  by (simp_all add: invalidate_memory_layers_def Let_def split: marker_read_policy.split)

lemma layers_observed [simp]:
  "cc_marker_reads cfg = OptionsControlled \<Longrightarrow> rt_entries (wk_observed (invalidate_memory_layers cfg w)) = []"
  "cc_marker_reads cfg = OptionsControlled \<Longrightarrow> wk_clears (invalidate_memory_layers cfg w) = reset_clears"
  by (simp_all add: invalidate_memory_layers_def invalidate_all_def Let_def)

lemma worker_frames [simp]:
  "wk_memory (emit e w) = wk_memory w" "wk_tags (emit e w) = wk_tags w" "wk_epoch (emit e w) = wk_epoch w"
  "wk_lanes (emit e w) = wk_lanes w" "wk_locked (emit e w) = wk_locked w" "wk_observed (emit e w) = wk_observed w" "wk_clears (emit e w) = wk_clears w"
  "wk_memory (with_circuit c b w) = wk_memory w" "wk_tags (with_circuit c b w) = wk_tags w" "wk_epoch (with_circuit c b w) = wk_epoch w"
  "wk_lanes (with_circuit c b w) = wk_lanes w" "wk_locked (with_circuit c b w) = wk_locked w"
  "wk_observed (with_circuit c b w) = wk_observed w" "wk_clears (with_circuit c b w) = wk_clears w"
  by (cases c; simp add: emit_def)+

lemma circuit_frames [simp]:
  "wk_memory (close_circuit c w) = wk_memory w" "wk_tags (close_circuit c w) = wk_tags w" "wk_epoch (close_circuit c w) = wk_epoch w"
  "wk_lanes (close_circuit c w) = wk_lanes w" "wk_locked (close_circuit c w) = wk_locked w"
  "wk_observed (close_circuit c w) = wk_observed w" "wk_clears (close_circuit c w) = wk_clears w"
  "wk_memory (trip_circuit c t w) = wk_memory w" "wk_tags (trip_circuit c t w) = wk_tags w" "wk_epoch (trip_circuit c t w) = wk_epoch w"
  "wk_lanes (trip_circuit c t w) = wk_lanes w" "wk_locked (trip_circuit c t w) = wk_locked w"
  "wk_observed (trip_circuit c t w) = wk_observed w" "wk_clears (trip_circuit c t w) = wk_clears w"
  by (simp_all add: close_circuit_def trip_circuit_def Let_def split: prod.split)

lemma failure_frames [simp]:
  "wk_memory (failure k t e w) = wk_memory w" "wk_tags (failure k t e w) = wk_tags w" "wk_epoch (failure k t e w) = wk_epoch w"
  "wk_lanes (failure k t e w) = wk_lanes w" "wk_locked (failure k t e w) = wk_locked w"
  "wk_observed (failure k t e w) = wk_observed w" "wk_clears (failure k t e w) = wk_clears w"
  by (simp_all add: failure_def split: cache_error.split lease_error.split marker_error.split)

lemma circuit_admits_frames:
  assumes "circuit_admits c t w = (w', ok)"
  shows "wk_memory w' = wk_memory w" "wk_tags w' = wk_tags w" "wk_epoch w' = wk_epoch w" "wk_lanes w' = wk_lanes w" "wk_locked w' = wk_locked w"
  using assms by (auto simp: circuit_admits_def Let_def split: prod.splits circuit_check.splits if_splits)

lemma gap_fields:
  assumes "wk_health w \<noteq> Some current" "\<not> is_connected current \<or> wk_health w \<noteq> None" "invalidates_on_gap (cc_reconciliation cfg)"
  shows "rt_entries (wk_memory (ensure_health cfg (Some current) inow w)) = []"
    "wk_health (ensure_health cfg (Some current) inow w) = Some current"
    "wk_epoch (ensure_health cfg (Some current) inow w) = (case checked_add_u64 (wk_epoch w) 1 of Some n \<Rightarrow> n | None \<Rightarrow> wk_epoch w)"
    "wk_closed (ensure_health cfg (Some current) inow w) = (checked_add_u64 (wk_epoch w) 1 = None \<or> wk_closed w)"
    "cc_marker_reads cfg = OptionsControlled \<Longrightarrow> rt_entries (wk_observed (ensure_health cfg (Some current) inow w)) = []
       \<and> wk_clears (ensure_health cfg (Some current) inow w) = reset_clears"
  using assms by (simp_all add: ensure_health_def Let_def invalidate_all_def) auto

text \<open>
  Connection gaps: the first time an operation sees that the backplane is not connected, or
  connected again after another state, under a policy that reconciles on gaps, the first level is
  emptied (and with it what a controlled marker policy remembers of the markers) and every value that was taken from the second level before is no longer eligible to be
  read, at once and for every later value of the epoch; when the epoch cannot be advanced any more
  the cache is closed. Seeing the same state again changes nothing.
\<close>
theorem gap_discards_memory:
  assumes "wk_health w \<noteq> Some current" and "\<not> is_connected current \<or> wk_health w \<noteq> None"
    and "invalidates_on_gap (cc_reconciliation cfg)" and "w' = ensure_health cfg (Some current) inow w"
  shows "rt_entries (wk_memory w') = [] \<and> ensure_health cfg (Some current) later w' = w'
    \<and> (cc_marker_reads cfg = OptionsControlled \<longrightarrow> rt_entries (wk_observed w') = [] \<and> wk_clears w' = reset_clears)
    \<and> (wk_epoch w < u64_max \<longrightarrow> wk_epoch w < wk_epoch w' \<and> wk_closed w' = wk_closed w
        \<and> (\<forall>e stamp ep. en_eligibility e = Hydrated stamp \<and> stamp_captured stamp \<le> wk_epoch w \<and> wk_epoch w' \<le> ep \<longrightarrow>
             \<not> is_read_eligible (\<lambda>_. ep) e))
    \<and> (wk_epoch w = u64_max \<longrightarrow> wk_closed w')"
proof -
  note f = gap_fields [OF assms(1-3), of inow, folded assms(4)]
  have "\<not> is_read_eligible (\<lambda>_. ep) e" if "en_eligibility e = Hydrated stamp" "stamp_captured stamp \<le> wk_epoch w" "Suc (wk_epoch w) \<le> ep" for e stamp ep
    using that by (simp add: is_read_eligible_def stamp_is_current_def)
  moreover have "ensure_health cfg (Some current) later w' = w'" using f(2) by (simp add: ensure_health_def)
  ultimately show ?thesis using f by (auto simp: checked_add_u64_def)
qed

definition new_worker :: "'v worker" where
  "new_worker = \<lparr>wk_memory = Retention_new \<lparr>lim_entries = None, lim_weight = None\<rparr> ClockDriven, wk_tags = TagRegistry_default,
     wk_observed = Retention_new \<lparr>lim_entries = None, lim_weight = None\<rparr> ClockDriven, wk_clears = reset_clears, wk_epoch = 0,
     wk_lanes = [], wk_locked = [], wk_l2 = CircuitBreaker_new 0, wk_bp = CircuitBreaker_new 0, wk_recovery = None, wk_health = None,
     wk_admitted = False, wk_closed = False, wk_events = []\<rparr>"

definition demo_cache :: "'v cache_config" where
  "demo_cache = \<lparr>cc_hybrid = True, cc_backplane = True, cc_disable_tagging = False, cc_remove_by_tag = ExpireMatched, cc_cloner = None,
     cc_reconciliation = BackplaneContinuity, cc_lease_policy = CooperativePolicy, cc_durable_markers = False, cc_marker_reads = DurableRequired, cc_immediate_plan = False,
     cc_distributed_key = DK_Unmodified, cc_instance = ''a''\<rparr>"

theorem gap_discards_memory_witness:
  "wk_epoch (ensure_health demo_cache (Some BackplaneStopped) 0 (new_worker :: nat worker)) > 0"
proof -
  have "wk_health (new_worker :: nat worker) \<noteq> Some BackplaneStopped" "\<not> is_connected BackplaneStopped"
    "invalidates_on_gap (cc_reconciliation (demo_cache :: nat cache_config))" "wk_epoch (new_worker :: nat worker) = 0"
    by (simp_all add: new_worker_def demo_cache_def)
  then show ?thesis using gap_discards_memory [of "new_worker :: nat worker" BackplaneStopped demo_cache _ 0, OF _ _ _ refl] by auto
qed

end
