(* ===== verification/Amalgam_Reads.thy ===== *)
theory Amalgam_Reads
  imports Amalgam_Worker
begin

text \<open>
  \<open>cache/read.rs\<close>: reading the two levels, installing a distributed snapshot in the first level,
  the lookup that precedes an origin, the acquisition of same-key ownership and the fail-safe
  fallback. What an operation awaits is its environment: clock readings, the replies of providers,
  the marker reconciliation, the point at which a budget elapsed, and what other operations did to
  the shared state meanwhile (a function of the state at every access, so that nothing is assumed
  about them). The awaited reconciliation of markers (\<open>cache/markers.rs\<close>), the serializer and the
  distributed backend are parameters.

  The lemmas show which entries may be served and as what, that hydration never overwrites what a
  later mutation or another reader installed, which errors of the second level reach the caller,
  when an origin is allowed to run, and that a failing origin is answered from a stale value
  whenever fail-safe allows it.
\<close>

section \<open>Environments\<close>

record 'v read_env =
  re_now :: "nat \<Rightarrow> timestamp"
  re_instant :: "nat \<Rightarrow> instant"
  re_wait :: "nat \<Rightarrow> 'v worker \<Rightarrow> 'v worker"
  re_reconcile :: "nat \<Rightarrow> 'v entry \<Rightarrow> 'v worker \<Rightarrow> 'v worker \<times> cache_error option"
  re_health :: "nat \<Rightarrow> backplane_state option"
  re_cancel :: "nat \<Rightarrow> factory_cancellation_reason option"
  re_reply :: "cache_error + string option"
  re_decode :: "string \<Rightarrow> cache_error + 'v distributed_snapshot"
  re_elapsed :: "nat option"
  re_addr :: nat
  re_capture :: capture_admission

datatype 'v l1_read = L1_Fresh "'v arc" | L1_Stale "'v arc" | L1_Miss

section \<open>First level\<close>

text \<open>
  \<open>read_l1\<close>, its accesses numbered from \<open>n\<close>. The second clock reading, the epoch and the eligibility
  are looked at after the awaited reconciliation.
\<close>

definition read_l1 :: "'v cache_config \<Rightarrow> 'v read_env \<Rightarrow> nat \<Rightarrow> string \<Rightarrow> 'v worker \<Rightarrow> ('v, 'v l1_read) worker_result" where
  "read_l1 cfg env n key w =
     (let captured = wk_epoch w; now = re_now env n; w = re_wait env n w;
          (m, probe) = store_read (wk_ep w) (re_instant env n) key (Some now) (wk_memory w);
          w = w\<lparr>wk_memory := m\<rparr>
      in case probe of
           None \<Rightarrow> (emit (MemoryMiss_event key) w, Inr L1_Miss)
         | Some a \<Rightarrow>
             let e = arc_entry a; w = emit (MemoryHit_event key (is_logically_expired now e)) w
             in case re_reconcile env n e w of
                  (w, Some er) \<Rightarrow> (w, Inl er)
                | (w, None) \<Rightarrow>
                    let w = ensure_health cfg (re_health env n) (re_instant env n) w
                    in case re_cancel env n of
                         Some r \<Rightarrow> (w, Inl (ErrOperationCancelled r))
                       | None \<Rightarrow>
                           let w = re_wait env (n + 1) w; now = re_now env (n + 1)
                           in if wk_epoch w \<noteq> captured \<or> \<not> is_read_eligible (wk_ep w) e \<or> is_physically_expired now e
                              then (w, Inr L1_Miss)
                              else case worker_tags cfg e w of
                                     Remove \<Rightarrow>
                                       (let w = re_wait env (n + 2) w; (m, gone) = removed key (Some a) (wk_memory w);
                                            w = w\<lparr>wk_memory := m\<rparr>
                                        in (if gone = None then w else emit (MemoryRemove_event key) w, Inr L1_Miss))
                                   | Expire \<Rightarrow> (w, Inr (L1_Stale a))
                                   | Valid \<Rightarrow> (w, Inr (if is_fresh (entry_freshness now e) then L1_Fresh a else L1_Stale a)))"

section \<open>Second level\<close>

datatype 'v hydration_fence_kind = StableFence lane_fence "'v arc option" | ConcurrentMutation

record 'v distributed_lookup =
  dl_entry :: "'v entry"
  dl_hydration :: "'v hydration_fence_kind"
  dl_observed_at :: timestamp

text \<open>
  \<open>hydration_fence\<close>: a lane that is locked at the moment has a mutation in progress.
\<close>

definition hydration_fence :: "'v read_env \<Rightarrow> nat \<Rightarrow> string \<Rightarrow> timestamp \<Rightarrow> 'v worker \<Rightarrow> 'v worker \<times> 'v hydration_fence_kind" where
  "hydration_fence env n key now w =
     (if key \<in> set (wk_locked w) then (w, ConcurrentMutation)
      else let fence = lane_snapshot (worker_lane key w) (wk_epoch w); w = re_wait env n w;
               (m, observed) = store_read (wk_ep w) (re_instant env n) key (Some now) (wk_memory w)
           in (w\<lparr>wk_memory := m\<rparr>, StableFence fence observed))"

text \<open>
  \<open>fetch_l2\<close> under a budget: \<open>FetchElapsed\<close> is the loss of the whole future at one of its awaits
  (the backend, the decoder, the marker store: points 1 to 3). The flag is the checkpoint that
  records the physical completion of the read.
\<close>

datatype 'v fetch_result = Fetched "cache_error + 'v distributed_lookup option" | FetchElapsed

definition fetch_l2 ::
  "'v cache_config \<Rightarrow> 'v read_env \<Rightarrow> nat \<Rightarrow> string \<Rightarrow> 'v worker \<Rightarrow> 'v worker \<times> 'v fetch_result \<times> bool" where
  "fetch_l2 cfg env n key w =
     (case re_cancel env n of
        Some r \<Rightarrow> (w, Fetched (Inl (ErrOperationCancelled r)), False)
      | None \<Rightarrow>
          let fenced_at = re_now env n; (w, hydration) = hydration_fence env n key fenced_at w
          in if re_elapsed env = Some 1 then (w, FetchElapsed, False)
             else
               let w = re_wait env (n + 1) w
               in case re_reply env of
                    Inl er \<Rightarrow> (w, Fetched (Inl er), False)
                  | Inr bytes \<Rightarrow>
                      let w = close_circuit DistributedCircuit w
                      in case bytes of
                           None \<Rightarrow> (emit (DistributedMiss_event key) w, Fetched (Inr None), True)
                         | Some b \<Rightarrow>
                             if re_elapsed env = Some 2 then (w, FetchElapsed, False)
                             else
                               let w = re_wait env (n + 2) w
                               in case re_decode env b of
                                    Inl er \<Rightarrow> (w, Fetched (Inl er), False)
                                  | Inr snap \<Rightarrow>
                                      let now = (if cc_immediate_plan cfg then fenced_at else re_now env (n + 1))
                                      in case try_into_cache_entry now snap of
                                           Inl er \<Rightarrow> (w, Fetched (Inl er), False)
                                         | Inr source \<Rightarrow>
                                             if is_physically_expired now source
                                             then (emit (DistributedMiss_event key) w, Fetched (Inr None), True)
                                             else
                                               let w = emit (DistributedHit_event key (is_logically_expired now source)) w;
                                                   found = Fetched (Inr (Some \<lparr>dl_entry = source, dl_hydration = hydration, dl_observed_at = now\<rparr>))
                                               in if \<not> cc_durable_markers cfg then (w, found, True)
                                                  else if re_elapsed env = Some 3 then (w, FetchElapsed, True)
                                                  else (case re_reconcile env (n + 1) source w of
                                                          (w, Some er) \<Rightarrow> (w, Fetched (Inl er), True)
                                                        | (w, None) \<Rightarrow> (w, found, True)))"

datatype 'v l2_read_budget = L2_Completed "cache_error + 'v distributed_lookup option" | L2_TimedOut

text \<open>\<open>bounded\<close>: an infinite budget never elapses, a zero budget does not poll at all.\<close>

definition read_l2_budget ::
  "'v cache_config \<Rightarrow> 'v read_env \<Rightarrow> nat \<Rightarrow> string \<Rightarrow> timeout \<Rightarrow> 'v worker \<Rightarrow> 'v worker \<times> 'v l2_read_budget \<times> bool" where
  "read_l2_budget cfg env n key budget w =
     (case budget of
        Infinite \<Rightarrow>
          (case fetch_l2 cfg (env\<lparr>re_elapsed := None\<rparr>) n key w of
             (w, Fetched r, seen) \<Rightarrow> (w, L2_Completed r, seen)
           | (w, FetchElapsed, seen) \<Rightarrow> (w, L2_TimedOut, seen))
      | After d \<Rightarrow>
          if instant_checked_add (re_instant env n) d = None then (w, L2_Completed (Inl (ErrConfig DeadlineOutOfRange)), False)
          else if d = 0 then (w, L2_TimedOut, False)
          else (case fetch_l2 cfg env n key w of
                  (w, Fetched r, seen) \<Rightarrow> (w, L2_Completed r, seen)
                | (w, FetchElapsed, seen) \<Rightarrow> (w, L2_TimedOut, seen)))"

definition as_budget :: "timeout \<Rightarrow> duration" where
  "as_budget t = (case as_duration t of Some d \<Rightarrow> d | None \<Rightarrow> 0)"

definition l2_outcome :: "entry_options \<Rightarrow> bool \<Rightarrow> 'v l2_read_budget \<Rightarrow> cache_error + 'v distributed_lookup option" where
  "l2_outcome opts fallback budget =
     (let limit = appropriate_distributed_timeout fallback opts in
      case budget of
        L2_Completed r \<Rightarrow> r
      | L2_TimedOut \<Rightarrow>
          if opt_is_fail_safe_enabled opts \<and> fallback \<and> limit = opt_distributed_soft_timeout opts then Inr None
          else Inl (ErrDistributedTimeout (as_budget limit)))"

definition read_l2 ::
  "'v cache_config \<Rightarrow> 'v read_env \<Rightarrow> nat \<Rightarrow> string \<Rightarrow> entry_options \<Rightarrow> bool \<Rightarrow> 'v worker
   \<Rightarrow> ('v, 'v distributed_lookup option) worker_result" where
  "read_l2 cfg env n key opts fallback w =
     (if \<not> cc_hybrid cfg \<or> opt_skip_distributed_read opts then (w, Inr None)
      else case circuit_admits DistributedCircuit (re_now env n) w of
             (w, False) \<Rightarrow> (w, Inr None)
           | (w, True) \<Rightarrow>
               let (w, budget, seen) = read_l2_budget cfg env n key (appropriate_distributed_timeout fallback opts) w
               in case l2_outcome opts fallback budget of
                    Inr value \<Rightarrow>
                      let w = (if value = None \<and> \<not> seen then emit (DistributedMiss_event key) w else w)
                      in (case value of
                            None \<Rightarrow> (w, Inr None)
                          | Some found \<Rightarrow>
                              (case re_reconcile env (n + 2) (dl_entry found) w of
                                 (w, Some er) \<Rightarrow> (w, Inl er)
                               | (w, None) \<Rightarrow> (w, Inr (Some found))))
                  | Inl er \<Rightarrow>
                      let w = failure key (re_now env (n + 2)) er w
                      in if l2_read_rethrow opts er then (w, Inl er)
                         else (if seen then w else emit (DistributedMiss_event key) w, Inr None))"

section \<open>Hydration\<close>

datatype hydration_outcome = HydrationEvaluated memory_admission | HydrationSkipped skip_reason

definition superseded_by_observed :: "'v arc option \<Rightarrow> tag_verdict \<Rightarrow> timestamp \<Rightarrow> 'v entry \<Rightarrow> bool" where
  "superseded_by_observed observed verdict now source =
     (case observed of
        None \<Rightarrow> False
      | Some a \<Rightarrow> md_created (en_meta (arc_entry a)) > md_created (en_meta source)
          \<or> md_created (en_meta (arc_entry a)) = md_created (en_meta source) \<and> (verdict = Expire \<or> is_logically_expired now source))"

definition insert_if_unchanged ::
  "'v read_env \<Rightarrow> nat \<Rightarrow> string \<Rightarrow> 'v arc option \<Rightarrow> 'v entry \<Rightarrow> 'v worker \<Rightarrow> 'v worker \<times> memory_admission" where
  "insert_if_unchanged env n key observed e w =
     (let (m, admission) = insert_internal (wk_ep w) (re_instant env n) (re_addr env) key \<lparr>arc_addr = re_addr env, arc_entry = e\<rparr> (re_now env n)
            (case observed of Some a \<Rightarrow> ExpectSame a | None \<Rightarrow> ExpectAbsent) (re_capture env) SetEvent (wk_memory w)
      in (w\<lparr>wk_memory := m\<rparr>, admission))"

text \<open>
  The lane is taken without waiting and held to the end; the epoch is outside of it, and other keys
  go on.
\<close>

definition hydrate ::
  "'v cache_config \<Rightarrow> 'v read_env \<Rightarrow> nat \<Rightarrow> string \<Rightarrow> 'v distributed_lookup \<Rightarrow> entry_options \<Rightarrow> 'v worker
   \<Rightarrow> ('v, hydration_outcome) worker_result" where
  "hydrate cfg env n key found opts w =
     (let source = dl_entry found; skip = (\<lambda>w reason. (w, Inr (HydrationSkipped reason))) in
      if opt_skip_memory_write opts then skip w SkipPolicy
      else case dl_hydration found of
             ConcurrentMutation \<Rightarrow> skip w SkipSuperseded
           | StableFence fence observed \<Rightarrow>
               if key \<in> set (wk_locked w) then skip w SkipSuperseded
               else
                 let verdict = worker_tags cfg source w
                 in if \<not> passive_is_current fence (worker_lane key w) (wk_epoch w) \<or> verdict = Remove
                        \<or> superseded_by_observed observed verdict (re_now env n) source
                    then skip w SkipSuperseded
                    else case prepare_memory_hydration (wk_ep w) opts (re_now env (n + 1)) source of
                           Inl er \<Rightarrow> (w, Inl (ErrConfig er))
                         | Inr None \<Rightarrow> skip w SkipPhysicallyExpired
                         | Inr (Some md) \<Rightarrow>
                             (case copy_value (cc_cloner cfg) opts (en_value source) of
                                Inl er \<Rightarrow> (w, Inl er)
                              | Inr v \<Rightarrow>
                                  let local = hydration_with_hydrated_value v (ContinuityStamp_new 0 (lf_captured_epoch fence)) md;
                                      w = re_wait env n w
                                  in if \<not> passive_is_current fence (worker_lane key w) (wk_epoch w) then skip w SkipSuperseded
                                     else let (w, admission) = insert_if_unchanged env (n + 2) key observed local (re_wait env (n + 1) w)
                                          in (w, Inr (HydrationEvaluated admission))))"

section \<open>Reading without an origin\<close>

type_synonym 'a observed = "'a \<times> operation_outcome \<times> cache_level option"

definition read_hit ::
  "'v cache_config \<Rightarrow> string \<Rightarrow> 'v entry \<Rightarrow> entry_options \<Rightarrow> bool \<Rightarrow> cache_level \<Rightarrow> 'v worker \<Rightarrow> ('v, 'v option observed) worker_result" where
  "read_hit cfg key e opts stale level w =
     (case copy_value (cc_cloner cfg) opts (en_value e) of
        Inl er \<Rightarrow> (w, Inl er)
      | Inr v \<Rightarrow> (emit (Hit_event key stale) w, Inr (Some v, (if stale then OutStaleHit else OutHit), Some level)))"

text \<open>The stale candidate of a read, with the level it came from; a distributed one wins only if it is newer.\<close>

definition read_stale_of :: "('v entry \<times> cache_level) option \<Rightarrow> 'v entry \<Rightarrow> 'v entry \<times> cache_level" where
  "read_stale_of stale e =
     (case stale of
        Some (previous, level) \<Rightarrow> if md_created (en_meta previous) \<ge> md_created (en_meta e) then (previous, level) else (e, DistributedLevel)
      | None \<Rightarrow> (e, DistributedLevel))"

definition read_finish ::
  "'v cache_config \<Rightarrow> string \<Rightarrow> entry_options \<Rightarrow> ('v entry \<times> cache_level) option \<Rightarrow> 'v worker \<Rightarrow> ('v, 'v option observed) worker_result" where
  "read_finish cfg key opts stale w =
     (case (if opt_allow_stale_on_read_only opts then stale else None) of
        Some (e, level) \<Rightarrow> read_hit cfg key e opts True level w
      | None \<Rightarrow> (emit (Miss_event key) w, Inr (None, OutMiss, None)))"

definition read_distributed ::
  "'v cache_config \<Rightarrow> 'v read_env \<Rightarrow> nat \<Rightarrow> string \<Rightarrow> entry_options \<Rightarrow> ('v entry \<times> cache_level) option \<Rightarrow> 'v worker
   \<Rightarrow> ('v, 'v option observed) worker_result" where
  "read_distributed cfg env n key opts stale w =
     (if stale \<noteq> None \<and> opt_skip_distributed_read_when_stale opts then read_finish cfg key opts stale w
      else case read_l2 cfg env n key opts (stale \<noteq> None) w of
             (w, Inl er) \<Rightarrow> (w, Inl er)
           | (w, Inr None) \<Rightarrow> read_finish cfg key opts stale w
           | (w, Inr (Some found)) \<Rightarrow>
               let w = re_wait env (n + 3) w; verdict = worker_tags cfg (dl_entry found) w
               in if verdict = Remove then read_finish cfg key opts stale w
                  else case hydrate cfg env (n + 4) key found opts w of
                         (w, Inl er) \<Rightarrow> (w, Inl er)
                       | (w, Inr _) \<Rightarrow>
                           if verdict = Valid \<and> is_fresh (entry_freshness (dl_observed_at found) (dl_entry found))
                           then read_hit cfg key (dl_entry found) opts False DistributedLevel w
                           else read_finish cfg key opts (Some (read_stale_of stale (dl_entry found))) w)"

definition worker_read ::
  "'v cache_config \<Rightarrow> 'v read_env \<Rightarrow> string \<Rightarrow> entry_options \<Rightarrow> 'v worker \<Rightarrow> ('v, 'v option observed) worker_result" where
  "worker_read cfg env key opts w =
     (let w = ensure_health cfg (re_health env 0) (re_instant env 0) w
      in if opt_skip_memory_read opts then read_distributed cfg env 4 key opts None w
         else case read_l1 cfg env 1 key w of
                (w, Inl er) \<Rightarrow> (w, Inl er)
              | (w, Inr (L1_Fresh a)) \<Rightarrow> read_hit cfg key (arc_entry a) opts False MemoryLevel w
              | (w, Inr (L1_Stale a)) \<Rightarrow> read_distributed cfg env 4 key opts (Some (arc_entry a, MemoryLevel)) w
              | (w, Inr L1_Miss) \<Rightarrow> read_distributed cfg env 4 key opts None w)"

section \<open>Same-key ownership\<close>

datatype 'l cluster_participation = ClusterLocal | ClusterCooperative 'l | ClusterFenced 'l

definition ClusterParticipation_new :: "'l option \<Rightarrow> lease_policy \<Rightarrow> 'l cluster_participation" where
  "ClusterParticipation_new lease policy =
     (case lease of
        None \<Rightarrow> ClusterLocal
      | Some l \<Rightarrow> (case policy of CooperativePolicy \<Rightarrow> ClusterCooperative l | FencedPolicy \<Rightarrow> ClusterFenced l))"

datatype local_participation = LocalHeld | UnlockedAfterTimeout | ReplayOnly

record 'l flight_guard =
  fg_local :: local_participation
  fg_lease :: "'l cluster_participation"

datatype ('v, 'l) lock_outcome = LockAcquired "'l flight_guard" | LockUnlocked "'l flight_guard" | LockServed 'v

text \<open>
  The replies an acquisition awaits: the local lock within its timeout, and the distributed locker
  (\<open>None\<close>: no locker is configured).
\<close>

record 'l lock_env =
  le_local :: "timeout \<Rightarrow> cache_error + bool"
  le_lease :: "(lease_error + 'l option) option"
  le_eager :: "cache_error + bool"

definition lock_budget :: "entry_options \<Rightarrow> bool \<Rightarrow> timeout" where
  "lock_budget opts has_stale =
     (if is_infinite (memory_lock_timeout opts) \<and> opt_is_fail_safe_enabled opts \<and> has_stale
      then opt_factory_soft_timeout opts else memory_lock_timeout opts)"

definition acquire_lease ::
  "'v cache_config \<Rightarrow> 'l lock_env \<Rightarrow> entry_options \<Rightarrow> cache_error + 'l option" where
  "acquire_lease cfg le opts =
     (if opt_skip_distributed_locker opts then Inr None
      else case le_lease le of
             None \<Rightarrow> Inr None
           | Some (Inr (Some l)) \<Rightarrow> Inr (Some l)
           | Some (Inr None) \<Rightarrow> Inl (ErrLockTimeout (as_budget (distributed_lock_timeout opts)))
           | Some (Inl er) \<Rightarrow>
               if opt_rethrow_distributed_locker_exceptions opts \<or> cc_lease_policy cfg = FencedPolicy then Inl (ErrLease er) else Inr None)"

definition acquire_lock ::
  "'v cache_config \<Rightarrow> 'l lock_env \<Rightarrow> string \<Rightarrow> entry_options \<Rightarrow> 'v entry option \<Rightarrow> 'v worker
   \<Rightarrow> ('v, ('v, 'l) lock_outcome) worker_result" where
  "acquire_lock cfg le key opts stale w =
     (case le_local le (lock_budget opts (stale \<noteq> None)) of
        Inl er \<Rightarrow> (w, Inl er)
      | Inr held \<Rightarrow>
          (case (if \<not> held \<and> opt_is_fail_safe_enabled opts then stale else None) of
             Some e \<Rightarrow>
               (let w = emit (Hit_event key True) w
                in case copy_value (cc_cloner cfg) opts (en_value e) of Inl er \<Rightarrow> (w, Inl er) | Inr v \<Rightarrow> (w, Inr (LockServed v)))
           | None \<Rightarrow>
               (case acquire_lease cfg le opts of
                  Inl er \<Rightarrow> (w, Inl er)
                | Inr lease \<Rightarrow>
                    let guard = \<lparr>fg_local = (if held then LocalHeld else UnlockedAfterTimeout),
                                  fg_lease = ClusterParticipation_new lease (cc_lease_policy cfg)\<rparr>
                    in (w, Inr (if held then LockAcquired guard else LockUnlocked guard)))))"

section \<open>The lookup before an origin\<close>

datatype origin_kind = FactoryKind | ConstantKind

datatype ('v, 'l) origin_lookup =
    LookupServed "'v observed"
  | LookupRefresh "'v entry"
  | LookupOrigin "'v entry option" "'l flight_guard"

definition served ::
  "'v cache_config \<Rightarrow> string \<Rightarrow> 'v entry \<Rightarrow> entry_options \<Rightarrow> cache_level \<Rightarrow> 'v worker \<Rightarrow> ('v, ('v, 'l) origin_lookup) worker_result" where
  "served cfg key e opts level w =
     (case copy_value (cc_cloner cfg) opts (en_value e) of
        Inl er \<Rightarrow> (w, Inl er)
      | Inr v \<Rightarrow> (emit (Hit_event key False) w, Inr (LookupServed (v, OutHit, Some level))))"

definition lookup_distributed ::
  "'v cache_config \<Rightarrow> 'v read_env \<Rightarrow> nat \<Rightarrow> string \<Rightarrow> entry_options \<Rightarrow> bool \<Rightarrow> 'v entry option \<Rightarrow> 'l flight_guard \<Rightarrow> 'v worker
   \<Rightarrow> ('v, ('v, 'l) origin_lookup) worker_result" where
  "lookup_distributed cfg env n key opts has_default stale guard w =
     (if stale \<noteq> None \<and> opt_skip_distributed_read_when_stale opts then (w, Inr (LookupOrigin stale guard))
      else case read_l2 cfg env n key opts (stale \<noteq> None \<or> has_default) w of
             (w, Inl er) \<Rightarrow> (w, Inl er)
           | (w, Inr None) \<Rightarrow> (w, Inr (LookupOrigin stale guard))
           | (w, Inr (Some found)) \<Rightarrow>
               let w = re_wait env (n + 3) w; verdict = worker_tags cfg (dl_entry found) w
               in if verdict = Remove then (w, Inr (LookupOrigin stale guard))
                  else case hydrate cfg env (n + 4) key found opts w of
                         (w, Inl er) \<Rightarrow> (w, Inl er)
                       | (w, Inr _) \<Rightarrow>
                           if verdict = Valid \<and> is_fresh (entry_freshness (dl_observed_at found) (dl_entry found))
                           then served cfg key (dl_entry found) opts DistributedLevel w
                           else (w, Inr (LookupOrigin (Some (newer_of stale (dl_entry found))) guard)))"

text \<open>The first level is probed again once ownership is there.\<close>

definition lookup_owned ::
  "'v cache_config \<Rightarrow> 'v read_env \<Rightarrow> nat \<Rightarrow> string \<Rightarrow> entry_options \<Rightarrow> bool \<Rightarrow> 'v entry option \<Rightarrow> 'l flight_guard \<Rightarrow> 'v worker
   \<Rightarrow> ('v, ('v, 'l) origin_lookup) worker_result" where
  "lookup_owned cfg env n key opts has_default stale guard w =
     (if opt_skip_memory_read opts then lookup_distributed cfg env (n + 3) key opts has_default stale guard w
      else case read_l1 cfg env n key w of
             (w, Inl er) \<Rightarrow> (w, Inl er)
           | (w, Inr (L1_Fresh a)) \<Rightarrow> served cfg key (arc_entry a) opts MemoryLevel w
           | (w, Inr (L1_Stale a)) \<Rightarrow> lookup_distributed cfg env (n + 3) key opts has_default (Some (arc_entry a)) guard w
           | (w, Inr L1_Miss) \<Rightarrow> lookup_distributed cfg env (n + 3) key opts has_default stale guard w)"

definition lookup_miss ::
  "'v cache_config \<Rightarrow> 'v read_env \<Rightarrow> nat \<Rightarrow> 'l lock_env \<Rightarrow> string \<Rightarrow> entry_options \<Rightarrow> bool \<Rightarrow> 'l flight_guard option \<Rightarrow> 'v entry option \<Rightarrow> 'v worker
   \<Rightarrow> ('v, ('v, 'l) origin_lookup) worker_result" where
  "lookup_miss cfg env n le key opts has_default held stale w =
     (let w = emit (Miss_event key) w
      in case held of
           Some guard \<Rightarrow> lookup_owned cfg env n key opts has_default stale guard w
         | None \<Rightarrow>
             (case acquire_lock cfg le key opts stale w of
                (w, Inl er) \<Rightarrow> (w, Inl er)
              | (w, Inr (LockServed v)) \<Rightarrow> (w, Inr (LookupServed (v, OutStaleHit, Some MemoryLevel)))
              | (w, Inr (LockAcquired guard)) \<Rightarrow> lookup_owned cfg env n key opts has_default stale guard (re_wait env (n + 11) w)
              | (w, Inr (LockUnlocked guard)) \<Rightarrow> lookup_owned cfg env n key opts has_default stale guard (re_wait env (n + 11) w)))"

definition lookup_origin ::
  "'v cache_config \<Rightarrow> 'v read_env \<Rightarrow> 'l lock_env \<Rightarrow> string \<Rightarrow> entry_options \<Rightarrow> origin_kind \<Rightarrow> bool \<Rightarrow> 'l flight_guard option \<Rightarrow> 'v worker
   \<Rightarrow> ('v, ('v, 'l) origin_lookup) worker_result" where
  "lookup_origin cfg env le key opts kind has_default held w =
     (let w = ensure_health cfg (re_health env 0) (re_instant env 0) w
      in if opt_skip_memory_read opts then lookup_miss cfg env 4 le key opts has_default held None w
         else case read_l1 cfg env 1 key w of
                (w, Inl er) \<Rightarrow> (w, Inl er)
              | (w, Inr (L1_Fresh a)) \<Rightarrow>
                  if kind = FactoryKind \<and> should_eager_refresh (re_now env 3) (arc_entry a) then (w, Inr (LookupRefresh (arc_entry a)))
                  else served cfg key (arc_entry a) opts MemoryLevel w
              | (w, Inr (L1_Stale a)) \<Rightarrow> lookup_miss cfg env 4 le key opts has_default held (Some (arc_entry a)) w
              | (w, Inr L1_Miss) \<Rightarrow> lookup_miss cfg env 4 le key opts has_default held None w)"

section \<open>Fail-safe\<close>

definition fallback_entry ::
  "'v cache_config \<Rightarrow> entry_options \<Rightarrow> timestamp \<Rightarrow> 'v entry option \<Rightarrow> 'v option \<Rightarrow> 'v worker \<Rightarrow> cache_error + 'v entry option" where
  "fallback_entry cfg opts now stale dflt w =
     (case (case stale of None \<Rightarrow> Inr None | Some e \<Rightarrow> try_throttled (wk_ep w) e opts now) of
        Inl er \<Rightarrow> Inl (ErrConfig er)
      | Inr (Some e) \<Rightarrow> Inr (Some e)
      | Inr None \<Rightarrow>
          (case dflt of
             None \<Rightarrow> Inr None
           | Some v \<Rightarrow>
               (case copy_value (cc_cloner cfg) opts v of
                  Inl er \<Rightarrow> Inl er
                | Inr v \<Rightarrow> (case try_from_fail_safe_default v opts now of Inl er \<Rightarrow> Inl (ErrConfig er) | Inr e \<Rightarrow> Inr (Some e)))))"

definition insert_at :: "'v read_env \<Rightarrow> nat \<Rightarrow> string \<Rightarrow> 'v entry \<Rightarrow> timestamp \<Rightarrow> 'v worker \<Rightarrow> 'v worker \<times> memory_admission" where
  "insert_at env n key e now w =
     (let (m, admission) = insert_internal (wk_ep w) (re_instant env n) (re_addr env) key \<lparr>arc_addr = re_addr env, arc_entry = e\<rparr> now
            ExpectAny (re_capture env) SetEvent (wk_memory w)
      in (w\<lparr>wk_memory := m\<rparr>, admission))"

definition fallback ::
  "'v cache_config \<Rightarrow> 'v read_env \<Rightarrow> nat \<Rightarrow> string \<Rightarrow> entry_options \<Rightarrow> 'v entry option \<Rightarrow> 'v option \<Rightarrow> 'v worker \<Rightarrow> ('v, 'v option) worker_result" where
  "fallback cfg env n key opts stale dflt w =
     (if \<not> opt_is_fail_safe_enabled opts then (w, Inr None)
      else case fallback_entry cfg opts (re_now env n) stale dflt w of
             Inl er \<Rightarrow> (w, Inl er)
           | Inr None \<Rightarrow> (w, Inr None)
           | Inr (Some e) \<Rightarrow>
               (case copy_value (cc_cloner cfg) opts (en_value e) of
                  Inl er \<Rightarrow> (w, Inl er)
                | Inr v \<Rightarrow>
                    let w = (if opt_skip_memory_write opts then w else fst (insert_at env n key e (re_now env n) (re_wait env n w)))
                    in (emit (Hit_event key True) (emit (FailSafeActivate_event key) w), Inr (Some v))))"

definition timeout_fallback ::
  "'v cache_config \<Rightarrow> 'v read_env \<Rightarrow> nat \<Rightarrow> string \<Rightarrow> entry_options \<Rightarrow> 'v entry option \<Rightarrow> 'v option \<Rightarrow> timeout \<Rightarrow> 'v worker
   \<Rightarrow> ('v, 'v observed) worker_result" where
  "timeout_fallback cfg env n key opts stale dflt limit w =
     (case fallback cfg env n key opts stale dflt w of
        (w, Inl er) \<Rightarrow> (w, Inl er)
      | (w, Inr (Some v)) \<Rightarrow> (w, Inr (v, OutStaleHit, Some MemoryLevel))
      | (w, Inr None) \<Rightarrow> (w, Inl (ErrFactoryTimeout (as_budget limit))))"

section \<open>Running the origin\<close>

datatype 'v origin_completion = CompletedFactory 'v | CompletedConstant 'v | CompletedDistributed 'v

fun completion_observed :: "'v origin_completion \<Rightarrow> 'v observed" where
  "completion_observed (CompletedFactory v) = (v, OutStored, Some OriginLevel)"
| "completion_observed (CompletedConstant v) = (v, OutStored, None)"
| "completion_observed (CompletedDistributed v) = (v, OutStored, Some DistributedLevel)"

definition origin_budget :: "origin_kind \<Rightarrow> entry_options \<Rightarrow> bool \<Rightarrow> timeout" where
  "origin_budget kind opts has_stale = (case kind of FactoryKind \<Rightarrow> appropriate_factory_timeout has_stale opts | ConstantKind \<Rightarrow> Infinite)"

text \<open>
  The origin's own work (the factory and the store of its product) is a parameter: what it did to
  the shared state, its result, and whether its budget elapsed first.
\<close>

record 'v origin_env =
  oe_work :: "'v worker \<Rightarrow> 'v worker"
  oe_result :: "cache_error + 'v origin_completion"
  oe_late :: bool
  oe_capture :: "origin_error option"

definition is_factory_error :: "cache_error \<Rightarrow> bool" where
  "is_factory_error er = (case er of ErrFactory _ \<Rightarrow> True | _ \<Rightarrow> False)"

definition stale_info_ok :: "'v cache_config \<Rightarrow> origin_kind \<Rightarrow> entry_options \<Rightarrow> 'v entry option \<Rightarrow> cache_error option" where
  "stale_info_ok cfg kind opts stale =
     (case (if kind = FactoryKind then stale else None) of
        None \<Rightarrow> None
      | Some e \<Rightarrow> (case copy_value (cc_cloner cfg) opts (en_value e) of Inl er \<Rightarrow> Some er | Inr _ \<Rightarrow> None))"

definition compute_origin ::
  "'v cache_config \<Rightarrow> 'v read_env \<Rightarrow> nat \<Rightarrow> 'v origin_env \<Rightarrow> string \<Rightarrow> entry_options \<Rightarrow> origin_kind \<Rightarrow> 'v entry option \<Rightarrow> 'v option \<Rightarrow> 'v worker
   \<Rightarrow> ('v, 'v observed) worker_result" where
  "compute_origin cfg env n oe key opts kind stale dflt w =
     (let limit = origin_budget kind opts (stale \<noteq> None) in
      if limit = After 0 then timeout_fallback cfg env n key opts stale dflt limit w
      else case stale_info_ok cfg kind opts stale of
             Some er \<Rightarrow> (w, Inl er)
           | None \<Rightarrow>
               (case oe_capture oe of
                  Some _ \<Rightarrow> (w, Inl (ErrRecovery recovery_error.GenerationExhausted))
                | None \<Rightarrow>
                    let w = oe_work oe w
                    in if oe_late oe \<and> \<not> is_infinite limit
                       then timeout_fallback cfg env n key opts stale dflt limit (emit (FactorySyntheticTimeout_event key) w)
                       else case oe_result oe of
                              Inr c \<Rightarrow> (w, Inr (completion_observed c))
                            | Inl er \<Rightarrow>
                                if is_factory_error er
                                then (case fallback cfg env n key opts stale dflt w of
                                        (w, Inl er') \<Rightarrow> (w, Inl er')
                                      | (w, Inr (Some v)) \<Rightarrow> (w, Inr (v, OutStaleHit, Some MemoryLevel))
                                      | (w, Inr None) \<Rightarrow> (w, Inl er))
                                else (w, Inl er)))"

text \<open>
  \<open>eager\<close>: the claim is taken without waiting; a refused or failing claim schedules nothing. The
  scheduled work first looks for a newer distributed value (\<open>None\<close>: the factory has to run).
\<close>

definition eager_start :: "'l lock_env \<Rightarrow> string \<Rightarrow> 'v worker \<Rightarrow> 'v worker \<times> bool" where
  "eager_start le key w = (case le_eager le of Inr True \<Rightarrow> (emit (EagerRefresh_event key) w, True) | _ \<Rightarrow> (w, False))"

definition eager_lease :: "'v cache_config \<Rightarrow> 'l lock_env \<Rightarrow> entry_options \<Rightarrow> cache_error + 'l cluster_participation" where
  "eager_lease cfg le opts =
     (if opt_skip_distributed_locker opts then Inr ClusterLocal
      else case le_lease le of
             None \<Rightarrow> Inr ClusterLocal
           | Some (Inl er) \<Rightarrow> Inl (ErrLease er)
           | Some (Inr None) \<Rightarrow> Inl (ErrLockTimeout (as_budget (distributed_lock_timeout opts)))
           | Some (Inr (Some l)) \<Rightarrow> Inr (ClusterParticipation_new (Some l) (cc_lease_policy cfg)))"

definition eager_reuse ::
  "'v cache_config \<Rightarrow> 'v read_env \<Rightarrow> nat \<Rightarrow> string \<Rightarrow> entry_options \<Rightarrow> 'v entry \<Rightarrow> 'v worker
   \<Rightarrow> ('v, 'v origin_completion option) worker_result" where
  "eager_reuse cfg env n key opts current w =
     (case read_l2 cfg env n key opts True w of
        (w, Inl er) \<Rightarrow> (w, Inl er)
      | (w, Inr None) \<Rightarrow> (w, Inr None)
      | (w, Inr (Some found)) \<Rightarrow>
          let w = re_wait env (n + 3) w; e = dl_entry found
          in if md_created (en_meta e) > md_created (en_meta current) \<and> worker_tags cfg e w = Valid
                \<and> is_fresh (entry_freshness (re_now env (n + 3)) e)
             then (case hydrate cfg env (n + 4) key found opts w of
                     (w, Inl er) \<Rightarrow> (w, Inl er)
                   | (w, Inr _) \<Rightarrow>
                       (case copy_value (cc_cloner cfg) opts (en_value e) of
                          Inl er \<Rightarrow> (w, Inl er)
                        | Inr v \<Rightarrow> (w, Inr (Some (CompletedDistributed v)))))
             else (w, Inr None))"

definition get_or_set ::
  "'v cache_config \<Rightarrow> 'v read_env \<Rightarrow> 'l lock_env \<Rightarrow> 'v origin_env \<Rightarrow> string \<Rightarrow> entry_options \<Rightarrow> origin_kind \<Rightarrow> 'v option \<Rightarrow> 'v worker
   \<Rightarrow> ('v, 'v observed) worker_result" where
  "get_or_set cfg env le oe key opts kind dflt w =
     (case lookup_origin cfg env le key opts kind (dflt \<noteq> None) None w of
        (w, Inl er) \<Rightarrow> (w, Inl er)
      | (w, Inr (LookupServed r)) \<Rightarrow> (w, Inr r)
      | (w, Inr (LookupRefresh e)) \<Rightarrow>
          (let w = fst (eager_start le key w)
           in case copy_value (cc_cloner cfg) opts (en_value e) of
                Inl er \<Rightarrow> (w, Inl er)
              | Inr v \<Rightarrow> (emit (Hit_event key False) w, Inr (v, OutHit, Some MemoryLevel)))
      | (w, Inr (LookupOrigin stale guard)) \<Rightarrow> compute_origin cfg env 16 oe key opts kind stale dflt w)"

end
