(* ===== verification/Amalgam_Read_Facts.thy ===== *)
theory Amalgam_Read_Facts
  imports Amalgam_Reads
begin

text \<open>
  Properties of the read path of Amalgam_Reads: what a read may return, what hydration may change,
  that an outage of the second level degrades to a miss, when an origin may run, and what a failing
  origin is answered with.
\<close>

section \<open>What a read may serve\<close>

text \<open>The probe of the first level, and the condition on an entry at the moment it is judged.\<close>

definition l1_probe :: "'v read_env \<Rightarrow> nat \<Rightarrow> string \<Rightarrow> 'v worker \<Rightarrow> 'v arc option" where
  "l1_probe env n key w =
     (let p = re_wait env n w in snd (store_read (wk_ep p) (re_instant env n) key (Some (re_now env n)) (wk_memory p)))"

definition readable :: "'v cache_config \<Rightarrow> timestamp \<Rightarrow> 'v entry \<Rightarrow> 'v worker \<Rightarrow> bool" where
  "readable cfg now e w \<longleftrightarrow> \<not> is_physically_expired now e \<and> worker_tags cfg e w \<noteq> Remove"

definition valid_fresh :: "'v cache_config \<Rightarrow> timestamp \<Rightarrow> 'v entry \<Rightarrow> 'v worker \<Rightarrow> bool" where
  "valid_fresh cfg now e w \<longleftrightarrow> worker_tags cfg e w = Valid \<and> is_fresh (entry_freshness now e)"

lemma read_l1_served:
  assumes "read_l1 cfg env n key w = (w', Inr r)" and "r = L1_Fresh a \<or> r = L1_Stale a"
  shows "l1_probe env n key w = Some a" "wk_epoch w' = wk_epoch w" "is_read_eligible (wk_ep w') (arc_entry a)"
    "readable cfg (re_now env (n + 1)) (arc_entry a) w'"
    "r = L1_Fresh a \<longleftrightarrow> valid_fresh cfg (re_now env (n + 1)) (arc_entry a) w'"
  using assms
  by (auto simp: read_l1_def Let_def l1_probe_def readable_def valid_fresh_def split: prod.splits option.splits if_splits tag_verdict.splits)

definition decoded :: "'v read_env \<Rightarrow> timestamp \<Rightarrow> 'v entry \<Rightarrow> bool" where
  "decoded env now e \<longleftrightarrow> (case re_reply env of
     Inr (Some b) \<Rightarrow> (case re_decode env b of Inr snap \<Rightarrow> try_into_cache_entry now snap = Inr e | Inl _ \<Rightarrow> False)
   | _ \<Rightarrow> False)"

lemma decoded_iff:
  "decoded env now e \<longleftrightarrow> (\<exists>b snap. re_reply env = Inr (Some b) \<and> re_decode env b = Inr snap \<and> try_into_cache_entry now snap = Inr e)"
  by (cases "re_reply env"; cases "projr (re_reply env)"; cases "re_decode env (the (projr (re_reply env)))") (auto simp: decoded_def)

text \<open>The clock reading at which an answer of the second level is judged.\<close>

definition l2_clock :: "'v cache_config \<Rightarrow> 'v read_env \<Rightarrow> nat \<Rightarrow> timestamp" where
  "l2_clock cfg env n = (if cc_immediate_plan cfg then re_now env n else re_now env (n + 1))"

lemma l2_clock_elapsed [simp]: "l2_clock cfg (env\<lparr>re_elapsed := x\<rparr>) n = l2_clock cfg env n"
  by (simp add: l2_clock_def)

lemma fetch_l2_found:
  assumes "fetch_l2 cfg env n key w = (w', Fetched (Inr (Some found)), seen)"
  shows "decoded env (dl_observed_at found) (dl_entry found)" "\<not> is_physically_expired (dl_observed_at found) (dl_entry found)"
    "dl_observed_at found = l2_clock cfg env n"
  using assms
  by (auto simp: fetch_l2_def Let_def decoded_def l2_clock_def split: prod.splits option.splits sum.splits if_splits)

lemma decoded_elapsed [simp]: "decoded (env\<lparr>re_elapsed := x\<rparr>) = decoded env"
  by (rule ext)+ (simp add: decoded_def split: sum.split option.split)

lemma read_l2_budget_found:
  assumes "read_l2_budget cfg env n key limit w = (w', L2_Completed (Inr (Some found)), seen)"
  shows "decoded env (dl_observed_at found) (dl_entry found)" "\<not> is_physically_expired (dl_observed_at found) (dl_entry found)"
    "dl_observed_at found = l2_clock cfg env n"
  using assms fetch_l2_found [of cfg env n key w w' found seen] fetch_l2_found [of cfg "env\<lparr>re_elapsed := None\<rparr>" n key w w' found seen]
  by (auto simp: read_l2_budget_def split: timeout.splits if_splits prod.splits fetch_result.splits)

lemma read_l2_found:
  assumes "read_l2 cfg env n key opts fb w = (w', Inr (Some found))"
  shows "cc_hybrid cfg" "\<not> opt_skip_distributed_read opts" "decoded env (dl_observed_at found) (dl_entry found)"
    "\<not> is_physically_expired (dl_observed_at found) (dl_entry found)" "dl_observed_at found = l2_clock cfg env n"
  using assms read_l2_budget_found [of cfg env n key "appropriate_distributed_timeout fb opts"]
  by (auto simp: read_l2_def l2_outcome_def Let_def split: if_splits prod.splits sum.splits option.splits bool.splits l2_read_budget.splits)

lemma read_hit_served:
  "read_hit cfg key e opts stale level w = (w', Inr (r, outcome, l)) \<longleftrightarrow>
     (\<exists>v. copy_value (cc_cloner cfg) opts (en_value e) = Inr v \<and> r = Some v) \<and> outcome = (if stale then OutStaleHit else OutHit)
     \<and> l = Some level \<and> w' = emit (Hit_event key stale) w"
  by (auto simp: read_hit_def split: sum.splits)

lemma read_finish_served:
  "read_finish cfg key opts stale w = (w', Inr (Some v, outcome, l)) \<longleftrightarrow>
     (\<exists>e level. stale = Some (e, level) \<and> opt_allow_stale_on_read_only opts \<and> copy_value (cc_cloner cfg) opts (en_value e) = Inr v
        \<and> outcome = OutStaleHit \<and> l = Some level \<and> w' = emit (Hit_event key True) w)"
  by (auto simp: read_finish_def read_hit_served split: option.splits)

lemma read_distributed_served:
  assumes "read_distributed cfg env n key opts stale w = (w', Inr (Some v, outcome, level))"
  defines "q \<equiv> re_wait env (n + 3) (fst (read_l2 cfg env n key opts (stale \<noteq> None) w))"
  shows "\<exists>e l. level = Some l \<and> copy_value (cc_cloner cfg) opts (en_value e) = Inr v
    \<and> (outcome = OutStaleHit \<and> opt_allow_stale_on_read_only opts \<and> stale = Some (e, l)
       \<or> l = DistributedLevel \<and> cc_hybrid cfg \<and> \<not> opt_skip_distributed_read opts
         \<and> decoded env (l2_clock cfg env n) e \<and> readable cfg (l2_clock cfg env n) e q
         \<and> (outcome = OutHit \<and> valid_fresh cfg (l2_clock cfg env n) e q \<or> outcome = OutStaleHit \<and> opt_allow_stale_on_read_only opts))"
proof (cases "read_l2 cfg env n key opts (stale \<noteq> None) w")
  case (Pair w1 r)
  show ?thesis
  proof (cases "stale \<noteq> None \<and> opt_skip_distributed_read_when_stale opts")
    case True
    then show ?thesis using assms(1) by (auto simp: read_distributed_def read_finish_served)
  next
    case False
    show ?thesis
    proof (cases "\<exists>found. r = Inr (Some found)")
      case True
      then obtain found where r: "r = Inr (Some found)" ..
      note f = read_l2_found [OF Pair [unfolded r]]
      note f = f(1,2) f(3,4) [unfolded f(5)] f(5)
      have q: "q = re_wait env (n + 3) w1" unfolding q_def Pair by simp
      show ?thesis
      proof (cases "worker_tags cfg (dl_entry found) q = Remove")
        case True
        then show ?thesis using assms(1) False Pair r by (auto simp: read_distributed_def Let_def q read_finish_served) blast
      next
        case keep: False
        have rd: "readable cfg (l2_clock cfg env n) (dl_entry found) q" using f(4) keep by (simp add: readable_def)
        show ?thesis using assms(1) False Pair r keep f rd
          by (auto simp: read_distributed_def Let_def q read_finish_served read_hit_served valid_fresh_def read_stale_of_def
            split: prod.splits sum.splits if_splits option.splits)
      qed
    next
      case none: False
      then show ?thesis using assms(1) False Pair by (auto simp: read_distributed_def read_finish_served split: sum.splits option.splits) blast
    qed
  qed
qed

text \<open>The state in which the first level's entry was judged, and the one in which the second level's was.\<close>

definition l1_judged :: "'v cache_config \<Rightarrow> 'v read_env \<Rightarrow> string \<Rightarrow> entry_options \<Rightarrow> 'v worker \<Rightarrow> 'v worker" where
  "l1_judged cfg env key opts w =
     (let w = ensure_health cfg (re_health env 0) (re_instant env 0) w in if opt_skip_memory_read opts then w else fst (read_l1 cfg env 1 key w))"

definition l1_stale :: "'v cache_config \<Rightarrow> 'v read_env \<Rightarrow> string \<Rightarrow> entry_options \<Rightarrow> 'v worker \<Rightarrow> 'v entry option" where
  "l1_stale cfg env key opts w =
     (let w = ensure_health cfg (re_health env 0) (re_instant env 0) w in
      if opt_skip_memory_read opts then None
      else case snd (read_l1 cfg env 1 key w) of Inr (L1_Stale a) \<Rightarrow> Some (arc_entry a) | _ \<Rightarrow> None)"

definition l2_judged :: "'v cache_config \<Rightarrow> 'v read_env \<Rightarrow> string \<Rightarrow> entry_options \<Rightarrow> 'v worker \<Rightarrow> 'v worker" where
  "l2_judged cfg env key opts w =
     re_wait env 7 (fst (read_l2 cfg env 4 key opts (l1_stale cfg env key opts w \<noteq> None) (l1_judged cfg env key opts w)))"

definition from_memory :: "'v cache_config \<Rightarrow> 'v read_env \<Rightarrow> string \<Rightarrow> entry_options \<Rightarrow> 'v worker \<Rightarrow> 'v entry \<Rightarrow> bool" where
  "from_memory cfg env key opts w e \<longleftrightarrow> \<not> opt_skip_memory_read opts
     \<and> (\<exists>a. l1_probe env 1 key (ensure_health cfg (re_health env 0) (re_instant env 0) w) = Some a \<and> arc_entry a = e)
     \<and> wk_epoch (l1_judged cfg env key opts w) = wk_epoch (ensure_health cfg (re_health env 0) (re_instant env 0) w)
     \<and> is_read_eligible (wk_ep (l1_judged cfg env key opts w)) e
     \<and> readable cfg (re_now env 2) e (l1_judged cfg env key opts w)"

lemma worker_read_eq:
  "worker_read cfg env key opts w =
     (let w1 = ensure_health cfg (re_health env 0) (re_instant env 0) w in
      case (if opt_skip_memory_read opts then Inr L1_Miss else snd (read_l1 cfg env 1 key w1)) of
        Inl er \<Rightarrow> (l1_judged cfg env key opts w, Inl er)
      | Inr (L1_Fresh a) \<Rightarrow> read_hit cfg key (arc_entry a) opts False MemoryLevel (l1_judged cfg env key opts w)
      | Inr _ \<Rightarrow> read_distributed cfg env 4 key opts (map_option (\<lambda>e. (e, MemoryLevel)) (l1_stale cfg env key opts w)) (l1_judged cfg env key opts w))"
  by (auto simp: worker_read_def l1_judged_def l1_stale_def Let_def split: prod.splits sum.splits l1_read.splits)

lemma l1_fresh_served:
  assumes "\<not> opt_skip_memory_read opts" "snd (read_l1 cfg env 1 key (ensure_health cfg (re_health env 0) (re_instant env 0) w)) = Inr (L1_Fresh a)"
  shows "from_memory cfg env key opts w (arc_entry a)" "valid_fresh cfg (re_now env 2) (arc_entry a) (l1_judged cfg env key opts w)"
  using read_l1_served [of cfg env 1 key "ensure_health cfg (re_health env 0) (re_instant env 0) w" _ "L1_Fresh a" a] assms
  by (auto simp: from_memory_def l1_judged_def prod_eq_iff numeral_2_eq_2)

lemma l1_stale_served:
  assumes "l1_stale cfg env key opts w = Some e"
  shows "from_memory cfg env key opts w e"
proof -
  obtain a where a: "\<not> opt_skip_memory_read opts" "arc_entry a = e"
    "snd (read_l1 cfg env 1 key (ensure_health cfg (re_health env 0) (re_instant env 0) w)) = Inr (L1_Stale a)"
    using assms by (auto simp: l1_stale_def Let_def split: if_splits sum.splits l1_read.splits)
  then show ?thesis
    using read_l1_served [of cfg env 1 key "ensure_health cfg (re_health env 0) (re_instant env 0) w" _ "L1_Stale a" a]
    by (auto simp: from_memory_def l1_judged_def prod_eq_iff numeral_2_eq_2)
qed

lemma served_valid:
  assumes "worker_read cfg env key opts w = (w', Inr (Some v, outcome, level))"
  shows "\<exists>e. copy_value (cc_cloner cfg) opts (en_value e) = Inr v
    \<and> (level = Some MemoryLevel \<and> from_memory cfg env key opts w e
         \<and> (outcome = OutHit \<longrightarrow> valid_fresh cfg (re_now env 2) e (l1_judged cfg env key opts w))
       \<or> level = Some DistributedLevel \<and> cc_hybrid cfg \<and> \<not> opt_skip_distributed_read opts
         \<and> decoded env (l2_clock cfg env 4) e \<and> readable cfg (l2_clock cfg env 4) e (l2_judged cfg env key opts w)
         \<and> (outcome = OutHit \<longrightarrow> valid_fresh cfg (l2_clock cfg env 4) e (l2_judged cfg env key opts w)))
    \<and> (outcome = OutHit \<or> outcome = OutStaleHit \<and> opt_allow_stale_on_read_only opts)"
proof (cases "\<exists>a. \<not> opt_skip_memory_read opts \<and> snd (read_l1 cfg env 1 key (ensure_health cfg (re_health env 0) (re_instant env 0) w)) = Inr (L1_Fresh a)")
  case True
  then obtain a where a: "\<not> opt_skip_memory_read opts"
    "snd (read_l1 cfg env 1 key (ensure_health cfg (re_health env 0) (re_instant env 0) w)) = Inr (L1_Fresh a)" by blast
  then show ?thesis using assms l1_fresh_served [OF a] by (auto simp: worker_read_eq Let_def read_hit_served)
next
  case False
  let ?stale = "map_option (\<lambda>e. (e, MemoryLevel)) (l1_stale cfg env key opts w)"
  have d: "read_distributed cfg env 4 key opts ?stale (l1_judged cfg env key opts w) = (w', Inr (Some v, outcome, level))"
    using assms False by (auto simp: worker_read_eq Let_def split: sum.splits l1_read.splits if_splits)
  have q: "re_wait env (4 + 3) (fst (read_l2 cfg env 4 key opts (?stale \<noteq> None) (l1_judged cfg env key opts w))) = l2_judged cfg env key opts w"
    by (simp add: l2_judged_def)
  from read_distributed_served [OF d, unfolded q] obtain e l where e: "level = Some l" "copy_value (cc_cloner cfg) opts (en_value e) = Inr v"
    "outcome = OutStaleHit \<and> opt_allow_stale_on_read_only opts \<and> ?stale = Some (e, l)
       \<or> l = DistributedLevel \<and> cc_hybrid cfg \<and> \<not> opt_skip_distributed_read opts
         \<and> decoded env (l2_clock cfg env 4) e \<and> readable cfg (l2_clock cfg env 4) e (l2_judged cfg env key opts w)
         \<and> (outcome = OutHit \<and> valid_fresh cfg (l2_clock cfg env 4) e (l2_judged cfg env key opts w)
            \<or> outcome = OutStaleHit \<and> opt_allow_stale_on_read_only opts)" by blast
  then show ?thesis using l1_stale_served [of cfg env key opts w e] by auto
qed

text \<open>
  C17. Reads: a value that a read returns is a copy of an entry that was in the first level at the
  probe, under an unchanged continuity epoch, or of the entry decoded from what the second level
  returned; at the moment it was judged, a clock reading of this read made after the probe or, for
  the second level, when its answer was requested or decoded, the entry was physically alive and no
  marker called for its removal. It is reported as a hit only if no marker had expired it and it was logically fresh, and
  as a stale hit only if the options allow stale values on reads. This holds whatever other
  operations do in between.
\<close>
theorem read_serves_valid:
  assumes "worker_read cfg env key opts w = (w', Inr (Some v, outcome, level))"
  shows "\<exists>e. copy_value (cc_cloner cfg) opts (en_value e) = Inr v
    \<and> (level = Some MemoryLevel \<and> from_memory cfg env key opts w e
         \<and> (outcome = OutHit \<longrightarrow> valid_fresh cfg (re_now env 2) e (l1_judged cfg env key opts w))
       \<or> level = Some DistributedLevel \<and> cc_hybrid cfg \<and> \<not> opt_skip_distributed_read opts
         \<and> decoded env (l2_clock cfg env 4) e \<and> readable cfg (l2_clock cfg env 4) e (l2_judged cfg env key opts w)
         \<and> (outcome = OutHit \<longrightarrow> valid_fresh cfg (l2_clock cfg env 4) e (l2_judged cfg env key opts w)))
    \<and> (outcome = OutHit \<or> outcome = OutStaleHit \<and> opt_allow_stale_on_read_only opts)"
  by (rule served_valid [OF assms])

section \<open>Hydration\<close>

lemma prepare_hydration_meta:
  assumes "prepare_memory_hydration ep opts now e = Inr (Some md)"
  shows "md_created md = md_created (en_meta e)" "md_tags md = md_tags (en_meta e)"
    "md_physical_expiration md \<le> max (md_physical_expiration (en_meta e)) (md_logical_expiration (en_meta e))"
  using assms by (auto simp: prepare_memory_hydration_def Let_def split: sum.splits if_splits)

lemma prepare_entry_keeps [simp]:
  "en_value (arc_entry (prepare_entry addr now a)) = en_value (arc_entry a)"
  "en_eligibility (arc_entry (prepare_entry addr now a)) = en_eligibility (arc_entry a)"
  "md_created (en_meta (arc_entry (prepare_entry addr now a))) = md_created (en_meta (arc_entry a))"
  "md_tags (en_meta (arc_entry (prepare_entry addr now a))) = md_tags (en_meta (arc_entry a))"
  "md_physical_expiration (en_meta (arc_entry (prepare_entry addr now a))) = md_physical_expiration (en_meta (arc_entry a))"
  by (simp_all add: prepare_entry_def at_insertion_def)

text \<open>What an insertion into the store does to every key, with the check of the expected representation.\<close>

lemma insert_internal_effect:
  assumes "weight_ok r" "insert_internal ep inow addr key a now ex capture event r = (r', admission)" "\<not> changes_origin ex"
  shows "\<not> expected_matches ex (lookup r key) (rt_heap r) (rt_generation r) \<Longrightarrow> r' = r"
    "lookup r' key = lookup r key \<or> lookup r' key = None
     \<or> lookup r' key = Some (prepare_entry addr now a) \<and> expected_matches ex (lookup r key) (rt_heap r) (rt_generation r)"
    "k \<noteq> key \<Longrightarrow> lookup r' k = lookup r k \<or> lookup r' k = None"
    "admission = Admitted \<or> admission = ReplacedEntry \<Longrightarrow> lookup r' key = Some (prepare_entry addr now a)"
proof -
  let ?e = "prepare_entry addr now a"
  obtain c where w: "apply_write ep inow key ?e now ex capture event r = (r', c)" "admission = rc_admission c"
    using assms(2) by (auto simp: insert_internal_def Let_def split: prod.splits)
  let ?m = "expected_matches ex (lookup r key) (rt_heap r) (rt_generation r)"
  have "(\<not> ?m \<longrightarrow> r' = r) \<and> (lookup r' key = lookup r key \<or> lookup r' key = None \<or> lookup r' key = Some ?e \<and> ?m)
    \<and> (\<forall>k. k \<noteq> key \<longrightarrow> lookup r' k = lookup r k \<or> lookup r' k = None)
    \<and> (admission = Admitted \<or> admission = ReplacedEntry \<longrightarrow> lookup r' key = Some ?e)"
  proof (cases "is_before now (md_physical_expiration (en_meta (arc_entry ?e)))")
    case True
    then have i: "retention_insert ep inow key ?e now ex capture event r = (r', c)" using w(1) by (simp add: apply_write_def)
    have m: "?m \<or> r' = r \<and> rc_admission c = RejectedAdmission VersionChanged"
      using i by (auto simp: retention_insert_def lookup_def commit_rejected_def split: if_splits)
    show ?thesis using insert_effect [OF assms(1) i] m unfolding w(2) by (cases "rc_admission c") auto
  next
    case False
    then show ?thesis using w assms(3) by (auto simp: apply_write_def commit_rejected_def changes_origin_def split: if_splits)
  qed
  note all = this
  show "\<not> ?m \<Longrightarrow> r' = r" by (rule all [THEN conjunct1, THEN mp])
  show "lookup r' key = lookup r key \<or> lookup r' key = None \<or> lookup r' key = Some ?e \<and> ?m" by (rule all [THEN conjunct2, THEN conjunct1])
  show "k \<noteq> key \<Longrightarrow> lookup r' k = lookup r k \<or> lookup r' k = None" by (rule all [THEN conjunct2, THEN conjunct2, THEN conjunct1, rule_format])
  show "admission = Admitted \<or> admission = ReplacedEntry \<Longrightarrow> lookup r' key = Some ?e"
    by (rule all [THEN conjunct2, THEN conjunct2, THEN conjunct2, THEN mp])
qed

text \<open>Every way a hydration can end.\<close>

lemma hydrate_cases:
  assumes "hydrate cfg env n key found opts w = (w', r)"
  obtains (kept) "w' = w \<or> w' = re_wait env n w" "\<And>admission. r \<noteq> Inr (HydrationEvaluated admission)"
  | (written) fence observed md v admission where
      "dl_hydration found = StableFence fence observed" "\<not> opt_skip_memory_write opts" "key \<notin> set (wk_locked w)"
      "passive_is_current fence (worker_lane key w) (wk_epoch w)" "worker_tags cfg (dl_entry found) w \<noteq> Remove"
      "\<not> superseded_by_observed observed (worker_tags cfg (dl_entry found) w) (re_now env n) (dl_entry found)"
      "prepare_memory_hydration (wk_ep w) opts (re_now env (n + 1)) (dl_entry found) = Inr (Some md)"
      "copy_value (cc_cloner cfg) opts (en_value (dl_entry found)) = Inr v"
      "passive_is_current fence (worker_lane key (re_wait env n w)) (wk_epoch (re_wait env n w))"
      "insert_if_unchanged env (n + 2) key observed (hydration_with_hydrated_value v (ContinuityStamp_new 0 (lf_captured_epoch fence)) md)
         (re_wait env (n + 1) (re_wait env n w)) = (w', admission)" "r = Inr (HydrationEvaluated admission)"
proof (cases "dl_hydration found")
  case ConcurrentMutation
  then show thesis using assms by (intro kept) (auto simp: hydrate_def Let_def split: if_splits)
next
  case (StableFence fence observed)
  let ?verdict = "worker_tags cfg (dl_entry found) w" and ?w = "re_wait env n w"
  show thesis
  proof (cases "opt_skip_memory_write opts \<or> key \<in> set (wk_locked w) \<or> \<not> passive_is_current fence (worker_lane key w) (wk_epoch w)
      \<or> ?verdict = Remove \<or> superseded_by_observed observed ?verdict (re_now env n) (dl_entry found)")
    case True
    then show thesis using assms StableFence by (intro kept) (auto simp: hydrate_def Let_def split: if_splits)
  next
    case go: False
    show thesis
    proof (cases "\<exists>md. prepare_memory_hydration (wk_ep w) opts (re_now env (n + 1)) (dl_entry found) = Inr (Some md)")
      case False
      then show thesis using assms StableFence go by (intro kept) (auto simp: hydrate_def Let_def split: sum.splits option.splits)
    next
      case True
      then obtain md where md: "prepare_memory_hydration (wk_ep w) opts (re_now env (n + 1)) (dl_entry found) = Inr (Some md)" ..
      show thesis
      proof (cases "copy_value (cc_cloner cfg) opts (en_value (dl_entry found))")
        case (Inl er)
        then show thesis using assms StableFence go md by (intro kept) (auto simp: hydrate_def Let_def)
      next
        case (Inr v)
        show thesis
        proof (cases "passive_is_current fence (worker_lane key ?w) (wk_epoch ?w)")
          case False
          then show thesis using assms StableFence go md Inr by (intro kept) (auto simp: hydrate_def Let_def)
        next
          case True
          then show thesis using assms StableFence go md Inr
            by (intro written [of fence observed md v "snd (insert_if_unchanged env (n + 2) key observed
                (hydration_with_hydrated_value v (ContinuityStamp_new 0 (lf_captured_epoch fence)) md) (re_wait env (n + 1) ?w))"])
              (simp_all add: hydrate_def Let_def split: prod.splits)
        qed
      qed
    qed
  qed
qed

text \<open>
  C18. Hydration: a value read from the second level is installed in the first only while the lane of
  its key is free and the fence taken before the read is still current, only over exactly the
  representation that was there at the fence (otherwise the store is left as it is), never over a
  representation created later, and never when a marker calls for its removal. It keeps the creation
  time of its source, does not outlive it, and can be read only under the epoch of the fence: a
  connection gap after the check makes it unreadable. Other keys at most lose their entry to
  capacity or expiration; every other outcome leaves the store alone.
\<close>
theorem hydration_respects_mutations:
  assumes "hydrate cfg env n key found opts w = (w', r)" and "before = re_wait env (n + 1) (re_wait env n w)"
    and "weight_ok (wk_memory before)"
  shows "(w' = w \<or> w' = re_wait env n w) \<and> (\<forall>admission. r \<noteq> Inr (HydrationEvaluated admission))
    \<or> (\<exists>fence observed. dl_hydration found = StableFence fence observed
        \<and> key \<notin> set (wk_locked w) \<and> passive_is_current fence (worker_lane key w) (wk_epoch w)
        \<and> passive_is_current fence (worker_lane key (re_wait env n w)) (wk_epoch (re_wait env n w))
        \<and> worker_tags cfg (dl_entry found) w \<noteq> Remove
        \<and> pred_option (\<lambda>a. md_created (en_meta (arc_entry a)) \<le> md_created (en_meta (dl_entry found))) observed
        \<and> (map_option arc_addr (lookup (wk_memory before) key) \<noteq> map_option arc_addr observed \<longrightarrow> wk_memory w' = wk_memory before)
        \<and> (\<forall>k. k \<noteq> key \<longrightarrow> lookup (wk_memory w') k = lookup (wk_memory before) k \<or> lookup (wk_memory w') k = None)
        \<and> (\<forall>a. lookup (wk_memory w') key = Some a \<and> lookup (wk_memory before) key \<noteq> Some a \<longrightarrow>
             copy_value (cc_cloner cfg) opts (en_value (dl_entry found)) = Inr (en_value (arc_entry a))
           \<and> md_created (en_meta (arc_entry a)) = md_created (en_meta (dl_entry found))
           \<and> md_physical_expiration (en_meta (arc_entry a))
               \<le> max (md_physical_expiration (en_meta (dl_entry found))) (md_logical_expiration (en_meta (dl_entry found)))
           \<and> (\<forall>now. is_read_eligible (\<lambda>_. now) (arc_entry a) \<longleftrightarrow> now = lf_captured_epoch fence)))"
  using assms(1)
proof (cases rule: hydrate_cases)
  case kept
  then show ?thesis by blast
next
  case (written fence observed md v admission)
  let ?ex = "case observed of Some a \<Rightarrow> ExpectSame a | None \<Rightarrow> ExpectAbsent"
  let ?local = "\<lparr>arc_addr = re_addr env, arc_entry = hydration_with_hydrated_value v (ContinuityStamp_new 0 (lf_captured_epoch fence)) md\<rparr>"
  obtain m where ins: "insert_internal (wk_ep before) (re_instant env (n + 2)) (re_addr env) key ?local (re_now env (n + 2)) ?ex
      (re_capture env) SetEvent (wk_memory before) = (m, admission)" and m: "wk_memory w' = m"
    using written(10) unfolding insert_if_unchanged_def assms(2) [symmetric] by (auto split: prod.splits)
  have co: "\<not> changes_origin ?ex" by (simp add: changes_origin_def split: option.split)
  note eff = insert_internal_effect [OF assms(3) ins co, folded m]
  have old: "pred_option (\<lambda>a. md_created (en_meta (arc_entry a)) \<le> md_created (en_meta (dl_entry found))) observed"
    using written(6) by (auto simp: superseded_by_observed_def split: option.splits)
  have same: "map_option arc_addr (lookup (wk_memory before) key) = map_option arc_addr observed"
    if "expected_matches ?ex (lookup (wk_memory before) key) (rt_heap (wk_memory before)) (rt_generation (wk_memory before))"
    using that by (auto simp: expected_matches_def is_same_instance_def split: option.splits)
  have new: "a = prepare_entry (re_addr env) (re_now env (n + 2)) ?local"
    if "lookup (wk_memory w') key = Some a" "lookup (wk_memory before) key \<noteq> Some a" for a using eff(2) that by auto
  have "copy_value (cc_cloner cfg) opts (en_value (dl_entry found)) = Inr (en_value (arc_entry a))
      \<and> md_created (en_meta (arc_entry a)) = md_created (en_meta (dl_entry found))
      \<and> md_physical_expiration (en_meta (arc_entry a))
          \<le> max (md_physical_expiration (en_meta (dl_entry found))) (md_logical_expiration (en_meta (dl_entry found)))
      \<and> (\<forall>now. is_read_eligible (\<lambda>_. now) (arc_entry a) \<longleftrightarrow> now = lf_captured_epoch fence)"
    if "a = prepare_entry (re_addr env) (re_now env (n + 2)) ?local" for a
    using written(8) prepare_hydration_meta [OF written(7)]
    by (simp add: that hydration_with_hydrated_value_def hydration_with_value_def is_read_eligible_def stamp_is_current_def ContinuityStamp_new_def)
  note props = this [OF new]
  show ?thesis using written(1,3,4,5,9) old same eff(1,3) props by (intro disjI2 exI conjI) blast+
qed

section \<open>Outages of the second level\<close>

text \<open>
  Which failures are an outage: errors of the backend and its transport, an exceeded budget and an
  open circuit, unless the options ask for distributed errors, and answers the codec rejects,
  unless they ask for serialization errors. The second level is out when the backend fails like this,
  knows nothing, answers with bytes the codec rejects, or does not answer within a finite budget.
\<close>

definition outage_error :: "entry_options \<Rightarrow> cache_error \<Rightarrow> bool" where
  "outage_error opts er \<longleftrightarrow>
     \<not> opt_rethrow_distributed_exceptions opts \<and> (\<exists>m d c. er \<in> {ErrDistributed m, ErrTransportDistributed m, ErrDistributedTimeout d, ErrCircuitOpen c})
   \<or> \<not> opt_rethrow_serialization_exceptions opts
       \<and> (\<exists>m. er \<in> {ErrSerialization m, ErrDeserialization m, ErrCodecSerialization m, ErrCodecDeserialization m})"

definition l2_out :: "'v read_env \<Rightarrow> entry_options \<Rightarrow> bool" where
  "l2_out env opts \<longleftrightarrow>
     (case re_reply env of
        Inl er \<Rightarrow> outage_error opts er
      | Inr None \<Rightarrow> True
      | Inr (Some b) \<Rightarrow> (case re_decode env b of Inl er \<Rightarrow> outage_error opts er | Inr snap \<Rightarrow> False))"

definition l2_silent :: "'v read_env \<Rightarrow> entry_options \<Rightarrow> bool" where
  "l2_silent env opts \<longleftrightarrow> re_elapsed env = Some 1 \<and> (\<forall>fb. appropriate_distributed_timeout fb opts \<noteq> Infinite)"

lemma outage_degrades: "outage_error opts er \<Longrightarrow> \<not> l2_read_rethrow opts er"
  by (auto simp: outage_error_def l2_read_rethrow_def)

definition calm :: "'v read_env \<Rightarrow> bool" where
  "calm env \<longleftrightarrow> (\<forall>m. re_cancel env m = None) \<and> (\<forall>m e w. snd (re_reconcile env m e w) = None)"

lemma calm_cancel: "calm env \<Longrightarrow> re_cancel env m = None"
  by (simp add: calm_def)

lemma calm_reconcile: "calm env \<Longrightarrow> re_reconcile env m e w = (w', y) \<Longrightarrow> y = None"
  unfolding calm_def by (metis snd_conv)

lemma read_l1_calm:
  assumes "calm env"
  shows "\<exists>r. snd (read_l1 cfg env n key w) = Inr r"
  by (auto simp: read_l1_def calm_cancel [OF assms] Let_def dest!: calm_reconcile [OF assms] split: prod.splits option.splits tag_verdict.splits)

lemma calm_elapsed [simp]: "calm (env\<lparr>re_elapsed := x\<rparr>) = calm env" "l2_out (env\<lparr>re_elapsed := x\<rparr>) opts = l2_out env opts"
  by (simp_all add: calm_def l2_out_def split: sum.split option.split)

lemma fetch_l2_out:
  assumes "calm env" "l2_out env opts" "fetch_l2 cfg env n key w = (w', Fetched r, seen)"
  shows "r = Inr None \<or> (\<exists>er. r = Inl er \<and> outage_error opts er)"
  using assms(2,3) by (auto simp: fetch_l2_def calm_cancel [OF assms(1)] l2_out_def Let_def split: prod.splits option.splits sum.splits if_splits)

lemma fetch_l2_silent:
  assumes "calm env" "re_elapsed env = Some 1" "fetch_l2 cfg env n key w = (w', r, seen)"
  shows "r = FetchElapsed"
  using assms(2,3) by (auto simp: fetch_l2_def calm_cancel [OF assms(1)] Let_def split: prod.splits)

lemma read_l2_budget_out:
  assumes "calm env" "l2_out env opts \<or> re_elapsed env = Some 1 \<and> limit \<noteq> Infinite" "read_l2_budget cfg env n key limit w = (w', b, seen)"
    "\<And>d. limit = After d \<Longrightarrow> instant_checked_add (re_instant env n) d \<noteq> None"
  shows "b = L2_TimedOut \<or> b = L2_Completed (Inr None) \<or> (\<exists>er. b = L2_Completed (Inl er) \<and> outage_error opts er)"
  using assms(2) fetch_l2_out [of env opts cfg n key w] fetch_l2_out [of "env\<lparr>re_elapsed := None\<rparr>" opts cfg n key w]
    fetch_l2_silent [of env cfg n key w] assms(1,3,4)
  by (auto simp: read_l2_budget_def split: timeout.splits if_splits prod.splits fetch_result.splits)

lemma read_l2_out:
  assumes "calm env" "l2_out env opts \<or> l2_silent env opts" "\<not> opt_rethrow_distributed_exceptions opts"
    "\<And>d. appropriate_distributed_timeout fb opts = After d \<Longrightarrow> instant_checked_add (re_instant env n) d \<noteq> None"
  shows "snd (read_l2 cfg env n key opts fb w) = Inr None"
proof -
  have "l2_outcome opts fb budget = Inr None \<or> (\<exists>er. l2_outcome opts fb budget = Inl er \<and> \<not> l2_read_rethrow opts er)"
    if "read_l2_budget cfg env n key (appropriate_distributed_timeout fb opts) x = (y, budget, seen)" for x y budget seen
    using read_l2_budget_out [OF assms(1) _ that assms(4), of opts] assms(2,3) outage_degrades [of opts]
    by (auto simp: l2_outcome_def l2_silent_def Let_def l2_read_rethrow_def split: if_splits)
  then show ?thesis
    by (fastforce simp: read_l2_def Let_def split: prod.splits bool.splits sum.splits option.splits)
qed

definition plain_options :: "entry_options \<Rightarrow> bool" where
  "plain_options opts \<longleftrightarrow> validate opts = Inr () \<and> (\<exists>sz. size_of opts = Inr sz) \<and> \<not> opt_enable_auto_clone opts"

lemma copy_plain: "plain_options opts \<Longrightarrow> copy_value cloner opts v = Inr v"
  by (simp add: plain_options_def copy_value_def)

text \<open>What the first level alone answers.\<close>

definition memory_answer ::
  "'v cache_config \<Rightarrow> 'v read_env \<Rightarrow> string \<Rightarrow> entry_options \<Rightarrow> 'v worker \<Rightarrow> 'v option \<times> operation_outcome \<times> cache_level option" where
  "memory_answer cfg env key opts w =
     (case (if opt_skip_memory_read opts then Inr L1_Miss
            else snd (read_l1 cfg env 1 key (ensure_health cfg (re_health env 0) (re_instant env 0) w))) of
        Inr (L1_Fresh a) \<Rightarrow> (Some (en_value (arc_entry a)), OutHit, Some MemoryLevel)
      | Inr (L1_Stale a) \<Rightarrow>
          if opt_allow_stale_on_read_only opts then (Some (en_value (arc_entry a)), OutStaleHit, Some MemoryLevel)
          else (None, OutMiss, None)
      | _ \<Rightarrow> (None, OutMiss, None))"


section \<open>When an origin runs\<close>

lemma acquire_lock_ok:
  assumes "acquire_lock cfg le key opts stale w = (w', Inr r)"
  shows "r = LockAcquired guard \<Longrightarrow> w' = w \<and> le_local le (lock_budget opts (stale \<noteq> None)) = Inr True \<and> fg_local guard = LocalHeld"
    "r = LockUnlocked guard \<Longrightarrow> w' = w \<and> le_local le (lock_budget opts (stale \<noteq> None)) = Inr False \<and> fg_local guard = UnlockedAfterTimeout
       \<and> (\<not> opt_is_fail_safe_enabled opts \<or> stale = None)"
    "r = LockAcquired guard \<or> r = LockUnlocked guard \<Longrightarrow>
       \<exists>lease. acquire_lease cfg le opts = Inr lease \<and> fg_lease guard = ClusterParticipation_new lease (cc_lease_policy cfg)"
    "r = LockServed v \<Longrightarrow> \<exists>e. stale = Some e \<and> opt_is_fail_safe_enabled opts \<and> copy_value (cc_cloner cfg) opts (en_value e) = Inr v"
  using assms by (auto simp: acquire_lock_def Let_def split: sum.splits option.splits if_splits)

lemma fenced_lease:
  assumes "acquire_lease cfg le opts = Inr lease" "cc_lease_policy cfg = FencedPolicy" "\<not> opt_skip_distributed_locker opts" "le_lease le \<noteq> None"
  shows "\<exists>l. le_lease le = Some (Inr (Some l)) \<and> ClusterParticipation_new lease (cc_lease_policy cfg) = ClusterFenced l"
  using assms by (auto simp: acquire_lease_def ClusterParticipation_new_def split: option.splits sum.splits if_splits)

lemma served_not_origin [simp]: "served cfg key e opts level w \<noteq> (w', Inr (LookupOrigin s g))"
  by (simp add: served_def split: sum.split)

lemma lookup_distributed_origin:
  assumes "lookup_distributed cfg env n key opts d stale guard w = (w', Inr (LookupOrigin s g))"
  shows "g = guard" "\<not> (stale \<noteq> None \<and> opt_skip_distributed_read_when_stale opts) \<Longrightarrow>
      snd (read_l2 cfg env n key opts (stale \<noteq> None \<or> d) w) = Inr (Some found) \<Longrightarrow>
      \<not> valid_fresh cfg (dl_observed_at found) (dl_entry found) (re_wait env (n + 3) (fst (read_l2 cfg env n key opts (stale \<noteq> None \<or> d) w)))"
  using assms
  by (auto simp: lookup_distributed_def valid_fresh_def Let_def split: if_splits prod.splits sum.splits option.splits)

text \<open>
  The second level answers: it is configured and not skipped, its circuit admits the read, and within
  the budget it returns a snapshot that decodes to an entry still physically alive.
\<close>

definition l2_answers ::
  "'v cache_config \<Rightarrow> 'v read_env \<Rightarrow> nat \<Rightarrow> entry_options \<Rightarrow> bool \<Rightarrow> 'v worker \<Rightarrow> 'v entry \<Rightarrow> bool" where
  "l2_answers cfg env n opts fb w e \<longleftrightarrow> cc_hybrid cfg \<and> \<not> opt_skip_distributed_read opts
     \<and> snd (circuit_admits DistributedCircuit (re_now env n) w)
     \<and> (case appropriate_distributed_timeout fb opts of
          Infinite \<Rightarrow> True
        | After d \<Rightarrow> d \<noteq> 0 \<and> instant_checked_add (re_instant env n) d \<noteq> None \<and> re_elapsed env = None)
     \<and> decoded env (l2_clock cfg env n) e \<and> \<not> is_physically_expired (l2_clock cfg env n) e"

lemma fetch_l2_answers:
  assumes "calm env" "re_elapsed env = None" "decoded env (l2_clock cfg env n) e" "\<not> is_physically_expired (l2_clock cfg env n) e"
  shows "\<exists>w' found seen. fetch_l2 cfg env n key w = (w', Fetched (Inr (Some found)), seen) \<and> dl_entry found = e
    \<and> dl_observed_at found = l2_clock cfg env n"
proof -
  obtain b snap where b: "re_reply env = Inr (Some b)" "re_decode env b = Inr snap" "try_into_cache_entry (l2_clock cfg env n) snap = Inr e"
    using assms(3) unfolding decoded_iff by blast
  have rec: "(case re_reconcile env m e x of (w, None) \<Rightarrow> f w | (w, Some er) \<Rightarrow> g w er) = f (fst (re_reconcile env m e x))" for m x f g
    by (cases "re_reconcile env m e x") (use calm_reconcile [OF assms(1), of m e x] in \<open>auto split: option.split\<close>)
  obtain x h where h: "hydration_fence env n key (re_now env n) w = (x, h)" by fastforce
  show ?thesis using b(3) assms(4)
    by (cases "cc_immediate_plan cfg"; cases "cc_durable_markers cfg")
      (simp_all add: fetch_l2_def l2_clock_def calm_cancel [OF assms(1)] b(1,2) assms(2) h rec Let_def, blast+)
qed

lemma read_l2_budget_answers:
  assumes "calm env" "l2_answers cfg env n opts fb w e"
  shows "\<exists>y found seen. read_l2_budget cfg env n key (appropriate_distributed_timeout fb opts) x = (y, L2_Completed (Inr (Some found)), seen)
    \<and> dl_entry found = e \<and> dl_observed_at found = l2_clock cfg env n"
proof -
  let ?env = "if appropriate_distributed_timeout fb opts = Infinite then env\<lparr>re_elapsed := None\<rparr> else env"
  have el: "re_elapsed ?env = None" using assms(2) by (auto simp: l2_answers_def split: timeout.splits)
  have "\<exists>y found seen. fetch_l2 cfg ?env n key x = (y, Fetched (Inr (Some found)), seen) \<and> dl_entry found = e
      \<and> dl_observed_at found = l2_clock cfg ?env n"
    by (rule fetch_l2_answers [OF _ el]) (use assms in \<open>simp_all add: l2_answers_def\<close>)
  then obtain y found seen where f: "fetch_l2 cfg ?env n key x = (y, Fetched (Inr (Some found)), seen)" "dl_entry found = e"
      "dl_observed_at found = l2_clock cfg env n" by auto
  have "read_l2_budget cfg env n key (appropriate_distributed_timeout fb opts) x = (y, L2_Completed (Inr (Some found)), seen)"
    using f(1) assms(2) by (cases "appropriate_distributed_timeout fb opts") (simp_all add: read_l2_budget_def l2_answers_def)
  with f(2,3) show ?thesis by blast
qed

lemma read_l2_answers:
  assumes "calm env" "l2_answers cfg env n opts fb w e"
  shows "\<exists>w' found. read_l2 cfg env n key opts fb w = (w', Inr (Some found)) \<and> dl_entry found = e \<and> dl_observed_at found = l2_clock cfg env n"
proof -
  obtain x where adm: "circuit_admits DistributedCircuit (re_now env n) w = (x, True)"
    using assms(2) by (cases "circuit_admits DistributedCircuit (re_now env n) w") (simp add: l2_answers_def)
  obtain y found seen where b: "read_l2_budget cfg env n key (appropriate_distributed_timeout fb opts) x = (y, L2_Completed (Inr (Some found)), seen)"
      "dl_entry found = e" "dl_observed_at found = l2_clock cfg env n"
    using read_l2_budget_answers [OF assms, of key x] by blast
  have "snd (re_reconcile env (n + 2) e y) = None" using assms(1) by (simp add: calm_def)
  then show ?thesis using assms(2) adm b
    by (cases "re_reconcile env (n + 2) e y") (simp add: read_l2_def l2_answers_def l2_outcome_def Let_def)
qed

lemma lookup_owned_origin:
  assumes "lookup_owned cfg env n key opts d stale guard w = (w', Inr (LookupOrigin s g))"
  shows "g = guard" "opt_skip_memory_read opts \<or> snd (read_l1 cfg env n key w) \<noteq> Inr (L1_Fresh a)"
  using assms lookup_distributed_origin(1)
  by (auto simp: lookup_owned_def split: if_splits prod.splits sum.splits l1_read.splits)

text \<open>The state at the second probe, and what it leaves for the second level.\<close>

definition owned_state :: "'v cache_config \<Rightarrow> 'v read_env \<Rightarrow> string \<Rightarrow> entry_options \<Rightarrow> 'l flight_guard option \<Rightarrow> 'v worker \<Rightarrow> 'v worker" where
  "owned_state cfg env key opts held w =
     (let x = emit (Miss_event key) (l1_judged cfg env key opts w) in if held = None then re_wait env 15 x else x)"

definition owned_stale :: "'v cache_config \<Rightarrow> 'v read_env \<Rightarrow> string \<Rightarrow> entry_options \<Rightarrow> 'l flight_guard option \<Rightarrow> 'v worker \<Rightarrow> 'v entry option" where
  "owned_stale cfg env key opts held w =
     (if opt_skip_memory_read opts then None
      else case snd (read_l1 cfg env 4 key (owned_state cfg env key opts held w)) of
             Inr (L1_Stale a) \<Rightarrow> Some (arc_entry a)
           | _ \<Rightarrow> l1_stale cfg env key opts w)"

definition owned_judged :: "'v cache_config \<Rightarrow> 'v read_env \<Rightarrow> string \<Rightarrow> entry_options \<Rightarrow> 'l flight_guard option \<Rightarrow> 'v worker \<Rightarrow> 'v worker" where
  "owned_judged cfg env key opts held w =
     (let x = owned_state cfg env key opts held w in if opt_skip_memory_read opts then x else fst (read_l1 cfg env 4 key x))"

lemma lookup_origin_eq:
  "lookup_origin cfg env le key opts kind d held w =
     (let w1 = ensure_health cfg (re_health env 0) (re_instant env 0) w in
      case (if opt_skip_memory_read opts then Inr L1_Miss else snd (read_l1 cfg env 1 key w1)) of
        Inl er \<Rightarrow> (l1_judged cfg env key opts w, Inl er)
      | Inr (L1_Fresh a) \<Rightarrow>
          if kind = FactoryKind \<and> should_eager_refresh (re_now env 3) (arc_entry a) then (l1_judged cfg env key opts w, Inr (LookupRefresh (arc_entry a)))
          else served cfg key (arc_entry a) opts MemoryLevel (l1_judged cfg env key opts w)
      | Inr _ \<Rightarrow> lookup_miss cfg env 4 le key opts d held (l1_stale cfg env key opts w) (l1_judged cfg env key opts w))"
  by (auto simp: lookup_origin_def l1_judged_def l1_stale_def Let_def split: prod.splits sum.splits l1_read.splits)

lemma lookup_miss_origin:
  assumes "lookup_miss cfg env 4 le key opts d held (l1_stale cfg env key opts w) (l1_judged cfg env key opts w) = (w', Inr (LookupOrigin s g))"
  shows "lookup_owned cfg env 4 key opts d (l1_stale cfg env key opts w) g (owned_state cfg env key opts held w) = (w', Inr (LookupOrigin s g))"
    "case held of
       Some guard \<Rightarrow> g = guard
     | None \<Rightarrow> (case le_local le (lock_budget opts (l1_stale cfg env key opts w \<noteq> None)) of
          Inr True \<Rightarrow> fg_local g = LocalHeld
        | Inr False \<Rightarrow> fg_local g = UnlockedAfterTimeout \<and> (\<not> opt_is_fail_safe_enabled opts \<or> l1_stale cfg env key opts w = None)
        | Inl _ \<Rightarrow> False)
       \<and> (\<exists>lease. acquire_lease cfg le opts = Inr lease \<and> fg_lease g = ClusterParticipation_new lease (cc_lease_policy cfg))"
proof -
  let ?x = "emit (Miss_event key) (l1_judged cfg env key opts w)"
  have "lookup_owned cfg env 4 key opts d (l1_stale cfg env key opts w) g (owned_state cfg env key opts held w) = (w', Inr (LookupOrigin s g))
    \<and> (case held of
       Some guard \<Rightarrow> g = guard
     | None \<Rightarrow> (case le_local le (lock_budget opts (l1_stale cfg env key opts w \<noteq> None)) of
          Inr True \<Rightarrow> fg_local g = LocalHeld
        | Inr False \<Rightarrow> fg_local g = UnlockedAfterTimeout \<and> (\<not> opt_is_fail_safe_enabled opts \<or> l1_stale cfg env key opts w = None)
        | Inl _ \<Rightarrow> False)
       \<and> (\<exists>lease. acquire_lease cfg le opts = Inr lease \<and> fg_lease g = ClusterParticipation_new lease (cc_lease_policy cfg)))"
  proof (cases held)
    case (Some guard)
    then have own: "lookup_owned cfg env 4 key opts d (l1_stale cfg env key opts w) guard ?x = (w', Inr (LookupOrigin s g))"
      using assms by (simp add: lookup_miss_def Let_def)
    then have "g = guard" by (rule lookup_owned_origin(1))
    then show ?thesis using own Some by (simp add: owned_state_def Let_def)
  next
    case None
    obtain y r where l: "acquire_lock cfg le key opts (l1_stale cfg env key opts w) ?x = (y, r)" by fastforce
    obtain out where r: "r = Inr out" using assms None l by (cases r) (auto simp: lookup_miss_def Let_def)
    obtain guard where g: "out = LockAcquired guard \<or> out = LockUnlocked guard"
      using assms None l r by (cases out) (auto simp: lookup_miss_def Let_def)
    note ok = acquire_lock_ok(1-3) [where guard = guard, OF l [unfolded r]]
    have y: "y = ?x" using ok(1,2) g by blast
    have own: "lookup_owned cfg env 4 key opts d (l1_stale cfg env key opts w) guard (re_wait env 15 ?x) = (w', Inr (LookupOrigin s g))"
      using assms None l r g y by (auto simp: lookup_miss_def Let_def)
    then have "g = guard" by (rule lookup_owned_origin(1))
    then show ?thesis using own ok(1-3) g None by (auto simp: owned_state_def Let_def)
  qed
  then show "lookup_owned cfg env 4 key opts d (l1_stale cfg env key opts w) g (owned_state cfg env key opts held w) = (w', Inr (LookupOrigin s g))"
    "case held of
       Some guard \<Rightarrow> g = guard
     | None \<Rightarrow> (case le_local le (lock_budget opts (l1_stale cfg env key opts w \<noteq> None)) of
          Inr True \<Rightarrow> fg_local g = LocalHeld
        | Inr False \<Rightarrow> fg_local g = UnlockedAfterTimeout \<and> (\<not> opt_is_fail_safe_enabled opts \<or> l1_stale cfg env key opts w = None)
        | Inl _ \<Rightarrow> False)
       \<and> (\<exists>lease. acquire_lease cfg le opts = Inr lease \<and> fg_lease g = ClusterParticipation_new lease (cc_lease_policy cfg))"
    by (rule conjunct1, rule conjunct2)
qed

text \<open>
  C19. Origins: an origin runs only after a miss. Unless the options skip the first level, neither its
  probe before the same-key lock nor the one after it found a fresh value. Unless the options skip
  the second level, or a stale value was found and they skip the second level then, what it
  returned was not fresh and unmarked, and if it answered (its circuit closed, within the budget,
  with a decodable entry that is alive, and neither cancellation nor a failing marker store
  interfered) then that entry was stale or marked. The origin runs under the local lock, or
  without it only after the lock's timeout and not while fail-safe had a stale value to serve; with
  the fenced policy and a locker it holds a fenced lease.
\<close>
theorem origin_runs_only_on_miss:
  assumes "lookup_origin cfg env le key opts kind d None w = (w', Inr (LookupOrigin stale guard))"
    and "found_stale = owned_stale cfg env key opts (None :: 'l flight_guard option) w"
    and "second_level = read_l2 cfg env 7 key opts (found_stale \<noteq> None \<or> d) (owned_judged cfg env key opts (None :: 'l flight_guard option) w)"
  shows "(opt_skip_memory_read opts
      \<or> (\<forall>a. snd (read_l1 cfg env 1 key (ensure_health cfg (re_health env 0) (re_instant env 0) w)) \<noteq> Inr (L1_Fresh a)
           \<and> snd (read_l1 cfg env 4 key (owned_state cfg env key opts (None :: 'l flight_guard option) w)) \<noteq> Inr (L1_Fresh a)))
    \<and> (found_stale \<noteq> None \<and> opt_skip_distributed_read_when_stale opts
       \<or> (\<forall>found. snd second_level = Inr (Some found) \<longrightarrow>
            \<not> valid_fresh cfg (dl_observed_at found) (dl_entry found) (re_wait env 10 (fst second_level)))
         \<and> (\<forall>e. calm env \<and> l2_answers cfg env 7 opts (found_stale \<noteq> None \<or> d) (owned_judged cfg env key opts (None :: 'l flight_guard option) w) e \<longrightarrow>
              \<not> valid_fresh cfg (l2_clock cfg env 7) e (re_wait env 10 (fst second_level))))
    \<and> (case le_local le (lock_budget opts (l1_stale cfg env key opts w \<noteq> None)) of
         Inr True \<Rightarrow> fg_local guard = LocalHeld
       | Inr False \<Rightarrow> fg_local guard = UnlockedAfterTimeout \<and> (\<not> opt_is_fail_safe_enabled opts \<or> l1_stale cfg env key opts w = None)
       | Inl _ \<Rightarrow> False)
    \<and> (cc_lease_policy cfg = FencedPolicy \<and> \<not> opt_skip_distributed_locker opts \<and> le_lease le \<noteq> None \<longrightarrow>
         (\<exists>l :: 'l. le_lease le = Some (Inr (Some l)) \<and> fg_lease guard = ClusterFenced l))"
proof -
  let ?no = "None :: 'l flight_guard option"
  have first: "opt_skip_memory_read opts \<or> (\<forall>a. snd (read_l1 cfg env 1 key (ensure_health cfg (re_health env 0) (re_instant env 0) w)) \<noteq> Inr (L1_Fresh a))"
    and miss: "lookup_miss cfg env 4 le key opts d ?no (l1_stale cfg env key opts w) (l1_judged cfg env key opts w) = (w', Inr (LookupOrigin stale guard))"
    using assms(1) by (auto simp: lookup_origin_eq Let_def split: sum.splits l1_read.splits if_splits)
  note own = lookup_miss_origin [OF miss]
  obtain lease where lease: "acquire_lease cfg le opts = Inr lease" "fg_lease guard = ClusterParticipation_new lease (cc_lease_policy cfg)"
    using own(2) by auto
  have dist: "lookup_distributed cfg env 7 key opts d (owned_stale cfg env key opts ?no w) guard (owned_judged cfg env key opts ?no w)
      = (w', Inr (LookupOrigin stale guard))"
    using own(1) by (auto simp: lookup_owned_def owned_stale_def owned_judged_def l1_stale_def Let_def split: if_splits prod.splits sum.splits l1_read.splits)
  have returned: "\<not> valid_fresh cfg (dl_observed_at found) (dl_entry found) (re_wait env 10 (fst second_level))"
    if "\<not> (found_stale \<noteq> None \<and> opt_skip_distributed_read_when_stale opts)" "snd second_level = Inr (Some found)" for found
    using lookup_distributed_origin(2) [OF dist] that unfolding assms(2,3) by simp
  have answered: "\<not> valid_fresh cfg (l2_clock cfg env 7) e (re_wait env 10 (fst second_level))"
    if skip: "\<not> (found_stale \<noteq> None \<and> opt_skip_distributed_read_when_stale opts)"
      and ans: "calm env \<and> l2_answers cfg env 7 opts (found_stale \<noteq> None \<or> d) (owned_judged cfg env key opts ?no w) e" for e
    using read_l2_answers [of env cfg 7 opts _ _ e key] ans returned [OF skip] assms(3) by (metis snd_conv)
  have "opt_skip_memory_read opts \<or> snd (read_l1 cfg env 4 key (owned_state cfg env key opts ?no w)) \<noteq> Inr (L1_Fresh a)" for a
    by (rule lookup_owned_origin(2) [OF own(1)])
  with first have probes: "opt_skip_memory_read opts
      \<or> (\<forall>a. snd (read_l1 cfg env 1 key (ensure_health cfg (re_health env 0) (re_instant env 0) w)) \<noteq> Inr (L1_Fresh a)
           \<and> snd (read_l1 cfg env 4 key (owned_state cfg env key opts ?no w)) \<noteq> Inr (L1_Fresh a))" by blast
  have lev: "case le_local le (lock_budget opts (l1_stale cfg env key opts w \<noteq> None)) of
         Inr True \<Rightarrow> fg_local guard = LocalHeld
       | Inr False \<Rightarrow> fg_local guard = UnlockedAfterTimeout \<and> (\<not> opt_is_fail_safe_enabled opts \<or> l1_stale cfg env key opts w = None)
       | Inl _ \<Rightarrow> False" using own(2) by simp
  have fenced: "\<exists>l. le_lease le = Some (Inr (Some l)) \<and> fg_lease guard = ClusterFenced l"
    if "cc_lease_policy cfg = FencedPolicy \<and> \<not> opt_skip_distributed_locker opts \<and> le_lease le \<noteq> None"
    using that fenced_lease [OF lease(1)] lease(2) by metis
  have "found_stale \<noteq> None \<and> opt_skip_distributed_read_when_stale opts
       \<or> (\<forall>found. snd second_level = Inr (Some found) \<longrightarrow>
            \<not> valid_fresh cfg (dl_observed_at found) (dl_entry found) (re_wait env 10 (fst second_level)))
         \<and> (\<forall>e. calm env \<and> l2_answers cfg env 7 opts (found_stale \<noteq> None \<or> d) (owned_judged cfg env key opts ?no w) e \<longrightarrow>
              \<not> valid_fresh cfg (l2_clock cfg env 7) e (re_wait env 10 (fst second_level)))"
    using returned answered by blast
  then show ?thesis using probes lev fenced by (intro conjI impI)
qed

section \<open>Failing origins\<close>

text \<open>The state in which a fallback is decided.\<close>

definition fallback_state :: "'v origin_env \<Rightarrow> string \<Rightarrow> entry_options \<Rightarrow> origin_kind \<Rightarrow> bool \<Rightarrow> 'v worker \<Rightarrow> 'v worker" where
  "fallback_state oe key opts kind has_stale w =
     (let limit = origin_budget kind opts has_stale in
      if limit = After 0 then w
      else if oe_late oe \<and> \<not> is_infinite limit then emit (FactorySyntheticTimeout_event key) (oe_work oe w)
      else oe_work oe w)"

definition origin_fails :: "'v origin_env \<Rightarrow> entry_options \<Rightarrow> origin_kind \<Rightarrow> bool \<Rightarrow> bool" where
  "origin_fails oe opts kind has_stale \<longleftrightarrow>
     (let limit = origin_budget kind opts has_stale in
      limit = After 0 \<or> oe_capture oe = None \<and> (oe_late oe \<and> \<not> is_infinite limit \<or> (\<exists>m. oe_result oe = Inl (ErrFactory m))))"

lemma fallback_stale:
  assumes "plain_options opts" "opt_is_fail_safe_enabled opts" "is_read_eligible (wk_ep w) e" "\<not> is_physically_expired (re_now env n) e"
  obtains t where "try_throttled (wk_ep w) e opts (re_now env n) = Inr (Some t)" "en_value t = en_value e"
    "fallback cfg env n key opts (Some e) dflt w =
      (emit (Hit_event key True) (emit (FailSafeActivate_event key)
         (if opt_skip_memory_write opts then w else fst (insert_at env n key t (re_now env n) (re_wait env n w)))), Inr (Some (en_value e)))"
proof -
  obtain t where t: "try_throttled (wk_ep w) e opts (re_now env n) = Inr (Some t)" "en_value t = en_value e"
    using assms by (auto simp: try_throttled_def plain_options_def Let_def)
  show thesis by (rule that [OF t]) (simp add: fallback_def fallback_entry_def assms(2) t copy_plain [OF assms(1)] Let_def)
qed

lemma compute_origin_fails:
  assumes "plain_options opts" "origin_fails oe opts kind True"
    "fallback cfg env n key opts (Some e) dflt (fallback_state oe key opts kind True w) = (w', Inr (Some v))"
  shows "compute_origin cfg env n oe key opts kind (Some e) dflt w = (w', Inr (v, OutStaleHit, Some MemoryLevel))"
  using assms(2,3)
  by (auto simp: compute_origin_def origin_fails_def fallback_state_def timeout_fallback_def stale_info_ok_def copy_plain [OF assms(1)] is_factory_error_def Let_def)

text \<open>
  C20. Fail-safe: when fail-safe is on and a stale value is still eligible and physically alive, an
  origin that fails with a factory error or exceeds its budget (also a budget of zero) is answered
  with the stale value, never with the failure. What the answer leaves in the first level is that
  value marked as fail-safe, with the creation time and the physical deadline of the stale entry
  and a logical deadline at most one throttle later; no other key gains an entry.
\<close>
theorem failing_origin_served_stale:
  assumes "plain_options opts" and "opt_is_fail_safe_enabled opts" and "origin_fails oe opts kind True"
    and "now_at = fallback_state oe key opts kind True w"
    and "is_read_eligible (wk_ep now_at) e" and "\<not> is_physically_expired (re_now env n) e"
    and "before = (if opt_skip_memory_write opts then now_at else re_wait env n now_at)" and "weight_ok (wk_memory before)"
  shows "\<exists>w'. compute_origin cfg env n oe key opts kind (Some e) dflt w = (w', Inr (en_value e, OutStaleHit, Some MemoryLevel))
    \<and> (\<forall>k. k \<noteq> key \<longrightarrow> lookup (wk_memory w') k = lookup (wk_memory before) k \<or> lookup (wk_memory w') k = None)
    \<and> (\<forall>a. lookup (wk_memory w') key = Some a \<and> lookup (wk_memory before) key \<noteq> Some a \<longrightarrow>
         en_value (arc_entry a) = en_value e \<and> is_from_fail_safe (en_meta (arc_entry a))
       \<and> md_created (en_meta (arc_entry a)) = md_created (en_meta e)
       \<and> md_physical_expiration (en_meta (arc_entry a)) = md_physical_expiration (en_meta e)
       \<and> md_logical_expiration (en_meta (arc_entry a)) \<le> saturating_add (re_now env n) (opt_fail_safe_throttle_duration opts))"
proof -
  obtain t where t: "try_throttled (wk_ep now_at) e opts (re_now env n) = Inr (Some t)" "en_value t = en_value e"
    "fallback cfg env n key opts (Some e) dflt now_at =
      (emit (Hit_event key True) (emit (FailSafeActivate_event key)
         (if opt_skip_memory_write opts then now_at else fst (insert_at env n key t (re_now env n) (re_wait env n now_at)))), Inr (Some (en_value e)))"
    by (rule fallback_stale [OF assms(1,2,5,6)])
  note out = compute_origin_fails [OF assms(1,3) t(3) [unfolded assms(4)], folded assms(4)]
  have tm: "en_value t = en_value e" "is_from_fail_safe (en_meta t)" "md_created (en_meta t) = md_created (en_meta e)"
    "md_physical_expiration (en_meta t) = md_physical_expiration (en_meta e)"
    "md_logical_expiration (en_meta t) \<le> saturating_add (re_now env n) (opt_fail_safe_throttle_duration opts)"
    "md_inserted_at (en_meta t) = re_now env n"
    using t(1) by (auto simp: try_throttled_def is_from_fail_safe_def Let_def split: sum.splits if_splits)
  show ?thesis
  proof (cases "opt_skip_memory_write opts")
    case True
    then show ?thesis using out assms(7) by auto
  next
    case False
    let ?a = "\<lparr>arc_addr = re_addr env, arc_entry = t\<rparr>"
    obtain m adm where ins: "insert_internal (wk_ep before) (re_instant env n) (re_addr env) key ?a (re_now env n) ExpectAny (re_capture env) SetEvent
        (wk_memory before) = (m, adm)" by fastforce
    have mem: "wk_memory (fst (insert_at env n key t (re_now env n) (re_wait env n now_at))) = m"
      using ins False assms(7) by (simp add: insert_at_def)
    note eff = insert_internal_effect [OF assms(8) ins]
    have "lookup m key = Some a \<Longrightarrow> lookup (wk_memory before) key \<noteq> Some a \<Longrightarrow> a = ?a" for a
      using eff(2) tm(6) by (auto simp: changes_origin_def prepare_entry_def)
    moreover have "k \<noteq> key \<Longrightarrow> lookup m k = lookup (wk_memory before) k \<or> lookup m k = None" for k
      using eff(3) [of k] by (simp add: changes_origin_def)
    ultimately show ?thesis using out mem False tm by auto
  qed
qed

section \<open>A small cache\<close>

definition demo_stored :: "nat stored" where
  "demo_stored = \<lparr>st_entry = \<lparr>arc_addr = 1, arc_entry = sample_entry\<rparr>, st_access = 0, st_monotonic_expiration = None, st_capture = Unarmed\<rparr>"

definition demo_worker :: "nat worker" where
  "demo_worker = new_worker\<lparr>wk_memory := (wk_memory new_worker)\<lparr>rt_entries := [(''k'', demo_stored)], rt_weight := 1\<rparr>\<rparr>"

definition quiet_read :: "timestamp \<Rightarrow> nat read_env" where
  "quiet_read t = \<lparr>re_now = (\<lambda>_. t), re_instant = (\<lambda>_. 0), re_wait = (\<lambda>_ w. w), re_reconcile = (\<lambda>_ _ w. (w, None)), re_health = (\<lambda>_. None),
     re_cancel = (\<lambda>_. None), re_reply = Inl (ErrDistributed ''down''), re_decode = (\<lambda>_. Inl ErrCacheClosed), re_elapsed = None, re_addr = 7,
     re_capture = Unarmed\<rparr>"

lemma sample_fields:
  "en_value sample_entry = 7" "md_created (en_meta sample_entry) = 100" "md_logical_expiration (en_meta sample_entry) = 110"
  "md_physical_expiration (en_meta sample_entry) = 190" "en_eligibility sample_entry = LocalEntry"
  by (simp_all add: sample_entry_def FreshPlan_prepare_def machine_defs)

lemma demo_store_read: "store_read ep 0 ''k'' (Some 105) (wk_memory demo_worker) =
    ((fst (ticket (wk_memory demo_worker)))\<lparr>rt_entries := [(''k'', demo_stored\<lparr>st_access := 1\<rparr>)]\<rparr>, Some \<lparr>arc_addr = 1, arc_entry = sample_entry\<rparr>)"
  by (simp add: store_read_def retention_get_def demo_worker_def demo_stored_def stored_retirement_reason_def is_read_eligible_def sample_fields
      is_physically_expired_def is_before_def ticket_def Let_def new_worker_def Retention_new_def saturating_add_u128_def)

lemmas demo_read_defs = quiet_read_def demo_cache_def ensure_health_def worker_tags_def evaluate_def TagRegistry_default_def emit_def
  entry_freshness_def is_before_def is_physically_expired_def is_logically_expired_def is_read_eligible_def sample_fields Let_def

lemma demo_plain: "plain_options (EntryOptions_new 500)" "plain_options ((EntryOptions_new 500)\<lparr>opt_is_fail_safe_enabled := True\<rparr>)"
  by (simp_all add: plain_options_def validate_def size_of_def option_defs)

lemma demo_worker_fields [simp]:
  "wk_epoch demo_worker = 0" "wk_tags demo_worker = TagRegistry_default" "wk_locked demo_worker = []" "wk_lanes demo_worker = []"
  by (simp_all add: demo_worker_def new_worker_def)

lemma demo_options [simp]:
  "\<not> opt_skip_memory_read (EntryOptions_new 500)" "\<not> opt_skip_memory_write (EntryOptions_new 500)" "\<not> opt_skip_distributed_read (EntryOptions_new 500)"
  "\<not> opt_is_fail_safe_enabled (EntryOptions_new 500)" "opt_skip_distributed_locker (EntryOptions_new 500) = False"
  "opt_distributed_hard_timeout (EntryOptions_new 500) = Infinite" "opt_eager_refresh_threshold (EntryOptions_new 500) = None"
  "memory_lock_timeout (EntryOptions_new 500) = Infinite" "opt_rethrow_distributed_exceptions (EntryOptions_new 500) = False"
  by (simp_all add: option_defs)

lemma demo_read: "snd (worker_read demo_cache (quiet_read 105) ''k'' (EntryOptions_new 500) demo_worker) = Inr (Some 7, OutHit, Some MemoryLevel)"
  by (simp add: worker_read_def read_l1_def demo_store_read demo_read_defs read_hit_def copy_plain [OF demo_plain(1)])

theorem read_serves_valid_witness:
  "\<exists>e. from_memory demo_cache (quiet_read 105) ''k'' (EntryOptions_new 500) demo_worker e
    \<and> valid_fresh demo_cache 105 e (l1_judged demo_cache (quiet_read 105) ''k'' (EntryOptions_new 500) demo_worker)"
proof -
  obtain w' where "worker_read demo_cache (quiet_read 105) ''k'' (EntryOptions_new 500) demo_worker = (w', Inr (Some 7, OutHit, Some MemoryLevel))"
    using demo_read by (metis prod.collapse)
  from read_serves_valid [OF this] show ?thesis by (auto simp: quiet_read_def)
qed

lemma demo_store_stale: "store_read ep 0 ''k'' (Some 120) (wk_memory demo_worker) =
    ((fst (ticket (wk_memory demo_worker)))\<lparr>rt_entries := [(''k'', demo_stored\<lparr>st_access := 1\<rparr>)]\<rparr>, Some \<lparr>arc_addr = 1, arc_entry = sample_entry\<rparr>)"
  by (simp add: store_read_def retention_get_def demo_worker_def demo_stored_def stored_retirement_reason_def is_read_eligible_def sample_fields
      is_physically_expired_def is_before_def ticket_def Let_def new_worker_def Retention_new_def saturating_add_u128_def)


definition demo_origin :: "nat origin_env" where
  "demo_origin = \<lparr>oe_work = (\<lambda>w. w), oe_result = Inl (ErrFactory ''boom''), oe_late = False, oe_capture = None\<rparr>"

theorem failing_origin_served_stale_witness:
  "\<exists>w'. compute_origin demo_cache (quiet_read 120) 0 demo_origin ''k'' ((EntryOptions_new 500)\<lparr>opt_is_fail_safe_enabled := True\<rparr>)
      FactoryKind (Some sample_entry) None demo_worker = (w', Inr (7, OutStaleHit, Some MemoryLevel))"
proof -
  let ?opts = "(EntryOptions_new 500)\<lparr>opt_is_fail_safe_enabled := True\<rparr>"
  have f: "origin_fails demo_origin ?opts FactoryKind True" by (simp add: origin_fails_def demo_origin_def Let_def)
  have s: "fallback_state demo_origin ''k'' ?opts FactoryKind True demo_worker = demo_worker"
    by (simp add: fallback_state_def demo_origin_def Let_def)
  have "weight_ok (wk_memory demo_worker)"
    by (simp add: weight_ok_def demo_worker_def demo_stored_def new_worker_def Retention_new_def hm_ok_def arc_weight_def sample_entry_def
        FreshPlan_prepare_def meta_size_def Let_def)
  moreover have "is_read_eligible (wk_ep demo_worker) sample_entry" "\<not> is_physically_expired (re_now (quiet_read 120) 0) sample_entry"
    by (simp_all add: demo_read_defs)
  ultimately show ?thesis
    using failing_origin_served_stale [OF demo_plain(2) _ f s [symmetric], of sample_entry "quiet_read 120" 0 demo_worker demo_cache None]
    by (auto simp: quiet_read_def option_defs sample_fields)
qed

definition demo_found :: "nat distributed_lookup" where
  "demo_found = \<lparr>dl_entry = sample_entry, dl_hydration = StableFence \<lparr>lf_generation = 0, lf_captured_epoch = 0\<rparr> None, dl_observed_at = 105\<rparr>"

abbreviation demo_hydrated :: "nat worker \<times> (cache_error + hydration_outcome)" where
  "demo_hydrated \<equiv> hydrate demo_cache (quiet_read 105) 0 ''k'' demo_found (EntryOptions_new 500) new_worker"

lemma demo_hydrated_lookup: "lookup (wk_memory (fst demo_hydrated)) ''k'' \<noteq> None" "snd demo_hydrated = Inr (HydrationEvaluated Admitted)"
proof -
  obtain md where md: "prepare_memory_hydration (\<lambda>_. 0) (EntryOptions_new 500) 105 sample_entry = Inr (Some md)"
    "md_physical_expiration md > 105" "md_inserted_at md = 105"
    using demo_plain(1)
    by (auto simp: prepare_memory_hydration_def plain_options_def demo_read_defs saturating_add_eq machine_defs resolved_memory_duration_def physical_ttl_def option_defs)
  have h: "demo_hydrated = (case insert_if_unchanged (quiet_read 105) (0 + 2) ''k'' None
      (hydration_with_hydrated_value 7 (ContinuityStamp_new 0 0) md) new_worker of (w, admission) \<Rightarrow> (w, Inr (HydrationEvaluated admission)))"
    using md(1) by (simp add: hydrate_def demo_found_def demo_read_defs new_worker_def passive_is_current_def lane_fence_current_def worker_lane_def
        KeyLane_new_def superseded_by_observed_def copy_plain [OF demo_plain(1)])
  show "lookup (wk_memory (fst demo_hydrated)) ''k'' \<noteq> None" "snd demo_hydrated = Inr (HydrationEvaluated Admitted)"
    using md(2,3) unfolding h
    by (simp_all add: insert_if_unchanged_def insert_internal_def prepare_entry_def hydration_with_hydrated_value_def hydration_with_value_def
        quiet_read_def apply_write_def is_before_def new_worker_def Retention_new_def memory_eval lookup_def split: prod.splits)
qed

theorem hydration_respects_mutations_witness:
  "\<exists>a. lookup (wk_memory (fst demo_hydrated)) ''k'' = Some a \<and> md_created (en_meta (arc_entry a)) = 100 \<and> \<not> is_read_eligible (\<lambda>_. 1) (arc_entry a)"
proof -
  obtain a where a: "lookup (wk_memory (fst demo_hydrated)) ''k'' = Some a" using demo_hydrated_lookup(1) by blast
  have w: "re_wait (quiet_read 105) (0 + 1) (re_wait (quiet_read 105) 0 new_worker) = new_worker" by (simp add: quiet_read_def)
  have "weight_ok (wk_memory (new_worker :: nat worker))" by (simp add: weight_ok_def new_worker_def Retention_new_def hm_ok_def)
  moreover have "lookup (wk_memory (new_worker :: nat worker)) ''k'' \<noteq> Some a" by (simp add: lookup_def new_worker_def Retention_new_def)
  ultimately show ?thesis
    using hydration_respects_mutations [OF prod.collapse [symmetric, of demo_hydrated] w [symmetric]] a demo_hydrated_lookup(2)
    by (auto simp: demo_found_def sample_fields)
qed

definition demo_locks :: "nat lock_env" where
  "demo_locks = \<lparr>le_local = (\<lambda>_. Inr True), le_lease = None, le_eager = Inr False\<rparr>"

definition memory_only :: "nat cache_config" where
  "memory_only = demo_cache\<lparr>cc_hybrid := False\<rparr>"

theorem origin_runs_only_on_miss_witness:
  "\<exists>w' guard. lookup_origin memory_only (quiet_read 105) demo_locks ''k'' (EntryOptions_new 500) FactoryKind False None new_worker
      = (w', Inr (LookupOrigin None guard)) \<and> fg_local guard = LocalHeld"
proof -
  have "\<exists>w' guard. lookup_origin memory_only (quiet_read 105) demo_locks ''k'' (EntryOptions_new 500) FactoryKind False None new_worker
      = (w', Inr (LookupOrigin None guard))"
    by (simp add: lookup_origin_def lookup_miss_def lookup_owned_def lookup_distributed_def read_l1_def read_l2_def acquire_lock_def acquire_lease_def
        store_read_def retention_get_def memory_only_def demo_cache_def quiet_read_def demo_locks_def ensure_health_def new_worker_def Retention_new_def Let_def)
  then obtain w' guard where l: "lookup_origin memory_only (quiet_read 105) demo_locks ''k'' (EntryOptions_new 500) FactoryKind False None new_worker
      = (w', Inr (LookupOrigin None guard))" by blast
  from origin_runs_only_on_miss [OF l refl refl] have "fg_local guard = LocalHeld" by (simp add: demo_locks_def)
  with l show ?thesis by blast
qed

end
