(* ===== verification/Amalgam_Leases.thy ===== *)
theory Amalgam_Leases
  imports Amalgam_Distributed
begin

text \<open>
  Token-owned leases, \<open>src/distributed_lock.rs\<close>: lifetimes and tokens, the in-process lease
  authority with acquisition, renewal, release and fenced work, the waiting loop of an
  acquisition, and the state machine of a held lease with its renewal task. Readings of the clock
  and of the monotonic clock are arguments. The lemmas show that a lease cannot be taken over
  before it expires, that a token that lost its lease can do nothing until it acquires again, that
  the waiting loop ends within its budget, and that a lost or released lease never proves
  ownership again.
\<close>

section \<open>Lifetimes and tokens\<close>

datatype lease_ttl = LeaseTtl (lease_duration: duration)

definition LeaseTtl_new :: "duration \<Rightarrow> lease_error + lease_ttl" where
  "LeaseTtl_new d = (if d = 0 \<or> int (d div 1000000) > i64_max then Inl InvalidTtl else Inr (LeaseTtl d))"

definition lease_millis :: "lease_ttl \<Rightarrow> nat" where
  "lease_millis ttl = min ((lease_duration ttl + 999999) div 1000000) (nat i64_max)"

datatype lease_token = LeaseToken (token_as_str: string)

definition LeaseToken_new :: "string \<Rightarrow> lease_error + lease_token" where
  "LeaseToken_new t = (if blank t then Inl InvalidToken else Inr (LeaseToken t))"

text \<open>The random token of two 64-bit samples in hexadecimal.\<close>

definition LeaseToken_random :: "nat \<Rightarrow> nat \<Rightarrow> lease_token" where
  "LeaseToken_random a b = LeaseToken (hex_fixed 16 a @ hex_fixed 16 b)"

datatype lease_support = OpaqueLegacy | HeldUntilRelease | FixedTtl | Renewable

datatype token_acquisition = BackendSelected | CallerSelected

datatype renewal_outcome = Renewed | RenewalLost | RenewalUnsupported

datatype ownership_check = OwnershipHeld | OwnershipLost | OwnershipUnknown

section \<open>The in-process authority\<close>

record held =
  held_token :: lease_token
  held_expires_at :: timestamp

type_synonym lease_table = "(string, held) hmap"

definition try_once :: "string \<Rightarrow> lease_token \<Rightarrow> lease_ttl \<Rightarrow> timestamp \<Rightarrow> lease_table \<Rightarrow> lease_table \<times> bool" where
  "try_once key token ttl now locks =
     (if (case hm_get locks key of None \<Rightarrow> False | Some h \<Rightarrow> now < held_expires_at h) then (locks, False)
      else (hm_insert key \<lparr>held_token = token, held_expires_at = saturating_add now (lease_duration ttl)\<rparr> locks, True))"

definition while_held :: "string \<Rightarrow> lease_token \<Rightarrow> timestamp \<Rightarrow> lease_table \<Rightarrow> bool" where
  "while_held key token now locks = (case hm_get locks key of
     None \<Rightarrow> False
   | Some h \<Rightarrow> held_token h = token \<and> now < held_expires_at h)"

definition held_count :: "timestamp \<Rightarrow> lease_table \<Rightarrow> lease_table \<times> nat" where
  "held_count now locks = (let locks = hm_retain (\<lambda>k h. now < held_expires_at h) locks in (locks, length locks))"

definition lease_release :: "string \<Rightarrow> string \<Rightarrow> lease_table \<Rightarrow> lease_table" where
  "lease_release key token locks = (case hm_get locks key of
     None \<Rightarrow> locks
   | Some h \<Rightarrow> if token_as_str (held_token h) = token then hm_remove key locks else locks)"

definition lease_renew ::
  "string \<Rightarrow> lease_token \<Rightarrow> lease_ttl \<Rightarrow> timestamp \<Rightarrow> lease_table \<Rightarrow> lease_table \<times> renewal_outcome" where
  "lease_renew key token ttl now locks = (case hm_get locks key of
     Some h \<Rightarrow>
       if held_token h = token \<and> now < held_expires_at h
       then (hm_insert key (h\<lparr>held_expires_at := saturating_add now (lease_duration ttl)\<rparr>) locks, Renewed)
       else (locks, RenewalLost)
   | None \<Rightarrow> (locks, RenewalLost))"

definition memory_ownership_check :: "string \<Rightarrow> lease_token \<Rightarrow> timestamp \<Rightarrow> lease_table \<Rightarrow> ownership_check" where
  "memory_ownership_check key token now locks =
     (if while_held key token now locks then OwnershipHeld else OwnershipLost)"

datatype proof_authority = MemoryAuthority | BackendAtomic

record lease_proof =
  proof_key :: string
  proof_token :: lease_token
  proof_authority :: proof_authority

text \<open>Work that runs only while the proof's token holds the key, under the table's mutex.\<close>

definition with_memory_ownership ::
  "lease_proof \<Rightarrow> timestamp \<Rightarrow> lease_table \<Rightarrow> ('s \<Rightarrow> 's \<times> 'r) \<Rightarrow> 's \<Rightarrow> 's \<times> (lease_error + 'r option)" where
  "with_memory_ownership pr now locks operation s = (case proof_authority pr of
     MemoryAuthority \<Rightarrow>
       if while_held (proof_key pr) (proof_token pr) now locks
       then (case operation s of (s', r) \<Rightarrow> (s', Inr (Some r)))
       else (s, Inr None)
   | BackendAtomic \<Rightarrow> (s, Inl UnsupportedFencing))"

section \<open>Waiting for a lease\<close>

record wait_budget =
  wb_deadline :: "instant option"
  wb_immediate :: bool

definition WaitBudget_new :: "timeout \<Rightarrow> instant \<Rightarrow> lease_error + wait_budget" where
  "WaitBudget_new t now = (case t of
     Infinite \<Rightarrow> Inr \<lparr>wb_deadline = None, wb_immediate = False\<rparr>
   | After d \<Rightarrow> (case instant_checked_add now d of
       None \<Rightarrow> Inl InvalidDeadline
     | Some deadline \<Rightarrow> Inr \<lparr>wb_deadline = Some deadline, wb_immediate = (d = 0)\<rparr>))"

definition budget_exhausted :: "wait_budget \<Rightarrow> instant \<Rightarrow> bool" where
  "budget_exhausted b now = (case wb_deadline b of None \<Rightarrow> False | Some deadline \<Rightarrow> now \<ge> deadline)"

definition budget_remaining :: "wait_budget \<Rightarrow> instant \<Rightarrow> duration option" where
  "budget_remaining b now = map_option (\<lambda>deadline. deadline - now) (wb_deadline b)"

definition pause_for :: "wait_budget \<Rightarrow> duration \<Rightarrow> instant \<Rightarrow> duration" where
  "pause_for b interval now = (case budget_remaining b now of None \<Rightarrow> interval | Some r \<Rightarrow> min r interval)"

text \<open>
  What one run of the acquisition loop meets: the monotonic readings at the head of each round, at
  the attempt and after it, the clock reading of the attempt, and what others do to the table
  during the pause.
\<close>

record acquire_env =
  ae_head :: "nat \<Rightarrow> instant"
  ae_started :: "nat \<Rightarrow> instant"
  ae_now :: "nat \<Rightarrow> timestamp"
  ae_after :: "nat \<Rightarrow> instant"
  ae_others :: "nat \<Rightarrow> lease_table \<Rightarrow> lease_table"

fun acquire_loop ::
  "nat \<Rightarrow> acquire_env \<Rightarrow> wait_budget \<Rightarrow> string \<Rightarrow> lease_token \<Rightarrow> lease_ttl \<Rightarrow> nat \<Rightarrow> bool \<Rightarrow> lease_table
     \<Rightarrow> (lease_table \<times> instant option) option" where
  "acquire_loop 0 env b key token ttl i first locks = None"
| "acquire_loop (Suc fuel) env b key token ttl i first locks =
     (if budget_exhausted b (ae_head env i) \<and> \<not> (first \<and> wb_immediate b) then Some (locks, None)
      else case try_once key token ttl (ae_now env i) locks of
        (locks', True) \<Rightarrow> Some (locks', Some (ae_started env i))
      | (locks', False) \<Rightarrow>
          if budget_exhausted b (ae_after env i) then Some (locks', None)
          else acquire_loop fuel env b key token ttl (Suc i) False (ae_others env i locks'))"

definition memory_acquire_receipt ::
  "nat \<Rightarrow> acquire_env \<Rightarrow> instant \<Rightarrow> string \<Rightarrow> lease_token \<Rightarrow> lease_ttl \<Rightarrow> timeout \<Rightarrow> lease_table
     \<Rightarrow> (lease_error + lease_table \<times> instant option) option" where
  "memory_acquire_receipt fuel env now key token ttl t locks = (case WaitBudget_new t now of
     Inl er \<Rightarrow> Some (Inl er)
   | Inr b \<Rightarrow> map_option Inr (acquire_loop fuel env b key token ttl 0 True locks))"

section \<open>A held lease\<close>

datatype lease_state = LeaseHeld | LeaseStateLost | LeaseReleased

record lease_inner =
  li_support :: lease_support
  li_ttl :: lease_ttl
  li_state :: lease_state
  li_valid_until :: "instant option"
  li_renewal :: "instant option option"

text \<open>
  \<open>li_renewal\<close> is the renewal task: \<open>None\<close> when there is none or it ended, \<open>Some None\<close> while it
  sleeps, \<open>Some (Some t)\<close> while a renewal that started at \<open>t\<close> is under way.
\<close>

definition DistributedLease_new :: "lease_support \<Rightarrow> lease_ttl \<Rightarrow> instant \<Rightarrow> lease_inner" where
  "DistributedLease_new support ttl started =
     \<lparr>li_support = support, li_ttl = ttl, li_state = LeaseHeld,
      li_valid_until = (case support of
         HeldUntilRelease \<Rightarrow> None | OpaqueLegacy \<Rightarrow> None
       | FixedTtl \<Rightarrow> instant_checked_add started (lease_duration ttl)
       | Renewable \<Rightarrow> instant_checked_add started (lease_duration ttl)),
      li_renewal = (if support = Renewable then Some None else None)\<rparr>"

definition ownership_is_locally_valid :: "ownership_check \<Rightarrow> instant \<Rightarrow> lease_inner \<Rightarrow> bool" where
  "ownership_is_locally_valid check now l = (case check of
     OwnershipHeld \<Rightarrow> True
   | OwnershipLost \<Rightarrow> False
   | OwnershipUnknown \<Rightarrow> (case li_support l of
       HeldUntilRelease \<Rightarrow> True
     | OpaqueLegacy \<Rightarrow> False
     | _ \<Rightarrow> (case li_valid_until l of None \<Rightarrow> False | Some deadline \<Rightarrow> now < deadline)))"

text \<open>The renewal task wakes: it ends on a lease that is no longer held or valid, else it asks the backend.\<close>

definition renewal_begin :: "ownership_check \<Rightarrow> instant \<Rightarrow> lease_inner \<Rightarrow> lease_inner" where
  "renewal_begin check now l =
     (if li_renewal l \<noteq> Some None then l
      else if li_state l \<noteq> LeaseHeld then l\<lparr>li_renewal := None\<rparr>
      else if \<not> ownership_is_locally_valid check now l then l\<lparr>li_state := LeaseStateLost, li_renewal := None\<rparr>
      else l\<lparr>li_renewal := Some (Some now)\<rparr>)"

text \<open>The renewal answered; \<open>None\<close> stands for an error or the timeout of the request.\<close>

definition renewal_end :: "renewal_outcome option \<Rightarrow> ownership_check \<Rightarrow> instant \<Rightarrow> lease_inner \<Rightarrow> lease_inner" where
  "renewal_end outcome check now l = (case li_renewal l of
     Some (Some started) \<Rightarrow>
       (case outcome of
          Some Renewed \<Rightarrow>
            if li_state l \<noteq> LeaseHeld \<or> \<not> ownership_is_locally_valid check now l
            then l\<lparr>li_state := LeaseStateLost, li_renewal := None\<rparr>
            else l\<lparr>li_valid_until := instant_checked_add started (lease_duration (li_ttl l)), li_renewal := Some None\<rparr>
        | _ \<Rightarrow> l\<lparr>li_state := LeaseStateLost, li_renewal := None\<rparr>)
   | _ \<Rightarrow> l)"

text \<open>A proof is issued for the lease's own key and token, which the inner state never changes.\<close>

definition lease_prove :: "ownership_check \<Rightarrow> instant \<Rightarrow> lease_inner \<Rightarrow> lease_inner \<times> (lease_error + unit)" where
  "lease_prove check now l =
     (if li_state l \<noteq> LeaseHeld then (l, Inl LeaseLost)
      else if li_support l = OpaqueLegacy then (l, Inl OpaqueLifetime)
      else if \<not> ownership_is_locally_valid check now l then (l\<lparr>li_state := LeaseStateLost\<rparr>, Inl LeaseLost)
      else (l, Inr ()))"

definition stop_renewal :: "lease_inner \<Rightarrow> lease_inner" where
  "stop_renewal l = l\<lparr>li_state := LeaseReleased, li_renewal := None\<rparr>"

text \<open>The checks of an owned acquisition before its worker starts.\<close>

datatype acquisition_policy = TokenOwned | LegacyBackendContract

definition acquire_owned_precheck ::
  "bool \<Rightarrow> lease_support \<Rightarrow> token_acquisition \<Rightarrow> lease_ttl \<Rightarrow> instant \<Rightarrow> timeout \<Rightarrow> acquisition_policy
     \<Rightarrow> lease_error + wait_budget" where
  "acquire_owned_precheck runtime support tokens ttl now t policy =
     (if \<not> runtime then Inl LeaseMissingRuntime
      else if support \<in> {FixedTtl, Renewable} \<and> instant_checked_add now (lease_duration ttl) = None then Inl InvalidDeadline
      else if policy = TokenOwned \<and> tokens \<noteq> CallerSelected then Inl UnsupportedTokenAcquisition
      else WaitBudget_new t now)"

text \<open>The marker lease of \<open>src/marker_leases.rs\<close>.\<close>

datatype marker_lease = Unleased | FencedLease lease_inner | CooperativeLease lease_inner

fun marker_lease_is_held :: "marker_lease \<Rightarrow> bool" where
  "marker_lease_is_held Unleased = False"
| "marker_lease_is_held _ = True"

fun marker_lease_proof :: "ownership_check \<Rightarrow> instant \<Rightarrow> marker_lease \<Rightarrow> marker_lease \<times> (lease_error + unit option)" where
  "marker_lease_proof check now Unleased = (Unleased, Inr None)"
| "marker_lease_proof check now (FencedLease l) = (case lease_prove check now l of
     (l', Inl er) \<Rightarrow> (FencedLease l', Inl er)
   | (l', Inr u) \<Rightarrow> (FencedLease l', Inr (Some u)))"
| "marker_lease_proof check now (CooperativeLease l) =
     (CooperativeLease l, case li_state l of LeaseHeld \<Rightarrow> Inr None | _ \<Rightarrow> Inl LeaseLost)"

section \<open>Tokens and the table\<close>

datatype lease_op =
    OpTry string lease_token lease_ttl timestamp
  | OpRelease string string
  | OpRenew string lease_token lease_ttl timestamp
  | OpCount timestamp

fun lease_step :: "lease_table \<Rightarrow> lease_op \<Rightarrow> lease_table" where
  "lease_step locks (OpTry key token ttl now) = fst (try_once key token ttl now locks)"
| "lease_step locks (OpRelease key token) = lease_release key token locks"
| "lease_step locks (OpRenew key token ttl now) = fst (lease_renew key token ttl now locks)"
| "lease_step locks (OpCount now) = fst (held_count now locks)"

lemmas lease_defs = try_once_def lease_release_def lease_renew_def held_count_def while_held_def Let_def

definition not_holder :: "string \<Rightarrow> lease_token \<Rightarrow> lease_table \<Rightarrow> bool" where
  "not_holder key token locks \<longleftrightarrow> hm_ok locks \<and> (case hm_get locks key of None \<Rightarrow> True | Some h \<Rightarrow> held_token h \<noteq> token)"

fun acquires :: "string \<Rightarrow> lease_token \<Rightarrow> lease_op \<Rightarrow> bool" where
  "acquires key token (OpTry k b ttl now) = (k = key \<and> b = token)"
| "acquires key token op = False"

lemma hm_ok_lease_step: "hm_ok locks \<Longrightarrow> hm_ok (lease_step locks op)"
  by (cases op) (auto simp: lease_defs split: option.splits)

lemma not_holder_step:
  assumes "not_holder key token locks" and "\<not> acquires key token op"
  shows "not_holder key token (lease_step locks op)"
proof -
  have ok: "hm_ok (lease_step locks op)" using assms(1) hm_ok_lease_step by (auto simp: not_holder_def)
  have "held_token h \<noteq> token" if "hm_get (lease_step locks op) key = Some h" for h
    using assms that by (cases op) (auto simp: not_holder_def lease_defs hmap_simps split: option.splits if_splits)
  then show ?thesis using ok by (auto simp: not_holder_def split: option.splits)
qed

lemma not_holder_run:
  "not_holder key token locks \<Longrightarrow> list_all (\<lambda>op. \<not> acquires key token op) ops \<Longrightarrow>
     not_holder key token (foldl lease_step locks ops)"
  by (induction ops arbitrary: locks) (simp_all add: not_holder_step)

lemma try_once_True:
  "try_once key token ttl now locks = (locks', True) \<Longrightarrow>
     hm_get locks' key = Some \<lparr>held_token = token, held_expires_at = saturating_add now (lease_duration ttl)\<rparr>
     \<and> (case hm_get locks key of None \<Rightarrow> True | Some h \<Rightarrow> held_expires_at h \<le> now)"
  by (auto simp: try_once_def hmap_simps split: option.splits if_splits)

text \<open>
  Fencing: from the moment another token has acquired the key, a former holder is shut out.
  Whatever acquisitions, releases, renewals and sweeps follow, at every clock reading its ownership
  check fails, its renewal is refused without effect, and work guarded by its proof does
  not run and changes nothing, until that token itself acquires the key again.
\<close>

theorem former_holder_fenced_out:
  assumes "hm_ok locks" and "try_once key b ttl now locks = (locks', True)" and "a \<noteq> b"
    and "list_all (\<lambda>op. \<not> acquires key a op) ops"
    and "final = foldl lease_step locks' ops"
  shows "\<not> while_held key a t final \<and> memory_ownership_check key a t final = OwnershipLost
    \<and> lease_renew key a ttl' t final = (final, RenewalLost)
    \<and> with_memory_ownership \<lparr>proof_key = key, proof_token = a, proof_authority = MemoryAuthority\<rparr> t final operation s
        = (s, Inr None)"
proof -
  have "hm_ok locks'" using assms(1,2) hm_ok_lease_step [of locks "OpTry key b ttl now"] by simp
  then have "not_holder key a locks'" using try_once_True [OF assms(2)] assms(3) by (simp add: not_holder_def)
  then have nh: "not_holder key a final" using not_holder_run assms(4,5) by simp
  then have "\<not> while_held key a t final" by (auto simp: not_holder_def while_held_def split: option.splits)
  then show ?thesis using nh
    by (auto simp: memory_ownership_check_def with_memory_ownership_def not_holder_def lease_renew_def split: option.splits)
qed

theorem former_holder_fenced_out_witness:
  "\<not> while_held ''k'' (LeaseToken ''a'') 5
     (foldl lease_step (fst (try_once ''k'' (LeaseToken ''b'') (LeaseTtl 1000) 4 [])) [OpRelease ''k'' ''a'', OpCount 6])"
  by (rule former_holder_fenced_out [of "[]" "''k''" "LeaseToken ''b''" "LeaseTtl 1000" 4
      "fst (try_once ''k'' (LeaseToken ''b'') (LeaseTtl 1000) 4 [])" "LeaseToken ''a''" "[OpRelease ''k'' ''a'', OpCount 6]"
      _ 5, THEN conjunct1]) (simp_all add: try_once_def)

text \<open>
  The operations that leave a holder alone up to a moment \<open>e\<close>: clock readings before \<open>e\<close>, no
  release with its token, and renewals of its own that reach \<open>e\<close> again.
\<close>

fun leaves_alone :: "string \<Rightarrow> lease_token \<Rightarrow> timestamp \<Rightarrow> lease_op \<Rightarrow> bool" where
  "leaves_alone key token e (OpTry k b ttl now) = (k = key \<longrightarrow> now < e)"
| "leaves_alone key token e (OpRelease k b) = (k = key \<longrightarrow> b \<noteq> token_as_str token)"
| "leaves_alone key token e (OpRenew k b ttl now) = (k = key \<and> b = token \<longrightarrow> e \<le> saturating_add now (lease_duration ttl))"
| "leaves_alone key token e (OpCount now) = (now < e)"

definition holds_until :: "string \<Rightarrow> lease_token \<Rightarrow> timestamp \<Rightarrow> lease_table \<Rightarrow> bool" where
  "holds_until key token e locks \<longleftrightarrow> hm_ok locks
     \<and> (case hm_get locks key of None \<Rightarrow> False | Some h \<Rightarrow> held_token h = token \<and> e \<le> held_expires_at h)"

lemma holds_until_step:
  assumes "holds_until key token e locks" and "leaves_alone key token e op"
  shows "holds_until key token e (lease_step locks op)"
proof -
  obtain h where h: "hm_ok locks" "hm_get locks key = Some h" "held_token h = token" "e \<le> held_expires_at h"
    using assms(1) by (auto simp: holds_until_def split: option.splits)
  have ok: "hm_ok (lease_step locks op)" using h(1) hm_ok_lease_step by blast
  have "\<exists>h'. hm_get (lease_step locks op) key = Some h' \<and> held_token h' = token \<and> e \<le> held_expires_at h'"
  proof (cases op)
    case (OpTry k b ttl now)
    then show ?thesis using h assms(2) by (cases "k = key") (auto simp: try_once_def hmap_simps split: option.splits)
  next
    case (OpRelease k b)
    then show ?thesis using h assms(2) by (cases "k = key") (auto simp: lease_release_def hmap_simps split: option.splits)
  next
    case (OpRenew k b ttl now)
    then show ?thesis using h assms(2) by (cases "k = key") (auto simp: lease_renew_def hmap_simps split: option.splits)
  next
    case (OpCount now)
    then show ?thesis using h assms(2) by (auto simp: held_count_def hmap_simps Let_def)
  qed
  with ok show ?thesis by (auto simp: holds_until_def)
qed

lemma holds_until_run:
  "holds_until key token e locks \<Longrightarrow> list_all (leaves_alone key token e) ops \<Longrightarrow>
     holds_until key token e (foldl lease_step locks ops)"
  by (induction ops arbitrary: locks) (simp_all add: holds_until_step)

text \<open>
  A lease is not taken over early: once a token has acquired a key, then at every clock reading
  before its expiry it still holds the key and every other token is refused, whatever
  acquisitions, releases by other tokens, renewals and sweeps happened with earlier readings.
\<close>

theorem lease_not_taken_over:
  assumes "hm_ok locks" and "try_once key token ttl now locks = (locks', True)"
    and "e = saturating_add now (lease_duration ttl)" and "list_all (leaves_alone key token e) ops"
    and "final = foldl lease_step locks' ops" and "t < e"
  shows "while_held key token t final \<and> try_once key b ttl' t final = (final, False)"
proof -
  have "hm_ok locks'" using assms(1,2) hm_ok_lease_step [of locks "OpTry key token ttl now"] by simp
  then have "holds_until key token e locks'" using try_once_True [OF assms(2)] assms(3) by (simp add: holds_until_def)
  then have "holds_until key token e final" using holds_until_run assms(4,5) by simp
  then show ?thesis using assms(6) by (auto simp: holds_until_def while_held_def try_once_def split: option.splits)
qed

theorem lease_not_taken_over_witness:
  "while_held ''k'' (LeaseToken ''a'') 9
     (foldl lease_step (fst (try_once ''k'' (LeaseToken ''a'') (LeaseTtl 1000) 4 []))
        [OpTry ''k'' (LeaseToken ''b'') (LeaseTtl 50) 7, OpRelease ''k'' ''b''])"
  by (rule lease_not_taken_over [of "[]" "''k''" "LeaseToken ''a''" "LeaseTtl 1000" 4
      "fst (try_once ''k'' (LeaseToken ''a'') (LeaseTtl 1000) 4 [])" 14
      "[OpTry ''k'' (LeaseToken ''b'') (LeaseTtl 50) 7, OpRelease ''k'' ''b'']" _ 9, THEN conjunct1])
    (simp_all add: try_once_def saturating_add_eq in_i64_def)

section \<open>The waiting loop\<close>

text \<open>
  The monotonic clock does not run backwards and a pause lasts at least as long as requested.
\<close>

definition paced :: "acquire_env \<Rightarrow> wait_budget \<Rightarrow> instant \<Rightarrow> bool" where
  "paced env b now \<longleftrightarrow> now \<le> ae_head env 0 \<and> (\<forall>i. ae_head env i \<le> ae_after env i)
     \<and> (\<forall>i. ae_after env i + pause_for b 10000000 (ae_after env i) \<le> ae_head env (Suc i))"

lemma paced_head:
  assumes "paced env b now" and "wb_deadline b = Some deadline"
  shows "min deadline (now + i * 10000000) \<le> ae_head env i"
proof (induction i)
  case 0
  then show ?case using assms(1) by (simp add: paced_def min.coboundedI2)
next
  case (Suc i)
  have "ae_head env i \<le> ae_after env i" "ae_after env i + pause_for b 10000000 (ae_after env i) \<le> ae_head env (Suc i)"
    using assms(1) by (simp_all add: paced_def)
  then show ?case using Suc assms(2) by (auto simp: pause_for_def budget_remaining_def min_def split: if_splits)
qed

lemma acquire_loop_ends:
  assumes "paced env b now" and "wb_deadline b = Some deadline" and "deadline \<le> now + n * 10000000" and "0 < i"
  shows "n + 1 \<le> fuel + i \<Longrightarrow> 0 < fuel \<Longrightarrow> \<exists>r. acquire_loop fuel env b key token ttl i False locks = Some r"
  using assms(4)
proof (induction fuel arbitrary: i locks)
  case (Suc fuel)
  show ?case
  proof (cases "budget_exhausted b (ae_head env i)")
    case False
    then have "ae_head env i < deadline" using assms(2) by (simp add: budget_exhausted_def)
    then have "now + i * 10000000 < deadline" using paced_head [OF assms(1,2), of i] by (auto simp: min_def split: if_splits)
    then have "i < n" using assms(3) by auto
    then have f: "0 < fuel" using Suc.prems by simp
    then have "\<exists>r. acquire_loop fuel env b key token ttl (Suc i) False l = Some r" for l
      using Suc.IH [of "Suc i" l] Suc.prems by simp
    then show ?thesis by (simp split: prod.splits bool.splits)
  qed simp
qed simp

text \<open>
  C36. The waiting acquisition ends: with a finite timeout, a monotonic clock and pauses that last as
  long as requested, the loop returns within one round per ten milliseconds of the timeout and two
  more, whatever the other users of the table do; with a timeout of zero it makes exactly one
  attempt. A reported lease is one that the loop acquired at that attempt.
\<close>

theorem lease_wait_terminates:
  assumes "WaitBudget_new (After d) now = Inr b" and "paced env b now"
    and "fuel = d div 10000000 + 3"
  shows "(\<exists>locks' r. memory_acquire_receipt fuel env now key token ttl (After d) locks = Some (Inr (locks', r)))
    \<and> (d = 0 \<longrightarrow> memory_acquire_receipt fuel env now key token ttl (After d) locks =
         (case try_once key token ttl (ae_now env 0) locks of
            (l, True) \<Rightarrow> Some (Inr (l, Some (ae_started env 0))) | (l, False) \<Rightarrow> Some (Inr (l, None))))"
proof -
  have b: "wb_deadline b = Some (now + d)" "wb_immediate b = (d = 0)"
    using assms(1) by (auto simp: WaitBudget_new_def instant_checked_add_def split: if_splits)
  let ?n = "d div 10000000 + 1"
  have n: "now + d \<le> now + ?n * 10000000" using div_mult_mod_eq [of d 10000000] mod_less_divisor [of 10000000 d] by simp
  have later: "\<exists>r. acquire_loop (Suc ?n) env b key token ttl (Suc 0) False l = Some r" for l
    by (rule acquire_loop_ends [OF assms(2) b(1) n]) simp_all
  have fuel: "fuel = Suc (Suc ?n)" using assms(3) by simp
  have "\<exists>r. acquire_loop fuel env b key token ttl 0 True locks = Some r"
    unfolding fuel acquire_loop.simps(2) [where fuel = "Suc ?n"] using later
    by (auto simp del: acquire_loop.simps split: prod.splits bool.splits if_splits)
  then have one: "\<exists>locks' r. memory_acquire_receipt fuel env now key token ttl (After d) locks = Some (Inr (locks', r))"
    using assms(1) by (auto simp: memory_acquire_receipt_def)
  have exh: "budget_exhausted b (ae_after env 0)" if "d = 0"
    using assms(2) b(1) that le_trans [of now "ae_head env 0" "ae_after env 0"] by (simp add: paced_def budget_exhausted_def)
  have "d = 0 \<longrightarrow> memory_acquire_receipt fuel env now key token ttl (After d) locks =
         (case try_once key token ttl (ae_now env 0) locks of
            (l, True) \<Rightarrow> Some (Inr (l, Some (ae_started env 0))) | (l, False) \<Rightarrow> Some (Inr (l, None)))"
    unfolding fuel memory_acquire_receipt_def assms(1) acquire_loop.simps(2) [where fuel = "Suc ?n"]
    using exh b(2) by (auto simp del: acquire_loop.simps split: prod.splits bool.splits)
  with one show ?thesis by blast
qed

theorem lease_wait_terminates_witness:
  "\<exists>locks' r. memory_acquire_receipt 4
     \<lparr>ae_head = (\<lambda>i. i * 10000000), ae_started = (\<lambda>i. i * 10000000), ae_now = int, ae_after = (\<lambda>i. i * 10000000),
      ae_others = (\<lambda>i l. l)\<rparr> 0 ''k'' (LeaseToken ''a'') (LeaseTtl 100) (After 10000000) [] = Some (Inr (locks', r))"
  by (rule lease_wait_terminates [where b = "\<lparr>wb_deadline = Some 10000000, wb_immediate = False\<rparr>", THEN conjunct1])
    (simp_all add: WaitBudget_new_def instant_checked_add_def paced_def pause_for_def budget_remaining_def)

section \<open>The life of a held lease\<close>

datatype lease_event =
    RenewalBegin ownership_check instant
  | RenewalEnd "renewal_outcome option" ownership_check instant
  | Prove ownership_check instant
  | StopRenewal

fun lease_event_step :: "lease_inner \<Rightarrow> lease_event \<Rightarrow> lease_inner" where
  "lease_event_step l (RenewalBegin check now) = renewal_begin check now l"
| "lease_event_step l (RenewalEnd outcome check now) = renewal_end outcome check now l"
| "lease_event_step l (Prove check now) = fst (lease_prove check now l)"
| "lease_event_step l StopRenewal = stop_renewal l"

definition lease_dead :: "lease_inner \<Rightarrow> bool" where
  "lease_dead l \<longleftrightarrow> li_state l \<noteq> LeaseHeld"

lemmas lease_life_defs = renewal_begin_def renewal_end_def lease_prove_def stop_renewal_def

interpretation dead_lease: invariant_machine lease_event_step lease_dead
proof
  fix l e assume "lease_dead l"
  then show "lease_dead (lease_event_step l e)"
    by (cases e) (auto simp: lease_dead_def lease_life_defs split: option.splits renewal_outcome.splits)
qed

text \<open>
  The latest moment up to which a request of this lease that started and succeeded reaches: the
  acquisition, and every renewal the backend confirmed.
\<close>

definition covered_window :: "instant list \<Rightarrow> lease_ttl \<Rightarrow> lease_inner \<Rightarrow> bool" where
  "covered_window starts ttl l \<longleftrightarrow> li_ttl l = ttl
     \<and> (case li_valid_until l of None \<Rightarrow> True | Some u \<Rightarrow> \<exists>t\<in>set starts. u = t + lease_duration ttl)"

text \<open>The start of the renewal that an event confirms, if any.\<close>

fun confirmed_start :: "lease_inner \<Rightarrow> lease_event \<Rightarrow> instant list" where
  "confirmed_start l (RenewalEnd (Some Renewed) check now) =
     (case li_renewal l of Some (Some started) \<Rightarrow> [started] | _ \<Rightarrow> [])"
| "confirmed_start l e = []"

fun confirmed_starts :: "lease_inner \<Rightarrow> lease_event list \<Rightarrow> instant list" where
  "confirmed_starts l [] = []"
| "confirmed_starts l (e # es) = confirmed_start l e @ confirmed_starts (lease_event_step l e) es"

lemma lease_support_step [simp]: "li_support (lease_event_step l e) = li_support l"
  by (cases e) (auto simp: lease_life_defs split: option.splits renewal_outcome.splits)

lemma lease_support_run [simp]: "li_support (foldl lease_event_step l es) = li_support l"
  by (induction es arbitrary: l) simp_all

lemma covered_window_step:
  assumes "covered_window starts ttl l"
  shows "covered_window (starts @ confirmed_start l e) ttl (lease_event_step l e)"
proof (cases e)
  case (RenewalEnd outcome check now)
  show ?thesis
  proof (cases "outcome = Some Renewed \<and> (\<exists>t. li_renewal l = Some (Some t))")
    case True
    then show ?thesis using assms RenewalEnd
      by (auto simp: renewal_end_def covered_window_def instant_checked_add_def split: option.splits)
  next
    case False
    then show ?thesis using assms RenewalEnd
      by (auto simp: renewal_end_def covered_window_def split: option.splits renewal_outcome.splits)
  qed
qed (use assms in \<open>auto simp: lease_life_defs covered_window_def split: option.splits\<close>)

lemma covered_window_run:
  "covered_window starts ttl l \<Longrightarrow> covered_window (starts @ confirmed_starts l es) ttl (foldl lease_event_step l es)"
proof (induction es arbitrary: starts l)
  case (Cons e es)
  then show ?case using Cons.IH [OF covered_window_step [OF Cons.prems, of e]] by simp
qed simp

text \<open>
  A lost or released lease stays so: after it, no sequence of renewals, proofs and
  releases yields a proof of ownership again. And where only the lifetime vouches for ownership, a
  proof is issued only within the lifetime counted from the start of a request the backend
  confirmed, the acquisition or a renewal.
\<close>

theorem lease_proofs_sound:
  assumes "es = before @ after" and "l = foldl lease_event_step (DistributedLease_new support ttl started) es"
    and "lease_prove check now l = (l', Inr u)"
  shows "li_state (foldl lease_event_step (DistributedLease_new support ttl started) before) = LeaseHeld
    \<and> (check = OwnershipUnknown \<and> support \<in> {FixedTtl, Renewable} \<longrightarrow>
         (\<exists>t \<in> set (started # confirmed_starts (DistributedLease_new support ttl started) es). now < t + lease_duration ttl))
    \<and> check \<noteq> OwnershipLost \<and> support \<noteq> OpaqueLegacy"
proof -
  let ?l0 = "DistributedLease_new support ttl started"
  have pr: "li_state l = LeaseHeld" "ownership_is_locally_valid check now l" "li_support l \<noteq> OpaqueLegacy"
    using assms(3) by (auto simp: lease_prove_def split: if_splits)
  have sup: "li_support l = support" using assms(2) by (simp add: DistributedLease_new_def)
  have "\<not> lease_dead (foldl lease_event_step ?l0 before)"
    using dead_lease.run_inv [of "foldl lease_event_step ?l0 before" after] pr(1) assms(1,2) by (auto simp: lease_dead_def)
  moreover have "covered_window [started] ttl ?l0"
    by (auto simp: covered_window_def DistributedLease_new_def instant_checked_add_def split: lease_support.splits option.splits)
  then have "covered_window ([started] @ confirmed_starts ?l0 es) ttl l" using covered_window_run assms(2) by blast
  then have "\<exists>t\<in>set (started # confirmed_starts ?l0 es). now < t + lease_duration ttl"
    if "check = OwnershipUnknown" "support \<in> {FixedTtl, Renewable}"
    using pr(2) sup that by (auto simp: ownership_is_locally_valid_def covered_window_def split: option.splits lease_support.splits)
  moreover have "check \<noteq> OwnershipLost" using pr(2) by (auto simp: ownership_is_locally_valid_def)
  ultimately show ?thesis using pr(3) sup by (auto simp: lease_dead_def)
qed

theorem lease_proofs_sound_witness:
  "li_state (foldl lease_event_step (DistributedLease_new Renewable (LeaseTtl 300) 0) [RenewalBegin OwnershipUnknown 100]) = LeaseHeld"
  by (rule lease_proofs_sound [where after = "[RenewalEnd (Some Renewed) OwnershipUnknown 120]" and check = OwnershipUnknown
        and now = 350 and u = "()", OF refl refl, THEN conjunct1])
    (simp add: lease_life_defs DistributedLease_new_def instant_checked_add_def ownership_is_locally_valid_def)

end
