(* ===== verification/Amalgam_Stores.thy ===== *)
theory Amalgam_Stores
  imports Amalgam_Leases
begin

text \<open>
  The in-process reference backends of \<open>src/distributed.rs\<close>: the invalidation store with its
  scoped journals and its expendable snapshots, and the byte store with lifetimes and
  lease-fenced writes. The lemmas show the capacity bounds, that an acknowledged marker is never
  forgotten and never read back older, that snapshots are only replaced by newer ones, and that a
  write fenced by a lost lease changes nothing.
\<close>

section \<open>The invalidation store\<close>

datatype snapshot_cache_error =
    SnapProvider marker_error | SnapLease lease_error | SnapCancelled factory_cancellation_reason

definition snapshot_check_cancellation ::
  "factory_cancellation_reason option \<Rightarrow> snapshot_cache_error + unit" where
  "snapshot_check_cancellation reason = (case reason of Some r \<Rightarrow> Inl (SnapCancelled r) | None \<Rightarrow> Inr ())"

definition snapshot_cache_error_into :: "snapshot_cache_error \<Rightarrow> cache_error" where
  "snapshot_cache_error_into er = (case er of
     SnapProvider m \<Rightarrow> ErrMarker m | SnapLease l \<Rightarrow> ErrLease l | SnapCancelled r \<Rightarrow> ErrOperationCancelled r)"

datatype marker_read_error = ReadProvider marker_error | ReadCancelled factory_cancellation_reason

definition read_check_cancellation ::
  "factory_cancellation_reason option \<Rightarrow> marker_read_error + unit" where
  "read_check_cancellation reason = (case reason of Some r \<Rightarrow> Inl (ReadCancelled r) | None \<Rightarrow> Inr ())"

type_synonym scope_id = "string \<times> string"

record invalidation_store =
  is_scopes :: "(scope_id, marker_state) hmap"
  is_snapshots :: "(scope_id \<times> marker_kind, marker_snapshot) hmap"
  is_limits :: marker_store_limits
  is_snapshot_limits :: marker_snapshot_limits

definition with_snapshot_limits :: "marker_store_limits \<Rightarrow> marker_snapshot_limits \<Rightarrow> invalidation_store" where
  "with_snapshot_limits limits snapshot_limits =
     \<lparr>is_scopes = [], is_snapshots = [], is_limits = limits, is_snapshot_limits = snapshot_limits\<rparr>"

definition InvalidationStore_new :: "marker_store_limits \<Rightarrow> invalidation_store" where
  "InvalidationStore_new limits = with_snapshot_limits limits MarkerSnapshotLimits_default"

definition scope_count :: "invalidation_store \<Rightarrow> nat" where
  "scope_count s = length (is_scopes s)"

definition snapshot_count :: "invalidation_store \<Rightarrow> nat" where
  "snapshot_count s = length (is_snapshots s)"

definition scope_read :: "cache_scope \<Rightarrow> marker_kind \<Rightarrow> invalidation_store \<Rightarrow> marker_version option" where
  "scope_read scope kind s = (case hm_get (is_scopes s) (scope_key scope) of
     None \<Rightarrow> None | Some state \<Rightarrow> marker_read state kind)"

definition store_advance ::
  "cache_scope \<Rightarrow> marker_kind \<Rightarrow> marker_version \<Rightarrow> invalidation_store
     \<Rightarrow> invalidation_store \<times> (marker_error + marker_advance_outcome)" where
  "store_advance scope kind candidate s =
     (let k = scope_key scope in
      if hm_get (is_scopes s) k = None \<and> length (is_scopes s) \<ge> max_scopes (is_limits s)
      then (s, Inl (ScopeCapacity (max_scopes (is_limits s))))
      else let state = (case hm_get (is_scopes s) k of None \<Rightarrow> MarkerState_default | Some st \<Rightarrow> st);
               (state', outcome) = marker_advance kind candidate (max_tags (is_limits s)) state
           in (s\<lparr>is_scopes := hm_insert k state' (is_scopes s)\<rparr>, Inr outcome))"

definition read_many_now :: "cache_scope \<Rightarrow> marker_kind list \<Rightarrow> invalidation_store \<Rightarrow> stored_marker list" where
  "read_many_now scope kinds s = (case hm_get (is_scopes s) (scope_key scope) of
     None \<Rightarrow> []
   | Some state \<Rightarrow> List.map_filter (\<lambda>kind. map_option (StoredMarker kind) (marker_read state kind)) kinds)"

text \<open>The provided \<open>read_many\<close> of the trait: one read per kind, the first failure ends it.\<close>

fun read_many_default :: "(marker_kind \<Rightarrow> 'e + marker_version option) \<Rightarrow> marker_kind list \<Rightarrow> 'e + stored_marker list" where
  "read_many_default read [] = Inr []"
| "read_many_default read (kind # kinds) = (case read kind of
     Inl er \<Rightarrow> Inl er
   | Inr version \<Rightarrow> (case read_many_default read kinds of
       Inl er \<Rightarrow> Inl er
     | Inr more' \<Rightarrow> Inr ((case version of None \<Rightarrow> [] | Some v \<Rightarrow> [StoredMarker kind v]) @ more')))"

section \<open>Snapshots of the store\<close>

definition read_snapshot ::
  "cache_scope \<Rightarrow> marker_kind \<Rightarrow> timestamp \<Rightarrow> invalidation_store \<Rightarrow> invalidation_store \<times> marker_snapshot_read" where
  "read_snapshot scope kind now s =
     (let maximum = scope_read scope kind s; key = (scope_key scope, kind)
      in case hm_get (is_snapshots s) key of
           Some snapshot \<Rightarrow>
             if snapshot_is_physically_expired snapshot now
             then (s\<lparr>is_snapshots := hm_remove key (is_snapshots s)\<rparr>, ReadMissing maximum)
             else (s, ReadSnapshot (with_maximum maximum snapshot))
         | None \<Rightarrow> (s, ReadMissing maximum))"

text \<open>\<open>iter().min_by_key(created)\<close>: the first of the least keys in iteration order.\<close>

fun min_created :: "('k, marker_snapshot) hmap \<Rightarrow> 'k option" where
  "min_created [] = None"
| "min_created ((k, e) # m) = (case min_created m of
     None \<Rightarrow> Some k
   | Some k' \<Rightarrow> (case hm_get m k' of
       None \<Rightarrow> Some k
     | Some e' \<Rightarrow> if snap_created e \<le> snap_created e' then Some k else Some k'))"

definition renew_snapshot_atomic ::
  "cache_scope \<Rightarrow> marker_kind \<Rightarrow> marker_snapshot \<Rightarrow> timestamp \<Rightarrow> invalidation_store
     \<Rightarrow> invalidation_store \<times> marker_snapshot_renewal" where
  "renew_snapshot_atomic scope kind snapshot now s =
     (if snapshot_is_physically_expired snapshot now then (s, RenewalExpired)
      else
        let maximum = scope_read scope kind s;
            live = hm_retain (\<lambda>k e. \<not> snapshot_is_physically_expired e now) (is_snapshots s);
            key = (scope_key scope, kind);
            stored = with_maximum maximum snapshot
        in case hm_get live key of
             Some current \<Rightarrow>
               if snapshot_supersedes current snapshot
               then (s\<lparr>is_snapshots := live\<rparr>, RenewalKeptNewer (with_maximum maximum current))
               else (s\<lparr>is_snapshots := hm_insert key stored live\<rparr>, RenewalStored stored)
           | None \<Rightarrow>
               let room = (if length live \<ge> snapshot_max_entries (is_snapshot_limits s)
                           then (case min_created live of None \<Rightarrow> live | Some oldest \<Rightarrow> hm_remove oldest live)
                           else live)
               in (s\<lparr>is_snapshots := hm_insert key stored room\<rparr>, RenewalStored stored))"

text \<open>
  The cancellable operations of the snapshot cache; \<open>before\<close> and \<open>after\<close> are the cancellation
  reasons observed at the two checks.
\<close>

definition cancellable_read_snapshot ::
  "factory_cancellation_reason option \<Rightarrow> factory_cancellation_reason option \<Rightarrow> cache_scope \<Rightarrow> marker_kind \<Rightarrow> timestamp
     \<Rightarrow> invalidation_store \<Rightarrow> invalidation_store \<times> (snapshot_cache_error + marker_snapshot_read)" where
  "cancellable_read_snapshot before after scope kind now s = (case snapshot_check_cancellation before of
     Inl er \<Rightarrow> (s, Inl er)
   | Inr _ \<Rightarrow> (case read_snapshot scope kind now s of (s', r) \<Rightarrow>
       (s', case snapshot_check_cancellation after of Inl er \<Rightarrow> Inl er | Inr _ \<Rightarrow> Inr r)))"

definition renew_snapshot ::
  "factory_cancellation_reason option \<Rightarrow> factory_cancellation_reason option \<Rightarrow> cache_scope \<Rightarrow> marker_kind
     \<Rightarrow> marker_snapshot \<Rightarrow> timestamp \<Rightarrow> invalidation_store
     \<Rightarrow> invalidation_store \<times> (snapshot_cache_error + marker_snapshot_renewal)" where
  "renew_snapshot before after scope kind snapshot now s = (case snapshot_check_cancellation before of
     Inl er \<Rightarrow> (s, Inl er)
   | Inr _ \<Rightarrow>
       if snapshot_is_physically_expired snapshot now then (s, Inr RenewalExpired)
       else (case renew_snapshot_atomic scope kind snapshot now s of (s', r) \<Rightarrow>
         (s', case snapshot_check_cancellation after of Inl er \<Rightarrow> Inl er | Inr _ \<Rightarrow> Inr r)))"

definition renew_snapshot_with_lease ::
  "factory_cancellation_reason option \<Rightarrow> factory_cancellation_reason option \<Rightarrow> lease_proof \<Rightarrow> timestamp \<Rightarrow> lease_table
     \<Rightarrow> cache_scope \<Rightarrow> marker_kind \<Rightarrow> marker_snapshot \<Rightarrow> timestamp \<Rightarrow> invalidation_store
     \<Rightarrow> invalidation_store \<times> (snapshot_cache_error + marker_snapshot_renewal)" where
  "renew_snapshot_with_lease before after pr lease_now locks scope kind snapshot now s =
     (case snapshot_check_cancellation before of
        Inl er \<Rightarrow> (s, Inl er)
      | Inr _ \<Rightarrow>
          (case with_memory_ownership pr lease_now locks (renew_snapshot_atomic scope kind snapshot now) s of
             (s', Inl er) \<Rightarrow> (s', Inl (SnapLease er))
           | (s', Inr None) \<Rightarrow> (s', Inl (SnapLease LeaseLost))
           | (s', Inr (Some r)) \<Rightarrow>
               (s', case snapshot_check_cancellation after of Inl er \<Rightarrow> Inl er | Inr _ \<Rightarrow> Inr r)))"

section \<open>The byte store\<close>

record stored_bytes =
  sb_bytes :: string
  sb_expires_at :: "timestamp option"

type_synonym byte_store = "(string, stored_bytes) hmap"

definition read_now :: "string \<Rightarrow> timestamp \<Rightarrow> byte_store \<Rightarrow> byte_store \<times> string option" where
  "read_now key now m =
     (let hit = (case hm_get m key of
            None \<Rightarrow> None
          | Some st \<Rightarrow> (case sb_expires_at st of
              None \<Rightarrow> Some (sb_bytes st)
            | Some e \<Rightarrow> if is_before now e then Some (sb_bytes st) else None))
      in if hit = None
         then (case hm_get m key of
                 None \<Rightarrow> (m, None)
               | Some st \<Rightarrow> (case sb_expires_at st of
                   None \<Rightarrow> (m, None)
                 | Some e \<Rightarrow> (if now \<ge> e then hm_remove key m else m, None)))
         else (m, hit))"

definition bytes_set :: "string \<Rightarrow> string \<Rightarrow> duration option \<Rightarrow> timestamp \<Rightarrow> byte_store \<Rightarrow> byte_store" where
  "bytes_set key v ttl now m =
     hm_insert key \<lparr>sb_bytes = v, sb_expires_at = map_option (saturating_add now) ttl\<rparr> m"

definition bytes_remove :: "string \<Rightarrow> byte_store \<Rightarrow> byte_store" where
  "bytes_remove key m = hm_remove key m"

datatype leased_mutation = LeasedSet string "duration option" | LeasedRemove

datatype leased_write_outcome = Committed | WriteLeaseLost

definition write_with_lease ::
  "string \<Rightarrow> leased_mutation \<Rightarrow> lease_proof \<Rightarrow> timestamp \<Rightarrow> lease_table \<Rightarrow> timestamp \<Rightarrow> byte_store
     \<Rightarrow> byte_store \<times> (lease_error + leased_write_outcome)" where
  "write_with_lease key mutation pr lease_now locks now m =
     (case with_memory_ownership pr lease_now locks
             (\<lambda>m. (case mutation of LeasedSet v ttl \<Rightarrow> bytes_set key v ttl now m | LeasedRemove \<Rightarrow> bytes_remove key m, ())) m of
        (m', Inl er) \<Rightarrow> (m', Inl er)
      | (m', Inr committed) \<Rightarrow> (m', Inr (if committed \<noteq> None then Committed else WriteLeaseLost)))"

section \<open>Facts\<close>

lemma read_now_value: "snd (read_now key now m) = (case hm_get m key of
    None \<Rightarrow> None
  | Some st \<Rightarrow> (case sb_expires_at st of None \<Rightarrow> Some (sb_bytes st) | Some e \<Rightarrow> if now < e then Some (sb_bytes st) else None))"
  by (auto simp: read_now_def is_before_def Let_def split: option.splits)

lemma read_now_others: "k \<noteq> key \<Longrightarrow> hm_get (fst (read_now key now m)) k = hm_get m k"
  by (auto simp: read_now_def hmap_simps Let_def split: option.splits)

definition store_ok :: "invalidation_store \<Rightarrow> bool" where
  "store_ok s \<longleftrightarrow> hm_ok (is_scopes s) \<and> hm_ok (is_snapshots s)
     \<and> length (is_scopes s) \<le> max_scopes (is_limits s)
     \<and> length (is_snapshots s) \<le> snapshot_max_entries (is_snapshot_limits s)
     \<and> 0 < snapshot_max_entries (is_snapshot_limits s)
     \<and> (\<forall>k st. hm_get (is_scopes s) k = Some st \<longrightarrow> marker_ok st \<and> tag_count st \<le> max_tags (is_limits s))"

lemma min_created_Some: "m \<noteq> [] \<Longrightarrow> hm_ok m \<Longrightarrow> \<exists>k e. min_created m = Some k \<and> hm_get m k = Some e
    \<and> (\<forall>k' e'. hm_get m k' = Some e' \<longrightarrow> snap_created e \<le> snap_created e')"
proof (induction m)
  case (Cons ke m)
  obtain k e where ke: "ke = (k, e)" by (cases ke)
  have ok: "hm_ok m" and new: "k \<notin> fst ` set m" using Cons.prems(2) by (simp_all add: hm_ok_def ke)
  show ?case
  proof (cases "m = []")
    case True
    then show ?thesis by (simp add: ke)
  next
    case False
    then obtain k' e' where m: "min_created m = Some k'" "hm_get m k' = Some e'"
        "\<forall>k'' e''. hm_get m k'' = Some e'' \<longrightarrow> snap_created e' \<le> snap_created e''"
      using Cons.IH ok by blast
    then have "k' \<noteq> k" using new by (auto dest: map_of_SomeD intro: rev_image_eqI)
    show ?thesis
    proof (cases "snap_created e \<le> snap_created e'")
      case True
      then show ?thesis using m by (auto simp: ke intro: order_trans)
    next
      case le: False
      then show ?thesis using m \<open>k' \<noteq> k\<close> by (intro exI [of _ k'] exI [of _ e']) (auto simp: ke)
    qed
  qed
qed simp

datatype store_op =
    StAdvance cache_scope marker_kind marker_version
  | StReadSnapshot cache_scope marker_kind timestamp
  | StRenew cache_scope marker_kind marker_snapshot timestamp

fun store_step :: "invalidation_store \<Rightarrow> store_op \<Rightarrow> invalidation_store" where
  "store_step s (StAdvance scope kind v) = fst (store_advance scope kind v s)"
| "store_step s (StReadSnapshot scope kind now) = fst (read_snapshot scope kind now s)"
| "store_step s (StRenew scope kind snapshot now) = fst (renew_snapshot_atomic scope kind snapshot now s)"

definition scope_state :: "cache_scope \<Rightarrow> invalidation_store \<Rightarrow> marker_state" where
  "scope_state scope s = (case hm_get (is_scopes s) (scope_key scope) of None \<Rightarrow> MarkerState_default | Some st \<Rightarrow> st)"

lemma scope_read_eq: "scope_read scope kind s = marker_read (scope_state scope s) kind"
  by (cases kind) (auto simp: scope_read_def scope_state_def MarkerState_default_def split: option.splits)

lemma marker_ok_default: "marker_ok MarkerState_default"
  by (simp add: marker_ok_def MarkerState_default_def)

lemma scope_state_ok: "store_ok s \<Longrightarrow> marker_ok (scope_state scope s)"
  by (auto simp: store_ok_def scope_state_def marker_ok_default simp del: split_paired_All split: option.splits)

lemma store_advance_eq:
  "store_advance scope kind v s =
     (if hm_get (is_scopes s) (scope_key scope) = None \<and> length (is_scopes s) \<ge> max_scopes (is_limits s)
      then (s, Inl (ScopeCapacity (max_scopes (is_limits s))))
      else (s\<lparr>is_scopes := hm_insert (scope_key scope) (fst (marker_advance kind v (max_tags (is_limits s)) (scope_state scope s)))
             (is_scopes s)\<rparr>, Inr (snd (marker_advance kind v (max_tags (is_limits s)) (scope_state scope s)))))"
  by (auto simp: store_advance_def scope_state_def Let_def split: option.splits prod.splits)

text \<open>Reading and renewing snapshots leave the journals and the limits alone.\<close>

lemma renew_snapshot_frame [simp]:
  "is_scopes (fst (renew_snapshot_atomic scope kind snapshot now s)) = is_scopes s"
  "is_limits (fst (renew_snapshot_atomic scope kind snapshot now s)) = is_limits s"
  "is_snapshot_limits (fst (renew_snapshot_atomic scope kind snapshot now s)) = is_snapshot_limits s"
  by (auto simp: renew_snapshot_atomic_def Let_def split: option.splits)

lemma read_snapshot_frame [simp]:
  "is_scopes (fst (read_snapshot scope kind now s)) = is_scopes s"
  "is_limits (fst (read_snapshot scope kind now s)) = is_limits s"
  "is_snapshot_limits (fst (read_snapshot scope kind now s)) = is_snapshot_limits s"
  by (auto simp: read_snapshot_def Let_def split: option.splits)

lemma store_advance_frame [simp]:
  "is_snapshots (fst (store_advance scope kind v s)) = is_snapshots s"
  "is_limits (fst (store_advance scope kind v s)) = is_limits s"
  "is_snapshot_limits (fst (store_advance scope kind v s)) = is_snapshot_limits s"
  by (simp_all add: store_advance_eq)

lemma room_bound:
  assumes "hm_ok live" and "0 < cap" and "length live \<le> cap"
  shows "length (if length live \<ge> cap then (case min_created live of None \<Rightarrow> live | Some k \<Rightarrow> hm_remove k live) else live) < cap"
proof (cases "length live \<ge> cap")
  case True
  then obtain k e where k: "min_created live = Some k" "hm_get live k = Some e"
    using min_created_Some [OF _ assms(1)] assms(2) by (cases live) auto
  then have "length (hm_remove k live) = length live - 1" using length_hm_remove [OF assms(1), of k] by simp
  then show ?thesis using k assms(2,3) True by simp
qed (use assms in simp)

lemma renew_snapshots_ok:
  assumes "hm_ok (is_snapshots s)" and "0 < snapshot_max_entries (is_snapshot_limits s)"
    and "length (is_snapshots s) \<le> snapshot_max_entries (is_snapshot_limits s)"
  shows "hm_ok (is_snapshots (fst (renew_snapshot_atomic scope kind snapshot now s)))
    \<and> length (is_snapshots (fst (renew_snapshot_atomic scope kind snapshot now s))) \<le> snapshot_max_entries (is_snapshot_limits s)"
proof (cases "snapshot_is_physically_expired snapshot now")
  case True
  then show ?thesis using assms by (simp add: renew_snapshot_atomic_def)
next
  case False
  let ?live = "hm_retain (\<lambda>k e. \<not> snapshot_is_physically_expired e now) (is_snapshots s)"
  let ?cap = "snapshot_max_entries (is_snapshot_limits s)"
  let ?room = "if length ?live \<ge> ?cap then (case min_created ?live of None \<Rightarrow> ?live | Some k \<Rightarrow> hm_remove k ?live) else ?live"
  have live: "hm_ok ?live" "length ?live \<le> ?cap"
    using assms length_hm_retain [of _ "is_snapshots s"] le_trans by (auto intro: le_trans)
  have room: "hm_ok ?room" using live(1) by (auto split: option.splits)
  show ?thesis
  proof (cases "hm_get ?live (scope_key scope, kind)")
    case None
    then show ?thesis using False live room room_bound [OF live(1) assms(2) live(2)]
      by (simp add: renew_snapshot_atomic_def Let_def length_hm_insert)
  next
    case (Some c)
    then show ?thesis using False live by (simp add: renew_snapshot_atomic_def Let_def length_hm_insert)
  qed
qed

interpretation store: invariant_machine store_step store_ok
proof
  fix s e assume ok: "store_ok s"
  show "store_ok (store_step s e)"
  proof (cases e)
    case (StAdvance scope kind v)
    let ?st = "fst (marker_advance kind v (max_tags (is_limits s)) (scope_state scope s))"
    have "marker_ok ?st" "tag_count ?st \<le> max_tags (is_limits s)"
      using scope_state_ok [OF ok, of scope] mstate.ok_adv tag_count_advance by blast+
    then show ?thesis using ok StAdvance
      by (auto simp: store_ok_def store_advance_eq length_hm_insert hmap_simps split: if_splits)
  next
    case (StReadSnapshot scope kind now)
    have "hm_ok (is_snapshots (fst (read_snapshot scope kind now s)))
      \<and> length (is_snapshots (fst (read_snapshot scope kind now s))) \<le> length (is_snapshots s)"
      using ok by (auto simp: store_ok_def read_snapshot_def Let_def length_hm_remove split: option.splits)
    then show ?thesis using ok StReadSnapshot by (auto simp: store_ok_def)
  next
    case (StRenew scope kind snapshot now)
    then show ?thesis using ok renew_snapshots_ok [of s scope kind snapshot now] by (auto simp: store_ok_def)
  qed
qed

lemma store_limits_run [simp]:
  "is_limits (foldl store_step s ops) = is_limits s" "is_snapshot_limits (foldl store_step s ops) = is_snapshot_limits s"
proof (induction ops arbitrary: s)
  case (Cons op ops)
  { case 1 show ?case using Cons(1) [of "store_step s op"] by (cases op) simp_all
  next case 2 show ?case using Cons(2) [of "store_step s op"] by (cases op) simp_all }
qed simp_all

lemma store_ok_new: "MarkerSnapshotLimits_new n = Inr sl \<Longrightarrow> store_ok (with_snapshot_limits limits sl)"
  by (auto simp: store_ok_def with_snapshot_limits_def MarkerSnapshotLimits_new_def split: if_splits)

text \<open>Coverage of a scope once its journal exists.\<close>

definition scope_covers :: "cache_scope \<Rightarrow> invalidation_store \<Rightarrow> marker_kind \<Rightarrow> timestamp \<Rightarrow> bool" where
  "scope_covers scope s kind t \<longleftrightarrow> state_covers (scope_state scope s) kind t"

lemma scope_state_advance:
  "hm_get (is_scopes s) (scope_key scope) \<noteq> None \<Longrightarrow>
     scope_state scope (fst (store_advance scope kind v s)) = fst (marker_advance kind v (max_tags (is_limits s)) (scope_state scope s))"
  by (auto simp: store_advance_eq scope_state_def hmap_simps)

lemma scope_state_other:
  "scope_key scope' \<noteq> scope_key scope \<Longrightarrow> scope_state scope (fst (store_advance scope' kind v s)) = scope_state scope s"
  by (auto simp: store_advance_eq scope_state_def hmap_simps)

interpretation scoped: marker_journal "\<lambda>s. store_ok s \<and> hm_get (is_scopes s) (scope_key scope) \<noteq> None"
  "scope_covers scope" "\<lambda>k v s. fst (store_advance scope k v s)" for scope
proof
  fix s k v
  assume a: "store_ok s \<and> hm_get (is_scopes s) (scope_key scope) \<noteq> None"
  note st = scope_state_ok [of s scope] scope_state_advance [of s scope]
  show "store_ok (fst (store_advance scope k v s)) \<and> hm_get (is_scopes (fst (store_advance scope k v s))) (scope_key scope) \<noteq> None"
    using a store.step_inv [of s "StAdvance scope k v"] by (auto simp: store_advance_eq hmap_simps)
  show "t \<le> v \<Longrightarrow> scope_covers scope (fst (store_advance scope k v s)) k t" for t
    using a st mstate.covers_adv by (simp add: scope_covers_def)
  show "scope_covers scope s k' t \<Longrightarrow> scope_covers scope (fst (store_advance scope k v s)) k' t" for k' t
    using a st mstate.covers_kept by (simp add: scope_covers_def)
  show "scope_covers scope (fst (store_advance scope k v s)) k' t \<Longrightarrow> t \<le> v \<or> (\<exists>k''. scope_covers scope s k'' t)" for k' t
    using a st mstate.covers_only by (auto simp: scope_covers_def)
qed

lemma scope_covers_step:
  assumes "store_ok s" and "hm_get (is_scopes s) (scope_key scope) \<noteq> None" and "scope_covers scope s kind t"
  shows "hm_get (is_scopes (store_step s op)) (scope_key scope) \<noteq> None \<and> scope_covers scope (store_step s op) kind t"
proof (cases op)
  case (StAdvance scope' k v)
  show ?thesis
  proof (cases "scope_key scope' = scope_key scope")
    case True
    then have "store_advance scope' k v s = store_advance scope k v s" by (simp add: store_advance_def)
    then show ?thesis using assms scoped.covers_kept [of s scope kind t k v] scoped.ok_adv [of s scope k v] StAdvance by simp
  next
    case False
    then have "hm_get (is_scopes (fst (store_advance scope' k v s))) (scope_key scope) = hm_get (is_scopes s) (scope_key scope)"
      by (simp add: store_advance_eq hmap_simps)
    then show ?thesis using assms StAdvance False by (simp add: scope_covers_def scope_state_other)
  qed
qed (use assms in \<open>simp_all add: scope_covers_def scope_state_def\<close>)

lemma scope_covers_run:
  "store_ok s \<Longrightarrow> hm_get (is_scopes s) (scope_key scope) \<noteq> None \<Longrightarrow> scope_covers scope s kind t \<Longrightarrow>
     scope_covers scope (foldl store_step s ops) kind t"
proof (induction ops arbitrary: s)
  case (Cons op ops)
  then show ?case using scope_covers_step [OF Cons.prems, of op] store.step_inv by simp
qed simp

lemma supersedes_with_maximum: "snapshot_supersedes c d \<Longrightarrow> snapshot_supersedes (with_maximum m c) d"
  by (auto simp: snapshot_supersedes_def with_maximum_def split: option.splits)

lemma not_supersedes_with_maximum: "\<not> snapshot_supersedes c d \<Longrightarrow> \<not> snapshot_supersedes c (with_maximum m d)"
  by (auto simp: snapshot_supersedes_def with_maximum_def split: option.splits)

section \<open>Properties\<close>

text \<open>
  Whatever sequence of advances, snapshot reads and renewals it serves, the invalidation store
  keeps at most its configured number of scopes, of tags per scope and of snapshots.
\<close>

theorem invalidation_store_bounded:
  assumes "MarkerSnapshotLimits_new n = Inr snapshot_limits"
    and "s = foldl store_step (with_snapshot_limits limits snapshot_limits) ops"
  shows "scope_count s \<le> max_scopes limits \<and> snapshot_count s \<le> n
    \<and> tag_count (scope_state scope s) \<le> max_tags limits"
proof -
  have ok: "store_ok s" using store.run_inv [OF store_ok_new [OF assms(1)]] assms(2) by simp
  have l: "is_limits s = limits" "snapshot_max_entries (is_snapshot_limits s) = n"
    using assms by (auto simp: with_snapshot_limits_def MarkerSnapshotLimits_new_def split: if_splits)
  have "tag_count (scope_state scope s) \<le> max_tags limits"
    using ok l(1) by (auto simp: store_ok_def scope_state_def MarkerState_default_def tag_count_def
        simp del: split_paired_All split: option.splits)
  then show ?thesis using ok l by (simp add: store_ok_def scope_count_def snapshot_count_def)
qed

theorem invalidation_store_bounded_witness:
  "scope_count (foldl store_step (with_snapshot_limits MarkerStoreLimits_default (MarkerSnapshotLimits 1))
     [StAdvance demo_scope ClearExpire 5]) \<le> max_scopes MarkerStoreLimits_default"
  using invalidation_store_bounded [of 1 "MarkerSnapshotLimits 1" _ MarkerStoreLimits_default "[StAdvance demo_scope ClearExpire 5]"]
  by (simp add: MarkerSnapshotLimits_new_def)



text \<open>The snapshots a reader can still be given: the stored ones that have not expired.\<close>

definition live_snapshots ::
  "timestamp \<Rightarrow> invalidation_store \<Rightarrow> (string \<times> string) \<times> marker_kind \<Rightarrow> marker_snapshot option" where
  "live_snapshots now s k = (case hm_get (is_snapshots s) k of
     None \<Rightarrow> None
   | Some c \<Rightarrow> if snapshot_is_physically_expired c now then None else Some c)"

lemma live_snapshots_retained:
  "hm_ok (is_snapshots s) \<Longrightarrow>
     live_snapshots now s = hm_get (hm_retain (\<lambda>k e. \<not> snapshot_is_physically_expired e now) (is_snapshots s))"
  by (auto simp: fun_eq_iff live_snapshots_def hm_get_retain split: option.splits)

lemma live_snapshots_all:
  "(\<And>k c. hm_get m k = Some c \<Longrightarrow> \<not> snapshot_is_physically_expired c now) \<Longrightarrow>
     live_snapshots now (s\<lparr>is_snapshots := m\<rparr>) = hm_get m"
  by (auto simp: fun_eq_iff live_snapshots_def split: option.splits)

lemma live_not_expired: "live_snapshots now s k = Some c \<Longrightarrow> \<not> snapshot_is_physically_expired c now"
  by (auto simp: live_snapshots_def split: option.splits if_splits)

lemma hm_card: "hm_ok m \<Longrightarrow> card (dom (hm_get m)) = length m"
  by (simp add: hm_ok_def dom_map_of_conv_image_fst distinct_card flip: set_map)

lemma with_maximum_expired [simp]:
  "snapshot_is_physically_expired (with_maximum m c) now = snapshot_is_physically_expired c now"
  by (simp add: snapshot_is_physically_expired_def with_maximum_def)

lemma with_maximum_twice [simp]: "with_maximum m (with_maximum m c) = with_maximum m c"
  by (simp add: with_maximum_def split: option.split)

lemma read_live_snapshot:
  "snd (read_snapshot scope kind now s) = (case live_snapshots now s (scope_key scope, kind) of
     None \<Rightarrow> ReadMissing (scope_read scope kind s)
   | Some c \<Rightarrow> ReadSnapshot (with_maximum (scope_read scope kind s) c))"
  by (simp add: read_snapshot_def live_snapshots_def Let_def split: option.split)

text \<open>The room made for a new snapshot: at capacity the oldest one goes.\<close>

lemma room_made:
  assumes "hm_ok live" and "0 < n"
    and "room = (if length live \<ge> n then (case min_created live of None \<Rightarrow> live | Some oldest \<Rightarrow> hm_remove oldest live) else live)"
  shows "\<exists>victim. hm_get room = (case victim of None \<Rightarrow> hm_get live | Some v \<Rightarrow> (hm_get live)(v := None))
    \<and> (victim = None \<longleftrightarrow> card (dom (hm_get live)) < n)
    \<and> (\<forall>v. victim = Some v \<longrightarrow> (\<exists>c. hm_get live v = Some c \<and>
         (\<forall>k c'. hm_get live k = Some c' \<longrightarrow> snap_created c \<le> snap_created c')))"
proof (cases "length live \<ge> n")
  case True
  then have "live \<noteq> []" using assms(2) by auto
  then obtain v c where v: "min_created live = Some v" "hm_get live v = Some c"
      "\<forall>k c'. hm_get live k = Some c' \<longrightarrow> snap_created c \<le> snap_created c'"
    using min_created_Some [OF _ assms(1)] by blast
  have "hm_get room = (hm_get live)(v := None)" using True v(1) assms(3) by (simp add: hmap_simps)
  with v True hm_card [OF assms(1)] show ?thesis by (intro exI [of _ "Some v"]) auto
next
  case False
  with assms(3) hm_card [OF assms(1)] show ?thesis by (intro exI [of _ None]) auto
qed

text \<open>
  C38. Renewal of a snapshot keeps its contract. It never touches a journal. An expired proposal is
  refused and changes nothing. A proposal superseded by the live snapshot of its key is refused, and
  the caller is told the live one, raised to the durable revision, which is also what the next
  read returns; no live snapshot changes. Every other proposal is stored: it is what the caller is
  told and what the next read returns, and every other live snapshot stays, except that a
  key without a live snapshot evicts one when the live ones fill the capacity: exactly one,
  and none of the live ones is older.
\<close>

theorem snapshot_renewal_contract:
  assumes "store_ok s" and "renew_snapshot_atomic scope kind snapshot now s = (s', r)"
    and "key = (scope_key scope, kind)"
  shows "is_scopes s' = is_scopes s \<and> (case r of
      RenewalExpired \<Rightarrow> snapshot_is_physically_expired snapshot now \<and> s' = s
    | RenewalKeptNewer kept \<Rightarrow> \<not> snapshot_is_physically_expired snapshot now
        \<and> (\<exists>c. live_snapshots now s key = Some c \<and> snapshot_supersedes c snapshot
             \<and> kept = with_maximum (scope_read scope kind s) c)
        \<and> snd (read_snapshot scope kind now s') = ReadSnapshot kept
        \<and> live_snapshots now s' = live_snapshots now s
    | RenewalStored stored \<Rightarrow> \<not> snapshot_is_physically_expired snapshot now
        \<and> (\<forall>c. live_snapshots now s key = Some c \<longrightarrow> \<not> snapshot_supersedes c snapshot)
        \<and> stored = with_maximum (scope_read scope kind s) snapshot
        \<and> snd (read_snapshot scope kind now s') = ReadSnapshot stored
        \<and> (\<exists>victim. live_snapshots now s' = (case victim of
               None \<Rightarrow> live_snapshots now s | Some v \<Rightarrow> (live_snapshots now s)(v := None))(key \<mapsto> stored)
            \<and> (victim = None \<longleftrightarrow> live_snapshots now s key \<noteq> None
                 \<or> card (dom (live_snapshots now s)) < snapshot_max_entries (is_snapshot_limits s))
            \<and> (\<forall>v. victim = Some v \<longrightarrow> (\<exists>c. live_snapshots now s v = Some c
                 \<and> (\<forall>k c'. live_snapshots now s k = Some c' \<longrightarrow> snap_created c \<le> snap_created c')))))"
proof (cases "snapshot_is_physically_expired snapshot now")
  case True
  then show ?thesis using assms(2) by (simp add: renew_snapshot_atomic_def)
next
  case fresh: False
  define live where "live = hm_retain (\<lambda>k e. \<not> snapshot_is_physically_expired e now) (is_snapshots s)"
  define stored where "stored = with_maximum (scope_read scope kind s) snapshot"
  have ok: "hm_ok (is_snapshots s)" "hm_ok live" "0 < snapshot_max_entries (is_snapshot_limits s)"
    using assms(1) by (simp_all add: store_ok_def live_def)
  have view: "live_snapshots now s = hm_get live" using live_snapshots_retained [OF ok(1)] by (simp add: live_def)
  have rd: "scope_read scope kind (s\<lparr>is_snapshots := m\<rparr>) = scope_read scope kind s" for m by (simp add: scope_read_def)
  have kept: "live_snapshots now (s\<lparr>is_snapshots := live\<rparr>) = hm_get live"
    by (rule live_snapshots_all) (use live_not_expired [of now s] view in simp)
  have put: "live_snapshots now (s\<lparr>is_snapshots := hm_insert key stored m\<rparr>) = (hm_get m)(key \<mapsto> stored)"
    if sub: "\<And>k c. hm_get m k = Some c \<Longrightarrow> hm_get live k = Some c" for m
  proof -
    have "\<not> snapshot_is_physically_expired c now" if c: "hm_get (hm_insert key stored m) k = Some c" for k c
    proof (cases "k = key")
      case True
      with c fresh show ?thesis by (auto simp: hmap_simps stored_def)
    next
      case False
      with c sub [of k c] show ?thesis using live_not_expired [of now s k c] view by (simp add: hmap_simps)
    qed
    then have "live_snapshots now (s\<lparr>is_snapshots := hm_insert key stored m\<rparr>) = hm_get (hm_insert key stored m)"
      by (rule live_snapshots_all)
    then show ?thesis by (simp add: hmap_simps)
  qed
  show ?thesis
  proof (cases "hm_get live key")
    case (Some c)
    show ?thesis
    proof (cases "snapshot_supersedes c snapshot")
      case True
      have "s' = s\<lparr>is_snapshots := live\<rparr>" "r = RenewalKeptNewer (with_maximum (scope_read scope kind s) c)"
        using assms(2,3) fresh Some True by (simp_all add: renew_snapshot_atomic_def live_def Let_def)
      then show ?thesis using fresh True Some kept view assms(3) by (simp add: read_live_snapshot rd)
    next
      case False
      have "s' = s\<lparr>is_snapshots := hm_insert key stored live\<rparr>" "r = RenewalStored stored"
        using assms(2,3) fresh Some False by (simp_all add: renew_snapshot_atomic_def live_def stored_def Let_def)
      then show ?thesis using fresh False Some put [of live] view assms(3)
        by (simp add: read_live_snapshot rd) (simp add: stored_def)
    qed
  next
    case None
    define room where "room = (if length live \<ge> snapshot_max_entries (is_snapshot_limits s)
       then (case min_created live of None \<Rightarrow> live | Some oldest \<Rightarrow> hm_remove oldest live) else live)"
    have "renew_snapshot_atomic scope kind snapshot now s = (s\<lparr>is_snapshots := hm_insert key stored room\<rparr>, RenewalStored stored)"
      unfolding renew_snapshot_atomic_def Let_def live_def [symmetric] stored_def [symmetric] assms(3) [symmetric] room_def
      using fresh None by simp
    then have e: "s' = s\<lparr>is_snapshots := hm_insert key stored room\<rparr>" "r = RenewalStored stored" using assms(2) by simp_all
    have "hm_get room k = Some c \<Longrightarrow> hm_get live k = Some c" for k c
      by (auto simp: room_def hmap_simps split: if_splits option.splits)
    note room = put [OF this] room_made [OF ok(2,3) room_def]
    have l: "live_snapshots now s' = (hm_get room)(key \<mapsto> stored)" unfolding e(1) by (rule room(1))
    moreover have "snd (read_snapshot scope kind now s') = ReadSnapshot stored"
      unfolding read_live_snapshot l assms(3) by (simp add: e(1) rd stored_def)
    moreover obtain victim where "hm_get room = (case victim of None \<Rightarrow> hm_get live | Some v \<Rightarrow> (hm_get live)(v := None))"
        "victim = None \<longleftrightarrow> card (dom (hm_get live)) < snapshot_max_entries (is_snapshot_limits s)"
        "\<forall>v. victim = Some v \<longrightarrow> (\<exists>c. hm_get live v = Some c \<and>
           (\<forall>k c'. hm_get live k = Some c' \<longrightarrow> snap_created c \<le> snap_created c'))"
      using room(2) by (elim exE conjE)
    ultimately have "\<exists>victim. live_snapshots now s' = (case victim of
           None \<Rightarrow> hm_get live | Some v \<Rightarrow> (hm_get live)(v := None))(key \<mapsto> stored)
        \<and> (victim = None \<longleftrightarrow> hm_get live key \<noteq> None
             \<or> card (dom (hm_get live)) < snapshot_max_entries (is_snapshot_limits s))
        \<and> (\<forall>v. victim = Some v \<longrightarrow> (\<exists>c. hm_get live v = Some c
             \<and> (\<forall>k c'. hm_get live k = Some c' \<longrightarrow> snap_created c \<le> snap_created c')))"
      using None by (intro exI [of _ victim]) simp
    moreover note \<open>snd (read_snapshot scope kind now s') = ReadSnapshot stored\<close>
    moreover have "is_scopes s' = is_scopes s" by (simp add: e(1))
    ultimately show ?thesis using fresh None unfolding e(2) view by (simp only: stored_def) simp
  qed
qed

theorem snapshot_renewal_contract_witness:
  "\<exists>s' stored. renew_snapshot_atomic demo_scope ClearExpire \<lparr>snap_version = 3, snap_created = 1, snap_logical = 5, snap_physical = 9\<rparr> 2
     (InvalidationStore_new MarkerStoreLimits_default) = (s', RenewalStored stored) \<and> is_scopes s' = []
     \<and> snd (read_snapshot demo_scope ClearExpire 2 s') = ReadSnapshot stored"
proof -
  let ?p = "\<lparr>snap_version = 3, snap_created = 1, snap_logical = 5, snap_physical = 9\<rparr>"
  let ?s = "InvalidationStore_new MarkerStoreLimits_default"
  obtain s' r where sr: "renew_snapshot_atomic demo_scope ClearExpire ?p 2 ?s = (s', r)" by fastforce
  have fresh: "\<not> snapshot_is_physically_expired ?p 2" by (simp add: snapshot_is_physically_expired_def)
  have none: "live_snapshots 2 ?s k = None" "is_scopes ?s = []" for k
    by (simp_all add: live_snapshots_def InvalidationStore_new_def with_snapshot_limits_def)
  have "store_ok ?s" by (simp add: InvalidationStore_new_def store_ok_new [of 4096] MarkerSnapshotLimits_new_def MarkerSnapshotLimits_default_def)
  from snapshot_renewal_contract [OF this sr refl] fresh none have "is_scopes s' = []"
      "\<exists>stored. r = RenewalStored stored \<and> snd (read_snapshot demo_scope ClearExpire 2 s') = ReadSnapshot stored"
    by (simp, cases r) simp_all
  with sr show ?thesis by blast
qed

text \<open>A sequence of reads at given clock readings, as other callers may make them.\<close>

fun read_all :: "(string \<times> timestamp) list \<Rightarrow> byte_store \<Rightarrow> byte_store" where
  "read_all [] m = m"
| "read_all ((k, now) # reads) m = read_all reads (fst (read_now k now m))"

lemma read_all_keeps:
  assumes "list_all (\<lambda>(k, now). k = key \<longrightarrow> now < e) reads" and "hm_get m key = Some \<lparr>sb_bytes = v, sb_expires_at = Some e\<rparr>"
  shows "hm_get (read_all reads m) key = Some \<lparr>sb_bytes = v, sb_expires_at = Some e\<rparr>"
  using assms
proof (induction reads m rule: read_all.induct)
  case (2 k now reads m)
  have "hm_get (fst (read_now k now m)) key = hm_get m key"
    using 2(2,3) read_now_others [of key k now m] by (cases "k = key") (auto simp: read_now_def is_before_def Let_def)
  then show ?case using 2 by simp
qed simp

text \<open>
  The byte store serves what was last written and nothing expired: a value written with a
  lifetime is returned at every reading before its deadline and never from the deadline on,
  whatever reads of any key come in between; a removed key is not returned, and other keys are
  unaffected.
\<close>

theorem byte_store_reads_last_write:
  assumes "list_all (\<lambda>(k, now). k = key \<longrightarrow> now < e) reads" and "e = saturating_add t d"
  shows "snd (read_now key now (read_all reads (bytes_set key v (Some d) t m))) = (if now < e then Some v else None)
    \<and> snd (read_now key now (bytes_set key v None t m)) = Some v
    \<and> snd (read_now key now (bytes_remove key m)) = None
    \<and> (key' \<noteq> key \<longrightarrow> snd (read_now key' now (bytes_set key v ttl t m)) = snd (read_now key' now m)
         \<and> snd (read_now key' now (bytes_remove key m)) = snd (read_now key' now m))"
proof -
  have "hm_get (read_all reads (bytes_set key v (Some d) t m)) key = Some \<lparr>sb_bytes = v, sb_expires_at = Some e\<rparr>"
    by (rule read_all_keeps [OF assms(1)]) (simp add: bytes_set_def hmap_simps assms(2))
  then show ?thesis by (auto simp: read_now_value bytes_set_def bytes_remove_def hmap_simps)
qed

theorem byte_store_reads_last_write_witness:
  "snd (read_now ''k'' 5 (read_all [(''k'', 4), (''j'', 40)] (bytes_set ''k'' ''v'' (Some 1000) 1 []))) = Some ''v''"
proof -
  have e: "saturating_add 1 1000 = 11" by (simp add: saturating_add_eq in_i64_def)
  have "snd (read_now ''k'' 5 (read_all [(''k'', 4), (''j'', 40)] (bytes_set ''k'' ''v'' (Some 1000) 1 [])))
      = (if 5 < saturating_add 1 1000 then Some ''v'' else None)"
    by (rule byte_store_reads_last_write [THEN conjunct1, OF _ refl]) (simp add: e)
  also have "\<dots> = Some ''v''" unfolding e by simp
  finally show ?thesis .
qed

text \<open>
  A write fenced by a lease commits exactly while its token holds the lease: a former holder's
  write, arriving after another token acquired the key, reports the lost lease and leaves the
  byte store unchanged, and its fenced snapshot renewal fails without touching the invalidation
  store, whatever lease operations happened in between.
\<close>

theorem stale_fenced_write_rejected:
  assumes "hm_ok locks" and "try_once key b ttl now locks = (locks', True)" and "a \<noteq> b"
    and "list_all (\<lambda>op. \<not> acquires key a op) ops" and "final = foldl lease_step locks' ops"
    and "pr = \<lparr>proof_key = key, proof_token = a, proof_authority = MemoryAuthority\<rparr>"
  shows "write_with_lease k mutation pr t final u m = (m, Inr WriteLeaseLost)
    \<and> fst (renew_snapshot_with_lease before after pr t final scope kind snapshot u s) = s
    \<and> (before = None \<longrightarrow> snd (renew_snapshot_with_lease before after pr t final scope kind snapshot u s) = Inl (SnapLease LeaseLost))
    \<and> write_with_lease k (LeasedSet v d) (pr\<lparr>proof_token := b\<rparr>) now locks' u m
        = (if while_held key b now locks' then (bytes_set k v d u m, Inr Committed) else (m, Inr WriteLeaseLost))"
proof -
  have "hm_ok locks'" using assms(1,2) hm_ok_lease_step [of locks "OpTry key b ttl now"] by simp
  then have "not_holder key a locks'" using try_once_True [OF assms(2)] assms(3) by (simp add: not_holder_def)
  then have "not_holder key a final" using not_holder_run assms(4,5) by simp
  then have "\<not> while_held key a t final" by (auto simp: not_holder_def while_held_def split: option.splits)
  then show ?thesis
    by (auto simp: write_with_lease_def renew_snapshot_with_lease_def with_memory_ownership_def assms(6)
        snapshot_check_cancellation_def split: option.splits)
qed

theorem stale_fenced_write_rejected_witness:
  "write_with_lease ''k'' LeasedRemove \<lparr>proof_key = ''k'', proof_token = LeaseToken ''a'', proof_authority = MemoryAuthority\<rparr> 5
     (foldl lease_step (fst (try_once ''k'' (LeaseToken ''b'') (LeaseTtl 1000) 4 [])) [OpRelease ''k'' ''b'']) 6 []
   = ([], Inr WriteLeaseLost)"
  by (rule stale_fenced_write_rejected [of "[]" "''k''" "LeaseToken ''b''" "LeaseTtl 1000" 4 _ "LeaseToken ''a''",
        OF _ _ _ _ refl refl, THEN conjunct1]) (simp_all add: try_once_def)

end
