(* ===== verification/Amalgam_Commits.thy ===== *)
theory Amalgam_Commits
  imports Amalgam_Read_Facts Amalgam_Stores
begin

text \<open>
  \<open>cache/write.rs\<close> and \<open>cache/memory_inline.rs\<close>: the mutations of a key and their pipeline through
  the first level, the second level and the backplane. A site is the shared state of one cache
  together with the second level it writes to and the commands its backplane accepted. What other
  operations do between two accesses is a function on sites; the encoder, the backend, the lease of
  an origin and the backplane are parameters. A scheduled continuation is run to its end: its
  result is the one its receipt delivers, and what the caller does meanwhile is interference.
\<close>

section \<open>Sites and environments\<close>

record ('v, 'b) site =
  sv_worker :: "'v worker"
  sv_backend :: 'b
  sv_published :: "backplane_command list"

type_synonym ('v, 'b, 'a) site_result = "('v, 'b) site \<times> (cache_error + 'a)"

definition on_worker :: "('v worker \<Rightarrow> 'v worker) \<Rightarrow> ('v, 'b) site \<Rightarrow> ('v, 'b) site" where
  "on_worker f s = s\<lparr>sv_worker := f (sv_worker s)\<rparr>"

datatype backend_request = BackendSet string string "duration option" | BackendRemove string

record ('v, 'l, 'b) commit_env =
  ce_reads :: "'v read_env"
  ce_wait :: "nat \<Rightarrow> ('v, 'b) site \<Rightarrow> ('v, 'b) site"
  ce_valid :: "entry_options \<Rightarrow> cache_error + unit"
  ce_jitter :: "config_error + jitter_sample"
  ce_encode :: "nat \<Rightarrow> 'v distributed_snapshot \<Rightarrow> cache_error + string"
  ce_decode :: "nat \<Rightarrow> string \<Rightarrow> cache_error + 'v distributed_snapshot"
  ce_proof :: "nat \<Rightarrow> 'l \<Rightarrow> lease_error + lease_proof"
  ce_lost :: "nat \<Rightarrow> 'l \<Rightarrow> bool"
  ce_fetch :: "nat \<Rightarrow> string \<Rightarrow> 'b \<Rightarrow> cache_error + string option"
  ce_plain :: "nat \<Rightarrow> backend_request \<Rightarrow> 'b \<Rightarrow> 'b \<times> (cache_error + unit)"
  ce_leased :: "nat \<Rightarrow> string \<Rightarrow> leased_mutation \<Rightarrow> lease_proof \<Rightarrow> 'b \<Rightarrow> 'b \<times> (cache_error + leased_write_outcome)"
  ce_publish :: "nat \<Rightarrow> backplane_command \<Rightarrow> cache_error + unit"
  ce_label :: "marker_kind \<Rightarrow> string"
  ce_lane :: "string \<Rightarrow> nat"
  ce_locker :: bool
  ce_revision :: "nat option"

abbreviation ce_now :: "('v, 'l, 'b) commit_env \<Rightarrow> nat \<Rightarrow> timestamp" where
  "ce_now env \<equiv> re_now (ce_reads env)"

type_synonym commit_receipt_value = "(cache_error, cache_error mutation_report) mutation_receipt"

section \<open>Ownership of an origin\<close>

definition cluster_proof :: "('v, 'l, 'b) commit_env \<Rightarrow> nat \<Rightarrow> 'l cluster_participation \<Rightarrow> cache_error + lease_proof option" where
  "cluster_proof env n participation =
     (case participation of
        ClusterLocal \<Rightarrow> Inr None
      | ClusterFenced l \<Rightarrow> (case ce_proof env n l of Inl er \<Rightarrow> Inl (ErrLease er) | Inr p \<Rightarrow> Inr (Some p))
      | ClusterCooperative l \<Rightarrow> if ce_lost env n l then Inl (ErrLease LeaseLost) else Inr None)"

definition flight_proof :: "('v, 'l, 'b) commit_env \<Rightarrow> nat \<Rightarrow> 'l flight_guard option \<Rightarrow> cache_error + lease_proof option" where
  "flight_proof env n flight = (case flight of None \<Rightarrow> Inr None | Some g \<Rightarrow> cluster_proof env n (fg_lease g))"

definition is_fenced :: "'l cluster_participation \<Rightarrow> bool" where
  "is_fenced participation = (case participation of ClusterFenced _ \<Rightarrow> True | _ \<Rightarrow> False)"

definition fenced_flight :: "'l flight_guard option \<Rightarrow> bool" where
  "fenced_flight flight = (case flight of None \<Rightarrow> False | Some g \<Rightarrow> is_fenced (fg_lease g))"

datatype origin_version = VersionMemory revision_snapshot | VersionOrdered lane_fence

record 'l origin_commit =
  oc_guard :: "'l flight_guard"
  oc_started_at :: origin_version

fun version_is_current :: "string \<Rightarrow> origin_version \<Rightarrow> 'v worker \<Rightarrow> bool" where
  "version_is_current key (VersionMemory s) w = origin_is_current s (wk_memory w)"
| "version_is_current key (VersionOrdered f) w = passive_is_current f (worker_lane key w) (wk_epoch w)"

datatype write_plan = InlineMemory | GeneralPlan

definition WritePlan_select :: "'v cache_config \<Rightarrow> bool \<Rightarrow> write_plan" where
  "WritePlan_select cfg locker = (if \<not> cc_hybrid cfg \<and> \<not> cc_backplane cfg \<and> \<not> locker then InlineMemory else GeneralPlan)"

definition capture_origin ::
  "'v cache_config \<Rightarrow> ('v, 'l, 'b) commit_env \<Rightarrow> string \<Rightarrow> 'l flight_guard \<Rightarrow> 'v worker \<Rightarrow> ('v, 'l origin_commit) worker_result" where
  "capture_origin cfg env key guard w =
     (case WritePlan_select cfg (ce_locker env) of
        InlineMemory \<Rightarrow>
          (case capture_revision key (ce_revision env) (wk_memory w) of
             Inl _ \<Rightarrow> (w, Inl (ErrRecovery recovery_error.GenerationExhausted))
           | Inr (m, s) \<Rightarrow> (w\<lparr>wk_memory := m\<rparr>, Inr \<lparr>oc_guard = guard, oc_started_at = VersionMemory s\<rparr>))
      | GeneralPlan \<Rightarrow> (w, Inr \<lparr>oc_guard = guard, oc_started_at = VersionOrdered (lane_snapshot (worker_lane key w) (wk_epoch w))\<rparr>))"

section \<open>The lane of a key\<close>

definition lock_lane :: "string \<Rightarrow> ('v, 'b) site \<Rightarrow> ('v, 'b) site" where
  "lock_lane key = on_worker (\<lambda>w. w\<lparr>wk_locked := key # wk_locked w\<rparr>)"

definition unlock_lane :: "string \<Rightarrow> ('v, 'b) site \<Rightarrow> ('v, 'b) site" where
  "unlock_lane key = on_worker (\<lambda>w. w\<lparr>wk_locked := remove1 key (wk_locked w)\<rparr>)"

text \<open>\<open>lane.advance\<close> on the lane of the key in the shared state.\<close>

definition advance_key :: "string \<Rightarrow> timestamp \<Rightarrow> 'v worker \<Rightarrow> ('v, lane_fence) worker_result" where
  "advance_key key t w =
     (case lane_advance t (wk_epoch w) (worker_lane key w) of
        Inl er \<Rightarrow> (w, Inl (ErrRecovery er))
      | Inr (kl, f) \<Rightarrow> (w\<lparr>wk_lanes := hm_insert key kl (wk_lanes w)\<rparr>, Inr f))"

section \<open>Stages\<close>

datatype prepared_data =
    PD_Absent
  | PD_Skipped
  | PD_Ready data_mutation
  | PD_Failed cache_error
  | PD_ColdExpire cache_error timestamp

datatype 'v local_commit = LocalApplied local_effect | LocalStore "'v entry"

definition l2_text :: "'v cache_config \<Rightarrow> string \<Rightarrow> string" where
  "l2_text cfg key = (case key_deref (l2_key (cc_distributed_key cfg) key) of Some t \<Rightarrow> t | None \<Rightarrow> [])"

definition data_command ::
  "'v cache_config \<Rightarrow> backplane_action \<Rightarrow> string \<Rightarrow> timestamp \<Rightarrow> entry_options \<Rightarrow> backplane_command option" where
  "data_command cfg action key t opts =
     (if opt_skip_backplane_notifications opts \<or> \<not> cc_backplane cfg then None
      else Some (DataCommand \<lparr>msg_source_id = cc_instance cfg, msg_timestamp = t, msg_action = action, msg_key = l2_text cfg key\<rparr>))"

fun mutation_request :: "string \<Rightarrow> data_mutation \<Rightarrow> duration option \<Rightarrow> backend_request" where
  "mutation_request physical (MutSet bytes _) ttl = BackendSet physical bytes ttl"
| "mutation_request physical (MutExpire bytes _) ttl = BackendSet physical bytes ttl"
| "mutation_request physical MutRemove ttl = BackendRemove physical"

fun mutation_leased :: "data_mutation \<Rightarrow> duration option \<Rightarrow> leased_mutation" where
  "mutation_leased (MutSet bytes _) ttl = LeasedSet bytes ttl"
| "mutation_leased (MutExpire bytes _) ttl = LeasedSet bytes ttl"
| "mutation_leased MutRemove ttl = LeasedRemove"

fun mutation_event :: "string \<Rightarrow> data_mutation \<Rightarrow> cache_event" where
  "mutation_event key MutRemove = DistributedRemove_event key"
| "mutation_event key (MutSet _ _) = DistributedSet_event key"
| "mutation_event key (MutExpire _ _) = DistributedSet_event key"

definition backend_write ::
  "'v cache_config \<Rightarrow> ('v, 'l, 'b) commit_env \<Rightarrow> nat \<Rightarrow> string \<Rightarrow> data_mutation \<Rightarrow> duration option \<Rightarrow> lease_proof option \<Rightarrow> 'b
   \<Rightarrow> 'b \<times> (cache_error + unit)" where
  "backend_write cfg env n key data ttl proof b =
     (case proof of
        None \<Rightarrow> ce_plain env n (mutation_request (l2_text cfg key) data ttl) b
      | Some p \<Rightarrow>
          (case ce_leased env n (l2_text cfg key) (mutation_leased data ttl) p b of
             (b, Inl er) \<Rightarrow> (b, Inl er)
           | (b, Inr Committed) \<Rightarrow> (b, Inr ())
           | (b, Inr WriteLeaseLost) \<Rightarrow> (b, Inl (ErrLease LeaseLost))))"

definition write_data ::
  "'v cache_config \<Rightarrow> ('v, 'l, 'b) commit_env \<Rightarrow> nat \<Rightarrow> string \<Rightarrow> data_mutation \<Rightarrow> 'l flight_guard option \<Rightarrow> ('v, 'b) site
   \<Rightarrow> ('v, 'b, cache_error effect_outcome) site_result" where
  "write_data cfg env n key data flight s =
     (if \<not> cc_hybrid cfg then (s, Inr NotConfigured)
      else let ttl = mutation_remaining_ttl data (ce_now env n)
           in if ttl = Some 0 then (s, Inr (EffectSkipped SkipPhysicallyExpired))
              else case flight_proof env n flight of
                     Inl er \<Rightarrow> (s, Inl er)
                   | Inr proof \<Rightarrow>
                       let s = ce_wait env n s
                       in case backend_write cfg env n key data ttl proof (sv_backend s) of
                            (b, Inl er) \<Rightarrow> (s\<lparr>sv_backend := b\<rparr>, Inl er)
                          | (b, Inr _) \<Rightarrow>
                              (on_worker (emit (mutation_event key data) \<circ> close_circuit DistributedCircuit) (s\<lparr>sv_backend := b\<rparr>),
                               Inr EffectApplied))"

definition pending_expiry :: "pending_mutation \<Rightarrow> timestamp \<Rightarrow> timestamp" where
  "pending_expiry data t =
     (case data of
        Commit (MutSet _ physical) _ \<Rightarrow> physical
      | Commit (MutExpire _ physical) _ \<Rightarrow> physical
      | FencedCommit (MutSet _ physical) _ \<Rightarrow> physical
      | FencedCommit (MutExpire _ physical) _ \<Rightarrow> physical
      | _ \<Rightarrow> saturating_add t (from_secs 600))"

definition enqueue_data ::
  "('v, 'l, 'b) commit_env \<Rightarrow> nat \<Rightarrow> string \<Rightarrow> pending_mutation \<Rightarrow> recovery_action \<Rightarrow> timestamp \<Rightarrow> lane_fence \<Rightarrow> 'v worker
   \<Rightarrow> ('v, bool) worker_result" where
  "enqueue_data env n key data action t fence w =
     (case wk_recovery w of
        None \<Rightarrow> (w, Inr False)
      | Some service \<Rightarrow>
          let item = \<lparr>item_key = key, item_action = action, item_timestamp = t, item_expires_at = pending_expiry data t,
                       item_remaining_retries = None\<rparr>;
              current = (\<lambda>f. kl_generation (worker_lane key w) = fence_generation f);
              (service', r) = enqueue_versioned (ce_now env n) current (DataWork item data)
                 (Fence (ce_lane env key) (lf_generation fence)) service;
              w = w\<lparr>wk_recovery := Some service'\<rparr>
          in case r of
               Inl er \<Rightarrow> (w, Inl (ErrRecovery er))
             | Inr outcome \<Rightarrow> (w, Inr (case outcome of EnqQueued _ \<Rightarrow> True | EnqReplaced _ \<Rightarrow> True | _ \<Rightarrow> False)))"

definition commit_local ::
  "('v, 'l, 'b) commit_env \<Rightarrow> nat \<Rightarrow> string \<Rightarrow> 'v local_commit \<Rightarrow> 'l flight_guard option \<Rightarrow> ('v, 'b) site
   \<Rightarrow> ('v, 'b, local_effect) site_result" where
  "commit_local env n key local flight s =
     (case local of
        LocalApplied effect \<Rightarrow> (s, Inr effect)
      | LocalStore e \<Rightarrow>
          (case flight_proof env n flight of
             Inl er \<Rightarrow> (s, Inl er)
           | Inr _ \<Rightarrow>
               let s = ce_wait env n s; (w, admission) = insert_at (ce_reads env) n key e (ce_now env n) (sv_worker s)
               in (s\<lparr>sv_worker := w\<rparr>, Inr (LocalStored admission))))"

fun command_label :: "('v, 'l, 'b) commit_env \<Rightarrow> backplane_command \<Rightarrow> string" where
  "command_label env (DataCommand m) = msg_key m"
| "command_label env (MarkerCmd c) = ''marker:'' @ ce_label env (marker_kind_of (cmd_marker c))"

definition publish_command ::
  "'v cache_config \<Rightarrow> ('v, 'l, 'b) commit_env \<Rightarrow> nat \<Rightarrow> backplane_command \<Rightarrow> ('v, 'b) site \<Rightarrow> ('v, 'b, unit) site_result" where
  "publish_command cfg env n command s =
     (if \<not> cc_backplane cfg then (s, Inr ())
      else case circuit_admits BackplaneCircuit (ce_now env n) (sv_worker s) of
             (w, False) \<Rightarrow> (s\<lparr>sv_worker := w\<rparr>, Inl (ErrCircuitOpen BackplaneCircuit))
           | (w, True) \<Rightarrow>
               let s = ce_wait env n (s\<lparr>sv_worker := w\<rparr>)
               in case ce_publish env n command of
                    Inl er \<Rightarrow> (s, Inl er)
                  | Inr _ \<Rightarrow>
                      (on_worker (emit (MessagePublished_event (command_label env command)) \<circ> close_circuit BackplaneCircuit)
                         (s\<lparr>sv_published := sv_published s @ [command]\<rparr>), Inr ()))"

section \<open>The pipeline of a mutation\<close>

datatype commit_mode = BackgroundCommit | ForegroundCommit

definition schedule_receipt :: "cache_error + cache_error mutation_report \<Rightarrow> commit_receipt_value" where
  "schedule_receipt r = ReceiptScheduled (Some (TaskCompleted r))"

definition commit_receipt :: "commit_mode \<Rightarrow> cache_error + cache_error mutation_report \<Rightarrow> cache_error + commit_receipt_value" where
  "commit_receipt mode r =
     (case mode of
        BackgroundCommit \<Rightarrow> Inr (schedule_receipt r)
      | ForegroundCommit \<Rightarrow> (case r of Inl er \<Rightarrow> Inl er | Inr report \<Rightarrow> Inr (ReceiptCompleted report)))"

definition pipeline_receipt :: "commit_mode \<Rightarrow> cache_error + commit_receipt_value \<Rightarrow> cache_error + commit_receipt_value" where
  "pipeline_receipt mode r =
     (case mode of
        ForegroundCommit \<Rightarrow> r
      | BackgroundCommit \<Rightarrow>
          Inr (case r of
                 Inl er \<Rightarrow> schedule_receipt (Inl er)
               | Inr receipt \<Rightarrow>
                   (case receipt_wait ErrCacheClosed receipt of
                      waited.Returned result \<Rightarrow> schedule_receipt result
                    | WaiterPanics \<Rightarrow> ReceiptScheduled (Some TaskPanicked))))"

fun recovery_action_of :: "backplane_action \<Rightarrow> recovery_action" where
  "recovery_action_of SetAction = ActionSet"
| "recovery_action_of RemoveAction = ActionRemove"
| "recovery_action_of ExpireAction = ActionExpire"

definition command_action :: "backplane_command option \<Rightarrow> recovery_action" where
  "command_action command = (case command of Some (DataCommand m) \<Rightarrow> recovery_action_of (msg_action m) | _ \<Rightarrow> ActionSet)"

definition failed_outcome :: "bool \<Rightarrow> cache_error \<Rightarrow> cache_error effect_outcome" where
  "failed_outcome is_queued cause = (if is_queued then EffectRecoveryQueued cause else EffectFailedSuppressed cause)"

text \<open>The last stage, which keeps the lane until the notification is settled.\<close>

definition commit_publish ::
  "'v cache_config \<Rightarrow> ('v, 'l, 'b) commit_env \<Rightarrow> nat \<Rightarrow> string \<Rightarrow> backplane_command option \<Rightarrow> entry_options \<Rightarrow> recovery_action \<Rightarrow> timestamp
   \<Rightarrow> lane_fence \<Rightarrow> local_effect \<Rightarrow> cache_error effect_outcome \<Rightarrow> ('v, 'b) site \<Rightarrow> ('v, 'b, cache_error mutation_report) site_result" where
  "commit_publish cfg env n key command opts action t fence local distributed s =
     (let report = (\<lambda>backplane. Inr \<lparr>report_local = local, report_distributed = distributed, report_backplane = backplane\<rparr>) in
      case command of
        None \<Rightarrow> (unlock_lane key s, report (if cc_backplane cfg then EffectSkipped SkipPolicy else NotConfigured))
      | Some c \<Rightarrow>
          (case publish_command cfg env n c s of
             (s, Inr _) \<Rightarrow> (unlock_lane key s, report EffectApplied)
           | (s, Inl er) \<Rightarrow>
               let w = failure key (ce_now env n) er (sv_worker s)
               in case enqueue_data env n key (Notify c) action t fence w of
                    (w, Inl er') \<Rightarrow> (unlock_lane key (s\<lparr>sv_worker := w\<rparr>), Inl er')
                  | (w, Inr is_queued) \<Rightarrow>
                      (unlock_lane key (s\<lparr>sv_worker := w\<rparr>),
                       if opt_rethrow_backplane_exceptions opts then Inl er else report (failed_outcome is_queued er))))"

text \<open>A failed second-level stage: the work is queued, and the first level is still committed unless the error is rethrown.\<close>

definition commit_failed ::
  "('v, 'l, 'b) commit_env \<Rightarrow> nat \<Rightarrow> string \<Rightarrow> pending_mutation \<Rightarrow> entry_options \<Rightarrow> recovery_action \<Rightarrow> timestamp \<Rightarrow> lane_fence
   \<Rightarrow> 'l flight_guard option \<Rightarrow> 'v local_commit \<Rightarrow> cache_error \<Rightarrow> ('v, 'b) site \<Rightarrow> ('v, 'b, commit_receipt_value) site_result" where
  "commit_failed env n key pending opts action t fence flight local cause s =
     (case enqueue_data env n key pending action t fence (sv_worker s) of
        (w, Inl er) \<Rightarrow> (unlock_lane key (s\<lparr>sv_worker := w\<rparr>), Inl er)
      | (w, Inr is_queued) \<Rightarrow>
          if opt_rethrow_distributed_exceptions opts then (unlock_lane key (s\<lparr>sv_worker := w\<rparr>), Inl cause)
          else (case commit_local env n key local flight (s\<lparr>sv_worker := w\<rparr>) of
                  (s, Inl er) \<Rightarrow> (unlock_lane key s, Inl er)
                | (s, Inr effect) \<Rightarrow>
                    (unlock_lane key s,
                     Inr (ReceiptCompleted \<lparr>report_local = effect, report_distributed = failed_outcome is_queued cause,
                                             report_backplane = EffectSkipped SkipPolicy\<rparr>))))"

definition commit_stored ::
  "'v cache_config \<Rightarrow> ('v, 'l, 'b) commit_env \<Rightarrow> nat \<Rightarrow> string \<Rightarrow> backplane_command option \<Rightarrow> entry_options \<Rightarrow> recovery_action \<Rightarrow> timestamp
   \<Rightarrow> lane_fence \<Rightarrow> 'l flight_guard option \<Rightarrow> 'v local_commit \<Rightarrow> cache_error effect_outcome \<Rightarrow> ('v, 'b) site
   \<Rightarrow> ('v, 'b, commit_receipt_value) site_result" where
  "commit_stored cfg env n key command opts action t fence flight local distributed s =
     (case commit_local env n key local flight s of
        (s, Inl er) \<Rightarrow> (unlock_lane key s, Inl er)
      | (s, Inr effect) \<Rightarrow>
          let s = on_worker (\<lambda>w. w\<lparr>wk_recovery := map_option (fst \<circ> supersede_through key (lf_generation fence)) (wk_recovery w)\<rparr>) s;
              mode = (if opt_allow_background_backplane_operations opts \<and> command \<noteq> None then BackgroundCommit else ForegroundCommit);
              (s, r) = commit_publish cfg env (n + 1) key command opts action t fence effect distributed s
          in (s, commit_receipt mode r))"

definition lease_refused :: "cache_error \<Rightarrow> bool" where
  "lease_refused er = (case er of ErrLease le \<Rightarrow> (case le of LeaseBackend _ \<Rightarrow> False | _ \<Rightarrow> True) | _ \<Rightarrow> False)"

definition commit_data ::
  "'v cache_config \<Rightarrow> ('v, 'l, 'b) commit_env \<Rightarrow> nat \<Rightarrow> string \<Rightarrow> prepared_data \<Rightarrow> backplane_command option \<Rightarrow> entry_options
   \<Rightarrow> lane_fence \<Rightarrow> 'l flight_guard option \<Rightarrow> 'v local_commit \<Rightarrow> ('v, 'b) site \<Rightarrow> ('v, 'b, commit_receipt_value) site_result" where
  "commit_data cfg env n key data command opts fence flight local s =
     (let t = (case kl_timestamp (worker_lane key (sv_worker s)) of Some t \<Rightarrow> t | None \<Rightarrow> ce_now env n);
          action = command_action command
      in case data of
           PD_Absent \<Rightarrow> commit_stored cfg env (n + 1) key command opts action t fence flight local NotConfigured s
         | PD_Skipped \<Rightarrow> commit_stored cfg env (n + 1) key command opts action t fence flight local (EffectSkipped SkipPolicy) s
         | PD_Failed er \<Rightarrow>
             (case commit_local env (n + 1) key local flight s of
                (s, Inl er') \<Rightarrow> (unlock_lane key s, Inl er')
              | (s, Inr effect) \<Rightarrow>
                  (unlock_lane key s,
                   Inr (ReceiptCompleted \<lparr>report_local = effect, report_distributed = EffectFailedSuppressed er,
                                           report_backplane = EffectSkipped SkipPolicy\<rparr>)))
         | PD_ColdExpire cause logical \<Rightarrow>
             commit_failed env (n + 1) key (ColdExpire logical command) opts ActionExpire t fence flight local cause s
         | PD_Ready mutation \<Rightarrow>
             let (w, admitted) = circuit_admits DistributedCircuit (ce_now env n) (sv_worker s); s = s\<lparr>sv_worker := w\<rparr>;
                 (s, r) = (if admitted then write_data cfg env n key mutation flight s else (s, Inl (ErrCircuitOpen DistributedCircuit)))
             in case r of
                  Inr outcome \<Rightarrow> commit_stored cfg env (n + 1) key command opts action t fence flight local outcome s
                | Inl er \<Rightarrow>
                    let s = on_worker (failure key (ce_now env n) er) s
                    in if lease_refused er then (unlock_lane key s, Inl er)
                       else commit_failed env (n + 1) key
                              (if fenced_flight flight then FencedCommit mutation command
                               else Commit mutation command)
                              opts action t fence flight local er s)"

section \<open>Writing an entry\<close>

definition is_cancellation :: "cache_error \<Rightarrow> bool" where
  "is_cancellation er = (case er of ErrOperationCancelled _ \<Rightarrow> True | ErrFactoryCancelled _ \<Rightarrow> True | _ \<Rightarrow> False)"

text \<open>A codec failure is reported and ends the operation only if it is a cancellation or the options ask for it.\<close>

definition codec_failed ::
  "('v, 'l, 'b) commit_env \<Rightarrow> nat \<Rightarrow> string \<Rightarrow> entry_options \<Rightarrow> cache_error \<Rightarrow> 'v worker \<Rightarrow> ('v, prepared_data) worker_result" where
  "codec_failed env n key opts er w =
     (let w = failure key (ce_now env n) er w
      in (w, if is_cancellation er \<or> opt_rethrow_serialization_exceptions opts then Inl er else Inr (PD_Failed er)))"

definition prepare_set ::
  "'v cache_config \<Rightarrow> ('v, 'l, 'b) commit_env \<Rightarrow> nat \<Rightarrow> string \<Rightarrow> 'v entry \<Rightarrow> entry_options \<Rightarrow> 'v worker
   \<Rightarrow> ('v, prepared_data) worker_result" where
  "prepare_set cfg env n key e opts w =
     (if \<not> cc_hybrid cfg then (w, Inr PD_Absent)
      else if opt_skip_distributed_write opts then (w, Inr PD_Skipped)
      else case snapshot_from_entry_with_options e opts (md_inserted_at (en_meta e)) of
             Inl er \<Rightarrow> (w, Inl er)
           | Inr snap \<Rightarrow>
               (case ce_encode env n snap of
                  Inr bytes \<Rightarrow> (w, Inr (PD_Ready (MutSet bytes (de_physical_ticks (ds_entry snap)))))
                | Inl er \<Rightarrow> codec_failed env n key opts er w))"

definition inline_receipt :: "local_effect \<Rightarrow> commit_receipt_value" where
  "inline_receipt effect = ReceiptCompleted \<lparr>report_local = effect, report_distributed = NotConfigured, report_backplane = NotConfigured\<rparr>"

text \<open>\<open>inline_entry\<close>: without a second level, backplane and locker the write is one critical section of the store.\<close>

definition inline_entry ::
  "('v, 'l, 'b) commit_env \<Rightarrow> nat \<Rightarrow> string \<Rightarrow> 'v entry \<Rightarrow> entry_options \<Rightarrow> revision_snapshot option \<Rightarrow> 'v worker
   \<Rightarrow> ('v, commit_receipt_value) worker_result" where
  "inline_entry env n key e opts version w =
     (let reads = ce_reads env; now = ce_now env n;
          forget = (\<lambda>m. case version of None \<Rightarrow> m | Some v \<Rightarrow> drop_origin key v m)
      in case (case re_cancel reads n of Some r \<Rightarrow> Some r | None \<Rightarrow> re_cancel reads (n + 1)) of
           Some r \<Rightarrow> (w\<lparr>wk_memory := forget (wk_memory w)\<rparr>, Inl (ErrOperationCancelled r))
         | None \<Rightarrow>
             if opt_skip_memory_write opts
             then let (m, current) = (case version of
                        None \<Rightarrow> (advance_origin key (wk_memory w), True)
                      | Some v \<Rightarrow> skip_revision key v (wk_memory w))
                  in (w\<lparr>wk_memory := forget m\<rparr>,
                      Inr (inline_receipt (if current then LocalSkipped else LocalStored (RejectedAdmission VersionChanged))))
             else let (m, admission) = insert_internal (wk_ep w) (re_instant reads n) (re_addr reads) key
                        \<lparr>arc_addr = re_addr reads, arc_entry = e\<rparr> now
                        (case version of None \<Rightarrow> Mutation | Some v \<Rightarrow> ExpectOrigin v) (re_capture reads) SetEvent (wk_memory w)
                  in (w\<lparr>wk_memory := forget m\<rparr>, Inr (inline_receipt (LocalStored admission))))"

definition commit_mode_of :: "'v cache_config \<Rightarrow> entry_options \<Rightarrow> commit_mode" where
  "commit_mode_of cfg opts = (if opt_allow_background_distributed_operations opts \<and> cc_hybrid cfg then BackgroundCommit else ForegroundCommit)"

definition superseded_report :: "'v cache_config \<Rightarrow> cache_error mutation_report" where
  "superseded_report cfg =
     \<lparr>report_local = LocalStored (RejectedAdmission VersionChanged),
      report_distributed = (if cc_hybrid cfg then EffectSkipped SkipSuperseded else NotConfigured),
      report_backplane = (if cc_backplane cfg then EffectSkipped SkipSuperseded else NotConfigured)\<rparr>"

definition is_ready :: "prepared_data \<Rightarrow> bool" where
  "is_ready data = (case data of PD_Ready _ \<Rightarrow> True | _ \<Rightarrow> False)"

definition local_stage ::
  "('v, 'l, 'b) commit_env \<Rightarrow> nat \<Rightarrow> string \<Rightarrow> 'v entry \<Rightarrow> entry_options \<Rightarrow> 'l flight_guard option \<Rightarrow> prepared_data \<Rightarrow> ('v, 'b) site
   \<Rightarrow> ('v, 'b, 'v local_commit) site_result" where
  "local_stage env n key e opts flight data s =
     (if opt_skip_memory_write opts then (s, Inr (LocalApplied LocalSkipped))
      else case flight_proof env n flight of
             Inl er \<Rightarrow> (s, Inl er)
           | Inr proof \<Rightarrow>
               if proof \<noteq> None \<and> is_ready data then (s, Inr (LocalStore e))
               else let s = ce_wait env n s; (w, admission) = insert_at (ce_reads env) n key e (ce_now env n) (sv_worker s)
                    in (s\<lparr>sv_worker := w\<rparr>, Inr (LocalApplied (LocalStored admission))))"

definition ordered_write ::
  "'v cache_config \<Rightarrow> ('v, 'l, 'b) commit_env \<Rightarrow> nat \<Rightarrow> string \<Rightarrow> 'v entry \<Rightarrow> entry_options \<Rightarrow> 'l flight_guard option \<Rightarrow> prepared_data \<Rightarrow> ('v, 'b) site
   \<Rightarrow> ('v, 'b, commit_receipt_value) site_result" where
  "ordered_write cfg env n key e opts flight data s =
     (case advance_key key (md_created (en_meta e)) (sv_worker s) of
        (w, Inl er) \<Rightarrow> (unlock_lane key s, Inl er)
      | (w, Inr fence) \<Rightarrow>
          (case local_stage env n key e opts flight data (s\<lparr>sv_worker := w\<rparr>) of
             (s, Inl er) \<Rightarrow> (unlock_lane key s, Inl er)
           | (s, Inr local) \<Rightarrow>
               let (s, r) = commit_data cfg env (n + 1) key data (data_command cfg SetAction key (md_created (en_meta e)) opts) opts fence flight local s
               in (s, pipeline_receipt (commit_mode_of cfg opts) r)))"

definition ordered_entry ::
  "'v cache_config \<Rightarrow> ('v, 'l, 'b) commit_env \<Rightarrow> nat \<Rightarrow> string \<Rightarrow> 'v entry \<Rightarrow> entry_options \<Rightarrow> 'l origin_commit option \<Rightarrow> ('v, 'b) site
   \<Rightarrow> ('v, 'b, commit_receipt_value) site_result" where
  "ordered_entry cfg env n key e opts flight s =
     (case prepare_set cfg env n key e opts (sv_worker s) of
        (w, Inl er) \<Rightarrow> (s\<lparr>sv_worker := w\<rparr>, Inl er)
      | (w, Inr data) \<Rightarrow>
          let s = lock_lane key (ce_wait env n (s\<lparr>sv_worker := w\<rparr>))
          in case flight of
               None \<Rightarrow> ordered_write cfg env (n + 1) key e opts None data s
             | Some oc \<Rightarrow>
                 (case flight_proof env n (Some (oc_guard oc)) of
                    Inl er \<Rightarrow> (unlock_lane key s, Inl er)
                  | Inr _ \<Rightarrow>
                      if version_is_current key (oc_started_at oc) (sv_worker s)
                      then ordered_write cfg env (n + 1) key e opts (Some (oc_guard oc)) data s
                      else (unlock_lane key s, Inr (ReceiptCompleted (superseded_report cfg)))))"

text \<open>An origin version of the ordered plan never reaches the inline plan; the code panics there.\<close>

definition write_entry ::
  "'v cache_config \<Rightarrow> ('v, 'l, 'b) commit_env \<Rightarrow> nat \<Rightarrow> string \<Rightarrow> 'v entry \<Rightarrow> entry_options \<Rightarrow> 'l origin_commit option \<Rightarrow> ('v, 'b) site
   \<Rightarrow> ('v, 'b, commit_receipt_value) site_result" where
  "write_entry cfg env n key e opts flight s =
     (case WritePlan_select cfg (ce_locker env) of
        GeneralPlan \<Rightarrow> ordered_entry cfg env n key e opts flight s
      | InlineMemory \<Rightarrow>
          (case map_option oc_started_at flight of
             Some (VersionOrdered _) \<Rightarrow> (s, Inl ErrFactoryPanicked)
           | Some (VersionMemory v) \<Rightarrow> (let (w, r) = inline_entry env n key e opts (Some v) (sv_worker s) in (s\<lparr>sv_worker := w\<rparr>, r))
           | None \<Rightarrow> (let (w, r) = inline_entry env n key e opts None (sv_worker s) in (s\<lparr>sv_worker := w\<rparr>, r))))"

section \<open>Setting a value and storing the product of an origin\<close>

definition fresh_entry ::
  "('v, 'l, 'b) commit_env \<Rightarrow> nat \<Rightarrow> 'v \<Rightarrow> entry_options \<Rightarrow> timestamp \<Rightarrow> tag list \<Rightarrow> string option \<Rightarrow> timestamp option \<Rightarrow> cache_error + 'v entry" where
  "fresh_entry env n v opts created tags etag last_modified =
     (case ce_jitter env of
        Inl er \<Rightarrow> Inl (ErrConfig er)
      | Inr sample \<Rightarrow> lift_error ErrConfig (try_fresh_with_jitter v opts created (ce_now env n) sample tags etag last_modified))"

definition cache_set ::
  "'v cache_config \<Rightarrow> ('v, 'l, 'b) commit_env \<Rightarrow> string \<Rightarrow> 'v \<Rightarrow> entry_options \<Rightarrow> tag list \<Rightarrow> ('v, 'b) site
   \<Rightarrow> ('v, 'b, commit_receipt_value observed) site_result" where
  "cache_set cfg env key v opts tags s =
     (case copy_value (cc_cloner cfg) opts v of
        Inl er \<Rightarrow> (s, Inl er)
      | Inr v \<Rightarrow>
          (case fresh_entry env 1 v opts (ce_now env 0) tags None None of
             Inl er \<Rightarrow> (s, Inl er)
           | Inr e \<Rightarrow>
               (case write_entry cfg env 2 key e opts None s of
                  (s, Inl er) \<Rightarrow> (s, Inl er)
                | (s, Inr receipt) \<Rightarrow> (on_worker (emit (Set_event key)) s, Inr (receipt, OutStored, None)))))"

datatype product_origin = ProductConstant | ProductModified | ProductNotModified

record 'v factory_payload =
  fp_value :: 'v
  fp_options :: entry_options
  fp_etag :: "string option"
  fp_last_modified :: "timestamp option"
  fp_tags :: "tag list"
  fp_origin :: product_origin

definition is_superseded :: "commit_receipt_value \<Rightarrow> bool" where
  "is_superseded receipt =
     (case receipt of ReceiptCompleted report \<Rightarrow> report_local report = LocalStored (RejectedAdmission VersionChanged) | ReceiptScheduled _ \<Rightarrow> False)"

definition store_product ::
  "'v cache_config \<Rightarrow> ('v, 'l, 'b) commit_env \<Rightarrow> string \<Rightarrow> cache_error + 'v factory_payload \<Rightarrow> timestamp \<Rightarrow> 'l origin_commit \<Rightarrow> ('v, 'b) site
   \<Rightarrow> ('v, 'b, ('v \<times> commit_receipt_value) origin_completion) site_result" where
  "store_product cfg env key product started oc s =
     (case product of
        Inl er \<Rightarrow> (s, Inl er)
      | Inr p \<Rightarrow>
          (case (case ce_valid env (fp_options p) of Inl er \<Rightarrow> Inl er | Inr _ \<Rightarrow> flight_proof env 0 (Some (oc_guard oc))) of
             Inl er \<Rightarrow> (s, Inl er)
           | Inr _ \<Rightarrow>
               (case copy_value (cc_cloner cfg) (fp_options p) (fp_value p) of
                  Inl er \<Rightarrow> (s, Inl er)
                | Inr v \<Rightarrow>
                    (case fresh_entry env 1 v (fp_options p) started (fp_tags p) (fp_etag p) (fp_last_modified p) of
                       Inl er \<Rightarrow> (s, Inl er)
                     | Inr e \<Rightarrow>
                         (case write_entry cfg env 2 key e (fp_options p) (Some oc) s of
                            (s, Inl er) \<Rightarrow> (s, Inl er)
                          | (s, Inr receipt) \<Rightarrow>
                              (if is_superseded receipt then s else on_worker (emit (Set_event key)) s,
                               Inr (case fp_origin p of
                                      ProductConstant \<Rightarrow> CompletedConstant (v, receipt)
                                    | _ \<Rightarrow> CompletedFactory (v, receipt))))))))"

section \<open>Removing and expiring a key\<close>

datatype distributed_expire_policy = RetainStale | RemoveDistributed

datatype key_mutation_kind = KeyRemove | KeyExpire distributed_expire_policy

definition expired_snapshot :: "timestamp \<Rightarrow> 'v distributed_snapshot \<Rightarrow> cache_error + 'v distributed_snapshot" where
  "expired_snapshot now snap =
     DistributedSnapshot_new ((ds_entry snap)\<lparr>de_logical_ticks := min (de_logical_ticks (ds_entry snap)) now\<rparr>) (ds_inserted_at snap) (ds_retention snap)"

definition prepare_expire ::
  "'v cache_config \<Rightarrow> ('v, 'l, 'b) commit_env \<Rightarrow> nat \<Rightarrow> string \<Rightarrow> timestamp \<Rightarrow> entry_options \<Rightarrow> ('v, 'b) site \<Rightarrow> ('v, prepared_data) worker_result" where
  "prepare_expire cfg env n key now opts s =
     (case ce_fetch env n (l2_text cfg key) (sv_backend s) of
        Inl er \<Rightarrow> (failure key (ce_now env n) er (sv_worker s), Inr (PD_ColdExpire er now))
      | Inr None \<Rightarrow> (sv_worker s, Inr (PD_Ready MutRemove))
      | Inr (Some bytes) \<Rightarrow>
          (case ce_decode env n bytes of
             Inl er \<Rightarrow> codec_failed env n key opts er (sv_worker s)
           | Inr snap \<Rightarrow>
               (case expired_snapshot now snap of
                  Inl er \<Rightarrow> (sv_worker s, Inl er)
                | Inr expired \<Rightarrow>
                    (case ce_encode env n expired of
                       Inl er \<Rightarrow> codec_failed env n key opts er (sv_worker s)
                     | Inr out \<Rightarrow> (sv_worker s, Inr (PD_Ready (MutExpire out (de_physical_ticks (ds_entry expired)))))))))"

definition mutation_data ::
  "'v cache_config \<Rightarrow> ('v, 'l, 'b) commit_env \<Rightarrow> nat \<Rightarrow> string \<Rightarrow> key_mutation_kind \<Rightarrow> timestamp \<Rightarrow> entry_options \<Rightarrow> ('v, 'b) site
   \<Rightarrow> ('v, prepared_data) worker_result" where
  "mutation_data cfg env n key kind now opts s =
     (if opt_skip_distributed_write opts then (sv_worker s, Inr PD_Skipped)
      else if \<not> cc_hybrid cfg then (sv_worker s, Inr PD_Absent)
      else if kind = KeyExpire RetainStale then prepare_expire cfg env n key now opts s
      else (sv_worker s, Inr (PD_Ready MutRemove)))"

text \<open>
  Expiration replaces the representation it read, and only that one. \<open>mode\<close> is \<open>ExpectSame\<close> in the
  ordered plan and \<open>MutationOf\<close> in the inline plan, where the write also outdates running origins.
\<close>

definition memory_expire ::
  "('v, 'l, 'b) commit_env \<Rightarrow> nat \<Rightarrow> string \<Rightarrow> timestamp \<Rightarrow> ('v arc \<Rightarrow> 'v expected) \<Rightarrow> ('v retention \<Rightarrow> 'v retention) \<Rightarrow> ('v, 'b) site \<Rightarrow> ('v, 'b) site" where
  "memory_expire env n key now mode absent s =
     (let reads = ce_reads env; w = sv_worker s;
          (m, found) = store_read (wk_ep w) (re_instant reads n) key (Some now) (wk_memory w);
          s = ce_wait env n (s\<lparr>sv_worker := w\<lparr>wk_memory := m\<rparr>\<rparr>)
      in on_worker (\<lambda>w. w\<lparr>wk_memory :=
           (case found of
              None \<Rightarrow> absent (wk_memory w)
            | Some a \<Rightarrow> fst (insert_internal (wk_ep w) (re_instant reads (n + 1)) (re_addr reads) key
                \<lparr>arc_addr = re_addr reads, arc_entry = with_logical_expiration now (arc_entry a)\<rparr> now (mode a) (re_capture reads) ExpireEvent (wk_memory w)))\<rparr>) s)"

definition local_mutation ::
  "('v, 'l, 'b) commit_env \<Rightarrow> nat \<Rightarrow> string \<Rightarrow> key_mutation_kind \<Rightarrow> timestamp \<Rightarrow> entry_options \<Rightarrow> ('v, 'b) site \<Rightarrow> ('v, 'b) site \<times> local_effect" where
  "local_mutation env n key kind now opts s =
     (if opt_skip_memory_write opts then (s, LocalSkipped)
      else case kind of
             KeyRemove \<Rightarrow> (on_worker (\<lambda>w. emit (MemoryRemove_event key) (w\<lparr>wk_memory := fst (removed key None (wk_memory w))\<rparr>)) s, LocalRemoved)
           | KeyExpire _ \<Rightarrow> (memory_expire env n key now ExpectSame id s, LocalExpired))"

definition inline_key_mutation ::
  "('v, 'l, 'b) commit_env \<Rightarrow> nat \<Rightarrow> string \<Rightarrow> key_mutation_kind \<Rightarrow> timestamp \<Rightarrow> entry_options \<Rightarrow> ('v, 'b) site \<Rightarrow> ('v, 'b) site \<times> local_effect" where
  "inline_key_mutation env n key kind now opts s =
     (if opt_skip_memory_write opts then (on_worker (\<lambda>w. w\<lparr>wk_memory := advance_origin key (wk_memory w)\<rparr>) s, LocalSkipped)
      else case kind of
             KeyRemove \<Rightarrow> (on_worker (\<lambda>w. emit (MemoryRemove_event key) (w\<lparr>wk_memory := fst (detach_remove key (wk_memory w))\<rparr>)) s, LocalRemoved)
           | KeyExpire _ \<Rightarrow> (memory_expire env n key now MutationOf (advance_origin key) s, LocalExpired))"

fun mutation_done :: "string \<Rightarrow> key_mutation_kind \<Rightarrow> cache_event \<times> operation_outcome" where
  "mutation_done key KeyRemove = (Remove_event key, OutRemoved)"
| "mutation_done key (KeyExpire _) = (Expire_event key, OutExpired)"

fun mutation_action :: "key_mutation_kind \<Rightarrow> backplane_action" where
  "mutation_action KeyRemove = RemoveAction"
| "mutation_action (KeyExpire _) = ExpireAction"

definition ordered_mutation ::
  "'v cache_config \<Rightarrow> ('v, 'l, 'b) commit_env \<Rightarrow> string \<Rightarrow> key_mutation_kind \<Rightarrow> entry_options \<Rightarrow> ('v, 'b) site
   \<Rightarrow> ('v, 'b, commit_receipt_value) site_result" where
  "ordered_mutation cfg env key kind opts s =
     (let s = lock_lane key (ce_wait env 0 s); now = ce_now env 0
      in case advance_key key now (sv_worker s) of
           (w, Inl er) \<Rightarrow> (unlock_lane key s, Inl er)
         | (w, Inr fence) \<Rightarrow>
             let (s, effect) = local_mutation env 1 key kind now opts (s\<lparr>sv_worker := w\<rparr>); s = ce_wait env 2 s
             in case mutation_data cfg env 2 key kind now opts s of
                  (w, Inl er) \<Rightarrow> (unlock_lane key (s\<lparr>sv_worker := w\<rparr>), Inl er)
                | (w, Inr data) \<Rightarrow>
                    let (s, r) = commit_data cfg env 3 key data (data_command cfg (mutation_action kind) key now opts) opts fence None
                                   (LocalApplied effect) (s\<lparr>sv_worker := w\<rparr>)
                    in (s, pipeline_receipt (commit_mode_of cfg opts) r))"

definition key_mutation ::
  "'v cache_config \<Rightarrow> ('v, 'l, 'b) commit_env \<Rightarrow> string \<Rightarrow> key_mutation_kind \<Rightarrow> entry_options \<Rightarrow> ('v, 'b) site
   \<Rightarrow> ('v, 'b, commit_receipt_value observed) site_result" where
  "key_mutation cfg env key kind opts s =
     (let (event, outcome) = mutation_done key kind in
      case WritePlan_select cfg (ce_locker env) of
        InlineMemory \<Rightarrow>
          (case re_cancel (ce_reads env) 0 of
             Some r \<Rightarrow> (s, Inl (ErrOperationCancelled r))
           | None \<Rightarrow>
               let (s, effect) = inline_key_mutation env 0 key kind (ce_now env 0) opts s
               in (on_worker (emit event) s, Inr (inline_receipt effect, outcome, None)))
      | GeneralPlan \<Rightarrow>
          (case ordered_mutation cfg env key kind opts s of
             (s, Inl er) \<Rightarrow> (s, Inl er)
           | (s, Inr receipt) \<Rightarrow> (on_worker (emit event) s, Inr (receipt, outcome, None))))"

end
