(* ===== verification/Amalgam_Markers.thy ===== *)
theory Amalgam_Markers
  imports Amalgam_Commits Amalgam_Observations
begin

text \<open>
  \<open>cache/markers.rs\<close>, \<open>cache/marker_recovery.rs\<close> and the stateful half of \<open>marker_reads.rs\<close>: tag and
  clear invalidations of one cache. An invalidation first moves the registry of its own cache, then
  the durable (or ordinary) marker store, then the expendable marker snapshots, and at last
  notifies the peers; a failed stage is queued for recovery. The marker store, the snapshot cache and the
  leases are parameters. The admission of an observation retries as long as somebody else changes the
  record in between: the list of a call says what others did in its first rounds, the round after
  the list is undisturbed (and then never has to be repeated).
\<close>

section \<open>Environment\<close>

datatype marker_access = AccessLocal | AccessDurable | AccessOrdinary | AccessUnavailable

record ('v, 'l, 'b) marker_env =
  me_commit :: "('v, 'l, 'b) commit_env"
  me_access :: marker_access
  me_scope :: cache_scope
  me_namespace :: marker_memory_namespace
  me_lifecycle :: marker_lifecycle_policy
  me_defaults :: entry_options
  me_contention :: "nat \<Rightarrow> ('v worker \<Rightarrow> 'v worker) list"
  me_advance :: "nat \<Rightarrow> cache_scope \<Rightarrow> marker_kind \<Rightarrow> marker_version \<Rightarrow> 'b \<Rightarrow> 'b \<times> (marker_error + marker_advance_outcome)"
  me_read_many :: "nat \<Rightarrow> cache_scope \<Rightarrow> marker_kind list \<Rightarrow> 'b \<Rightarrow> marker_error + stored_marker list"
  me_renew :: "nat \<Rightarrow> cache_scope \<Rightarrow> marker_kind \<Rightarrow> marker_snapshot \<Rightarrow> lease_proof option \<Rightarrow> 'b
     \<Rightarrow> 'b \<times> (snapshot_cache_error + marker_snapshot_renewal)"
  me_text :: "cache_error \<Rightarrow> string"

abbreviation me_now :: "('v, 'l, 'b) marker_env \<Rightarrow> nat \<Rightarrow> timestamp" where
  "me_now me n \<equiv> re_now (ce_reads (me_commit me)) n"

definition marker_clear_shortcut :: "'v cache_config \<Rightarrow> bool" where
  "marker_clear_shortcut cfg \<longleftrightarrow> cc_hybrid cfg \<and> cc_backplane cfg"

definition apply_marker :: "stored_marker \<Rightarrow> 'v worker \<Rightarrow> 'v worker" where
  "apply_marker m w = w\<lparr>wk_tags := fst (registry_advance (marker_kind_of m) (marker_version_of m) (wk_tags w))\<rparr>"

definition accept_marker_observation :: "marker_kind \<Rightarrow> marker_observation \<Rightarrow> 'v worker \<Rightarrow> 'v worker" where
  "accept_marker_observation kind obs w =
     (case observation_presence obs of MarkerPresent v \<Rightarrow> apply_marker (StoredMarker kind v) w | MarkerAbsent \<Rightarrow> w)"

section \<open>Keeping observations\<close>

definition get_observation ::
  "('v, 'l, 'b) marker_env \<Rightarrow> nat \<Rightarrow> marker_kind \<Rightarrow> timestamp \<Rightarrow> 'v worker \<Rightarrow> 'v worker \<times> marker_observation arc option" where
  "get_observation me n kind now w =
     (let (m, found) = store_read (wk_ep w) (re_instant (ce_reads (me_commit me)) n) (namespace_key (me_namespace me) kind) (Some now) (wk_observed w)
      in (w\<lparr>wk_observed := m\<rparr>, found))"

definition put_observation ::
  "('v, 'l, 'b) marker_env \<Rightarrow> nat \<Rightarrow> marker_kind \<Rightarrow> marker_observation arc option \<Rightarrow> marker_observation entry \<Rightarrow> timestamp \<Rightarrow> 'v worker
   \<Rightarrow> 'v worker \<times> memory_admission" where
  "put_observation me n kind current e now w =
     (let reads = ce_reads (me_commit me);
          (m, admission) = insert_internal (wk_ep w) (re_instant reads n) (re_addr reads) (namespace_key (me_namespace me) kind)
            \<lparr>arc_addr = re_addr reads, arc_entry = e\<rparr> now (case current of Some a \<Rightarrow> ExpectSame a | None \<Rightarrow> ExpectAbsent)
            (re_capture reads) SetEvent (wk_observed w)
      in (w\<lparr>wk_observed := m\<rparr>, admission))"

text \<open>One round of \<open>admit_observation\<close>, with what others do between its two accesses.\<close>

definition admit_round ::
  "('v, 'l, 'b) marker_env \<Rightarrow> nat \<Rightarrow> marker_kind \<Rightarrow> marker_observation entry \<Rightarrow> timestamp \<Rightarrow> ('v worker \<Rightarrow> 'v worker) \<Rightarrow> 'v worker
   \<Rightarrow> 'v worker \<times> memory_admission \<times> marker_observation" where
  "admit_round me n kind e now others w =
     (let (w, current) = get_observation me n kind now w;
          maximum = Option.bind current (\<lambda>a. observation_version (en_value (arc_entry a)));
          merged = with_value (reconcile_maximum maximum (en_value e)) e;
          (w, admission) = put_observation me n kind current merged now (others w)
      in (w, admission, en_value merged))"

fun admit_observation ::
  "('v, 'l, 'b) marker_env \<Rightarrow> nat \<Rightarrow> marker_kind \<Rightarrow> marker_observation entry \<Rightarrow> timestamp \<Rightarrow> continuity_stamp \<Rightarrow> ('v worker \<Rightarrow> 'v worker) list
   \<Rightarrow> 'v worker \<Rightarrow> 'v worker \<times> marker_observation" where
  "admit_observation me n kind e now stamp [] w =
     (if \<not> stamp_is_current (wk_ep w) stamp then (w, en_value e)
      else case admit_round me n kind e now id w of (w, _, obs) \<Rightarrow> (w, obs))"
| "admit_observation me n kind e now stamp (others # rest) w =
     (if \<not> stamp_is_current (wk_ep w) stamp then (w, en_value e)
      else case admit_round me n kind e now others w of
             (w, admission, obs) \<Rightarrow>
               if admission \<noteq> RejectedAdmission VersionChanged then (w, obs)
               else admit_observation me n kind e now stamp rest w)"

definition observations_store ::
  "('v, 'l, 'b) marker_env \<Rightarrow> nat \<Rightarrow> marker_kind \<Rightarrow> marker_observation \<Rightarrow> entry_options \<Rightarrow> timestamp \<Rightarrow> jitter_sample \<Rightarrow> continuity_stamp \<Rightarrow> 'v worker
   \<Rightarrow> ('v, marker_observation) worker_result" where
  "observations_store me n kind obs opts now jitter stamp w =
     (if opt_skip_memory_write opts \<or> \<not> stamp_is_current (wk_ep w) stamp then (w, Inr obs)
      else case try_fresh_with_jitter obs opts now now jitter [] None None of
             Inl er \<Rightarrow> (w, Inl (ErrConfig er))
           | Inr e \<Rightarrow>
               let (w, obs) = admit_observation me n kind (with_hydrated_value obs stamp e) now stamp (me_contention me n) w
               in (w, Inr obs))"

definition store_snapshot ::
  "('v, 'l, 'b) marker_env \<Rightarrow> nat \<Rightarrow> marker_kind \<Rightarrow> marker_observation \<Rightarrow> marker_snapshot \<Rightarrow> entry_options \<Rightarrow> timestamp \<Rightarrow> continuity_stamp \<Rightarrow> 'v worker
   \<Rightarrow> ('v, marker_observation) worker_result" where
  "store_snapshot me n kind obs snap opts now stamp w =
     (if opt_skip_memory_write opts \<or> \<not> stamp_is_current (wk_ep w) stamp then (w, Inr obs)
      else case try_rehydrate obs (snap_created snap) (snap_logical snap) (snap_physical snap) False None None [] now of
             Inl er \<Rightarrow> (w, Inl (ErrConfig er))
           | Inr source \<Rightarrow>
               (case for_memory_hydration (wk_ep w) opts now source of
                  Inl er \<Rightarrow> (w, Inl (ErrConfig er))
                | Inr None \<Rightarrow> (w, Inr obs)
                | Inr (Some local) \<Rightarrow>
                    let (w, obs) = admit_observation me n kind (with_hydrated_value obs stamp local) now stamp (me_contention me n) w
                    in (w, Inr obs)))"

definition retain_fallback ::
  "('v, 'l, 'b) marker_env \<Rightarrow> nat \<Rightarrow> marker_kind \<Rightarrow> marker_observation arc \<Rightarrow> entry_options \<Rightarrow> timestamp \<Rightarrow> marker_read_failure \<Rightarrow> 'v worker
   \<Rightarrow> ('v, marker_observation) worker_result" where
  "retain_fallback me n kind source opts now fault w =
     (let obs = Retained (observation_presence (en_value (arc_entry source))) fault in
      if opt_skip_memory_write opts then (w, Inr obs)
      else case try_throttled (wk_ep w) (arc_entry source) opts now of
             Inl er \<Rightarrow> (w, Inl (ErrConfig er))
           | Inr None \<Rightarrow> (w, Inr obs)
           | Inr (Some e) \<Rightarrow>
               let (w, admission) = put_observation me n kind (Some source) (with_value obs e) now w
               in if admission = RejectedAdmission VersionChanged
                  then (case get_observation me n kind now w of
                          (w, Some current) \<Rightarrow> (w, Inr (en_value (arc_entry current)))
                        | (w, None) \<Rightarrow> (w, Inr obs))
                  else (w, Inr obs))"

fun merge_maximum ::
  "('v, 'l, 'b) marker_env \<Rightarrow> nat \<Rightarrow> marker_kind \<Rightarrow> marker_version \<Rightarrow> timestamp \<Rightarrow> continuity_stamp \<Rightarrow> ('v worker \<Rightarrow> 'v worker) list \<Rightarrow> 'v worker
   \<Rightarrow> 'v worker \<times> marker_observation option" where
  "merge_maximum me n kind maximum now stamp rounds w =
     (if \<not> stamp_is_current (wk_ep w) stamp then (w, None)
      else case get_observation me n kind now w of
             (w, None) \<Rightarrow> (w, None)
           | (w, Some current) \<Rightarrow>
               let obs = reconcile_maximum (Some maximum) (en_value (arc_entry current))
               in if obs = en_value (arc_entry current) then (w, Some obs)
                  else let others = (case rounds of [] \<Rightarrow> id | f # _ \<Rightarrow> f);
                           (w, admission) = put_observation me n kind (Some current) (with_value obs (arc_entry current)) now (others w)
                       in if admission \<noteq> RejectedAdmission VersionChanged then (w, Some obs)
                          else case rounds of [] \<Rightarrow> (w, Some obs) | _ # rest \<Rightarrow> merge_maximum me n kind maximum now stamp rest w)"

declare merge_maximum.simps [simp del]

definition retain_snapshot_fallback ::
  "('v, 'l, 'b) marker_env \<Rightarrow> nat \<Rightarrow> marker_kind \<Rightarrow> marker_snapshot \<Rightarrow> marker_presence \<Rightarrow> entry_options \<Rightarrow> timestamp \<Rightarrow> marker_read_failure
   \<Rightarrow> continuity_stamp \<Rightarrow> 'v worker \<Rightarrow> ('v, marker_observation) worker_result" where
  "retain_snapshot_fallback me n kind snap presence opts now fault stamp w =
     (let obs = Retained presence fault in
      if opt_skip_memory_write opts \<or> \<not> stamp_is_current (wk_ep w) stamp then (w, Inr obs)
      else case try_rehydrate obs (snap_created snap) (snap_logical snap) (snap_physical snap) False None None [] now of
             Inl er \<Rightarrow> (w, Inl (ErrConfig er))
           | Inr source \<Rightarrow>
               (case size_of opts of
                  Inl er \<Rightarrow> (w, Inl (ErrConfig er))
                | Inr sz \<Rightarrow>
                    (case try_throttled (wk_ep w) (with_retention sz (opt_priority opts) source) opts now of
                       Inl er \<Rightarrow> (w, Inl (ErrConfig er))
                     | Inr None \<Rightarrow> (w, Inr obs)
                     | Inr (Some e) \<Rightarrow>
                         let (w, obs) = admit_observation me n kind (with_hydrated_value obs stamp e) now stamp (me_contention me n) w
                         in (w, Inr obs))))"

section \<open>Announcing a marker\<close>

definition seed_marker ::
  "'v cache_config \<Rightarrow> ('v, 'l, 'b) marker_env \<Rightarrow> nat \<Rightarrow> stored_marker \<Rightarrow> entry_options \<Rightarrow> 'v worker \<Rightarrow> ('v, unit) worker_result" where
  "seed_marker cfg me n marker opts w =
     (case cc_marker_reads cfg of
        DurableRequired \<Rightarrow> (w, Inr ())
      | OptionsControlled \<Rightarrow>
          let captured = wk_epoch w; kind = marker_kind_of marker; present = MarkerPresent (marker_version_of marker)
          in case me_access me of
               AccessUnavailable \<Rightarrow> (w, Inl (ErrMarker MarkerUnsupported))
             | access \<Rightarrow>
                 let obs = reconcile_maximum (registry_marker_version (wk_tags w) kind)
                             (if access = AccessLocal then LocalFact present else Confirmed present)
                 in case ce_jitter (me_commit me) of
                      Inl er \<Rightarrow> (w, Inl (ErrConfig er))
                    | Inr jitter \<Rightarrow>
                        (case observations_store me n kind obs opts (me_now me n) jitter (ContinuityStamp_new 0 captured) w of
                           (w, Inl er) \<Rightarrow> (w, Inl er)
                         | (w, Inr obs) \<Rightarrow>
                             let w = accept_marker_observation kind obs w
                             in (if marker_clear_shortcut cfg \<and> wk_epoch w = captured
                                 then w\<lparr>wk_clears := initialize_clear kind captured (observation_outcome obs) (wk_clears w)\<rparr> else w, Inr ())))"

fun marker_changed_event :: "marker_kind \<Rightarrow> cache_event" where
  "marker_changed_event (TagKind t) = RemoveByTag_event (tag_as_str t)"
| "marker_changed_event ClearExpire = Clear_event"
| "marker_changed_event ClearRemove = Clear_event"

abbreviation clear_memory :: "'v worker \<Rightarrow> 'v worker" where
  "clear_memory w \<equiv> w\<lparr>wk_memory := fst (invalidate_all (wk_memory w))\<rparr>"

text \<open>The local effect of one kind, with the commands that peers will have to know.\<close>

definition announce_marker ::
  "'v cache_config \<Rightarrow> ('v, 'l, 'b) marker_env \<Rightarrow> nat \<Rightarrow> entry_options \<Rightarrow> timestamp \<Rightarrow> marker_kind \<Rightarrow> 'v worker
   \<Rightarrow> ('v, marker_command list) worker_result" where
  "announce_marker cfg me n opts now kind w =
     (let (tags, outcome) = registry_advance kind now (wk_tags w); marker = outcome_marker outcome
      in case seed_marker cfg me n marker opts (w\<lparr>wk_tags := tags\<rparr>) of
           (w, Inl er) \<Rightarrow> (w, Inl er)
         | (w, Inr _) \<Rightarrow>
             let w = emit (marker_changed_event kind) (if kind = ClearRemove then clear_memory w else w)
             in case MarkerCommand_new (cc_instance cfg) (me_scope me) marker of
                  Inl er \<Rightarrow> (w, Inl (ErrMarker er))
                | Inr command \<Rightarrow>
                    (case outcome of
                       Advanced _ \<Rightarrow> (w, Inr [command])
                     | Compacted _ clear_remove \<Rightarrow>
                         (case seed_marker cfg me (n + 1) (StoredMarker ClearRemove clear_remove) opts (clear_memory w) of
                            (w, Inl er) \<Rightarrow> (w, Inl er)
                          | (w, Inr _) \<Rightarrow>
                              (case MarkerCommand_new (cc_instance cfg) (me_scope me) (StoredMarker ClearRemove clear_remove) of
                                 Inl er \<Rightarrow> (w, Inl (ErrMarker er))
                               | Inr clear \<Rightarrow> (w, Inr [command, clear])))))"

fun announce_markers ::
  "'v cache_config \<Rightarrow> ('v, 'l, 'b) marker_env \<Rightarrow> nat \<Rightarrow> entry_options \<Rightarrow> timestamp \<Rightarrow> marker_kind list \<Rightarrow> 'v worker
   \<Rightarrow> ('v, marker_command list) worker_result" where
  "announce_markers cfg me n opts now [] w = (w, Inr [])"
| "announce_markers cfg me n opts now (kind # kinds) w =
     (case announce_marker cfg me n opts now kind (re_wait (ce_reads (me_commit me)) n w) of
        (w, Inl er) \<Rightarrow> (w, Inl er)
      | (w, Inr commands) \<Rightarrow>
          (case announce_markers cfg me (n + 2) opts now kinds w of
             (w, Inl er) \<Rightarrow> (w, Inl er)
           | (w, Inr rest) \<Rightarrow> (w, Inr (commands @ rest))))"

section \<open>The marker store\<close>

fun ordinary_key :: "cache_scope \<Rightarrow> marker_kind \<Rightarrow> string" where
  "ordinary_key scope ClearRemove = ''amalgam:byte-marker:'' @ storage_id scope @ '':remove''"
| "ordinary_key scope ClearExpire = ''amalgam:byte-marker:'' @ storage_id scope @ '':expire''"
| "ordinary_key scope (TagKind t) =
     ''amalgam:byte-marker:'' @ storage_id scope @ '':tag:'' @ show_nat (length (tag_as_str t)) @ '':'' @ tag_as_str t"

datatype marker_write_outcome = MarkerWritten stored_marker | MarkerCompacted stored_marker marker_version

fun write_outcome_marker :: "marker_write_outcome \<Rightarrow> stored_marker" where
  "write_outcome_marker (MarkerWritten m) = m"
| "write_outcome_marker (MarkerCompacted m v) = m"

fun write_outcome_of :: "marker_advance_outcome \<Rightarrow> marker_write_outcome" where
  "write_outcome_of (Advanced m) = MarkerWritten m"
| "write_outcome_of (Compacted m v) = MarkerCompacted m v"

definition ordinary_write ::
  "('v, 'l, 'b) marker_env \<Rightarrow> nat \<Rightarrow> cache_scope \<Rightarrow> marker_kind \<Rightarrow> marker_snapshot \<Rightarrow> timestamp \<Rightarrow> 'b \<Rightarrow> 'b \<times> (marker_error + stored_marker)" where
  "ordinary_write me n scope kind snap now b =
     (case ce_plain (me_commit me) n (BackendSet (ordinary_key scope kind) (ordered_hex (snap_version snap)) (Some (snapshot_remaining_ttl snap now))) b of
        (b, Inl er) \<Rightarrow> (b, Inl (MarkerBackend (me_text me er)))
      | (b, Inr _) \<Rightarrow> (b, Inr (StoredMarker kind (snap_version snap))))"

definition write_marker_revision ::
  "('v, 'l, 'b) marker_env \<Rightarrow> nat \<Rightarrow> cache_scope \<Rightarrow> marker_kind \<Rightarrow> marker_snapshot \<Rightarrow> entry_options \<Rightarrow> ('v, 'b) site
   \<Rightarrow> ('v, 'b, marker_write_outcome) site_result" where
  "write_marker_revision me n scope kind snap opts s =
     (case me_access me of
        AccessDurable \<Rightarrow>
          (let s = ce_wait (me_commit me) n s
           in case me_advance me n scope kind (snap_version snap) (sv_backend s) of
                (b, Inl er) \<Rightarrow> (s\<lparr>sv_backend := b\<rparr>, Inl (ErrMarker er))
              | (b, Inr outcome) \<Rightarrow> (s\<lparr>sv_backend := b\<rparr>, Inr (write_outcome_of outcome)))
      | AccessOrdinary \<Rightarrow>
          (let now = me_now me n; physical = MarkerSnapshot_fresh (snap_version snap) opts now; s = ce_wait (me_commit me) n s
           in case ordinary_write me n scope kind physical now (sv_backend s) of
                (b, Inl er) \<Rightarrow> (s\<lparr>sv_backend := b\<rparr>, Inl (ErrMarker er))
              | (b, Inr marker) \<Rightarrow> (s\<lparr>sv_backend := b\<rparr>, Inr (MarkerWritten marker)))
      | AccessLocal \<Rightarrow> (s, Inl (ErrMarker MarkerUnsupported))
      | AccessUnavailable \<Rightarrow> (s, Inl (ErrMarker MarkerUnsupported)))"

section \<open>Queued marker work\<close>

definition queued_work :: "(recovery_service \<Rightarrow> recovery_service \<times> (recovery_error + enqueue_outcome)) \<Rightarrow> 'v worker \<Rightarrow> ('v, bool) worker_result" where
  "queued_work enqueue w =
     (case wk_recovery w of
        None \<Rightarrow> (w, Inr False)
      | Some service \<Rightarrow>
          let (service, r) = enqueue service; w = w\<lparr>wk_recovery := Some service\<rparr>
          in case r of
               Inl er \<Rightarrow> (w, Inl (ErrRecovery er))
             | Inr outcome \<Rightarrow> (w, Inr (case outcome of EnqQueued _ \<Rightarrow> True | EnqReplaced _ \<Rightarrow> True | _ \<Rightarrow> False)))"

fun capture_error_of :: "capture_error \<Rightarrow> cache_error" where
  "capture_error_of (CaptureConfig er) = ErrConfig er"
| "capture_error_of (CaptureRecovery er) = ErrRecovery er"

definition queue_marker :: "('v, 'l, 'b) marker_env \<Rightarrow> nat \<Rightarrow> marker_command \<Rightarrow> marker_replay \<Rightarrow> 'v worker \<Rightarrow> ('v, bool) worker_result" where
  "queue_marker me n command stage = queued_work (enqueue_marker (me_now me n) command stage)"

definition queue_marker_mutation ::
  "('v, 'l, 'b) marker_env \<Rightarrow> nat \<Rightarrow> marker_command \<Rightarrow> entry_options \<Rightarrow> timestamp \<Rightarrow> 'v worker \<Rightarrow> ('v, bool) worker_result" where
  "queue_marker_mutation me n command opts created w =
     (if wk_recovery w = None then (w, Inr False)
      else case capture_mutation command opts created of
             Inl er \<Rightarrow> (w, Inl (capture_error_of er))
           | Inr work \<Rightarrow> queued_work (enqueue_marker_mutation (me_now me n) work) w)"

section \<open>Marker snapshots\<close>

datatype 'l control_lease = ControlUnleased | ControlFenced 'l | ControlCooperative 'l

definition control_proof :: "('v, 'l, 'b) marker_env \<Rightarrow> nat \<Rightarrow> 'l control_lease \<Rightarrow> cache_error + lease_proof option" where
  "control_proof me n lease =
     (case lease of
        ControlUnleased \<Rightarrow> Inr None
      | ControlFenced l \<Rightarrow> (case ce_proof (me_commit me) n l of Inl er \<Rightarrow> Inl (ErrLease er) | Inr p \<Rightarrow> Inr (Some p))
      | ControlCooperative l \<Rightarrow> if ce_lost (me_commit me) n l then Inl (ErrLease LeaseLost) else Inr None)"

datatype marker_local_commit = ObservationAdmitted | AwaitingFence marker_observation timestamp jitter_sample

record 'l marker_snapshot_commit =
  sc_kind :: marker_kind
  sc_snapshot :: marker_snapshot
  sc_options :: entry_options
  sc_captured :: nat
  sc_lease :: "'l control_lease"
  sc_local :: marker_local_commit

datatype marker_snapshot_write_policy = OperationPolicy | ReplayPolicy

datatype marker_provider_fault = BackendFault | ProtocolFault

fun fault_read_failure :: "marker_provider_fault \<Rightarrow> marker_read_failure" where
  "fault_read_failure BackendFault = BackendFailure"
| "fault_read_failure ProtocolFault = ProtocolFailure"

fun fault_write_outcome :: "marker_provider_fault \<Rightarrow> marker_snapshot_write_outcome" where
  "fault_write_outcome BackendFault = SnapshotBackendFailure"
| "fault_write_outcome ProtocolFault = SnapshotProtocolFailure"

definition marker_snapshot_provider :: "'v cache_config \<Rightarrow> ('v, 'l, 'b) marker_env \<Rightarrow> bool" where
  "marker_snapshot_provider cfg me \<longleftrightarrow> cc_marker_reads cfg = OptionsControlled \<and> me_lifecycle me = CachedSnapshots"

definition queue_marker_snapshot ::
  "('v, 'l, 'b) marker_env \<Rightarrow> nat \<Rightarrow> 'l marker_snapshot_commit \<Rightarrow> 'v worker \<Rightarrow> ('v, bool) worker_result" where
  "queue_marker_snapshot me n commit w =
     (if wk_recovery w = None then (w, Inr False)
      else case capture_snapshot_replay (me_scope me) (sc_kind commit) (sc_snapshot commit) (sc_options commit)
                  (case sc_lease commit of ControlUnleased \<Rightarrow> marker_snapshot_participation.Unleased
                     | ControlFenced _ \<Rightarrow> Fenced | ControlCooperative _ \<Rightarrow> Cooperative) of
             Inl er \<Rightarrow> (w, Inl (capture_error_of er))
           | Inr work \<Rightarrow> queued_work (enqueue_marker_snapshot (me_now me n) work) w)"

text \<open>The fault of a provider and whether the options rethrow it; other marker errors always end the operation.\<close>

fun provider_fault :: "entry_options \<Rightarrow> marker_error \<Rightarrow> (marker_provider_fault \<times> bool) option" where
  "provider_fault opts (MarkerBackend _) = Some (BackendFault, opt_rethrow_distributed_exceptions opts)"
| "provider_fault opts (Protocol _) = Some (ProtocolFault, opt_rethrow_serialization_exceptions opts)"
| "provider_fault opts (ProtocolWithSource _) = Some (ProtocolFault, opt_rethrow_serialization_exceptions opts)"
| "provider_fault opts _ = None"

definition marker_snapshot_failure ::
  "('v, 'l, 'b) marker_env \<Rightarrow> nat \<Rightarrow> 'l marker_snapshot_commit \<Rightarrow> marker_error \<Rightarrow> marker_snapshot_write_policy \<Rightarrow> 'v worker
   \<Rightarrow> ('v, cache_error effect_outcome) worker_result" where
  "marker_snapshot_failure me n commit er policy w =
     (case provider_fault (sc_options commit) er of
        None \<Rightarrow> (w, Inl (ErrMarker er))
      | Some (fault, rethrow) \<Rightarrow>
          let w = emit (MarkerSnapshotWrite_event (sc_kind commit) (fault_write_outcome fault)) w
          in if policy = ReplayPolicy then (w, Inl (ErrMarker er))
             else case queue_marker_snapshot me n commit w of
                    (w, Inl er') \<Rightarrow> (w, Inl er')
                  | (w, Inr is_queued) \<Rightarrow> (w, if rethrow then Inl (ErrMarker er) else Inr (failed_outcome is_queued (ErrMarker er))))"

definition commit_observation ::
  "'v cache_config \<Rightarrow> ('v, 'l, 'b) marker_env \<Rightarrow> nat \<Rightarrow> 'l marker_snapshot_commit \<Rightarrow> marker_snapshot \<Rightarrow> 'v worker \<Rightarrow> ('v, unit) worker_result" where
  "commit_observation cfg me n commit snap w =
     (if opt_skip_memory_write (sc_options commit) \<or> cc_marker_reads cfg = DurableRequired then (w, Inr ())
      else let stamp = ContinuityStamp_new 0 (sc_captured commit); kind = sc_kind commit
           in case sc_local commit of
                ObservationAdmitted \<Rightarrow>
                  (case merge_maximum me n kind (snap_version snap) (me_now me n) stamp (me_contention me n) w of
                     (w, None) \<Rightarrow> (w, Inr ())
                   | (w, Some obs) \<Rightarrow> (accept_marker_observation kind obs w, Inr ()))
              | AwaitingFence obs created jitter \<Rightarrow>
                  (case observations_store me n kind (reconcile_maximum (Some (snap_version snap)) obs) (sc_options commit) created jitter stamp w of
                     (w, Inl er) \<Rightarrow> (w, Inl er)
                   | (w, Inr obs) \<Rightarrow> (accept_marker_observation kind obs w, Inr ())))"

fun renewal_result :: "marker_snapshot_renewal \<Rightarrow> marker_snapshot option \<times> marker_snapshot_write_outcome" where
  "renewal_result (RenewalStored snap) = (Some snap, SnapshotStored)"
| "renewal_result (RenewalKeptNewer snap) = (Some snap, SnapshotKeptNewer)"
| "renewal_result RenewalExpired = (None, SnapshotExpired)"

definition commit_renewed ::
  "'v cache_config \<Rightarrow> ('v, 'l, 'b) marker_env \<Rightarrow> nat \<Rightarrow> 'l marker_snapshot_commit \<Rightarrow> marker_snapshot_renewal \<Rightarrow> 'v worker
   \<Rightarrow> ('v, cache_error effect_outcome) worker_result" where
  "commit_renewed cfg me n commit renewal w =
     (let (found, outcome) = renewal_result renewal; kind = sc_kind commit;
          (w, r) = (case found of
                      None \<Rightarrow> (w, Inr ())
                    | Some snap \<Rightarrow> commit_observation cfg me n commit snap (apply_marker (StoredMarker kind (snap_version snap)) w))
      in case r of
           Inl er \<Rightarrow> (w, Inl er)
         | Inr _ \<Rightarrow> (emit (MarkerSnapshotWrite_event kind outcome) w,
                      Inr (if found = None then EffectSkipped SkipPhysicallyExpired else EffectApplied)))"

definition commit_control_snapshot ::
  "'v cache_config \<Rightarrow> ('v, 'l, 'b) marker_env \<Rightarrow> nat \<Rightarrow> 'l marker_snapshot_commit \<Rightarrow> marker_snapshot_write_policy \<Rightarrow> ('v, 'b) site
   \<Rightarrow> ('v, 'b, cache_error effect_outcome) site_result" where
  "commit_control_snapshot cfg me n commit policy s =
     (case re_cancel (ce_reads (me_commit me)) n of
        Some r \<Rightarrow> (s, Inl (ErrOperationCancelled r))
      | None \<Rightarrow>
          if wk_epoch (sv_worker s) \<noteq> sc_captured commit then (s, Inr (EffectSkipped SkipSuperseded))
          else case control_proof me n (sc_lease commit) of
                 Inl er \<Rightarrow> (s, Inl er)
               | Inr proof \<Rightarrow>
                   let s = ce_wait (me_commit me) n s; (b, r) = me_renew me n (me_scope me) (sc_kind commit) (sc_snapshot commit) proof (sv_backend s);
                       s = s\<lparr>sv_backend := b\<rparr>
                   in case re_cancel (ce_reads (me_commit me)) (n + 1) of
                        Some reason \<Rightarrow> (s, Inl (ErrOperationCancelled reason))
                      | None \<Rightarrow>
                          let (w, out) = (case r of
                                            Inr renewal \<Rightarrow> commit_renewed cfg me (n + 1) commit renewal (sv_worker s)
                                          | Inl (SnapProvider er) \<Rightarrow> marker_snapshot_failure me (n + 1) commit er policy (sv_worker s)
                                          | Inl er \<Rightarrow> (sv_worker s, Inl (snapshot_cache_error_into er)))
                          in (s\<lparr>sv_worker := w\<rparr>, out))"

definition populate_marker_snapshot ::
  "'v cache_config \<Rightarrow> ('v, 'l, 'b) marker_env \<Rightarrow> nat \<Rightarrow> marker_command \<Rightarrow> entry_options \<Rightarrow> timestamp \<Rightarrow> marker_snapshot_write_policy \<Rightarrow> ('v, 'b) site
   \<Rightarrow> ('v, 'b, cache_error effect_outcome) site_result" where
  "populate_marker_snapshot cfg me n command opts created policy s =
     (if opt_skip_distributed_write opts then (s, Inr (EffectSkipped SkipPolicy))
      else if \<not> marker_snapshot_provider cfg me then (s, Inr NotConfigured)
      else let snap = MarkerSnapshot_fresh (marker_version_of (cmd_marker command)) opts created
           in if snapshot_is_physically_expired snap (me_now me n) then (s, Inr (EffectSkipped SkipPhysicallyExpired))
              else commit_control_snapshot cfg me n
                     \<lparr>sc_kind = marker_kind_of (cmd_marker command), sc_snapshot = snap, sc_options = opts, sc_captured = wk_epoch (sv_worker s),
                      sc_lease = ControlUnleased, sc_local = ObservationAdmitted\<rparr> policy s)"

text \<open>Every command is populated; the first failure is reported after the last.\<close>

fun populate_each ::
  "'v cache_config \<Rightarrow> ('v, 'l, 'b) marker_env \<Rightarrow> nat \<Rightarrow> marker_command list \<Rightarrow> entry_options \<Rightarrow> timestamp \<Rightarrow> ('v, 'b) site
   \<Rightarrow> ('v, 'b) site \<times> cache_error effect_outcome list \<times> cache_error option" where
  "populate_each cfg me n [] opts created s = (s, [], None)"
| "populate_each cfg me n (command # commands) opts created s =
     (let (s, r) = populate_marker_snapshot cfg me n command opts created OperationPolicy s;
          (s, outcomes, fault) = populate_each cfg me (n + 2) commands opts created s
      in case r of Inr outcome \<Rightarrow> (s, outcome # outcomes, fault) | Inl er \<Rightarrow> (s, outcomes, Some er))"

fun queue_notifications :: "('v, 'l, 'b) marker_env \<Rightarrow> nat \<Rightarrow> marker_command list \<Rightarrow> 'v worker \<Rightarrow> ('v, unit) worker_result" where
  "queue_notifications me n [] w = (w, Inr ())"
| "queue_notifications me n (command # commands) w =
     (case queue_marker me n command NotifyOnly w of
        (w, Inl er) \<Rightarrow> (w, Inl er)
      | (w, Inr _) \<Rightarrow> queue_notifications me n commands w)"

definition populate_marker_commands ::
  "'v cache_config \<Rightarrow> ('v, 'l, 'b) marker_env \<Rightarrow> nat \<Rightarrow> marker_command list \<Rightarrow> entry_options \<Rightarrow> timestamp \<Rightarrow> cache_error effect_outcome \<Rightarrow> ('v, 'b) site
   \<Rightarrow> ('v, 'b, cache_error effect_outcome) site_result" where
  "populate_marker_commands cfg me n commands opts created durable s =
     (case populate_each cfg me n commands opts created s of
        (s, outcomes, None) \<Rightarrow> (s, Inr (effects (durable # outcomes)))
      | (s, outcomes, Some er) \<Rightarrow>
          if opt_skip_backplane_notifications opts \<or> \<not> cc_backplane cfg then (s, Inl er)
          else (case queue_notifications me n commands (sv_worker s) of
                  (w, Inl er') \<Rightarrow> (s\<lparr>sv_worker := w\<rparr>, Inl er')
                | (w, Inr _) \<Rightarrow> (s\<lparr>sv_worker := w\<rparr>, Inl er)))"

definition populate_marker_mutation ::
  "'v cache_config \<Rightarrow> ('v, 'l, 'b) marker_env \<Rightarrow> nat \<Rightarrow> marker_command list \<Rightarrow> entry_options \<Rightarrow> timestamp \<Rightarrow> cache_error effect_outcome \<Rightarrow> ('v, 'b) site
   \<Rightarrow> ('v, 'b, cache_error effect_outcome) site_result" where
  "populate_marker_mutation cfg me n commands opts created durable s =
     (if opt_skip_distributed_write opts \<or> \<not> marker_snapshot_provider cfg me then (s, Inr durable)
      else populate_marker_commands cfg me n commands opts created durable s)"

section \<open>Committing a marker\<close>

text \<open>What a successful write of the store means for this cache: the acknowledged revision and a clear it was compacted into.\<close>

definition accept_write ::
  "'v cache_config \<Rightarrow> ('v, 'l, 'b) marker_env \<Rightarrow> nat \<Rightarrow> marker_write_outcome \<Rightarrow> entry_options \<Rightarrow> 'v worker \<Rightarrow> ('v, marker_command list) worker_result" where
  "accept_write cfg me n outcome opts w =
     (let marker = write_outcome_marker outcome
      in case seed_marker cfg me n marker opts (apply_marker marker w) of
           (w, Inl er) \<Rightarrow> (w, Inl er)
         | (w, Inr _) \<Rightarrow>
             (case MarkerCommand_new (cc_instance cfg) (me_scope me) marker of
                Inl er \<Rightarrow> (w, Inl (ErrMarker er))
              | Inr command \<Rightarrow>
                  (case outcome of
                     MarkerWritten _ \<Rightarrow> (w, Inr [command])
                   | MarkerCompacted _ clear_remove \<Rightarrow>
                       (case MarkerCommand_new (cc_instance cfg) (me_scope me) (StoredMarker ClearRemove clear_remove) of
                          Inl er \<Rightarrow> (w, Inl (ErrMarker er))
                        | Inr clear \<Rightarrow>
                            (case seed_marker cfg me (n + 1) (cmd_marker clear) opts (apply_marker (cmd_marker clear) w) of
                               (w, Inl er) \<Rightarrow> (w, Inl er)
                             | (w, Inr _) \<Rightarrow> (w, Inr [clear, command]))))))"

definition invalidation_label :: string where
  "invalidation_label = ''invalidation''"

text \<open>The durable stage: \<open>Inl\<close> is the report of a suppressed failure, \<open>Inr\<close> the commands to publish.\<close>

definition marker_durable_stage ::
  "'v cache_config \<Rightarrow> ('v, 'l, 'b) marker_env \<Rightarrow> nat \<Rightarrow> marker_command \<Rightarrow> entry_options \<Rightarrow> timestamp \<Rightarrow> ('v, 'b) site
   \<Rightarrow> ('v, 'b, cache_error mutation_report + marker_command list \<times> cache_error effect_outcome) site_result" where
  "marker_durable_stage cfg me n command opts created s =
     (case me_access me of
        AccessLocal \<Rightarrow> (s, Inr (Inr ([command], NotConfigured)))
      | AccessUnavailable \<Rightarrow> (s, Inl (ErrMarker MarkerUnsupported))
      | _ \<Rightarrow>
          if opt_skip_distributed_write opts then (s, Inr (Inr ([command], EffectSkipped SkipPolicy)))
          else case write_marker_revision me n (cmd_scope command) (marker_kind_of (cmd_marker command))
                      (MarkerSnapshot_fresh (marker_version_of (cmd_marker command)) opts created) opts s of
                 (s, Inr outcome) \<Rightarrow>
                   (case accept_write cfg me n outcome opts (sv_worker s) of
                      (w, Inl er) \<Rightarrow> (s\<lparr>sv_worker := w\<rparr>, Inl er)
                    | (w, Inr commands) \<Rightarrow> (s\<lparr>sv_worker := w\<rparr>, Inr (Inr (commands, EffectApplied))))
               | (s, Inl er) \<Rightarrow>
                   (case queue_marker_mutation me n command opts created (sv_worker s) of
                      (w, Inl er') \<Rightarrow> (s\<lparr>sv_worker := w\<rparr>, Inl er')
                    | (w, Inr is_queued) \<Rightarrow>
                        (s\<lparr>sv_worker := failure invalidation_label (me_now me n) er w\<rparr>,
                         if opt_rethrow_distributed_exceptions opts then Inl er
                         else Inr (Inl \<lparr>report_local = LocalInvalidated, report_distributed = failed_outcome is_queued er,
                                         report_backplane = EffectSkipped SkipPolicy\<rparr>))))"

fun publish_markers ::
  "'v cache_config \<Rightarrow> ('v, 'l, 'b) marker_env \<Rightarrow> nat \<Rightarrow> entry_options \<Rightarrow> marker_command list \<Rightarrow> ('v, 'b) site
   \<Rightarrow> ('v, 'b, cache_error effect_outcome list) site_result" where
  "publish_markers cfg me n opts [] s = (s, Inr [])"
| "publish_markers cfg me n opts (command # commands) s =
     (let (s, r) = publish_command cfg (me_commit me) n (MarkerCmd command) s;
          (s, r) = (case r of
                      Inr _ \<Rightarrow> (s, Inr EffectApplied)
                    | Inl er \<Rightarrow>
                        (case queue_marker me n command NotifyOnly (failure invalidation_label (me_now me n) er (sv_worker s)) of
                           (w, Inl er') \<Rightarrow> (s\<lparr>sv_worker := w\<rparr>, Inl er')
                         | (w, Inr is_queued) \<Rightarrow>
                             (s\<lparr>sv_worker := w\<rparr>, if opt_rethrow_backplane_exceptions opts then Inl er else Inr (failed_outcome is_queued er))))
      in case r of
           Inl er \<Rightarrow> (s, Inl er)
         | Inr outcome \<Rightarrow>
             (case publish_markers cfg me (n + 1) opts commands s of
                (s, Inl er) \<Rightarrow> (s, Inl er)
              | (s, Inr outcomes) \<Rightarrow> (s, Inr (outcome # outcomes))))"

definition publish_stage ::
  "'v cache_config \<Rightarrow> ('v, 'l, 'b) marker_env \<Rightarrow> nat \<Rightarrow> entry_options \<Rightarrow> marker_command list \<Rightarrow> ('v, 'b) site \<Rightarrow> ('v, 'b, cache_error effect_outcome) site_result" where
  "publish_stage cfg me n opts commands s =
     (if opt_skip_backplane_notifications opts then (s, Inr (EffectSkipped SkipPolicy))
      else if \<not> cc_backplane cfg then (s, Inr NotConfigured)
      else case publish_markers cfg me n opts commands s of (s, Inl er) \<Rightarrow> (s, Inl er) | (s, Inr outcomes) \<Rightarrow> (s, Inr (effects outcomes)))"

definition commit_marker ::
  "'v cache_config \<Rightarrow> ('v, 'l, 'b) marker_env \<Rightarrow> nat \<Rightarrow> marker_command \<Rightarrow> entry_options \<Rightarrow> timestamp \<Rightarrow> ('v, 'b) site
   \<Rightarrow> ('v, 'b, commit_receipt_value) site_result" where
  "commit_marker cfg me n command opts created s =
     (case marker_durable_stage cfg me (n + 1) command opts created (ce_wait (me_commit me) n s) of
        (s, Inl er) \<Rightarrow> (s, Inl er)
      | (s, Inr (Inl report)) \<Rightarrow> (s, Inr (ReceiptCompleted report))
      | (s, Inr (Inr (commands, durable))) \<Rightarrow>
          (case populate_marker_mutation cfg me (n + 3) commands opts created durable s of
             (s, Inl er) \<Rightarrow> (s, Inl er)
           | (s, Inr distributed) \<Rightarrow>
               let mode = (if opt_allow_background_backplane_operations opts \<and> \<not> opt_skip_backplane_notifications opts \<and> cc_backplane cfg
                           then BackgroundCommit else ForegroundCommit);
                   (s, r) = publish_stage cfg me (n + 7) opts commands s
               in (s, commit_receipt mode
                        (case r of Inl er \<Rightarrow> Inl er
                         | Inr backplane \<Rightarrow> Inr \<lparr>report_local = LocalInvalidated, report_distributed = distributed, report_backplane = backplane\<rparr>))))"

section \<open>Invalidations\<close>

fun commit_markers ::
  "'v cache_config \<Rightarrow> ('v, 'l, 'b) marker_env \<Rightarrow> nat \<Rightarrow> marker_command list \<Rightarrow> entry_options \<Rightarrow> timestamp \<Rightarrow> ('v, 'b) site
   \<Rightarrow> ('v, 'b, commit_receipt_value list) site_result" where
  "commit_markers cfg me n [] opts created s = (s, Inr [])"
| "commit_markers cfg me n (command # commands) opts created s =
     (case commit_marker cfg me n command opts created s of
        (s, Inl er) \<Rightarrow> (s, Inl er)
      | (s, Inr receipt) \<Rightarrow>
          (case commit_markers cfg me (n + 9) commands opts created s of
             (s, Inl er) \<Rightarrow> (s, Inl er)
           | (s, Inr receipts) \<Rightarrow> (s, Inr (receipt # receipts))))"

fun wait_all :: "commit_receipt_value list \<Rightarrow> (cache_error, cache_error mutation_report list) waited" where
  "wait_all [] = waited.Returned (Inr [])"
| "wait_all (receipt # receipts) =
     (case receipt_wait ErrCacheClosed receipt of
        WaiterPanics \<Rightarrow> WaiterPanics
      | waited.Returned (Inl er) \<Rightarrow> waited.Returned (Inl er)
      | waited.Returned (Inr report) \<Rightarrow>
          (case wait_all receipts of
             waited.Returned (Inr rest) \<Rightarrow> waited.Returned (Inr (report # rest))
           | other \<Rightarrow> other))"

fun is_scheduled :: "commit_receipt_value \<Rightarrow> bool" where
  "is_scheduled (ReceiptScheduled _) = True"
| "is_scheduled (ReceiptCompleted _) = False"

definition batch_receipt :: "commit_receipt_value list \<Rightarrow> cache_error + commit_receipt_value" where
  "batch_receipt receipts =
     (if list_ex is_scheduled receipts
      then Inr (case wait_all receipts of
                  waited.Returned r \<Rightarrow> schedule_receipt (map_sum id reports r)
                | WaiterPanics \<Rightarrow> ReceiptScheduled (Some TaskPanicked))
      else case wait_all receipts of
             waited.Returned (Inl er) \<Rightarrow> Inl er
           | waited.Returned (Inr rs) \<Rightarrow> Inr (ReceiptCompleted (reports rs))
           | WaiterPanics \<Rightarrow> Inr (ReceiptScheduled (Some TaskPanicked)))"

definition invalidation_mode :: "('v, 'l, 'b) marker_env \<Rightarrow> entry_options \<Rightarrow> commit_mode" where
  "invalidation_mode me opts =
     (if opt_allow_background_distributed_operations opts \<and> \<not> opt_skip_distributed_write opts
         \<and> (me_access me = AccessDurable \<or> me_access me = AccessOrdinary)
      then BackgroundCommit else ForegroundCommit)"

definition mutate_markers ::
  "'v cache_config \<Rightarrow> ('v, 'l, 'b) marker_env \<Rightarrow> marker_kind list \<Rightarrow> entry_options option \<Rightarrow> ('v, 'b) site
   \<Rightarrow> ('v, 'b, commit_receipt_value observed) site_result" where
  "mutate_markers cfg me kinds options s =
     (let opts = (case options of Some o' \<Rightarrow> o' | None \<Rightarrow> me_defaults me) in
      case ce_valid (me_commit me) opts of
        Inl er \<Rightarrow> (s, Inl er)
      | Inr _ \<Rightarrow>
          if cc_disable_tagging cfg \<or> me_access me = AccessUnavailable then (s, Inl (ErrMarker MarkerUnsupported))
          else let now = me_now me 0
               in case announce_markers cfg me 1 opts now kinds (sv_worker s) of
                    (w, Inl er) \<Rightarrow> (s\<lparr>sv_worker := w\<rparr>, Inl er)
                  | (w, Inr commands) \<Rightarrow>
                      let (s, r) = commit_markers cfg me (2 * length kinds + 1) commands opts now (s\<lparr>sv_worker := w\<rparr>)
                      in case pipeline_receipt (invalidation_mode me opts) (case r of Inl er \<Rightarrow> Inl er | Inr receipts \<Rightarrow> batch_receipt receipts) of
                           Inl er \<Rightarrow> (s, Inl er)
                         | Inr receipt \<Rightarrow> (s, Inr (receipt, OutInvalidated, None)))"

section \<open>Reconciling with the durable store\<close>

definition CLEAR_MARKERS :: "marker_kind list" where
  "CLEAR_MARKERS = [ClearRemove, ClearExpire]"

definition reconcile_markers ::
  "'v cache_config \<Rightarrow> ('v, 'l, 'b) marker_env \<Rightarrow> nat \<Rightarrow> tag list \<Rightarrow> (marker_error + stored_marker list) option \<Rightarrow> ('v, 'b) site
   \<Rightarrow> ('v, 'b, unit) site_result" where
  "reconcile_markers cfg me n tags prefetched s =
     (if cc_disable_tagging cfg \<or> me_access me \<noteq> AccessDurable then (s, Inr ())
      else case prefetched of
             Some (Inl er) \<Rightarrow> (s, Inl (ErrMarker er))
           | _ \<Rightarrow>
               let clears = (case prefetched of Some (Inr ms) \<Rightarrow> ms | _ \<Rightarrow> []);
                   s = on_worker (fold apply_marker clears) s;
                   kinds = (if prefetched = None then CLEAR_MARKERS else []) @ map TagKind tags
               in if kinds = [] then (s, Inr ())
                  else let s = ce_wait (me_commit me) n s
                       in case me_read_many me n (me_scope me) kinds (sv_backend s) of
                            Inl er \<Rightarrow> (s, Inl (ErrMarker er))
                          | Inr ms \<Rightarrow> (on_worker (fold apply_marker ms) s, Inr ()))"

end
