(* ===== verification/Amalgam_Marker_Orders.thy ===== *)
theory Amalgam_Marker_Orders
  imports Amalgam_Markers
begin

text \<open>
  What the operations on markers keep, proved once for every order on the shared state: an order that is kept by
  a marker applied to the registry, by a change of the observation memory or of the recovery queue and by an event is
  kept by every operation that remembers, merges, queues or renews a marker, as long as the other
  operations of the cache keep it too.
\<close>

text \<open>What the other operations of the cache keep at an await and between two accesses of an admission.\<close>

definition order_rely :: "('v worker \<Rightarrow> 'v worker \<Rightarrow> bool) \<Rightarrow> ('v, 'l, 'b) marker_env \<Rightarrow> bool" where
  "order_rely le me \<longleftrightarrow> (\<forall>n s. le (sv_worker s) (sv_worker (ce_wait (me_commit me) n s)))
     \<and> (\<forall>n f w. f \<in> set (me_contention me n) \<longrightarrow> le w (f w))"

lemma order_relyD:
  assumes "order_rely le me"
  shows "le (sv_worker s) (sv_worker (ce_wait (me_commit me) n s))" "f \<in> set (me_contention me n) \<Longrightarrow> le w (f w)"
  using assms by (auto simp: order_rely_def)

locale worker_order =
  fixes le :: "'v worker \<Rightarrow> 'v worker \<Rightarrow> bool"
  assumes le_refl: "le w w" and le_trans: "le a b \<Longrightarrow> le b c \<Longrightarrow> le a c"
    and le_apply: "le w (apply_marker m w)" and le_observed: "le w (w\<lparr>wk_observed := observed\<rparr>)"
    and le_recovery: "le w (w\<lparr>wk_recovery := r\<rparr>)" and le_emit: "le w (emit e w)"
begin

lemma accept_le: "le w (accept_marker_observation kind obs w)"
  by (simp add: accept_marker_observation_def le_refl le_apply split: marker_presence.split)

lemma get_observation_le: "get_observation me n kind now w = (w', r) \<Longrightarrow> le w w'"
  by (auto simp: get_observation_def le_observed split: prod.splits)

lemma put_observation_le: "put_observation me n kind current e now w = (w', r) \<Longrightarrow> le w w'"
  by (auto simp: put_observation_def Let_def le_observed split: prod.splits)

lemma admit_round_le:
  assumes "admit_round me n kind e now others w = (w', r)" "\<And>x. le x (others x)"
  shows "le w w'"
proof -
  obtain w1 current where g: "get_observation me n kind now w = (w1, current)" by fastforce
  have "\<exists>e' a. put_observation me n kind current e' now (others w1) = (w', a)"
    using assms(1) by (auto simp: admit_round_def g Let_def split: prod.splits)
  then have "le (others w1) w'" using put_observation_le by blast
  then show ?thesis using get_observation_le [OF g] assms(2) le_trans by blast
qed

lemma admit_rounds_le:
  assumes "admit_observation me n kind e now stamp rounds w = (w', obs)" "\<And>f x. f \<in> set rounds \<Longrightarrow> le x (f x)"
  shows "le w w'"
  using assms
proof (induction rounds arbitrary: w)
  case Nil
  then show ?case by (auto simp: le_refl split: if_splits prod.splits dest!: admit_round_le)
next
  case (Cons f rest)
  obtain w1 a o1 where r: "admit_round me n kind e now f w = (w1, a, o1)" by (cases "admit_round me n kind e now f w") auto
  have "le w w1" by (rule admit_round_le [OF r]) (use Cons.prems in auto)
  then show ?case using Cons r by (auto simp: le_refl split: if_splits intro: le_trans)
qed

lemma admit_observation_le:
  assumes "order_rely le me" "admit_observation me n kind e now stamp (me_contention me k) w = (w', obs)"
  shows "le w w'"
  by (rule admit_rounds_le [OF assms(2)]) (rule order_relyD(2) [OF assms(1)])

lemma observations_store_le:
  assumes "order_rely le me" "observations_store me n kind obs opts now jitter stamp w = (w', r)"
  shows "le w w'"
  using assms(2) admit_observation_le [OF assms(1)]
  by (auto simp: observations_store_def le_refl split: if_splits sum.splits prod.splits)

lemma store_snapshot_le:
  assumes "order_rely le me" "store_snapshot me n kind obs snap opts now stamp w = (w', r)"
  shows "le w w'"
  using assms(2) admit_observation_le [OF assms(1)]
  by (auto simp: store_snapshot_def le_refl split: if_splits sum.splits option.splits prod.splits)

lemma retain_snapshot_le:
  assumes "order_rely le me" "retain_snapshot_fallback me n kind snap presence opts now fault stamp w = (w', r)"
  shows "le w w'"
  using assms(2) admit_observation_le [OF assms(1)]
  by (auto simp: retain_snapshot_fallback_def Let_def le_refl split: if_splits sum.splits option.splits prod.splits)

lemma retain_fallback_le:
  assumes "retain_fallback me n kind source opts now fault w = (w', r)"
  shows "le w w'"
proof -
  have "le w y" if "put_observation me n kind current e now w = (x, a)" "get_observation me n kind now x = (y, z)" for current e x a y z
    using le_trans [OF put_observation_le [OF that(1)] get_observation_le [OF that(2)]] .
  then show ?thesis using assms put_observation_le
    by (auto simp: retain_fallback_def Let_def le_refl split: if_splits sum.splits option.splits prod.splits)
qed

lemma merge_rounds_le:
  assumes "merge_maximum me n kind maximum now stamp rounds w = (w', r)" "\<And>f x. f \<in> set rounds \<Longrightarrow> le x (f x)"
  shows "le w w'"
  using assms
proof (induction me n kind maximum now stamp rounds w rule: merge_maximum.induct)
  case (1 me n kind maximum now stamp rounds w)
  obtain w1 current where g: "get_observation me n kind now w = (w1, current)" by fastforce
  note le = get_observation_le [OF g]
  show ?case
  proof (cases "\<not> stamp_is_current (wk_ep w) stamp \<or> current = None")
    case True
    then show ?thesis using "1.prems" le by (subst (asm) merge_maximum.simps) (auto simp: g le_refl split: if_splits)
  next
    case False
    then obtain a where a: "current = Some a" and st: "stamp_is_current (wk_ep w) stamp" by auto
    let ?obs = "reconcile_maximum (Some maximum) (en_value (arc_entry a))"
    let ?others = "case rounds of [] \<Rightarrow> id | f # _ \<Rightarrow> f"
    show ?thesis
    proof (cases "?obs = en_value (arc_entry a)")
      case True
      then show ?thesis using "1.prems"(1) le st by (subst (asm) merge_maximum.simps) (simp add: g a)
    next
      case changed: False
      obtain w2 ad where p: "put_observation me n kind (Some a) (with_value ?obs (arc_entry a)) now (?others w1) = (w2, ad)" by fastforce
      have "le w1 (?others w1)" using "1.prems"(2) le_refl by (cases rounds) auto
      then have le2: "le w w2" using le put_observation_le [OF p] le_trans by blast
      show ?thesis
      proof (cases "ad \<noteq> RejectedAdmission VersionChanged \<or> rounds = []")
        case True
        then have "w' = w2" using "1.prems"(1) st changed p by (subst (asm) merge_maximum.simps) (auto simp: g a Let_def split: if_splits)
        then show ?thesis using le2 by simp
      next
        case again: False
        then obtain f rest where r: "rounds = f # rest" by (cases rounds) auto
        have "merge_maximum me n kind maximum now stamp rest w2 = (w', r)"
          using "1.prems"(1) st changed p again by (subst (asm) merge_maximum.simps) (auto simp: g a r Let_def)
        then have "le w2 w'" using "1.IH" [OF _ g [symmetric] a refl changed refl p [symmetric] refl] st again "1.prems"(2) r by auto
        then show ?thesis using le2 le_trans by blast
      qed
    qed
  qed
qed

lemma queued_work_le: "queued_work enqueue w = (w', r) \<Longrightarrow> le w w'"
  by (auto simp: queued_work_def Let_def le_refl le_recovery split: option.splits prod.splits sum.splits)

lemma queue_snapshot_le: "queue_marker_snapshot me n commit w = (w', r) \<Longrightarrow> le w w'"
  by (auto simp: queue_marker_snapshot_def le_refl split: if_splits sum.splits dest: queued_work_le)

lemma snapshot_failure_le:
  assumes "marker_snapshot_failure me n commit er policy w = (w', r)"
  shows "le w w'"
proof -
  have "le w x" if "queue_marker_snapshot me n commit (emit ev w) = (x, y)" for ev x y
    using le_trans [OF le_emit queue_snapshot_le [OF that]] .
  then show ?thesis using assms
    by (auto simp: marker_snapshot_failure_def Let_def le_refl le_emit split: option.splits prod.splits if_splits sum.splits)
qed

lemma commit_observation_le:
  assumes "order_rely le me" "commit_observation cfg me n commit snap w = (w', r)"
  shows "le w w'"
proof -
  have m: "le w x" if "merge_maximum me n k v now stamp (me_contention me n) w = (x, y)" for k v now stamp x y
    by (rule merge_rounds_le [OF that]) (rule order_relyD(2) [OF assms(1)])
  show ?thesis using assms(2) le_trans [OF m accept_le] m
      le_trans [OF observations_store_le [OF assms(1)] accept_le] observations_store_le [OF assms(1)]
    by (auto simp: commit_observation_def Let_def le_refl split: if_splits marker_local_commit.splits prod.splits option.splits sum.splits)
qed

lemma commit_renewed_le:
  assumes "order_rely le me" "commit_renewed cfg me n commit renewal w = (w', r)"
  shows "le w w'"
proof -
  obtain found outcome where f: "renewal_result renewal = (found, outcome)" by fastforce
  obtain w1 r1 where c: "(case found of None \<Rightarrow> (w, Inr ())
      | Some snap \<Rightarrow> commit_observation cfg me n commit snap (apply_marker (StoredMarker (sc_kind commit) (snap_version snap)) w)) = (w1, r1)" by fastforce
  have "le w w1" using c commit_observation_le [OF assms(1)] le_trans [OF le_apply] le_refl by (cases found) (auto, blast)
  then show ?thesis using assms(2) le_trans [OF _ le_emit, of w w1] by (auto simp: commit_renewed_def f c Let_def split: sum.splits)
qed

lemma control_snapshot_le:
  assumes "order_rely le me" "commit_control_snapshot cfg me n commit policy s = (s', r)"
  shows "le (sv_worker s) (sv_worker s')"
proof -
  let ?s = "ce_wait (me_commit me) n s"
  have w: "le (sv_worker s) (sv_worker ?s)" by (rule order_relyD(1) [OF assms(1)])
  have "le (sv_worker s) x" if "commit_renewed cfg me m commit renewal (sv_worker ?s) = (x, y)" for m renewal x y
    using commit_renewed_le [OF assms(1) that] w le_trans by blast
  moreover have "le (sv_worker s) x" if "marker_snapshot_failure me m commit er policy (sv_worker ?s) = (x, y)" for m er x y
    using snapshot_failure_le [OF that] w le_trans by blast
  ultimately show ?thesis using assms(2) w le_refl
    by (auto simp: commit_control_snapshot_def Let_def split: option.splits if_splits sum.splits prod.splits snapshot_cache_error.splits)
qed

end

end
