(* ===== verification/Amalgam_Recovery_Facts.thy ===== *)
theory Amalgam_Recovery_Facts
  imports Amalgam_Recovery
begin

text \<open>
  Lemmas on the recovery queue: its invariant (distinct keys and identities, bounded length,
  keys that match their work, positive budgets) under every critical section, the evolution of
  identities along a run, and the exclusivity of claims.
\<close>

section \<open>Queue invariant\<close>

definition queued_wf :: "nat option \<Rightarrow> recovery_key \<Rightarrow> queued \<Rightarrow> bool" where
  "queued_wf next_id key q \<longleftrightarrow>
     (let t = q_ticket q in key = work_key (ticket_work t) \<and> work_wf (ticket_work t)
       \<and> q_remaining q \<noteq> Some 0
       \<and> (case next_id of None \<Rightarrow> ticket_id t \<le> u64_max | Some n \<Rightarrow> ticket_id t < n)
       \<and> ticket_generation t = (case ticket_fence t of None \<Rightarrow> ticket_id t | Some f \<Rightarrow> fence_generation f))"

definition ids_distinct :: "(recovery_key, queued) hmap \<Rightarrow> bool" where
  "ids_distinct m \<longleftrightarrow> (\<forall>k q k' q'. hm_get m k = Some q \<and> hm_get m k' = Some q'
     \<and> ticket_id (q_ticket q) = ticket_id (q_ticket q') \<longrightarrow> k = k')"

definition queue_inv :: "nat option \<Rightarrow> nat option \<Rightarrow> (recovery_key, queued) hmap \<Rightarrow> bool" where
  "queue_inv limit next_id m \<longleftrightarrow> hm_ok m
     \<and> (\<forall>n. next_id = Some n \<longrightarrow> n \<le> u64_max)
     \<and> (\<forall>l. limit = Some l \<longrightarrow> length m \<le> l)
     \<and> (\<forall>k q. hm_get m k = Some q \<longrightarrow> queued_wf next_id k q)
     \<and> ids_distinct m"

definition queue_ok :: "recovery_service \<Rightarrow> bool" where
  "queue_ok s \<longleftrightarrow> queue_inv (rc_max_items (rs_config s)) (rs_next_id s) (rs_entries s)"

lemma queue_invD:
  assumes "queue_inv limit next_id m"
  shows "hm_ok m" and "next_id = Some n \<Longrightarrow> n \<le> u64_max" and "limit = Some l \<Longrightarrow> length m \<le> l"
    and "hm_get m k = Some q \<Longrightarrow> queued_wf next_id k q" and "ids_distinct m"
  using assms by (simp_all add: queue_inv_def)

lemma ids_distinct_remove: "ids_distinct m \<Longrightarrow> ids_distinct (hm_remove k m)"
  unfolding ids_distinct_def by (auto simp: hmap_simps split: if_splits)

lemma queue_inv_remove:
  assumes "queue_inv limit next_id m"
  shows "queue_inv limit next_id (hm_remove k m)"
proof -
  note d = queue_invD [OF assms]
  have "length (hm_remove k m) \<le> length m" using length_hm_remove [OF d(1)] by simp
  then show ?thesis
    unfolding queue_inv_def
    using d(1,2,4) ids_distinct_remove [OF d(5)] order_trans [OF _ d(3)]
    by (simp add: hmap_simps)
qed

lemma ids_distinct_put:
  assumes "ids_distinct m" and "hm_get m k = Some q" and "ticket_id (q_ticket q') = ticket_id (q_ticket q)"
  shows "ids_distinct (hm_insert k q' m)"
  unfolding ids_distinct_def
proof (intro allI impI)
  fix ka qa kb qb
  assume *: "hm_get (hm_insert k q' m) ka = Some qa \<and> hm_get (hm_insert k q' m) kb = Some qb
    \<and> ticket_id (q_ticket qa) = ticket_id (q_ticket qb)"
  define f where "f x y = (if x = k then q else y)" for x y
  have "hm_get m ka = Some (f ka qa)" "hm_get m kb = Some (f kb qb)"
    "ticket_id (q_ticket (f ka qa)) = ticket_id (q_ticket (f kb qb))"
    using * assms(2,3) by (auto simp: hmap_simps f_def split: if_splits)
  then show "ka = kb" using assms(1) unfolding ids_distinct_def by blast
qed

lemma queue_inv_put:
  assumes "queue_inv limit next_id m" and "hm_get m k = Some q"
    and "queued_wf next_id k q'" and "ticket_id (q_ticket q') = ticket_id (q_ticket q)"
  shows "queue_inv limit next_id (hm_insert k q' m)"
proof -
  note d = queue_invD [OF assms(1)]
  have "length (hm_insert k q' m) = length m" using assms(2) by (simp add: length_hm_insert)
  then show ?thesis
    unfolding queue_inv_def
    using d(1-4) ids_distinct_put [OF d(5) assms(2,4)] assms(3) by (simp add: hmap_simps)
qed

lemma queued_wf_next:
  assumes "queued_wf (Some n) k q" and "n \<le> u64_max"
  shows "queued_wf (checked_add_u64 n 1) k q"
  using assms by (auto simp: queued_wf_def Let_def checked_add_u64_def)

lemma ids_distinct_insert_new:
  assumes "ids_distinct m" and "\<And>k q. hm_get m k = Some q \<Longrightarrow> ticket_id (q_ticket q) < ticket_id (q_ticket q')"
  shows "ids_distinct (hm_insert k q' m)"
  using assms unfolding ids_distinct_def by (fastforce simp: hmap_simps split: if_splits)

lemma queue_inv_install:
  assumes "queue_inv limit (Some n) m" and "queued_wf (checked_add_u64 n 1) k q'"
    and "ticket_id (q_ticket q') = n"
    and room: "hm_get m k = None \<Longrightarrow> \<forall>l. limit = Some l \<longrightarrow> length m < l"
  shows "queue_inv limit (checked_add_u64 n 1) (hm_insert k q' m)"
proof -
  note d = queue_invD [OF assms(1)]
  have lt: "ticket_id (q_ticket q) < n" if "hm_get m k' = Some q" for k' q
    using d(4) [OF that] by (simp add: queued_wf_def Let_def)
  have "ids_distinct (hm_insert k q' m)"
    using ids_distinct_insert_new [OF d(5)] lt assms(3) by simp
  moreover have "queued_wf (checked_add_u64 n 1) k' q" if "hm_get (hm_insert k q' m) k' = Some q" for k' q
    using that assms(2) queued_wf_next [OF d(4) d(2)] by (simp add: hmap_simps split: if_splits)
  moreover have "length (hm_insert k q' m) \<le> l" if "limit = Some l" for l
    using d(3) [OF that] room that by (auto simp: length_hm_insert)
  moreover have "n' \<le> u64_max" if "checked_add_u64 n 1 = Some n'" for n'
    using that by (simp add: checked_add_u64_def split: if_splits)
  ultimately show ?thesis using d(1) unfolding queue_inv_def by simp
qed


section \<open>Operations keep the invariant\<close>

lemma command_key_eq:
  "command_key a = command_key b \<longleftrightarrow> scope_eq (cmd_scope a) (cmd_scope b)
     \<and> marker_kind_of (cmd_marker a) = marker_kind_of (cmd_marker b)"
  by (simp add: command_key_def scope_key_def scope_eq_def)

lemma inherit_work_ok:
  assumes "work_wf work" and "work_wf existing" and "work_key work = work_key existing"
  shows "\<exists>w'. inherit_work work existing = Inr w' \<and> work_wf w' \<and> work_key w' = work_key work
    \<and> work_timestamp w' = work_timestamp work \<and> work_expires_at w' = work_expires_at work"
proof (cases existing)
  case (MutationWork p)
  note p = this
  show ?thesis
  proof (cases work)
    case (MutationWork w)
    with assms p have *: "mutation_wf w" "mutation_wf p" "scope_eq (mm_scope w) (mm_scope p)"
      by (simp_all add: command_key_eq)
    note i = inherit_compaction_ok [OF *]
    from inherit_compaction_wf [OF * i] i MutationWork p show ?thesis by (simp add: inherit_work_def)
  next
    case (MarkerWork c stage)
    let ?w = "committed_notification c"
    from assms p MarkerWork have *: "mutation_wf ?w" "mutation_wf p" "scope_eq (mm_scope ?w) (mm_scope p)"
      by (simp_all add: command_key_eq) (simp add: committed_notification_def)
    note i = inherit_compaction_ok [OF *]
    have "mm_command ?w = c" by (simp add: committed_notification_def)
    with inherit_compaction_wf [OF * i] i MarkerWork p show ?thesis by (simp add: inherit_work_def)
  qed (use assms p in \<open>simp_all add: inherit_work_def\<close>)
qed (use assms in \<open>simp_all add: inherit_work_def\<close>)

lemma retry_budget_pos: "retry_budget c w \<noteq> Some 0"
  by (simp add: retry_budget_def)

lemma install_ok:
  assumes "queue_ok s" and "work_wf work" and "work_key work = key" and "remaining \<noteq> Some 0"
    and "hm_get (rs_entries s) key = None \<Longrightarrow>
      \<forall>l. rc_max_items (rs_config s) = Some l \<longrightarrow> length (rs_entries s) < l"
  shows "queue_ok (fst (install key work fence remaining replaced s))"
proof (cases "rs_next_id s")
  case None
  with assms(1) show ?thesis by (simp add: install_def)
next
  case (Some n)
  have "queue_inv (rc_max_items (rs_config s)) (Some n) (rs_entries s)"
    using assms(1) Some by (simp add: queue_ok_def)
  note i = queue_inv_install [OF this _ _ assms(5)] and b = queue_invD(2) [OF this refl]
  have "queued_wf (checked_add_u64 n 1) key \<lparr>q_ticket = \<lparr>ticket_id = n, ticket_work = work,
      ticket_generation = (case fence of Some f \<Rightarrow> fence_generation f | None \<Rightarrow> n), ticket_fence = fence\<rparr>,
      q_remaining = remaining, q_state = Pending\<rparr>"
    using assms(2-4) b by (auto simp: queued_wf_def checked_add_u64_def split: option.split)
  from i [OF this] show ?thesis by (simp add: install_def queue_ok_def Some Let_def)
qed

lemma make_room_cases:
  "make_room bound m = m \<or> (\<exists>k. make_room bound m = hm_remove k m)"
  by (auto simp: make_room_def split: option.splits)

lemma queue_ok_make_room: "queue_ok s \<Longrightarrow> queue_ok (s\<lparr>rs_entries := make_room b (rs_entries s)\<rparr>)"
  using make_room_cases [of b "rs_entries s"] queue_inv_remove by (auto simp: queue_ok_def)

lemma enqueue_new_ok:
  assumes "queue_ok s" and "work_wf work" and "work_key work = key" and "remaining \<noteq> Some 0"
  shows "queue_ok (fst (enqueue_new key work fence remaining s))"
  using install_ok [OF _ assms(2-4)] queue_ok_make_room [OF assms(1)] assms(1)
  by (auto simp: enqueue_new_def Let_def split: option.splits)

lemma enqueue_locked_ok:
  assumes "queue_ok s" and "work_wf work"
  shows "queue_ok (fst (enqueue_locked work fence s))"
proof (cases "hm_get (rs_entries s) (work_key work)")
  case None
  then show ?thesis
    using enqueue_new_ok [OF assms refl retry_budget_pos] assms(1)
    by (simp add: enqueue_locked_def Let_def)
next
  case (Some q)
  then have "queued_wf (rs_next_id s) (work_key work) q"
    using assms(1) queue_invD(4) by (simp add: queue_ok_def)
  then obtain w' where w': "inherit_work work (ticket_work (q_ticket q)) = Inr w'" "work_wf w'"
      "work_key w' = work_key work"
    using inherit_work_ok [OF assms(2)] by (auto simp: queued_wf_def Let_def)
  show ?thesis
    using Some assms(1) w'(1) install_ok [OF assms(1) w'(2,3) retry_budget_pos]
    by (simp add: enqueue_locked_def Let_def)
qed

lemma ownedD:
  assumes "owned t s = Some q"
  shows "hm_get (rs_entries s) (work_key (ticket_work t)) = Some q" and "ticket_id (q_ticket q) = ticket_id t"
  using assms by (auto simp: owned_def split: option.splits if_splits)

lemma queue_ok_put_owned:
  assumes "queue_ok s" and "owned t s = Some q" and "queued_wf (rs_next_id s) (work_key (ticket_work t)) q'"
    and "ticket_id (q_ticket q') = ticket_id (q_ticket q)"
  shows "queue_ok (put_owned t q' s)"
  using assms ownedD [OF assms(2)] queue_inv_put by (simp add: queue_ok_def put_owned_def)

lemma owned_wf: "queue_ok s \<Longrightarrow> owned t s = Some q \<Longrightarrow> queued_wf (rs_next_id s) (work_key (ticket_work t)) q"
  using queue_invD(4) ownedD(1) by (auto simp: queue_ok_def)

lemma queued_wf_state [simp]: "queued_wf n k (q\<lparr>q_state := st\<rparr>) = queued_wf n k q"
  by (simp add: queued_wf_def)

lemma queued_wf_remaining:
  "queued_wf n k q \<Longrightarrow> r \<noteq> Some 0 \<Longrightarrow> queued_wf n k (q\<lparr>q_remaining := r\<rparr>)"
  by (simp add: queued_wf_def Let_def)

lemma queued_wf_set_work:
  "queued_wf n k q \<Longrightarrow> work_wf w \<Longrightarrow> work_key w = k \<Longrightarrow> queued_wf n k (set_work w q)"
  by (auto simp: queued_wf_def set_work_def Let_def split: option.splits)

lemma set_work_id [simp]: "ticket_id (q_ticket (set_work w q)) = ticket_id (q_ticket q)"
  by (simp add: set_work_def)

lemma queue_ok_remove: "queue_ok s \<Longrightarrow> queue_ok (s\<lparr>rs_entries := hm_remove k (rs_entries s)\<rparr>)"
  by (simp add: queue_ok_def queue_inv_remove)

lemma release_claim_ok: "queue_ok s \<Longrightarrow> queue_ok (release_claim t s)"
  by (auto simp: release_claim_def owned_wf intro!: queue_ok_put_owned split: option.splits)

lemma record_failure_ok: "queue_ok s \<Longrightarrow> queue_ok (record_failure t s)"
  by (auto simp: record_failure_def owned_wf queue_ok_remove intro!: queue_ok_put_owned queued_wf_remaining
      split: option.splits)

lemma complete_ok: "queue_ok s \<Longrightarrow> queue_ok (fst (complete t s))"
  by (auto simp: complete_def queue_ok_remove split: option.splits)

lemma notification_work_ok:
  assumes "notification_work w = Some w'"
  shows "work_key w' = work_key w" and "work_wf w \<Longrightarrow> work_wf w'"
  using assms by (cases w; auto simp: notification_Inr mutation_wf_def
      split: marker_mutation_phase.splits if_splits sum.splits)+

lemma notification_stage_ok: "queue_ok s \<Longrightarrow> queue_ok (fst (notification_stage t s))"
proof (cases "owned t s")
  case (Some q)
  assume s: "queue_ok s"
  from owned_wf [OF s Some] have q: "work_wf (ticket_work (q_ticket q))"
    "work_key (ticket_work (q_ticket q)) = work_key (ticket_work t)" by (simp_all add: queued_wf_def Let_def)
  show ?thesis
    using s Some q owned_wf [OF s Some]
    by (auto simp: notification_stage_def notification_work_ok
        intro!: queue_ok_put_owned [OF s Some] queued_wf_set_work split: option.splits)
qed (simp add: notification_stage_def)

lemma marker_population_stage_ok:
  "queue_ok s \<Longrightarrow> event_wf (EvPopulate t w) \<Longrightarrow> queue_ok (fst (marker_population_stage t w s))"
  by (auto simp: marker_population_stage_def owned_wf intro!: queue_ok_put_owned queued_wf_set_work
      split: option.splits)

lemma claim_ok: "queue_ok s \<Longrightarrow> queue_ok (fst (claim k s))"
  using queue_inv_put [of _ _ "rs_entries s" k] queue_invD(4) [of _ _ "rs_entries s" k]
  by (auto simp: claim_def queue_ok_def split: option.splits)

lemma queue_ok_stop: "queue_ok s \<Longrightarrow> queue_ok (recovery_stop s)"
  by (auto simp: queue_ok_def queue_inv_def ids_distinct_def recovery_stop_def)

lemma queue_ok_fields:
  "queue_ok (s\<lparr>rs_barrier := b\<rparr>) = queue_ok s"
  "queue_ok (s\<lparr>rs_worker := w\<rparr>) = queue_ok s"
  "queue_ok (s\<lparr>rs_executor := x\<rparr>) = queue_ok s"
  by (simp_all add: queue_ok_def)

lemma recovery_step_ok: "queue_ok s \<Longrightarrow> queue_ok (recovery_step s e)"
  by (cases e) (auto simp: recovery_step_def enqueue_locked_ok supersede_through_def cancel_through_def
      complete_ok record_failure_ok release_claim_ok notification_stage_ok marker_population_stage_ok
      claim_ok queue_ok_stop suspend_def pause_after_reconnect_def try_spawn_def try_set_executor_def
      queue_ok_remove queue_ok_fields split: option.splits)

interpretation recovery: invariant_machine recovery_step queue_ok
  by unfold_locales (rule recovery_step_ok)

lemma recovery_run_ok: "queue_ok s \<Longrightarrow> queue_ok (recovery_run s es)"
  unfolding recovery_run_def by (rule recovery.run_inv)

lemma recovery_try_new_ok: "recovery_try_new c now = Inr s \<Longrightarrow> queue_ok s"
  by (auto simp: recovery_try_new_def queue_ok_def queue_inv_def ids_distinct_def split: if_splits)


section \<open>Identities\<close>

text \<open>The least identity not yet issued.\<close>

definition next_bound :: "recovery_service \<Rightarrow> nat" where
  "next_bound s = (case rs_next_id s of None \<Rightarrow> u64_max + 1 | Some n \<Rightarrow> n)"

fun outcome_ids :: "recovery_error + enqueue_outcome \<Rightarrow> recovery_id list" where
  "outcome_ids (Inr (EnqQueued n)) = [n]"
| "outcome_ids (Inr (EnqReplaced n)) = [n]"
| "outcome_ids r = []"

definition event_ids :: "recovery_service \<Rightarrow> recovery_event \<Rightarrow> recovery_id list" where
  "event_ids s e = (case e of
     EvEnqueue w f \<Rightarrow> if work_wf w then outcome_ids (snd (enqueue_locked w f s)) else []
   | _ \<Rightarrow> [])"

fun issued_ids :: "recovery_service \<Rightarrow> recovery_event list \<Rightarrow> recovery_id list" where
  "issued_ids s [] = []"
| "issued_ids s (e # es) = event_ids s e @ issued_ids (recovery_step s e) es"

text \<open>
  How one critical section changes the queue: an entry keeps its identity, or it was installed
  with the next one, which is then the identity the caller is told.
\<close>

definition evolves :: "recovery_service \<Rightarrow> recovery_id list \<Rightarrow> recovery_service \<Rightarrow> bool" where
  "evolves s ids s' \<longleftrightarrow>
     (ids = [] \<and> rs_next_id s' = rs_next_id s
      \<or> ids = [next_bound s] \<and> next_bound s' = Suc (next_bound s) \<and> next_bound s \<le> u64_max)
     \<and> (\<forall>k q'. hm_get (rs_entries s') k = Some q' \<longrightarrow>
          ticket_id (q_ticket q') \<in> set ids
          \<or> (\<exists>q. hm_get (rs_entries s) k = Some q \<and> ticket_id (q_ticket q) = ticket_id (q_ticket q')))"

lemma evolves_refl: "evolves s [] s"
  by (simp add: evolves_def)

lemma evolves_remove: "evolves s [] (s\<lparr>rs_entries := hm_remove k (rs_entries s)\<rparr>)"
  by (auto simp: evolves_def hmap_simps split: if_splits)

lemma evolves_put:
  "hm_get (rs_entries s) k = Some q \<Longrightarrow> ticket_id (q_ticket q') = ticket_id (q_ticket q) \<Longrightarrow>
   evolves s [] (s\<lparr>rs_entries := hm_insert k q' (rs_entries s)\<rparr>)"
  by (auto simp: evolves_def hmap_simps split: if_splits)

lemma evolves_put_owned:
  "owned t s = Some q \<Longrightarrow> ticket_id (q_ticket q') = ticket_id (q_ticket q) \<Longrightarrow> evolves s [] (put_owned t q' s)"
  unfolding put_owned_def by (rule evolves_put [OF ownedD(1)])

lemma evolves_stop: "evolves s [] (recovery_stop s)"
  by (simp add: evolves_def recovery_stop_def)

lemma evolves_fields:
  "evolves s [] (s\<lparr>rs_barrier := b\<rparr>)" "evolves s [] (s\<lparr>rs_worker := w\<rparr>)" "evolves s [] (s\<lparr>rs_executor := x\<rparr>)"
  by (simp_all add: evolves_def)

lemma evolves_install:
  assumes "queue_ok s" and "install k w f r b s = (s', res)"
  shows "evolves s (outcome_ids res) s'"
proof (cases "rs_next_id s")
  case None
  with assms show ?thesis by (auto simp: install_def evolves_refl)
next
  case (Some n)
  have "n \<le> u64_max" using assms(1) Some queue_invD(2) by (simp add: queue_ok_def)
  moreover have "outcome_ids res = [n]" using assms(2) Some by (auto simp: install_def Let_def)
  ultimately show ?thesis
    using assms(2) Some
    by (auto simp: install_def Let_def evolves_def next_bound_def hmap_simps checked_add_u64_def
        split: if_splits)
qed

lemma evolves_make_room:
  assumes "evolves (s\<lparr>rs_entries := make_room b (rs_entries s)\<rparr>) ids s'"
  shows "evolves s ids s'"
proof -
  have *: "hm_get (make_room b (rs_entries s)) k = Some q \<Longrightarrow> hm_get (rs_entries s) k = Some q" for k q
    using make_room_cases [of b "rs_entries s"] by (auto simp: hmap_simps split: if_splits)
  have "next_bound (s\<lparr>rs_entries := make_room b (rs_entries s)\<rparr>) = next_bound s"
    "rs_next_id (s\<lparr>rs_entries := make_room b (rs_entries s)\<rparr>) = rs_next_id s"
    "rs_entries (s\<lparr>rs_entries := make_room b (rs_entries s)\<rparr>) = make_room b (rs_entries s)"
    by (simp_all add: next_bound_def)
  note e = assms [unfolded evolves_def this]
  show ?thesis unfolding evolves_def using e * by blast
qed

lemma evolves_enqueue_new:
  assumes "queue_ok s" and "enqueue_new k w f r s = (s', res)"
  shows "evolves s (outcome_ids res) s'"
proof -
  define b where "b = (case work_expires_at w of Some e \<Rightarrow> e | None \<Rightarrow> Timestamp_MAX)"
  define s1 where "s1 = s\<lparr>rs_entries := make_room b (rs_entries s)\<rparr>"
  have s1: "queue_ok s1" unfolding s1_def by (rule queue_ok_make_room [OF assms(1)])
  have "(s', res) = install k w f r False s \<or> (s', res) = install k w f r False s1
    \<or> (s', res) = (s1, Inr EnqCapacityRejected)"
    unfolding assms(2) [symmetric] enqueue_new_def Let_def s1_def b_def by (simp split: option.split)
  then show ?thesis
  proof (elim disjE)
    assume "(s', res) = install k w f r False s"
    then show ?thesis by (intro evolves_install [OF assms(1)]) (rule sym)
  next
    assume "(s', res) = install k w f r False s1"
    then have "evolves s1 (outcome_ids res) s'" by (intro evolves_install [OF s1]) (rule sym)
    then show ?thesis unfolding s1_def by (rule evolves_make_room)
  next
    assume "(s', res) = (s1, Inr EnqCapacityRejected)"
    moreover have "evolves s [] s1" by (rule evolves_make_room [where b = b]) (simp add: evolves_refl s1_def)
    ultimately show ?thesis by simp
  qed
qed

lemma evolves_enqueue:
  assumes "queue_ok s" and "enqueue_locked w f s = (s', res)"
  shows "evolves s (outcome_ids res) s'"
  using assms(2) evolves_install [OF assms(1)] evolves_enqueue_new [OF assms(1)]
  by (auto simp: enqueue_locked_def Let_def evolves_refl split: if_splits option.splits sum.splits)

lemma evolves_step:
  assumes "queue_ok s"
  shows "evolves s (event_ids s e) (recovery_step s e)"
proof (cases "event_wf e")
  case False
  then have "event_ids s e = []" by (cases e) (auto simp: event_ids_def)
  with False show ?thesis by (simp add: recovery_step_def evolves_refl)
next
  case True
  show ?thesis
  proof (cases e)
    case (EvEnqueue w f)
    with True show ?thesis
      using evolves_enqueue [OF assms, of w f "fst (enqueue_locked w f s)" "snd (enqueue_locked w f s)"]
      by (simp add: recovery_step_def event_ids_def)
  qed (use True in \<open>auto simp: recovery_step_def event_ids_def supersede_through_def cancel_through_def
      complete_def record_failure_def release_claim_def notification_stage_def marker_population_stage_def
      claim_def suspend_def pause_after_reconnect_def try_spawn_def try_set_executor_def
      evolves_refl evolves_remove evolves_stop evolves_fields evolves_put_owned evolves_put
      split: option.splits\<close>)
qed

lemma next_bound_step: "queue_ok s \<Longrightarrow> next_bound s \<le> next_bound (recovery_step s e)"
  using evolves_step [of s e] by (auto simp: evolves_def next_bound_def)

lemma next_bound_run: "queue_ok s \<Longrightarrow> next_bound s \<le> next_bound (recovery_run s es)"
proof (induction es arbitrary: s)
  case (Cons e es)
  then show ?case
    using order_trans [OF next_bound_step Cons.IH [OF recovery_step_ok]] by (simp add: recovery_run_def)
qed (simp add: recovery_run_def)

lemma issued_ids_bounds:
  "queue_ok s \<Longrightarrow> sorted_wrt (<) (issued_ids s es) \<and> (\<forall>n \<in> set (issued_ids s es). next_bound s \<le> n)"
proof (induction es arbitrary: s)
  case (Cons e es)
  note IH = Cons.IH [OF recovery_step_ok [OF Cons.prems, of e]]
  from evolves_step [OF Cons.prems, of e] consider
    "event_ids s e = []" | "event_ids s e = [next_bound s]" "next_bound (recovery_step s e) = Suc (next_bound s)"
    by (auto simp: evolves_def)
  then show ?case
    using IH next_bound_step [OF Cons.prems, of e] by cases (auto intro: order_trans)
qed simp

lemma queue_ids_issued:
  assumes "queue_ok s" and "hm_get (rs_entries (recovery_run s es)) k = Some q"
  shows "ticket_id (q_ticket q) \<in> set (issued_ids s es)
    \<or> (\<exists>q0. hm_get (rs_entries s) k = Some q0 \<and> ticket_id (q_ticket q0) = ticket_id (q_ticket q))"
  using assms
proof (induction es arbitrary: s)
  case (Cons e es)
  have "hm_get (rs_entries (recovery_run (recovery_step s e) es)) k = Some q"
    using Cons.prems(2) by (simp add: recovery_run_def)
  note IH = Cons.IH [OF recovery_step_ok [OF Cons.prems(1)] this]
  have "ticket_id (q_ticket q0) \<in> set (event_ids s e) \<or>
      (\<exists>q1. hm_get (rs_entries s) k = Some q1 \<and> ticket_id (q_ticket q1) = ticket_id (q_ticket q0))"
    if "hm_get (rs_entries (recovery_step s e)) k = Some q0" for q0
    using evolves_step [OF Cons.prems(1), of e] that unfolding evolves_def by blast
  with IH show ?case by auto
qed (simp add: recovery_run_def)

lemma not_owned_step:
  assumes "queue_ok s" and "owned t s = None" and "ticket_id t < next_bound s"
  shows "owned t (recovery_step s e) = None"
proof (rule ccontr)
  let ?k = "work_key (ticket_work t)"
  assume "owned t (recovery_step s e) \<noteq> None"
  then obtain q where q: "hm_get (rs_entries (recovery_step s e)) ?k = Some q" "ticket_id (q_ticket q) = ticket_id t"
    using ownedD by (metis not_None_eq)
  have "ticket_id t \<notin> set (event_ids s e)"
    using evolves_step [OF assms(1), of e] assms(3) by (auto simp: evolves_def)
  then obtain q0 where "hm_get (rs_entries s) ?k = Some q0" "ticket_id (q_ticket q0) = ticket_id t"
    using evolves_step [OF assms(1), of e] q unfolding evolves_def by metis
  with assms(2) show False by (simp add: owned_def)
qed

lemma not_owned_run:
  "queue_ok s \<Longrightarrow> owned t s = None \<Longrightarrow> ticket_id t < next_bound s \<Longrightarrow> owned t (recovery_run s es) = None"
proof (induction es arbitrary: s)
  case (Cons e es)
  have "ticket_id t < next_bound (recovery_step s e)"
    using Cons.prems(3) next_bound_step [OF Cons.prems(1), of e] by simp
  with Cons.IH [OF recovery_step_ok [OF Cons.prems(1)] not_owned_step [OF Cons.prems]]
  show ?case by (simp add: recovery_run_def)
qed (simp add: recovery_run_def)


section \<open>Claims\<close>

text \<open>While a ticket is claimed, its entry is in flight.\<close>

definition claim_held :: "replay_ticket \<Rightarrow> recovery_service \<Rightarrow> bool" where
  "claim_held t s \<longleftrightarrow> (\<forall>k q. hm_get (rs_entries s) k = Some q \<and> ticket_id (q_ticket q) = ticket_id t
     \<longrightarrow> q_state q = InFlight)"

fun gives_back :: "recovery_id \<Rightarrow> recovery_event \<Rightarrow> bool" where
  "gives_back n (EvRelease t) = (ticket_id t = n)"
| "gives_back n (EvFail t) = (ticket_id t = n)"
| "gives_back n e = False"

lemma claim_heldD:
  "claim_held t s \<Longrightarrow> hm_get (rs_entries s) k = Some q \<Longrightarrow> ticket_id (q_ticket q) = ticket_id t \<Longrightarrow> q_state q = InFlight"
  by (auto simp: claim_held_def)

lemma claim_held_remove: "claim_held t s \<Longrightarrow> claim_held t (s\<lparr>rs_entries := hm_remove k (rs_entries s)\<rparr>)"
  by (auto simp: claim_held_def hmap_simps split: if_splits)

lemma claim_held_put:
  "claim_held t s \<Longrightarrow> (ticket_id (q_ticket q') = ticket_id t \<Longrightarrow> q_state q' = InFlight)
   \<Longrightarrow> claim_held t (s\<lparr>rs_entries := hm_insert k q' (rs_entries s)\<rparr>)"
  by (auto simp: claim_held_def hmap_simps split: if_splits)

lemma claim_held_fields:
  "claim_held t (s\<lparr>rs_barrier := b\<rparr>) = claim_held t s"
  "claim_held t (s\<lparr>rs_worker := w\<rparr>) = claim_held t s"
  "claim_held t (s\<lparr>rs_executor := x\<rparr>) = claim_held t s"
  "claim_held t (s\<lparr>rs_next_id := n\<rparr>) = claim_held t s"
  by (simp_all add: claim_held_def)

lemma claim_held_install:
  assumes "claim_held t s" and "ticket_id t < next_bound s"
  shows "claim_held t (fst (install k w f r b s))"
proof (cases "rs_next_id s")
  case (Some n)
  with assms(2) have "ticket_id t \<noteq> n" by (simp add: next_bound_def)
  with assms(1) Some show ?thesis
    by (auto simp: install_def Let_def claim_held_def hmap_simps split: if_splits)
qed (use assms in \<open>simp add: install_def\<close>)

lemma claim_held_make_room:
  "claim_held t s \<Longrightarrow> claim_held t (s\<lparr>rs_entries := make_room b (rs_entries s)\<rparr>)"
  using make_room_cases [of b "rs_entries s"] claim_held_remove [of t s] by auto

lemma claim_held_enqueue:
  assumes "claim_held t s" and "ticket_id t < next_bound s"
  shows "claim_held t (fst (enqueue_locked w f s))"
proof -
  have "claim_held t (fst (install k w f r b (s\<lparr>rs_entries := make_room e (rs_entries s)\<rparr>)))" for k w f r b e
    by (rule claim_held_install [OF claim_held_make_room [OF assms(1)]])
      (use assms(2) in \<open>simp add: next_bound_def\<close>)
  then show ?thesis
    using assms claim_held_install [OF assms] claim_held_make_room [OF assms(1)]
    by (simp add: enqueue_locked_def enqueue_new_def Let_def split: option.split sum.split)
qed

lemma claim_held_put_owned:
  "claim_held t s \<Longrightarrow> owned u s = Some q \<Longrightarrow> ticket_id (q_ticket q') = ticket_id (q_ticket q)
   \<Longrightarrow> q_state q' = q_state q \<or> ticket_id u \<noteq> ticket_id t \<Longrightarrow> claim_held t (put_owned u q' s)"
  using claim_heldD [of t s] ownedD [of u s q] unfolding put_owned_def by (intro claim_held_put) auto

lemma set_work_state [simp]: "q_state (set_work w q) = q_state q"
  by (simp add: set_work_def)

lemma claim_held_step:
  assumes "claim_held t s" and "ticket_id t < next_bound s" and "\<not> gives_back (ticket_id t) e"
  shows "claim_held t (recovery_step s e)"
proof (cases e)
  case (EvEnqueue w f)
  then show ?thesis using claim_held_enqueue [OF assms(1,2)] assms(1) by (simp add: recovery_step_def)
next
  case EvStop
  then show ?thesis by (simp add: recovery_step_def recovery_stop_def claim_held_def)
next
  case (EvClaim k)
  then show ?thesis
    using assms(1) by (auto simp: recovery_step_def claim_def intro!: claim_held_put split: option.splits)
next
  case (EvFail u)
  then show ?thesis
    using assms by (auto simp: recovery_step_def record_failure_def claim_held_remove
        intro!: claim_held_put_owned split: option.splits)
next
  case (EvRelease u)
  then show ?thesis
    using assms by (auto simp: recovery_step_def release_claim_def
        intro!: claim_held_put_owned split: option.splits)
next
  case (EvNotify u)
  then show ?thesis
    using assms by (auto simp: recovery_step_def notification_stage_def
        intro!: claim_held_put_owned split: option.splits)
next
  case (EvPopulate u w)
  then show ?thesis
    using assms by (auto simp: recovery_step_def marker_population_stage_def
        intro!: claim_held_put_owned split: option.splits)
qed (use assms(1) in \<open>auto simp: recovery_step_def supersede_through_def cancel_through_def complete_def
    suspend_def pause_after_reconnect_def try_spawn_def try_set_executor_def claim_held_remove claim_held_fields
    split: option.splits\<close>)

lemma claim_held_run:
  assumes "queue_ok s" and "claim_held t s" and "ticket_id t < next_bound s"
    and "\<forall>e \<in> set es. \<not> gives_back (ticket_id t) e"
  shows "claim_held t (recovery_run s es)"
  using assms
proof (induction es arbitrary: s)
  case (Cons e es)
  have "ticket_id t < next_bound (recovery_step s e)"
    using Cons.prems(3) next_bound_step [OF Cons.prems(1), of e] by simp
  moreover have "claim_held t (recovery_step s e)" by (rule claim_held_step) (use Cons.prems in auto)
  ultimately show ?case
    using Cons.IH [OF recovery_step_ok [OF Cons.prems(1)]] Cons.prems(4) by (simp add: recovery_run_def)
qed (simp add: recovery_run_def)

lemma claim_Some:
  assumes "queue_ok s" and "claim k s = (s1, Some t)"
  shows "claim_held t s1" and "ticket_id t < next_bound s1" and "queue_ok s1"
    and "work_key (ticket_work t) = k"
proof -
  obtain q where q: "hm_get (rs_entries s) k = Some q" "q_ticket q = t"
    and s1: "s1 = s\<lparr>rs_entries := hm_insert k (q\<lparr>q_state := InFlight\<rparr>) (rs_entries s)\<rparr>"
    using assms(2) by (auto simp: claim_def split: option.splits if_splits)
  have inv: "queued_wf (rs_next_id s) k q" "ids_distinct (rs_entries s)"
    using assms(1) q(1) queue_invD(4,5) by (auto simp: queue_ok_def)
  then have other: "k' = k" if "hm_get (rs_entries s) k' = Some q'" "ticket_id (q_ticket q') = ticket_id t" for k' q'
    using that q unfolding ids_distinct_def by metis
  then show "claim_held t s1" by (auto simp: claim_held_def s1 hmap_simps split: if_splits)
  show "ticket_id t < next_bound s1" "work_key (ticket_work t) = k"
    using inv(1) q by (auto simp: s1 next_bound_def queued_wf_def Let_def split: option.splits)
  show "queue_ok s1" using claim_ok [OF assms(1), of k] assms(2) by simp
qed

end
