(* ===== verification/Amalgam_Recovery_Props.thy ===== *)
theory Amalgam_Recovery_Props
  imports Amalgam_Recovery_Facts
begin

text \<open>
  The guarantees of the recovery queue: bounded and sound under every interleaving of critical
  sections, identities never reused, stale tickets without effect, exclusive claims, admission
  that respects the order of operations, safe capacity eviction, exact retry budgets, and the
  exact effect of a drain.
\<close>

section \<open>The queue under every interleaving\<close>

lemma install_config [simp]: "rs_config (fst (install k w f r b s)) = rs_config s"
  by (simp add: install_def Let_def split: option.split)

lemma put_owned_config [simp]: "rs_config (put_owned t q s) = rs_config s"
  by (simp add: put_owned_def)

lemma recovery_step_config: "rs_config (recovery_step s e) = rs_config s"
  by (cases e) (simp_all add: recovery_step_def enqueue_locked_def enqueue_new_def supersede_through_def
      cancel_through_def complete_def record_failure_def release_claim_def notification_stage_def
      marker_population_stage_def claim_def recovery_stop_def suspend_def pause_after_reconnect_def
      try_spawn_def try_set_executor_def Let_def split: option.split sum.split)

lemma recovery_run_config [simp]: "rs_config (recovery_run s es) = rs_config s"
  unfolding recovery_run_def by (induction es arbitrary: s) (simp_all add: recovery_step_config)

lemma recovery_try_new_start:
  assumes "recovery_try_new c now = Inr s"
  shows "rs_config s = c" and "rs_entries s = []" and "next_bound s = 1"
  using assms by (auto simp: recovery_try_new_def next_bound_def split: if_splits)

text \<open>
  C6. Whatever critical sections callers and the worker interleave, a recovery service that was
  constructed keeps its queue sound: it never holds more than \<open>max_items\<close> operations, every
  operation is stored under the key of its work with a positive budget, no two operations
  share an identity, and marker mutations stay well formed.
\<close>

theorem recovery_queue_sound:
  assumes "recovery_try_new c now = Inr s"
  shows "queue_ok (recovery_run s es)
    \<and> (case rc_max_items c of None \<Rightarrow> True | Some l \<Rightarrow> recovery_len (recovery_run s es) \<le> l)"
proof -
  have ok: "queue_ok (recovery_run s es)" by (rule recovery_run_ok [OF recovery_try_new_ok [OF assms]])
  moreover have "rs_config (recovery_run s es) = c" using recovery_try_new_start(1) [OF assms] by simp
  ultimately show ?thesis
    using queue_invD(3) by (auto simp: queue_ok_def recovery_len_def split: option.split)
qed

definition demo_item :: "string \<Rightarrow> int \<Rightarrow> int \<Rightarrow> recovery_item" where
  "demo_item k v e = \<lparr>item_key = k, item_action = ActionSet, item_timestamp = v, item_expires_at = e,
     item_remaining_retries = Some 1\<rparr>"

definition demo_config :: recovery_config where
  "demo_config = \<lparr>rc_enabled = True, rc_delay = 5, rc_max_items = Some 1, rc_max_retries = None\<rparr>"

definition demo_service :: recovery_service where
  "demo_service = \<lparr>rs_config = demo_config, rs_entries = [], rs_next_id = Some 1, rs_executor = False,
     rs_worker = False, rs_stop = False, rs_barrier = BarrierReady\<rparr>"

lemma demo_service_new: "recovery_try_new demo_config 0 = Inr demo_service"
  by (simp add: recovery_try_new_def demo_config_def demo_service_def instant_checked_add_def)

theorem recovery_queue_sound_witness:
  "recovery_len (recovery_run demo_service [EvEnqueue (DataWork (demo_item ''a'' 1 50) Legacy) None,
      EvEnqueue (DataWork (demo_item ''b'' 2 60) Legacy) None]) \<le> 1"
  using recovery_queue_sound [OF demo_service_new] by (simp add: demo_config_def)

text \<open>
  Queue identities are never reused: the identities handed out along a run are strictly
  increasing, and every operation in the queue carries one of them.
\<close>

theorem recovery_identities_unique:
  assumes "recovery_try_new c now = Inr s"
  shows "sorted_wrt (<) (issued_ids s es)
    \<and> (\<forall>k q. hm_get (rs_entries (recovery_run s es)) k = Some q
          \<longrightarrow> ticket_id (q_ticket q) \<in> set (issued_ids s es))"
  using issued_ids_bounds [OF recovery_try_new_ok [OF assms], of es]
    queue_ids_issued [OF recovery_try_new_ok [OF assms], of es] recovery_try_new_start(2) [OF assms]
  by simp

theorem recovery_identities_unique_witness:
  "sorted_wrt (<) (issued_ids demo_service [EvEnqueue (DataWork (demo_item ''a'' 1 50) Legacy) None,
      EvEnqueue (DataWork (demo_item ''a'' 2 60) Legacy) None])"
  using recovery_identities_unique [OF demo_service_new] by blast

lemma reachable_ok: "recovery_try_new c now = Inr s0 \<Longrightarrow> queue_ok (recovery_run s0 es)"
  by (rule recovery_run_ok [OF recovery_try_new_ok])

text \<open>
  C7. A successful old replay never touches a replacement: once an issued ticket no longer owns
  its entry (it was completed, replaced, evicted or dropped), then after any further critical
  sections completing it, failing it, releasing its claim or advancing its stage changes nothing.
\<close>

theorem stale_ticket_harmless:
  assumes "recovery_try_new c now = Inr s0" and "s = recovery_run s0 ps"
    and "owned t s = None" and "ticket_id t < next_bound s"
  shows "let s' = recovery_run s es in
      complete t s' = (s', SupUnchanged) \<and> record_failure t s' = s' \<and> release_claim t s' = s'
      \<and> notification_stage t s' = (s', StageSuperseded)
      \<and> marker_population_stage t w s' = (s', StageSuperseded)
      \<and> \<not> ticket_is_current current t s'"
proof -
  have "queue_ok s" using reachable_ok [OF assms(1)] assms(2) by simp
  then have "owned t (recovery_run s es) = None" by (rule not_owned_run [OF _ assms(3,4)])
  then show ?thesis
    by (simp add: Let_def complete_def record_failure_def release_claim_def notification_stage_def
        marker_population_stage_def ticket_is_current_def)
qed

definition demo_ticket :: replay_ticket where
  "demo_ticket = \<lparr>ticket_id = 1, ticket_work = DataWork (demo_item ''a'' 1 50) Legacy,
     ticket_generation = 1, ticket_fence = None\<rparr>"

lemmas recovery_eval = recovery_run_def recovery_step_def enqueue_locked_def enqueue_new_def install_def
  is_older_def inherit_work_def retry_budget_def checked_add_u64_def owned_def next_bound_def
  demo_service_def demo_config_def demo_ticket_def demo_item_def

theorem stale_ticket_harmless_witness:
  "complete demo_ticket (recovery_run demo_service
      [EvEnqueue (DataWork (demo_item ''a'' 1 50) Legacy) None, EvEnqueue (DataWork (demo_item ''a'' 2 60) Legacy) None])
    = (recovery_run demo_service
      [EvEnqueue (DataWork (demo_item ''a'' 1 50) Legacy) None, EvEnqueue (DataWork (demo_item ''a'' 2 60) Legacy) None],
       SupUnchanged)"
  using stale_ticket_harmless [OF demo_service_new refl, where t = demo_ticket and es = "[]" and
      w = undefined and current = "\<lambda>f. True" and ps = "[EvEnqueue (DataWork (demo_item ''a'' 1 50) Legacy) None,
        EvEnqueue (DataWork (demo_item ''a'' 2 60) Legacy) None]"]
  by (simp add: recovery_eval Let_def)

text \<open>
  C8. An operation is replayed by one worker at a time: after a claim of a ticket, no claim of
  any key returns the same identity until its claimant released it or recorded a failure,
  whatever critical sections run in between.
\<close>

theorem claim_exclusive:
  assumes "recovery_try_new c now = Inr s0" and "claim k (recovery_run s0 ps) = (s1, Some t)"
    and "\<forall>e \<in> set es. \<not> gives_back (ticket_id t) e"
    and "claim k' (recovery_run s1 es) = (s2, Some t')"
  shows "ticket_id t' \<noteq> ticket_id t"
proof
  assume eq: "ticket_id t' = ticket_id t"
  note c = claim_Some [OF reachable_ok [OF assms(1)] assms(2)]
  have "claim_held t (recovery_run s1 es)" by (rule claim_held_run [OF c(3,1,2) assms(3)])
  with assms(4) eq show False
    by (auto simp: claim_def claim_held_def split: option.splits if_splits)
qed

theorem claim_exclusive_witness:
  "\<exists>s1 t s2 t'. claim (DataKey ''a'') (recovery_run demo_service
        [EvEnqueue (DataWork (demo_item ''a'' 1 50) Legacy) None]) = (s1, Some t)
     \<and> claim (DataKey ''a'') (recovery_run s1 [EvEnqueue (DataWork (demo_item ''a'' 2 60) Legacy) None]) = (s2, Some t')
     \<and> ticket_id t' \<noteq> ticket_id t"
proof -
  let ?s = "recovery_run demo_service [EvEnqueue (DataWork (demo_item ''a'' 1 50) Legacy) None]"
  let ?es = "[EvEnqueue (DataWork (demo_item ''a'' 2 60) Legacy) None]"
  obtain s1 t where 1: "claim (DataKey ''a'') ?s = (s1, Some t)"
    and s1: "s1 = fst (claim (DataKey ''a'') ?s)"
    by (simp add: recovery_eval claim_def)
  moreover obtain s2 t' where 2: "claim (DataKey ''a'') (recovery_run s1 ?es) = (s2, Some t')"
    unfolding s1 by (simp add: recovery_eval claim_def)
  moreover have "ticket_id t' \<noteq> ticket_id t"
    by (rule claim_exclusive [OF demo_service_new 1 _ 2]) simp
  ultimately show ?thesis by blast
qed


section \<open>Admission\<close>

lemma install_entries:
  assumes "install k w f r b s = (s', Inr res)"
  shows "\<exists>n. res = (if b then EnqReplaced n else EnqQueued n) \<and> rs_next_id s = Some n
    \<and> rs_entries s' = hm_insert k \<lparr>q_ticket = \<lparr>ticket_id = n, ticket_work = w,
         ticket_generation = (case f of Some g \<Rightarrow> fence_generation g | None \<Rightarrow> n), ticket_fence = f\<rparr>,
         q_remaining = r, q_state = Pending\<rparr> (rs_entries s)"
  using assms by (auto simp: install_def Let_def split: option.splits)

lemma install_Inl: "install k w f r b s = (s', Inl e) \<Longrightarrow> s' = s"
  by (auto simp: install_def Let_def split: option.splits)

text \<open>
  Older work never displaces newer work. When the key of an admission is already queued,
  every other key keeps its operation, and the key keeps it too unless the admission replaces
  it, with a fresh identity and full budget; if both are fenced that takes a larger
  generation, otherwise work that supersedes the queued work by its own order.
\<close>

theorem admission_respects_order:
  assumes "hm_get (rs_entries s) (work_key work) = Some q" and "enqueue_locked work fence s = (s', r)"
  shows "(\<forall>k. k \<noteq> work_key work \<longrightarrow> hm_get (rs_entries s') k = hm_get (rs_entries s) k)
    \<and> (\<exists>q'. hm_get (rs_entries s') (work_key work) = Some q'
        \<and> (s' = s \<and> q' = q
           \<or> r = Inr (EnqReplaced (ticket_id (q_ticket q'))) \<and> rs_next_id s = Some (ticket_id (q_ticket q'))
             \<and> q_state q' = Pending \<and> q_remaining q' = retry_budget (rs_config s) work
             \<and> ticket_fence (q_ticket q') = fence
             \<and> (if fence \<noteq> None \<and> ticket_fence (q_ticket q) \<noteq> None
                then ticket_generation (q_ticket q) < ticket_generation (q_ticket q')
                else work_supersedes work (ticket_work (q_ticket q)))))"
proof -
  let ?b = "retry_budget (rs_config s) work"
  consider (same) "s' = s"
    | (repl) w' where "install (work_key work) w' fence ?b True s = (s', r)"
        "\<not> is_older (map_option fence_generation fence) work (q_ticket q)"
    using assms by (auto simp: enqueue_locked_def Let_def split: if_splits sum.splits)
  then show ?thesis
  proof cases
    case same
    with assms(1) show ?thesis by simp
  next
    case repl
    show ?thesis
    proof (cases r)
      case (Inl e)
      with repl(1) have "s' = s" using install_Inl by blast
      with assms(1) show ?thesis by simp
    next
      case (Inr res)
      from install_entries [OF repl(1) [unfolded Inr]] repl(2) Inr show ?thesis
        by (auto simp: hmap_simps is_older_def split: option.splits if_splits)
    qed
  qed
qed

theorem admission_respects_order_witness:
  "\<exists>q'. hm_get (rs_entries (fst (enqueue_locked (DataWork (demo_item ''a'' 1 99) Legacy) None
        (recovery_run demo_service [EvEnqueue (DataWork (demo_item ''a'' 2 60) Legacy) None]))))
        (DataKey ''a'') = Some q' \<and> ticket_id (q_ticket q') = 1"
proof -
  let ?s = "recovery_run demo_service [EvEnqueue (DataWork (demo_item ''a'' 2 60) Legacy) None]"
  let ?w = "DataWork (demo_item ''a'' 1 99) Legacy"
  obtain q where q: "hm_get (rs_entries ?s) (work_key ?w) = Some q" "ticket_id (q_ticket q) = 1"
      "\<not> work_supersedes ?w (ticket_work (q_ticket q))"
    by (simp add: recovery_eval)
  have k: "work_key ?w = DataKey ''a''" by (simp add: demo_item_def)
  show ?thesis
    using admission_respects_order [OF q(1), of None "fst (enqueue_locked ?w None ?s)" "snd (enqueue_locked ?w None ?s)"]
      q(2,3) unfolding k by auto
qed


abbreviation queued_expiry :: "queued \<Rightarrow> timestamp option" where
  "queued_expiry q \<equiv> work_expires_at (ticket_work (q_ticket q))"

lemma expiring_set: "(k, e) \<in> set (expiring m) \<longleftrightarrow> (\<exists>q. (k, q) \<in> set m \<and> queued_expiry q = Some e)"
  by (induction m rule: expiring.induct) (auto split: option.splits)

lemma foldl_min_expiry:
  "let b = foldl (\<lambda>b y. if snd y < snd b then y else b) x xs
   in b \<in> set (x # xs) \<and> (\<forall>y \<in> set (x # xs). snd b \<le> (snd y :: int))"
proof (induction xs arbitrary: x)
  case (Cons v xs)
  let ?x = "if snd v < snd x then v else x"
  show ?case using Cons.IH [of ?x] by (auto simp: Let_def split: if_splits)
qed simp

lemma min_expiry_Some:
  assumes "min_expiry xs = Some b"
  shows "b \<in> set xs" and "y \<in> set xs \<Longrightarrow> snd b \<le> snd y"
  using assms foldl_min_expiry by (cases xs; simp add: Let_def; blast)+

text \<open>The entry that gives way: the earliest deadline of the queue, before the given bound.\<close>

definition expendable :: "timestamp \<Rightarrow> (recovery_key, queued) hmap \<Rightarrow> recovery_key \<Rightarrow> bool" where
  "expendable bound m k \<longleftrightarrow> (\<exists>q e. hm_get m k = Some q \<and> queued_expiry q = Some e \<and> e < bound
     \<and> (\<forall>k' q' e'. hm_get m k' = Some q' \<and> queued_expiry q' = Some e' \<longrightarrow> e \<le> e'))"

lemma make_room_spec:
  assumes "hm_ok m"
  shows "make_room bound m = m \<or> (\<exists>k. expendable bound m k \<and> make_room bound m = hm_remove k m)"
proof (cases "min_expiry (expiring m)")
  case None
  then show ?thesis by (simp add: make_room_def)
next
  case (Some x)
  obtain k e where x: "x = (k, e)" by (cases x)
  have *: "(k', e') \<in> set (expiring m) \<longleftrightarrow> (\<exists>q. hm_get m k' = Some q \<and> queued_expiry q = Some e')" for k' e'
    by (simp add: expiring_set hm_get_eq_Some [OF assms])
  from min_expiry_Some(1) [OF Some] obtain q where q: "hm_get m k = Some q" "queued_expiry q = Some e"
    using * [of k e] x by auto
  have "e \<le> e'" if "hm_get m k' = Some q'" "queued_expiry q' = Some e'" for k' q' e'
    using min_expiry_Some(2) [OF Some, of "(k', e')"] * [of k' e'] that x by auto
  with q have "e < bound \<Longrightarrow> expendable bound m k" unfolding expendable_def by blast
  with Some x show ?thesis by (auto simp: make_room_def)
qed

lemma install_other_key:
  "install k w f r b s = (s', res) \<Longrightarrow> k' \<noteq> k \<Longrightarrow> hm_get (rs_entries s') k' = hm_get (rs_entries s) k'"
  by (auto simp: install_def Let_def hmap_simps split: option.splits)

definition admission_bound :: "recovery_work \<Rightarrow> timestamp" where
  "admission_bound work = (case work_expires_at work of Some e \<Rightarrow> e | None \<Rightarrow> Timestamp_MAX)"

lemma enqueue_new_cases:
  assumes "enqueue_new k work f r s = (s', res)"
  obtains (room) "install k work f r False s = (s', res)"
    | (full) l where "rc_max_items (rs_config s) = Some l" "l \<le> length (rs_entries s)"
        "l \<le> length (make_room (admission_bound work) (rs_entries s))"
        "s' = s\<lparr>rs_entries := make_room (admission_bound work) (rs_entries s)\<rparr>" "res = Inr EnqCapacityRejected"
    | (evict) l where "rc_max_items (rs_config s) = Some l" "l \<le> length (rs_entries s)"
        "length (make_room (admission_bound work) (rs_entries s)) < l"
        "install k work f r False (s\<lparr>rs_entries := make_room (admission_bound work) (rs_entries s)\<rparr>) = (s', res)"
proof (cases "rc_max_items (rs_config s)")
  case None
  with assms have "install k work f r False s = (s', res)" by (simp add: enqueue_new_def)
  then show thesis by (rule room)
next
  case (Some l)
  define s1 where "s1 = s\<lparr>rs_entries := make_room (admission_bound work) (rs_entries s)\<rparr>"
  have e: "enqueue_new k work f r s = (if length (rs_entries s) < l then install k work f r False s
      else if l \<le> length (rs_entries s1) then (s1, Inr EnqCapacityRejected)
      else install k work f r False s1)"
    by (simp only: enqueue_new_def Some option.case admission_bound_def [symmetric] s1_def Let_def)
  have l: "length (rs_entries s1) = length (make_room (admission_bound work) (rs_entries s))"
    by (simp add: s1_def)
  consider "length (rs_entries s) < l" | "l \<le> length (rs_entries s)" "l \<le> length (rs_entries s1)"
    | "l \<le> length (rs_entries s)" "length (rs_entries s1) < l" by linarith
  then show thesis
  proof cases
    case 1
    with assms e have "install k work f r False s = (s', res)" by simp
    then show thesis by (rule room)
  next
    case 2
    with assms e have "s' = s1" "res = Inr EnqCapacityRejected" by simp_all
    with 2 Some l show thesis unfolding s1_def by (intro full) simp_all
  next
    case 3
    with assms e have "install k work f r False s1 = (s', res)" by simp
    with 3 Some l show thesis unfolding s1_def by (intro evict) simp_all
  qed
qed

text \<open>
  Capacity eviction is safe. When an admission of a new key makes a queued operation
  disappear, the queue was exactly at its limit and that operation is the only one: it expires,
  earlier than the admitted work and no later than any other queued operation that expires. So
  durable marker work is never evicted, and a rejected admission leaves the queue as it was.
\<close>

theorem capacity_eviction_safe:
  assumes "queue_ok s" and "hm_get (rs_entries s) (work_key work) = None"
    and "enqueue_locked work fence s = (s', r)"
  shows "(r = Inr EnqCapacityRejected \<longrightarrow> s' = s)
    \<and> (\<forall>k. hm_get (rs_entries s) k \<noteq> None \<and> hm_get (rs_entries s') k \<noteq> hm_get (rs_entries s) k \<longrightarrow>
          rc_max_items (rs_config s) = Some (recovery_len s)
          \<and> expendable (admission_bound work) (rs_entries s) k
          \<and> (\<forall>k'. k' \<noteq> k \<and> k' \<noteq> work_key work \<longrightarrow> hm_get (rs_entries s') k' = hm_get (rs_entries s) k'))"
proof -
  let ?b = "admission_bound work" and ?m = "rs_entries s"
  have inv: "hm_ok ?m" "\<And>l. rc_max_items (rs_config s) = Some l \<Longrightarrow> length ?m \<le> l"
    using assms(1) queue_invD(1,3) by (auto simp: queue_ok_def)
  consider (same) "s' = s" "r = Inl RecoveryStopped"
    | (new) "enqueue_new (work_key work) work fence (retry_budget (rs_config s) work) s = (s', r)"
    using assms(2,3) by (cases "rs_stop s") (simp_all add: enqueue_locked_def)
  then show ?thesis
  proof cases
    case new
    then show ?thesis
    proof (cases rule: enqueue_new_cases)
      case room
      then have "r \<noteq> Inr EnqCapacityRejected" by (auto simp: install_def Let_def split: option.splits)
      moreover have "hm_get (rs_entries s') k = hm_get ?m k" if "hm_get ?m k \<noteq> None" for k
        using install_other_key [OF room] that assms(2) by metis
      ultimately show ?thesis by blast
    next
      case (full l)
      have "make_room ?b ?m = ?m"
      proof (rule ccontr)
        assume ne: "make_room ?b ?m \<noteq> ?m"
        then obtain k where k: "expendable ?b ?m k" "make_room ?b ?m = hm_remove k ?m"
          using make_room_spec [OF inv(1)] by blast
        then have "hm_get ?m k \<noteq> None" by (auto simp: expendable_def)
        then have "length (hm_remove k ?m) = length ?m - 1" "0 < length ?m"
          using length_hm_remove [OF inv(1)] by auto
        with k(2) full(3) inv(2) [OF full(1)] show False by simp
      qed
      with full(4) show ?thesis by simp
    next
      case (evict l)
      have "r \<noteq> Inr EnqCapacityRejected" using evict(4) by (auto simp: install_def Let_def split: option.splits)
      moreover obtain v where v: "expendable ?b ?m v" "make_room ?b ?m = hm_remove v ?m"
        using make_room_spec [OF inv(1), of ?b] evict(2,3) by fastforce
      moreover have "hm_get (rs_entries s') k = (if k = v then None else hm_get ?m k)" if "k \<noteq> work_key work" for k
        using install_other_key [OF evict(4) that] v(2) by (simp add: hmap_simps)
      moreover have "rc_max_items (rs_config s) = Some (recovery_len s)"
        using evict(1,2) inv(2) [OF evict(1)] by (simp add: recovery_len_def)
      ultimately show ?thesis using assms(2) by metis
    qed
  qed simp
qed

theorem capacity_eviction_safe_witness:
  "\<exists>s'. fst (enqueue_locked (DataWork (demo_item ''b'' 1 40) Legacy) None s') = s'
     \<and> s' = recovery_run demo_service [EvEnqueue (DataWork (demo_item ''a'' 2 60) Legacy) None]"
proof -
  let ?s = "recovery_run demo_service [EvEnqueue (DataWork (demo_item ''a'' 2 60) Legacy) None]"
  let ?w = "DataWork (demo_item ''b'' 1 40) Legacy"
  have r: "snd (enqueue_locked ?w None ?s) = Inr EnqCapacityRejected"
    by (simp add: recovery_eval make_room_def Let_def)
  have n: "hm_get (rs_entries ?s) (work_key ?w) = None" by (simp add: recovery_eval)
  have "enqueue_locked ?w None ?s = (fst (enqueue_locked ?w None ?s), Inr EnqCapacityRejected)"
    using r by (metis prod.collapse)
  from conjunct1 [OF capacity_eviction_safe [OF reachable_ok [OF demo_service_new] n this]]
  have "fst (enqueue_locked ?w None ?s) = ?s" by (rule mp) (rule refl)
  then show ?thesis by blast
qed


section \<open>Retry budget\<close>

fun failed :: "queued \<Rightarrow> queued option" where
  "failed q = (case q_remaining q of
     None \<Rightarrow> Some (q\<lparr>q_state := Pending\<rparr>)
   | Some r \<Rightarrow> if r \<le> 1 then None else Some (q\<lparr>q_remaining := Some (r - 1), q_state := Pending\<rparr>))"

lemma owned_put_owned: "ticket_id (q_ticket q) = ticket_id t \<Longrightarrow> owned t (put_owned t q s) = Some q"
  by (simp add: owned_def put_owned_def hmap_simps)

lemma record_failure_get:
  "hm_get (rs_entries (record_failure t s)) k =
     (case owned t s of
        None \<Rightarrow> hm_get (rs_entries s) k
      | Some q \<Rightarrow> if k = work_key (ticket_work t) then failed q else hm_get (rs_entries s) k)"
  by (simp add: record_failure_def put_owned_def hmap_simps split: option.split)

lemma failed_id: "failed q = Some q' \<Longrightarrow> ticket_id (q_ticket q') = ticket_id (q_ticket q)"
  by (auto split: option.splits if_splits)

lemma owned_record_failure: "owned t (record_failure t s) = Option.bind (owned t s) failed"
proof (cases "owned t s")
  case None
  then show ?thesis by (simp add: record_failure_def)
next
  case (Some q)
  note o = ownedD [OF Some]
  show ?thesis
    using Some o(2) failed_id [of q]
    by (simp add: owned_def [of t "record_failure t s"] record_failure_get del: failed.simps split: option.split)
qed

lemma owned_failures:
  assumes "owned t s = Some q"
  shows "owned t ((record_failure t ^^ n) s) \<noteq> None \<longleftrightarrow>
    (case q_remaining q of None \<Rightarrow> True | Some r \<Rightarrow> n < r \<or> n = 0)"
  using assms
proof (induction n arbitrary: s q)
  case (Suc n)
  have step: "(record_failure t ^^ Suc n) s = (record_failure t ^^ n) (record_failure t s)"
    by (simp add: funpow_swap1)
  have o: "owned t (record_failure t s) = failed q" by (simp add: owned_record_failure Suc.prems)
  have none: "owned t ((record_failure t ^^ n) s') = None" if "owned t s' = None" for s' n
    using that by (induction n) (simp_all add: owned_record_failure)
  show ?case
  proof (cases "failed q")
    case None
    with o none [of "record_failure t s" n] step show ?thesis by (auto split: option.splits if_splits)
  next
    case (Some q')
    with o have "owned t (record_failure t s) = Some q'" by simp
    from Suc.IH [OF this] Some step show ?thesis by (auto split: option.splits if_splits)
  qed
qed (simp split: option.split)

lemma admitted_entry:
  assumes "enqueue_locked work fence s = (s', Inr r)" and "outcome_ids (Inr r) = [n]"
  shows "\<exists>q. hm_get (rs_entries s') (work_key work) = Some q \<and> ticket_id (q_ticket q) = n
    \<and> q_remaining q = retry_budget (rs_config s) work \<and> q_state q = Pending \<and> ticket_fence (q_ticket q) = fence"
proof -
  let ?b = "retry_budget (rs_config s) work"
  have inst: ?thesis if "install (work_key work) w' fence ?b rep s1 = (s', Inr r)" for w' rep s1
    using install_entries [OF that] assms(2) by (auto simp: hmap_simps split: if_splits)
  show ?thesis
  proof (cases "hm_get (rs_entries s) (work_key work)")
    case None
    with assms have "enqueue_new (work_key work) work fence ?b s = (s', Inr r)"
      by (cases "rs_stop s") (simp_all add: enqueue_locked_def)
    then show ?thesis by (cases rule: enqueue_new_cases) (use inst assms(2) in auto)
  next
    case (Some q)
    with assms obtain w' where "install (work_key work) w' fence ?b True s = (s', Inr r)"
      by (auto simp: enqueue_locked_def Let_def split: if_splits sum.splits)
    then show ?thesis by (rule inst)
  qed
qed

text \<open>
  The retry budget is exact: an admitted operation with \<open>retries\<close> additional retries stays in
  the queue for exactly \<open>retries + 1\<close> failed attempts, and without a budget no number of failures
  removes it.
\<close>

theorem retry_budget_exact:
  assumes "enqueue_locked work fence s = (s', Inr r)" and "outcome_ids (Inr r) = [n]"
    and "ticket_id t = n" and "work_key (ticket_work t) = work_key work"
  shows "owned t ((record_failure t ^^ attempts) s') \<noteq> None \<longleftrightarrow>
    (case (case Option.bind (work_item work) item_remaining_retries of
             None \<Rightarrow> rc_max_retries (rs_config s) | Some k \<Rightarrow> Some k) of
       None \<Rightarrow> True
     | Some retries \<Rightarrow> attempts \<le> retries)"
proof -
  obtain q where q: "hm_get (rs_entries s') (work_key work) = Some q" "ticket_id (q_ticket q) = n"
      "q_remaining q = retry_budget (rs_config s) work"
    using admitted_entry [OF assms(1,2)] by blast
  then have "owned t s' = Some q" using assms(3,4) by (simp add: owned_def)
  from owned_failures [OF this, of attempts] show ?thesis
    by (auto simp: q(3) retry_budget_def split: option.splits)
qed

theorem retry_budget_exact_witness:
  "owned demo_ticket ((record_failure demo_ticket ^^ 1)
      (fst (enqueue_locked (DataWork (demo_item ''a'' 1 50) Legacy) None demo_service))) \<noteq> None
   \<and> owned demo_ticket ((record_failure demo_ticket ^^ 2)
      (fst (enqueue_locked (DataWork (demo_item ''a'' 1 50) Legacy) None demo_service))) = None"
proof -
  let ?w = "DataWork (demo_item ''a'' 1 50) Legacy"
  have e: "enqueue_locked ?w None demo_service = (fst (enqueue_locked ?w None demo_service), Inr (EnqQueued 1))"
    by (simp add: recovery_eval Let_def)
  have "ticket_id demo_ticket = 1" "work_key (ticket_work demo_ticket) = work_key ?w"
    by (simp_all add: demo_ticket_def)
  note b = retry_budget_exact [OF e _ this]
  show ?thesis using b [of 1] b [of 2] by (simp add: demo_item_def)
qed

section \<open>Draining\<close>

lemma drain_key_run: "\<exists>es. drain_key env s k = recovery_run s es"
proof -
  have app: "recovery_run (recovery_run s a) b = recovery_run s (a @ b)" for s a b
    by (simp add: recovery_run_def)
  have one: "recovery_run s [e] = recovery_apply s e" if "event_wf e" for s e
    using that by (simp add: recovery_run_def recovery_step_def)
  let ?s = "recovery_run s (de_before env k)"
  obtain s1 t where c: "claim k ?s = (s1, t)" by (cases "claim k ?s")
  have s1: "s1 = recovery_run s (de_before env k @ [EvClaim k])"
    using c one [of "EvClaim k" ?s] by (simp add: app [symmetric])
  have fin: "\<exists>e. finish_replay u r s2 = recovery_run s2 [e]" for u r s2
    by (cases "(u, r, s2)" rule: finish_replay.cases)
      (use one [of "EvComplete u" s2] one [of "EvFail u" s2] one [of "EvRelease u" s2] in \<open>auto intro: sym\<close>)
  show ?thesis
  proof (cases t)
    case None
    with c s1 show ?thesis by (auto simp: drain_key_def Let_def)
  next
    case (Some u)
    obtain others r where d: "de_replay env u s1 = (others, r)" by (cases "de_replay env u s1")
    show ?thesis
    proof (cases "ticket_obsolete env k u")
      case True
      then have "drain_key env s k = recovery_run s1 [EvComplete u]"
        using c Some one [of "EvComplete u" s1] by (simp add: drain_key_def Let_def)
      then show ?thesis unfolding s1 app by blast
    next
      case False
      obtain e where e: "finish_replay u r (recovery_run s1 others) = recovery_run (recovery_run s1 others) [e]"
        using fin by blast
      have "drain_key env s k = recovery_run s1 (others @ [e])"
        using False c Some d e by (simp add: drain_key_def Let_def app)
      then show ?thesis unfolding s1 app by blast
    qed
  qed
qed

lemma drain_once_run: "\<exists>es. drain_once env now s = recovery_run s es"
proof -
  have "\<exists>es. foldl (drain_key env) s ks = recovery_run s es" for ks
  proof (induction ks arbitrary: s)
    case (Cons k ks)
    obtain es es' where "drain_key env s k = recovery_run s es"
        "foldl (drain_key env) (drain_key env s k) ks = recovery_run (drain_key env s k) es'"
      using drain_key_run Cons.IH by metis
    then have "foldl (drain_key env) s (k # ks) = recovery_run s (es @ es')" by (simp add: recovery_run_def)
    then show ?case by blast
  qed (auto simp: recovery_run_def intro: exI [of _ "[]"])
  moreover have "s = recovery_run s []" by (simp add: recovery_run_def)
  ultimately show ?thesis unfolding drain_once_def by metis
qed

text \<open>One attempt seen from the queue when nobody else interferes.\<close>

definition drained :: "drain_env \<Rightarrow> (replay_ticket \<Rightarrow> string + replay_outcome) \<Rightarrow> recovery_key \<Rightarrow> queued \<Rightarrow> queued option" where
  "drained env result k q =
     (if q_state q = InFlight then Some q
      else if ticket_obsolete env k (q_ticket q) then None
      else case result (q_ticket q) of
        Inl e \<Rightarrow> failed q
      | Inr ReplayPaused \<Rightarrow> Some q
      | Inr _ \<Rightarrow> None)"

definition quiet_env :: "drain_env \<Rightarrow> (replay_ticket \<Rightarrow> string + replay_outcome) \<Rightarrow> bool" where
  "quiet_env env result \<longleftrightarrow> de_before env = (\<lambda>k. []) \<and> de_replay env = (\<lambda>t s. ([], result t))"

lemma failed_in_flight: "failed (q\<lparr>q_state := InFlight\<rparr>) = failed q"
  by (simp split: option.split)

lemma drain_key_quiet:
  assumes "queue_ok s" and "quiet_env env result"
  shows "hm_get (rs_entries (drain_key env s k)) k' =
    (if k' = k then Option.bind (hm_get (rs_entries s) k) (drained env result k) else hm_get (rs_entries s) k')"
proof (cases "snd (claim k s)")
  case None
  then show ?thesis
    using assms(2) by (auto simp: drain_key_def quiet_env_def recovery_run_def claim_def drained_def
        split: option.splits if_splits)
next
  case (Some t)
  then obtain q where q: "hm_get (rs_entries s) k = Some q" "q_ticket q = t" "q_state q = Pending"
    by (auto simp: claim_def split: option.splits if_splits intro: attempt_state.exhaust)
  define s1 where "s1 = s\<lparr>rs_entries := hm_insert k (q\<lparr>q_state := InFlight\<rparr>) (rs_entries s)\<rparr>"
  have c: "claim k s = (s1, Some t)" using q by (simp add: claim_def s1_def)
  have k: "work_key (ticket_work t) = k" by (rule claim_Some(4) [OF assms(1) c])
  have o: "owned t s1 = Some (q\<lparr>q_state := InFlight\<rparr>)"
    using q(2) by (simp add: owned_def k s1_def hmap_simps)
  have d: "drain_key env s k = (if ticket_obsolete env k t then fst (complete t s1) else finish_replay t (result t) s1)"
    using assms(2) by (simp add: drain_key_def quiet_env_def recovery_run_def c)
  have s1: "hm_get (rs_entries s1) k' = hm_get (rs_entries s) k'" if "k' \<noteq> k" for k'
    using that by (simp add: s1_def hmap_simps)
  have same: "q\<lparr>q_state := Pending\<rparr> = q" using q(3) by (cases q) simp
  have g: "hm_get (rs_entries (fst (complete t s1))) k' = (if k' = k then None else hm_get (rs_entries s) k')"
    "hm_get (rs_entries (record_failure t s1)) k' = (if k' = k then failed q else hm_get (rs_entries s) k')"
    "hm_get (rs_entries (release_claim t s1)) k' = (if k' = k then Some q else hm_get (rs_entries s) k')" for k'
    by (simp_all add: complete_def record_failure_get release_claim_def put_owned_def o k hmap_simps s1
        failed_in_flight same del: failed.simps)
  show ?thesis
    by (cases "(t, result t, s1)" rule: finish_replay.cases)
      (auto simp: d g q drained_def simp del: failed.simps)
qed

lemma drain_quiet:
  assumes "queue_ok s" and "quiet_env env result" and "distinct ks"
  shows "hm_get (rs_entries (foldl (drain_key env) s ks)) k =
    (if k \<in> set ks then Option.bind (hm_get (rs_entries s) k) (drained env result k) else hm_get (rs_entries s) k)"
  using assms
proof (induction ks arbitrary: s)
  case (Cons k0 ks)
  have "queue_ok (drain_key env s k0)" using drain_key_run recovery_run_ok [OF Cons.prems(1)] by metis
  from Cons.IH [OF this Cons.prems(2)] Cons.prems(3) show ?case
    by (auto simp: drain_key_quiet [OF Cons.prems(1,2)])
qed simp


text \<open>
  C9. A drain attempts every pending operation once. With an executor whose results are given and
  nobody else in the queue, an unpaused drain leaves exactly this behind: operations claimed by
  others as they were; expired operations, operations with an obsolete fence and successfully
  replayed ones removed; paused ones unchanged, budget included; failed ones with one attempt
  less or removed at the end of their budget. A drain behind the barrier changes nothing.
\<close>

theorem drain_once_exact:
  assumes "recovery_try_new c i = Inr s0" and "s = recovery_run s0 es" and "quiet_env env result"
  shows "hm_get (rs_entries (drain_once env now s)) k =
    (if barrier_paused (rs_barrier s) now then hm_get (rs_entries s) k
     else Option.bind (hm_get (rs_entries s) k) (drained env result k))"
proof -
  have ok: "queue_ok s" using reachable_ok [OF assms(1)] assms(2) by simp
  then have "distinct (map fst (rs_entries s))"
    using queue_invD(1) by (auto simp: queue_ok_def hm_ok_def)
  note d = drain_quiet [OF ok assms(3) this, of k]
  have "k \<notin> fst ` set (rs_entries s) \<Longrightarrow> hm_get (rs_entries s) k = None"
    by (simp add: map_of_eq_None_iff)
  with d show ?thesis by (simp add: drain_once_def)
qed

theorem drain_once_exact_witness:
  "hm_get (rs_entries (drain_once
      \<lparr>de_now = (\<lambda>k. 0), de_current = (\<lambda>k f. True), de_before = (\<lambda>k. []),
       de_replay = (\<lambda>t s. ([], Inr ReplayApplied))\<rparr> 0
      (recovery_run demo_service [EvEnqueue (DataWork (demo_item ''a'' 1 50) Legacy) None]))) (DataKey ''a'') = None"
  by (subst drain_once_exact [OF demo_service_new refl, where result = "\<lambda>t. Inr ReplayApplied"])
    (simp_all add: quiet_env_def recovery_eval barrier_paused_def drained_def)

text \<open>
  The worker refines the queue protocol: for every executor and every interference, a drain is
  a sequence of the service's critical sections, so every property of runs holds of it; behind
  the barrier it is the empty sequence.
\<close>

theorem drain_refines_protocol:
  "\<exists>es. drain_once env now s = recovery_run s es \<and> (barrier_paused (rs_barrier s) now \<longrightarrow> es = [])"
proof (cases "barrier_paused (rs_barrier s) now")
  case True
  then have "drain_once env now s = recovery_run s []" by (simp add: drain_once_def recovery_run_def)
  then show ?thesis by blast
next
  case False
  then show ?thesis using drain_once_run by blast
qed

theorem drain_refines_protocol_witness:
  "\<exists>es. drain_once \<lparr>de_now = (\<lambda>k. 0), de_current = (\<lambda>k f. True), de_before = (\<lambda>k. [EvStop]),
       de_replay = (\<lambda>t s. ([], Inr ReplayApplied))\<rparr> 0 (suspend demo_service)
     = recovery_run (suspend demo_service) es \<and> es = []"
  using drain_refines_protocol [of "\<lparr>de_now = (\<lambda>k. 0), de_current = (\<lambda>k f. True),
      de_before = (\<lambda>k. [EvStop]), de_replay = (\<lambda>t s. ([], Inr ReplayApplied))\<rparr>" 0 "suspend demo_service"]
  by (simp add: suspend_def barrier_paused_def)

end
