(* ===== verification/Amalgam_Commit_Facts.thy ===== *)
theory Amalgam_Commit_Facts
  imports Amalgam_Commits Amalgam_Recovery_Props
begin

text \<open>
  What the commit pipeline guarantees: an origin that was overtaken by a mutation of its key or by a
  connection gap changes nothing; a value of a fenced origin is not visible anywhere once its lease
  is lost; a failed second-level write is queued for replay or reported, never dropped; peers are
  notified only of what the second level accepted; and every snapshot read before a mutation
  is refused by a later hydration.
\<close>

section \<open>Frames\<close>

abbreviation key_generation :: "string \<Rightarrow> ('v, 'b) site \<Rightarrow> nat" where
  "key_generation key s \<equiv> kl_generation (worker_lane key (sv_worker s))"

lemma on_worker_simps [simp]:
  "sv_worker (on_worker f s) = f (sv_worker s)" "sv_backend (on_worker f s) = sv_backend s" "sv_published (on_worker f s) = sv_published s"
  by (simp_all add: on_worker_def)

lemma lane_cong: "wk_lanes w = wk_lanes w' \<Longrightarrow> worker_lane key w = worker_lane key w'"
  by (simp add: worker_lane_def)

lemma worker_lane_simps [simp]:
  "worker_lane key (emit e w) = worker_lane key w" "worker_lane key (close_circuit c w) = worker_lane key w"
  "worker_lane key (trip_circuit c t w) = worker_lane key w" "worker_lane key (failure k t er w) = worker_lane key w"
  "worker_lane key (w\<lparr>wk_memory := m\<rparr>) = worker_lane key w" "worker_lane key (w\<lparr>wk_recovery := r\<rparr>) = worker_lane key w"
  "worker_lane key (w\<lparr>wk_locked := l\<rparr>) = worker_lane key w"
  by (rule lane_cong, simp)+

lemma site_lane_simps [simp]:
  "sv_backend (unlock_lane key s) = sv_backend s" "sv_published (unlock_lane key s) = sv_published s"
  "sv_backend (lock_lane key s) = sv_backend s" "sv_published (lock_lane key s) = sv_published s"
  "worker_lane k (sv_worker (unlock_lane key s)) = worker_lane k (sv_worker s)"
  "worker_lane k (sv_worker (lock_lane key s)) = worker_lane k (sv_worker s)"
  "wk_memory (sv_worker (unlock_lane key s)) = wk_memory (sv_worker s)" "wk_memory (sv_worker (lock_lane key s)) = wk_memory (sv_worker s)"
  "wk_epoch (sv_worker (unlock_lane key s)) = wk_epoch (sv_worker s)" "wk_epoch (sv_worker (lock_lane key s)) = wk_epoch (sv_worker s)"
  "wk_recovery (sv_worker (unlock_lane key s)) = wk_recovery (sv_worker s)" "wk_recovery (sv_worker (lock_lane key s)) = wk_recovery (sv_worker s)"
  "wk_locked (sv_worker (unlock_lane key s)) = remove1 key (wk_locked (sv_worker s))" "wk_locked (sv_worker (lock_lane key s)) = key # wk_locked (sv_worker s)"
  by (simp_all add: unlock_lane_def lock_lane_def)

lemma circuit_admits_lane: "circuit_admits c t w = (w', ok) \<Longrightarrow> worker_lane key w' = worker_lane key w"
  by (rule lane_cong) (rule circuit_admits_frames)

lemma insert_at_lane: "insert_at env n k e now w = (w', a) \<Longrightarrow> worker_lane key w' = worker_lane key w"
  by (auto simp: insert_at_def split: prod.splits)

lemma enqueue_data_lane: "enqueue_data env n k d a t f w = (w', r) \<Longrightarrow> worker_lane key w' = worker_lane key w"
  by (auto simp: enqueue_data_def Let_def split: prod.splits option.splits sum.splits)

lemma advance_key_lane:
  assumes "advance_key key t w = (w', Inr f)"
  shows "kl_generation (worker_lane key w') = kl_generation (worker_lane key w) + 1" "lf_generation f = kl_generation (worker_lane key w')"
  using assms by (auto simp: advance_key_def worker_lane_def hmap_simps dest!: lane_advance_Inr split: sum.splits)

section \<open>The generation of a key only grows\<close>

text \<open>Other operations may do anything but move the generation of a key backwards.\<close>

definition lane_rely :: "('v, 'l, 'b) commit_env \<Rightarrow> string \<Rightarrow> bool" where
  "lane_rely env key \<longleftrightarrow> (\<forall>n s. key_generation key s \<le> key_generation key (ce_wait env n s))"

lemma lane_relyD: "lane_rely env key \<Longrightarrow> key_generation key s \<le> key_generation key (ce_wait env n s)"
  by (simp add: lane_rely_def)

lemma write_data_grows:
  assumes "lane_rely env key" "write_data cfg env n k d fl s = (s', r)"
  shows "key_generation key s \<le> key_generation key s'"
  using assms(2) lane_relyD [OF assms(1), of s n]
  by (auto simp: write_data_def Let_def split: if_splits sum.splits prod.splits)

lemma commit_local_grows:
  assumes "lane_rely env key" "commit_local env n k local fl s = (s', r)"
  shows "key_generation key s \<le> key_generation key s'"
  using assms(2) lane_relyD [OF assms(1), of s n]
  by (auto simp: commit_local_def Let_def insert_at_lane split: local_commit.splits sum.splits prod.splits)

lemma publish_grows:
  assumes "lane_rely env key" "publish_command cfg env n c s = (s', r)"
  shows "key_generation key s \<le> key_generation key s'"
proof -
  obtain w ok where "circuit_admits BackplaneCircuit (ce_now env n) (sv_worker s) = (w, ok)" by fastforce
  with assms(2) lane_relyD [OF assms(1), of "s\<lparr>sv_worker := w\<rparr>" n] show ?thesis
    by (auto simp: publish_command_def Let_def circuit_admits_lane split: if_splits bool.splits sum.splits)
qed

lemma commit_publish_grows:
  assumes "lane_rely env key" "commit_publish cfg env n k c opts a t f l d s = (s', r)"
  shows "key_generation key s \<le> key_generation key s'"
  using assms(2)
  by (auto simp: commit_publish_def Let_def enqueue_data_lane dest!: publish_grows [OF assms(1)] split: option.splits prod.splits sum.splits)

lemma commit_failed_grows:
  assumes "lane_rely env key" "commit_failed env n k p opts a t f fl l cause s = (s', r)"
  shows "key_generation key s \<le> key_generation key s'"
proof -
  obtain w q where q: "enqueue_data env n k p a t f (sv_worker s) = (w, q)" by fastforce
  have lane: "worker_lane key w = worker_lane key (sv_worker s)" by (rule enqueue_data_lane [OF q])
  obtain s1 r1 where c: "commit_local env n k l fl (s\<lparr>sv_worker := w\<rparr>) = (s1, r1)" by fastforce
  from commit_local_grows [OF assms(1) c] assms(2) lane show ?thesis
    by (auto simp: commit_failed_def q c split: sum.splits if_splits)
qed

lemma commit_stored_grows:
  assumes "lane_rely env key" "commit_stored cfg env n k c opts a t f fl l d s = (s', r)"
  shows "key_generation key s \<le> key_generation key s'"
proof -
  obtain s1 r1 where c: "commit_local env n k l fl s = (s1, r1)" by fastforce
  let ?s2 = "on_worker (\<lambda>w. w\<lparr>wk_recovery := map_option (fst \<circ> supersede_through k (lf_generation f)) (wk_recovery w)\<rparr>) s1"
  show ?thesis
  proof (cases r1)
    case (Inr effect)
    obtain s3 r3 where p: "commit_publish cfg env (Suc n) k c opts a t f effect d ?s2 = (s3, r3)" by fastforce
    from commit_local_grows [OF assms(1) c] commit_publish_grows [OF assms(1) p] assms(2) show ?thesis
      by (auto simp: commit_stored_def c Inr p Let_def)
  next
    case (Inl er)
    with commit_local_grows [OF assms(1) c] assms(2) show ?thesis by (auto simp: commit_stored_def c)
  qed
qed

lemma commit_data_grows:
  assumes "lane_rely env key" "commit_data cfg env n k d c opts f fl l s = (s', r)"
  shows "key_generation key s \<le> key_generation key s'"
proof (cases d)
  case (PD_Ready m)
  obtain w ok where ok: "circuit_admits DistributedCircuit (ce_now env n) (sv_worker s) = (w, ok)" by fastforce
  let ?s1 = "s\<lparr>sv_worker := w\<rparr>"
  obtain s2 r2 where r2: "(if ok then write_data cfg env n k m fl ?s1 else (?s1, Inl (ErrCircuitOpen DistributedCircuit))) = (s2, r2)" by fastforce
  have "key_generation key ?s1 \<le> key_generation key s2"
    using r2 by (auto split: if_splits dest!: write_data_grows [OF assms(1)])
  then have g: "key_generation key s \<le> key_generation key s2" by (simp add: circuit_admits_lane [OF ok])
  show ?thesis
  proof (cases r2)
    case (Inr out)
    with assms(2) have "commit_stored cfg env (n + 1) k c opts (command_action c)
        (case kl_timestamp (worker_lane k (sv_worker s)) of Some t \<Rightarrow> t | None \<Rightarrow> ce_now env n) f fl l out s2 = (s', r)"
      by (simp add: commit_data_def PD_Ready ok r2 Let_def)
    from commit_stored_grows [OF assms(1) this] g show ?thesis by simp
  next
    case (Inl er)
    show ?thesis
    proof (cases "lease_refused er")
      case True
      with assms(2) g show ?thesis by (auto simp: commit_data_def PD_Ready ok r2 Inl Let_def)
    next
      case False
      with assms(2) obtain p t a where "commit_failed env (n + 1) k p opts a t f fl l er (on_worker (failure k (ce_now env n) er) s2) = (s', r)"
        by (auto simp: commit_data_def PD_Ready ok r2 Inl Let_def)
      from commit_failed_grows [OF assms(1) this] g show ?thesis by simp
    qed
  qed
qed (use assms(2) in \<open>auto simp: commit_data_def Let_def split: prod.splits sum.splits
       dest!: commit_stored_grows [OF assms(1)] commit_failed_grows [OF assms(1)] commit_local_grows [OF assms(1)]\<close>)

lemma ordered_write_grows:
  assumes "lane_rely env key" "ordered_write cfg env n key e opts fl d s = (s', r)" "advance_key key (md_created (en_meta e)) (sv_worker s) = (w, Inr f)"
  shows "key_generation key s < key_generation key s'"
proof -
  obtain s1 r1 where l: "local_stage env n key e opts fl d (s\<lparr>sv_worker := w\<rparr>) = (s1, r1)" by fastforce
  have g: "key_generation key s < key_generation key s1"
    using l advance_key_lane [OF assms(3)] lane_relyD [OF assms(1), of "s\<lparr>sv_worker := w\<rparr>" n]
    by (auto simp: local_stage_def Let_def insert_at_lane split: if_splits sum.splits prod.splits)
  show ?thesis
  proof (cases r1)
    case (Inr local)
    obtain s2 r2 where c: "commit_data cfg env (Suc n) key d (data_command cfg SetAction key (md_created (en_meta e)) opts) opts f fl local s1 = (s2, r2)"
      by fastforce
    from commit_data_grows [OF assms(1) c] g assms(2) show ?thesis by (auto simp: ordered_write_def assms(3) l Inr c)
  next
    case (Inl er)
    with g assms(2) show ?thesis by (auto simp: ordered_write_def assms(3) l)
  qed
qed

section \<open>Mutations and snapshots read before them\<close>

lemma hydrate_outdated:
  assumes "dl_hydration found = StableFence f obs" "lf_generation f < kl_generation (worker_lane key w)"
  shows "\<exists>r. hydrate cfg env n key found opts w = (w, Inr (HydrationSkipped r))"
  using assms by (auto simp: hydrate_def Let_def passive_is_current_def lane_fence_current_def)

lemma ordered_entry_grows:
  assumes "lane_rely env key" "ordered_entry cfg env n key e opts None s = (s', Inr receipt)"
  shows "key_generation key s < key_generation key s'"
proof -
  obtain w d where p: "prepare_set cfg env n key e opts (sv_worker s) = (w, Inr d)"
    using assms(2) by (cases "prepare_set cfg env n key e opts (sv_worker s)"; cases "snd (prepare_set cfg env n key e opts (sv_worker s))") (auto simp: ordered_entry_def)
  then have w: "worker_lane key w = worker_lane key (sv_worker s)"
    by (auto simp: prepare_set_def codec_failed_def Let_def split: if_splits sum.splits)
  let ?g = "lock_lane key (ce_wait env n (s\<lparr>sv_worker := w\<rparr>))"
  have o': "ordered_write cfg env (Suc n) key e opts None d ?g = (s', Inr receipt)" using assms(2) by (simp add: ordered_entry_def p)
  then obtain w1 f where "advance_key key (md_created (en_meta e)) (sv_worker ?g) = (w1, Inr f)"
    by (cases "advance_key key (md_created (en_meta e)) (sv_worker ?g)"; cases "snd (advance_key key (md_created (en_meta e)) (sv_worker ?g))")
      (auto simp: ordered_write_def)
  from ordered_write_grows [OF assms(1) o' this] lane_relyD [OF assms(1), of "s\<lparr>sv_worker := w\<rparr>" n] w show ?thesis by simp
qed

lemma memory_expire_grows:
  assumes "lane_rely env key"
  shows "key_generation key s \<le> key_generation key (memory_expire env n k now mode absent s)"
proof -
  obtain m found where m: "store_read (wk_ep (sv_worker s)) (re_instant (ce_reads env) n) k (Some now) (wk_memory (sv_worker s)) = (m, found)" by fastforce
  from lane_relyD [OF assms, of "s\<lparr>sv_worker := (sv_worker s)\<lparr>wk_memory := m\<rparr>\<rparr>" n] show ?thesis
    by (simp add: memory_expire_def m Let_def)
qed

lemma local_mutation_grows:
  assumes "lane_rely env key" "local_mutation env n k kind now opts s = (s', l)"
  shows "key_generation key s \<le> key_generation key s'"
  using assms(2) memory_expire_grows [OF assms(1)]
  by (auto simp: local_mutation_def split: if_splits key_mutation_kind.splits)

lemma mutation_data_lane:
  assumes "mutation_data cfg env n key kind now opts s = (w, r)"
  shows "worker_lane k w = worker_lane k (sv_worker s)"
  using assms by (auto simp: mutation_data_def prepare_expire_def codec_failed_def Let_def split: if_splits sum.splits option.splits)

lemma ordered_mutation_grows:
  assumes "lane_rely env key" "ordered_mutation cfg env key kind opts s = (s', Inr receipt)"
  shows "key_generation key s < key_generation key s'"
proof -
  let ?g = "lock_lane key (ce_wait env 0 s)"
  obtain w f where a: "advance_key key (ce_now env 0) (sv_worker ?g) = (w, Inr f)"
    using assms(2) by (cases "advance_key key (ce_now env 0) (sv_worker ?g)"; cases "snd (advance_key key (ce_now env 0) (sv_worker ?g))")
      (auto simp: ordered_mutation_def Let_def)
  obtain s1 l where l: "local_mutation env 1 key kind (ce_now env 0) opts (?g\<lparr>sv_worker := w\<rparr>) = (s1, l)" by fastforce
  obtain w2 r2 where d: "mutation_data cfg env 2 key kind (ce_now env 0) opts (ce_wait env 2 s1) = (w2, r2)" by fastforce
  obtain data where r2: "r2 = Inr data" using assms(2) a l d by (cases r2) (auto simp: ordered_mutation_def Let_def)
  let ?s2 = "(ce_wait env 2 s1)\<lparr>sv_worker := w2\<rparr>"
  obtain s3 r3 where c: "commit_data cfg env 3 key data (data_command cfg (mutation_action kind) key (ce_now env 0) opts) opts f None (LocalApplied l) ?s2 = (s3, r3)"
    by fastforce
  have "s' = s3" using assms(2) a l d r2 c by (simp add: ordered_mutation_def Let_def)
  moreover have "key_generation key s < kl_generation (worker_lane key w)"
    using advance_key_lane [OF a] lane_relyD [OF assms(1), of s 0] by simp
  moreover have "key_generation key (?g\<lparr>sv_worker := w\<rparr>) \<le> key_generation key s1" by (rule local_mutation_grows [OF assms(1) l])
  moreover have "key_generation key s1 \<le> key_generation key ?s2" using lane_relyD [OF assms(1), of s1 2] mutation_data_lane [OF d] by simp
  ultimately show ?thesis using commit_data_grows [OF assms(1) c] by simp
qed

lemma mutation_grows:
  assumes "lane_rely env key" and "WritePlan_select cfg (ce_locker env) = GeneralPlan"
    and "cache_set cfg env key v opts tags s = (s', Inr out) \<or> key_mutation cfg env key kind opts s = (s', Inr out)"
  shows "key_generation key s < key_generation key s'"
  using assms(3)
proof
  assume "cache_set cfg env key v opts tags s = (s', Inr out)"
  then obtain e s1 receipt where "ordered_entry cfg env 2 key e opts None s = (s1, Inr receipt)" "s' = on_worker (emit (Set_event key)) s1"
    by (auto simp: cache_set_def write_entry_def assms(2) split: sum.splits prod.splits)
  with ordered_entry_grows [OF assms(1)] show ?thesis by fastforce
next
  assume "key_mutation cfg env key kind opts s = (s', Inr out)"
  then obtain s1 receipt where m: "ordered_mutation cfg env key kind opts s = (s1, Inr receipt)" "\<exists>ev. s' = on_worker (emit ev) s1"
    by (auto simp: key_mutation_def assms(2) Let_def split: sum.splits prod.splits)
  with ordered_mutation_grows [OF assms(1) m(1)] show ?thesis by auto
qed

text \<open>
  C29. Mutations and hydration: with a second level, a backplane or a distributed locker
  configured, a value that was read from the second level before a set, removal or expiration of
  its key completed is never installed in the first level after it: whatever else happened to the
  cache since, every hydration with a fence from before the mutation leaves the state as it is.
\<close>
theorem mutation_outdates_snapshots:
  assumes "lane_rely env key" and "WritePlan_select cfg (ce_locker env) = GeneralPlan"
    and "lf_generation f \<le> key_generation key s"
    and "cache_set cfg env key v opts tags s = (s', Inr out) \<or> key_mutation cfg env key kind opts s = (s', Inr out)"
    and "key_generation key s' \<le> kl_generation (worker_lane key w)" and "dl_hydration found = StableFence f seen"
  shows "\<exists>r. hydrate cfg' env' n key found opts' w = (w, Inr (HydrationSkipped r))"
proof (rule hydrate_outdated [OF assms(6)])
  show "lf_generation f < kl_generation (worker_lane key w)" using mutation_grows [OF assms(1,2,4)] assms(3,5) by simp
qed

section \<open>Overtaken origins\<close>

text \<open>
  C30. Overtaken origins: an origin whose start was recorded before a mutation of its key or before
  a connection gap writes nothing when it finishes: the first level, the second level, the lanes,
  the recovery queue and the notifications are left as they were when its turn came, and the
  receipt reports the rejected version (or the loss of its lease).
\<close>
theorem overtaken_origin_writes_nothing:
  assumes "WritePlan_select cfg (ce_locker env) = GeneralPlan"
    and "capture_origin cfg env key guard before = (before, Inr oc)"
    and "prepare_set cfg env n key e opts (sv_worker s) = (w, Inr data)"
    and "turn = lock_lane key (ce_wait env n (s\<lparr>sv_worker := w\<rparr>))"
    and "kl_generation (worker_lane key before) < key_generation key turn \<or> wk_epoch before \<noteq> wk_epoch (sv_worker turn)"
    and "write_entry cfg env n key e opts (Some oc) s = (s', r)"
  shows "(r = Inr (ReceiptCompleted (superseded_report cfg)) \<or> (\<exists>er. cluster_proof env n (fg_lease guard) = Inl er \<and> r = Inl er))
    \<and> s' = unlock_lane key turn \<and> sv_backend s' = sv_backend (ce_wait env n (s\<lparr>sv_worker := w\<rparr>))
    \<and> sv_published s' = sv_published (ce_wait env n (s\<lparr>sv_worker := w\<rparr>))
    \<and> wk_memory (sv_worker s') = wk_memory (sv_worker (ce_wait env n (s\<lparr>sv_worker := w\<rparr>)))
    \<and> wk_recovery (sv_worker s') = wk_recovery (sv_worker (ce_wait env n (s\<lparr>sv_worker := w\<rparr>)))"
proof -
  have oc: "oc = \<lparr>oc_guard = guard, oc_started_at = VersionOrdered (lane_snapshot (worker_lane key before) (wk_epoch before))\<rparr>"
    using assms(2) by (simp add: capture_origin_def assms(1))
  have "\<not> version_is_current key (oc_started_at oc) (sv_worker turn)"
    using assms(5) by (auto simp: oc passive_is_current_def lane_fence_current_def lane_snapshot_def)
  then have "s' = unlock_lane key turn
      \<and> r = (case flight_proof env n (Some guard) of Inl er \<Rightarrow> Inl er | Inr _ \<Rightarrow> Inr (ReceiptCompleted (superseded_report cfg)))"
    using assms(6) by (simp add: write_entry_def assms(1) ordered_entry_def assms(3,4) oc Let_def split: sum.splits)
  then show ?thesis by (auto simp: assms(4) flight_proof_def split: sum.splits)
qed

section \<open>Fenced origins that lost their lease\<close>

text \<open>
  The built-in backend under a shared lease table, as the leased write of the pipeline.
\<close>

definition memory_leased ::
  "(nat \<Rightarrow> timestamp) \<Rightarrow> nat \<Rightarrow> string \<Rightarrow> leased_mutation \<Rightarrow> lease_proof \<Rightarrow> byte_store \<times> lease_table
   \<Rightarrow> (byte_store \<times> lease_table) \<times> (cache_error + leased_write_outcome)" where
  "memory_leased clock n key m p b =
     (let (bytes, r) = write_with_lease key m p (clock n) (snd b) (clock n) (fst b) in ((bytes, snd b), lift_error ErrLease r))"

lemma memory_leased_lost:
  assumes "not_holder lk a (snd b)" "p = \<lparr>proof_key = lk, proof_token = a, proof_authority = MemoryAuthority\<rparr>"
  shows "memory_leased clock n key m p b = (b, Inr WriteLeaseLost)"
proof -
  have "\<not> while_held lk a (clock n) (snd b)" using assms(1) by (auto simp: not_holder_def while_held_def split: option.splits)
  then show ?thesis by (simp add: memory_leased_def write_with_lease_def with_memory_ownership_def assms(2) lift_error_def)
qed

lemma failure_recovery [simp]: "wk_recovery (failure k t er w) = wk_recovery w"
  by (simp add: failure_def trip_circuit_def emit_def Let_def split: cache_error.split lease_error.split marker_error.split prod.split)

lemma advance_key_cases:
  assumes "advance_key key t w = (w', r)"
  shows "(r = Inl (ErrRecovery recovery_error.GenerationExhausted) \<and> w' = w) \<or> (\<exists>f lanes. r = Inr f \<and> w' = w\<lparr>wk_lanes := lanes\<rparr>)"
  using assms by (auto simp: advance_key_def lane_advance_def advance_revision_def split: sum.splits prod.splits option.splits)

lemma write_data_lost:
  assumes "cc_hybrid cfg" "mutation_remaining_ttl m (ce_now env n) \<noteq> Some 0" "fg_lease g = ClusterFenced l" "ce_leased env = memory_leased clock"
    "\<forall>k p. ce_proof env k l = Inr p \<longrightarrow> p = \<lparr>proof_key = lk, proof_token = a, proof_authority = MemoryAuthority\<rparr>"
    "\<forall>k er. ce_proof env k l = Inl er \<longrightarrow> lease_refused (ErrLease er)" "\<forall>k x. not_holder lk a (snd (sv_backend (ce_wait env k x)))"
  shows "\<exists>er. lease_refused er \<and> (write_data cfg env n key m (Some g) s = (s, Inl er) \<or> write_data cfg env n key m (Some g) s = (ce_wait env n s, Inl er))"
proof (cases "ce_proof env n l")
  case (Inl er)
  then show ?thesis using assms(1-3,6) by (auto simp: write_data_def flight_proof_def cluster_proof_def)
next
  case (Inr p)
  with assms(5) have p: "p = \<lparr>proof_key = lk, proof_token = a, proof_authority = MemoryAuthority\<rparr>" by blast
  have "not_holder lk a (snd (sv_backend (ce_wait env n s)))" using assms(7) by blast
  from memory_leased_lost [OF this p] have "backend_write cfg env n key m t (Some p) (sv_backend (ce_wait env n s)) = (sv_backend (ce_wait env n s), Inl (ErrLease LeaseLost))" for t
    by (simp add: backend_write_def assms(4))
  then have "write_data cfg env n key m (Some g) s = (ce_wait env n s, Inl (ErrLease LeaseLost))"
    using assms(1-3) Inr by (simp add: write_data_def flight_proof_def cluster_proof_def Let_def)
  moreover have "lease_refused (ErrLease LeaseLost)" by (simp add: lease_refused_def)
  ultimately show ?thesis by blast
qed

lemma commit_data_lost:
  assumes "cc_hybrid cfg" "mutation_remaining_ttl m (ce_now env n) \<noteq> Some 0" "fg_lease g = ClusterFenced l" "ce_leased env = memory_leased clock"
    "\<forall>k p. ce_proof env k l = Inr p \<longrightarrow> p = \<lparr>proof_key = lk, proof_token = a, proof_authority = MemoryAuthority\<rparr>"
    "\<forall>k er. ce_proof env k l = Inl er \<longrightarrow> lease_refused (ErrLease er)" "\<forall>k x. not_holder lk a (snd (sv_backend (ce_wait env k x)))"
    "is_closed_without_clock (wk_l2 (sv_worker s))"
  shows "\<exists>er left. lease_refused er \<and> (left = s \<or> left = ce_wait env n s)
    \<and> commit_data cfg env n key (PD_Ready m) c opts f (Some g) local s = (unlock_lane key (on_worker (failure key (ce_now env n) er) left), Inl er)"
proof -
  obtain er where er: "lease_refused er"
    "write_data cfg env n key m (Some g) s = (s, Inl er) \<or> write_data cfg env n key m (Some g) s = (ce_wait env n s, Inl er)"
    using write_data_lost [OF assms(1-7)] by blast
  have "circuit_admits DistributedCircuit (ce_now env n) (sv_worker s) = (sv_worker s, True)" using assms(8) by (simp add: circuit_admits_def)
  then have "commit_data cfg env n key (PD_Ready m) c opts f (Some g) local s = (unlock_lane key (on_worker (failure key (ce_now env n) er) left), Inl er)"
    if "write_data cfg env n key m (Some g) s = (left, Inl er)" for left
    using that er(1) by (simp add: commit_data_def Let_def)
  with er show ?thesis by blast
qed


section \<open>Failed second-level writes\<close>

lemma enqueue_data_queued:
  assumes "enqueue_data env n key pending action t fence w = (w', Inr True)"
  shows "\<exists>service entry. wk_recovery w' = Some service \<and> hm_get (rs_entries service) (DataKey key) = Some entry
    \<and> q_state entry = Pending \<and> ticket_generation (q_ticket entry) = lf_generation fence
    \<and> ticket_fence (q_ticket entry) = Some (Fence (ce_lane env key) (lf_generation fence))
    \<and> ticket_work (q_ticket entry) = DataWork \<lparr>item_key = key, item_action = action, item_timestamp = t,
         item_expires_at = pending_expiry pending t, item_remaining_retries = None\<rparr> pending"
proof -
  let ?work = "DataWork \<lparr>item_key = key, item_action = action, item_timestamp = t, item_expires_at = pending_expiry pending t,
     item_remaining_retries = None\<rparr> pending"
  let ?fence = "Fence (ce_lane env key) (lf_generation fence)"
  obtain service service' out where e: "wk_recovery w' = Some service'" "out \<in> {EnqQueued i | i. True} \<union> {EnqReplaced i | i. True}"
    "enqueue_versioned (ce_now env n) (\<lambda>f. kl_generation (worker_lane key w) = fence_generation f) ?work ?fence service = (service', Inr out)"
    using assms by (auto simp: enqueue_data_def Let_def split: option.splits prod.splits sum.splits enqueue_outcome.splits) blast+
  from e(2,3) have "enqueue_locked ?work (Some ?fence) service = (service', Inr out)"
    by (auto simp: enqueue_versioned_def enqueue_work_def enqueue_precheck_def split: option.splits if_splits)
  with e(2) have "\<exists>s0 remaining replaced. install (DataKey key) ?work (Some ?fence) remaining replaced s0 = (service', Inr out)"
    by (auto simp: enqueue_locked_def enqueue_new_def inherit_work_def Let_def split: option.splits if_splits sum.splits recovery_work.splits)
  then have "\<exists>entry. hm_get (rs_entries service') (DataKey key) = Some entry \<and> q_state entry = Pending
      \<and> ticket_generation (q_ticket entry) = lf_generation fence \<and> ticket_fence (q_ticket entry) = Some ?fence \<and> ticket_work (q_ticket entry) = ?work"
    by (auto simp: install_def Let_def hmap_simps split: option.splits)
  with e(1) show ?thesis by blast
qed

text \<open>
  C32. Failed writes: when the second level refuses a mutation or its circuit is open, and the failure is not the loss of a
  lease, the failure is never dropped: it is returned, or the report of the mutation carries it. If the
  report says that the work was queued, the recovery queue holds exactly this mutation and its
  notification under the key, pending, with the generation of this mutation, so that it is replayed unless a
  later mutation supersedes it. Without the request to rethrow, an already applied local effect is reported.
\<close>
theorem failed_write_recorded:
  assumes "circuit_admits DistributedCircuit (ce_now env n) (sv_worker s) = (w, ok)"
    and "(if ok then write_data cfg env n key m flight (s\<lparr>sv_worker := w\<rparr>) else (s\<lparr>sv_worker := w\<rparr>, Inl (ErrCircuitOpen DistributedCircuit))) = (s1, Inl er)"
    and "\<not> lease_refused er" and "commit_data cfg env n key (PD_Ready m) command opts fence flight (LocalApplied effect) s = (s', r)"
  shows "(\<exists>er'. r = Inl er' \<and> (er' = er \<and> opt_rethrow_distributed_exceptions opts \<or> (\<exists>re. er' = ErrRecovery re)))
    \<or> \<not> opt_rethrow_distributed_exceptions opts
      \<and> (\<exists>report. r = Inr (ReceiptCompleted report) \<and> report_local report = effect \<and> outcome_failures (report_distributed report) = [er]
        \<and> (report_distributed report = EffectRecoveryQueued er \<longrightarrow>
             (\<exists>service entry item. wk_recovery (sv_worker s') = Some service \<and> hm_get (rs_entries service) (DataKey key) = Some entry
              \<and> q_state entry = Pending \<and> ticket_generation (q_ticket entry) = lf_generation fence
              \<and> ticket_work (q_ticket entry) = DataWork item (if fenced_flight flight then FencedCommit m command else Commit m command)
              \<and> item_key item = key)))"
proof -
  let ?p = "if fenced_flight flight then FencedCommit m command else Commit m command"
  let ?t = "case kl_timestamp (worker_lane key (sv_worker s)) of Some t \<Rightarrow> t | None \<Rightarrow> ce_now env n"
  let ?s2 = "on_worker (failure key (ce_now env n) er) s1"
  have c: "commit_failed env (Suc n) key ?p opts (command_action command) ?t fence flight (LocalApplied effect) er ?s2 = (s', r)"
    using assms by (simp add: commit_data_def Let_def)
  obtain w2 q where q: "enqueue_data env (Suc n) key ?p (command_action command) ?t fence (failure key (ce_now env n) er (sv_worker s1)) = (w2, q)" by fastforce
  show ?thesis
  proof (cases q)
    case (Inl er')
    then have "\<exists>re. er' = ErrRecovery re" using q by (auto simp: enqueue_data_def Let_def split: option.splits prod.splits sum.splits)
    then show ?thesis using c q Inl by (auto simp: commit_failed_def)
  next
    case (Inr b)
    show ?thesis
    proof (cases "opt_rethrow_distributed_exceptions opts")
      case True
      then show ?thesis using c q Inr by (auto simp: commit_failed_def)
    next
      case False
      then have s': "s' = unlock_lane key (?s2\<lparr>sv_worker := w2\<rparr>)"
        "r = Inr (ReceiptCompleted \<lparr>report_local = effect, report_distributed = failed_outcome b er, report_backplane = EffectSkipped SkipPolicy\<rparr>)"
        using c by (simp_all add: commit_failed_def q Inr commit_local_def)
      have "b \<Longrightarrow> \<exists>service entry item. wk_recovery (sv_worker s') = Some service \<and> hm_get (rs_entries service) (DataKey key) = Some entry
              \<and> q_state entry = Pending \<and> ticket_generation (q_ticket entry) = lf_generation fence
              \<and> ticket_work (q_ticket entry) = DataWork item ?p \<and> item_key item = key"
        using enqueue_data_queued [of env "Suc n" key ?p "command_action command" ?t fence "failure key (ce_now env n) er (sv_worker s1)" w2] q Inr by (fastforce simp: s'(1))
      then show ?thesis using False s'(2) by (simp add: failed_outcome_def)
    qed
  qed
qed

section \<open>Notifications\<close>

lemma commit_failed_report:
  assumes "commit_failed env n key pending opts action t fence flight local cause s = (s', Inr receipt)"
  shows "\<exists>report. receipt = ReceiptCompleted report \<and> report_backplane report = EffectSkipped SkipPolicy"
  using assms by (auto simp: commit_failed_def split: prod.splits sum.splits if_splits)

lemma publish_command_done:
  assumes "cc_backplane cfg" "publish_command cfg env n c s = (s', Inr u)"
  shows "\<exists>before. sv_published s' = before @ [c]"
  using assms by (auto simp: publish_command_def Let_def split: prod.splits bool.splits sum.splits)

lemma commit_stored_report:
  assumes "cc_backplane cfg" "commit_stored cfg env n key command opts action t fence flight local distributed s = (s', Inr receipt)"
    "receipt_wait ErrCacheClosed receipt = waited.Returned (Inr report)" "report_backplane report = EffectApplied"
  shows "\<exists>c before. command = Some c \<and> sv_published s' = before @ [c] \<and> report_distributed report = distributed"
proof -
  obtain s1 effect where l: "commit_local env n key local flight s = (s1, Inr effect)"
    using assms(2) by (auto simp: commit_stored_def split: prod.splits sum.splits)
  let ?s2 = "on_worker (\<lambda>w. w\<lparr>wk_recovery := map_option (fst \<circ> supersede_through key (lf_generation fence)) (wk_recovery w)\<rparr>) s1"
  obtain r where p: "commit_publish cfg env (Suc n) key command opts action t fence effect distributed ?s2 = (s', r)"
    and r: "commit_receipt (if opt_allow_background_backplane_operations opts \<and> command \<noteq> None then BackgroundCommit else ForegroundCommit) r = Inr receipt"
    using assms(2) by (auto simp: commit_stored_def l Let_def split: prod.splits)
  from r assms(3) have "r = Inr report"
    by (auto simp: commit_receipt_def schedule_receipt_def completion_wait_def split: if_splits sum.splits)
  with p assms(1,4) show ?thesis
    by (auto simp: commit_publish_def Let_def failed_outcome_def split: option.splits prod.splits sum.splits if_splits dest!: publish_command_done [OF assms(1)])
qed

lemma write_data_outcome:
  "write_data cfg env n key m flight s = (s', Inr out) \<Longrightarrow> out \<in> {NotConfigured, EffectApplied, EffectSkipped SkipPhysicallyExpired}"
  by (auto simp: write_data_def Let_def split: if_splits sum.splits prod.splits)

lemma commit_data_notified:
  assumes "cc_backplane cfg" and "commit_data cfg env n key data command opts fence flight local s = (s', Inr receipt)"
    and "receipt_wait ErrCacheClosed receipt = waited.Returned (Inr report)"
  shows "(report_backplane report = EffectApplied \<longrightarrow>
      (\<exists>c before. command = Some c \<and> sv_published s' = before @ [c])
      \<and> report_distributed report \<in> {NotConfigured, EffectApplied, EffectSkipped SkipPolicy, EffectSkipped SkipPhysicallyExpired})
    \<and> (outcome_failures (report_distributed report) \<noteq> [] \<longrightarrow> report_backplane report \<noteq> EffectApplied)"
proof -
  have "(\<exists>c before. command = Some c \<and> sv_published s' = before @ [c])
      \<and> report_distributed report \<in> {NotConfigured, EffectApplied, EffectSkipped SkipPolicy, EffectSkipped SkipPhysicallyExpired}"
    if bp: "report_backplane report = EffectApplied"
  proof -
    note st = commit_stored_report [OF assms(1) _ assms(3) bp]
    have failed: "False" if "commit_failed env k key p opts a t fence flight local cause x = (s', Inr receipt)" for k p a t cause x
      using commit_failed_report [OF that] assms(3) bp by auto
    show ?thesis
    proof (cases data)
      case (PD_Ready m)
      obtain w ok where ok: "circuit_admits DistributedCircuit (ce_now env n) (sv_worker s) = (w, ok)" by fastforce
      obtain s1 r1 where r1: "(if ok then write_data cfg env n key m flight (s\<lparr>sv_worker := w\<rparr>) else (s\<lparr>sv_worker := w\<rparr>, Inl (ErrCircuitOpen DistributedCircuit))) = (s1, r1)"
        by fastforce
      show ?thesis
      proof (cases r1)
        case (Inr out)
        then have "out \<in> {NotConfigured, EffectApplied, EffectSkipped SkipPhysicallyExpired}" using r1 by (auto split: if_splits dest: write_data_outcome)
        moreover have "\<exists>k a t. commit_stored cfg env k key command opts a t fence flight local out s1 = (s', Inr receipt)"
          using assms(2) r1 Inr by (auto simp: commit_data_def PD_Ready ok Let_def)
        ultimately show ?thesis using st by blast
      next
        case (Inl er)
        then have False using assms(2) r1 failed by (auto simp: commit_data_def PD_Ready ok Let_def split: if_splits)
        then show ?thesis ..
      qed
    qed (use assms(2,3) bp in \<open>auto simp: commit_data_def Let_def dest!: st failed split: prod.splits sum.splits\<close>)
  qed
  then show ?thesis by auto
qed

text \<open>
  Whether the second level took its part in a mutation: there was no part for it, or its circuit let
  the write through and the write succeeded.
\<close>

definition second_level_took ::
  "'v cache_config \<Rightarrow> ('v, 'l, 'b) commit_env \<Rightarrow> nat \<Rightarrow> string \<Rightarrow> prepared_data \<Rightarrow> 'l flight_guard option \<Rightarrow> ('v, 'b) site \<Rightarrow> bool" where
  "second_level_took cfg env n key data flight s = (case data of
     PD_Absent \<Rightarrow> True
   | PD_Skipped \<Rightarrow> True
   | PD_Failed _ \<Rightarrow> False
   | PD_ColdExpire _ _ \<Rightarrow> False
   | PD_Ready mutation \<Rightarrow> (case circuit_admits DistributedCircuit (ce_now env n) (sv_worker s) of (w, admitted) \<Rightarrow>
       admitted \<and> (\<exists>x out. write_data cfg env n key mutation flight (s\<lparr>sv_worker := w\<rparr>) = (x, Inr out))))"

definition told :: "backplane_command \<Rightarrow> ('v, 'b) site \<Rightarrow> nat" where
  "told c s = count_list (sv_published s) c"

text \<open>How often a command was published may change only in the stage that publishes it.\<close>

definition told_by_others :: "('v, 'l, 'b) commit_env \<Rightarrow> backplane_command \<Rightarrow> bool" where
  "told_by_others env c \<longleftrightarrow> (\<exists>k x. told c (ce_wait env k x) \<noteq> told c x)"

lemma told_simps [simp]:
  "told c (unlock_lane key s) = told c s" "told c (on_worker f s) = told c s" "told c (s\<lparr>sv_worker := w\<rparr>) = told c s"
  "told c (s\<lparr>sv_backend := b\<rparr>) = told c s"
  by (simp_all add: told_def on_worker_def)

lemma told_wait: "\<not> told_by_others env c \<Longrightarrow> told c (ce_wait env k x) = told c x"
  by (simp add: told_by_others_def)

lemma told_published: "told c (s\<lparr>sv_published := sv_published s @ [d]\<rparr>) = told c s + (if d = c then 1 else 0)"
  by (simp add: told_def)

lemma commit_local_told:
  "\<not> told_by_others env c \<Longrightarrow> commit_local env n key local flight s = (s', r) \<Longrightarrow> told c s' = told c s"
  by (auto simp: commit_local_def told_wait Let_def split: local_commit.splits sum.splits prod.splits)

lemma write_data_told:
  "\<not> told_by_others env c \<Longrightarrow> write_data cfg env n key m flight s = (s', r) \<Longrightarrow> told c s' = told c s"
  by (auto simp: write_data_def told_wait Let_def split: if_splits sum.splits prod.splits)

lemma write_data_no_failure: "write_data cfg env n key m flight s = (s', Inr out) \<Longrightarrow> outcome_failures out = []"
  by (auto simp: write_data_def Let_def split: if_splits sum.splits prod.splits)

lemma publish_command_told:
  assumes "\<not> told_by_others env c" "cc_backplane cfg" "publish_command cfg env n d s = (s', r)"
  shows "told c s' = told c s + (if d = c \<and> r = Inr () then 1 else 0)"
proof (cases "circuit_admits BackplaneCircuit (ce_now env n) (sv_worker s)")
  case (Pair w ok)
  show ?thesis
  proof (cases "ok \<and> ce_publish env n d = Inr ()")
    case True
    then have "told c s' = told c ((ce_wait env n (s\<lparr>sv_worker := w\<rparr>))\<lparr>sv_published := sv_published (ce_wait env n (s\<lparr>sv_worker := w\<rparr>)) @ [d]\<rparr>)" "r = Inr ()"
      using assms(2,3) Pair by (auto simp: publish_command_def Let_def)
    then show ?thesis by (simp add: told_published told_wait [OF assms(1)])
  next
    case False
    then have "told c s' = told c s" "r \<noteq> Inr ()"
      using assms(2,3) Pair by (auto simp: publish_command_def told_wait [OF assms(1)] Let_def split: bool.splits sum.splits)
    then show ?thesis by simp
  qed
qed

text \<open>
  What a report says about the notification and how often the command was published: \<open>before\<close> and
  \<open>after\<close> count the publications of \<open>c\<close>.
\<close>

definition notification_reported ::
  "backplane_command option \<Rightarrow> bool \<Rightarrow> backplane_command \<Rightarrow> nat \<Rightarrow> nat \<Rightarrow> cache_error mutation_report \<Rightarrow> bool" where
  "notification_reported command took c before after report \<longleftrightarrow>
     (outcome_failures (report_distributed report) = [] \<longleftrightarrow> took)
   \<and> (if took \<and> command \<noteq> None
      then report_backplane report = EffectApplied \<and> after = before + (if command = Some c then 1 else 0)
         \<or> outcome_failures (report_backplane report) \<noteq> [] \<and> after = before
      else report_backplane report = EffectSkipped SkipPolicy \<and> after = before)"

definition notification_result ::
  "backplane_command option \<Rightarrow> bool \<Rightarrow> backplane_command \<Rightarrow> nat \<Rightarrow> nat \<Rightarrow> cache_error + commit_receipt_value \<Rightarrow> bool" where
  "notification_result command took c before after r = (case r of
     Inl er \<Rightarrow> after = before
   | Inr receipt \<Rightarrow> (case receipt_wait ErrCacheClosed receipt of
       waited.Returned (Inl er) \<Rightarrow> after = before
     | waited.Returned (Inr report) \<Rightarrow> notification_reported command took c before after report
     | WaiterPanics \<Rightarrow> False))"

lemma commit_publish_told:
  assumes "\<not> told_by_others env c" "cc_backplane cfg" "outcome_failures distributed = []"
    "commit_publish cfg env n key command opts action t fence effect distributed s = (s', r)"
  shows "case r of Inl er \<Rightarrow> told c s' = told c s | Inr report \<Rightarrow> notification_reported command True c (told c s) (told c s') report"
proof (cases command)
  case None
  then show ?thesis using assms(2-4) by (auto simp: commit_publish_def notification_reported_def)
next
  case (Some d)
  obtain s1 p where p: "publish_command cfg env n d s = (s1, p)" by fastforce
  note t = publish_command_told [OF assms(1,2) p]
  show ?thesis
  proof (cases p)
    case (Inr u)
    then show ?thesis using assms(3,4) Some p t by (auto simp: commit_publish_def notification_reported_def)
  next
    case (Inl er)
    then show ?thesis using assms(3,4) Some p t
      by (auto simp: commit_publish_def notification_reported_def failed_outcome_def Let_def split: prod.splits sum.splits if_splits)
  qed
qed

lemma commit_stored_told:
  assumes "\<not> told_by_others env c" "cc_backplane cfg" "outcome_failures distributed = []"
    "commit_stored cfg env n key command opts action t fence flight local distributed s = (s', r)"
  shows "notification_result command True c (told c s) (told c s') r"
proof -
  obtain s1 l where l: "commit_local env n key local flight s = (s1, l)" by fastforce
  note t = commit_local_told [OF assms(1) l]
  show ?thesis
  proof (cases l)
    case (Inl er)
    then show ?thesis using assms(4) l t by (auto simp: commit_stored_def notification_result_def)
  next
    case (Inr effect)
    let ?s2 = "on_worker (\<lambda>w. w\<lparr>wk_recovery := map_option (fst \<circ> supersede_through key (lf_generation fence)) (wk_recovery w)\<rparr>) s1"
    obtain s2 p where p: "commit_publish cfg env (n + 1) key command opts action t fence effect distributed ?s2 = (s2, p)" by fastforce
    have "s' = s2" "r = commit_receipt (if opt_allow_background_backplane_operations opts \<and> command \<noteq> None then BackgroundCommit else ForegroundCommit) p"
      using assms(4) l Inr p by (auto simp: commit_stored_def Let_def)
    then show ?thesis using commit_publish_told [OF assms(1-3) p] t
      by (auto simp: notification_result_def commit_receipt_def schedule_receipt_def completion_wait_def split: sum.splits)
  qed
qed

lemma commit_failed_told:
  assumes "\<not> told_by_others env c"
    "commit_failed env n key pending opts action t fence flight local cause s = (s', r)"
  shows "notification_result command False c (told c s) (told c s') r"
  using assms(2)
  by (auto simp: commit_failed_def notification_result_def notification_reported_def failed_outcome_def
      dest!: commit_local_told [OF assms(1)] split: prod.splits sum.splits if_splits)

lemma commit_data_told:
  assumes c: "\<not> told_by_others env c" and bp: "cc_backplane cfg"
    and run: "commit_data cfg env n key data command opts fence flight local s = (s', r)"
  shows "notification_result command (second_level_took cfg env n key data flight s) c (told c s) (told c s') r"
proof (cases data)
  case PD_Absent
  then show ?thesis using run commit_stored_told [OF c bp, of NotConfigured] by (fastforce simp: commit_data_def second_level_took_def)
next
  case PD_Skipped
  then show ?thesis using run commit_stored_told [OF c bp, of "EffectSkipped SkipPolicy"] by (fastforce simp: commit_data_def second_level_took_def)
next
  case (PD_Failed er)
  then show ?thesis using run
    by (auto simp: commit_data_def second_level_took_def notification_result_def notification_reported_def
        dest!: commit_local_told [OF c] split: prod.splits sum.splits)
next
  case (PD_ColdExpire cause logical)
  then show ?thesis using run commit_failed_told [OF c] by (fastforce simp: commit_data_def second_level_took_def)
next
  case (PD_Ready m)
  obtain w ok where ok: "circuit_admits DistributedCircuit (ce_now env n) (sv_worker s) = (w, ok)" by fastforce
  obtain s1 r1 where r1: "(if ok then write_data cfg env n key m flight (s\<lparr>sv_worker := w\<rparr>) else (s\<lparr>sv_worker := w\<rparr>, Inl (ErrCircuitOpen DistributedCircuit))) = (s1, r1)"
    by fastforce
  have t: "told c s1 = told c s" using r1 write_data_told [OF c] by (fastforce split: if_splits)
  have took: "second_level_took cfg env n key data flight s \<longleftrightarrow> (\<exists>out. r1 = Inr out)"
    using r1 by (auto simp: second_level_took_def PD_Ready ok split: if_splits)
  show ?thesis
  proof (cases r1)
    case (Inr out)
    then have "outcome_failures out = []" using r1 write_data_no_failure by (auto split: if_splits)
    moreover have "\<exists>k a u. commit_stored cfg env k key command opts a u fence flight local out s1 = (s', r)"
      using run r1 Inr by (auto simp: commit_data_def PD_Ready ok Let_def)
    ultimately have "notification_result command True c (told c s1) (told c s') r" using commit_stored_told [OF c bp] by blast
    then show ?thesis using took Inr t by simp
  next
    case (Inl er)
    let ?s2 = "on_worker (failure key (ce_now env n) er) s1"
    have "(s', r) = (unlock_lane key ?s2, Inl er) \<or> (\<exists>k p a u. commit_failed env k key p opts a u fence flight local er ?s2 = (s', r))"
      using run r1 Inl by (auto simp: commit_data_def PD_Ready ok Let_def split: if_splits)
    then have "notification_result command False c (told c ?s2) (told c s') r"
    proof (elim disjE exE)
      assume "(s', r) = (unlock_lane key ?s2, Inl er)"
      then show ?thesis by (simp add: notification_result_def)
    qed (rule commit_failed_told [OF c])
    then show ?thesis using took Inl t by simp
  qed
qed

text \<open>
  C33. Notifications: when no other operation publishes the command of a mutation meanwhile, then
  the mutation publishes it once or not at all, and never unless the second level has taken its part
  (there was none, or its circuit let the write through and the write succeeded). A mutation that
  ends with an error has published nothing. A report names a failure of the second level exactly when
  it did not take its part, and then the notification was withheld; otherwise the report says
  either that the notification was applied, and it was published exactly once, or it names why the
  backplane refused it, and nothing was published. No other command is published.
\<close>
theorem peers_notified_after_store:
  assumes "cc_backplane cfg" and "\<not> told_by_others env c"
    and "commit_data cfg env n key data command opts fence flight local s = (s', r)"
    and "took = second_level_took cfg env n key data flight s"
  shows "(told c s' = told c s \<or> took \<and> command = Some c \<and> told c s' = told c s + 1)
    \<and> (case r of
         Inl er \<Rightarrow> told c s' = told c s
       | Inr receipt \<Rightarrow> (case receipt_wait ErrCacheClosed receipt of
           waited.Returned (Inl er) \<Rightarrow> told c s' = told c s
         | waited.Returned (Inr report) \<Rightarrow>
             (outcome_failures (report_distributed report) = [] \<longleftrightarrow> took)
             \<and> (if took \<and> command \<noteq> None
                then report_backplane report = EffectApplied \<and> told c s' = told c s + (if command = Some c then 1 else 0)
                   \<or> outcome_failures (report_backplane report) \<noteq> [] \<and> told c s' = told c s
                else report_backplane report = EffectSkipped SkipPolicy \<and> told c s' = told c s)
         | WaiterPanics \<Rightarrow> False))"
  using commit_data_told [OF assms(2,1,3)]
  unfolding notification_result_def notification_reported_def assms(4) [symmetric]
  by (auto split: sum.splits waited.splits if_splits)

section \<open>A small pipeline\<close>

definition demo_pipeline :: "(nat, nat, byte_store \<times> lease_table) commit_env" where
  "demo_pipeline = \<lparr>ce_reads = quiet_read 102, ce_wait = (\<lambda>_ s. s\<lparr>sv_backend := (fst (sv_backend s), [])\<rparr>), ce_valid = (\<lambda>_. Inr ()),
     ce_jitter = Inr JitterSample_ZERO, ce_encode = (\<lambda>_ _. Inr ''v''), ce_decode = (\<lambda>_ _. Inl ErrCacheClosed),
     ce_proof = (\<lambda>_ _. Inr \<lparr>proof_key = ''l'', proof_token = LeaseToken ''a'', proof_authority = MemoryAuthority\<rparr>), ce_lost = (\<lambda>_ _. False),
     ce_fetch = (\<lambda>_ _ _. Inr None), ce_plain = (\<lambda>_ _ b. (b, Inr ())), ce_leased = memory_leased (\<lambda>_. 105), ce_publish = (\<lambda>_ _. Inr ()),
     ce_label = (\<lambda>_. []), ce_lane = (\<lambda>_. 0), ce_locker = True, ce_revision = None\<rparr>"

definition demo_site :: "(nat, byte_store \<times> lease_table) site" where
  "demo_site = \<lparr>sv_worker = demo_worker, sv_backend = ([], []), sv_published = []\<rparr>"

lemma demo_pipeline_fields [simp]:
  "ce_reads demo_pipeline = quiet_read 102" "ce_wait demo_pipeline n s = s\<lparr>sv_backend := (fst (sv_backend s), [])\<rparr>"
  "ce_jitter demo_pipeline = Inr JitterSample_ZERO" "ce_encode demo_pipeline n snap = Inr ''v''"
  "ce_proof demo_pipeline n l = Inr \<lparr>proof_key = ''l'', proof_token = LeaseToken ''a'', proof_authority = MemoryAuthority\<rparr>"
  "ce_plain demo_pipeline n rq b = (b, Inr ())" "ce_leased demo_pipeline = memory_leased (\<lambda>_. 105)" "ce_publish demo_pipeline n c = Inr ()"
  "ce_locker demo_pipeline = True" "re_now (quiet_read t) n = t" "re_cancel (quiet_read t) n = None"
  by (simp_all add: demo_pipeline_def quiet_read_def)

lemma demo_cache_fields [simp]: "cc_hybrid demo_cache" "cc_backplane demo_cache" "cc_cloner demo_cache = None" "cc_distributed_key demo_cache = DK_Unmodified"
  by (simp_all add: demo_cache_def)

lemma demo_general [simp]: "WritePlan_select c True = GeneralPlan"
  by (simp add: WritePlan_select_def)

lemma demo_circuits [simp]: "wk_l2 demo_worker = CircuitBreaker_new 0" "wk_bp demo_worker = CircuitBreaker_new 0" "wk_recovery demo_worker = None"
  by (simp_all add: demo_worker_def new_worker_def)

lemma demo_disabled [simp]: "is_closed_without_clock (CircuitBreaker_new 0)" "close (CircuitBreaker_new 0) = (CircuitBreaker_new 0, False)"
  by (simp_all add: is_closed_without_clock_def CircuitBreaker_new_def is_disabled_def close_def)

lemmas demo_pipeline_eval = demo_site_def commit_data_def commit_stored_def commit_local_def commit_publish_def publish_command_def
  write_data_def backend_write_def flight_proof_def circuit_admits_def close_circuit_def commit_receipt_def pipeline_receipt_def commit_mode_of_def
  data_command_def advance_key_def worker_lane_def lane_advance_def advance_revision_def checked_add_u64_def KeyLane_new_def on_worker_def
  lock_lane_def unlock_lane_def emit_def Let_def

lemma demo_removal: "\<exists>s' out. key_mutation demo_cache demo_pipeline ''k'' KeyRemove (EntryOptions_new 500) demo_site = (s', Inr out)
    \<and> kl_generation (worker_lane ''k'' (sv_worker s')) = 1"
  by (simp add: key_mutation_def ordered_mutation_def local_mutation_def mutation_data_def demo_pipeline_eval option_defs)

theorem mutation_outdates_snapshots_witness:
  "\<exists>s' out r. key_mutation demo_cache demo_pipeline ''k'' KeyRemove (EntryOptions_new 500) demo_site = (s', Inr out)
    \<and> hydrate demo_cache (quiet_read 105) 0 ''k'' demo_found (EntryOptions_new 500) (sv_worker s') = (sv_worker s', Inr (HydrationSkipped r))"
proof -
  obtain s' out where m: "key_mutation demo_cache demo_pipeline ''k'' KeyRemove (EntryOptions_new 500) demo_site = (s', Inr out)"
    using demo_removal by blast
  have rely: "lane_rely demo_pipeline ''k''" by (simp add: lane_rely_def)
  have "dl_hydration demo_found = StableFence \<lparr>lf_generation = 0, lf_captured_epoch = 0\<rparr> None" by (simp add: demo_found_def)
  from mutation_outdates_snapshots [OF rely _ _ disjI2 [OF m] order_refl this] m show ?thesis by fastforce
qed

definition demo_guard :: "nat cluster_participation \<Rightarrow> nat flight_guard" where
  "demo_guard participation = \<lparr>fg_local = LocalHeld, fg_lease = participation\<rparr>"

lemma demo_prepared:
  "\<exists>m. prepare_set demo_cache demo_pipeline 2 ''k'' sample_entry (EntryOptions_new 500) w = (w, Inr (PD_Ready m)) \<and> mutation_remaining_ttl m 102 \<noteq> Some 0"
proof -
  have t: "md_inserted_at (en_meta sample_entry) = 100" "in_i64 100" by (simp_all add: sample_entry_def FreshPlan_prepare_def in_i64_def)
  obtain l p where wd: "wire_deadlines sample_entry (EntryOptions_new 500) 100 = (l, p)" "102 < p"
    by (simp add: wire_deadlines_def sample_entry_def FreshPlan_prepare_def resolved_distributed_duration_def resolved_distributed_fail_safe_max_duration_def
        distributed_physical_ttl_def resolved_memory_duration_def physical_ttl_def meta_eager_refresh_at_def saturating_add_eq machine_defs option_defs Let_def)
  show ?thesis
    using snapshot_from_entry_eq [OF sample_entry_facts(1) t(2) sample_entry_facts(2,3)] wd
    by (simp add: prepare_set_def t option_defs saturating_duration_since_eq machine_defs)
qed

abbreviation demo_moved :: "(nat, byte_store \<times> lease_table) site" where
  "demo_moved \<equiv> demo_site\<lparr>sv_worker := demo_worker\<lparr>wk_lanes := [(''k'', \<lparr>kl_generation = 1, kl_timestamp = Some 101\<rparr>)]\<rparr>\<rparr>"

theorem overtaken_origin_writes_nothing_witness:
  "\<exists>oc s'. capture_origin demo_cache demo_pipeline ''k'' (demo_guard ClusterLocal) demo_worker = (demo_worker, Inr oc)
    \<and> write_entry demo_cache demo_pipeline 2 ''k'' sample_entry (EntryOptions_new 500) (Some oc) demo_moved
        = (s', Inr (ReceiptCompleted (superseded_report (demo_cache :: nat cache_config))))"
proof -
  obtain oc where oc: "capture_origin demo_cache demo_pipeline ''k'' (demo_guard ClusterLocal) demo_worker = (demo_worker, Inr oc)"
    by (simp add: capture_origin_def)
  obtain m where m: "prepare_set demo_cache demo_pipeline 2 ''k'' sample_entry (EntryOptions_new 500) (sv_worker demo_moved) = (sv_worker demo_moved, Inr (PD_Ready m))"
    using demo_prepared by blast
  obtain s' r where r: "write_entry demo_cache demo_pipeline 2 ''k'' sample_entry (EntryOptions_new 500) (Some oc) demo_moved = (s', r)" by fastforce
  have "r = Inr (ReceiptCompleted (superseded_report (demo_cache :: nat cache_config)))"
    using overtaken_origin_writes_nothing [OF _ oc m refl _ r]
    by (auto simp: demo_site_def lock_lane_def worker_lane_def KeyLane_new_def cluster_proof_def demo_guard_def)
  with oc r show ?thesis by blast
qed


definition broken_pipeline :: "(nat, nat, byte_store \<times> lease_table) commit_env" where
  "broken_pipeline = demo_pipeline\<lparr>ce_plain := (\<lambda>_ _ b. (b, Inl (ErrDistributed ''down'')))\<rparr>"

lemma demo_enqueue:
  assumes "wk_recovery w = Some demo_service" "kl_generation (worker_lane ''k'' w) = 1"
  shows "\<exists>w'. enqueue_data broken_pipeline n ''k'' (Commit MutRemove None) ActionSet 101 \<lparr>lf_generation = 1, lf_captured_epoch = 0\<rparr> w = (w', Inr True)"
  using assms by (simp add: enqueue_data_def enqueue_versioned_def enqueue_work_def enqueue_precheck_def enqueue_locked_def enqueue_new_def install_def
      demo_service_def demo_config_def retry_budget_def pending_expiry_def saturating_add_eq machine_defs time_defs broken_pipeline_def Let_def)

theorem failed_write_recorded_witness:
  "\<exists>s' report. commit_data demo_cache broken_pipeline 0 ''k'' (PD_Ready MutRemove) None (EntryOptions_new 500) \<lparr>lf_generation = 1, lf_captured_epoch = 0\<rparr> None
      (LocalApplied LocalRemoved) (on_worker (\<lambda>w. w\<lparr>wk_recovery := Some demo_service\<rparr>) demo_moved) = (s', Inr (ReceiptCompleted report))
    \<and> outcome_failures (report_distributed report) = [ErrDistributed ''down'']"
proof -
  define s0 where "s0 = on_worker (\<lambda>w. w\<lparr>wk_recovery := Some demo_service\<rparr>) demo_moved"
  let ?f = "\<lparr>lf_generation = 1, lf_captured_epoch = 0\<rparr>"
  let ?attempt = "if True then write_data demo_cache broken_pipeline 0 ''k'' MutRemove None (s0\<lparr>sv_worker := sv_worker s0\<rparr>)
      else (s0\<lparr>sv_worker := sv_worker s0\<rparr>, Inl (ErrCircuitOpen DistributedCircuit))"
  have adm: "circuit_admits DistributedCircuit (ce_now broken_pipeline 0) (sv_worker s0) = (sv_worker s0, True)"
    by (simp add: circuit_admits_def s0_def demo_site_def)
  obtain s1 where s1: "?attempt = (s1, Inl (ErrDistributed ''down''))" "wk_recovery (sv_worker s1) = Some demo_service" "key_generation ''k'' s1 = 1"
    by (simp add: write_data_def backend_write_def flight_proof_def broken_pipeline_def Let_def s0_def demo_site_def worker_lane_def)
  obtain w' where w': "enqueue_data broken_pipeline (Suc 0) ''k'' (Commit MutRemove None) ActionSet 101 ?f (failure ''k'' (ce_now broken_pipeline 0) (ErrDistributed ''down'') (sv_worker s1)) = (w', Inr True)"
    using demo_enqueue s1(2,3) by (metis failure_recovery worker_lane_simps(4))
  have t: "kl_timestamp (worker_lane ''k'' (sv_worker s0)) = Some 101" by (simp add: s0_def demo_site_def worker_lane_def)
  have "\<exists>s' report. commit_data demo_cache broken_pipeline 0 ''k'' (PD_Ready MutRemove) None (EntryOptions_new 500) ?f None (LocalApplied LocalRemoved) s0
      = (s', Inr (ReceiptCompleted report))"
    using w' s1(1) by (simp add: commit_data_def commit_failed_def commit_local_def adm t [simplified] lease_refused_def fenced_flight_def command_action_def Let_def)
  then obtain s' report where c: "commit_data demo_cache broken_pipeline 0 ''k'' (PD_Ready MutRemove) None (EntryOptions_new 500) ?f None (LocalApplied LocalRemoved) s0
      = (s', Inr (ReceiptCompleted report))" by blast
  from failed_write_recorded [OF adm s1(1) _ c] c show ?thesis unfolding s0_def by (auto simp: lease_refused_def)
qed

abbreviation demo_notified :: "(nat, byte_store \<times> lease_table) site \<times> (cache_error + commit_receipt_value)" where
  "demo_notified \<equiv> commit_data demo_cache demo_pipeline 0 ''k'' (PD_Ready MutRemove) (data_command (demo_cache :: nat cache_config) RemoveAction ''k'' 101 (EntryOptions_new 500))
      (EntryOptions_new 500) \<lparr>lf_generation = 1, lf_captured_epoch = 0\<rparr> None (LocalApplied LocalRemoved) demo_moved"

theorem peers_notified_after_store_witness:
  "\<exists>c s' receipt. demo_notified = (s', Inr receipt) \<and> data_command (demo_cache :: nat cache_config) RemoveAction ''k'' 101 (EntryOptions_new 500) = Some c
    \<and> told c s' = told c demo_moved + 1"
proof -
  let ?report = "\<lparr>report_local = LocalRemoved, report_distributed = EffectApplied, report_backplane = EffectApplied\<rparr>"
  obtain s' where run: "demo_notified = (s', Inr (schedule_receipt (Inr ?report)))" by (simp add: demo_pipeline_eval option_defs)
  obtain c where c: "data_command (demo_cache :: nat cache_config) RemoveAction ''k'' 101 (EntryOptions_new 500) = Some c"
    by (simp add: data_command_def option_defs)
  have quiet: "\<not> told_by_others demo_pipeline c" by (simp add: told_by_others_def told_def)
  from peers_notified_after_store [OF _ quiet run refl] have "told c s' = told c demo_moved + 1"
    by (auto simp: schedule_receipt_def completion_wait_def c split: if_splits)
  with run c show ?thesis by blast
qed

end
