(* ===== verification/Amalgam_Replay.thy ===== *)
theory Amalgam_Replay
  imports Amalgam_Commit_Facts
begin

text \<open>
  \<open>cache/recovery.rs\<close>: the replay of one queued mutation against the second level and the backplane.
  The ticket comes from the recovery queue of Amalgam_Recovery, the writes are those of the commit
  pipeline. The acquisition of a lease, the reconciliation of markers and the replay of marker work
  (\<open>cache/markers.rs\<close>) are parameters. The lemmas show that queued work never overwrites a later mutation of
  its key, neither a local one nor a newer value another node wrote, and that an acknowledged replay wrote exactly the
  captured mutation.
\<close>

record ('v, 'l, 'b) replay_env =
  rp_defaults :: entry_options
  rp_lease :: "(lease_error + 'l option) option"
  rp_reconcile :: "nat \<Rightarrow> tag list \<Rightarrow> 'v worker \<Rightarrow> 'v worker \<times> cache_error option"
  rp_marker :: "replay_ticket \<Rightarrow> ('v, 'b) site \<Rightarrow> ('v, 'b, replay_outcome) site_result"

section \<open>Admission\<close>

definition replay_admitted :: "'v cache_config \<Rightarrow> ('v, 'l, 'b) commit_env \<Rightarrow> nat \<Rightarrow> 'v worker \<Rightarrow> 'v worker \<times> bool" where
  "replay_admitted cfg env n w =
     (let latest = re_health (ce_reads env) n
      in (ensure_health cfg latest (re_instant (ce_reads env) n) w, case latest of None \<Rightarrow> True | Some st \<Rightarrow> is_connected st))"

definition still_current :: "string \<Rightarrow> replay_ticket \<Rightarrow> 'v worker \<Rightarrow> bool" where
  "still_current key t w =
     (case wk_recovery w of
        None \<Rightarrow> False
      | Some service \<Rightarrow> ticket_is_current (\<lambda>f. kl_generation (worker_lane key w) = fence_generation f) t service)"

text \<open>The two checks that precede every stage: \<open>None\<close> lets the stage run.\<close>

definition replay_gate ::
  "'v cache_config \<Rightarrow> ('v, 'l, 'b) commit_env \<Rightarrow> nat \<Rightarrow> string \<Rightarrow> replay_ticket \<Rightarrow> ('v, 'b) site \<Rightarrow> ('v, 'b) site \<times> replay_outcome option" where
  "replay_gate cfg env n key t s =
     (if \<not> still_current key t (sv_worker s) then (s, Some ReplaySuperseded)
      else let (w, ok) = replay_admitted cfg env n (sv_worker s)
           in (s\<lparr>sv_worker := w\<rparr>, if ok then None else Some ReplayPaused))"

section \<open>Stages\<close>

definition legacy_set ::
  "'v cache_config \<Rightarrow> ('v, 'l, 'b) commit_env \<Rightarrow> nat \<Rightarrow> string \<Rightarrow> entry_options \<Rightarrow> ('v, 'b) site \<Rightarrow> ('v, 'b, unit) site_result" where
  "legacy_set cfg env n key opts s =
     (let w = sv_worker s; (m, found) = store_read (wk_ep w) (re_instant (ce_reads env) n) key (Some (ce_now env n)) (wk_memory w);
          s = s\<lparr>sv_worker := w\<lparr>wk_memory := m\<rparr>\<rparr>
      in case found of
           None \<Rightarrow> (s, Inr ())
         | Some a \<Rightarrow>
             (case snapshot_from_entry_with_options (arc_entry a) opts (md_inserted_at (en_meta (arc_entry a))) of
                Inl er \<Rightarrow> (s, Inl er)
              | Inr snap \<Rightarrow>
                  (case ce_encode env n snap of
                     Inl er \<Rightarrow> (s, Inl er)
                   | Inr bytes \<Rightarrow>
                       let s = ce_wait env n s;
                           (b, r) = ce_plain env n (BackendSet (l2_text cfg key) bytes (Some (snapshot_backend_ttl_at (ce_now env (n + 1)) snap))) (sv_backend s)
                       in (s\<lparr>sv_backend := b\<rparr>, r))))"

definition replay_legacy ::
  "'v cache_config \<Rightarrow> ('v, 'l, 'b) commit_env \<Rightarrow> nat \<Rightarrow> recovery_item \<Rightarrow> entry_options \<Rightarrow> ('v, 'b) site \<Rightarrow> ('v, 'b, unit) site_result" where
  "replay_legacy cfg env n item opts s =
     (if \<not> cc_hybrid cfg then (s, Inr ())
      else case item_action item of
             ActionSet \<Rightarrow> legacy_set cfg env n (item_key item) opts s
           | ActionRemove \<Rightarrow>
               (let s = ce_wait env n s; (b, r) = ce_plain env n (BackendRemove (l2_text cfg (item_key item))) (sv_backend s)
                in (s\<lparr>sv_backend := b\<rparr>, r))
           | ActionExpire \<Rightarrow> (s, Inr ()))"

definition mutation_of :: "pending_mutation \<Rightarrow> data_mutation option" where
  "mutation_of pending = (case pending of Commit m _ \<Rightarrow> Some m | FencedCommit m _ \<Rightarrow> Some m | _ \<Rightarrow> None)"

fun mutation_bytes :: "data_mutation \<Rightarrow> string option" where
  "mutation_bytes (MutSet bytes _) = Some bytes"
| "mutation_bytes (MutExpire bytes _) = Some bytes"
| "mutation_bytes MutRemove = None"

definition replay_source :: "('v, 'l, 'b) commit_env \<Rightarrow> nat \<Rightarrow> pending_mutation \<Rightarrow> cache_error + 'v entry option" where
  "replay_source env n pending =
     (case Option.bind (mutation_of pending) mutation_bytes of
        None \<Rightarrow> Inr None
      | Some bytes \<Rightarrow>
          (case ce_decode env n bytes of
             Inl er \<Rightarrow> Inl er
           | Inr snap \<Rightarrow> (case snapshot_try_into_entry (ce_now env n) snap of Inl er \<Rightarrow> Inl er | Inr e \<Rightarrow> Inr (Some e))))"

text \<open>Whether the second level holds a value created after the queued mutation.\<close>

definition newer_remote :: "'v cache_config \<Rightarrow> ('v, 'l, 'b) commit_env \<Rightarrow> nat \<Rightarrow> string \<Rightarrow> timestamp \<Rightarrow> 'b \<Rightarrow> cache_error + bool" where
  "newer_remote cfg env n key t b =
     (case ce_fetch env n (l2_text cfg key) b of
        Inl er \<Rightarrow> Inl er
      | Inr None \<Rightarrow> Inr False
      | Inr (Some bytes) \<Rightarrow>
          (case ce_decode env n bytes of Inl er \<Rightarrow> Inl er | Inr snap \<Rightarrow> Inr (de_created_ticks (ds_entry snap) > t)))"

definition reconcile_replay ::
  "'v cache_config \<Rightarrow> ('v, 'l, 'b) commit_env \<Rightarrow> ('v, 'l, 'b) replay_env \<Rightarrow> nat \<Rightarrow> recovery_item \<Rightarrow> pending_mutation \<Rightarrow> ('v, 'b) site
   \<Rightarrow> ('v, 'b, replay_outcome) site_result" where
  "reconcile_replay cfg env rp n item pending s =
     (if \<not> cc_hybrid cfg then (s, Inr ReplayApplied)
      else let s = ce_wait env n s
           in case newer_remote cfg env n (item_key item) (item_timestamp item) (sv_backend s) of
                Inl er \<Rightarrow> (s, Inl er)
              | Inr True \<Rightarrow> (s, Inr ReplaySuperseded)
              | Inr False \<Rightarrow>
                  (case replay_source env (n + 1) pending of
                     Inl er \<Rightarrow> (s, Inl er)
                   | Inr source \<Rightarrow>
                       (case rp_reconcile rp n (case source of None \<Rightarrow> [] | Some e \<Rightarrow> md_tags (en_meta e)) (sv_worker s) of
                          (w, Some er) \<Rightarrow> (s\<lparr>sv_worker := w\<rparr>, Inl er)
                        | (w, None) \<Rightarrow>
                            (s\<lparr>sv_worker := w\<rparr>,
                             Inr (if (case source of None \<Rightarrow> False | Some e \<Rightarrow> worker_tags cfg e w \<noteq> Valid) then ReplaySuperseded else ReplayApplied)))))"

definition expire_current ::
  "'v cache_config \<Rightarrow> ('v, 'l, 'b) commit_env \<Rightarrow> nat \<Rightarrow> string \<Rightarrow> timestamp \<Rightarrow> ('v, 'b) site \<Rightarrow> ('v, 'b, replay_outcome) site_result" where
  "expire_current cfg env n key logical s =
     (if \<not> cc_hybrid cfg then (s, Inr ReplayApplied)
      else let s = ce_wait env n s
           in case ce_fetch env n (l2_text cfg key) (sv_backend s) of
                Inl er \<Rightarrow> (s, Inl er)
              | Inr None \<Rightarrow> (s, Inr ReplayApplied)
              | Inr (Some bytes) \<Rightarrow>
                  (case ce_decode env n bytes of
                     Inl er \<Rightarrow> (s, Inl er)
                   | Inr snap \<Rightarrow>
                       if de_created_ticks (ds_entry snap) > logical then (s, Inr ReplaySuperseded)
                       else (case expired_snapshot logical snap of
                               Inl er \<Rightarrow> (s, Inl er)
                             | Inr expired \<Rightarrow>
                                 (case ce_encode env n expired of
                                    Inl er \<Rightarrow> (s, Inl er)
                                  | Inr out \<Rightarrow>
                                      (case write_data cfg env (n + 1) key (MutExpire out (de_physical_ticks (ds_entry expired))) None s of
                                         (s, Inl er) \<Rightarrow> (s, Inl er)
                                       | (s, Inr _) \<Rightarrow> (s, Inr ReplayApplied))))))"

definition advance_stage :: "replay_ticket \<Rightarrow> backplane_command option \<Rightarrow> ('v, 'b) site \<Rightarrow> ('v, 'b) site" where
  "advance_stage t command s =
     (if command = None then s
      else on_worker (\<lambda>w. w\<lparr>wk_recovery := map_option (fst \<circ> notification_stage t) (wk_recovery w)\<rparr>) s)"

text \<open>The data stage: an outcome that ends the replay (\<open>Inl\<close>), or the notification that is still due.\<close>

definition replay_stage ::
  "'v cache_config \<Rightarrow> ('v, 'l, 'b) commit_env \<Rightarrow> ('v, 'l, 'b) replay_env \<Rightarrow> nat \<Rightarrow> replay_ticket \<Rightarrow> recovery_item \<Rightarrow> pending_mutation
   \<Rightarrow> 'l flight_guard option \<Rightarrow> ('v, 'b) site \<Rightarrow> ('v, 'b, replay_outcome + backplane_command option) site_result" where
  "replay_stage cfg env rp n t item pending flight s =
     (case pending of
        Legacy \<Rightarrow>
          (case replay_legacy cfg env n item (rp_defaults rp) s of
             (s, Inl er) \<Rightarrow> (s, Inl er)
           | (s, Inr _) \<Rightarrow> (s, Inr (Inr None)))
      | Notify c \<Rightarrow> (s, Inr (Inr (Some c)))
      | ColdExpire logical command \<Rightarrow>
          (case expire_current cfg env n (item_key item) logical s of
             (s, Inl er) \<Rightarrow> (s, Inl er)
           | (s, Inr out) \<Rightarrow> if out \<noteq> ReplayApplied then (s, Inr (Inl out)) else (advance_stage t command s, Inr (Inr command)))
      | Commit m command \<Rightarrow>
          if mutation_remaining_ttl m (ce_now env n) = Some 0 then (s, Inr (Inl ReplayExpired))
          else (case write_data cfg env (n + 1) (item_key item) m flight s of
                  (s, Inl er) \<Rightarrow> (s, Inl er)
                | (s, Inr _) \<Rightarrow> (advance_stage t command s, Inr (Inr command)))
      | FencedCommit m command \<Rightarrow>
          if mutation_remaining_ttl m (ce_now env n) = Some 0 then (s, Inr (Inl ReplayExpired))
          else (case write_data cfg env (n + 1) (item_key item) m flight s of
                  (s, Inl er) \<Rightarrow> (s, Inl er)
                | (s, Inr _) \<Rightarrow> (advance_stage t command s, Inr (Inr command))))"

definition replay_notify ::
  "'v cache_config \<Rightarrow> ('v, 'l, 'b) commit_env \<Rightarrow> nat \<Rightarrow> backplane_command option \<Rightarrow> ('v, 'b) site \<Rightarrow> ('v, 'b, replay_outcome) site_result" where
  "replay_notify cfg env n command s =
     (case (if cc_backplane cfg then command else None) of
        None \<Rightarrow> (s, Inr ReplayApplied)
      | Some c \<Rightarrow>
          let s = ce_wait env n s
          in (case ce_publish env n c of
                Inl er \<Rightarrow> (s, Inl er)
              | Inr _ \<Rightarrow> (on_worker (close_circuit BackplaneCircuit) (s\<lparr>sv_published := sv_published s @ [c]\<rparr>), Inr ReplayApplied)))"

section \<open>Replay of one ticket\<close>

text \<open>The lease of fenced work is acquired before the lane.\<close>

definition replay_flight :: "('v, 'l, 'b) replay_env \<Rightarrow> pending_mutation \<Rightarrow> cache_error + 'l flight_guard option" where
  "replay_flight rp pending =
     (case pending of
        FencedCommit _ _ \<Rightarrow>
          (case rp_lease rp of
             None \<Rightarrow> Inl (ErrLease UnsupportedFencing)
           | Some (Inl er) \<Rightarrow> Inl (ErrLease er)
           | Some (Inr None) \<Rightarrow> Inl (ErrLease AcquisitionTimeout)
           | Some (Inr (Some l)) \<Rightarrow> Inr (Some \<lparr>fg_local = ReplayOnly, fg_lease = ClusterParticipation_new (Some l) FencedPolicy\<rparr>))
      | _ \<Rightarrow> Inr None)"

definition replay_locked ::
  "'v cache_config \<Rightarrow> ('v, 'l, 'b) commit_env \<Rightarrow> ('v, 'l, 'b) replay_env \<Rightarrow> replay_ticket \<Rightarrow> recovery_item \<Rightarrow> pending_mutation
   \<Rightarrow> 'l flight_guard option \<Rightarrow> ('v, 'b) site \<Rightarrow> ('v, 'b, replay_outcome) site_result" where
  "replay_locked cfg env rp t item pending flight s =
     (let key = item_key item in
      case replay_gate cfg env 1 key t s of
        (s, Some out) \<Rightarrow> (s, Inr out)
      | (s, None) \<Rightarrow>
          (case reconcile_replay cfg env rp 2 item pending s of
             (s, Inl er) \<Rightarrow> (s, Inl er)
           | (s, Inr out) \<Rightarrow>
               if out \<noteq> ReplayApplied then (s, Inr out)
               else (case replay_gate cfg env 4 key t s of
                       (s, Some out) \<Rightarrow> (s, Inr out)
                     | (s, None) \<Rightarrow>
                         (case replay_stage cfg env rp 5 t item pending flight s of
                            (s, Inl er) \<Rightarrow> (s, Inl er)
                          | (s, Inr (Inl out)) \<Rightarrow> (s, Inr out)
                          | (s, Inr (Inr command)) \<Rightarrow>
                              (case replay_gate cfg env 8 key t s of
                                 (s, Some out) \<Rightarrow> (s, Inr out)
                               | (s, None) \<Rightarrow> replay_notify cfg env 9 command s)))))"

definition replay_owned ::
  "'v cache_config \<Rightarrow> ('v, 'l, 'b) commit_env \<Rightarrow> ('v, 'l, 'b) replay_env \<Rightarrow> replay_ticket \<Rightarrow> ('v, 'b) site \<Rightarrow> ('v, 'b, replay_outcome) site_result" where
  "replay_owned cfg env rp t s =
     (if wk_recovery (sv_worker s) = None then (s, Inr ReplaySuperseded)
      else let (w, ok) = replay_admitted cfg env 0 (sv_worker s); s = s\<lparr>sv_worker := w\<rparr>
           in if \<not> ok then (s, Inr ReplayPaused)
              else case ticket_work t of
                     DataWork item pending \<Rightarrow>
                       (case replay_flight rp pending of
                          Inl er \<Rightarrow> (s, Inl er)
                        | Inr flight \<Rightarrow>
                            let (s, r) = replay_locked cfg env rp t item pending flight (lock_lane (item_key item) (ce_wait env 0 s))
                            in (unlock_lane (item_key item) s, r))
                   | _ \<Rightarrow> rp_marker rp t s)"

section \<open>Facts\<close>

lemma health_frames [simp]:
  "wk_lanes (ensure_health cfg latest inow w) = wk_lanes w" "wk_locked (ensure_health cfg latest inow w) = wk_locked w"
  "worker_lane key (ensure_health cfg latest inow w) = worker_lane key w"
  by (simp_all add: ensure_health_def worker_lane_def Let_def split: option.splits)

lemma replay_gate_None:
  assumes "replay_gate cfg env n key t s = (s', None)"
  shows "still_current key t (sv_worker s)" "s' = s\<lparr>sv_worker := fst (replay_admitted cfg env n (sv_worker s))\<rparr>"
  using assms by (auto simp: replay_gate_def Let_def split: if_splits prod.splits)

lemma replay_gate_Some: "replay_gate cfg env n key t s = (s', Some out) \<Longrightarrow> out \<noteq> ReplayApplied"
  by (auto simp: replay_gate_def Let_def split: if_splits prod.splits)

lemma outdated_not_current:
  assumes "ticket_fence t = Some f" "fence_generation f < kl_generation (worker_lane key w)"
  shows "\<not> still_current key t w"
  using assms by (auto simp: still_current_def ticket_is_current_def fence_is_current_def split: option.splits)

text \<open>
  C34. Replay after a mutation: work that was queued before a set, removal or expiration of its key
  completed is never replayed after it: the replay reports it as superseded (or paused, or fails to acquire a
  lease), writes nothing to the second level and notifies nobody.
\<close>
theorem superseded_work_not_replayed:
  assumes "lane_rely env key" and "WritePlan_select cfg (ce_locker env) = GeneralPlan"
    and "ticket_work t = DataWork item pending" and "item_key item = key" and "ticket_fence t = Some f" and "fence_generation f \<le> key_generation key s0"
    and "cache_set cfg env key v opts tags s0 = (s1, Inr out) \<or> key_mutation cfg env key kind opts s0 = (s1, Inr out)"
    and "key_generation key s1 \<le> key_generation key s" and "lane_rely later key" and "replay_owned cfg later rp t s = (s', r)"
  shows "(r = Inr ReplaySuperseded \<or> r = Inr ReplayPaused \<or> (\<exists>er. r = Inl (ErrLease er)))
    \<and> (\<exists>left. (left = s \<or> (\<exists>x. left = ce_wait later 0 x \<and> sv_backend x = sv_backend s \<and> sv_published x = sv_published s))
         \<and> sv_backend s' = sv_backend left \<and> sv_published s' = sv_published left)"
proof -
  obtain w ok where a: "replay_admitted cfg later 0 (sv_worker s) = (w, ok)" by fastforce
  have "fence_generation f < key_generation key (s\<lparr>sv_worker := w\<rparr>)"
    using mutation_grows [OF assms(1,2,7)] assms(6,8) a by (auto simp: replay_admitted_def Let_def)
  also have "\<dots> \<le> key_generation key (ce_wait later 0 (s\<lparr>sv_worker := w\<rparr>))" by (rule lane_relyD [OF assms(9)])
  finally have nc: "\<not> still_current key t (sv_worker (lock_lane key (ce_wait later 0 (s\<lparr>sv_worker := w\<rparr>))))"
    by (intro outdated_not_current [OF assms(5)]) simp
  have lease: "\<exists>le. er = ErrLease le" if "replay_flight rp pending = Inl er" for er
    using that by (auto simp: replay_flight_def split: pending_mutation.splits option.splits sum.splits)
  show ?thesis
  proof (cases "wk_recovery (sv_worker s) = None \<or> \<not> ok")
    case True
    then have "sv_backend s' = sv_backend s \<and> sv_published s' = sv_published s \<and> (r = Inr ReplaySuperseded \<or> r = Inr ReplayPaused)"
      using assms(10) by (auto simp: replay_owned_def a Let_def split: if_splits)
    then show ?thesis by (intro conjI exI [of _ s]) auto
  next
    case ok: False
    show ?thesis
    proof (cases "replay_flight rp pending")
      case (Inl er)
      then have "sv_backend s' = sv_backend s \<and> sv_published s' = sv_published s \<and> r = Inl er"
        using ok assms(10) by (auto simp: replay_owned_def a assms(3) Let_def)
      then show ?thesis using lease [OF Inl] by (intro conjI exI [of _ s]) auto
    next
      case (Inr flight)
      have "replay_locked cfg later rp t item pending flight (lock_lane key (ce_wait later 0 (s\<lparr>sv_worker := w\<rparr>)))
          = (lock_lane key (ce_wait later 0 (s\<lparr>sv_worker := w\<rparr>)), Inr ReplaySuperseded)"
        using nc by (simp add: replay_locked_def replay_gate_def assms(4) Let_def)
      then have "s' = unlock_lane key (lock_lane key (ce_wait later 0 (s\<lparr>sv_worker := w\<rparr>)))" "r = Inr ReplaySuperseded"
        using ok Inr assms(10) by (auto simp: replay_owned_def a assms(3,4) Let_def)
      moreover have "\<exists>x. ce_wait later 0 (s\<lparr>sv_worker := w\<rparr>) = ce_wait later 0 x \<and> sv_backend x = sv_backend s \<and> sv_published x = sv_published s"
        by (rule exI [of _ "s\<lparr>sv_worker := w\<rparr>"]) simp
      ultimately show ?thesis by - (rule conjI, simp, rule exI [of _ "ce_wait later 0 (s\<lparr>sv_worker := w\<rparr>)"], simp)
    qed
  qed
qed

text \<open>
  C35. Acknowledged replays: when the replay of a queued write is reported as applied, the second level held no value
  created after the mutation when it was looked at, the ticket was still the current one of its key when
  the write was admitted and again before the notification, the write was exactly the captured
  mutation (under a fresh fenced lease if the original write was fenced), and the captured notification, if a
  backplane is configured, is the last command published.
\<close>
theorem replay_applies_captured_work:
  assumes "ticket_work t = DataWork item pending" and "pending = Commit m command \<or> pending = FencedCommit m command"
    and "cc_hybrid cfg" and "replay_owned cfg env rp t s = (s', Inr ReplayApplied)"
  shows "\<exists>seen y z flight outcome. newer_remote cfg env 2 (item_key item) (item_timestamp item) seen = Inr False
    \<and> still_current (item_key item) t (sv_worker y)
    \<and> write_data cfg env 6 (item_key item) m flight (y\<lparr>sv_worker := fst (replay_admitted cfg env 4 (sv_worker y))\<rparr>) = (z, Inr outcome)
    \<and> (pending = FencedCommit m command \<longrightarrow> fenced_flight flight)
    \<and> still_current (item_key item) t (sv_worker (advance_stage t command z))
    \<and> (\<forall>c. cc_backplane cfg \<and> command = Some c \<longrightarrow> (\<exists>before. sv_published s' = before @ [c]))"
proof -
  let ?key = "item_key item"
  obtain w where a: "replay_admitted cfg env 0 (sv_worker s) = (w, True)" "wk_recovery (sv_worker s) \<noteq> None"
    using assms(4) by (cases "replay_admitted cfg env 0 (sv_worker s)") (auto simp: replay_owned_def Let_def split: if_splits)
  let ?l = "lock_lane ?key (ce_wait env 0 (s\<lparr>sv_worker := w\<rparr>))"
  obtain flight s9 where f: "replay_flight rp pending = Inr flight" and l: "replay_locked cfg env rp t item pending flight ?l = (s9, Inr ReplayApplied)"
    and s': "s' = unlock_lane ?key s9"
    using assms(4) a by (auto simp: replay_owned_def assms(1) Let_def split: sum.splits prod.splits)
  obtain s1 where g1: "replay_gate cfg env 1 ?key t ?l = (s1, None)"
    using l replay_gate_Some [of cfg env 1 ?key t ?l]
    by (cases "replay_gate cfg env 1 ?key t ?l"; cases "snd (replay_gate cfg env 1 ?key t ?l)") (auto simp: replay_locked_def Let_def)
  obtain s2 where rc: "reconcile_replay cfg env rp 2 item pending s1 = (s2, Inr ReplayApplied)"
    using l g1 by (cases "reconcile_replay cfg env rp 2 item pending s1") (auto simp: replay_locked_def Let_def split: sum.splits if_splits)
  obtain s3 where g2: "replay_gate cfg env 4 ?key t s2 = (s3, None)"
    using l g1 rc replay_gate_Some [of cfg env 4 ?key t s2]
    by (cases "replay_gate cfg env 4 ?key t s2"; cases "snd (replay_gate cfg env 4 ?key t s2)") (auto simp: replay_locked_def Let_def)
  obtain z out where wd: "write_data cfg env 6 ?key m flight s3 = (z, Inr out)"
    and st: "replay_stage cfg env rp 5 t item pending flight s3 = (advance_stage t command z, Inr (Inr command))"
    using l g1 rc g2 assms(2) by (cases "write_data cfg env 6 ?key m flight s3")
      (auto simp: replay_locked_def replay_stage_def Let_def split: if_splits sum.splits)
  obtain s4 where g3: "replay_gate cfg env 8 ?key t (advance_stage t command z) = (s4, None)" and nf: "replay_notify cfg env 9 command s4 = (s9, Inr ReplayApplied)"
    using l g1 rc g2 st replay_gate_Some [of cfg env 8 ?key t "advance_stage t command z"]
    by (cases "replay_gate cfg env 8 ?key t (advance_stage t command z)"; cases "snd (replay_gate cfg env 8 ?key t (advance_stage t command z))")
      (auto simp: replay_locked_def Let_def)
  have "newer_remote cfg env 2 ?key (item_timestamp item) (sv_backend (ce_wait env 2 s1)) = Inr False"
    using rc assms(3) by (auto simp: reconcile_replay_def Let_def split: sum.splits bool.splits prod.splits option.splits)
  moreover note replay_gate_None [OF g2]
  moreover have "pending = FencedCommit m command \<Longrightarrow> fenced_flight flight"
    using f by (auto simp: replay_flight_def fenced_flight_def is_fenced_def ClusterParticipation_new_def split: option.splits sum.splits)
  moreover have "still_current ?key t (sv_worker (advance_stage t command z))" using g3 by (auto simp: replay_gate_def split: if_splits)
  moreover have "\<exists>before. sv_published s' = before @ [c]" if "cc_backplane cfg" "command = Some c" for c
    using nf that by (auto simp: replay_notify_def s' Let_def split: sum.splits)
  ultimately show ?thesis
    using wd by - (rule exI [of _ "sv_backend (ce_wait env 2 s1)"], rule exI [of _ s2], rule exI [of _ z], rule exI [of _ flight], rule exI [of _ out], auto)
qed

section \<open>A small replay\<close>

definition demo_removal_ticket :: "nat \<Rightarrow> replay_ticket" where
  "demo_removal_ticket g = \<lparr>ticket_id = 1, ticket_work = DataWork \<lparr>item_key = ''k'', item_action = ActionRemove, item_timestamp = 101, item_expires_at = 1000,
     item_remaining_retries = None\<rparr> (Commit MutRemove None), ticket_generation = g, ticket_fence = Some (Fence 0 g)\<rparr>"

definition demo_replay :: "(nat, nat, byte_store \<times> lease_table) replay_env" where
  "demo_replay = \<lparr>rp_defaults = EntryOptions_new 500, rp_lease = None, rp_reconcile = (\<lambda>_ _ w. (w, None)), rp_marker = (\<lambda>_ s. (s, Inr ReplayApplied))\<rparr>"

definition with_queue :: "replay_ticket \<Rightarrow> ('v, 'b) site \<Rightarrow> ('v, 'b) site" where
  "with_queue t = on_worker (\<lambda>w. w\<lparr>wk_recovery := Some (demo_service\<lparr>rs_entries := [(DataKey ''k'', \<lparr>q_ticket = t, q_remaining = None, q_state = InFlight\<rparr>)]\<rparr>)\<rparr>)"

theorem superseded_work_not_replayed_witness:
  "\<exists>s1 out. key_mutation demo_cache demo_pipeline ''k'' KeyRemove (EntryOptions_new 500) demo_site = (s1, Inr out)
    \<and> snd (replay_owned demo_cache demo_pipeline demo_replay (demo_removal_ticket 0) (with_queue (demo_removal_ticket 0) s1)) \<noteq> Inr ReplayApplied"
proof -
  obtain s1 out where m: "key_mutation demo_cache demo_pipeline ''k'' KeyRemove (EntryOptions_new 500) demo_site = (s1, Inr out)"
    using demo_removal by blast
  have rely: "lane_rely demo_pipeline ''k''" by (simp add: lane_rely_def)
  let ?t = "demo_removal_ticket 0"
  obtain s' r where r: "replay_owned demo_cache demo_pipeline demo_replay ?t (with_queue ?t s1) = (s', r)" by fastforce
  have t: "ticket_work ?t = DataWork \<lparr>item_key = ''k'', item_action = ActionRemove, item_timestamp = 101, item_expires_at = 1000, item_remaining_retries = None\<rparr> (Commit MutRemove None)"
    "ticket_fence ?t = Some (Fence 0 0)" by (simp_all add: demo_removal_ticket_def)
  have g: "key_generation ''k'' s1 \<le> key_generation ''k'' (with_queue ?t s1)" by (simp add: with_queue_def)
  from superseded_work_not_replayed [OF rely _ t(1) _ t(2) _ disjI2 [OF m] g rely r] have "r \<noteq> Inr ReplayApplied" by auto
  with m r show ?thesis by fastforce
qed

theorem replay_applies_captured_work_witness:
  "\<exists>s'. replay_owned demo_cache demo_pipeline demo_replay (demo_removal_ticket 1) (with_queue (demo_removal_ticket 1) demo_moved) = (s', Inr ReplayApplied)
    \<and> (\<exists>y z flight outcome. write_data demo_cache demo_pipeline 6 ''k'' MutRemove flight y = (z, Inr outcome))"
proof -
  let ?t = "demo_removal_ticket 1"
  have "\<exists>s'. replay_owned demo_cache demo_pipeline demo_replay ?t (with_queue ?t demo_moved) = (s', Inr ReplayApplied)"
    by (simp add: replay_owned_def replay_locked_def replay_gate_def replay_admitted_def replay_flight_def reconcile_replay_def newer_remote_def replay_source_def
        mutation_of_def replay_stage_def replay_notify_def advance_stage_def still_current_def ticket_is_current_def fence_is_current_def owned_def
        demo_replay_def demo_removal_ticket_def with_queue_def ensure_health_def quiet_read_def demo_pipeline_eval demo_pipeline_def)
  then obtain s' where r: "replay_owned demo_cache demo_pipeline demo_replay ?t (with_queue ?t demo_moved) = (s', Inr ReplayApplied)" by blast
  have t: "ticket_work ?t = DataWork \<lparr>item_key = ''k'', item_action = ActionRemove, item_timestamp = 101, item_expires_at = 1000, item_remaining_retries = None\<rparr> (Commit MutRemove None)"
    by (simp add: demo_removal_ticket_def)
  from replay_applies_captured_work [OF t disjI1 [OF refl] _ r] r show ?thesis by auto
qed

end
