(* ===== verification/Amalgam_Marker_Facts.thy ===== *)
theory Amalgam_Marker_Facts
  imports Amalgam_Marker_Orders Amalgam_Replay Amalgam_Stores
begin

text \<open>
  What an invalidation guarantees: the registry of a cache only ever moves forward, an invalidation that
  returned is effective for every later read of its cache, an acknowledged one for every cache
  that reconciles with the same store, and an unacknowledged one is queued or reported and not
  announced to peers.
\<close>

section \<open>The registry only moves forward\<close>

definition tags_le :: "'v worker \<Rightarrow> 'v worker \<Rightarrow> bool" where
  "tags_le w w' \<longleftrightarrow> (\<exists>es. wk_tags w' = registry_run (wk_tags w) es)"

lemma tags_le_same: "wk_tags w' = wk_tags w \<Longrightarrow> tags_le w w'"
  by (auto simp: tags_le_def intro: exI [of _ "[]"])

lemma tags_le_refl [simp]: "tags_le w w"
  by (simp add: tags_le_same)

lemma registry_run_append: "registry_run r (es @ es') = registry_run (registry_run r es) es'"
  by (simp add: registry_run_def)

lemma tags_le_trans [trans]: "tags_le a b \<Longrightarrow> tags_le b c \<Longrightarrow> tags_le a c"
  by (auto simp: tags_le_def registry_run_append [symmetric])

lemma tags_le_advance: "wk_tags w' = fst (registry_advance k v (wk_tags w)) \<Longrightarrow> tags_le w w'"
  by (auto simp: tags_le_def registry_run_def intro!: exI [of _ "[(k, v)]"])

lemma tags_le_apply [simp]: "tags_le w (apply_marker m w)"
  by (rule tags_le_advance [where k = "marker_kind_of m" and v = "marker_version_of m"]) (simp add: apply_marker_def)

lemma tags_le_accept [simp]: "tags_le w (accept_marker_observation kind obs w)"
  by (simp add: accept_marker_observation_def split: marker_presence.split)

lemma tags_le_fold_apply [simp]: "tags_le w (fold apply_marker ms w)"
proof (induction ms arbitrary: w)
  case (Cons m ms)
  show ?case using tags_le_trans [OF tags_le_apply Cons.IH] by simp
qed simp

lemma tags_le_frames [simp]:
  "tags_le w (w'\<lparr>wk_observed := m\<rparr>) = tags_le w w'" "tags_le w (w'\<lparr>wk_clears := c\<rparr>) = tags_le w w'"
  "tags_le w (w'\<lparr>wk_memory := mm\<rparr>) = tags_le w w'" "tags_le w (w'\<lparr>wk_recovery := r\<rparr>) = tags_le w w'"
  "tags_le w (w'\<lparr>wk_locked := l\<rparr>) = tags_le w w'"
  "tags_le w (emit e w') = tags_le w w'" "tags_le w (failure k t er w') = tags_le w w'"
  "tags_le w (close_circuit c' w') = tags_le w w'" "tags_le w (trip_circuit c' t w') = tags_le w w'"
  "tags_le w (close_cache w') = tags_le w w'" "tags_le w (invalidate_memory_layers cfg w') = tags_le w w'"
  by (simp_all add: tags_le_def)

lemma tags_le_health [simp]: "tags_le w (ensure_health cfg latest inow w)"
  by (rule tags_le_same) (simp add: ensure_health_def Let_def split: option.split)

definition marker_rely :: "('v, 'l, 'b) marker_env \<Rightarrow> bool" where
  "marker_rely me \<longleftrightarrow> (\<forall>n w. tags_le w (re_wait (ce_reads (me_commit me)) n w))
     \<and> (\<forall>n s. tags_le (sv_worker s) (sv_worker (ce_wait (me_commit me) n s)))
     \<and> (\<forall>n f w. f \<in> set (me_contention me n) \<longrightarrow> tags_le w (f w))"

lemma marker_relyD:
  assumes "marker_rely me"
  shows "tags_le w (re_wait (ce_reads (me_commit me)) n w)" "tags_le (sv_worker s) (sv_worker (ce_wait (me_commit me) n s))"
    "f \<in> set (me_contention me n) \<Longrightarrow> tags_le w (f w)"
  using assms by (auto simp: marker_rely_def)

interpretation tags: worker_order tags_le
  by unfold_locales (auto intro: tags_le_trans)

lemma marker_rely_order: "marker_rely me \<Longrightarrow> order_rely tags_le me"
  by (simp add: marker_rely_def order_rely_def)

lemmas observations_store_tags = tags.observations_store_le [OF marker_rely_order]
lemmas control_snapshot_tags = tags.control_snapshot_le [OF marker_rely_order]

lemma seed_marker_tags:
  assumes "marker_rely me" "seed_marker cfg me n marker opts w = (w', r)"
  shows "tags_le w w'"
proof -
  have "tags_le w x" if "observations_store me n k obs opts now jitter stamp w = (x, r')" for x k obs now jitter stamp r'
    by (rule observations_store_tags [OF assms(1) that])
  moreover from this have "tags_le w (accept_marker_observation k' obs' x)"
    if "observations_store me n k obs opts now jitter stamp w = (x, r')" for x k obs now jitter stamp r' k' obs'
    using that tags_le_trans [OF _ tags_le_accept] by blast
  ultimately show ?thesis using assms(2)
    by (auto simp: seed_marker_def Let_def split: marker_read_policy.splits marker_access.splits sum.splits prod.splits if_splits)
qed

section \<open>Covered entries\<close>

lemma covers_tags_le: "registry_ok (wk_tags w) \<Longrightarrow> registry_covers (wk_tags w) k t \<Longrightarrow> tags_le w w' \<Longrightarrow> registry_covers (wk_tags w') k t"
  by (auto simp: tags_le_def registry_covers_kept)

lemma ok_tags_le: "registry_ok (wk_tags w) \<Longrightarrow> tags_le w w' \<Longrightarrow> registry_ok (wk_tags w')"
  by (auto simp: tags_le_def registry_ok_run)

text \<open>The verdict on an entry that a marker of the given kind covers.\<close>

fun kind_matches :: "marker_kind \<Rightarrow> tag list \<Rightarrow> bool" where
  "kind_matches (TagKind t) tags = (t \<in> set tags)"
| "kind_matches ClearRemove tags = True"
| "kind_matches ClearExpire tags = True"

lemma covered_verdict:
  assumes "registry_ok (wk_tags w)" "registry_covers (wk_tags w) kind (md_created (en_meta e))" "kind_matches kind (md_tags (en_meta e))"
    "\<not> cc_disable_tagging cfg"
  shows "worker_tags cfg e w \<noteq> Valid"
    "kind = ClearRemove \<or> (\<exists>t. kind = TagKind t) \<and> cc_remove_by_tag cfg = RemoveMatched \<Longrightarrow> worker_tags cfg e w = Remove"
  using assms unfolding worker_tags_def evaluate_eq [OF assms(1)]
  by (cases kind; auto simp: registry_covers_def state_covers_def verdict_of_def split: remove_by_tag_behavior.splits)+

lemma announce_marker_covers:
  assumes "marker_rely me" "registry_ok (wk_tags w)" "announce_marker cfg me n opts now kind w = (w', r)"
  shows "tags_le w w'" "\<And>t. t \<le> now \<Longrightarrow> registry_covers (wk_tags w') kind t"
proof -
  obtain tags outcome where adv: "registry_advance kind now (wk_tags w) = (tags, outcome)" by fastforce
  let ?w = "w\<lparr>wk_tags := tags\<rparr>"
  obtain w1 r1 where s1: "seed_marker cfg me n (outcome_marker outcome) opts ?w = (w1, r1)" by fastforce
  have w1: "tags_le ?w w1" by (rule seed_marker_tags [OF assms(1) s1])
  let ?w2 = "emit (marker_changed_event kind) (if kind = ClearRemove then clear_memory w1 else w1)"
  have seed: "tags_le w1 x" if "seed_marker cfg me m mk opts (clear_memory ?w2) = (x, r2)" for x r2 m mk
    using seed_marker_tags [OF assms(1) that] by (simp add: tags_le_def split: if_splits)
  have keep: "tags_le ?w ?w2" "tags_le ?w (clear_memory ?w2)" using w1 by simp_all
  have le: "tags_le ?w w'"
  proof (cases r1)
    case (Inl er)
    then show ?thesis using assms(3) w1 by (simp add: announce_marker_def adv s1 Let_def)
  next
    case (Inr u)
    then show ?thesis using assms(3) keep w1 seed tags_le_trans [OF w1]
      by (simp add: announce_marker_def adv s1 Let_def del: tags_le_frames split: sum.splits marker_advance_outcome.splits prod.splits)
  qed
  have first: "tags_le w ?w" by (rule tags_le_advance [where k = kind and v = now]) (simp add: adv)
  then show "tags_le w w'" using le tags_le_trans by blast
  fix t assume "t \<le> now"
  then have "registry_covers tags kind t" using registry.covers_adv [OF assms(2), of t now kind] by (simp add: adv)
  then show "registry_covers (wk_tags w') kind t"
    using covers_tags_le [of ?w kind t w'] ok_tags_le [OF assms(2) first] le by simp
qed

lemma announce_markers_covers:
  assumes "marker_rely me" "registry_ok (wk_tags w)" "announce_markers cfg me n opts now kinds w = (w', Inr commands)"
  shows "tags_le w w' \<and> (\<forall>kind\<in>set kinds. \<forall>t\<le>now. registry_covers (wk_tags w') kind t)"
  using assms(2,3)
proof (induction kinds arbitrary: n w commands)
  case (Cons kind kinds)
  let ?w = "re_wait (ce_reads (me_commit me)) n w"
  have w: "tags_le w ?w" by (rule marker_relyD(1) [OF assms(1)])
  obtain w1 cs rest where a: "announce_marker cfg me n opts now kind ?w = (w1, Inr cs)" and m: "announce_markers cfg me (n + 2) opts now kinds w1 = (w', Inr rest)"
    using Cons.prems(2) by (auto split: prod.splits sum.splits)
  note ok = ok_tags_le [OF Cons.prems(1) w]
  note one = announce_marker_covers [OF assms(1) ok a]
  have ok1: "registry_ok (wk_tags w1)" by (rule ok_tags_le [OF ok one(1)])
  note ih = Cons.IH [OF ok1 m]
  then have "tags_le w w'" using w one(1) tags_le_trans by blast
  moreover have "registry_covers (wk_tags w') kind t" if "t \<le> now" for t using covers_tags_le [OF ok1 one(2) [OF that]] ih by blast
  ultimately show ?case using ih by auto
qed simp

section \<open>The commit stages keep what was announced\<close>

abbreviation site_le :: "('v, 'b) site \<Rightarrow> ('v, 'b) site \<Rightarrow> bool" where
  "site_le s s' \<equiv> tags_le (sv_worker s) (sv_worker s')"

lemma queue_marker_tags: "queue_marker me n c stage w = (w', r) \<Longrightarrow> tags_le w w'"
  by (auto simp: queue_marker_def dest: tags.queued_work_le)

lemma queue_mutation_tags: "queue_marker_mutation me n c opts created w = (w', r) \<Longrightarrow> tags_le w w'"
  by (auto simp: queue_marker_mutation_def split: if_splits sum.splits dest: tags.queued_work_le)

lemma queue_notifications_tags: "queue_notifications me n cs w = (w', r) \<Longrightarrow> tags_le w w'"
proof (induction cs arbitrary: w)
  case (Cons c cs)
  then show ?case by (auto split: prod.splits sum.splits dest!: queue_marker_tags intro: tags_le_trans)
qed simp

lemma write_revision_tags:
  assumes "marker_rely me" "write_marker_revision me n scope kind snap opts s = (s', r)"
  shows "site_le s s'"
  using assms(2) marker_relyD(2) [OF assms(1), of s n]
  by (auto simp: write_marker_revision_def Let_def split: marker_access.splits prod.splits sum.splits)

lemma populate_each_tags:
  assumes "marker_rely me" "populate_each cfg me n cs opts created s = (s', r)"
  shows "site_le s s'"
  using assms(2)
proof (induction cs arbitrary: n s r)
  case (Cons c cs)
  obtain s1 r1 where p: "populate_marker_snapshot cfg me n c opts created OperationPolicy s = (s1, r1)" by fastforce
  have "site_le s s1" using p control_snapshot_tags [OF assms(1)]
    by (auto simp: populate_marker_snapshot_def Let_def split: if_splits)
  moreover have "site_le s1 s'" using Cons p by (auto simp: Let_def split: prod.splits sum.splits)
  ultimately show ?case by (rule tags_le_trans)
qed simp

lemma populate_tags:
  assumes "marker_rely me" "populate_marker_mutation cfg me n cs opts created durable s = (s', r)"
  shows "site_le s s'"
proof -
  obtain s1 os fault where e: "populate_each cfg me n cs opts created s = (s1, os, fault)" by (cases "populate_each cfg me n cs opts created s") auto
  note le = populate_each_tags [OF assms(1) e]
  have "tags_le (sv_worker s) x" if "queue_notifications me n cs (sv_worker s1) = (x, y)" for x y
    using le queue_notifications_tags [OF that] tags_le_trans by blast
  then show ?thesis using assms(2) le
    by (auto simp: populate_marker_mutation_def populate_marker_commands_def e split: if_splits option.splits prod.splits sum.splits)
qed

lemma accept_write_tags:
  assumes "marker_rely me" "accept_write cfg me n outcome opts w = (w', r)"
  shows "tags_le w w'"
proof -
  have one: "tags_le x y" if "seed_marker cfg me k m opts (apply_marker m' x) = (y, z)" for k m m' x y z
    using seed_marker_tags [OF assms(1) that] tags_le_trans [OF tags_le_apply] by blast
  obtain w1 r1 where s1: "seed_marker cfg me n (write_outcome_marker outcome) opts (apply_marker (write_outcome_marker outcome) w) = (w1, r1)" by fastforce
  have "tags_le w y" if "seed_marker cfg me k m opts (apply_marker m' w1) = (y, z)" for k m m' y z
    using one [OF s1] one [OF that] tags_le_trans by blast
  then show ?thesis using assms(2) one [OF s1]
    by (auto simp: accept_write_def s1 Let_def split: sum.splits marker_write_outcome.splits prod.splits)
qed

lemma durable_stage_tags:
  assumes "marker_rely me" "marker_durable_stage cfg me n c opts created s = (s', r)"
  shows "site_le s s'"
proof -
  have a: "tags_le (sv_worker s) y" if "write_marker_revision me n sc k snap opts s = (x, Inr out)" "accept_write cfg me n out opts (sv_worker x) = (y, z)"
    for sc k snap x out y z using write_revision_tags [OF assms(1) that(1)] accept_write_tags [OF assms(1) that(2)] tags_le_trans by blast
  have q: "tags_le (sv_worker s) y" if "write_marker_revision me n sc k snap opts s = (x, Inl er)" "queue_marker_mutation me n c opts created (sv_worker x) = (y, z)"
    for sc k snap x er y z using write_revision_tags [OF assms(1) that(1)] queue_mutation_tags [OF that(2)] tags_le_trans by blast
  show ?thesis using assms(2) a q
    by (cases "me_access me") (auto simp: marker_durable_stage_def split: if_splits prod.splits sum.splits)
qed

lemma publish_command_tags:
  assumes "marker_rely me" "publish_command cfg (me_commit me) n c s = (s', r)"
  shows "site_le s s'"
proof -
  obtain w ok where a: "circuit_admits BackplaneCircuit (ce_now (me_commit me) n) (sv_worker s) = (w, ok)" by fastforce
  have "tags_le (sv_worker s) w" by (rule tags_le_same) (rule circuit_admits_frames [OF a])
  moreover have "tags_le w (sv_worker (ce_wait (me_commit me) n (s\<lparr>sv_worker := w\<rparr>)))"
    using marker_relyD(2) [OF assms(1), of "s\<lparr>sv_worker := w\<rparr>" n] by simp
  ultimately show ?thesis using assms(2) tags_le_trans
    by (cases ok) (auto simp: publish_command_def a Let_def split: if_splits sum.splits)
qed

lemma publish_markers_tags:
  assumes "marker_rely me" "publish_markers cfg me n opts cs s = (s', r)"
  shows "site_le s s'"
  using assms(2)
proof (induction cs arbitrary: n s r)
  case (Cons c cs)
  obtain s1 r1 where p: "publish_command cfg (me_commit me) n (MarkerCmd c) s = (s1, r1)" by fastforce
  note le = publish_command_tags [OF assms(1) p]
  obtain s2 r2 where q: "(case r1 of Inr _ \<Rightarrow> (s1, Inr EffectApplied)
      | Inl er \<Rightarrow> (case queue_marker me n c NotifyOnly (failure invalidation_label (me_now me n) er (sv_worker s1)) of
           (w, Inl er') \<Rightarrow> (s1\<lparr>sv_worker := w\<rparr>, Inl er')
         | (w, Inr b) \<Rightarrow> (s1\<lparr>sv_worker := w\<rparr>, if opt_rethrow_backplane_exceptions opts then Inl er else Inr (failed_outcome b er)))) = (s2, r2)" by fastforce
  have "tags_le (sv_worker s1) x" if "queue_marker me n c NotifyOnly (failure invalidation_label t er (sv_worker s1)) = (x, y)" for t er x y
    using queue_marker_tags [OF that] by (simp add: tags_le_def)
  then have "site_le s1 s2" using q by (auto split: sum.splits prod.splits)
  moreover have "site_le s2 s'" using Cons p q by (auto simp: Let_def split: sum.splits prod.splits)
  ultimately show ?case using le tags_le_trans by blast
qed simp

lemma commit_marker_tags:
  assumes "marker_rely me" "commit_marker cfg me n c opts created s = (s', r)"
  shows "site_le s s'"
proof -
  let ?s = "ce_wait (me_commit me) n s"
  have w: "site_le s ?s" by (rule marker_relyD(2) [OF assms(1)])
  obtain s1 r1 where d: "marker_durable_stage cfg me (n + 1) c opts created ?s = (s1, r1)" by fastforce
  have s1: "site_le s s1" using w durable_stage_tags [OF assms(1) d] tags_le_trans by blast
  have p: "site_le s x" if "populate_marker_mutation cfg me m cs opts created durable s1 = (x, y)" for m cs durable x y
    using s1 populate_tags [OF assms(1) that] tags_le_trans by blast
  have "site_le x y" if "publish_stage cfg me m opts cs x = (y, z)" for m cs x y z
    using that by (auto simp: publish_stage_def split: if_splits prod.splits sum.splits dest: publish_markers_tags [OF assms(1)])
  then have "site_le s y" if "populate_marker_mutation cfg me m cs opts created durable s1 = (x, u)" "publish_stage cfg me k opts cs' x = (y, z)"
    for m cs durable x u k cs' y z using p [OF that(1)] that(2) tags_le_trans by blast
  then show ?thesis using assms(2) s1 p d
    by (auto simp: commit_marker_def Let_def split: sum.splits prod.splits)
qed

lemma commit_markers_tags:
  assumes "marker_rely me" "commit_markers cfg me n cs opts created s = (s', r)"
  shows "site_le s s'"
  using assms(2)
proof (induction cs arbitrary: n s r)
  case (Cons c cs)
  then show ?case by (auto split: prod.splits sum.splits dest!: commit_marker_tags [OF assms(1)] intro: tags_le_trans)
qed simp

lemma mutate_covers:
  assumes "marker_rely me" "registry_ok (wk_tags (sv_worker s))" "mutate_markers cfg me kinds options s = (s', Inr out)" "kind \<in> set kinds" "t \<le> me_now me 0"
  shows "registry_covers (wk_tags (sv_worker s')) kind t" "registry_ok (wk_tags (sv_worker s'))" "\<not> cc_disable_tagging cfg"
proof -
  obtain opts w commands r where a: "announce_markers cfg me 1 opts (me_now me 0) kinds (sv_worker s) = (w, Inr commands)"
    and c: "commit_markers cfg me (2 * length kinds + 1) commands opts (me_now me 0) (s\<lparr>sv_worker := w\<rparr>) = (s', r)" and enabled: "\<not> cc_disable_tagging cfg"
    using assms(3) by (auto simp: mutate_markers_def Let_def split: sum.splits if_splits prod.splits)
  note ann = announce_markers_covers [OF assms(1,2) a]
  have ok: "registry_ok (wk_tags w)" using ok_tags_le [OF assms(2)] ann by blast
  have le: "tags_le w (sv_worker s')" using commit_markers_tags [OF assms(1) c] by simp
  show "registry_ok (wk_tags (sv_worker s'))" by (rule ok_tags_le [OF ok le])
  show "registry_covers (wk_tags (sv_worker s')) kind t" using covers_tags_le [OF ok _ le] ann assms(4,5) by blast
  show "\<not> cc_disable_tagging cfg" by (rule enabled)
qed

section \<open>Reads after an invalidation\<close>

definition read_rely :: "'v read_env \<Rightarrow> bool" where
  "read_rely env \<longleftrightarrow> (\<forall>n w. tags_le w (re_wait env n w)) \<and> (\<forall>n e w. tags_le w (fst (re_reconcile env n e w)))"

lemma read_relyD:
  assumes "read_rely env"
  shows "tags_le w (re_wait env n w)" "re_reconcile env n e w = (w', r) \<Longrightarrow> tags_le w w'"
  using assms unfolding read_rely_def by (blast, metis fst_conv)

lemma read_l1_tags:
  assumes "read_rely env" "read_l1 cfg env n key w = (w', r)"
  shows "tags_le w w'"
proof -
  let ?p = "re_wait env n w"
  obtain m probe where p: "store_read (wk_ep ?p) (re_instant env n) key (Some (re_now env n)) (wk_memory ?p) = (m, probe)" by fastforce
  have w0: "tags_le w ?p" by (rule read_relyD(1) [OF assms(1)])
  show ?thesis
  proof (cases probe)
    case None
    then show ?thesis using assms(2) w0 by (auto simp: read_l1_def p Let_def)
  next
    case (Some a)
    let ?q = "emit (MemoryHit_event key (is_logically_expired (re_now env n) (arc_entry a))) (?p\<lparr>wk_memory := m\<rparr>)"
    obtain w1 f where r: "re_reconcile env n (arc_entry a) ?q = (w1, f)" by fastforce
    have "tags_le ?q w1" by (rule read_relyD(2) [OF assms(1) r])
    then have w1: "tags_le w w1" using w0 by (simp add: tags_le_def) (metis registry_run_append)
    let ?h = "ensure_health cfg (re_health env n) (re_instant env n) w1"
    have h: "tags_le w ?h" using tags_le_trans [OF w1 tags_le_health] .
    have u: "tags_le w (re_wait env (Suc n) ?h)" by (rule tags_le_trans [OF h read_relyD(1) [OF assms(1)]])
    have v: "tags_le w (re_wait env (Suc (Suc n)) (re_wait env (Suc n) ?h))" by (rule tags_le_trans [OF u read_relyD(1) [OF assms(1)]])
    show ?thesis using assms(2) w1 h u v
      by (auto simp: read_l1_def p Some r Let_def split: option.splits if_splits tag_verdict.splits prod.splits)
  qed
qed

lemma fetch_l2_tags:
  assumes "read_rely env" "fetch_l2 cfg env n key w = (w', r)"
  shows "tags_le w w'"
proof -
  obtain w1 hy where h: "hydration_fence env n key (re_now env n) w = (w1, hy)" by fastforce
  have "tags_le w w1" using h read_relyD(1) [OF assms(1), of w n] by (auto simp: hydration_fence_def Let_def split: if_splits prod.splits)
  then have a: "tags_le w (re_wait env (Suc n) w1)" using read_relyD(1) [OF assms(1)] tags_le_trans by blast
  let ?c = "close_circuit DistributedCircuit (re_wait env (Suc n) w1)"
  have b: "tags_le w (re_wait env (Suc (Suc n)) ?c)" using a read_relyD(1) [OF assms(1), of ?c] tags_le_trans [of w ?c] by simp
  have c: "tags_le w x" if "re_reconcile env k e (emit ev (re_wait env (Suc (Suc n)) ?c)) = (x, y)" for k e ev x y
  proof (rule tags_le_trans [OF _ read_relyD(2) [OF assms(1) that]])
    show "tags_le w (emit ev (re_wait env (Suc (Suc n)) ?c))" using b by simp
  qed
  show ?thesis using assms(2) \<open>tags_le w w1\<close> a b c
    by (auto simp: fetch_l2_def h Let_def numeral_2_eq_2 split: option.splits if_splits sum.splits prod.splits)
qed

lemma read_rely_elapsed [simp]: "read_rely (env\<lparr>re_elapsed := x\<rparr>) = read_rely env"
  by (simp add: read_rely_def)

lemma read_l2_tags:
  assumes "read_rely env" "read_l2 cfg env n key opts fb w = (w', r)"
  shows "tags_le w w'"
proof -
  obtain w1 ok where a: "circuit_admits DistributedCircuit (re_now env n) w = (w1, ok)" by fastforce
  have w1: "tags_le w w1" by (rule tags_le_same) (rule circuit_admits_frames [OF a])
  obtain w2 budget seen where b: "read_l2_budget cfg env n key (appropriate_distributed_timeout fb opts) w1 = (w2, budget, seen)"
    by (cases "read_l2_budget cfg env n key (appropriate_distributed_timeout fb opts) w1") auto
  have "tags_le w1 w2" using b fetch_l2_tags [OF assms(1)] fetch_l2_tags [of "env\<lparr>re_elapsed := None\<rparr>"] assms(1)
    by (auto simp: read_l2_budget_def split: timeout.splits if_splits prod.splits fetch_result.splits)
  then have w2: "tags_le w w2" using w1 tags_le_trans by blast
  have rc: "tags_le w x" if "re_reconcile env k e w2 = (x, y)" for k e x y
    using read_relyD(2) [OF assms(1) that] w2 tags_le_trans by blast
  show ?thesis using assms(2) w1 w2 rc
    by (cases ok) (auto simp: read_l2_def a b Let_def split: if_splits sum.splits option.splits prod.splits)
qed

lemma judged_tags:
  assumes "read_rely env"
  shows "tags_le w (l1_judged cfg env key opts w)" "tags_le w (l2_judged cfg env key opts w)"
proof -
  let ?h = "ensure_health cfg (re_health env 0) (re_instant env 0) w"
  have "tags_le ?h (fst (read_l1 cfg env 1 key ?h))" using read_l1_tags [OF assms] by (metis prod.collapse)
  then show l1: "tags_le w (l1_judged cfg env key opts w)" using tags_le_trans [OF tags_le_health] by (auto simp: l1_judged_def Let_def)
  let ?f = "l1_stale cfg env key opts w \<noteq> None"
  have "tags_le (l1_judged cfg env key opts w) (fst (read_l2 cfg env 4 key opts ?f (l1_judged cfg env key opts w)))"
    using read_l2_tags [OF assms] by (metis prod.collapse)
  then show "tags_le w (l2_judged cfg env key opts w)"
    unfolding l2_judged_def using l1 read_relyD(1) [OF assms] tags_le_trans by blast
qed

text \<open>
  C22. Invalidations: once an invalidation by tags or a clear has returned (even if the second level
  or the backplane failed), no later read of this cache, with whatever other operations meanwhile, returns as a
  hit a value of a matching entry created up to the moment of the invalidation: from memory or from the second level, it
  comes at most as a stale value where the options allow it, and never when the invalidation removes.
\<close>
theorem invalidation_effective:
  assumes "marker_rely me" and "registry_ok (wk_tags (sv_worker s))" and "mutate_markers cfg me kinds options s = (s', Inr out)" and "kind \<in> set kinds"
    and "tags_le (sv_worker s') w" and "read_rely env" and "worker_read cfg env key opts w = (w', Inr (Some v, outcome, level))"
  shows "\<exists>e. copy_value (cc_cloner cfg) opts (en_value e) = Inr v \<and> (from_memory cfg env key opts w e \<or> (\<exists>now. decoded env now e))
    \<and> (kind_matches kind (md_tags (en_meta e)) \<and> md_created (en_meta e) \<le> me_now me 0 \<longrightarrow>
         outcome = OutStaleHit \<and> opt_allow_stale_on_read_only opts
         \<and> kind \<noteq> ClearRemove \<and> \<not> ((\<exists>t. kind = TagKind t) \<and> cc_remove_by_tag cfg = RemoveMatched))"
proof -
  have judged: "worker_tags cfg e x \<noteq> Valid \<and> (kind = ClearRemove \<or> (\<exists>t. kind = TagKind t) \<and> cc_remove_by_tag cfg = RemoveMatched \<longrightarrow> worker_tags cfg e x = Remove)"
    if "kind_matches kind (md_tags (en_meta e))" "md_created (en_meta e) \<le> me_now me 0" "tags_le w x" for e x
  proof -
    note m = mutate_covers [OF assms(1-4) that(2)]
    have le: "tags_le (sv_worker s') x" using assms(5) that(3) by (rule tags_le_trans)
    show ?thesis using covered_verdict [OF ok_tags_le [OF m(2) le] covers_tags_le [OF m(2,1) le] that(1) m(3)] by blast
  qed
  from served_valid [OF assms(7)] obtain e where e: "copy_value (cc_cloner cfg) opts (en_value e) = Inr v"
    "level = Some MemoryLevel \<and> from_memory cfg env key opts w e
         \<and> (outcome = OutHit \<longrightarrow> valid_fresh cfg (re_now env 2) e (l1_judged cfg env key opts w))
       \<or> level = Some DistributedLevel \<and> cc_hybrid cfg \<and> \<not> opt_skip_distributed_read opts
         \<and> (\<exists>now. decoded env now e \<and> readable cfg now e (l2_judged cfg env key opts w)
              \<and> (outcome = OutHit \<longrightarrow> valid_fresh cfg now e (l2_judged cfg env key opts w)))"
    "outcome = OutHit \<or> outcome = OutStaleHit \<and> opt_allow_stale_on_read_only opts" by blast
  note le = judged_tags [OF assms(6), of w cfg key opts]
  have "outcome = OutStaleHit \<and> opt_allow_stale_on_read_only opts \<and> kind \<noteq> ClearRemove \<and> \<not> ((\<exists>t. kind = TagKind t) \<and> cc_remove_by_tag cfg = RemoveMatched)"
    if k: "kind_matches kind (md_tags (en_meta e))" "md_created (en_meta e) \<le> me_now me 0"
    using e(2,3) judged [OF k le(1)] judged [OF k le(2)] by (auto simp: from_memory_def readable_def valid_fresh_def)
  then show ?thesis using e(1,2) by blast
qed

section \<open>Invalidations over a shared store\<close>

text \<open>
  The durable store is shared: every step of this cache and of the others is a run of store operations.
\<close>

definition store_le :: "invalidation_store \<Rightarrow> invalidation_store \<Rightarrow> bool" where
  "store_le b b' \<longleftrightarrow> (\<exists>ops. b' = foldl store_step b ops)"

lemma store_le_refl [simp]: "store_le b b"
  by (auto simp: store_le_def intro: exI [of _ "[]"])

lemma store_le_trans [trans]: "store_le a b \<Longrightarrow> store_le b c \<Longrightarrow> store_le a c"
  unfolding store_le_def by (metis foldl_append)

lemma store_le_advance: "store_advance scope kind v b = (b', r) \<Longrightarrow> store_le b b'"
  unfolding store_le_def by (rule exI [of _ "[StAdvance scope kind v]"]) simp

definition shared_store :: "('v, 'l, invalidation_store) marker_env \<Rightarrow> bool" where
  "shared_store me \<longleftrightarrow> me_access me = AccessDurable \<and> me_advance me = (\<lambda>_. store_advance)
     \<and> me_read_many me = (\<lambda>_ scope kinds b. Inr (read_many_now scope kinds b))
     \<and> (\<forall>n s. store_le (sv_backend s) (sv_backend (ce_wait (me_commit me) n s)))
     \<and> (\<forall>n scope kind snap p b. store_le b (fst (me_renew me n scope kind snap p b)))"

lemma shared_storeD:
  assumes "shared_store me"
  shows "me_access me = AccessDurable" "me_advance me n = store_advance" "me_read_many me n scope kinds b = Inr (read_many_now scope kinds b)"
    "store_le (sv_backend s) (sv_backend (ce_wait (me_commit me) n s))"
    "me_renew me n scope kind snap p b = (b', r) \<Longrightarrow> store_le b b'"
  using assms unfolding shared_store_def by (simp_all) (metis fst_conv)

text \<open>What the store of a scope vouches for.\<close>

definition store_covers :: "cache_scope \<Rightarrow> marker_kind \<Rightarrow> timestamp \<Rightarrow> invalidation_store \<Rightarrow> bool" where
  "store_covers scope kind t b \<longleftrightarrow> hm_get (is_scopes b) (scope_key scope) \<noteq> None \<and> scope_covers scope b kind t"

lemma store_ok_le: "store_ok b \<Longrightarrow> store_le b b' \<Longrightarrow> store_ok b'"
  using store.run_inv by (auto simp: store_le_def)

lemma store_covers_le: "store_ok b \<Longrightarrow> store_covers scope kind t b \<Longrightarrow> store_le b b' \<Longrightarrow> store_covers scope kind t b'"
proof -
  have "store_ok b \<Longrightarrow> store_covers scope kind t b \<Longrightarrow> store_covers scope kind t (foldl store_step b ops)" for ops
  proof (induction ops arbitrary: b)
    case (Cons op ops)
    then show ?case using scope_covers_step [of b scope kind t op] store.step_inv by (simp add: store_covers_def)
  qed simp
  then show "store_ok b \<Longrightarrow> store_covers scope kind t b \<Longrightarrow> store_le b b' \<Longrightarrow> store_covers scope kind t b'" by (auto simp: store_le_def)
qed

lemma store_advance_covers:
  assumes "store_ok b" "store_advance scope kind v b = (b', Inr outcome)" "t \<le> v"
  shows "store_covers scope kind t b'"
proof -
  have "scope_state scope b' = fst (marker_advance kind v (max_tags (is_limits b)) (scope_state scope b))"
    "hm_get (is_scopes b') (scope_key scope) \<noteq> None"
    using assms(2) by (auto simp: store_advance_eq scope_state_def hmap_simps split: if_splits)
  then show ?thesis using mstate.covers_adv [OF scope_state_ok [OF assms(1)] assms(3)] by (simp add: store_covers_def scope_covers_def)
qed

abbreviation back_le :: "('v, invalidation_store) site \<Rightarrow> ('v, invalidation_store) site \<Rightarrow> bool" where
  "back_le s s' \<equiv> store_le (sv_backend s) (sv_backend s')"

lemma durable_stage_store:
  assumes "shared_store me" "store_ok (sv_backend s)" "marker_durable_stage cfg me n c opts created s = (s', r)"
  shows "back_le s s'"
    "r = Inr (Inr x) \<Longrightarrow> \<not> opt_skip_distributed_write opts \<Longrightarrow> t \<le> marker_version_of (cmd_marker c)
      \<Longrightarrow> store_covers (cmd_scope c) (marker_kind_of (cmd_marker c)) t (sv_backend s')"
    "r = Inr (Inl report) \<Longrightarrow> outcome_failures (report_distributed report) \<noteq> []"
proof -
  let ?s = "ce_wait (me_commit me) n s"
  note sh = shared_storeD [OF assms(1)]
  have ok: "store_ok (sv_backend ?s)" using store_ok_le [OF assms(2) sh(4)] .
  have v: "snap_version (MarkerSnapshot_fresh v opts created) = v" for v by (simp add: MarkerSnapshot_fresh_def Let_def)
  obtain b w where a: "store_advance (cmd_scope c) (marker_kind_of (cmd_marker c)) (marker_version_of (cmd_marker c)) (sv_backend ?s) = (b, w)" by fastforce
  have le: "store_le (sv_backend s) b" using sh(4) store_le_advance [OF a] store_le_trans by blast
  show "back_le s s'" using assms(3) le sh(1)
    by (auto simp: marker_durable_stage_def write_marker_revision_def sh a v Let_def split: if_splits sum.splits prod.splits)
  show "store_covers (cmd_scope c) (marker_kind_of (cmd_marker c)) t (sv_backend s')"
    if "r = Inr (Inr x)" "\<not> opt_skip_distributed_write opts" "t \<le> marker_version_of (cmd_marker c)"
    using assms(3) that store_advance_covers [OF ok, of "cmd_scope c" "marker_kind_of (cmd_marker c)" _ b _ t] a
    by (auto simp: marker_durable_stage_def write_marker_revision_def sh v Let_def split: if_splits sum.splits prod.splits)
  show "outcome_failures (report_distributed report) \<noteq> []" if "r = Inr (Inl report)"
    using assms(3) that
    by (auto simp: marker_durable_stage_def sh failed_outcome_def split: if_splits sum.splits prod.splits)
qed

lemma control_snapshot_store: "shared_store me \<Longrightarrow> commit_control_snapshot cfg me n commit policy s = (s', r) \<Longrightarrow> back_le s s'"
  using shared_storeD(4) [of me s n] shared_storeD(5) [of me n] store_le_trans
  by (auto simp: commit_control_snapshot_def Let_def split: option.splits if_splits sum.splits prod.splits)

lemma populate_snapshot_store: "shared_store me \<Longrightarrow> populate_marker_snapshot cfg me n c opts created policy s = (s', r) \<Longrightarrow> back_le s s'"
  using control_snapshot_store by (auto simp: populate_marker_snapshot_def Let_def split: if_splits) blast

lemma populate_each_store:
  assumes "shared_store me" "populate_each cfg me n cs opts created s = (s', r)"
  shows "back_le s s'"
  using assms(2)
proof (induction cs arbitrary: n s r)
  case (Cons c cs)
  obtain s1 r1 where p: "populate_marker_snapshot cfg me n c opts created OperationPolicy s = (s1, r1)" by fastforce
  have "back_le s s1" by (rule populate_snapshot_store [OF assms(1) p])
  moreover have "back_le s1 s'" using Cons p by (auto simp: Let_def split: prod.splits sum.splits)
  ultimately show ?case by (rule store_le_trans)
qed simp

lemma populate_store:
  assumes "shared_store me" "populate_marker_mutation cfg me n cs opts created durable s = (s', r)"
  shows "back_le s s'"
proof -
  obtain s1 os fault where e: "populate_each cfg me n cs opts created s = (s1, os, fault)" by (cases "populate_each cfg me n cs opts created s") auto
  show ?thesis using assms(2) populate_each_store [OF assms(1) e]
    by (auto simp: populate_marker_mutation_def populate_marker_commands_def e split: if_splits option.splits prod.splits sum.splits)
qed

lemma publish_command_store: "shared_store me \<Longrightarrow> publish_command cfg (me_commit me) n c s = (s', r) \<Longrightarrow> back_le s s'"
proof -
  assume a: "shared_store me" "publish_command cfg (me_commit me) n c s = (s', r)"
  obtain w ok where c: "circuit_admits BackplaneCircuit (ce_now (me_commit me) n) (sv_worker s) = (w, ok)" by fastforce
  show "back_le s s'" using a(2) shared_storeD(4) [OF a(1), of "s\<lparr>sv_worker := w\<rparr>" n]
    by (cases ok) (auto simp: publish_command_def c Let_def split: if_splits sum.splits)
qed

lemma publish_markers_store:
  assumes "shared_store me" "publish_markers cfg me n opts cs s = (s', r)"
  shows "back_le s s'"
  using assms(2)
proof (induction cs arbitrary: n s r)
  case (Cons c cs)
  obtain s1 r1 where p: "publish_command cfg (me_commit me) n (MarkerCmd c) s = (s1, r1)" by fastforce
  have "store_le (sv_backend s1) (sv_backend s')" if "publish_markers cfg me m opts cs (s1\<lparr>sv_worker := x\<rparr>) = (s', z)" for m x z
    using Cons.IH [OF that] by simp
  then have "back_le s1 s'" using Cons p by (auto simp: Let_def split: sum.splits prod.splits if_splits)
  then show ?case using publish_command_store [OF assms(1) p] store_le_trans by blast
qed simp

lemma commit_marker_store:
  assumes "shared_store me" "store_ok (sv_backend s)" "commit_marker cfg me n c opts created s = (s', r)"
  shows "back_le s s'"
    "r = Inr receipt \<Longrightarrow> receipt_wait ErrCacheClosed receipt = waited.Returned (Inr report) \<Longrightarrow> outcome_failures (report_distributed report) = []
      \<Longrightarrow> \<not> opt_skip_distributed_write opts \<Longrightarrow> t \<le> marker_version_of (cmd_marker c)
      \<Longrightarrow> store_covers (cmd_scope c) (marker_kind_of (cmd_marker c)) t (sv_backend s')"
proof -
  let ?s = "ce_wait (me_commit me) n s"
  have w: "back_le s ?s" by (rule shared_storeD(4) [OF assms(1)])
  have ok: "store_ok (sv_backend ?s)" by (rule store_ok_le [OF assms(2) w])
  obtain s1 r1 where d: "marker_durable_stage cfg me (n + 1) c opts created ?s = (s1, r1)" by fastforce
  note stage = durable_stage_store [OF assms(1) ok d]
  have p: "back_le s1 x" if "populate_marker_mutation cfg me m cs opts created durable s1 = (x, y)" for m cs durable x y
    by (rule populate_store [OF assms(1) that])
  have q: "back_le x y" if "publish_stage cfg me m opts cs x = (y, z)" for m cs x y z
    using that by (auto simp: publish_stage_def split: if_splits prod.splits sum.splits dest: publish_markers_store [OF assms(1)])
  have pq: "back_le s1 y" if "populate_marker_mutation cfg me m cs opts created durable s1 = (x, u)" "publish_stage cfg me k opts cs' x = (y, z)"
    for m cs durable x u k cs' y z using p [OF that(1)] q [OF that(2)] store_le_trans by blast
  have s': "back_le s1 s'" using assms(3) d p pq by (auto simp: commit_marker_def Let_def split: sum.splits prod.splits)
  then show "back_le s s'" using w stage(1) store_le_trans by blast
  assume r: "r = Inr receipt" "receipt_wait ErrCacheClosed receipt = waited.Returned (Inr report)" "outcome_failures (report_distributed report) = []"
    and o': "\<not> opt_skip_distributed_write opts" "t \<le> marker_version_of (cmd_marker c)"
  have "\<exists>x. r1 = Inr (Inr x)"
    using assms(3) r stage(3) d by (auto simp: commit_marker_def split: sum.splits)
  then have "store_covers (cmd_scope c) (marker_kind_of (cmd_marker c)) t (sv_backend s1)" using stage(2) o' by blast
  then show "store_covers (cmd_scope c) (marker_kind_of (cmd_marker c)) t (sv_backend s')"
    using store_covers_le [OF store_ok_le [OF ok stage(1)] _ s'] by blast
qed

lemma wait_all_Cons:
  "wait_all (receipt # receipts) = waited.Returned (Inr rs) \<longleftrightarrow>
     (\<exists>report rest. rs = report # rest \<and> receipt_wait ErrCacheClosed receipt = waited.Returned (Inr report) \<and> wait_all receipts = waited.Returned (Inr rest))"
  by (auto split: waited.splits sum.splits)

lemma commit_markers_store:
  assumes "shared_store me" "store_ok (sv_backend s)" "commit_markers cfg me n cs opts created s = (s', r)"
  shows "back_le s s' \<and> (\<forall>receipts rs c t. r = Inr receipts \<and> wait_all receipts = waited.Returned (Inr rs) \<and> concat (map (outcome_failures \<circ> report_distributed) rs) = []
      \<and> \<not> opt_skip_distributed_write opts \<and> c \<in> set cs \<and> t \<le> marker_version_of (cmd_marker c)
      \<longrightarrow> store_covers (cmd_scope c) (marker_kind_of (cmd_marker c)) t (sv_backend s'))"
  using assms(2,3)
proof (induction cs arbitrary: n s r)
  case (Cons c cs)
  obtain s1 r1 where m: "commit_marker cfg me n c opts created s = (s1, r1)" by fastforce
  note one = commit_marker_store [OF assms(1) Cons.prems(1) m]
  have ok1: "store_ok (sv_backend s1)" by (rule store_ok_le [OF Cons.prems(1) one(1)])
  show ?case
  proof (cases r1)
    case (Inl er)
    then show ?thesis using Cons.prems(2) m one(1) by auto
  next
    case (Inr receipt)
    obtain r2 where rest: "commit_markers cfg me (n + 9) cs opts created s1 = (s', r2)" and r: "r = map_sum id ((#) receipt) r2"
      using Cons.prems(2) m Inr by (auto split: prod.splits sum.splits)
    note ih = Cons.IH [OF ok1 rest]
    have "back_le s s'" using one(1) ih store_le_trans by blast
    moreover have "store_covers (cmd_scope d) (marker_kind_of (cmd_marker d)) t (sv_backend s')"
      if all: "r = Inr receipts" "wait_all receipts = waited.Returned (Inr rs)" "concat (map (outcome_failures \<circ> report_distributed) rs) = []"
        and o': "\<not> opt_skip_distributed_write opts" "d \<in> set (c # cs)" "t \<le> marker_version_of (cmd_marker d)" for receipts rs d t
    proof -
      obtain receipts' where rs': "r2 = Inr receipts'" "receipts = receipt # receipts'" using r all(1) by (cases r2) auto
      obtain report rest' where split: "rs = report # rest'" "receipt_wait ErrCacheClosed receipt = waited.Returned (Inr report)"
        "wait_all receipts' = waited.Returned (Inr rest')" using all(2) unfolding rs'(2) wait_all_Cons by blast
      show ?thesis
      proof (cases "d = c")
        case True
        then have "store_covers (cmd_scope d) (marker_kind_of (cmd_marker d)) t (sv_backend s1)"
          using one(2) [OF Inr split(2)] all(3) split(1) o' by simp
        then show ?thesis using store_covers_le [OF ok1] ih by blast
      next
        case False
        then show ?thesis using ih rs'(1) split all(3) o' by auto
      qed
    qed
    ultimately show ?thesis by blast
  qed
qed simp

lemma batch_receipt_reports:
  assumes "pipeline_receipt mode (case r of Inl er \<Rightarrow> Inl er | Inr receipts \<Rightarrow> batch_receipt receipts) = Inr receipt"
    and "receipt_wait ErrCacheClosed receipt = waited.Returned (Inr report)"
  shows "\<exists>receipts rs. r = Inr receipts \<and> wait_all receipts = waited.Returned (Inr rs) \<and> report = reports rs"
  using assms
  by (auto simp: pipeline_receipt_def batch_receipt_def schedule_receipt_def completion_wait_def
      split: commit_mode.splits sum.splits waited.splits if_splits)

lemma outcome_marker_advance:
  "registry_advance kind v r = (tags, outcome) \<Longrightarrow> marker_kind_of (outcome_marker outcome) = kind \<and> v \<le> marker_version_of (outcome_marker outcome)"
  by (cases kind) (auto simp: registry_advance_def marker_advance_def Let_def split: if_splits prod.splits)

lemma announced_command:
  assumes "announce_marker cfg me n opts now kind w = (w', Inr commands)"
  shows "\<exists>c\<in>set commands. cmd_scope c = me_scope me \<and> marker_kind_of (cmd_marker c) = kind \<and> now \<le> marker_version_of (cmd_marker c)"
proof -
  obtain tags outcome where adv: "registry_advance kind now (wk_tags w) = (tags, outcome)" by fastforce
  obtain c where "c \<in> set commands" "MarkerCommand_new (cc_instance cfg) (me_scope me) (outcome_marker outcome) = Inr c"
    using assms by (auto simp: announce_marker_def adv Let_def split: sum.splits prod.splits marker_advance_outcome.splits)
  then show ?thesis using outcome_marker_advance [OF adv] by (intro bexI [of _ c]) (auto simp: MarkerCommand_new_def split: if_splits)
qed

lemma announced_commands:
  assumes "announce_markers cfg me n opts now kinds w = (w', Inr commands)" "kind \<in> set kinds"
  shows "\<exists>c\<in>set commands. cmd_scope c = me_scope me \<and> marker_kind_of (cmd_marker c) = kind \<and> now \<le> marker_version_of (cmd_marker c)"
  using assms
proof (induction kinds arbitrary: n w commands)
  case (Cons k kinds)
  obtain w1 cs rest where a: "announce_marker cfg me n opts now k (re_wait (ce_reads (me_commit me)) n w) = (w1, Inr cs)"
    and m: "announce_markers cfg me (n + 2) opts now kinds w1 = (w', Inr rest)" and all: "commands = cs @ rest"
    using Cons.prems(1) by (auto split: prod.splits sum.splits)
  show ?case using announced_command [OF a] Cons.IH [OF m] Cons.prems(2) by (auto simp: all)
qed simp

lemma mutate_store_covers:
  assumes "shared_store me" "store_ok (sv_backend s)" "mutate_markers cfg me kinds (Some opts) s = (s', Inr (receipt, outcome, level))"
    "receipt_wait ErrCacheClosed receipt = waited.Returned (Inr report)" "outcome_failures (report_distributed report) = []"
    "\<not> opt_skip_distributed_write opts" "kind \<in> set kinds" "t \<le> me_now me 0"
  shows "store_covers (me_scope me) kind t (sv_backend s')" "store_ok (sv_backend s')"
proof -
  obtain w commands r where a: "announce_markers cfg me 1 opts (me_now me 0) kinds (sv_worker s) = (w, Inr commands)"
    and c: "commit_markers cfg me (2 * length kinds + 1) commands opts (me_now me 0) (s\<lparr>sv_worker := w\<rparr>) = (s', r)"
    and p: "pipeline_receipt (invalidation_mode me opts) (case r of Inl er \<Rightarrow> Inl er | Inr receipts \<Rightarrow> batch_receipt receipts) = Inr receipt"
    using assms(3) by (auto simp: mutate_markers_def Let_def split: sum.splits if_splits prod.splits)
  obtain receipts rs where rs: "r = Inr receipts" "wait_all receipts = waited.Returned (Inr rs)" "report = reports rs"
    using batch_receipt_reports [OF p assms(4)] by blast
  have clean: "concat (map (outcome_failures \<circ> report_distributed) rs) = []" using assms(5) by (simp add: rs(3) reports_def effects_failures)
  obtain cmd where cmd: "cmd \<in> set commands" "cmd_scope cmd = me_scope me" "marker_kind_of (cmd_marker cmd) = kind" "me_now me 0 \<le> marker_version_of (cmd_marker cmd)"
    using announced_commands [OF a assms(7)] by blast
  have all: "back_le (s\<lparr>sv_worker := w\<rparr>) s'" "\<forall>c\<in>set commands. \<forall>t\<le>marker_version_of (cmd_marker c). store_covers (cmd_scope c) (marker_kind_of (cmd_marker c)) t (sv_backend s')"
    using commit_markers_store [OF assms(1) _ c] assms(2,6) rs clean by auto
  then show "store_covers (me_scope me) kind t (sv_backend s')" using cmd assms(8) by force
  show "store_ok (sv_backend s')" using store_ok_le [OF assms(2)] all(1) by simp
qed

lemma fold_apply_covers:
  assumes "registry_ok (wk_tags w)" "m \<in> set ms" "t \<le> marker_version_of m"
  shows "registry_covers (wk_tags (fold apply_marker ms w)) (marker_kind_of m) t"
  using assms
proof (induction ms arbitrary: w)
  case (Cons k ms)
  have ok: "registry_ok (wk_tags (apply_marker k w))" by (rule ok_tags_le [OF Cons.prems(1) tags_le_apply])
  show ?case
  proof (cases "m = k")
    case True
    then have "registry_covers (wk_tags (apply_marker k w)) (marker_kind_of m) t"
      using registry.covers_adv [OF Cons.prems(1,3)] by (simp add: apply_marker_def)
    then show ?thesis using covers_tags_le [OF ok _ tags_le_fold_apply] by simp
  next
    case False
    then show ?thesis using Cons.IH [OF ok] Cons.prems by simp
  qed
qed simp

lemma read_many_covers:
  assumes "store_covers scope kind t b" "kind \<in> set kinds" "ClearRemove \<in> set kinds"
  shows "\<exists>m\<in>set (read_many_now scope kinds b). (marker_kind_of m = kind \<or> marker_kind_of m = ClearRemove) \<and> t \<le> marker_version_of m"
proof -
  obtain st where st: "hm_get (is_scopes b) (scope_key scope) = Some st" using assms(1) by (auto simp: store_covers_def)
  then have "covered_by t (marker_read st kind) \<or> covered_by t (marker_read st ClearRemove)"
    using assms(1) by (simp add: store_covers_def scope_covers_def state_covers_def scope_state_def)
  then obtain k v where "k \<in> set kinds" "k = kind \<or> k = ClearRemove" "marker_read st k = Some v" "t \<le> v"
    using assms(2,3) by (auto simp: covered_by_def simp del: marker_read.simps split: option.splits)
  then show ?thesis
    by (intro bexI [of _ "StoredMarker k v"]) (force simp: read_many_now_def st map_filter_def simp del: marker_read.simps)+
qed

text \<open>What the store vouches for is invalid in every cache that reconciles with it.\<close>

lemma reconciled_verdict:
  assumes "shared_store peer" "\<not> cc_disable_tagging pcfg" "store_ok b" "store_covers (me_scope peer) kind (md_created (en_meta e)) b" "store_le b (sv_backend p)"
    "registry_ok (wk_tags (sv_worker (ce_wait (me_commit peer) n p)))" "kind_matches kind (md_tags (en_meta e))"
  shows "\<exists>p'. reconcile_markers pcfg peer n (md_tags (en_meta e)) None p = (p', Inr ()) \<and> worker_tags pcfg e (sv_worker p') \<noteq> Valid
    \<and> (kind = ClearRemove \<or> (\<exists>t. kind = TagKind t) \<and> cc_remove_by_tag pcfg = RemoveMatched \<longrightarrow> worker_tags pcfg e (sv_worker p') = Remove)"
proof -
  let ?t = "md_created (en_meta e)" and ?q = "ce_wait (me_commit peer) n p" and ?kinds = "CLEAR_MARKERS @ map TagKind (md_tags (en_meta e))"
  note sh = shared_storeD [OF assms(1)]
  have "store_covers (me_scope peer) kind ?t (sv_backend ?q)" by (rule store_covers_le [OF assms(3,4) store_le_trans [OF assms(5) sh(4)]])
  moreover have "kind \<in> set ?kinds" "ClearRemove \<in> set ?kinds" using assms(7) by (cases kind; simp add: CLEAR_MARKERS_def)+
  ultimately obtain m where m: "m \<in> set (read_many_now (me_scope peer) ?kinds (sv_backend ?q))"
    "marker_kind_of m = kind \<or> marker_kind_of m = ClearRemove" "?t \<le> marker_version_of m" using read_many_covers by blast
  let ?w = "fold apply_marker (read_many_now (me_scope peer) ?kinds (sv_backend ?q)) (sv_worker ?q)"
  have r: "reconcile_markers pcfg peer n (md_tags (en_meta e)) None p = (?q\<lparr>sv_worker := ?w\<rparr>, Inr ())"
    using assms(2) by (simp add: reconcile_markers_def sh on_worker_def CLEAR_MARKERS_def Let_def)
  have ok: "registry_ok (wk_tags ?w)" by (rule ok_tags_le [OF assms(6) tags_le_fold_apply])
  have "registry_covers (wk_tags ?w) (marker_kind_of m) ?t" by (rule fold_apply_covers [OF assms(6) m(1,3)])
  then have c: "registry_covers (wk_tags ?w) kind ?t" using m(2) by (auto simp: registry_covers_def state_covers_def)
  show ?thesis using r covered_verdict [OF ok c assms(7,2)] by auto
qed

text \<open>
  C23. Cluster invalidation: an invalidation whose report shows no failure of the shared durable store
  reaches every other cache of the scope. Whatever the store serves in between, once a peer has
  reconciled an entry with it, that entry, if it matches and was created up to the moment of the invalidation, is no
  longer valid there, and is removed where the invalidation or the peer's configuration says so.
\<close>
theorem invalidation_reaches_peers:
  assumes "shared_store me" and "store_ok (sv_backend s)"
    and "mutate_markers cfg me kinds (Some opts) s = (s', Inr (receipt, outcome, level))"
    and "receipt_wait ErrCacheClosed receipt = waited.Returned (Inr report)" and "outcome_failures (report_distributed report) = []"
    and "\<not> opt_skip_distributed_write opts" and "kind \<in> set kinds"
    and "shared_store peer" and "scope_key (me_scope peer) = scope_key (me_scope me)" and "\<not> cc_disable_tagging pcfg"
    and "sv_backend p = foldl store_step (sv_backend s') ops" and "registry_ok (wk_tags (sv_worker (ce_wait (me_commit peer) n p)))"
    and "kind_matches kind (md_tags (en_meta e))" and "md_created (en_meta e) \<le> me_now me 0"
  shows "\<exists>p'. reconcile_markers pcfg peer n (md_tags (en_meta e)) None p = (p', Inr ()) \<and> worker_tags pcfg e (sv_worker p') \<noteq> Valid
    \<and> (kind = ClearRemove \<or> (\<exists>t. kind = TagKind t) \<and> cc_remove_by_tag pcfg = RemoveMatched \<longrightarrow> worker_tags pcfg e (sv_worker p') = Remove)"
proof -
  note a = mutate_store_covers [OF assms(1-7,14)]
  have c: "store_covers (me_scope peer) kind (md_created (en_meta e)) (sv_backend s')"
    using a(1) assms(9) by (simp add: store_covers_def scope_covers_def scope_state_def)
  show ?thesis by (rule reconciled_verdict [OF assms(8,10) a(2) c _ assms(12,13)]) (auto simp: store_le_def assms(11))
qed

section \<open>A small cluster\<close>

definition demo_cluster :: "(nat, nat, invalidation_store) marker_env" where
  "demo_cluster = \<lparr>me_commit = \<lparr>ce_reads = quiet_read 102, ce_wait = (\<lambda>_ s. s), ce_valid = (\<lambda>_. Inr ()),
       ce_jitter = Inr JitterSample_ZERO, ce_encode = (\<lambda>_ _. Inr ''v''), ce_decode = (\<lambda>_ _. Inl ErrCacheClosed),
       ce_proof = (\<lambda>_ _. Inl LeaseLost), ce_lost = (\<lambda>_ _. False), ce_fetch = (\<lambda>_ _ _. Inr None), ce_plain = (\<lambda>_ _ b. (b, Inr ())),
       ce_leased = (\<lambda>_ _ _ _ b. (b, Inl ErrCacheClosed)), ce_publish = (\<lambda>_ _. Inr ()), ce_label = (\<lambda>_. []), ce_lane = (\<lambda>_. 0),
       ce_locker = False, ce_revision = None\<rparr>,
     me_access = AccessDurable, me_scope = demo_scope, me_namespace = DurableNamespace demo_scope, me_lifecycle = DurableOnly,
     me_defaults = EntryOptions_new 500, me_contention = (\<lambda>_. []), me_advance = (\<lambda>_. store_advance),
     me_read_many = (\<lambda>_ scope kinds b. Inr (read_many_now scope kinds b)), me_renew = (\<lambda>_ _ _ _ _ b. (b, Inr RenewalExpired)), me_text = (\<lambda>_. [])\<rparr>"

definition demo_node :: "(nat, invalidation_store) site" where
  "demo_node = \<lparr>sv_worker = demo_worker, sv_backend = InvalidationStore_new MarkerStoreLimits_default, sv_published = []\<rparr>"

abbreviation stale_options :: entry_options where
  "stale_options \<equiv> (EntryOptions_new 500)\<lparr>opt_allow_stale_on_read_only := True, opt_allow_background_backplane_operations := False\<rparr>"

lemma demo_cluster_fields [simp]:
  "me_access demo_cluster = AccessDurable" "me_scope demo_cluster = demo_scope" "me_lifecycle demo_cluster = DurableOnly"
  "me_advance demo_cluster n = store_advance" "ce_reads (me_commit demo_cluster) = quiet_read 102" "ce_wait (me_commit demo_cluster) n s = s"
  "ce_valid (me_commit demo_cluster) opts = Inr ()" "ce_publish (me_commit demo_cluster) n c = Inr ()" "re_wait (quiet_read t) n w = w"
  by (simp_all add: demo_cluster_def quiet_read_def)

lemma memory_only_fields [simp]:
  "\<not> cc_hybrid memory_only" "cc_backplane memory_only" "\<not> cc_disable_tagging memory_only" "cc_marker_reads memory_only = DurableRequired" "cc_instance memory_only = ''a''"
  "cc_cloner memory_only = None" "cc_reconciliation memory_only = BackplaneContinuity" "cc_remove_by_tag memory_only = ExpireMatched"
  by (simp_all add: memory_only_def demo_cache_def)

lemma stale_options_fields [simp]:
  "\<not> opt_skip_distributed_write stale_options" "\<not> opt_skip_backplane_notifications stale_options" "\<not> opt_allow_background_distributed_operations stale_options"
  "\<not> opt_skip_memory_read stale_options" "\<not> opt_skip_distributed_read_when_stale stale_options"
  by (simp_all add: option_defs)

lemma demo_store: "store_advance demo_scope ClearExpire 102 (InvalidationStore_new MarkerStoreLimits_default)
   = ((InvalidationStore_new MarkerStoreLimits_default)\<lparr>is_scopes := [(scope_key demo_scope, MarkerState_default\<lparr>ms_clear_expire := Some 102\<rparr>)]\<rparr>, Inr (Advanced (StoredMarker ClearExpire 102)))"
  by (simp add: store_advance_eq InvalidationStore_new_def with_snapshot_limits_def scope_state_def MarkerState_default_def MarkerStoreLimits_default_def
      marker_advance_def opt_max_def Let_def)

abbreviation cleared_registry :: tag_registry where
  "cleared_registry \<equiv> TagRegistry_default\<lparr>reg_state := MarkerState_default\<lparr>ms_clear_expire := Some 102\<rparr>,
     reg_snapshot := MarkerState_default\<lparr>ms_clear_expire := Some 102\<rparr>, reg_marker_observed := True\<rparr>"

lemma demo_registry:
  "registry_advance ClearExpire 102 TagRegistry_default = (cleared_registry, Advanced (StoredMarker ClearExpire 102))"
  "registry_advance ClearExpire 102 cleared_registry = (cleared_registry, Advanced (StoredMarker ClearExpire 102))"
  by (simp_all add: registry_advance_def marker_advance_def TagRegistry_default_def MarkerState_default_def opt_max_def Let_def)

lemma demo_source: "MarkerCommand_new ''a'' scope marker = Inr \<lparr>cmd_source_id = ''a'', cmd_scope = scope, cmd_marker = marker\<rparr>"
  by code_simp

lemma demo_invalidated:
  "\<exists>s' report. mutate_markers memory_only demo_cluster [ClearExpire] (Some stale_options) demo_node = (s', Inr (ReceiptCompleted report, OutInvalidated, None))
     \<and> outcome_failures (report_distributed report) = [] \<and> wk_tags (sv_worker s') = cleared_registry \<and> wk_memory (sv_worker s') = wk_memory demo_worker
     \<and> sv_backend s' = fst (store_advance demo_scope ClearExpire 102 (InvalidationStore_new MarkerStoreLimits_default))"
  by (simp add: mutate_markers_def announce_marker_def demo_node_def seed_marker_def demo_source commit_marker_def marker_durable_stage_def
      write_marker_revision_def MarkerSnapshot_fresh_def demo_store demo_registry accept_write_def apply_marker_def populate_marker_mutation_def
      marker_snapshot_provider_def publish_stage_def publish_command_def circuit_admits_def close_circuit_def commit_receipt_def pipeline_receipt_def batch_receipt_def
      invalidation_mode_def effects_def reports_def on_worker_def emit_def Let_def)

lemma demo_cluster_relies: "marker_rely demo_cluster" "shared_store demo_cluster" "read_rely (quiet_read t)"
  by (simp_all add: marker_rely_def shared_store_def read_rely_def demo_cluster_def quiet_read_def)

lemma demo_registries: "registry_ok TagRegistry_default" "registry_ok (wk_tags demo_worker)"
  by (simp_all add: registry_ok_def TagRegistry_default_def MarkerState_default_def marker_ok_def tag_count_def)

abbreviation cleared_worker :: "nat worker" where
  "cleared_worker \<equiv> demo_worker\<lparr>wk_tags := cleared_registry\<rparr>"

lemma demo_stale_plain: "plain_options stale_options"
  by (simp add: plain_options_def validate_def size_of_def option_defs)

lemma demo_stale_read: "\<exists>w'. worker_read memory_only (quiet_read 105) ''k'' stale_options cleared_worker = (w', Inr (Some 7, OutStaleHit, Some MemoryLevel))"
  by (simp add: worker_read_def read_l1_def demo_store_read read_distributed_def read_l2_def read_finish_def read_hit_def quiet_read_def ensure_health_def worker_tags_def
      evaluate_def MarkerState_default_def TagRegistry_default_def emit_def entry_freshness_def is_before_def is_physically_expired_def is_logically_expired_def
      is_read_eligible_def sample_fields copy_plain [OF demo_stale_plain] Let_def)

theorem invalidation_effective_witness:
  "\<exists>s' report w'. mutate_markers memory_only demo_cluster [ClearExpire] (Some stale_options) demo_node = (s', Inr (ReceiptCompleted report, OutInvalidated, None))
     \<and> worker_read memory_only (quiet_read 105) ''k'' stale_options cleared_worker = (w', Inr (Some 7, OutStaleHit, Some MemoryLevel))
     \<and> (\<exists>e. en_value e = 7 \<and> from_memory memory_only (quiet_read 105) ''k'' stale_options cleared_worker e)"
proof -
  obtain s' report where m: "mutate_markers memory_only demo_cluster [ClearExpire] (Some stale_options) demo_node = (s', Inr (ReceiptCompleted report, OutInvalidated, None))"
    "wk_tags (sv_worker s') = cleared_registry" using demo_invalidated by blast
  obtain w' where r: "worker_read memory_only (quiet_read 105) ''k'' stale_options cleared_worker = (w', Inr (Some 7, OutStaleHit, Some MemoryLevel))"
    using demo_stale_read by blast
  have le: "tags_le (sv_worker s') cleared_worker" by (rule tags_le_same) (simp add: m(2))
  have "registry_ok (wk_tags (sv_worker demo_node))" by (simp add: demo_node_def demo_registries)
  from invalidation_effective [OF demo_cluster_relies(1) this m(1) _ le demo_cluster_relies(3) r]
  obtain e where "copy_value None stale_options (en_value e) = Inr 7"
    "from_memory memory_only (quiet_read 105) ''k'' stale_options cleared_worker e \<or> (\<exists>now. decoded (quiet_read 105) now e)" by auto
  then have "en_value e = 7 \<and> from_memory memory_only (quiet_read 105) ''k'' stale_options cleared_worker e"
    by (auto simp: copy_plain [OF demo_stale_plain] decoded_def quiet_read_def)
  with m(1) r show ?thesis by blast
qed

theorem invalidation_reaches_peers_witness:
  "\<exists>s' report p'. mutate_markers memory_only demo_cluster [ClearExpire] (Some stale_options) demo_node = (s', Inr (ReceiptCompleted report, OutInvalidated, None))
     \<and> reconcile_markers memory_only demo_cluster 0 [] None (demo_node\<lparr>sv_backend := sv_backend s'\<rparr>) = (p', Inr ())
     \<and> worker_tags memory_only (sample_entry\<lparr>en_meta := (en_meta sample_entry)\<lparr>md_tags := []\<rparr>\<rparr>) (sv_worker p') \<noteq> Valid"
proof -
  let ?e = "sample_entry\<lparr>en_meta := (en_meta sample_entry)\<lparr>md_tags := []\<rparr>\<rparr>"
  obtain s' report where m: "mutate_markers memory_only demo_cluster [ClearExpire] (Some stale_options) demo_node = (s', Inr (ReceiptCompleted report, OutInvalidated, None))"
    "outcome_failures (report_distributed report) = []" using demo_invalidated by blast
  have ok: "store_ok (sv_backend demo_node)"
    by (simp add: demo_node_def InvalidationStore_new_def store_ok_def hm_ok_def with_snapshot_limits_def MarkerSnapshotLimits_default_def)
  have p: "sv_backend (demo_node\<lparr>sv_backend := sv_backend s'\<rparr>) = foldl store_step (sv_backend s') []" by simp
  have "\<exists>p'. reconcile_markers memory_only demo_cluster 0 (md_tags (en_meta ?e)) None (demo_node\<lparr>sv_backend := sv_backend s'\<rparr>) = (p', Inr ())
      \<and> worker_tags memory_only ?e (sv_worker p') \<noteq> Valid"
    using invalidation_reaches_peers [OF demo_cluster_relies(2) ok m(1) _ m(2) _ _ demo_cluster_relies(2) refl _ p, of ClearExpire memory_only 0 ?e]
    by (auto simp: demo_node_def demo_registries sample_fields)
  with m(1) show ?thesis by auto
qed

end
