(* ===== verification/Amalgam_Inbound.thy ===== *)
theory Amalgam_Inbound
  imports Amalgam_Marker_Facts
begin

text \<open>
  The listening half of \<open>cache/runtime.rs\<close>: what a cache does with the notifications of its peers. A
  frame is decoded, the cache's own notifications are dropped, a marker of the scope moves the
  registry, and a data notification mutates the first level under the lane of its key, unless the
  cache already knows something newer. A peer's set only starts a passive refresh, which re-reads the second
  level outside the lane. A frame that cannot be decoded, a lagging or a closed channel is a loss of
  history and treated as a connection gap. The decoder of frames and the options of the refresh are parameters.
\<close>

section \<open>Listening\<close>

record 'v inbound_env =
  ib_ignore :: bool
  ib_reader :: frame_reader
  ib_prefix :: "string option"
  ib_options :: "string \<Rightarrow> cache_error + entry_options"

definition hold_lane :: "string \<Rightarrow> 'v worker \<Rightarrow> 'v worker" where
  "hold_lane key w = w\<lparr>wk_locked := key # wk_locked w\<rparr>"

definition drop_lane :: "string \<Rightarrow> 'v worker \<Rightarrow> 'v worker" where
  "drop_lane key w = w\<lparr>wk_locked := remove1 key (wk_locked w)\<rparr>"

text \<open>The refresh that a set notification leaves to a task of its own.\<close>

datatype 'v inbound_job = NoJob | RefreshJob string "'v arc" lane_fence

text \<open>The effect of a data notification once it is the newest thing known of its key.\<close>

definition mutate_inbound ::
  "'v read_env \<Rightarrow> nat \<Rightarrow> backplane_action \<Rightarrow> timestamp \<Rightarrow> string \<Rightarrow> 'v arc option \<Rightarrow> lane_fence \<Rightarrow> 'v worker \<Rightarrow> 'v worker \<times> 'v inbound_job" where
  "mutate_inbound env n action t key existing fence w =
     (case action of
        RemoveAction \<Rightarrow>
          (let w = re_wait env n w
           in (emit (MemoryRemove_event key) (w\<lparr>wk_memory := fst (removed key None (wk_memory w))\<rparr>), NoJob))
      | ExpireAction \<Rightarrow>
          (case existing of
             None \<Rightarrow> (w, NoJob)
           | Some a \<Rightarrow>
               let w = re_wait env n w;
                   (m, _) = insert_internal (wk_ep w) (re_instant env n) (re_addr env) key
                     \<lparr>arc_addr = re_addr env, arc_entry = with_logical_expiration t (arc_entry a)\<rparr> (re_now env n) (ExpectSame a) (re_capture env) ExpireEvent
                     (wk_memory w)
               in (w\<lparr>wk_memory := m\<rparr>, NoJob))
      | SetAction \<Rightarrow> (w, case existing of None \<Rightarrow> NoJob | Some a \<Rightarrow> RefreshJob key a fence))"

definition apply_data ::
  "'v read_env \<Rightarrow> nat \<Rightarrow> backplane_message \<Rightarrow> string \<Rightarrow> 'v worker \<Rightarrow> ('v, 'v inbound_job) worker_result" where
  "apply_data env n message key w =
     (let t = msg_timestamp message; w = hold_lane key (re_wait env n (emit (MessageReceived_event key) w)) in
      if (case kl_timestamp (worker_lane key w) of Some t' \<Rightarrow> t' > t | None \<Rightarrow> False) then (drop_lane key w, Inr NoJob)
      else let now = re_now env n; w = re_wait env (n + 1) w;
               (m, existing) = store_read (wk_ep w) (re_instant env (n + 1)) key (Some now) (wk_memory w); w = w\<lparr>wk_memory := m\<rparr>;
               w = (if msg_action message = SetAction
                    then emit (case existing of Some a \<Rightarrow> MemoryHit_event key (is_logically_expired now (arc_entry a)) | None \<Rightarrow> MemoryMiss_event key) w
                    else w)
           in if (case existing of Some a \<Rightarrow> md_created (en_meta (arc_entry a)) > t | None \<Rightarrow> False) then (drop_lane key w, Inr NoJob)
              else case advance_key key t w of
                     (w, Inl er) \<Rightarrow> (drop_lane key w, Inl er)
                   | (w, Inr fence) \<Rightarrow>
                       let w = w\<lparr>wk_recovery := map_option (fst \<circ> cancel_through key t) (wk_recovery w)\<rparr>;
                           (w, job) = mutate_inbound env (n + 2) (msg_action message) t key existing fence w
                       in (drop_lane key w, Inr job))"

definition apply_control ::
  "'v cache_config \<Rightarrow> ('v, 'l, 'b) marker_env \<Rightarrow> nat \<Rightarrow> marker_command \<Rightarrow> 'v worker \<Rightarrow> ('v, 'v inbound_job) worker_result" where
  "apply_control cfg me n command w =
     (if scope_eq (cmd_scope command) (me_scope me)
      then case seed_marker cfg me n (cmd_marker command) (me_defaults me) (apply_marker (cmd_marker command) w) of
             (w, Inl er) \<Rightarrow> (w, Inl er)
           | (w, Inr _) \<Rightarrow> (emit (MarkerReceived_event command) w, Inr NoJob)
      else (w, Inr NoJob))"

text \<open>History was lost: the gap, and the pause of the recovery queue when the transport still is connected.\<close>

definition pause_recovery :: "instant \<Rightarrow> 'v worker \<Rightarrow> ('v, unit) worker_result" where
  "pause_recovery inow w =
     (case wk_recovery w of
        None \<Rightarrow> (w, Inr ())
      | Some service \<Rightarrow>
          let (service, r) = pause_after_reconnect inow service
          in (w\<lparr>wk_recovery := Some service\<rparr>, case r of Inl er \<Rightarrow> Inl (ErrRecovery er) | Inr _ \<Rightarrow> Inr ()))"

definition lost_frame ::
  "'v cache_config \<Rightarrow> ('v, 'l, 'b) marker_env \<Rightarrow> nat \<Rightarrow> backplane_message \<Rightarrow> 'v worker \<Rightarrow> ('v, 'v inbound_job) worker_result" where
  "lost_frame cfg me n message w =
     (let w = (if msg_source_id message \<noteq> cc_instance cfg
               then emit (BackplaneReceived_event message) (close_circuit BackplaneCircuit w) else w);
          (w, admitted) = replay_admitted cfg (me_commit me) n (continuity_gap cfg w);
          (w, r) = (if admitted then pause_recovery (re_instant (ce_reads (me_commit me)) n) w else (w, Inr ()))
      in (w, case r of Inl er \<Rightarrow> Inl er | Inr _ \<Rightarrow> Inr NoJob))"

definition apply_backplane ::
  "'v cache_config \<Rightarrow> ('v, 'l, 'b) marker_env \<Rightarrow> 'v inbound_env \<Rightarrow> nat \<Rightarrow> backplane_message \<Rightarrow> 'v worker \<Rightarrow> ('v, 'v inbound_job) worker_result" where
  "apply_backplane cfg me ib n message w =
     (if ib_ignore ib then (w, Inr NoJob)
      else case from_message (ib_reader ib) message of
             Inl _ \<Rightarrow> lost_frame cfg me n message w
           | Inr command \<Rightarrow>
               if command_source_id command = cc_instance cfg then (w, Inr NoJob)
               else let w = emit (BackplaneReceived_event message) (close_circuit BackplaneCircuit w)
                    in case command of
                         MarkerCmd c \<Rightarrow> apply_control cfg me n c w
                       | DataCommand m \<Rightarrow>
                           (case logical_key (cc_distributed_key cfg) (ib_prefix ib) (msg_key m) of
                              None \<Rightarrow> (w, Inr NoJob)
                            | Some key \<Rightarrow> apply_data (ce_reads (me_commit me)) n m key w))"

section \<open>Passive refresh\<close>

definition passive_raw :: "string option \<Rightarrow> string \<Rightarrow> string" where
  "passive_raw prefix key = (case Option.bind prefix (\<lambda>p. strip_prefix p key) of Some raw \<Rightarrow> raw | None \<Rightarrow> key)"

text \<open>The copy of the first level that the refresh installs over the one it replaces.\<close>

definition passive_install ::
  "'v cache_config \<Rightarrow> 'v read_env \<Rightarrow> nat \<Rightarrow> string \<Rightarrow> 'v arc \<Rightarrow> lane_fence \<Rightarrow> 'v entry \<Rightarrow> entry_options \<Rightarrow> 'v worker \<Rightarrow> ('v, unit) worker_result" where
  "passive_install cfg env n key expected fence source opts w =
     (case prepare_memory_hydration (wk_ep w) opts (re_now env n) source of
        Inl er \<Rightarrow> (w, Inl (ErrConfig er))
      | Inr None \<Rightarrow> (w, Inr ())
      | Inr (Some md) \<Rightarrow>
          (case copy_value (cc_cloner cfg) opts (en_value source) of
             Inl er \<Rightarrow> (w, Inl er)
           | Inr v \<Rightarrow>
               let local = hydration_with_hydrated_value v (ContinuityStamp_new 0 (lf_captured_epoch fence)) md; w = re_wait env n w
               in if \<not> passive_is_current fence (worker_lane key w) (wk_epoch w) then (w, Inr ())
                  else (fst (insert_if_unchanged env (n + 1) key (Some expected) local (re_wait env (n + 1) w)), Inr ())))"

text \<open>What the refresh does, holding the lane, with the answer of the second level.\<close>

definition passive_outcome ::
  "'v cache_config \<Rightarrow> 'v read_env \<Rightarrow> nat \<Rightarrow> string \<Rightarrow> 'v arc \<Rightarrow> lane_fence \<Rightarrow> entry_options \<Rightarrow> cache_error + 'v distributed_lookup option \<Rightarrow> 'v worker
   \<Rightarrow> ('v, unit) worker_result" where
  "passive_outcome cfg env n key expected fence opts found w =
     (let gone = (w\<lparr>wk_memory := fst (removed key (Some expected) (wk_memory w))\<rparr>, Inr ()) in
      if \<not> passive_is_current fence (worker_lane key w) (wk_epoch w) then (w, Inr ())
      else case found of
             Inl er \<Rightarrow> if is_cancellation er then (w, Inl er) else gone
           | Inr None \<Rightarrow> gone
           | Inr (Some f) \<Rightarrow>
               if worker_tags cfg (dl_entry f) w = Remove then gone
               else if opt_skip_memory_write opts then (w, Inr ())
               else passive_install cfg env n key expected fence (dl_entry f) opts w)"

definition passive_refresh ::
  "'v cache_config \<Rightarrow> 'v read_env \<Rightarrow> 'v inbound_env \<Rightarrow> nat \<Rightarrow> string \<Rightarrow> 'v arc \<Rightarrow> lane_fence \<Rightarrow> 'v worker \<Rightarrow> ('v, unit) worker_result" where
  "passive_refresh cfg env ib n key expected fence w =
     (case ib_options ib (passive_raw (ib_prefix ib) key) of
        Inl er \<Rightarrow> (w, Inl er)
      | Inr opts \<Rightarrow>
          let (w, found) = read_l2 cfg env n key opts False w;
              (w, r) = passive_outcome cfg env (n + 4) key expected fence opts found (hold_lane key (re_wait env (n + 3) w))
          in (drop_lane key w, r))"

section \<open>The listener\<close>

datatype listener_input = ListenMessage backplane_message | ListenLagged | ListenClosed | ListenHealth

text \<open>One turn of the listener: the result says whether it goes on, with the refresh it started.\<close>

definition listener_turn ::
  "'v cache_config \<Rightarrow> ('v, 'l, 'b) marker_env \<Rightarrow> 'v inbound_env \<Rightarrow> nat \<Rightarrow> listener_input \<Rightarrow> 'v worker \<Rightarrow> ('v, 'v inbound_job option) worker_result" where
  "listener_turn cfg me ib n input w =
     (let env = ce_reads (me_commit me) in
      case input of
        ListenMessage message \<Rightarrow>
          (case apply_backplane cfg me ib n message w of (w, Inl er) \<Rightarrow> (w, Inl er) | (w, Inr job) \<Rightarrow> (w, Inr (Some job)))
      | ListenLagged \<Rightarrow>
          (case pause_recovery (re_instant env n) (ensure_health cfg (re_health env n) (re_instant env n) (continuity_gap cfg w)) of
             (w, Inl er) \<Rightarrow> (w, Inl er)
           | (w, Inr _) \<Rightarrow> (w, Inr (Some NoJob)))
      | ListenClosed \<Rightarrow> (continuity_gap cfg w, Inr None)
      | ListenHealth \<Rightarrow> (ensure_health cfg (re_health env n) (re_instant env n) w, Inr (Some NoJob)))"

section \<open>Notifications of peers\<close>

lemma lane_held [simp]:
  "wk_memory (hold_lane key w) = wk_memory w" "wk_memory (drop_lane key w) = wk_memory w" "wk_lanes (hold_lane key w) = wk_lanes w" "wk_lanes (drop_lane key w) = wk_lanes w"
  "wk_epoch (hold_lane key w) = wk_epoch w" "wk_epoch (drop_lane key w) = wk_epoch w" "wk_tags (hold_lane key w) = wk_tags w" "wk_tags (drop_lane key w) = wk_tags w"
  "wk_recovery (hold_lane key w) = wk_recovery w" "wk_recovery (drop_lane key w) = wk_recovery w"
  "worker_lane k (hold_lane key w) = worker_lane k w" "worker_lane k (drop_lane key w) = worker_lane k w"
  by (simp_all add: hold_lane_def drop_lane_def worker_lane_def)

lemma store_read_keeps:
  assumes "store_read ep inow key now r = (r', Some a)"
  shows "lookup r' key = Some a"
  using assms by (auto simp: store_read_def retention_get_def lookup_def hmap_simps Let_def split: option.splits prod.splits memory_read.splits if_splits)

lemma removed_gone: "lookup (fst (removed key None r)) key = None"
  by (auto simp: removed_def retention_remove_def lookup_def hmap_simps Let_def split: option.splits prod.splits)

text \<open>Other operations move no lane of the key backwards.\<close>

definition inbound_rely :: "'v read_env \<Rightarrow> string \<Rightarrow> bool" where
  "inbound_rely env key \<longleftrightarrow> (\<forall>n w. kl_generation (worker_lane key w) \<le> kl_generation (worker_lane key (re_wait env n w)))"

lemma inbound_relyD: "inbound_rely env key \<Longrightarrow> kl_generation (worker_lane key w) \<le> kl_generation (worker_lane key (re_wait env n w))"
  by (simp add: inbound_rely_def)

text \<open>What the cache knows to be newer than a notification.\<close>

definition knows_newer :: "string \<Rightarrow> timestamp \<Rightarrow> 'v worker \<Rightarrow> bool" where
  "knows_newer key t w \<longleftrightarrow> (\<exists>t'. kl_timestamp (worker_lane key w) = Some t' \<and> t < t')
     \<or> (\<exists>a. lookup (wk_memory w) key = Some a \<and> t < md_created (en_meta (arc_entry a)))"

lemma emit_lane [simp]: "worker_lane key (emit e w) = worker_lane key w"
  by (simp add: worker_lane_def)

lemma advance_key_memory: "advance_key key t w = (w', r) \<Longrightarrow> wk_memory w' = wk_memory w"
  by (auto simp: advance_key_def split: sum.splits)

lemma apply_removal:
  assumes "inbound_rely env key" "msg_action m = RemoveAction" "apply_data env n m key w = (w', Inr job)"
  shows "knows_newer key (msg_timestamp m) w' \<or> lookup (wk_memory w') key = None \<and> kl_generation (worker_lane key w) < kl_generation (worker_lane key w')"
proof -
  let ?t = "msg_timestamp m" and ?u = "hold_lane key (re_wait env n (emit (MessageReceived_event key) w))"
  let ?x = "re_wait env (n + 1) ?u"
  have le: "kl_generation (worker_lane key w) \<le> kl_generation (worker_lane key ?x)"
    using inbound_relyD [OF assms(1), of "emit (MessageReceived_event key) w" n] inbound_relyD [OF assms(1), of ?u "n + 1"] by simp
  obtain r found where st: "store_read (wk_ep ?x) (re_instant env (n + 1)) key (Some (re_now env n)) (wk_memory ?x) = (r, found)" by fastforce
  let ?y = "?x\<lparr>wk_memory := r\<rparr>"
  have y: "worker_lane key ?y = worker_lane key ?x" by (simp add: worker_lane_def)
  show ?thesis
  proof (cases "case kl_timestamp (worker_lane key ?u) of Some t' \<Rightarrow> t' > ?t | None \<Rightarrow> False")
    case True
    then have "w' = drop_lane key ?u" using assms(3) by (simp add: apply_data_def Let_def)
    then show ?thesis using True by (auto simp: knows_newer_def split: option.splits)
  next
    case lane: False
    show ?thesis
    proof (cases "case found of Some a \<Rightarrow> md_created (en_meta (arc_entry a)) > ?t | None \<Rightarrow> False")
      case True
      then obtain a where a: "found = Some a" "md_created (en_meta (arc_entry a)) > ?t" by (auto split: option.splits)
      then have "w' = drop_lane key ?y" using assms(2,3) lane st by (simp add: apply_data_def Let_def)
      then show ?thesis using store_read_keeps [of _ _ _ _ _ r a] st a by (auto simp: knows_newer_def)
    next
      case False
      obtain z f where z: "advance_key key ?t ?y = (z, Inr f)" "w' = drop_lane key (fst (mutate_inbound env (n + 2) RemoveAction ?t key found f
          (z\<lparr>wk_recovery := map_option (fst \<circ> cancel_through key ?t) (wk_recovery z)\<rparr>)))"
        using assms(2,3) lane False st by (auto simp: apply_data_def Let_def split: prod.splits sum.splits)
      let ?z = "z\<lparr>wk_recovery := map_option (fst \<circ> cancel_through key ?t) (wk_recovery z)\<rparr>"
      have "worker_lane key ?z = worker_lane key z" by (simp add: worker_lane_def)
      then have "kl_generation (worker_lane key w) < kl_generation (worker_lane key (re_wait env (n + 2) ?z))"
        using advance_key_lane(1) [OF z(1)] le inbound_relyD [OF assms(1), of ?z "n + 2"] y by simp
      moreover have "wk_lanes w' = wk_lanes (re_wait env (n + 2) ?z)" by (simp add: z(2) mutate_inbound_def Let_def)
      moreover have "lookup (wk_memory w') key = None" by (simp add: z(2) mutate_inbound_def removed_gone Let_def)
      ultimately show ?thesis by (simp add: worker_lane_def)
    qed
  qed
qed

lemma removal_published:
  assumes "cc_backplane cfg" "key_mutation cfg env key kind opts s = (s', Inr (receipt, outcome, level))"
    "receipt_wait ErrCacheClosed receipt = waited.Returned (Inr report)" "report_backplane report = EffectApplied"
  shows "sv_published s' \<noteq> [] \<and> last (sv_published s') = DataCommand \<lparr>msg_source_id = cc_instance cfg, msg_timestamp = ce_now env 0,
     msg_action = mutation_action kind, msg_key = l2_text cfg key\<rparr>"
proof -
  have plan: "WritePlan_select cfg (ce_locker env) = GeneralPlan" using assms(1) by (simp add: WritePlan_select_def)
  obtain s1 where o': "ordered_mutation cfg env key kind opts s = (s1, Inr receipt)" and s1: "sv_published s' = sv_published s1"
    using assms(2) by (cases kind) (auto simp: key_mutation_def plan on_worker_def split: prod.splits sum.splits)
  obtain n data fence effect x r where c: "commit_data cfg env n key data (data_command cfg (mutation_action kind) key (ce_now env 0) opts) opts fence None (LocalApplied effect) x = (s1, r)"
    and p: "pipeline_receipt (commit_mode_of cfg opts) r = Inr receipt"
    using o' by (auto simp: ordered_mutation_def Let_def split: prod.splits sum.splits)
  obtain rc where rc: "r = Inr rc" "receipt_wait ErrCacheClosed rc = waited.Returned (Inr report)"
    using p assms(3) by (auto simp: pipeline_receipt_def schedule_receipt_def completion_wait_def split: commit_mode.splits sum.splits waited.splits)
  from commit_data_notified [OF assms(1) c [unfolded rc(1)] rc(2)] assms(4)
  show ?thesis by (auto simp: data_command_def s1 split: if_splits)
qed

text \<open>
  C24. Removal across nodes: when a removal reports that its notification was published, then a peer of the
  same namespace that processes it, whatever its other operations do meanwhile, ends with no value of
  the key in its first level, and no second-level value that it had read before is installed afterwards. The only
  exception is a peer that already knows of a later mutation of the key or holds a later value.
\<close>
theorem removal_reaches_peers:
  assumes "cc_backplane cfg" and "key_mutation cfg env key KeyRemove opts s = (s', Inr (receipt, outcome, level))"
    and "receipt_wait ErrCacheClosed receipt = waited.Returned (Inr report)" and "report_backplane report = EffectApplied"
    and "cc_distributed_key cfg = DistributedKey_new version mode" and "from_utf8 version" and "pred_option from_utf8 prefix" and "from_utf8 raw"
    and "key = full_key prefix raw" and "into_message to_vec (last (sv_published s')) = Inr message"
    and "\<And>f bytes. to_vec f = Inr bytes \<Longrightarrow> ib_reader ib bytes = Inr f"
    and "cc_distributed_key peer = cc_distributed_key cfg" and "ib_prefix ib = prefix" and "cc_instance peer \<noteq> cc_instance cfg" and "\<not> ib_ignore ib"
    and "inbound_rely (ce_reads (me_commit me)) key" and "apply_backplane peer me ib n message w = (w', Inr job)"
  shows "knows_newer key (ce_now env 0) w' \<or> lookup (wk_memory w') key = None
    \<and> (\<forall>found f obs. dl_hydration found = StableFence f obs \<and> lf_generation f \<le> kl_generation (worker_lane key w) \<longrightarrow>
         (\<exists>r. hydrate peer renv k key found opts' w' = (w', Inr (HydrationSkipped r))))"
proof -
  let ?m = "\<lparr>msg_source_id = cc_instance cfg, msg_timestamp = ce_now env 0, msg_action = RemoveAction, msg_key = l2_text cfg key\<rparr>"
  let ?w = "emit (BackplaneReceived_event message) (close_circuit BackplaneCircuit w)"
  have last: "last (sv_published s') = DataCommand ?m" using removal_published [OF assms(1-4)] by simp
  have decoded: "from_message (ib_reader ib) message = Inr (DataCommand ?m)"
    by (rule data_message_round_trip [OF assms(10) [unfolded last] assms(11)])
  have "logical_key (cc_distributed_key peer) (ib_prefix ib) (l2_text cfg key) = Some key"
    using physical_keys_faithful [OF assms(6-8), of mode] assms(5,9,12,13) by (auto simp: l2_text_def)
  then have a: "apply_data (ce_reads (me_commit me)) n ?m key ?w = (w', Inr job)"
    using assms(14,15,17) by (simp add: apply_backplane_def decoded)
  have "kl_generation (worker_lane key ?w) = kl_generation (worker_lane key w)" by (simp add: worker_lane_def)
  then show ?thesis using apply_removal [OF assms(16) _ a] hydrate_outdated [where key = key and w = w' and cfg = peer and env = renv and n = k and opts = opts']
    by fastforce
qed

section \<open>Refreshes\<close>

lemma removed_same_gone: "lookup (fst (removed key (Some a) r)) key \<noteq> Some a"
  by (auto simp: removed_def retention_remove_def lookup_def is_same_instance_def hmap_simps Let_def split: option.splits prod.splits if_splits)

text \<open>When the second level no longer has the value, or cannot be asked, the superseded copy goes.\<close>

lemma failed_refresh_drops:
  assumes "passive_is_current fence (worker_lane key w) (wk_epoch w)" "found = Inr None \<or> (\<exists>er. found = Inl er \<and> \<not> is_cancellation er)"
    "passive_outcome cfg env n key expected fence opts found w = (w', r)"
  shows "r = Inr () \<and> lookup (wk_memory w') key \<noteq> Some expected"
  using assms removed_same_gone [of key expected] by (auto simp: passive_outcome_def Let_def)

text \<open>
  But a refresh that did find the newer value keeps the superseded copy when its options skip the first level, or
  when the newer value has no lifetime there.
\<close>

lemma refresh_keeps_superseded:
  assumes "worker_tags cfg (dl_entry f) w \<noteq> Remove"
    "opt_skip_memory_write opts \<or> prepare_memory_hydration (wk_ep w) opts (re_now env n) (dl_entry f) = Inr None"
  shows "passive_outcome cfg env n key expected fence opts (Inr (Some f)) w = (w, Inr ())"
  using assms by (auto simp: passive_outcome_def passive_install_def Let_def)

section \<open>Markers of peers and lost history\<close>

text \<open>
  C25. Invalidations of peers: once the notification of a peer's marker has been processed, every matching entry of the
  scope that was created up to the announced revision is no longer valid here, and removed where
  the marker or the configuration says so; no entry becomes valid by it.
\<close>
theorem marker_notification_effective:
  assumes "from_message (ib_reader ib) message = Inr (MarkerCmd c)" and "cmd_source_id c \<noteq> cc_instance cfg" and "\<not> ib_ignore ib"
    and "scope_eq (cmd_scope c) (me_scope me)" and "marker_rely me" and "registry_ok (wk_tags w)" and "\<not> cc_disable_tagging cfg"
    and "apply_backplane cfg me ib n message w = (w', r)"
    and "kind_matches (marker_kind_of (cmd_marker c)) (md_tags (en_meta e))" and "md_created (en_meta e) \<le> marker_version_of (cmd_marker c)"
  shows "worker_tags cfg e w' \<noteq> Valid \<and> registry_ok (wk_tags w')
    \<and> (marker_kind_of (cmd_marker c) = ClearRemove \<or> (\<exists>t. marker_kind_of (cmd_marker c) = TagKind t) \<and> cc_remove_by_tag cfg = RemoveMatched
        \<longrightarrow> worker_tags cfg e w' = Remove)"
proof -
  let ?w = "emit (BackplaneReceived_event message) (close_circuit BackplaneCircuit w)" and ?m = "cmd_marker c"
  have ok: "registry_ok (wk_tags ?w)" using assms(6) by simp
  have ok1: "registry_ok (wk_tags (apply_marker ?m ?w))" by (rule ok_tags_le [OF ok tags_le_apply])
  have cov: "registry_covers (wk_tags (apply_marker ?m ?w)) (marker_kind_of ?m) (md_created (en_meta e))"
    using fold_apply_covers [OF ok, of ?m "[?m]"] assms(10) by simp
  obtain x y where x: "seed_marker cfg me n ?m (me_defaults me) (apply_marker ?m ?w) = (x, y)" by fastforce
  have le: "tags_le (apply_marker ?m ?w) w'"
    using assms(1-4,8) seed_marker_tags [OF assms(5) x] by (auto simp: apply_backplane_def apply_control_def x Let_def split: sum.splits)
  have ok': "registry_ok (wk_tags w')" by (rule ok_tags_le [OF ok1 le])
  have "registry_covers (wk_tags w') (marker_kind_of ?m) (md_created (en_meta e))" by (rule covers_tags_le [OF ok1 cov le])
  from covered_verdict [OF ok' this assms(9,7)] ok' show ?thesis by blast
qed

lemma gap_continuity:
  assumes "invalidates_on_gap (cc_reconciliation cfg)"
  shows "rt_entries (wk_memory (continuity_gap cfg w)) = []"
    "wk_epoch (continuity_gap cfg w) = (case checked_add_u64 (wk_epoch w) 1 of Some n \<Rightarrow> n | None \<Rightarrow> wk_epoch w)"
    "wk_closed (continuity_gap cfg w) = (checked_add_u64 (wk_epoch w) 1 = None \<or> wk_closed w)"
    "cc_marker_reads cfg = OptionsControlled \<Longrightarrow> rt_entries (wk_observed (continuity_gap cfg w)) = [] \<and> wk_clears (continuity_gap cfg w) = reset_clears"
  using assms by (simp_all add: continuity_gap_def invalidate_all_def Let_def split: option.split)

text \<open>The recovery queue does not replay before the barrier is lifted again.\<close>

definition held_back :: "'v worker \<Rightarrow> bool" where
  "held_back w \<longleftrightarrow> (\<forall>service. wk_recovery w = Some service \<longrightarrow> rs_barrier service \<noteq> BarrierReady)"

lemma held_back_gap: "held_back (continuity_gap cfg w)"
  by (auto simp: held_back_def continuity_gap_def suspend_def Let_def)

lemma pause_not_ready: "rs_barrier service \<noteq> BarrierReady \<Longrightarrow> rs_barrier (fst (pause_after_reconnect inow service)) \<noteq> BarrierReady"
  by (simp add: pause_after_reconnect_def split: option.split)

lemma held_back_stop: "held_back w \<Longrightarrow> held_back (close_cache w)"
  by (auto simp: held_back_def close_cache_def recovery_stop_def)

lemma held_back_health: "held_back w \<Longrightarrow> held_back (ensure_health cfg latest inow w)"
  by (auto simp: ensure_health_def held_back_def close_cache_def recovery_stop_def suspend_def pause_not_ready Let_def split: option.splits)

lemma held_back_pause: "held_back w \<Longrightarrow> held_back (fst (pause_recovery inow w))"
  using pause_not_ready by (auto simp: pause_recovery_def held_back_def Let_def split: option.splits prod.splits) (metis fst_conv)

text \<open>A later look at the connection only ever discards more.\<close>

lemma health_discards:
  assumes "invalidates_on_gap (cc_reconciliation cfg)" "rt_entries (wk_memory w) = []"
  shows "rt_entries (wk_memory (ensure_health cfg latest inow w)) = []" "wk_epoch w \<le> wk_epoch (ensure_health cfg latest inow w)"
    "wk_closed w \<Longrightarrow> wk_closed (ensure_health cfg latest inow w)"
    "cc_marker_reads cfg = OptionsControlled \<Longrightarrow> rt_entries (wk_observed w) = [] \<and> wk_clears w = reset_clears \<Longrightarrow>
       rt_entries (wk_observed (ensure_health cfg latest inow w)) = [] \<and> wk_clears (ensure_health cfg latest inow w) = reset_clears"
  using assms by (auto simp: ensure_health_def invalidate_all_def checked_add_u64_def Let_def split: option.splits)

lemma pause_frames:
  assumes "pause_recovery inow w = (w', r)"
  shows "wk_memory w' = wk_memory w" "wk_epoch w' = wk_epoch w" "wk_closed w' = wk_closed w" "wk_observed w' = wk_observed w" "wk_clears w' = wk_clears w"
  using assms by (auto simp: pause_recovery_def Let_def split: option.splits prod.splits)

text \<open>An input that loses notifications.\<close>

definition loses_history :: "'v inbound_env \<Rightarrow> listener_input \<Rightarrow> bool" where
  "loses_history ib input \<longleftrightarrow> (case input of
      ListenMessage message \<Rightarrow> \<not> ib_ignore ib \<and> (\<exists>er. from_message (ib_reader ib) message = Inl er)
    | ListenLagged \<Rightarrow> True | ListenClosed \<Rightarrow> True | ListenHealth \<Rightarrow> False)"

lemma closed_frames [simp]: "wk_closed (emit e w) = wk_closed w" "wk_closed (close_circuit c w) = wk_closed w"
  by (cases c; simp add: emit_def close_circuit_def Let_def split: prod.split)+

lemma lost_turn:
  assumes "loses_history ib input" "listener_turn cfg me ib n input w = (w', r)"
  shows "\<exists>u latest inow v. wk_epoch u = wk_epoch w \<and> wk_closed u = wk_closed w
    \<and> v \<in> {continuity_gap cfg u, ensure_health cfg latest inow (continuity_gap cfg u)} \<and> held_back w'
    \<and> wk_memory w' = wk_memory v \<and> wk_epoch w' = wk_epoch v \<and> wk_closed w' = wk_closed v \<and> wk_observed w' = wk_observed v \<and> wk_clears w' = wk_clears v"
proof -
  let ?env = "ce_reads (me_commit me)"
  let ?health = "\<lambda>u. ensure_health cfg (re_health ?env n) (re_instant ?env n) (continuity_gap cfg u)"
  have paused: ?thesis if p: "pause_recovery (re_instant ?env n) (?health u) = (w', x)" "wk_epoch u = wk_epoch w" "wk_closed u = wk_closed w" for u x
    using pause_frames [OF p(1)] p held_back_pause [OF held_back_health [OF held_back_gap], of "re_instant ?env n" cfg "re_health ?env n" "re_instant ?env n" cfg u]
    by (intro exI [of _ u] exI [of _ "re_health ?env n"] exI [of _ "re_instant ?env n"] exI [of _ "?health u"]) simp
  have plain: ?thesis if "w' = ?health u" "wk_epoch u = wk_epoch w" "wk_closed u = wk_closed w" for u
    using that held_back_health [OF held_back_gap] by blast
  show ?thesis
  proof (cases input)
    case (ListenMessage message)
    let ?u = "if msg_source_id message \<noteq> cc_instance cfg then emit (BackplaneReceived_event message) (close_circuit BackplaneCircuit w) else w"
    have u: "wk_epoch ?u = wk_epoch w" "wk_closed ?u = wk_closed w" by simp_all
    have l: "\<exists>x. lost_frame cfg me n message w = (w', x)" using assms ListenMessage
      by (auto simp: loses_history_def listener_turn_def apply_backplane_def split: prod.splits sum.splits)
    then have "(\<exists>x. pause_recovery (re_instant ?env n) (?health ?u) = (w', x)) \<or> w' = ?health ?u"
      by (auto simp: lost_frame_def replay_admitted_def Let_def split: prod.splits if_splits option.splits)
    then show ?thesis using paused plain u by blast
  next
    case ListenLagged
    then have "\<exists>x. pause_recovery (re_instant ?env n) (?health w) = (w', x)" using assms(2) by (auto simp: listener_turn_def Let_def split: prod.splits sum.splits)
    then show ?thesis using paused by blast
  next
    case ListenClosed
    then have "w' = continuity_gap cfg w" using assms(2) by (simp add: listener_turn_def)
    then show ?thesis using held_back_gap by blast
  next
    case ListenHealth
    then show ?thesis using assms(1) by (simp add: loses_history_def)
  qed
qed

text \<open>
  C26. Lost notifications, under every reconciliation policy other than \<open>Expiration\<close> and
  \<open>BackplaneBestEffort\<close> (which keep the first level over a gap by design): when the listener meets a
  frame it cannot decode, a channel that dropped messages or one that was closed, the first level is
  emptied (and what a controlled marker policy remembers), every value taken from the second level
  before is ineligible from then on, an exhausted epoch closes the cache, and no queued work is
  replayed before the recovery barrier is lifted again.
\<close>
theorem lost_history_discards:
  assumes "loses_history ib input" and "listener_turn cfg me ib n input w = (w', r)"
    and "cc_reconciliation cfg \<notin> {ExpirationPolicy, BackplaneBestEffort}"
  shows "rt_entries (wk_memory w') = [] \<and> held_back w'
    \<and> (cc_marker_reads cfg = OptionsControlled \<longrightarrow> rt_entries (wk_observed w') = [] \<and> wk_clears w' = reset_clears)
    \<and> (wk_epoch w < u64_max \<longrightarrow> wk_epoch w < wk_epoch w'
        \<and> (\<forall>e stamp ep. en_eligibility e = Hydrated stamp \<and> stamp_captured stamp \<le> wk_epoch w \<and> wk_epoch w' \<le> ep \<longrightarrow> \<not> is_read_eligible (\<lambda>_. ep) e))
    \<and> (wk_epoch w = u64_max \<longrightarrow> wk_closed w')"
proof -
  have reconciles: "invalidates_on_gap (cc_reconciliation cfg)" using assms(3) by (cases "cc_reconciliation cfg") simp_all
  obtain u latest inow v where u: "wk_epoch u = wk_epoch w" and v: "v \<in> {continuity_gap cfg u, ensure_health cfg latest inow (continuity_gap cfg u)}"
    and w': "held_back w'" "wk_memory w' = wk_memory v" "wk_epoch w' = wk_epoch v" "wk_closed w' = wk_closed v" "wk_observed w' = wk_observed v" "wk_clears w' = wk_clears v"
    using lost_turn [OF assms(1,2)] by blast
  note gap = gap_continuity [OF reconciles, of u]
  note later = health_discards [OF reconciles gap(1), of latest inow]
  have "rt_entries (wk_memory v) = []" "wk_epoch (continuity_gap cfg u) \<le> wk_epoch v" "wk_closed (continuity_gap cfg u) \<longrightarrow> wk_closed v"
    "cc_marker_reads cfg = OptionsControlled \<longrightarrow> rt_entries (wk_observed v) = [] \<and> wk_clears v = reset_clears"
    using v gap later by auto
  then have "rt_entries (wk_memory w') = []" "wk_epoch w < u64_max \<longrightarrow> wk_epoch w < wk_epoch w'" "wk_epoch w = u64_max \<longrightarrow> wk_closed w'"
    "cc_marker_reads cfg = OptionsControlled \<longrightarrow> rt_entries (wk_observed w') = [] \<and> wk_clears w' = reset_clears"
    using w' gap(2,3) u by (auto simp: checked_add_u64_def split: if_splits)
  moreover have "\<not> is_read_eligible (\<lambda>_. ep) e" if "wk_epoch w < wk_epoch w'" "en_eligibility e = Hydrated stamp" "stamp_captured stamp \<le> wk_epoch w" "wk_epoch w' \<le> ep" for e stamp ep
    using that by (simp add: is_read_eligible_def stamp_is_current_def)
  ultimately show ?thesis using w'(1) by blast
qed

section \<open>A small listener\<close>

definition demo_inbound :: "nat inbound_env" where
  "demo_inbound = \<lparr>ib_ignore = False, ib_reader = demo_reader, ib_prefix = None, ib_options = (\<lambda>_. Inr (EntryOptions_new 500))\<rparr>"

theorem lost_history_discards_witness:
  "rt_entries (wk_memory (fst (listener_turn demo_cache demo_cluster demo_inbound 0 ListenClosed demo_worker))) = []"
proof -
  have "loses_history demo_inbound ListenClosed" "cc_reconciliation (demo_cache :: nat cache_config) \<notin> {ExpirationPolicy, BackplaneBestEffort}"
    by (simp_all add: loses_history_def demo_cache_def)
  from lost_history_discards [OF this(1) prod.collapse [symmetric] this(2)] show ?thesis by blast
qed

theorem marker_notification_effective_witness:
  "worker_tags demo_cache (sample_entry\<lparr>en_meta := (en_meta sample_entry)\<lparr>md_created := 5, md_tags := [Tag ''t'']\<rparr>\<rparr>)
     (fst (apply_backplane demo_cache demo_cluster demo_inbound 0 demo_message demo_worker)) \<noteq> Valid"
proof -
  have m: "from_message (ib_reader demo_inbound) demo_message = Inr (MarkerCmd demo_command)"
    using backplane_round_trip_witness by (simp add: demo_inbound_def)
  show ?thesis
    by (rule marker_notification_effective [OF m _ _ _ demo_cluster_relies(1) _ _ prod.collapse [symmetric], THEN conjunct1])
      (simp_all add: demo_command_def demo_inbound_def demo_cache_def demo_registries scope_eq_def)
qed

lemma demo_key: "l2_text (demo_cache :: nat cache_config) ''k'' = ''k''" "DK_Unmodified = DistributedKey_new [] NoModifier"
  by (simp_all add: l2_text_def demo_cache_def l2_key_def DistributedKey_new_def)

abbreviation demo_peer :: "nat cache_config" where
  "demo_peer \<equiv> demo_cache\<lparr>cc_instance := ''b''\<rparr>"

abbreviation demo_announced :: backplane_message where
  "demo_announced \<equiv> \<lparr>msg_source_id = ''a'', msg_timestamp = 102, msg_action = RemoveAction, msg_key = ''k''\<rparr>"

lemma demo_removal_published: "\<exists>s' report. key_mutation demo_cache demo_pipeline ''k'' KeyRemove (EntryOptions_new 500) demo_site =
     (s', Inr (schedule_receipt (Inr report), OutRemoved, None)) \<and> report_backplane report = EffectApplied \<and> last (sv_published s') = DataCommand demo_announced"
  using demo_key
  by (simp add: key_mutation_def ordered_mutation_def local_mutation_def mutation_data_def demo_pipeline_eval option_defs demo_cache_def schedule_receipt_def)

lemma demo_received: "\<exists>w' job. apply_backplane demo_peer demo_cluster demo_inbound 0 demo_announced demo_worker = (w', Inr job)"
proof -
  obtain r found where st: "store_read (\<lambda>_. 0) 0 ''k'' (Some 102) (wk_memory demo_worker) = (r, found)" by fastforce
  have m: "from_message demo_reader demo_announced = Inr (DataCommand demo_announced)" by (simp add: from_message_def CONTROL_PREFIX_def)
  have k: "logical_key DK_Unmodified None ''k'' = Some ''k''" by (simp add: logical_key_def)
  have lane: "worker_lane ''k'' (demo_worker\<lparr>wk_events := es, wk_bp := b, wk_locked := ks, wk_memory := mm\<rparr>) = KeyLane_new" for es b ks mm
    by (simp add: worker_lane_def)
  show ?thesis using st
    by (auto simp: apply_backplane_def apply_data_def m k demo_inbound_def quiet_read_def hold_lane_def advance_key_def lane_advance_def advance_revision_def
        checked_add_u64_def KeyLane_new_def worker_lane_def Let_def split: option.splits prod.splits sum.splits)
qed

theorem removal_reaches_peers_witness:
  "\<exists>s' out w' job. key_mutation demo_cache demo_pipeline ''k'' KeyRemove (EntryOptions_new 500) demo_site = (s', Inr out)
    \<and> apply_backplane demo_peer demo_cluster demo_inbound 0 demo_announced demo_worker = (w', Inr job)
    \<and> (knows_newer ''k'' 102 w' \<or> lookup (wk_memory w') ''k'' = None)"
proof -
  obtain s' report where a: "key_mutation demo_cache demo_pipeline ''k'' KeyRemove (EntryOptions_new 500) demo_site = (s', Inr (schedule_receipt (Inr report), OutRemoved, None))"
    "report_backplane report = EffectApplied" "last (sv_published s') = DataCommand demo_announced" using demo_removal_published by blast
  obtain w' job where b: "apply_backplane demo_peer demo_cluster demo_inbound 0 demo_announced demo_worker = (w', Inr job)" using demo_received by blast
  have r: "receipt_wait ErrCacheClosed (schedule_receipt (Inr report)) = waited.Returned (Inr report)" by (simp add: schedule_receipt_def completion_wait_def)
  have i: "into_message (\<lambda>_. Inl []) (last (sv_published s')) = Inr demo_announced" by (simp add: a(3) CONTROL_PREFIX_def)
  have "knows_newer ''k'' (ce_now demo_pipeline 0) w' \<or> lookup (wk_memory w') ''k'' = None"
    using removal_reaches_peers [OF _ a(1) r a(2) _ _ _ _ _ i _ _ _ _ _ _ b, of "[]" NoModifier None "''k''"] demo_key(2)
    by (simp add: from_utf8_def byte_of_def utf8_ok.simps(2) full_key_def demo_inbound_def inbound_rely_def demo_cache_def) auto
  then show ?thesis using a(1) b by auto
qed

end
