(* ===== verification/Amalgam_Marker_Replay.thy ===== *)
theory Amalgam_Marker_Replay
  imports Amalgam_Marker_Facts
begin

text \<open>
  The replay of queued marker work (\<open>cache/marker_recovery.rs\<close>, \<open>cache/recovery.rs\<close>): an invalidation whose durable
  write, snapshot or notification failed is carried on from the stage it had reached. The stages run
  under the marker lane and before each of them the ticket must still own its queue entry and the connection
  must be admitted. The lemmas show that superseded work does nothing, that replayed work keeps its registry and store
  moving forward, and that an invalidation whose replay was acknowledged is as durable as one that
  succeeded at once.
\<close>

section \<open>Environment\<close>

text \<open>The acquisition of a marker lease (\<open>None\<close>: no locker is configured) and its release.\<close>

record 'l lease_provider =
  lp_acquire :: "nat \<Rightarrow> marker_snapshot_replay \<Rightarrow> (lease_error + 'l option) option"
  lp_release :: "nat \<Rightarrow> 'l \<Rightarrow> lease_error + unit"

definition cancel_check :: "('v, 'l, 'b) marker_env \<Rightarrow> nat \<Rightarrow> cache_error option" where
  "cancel_check me n = map_option ErrOperationCancelled (re_cancel (ce_reads (me_commit me)) n)"

text \<open>Marker tickets carry no fence, so that the lane the gate looks at does not matter.\<close>

definition marker_gate ::
  "'v cache_config \<Rightarrow> ('v, 'l, 'b) marker_env \<Rightarrow> nat \<Rightarrow> replay_ticket \<Rightarrow> ('v, 'b) site \<Rightarrow> ('v, 'b) site \<times> replay_outcome option" where
  "marker_gate cfg me n t s = replay_gate cfg (me_commit me) n invalidation_label t s"

definition stage_work ::
  "(recovery_service \<Rightarrow> recovery_service \<times> recovery_stage_transition) \<Rightarrow> ('v, 'b) site \<Rightarrow> ('v, 'b) site \<times> recovery_stage_transition" where
  "stage_work stage s =
     (case wk_recovery (sv_worker s) of
        None \<Rightarrow> (s, StageSuperseded)
      | Some service \<Rightarrow> let (service, r) = stage service in (on_worker (\<lambda>w. w\<lparr>wk_recovery := Some service\<rparr>) s, r))"

section \<open>Snapshots\<close>

definition reacquire_marker_snapshot ::
  "('v, 'l, 'b) marker_env \<Rightarrow> 'l lease_provider \<Rightarrow> nat \<Rightarrow> marker_snapshot_replay \<Rightarrow> cache_error + 'l control_lease" where
  "reacquire_marker_snapshot me lp n work =
     (if replay_participation work = marker_snapshot_participation.Unleased then Inr ControlUnleased
      else case cancel_check me n of
             Some er \<Rightarrow> Inl er
           | None \<Rightarrow>
               (case lp_acquire lp n work of
                  None \<Rightarrow> Inl (ErrLease UnsupportedFencing)
                | Some (Inl er) \<Rightarrow> Inl (ErrLease er)
                | Some (Inr None) \<Rightarrow> Inl (ErrLease AcquisitionTimeout)
                | Some (Inr (Some lease)) \<Rightarrow>
                    (case cancel_check me (n + 1) of
                       Some er \<Rightarrow> Inl er
                     | None \<Rightarrow> Inr (if replay_participation work = Fenced then ControlFenced lease else ControlCooperative lease))))"

fun marker_replay_effect :: "cache_error effect_outcome \<Rightarrow> cache_error + replay_outcome" where
  "marker_replay_effect EffectApplied = Inr ReplayApplied"
| "marker_replay_effect NotConfigured = Inr ReplayApplied"
| "marker_replay_effect (EffectSkipped SkipPhysicallyExpired) = Inr ReplayExpired"
| "marker_replay_effect (EffectSkipped SkipSuperseded) = Inr ReplayPaused"
| "marker_replay_effect (EffectSkipped SkipPolicy) = Inr ReplaySuperseded"
| "marker_replay_effect _ = Inl (ErrRecovery InvalidMarkerStage)"

fun control_release :: "'l lease_provider \<Rightarrow> nat \<Rightarrow> 'l control_lease \<Rightarrow> lease_error + unit" where
  "control_release lp n ControlUnleased = Inr ()"
| "control_release lp n (ControlFenced l) = lp_release lp n l"
| "control_release lp n (ControlCooperative l) = lp_release lp n l"

definition finish_control_marker_lease ::
  "'v cache_config \<Rightarrow> ('v, 'l, 'b) marker_env \<Rightarrow> 'l lease_provider \<Rightarrow> nat \<Rightarrow> 'l control_lease \<Rightarrow> cache_error + 'a \<Rightarrow> cache_error + 'a" where
  "finish_control_marker_lease cfg me lp n lease result =
     (let freed = (case control_release lp n lease of
                     Inl (LeaseBackend e) \<Rightarrow>
                       if cc_lease_policy cfg = CooperativePolicy \<and> \<not> opt_rethrow_distributed_locker_exceptions (me_defaults me) then Inr () else Inl (LeaseBackend e)
                   | r \<Rightarrow> r)
      in case result of
           Inl er \<Rightarrow> Inl er
         | Inr v \<Rightarrow> (case freed of Inl er \<Rightarrow> Inl (ErrLease er) | Inr _ \<Rightarrow> Inr v))"

definition replay_marker_snapshot ::
  "'v cache_config \<Rightarrow> ('v, 'l, 'b) marker_env \<Rightarrow> 'l lease_provider \<Rightarrow> nat \<Rightarrow> replay_ticket \<Rightarrow> marker_snapshot_replay \<Rightarrow> ('v, 'b) site
   \<Rightarrow> ('v, 'b, replay_outcome) site_result" where
  "replay_marker_snapshot cfg me lp n t work s =
     (if \<not> scope_eq (replay_scope work) (me_scope me) then (s, Inl (ErrRecovery MarkerIdentityChanged))
      else if \<not> marker_snapshot_provider cfg me then (s, Inl (ErrMarker MarkerUnsupported))
      else let s = ce_wait (me_commit me) n s
           in case reacquire_marker_snapshot me lp n work of
                Inl er \<Rightarrow> (s, Inl er)
              | Inr lease \<Rightarrow>
                  let commit = \<lparr>sc_kind = replay_kind work, sc_snapshot = replay_snapshot work, sc_options = replay_options work,
                                sc_captured = wk_epoch (sv_worker s), sc_lease = lease, sc_local = ObservationAdmitted\<rparr>;
                      (s, r) = (case marker_gate cfg me (n + 2) t (ce_wait (me_commit me) (n + 1) s) of
                                  (s, Some out) \<Rightarrow> (s, Inr out)
                                | (s, None) \<Rightarrow>
                                    (case commit_control_snapshot cfg me (n + 3) commit ReplayPolicy s of
                                       (s, Inl er) \<Rightarrow> (s, Inl er)
                                     | (s, Inr effect) \<Rightarrow> (s, marker_replay_effect effect)))
                  in (s, finish_control_marker_lease cfg me lp n lease r))"

section \<open>Mutations\<close>

definition advance_captured_marker ::
  "'v cache_config \<Rightarrow> ('v, 'l, 'b) marker_env \<Rightarrow> nat \<Rightarrow> marker_mutation_recovery \<Rightarrow> marker_snapshot \<Rightarrow> entry_options \<Rightarrow> ('v, 'b) site
   \<Rightarrow> ('v, 'b, marker_mutation_recovery) site_result" where
  "advance_captured_marker cfg me n work snap opts s =
     (case write_marker_revision me n (mm_scope work) (mm_kind work) snap opts s of
        (s, Inl er) \<Rightarrow> (s, Inl er)
      | (s, Inr outcome) \<Rightarrow>
          let s = on_worker (apply_marker (write_outcome_marker outcome)) s;
              create = (\<lambda>m. MarkerCommand_new (cc_instance cfg) (me_scope me) m);
              finish = (\<lambda>s committed additional. (s, case population work committed additional of Inl er \<Rightarrow> Inl (ErrRecovery er) | Inr w \<Rightarrow> Inr w))
          in case create (write_outcome_marker outcome) of
               Inl er \<Rightarrow> (s, Inl (ErrMarker er))
             | Inr committed \<Rightarrow>
                 (case outcome of
                    MarkerWritten _ \<Rightarrow> finish s committed []
                  | MarkerCompacted _ clear_remove \<Rightarrow>
                      (case create (StoredMarker ClearRemove clear_remove) of
                         Inl er \<Rightarrow> (s, Inl (ErrMarker er))
                       | Inr clear \<Rightarrow> finish (on_worker (apply_marker (cmd_marker clear)) s) committed [clear])))"

text \<open>The loops over the commands of a work item: an outcome ends the replay, \<open>None\<close> lets it go on.\<close>

fun replay_populate ::
  "'v cache_config \<Rightarrow> ('v, 'l, 'b) marker_env \<Rightarrow> nat \<Rightarrow> replay_ticket \<Rightarrow> entry_options \<Rightarrow> timestamp \<Rightarrow> marker_command list \<Rightarrow> ('v, 'b) site
   \<Rightarrow> ('v, 'b, replay_outcome option) site_result" where
  "replay_populate cfg me n t opts created [] s = (s, Inr None)"
| "replay_populate cfg me n t opts created (command # commands) s =
     (case cancel_check me n of
        Some er \<Rightarrow> (s, Inl er)
      | None \<Rightarrow>
          (case marker_gate cfg me n t s of
             (s, Some out) \<Rightarrow> (s, Inr (Some out))
           | (s, None) \<Rightarrow>
               (case populate_marker_snapshot cfg me (n + 1) command opts created ReplayPolicy s of
                  (s, Inl er) \<Rightarrow> (s, Inl er)
                | (s, Inr effect) \<Rightarrow>
                    if effect = EffectSkipped SkipSuperseded then (s, Inr (Some ReplayPaused))
                    else replay_populate cfg me (n + 4) t opts created commands s)))"

fun replay_publish ::
  "'v cache_config \<Rightarrow> ('v, 'l, 'b) marker_env \<Rightarrow> nat \<Rightarrow> replay_ticket \<Rightarrow> marker_command list \<Rightarrow> ('v, 'b) site \<Rightarrow> ('v, 'b, replay_outcome) site_result" where
  "replay_publish cfg me n t [] s = (s, Inr ReplayApplied)"
| "replay_publish cfg me n t (command # commands) s =
     (case cancel_check me n of
        Some er \<Rightarrow> (s, Inl er)
      | None \<Rightarrow>
          (case marker_gate cfg me n t s of
             (s, Some out) \<Rightarrow> (s, Inr out)
           | (s, None) \<Rightarrow>
               (case replay_notify cfg (me_commit me) (n + 1) (Some (MarkerCmd command)) s of
                  (s, Inl er) \<Rightarrow> (s, Inl er)
                | (s, Inr _) \<Rightarrow> replay_publish cfg me (n + 2) t commands s)))"

definition finish_captured_marker ::
  "'v cache_config \<Rightarrow> ('v, 'l, 'b) marker_env \<Rightarrow> nat \<Rightarrow> replay_ticket \<Rightarrow> marker_mutation_recovery \<Rightarrow> ('v, 'b) site
   \<Rightarrow> ('v, 'b, replay_outcome) site_result" where
  "finish_captured_marker cfg me n t work s =
     (case mm_phase work of
        AdvancePhase _ _ \<Rightarrow> (s, Inl (ErrRecovery InvalidMarkerStage))
      | NotifyPhase additional \<Rightarrow> replay_publish cfg me n t (mm_command work # additional) s
      | PopulatePhase opts snap additional \<Rightarrow>
          (case replay_populate cfg me n t opts (snap_created snap) (mm_command work # additional) s of
             (s, Inl er) \<Rightarrow> (s, Inl er)
           | (s, Inr (Some out)) \<Rightarrow> (s, Inr out)
           | (s, Inr None) \<Rightarrow>
               if opt_skip_backplane_notifications opts then (s, Inr ReplayApplied)
               else case stage_work (notification_stage t) s of
                      (s, StageSuperseded) \<Rightarrow> (s, Inr ReplaySuperseded)
                    | (s, _) \<Rightarrow> replay_publish cfg me (n + 8) t (mm_command work # additional) s))"

datatype compaction_replay = CompactionContinued marker_mutation_recovery | CompactionStopped replay_outcome

definition complete_inherited_compaction ::
  "replay_ticket \<Rightarrow> marker_mutation_recovery \<Rightarrow> ('v, 'b) site \<Rightarrow> ('v, 'b, compaction_replay) site_result" where
  "complete_inherited_compaction t parent s =
     (case with_compaction parent None of
        Inl er \<Rightarrow> (s, Inl (ErrRecovery er))
      | Inr next' \<Rightarrow>
          (case stage_work (marker_population_stage t next') s of
             (s, StageSuperseded) \<Rightarrow> (s, Inr (CompactionStopped ReplaySuperseded))
           | (s, _) \<Rightarrow> (s, Inr (CompactionContinued next'))))"

text \<open>The notification of an inherited compaction, and its completion.\<close>

definition notify_inherited ::
  "'v cache_config \<Rightarrow> ('v, 'l, 'b) marker_env \<Rightarrow> nat \<Rightarrow> replay_ticket \<Rightarrow> marker_mutation_recovery \<Rightarrow> marker_mutation_recovery \<Rightarrow> ('v, 'b) site
   \<Rightarrow> ('v, 'b, compaction_replay) site_result" where
  "notify_inherited cfg me n t parent child s =
     (case cancel_check me n of
        Some er \<Rightarrow> (s, Inl er)
      | None \<Rightarrow>
          (case marker_gate cfg me n t s of
             (s, Some out) \<Rightarrow> (s, Inr (CompactionStopped out))
           | (s, None) \<Rightarrow>
               (case replay_notify cfg (me_commit me) (n + 1) (Some (MarkerCmd (mm_command child))) s of
                  (s, Inl er) \<Rightarrow> (s, Inl er)
                | (s, Inr _) \<Rightarrow> complete_inherited_compaction t parent s)))"

definition replay_inherited_compaction ::
  "'v cache_config \<Rightarrow> ('v, 'l, 'b) marker_env \<Rightarrow> nat \<Rightarrow> replay_ticket \<Rightarrow> marker_mutation_recovery \<Rightarrow> marker_mutation_recovery \<Rightarrow> ('v, 'b) site
   \<Rightarrow> ('v, 'b, compaction_replay) site_result" where
  "replay_inherited_compaction cfg me n t parent child s =
     (case mm_phase child of
        AdvancePhase _ _ \<Rightarrow> (s, Inl (ErrRecovery InvalidMarkerStage))
      | NotifyPhase _ \<Rightarrow> notify_inherited cfg me (n + 4) t parent child s
      | PopulatePhase opts snap _ \<Rightarrow>
          (case populate_marker_snapshot cfg me n (mm_command child) opts (snap_created snap) ReplayPolicy s of
             (s, Inl er) \<Rightarrow> (s, Inl er)
           | (s, Inr effect) \<Rightarrow>
               if effect = EffectSkipped SkipSuperseded then (s, Inr (CompactionStopped ReplayPaused))
               else if opt_skip_backplane_notifications opts then complete_inherited_compaction t parent s
               else (case notification child of
                       Inl er \<Rightarrow> (s, Inl (ErrRecovery er))
                     | Inr notice \<Rightarrow>
                         (case with_compaction parent (Some notice) of
                            Inl er \<Rightarrow> (s, Inl (ErrRecovery er))
                          | Inr notify \<Rightarrow>
                              (case stage_work (marker_population_stage t notify) s of
                                 (s, StageSuperseded) \<Rightarrow> (s, Inr (CompactionStopped ReplaySuperseded))
                               | (s, _) \<Rightarrow> notify_inherited cfg me (n + 4) t notify child s)))))"

text \<open>The stages of the work itself, once no inherited compaction is left.\<close>

definition replay_mutation_stages ::
  "'v cache_config \<Rightarrow> ('v, 'l, 'b) marker_env \<Rightarrow> nat \<Rightarrow> replay_ticket \<Rightarrow> marker_mutation_recovery \<Rightarrow> ('v, 'b) site
   \<Rightarrow> ('v, 'b, replay_outcome) site_result" where
  "replay_mutation_stages cfg me n t work s =
     (case mm_phase work of
        AdvancePhase opts snap \<Rightarrow>
          (case advance_captured_marker cfg me n work snap opts s of
             (s, Inl er) \<Rightarrow> (s, Inl er)
           | (s, Inr advanced) \<Rightarrow>
               (case stage_work (marker_population_stage t advanced) s of
                  (s, StageSuperseded) \<Rightarrow> (s, Inr ReplaySuperseded)
                | (s, _) \<Rightarrow> finish_captured_marker cfg me (n + 1) t advanced s))
      | _ \<Rightarrow> finish_captured_marker cfg me (n + 1) t work s)"

definition replay_marker_mutation ::
  "'v cache_config \<Rightarrow> ('v, 'l, 'b) marker_env \<Rightarrow> nat \<Rightarrow> replay_ticket \<Rightarrow> marker_mutation_recovery \<Rightarrow> ('v, 'b) site
   \<Rightarrow> ('v, 'b, replay_outcome) site_result" where
  "replay_marker_mutation cfg me n t work s =
     (if \<not> scope_eq (mm_scope work) (me_scope me) then (s, Inl (ErrRecovery MarkerIdentityChanged))
      else if wk_recovery (sv_worker s) = None then (s, Inl (ErrRecovery RecoveryStopped))
      else case marker_gate cfg me (n + 1) t (ce_wait (me_commit me) n s) of
             (s, Some out) \<Rightarrow> (s, Inr out)
           | (s, None) \<Rightarrow>
               (case cancel_check me (n + 1) of
                  Some er \<Rightarrow> (s, Inl er)
                | None \<Rightarrow>
                    (case pending_compaction work of
                       None \<Rightarrow> replay_mutation_stages cfg me (n + 8) t work s
                     | Some child \<Rightarrow>
                         (case replay_inherited_compaction cfg me (n + 2) t work child s of
                            (s, Inl er) \<Rightarrow> (s, Inl er)
                          | (s, Inr (CompactionStopped out)) \<Rightarrow> (s, Inr out)
                          | (s, Inr (CompactionContinued rest)) \<Rightarrow> replay_mutation_stages cfg me (n + 8) t rest s))))"

section \<open>Plain markers\<close>

definition replay_marker_advance ::
  "'v cache_config \<Rightarrow> ('v, 'l, 'b) marker_env \<Rightarrow> nat \<Rightarrow> replay_ticket \<Rightarrow> marker_command \<Rightarrow> marker_replay \<Rightarrow> ('v, 'b) site \<Rightarrow> ('v, 'b, unit) site_result" where
  "replay_marker_advance cfg me n t command stage s =
     (case me_access me of
        AccessLocal \<Rightarrow> (s, Inr ())
      | AccessUnavailable \<Rightarrow> (s, Inl (ErrMarker MarkerUnsupported))
      | _ \<Rightarrow>
          (let version = marker_version_of (cmd_marker command)
           in case write_marker_revision me n (cmd_scope command) (marker_kind_of (cmd_marker command))
                     (MarkerSnapshot_fresh version (me_defaults me) version) (me_defaults me) s of
                (s, Inl er) \<Rightarrow> (s, Inl er)
              | (s, Inr outcome) \<Rightarrow>
                  let s = on_worker (apply_marker (write_outcome_marker outcome)) s;
                      s = (if stage = AdvanceAndNotify then fst (stage_work (notification_stage t) s) else s)
                  in case outcome of
                       MarkerWritten _ \<Rightarrow> (s, Inr ())
                     | MarkerCompacted _ clear_remove \<Rightarrow>
                         (case MarkerCommand_new (cc_instance cfg) (me_scope me) (StoredMarker ClearRemove clear_remove) of
                            Inl er \<Rightarrow> (s, Inl (ErrMarker er))
                          | Inr clear \<Rightarrow>
                              let s = on_worker (apply_marker (cmd_marker clear)) s
                              in if stage = AdvanceOnly then (s, Inr ())
                                 else case queue_marker me (n + 1) clear NotifyOnly (sv_worker s) of
                                        (w, Inl er) \<Rightarrow> (s\<lparr>sv_worker := w\<rparr>, Inl er)
                                      | (w, Inr _) \<Rightarrow> (s\<lparr>sv_worker := w\<rparr>, Inr ()))))"

definition replay_marker_command ::
  "'v cache_config \<Rightarrow> ('v, 'l, 'b) marker_env \<Rightarrow> nat \<Rightarrow> replay_ticket \<Rightarrow> marker_command \<Rightarrow> marker_replay \<Rightarrow> ('v, 'b) site
   \<Rightarrow> ('v, 'b, replay_outcome) site_result" where
  "replay_marker_command cfg me n t command stage s =
     (case marker_gate cfg me (n + 1) t (ce_wait (me_commit me) n s) of
        (s, Some out) \<Rightarrow> (s, Inr out)
      | (s, None) \<Rightarrow>
          (case (if stage = NotifyOnly then (s, Inr ()) else replay_marker_advance cfg me (n + 2) t command stage s) of
             (s, Inl er) \<Rightarrow> (s, Inl er)
           | (s, Inr _) \<Rightarrow>
               (case marker_gate cfg me (n + 4) t s of
                  (s, Some out) \<Rightarrow> (s, Inr out)
                | (s, None) \<Rightarrow> replay_notify cfg (me_commit me) (n + 5) (if stage = AdvanceOnly then None else Some (MarkerCmd command)) s)))"

text \<open>The marker branches of \<open>replay_owned\<close>.\<close>

definition replay_marker_work ::
  "'v cache_config \<Rightarrow> ('v, 'l, 'b) marker_env \<Rightarrow> 'l lease_provider \<Rightarrow> nat \<Rightarrow> replay_ticket \<Rightarrow> ('v, 'b) site \<Rightarrow> ('v, 'b, replay_outcome) site_result" where
  "replay_marker_work cfg me lp n t s =
     (case ticket_work t of
        MutationWork work \<Rightarrow> replay_marker_mutation cfg me n t work s
      | SnapshotWork work \<Rightarrow> replay_marker_snapshot cfg me lp n t work s
      | MarkerWork command stage \<Rightarrow> replay_marker_command cfg me n t command stage s
      | DataWork _ _ \<Rightarrow> (s, Inr ReplaySuperseded))"

section \<open>Superseded work\<close>

lemma marker_gate_stale: "\<not> still_current invalidation_label t (sv_worker s) \<Longrightarrow> marker_gate cfg me n t s = (s, Some ReplaySuperseded)"
  by (simp add: marker_gate_def replay_gate_def)

text \<open>Waiting for a lease or for the marker lane does not give a lost ticket its entry back.\<close>

definition stale_rely :: "('v, 'l, 'b) marker_env \<Rightarrow> replay_ticket \<Rightarrow> bool" where
  "stale_rely me t \<longleftrightarrow> (\<forall>n s. \<not> still_current invalidation_label t (sv_worker s) \<longrightarrow> \<not> still_current invalidation_label t (sv_worker (ce_wait (me_commit me) n s)))"

text \<open>
  Superseded invalidations: marker work whose ticket has lost its queue entry to later work is not replayed: nothing is
  written to the marker store or the snapshots, the registry does not move and nobody is notified.
\<close>
theorem superseded_marker_work_idle:
  assumes "\<not> still_current invalidation_label t (sv_worker s)" and "stale_rely me t" and "replay_marker_work cfg me lp n t s = (s', r)"
  shows "r \<noteq> Inr ReplayApplied \<and> s' \<in> {s, ce_wait (me_commit me) n s, ce_wait (me_commit me) (n + 1) (ce_wait (me_commit me) n s)}"
proof -
  have stale: "\<not> still_current invalidation_label t (sv_worker (ce_wait (me_commit me) k x))" if "\<not> still_current invalidation_label t (sv_worker x)" for k x
    using assms(2) that by (simp add: stale_rely_def)
  note g = marker_gate_stale [OF stale [OF assms(1)]] marker_gate_stale [OF stale [OF stale [OF assms(1)]]]
  have lease: "finish_control_marker_lease cfg me lp n lease (Inr ReplaySuperseded) \<noteq> Inr ReplayApplied" for lease
    by (auto simp: finish_control_marker_lease_def Let_def split: sum.splits)
  show ?thesis
  proof (cases "ticket_work t")
    case (SnapshotWork work)
    then show ?thesis using assms(3) lease by (auto simp: replay_marker_work_def replay_marker_snapshot_def g Let_def split: if_splits sum.splits)
  qed (use assms(3) in \<open>auto simp: replay_marker_work_def replay_marker_mutation_def replay_marker_command_def g split: if_splits\<close>)
qed

section \<open>Acknowledged replays\<close>

lemma marker_gate_site: "marker_gate cfg me n t s = (s', r) \<Longrightarrow> sv_backend s' = sv_backend s"
  by (auto simp: marker_gate_def replay_gate_def Let_def split: if_splits prod.splits)

lemma stage_work_site: "stage_work stage s = (s', r) \<Longrightarrow> sv_backend s' = sv_backend s"
  by (auto simp: stage_work_def split: option.splits prod.splits)

lemma replay_notify_store: "shared_store me \<Longrightarrow> replay_notify cfg (me_commit me) n c s = (s', r) \<Longrightarrow> back_le s s'"
  using shared_storeD(4) [of me s n] by (auto simp: replay_notify_def Let_def split: option.splits if_splits sum.splits)

lemma replay_populate_store:
  assumes "shared_store me" "replay_populate cfg me n t opts created cs s = (s', r)"
  shows "back_le s s'"
  using assms(2)
proof (induction cs arbitrary: n s)
  case (Cons c cs)
  obtain s1 g where g: "marker_gate cfg me n t s = (s1, g)" by fastforce
  obtain s2 e where p: "populate_marker_snapshot cfg me (n + 1) c opts created ReplayPolicy s1 = (s2, e)" by fastforce
  have "back_le s s2" using populate_snapshot_store [OF assms(1) p] marker_gate_site [OF g] by simp
  moreover have "back_le s2 s'" if "replay_populate cfg me m t opts created cs s2 = (s', r)" for m by (rule Cons.IH [OF that])
  ultimately show ?case using Cons.prems marker_gate_site [OF g] p store_le_trans
    by (auto simp: g split: option.splits sum.splits if_splits)
qed simp

lemma replay_publish_store:
  assumes "shared_store me" "replay_publish cfg me n t cs s = (s', r)"
  shows "back_le s s'"
  using assms(2)
proof (induction cs arbitrary: n s)
  case (Cons c cs)
  obtain s1 g where g: "marker_gate cfg me n t s = (s1, g)" by fastforce
  obtain s2 e where p: "replay_notify cfg (me_commit me) (n + 1) (Some (MarkerCmd c)) s1 = (s2, e)" by fastforce
  have "back_le s s2" using replay_notify_store [OF assms(1) p] marker_gate_site [OF g] by simp
  moreover have "back_le s2 s'" if "replay_publish cfg me m t cs s2 = (s', r)" for m by (rule Cons.IH [OF that])
  ultimately show ?case using Cons.prems marker_gate_site [OF g] p store_le_trans
    by (auto simp: g split: option.splits sum.splits)
qed simp

lemma finish_captured_store:
  assumes "shared_store me" "finish_captured_marker cfg me n t work s = (s', r)"
  shows "back_le s s'"
proof (cases "mm_phase work")
  case (PopulatePhase opts snap additional)
  obtain s1 e where p: "replay_populate cfg me n t opts (snap_created snap) (mm_command work # additional) s = (s1, e)" by fastforce
  obtain s2 tr where st: "stage_work (notification_stage t) s1 = (s2, tr)" by fastforce
  have "back_le s s1" by (rule replay_populate_store [OF assms(1) p])
  moreover have "back_le s2 s'" if "replay_publish cfg me k t cs s2 = (s', r)" for k cs by (rule replay_publish_store [OF assms(1) that])
  ultimately show ?thesis using assms(2) stage_work_site [OF st] store_le_trans
    by (auto simp: finish_captured_marker_def PopulatePhase p st simp del: replay_populate.simps replay_publish.simps
        split: sum.splits option.splits if_splits recovery_stage_transition.splits)
qed (use assms(2) replay_publish_store [OF assms(1)] in \<open>auto simp: finish_captured_marker_def simp del: replay_publish.simps\<close>)

lemma inherited_compaction_store:
  assumes "shared_store me" "replay_inherited_compaction cfg me n t parent child s = (s', r)"
  shows "back_le s s'" "r = Inr (CompactionContinued rest) \<Longrightarrow> mm_command rest = mm_command parent \<and> mm_phase rest = mm_phase parent"
proof -
  have complete: "sv_backend y = sv_backend x \<and> (z = Inr (CompactionContinued rest) \<longrightarrow> mm_command rest = mm_command p \<and> mm_phase rest = mm_phase p)"
    if "complete_inherited_compaction t p x = (y, z)" for p x y z
    using that by (auto simp: complete_inherited_compaction_def with_compaction_def dest!: stage_work_site split: prod.splits recovery_stage_transition.splits)
  have notify: "back_le x y \<and> (z = Inr (CompactionContinued rest) \<longrightarrow> mm_command rest = mm_command p \<and> mm_phase rest = mm_phase p)"
    if "notify_inherited cfg me k t p child x = (y, z)" for k p x y z
  proof -
    obtain x1 g where g: "marker_gate cfg me k t x = (x1, g)" by fastforce
    obtain x2 e where p: "replay_notify cfg (me_commit me) (k + 1) (Some (MarkerCmd (mm_command child))) x1 = (x2, e)" by fastforce
    show ?thesis using that marker_gate_site [OF g] replay_notify_store [OF assms(1) p] p
      by (auto simp: notify_inherited_def g split: option.splits sum.splits dest!: complete)
  qed
  have both: "back_le s s' \<and> (r = Inr (CompactionContinued rest) \<longrightarrow> mm_command rest = mm_command parent \<and> mm_phase rest = mm_phase parent)"
  proof (cases "mm_phase child")
    case (PopulatePhase opts snap additional)
    obtain s1 e where p: "populate_marker_snapshot cfg me n (mm_command child) opts (snap_created snap) ReplayPolicy s = (s1, e)" by fastforce
    have s1: "back_le s s1" by (rule populate_snapshot_store [OF assms(1) p])
    have last: ?thesis if st: "stage_work stage s1 = (s2, tr)" and nt: "notify_inherited cfg me k t w child s2 = (s', r)" and w: "with_compaction parent c = Inr w" for stage s2 tr k w c
      using notify [OF nt] stage_work_site [OF st] s1 store_le_trans w by (auto simp: with_compaction_def split: option.splits if_splits)
    show ?thesis using assms(2) s1 complete
      by (auto simp: replay_inherited_compaction_def PopulatePhase p dest: stage_work_site last split: sum.splits if_splits prod.splits recovery_stage_transition.splits)
  qed (use assms(2) in \<open>auto simp: replay_inherited_compaction_def dest: notify\<close>)
  then show "back_le s s'" "r = Inr (CompactionContinued rest) \<Longrightarrow> mm_command rest = mm_command parent \<and> mm_phase rest = mm_phase parent" by blast+
qed

lemma advance_captured_store:
  assumes "shared_store me" "store_ok (sv_backend s)" "advance_captured_marker cfg me n work snap opts s = (s', r)"
  shows "back_le s s'" "r = Inr w \<Longrightarrow> x \<le> snap_version snap \<Longrightarrow> store_covers (mm_scope work) (mm_kind work) x (sv_backend s')"
proof -
  let ?s = "ce_wait (me_commit me) n s"
  note sh = shared_storeD [OF assms(1)]
  have ok: "store_ok (sv_backend ?s)" using store_ok_le [OF assms(2) sh(4)] .
  obtain b o' where a: "store_advance (mm_scope work) (mm_kind work) (snap_version snap) (sv_backend ?s) = (b, o')" by fastforce
  have le: "store_le (sv_backend s) b" using sh(4) store_le_advance [OF a] store_le_trans by blast
  have b: "sv_backend s' = b" "r = Inr w \<Longrightarrow> \<exists>outcome. o' = Inr outcome"
    using assms(3) a by (auto simp: advance_captured_marker_def write_marker_revision_def sh Let_def split: sum.splits marker_write_outcome.splits)
  show "back_le s s'" using le b(1) by simp
  show "store_covers (mm_scope work) (mm_kind work) x (sv_backend s')" if "r = Inr w" "x \<le> snap_version snap"
    using b(2) [OF that(1)] store_advance_covers [OF ok, of "mm_scope work" "mm_kind work" "snap_version snap" b] a that(2) b(1) by auto
qed

lemma mutation_stages_store:
  assumes "shared_store me" "store_ok (sv_backend s)" "replay_mutation_stages cfg me n t work s = (s', Inr ReplayApplied)" "mm_phase work = AdvancePhase opts snap"
    "x \<le> snap_version snap"
  shows "store_covers (mm_scope work) (mm_kind work) x (sv_backend s')" "store_ok (sv_backend s')"
proof -
  obtain s1 r1 where a: "advance_captured_marker cfg me n work snap opts s = (s1, r1)" by fastforce
  note adv = advance_captured_store [OF assms(1,2) a]
  obtain advanced s2 tr k where r: "r1 = Inr advanced" "stage_work (marker_population_stage t advanced) s1 = (s2, tr)" "finish_captured_marker cfg me k t advanced s2 = (s', Inr ReplayApplied)"
    using assms(3,4) a by (auto simp: replay_mutation_stages_def split: sum.splits prod.splits recovery_stage_transition.splits)
  have le: "store_le (sv_backend s1) (sv_backend s')" using finish_captured_store [OF assms(1) r(3)] stage_work_site [OF r(2)] by simp
  have ok: "store_ok (sv_backend s1)" by (rule store_ok_le [OF assms(2) adv(1)])
  show "store_covers (mm_scope work) (mm_kind work) x (sv_backend s')" using store_covers_le [OF ok adv(2) [OF r(1) assms(5)] le] .
  show "store_ok (sv_backend s')" by (rule store_ok_le [OF ok le])
qed

lemma replayed_mutation_store:
  assumes "shared_store me" "store_ok (sv_backend s)" "replay_marker_mutation cfg me n t work s = (s', Inr ReplayApplied)" "mm_phase work = AdvancePhase opts snap"
    "x \<le> snap_version snap"
  shows "store_covers (mm_scope work) (mm_kind work) x (sv_backend s') \<and> store_ok (sv_backend s')"
proof -
  obtain s1 g where g: "marker_gate cfg me (n + 1) t (ce_wait (me_commit me) n s) = (s1, g)" by fastforce
  have ok1: "store_ok (sv_backend s1)" using store_ok_le [OF assms(2) shared_storeD(4) [OF assms(1)]] marker_gate_site [OF g] by simp
  have none: "g = None" using assms(3) g by (auto simp: replay_marker_mutation_def marker_gate_def replay_gate_def Let_def split: if_splits option.splits prod.splits)
  show ?thesis
  proof (cases "pending_compaction work")
    case None
    then have "replay_mutation_stages cfg me (n + 8) t work s1 = (s', Inr ReplayApplied)"
      using assms(3) g none by (auto simp: replay_marker_mutation_def split: if_splits option.splits)
    then show ?thesis using mutation_stages_store [OF assms(1) ok1 _ assms(4,5)] by blast
  next
    case (Some child)
    obtain s2 r2 where c: "replay_inherited_compaction cfg me (n + 2) t work child s1 = (s2, r2)" by fastforce
    note inh = inherited_compaction_store [OF assms(1) c]
    have ok2: "store_ok (sv_backend s2)" by (rule store_ok_le [OF ok1 inh(1)])
    consider (stopped) "r2 = Inr (CompactionStopped ReplayApplied)"
      | (rest) rest where "r2 = Inr (CompactionContinued rest)" "replay_mutation_stages cfg me (n + 8) t rest s2 = (s', Inr ReplayApplied)"
      using assms(3) g none Some c by (auto simp: replay_marker_mutation_def split: if_splits option.splits sum.splits compaction_replay.splits)
    then show ?thesis
    proof cases
      case stopped
      then show ?thesis using c by (auto simp: replay_inherited_compaction_def notify_inherited_def complete_inherited_compaction_def marker_gate_def
            dest: replay_gate_Some split: marker_mutation_phase.splits sum.splits prod.splits option.splits if_splits recovery_stage_transition.splits)
    next
      case rest
      then show ?thesis using mutation_stages_store [OF assms(1) ok2 rest(2), of opts snap x] inh(2) [OF rest(1)] assms(4,5) by auto
    qed
  qed
qed

lemma replayed_command_store:
  assumes "shared_store me" "store_ok (sv_backend s)" "replay_marker_command cfg me n t c stage s = (s', Inr ReplayApplied)" "stage \<noteq> NotifyOnly"
    "x \<le> marker_version_of (cmd_marker c)"
  shows "store_covers (cmd_scope c) (marker_kind_of (cmd_marker c)) x (sv_backend s') \<and> store_ok (sv_backend s')"
proof -
  note sh = shared_storeD [OF assms(1)]
  obtain s1 g where g: "marker_gate cfg me (n + 1) t (ce_wait (me_commit me) n s) = (s1, g)" by fastforce
  have ok1: "store_ok (sv_backend s1)" using store_ok_le [OF assms(2) sh(4)] marker_gate_site [OF g] by simp
  let ?s = "ce_wait (me_commit me) (n + 2) s1" and ?v = "marker_version_of (cmd_marker c)"
  have ok: "store_ok (sv_backend ?s)" using store_ok_le [OF ok1 sh(4)] .
  obtain b r where a: "store_advance (cmd_scope c) (marker_kind_of (cmd_marker c)) ?v (sv_backend ?s) = (b, r)" by fastforce
  obtain s2 u where u: "replay_marker_advance cfg me (n + 2) t c stage s1 = (s2, u)" by fastforce
  obtain s3 g3 where g3: "marker_gate cfg me (n + 4) t s2 = (s3, g3)" by fastforce
  have fin: "u = Inr ()" "\<exists>k cm. replay_notify cfg (me_commit me) k cm s3 = (s', Inr ReplayApplied)"
    using assms(3,4) g u g3 by (auto simp: replay_marker_command_def marker_gate_def dest: replay_gate_Some split: option.splits sum.splits)
  have v: "snap_version (MarkerSnapshot_fresh ?v opts created) = ?v" for opts created by (simp add: MarkerSnapshot_fresh_def Let_def)
  have staged: "sv_backend (fst (stage_work stage' y)) = sv_backend y" for stage' and y :: "('a, invalidation_store) site"
    by (metis prod.collapse stage_work_site)
  have s2: "sv_backend s2 = b" "\<exists>outcome. r = Inr outcome"
    using u fin(1) a by (auto simp: replay_marker_advance_def write_marker_revision_def sh v staged Let_def split: sum.splits marker_write_outcome.splits if_splits prod.splits)
  then have "store_covers (cmd_scope c) (marker_kind_of (cmd_marker c)) x (sv_backend s2)" using store_advance_covers [OF ok] a assms(5) by auto
  moreover have "store_ok (sv_backend s2)" using store_ok_le [OF ok store_le_advance [OF a]] s2(1) by simp
  moreover have "back_le s2 s'" using fin(2) replay_notify_store [OF assms(1)] marker_gate_site [OF g3] by metis
  ultimately show ?thesis using store_covers_le store_ok_le by blast
qed

text \<open>The durable part of a piece of marker work: the command whose revision is still to be written.\<close>

definition unwritten :: "recovery_work \<Rightarrow> marker_command \<Rightarrow> bool" where
  "unwritten work c \<longleftrightarrow> (case work of
      MutationWork m \<Rightarrow> mm_command m = c \<and> (\<exists>opts snap. mm_phase m = AdvancePhase opts snap \<and> snap_version snap = mm_version m)
    | MarkerWork c' stage \<Rightarrow> c' = c \<and> stage \<noteq> NotifyOnly
    | _ \<Rightarrow> False)"

lemma acknowledged_replay_store:
  assumes "shared_store me" "store_ok (sv_backend s)" "unwritten (ticket_work t) c" "replay_marker_work cfg me lp n t s = (s', Inr ReplayApplied)"
    "x \<le> marker_version_of (cmd_marker c)"
  shows "store_covers (cmd_scope c) (marker_kind_of (cmd_marker c)) x (sv_backend s') \<and> store_ok (sv_backend s')"
proof (cases "ticket_work t")
  case (MutationWork m)
  then obtain opts snap where m: "mm_command m = c" "mm_phase m = AdvancePhase opts snap" "snap_version snap = mm_version m" using assms(3) by (auto simp: unwritten_def)
  then show ?thesis using replayed_mutation_store [OF assms(1,2) _ m(2), of cfg n t s' x] assms(4,5) MutationWork by (simp add: replay_marker_work_def)
next
  case (MarkerWork c' stage)
  then show ?thesis using replayed_command_store [OF assms(1,2)] assms(3-5) by (auto simp: unwritten_def replay_marker_work_def)
qed (use assms(3) in \<open>simp_all add: unwritten_def\<close>)

lemma queued_mutation:
  assumes "queue_marker_mutation me n c opts created w = (w', Inr True)"
  shows "\<exists>service entry. wk_recovery w' = Some service \<and> hm_get (rs_entries service) (command_key c) = Some entry \<and> q_state entry = Pending
    \<and> unwritten (ticket_work (q_ticket entry)) c"
proof -
  obtain work where work: "capture_mutation c opts created = Inr work" "queued_work (enqueue_marker_mutation (me_now me n) work) w = (w', Inr True)"
    using assms by (auto simp: queue_marker_mutation_def split: if_splits sum.splits)
  have m: "unwritten (MutationWork work) c" "work_key (MutationWork work) = command_key c"
    using work(1) by (auto simp: capture_mutation_def unwritten_def MarkerSnapshot_fresh_def Let_def split: sum.splits if_splits)
  obtain service service' out where e: "wk_recovery w' = Some service'" "out \<in> {EnqQueued i | i. True} \<union> {EnqReplaced i | i. True}"
    "enqueue_locked (MutationWork work) None service = (service', Inr out)"
    using work(2) by (auto simp: queued_work_def enqueue_marker_mutation_def enqueue_work_def enqueue_precheck_def Let_def
        split: option.splits prod.splits sum.splits enqueue_outcome.splits if_splits) blast+
  have kept: "unwritten work' c" if "inherit_work (MutationWork work) old = Inr work'" for old work'
    using that m(1) by (auto simp: inherit_work_def inherit_compaction_def with_compaction_def unwritten_def split: recovery_work.splits sum.splits option.splits if_splits)
  have "\<exists>s0 remaining replaced work'. install (command_key c) work' None remaining replaced s0 = (service', Inr out) \<and> unwritten work' c"
    using e(2,3) m kept by (auto simp: enqueue_locked_def enqueue_new_def Let_def split: option.splits if_splits sum.splits) blast+
  then have "\<exists>entry. hm_get (rs_entries service') (command_key c) = Some entry \<and> q_state entry = Pending \<and> unwritten (ticket_work (q_ticket entry)) c"
    by (auto simp: install_def Let_def hmap_simps split: option.splits)
  with e(1) show ?thesis by blast
qed

text \<open>
  C27. Failed invalidations recover: when the marker store refuses an invalidation, the failure is returned or reported and nothing is
  published; if it is reported as queued, the recovery queue holds the invalidation, pending, under its identity, and as soon as a
  replay of that entry is acknowledged over the shared store, every cache that reconciles a matching
  entry created up to the invalidation sees it as no longer valid.
\<close>
theorem failed_invalidation_recovers:
  assumes "write_marker_revision me n (cmd_scope c) (marker_kind_of (cmd_marker c)) (MarkerSnapshot_fresh (marker_version_of (cmd_marker c)) opts created) opts s = (s1, Inl er)"
    and "me_access me = AccessDurable \<or> me_access me = AccessOrdinary" and "\<not> opt_skip_distributed_write opts"
    and "marker_durable_stage cfg me n c opts created s = (s', r)"
  shows "sv_published s' = sv_published s1 \<and> sv_backend s' = sv_backend s1
    \<and> ((\<exists>er'. r = Inl er') \<or> (\<exists>report. r = Inr (Inl report) \<and> report_backplane report = EffectSkipped SkipPolicy
        \<and> report_distributed report \<in> {EffectRecoveryQueued er, EffectFailedSuppressed er}
        \<and> (report_distributed report = EffectRecoveryQueued er \<longrightarrow>
            (\<exists>service entry. wk_recovery (sv_worker s') = Some service \<and> hm_get (rs_entries service) (command_key c) = Some entry \<and> q_state entry = Pending
              \<and> (\<forall>node lp k u u' peer pcfg p e. shared_store node \<and> store_ok (sv_backend u)
                   \<and> replay_marker_work ncfg node lp k (q_ticket entry) u = (u', Inr ReplayApplied)
                   \<and> shared_store peer \<and> scope_key (me_scope peer) = scope_key (cmd_scope c) \<and> \<not> cc_disable_tagging pcfg
                   \<and> store_le (sv_backend u') (sv_backend p) \<and> registry_ok (wk_tags (sv_worker (ce_wait (me_commit peer) 0 p)))
                   \<and> kind_matches (marker_kind_of (cmd_marker c)) (md_tags (en_meta e)) \<and> md_created (en_meta e) \<le> marker_version_of (cmd_marker c)
                   \<longrightarrow> (\<exists>p'. reconcile_markers pcfg peer 0 (md_tags (en_meta e)) None p = (p', Inr ()) \<and> worker_tags pcfg e (sv_worker p') \<noteq> Valid))))))"
proof -
  obtain w q where q: "queue_marker_mutation me n c opts created (sv_worker s1) = (w, q)" by fastforce
  have shape: "s' = s1\<lparr>sv_worker := w\<rparr> \<and> (\<exists>er'. r = Inl er') \<or> (\<exists>b. q = Inr b \<and> s' = s1\<lparr>sv_worker := failure invalidation_label (me_now me n) er w\<rparr>
      \<and> ((\<exists>er'. r = Inl er') \<or> r = Inr (Inl \<lparr>report_local = LocalInvalidated, report_distributed = failed_outcome b er, report_backplane = EffectSkipped SkipPolicy\<rparr>)))"
    using assms q by (auto simp: marker_durable_stage_def split: sum.splits if_splits)
  have peers: "\<exists>p'. reconcile_markers pcfg peer 0 (md_tags (en_meta e)) None p = (p', Inr ()) \<and> worker_tags pcfg e (sv_worker p') \<noteq> Valid"
    if "unwritten (ticket_work (q_ticket entry)) c" "shared_store node" "store_ok (sv_backend u)" "replay_marker_work ncfg node lp k (q_ticket entry) u = (u', Inr ReplayApplied)"
      "shared_store peer" "scope_key (me_scope peer) = scope_key (cmd_scope c)" "\<not> cc_disable_tagging pcfg" "store_le (sv_backend u') (sv_backend p)"
      "registry_ok (wk_tags (sv_worker (ce_wait (me_commit peer) 0 p)))" "kind_matches (marker_kind_of (cmd_marker c)) (md_tags (en_meta e))"
      "md_created (en_meta e) \<le> marker_version_of (cmd_marker c)" for entry node lp k u u' peer pcfg p e
  proof -
    note a = acknowledged_replay_store [OF that(2,3,1,4,11)]
    have "store_covers (me_scope peer) (marker_kind_of (cmd_marker c)) (md_created (en_meta e)) (sv_backend u')"
      using a that(6) by (simp add: store_covers_def scope_covers_def scope_state_def)
    from reconciled_verdict [OF that(5,7) _ this that(8,9,10)] a show ?thesis by blast
  qed
  show ?thesis
  proof (cases "r = Inr (Inl \<lparr>report_local = LocalInvalidated, report_distributed = failed_outcome True er, report_backplane = EffectSkipped SkipPolicy\<rparr>)")
    case True
    then have b: "q = Inr True" "s' = s1\<lparr>sv_worker := failure invalidation_label (me_now me n) er w\<rparr>" using shape by (auto simp: failed_outcome_def split: if_splits)
    from queued_mutation [OF q [unfolded b(1)]] obtain service entry where
      "wk_recovery w = Some service" "hm_get (rs_entries service) (command_key c) = Some entry" "q_state entry = Pending" "unwritten (ticket_work (q_ticket entry)) c" by blast
    then show ?thesis using True b(2) peers by (auto simp: failed_outcome_def)
  next
    case False
    then show ?thesis using shape by (auto simp: failed_outcome_def split: if_splits)
  qed
qed

section \<open>A small replay\<close>

definition demo_lost_ticket :: replay_ticket where
  "demo_lost_ticket = \<lparr>ticket_id = 1, ticket_work = MarkerWork demo_command AdvanceAndNotify, ticket_generation = 1, ticket_fence = None\<rparr>"

definition demo_leases :: "nat lease_provider" where
  "demo_leases = \<lparr>lp_acquire = (\<lambda>_ _. None), lp_release = (\<lambda>_ _. Inr ())\<rparr>"

theorem superseded_marker_work_idle_witness:
  "fst (replay_marker_work memory_only demo_cluster demo_leases 0 demo_lost_ticket demo_node) = demo_node"
proof -
  have "\<not> still_current invalidation_label demo_lost_ticket (sv_worker demo_node)" by (simp add: still_current_def demo_node_def)
  moreover have "stale_rely demo_cluster demo_lost_ticket" by (simp add: stale_rely_def)
  ultimately have "fst (replay_marker_work memory_only demo_cluster demo_leases 0 demo_lost_ticket demo_node)
      \<in> {demo_node, ce_wait (me_commit demo_cluster) 0 demo_node, ce_wait (me_commit demo_cluster) (0 + 1) (ce_wait (me_commit demo_cluster) 0 demo_node)}"
    using superseded_marker_work_idle [OF _ _ prod.collapse [symmetric]] by blast
  then show ?thesis by simp
qed

abbreviation demo_refusing :: "(nat, nat, invalidation_store) marker_env" where
  "demo_refusing \<equiv> demo_cluster\<lparr>me_advance := \<lambda>_ _ _ _ b. (b, Inl (MarkerBackend ''down''))\<rparr>"

theorem failed_invalidation_recovers_witness:
  "\<exists>s' report. marker_durable_stage memory_only demo_refusing 0 demo_command stale_options 7 demo_node = (s', Inr (Inl report)) \<and> sv_published s' = []
    \<and> report_distributed report \<in> {EffectRecoveryQueued (ErrMarker (MarkerBackend ''down'')), EffectFailedSuppressed (ErrMarker (MarkerBackend ''down''))}"
proof -
  have f: "write_marker_revision demo_refusing 0 (cmd_scope demo_command) (marker_kind_of (cmd_marker demo_command))
      (MarkerSnapshot_fresh (marker_version_of (cmd_marker demo_command)) stale_options 7) stale_options demo_node = (demo_node, Inl (ErrMarker (MarkerBackend ''down'')))"
    by (simp add: write_marker_revision_def)
  obtain s' r where r: "marker_durable_stage memory_only demo_refusing 0 demo_command stale_options 7 demo_node = (s', r)" by fastforce
  have n: "wk_recovery (sv_worker demo_node) = None" "sv_published demo_node = []" by (simp_all add: demo_node_def)
  have o': "\<not> opt_rethrow_distributed_exceptions stale_options" by (simp add: option_defs)
  have "\<exists>report. r = Inr (Inl report)"
    using r f n o' by (auto simp: marker_durable_stage_def queue_marker_mutation_def)
  with failed_invalidation_recovers [OF f _ _ r, of memory_only] r n(2) show ?thesis by auto
qed

end
