(* ===== verification/Amalgam_Control_Reads.thy ===== *)
theory Amalgam_Control_Reads
  imports Amalgam_Marker_Replay
begin

text \<open>
  Controlled marker reads (\<open>cache/markers.rs\<close>, \<open>cache/marker_eager.rs\<close>): with the read policy OptionsControlled a
  cache does not ask the durable store for the markers of every entry it serves. It remembers what it
  read for a while, refreshes a remembered marker under a lock of its own, and, where the options say so,
  degrades to what it remembers when the store is slow or fails. With cached snapshots a refresh reads the
  shared snapshot of the marker and renews it under a lease. The operations are sequences of
  small steps on the site; each await is open to the other operations of the cache.
\<close>

section \<open>Steps\<close>

type_synonym ('v, 'b, 'a) site_op = "('v, 'b) site \<Rightarrow> ('v, 'b, 'a) site_result"

definition so_return :: "'a \<Rightarrow> ('v, 'b, 'a) site_op" where
  "so_return a s = (s, Inr a)"

definition so_of :: "cache_error + 'a \<Rightarrow> ('v, 'b, 'a) site_op" where
  "so_of r s = (s, r)"

definition so_bind :: "('v, 'b, 'a) site_op \<Rightarrow> ('a \<Rightarrow> ('v, 'b, 'c) site_op) \<Rightarrow> ('v, 'b, 'c) site_op" where
  "so_bind m f s = (case m s of (s, Inl er) \<Rightarrow> (s, Inl er) | (s, Inr a) \<Rightarrow> f a s)"

definition so_read :: "('v worker \<Rightarrow> ('v, 'b, 'a) site_op) \<Rightarrow> ('v, 'b, 'a) site_op" where
  "so_read f s = f (sv_worker s) s"

definition so_update :: "('v worker \<Rightarrow> 'v worker) \<Rightarrow> ('v, 'b, unit) site_op" where
  "so_update f s = (on_worker f s, Inr ())"

definition so_worker :: "('v worker \<Rightarrow> 'v worker \<times> 'a) \<Rightarrow> ('v, 'b, 'a) site_op" where
  "so_worker f s = (let (w, a) = f (sv_worker s) in (s\<lparr>sv_worker := w\<rparr>, Inr a))"

definition so_result :: "('v worker \<Rightarrow> ('v, 'a) worker_result) \<Rightarrow> ('v, 'b, 'a) site_op" where
  "so_result f s = (let (w, r) = f (sv_worker s) in (s\<lparr>sv_worker := w\<rparr>, r))"

definition so_ask :: "('b \<Rightarrow> 'a) \<Rightarrow> ('v, 'b, 'a) site_op" where
  "so_ask f s = (s, Inr (f (sv_backend s)))"

definition so_backend :: "('b \<Rightarrow> 'b \<times> (cache_error + 'a)) \<Rightarrow> ('v, 'b, 'a) site_op" where
  "so_backend f s = (let (b, r) = f (sv_backend s) in (s\<lparr>sv_backend := b\<rparr>, r))"

definition so_wait :: "('v, 'l, 'b) marker_env \<Rightarrow> nat \<Rightarrow> ('v, 'b, unit) site_op" where
  "so_wait me n s = (ce_wait (me_commit me) n s, Inr ())"

definition so_check :: "('v, 'l, 'b) marker_env \<Rightarrow> nat \<Rightarrow> ('v, 'b, unit) site_op" where
  "so_check me n = so_of (case cancel_check me n of Some er \<Rightarrow> Inl er | None \<Rightarrow> Inr ())"

text \<open>\<open>Err\<close> of the inner operation as a value, for the places that look at it.\<close>

definition so_try :: "('v, 'b, 'a) site_op \<Rightarrow> ('v, 'b, cache_error + 'a) site_op" where
  "so_try m s = (case m s of (s, r) \<Rightarrow> (s, Inr r))"

section \<open>Environment\<close>

text \<open>
  The locker of the first level (\<open>False\<close>: not acquired in time), the lease provider, the reads of the
  marker store and of the snapshot cache, and whether a budget elapsed before the reply.
\<close>

record ('v, 'l, 'b) control_env =
  cl_markers :: "('v, 'l, 'b) marker_env"
  cl_lock :: "nat \<Rightarrow> marker_kind \<Rightarrow> timeout \<Rightarrow> cache_error + bool"
  cl_try_lock :: "nat \<Rightarrow> marker_kind \<Rightarrow> cache_error + bool"
  cl_acquire :: "(nat \<Rightarrow> string \<Rightarrow> timeout \<Rightarrow> lease_error + 'l option) option"
  cl_leases :: "'l lease_provider"
  cl_read :: "nat \<Rightarrow> cache_scope \<Rightarrow> marker_kind \<Rightarrow> 'b \<Rightarrow> marker_error + marker_version option"
  cl_snapshot :: "nat \<Rightarrow> cache_scope \<Rightarrow> marker_kind \<Rightarrow> timestamp \<Rightarrow> 'b \<Rightarrow> 'b \<times> (snapshot_cache_error + marker_snapshot_read)"
  cl_late :: "nat \<Rightarrow> bool"

abbreviation cl_options :: "('v, 'l, 'b) control_env \<Rightarrow> entry_options" where
  "cl_options ce \<equiv> me_defaults (cl_markers ce)"

abbreviation cl_now :: "('v, 'l, 'b) control_env \<Rightarrow> nat \<Rightarrow> timestamp" where
  "cl_now ce n \<equiv> me_now (cl_markers ce) n"

datatype marker_unobserved_read = UnobservedSkipped | UnobservedUnavailable marker_read_failure

datatype marker_factory_read = FactoryRead marker_snapshot_read | FactoryUnobserved marker_unobserved_read

datatype marker_factory_mode = ForegroundFactory | EagerFactory

datatype 'l marker_lease_acquisition = LeaseAcquired "'l control_lease" | LeaseContended

datatype marker_fetch = FetchObserved marker_presence | FetchSnapshot marker_snapshot_read | FetchDeadline marker_read_failure

datatype marker_snapshot_fetch = SnapshotFetched marker_snapshot_read | SnapshotDeadline marker_read_failure

fun into_marker_fetch :: "marker_snapshot_fetch \<Rightarrow> marker_fetch" where
  "into_marker_fetch (SnapshotFetched r) = FetchSnapshot r"
| "into_marker_fetch (SnapshotDeadline f) = FetchDeadline f"

datatype marker_lookup = LookupReady marker_read_outcome | LookupRefresh "marker_observation arc option"

datatype marker_factory_stale = StaleMemory "marker_observation arc" | StaleDistributed marker_snapshot | StaleAbsent

datatype marker_read_storage = AtomicStorage | OrdinaryStorage

record marker_refresh =
  mr_kind :: marker_kind
  mr_captured :: nat
  mr_mode :: marker_factory_mode

fun stale_memory :: "marker_observation arc option \<Rightarrow> marker_factory_stale" where
  "stale_memory (Some a) = StaleMemory a"
| "stale_memory None = StaleAbsent"

section \<open>Remembered markers\<close>

definition marker_cached :: "('v, 'l, 'b) control_env \<Rightarrow> nat \<Rightarrow> marker_kind \<Rightarrow> ('v, 'b, marker_observation arc option) site_op" where
  "marker_cached ce n kind =
     (if opt_skip_memory_read (cl_options ce) then so_return None
      else so_bind (so_worker (get_observation (cl_markers ce) n kind (cl_now ce n))) (\<lambda>cached.
           so_bind (so_update (case cached of Some a \<Rightarrow> accept_marker_observation kind (en_value (arc_entry a)) | None \<Rightarrow> id)) (\<lambda>_.
           so_return cached)))"

definition marker_lookup_step ::
  "'v cache_config \<Rightarrow> ('v, 'l, 'b) control_env \<Rightarrow> nat \<Rightarrow> marker_kind \<Rightarrow> nat \<Rightarrow> ('v, 'b, marker_lookup) site_op" where
  "marker_lookup_step cfg ce n kind captured =
     so_read (\<lambda>w. case (if marker_clear_shortcut cfg then clear_status kind captured (wk_clears w) else None) of
       Some outcome \<Rightarrow> so_return (LookupReady outcome)
     | None \<Rightarrow>
         so_bind (marker_cached ce n kind) (\<lambda>cached.
           so_return (case cached of
             Some a \<Rightarrow> if is_fresh (entry_freshness (cl_now ce (n + 1)) (arc_entry a))
                        then LookupReady (observation_outcome (en_value (arc_entry a))) else LookupRefresh cached
           | None \<Rightarrow> LookupRefresh None)))"

definition marker_fallback_eligible :: "('v, 'l, 'b) control_env \<Rightarrow> nat \<Rightarrow> marker_observation arc option \<Rightarrow> 'v worker \<Rightarrow> bool" where
  "marker_fallback_eligible ce n cached w \<longleftrightarrow>
     opt_is_fail_safe_enabled (cl_options ce)
     \<and> (case cached of Some a \<Rightarrow> is_read_eligible (wk_ep w) (arc_entry a) \<and> \<not> is_physically_expired (cl_now ce n) (arc_entry a) | None \<Rightarrow> False)"

definition marker_lock_timeout :: "('v, 'l, 'b) control_env \<Rightarrow> nat \<Rightarrow> marker_observation arc option \<Rightarrow> 'v worker \<Rightarrow> timeout" where
  "marker_lock_timeout ce n cached w =
     (let opts = cl_options ce
      in if is_infinite (memory_lock_timeout opts) \<and> marker_fallback_eligible ce n cached w
         then opt_factory_soft_timeout opts else memory_lock_timeout opts)"

definition suppressed_marker_fault :: "('v, 'l, 'b) control_env \<Rightarrow> marker_error \<Rightarrow> cache_error + marker_provider_fault" where
  "suppressed_marker_fault ce er =
     (case provider_fault (cl_options ce) er of Some (fault, False) \<Rightarrow> Inr fault | _ \<Rightarrow> Inl (ErrMarker er))"

definition marker_degraded ::
  "('v, 'l, 'b) control_env \<Rightarrow> nat \<Rightarrow> marker_kind \<Rightarrow> marker_observation arc option \<Rightarrow> marker_read_failure \<Rightarrow> ('v, 'b, marker_read_outcome) site_op" where
  "marker_degraded ce n kind cached fault =
     so_read (\<lambda>w. case (if marker_fallback_eligible ce n cached w then cached else None) of
       Some source \<Rightarrow>
         so_bind (so_result (retain_fallback (cl_markers ce) n kind source (cl_options ce) (cl_now ce n) fault)) (\<lambda>obs.
         so_bind (so_update (accept_marker_observation kind obs)) (\<lambda>_.
         so_return (ReadStaleFallback fault)))
     | None \<Rightarrow> so_return (ReadUnavailable fault))"

section \<open>Reading the authorities\<close>

definition ordinary_read ::
  "('v, 'l, 'b) marker_env \<Rightarrow> nat \<Rightarrow> cache_scope \<Rightarrow> marker_kind \<Rightarrow> 'b \<Rightarrow> marker_error + marker_version option" where
  "ordinary_read me n scope kind b =
     (case ce_fetch (me_commit me) n (ordinary_key scope kind) b of
        Inl er \<Rightarrow> Inl (MarkerBackend (me_text me er))
      | Inr None \<Rightarrow> Inr None
      | Inr (Some bytes) \<Rightarrow>
          if from_utf8 bytes then map_sum id Some (from_ordered_hex bytes) else Inl (ProtocolWithSource ''invalid utf-8''))"

definition read_with_cancellation ::
  "('v, 'l, 'b) control_env \<Rightarrow> nat \<Rightarrow> marker_read_storage \<Rightarrow> cache_scope \<Rightarrow> marker_kind \<Rightarrow> ('v, 'b, marker_version option) site_op" where
  "read_with_cancellation ce n storage scope kind =
     (let me = cl_markers ce in
      so_bind (so_check me n) (\<lambda>_.
      so_bind (so_wait me n) (\<lambda>_.
      so_bind (so_ask (\<lambda>b. case storage of AtomicStorage \<Rightarrow> cl_read ce n scope kind b | OrdinaryStorage \<Rightarrow> ordinary_read me n scope kind b)) (\<lambda>r.
      so_bind (so_check me (n + 1)) (\<lambda>_.
      so_of (map_sum ErrMarker id r))))))"

text \<open>\<open>bounded\<close>: an infinite budget never elapses, a zero budget does not poll at all.\<close>

definition control_deadline :: "('v, 'l, 'b) control_env \<Rightarrow> nat \<Rightarrow> bool \<Rightarrow> bool" where
  "control_deadline ce n has_fallback =
     (case appropriate_distributed_timeout has_fallback (cl_options ce) of Infinite \<Rightarrow> False | After d \<Rightarrow> d = 0 \<or> cl_late ce n)"

definition deadline_failure :: "('v, 'l, 'b) control_env \<Rightarrow> bool \<Rightarrow> marker_read_failure" where
  "deadline_failure ce has_fallback =
     (let opts = cl_options ce; timeout = appropriate_distributed_timeout has_fallback opts
      in if opt_is_fail_safe_enabled opts \<and> has_fallback \<and> timeout = opt_distributed_soft_timeout opts \<and> timeout \<noteq> opt_distributed_hard_timeout opts
         then SoftTimeoutFailure else HardTimeoutFailure)"

definition fetch_control_marker ::
  "('v, 'l, 'b) control_env \<Rightarrow> nat \<Rightarrow> marker_read_storage \<Rightarrow> marker_kind \<Rightarrow> bool \<Rightarrow> ('v, 'b, marker_fetch) site_op" where
  "fetch_control_marker ce n storage kind has_fallback =
     (if control_deadline ce n has_fallback
      then so_bind (so_wait (cl_markers ce) n) (\<lambda>_. so_return (FetchDeadline (deadline_failure ce has_fallback)))
      else so_bind (read_with_cancellation ce n storage (me_scope (cl_markers ce)) kind) (\<lambda>version.
           so_return (FetchObserved (case version of Some v \<Rightarrow> MarkerPresent v | None \<Rightarrow> MarkerAbsent))))"

definition fetch_control_snapshot ::
  "('v, 'l, 'b) control_env \<Rightarrow> nat \<Rightarrow> marker_kind \<Rightarrow> bool \<Rightarrow> ('v, 'b, marker_snapshot_fetch) site_op" where
  "fetch_control_snapshot ce n kind has_fallback =
     (let me = cl_markers ce in
      so_bind (so_wait me n) (\<lambda>_.
      if control_deadline ce n has_fallback then so_return (SnapshotDeadline (deadline_failure ce has_fallback))
      else so_backend (\<lambda>b. map_prod id (map_sum snapshot_cache_error_into SnapshotFetched) (cl_snapshot ce n (me_scope me) kind (me_now me n) b))))"

section \<open>Recording what was read\<close>

definition record_control_observation ::
  "('v, 'l, 'b) control_env \<Rightarrow> nat \<Rightarrow> marker_kind \<Rightarrow> marker_presence \<Rightarrow> nat \<Rightarrow> ('v, 'b, marker_read_outcome) site_op" where
  "record_control_observation ce n kind presence captured =
     so_bind (so_update (case presence of MarkerPresent v \<Rightarrow> apply_marker (StoredMarker kind v) | MarkerAbsent \<Rightarrow> id)) (\<lambda>_.
     so_read (\<lambda>w. case ce_jitter (me_commit (cl_markers ce)) of
       Inl er \<Rightarrow> so_of (Inl (ErrConfig er))
     | Inr jitter \<Rightarrow>
         so_bind (so_result (observations_store (cl_markers ce) n kind (reconcile_maximum (registry_marker_version (wk_tags w) kind) (Confirmed presence))
                    (cl_options ce) (cl_now ce n) jitter (ContinuityStamp_new 0 captured))) (\<lambda>obs.
         so_bind (so_update (accept_marker_observation kind obs)) (\<lambda>_.
         so_return (observed_outcome obs)))))"

definition record_control_snapshot ::
  "('v, 'l, 'b) control_env \<Rightarrow> nat \<Rightarrow> marker_kind \<Rightarrow> marker_snapshot \<Rightarrow> nat \<Rightarrow> ('v, 'b, marker_read_outcome) site_op" where
  "record_control_snapshot ce n kind snap captured =
     so_read (\<lambda>w.
     so_bind (so_result (store_snapshot (cl_markers ce) n kind
                (reconcile_maximum (registry_marker_version (wk_tags w) kind) (Confirmed (MarkerPresent (snap_version snap)))) snap
                (cl_options ce) (cl_now ce n) (ContinuityStamp_new 0 captured))) (\<lambda>obs.
     so_bind (so_update (accept_marker_observation kind obs)) (\<lambda>_.
     so_return (observed_outcome obs))))"

section \<open>Leases of a refresh\<close>

definition control_marker_contention :: "'v cache_config \<Rightarrow> marker_factory_mode \<Rightarrow> cache_error + 'l marker_lease_acquisition" where
  "control_marker_contention cfg mode =
     (case mode of
        EagerFactory \<Rightarrow> Inr LeaseContended
      | ForegroundFactory \<Rightarrow>
          if cc_lease_policy cfg = CooperativePolicy then Inr (LeaseAcquired ControlUnleased) else Inl (ErrLease AcquisitionTimeout))"

definition acquired_control_lease ::
  "'v cache_config \<Rightarrow> ('v, 'l, 'b) control_env \<Rightarrow> marker_factory_mode \<Rightarrow> lease_error + 'l option \<Rightarrow> cache_error + 'l marker_lease_acquisition" where
  "acquired_control_lease cfg ce mode r =
     (case r of
        Inr (Some lease) \<Rightarrow> Inr (LeaseAcquired (if cc_lease_policy cfg = CooperativePolicy then ControlCooperative lease else ControlFenced lease))
      | Inr None \<Rightarrow> control_marker_contention cfg mode
      | Inl AcquisitionTimeout \<Rightarrow> control_marker_contention cfg mode
      | Inl (LeaseBackend e) \<Rightarrow>
          if cc_lease_policy cfg = CooperativePolicy \<and> \<not> opt_rethrow_distributed_locker_exceptions (cl_options ce)
          then Inr (case mode of ForegroundFactory \<Rightarrow> LeaseAcquired ControlUnleased | EagerFactory \<Rightarrow> LeaseContended)
          else Inl (ErrLease (LeaseBackend e))
      | Inl er \<Rightarrow> Inl (ErrLease er))"

definition acquire_control_marker_lease ::
  "'v cache_config \<Rightarrow> ('v, 'l, 'b) control_env \<Rightarrow> nat \<Rightarrow> marker_kind \<Rightarrow> marker_factory_mode \<Rightarrow> ('v, 'b, 'l marker_lease_acquisition) site_op" where
  "acquire_control_marker_lease cfg ce n kind mode =
     (let me = cl_markers ce; opts = cl_options ce in
      so_bind (so_check me n) (\<lambda>_.
      if opt_skip_distributed_locker opts \<or> opt_skip_distributed_read opts \<and> opt_skip_distributed_write opts
      then so_return (LeaseAcquired ControlUnleased)
      else case cl_acquire ce of
             None \<Rightarrow> so_return (LeaseAcquired ControlUnleased)
           | Some acquire \<Rightarrow>
               so_bind (so_wait me n) (\<lambda>_.
               so_bind (so_check me (n + 1)) (\<lambda>_.
               so_of (acquired_control_lease cfg ce mode
                 (acquire n (MarkerLeaseKey_new (me_scope me) kind)
                   (case mode of ForegroundFactory \<Rightarrow> distributed_lock_timeout opts | EagerFactory \<Rightarrow> After 0)))))))"

fun lease_is_held :: "'l control_lease \<Rightarrow> bool" where
  "lease_is_held ControlUnleased = False"
| "lease_is_held (ControlFenced l) = True"
| "lease_is_held (ControlCooperative l) = True"

text \<open>The end of a refresh that holds a lease: its result, once the lease was released.\<close>

definition finish_lease ::
  "'v cache_config \<Rightarrow> ('v, 'l, 'b) control_env \<Rightarrow> nat \<Rightarrow> 'l control_lease \<Rightarrow> ('v, 'b, 'a) site_op \<Rightarrow> ('v, 'b, 'a) site_op" where
  "finish_lease cfg ce n lease m =
     so_bind (so_try m) (\<lambda>r.
     so_bind (so_wait (cl_markers ce) n) (\<lambda>_.
     so_of (finish_control_marker_lease cfg (cl_markers ce) (cl_leases ce) n lease r)))"

section \<open>The shared factory\<close>

definition marker_factory_fallback_eligible :: "('v, 'l, 'b) control_env \<Rightarrow> nat \<Rightarrow> marker_factory_stale \<Rightarrow> 'v worker \<Rightarrow> bool" where
  "marker_factory_fallback_eligible ce n stale w \<longleftrightarrow>
     opt_is_fail_safe_enabled (cl_options ce)
     \<and> (case stale of
          StaleMemory cached \<Rightarrow> marker_fallback_eligible ce n (Some cached) w
        | StaleDistributed snap \<Rightarrow> \<not> snapshot_is_physically_expired snap (cl_now ce n)
        | StaleAbsent \<Rightarrow> False)"

definition excluded_marker_factory ::
  "('v, 'l, 'b) control_env \<Rightarrow> nat \<Rightarrow> marker_factory_stale \<Rightarrow> marker_factory_mode \<Rightarrow> 'v worker \<Rightarrow> cache_error + marker_read_failure option" where
  "excluded_marker_factory ce n stale mode w =
     (let opts = cl_options ce; has_fallback = marker_factory_fallback_eligible ce n stale w;
          timeout = appropriate_factory_timeout has_fallback opts
      in if mode = EagerFactory \<or> timeout \<noteq> After 0 then Inr None
         else if \<not> opt_is_fail_safe_enabled opts then Inl (ErrFactoryTimeout 0)
         else Inr (Some (if has_fallback \<and> timeout = opt_factory_soft_timeout opts \<and> timeout \<noteq> opt_factory_hard_timeout opts
                         then FactorySoftTimeoutFailure else FactoryHardTimeoutFailure)))"

definition retain_excluded_marker_factory ::
  "('v, 'l, 'b) control_env \<Rightarrow> nat \<Rightarrow> marker_kind \<Rightarrow> marker_presence \<Rightarrow> marker_factory_stale \<Rightarrow> nat \<Rightarrow> marker_read_failure
   \<Rightarrow> ('v, 'b, marker_read_outcome) site_op" where
  "retain_excluded_marker_factory ce n kind presence stale captured fault =
     so_read (\<lambda>w. case stale of
       StaleMemory cached \<Rightarrow> marker_degraded ce n kind (Some cached) fault
     | StaleDistributed snap \<Rightarrow>
         if marker_factory_fallback_eligible ce n stale w
         then so_bind (so_result (retain_snapshot_fallback (cl_markers ce) n kind snap presence (cl_options ce) (cl_now ce n) fault (ContinuityStamp_new 0 captured))) (\<lambda>obs.
              so_bind (so_update (accept_marker_observation kind obs)) (\<lambda>_.
              so_return (ReadStaleFallback fault)))
         else so_return (ReadUnavailable fault)
     | StaleAbsent \<Rightarrow> so_return (ReadUnavailable fault))"

definition known_control_factory_observation :: "marker_kind \<Rightarrow> marker_observation arc option \<Rightarrow> 'v worker \<Rightarrow> marker_observation option" where
  "known_control_factory_observation kind cached w =
     map_option KnownMaximum (join_version (registry_marker_version (wk_tags w) kind)
       (case cached of Some a \<Rightarrow> observation_version (en_value (arc_entry a)) | None \<Rightarrow> None))"

text \<open>
  The write of a renewed snapshot: the commit of the operation, then the release of its lease. In the
  background its result is lost.
\<close>

definition write_control_snapshot ::
  "'v cache_config \<Rightarrow> ('v, 'l, 'b) control_env \<Rightarrow> nat \<Rightarrow> 'l marker_snapshot_commit \<Rightarrow> ('v, 'b, unit) site_op" where
  "write_control_snapshot cfg ce n commit =
     (if \<not> marker_snapshot_provider cfg (cl_markers ce) then so_return ()
      else let work = finish_lease cfg ce (n + 2) (sc_lease commit)
                        (so_bind (commit_control_snapshot cfg (cl_markers ce) n commit OperationPolicy) (\<lambda>_. so_return ()))
           in if opt_allow_background_distributed_operations (sc_options commit) then so_bind (so_try work) (\<lambda>_. so_return ()) else work)"

definition store_factory_observation ::
  "('v, 'l, 'b) control_env \<Rightarrow> nat \<Rightarrow> 'l control_lease \<Rightarrow> marker_kind \<Rightarrow> marker_observation \<Rightarrow> jitter_sample \<Rightarrow> nat
   \<Rightarrow> ('v, 'b, marker_observation \<times> marker_local_commit) site_op" where
  "store_factory_observation ce n lease kind obs jitter captured =
     (let opts = cl_options ce; created = cl_now ce n
      in if (case lease of ControlFenced _ \<Rightarrow> True | _ \<Rightarrow> False) \<and> observation_version obs \<noteq> None \<and> \<not> opt_skip_distributed_write opts
         then so_return (obs, AwaitingFence obs created jitter)
         else so_bind (so_result (observations_store (cl_markers ce) n kind obs opts created jitter (ContinuityStamp_new 0 captured))) (\<lambda>stored.
              so_return (stored, ObservationAdmitted)))"

definition complete_control_marker_factory ::
  "'v cache_config \<Rightarrow> ('v, 'l, 'b) control_env \<Rightarrow> nat \<Rightarrow> marker_observation \<Rightarrow> marker_factory_stale \<Rightarrow> marker_refresh \<Rightarrow> 'l control_lease
   \<Rightarrow> ('v, 'b, marker_read_outcome) site_op" where
  "complete_control_marker_factory cfg ce n obs stale refresh lease =
     (let me = cl_markers ce; opts = cl_options ce; kind = mr_kind refresh; captured = mr_captured refresh in
      so_bind (so_check me n) (\<lambda>_.
      so_bind (so_of (control_proof me n lease)) (\<lambda>_.
      so_read (\<lambda>w. case excluded_marker_factory ce n stale (mr_mode refresh) w of
        Inl er \<Rightarrow> finish_lease cfg ce n lease (so_of (Inl er))
      | Inr (Some fault) \<Rightarrow> finish_lease cfg ce n lease (retain_excluded_marker_factory ce n kind (observation_presence obs) stale captured fault)
      | Inr None \<Rightarrow>
          let obs = reconcile_maximum (registry_marker_version (wk_tags w) kind) obs
          in case ce_jitter (me_commit me) of
               Inl er \<Rightarrow> so_of (Inl (ErrConfig er))
             | Inr jitter \<Rightarrow>
                 so_bind (store_factory_observation ce n lease kind obs jitter captured) (\<lambda>(obs, local).
                 so_bind (so_update (accept_marker_observation kind obs)) (\<lambda>_.
                 so_bind (case observation_version obs of
                            Some version \<Rightarrow>
                              if opt_skip_distributed_write opts then finish_lease cfg ce (n + 1) lease (so_return ())
                              else write_control_snapshot cfg ce (n + 1)
                                     \<lparr>sc_kind = kind, sc_snapshot = MarkerSnapshot_fresh version opts (cl_now ce n), sc_options = opts,
                                      sc_captured = captured, sc_lease = lease, sc_local = local\<rparr>
                          | None \<Rightarrow> finish_lease cfg ce (n + 1) lease (so_return ())) (\<lambda>_.
                 so_bind (so_check me (n + 4)) (\<lambda>_.
                 so_read (\<lambda>w. so_return (observed_outcome (reconcile_maximum (registry_marker_version (wk_tags w) kind) obs)))))))))))"

definition complete_unobserved_marker_factory ::
  "'v cache_config \<Rightarrow> ('v, 'l, 'b) control_env \<Rightarrow> nat \<Rightarrow> marker_observation arc option \<Rightarrow> marker_unobserved_read \<Rightarrow> marker_refresh \<Rightarrow> 'l control_lease
   \<Rightarrow> ('v, 'b, marker_read_outcome) site_op" where
  "complete_unobserved_marker_factory cfg ce n cached read refresh lease =
     so_read (\<lambda>w. finish_lease cfg ce n lease
       (case excluded_marker_factory ce n (stale_memory cached) (mr_mode refresh) w of
          Inl er \<Rightarrow> so_of (Inl er)
        | Inr (Some fault) \<Rightarrow> retain_excluded_marker_factory ce n (mr_kind refresh) MarkerAbsent (stale_memory cached) (mr_captured refresh) fault
        | Inr None \<Rightarrow> so_return (case read of UnobservedSkipped \<Rightarrow> ReadSkipped | UnobservedUnavailable fault \<Rightarrow> ReadUnavailable fault)))"

definition resolve_leased_control_snapshot ::
  "'v cache_config \<Rightarrow> ('v, 'l, 'b) control_env \<Rightarrow> nat \<Rightarrow> marker_observation arc option \<Rightarrow> marker_factory_read \<Rightarrow> marker_refresh \<Rightarrow> 'l control_lease
   \<Rightarrow> ('v, 'b, marker_read_outcome) site_op" where
  "resolve_leased_control_snapshot cfg ce n cached read refresh lease =
     (let me = cl_markers ce; kind = mr_kind refresh;
          complete = (\<lambda>obs stale. so_read (\<lambda>w. complete_control_marker_factory cfg ce (n + 1)
                        (reconcile_maximum (registry_marker_version (wk_tags w) kind) obs) stale refresh lease)) in
      so_bind (so_of (control_proof me n lease)) (\<lambda>_.
      so_bind (so_check me n) (\<lambda>_.
      case read of
        FactoryRead (ReadSnapshot snap) \<Rightarrow>
          so_bind (so_update (apply_marker (StoredMarker kind (snap_version snap)))) (\<lambda>_.
          if mr_mode refresh = ForegroundFactory \<and> snapshot_is_fresh snap (cl_now ce n)
          then finish_lease cfg ce (n + 1) lease (record_control_snapshot ce n kind snap (mr_captured refresh))
          else complete (KnownMaximum (snap_version snap)) (StaleDistributed snap))
      | FactoryRead (ReadMissing maximum) \<Rightarrow>
          so_bind (so_update (case maximum of Some v \<Rightarrow> apply_marker (StoredMarker kind v) | None \<Rightarrow> id)) (\<lambda>_.
          complete (Confirmed (case maximum of Some v \<Rightarrow> MarkerPresent v | None \<Rightarrow> MarkerAbsent)) (stale_memory cached))
      | FactoryUnobserved unread \<Rightarrow>
          so_read (\<lambda>w. case known_control_factory_observation kind cached w of
             None \<Rightarrow> complete_unobserved_marker_factory cfg ce (n + 1) cached unread refresh lease
           | Some obs \<Rightarrow> complete obs (stale_memory cached)))))"

section \<open>Refreshing a marker\<close>

definition recheck_control_snapshot ::
  "'v cache_config \<Rightarrow> ('v, 'l, 'b) control_env \<Rightarrow> nat \<Rightarrow> marker_kind \<Rightarrow> bool \<Rightarrow> ('v, 'b, marker_snapshot_read option) site_op" where
  "recheck_control_snapshot cfg ce n kind has_fallback =
     (let opts = cl_options ce in
      if \<not> marker_snapshot_provider cfg (cl_markers ce) \<or> opt_skip_distributed_read opts \<or> has_fallback \<and> opt_skip_distributed_read_when_stale opts
      then so_return None
      else so_bind (so_try (fetch_control_snapshot ce n kind has_fallback)) (\<lambda>fetched. case fetched of
             Inr (SnapshotFetched r) \<Rightarrow> so_return (Some r)
           | Inr (SnapshotDeadline _) \<Rightarrow> so_return None
           | Inl (ErrMarker er) \<Rightarrow> so_bind (so_of (suppressed_marker_fault ce er)) (\<lambda>_. so_return None)
           | Inl er \<Rightarrow> so_of (Inl er)))"

definition resolve_control_snapshot ::
  "'v cache_config \<Rightarrow> ('v, 'l, 'b) control_env \<Rightarrow> nat \<Rightarrow> marker_kind \<Rightarrow> marker_observation arc option \<Rightarrow> marker_factory_read \<Rightarrow> nat
   \<Rightarrow> ('v, 'b, marker_read_outcome) site_op" where
  "resolve_control_snapshot cfg ce n kind cached read captured =
     so_bind (so_update (case read of
                FactoryRead r \<Rightarrow> (case read_maximum r of Some v \<Rightarrow> apply_marker (StoredMarker kind v) | None \<Rightarrow> id) | FactoryUnobserved _ \<Rightarrow> id)) (\<lambda>_.
     case (case read of
             FactoryRead (ReadSnapshot snap) \<Rightarrow> if snapshot_is_fresh snap (cl_now ce n) then Some snap else None
           | _ \<Rightarrow> None) of
       Some snap \<Rightarrow> record_control_snapshot ce n kind snap captured
     | None \<Rightarrow>
         so_bind (acquire_control_marker_lease cfg ce (n + 1) kind ForegroundFactory) (\<lambda>acquired. case acquired of
           LeaseContended \<Rightarrow> so_of (Inl (ErrLease AcquisitionTimeout))
         | LeaseAcquired lease \<Rightarrow>
             so_bind (if lease_is_held lease then recheck_control_snapshot cfg ce (n + 3) kind (cached \<noteq> None) else so_return None) (\<lambda>again.
             resolve_leased_control_snapshot cfg ce (n + 5) cached (case again of Some r \<Rightarrow> FactoryRead r | None \<Rightarrow> read)
               \<lparr>mr_kind = kind, mr_captured = captured, mr_mode = ForegroundFactory\<rparr> lease)))"

definition unavailable_control_marker ::
  "'v cache_config \<Rightarrow> ('v, 'l, 'b) control_env \<Rightarrow> nat \<Rightarrow> marker_kind \<Rightarrow> marker_observation arc option \<Rightarrow> nat \<Rightarrow> marker_read_failure
   \<Rightarrow> ('v, 'b, marker_read_outcome) site_op" where
  "unavailable_control_marker cfg ce n kind cached captured fault =
     (case me_lifecycle (cl_markers ce) of
        DurableOnly \<Rightarrow> marker_degraded ce n kind cached fault
      | CachedSnapshots \<Rightarrow> resolve_control_snapshot cfg ce n kind cached (FactoryUnobserved (UnobservedUnavailable fault)) captured)"

definition marker_remote ::
  "'v cache_config \<Rightarrow> ('v, 'l, 'b) control_env \<Rightarrow> nat \<Rightarrow> marker_read_storage \<Rightarrow> marker_kind \<Rightarrow> marker_observation arc option \<Rightarrow> nat
   \<Rightarrow> ('v, 'b, marker_read_outcome) site_op" where
  "marker_remote cfg ce n storage kind cached captured =
     so_bind (so_try (case me_lifecycle (cl_markers ce) of
                DurableOnly \<Rightarrow> fetch_control_marker ce n storage kind (cached \<noteq> None)
              | CachedSnapshots \<Rightarrow> so_bind (fetch_control_snapshot ce n kind (cached \<noteq> None)) (\<lambda>r. so_return (into_marker_fetch r)))) (\<lambda>fetched.
     case fetched of
       Inr (FetchSnapshot r) \<Rightarrow> resolve_control_snapshot cfg ce (n + 2) kind cached (FactoryRead r) captured
     | Inr (FetchObserved presence) \<Rightarrow> record_control_observation ce (n + 2) kind presence captured
     | Inr (FetchDeadline fault) \<Rightarrow> unavailable_control_marker cfg ce (n + 2) kind cached captured fault
     | Inl (ErrMarker er) \<Rightarrow>
         so_bind (so_of (suppressed_marker_fault ce er)) (\<lambda>fault.
         unavailable_control_marker cfg ce (n + 2) kind cached captured (fault_read_failure fault))
     | Inl er \<Rightarrow> so_of (Inl er))"

definition resolve_control_read ::
  "'v cache_config \<Rightarrow> ('v, 'l, 'b) control_env \<Rightarrow> nat \<Rightarrow> marker_read_storage \<Rightarrow> marker_kind \<Rightarrow> nat \<Rightarrow> ('v, 'b, marker_read_outcome) site_op" where
  "resolve_control_read cfg ce n storage kind captured =
     (let opts = cl_options ce in
      so_bind (marker_cached ce n kind) (\<lambda>cached.
      case (case cached of Some a \<Rightarrow> if is_fresh (entry_freshness (cl_now ce (n + 1)) (arc_entry a)) then Some a else None | None \<Rightarrow> None) of
        Some a \<Rightarrow> so_return (observation_outcome (en_value (arc_entry a)))
      | None \<Rightarrow>
          if opt_skip_distributed_read opts \<or> cached \<noteq> None \<and> opt_skip_distributed_read_when_stale opts
          then (case me_lifecycle (cl_markers ce) of
                  DurableOnly \<Rightarrow> so_return ReadSkipped
                | CachedSnapshots \<Rightarrow> resolve_control_snapshot cfg ce (n + 1) kind cached (FactoryUnobserved UnobservedSkipped) captured)
          else marker_remote cfg ce (n + 1) storage kind cached captured))"

definition refresh_control_marker ::
  "'v cache_config \<Rightarrow> ('v, 'l, 'b) control_env \<Rightarrow> nat \<Rightarrow> marker_read_storage \<Rightarrow> marker_kind \<Rightarrow> marker_observation arc option \<Rightarrow> nat
   \<Rightarrow> ('v, 'b, marker_read_outcome) site_op" where
  "refresh_control_marker cfg ce n storage kind before_lock captured =
     so_read (\<lambda>w. let timeout = marker_lock_timeout ce n before_lock w in
     so_bind (so_wait (cl_markers ce) n) (\<lambda>_.
     so_bind (so_of (cl_lock ce n kind timeout)) (\<lambda>locked.
     so_bind (so_check (cl_markers ce) (n + 1)) (\<lambda>_.
     so_read (\<lambda>w. if \<not> locked \<and> marker_fallback_eligible ce (n + 1) before_lock w then so_return (ReadStaleFallback LockTimeoutFailure)
                   else resolve_control_read cfg ce (n + 2) storage kind captured)))))"

section \<open>Eager refresh\<close>

definition eager_control_marker ::
  "'v cache_config \<Rightarrow> ('v, 'l, 'b) control_env \<Rightarrow> nat \<Rightarrow> marker_kind \<Rightarrow> marker_observation arc \<Rightarrow> nat \<Rightarrow> ('v, 'b, unit) site_op" where
  "eager_control_marker cfg ce n kind current captured =
     (let me = cl_markers ce; opts = cl_options ce in
      so_bind (so_check me n) (\<lambda>_.
      so_read (\<lambda>w. if wk_epoch w \<noteq> captured \<or> \<not> is_read_eligible (wk_ep w) (arc_entry current) \<or> \<not> marker_snapshot_provider cfg me then so_return ()
      else
        so_bind (if opt_skip_distributed_read opts \<or> opt_skip_distributed_read_when_stale opts
                 then so_return (FactoryUnobserved UnobservedSkipped)
                 else so_bind (so_try (fetch_control_snapshot ce n kind True)) (\<lambda>fetched. case fetched of
                        Inr (SnapshotFetched r) \<Rightarrow> so_return (FactoryRead r)
                      | Inr (SnapshotDeadline fault) \<Rightarrow> so_return (FactoryUnobserved (UnobservedUnavailable fault))
                      | Inl (ErrMarker er) \<Rightarrow>
                          so_bind (so_of (suppressed_marker_fault ce er)) (\<lambda>fault.
                          so_return (FactoryUnobserved (UnobservedUnavailable (fault_read_failure fault))))
                      | Inl er \<Rightarrow> so_of (Inl er))) (\<lambda>read.
        so_bind (so_check me (n + 1)) (\<lambda>_.
        so_read (\<lambda>w. if wk_epoch w \<noteq> captured then so_return ()
        else
          so_bind (so_update (case read of
                     FactoryRead r \<Rightarrow> (case read_maximum r of Some v \<Rightarrow> apply_marker (StoredMarker kind v) | None \<Rightarrow> id) | FactoryUnobserved _ \<Rightarrow> id)) (\<lambda>_.
          case (case read of
                  FactoryRead (ReadSnapshot snap) \<Rightarrow>
                    if (snap_created snap > md_created (en_meta (arc_entry current)) \<or> snap_logical snap > md_logical_expiration (en_meta (arc_entry current)))
                       \<and> snapshot_is_fresh snap (cl_now ce (n + 1)) then Some snap else None
                | _ \<Rightarrow> None) of
            Some snap \<Rightarrow> so_bind (record_control_snapshot ce (n + 2) kind snap captured) (\<lambda>_. so_return ())
          | None \<Rightarrow>
              so_bind (acquire_control_marker_lease cfg ce (n + 2) kind EagerFactory) (\<lambda>acquired. case acquired of
                LeaseContended \<Rightarrow> so_return ()
              | LeaseAcquired lease \<Rightarrow>
                  so_bind (resolve_leased_control_snapshot cfg ce (n + 4) (Some current) read
                             \<lparr>mr_kind = kind, mr_captured = captured, mr_mode = EagerFactory\<rparr> lease) (\<lambda>_. so_return ())))))))))"

text \<open>The spawned refresh is run to its end where it is scheduled; nobody sees its result.\<close>

definition maybe_eager_control_marker ::
  "'v cache_config \<Rightarrow> ('v, 'l, 'b) control_env \<Rightarrow> nat \<Rightarrow> marker_kind \<Rightarrow> nat \<Rightarrow> ('v, 'b, unit) site_op" where
  "maybe_eager_control_marker cfg ce n kind captured =
     (let me = cl_markers ce; opts = cl_options ce in
      so_read (\<lambda>w. if opt_eager_refresh_threshold opts = None \<or> me_lifecycle me \<noteq> CachedSnapshots
                       \<or> marker_clear_shortcut cfg \<and> clear_status kind captured (wk_clears w) \<noteq> None then so_return ()
      else so_bind (marker_cached ce n kind) (\<lambda>cached. case cached of
        None \<Rightarrow> so_return ()
      | Some current \<Rightarrow>
          so_read (\<lambda>w. if \<not> should_eager_refresh (cl_now ce n) (arc_entry current) \<or> \<not> is_read_eligible (wk_ep w) (arc_entry current) then so_return ()
          else so_bind (so_worker (put_observation me n kind (Some current) (without_eager_refresh (arc_entry current)) (cl_now ce n))) (\<lambda>claim.
            so_bind (so_check me n) (\<lambda>_.
            so_read (\<lambda>w. if claim \<notin> {Admitted, ReplacedEntry} \<or> wk_epoch w \<noteq> captured then so_return ()
            else so_bind (so_of (cl_try_lock ce n kind)) (\<lambda>locked.
              if \<not> locked then so_return ()
              else so_bind (so_update (emit (MarkerEagerRefresh_event kind))) (\<lambda>_.
                   so_bind (so_wait me n) (\<lambda>_.
                   so_bind (so_try (eager_control_marker cfg ce (n + 1) kind current captured)) (\<lambda>_. so_return ())))))))))))"

section \<open>Reconciling an entry\<close>

definition control_outcome ::
  "'v cache_config \<Rightarrow> ('v, 'l, 'b) control_env \<Rightarrow> nat \<Rightarrow> marker_read_storage \<Rightarrow> marker_kind \<Rightarrow> nat \<Rightarrow> ('v, 'b, marker_read_outcome) site_op" where
  "control_outcome cfg ce n storage kind captured =
     so_bind (marker_lookup_step cfg ce n kind captured) (\<lambda>found. case found of
       LookupReady outcome \<Rightarrow> so_return outcome
     | LookupRefresh cached \<Rightarrow> refresh_control_marker cfg ce (n + 2) storage kind cached captured)"

definition read_control_marker ::
  "'v cache_config \<Rightarrow> ('v, 'l, 'b) control_env \<Rightarrow> nat \<Rightarrow> marker_read_storage \<Rightarrow> marker_kind \<Rightarrow> ('v, 'b, unit) site_op" where
  "read_control_marker cfg ce n storage kind =
     (let me = cl_markers ce in
      so_bind (so_of (ce_valid (me_commit me) (cl_options ce))) (\<lambda>_.
      so_read (\<lambda>w. let captured = wk_epoch w in
      so_bind (control_outcome cfg ce n storage kind captured) (\<lambda>outcome.
      so_bind (so_check me (n + 20)) (\<lambda>_.
      so_bind (so_update (\<lambda>w. if marker_clear_shortcut cfg \<and> wk_epoch w = captured
                               then w\<lparr>wk_clears := initialize_clear kind captured outcome (wk_clears w)\<rparr> else w)) (\<lambda>_.
      so_bind (maybe_eager_control_marker cfg ce (n + 21) kind captured) (\<lambda>_.
      so_update (emit (MarkerRead_event kind outcome)))))))))"

definition secondary_marker_kinds :: "tag list \<Rightarrow> marker_kind list" where
  "secondary_marker_kinds tags = [ClearRemove] @ map TagKind tags @ [ClearExpire]"

definition marker_invalidates_snapshot :: "marker_kind \<Rightarrow> timestamp \<Rightarrow> 'v worker \<Rightarrow> bool" where
  "marker_invalidates_snapshot kind created w \<longleftrightarrow>
     list_ex (\<lambda>k. case registry_marker_version (wk_tags w) k of Some version \<Rightarrow> created \<le> version | None \<Rightarrow> False) [kind, ClearRemove]"

fun check_observed_markers ::
  "'v cache_config \<Rightarrow> ('v, 'l, 'b) control_env \<Rightarrow> nat \<Rightarrow> marker_read_storage \<Rightarrow> timestamp \<Rightarrow> marker_kind list \<Rightarrow> ('v, 'b, unit) site_op" where
  "check_observed_markers cfg ce n storage created [] = so_check (cl_markers ce) n"
| "check_observed_markers cfg ce n storage created (kind # kinds) =
     so_bind (so_check (cl_markers ce) n) (\<lambda>_.
     so_bind (read_control_marker cfg ce n storage kind) (\<lambda>_.
     so_read (\<lambda>w. if marker_invalidates_snapshot kind created w then so_check (cl_markers ce) (n + 40)
                   else check_observed_markers cfg ce (n + 40) storage created kinds)))"

definition reconcile_controlled_markers ::
  "'v cache_config \<Rightarrow> ('v, 'l, 'b) control_env \<Rightarrow> nat \<Rightarrow> 'v entry \<Rightarrow> ('v, 'b, unit) site_op" where
  "reconcile_controlled_markers cfg ce n e =
     (let check = (\<lambda>storage. check_observed_markers cfg ce n storage (md_created (en_meta e)) (secondary_marker_kinds (md_tags (en_meta e)))) in
      if cc_disable_tagging cfg \<or> cc_marker_reads cfg = DurableRequired then so_return ()
      else case me_access (cl_markers ce) of
             AccessLocal \<Rightarrow> so_return ()
           | AccessUnavailable \<Rightarrow> so_of (Inl (ErrMarker MarkerUnsupported))
           | AccessDurable \<Rightarrow> check AtomicStorage
           | AccessOrdinary \<Rightarrow> check OrdinaryStorage)"

end
