(* ===== verification/Amalgam_Control_Facts.thy ===== *)
theory Amalgam_Control_Facts
  imports Amalgam_Control_Reads
begin

text \<open>
  What a controlled marker read guarantees. Every step keeps the order of the shared state: the registry and the
  event log only grow. A read that is reported as observed has brought into the registry what the
  authority held when the read began; a failing store degrades to what is remembered and is never taken
  for an absent marker.
\<close>

section \<open>Orders on sites\<close>

definition keeps :: "(('v, 'b) site \<Rightarrow> ('v, 'b) site \<Rightarrow> bool) \<Rightarrow> ('v, 'b, 'a) site_op \<Rightarrow> bool" where
  "keeps R m \<longleftrightarrow> (\<forall>s s' r. m s = (s', r) \<longrightarrow> R s s')"

lemma keepsD: "keeps R m \<Longrightarrow> m s = (s', r) \<Longrightarrow> R s s'"
  by (simp add: keeps_def)

definition site_order_of :: "('v worker \<Rightarrow> 'v worker \<Rightarrow> bool) \<Rightarrow> ('b \<Rightarrow> 'b \<Rightarrow> bool) \<Rightarrow> ('v, 'b) site \<Rightarrow> ('v, 'b) site \<Rightarrow> bool" where
  "site_order_of le ble s s' \<longleftrightarrow> le (sv_worker s) (sv_worker s') \<and> ble (sv_backend s) (sv_backend s')"

text \<open>What the environment of a controlled read keeps.\<close>

definition control_rely :: "('v worker \<Rightarrow> 'v worker \<Rightarrow> bool) \<Rightarrow> ('b \<Rightarrow> 'b \<Rightarrow> bool) \<Rightarrow> ('v, 'l, 'b) control_env \<Rightarrow> bool" where
  "control_rely le ble ce \<longleftrightarrow> order_rely le (cl_markers ce)
     \<and> (\<forall>n s. ble (sv_backend s) (sv_backend (ce_wait (me_commit (cl_markers ce)) n s)))
     \<and> (\<forall>n scope kind snap p b. ble b (fst (me_renew (cl_markers ce) n scope kind snap p b)))
     \<and> (\<forall>n scope kind t b. ble b (fst (cl_snapshot ce n scope kind t b)))"

lemma control_relyD:
  assumes "control_rely le ble ce"
  shows "order_rely le (cl_markers ce)" "ble (sv_backend s) (sv_backend (ce_wait (me_commit (cl_markers ce)) n s))"
    "me_renew (cl_markers ce) n scope kind snap p b = (b', r) \<Longrightarrow> ble b b'"
    "cl_snapshot ce n scope kind t b = (b', r') \<Longrightarrow> ble b b'"
  using assms unfolding control_rely_def by (simp_all) (metis fst_conv)+

named_theorems keeping

locale site_order = worker_order le for le :: "'v worker \<Rightarrow> 'v worker \<Rightarrow> bool" +
  fixes ble :: "'b \<Rightarrow> 'b \<Rightarrow> bool"
  assumes ble_refl: "ble b b" and ble_trans: "ble a b \<Longrightarrow> ble b c \<Longrightarrow> ble a c"
    and le_clear: "le w (w\<lparr>wk_clears := initialize_clear kind captured outcome (wk_clears w)\<rparr>)"
begin

abbreviation below :: "('v, 'b) site \<Rightarrow> ('v, 'b) site \<Rightarrow> bool" where
  "below \<equiv> site_order_of le ble"

lemma below_refl: "below s s"
  by (simp add: site_order_of_def le_refl ble_refl)

lemma below_trans: "below a b \<Longrightarrow> below b c \<Longrightarrow> below a c"
  using le_trans ble_trans by (auto simp: site_order_of_def)

lemma below_worker: "le (sv_worker s) w \<Longrightarrow> below s (s\<lparr>sv_worker := w\<rparr>)"
  by (simp add: site_order_of_def ble_refl)

lemma keeps_return [keeping]: "keeps below (so_return a)"
  by (simp add: keeps_def so_return_def below_refl)

lemma keeps_of [keeping]: "keeps below (so_of r)"
  by (simp add: keeps_def so_of_def below_refl)

lemma keeps_check [keeping]: "keeps below (so_check me n)"
  by (simp add: so_check_def keeps_of)

lemma keeps_bind [keeping]: "keeps below m \<Longrightarrow> (\<And>a. keeps below (f a)) \<Longrightarrow> keeps below (so_bind m f)"
  by (fastforce simp: keeps_def so_bind_def intro: below_trans split: prod.splits sum.splits)

lemma keeps_try [keeping]: "keeps below m \<Longrightarrow> keeps below (so_try m)"
  by (auto simp: keeps_def so_try_def split: prod.splits)

lemma keeps_read [keeping]: "(\<And>w. keeps below (f w)) \<Longrightarrow> keeps below (so_read f)"
  by (auto simp: keeps_def so_read_def)

lemma keeps_update: "(\<And>w. le w (f w)) \<Longrightarrow> keeps below (so_update f)"
  by (auto simp: keeps_def so_update_def on_worker_def intro: below_worker)

lemma keeps_worker: "(\<And>w w' a. f w = (w', a) \<Longrightarrow> le w w') \<Longrightarrow> keeps below (so_worker f)"
  by (auto simp: keeps_def so_worker_def intro: below_worker split: prod.splits)

lemma keeps_result: "(\<And>w w' a. f w = (w', a) \<Longrightarrow> le w w') \<Longrightarrow> keeps below (so_result f)"
  by (auto simp: keeps_def so_result_def intro: below_worker split: prod.splits)

lemma keeps_apply [keeping]:
  "keeps below (so_update (apply_marker m))" "keeps below (so_update (accept_marker_observation kind obs))" "keeps below (so_update id)"
  "keeps below (so_update (emit e))"
  by (rule keeps_update, simp add: le_apply accept_le le_refl le_emit)+

lemma keeps_if [keeping]: "(b \<Longrightarrow> keeps below m) \<Longrightarrow> (\<not> b \<Longrightarrow> keeps below m') \<Longrightarrow> keeps below (if b then m else m')"
  by simp

lemma keeps_option [keeping]:
  "keeps below m \<Longrightarrow> (\<And>a. keeps below (f a)) \<Longrightarrow> keeps below (case x of None \<Rightarrow> m | Some a \<Rightarrow> f a)"
  by (cases x) simp_all

end

context site_order
begin

lemma keeps_wait: "control_rely le ble ce \<Longrightarrow> keeps below (so_wait (cl_markers ce) n)"
  using control_relyD(2) order_relyD(1) [OF control_relyD(1)] by (auto simp: keeps_def so_wait_def site_order_of_def)

lemma keeps_cached: "keeps below (marker_cached ce n kind)"
  unfolding marker_cached_def
  by (intro keeping keeps_worker) (auto intro: get_observation_le keeping split: option.split)

lemma keeps_lookup: "keeps below (marker_lookup_step cfg ce n kind captured)"
  unfolding marker_lookup_step_def by (auto intro!: keeping keeps_cached split: option.split)

lemma keeps_degraded: "keeps below (marker_degraded ce n kind cached fault)"
  unfolding marker_degraded_def by (auto intro!: keeping keeps_result intro: retain_fallback_le split: option.split)

lemma keeps_observation: "control_rely le ble ce \<Longrightarrow> keeps below (record_control_observation ce n kind presence captured)"
  unfolding record_control_observation_def
  by (auto intro!: keeping keeps_result intro: observations_store_le [OF control_relyD(1)] keeping split: sum.split marker_presence.split)

lemma keeps_snapshot: "control_rely le ble ce \<Longrightarrow> keeps below (record_control_snapshot ce n kind snap captured)"
  unfolding record_control_snapshot_def
  by (auto intro!: keeping keeps_result intro: store_snapshot_le [OF control_relyD(1)])

lemma keeps_ask [keeping]: "keeps below (so_ask f)"
  by (simp add: keeps_def so_ask_def below_refl)

lemma keeps_fetch_marker: "control_rely le ble ce \<Longrightarrow> keeps below (fetch_control_marker ce n storage kind has_fallback)"
  unfolding fetch_control_marker_def read_with_cancellation_def Let_def by (auto intro!: keeping keeps_wait)

lemma keeps_fetch_snapshot:
  assumes "control_rely le ble ce"
  shows "keeps below (fetch_control_snapshot ce n kind has_fallback)"
proof -
  have "keeps below (so_backend (\<lambda>b. map_prod id f (cl_snapshot ce n scope kind t b)))" for f :: "snapshot_cache_error + marker_snapshot_read \<Rightarrow> cache_error + marker_snapshot_fetch" and scope t
    using control_relyD(4) [OF assms] le_refl
    by (auto simp: keeps_def so_backend_def site_order_of_def map_prod_def split: prod.splits)
  then show ?thesis unfolding fetch_control_snapshot_def Let_def by (auto intro!: keeping keeps_wait [OF assms])
qed

lemma keeps_acquire: "control_rely le ble ce \<Longrightarrow> keeps below (acquire_control_marker_lease cfg ce n kind mode)"
  unfolding acquire_control_marker_lease_def Let_def by (auto intro!: keeping keeps_wait split: option.split)

lemma keeps_finish: "control_rely le ble ce \<Longrightarrow> keeps below m \<Longrightarrow> keeps below (finish_lease cfg ce n lease m)"
  unfolding finish_lease_def by (auto intro!: keeping keeps_wait)

lemma keeps_excluded: "control_rely le ble ce \<Longrightarrow> keeps below (retain_excluded_marker_factory ce n kind presence stale captured fault)"
  unfolding retain_excluded_marker_factory_def
  by (auto intro!: keeping keeps_result keeps_degraded intro: retain_snapshot_le [OF control_relyD(1)] split: marker_factory_stale.split)

lemma keeps_commit:
  assumes "control_rely le ble ce"
  shows "keeps below (commit_control_snapshot cfg (cl_markers ce) n commit policy)"
proof -
  let ?s = "\<lambda>s. ce_wait (me_commit (cl_markers ce)) n s"
  have "ble (sv_backend s) b" if "me_renew (cl_markers ce) n scope kind snap p (sv_backend (?s s)) = (b, r)" for scope kind snap p s b r
    using ble_trans [OF control_relyD(2) [OF assms, of s n] control_relyD(3) [OF assms that]] .
  then have "ble (sv_backend s) (sv_backend s')" if "commit_control_snapshot cfg (cl_markers ce) n commit policy s = (s', r)" for s s' r
    using that control_relyD(2) [OF assms, of s n] ble_refl
    by (auto simp: commit_control_snapshot_def Let_def split: option.splits if_splits sum.splits prod.splits)
  then show ?thesis using control_snapshot_le [OF control_relyD(1) [OF assms]] by (auto simp: keeps_def site_order_of_def)
qed

lemma keeps_write: "control_rely le ble ce \<Longrightarrow> keeps below (write_control_snapshot cfg ce n commit)"
  unfolding write_control_snapshot_def Let_def by (auto intro!: keeping keeps_finish keeps_commit)

lemma keeps_store_factory: "control_rely le ble ce \<Longrightarrow> keeps below (store_factory_observation ce n lease kind obs jitter captured)"
  unfolding store_factory_observation_def Let_def
  by (auto intro!: keeping keeps_result intro: observations_store_le [OF control_relyD(1)])

lemma keeps_complete: "control_rely le ble ce \<Longrightarrow> keeps below (complete_control_marker_factory cfg ce n obs stale refresh lease)"
  unfolding complete_control_marker_factory_def Let_def
  by (auto intro!: keeping keeps_finish keeps_excluded keeps_store_factory keeps_write split: sum.split option.split)

lemma keeps_unobserved: "control_rely le ble ce \<Longrightarrow> keeps below (complete_unobserved_marker_factory cfg ce n cached unread refresh lease)"
  unfolding complete_unobserved_marker_factory_def
  by (auto intro!: keeping keeps_finish keeps_excluded split: sum.split option.split)

lemma keeps_leased: "control_rely le ble ce \<Longrightarrow> keeps below (resolve_leased_control_snapshot cfg ce n cached r refresh lease)"
  unfolding resolve_leased_control_snapshot_def Let_def
  by (auto intro!: keeping keeps_finish keeps_snapshot keeps_complete keeps_unobserved split: marker_factory_read.split marker_snapshot_read.split option.split)

lemma keeps_recheck: "control_rely le ble ce \<Longrightarrow> keeps below (recheck_control_snapshot cfg ce n kind has_fallback)"
  unfolding recheck_control_snapshot_def Let_def
  by (auto intro!: keeping keeps_fetch_snapshot split: sum.split marker_snapshot_fetch.split cache_error.split)

lemma keeps_resolve: "control_rely le ble ce \<Longrightarrow> keeps below (resolve_control_snapshot cfg ce n kind cached r captured)"
  unfolding resolve_control_snapshot_def
  by (auto intro!: keeping keeps_snapshot keeps_acquire keeps_recheck keeps_leased
      split: marker_factory_read.split marker_snapshot_read.split option.split marker_lease_acquisition.split)

lemma keeps_unavailable: "control_rely le ble ce \<Longrightarrow> keeps below (unavailable_control_marker cfg ce n kind cached captured fault)"
  unfolding unavailable_control_marker_def by (auto intro!: keeps_degraded keeps_resolve split: marker_lifecycle_policy.split)

lemma keeps_remote: "control_rely le ble ce \<Longrightarrow> keeps below (marker_remote cfg ce n storage kind cached captured)"
  unfolding marker_remote_def
  by (auto intro!: keeping keeps_fetch_marker keeps_fetch_snapshot keeps_resolve keeps_observation keeps_unavailable
      split: marker_lifecycle_policy.split sum.split marker_fetch.split cache_error.split)

lemma keeps_resolve_read: "control_rely le ble ce \<Longrightarrow> keeps below (resolve_control_read cfg ce n storage kind captured)"
  unfolding resolve_control_read_def Let_def
  by (auto intro!: keeping keeps_cached keeps_resolve keeps_remote split: option.split marker_lifecycle_policy.split)

lemma keeps_outcome: "control_rely le ble ce \<Longrightarrow> keeps below (control_outcome cfg ce n storage kind captured)"
  unfolding control_outcome_def refresh_control_marker_def Let_def
  by (auto intro!: keeping keeps_lookup keeps_wait keeps_resolve_read split: marker_lookup.split)

lemma keeps_eager: "control_rely le ble ce \<Longrightarrow> keeps below (eager_control_marker cfg ce n kind current captured)"
  unfolding eager_control_marker_def Let_def
  by (auto intro!: keeping keeps_fetch_snapshot keeps_snapshot keeps_acquire keeps_leased
      split: marker_factory_read.split marker_snapshot_read.split option.split marker_lease_acquisition.split sum.split marker_snapshot_fetch.split cache_error.split)

lemma keeps_maybe_eager:
  assumes "control_rely le ble ce"
  shows "keeps below (maybe_eager_control_marker cfg ce n kind captured)"
  unfolding maybe_eager_control_marker_def Let_def
  by (intro keeping keeps_cached keeps_wait [OF assms] keeps_eager [OF assms] keeps_worker) (rule put_observation_le)

lemma keeps_control_marker: "control_rely le ble ce \<Longrightarrow> keeps below (read_control_marker cfg ce n storage kind)"
  unfolding read_control_marker_def Let_def
  by (auto intro!: keeping keeps_outcome keeps_maybe_eager keeps_update simp: le_refl le_clear)

lemma keeps_markers: "control_rely le ble ce \<Longrightarrow> keeps below (check_observed_markers cfg ce n storage created kinds)"
  by (induction kinds arbitrary: n) (auto intro!: keeping keeps_control_marker)

lemma keeps_controlled: "control_rely le ble ce \<Longrightarrow> keeps below (reconcile_controlled_markers cfg ce n e)"
  unfolding reconcile_controlled_markers_def Let_def by (auto intro!: keeping keeps_markers split: marker_access.split)

end

section \<open>The orders of a controlled read\<close>

interpretation tags_site: site_order tags_le "\<lambda>_ _. True"
  by unfold_locales simp_all

definition clears_sound :: "clear_observations \<Rightarrow> bool" where
  "clears_sound c \<longleftrightarrow> (\<forall>kind captured. clear_of kind c \<noteq> Some (ClearKnown captured ReadObserved))"

lemma clears_sound_reset: "clears_sound reset_clears"
  by (auto simp: clears_sound_def reset_clears_def elim: clear_of.elims)

lemma clears_sound_initialize: "clears_sound c \<Longrightarrow> clears_sound (initialize_clear kind captured outcome c)"
  unfolding clears_sound_def
proof (intro allI)
  fix k ep
  assume c: "\<forall>kind captured. clear_of kind c \<noteq> Some (ClearKnown captured ReadObserved)"
  show "clear_of k (initialize_clear kind captured outcome c) \<noteq> Some (ClearKnown ep ReadObserved)"
    using c [rule_format, of k ep] by (cases kind; cases k) auto
qed

text \<open>The registry and the event log only grow, and the shortcuts of the clears stay what they are.\<close>

definition control_le :: "'v worker \<Rightarrow> 'v worker \<Rightarrow> bool" where
  "control_le w w' \<longleftrightarrow> tags_le w w' \<and> (\<exists>es. wk_events w' = wk_events w @ es) \<and> (clears_sound (wk_clears w) \<longrightarrow> clears_sound (wk_clears w'))"

text \<open>No revision of the scope is withdrawn, as a compaction of the store would do.\<close>

definition revisions_le :: "cache_scope \<Rightarrow> invalidation_store \<Rightarrow> invalidation_store \<Rightarrow> bool" where
  "revisions_le scope b b' \<longleftrightarrow> (\<forall>kind t. covered_by t (scope_read scope kind b) \<longrightarrow> covered_by t (scope_read scope kind b'))"

interpretation control: site_order control_le "revisions_le scope" for scope
proof unfold_locales
  show "control_le a c" if "control_le a b" "control_le b c" for a b c :: "'v worker"
    using that by (auto simp: control_le_def intro: tags_le_trans)
  show "control_le w (w\<lparr>wk_clears := initialize_clear kind captured outcome (wk_clears w)\<rparr>)" for w :: "'v worker" and kind captured outcome
    by (auto simp: control_le_def clears_sound_initialize)
qed (auto simp: control_le_def revisions_le_def apply_marker_def emit_def tags_le_same intro: tags_le_apply [unfolded apply_marker_def])

abbreviation control_below :: "cache_scope \<Rightarrow> ('v, invalidation_store) site \<Rightarrow> ('v, invalidation_store) site \<Rightarrow> bool" where
  "control_below scope \<equiv> site_order_of control_le (revisions_le scope)"

section \<open>Observed reads\<close>

text \<open>A marker that must be known: it is in the store, or already in the registry.\<close>

definition owed :: "cache_scope \<Rightarrow> marker_kind \<Rightarrow> timestamp \<Rightarrow> ('v, invalidation_store) site \<Rightarrow> bool" where
  "owed scope kind t s \<longleftrightarrow> registry_ok (wk_tags (sv_worker s)) \<and> clears_sound (wk_clears (sv_worker s))
     \<and> (covered_by t (scope_read scope kind (sv_backend s)) \<or> registry_covers (wk_tags (sv_worker s)) kind t)"

abbreviation known :: "marker_kind \<Rightarrow> timestamp \<Rightarrow> ('v, 'b) site \<Rightarrow> bool" where
  "known kind t s \<equiv> registry_covers (wk_tags (sv_worker s)) kind t"

lemma below_frames:
  assumes "control_below scope s s'"
  shows "tags_le (sv_worker s) (sv_worker s')" "registry_ok (wk_tags (sv_worker s)) \<Longrightarrow> registry_ok (wk_tags (sv_worker s'))"
    "clears_sound (wk_clears (sv_worker s)) \<Longrightarrow> clears_sound (wk_clears (sv_worker s'))"
    "covered_by t (scope_read scope kind (sv_backend s)) \<Longrightarrow> covered_by t (scope_read scope kind (sv_backend s'))"
  using assms ok_tags_le by (auto simp: site_order_of_def control_le_def revisions_le_def)

lemma known_below: "control_below scope s s' \<Longrightarrow> registry_ok (wk_tags (sv_worker s)) \<Longrightarrow> known kind t s \<Longrightarrow> known kind t s'"
  using covers_tags_le below_frames(1) by blast

lemma owed_below: "control_below scope s s' \<Longrightarrow> owed scope kind t s \<Longrightarrow> owed scope kind t s'"
  using below_frames known_below unfolding owed_def by blast

definition sees :: "cache_scope \<Rightarrow> marker_kind \<Rightarrow> ('v, invalidation_store, marker_read_outcome) site_op \<Rightarrow> bool" where
  "sees scope kind m \<longleftrightarrow> (\<forall>s s' t. m s = (s', Inr ReadObserved) \<longrightarrow> owed scope kind t s \<longrightarrow> known kind t s')"

definition silent :: "('v, 'b, marker_read_outcome) site_op \<Rightarrow> bool" where
  "silent m \<longleftrightarrow> (\<forall>s s'. m s \<noteq> (s', Inr ReadObserved))"

lemma silent_sees: "silent m \<Longrightarrow> sees scope kind m"
  by (simp add: sees_def silent_def)

lemma so_bind_Inr: "so_bind m f s = (s', Inr b) \<longleftrightarrow> (\<exists>s1 a. m s = (s1, Inr a) \<and> f a s1 = (s', Inr b))"
  by (auto simp: so_bind_def split: prod.splits sum.splits)

named_theorems seeing

lemma sees_bind [seeing]:
  "keeps (control_below scope) m \<Longrightarrow> (\<And>a. sees scope kind (f a)) \<Longrightarrow> sees scope kind (so_bind m f)"
  unfolding sees_def so_bind_Inr by (meson keepsD owed_below)

lemma sees_read [seeing]: "(\<And>w. sees scope kind (f w)) \<Longrightarrow> sees scope kind (so_read f)"
  by (auto simp: sees_def so_read_def)

named_theorems silence

lemma silent_bind [silence]: "(\<And>a. silent (f a)) \<Longrightarrow> silent (so_bind m f)"
  by (auto simp: silent_def so_bind_Inr)

lemma silent_read [silence]: "(\<And>w. silent (f w)) \<Longrightarrow> silent (so_read f)"
  by (auto simp: silent_def so_read_def)

lemma silent_return [silence]: "outcome \<noteq> ReadObserved \<Longrightarrow> silent (so_return outcome)"
  by (auto simp: silent_def so_return_def)

lemma silent_fails [silence]: "silent (so_of (Inl er))"
  by (auto simp: silent_def so_of_def)

lemma finished_result: "finish_control_marker_lease cfg me lp n lease r = Inr v \<Longrightarrow> r = Inr v"
  by (auto simp: finish_control_marker_lease_def Let_def split: sum.splits)

lemma finish_lease_result: "finish_lease cfg ce n lease m s = (s', Inr v) \<Longrightarrow> \<exists>s1. m s = (s1, Inr v) \<and> s' = ce_wait (me_commit (cl_markers ce)) n s1"
  by (auto simp: finish_lease_def so_bind_Inr so_try_def so_wait_def so_of_def dest!: finished_result split: prod.splits)

lemma silent_finish [silence]: "silent m \<Longrightarrow> silent (finish_lease cfg ce n lease m)"
  by (auto simp: silent_def dest!: finish_lease_result)

lemma observation_not_observed [simp]: "observation_outcome obs \<noteq> ReadObserved"
  by (cases obs) simp_all

lemma silent_degraded: "silent (marker_degraded ce n kind cached fault)"
  unfolding marker_degraded_def by (auto intro!: silence split: option.split)

lemma silent_excluded: "silent (retain_excluded_marker_factory ce n kind presence stale captured fault)"
  unfolding retain_excluded_marker_factory_def by (auto intro!: silence silent_degraded split: marker_factory_stale.split)

lemma reconcile_silent: "observed_outcome obs \<noteq> ReadObserved \<Longrightarrow> observed_outcome (reconcile_maximum m obs) \<noteq> ReadObserved"
  by (cases obs) (auto simp: reconcile_maximum_def split: option.splits marker_presence.splits)

lemma admitted_result:
  "admit_observation me n kind e now stamp rounds w = (w', obs) \<Longrightarrow> observed_outcome (en_value e) \<noteq> ReadObserved \<Longrightarrow> observed_outcome obs \<noteq> ReadObserved"
proof (induction rounds arbitrary: w)
  case Nil
  then show ?case by (auto simp: admit_round_def Let_def with_value_def reconcile_silent split: if_splits prod.splits)
next
  case (Cons f rest)
  then show ?case by (auto simp: admit_round_def Let_def with_value_def reconcile_silent split: if_splits prod.splits)
qed

lemma stored_result:
  assumes "observations_store me n kind obs opts now jitter stamp w = (w', Inr obs')" "observed_outcome obs \<noteq> ReadObserved"
  shows "observed_outcome obs' \<noteq> ReadObserved"
proof -
  have "en_value (with_hydrated_value obs stamp e) = obs" for e :: "marker_observation entry" by (simp add: with_hydrated_value_def)
  then show ?thesis using assms admitted_result [of me n kind "with_hydrated_value obs stamp _"]
    by (simp add: observations_store_def split: if_splits sum.splits prod.splits)
qed

lemma silent_bind_result: "(\<And>s s1 a. m s = (s1, Inr a) \<Longrightarrow> silent (f a)) \<Longrightarrow> silent (so_bind m f)"
  unfolding silent_def so_bind_Inr by blast

lemma factory_stored:
  assumes "store_factory_observation ce n lease kind obs jitter captured s = (s', Inr (obs', local))" "observed_outcome obs \<noteq> ReadObserved"
  shows "observed_outcome obs' \<noteq> ReadObserved"
  using assms stored_result
  by (simp add: store_factory_observation_def so_bind_Inr so_return_def so_result_def Let_def split: if_splits prod.splits) blast

lemma silent_complete:
  fixes ce :: "('v, 'l, 'b) control_env"
  assumes "observed_outcome obs \<noteq> ReadObserved"
  shows "silent (complete_control_marker_factory cfg ce n obs stale refresh lease)"
proof -
  have "silent (so_bind (store_factory_observation ce n lease kind (reconcile_maximum m obs) jitter captured) (\<lambda>(obs, local).
      so_bind (p obs) (\<lambda>_. so_bind (q obs local) (\<lambda>_. so_bind (c obs) (\<lambda>_. so_read (\<lambda>w. so_return (observed_outcome (reconcile_maximum (g w) obs))))))))"
    for kind m jitter captured g and p c :: "marker_observation \<Rightarrow> ('v, 'b, unit) site_op" and q :: "marker_observation \<Rightarrow> marker_local_commit \<Rightarrow> ('v, 'b, unit) site_op"
    by (rule silent_bind_result) (auto intro!: silence reconcile_silent dest!: factory_stored [OF _ reconcile_silent [OF assms]])
  then show ?thesis unfolding complete_control_marker_factory_def Let_def
    by (auto intro!: silence silent_excluded split: sum.split option.split)
qed

lemma silent_unobserved: "silent (complete_unobserved_marker_factory cfg ce n cached unread refresh lease)"
  unfolding complete_unobserved_marker_factory_def
  by (auto intro!: silence silent_excluded split: sum.split option.split marker_unobserved_read.split)

lemma silent_leased: "silent (resolve_leased_control_snapshot cfg ce n cached (FactoryUnobserved unread) refresh lease)"
  unfolding resolve_leased_control_snapshot_def Let_def
  by (auto intro!: silence silent_unobserved silent_complete reconcile_silent simp: known_control_factory_observation_def split: option.split)

lemma applied_known:
  assumes "so_bind (so_update (apply_marker (StoredMarker kind v))) f s = (s', r)" "t \<le> v" "registry_ok (wk_tags (sv_worker s))"
    "keeps (control_below scope) (f ())"
  shows "known kind t s'"
proof -
  let ?s = "on_worker (apply_marker (StoredMarker kind v)) s"
  have "f () ?s = (s', r)" using assms(1) by (simp add: so_bind_def so_update_def)
  then have "control_below scope ?s s'" using assms(4) keepsD by blast
  moreover have "known kind t ?s" using registry.covers_adv [OF assms(3,2)] by (simp add: on_worker_def apply_marker_def)
  moreover have "registry_ok (wk_tags (sv_worker ?s))" using ok_tags_le [OF assms(3) tags_le_apply] by (simp add: on_worker_def)
  ultimately show ?thesis using known_below by blast
qed

lemma leased_known:
  assumes "control_rely control_le (revisions_le scope) ce" "covered_by t (read_maximum r)" "registry_ok (wk_tags (sv_worker s))"
    "resolve_leased_control_snapshot cfg ce n cached (FactoryRead r) refresh lease s = (s', Inr outcome)"
  shows "known (mr_kind refresh) t s'"
proof -
  obtain v where v: "read_maximum r = Some v" "t \<le> v" using assms(2) by (auto simp: covered_by_def split: option.splits)
  note k = control.keeps_finish [OF assms(1)] control.keeps_snapshot [OF assms(1)] control.keeps_complete [OF assms(1)] keeping
  show ?thesis
  proof (cases r)
    case (ReadSnapshot snap)
    then show ?thesis using assms(4) v
      by (auto simp: resolve_leased_control_snapshot_def Let_def so_bind_Inr [where m = "so_of x" for x] so_bind_Inr [where m = "so_check x y" for x y]
            so_of_def so_check_def intro!: applied_known [OF _ v(2) assms(3)] k)
  next
    case (ReadMissing m)
    then show ?thesis using assms(4) v
      by (auto simp: resolve_leased_control_snapshot_def Let_def so_bind_Inr [where m = "so_of x" for x] so_bind_Inr [where m = "so_check x y" for x y]
            so_of_def so_check_def intro!: applied_known [OF _ v(2) assms(3)] k)
  qed
qed

text \<open>A store that answers with what it holds, or not at all.\<close>

definition truthful :: "('v, 'l, invalidation_store) control_env \<Rightarrow> bool" where
  "truthful ce \<longleftrightarrow> (\<forall>n scope kind b v. cl_read ce n scope kind b = Inr v \<longrightarrow> v = scope_read scope kind b)
     \<and> (\<forall>n scope kind t b b' r. cl_snapshot ce n scope kind t b = (b', Inr r) \<longrightarrow> r = snd (read_snapshot scope kind t b))"

lemma truthfulD:
  assumes "truthful ce"
  shows "cl_read ce n scope kind b = Inr v \<Longrightarrow> v = scope_read scope kind b"
    "cl_snapshot ce n scope kind t b = (b', Inr r) \<Longrightarrow> r = snd (read_snapshot scope kind t b)"
  using assms by (auto simp: truthful_def)

lemma read_snapshot_maximum: "covered_by t (scope_read scope kind b) \<Longrightarrow> covered_by t (read_maximum (snd (read_snapshot scope kind now b)))"
  by (auto simp: read_snapshot_def Let_def covered_by_def with_maximum_def split: option.splits)

lemma so_of_Inr: "so_of r s = (s', Inr a) \<longleftrightarrow> s' = s \<and> r = Inr a"
  by (auto simp: so_of_def)

lemma so_check_Inr: "so_check me n s = (s', Inr a) \<longleftrightarrow> s' = s \<and> cancel_check me n = None"
  by (auto simp: so_check_def so_of_def split: option.splits)

lemma map_sum_Inr [simp]: "map_sum f id r = Inr a \<longleftrightarrow> r = Inr a"
  by (cases r) simp_all

lemma map_sum_Inl [simp]: "map_sum f id r = Inl x \<longleftrightarrow> (\<exists>er. r = Inl er \<and> x = f er)"
  by (cases r) auto

lemma fetched_marker:
  assumes "control_rely control_le (revisions_le scope) ce" "truthful ce" "me_scope (cl_markers ce) = scope" "owed scope kind t s"
    "fetch_control_marker ce n AtomicStorage kind has_fallback s = (s', Inr (FetchObserved presence))"
  shows "covered_by t (presence_version presence) \<or> known kind t s'"
proof -
  let ?s = "ce_wait (me_commit (cl_markers ce)) n s"
  have "control_below scope s ?s" by (rule keepsD [OF control.keeps_wait [OF assms(1)]]) (simp add: so_wait_def)
  then have "owed scope kind t ?s" using owed_below assms(4) by blast
  moreover have "s' = ?s" "presence_version presence = scope_read scope kind (sv_backend ?s)"
    using assms(5,3) truthfulD(1) [OF assms(2)]
    by (auto simp: fetch_control_marker_def read_with_cancellation_def Let_def so_bind_Inr so_of_Inr so_check_Inr so_wait_def so_ask_def so_return_def
        split: if_splits option.splits)
  ultimately show ?thesis by (auto simp: owed_def)
qed

lemma fetched_snapshot:
  assumes "control_rely control_le (revisions_le scope) ce" "truthful ce" "me_scope (cl_markers ce) = scope" "owed scope kind t s"
    "fetch_control_snapshot ce n kind has_fallback s = (s', Inr (SnapshotFetched r))"
  shows "covered_by t (read_maximum r) \<or> known kind t s'"
proof -
  let ?s = "ce_wait (me_commit (cl_markers ce)) n s"
  have "control_below scope s ?s" by (rule keepsD [OF control.keeps_wait [OF assms(1)]]) (simp add: so_wait_def)
  then have "owed scope kind t ?s" using owed_below assms(4) by blast
  moreover have "wk_tags (sv_worker s') = wk_tags (sv_worker ?s)" "r = snd (read_snapshot scope kind (cl_now ce n) (sv_backend ?s))"
    using assms(5,3) truthfulD(2) [OF assms(2)]
    by (auto simp: fetch_control_snapshot_def Let_def so_bind_Inr so_wait_def so_backend_def so_return_def map_prod_def map_sum_def
        split: if_splits prod.splits sum.splits)
  ultimately show ?thesis using read_snapshot_maximum by (auto simp: owed_def)
qed

lemma rechecked_snapshot:
  assumes "control_rely control_le (revisions_le scope) ce" "truthful ce" "me_scope (cl_markers ce) = scope" "owed scope kind t s"
    "recheck_control_snapshot cfg ce n kind has_fallback s = (s', Inr (Some r))"
  shows "covered_by t (read_maximum r) \<or> known kind t s'"
proof -
  have "fetch_control_snapshot ce n kind has_fallback s = (s', Inr (SnapshotFetched r))"
    using assms(5) by (auto simp: recheck_control_snapshot_def Let_def so_bind_Inr so_try_def so_return_def so_of_Inr
        split: if_splits prod.splits sum.splits marker_snapshot_fetch.splits cache_error.splits)
  then show ?thesis using fetched_snapshot [OF assms(1-4)] by blast
qed

lemma owed_ok: "owed scope kind t s \<Longrightarrow> registry_ok (wk_tags (sv_worker s))"
  by (simp add: owed_def)

lemma leased_sees:
  assumes "control_rely control_le (revisions_le scope) ce" "owed scope kind t s"
    "resolve_leased_control_snapshot cfg ce n cached r \<lparr>mr_kind = kind, mr_captured = captured, mr_mode = mode\<rparr> lease s = (s', Inr ReadObserved)"
    "\<And>x. r = FactoryRead x \<Longrightarrow> covered_by t (read_maximum x) \<or> known kind t s"
  shows "known kind t s'"
proof (cases r)
  case (FactoryRead x)
  show ?thesis
  proof (cases "known kind t s")
    case True
    then show ?thesis using known_below [OF keepsD [OF control.keeps_leased [OF assms(1)] assms(3)] owed_ok [OF assms(2)]] by blast
  next
    case False
    then have "covered_by t (read_maximum x)" using assms(4) FactoryRead by blast
    then show ?thesis using leased_known [OF assms(1) _ owed_ok [OF assms(2)] assms(3) [unfolded FactoryRead]] by simp
  qed
next
  case (FactoryUnobserved unread)
  then show ?thesis using assms(3) silent_leased [of cfg ce n cached unread \<open>\<lparr>mr_kind = kind, mr_captured = captured, mr_mode = mode\<rparr>\<close> lease] by (simp add: silent_def)
qed

lemma resolve_sees:
  assumes "control_rely control_le (revisions_le scope) ce" "truthful ce" "me_scope (cl_markers ce) = scope" "owed scope kind t s"
    "resolve_control_snapshot cfg ce n kind cached r captured s = (s', Inr ReadObserved)"
    "\<And>x. r = FactoryRead x \<Longrightarrow> covered_by t (read_maximum x) \<or> known kind t s"
  shows "known kind t s'"
proof -
  let ?step = "case r of FactoryRead x \<Rightarrow> (case read_maximum x of Some v \<Rightarrow> apply_marker (StoredMarker kind v) | None \<Rightarrow> id) | FactoryUnobserved _ \<Rightarrow> id"
  let ?s = "on_worker ?step s"
  have "control_below scope s ?s"
    by (rule keepsD [of _ "so_update ?step"]) (auto intro: keeping simp: so_update_def split: marker_factory_read.split option.split)
  then have o1: "owed scope kind t ?s" using owed_below assms(4) by blast
  have k1: "known kind t ?s" if x: "r = FactoryRead x" for x
  proof (cases "known kind t s")
    case True
    then show ?thesis using known_below [OF \<open>control_below scope s ?s\<close> owed_ok [OF assms(4)]] by blast
  next
    case False
    then obtain v where "read_maximum x = Some v" "t \<le> v" using assms(6) [OF x] by (auto simp: covered_by_def split: option.splits)
    then show ?thesis using registry.covers_adv [OF owed_ok [OF assms(4)]] x by (simp add: on_worker_def apply_marker_def)
  qed
  let ?fresh = "case r of FactoryRead (ReadSnapshot snap) \<Rightarrow> if snapshot_is_fresh snap (cl_now ce n) then Some snap else None | _ \<Rightarrow> None"
  show ?thesis
  proof (cases ?fresh)
    case (Some snap)
    then have "record_control_snapshot ce n kind snap captured ?s = (s', Inr ReadObserved)"
      using assms(5) by (simp add: resolve_control_snapshot_def so_bind_Inr so_update_def)
    then have "control_below scope ?s s'" by (rule keepsD [OF control.keeps_snapshot [OF assms(1)]])
    moreover have "known kind t ?s" using Some k1 by (auto split: marker_factory_read.splits)
    ultimately show ?thesis using known_below owed_ok [OF o1] by blast
  next
    case None
    let ?again = "\<lambda>lease. if lease_is_held lease then recheck_control_snapshot cfg ce (n + 3) kind (cached \<noteq> None) else so_return None"
    let ?resolved = "\<lambda>lease again. resolve_leased_control_snapshot cfg ce (n + 5) cached (case again of Some x \<Rightarrow> FactoryRead x | None \<Rightarrow> r)
               \<lparr>mr_kind = kind, mr_captured = captured, mr_mode = ForegroundFactory\<rparr> lease"
    obtain s1 acquired where acq: "acquire_control_marker_lease cfg ce (n + 1) kind ForegroundFactory ?s = (s1, Inr acquired)"
      and rest: "(case acquired of LeaseContended \<Rightarrow> so_of (Inl (ErrLease AcquisitionTimeout)) | LeaseAcquired lease \<Rightarrow> so_bind (?again lease) (?resolved lease)) s1
                   = (s', Inr ReadObserved)"
      using assms(5) None by (simp add: resolve_control_snapshot_def so_bind_Inr [where m = "so_update f" for f] so_update_def)
        (auto simp: so_bind_Inr [where m = "acquire_control_marker_lease a b c d e" for a b c d e])
    obtain lease s2 again where a: "acquire_control_marker_lease cfg ce (n + 1) kind ForegroundFactory ?s = (s1, Inr (LeaseAcquired lease))"
      and c: "?again lease s1 = (s2, Inr again)" and l: "?resolved lease again s2 = (s', Inr ReadObserved)"
      using acq rest by (cases acquired) (auto simp: so_bind_Inr so_of_Inr)
    have b1: "control_below scope ?s s1" by (rule keepsD [OF control.keeps_acquire [OF assms(1)] a])
    then have o2: "owed scope kind t s1" using owed_below o1 by blast
    have b2: "control_below scope s1 s2"
      by (rule keepsD [of _ "?again lease"]) (use c in \<open>simp_all add: control.keeps_recheck [OF assms(1)] keeping\<close>)
    show ?thesis
    proof (rule leased_sees [OF assms(1) owed_below [OF b2 o2] l])
      fix x assume x: "(case again of Some x \<Rightarrow> FactoryRead x | None \<Rightarrow> r) = FactoryRead x"
      show "covered_by t (read_maximum x) \<or> known kind t s2"
      proof (cases again)
        case None
        then have "known kind t ?s" using k1 x by simp
        then show ?thesis using known_below [OF control.below_trans [OF b1 b2] owed_ok [OF o1]] by blast
      next
        case (Some y)
        then show ?thesis using c x rechecked_snapshot [OF assms(1-3) o2] by (auto simp: so_return_def split: if_splits)
      qed
    qed
  qed
qed

lemma unobserved_sees:
  assumes "control_rely control_le (revisions_le scope) ce" "truthful ce" "me_scope (cl_markers ce) = scope"
  shows "sees scope kind (resolve_control_snapshot cfg ce n kind cached (FactoryUnobserved unread) captured)"
  unfolding sees_def using resolve_sees [OF assms, of kind _ _ cfg n cached "FactoryUnobserved unread"] by blast

lemma unavailable_sees:
  assumes "control_rely control_le (revisions_le scope) ce" "truthful ce" "me_scope (cl_markers ce) = scope"
  shows "sees scope kind (unavailable_control_marker cfg ce n kind cached captured fault)"
  unfolding unavailable_control_marker_def using unobserved_sees [OF assms] silent_sees [OF silent_degraded] by (auto split: marker_lifecycle_policy.split)

lemma observation_sees:
  assumes "control_rely control_le (revisions_le scope) ce" "owed scope kind t s" "covered_by t (presence_version presence) \<or> known kind t s"
    "record_control_observation ce n kind presence captured s = (s', r)"
  shows "known kind t s'"
proof (cases "known kind t s")
  case True
  then show ?thesis using known_below [OF keepsD [OF control.keeps_observation [OF assms(1)] assms(4)] owed_ok [OF assms(2)]] by blast
next
  case False
  then obtain v where "presence = MarkerPresent v" "t \<le> v" using assms(3) by (cases presence) auto
  then show ?thesis using assms(4) unfolding record_control_observation_def
    by (auto intro!: applied_known [where scope = scope, OF _ _ owed_ok [OF assms(2)]] keeping control.keeps_result
        intro: control.observations_store_le [OF control_relyD(1) [OF assms(1)]] split: sum.split)
qed

lemma remote_sees:
  assumes "control_rely control_le (revisions_le scope) ce" "truthful ce" "me_scope (cl_markers ce) = scope"
  shows "sees scope kind (marker_remote cfg ce n AtomicStorage kind cached captured)"
  unfolding sees_def
proof (intro allI impI)
  fix s s' t
  assume r: "marker_remote cfg ce n AtomicStorage kind cached captured s = (s', Inr ReadObserved)" and o: "owed scope kind t s"
  let ?fetch = "case me_lifecycle (cl_markers ce) of DurableOnly \<Rightarrow> fetch_control_marker ce n AtomicStorage kind (cached \<noteq> None)
      | CachedSnapshots \<Rightarrow> so_bind (fetch_control_snapshot ce n kind (cached \<noteq> None)) (\<lambda>r. so_return (into_marker_fetch r))"
  obtain s1 fetched where f: "?fetch s = (s1, fetched)" by fastforce
  have "keeps (control_below scope) ?fetch"
    by (auto intro!: keeping control.keeps_fetch_marker [OF assms(1)] control.keeps_fetch_snapshot [OF assms(1)] split: marker_lifecycle_policy.split)
  then have o1: "owed scope kind t s1" using keepsD f owed_below o by blast
  have un: "known kind t s'" if "unavailable_control_marker cfg ce (n + 2) kind cached captured fault s1 = (s', Inr ReadObserved)" for fault
    using unavailable_sees [OF assms] that o1 unfolding sees_def by blast
  have obs: "covered_by t (presence_version presence) \<or> known kind t s1" if "fetched = Inr (FetchObserved presence)" for presence
    using fetched_marker [OF assms o] f that
    by (auto simp: so_bind_Inr so_return_def split: marker_lifecycle_policy.splits elim: into_marker_fetch.elims)
  have snap: "covered_by t (read_maximum x) \<or> known kind t s1" if "fetched = Inr (FetchSnapshot x)" for x
    using fetched_snapshot [OF assms o] f that
    by (auto simp: so_bind_Inr so_return_def fetch_control_marker_def split: marker_lifecycle_policy.splits if_splits elim!: into_marker_fetch.elims)
  have res: "known kind t s'" if "fetched = Inr (FetchSnapshot x)" "resolve_control_snapshot cfg ce (n + 2) kind cached (FactoryRead x) captured s1 = (s', Inr ReadObserved)" for x
    using resolve_sees [OF assms o1 that(2)] snap [OF that(1)] by auto
  show "known kind t s'"
    using r f un res observation_sees [OF assms(1) o1 obs]
    by (auto simp: marker_remote_def so_bind_Inr so_try_def so_of_Inr split: sum.splits marker_fetch.splits cache_error.splits)
qed

lemma resolve_read_sees:
  assumes "control_rely control_le (revisions_le scope) ce" "truthful ce" "me_scope (cl_markers ce) = scope"
  shows "sees scope kind (resolve_control_read cfg ce n AtomicStorage kind captured)"
  unfolding resolve_control_read_def Let_def
  by (intro seeing control.keeps_cached)
    (auto intro!: silent_sees silence unobserved_sees [OF assms] remote_sees [OF assms] split: option.split marker_lifecycle_policy.split)

lemma refresh_sees:
  assumes "control_rely control_le (revisions_le scope) ce" "truthful ce" "me_scope (cl_markers ce) = scope"
  shows "sees scope kind (refresh_control_marker cfg ce n AtomicStorage kind before_lock captured)"
  unfolding refresh_control_marker_def Let_def
  by (intro seeing keeping control.keeps_wait [OF assms(1)]) (auto intro!: silent_sees silence resolve_read_sees [OF assms])

lemma lookup_ready:
  assumes "marker_lookup_step cfg ce n kind captured s = (s', Inr (LookupReady outcome))" "clears_sound (wk_clears (sv_worker s))"
  shows "outcome \<noteq> ReadObserved"
proof -
  have "clear_status kind captured (wk_clears (sv_worker s)) \<noteq> Some ReadObserved"
    using assms(2) by (auto simp: clear_status_Some clears_sound_def)
  then show ?thesis using assms(1)
    by (auto simp: marker_lookup_step_def so_read_def so_return_def so_bind_Inr split: option.splits if_splits)
qed

lemma outcome_sees:
  assumes "control_rely control_le (revisions_le scope) ce" "truthful ce" "me_scope (cl_markers ce) = scope"
  shows "sees scope kind (control_outcome cfg ce n AtomicStorage kind captured)"
  unfolding sees_def
proof (intro allI impI)
  fix s s' t
  assume c: "control_outcome cfg ce n AtomicStorage kind captured s = (s', Inr ReadObserved)" and o: "owed scope kind t s"
  then obtain s1 found where l: "marker_lookup_step cfg ce n kind captured s = (s1, Inr found)" by (auto simp: control_outcome_def so_bind_Inr)
  have "owed scope kind t s1" by (rule owed_below [OF keepsD [OF control.keeps_lookup l] o])
  then show "known kind t s'" using c l lookup_ready [of cfg ce n kind captured s s1] o refresh_sees [OF assms]
    by (cases found) (auto simp: control_outcome_def so_bind_Inr so_return_def owed_def sees_def)
qed

text \<open>One marker: the last event is its outcome, and an observed marker is in the registry.\<close>

lemma control_marker_read:
  assumes "control_rely control_le (revisions_le scope) ce" "truthful ce" "me_scope (cl_markers ce) = scope" "owed scope kind t s"
    "read_control_marker cfg ce n AtomicStorage kind s = (s', Inr ())"
  shows "\<exists>outcome. (\<exists>es. wk_events (sv_worker s') = wk_events (sv_worker s) @ es @ [MarkerRead_event kind outcome]) \<and> (outcome = ReadObserved \<longrightarrow> known kind t s')"
proof -
  let ?captured = "wk_epoch (sv_worker s)"
  let ?clear = "\<lambda>outcome. so_update (\<lambda>w. if marker_clear_shortcut cfg \<and> wk_epoch w = ?captured
      then w\<lparr>wk_clears := initialize_clear kind ?captured outcome (wk_clears w)\<rparr> else w)"
  obtain outcome s1 s2 s3 where c: "control_outcome cfg ce n AtomicStorage kind ?captured s = (s1, Inr outcome)"
    and u: "?clear outcome s1 = (s2, Inr ())"
    and e: "maybe_eager_control_marker cfg ce (n + 21) kind ?captured s2 = (s3, Inr ())"
    and s': "s' = on_worker (emit (MarkerRead_event kind outcome)) s3"
    using assms(5) by (auto simp: read_control_marker_def Let_def so_bind_Inr so_read_def so_of_Inr so_check_Inr so_update_def)
  have "keeps (control_below scope) (?clear outcome)"
    by (rule control.keeps_update) (auto simp: control.le_refl control.le_clear)
  then have "control_below scope s1 s2" using u by (rule keepsD)
  then have b: "control_below scope s1 s3"
    using control.below_trans keepsD [OF control.keeps_maybe_eager [OF assms(1)] e] by blast
  have b0: "control_below scope s s1" by (rule keepsD [OF control.keeps_outcome [OF assms(1)] c])
  have "known kind t s'" if "outcome = ReadObserved"
  proof -
    have "known kind t s1" using outcome_sees [OF assms(1-3)] c assms(4) that unfolding sees_def by blast
    then have "known kind t s3" using known_below [OF b] below_frames(2) [OF b0 owed_ok [OF assms(4)]] by blast
    then show ?thesis by (simp add: s' on_worker_def emit_def)
  qed
  moreover have "\<exists>es. wk_events (sv_worker s3) = wk_events (sv_worker s) @ es"
    using control.below_trans [OF b0 b] by (simp add: site_order_of_def control_le_def)
  ultimately show ?thesis by (auto simp: s' on_worker_def emit_def)
qed

lemma invalidates_covers: "marker_invalidates_snapshot kind created w \<longleftrightarrow> registry_covers (wk_tags w) kind created"
  by (auto simp: marker_invalidates_snapshot_def registry_covers_def state_covers_def registry_marker_version_def covered_by_def split: option.splits)

lemma observed_markers_read:
  assumes "control_rely control_le (revisions_le scope) ce" "truthful ce" "me_scope (cl_markers ce) = scope" "owed scope kind created s"
    "check_observed_markers cfg ce n AtomicStorage created kinds s = (s', Inr ())" "kind \<in> set kinds"
  shows "(\<exists>k\<in>set kinds. known k created s')
    \<or> (\<exists>outcome es. outcome \<noteq> ReadObserved \<and> wk_events (sv_worker s') = wk_events (sv_worker s) @ es \<and> MarkerRead_event kind outcome \<in> set es)"
  using assms(4-6)
proof (induction kinds arbitrary: n s)
  case (Cons k kinds)
  obtain s1 where r: "read_control_marker cfg ce n AtomicStorage k s = (s1, Inr ())"
    and rest: "(if marker_invalidates_snapshot k created (sv_worker s1) then so_check (cl_markers ce) (n + 40)
        else check_observed_markers cfg ce (n + 40) AtomicStorage created kinds) s1 = (s', Inr ())"
    using Cons.prems(2) by (auto simp: so_bind_Inr so_check_Inr so_read_def)
  have b: "control_below scope s s1" by (rule keepsD [OF control.keeps_control_marker [OF assms(1)] r])
  have o: "owed scope kind created s1" by (rule owed_below [OF b Cons.prems(1)])
  obtain es1 where e1: "wk_events (sv_worker s1) = wk_events (sv_worker s) @ es1" using b by (auto simp: site_order_of_def control_le_def)
  show ?case
  proof (cases "marker_invalidates_snapshot k created (sv_worker s1)")
    case True
    then show ?thesis using rest by (auto simp: so_check_Inr invalidates_covers)
  next
    case False
    then have c: "check_observed_markers cfg ce (n + 40) AtomicStorage created kinds s1 = (s', Inr ())" using rest by simp
    have b2: "control_below scope s1 s'" by (rule keepsD [OF control.keeps_markers [OF assms(1)] c])
    then obtain es2 where e2: "wk_events (sv_worker s') = wk_events (sv_worker s1) @ es2" by (auto simp: site_order_of_def control_le_def)
    show ?thesis
    proof (cases "kind = k")
      case True
      then obtain outcome es where "wk_events (sv_worker s1) = wk_events (sv_worker s) @ es @ [MarkerRead_event kind outcome]"
        "outcome = ReadObserved \<longrightarrow> known kind created s1"
        using control_marker_read [OF assms(1-3) _ r] Cons.prems(1) by blast
      moreover have "\<not> known kind created s1" using False True by (simp add: invalidates_covers)
      ultimately show ?thesis using e2 by auto
    next
      case False
      then show ?thesis using Cons.IH [OF o c] Cons.prems(3) e1 by auto
    qed
  qed
qed simp

text \<open>
  C28. Controlled reads: once the markers of an entry have been reconciled under the options-controlled policy, either the
  entry is no longer valid, or every marker that covered it in the shared store was announced, during
  this reconciliation, as read from memory, skipped, degraded or unavailable. A marker announced as observed
  is never missed, whatever other operations and the providers do meanwhile, as long as the
  store does not compact the revisions of the scope between the reads.
\<close>
theorem controlled_read_sound:
  assumes "control_rely control_le (revisions_le (me_scope (cl_markers ce))) ce" and "truthful ce" and "me_access (cl_markers ce) = AccessDurable"
    and "\<not> cc_disable_tagging cfg" and "cc_marker_reads cfg = OptionsControlled"
    and "registry_ok (wk_tags (sv_worker s))" and "clears_sound (wk_clears (sv_worker s))"
    and "reconcile_controlled_markers cfg ce n e s = (s', Inr ())"
    and "kind_matches kind (md_tags (en_meta e))" and "covered_by (md_created (en_meta e)) (scope_read (me_scope (cl_markers ce)) kind (sv_backend s))"
  shows "worker_tags cfg e (sv_worker s') \<noteq> Valid
    \<or> (\<exists>outcome es. outcome \<noteq> ReadObserved \<and> wk_events (sv_worker s') = wk_events (sv_worker s) @ es \<and> MarkerRead_event kind outcome \<in> set es)"
proof -
  let ?created = "md_created (en_meta e)" and ?kinds = "secondary_marker_kinds (md_tags (en_meta e))"
  have c: "check_observed_markers cfg ce n AtomicStorage ?created ?kinds s = (s', Inr ())"
    using assms(3-5,8) by (simp add: reconcile_controlled_markers_def)
  have o: "owed (me_scope (cl_markers ce)) kind ?created s" using assms(6,7,10) by (simp add: owed_def)
  have k: "k \<in> set ?kinds \<longleftrightarrow> kind_matches k (md_tags (en_meta e))" for k by (cases k) (auto simp: secondary_marker_kinds_def)
  have ok: "registry_ok (wk_tags (sv_worker s'))"
    by (rule below_frames(2) [OF keepsD [OF control.keeps_markers [OF assms(1)] c] assms(6)])
  show ?thesis using observed_markers_read [OF assms(1,2) refl o c] assms(9) k covered_verdict(1) [OF ok _ _ assms(4)] by auto
qed

section \<open>Outages\<close>

text \<open>
  An environment whose store may fail in every way that the options let a read suppress: with backend
  errors unless the options ask for distributed errors, and with malformed records unless they ask for
  serialization errors.
\<close>

definition degradable :: "('v, 'l, 'b) control_env \<Rightarrow> bool" where
  "degradable ce \<longleftrightarrow> me_lifecycle (cl_markers ce) = DurableOnly \<and> (\<forall>n. cancel_check (cl_markers ce) n = None)
     \<and> ce_valid (me_commit (cl_markers ce)) (cl_options ce) = Inr () \<and> validate (cl_options ce) = Inr ()
     \<and> (\<exists>jitter. ce_jitter (me_commit (cl_markers ce)) = Inr jitter \<and> (\<forall>now. \<exists>l. logical_expiration_with_jitter now jitter (cl_options ce) = Inr l))
     \<and> (\<forall>n kind t. \<exists>b. cl_lock ce n kind t = Inr b)
     \<and> (\<forall>n scope kind b er. cl_read ce n scope kind b = Inl er \<longrightarrow> (\<exists>m.
          er = MarkerBackend m \<and> \<not> opt_rethrow_distributed_exceptions (cl_options ce)
        \<or> er \<in> {Protocol m, ProtocolWithSource m} \<and> \<not> opt_rethrow_serialization_exceptions (cl_options ce)))"

definition succeeds :: "('v, 'b, 'a) site_op \<Rightarrow> bool" where
  "succeeds m \<longleftrightarrow> (\<forall>s. \<exists>s' a. m s = (s', Inr a))"

named_theorems success

lemma succeeds_return [success]: "succeeds (so_return a)"
  by (simp add: succeeds_def so_return_def)

lemma succeeds_of [success]: "succeeds (so_of (Inr a))"
  by (simp add: succeeds_def so_of_def)

lemma succeeds_bind [success]: "succeeds m \<Longrightarrow> (\<And>a. succeeds (f a)) \<Longrightarrow> succeeds (so_bind m f)"
  unfolding succeeds_def so_bind_Inr by blast

lemma succeeds_read [success]: "(\<And>w. succeeds (f w)) \<Longrightarrow> succeeds (so_read f)"
  by (simp add: succeeds_def so_read_def)

lemma succeeds_steps [success]: "succeeds (so_update g)" "succeeds (so_worker h)" "succeeds (so_wait me n)" "succeeds (so_try m)" "succeeds (so_ask f)"
  by (simp_all add: succeeds_def so_update_def so_worker_def so_wait_def so_try_def so_ask_def split: prod.split)

lemma succeeds_result: "(\<And>w. \<exists>w' a. f w = (w', Inr a)) \<Longrightarrow> succeeds (so_result f)"
  unfolding succeeds_def so_result_def by (metis case_prod_conv)

lemma degradable_check: "degradable ce \<Longrightarrow> succeeds (so_check (cl_markers ce) n)"
  by (simp add: degradable_def so_check_def succeeds_of)

lemma degradable_store:
  assumes "degradable ce" "ce_jitter (me_commit (cl_markers ce)) = Inr jitter"
  shows "\<exists>w' a. observations_store me n kind obs (cl_options ce) now jitter stamp w = (w', Inr a)"
proof -
  have "\<exists>l. logical_expiration_with_jitter now jitter (cl_options ce) = Inr l" "\<exists>sz. size_of (cl_options ce) = Inr sz"
    using assms by (auto simp: degradable_def validate_def split: sum.splits)
  then show ?thesis by (auto simp: observations_store_def try_fresh_with_jitter_def prepare_fresh_with_jitter_def Let_def split: prod.split)
qed

lemma degradable_retain:
  assumes "degradable ce"
  shows "\<exists>w' a. retain_fallback me n kind source (cl_options ce) now fault w = (w', Inr a)"
proof -
  have "validate (cl_options ce) = Inr ()" using assms by (simp add: degradable_def)
  then show ?thesis by (auto simp: retain_fallback_def try_throttled_def Let_def split: prod.split option.split)
qed

lemma succeeds_cached: "succeeds (marker_cached ce n kind)"
  unfolding marker_cached_def by (auto intro!: success)

lemma succeeds_degraded: "degradable ce \<Longrightarrow> succeeds (marker_degraded ce n kind cached fault)"
  unfolding marker_degraded_def by (auto intro!: success succeeds_result degradable_retain split: option.split)

lemma succeeds_observation: "degradable ce \<Longrightarrow> succeeds (record_control_observation ce n kind presence captured)"
  unfolding record_control_observation_def
  by (auto intro!: success succeeds_result degradable_store split: sum.split) (auto simp: degradable_def)

lemma degraded_fetch:
  assumes "degradable ce" "fetch_control_marker ce n AtomicStorage kind has_fallback s = (s', r)"
  shows "(\<exists>presence. r = Inr (FetchObserved presence)) \<or> (\<exists>fault. r = Inr (FetchDeadline fault))
    \<or> (\<exists>er f. r = Inl (ErrMarker er) \<and> suppressed_marker_fault ce er = Inr f)"
proof -
  have "cancel_check (cl_markers ce) k = None" for k using assms(1) by (simp add: degradable_def)
  moreover have "\<exists>f. suppressed_marker_fault ce er = Inr f" if "cl_read ce n scope kind b = Inl er" for scope b er
    using assms(1) that by (fastforce simp: degradable_def suppressed_marker_fault_def)
  ultimately show ?thesis using assms(2)
    by (auto simp: fetch_control_marker_def read_with_cancellation_def so_bind_def so_check_def so_of_def so_wait_def so_ask_def so_return_def Let_def
        split: if_splits sum.splits)
qed

lemma succeeds_remote:
  assumes "degradable ce"
  shows "succeeds (marker_remote cfg ce n AtomicStorage kind cached captured)"
  unfolding succeeds_def
proof
  fix s
  have l: "me_lifecycle (cl_markers ce) = DurableOnly" using assms by (simp add: degradable_def)
  obtain s1 r where f: "fetch_control_marker ce n AtomicStorage kind (cached \<noteq> None) s = (s1, r)" by fastforce
  have o: "\<exists>s' a. record_control_observation ce (n + 2) kind presence captured s1 = (s', Inr a)" for presence
    using succeeds_observation [OF assms] unfolding succeeds_def by blast
  have u: "\<exists>s' a. marker_degraded ce (n + 2) kind cached fault s1 = (s', Inr a)" for fault
    using succeeds_degraded [OF assms] unfolding succeeds_def by blast
  show "\<exists>s' a. marker_remote cfg ce n AtomicStorage kind cached captured s = (s', Inr a)"
    using degraded_fetch [OF assms f] o u f by (auto simp: marker_remote_def unavailable_control_marker_def l so_bind_def so_try_def so_of_def)
qed

lemma succeeds_outcome:
  assumes "degradable ce"
  shows "succeeds (control_outcome cfg ce n AtomicStorage kind captured)"
proof -
  have l: "me_lifecycle (cl_markers ce) = DurableOnly" and lock: "\<exists>b. cl_lock ce m k t = Inr b" for m k t using assms by (auto simp: degradable_def)
  have "succeeds (so_of (cl_lock ce m k t))" for m k t using lock [of m k t] by (auto intro: success)
  then have "succeeds (refresh_control_marker cfg ce m AtomicStorage kind cached captured)" for m cached
    unfolding refresh_control_marker_def resolve_control_read_def Let_def l
    by (auto intro!: success degradable_check [OF assms] succeeds_cached succeeds_remote [OF assms] split: option.split)
  then show ?thesis unfolding control_outcome_def marker_lookup_step_def
    by (auto intro!: success succeeds_cached split: option.split marker_lookup.split)
qed

lemma succeeds_markers:
  assumes "degradable ce"
  shows "succeeds (check_observed_markers cfg ce n AtomicStorage created kinds)"
proof -
  have "me_lifecycle (cl_markers ce) = DurableOnly" "ce_valid (me_commit (cl_markers ce)) (cl_options ce) = Inr ()" using assms by (auto simp: degradable_def)
  then have "succeeds (read_control_marker cfg ce m AtomicStorage kind)" for m kind
    unfolding read_control_marker_def maybe_eager_control_marker_def Let_def
    by (auto intro!: success degradable_check [OF assms] succeeds_outcome [OF assms])
  then show ?thesis by (induction kinds arbitrary: n) (auto intro!: success degradable_check [OF assms])
qed

text \<open>
  Degraded marker reads: with durable markers, a configuration that suppresses the faults of the marker store and
  no cancellation, the reconciliation of an entry never fails and never revives an entry: whatever the
  store answers, late, wrongly or not at all, the caller goes on, and an entry that was invalid for this cache stays so.
\<close>
theorem controlled_reads_survive_outage:
  assumes "degradable ce" and "control_rely tags_le (\<lambda>_ _. True) ce" and "me_access (cl_markers ce) = AccessDurable" and "registry_ok (wk_tags (sv_worker s))"
  shows "\<exists>s'. reconcile_controlled_markers cfg ce n e s = (s', Inr ()) \<and> worker_tags cfg e (sv_worker s) \<le> worker_tags cfg e (sv_worker s')"
proof -
  obtain s1 where "check_observed_markers cfg ce n AtomicStorage (md_created (en_meta e)) (secondary_marker_kinds (md_tags (en_meta e))) s = (s1, Inr ())"
    using succeeds_markers [OF assms(1)] unfolding succeeds_def by (metis (full_types) old.unit.exhaust)
  then obtain s' where r: "reconcile_controlled_markers cfg ce n e s = (s', Inr ())"
    by (cases "cc_disable_tagging cfg \<or> cc_marker_reads cfg = DurableRequired") (auto simp: reconcile_controlled_markers_def assms(3) so_return_def)
  obtain es where "wk_tags (sv_worker s') = registry_run (wk_tags (sv_worker s)) es"
    using keepsD [OF tags_site.keeps_controlled [OF assms(2)] r] by (auto simp: site_order_of_def tags_le_def)
  then have "worker_tags cfg e (sv_worker s) \<le> worker_tags cfg e (sv_worker s')"
    using evaluate_run_mono [OF assms(4)] by (simp add: worker_tags_def)
  with r show ?thesis by blast
qed

section \<open>The reconciliation of the read path\<close>

text \<open>
  What a read calls to reconcile an entry, by policy, against the content \<open>b n\<close> of the second level: it is an
  instance of the parameter of the read path, and it keeps the order that the guarantees of
  invalidations rely on.
\<close>

definition reconcile_entry ::
  "'v cache_config \<Rightarrow> ('v, 'l, 'b) control_env \<Rightarrow> (nat \<Rightarrow> 'b) \<Rightarrow> nat \<Rightarrow> 'v entry \<Rightarrow> 'v worker \<Rightarrow> 'v worker \<times> cache_error option" where
  "reconcile_entry cfg ce b n e w =
     (let s = \<lparr>sv_worker = w, sv_backend = b n, sv_published = []\<rparr>;
          (s, r) = (case cc_marker_reads cfg of
                      DurableRequired \<Rightarrow> reconcile_markers cfg (cl_markers ce) n (md_tags (en_meta e)) None s
                    | OptionsControlled \<Rightarrow> reconcile_controlled_markers cfg ce n e s)
      in (sv_worker s, case r of Inl er \<Rightarrow> Some er | Inr _ \<Rightarrow> None))"

lemma reconcile_markers_tags:
  assumes "order_rely tags_le me" "reconcile_markers cfg me n tags prefetched s = (s', r)"
  shows "tags_le (sv_worker s) (sv_worker s')"
proof -
  have w: "tags_le (sv_worker s) (sv_worker (ce_wait (me_commit me) n x))" if "tags_le (sv_worker s) (sv_worker x)" for x
    using that order_relyD(1) [OF assms(1)] by (rule tags_le_trans)
  have "tags_le (sv_worker s) (fold apply_marker ms (sv_worker (ce_wait (me_commit me) n x)))" if "tags_le (sv_worker s) (sv_worker x)" for x ms
    using w [OF that] tags_le_fold_apply by (rule tags_le_trans)
  then show ?thesis using assms(2) w
    by (auto simp: reconcile_markers_def Let_def on_worker_def split: if_splits option.splits sum.splits)
qed

lemma reconcile_entry_rely:
  assumes "control_rely tags_le (\<lambda>_ _. True) ce" "\<And>n w. tags_le w (re_wait env n w)"
  shows "read_rely (env\<lparr>re_reconcile := reconcile_entry cfg ce b\<rparr>)"
proof -
  have "tags_le w (fst (reconcile_entry cfg ce b n e w))" for n e w
  proof -
    let ?s = "\<lparr>sv_worker = w, sv_backend = b n, sv_published = []\<rparr>"
    obtain s1 r1 where a: "reconcile_markers cfg (cl_markers ce) n (md_tags (en_meta e)) None ?s = (s1, r1)" by fastforce
    obtain s2 r2 where c: "reconcile_controlled_markers cfg ce n e ?s = (s2, r2)" by fastforce
    show ?thesis using reconcile_markers_tags [OF control_relyD(1) [OF assms(1)] a] keepsD [OF tags_site.keeps_controlled [OF assms(1)] c]
      by (simp add: reconcile_entry_def a c site_order_of_def Let_def split: marker_read_policy.split)
  qed
  then show ?thesis using assms(2) by (simp add: read_rely_def)
qed

section \<open>A small cluster\<close>

definition controlled_cache :: "nat cache_config" where
  "controlled_cache = memory_only\<lparr>cc_marker_reads := OptionsControlled\<rparr>"

definition demo_control :: "(nat, nat, invalidation_store) control_env" where
  "demo_control = \<lparr>cl_markers = demo_cluster, cl_lock = (\<lambda>_ _ _. Inr True), cl_try_lock = (\<lambda>_ _. Inr True), cl_acquire = None,
     cl_leases = \<lparr>lp_acquire = (\<lambda>_ _. None), lp_release = (\<lambda>_ _. Inr ())\<rparr>,
     cl_read = (\<lambda>_ scope kind b. Inr (scope_read scope kind b)), cl_snapshot = (\<lambda>_ scope kind t b. map_prod id Inr (read_snapshot scope kind t b)),
     cl_late = (\<lambda>_. False)\<rparr>"

text \<open>The store is down.\<close>

definition demo_outage :: "(nat, nat, invalidation_store) control_env" where
  "demo_outage = demo_control\<lparr>cl_read := \<lambda>_ _ _ _. Inl (MarkerBackend ''down'')\<rparr>"

lemma demo_control_options: "validate (EntryOptions_new 500) = Inr ()" "\<exists>l. logical_expiration_with_jitter now JitterSample_ZERO (EntryOptions_new 500) = Inr l"
  "\<not> opt_rethrow_distributed_exceptions (EntryOptions_new 500)"
  by (auto simp: validate_def size_of_def EntryOptions_new_def EntryOptions_default_def logical_expiration_with_jitter_def JitterSample_new_def JitterSample_ZERO_def)

lemma demo_degradable: "degradable demo_control" "degradable demo_outage"
  using demo_control_options
  by (auto simp: degradable_def demo_outage_def demo_control_def demo_cluster_def cancel_check_def quiet_read_def)

lemma demo_control_relies:
  "control_rely control_le (revisions_le demo_scope) demo_control" "truthful demo_control" "control_rely tags_le (\<lambda>_ _. True) demo_outage"
  by (auto simp: control_rely_def order_rely_def truthful_def demo_outage_def demo_control_def demo_cluster_def control.le_refl revisions_le_def
      read_snapshot_def scope_read_def Let_def split: option.split)

theorem controlled_reads_survive_outage_witness:
  "\<exists>s'. reconcile_controlled_markers controlled_cache demo_outage 0 sample_entry demo_node = (s', Inr ())
     \<and> worker_tags controlled_cache sample_entry demo_worker \<le> worker_tags controlled_cache sample_entry (sv_worker s')"
  using controlled_reads_survive_outage [OF demo_degradable(2) demo_control_relies(3), of demo_node controlled_cache 0 sample_entry] demo_registries(2)
  by (simp add: demo_node_def demo_outage_def demo_control_def)

theorem controlled_read_sound_witness:
  "\<exists>s'. reconcile_controlled_markers controlled_cache demo_control 0 sample_entry
       (demo_node\<lparr>sv_backend := fst (store_advance demo_scope ClearExpire 102 (InvalidationStore_new MarkerStoreLimits_default))\<rparr>) = (s', Inr ())
     \<and> (worker_tags controlled_cache sample_entry (sv_worker s') \<noteq> Valid
        \<or> (\<exists>outcome es. outcome \<noteq> ReadObserved \<and> wk_events (sv_worker s') = wk_events demo_worker @ es \<and> MarkerRead_event ClearExpire outcome \<in> set es))"
proof -
  let ?b = "fst (store_advance demo_scope ClearExpire 102 (InvalidationStore_new MarkerStoreLimits_default))"
  let ?s = "demo_node\<lparr>sv_backend := ?b\<rparr>"
  have f [simp]: "me_access (cl_markers demo_control) = AccessDurable" "me_scope (cl_markers demo_control) = demo_scope" by (simp_all add: demo_control_def)
  have g: "\<not> cc_disable_tagging controlled_cache" "cc_marker_reads controlled_cache = OptionsControlled" by (simp_all add: controlled_cache_def)
  obtain s' where r: "reconcile_controlled_markers controlled_cache demo_control 0 sample_entry ?s = (s', Inr ())"
    using succeeds_markers [OF demo_degradable(1)] unfolding succeeds_def
    by (simp add: reconcile_controlled_markers_def g) (metis (full_types) old.unit.exhaust)
  have c: "covered_by (md_created (en_meta sample_entry)) (scope_read demo_scope ClearExpire ?b)"
    by (simp add: demo_store sample_fields scope_read_def)
  have w: "registry_ok (wk_tags (sv_worker ?s))" "clears_sound (wk_clears (sv_worker ?s))"
    by (simp_all add: demo_node_def demo_registries demo_worker_def new_worker_def clears_sound_reset)
  show ?thesis
    using controlled_read_sound [OF _ demo_control_relies(2) _ g w r, of ClearExpire] demo_control_relies(1) c r by (simp add: demo_node_def)
qed

section \<open>A compaction between two reads\<close>

text \<open>
  The markers of an entry are read one by one, the hard clear first. A store that compacts the tags of the scope into the hard
  clear after it was read and before the tag is read hides an invalidation that was acknowledged before the
  reconciliation began: every read is reported as observed, and the entry is served.
\<close>

abbreviation tag_a :: marker_kind where
  "tag_a \<equiv> TagKind (Tag ''a'')"

definition tagged_store :: invalidation_store where
  "tagged_store = (InvalidationStore_new \<lparr>max_tags = 1, max_scopes = 4\<rparr>)\<lparr>is_scopes := [(scope_key demo_scope, MarkerState_default\<lparr>ms_tags := [(Tag ''a'', 150)]\<rparr>)]\<rparr>"

definition compacted_store :: invalidation_store where
  "compacted_store = tagged_store\<lparr>is_scopes := [(scope_key demo_scope, MarkerState_default\<lparr>ms_clear_remove := Some 160\<rparr>)]\<rparr>"

lemma compacting_advance: "fst (store_advance demo_scope (TagKind (Tag ''b'')) 160 tagged_store) = compacted_store"
  by (simp add: store_advance_eq tagged_store_def compacted_store_def InvalidationStore_new_def with_snapshot_limits_def scope_state_def MarkerState_default_def
      marker_advance_def opt_max_def tags_through_def hm_retain_def Let_def)

definition racing :: "(nat, nat, invalidation_store) control_env" where
  "racing = demo_control\<lparr>cl_markers := demo_cluster\<lparr>me_defaults := (EntryOptions_new 500)\<lparr>opt_skip_memory_read := True, opt_skip_memory_write := True\<rparr>,
     me_commit := (me_commit demo_cluster)\<lparr>ce_wait := \<lambda>n s. if n = 42 then s\<lparr>sv_backend := fst (store_advance demo_scope (TagKind (Tag ''b'')) 160 (sv_backend s))\<rparr> else s\<rparr>\<rparr>\<rparr>"

definition tagged_entry :: "nat entry" where
  "tagged_entry = sample_entry\<lparr>en_meta := (en_meta sample_entry)\<lparr>md_tags := [Tag ''a'']\<rparr>\<rparr>"

lemma racing_fields [simp]:
  "cl_options racing = (EntryOptions_new 500)\<lparr>opt_skip_memory_read := True, opt_skip_memory_write := True\<rparr>"
  "me_lifecycle (cl_markers racing) = DurableOnly" "me_scope (cl_markers racing) = demo_scope" "me_access (cl_markers racing) = AccessDurable"
  "cancel_check (cl_markers racing) n = None" "ce_valid (me_commit (cl_markers racing)) opts = Inr ()"
  "ce_jitter (me_commit (cl_markers racing)) = Inr JitterSample_ZERO" "cl_lock racing n kind t = Inr True" "cl_read racing n scope kind b = Inr (scope_read scope kind b)"
  "ce_wait (me_commit (cl_markers racing)) n s =
     (if n = 42 then s\<lparr>sv_backend := fst (store_advance demo_scope (TagKind (Tag ''b'')) 160 (sv_backend s))\<rparr> else s)"
  by (simp_all add: racing_def demo_control_def demo_cluster_def cancel_check_def quiet_read_def)

lemma racing_options:
  "\<not> opt_skip_distributed_read (EntryOptions_new 500)" "appropriate_distributed_timeout f (EntryOptions_new 500 \<lparr>opt_skip_memory_read := True, opt_skip_memory_write := True\<rparr>) = Infinite"
  "opt_eager_refresh_threshold (EntryOptions_new 500) = None"
  by (simp_all add: EntryOptions_new_def EntryOptions_default_def appropriate_distributed_timeout_def Let_def)

lemma racing_read:
  assumes "scope_read demo_scope kind (sv_backend (ce_wait (me_commit (cl_markers racing)) (n + 2) s)) = None"
    "registry_marker_version (wk_tags (sv_worker s)) kind = None" "n \<noteq> 37"
  shows "read_control_marker controlled_cache racing n AtomicStorage kind s =
     (on_worker (emit (MarkerRead_event kind ReadObserved)) (ce_wait (me_commit (cl_markers racing)) (n + 2) s), Inr ())"
  using assms racing_options
  by (simp add: read_control_marker_def control_outcome_def marker_lookup_step_def marker_cached_def refresh_control_marker_def resolve_control_read_def
      marker_remote_def fetch_control_marker_def read_with_cancellation_def control_deadline_def record_control_observation_def observations_store_def
      maybe_eager_control_marker_def marker_clear_shortcut_def marker_fallback_eligible_def controlled_cache_def
      so_bind_def so_read_def so_return_def so_of_def so_check_def so_wait_def so_ask_def so_try_def so_update_def so_result_def on_worker_def Let_def
      accept_marker_observation_def reconcile_maximum_def)

lemma compaction_hides_marker:
  "store_covers demo_scope tag_a (md_created (en_meta tagged_entry)) tagged_store
   \<and> (\<exists>s'. reconcile_controlled_markers controlled_cache racing 0 tagged_entry (demo_node\<lparr>sv_backend := tagged_store\<rparr>) = (s', Inr ())
        \<and> worker_tags controlled_cache tagged_entry (sv_worker s') = Valid
        \<and> wk_events (sv_worker s') = wk_events demo_worker @ map (\<lambda>kind. MarkerRead_event kind ReadObserved) [ClearRemove, tag_a, ClearExpire])"
proof -
  have b: "scope_read demo_scope ClearRemove tagged_store = None" "scope_read demo_scope tag_a compacted_store = None" "scope_read demo_scope ClearExpire compacted_store = None"
    by (simp_all add: tagged_store_def compacted_store_def scope_read_def MarkerState_default_def InvalidationStore_new_def with_snapshot_limits_def)
  have w: "registry_marker_version (wk_tags demo_worker) kind = None" for kind
    by (cases kind) (simp_all add: demo_worker_def new_worker_def registry_marker_version_def TagRegistry_default_def MarkerState_default_def)
  have t: "secondary_marker_kinds (md_tags (en_meta tagged_entry)) = [ClearRemove, tag_a, ClearExpire]"
    by (simp add: secondary_marker_kinds_def tagged_entry_def)
  let ?s1 = "on_worker (emit (MarkerRead_event ClearRemove ReadObserved)) (demo_node\<lparr>sv_backend := tagged_store\<rparr>)"
  let ?s2 = "on_worker (emit (MarkerRead_event tag_a ReadObserved)) (?s1\<lparr>sv_backend := compacted_store\<rparr>)"
  let ?s3 = "on_worker (emit (MarkerRead_event ClearExpire ReadObserved)) ?s2"
  have r: "read_control_marker controlled_cache racing 0 AtomicStorage ClearRemove (demo_node\<lparr>sv_backend := tagged_store\<rparr>) = (?s1, Inr ())"
    "read_control_marker controlled_cache racing 40 AtomicStorage tag_a ?s1 = (?s2, Inr ())"
    "read_control_marker controlled_cache racing 80 AtomicStorage ClearExpire ?s2 = (?s3, Inr ())"
    using racing_read [of ClearRemove 0 "demo_node\<lparr>sv_backend := tagged_store\<rparr>"] racing_read [of tag_a 40 ?s1] racing_read [of ClearExpire 80 ?s2] w b
    by (simp_all add: demo_node_def on_worker_def emit_def compacting_advance)
  have e: "marker_invalidates_snapshot kind created (emit ev x) = marker_invalidates_snapshot kind created x" for kind created ev and x :: "nat worker"
    by (simp add: marker_invalidates_snapshot_def emit_def)
  have i: "\<not> marker_invalidates_snapshot kind created (sv_worker demo_node)" for kind created
    using w by (auto simp: marker_invalidates_snapshot_def demo_node_def)
  have "reconcile_controlled_markers controlled_cache racing 0 tagged_entry (demo_node\<lparr>sv_backend := tagged_store\<rparr>) = (?s3, Inr ())"
    using i by (simp add: e reconcile_controlled_markers_def controlled_cache_def t so_bind_def so_read_def so_check_def so_of_def r [unfolded controlled_cache_def])
  moreover have "worker_tags controlled_cache tagged_entry (sv_worker ?s3) = Valid"
    using w unfolding worker_tags_def evaluate_def
    by (simp add: demo_node_def on_worker_def emit_def controlled_cache_def TagRegistry_default_def)
  moreover have "store_covers demo_scope tag_a (md_created (en_meta tagged_entry)) tagged_store"
    by (simp add: store_covers_def scope_covers_def scope_state_def state_covers_def tagged_store_def InvalidationStore_new_def with_snapshot_limits_def tagged_entry_def sample_fields)
  ultimately show ?thesis by (simp add: demo_node_def on_worker_def emit_def)
qed

end
