(* ===== verification/Amalgam_Slots.thy ===== *)
theory Amalgam_Slots
  imports Amalgam_Prelude "HOL-Library.Multiset"
begin

text \<open>
  \<open>locking.rs\<close>: the weak identity slots behind the per-key mutexes and the per-key lanes. A shard
  keeps a weak reference per key, a sweep queue of the same keys and, in the reusable plan, a
  bounded pool of strong references. Strong counts of the controls are explicit, so that
  \<open>Weak::upgrade\<close>, \<open>Arc::clone\<close> and dropping an owner are steps of the model. Each critical
  section of a shard is one event; owners outside the table are cloned and dropped between them.

  The theorems: two callers of one key always meet at the same control as long as anybody owns it,
  callers of different keys never do, the pools and the sweep queues are bounded, and a complete
  maintenance pass keeps exactly the controls somebody outside the table owns.
\<close>

section \<open>Controls and their owners\<close>

abbreviation SLOT_SHARDS :: nat where
  "SLOT_SHARDS \<equiv> 64"

abbreviation RETAINED_CONTROLS_PER_SHARD :: nat where
  "RETAINED_CONTROLS_PER_SHARD \<equiv> 16"

record control_heap =
  strong_count :: "nat \<Rightarrow> nat"
  next_control :: nat

definition clone_control :: "nat \<Rightarrow> control_heap \<Rightarrow> control_heap" where
  "clone_control c h = h\<lparr>strong_count := (strong_count h)(c := strong_count h c + 1)\<rparr>"

definition drop_control :: "nat \<Rightarrow> control_heap \<Rightarrow> control_heap" where
  "drop_control c h = h\<lparr>strong_count := (strong_count h)(c := strong_count h c - 1)\<rparr>"

definition new_control :: "control_heap \<Rightarrow> control_heap \<times> nat" where
  "new_control h = (h\<lparr>strong_count := (strong_count h)(next_control h := 1), next_control := next_control h + 1\<rparr>,
     next_control h)"

lemmas control_defs = clone_control_def drop_control_def new_control_def

datatype coordination_plan = Transient | ReusePlan

datatype control_retention = RetainWeak | RetainReuse "nat list"

fun pool :: "control_retention \<Rightarrow> nat list" where
  "pool RetainWeak = []"
| "pool (RetainReuse recent) = recent"

fun control_retain :: "nat \<Rightarrow> control_retention \<Rightarrow> control_heap \<Rightarrow> control_retention \<times> control_heap" where
  "control_retain c RetainWeak h = (RetainWeak, h)"
| "control_retain c (RetainReuse recent) h =
     (let (recent', h') = (if length recent = RETAINED_CONTROLS_PER_SHARD
                           then (tl recent, drop_control (hd recent) h) else (recent, h))
      in (RetainReuse (recent' @ [c]), clone_control c h'))"

text \<open>
  The popped control is owned by the loop variable: a count above one is an owner elsewhere.
\<close>

fun idle_pass :: "nat \<Rightarrow> nat list \<Rightarrow> control_heap \<Rightarrow> nat list \<times> control_heap" where
  "idle_pass (Suc n) (c # recent) h =
     (if 1 < strong_count h c then idle_pass n (recent @ [c]) h else idle_pass n recent (drop_control c h))"
| "idle_pass _ recent h = (recent, h)"

fun clean_idle :: "nat \<Rightarrow> control_retention \<Rightarrow> control_heap \<Rightarrow> control_retention \<times> control_heap" where
  "clean_idle budget RetainWeak h = (RetainWeak, h)"
| "clean_idle budget (RetainReuse recent) h =
     (let (recent', h') = idle_pass (min budget (length recent)) recent h in (RetainReuse recent', h'))"

section \<open>Shards\<close>

record slot_shard =
  sl_entries :: "(string, nat) hmap"
  sl_sweep :: "string list"
  sl_controls :: control_retention

definition shard_create :: "string \<Rightarrow> slot_shard \<Rightarrow> control_heap \<Rightarrow> slot_shard \<times> control_heap \<times> nat" where
  "shard_create key sh h =
     (let (h1, control) = new_control h;
          sweep = (case hm_get (sl_entries sh) key of Some _ \<Rightarrow> sl_sweep sh | None \<Rightarrow> sl_sweep sh @ [key]);
          (controls, h2) = control_retain control (sl_controls sh) h1
      in (\<lparr>sl_entries = hm_insert key control (sl_entries sh), sl_sweep = sweep, sl_controls = controls\<rparr>, h2, control))"

fun sweep_pass :: "nat \<Rightarrow> string list \<Rightarrow> (string, nat) hmap \<Rightarrow> control_heap \<Rightarrow> string list \<times> (string, nat) hmap" where
  "sweep_pass (Suc n) (key # sweep) entries h =
     (case hm_get entries key of
        Some slot \<Rightarrow> if strong_count h slot = 0 then sweep_pass n sweep (hm_remove key entries) h
                     else sweep_pass n (sweep @ [key]) entries h
      | None \<Rightarrow> sweep_pass n sweep entries h)"
| "sweep_pass _ sweep entries h = (sweep, entries)"

definition shard_clean :: "nat \<Rightarrow> slot_shard \<Rightarrow> control_heap \<Rightarrow> slot_shard \<times> nat" where
  "shard_clean budget sh h =
     (let count = min budget (length (sl_sweep sh));
          (sweep, entries) = sweep_pass count (sl_sweep sh) (sl_entries sh) h
      in (sh\<lparr>sl_entries := entries, sl_sweep := sweep\<rparr>, count))"

definition shard_lookup :: "string \<Rightarrow> slot_shard \<Rightarrow> control_heap \<Rightarrow> slot_shard \<times> control_heap \<times> nat" where
  "shard_lookup key sh h =
     (case hm_get (sl_entries sh) key of
        Some c \<Rightarrow> if strong_count h c \<noteq> 0 then (sh, clone_control c h, c)
                  else shard_create key (fst (shard_clean 4 sh h)) h
      | None \<Rightarrow> shard_create key (fst (shard_clean 4 sh h)) h)"

section \<open>The table\<close>

record weak_slots =
  ws_maintenance :: nat
  ws_shards :: "slot_shard list"

definition WeakSlots_new :: weak_slots where
  "WeakSlots_new = \<lparr>ws_maintenance = 0,
     ws_shards = replicate SLOT_SHARDS \<lparr>sl_entries = [], sl_sweep = [], sl_controls = RetainWeak\<rparr>\<rparr>"

definition WeakSlots_reusable :: weak_slots where
  "WeakSlots_reusable = WeakSlots_new\<lparr>ws_shards := map (\<lambda>sh. sh\<lparr>sl_controls := RetainReuse []\<rparr>) (ws_shards WeakSlots_new)\<rparr>"

fun plan_slots :: "coordination_plan \<Rightarrow> weak_slots" where
  "plan_slots Transient = WeakSlots_new"
| "plan_slots ReusePlan = WeakSlots_reusable"

definition shard_index :: "(string \<Rightarrow> nat) \<Rightarrow> string \<Rightarrow> nat" where
  "shard_index hash key = hash key mod SLOT_SHARDS"

definition slots_lookup ::
  "(string \<Rightarrow> nat) \<Rightarrow> string \<Rightarrow> weak_slots \<Rightarrow> control_heap \<Rightarrow> weak_slots \<times> control_heap \<times> nat" where
  "slots_lookup hash key ws h =
     (let j = shard_index hash key; (sh, h', c) = shard_lookup key (ws_shards ws ! j) h
      in (ws\<lparr>ws_shards := (ws_shards ws)[j := sh]\<rparr>, h', c))"

definition clean_shard_at :: "nat \<Rightarrow> nat \<Rightarrow> weak_slots \<Rightarrow> control_heap \<Rightarrow> weak_slots \<times> control_heap \<times> nat" where
  "clean_shard_at j remaining ws h =
     (let sh = ws_shards ws ! j;
          (controls, h') = clean_idle remaining (sl_controls sh) h;
          (sh', count) = shard_clean remaining (sh\<lparr>sl_controls := controls\<rparr>) h'
      in (ws\<lparr>ws_shards := (ws_shards ws)[j := sh']\<rparr>, h', remaining - count))"

text \<open>\<open>busy\<close> tells which shards another thread has locked when the pass tries them.\<close>

fun clean_offsets ::
  "(nat \<Rightarrow> bool) \<Rightarrow> nat \<Rightarrow> nat list \<Rightarrow> nat \<Rightarrow> weak_slots \<Rightarrow> control_heap \<Rightarrow> weak_slots \<times> control_heap \<times> nat" where
  "clean_offsets busy start [] remaining ws h = (ws, h, remaining)"
| "clean_offsets busy start (offset # offsets) remaining ws h =
     (let j = (start + offset) mod SLOT_SHARDS
      in if remaining = 0 then (ws, h, remaining)
         else if busy j then clean_offsets busy start offsets remaining ws h
         else let (ws', h', remaining') = clean_shard_at j remaining ws h
              in clean_offsets busy start offsets remaining' ws' h')"

definition slots_clean :: "(nat \<Rightarrow> bool) \<Rightarrow> nat \<Rightarrow> weak_slots \<Rightarrow> control_heap \<Rightarrow> weak_slots \<times> control_heap \<times> nat" where
  "slots_clean busy budget ws h =
     clean_offsets busy (ws_maintenance ws mod SLOT_SHARDS) [0..<SLOT_SHARDS] budget
       (ws\<lparr>ws_maintenance := (ws_maintenance ws + 1) mod 2 ^ 64\<rparr>) h"

section \<open>The table among its clients\<close>

text \<open>
  The state of the system: the table, the controls, and how many owners the clients hold of each
  control (guards, waiters and the borrowed results of lookups).
\<close>

record slot_system =
  sy_slots :: weak_slots
  sy_heap :: control_heap
  sy_clients :: "nat \<Rightarrow> nat"

datatype slot_event = SlotGet string | SlotClone nat | SlotDrop nat | SlotCleanShard nat nat

definition system_lookup :: "(string \<Rightarrow> nat) \<Rightarrow> string \<Rightarrow> slot_system \<Rightarrow> slot_system \<times> nat" where
  "system_lookup hash key s =
     (let (ws, h, c) = slots_lookup hash key (sy_slots s) (sy_heap s)
      in (\<lparr>sy_slots = ws, sy_heap = h, sy_clients = (sy_clients s)(c := sy_clients s c + 1)\<rparr>, c))"

fun slot_act :: "(string \<Rightarrow> nat) \<Rightarrow> slot_event \<Rightarrow> slot_system \<Rightarrow> slot_system option" where
  "slot_act hash (SlotGet key) s = Some (fst (system_lookup hash key s))"
| "slot_act hash (SlotClone c) s =
     (if sy_clients s c = 0 then None
      else Some (s\<lparr>sy_heap := clone_control c (sy_heap s), sy_clients := (sy_clients s)(c := sy_clients s c + 1)\<rparr>))"
| "slot_act hash (SlotDrop c) s =
     (if sy_clients s c = 0 then None
      else Some (s\<lparr>sy_heap := drop_control c (sy_heap s), sy_clients := (sy_clients s)(c := sy_clients s c - 1)\<rparr>))"
| "slot_act hash (SlotCleanShard j budget) s =
     (if SLOT_SHARDS \<le> j then None
      else let (ws, h, _) = clean_shard_at j budget (sy_slots s) (sy_heap s) in Some (s\<lparr>sy_slots := ws, sy_heap := h\<rparr>))"

definition new_system :: "coordination_plan \<Rightarrow> slot_system" where
  "new_system plan = \<lparr>sy_slots = plan_slots plan, sy_heap = \<lparr>strong_count = (\<lambda>_. 0), next_control = 0\<rparr>, sy_clients = (\<lambda>_. 0)\<rparr>"

section \<open>Closed forms of the two passes\<close>

lemma strong_count_simps [simp]:
  "strong_count (clone_control c h) = (strong_count h)(c := strong_count h c + 1)"
  "strong_count (drop_control c h) = (strong_count h)(c := strong_count h c - 1)"
  "next_control (clone_control c h) = next_control h"
  "next_control (drop_control c h) = next_control h"
  by (simp_all add: control_defs)

lemma idle_pass_eq:
  assumes "distinct recent" "n \<le> length recent"
  shows "idle_pass n recent h =
    (drop n recent @ filter (\<lambda>c. 1 < strong_count h c) (take n recent),
     h\<lparr>strong_count := \<lambda>c. if c \<in> set (take n recent) \<and> strong_count h c \<le> 1 then strong_count h c - 1 else strong_count h c\<rparr>)"
  using assms
proof (induction n recent h rule: idle_pass.induct)
  case (1 n c recent h)
  show ?case
  proof (cases "1 < strong_count h c")
    case True
    have le: "n \<le> length recent" using 1(4) by simp
    have "idle_pass n (recent @ [c]) h = (drop n (recent @ [c]) @ filter (\<lambda>c. 1 < strong_count h c) (take n (recent @ [c])),
       h\<lparr>strong_count := \<lambda>d. if d \<in> set (take n (recent @ [c])) \<and> strong_count h d \<le> 1 then strong_count h d - 1 else strong_count h d\<rparr>)"
      using 1(3) le by (intro 1(1) [OF True]) auto
    with True le show ?thesis by (auto intro!: control_heap.equality ext)
  next
    case False
    have le: "n \<le> length recent" and c: "c \<notin> set recent" using 1(3,4) by simp_all
    have f: "filter (\<lambda>d. 1 < strong_count (drop_control c h) d) (take n recent) = filter (\<lambda>d. 1 < strong_count h d) (take n recent)"
      using c by (intro filter_cong) (auto dest: in_set_takeD)
    have s: "(\<lambda>d. if d \<in> set (take n recent) \<and> strong_count (drop_control c h) d \<le> 1 then strong_count (drop_control c h) d - 1
        else strong_count (drop_control c h) d)
      = (\<lambda>d. if d \<in> set (take (Suc n) (c # recent)) \<and> strong_count h d \<le> 1 then strong_count h d - 1 else strong_count h d)"
      using c False by (auto dest: in_set_takeD)
    have "idle_pass n recent (drop_control c h) =
      (drop n recent @ filter (\<lambda>d. 1 < strong_count (drop_control c h) d) (take n recent),
       (drop_control c h)\<lparr>strong_count := \<lambda>d. if d \<in> set (take n recent) \<and> strong_count (drop_control c h) d \<le> 1
          then strong_count (drop_control c h) d - 1 else strong_count (drop_control c h) d\<rparr>)"
      using 1(3) le by (intro 1(2) [OF False]) auto
    then show ?thesis using False unfolding f s by (auto simp: drop_control_def)
  qed
qed auto

lemma sweep_pass_eq:
  assumes "distinct sweep" "n \<le> length sweep" "set sweep \<subseteq> dom (hm_get entries)"
  shows "sweep_pass n sweep entries h =
    (drop n sweep @ filter (\<lambda>k. strong_count h (the (hm_get entries k)) \<noteq> 0) (take n sweep),
     hm_remove_all (filter (\<lambda>k. strong_count h (the (hm_get entries k)) = 0) (take n sweep)) entries)"
  using assms
proof (induction n sweep entries h rule: sweep_pass.induct)
  case (1 n key sweep entries h)
  have le: "n \<le> length sweep" and key: "key \<notin> set sweep" and d: "distinct sweep" using 1(4,5) by simp_all
  obtain slot where slot: "hm_get entries key = Some slot" using 1(6) by auto
  show ?case
  proof (cases "strong_count h slot = 0")
    case True
    have same: "the (hm_get (hm_remove key entries) k) = the (hm_get entries k)" if "k \<in> set (take n sweep)" for k
      using that key by (auto simp: hmap_simps dest: in_set_takeD)
    have "sweep_pass n sweep (hm_remove key entries) h =
       (drop n sweep @ filter (\<lambda>k. strong_count h (the (hm_get (hm_remove key entries) k)) \<noteq> 0) (take n sweep),
        hm_remove_all (filter (\<lambda>k. strong_count h (the (hm_get (hm_remove key entries) k)) = 0) (take n sweep)) (hm_remove key entries))"
      using 1(6) d le key by (intro 1(2) [OF slot True]) (auto simp: hmap_simps)
    also have "filter (\<lambda>k. strong_count h (the (hm_get (hm_remove key entries) k)) \<noteq> 0) (take n sweep)
        = filter (\<lambda>k. strong_count h (the (hm_get entries k)) \<noteq> 0) (take n sweep)"
      by (intro filter_cong) (simp_all add: same)
    also have "filter (\<lambda>k. strong_count h (the (hm_get (hm_remove key entries) k)) = 0) (take n sweep)
        = filter (\<lambda>k. strong_count h (the (hm_get entries k)) = 0) (take n sweep)"
      by (intro filter_cong) (simp_all add: same)
    finally show ?thesis using slot True by simp
  next
    case False
    have "sweep_pass n (sweep @ [key]) entries h = (drop n (sweep @ [key]) @
        filter (\<lambda>k. strong_count h (the (hm_get entries k)) \<noteq> 0) (take n (sweep @ [key])),
        hm_remove_all (filter (\<lambda>k. strong_count h (the (hm_get entries k)) = 0) (take n (sweep @ [key]))) entries)"
      using 1(6) d le key by (intro 1(3) [OF slot False]) auto
    with slot False le show ?thesis by simp
  qed
qed auto

section \<open>One critical section of a shard\<close>

abbreviation registered :: "slot_shard \<Rightarrow> nat set" where
  "registered sh \<equiv> ran (hm_get (sl_entries sh))"

abbreviation pooled :: "slot_shard \<Rightarrow> nat set" where
  "pooled sh \<equiv> set (pool (sl_controls sh))"

definition shard_ok :: "(string \<Rightarrow> nat) \<Rightarrow> nat \<Rightarrow> control_heap \<Rightarrow> slot_shard \<Rightarrow> bool" where
  "shard_ok hash j h sh \<longleftrightarrow> hm_ok (sl_entries sh) \<and> distinct (sl_sweep sh) \<and> set (sl_sweep sh) = dom (hm_get (sl_entries sh))
     \<and> (\<forall>k \<in> dom (hm_get (sl_entries sh)). shard_index hash k = j)
     \<and> (\<forall>k k' c. hm_get (sl_entries sh) k = Some c \<and> hm_get (sl_entries sh) k' = Some c \<longrightarrow> k = k')
     \<and> (\<forall>c \<in> registered sh. c < next_control h)
     \<and> distinct (pool (sl_controls sh)) \<and> length (pool (sl_controls sh)) \<le> RETAINED_CONTROLS_PER_SHARD
     \<and> pooled sh \<subseteq> registered sh \<and> (\<forall>c \<in> pooled sh. 0 < strong_count h c)"

text \<open>
  What a critical section promises the rest of the table: the shard stays well formed, live
  controls keep their slots, no dead control revives, and the strong counts change exactly by the
  pool slots gained and lost and by the owner handed to the caller.
\<close>

definition shard_step ::
  "(string \<Rightarrow> nat) \<Rightarrow> nat \<Rightarrow> nat option \<Rightarrow> slot_shard \<Rightarrow> control_heap \<Rightarrow> slot_shard \<Rightarrow> control_heap \<Rightarrow> bool" where
  "shard_step hash j gained sh h sh' h' \<longleftrightarrow> shard_ok hash j h' sh' \<and> next_control h \<le> next_control h'
     \<and> (\<forall>k c. hm_get (sl_entries sh) k = Some c \<and> 0 < strong_count h' c \<longrightarrow> hm_get (sl_entries sh') k = Some c)
     \<and> (\<forall>k c. hm_get (sl_entries sh') k = Some c \<longrightarrow> hm_get (sl_entries sh) k = Some c \<or> next_control h \<le> c)
     \<and> (\<forall>c < next_control h. strong_count h c = 0 \<longrightarrow> strong_count h' c = 0)
     \<and> (\<forall>c. strong_count h' c + of_bool (c \<in> pooled sh) = strong_count h c + of_bool (c \<in> pooled sh') + of_bool (gained = Some c))
     \<and> (\<forall>c. gained = Some c \<longrightarrow> c \<in> registered sh')"

lemma shard_stepD:
  assumes "shard_step hash j gained sh h sh' h'"
  shows "shard_ok hash j h' sh'" "next_control h \<le> next_control h'"
    "hm_get (sl_entries sh) k = Some c \<Longrightarrow> 0 < strong_count h' c \<Longrightarrow> hm_get (sl_entries sh') k = Some c"
    "hm_get (sl_entries sh') k = Some c \<Longrightarrow> hm_get (sl_entries sh) k = Some c \<or> next_control h \<le> c"
    "c < next_control h \<Longrightarrow> strong_count h c = 0 \<Longrightarrow> strong_count h' c = 0"
    "strong_count h' c + of_bool (c \<in> pooled sh) = strong_count h c + of_bool (c \<in> pooled sh') + of_bool (gained = Some c)"
    "gained = Some c \<Longrightarrow> c \<in> registered sh'"
  using assms unfolding shard_step_def by blast+

lemma shard_step_trans:
  assumes ok: "shard_ok hash j h sh" and a: "shard_step hash j None sh h sh1 h1" and b: "shard_step hash j gained sh1 h1 sh2 h2"
  shows "shard_step hash j gained sh h sh2 h2"
  unfolding shard_step_def
proof (intro conjI allI impI)
  show "shard_ok hash j h2 sh2" by (rule shard_stepD(1) [OF b])
  show le: "next_control h \<le> next_control h2" using shard_stepD(2) [OF a] shard_stepD(2) [OF b] by linarith
  show "hm_get (sl_entries sh2) k = Some c" if "hm_get (sl_entries sh) k = Some c \<and> 0 < strong_count h2 c" for k c
  proof -
    have "c < next_control h" using that ok by (auto simp: shard_ok_def ranI)
    then have "0 < strong_count h1 c" using that shard_stepD(5) [OF b, of c] shard_stepD(2) [OF a] by force
    then show ?thesis using that shard_stepD(3) [OF a] shard_stepD(3) [OF b] by blast
  qed
  show "hm_get (sl_entries sh) k = Some c \<or> next_control h \<le> c" if "hm_get (sl_entries sh2) k = Some c" for k c
    using shard_stepD(4) [OF b that] shard_stepD(4) [OF a, of k c] shard_stepD(2) [OF a] by linarith
  show "strong_count h2 c = 0" if "c < next_control h" "strong_count h c = 0" for c
    using that shard_stepD(5) [OF a, of c] shard_stepD(5) [OF b, of c] shard_stepD(2) [OF a] by linarith
  show "strong_count h2 c + of_bool (c \<in> pooled sh) = strong_count h c + of_bool (c \<in> pooled sh2) + of_bool (gained = Some c)" for c
    using shard_stepD(6) [OF a, of c] shard_stepD(6) [OF b, of c] by simp
  show "c \<in> registered sh2" if "gained = Some c" for c by (rule shard_stepD(7) [OF b that])
qed

lemma clean_idle_step:
  assumes ok: "shard_ok hash j h sh" and e: "clean_idle budget (sl_controls sh) h = (controls, h')"
  shows "shard_step hash j None sh h (sh\<lparr>sl_controls := controls\<rparr>) h'"
proof (cases "sl_controls sh")
  case RetainWeak
  then have "sh\<lparr>sl_controls := controls\<rparr> = sh" "h' = h" using e by auto
  then show ?thesis using ok by (auto simp: shard_step_def)
next
  case (RetainReuse recent)
  define n where "n = min budget (length recent)"
  have d: "distinct recent" "length recent \<le> 16" "set recent \<subseteq> registered sh" and pos: "c \<in> set recent \<Longrightarrow> 0 < strong_count h c" for c
    using ok RetainReuse by (auto simp: shard_ok_def)
  define keep where "keep = drop n recent @ filter (\<lambda>c. 1 < strong_count h c) (take n recent)"
  have c': "controls = RetainReuse keep" and h': "h' = h\<lparr>strong_count := \<lambda>c. if c \<in> set (take n recent) \<and> strong_count h c \<le> 1
       then strong_count h c - 1 else strong_count h c\<rparr>"
    using e RetainReuse idle_pass_eq [OF d(1), of n h] by (auto simp: n_def keep_def)
  have dk: "distinct keep" "length keep \<le> 16"
  proof -
    have "set (take n recent) \<inter> set (drop n recent) = {}" by (rule set_take_disj_set_drop_if_distinct [OF d(1) order_refl])
    then show "distinct keep" using d(1) by (auto simp: keep_def)
    have "length keep \<le> length (drop n recent) + length (take n recent)" by (simp only: keep_def length_append length_filter_le add_left_mono)
    then show "length keep \<le> 16" using d(2) by simp
  qed
  have part: "set recent = set (take n recent) \<union> set (drop n recent)" by (metis append_take_drop_id set_append)
  have disj: "c \<in> set (take n recent) \<Longrightarrow> c \<notin> set (drop n recent)" for c
    using set_take_disj_set_drop_if_distinct [OF d(1) order_refl] by blast
  have sk: "set keep \<subseteq> set recent" unfolding keep_def part by auto
  have kept: "c \<in> set keep \<Longrightarrow> strong_count h' c = strong_count h c" for c
    using disj by (auto simp: keep_def h')
  have cnt: "strong_count h' c + of_bool (c \<in> set recent) = strong_count h c + of_bool (c \<in> set keep)" for c
  proof (cases "c \<in> set (take n recent)")
    case True
    then have "0 < strong_count h c" using pos part by auto
    then show ?thesis using True disj [OF True] part by (auto simp: h' keep_def)
  next
    case False
    then show ?thesis using part by (auto simp: h' keep_def)
  qed
  show ?thesis unfolding shard_step_def
  proof (intro conjI allI impI)
    show "shard_ok hash j h' (sh\<lparr>sl_controls := controls\<rparr>)"
      using ok dk sk d(3) pos kept by (auto simp: shard_ok_def c' h')
  qed (use cnt in \<open>auto simp: h' c' RetainReuse\<close>)
qed

lemma shard_clean_eq:
  assumes "shard_ok hash j h sh"
  shows "shard_clean budget sh h = (let n = min budget (length (sl_sweep sh)) in
    (sh\<lparr>sl_entries := hm_remove_all (filter (\<lambda>k. strong_count h (the (hm_get (sl_entries sh) k)) = 0) (take n (sl_sweep sh))) (sl_entries sh),
        sl_sweep := drop n (sl_sweep sh) @ filter (\<lambda>k. strong_count h (the (hm_get (sl_entries sh) k)) \<noteq> 0) (take n (sl_sweep sh))\<rparr>, n))"
  using assms sweep_pass_eq [of "sl_sweep sh" "min budget (length (sl_sweep sh))" "sl_entries sh" h]
  by (simp add: shard_clean_def shard_ok_def Let_def)

lemma shard_clean_step:
  assumes ok: "shard_ok hash j h sh"
  shows "shard_step hash j None sh h (fst (shard_clean budget sh h)) h"
proof -
  define n where "n = min budget (length (sl_sweep sh))"
  define dead where "dead = filter (\<lambda>k. strong_count h (the (hm_get (sl_entries sh) k)) = 0) (take n (sl_sweep sh))"
  define swept where "swept = drop n (sl_sweep sh) @ filter (\<lambda>k. strong_count h (the (hm_get (sl_entries sh) k)) \<noteq> 0) (take n (sl_sweep sh))"
  define entries where "entries = hm_remove_all dead (sl_entries sh)"
  have e: "fst (shard_clean budget sh h) = sh\<lparr>sl_entries := entries, sl_sweep := swept\<rparr>"
    unfolding shard_clean_eq [OF ok] by (simp add: n_def dead_def swept_def entries_def Let_def)
  have sw: "distinct (sl_sweep sh)" "set (sl_sweep sh) = dom (hm_get (sl_entries sh))" and hok: "hm_ok (sl_entries sh)"
    using ok by (simp_all add: shard_ok_def)
  have get: "hm_get entries k = (if k \<in> set dead then None else hm_get (sl_entries sh) k)" for k
    by (simp add: entries_def hm.get_rem_all [OF hok])
  have part: "set (sl_sweep sh) = set (take n (sl_sweep sh)) \<union> set (drop n (sl_sweep sh))" by (metis append_take_drop_id set_append)
  have disj: "set (take n (sl_sweep sh)) \<inter> set (drop n (sl_sweep sh)) = {}"
    by (rule set_take_disj_set_drop_if_distinct [OF sw(1) order_refl])
  have dead: "strong_count h c = 0" if "k \<in> set dead" "hm_get (sl_entries sh) k = Some c" for k c using that by (simp add: dead_def)
  have pool: "c \<in> registered (sh\<lparr>sl_entries := entries, sl_sweep := swept\<rparr>)" if "c \<in> pooled sh" for c
  proof -
    have "c \<in> registered sh" using that ok by (auto simp: shard_ok_def)
    then obtain k where k: "hm_get (sl_entries sh) k = Some c" by (auto simp: ran_def)
    have "0 < strong_count h c" using that ok by (auto simp: shard_ok_def)
    then have "hm_get entries k = Some c" using k dead [of k] by (auto simp: get)
    then show ?thesis by (auto intro: ranI)
  qed
  have sub: "registered (sh\<lparr>sl_entries := entries, sl_sweep := swept\<rparr>) \<subseteq> registered sh"
    by (auto simp: ran_def get split: if_splits)
  have cover: "set swept = dom (hm_get entries)"
  proof -
    have "set dead \<subseteq> set (take n (sl_sweep sh))" by (auto simp: dead_def)
    then have "set swept = dom (hm_get (sl_entries sh)) - set dead"
      using disj unfolding sw(2) [symmetric] part by (auto simp: swept_def dead_def)
    then show ?thesis by (auto simp: get dom_def)
  qed
  have "shard_ok hash j h (sh\<lparr>sl_entries := entries, sl_sweep := swept\<rparr>)" unfolding shard_ok_def
  proof (intro conjI)
    show "hm_ok (sl_entries (sh\<lparr>sl_entries := entries, sl_sweep := swept\<rparr>))" by (simp add: entries_def hm.ok_rem_all hok)
    show "distinct (sl_sweep (sh\<lparr>sl_entries := entries, sl_sweep := swept\<rparr>))" using sw(1) disj by (auto simp: swept_def)
    show "\<forall>c\<in>registered (sh\<lparr>sl_entries := entries, sl_sweep := swept\<rparr>). c < next_control h" using sub ok by (auto simp: shard_ok_def)
    show "pooled (sh\<lparr>sl_entries := entries, sl_sweep := swept\<rparr>) \<subseteq> registered (sh\<lparr>sl_entries := entries, sl_sweep := swept\<rparr>)"
      using pool by auto
  qed (use ok cover in \<open>auto simp: shard_ok_def get split: if_splits\<close>)
  then show ?thesis unfolding e shard_step_def using dead by (auto simp: get split: if_splits)
qed

lemma clone_step:
  assumes ok: "shard_ok hash j h sh" and c: "hm_get (sl_entries sh) k = Some c" "strong_count h c \<noteq> 0"
  shows "shard_step hash j (Some c) sh h sh (clone_control c h)"
proof -
  have "shard_ok hash j (clone_control c h) sh" using ok by (auto simp: shard_ok_def)
  then show ?thesis using c by (auto simp: shard_step_def intro: ranI)
qed

lemma control_retain_effect:
  assumes "control_retain c controls h = (controls', h')" "distinct (pool controls)" "length (pool controls) \<le> 16"
    "c \<notin> set (pool controls)" "\<forall>d \<in> set (pool controls). 0 < strong_count h d" "0 < strong_count h c"
  shows "distinct (pool controls')" "length (pool controls') \<le> 16" "set (pool controls') \<subseteq> insert c (set (pool controls))"
    "\<forall>d \<in> set (pool controls'). 0 < strong_count h' d" "next_control h' = next_control h"
    "strong_count h' d + of_bool (d \<in> set (pool controls)) = strong_count h d + of_bool (d \<in> set (pool controls'))"
proof -
  have "distinct (pool controls') \<and> length (pool controls') \<le> 16 \<and> set (pool controls') \<subseteq> insert c (set (pool controls))
     \<and> (\<forall>d \<in> set (pool controls'). 0 < strong_count h' d) \<and> next_control h' = next_control h
     \<and> strong_count h' d + of_bool (d \<in> set (pool controls)) = strong_count h d + of_bool (d \<in> set (pool controls'))"
  proof (cases controls)
    case RetainWeak
    then show ?thesis using assms by auto
  next
    case (RetainReuse recent)
    show ?thesis
    proof (cases "length recent = 16")
      case True
      then obtain b bs where b: "recent = b # bs" by (cases recent) auto
      show ?thesis using assms True by (auto simp: RetainReuse b)
    next
      case False
      then show ?thesis using assms by (auto simp: RetainReuse)
    qed
  qed
  then show "distinct (pool controls')" "length (pool controls') \<le> 16" "set (pool controls') \<subseteq> insert c (set (pool controls))"
    "\<forall>d \<in> set (pool controls'). 0 < strong_count h' d" "next_control h' = next_control h"
    "strong_count h' d + of_bool (d \<in> set (pool controls)) = strong_count h d + of_bool (d \<in> set (pool controls'))"
    by blast+
qed

lemma shard_create_step:
  assumes ok: "shard_ok hash j h sh" and key: "shard_index hash key = j"
    and dead: "case hm_get (sl_entries sh) key of Some c \<Rightarrow> strong_count h c = 0 | None \<Rightarrow> True"
    and unborn: "strong_count h (next_control h) = 0"
    and e: "shard_create key sh h = (sh', h', c)"
  shows "shard_step hash j (Some c) sh h sh' h'" "hm_get (sl_entries sh') key = Some c"
proof -
  define h1 where "h1 = fst (new_control h)"
  define controls where "controls = fst (control_retain (next_control h) (sl_controls sh) h1)"
  have c: "c = next_control h" and sh': "sh' = \<lparr>sl_entries = hm_insert key c (sl_entries sh),
      sl_sweep = (case hm_get (sl_entries sh) key of Some _ \<Rightarrow> sl_sweep sh | None \<Rightarrow> sl_sweep sh @ [key]), sl_controls = controls\<rparr>"
    and cr: "control_retain c (sl_controls sh) h1 = (controls, h')"
    using e by (auto simp: shard_create_def new_control_def h1_def controls_def split: prod.splits)
  have h1: "strong_count h1 = (strong_count h)(c := 1)" "next_control h1 = Suc c" by (simp_all add: h1_def new_control_def c)
  have old: "\<forall>d \<in> registered sh. d < c" and ps: "pooled sh \<subseteq> registered sh" using ok by (simp_all add: shard_ok_def c)
  have fresh: "c \<notin> pooled sh" using old ps by blast
  have "\<forall>d\<in>pooled sh. 0 < strong_count h1 d" "0 < strong_count h1 c" using ok by (auto simp: shard_ok_def h1)
  note re = control_retain_effect [OF cr _ _ fresh this]
  have dp: "distinct (pool (sl_controls sh))" "length (pool (sl_controls sh)) \<le> 16" using ok by (simp_all add: shard_ok_def)
  note re = re [OF dp]
  have get: "hm_get (sl_entries sh') = (hm_get (sl_entries sh))(key \<mapsto> c)" by (simp add: sh' hmap_simps)
  show kc: "hm_get (sl_entries sh') key = Some c" by (simp add: get)
  have reg: "registered sh' \<subseteq> insert c (registered sh)" unfolding get by (auto simp: ran_def)
  have notdead: "k \<noteq> key" if "hm_get (sl_entries sh) k = Some d" "0 < strong_count h d" for k d using that dead by auto
  have pr: "pooled sh' \<subseteq> registered sh'"
  proof
    fix d assume d: "d \<in> pooled sh'"
    show "d \<in> registered sh'"
    proof (cases "d = c")
      case True then show ?thesis using kc by (auto intro: ranI)
    next
      case False
      then have "d \<in> pooled sh" using d re(3) by (auto simp: sh')
      then have "d \<in> registered sh" "0 < strong_count h d" using ok by (auto simp: shard_ok_def)
      then obtain k where "hm_get (sl_entries sh) k = Some d" "k \<noteq> key" using notdead by (auto simp: ran_def)
      then show ?thesis by (auto simp: get intro: ranI)
    qed
  qed
  have inj: "k = k'" if "hm_get (sl_entries sh') k = Some d" "hm_get (sl_entries sh') k' = Some d" for k k' d
  proof -
    have "k = k'" if "hm_get (sl_entries sh) k = Some d" "hm_get (sl_entries sh) k' = Some d" for k k' d
      using ok that unfolding shard_ok_def by blast
    then show ?thesis using that old by (auto simp: get split: if_splits dest: ranI)
  qed
  have okk: "shard_ok hash j h' sh'" unfolding shard_ok_def
  proof (intro conjI)
    show "\<forall>k k' c. hm_get (sl_entries sh') k = Some c \<and> hm_get (sl_entries sh') k' = Some c \<longrightarrow> k = k'" using inj by blast
    show "\<forall>c\<in>registered sh'. c < next_control h'" using subsetD [OF reg] old by (fastforce simp: re(5) h1)
    show "pooled sh' \<subseteq> registered sh'" by (rule pr)
    show "distinct (pool (sl_controls sh'))" "length (pool (sl_controls sh')) \<le> RETAINED_CONTROLS_PER_SHARD"
      "\<forall>c\<in>pooled sh'. 0 < strong_count h' c" using re(1,2,4) by (simp_all add: sh')
    show "hm_ok (sl_entries sh')" using ok by (simp add: shard_ok_def sh')
    show "distinct (sl_sweep sh')" "set (sl_sweep sh') = dom (hm_get (sl_entries sh'))"
      using ok unfolding get by (auto simp: shard_ok_def sh' split: option.splits)
    show "\<forall>k\<in>dom (hm_get (sl_entries sh')). shard_index hash k = j" using ok key unfolding get by (auto simp: shard_ok_def)
  qed
  have cnt: "strong_count h' d + of_bool (d \<in> pooled sh) = strong_count h d + of_bool (d \<in> pooled sh') + of_bool (Some c = Some d)" for d
    using re(6) [of d] unborn by (auto simp: h1 sh' c)
  show "shard_step hash j (Some c) sh h sh' h'" unfolding shard_step_def
  proof (intro conjI allI impI)
    show "hm_get (sl_entries sh') k = Some d" if "hm_get (sl_entries sh) k = Some d \<and> 0 < strong_count h' d" for k d
    proof -
      have d: "d < c" using that old by (auto dest: ranI)
      have "0 < strong_count h d"
      proof (rule ccontr)
        assume z: "\<not> 0 < strong_count h d"
        then have "d \<notin> pooled sh" using ok by (auto simp: shard_ok_def)
        moreover have "d \<notin> pooled sh'" using calculation re(3) d by (auto simp: sh')
        ultimately show False using cnt [of d] z that d by simp
      qed
      then show ?thesis using that notdead by (auto simp: get)
    qed
    show "strong_count h' d = 0" if "d < next_control h" "strong_count h d = 0" for d
    proof -
      have "d \<notin> pooled sh" using ok that by (auto simp: shard_ok_def)
      moreover have "d \<notin> pooled sh'" using calculation re(3) that(1) by (auto simp: sh' c)
      ultimately show ?thesis using cnt [of d] that by (simp add: c)
    qed
    show "hm_get (sl_entries sh) k = Some d \<or> next_control h \<le> d" if "hm_get (sl_entries sh') k = Some d" for k d
      using that by (auto simp: get c split: if_splits)
    show "d \<in> registered sh'" if "Some c = Some d" for d using that kc by (auto intro: ranI)
    show "next_control h \<le> next_control h'" using re(5) by (simp add: h1 c)
  qed (fact okk cnt)+
qed

lemma shard_lookup_step:
  assumes ok: "shard_ok hash j h sh" and key: "shard_index hash key = j"
    and unborn: "strong_count h (next_control h) = 0"
    and e: "shard_lookup key sh h = (sh', h', c)"
  shows "shard_step hash j (Some c) sh h sh' h'" "hm_get (sl_entries sh') key = Some c"
    "hm_get (sl_entries sh) key = Some d \<Longrightarrow> 0 < strong_count h d \<Longrightarrow> c = d"
proof -
  have "shard_step hash j (Some c) sh h sh' h' \<and> hm_get (sl_entries sh') key = Some c \<and>
    (hm_get (sl_entries sh) key = Some d \<and> 0 < strong_count h d \<longrightarrow> c = d)"
  proof (cases "\<exists>d. hm_get (sl_entries sh) key = Some d \<and> strong_count h d \<noteq> 0")
    case True
    then show ?thesis using e clone_step [OF ok] by (auto simp: shard_lookup_def)
  next
    case False
    define sh1 where "sh1 = fst (shard_clean 4 sh h)"
    have cr: "shard_create key sh1 h = (sh', h', c)" using e False by (auto simp: shard_lookup_def sh1_def split: option.splits if_splits)
    have st: "shard_step hash j None sh h sh1 h" unfolding sh1_def by (rule shard_clean_step [OF ok])
    have ok1: "shard_ok hash j h sh1" by (rule shard_stepD(1) [OF st])
    have "case hm_get (sl_entries sh1) key of Some c \<Rightarrow> strong_count h c = 0 | None \<Rightarrow> True"
    proof (cases "hm_get (sl_entries sh1) key")
      case (Some d)
      have "d < next_control h" using Some ok1 by (auto simp: shard_ok_def ranI)
      then have "hm_get (sl_entries sh) key = Some d" using shard_stepD(4) [OF st Some] by simp
      then show ?thesis using False Some by auto
    qed simp
    note cs = shard_create_step [OF ok1 key this unborn cr]
    show ?thesis using shard_step_trans [OF ok st cs(1)] cs(2) False by auto
  qed
  then show "shard_step hash j (Some c) sh h sh' h'" "hm_get (sl_entries sh') key = Some c"
    "hm_get (sl_entries sh) key = Some d \<Longrightarrow> 0 < strong_count h d \<Longrightarrow> c = d" by blast+
qed

section \<open>The whole table\<close>

definition slot_of :: "(string \<Rightarrow> nat) \<Rightarrow> slot_system \<Rightarrow> string \<Rightarrow> nat option" where
  "slot_of hash s key = hm_get (sl_entries (ws_shards (sy_slots s) ! shard_index hash key)) key"

definition system_ok :: "(string \<Rightarrow> nat) \<Rightarrow> slot_system \<Rightarrow> bool" where
  "system_ok hash s \<longleftrightarrow> length (ws_shards (sy_slots s)) = SLOT_SHARDS
     \<and> (\<forall>j < SLOT_SHARDS. shard_ok hash j (sy_heap s) (ws_shards (sy_slots s) ! j))
     \<and> (\<forall>c. strong_count (sy_heap s) c = sy_clients s c + of_bool (\<exists>j < SLOT_SHARDS. c \<in> pooled (ws_shards (sy_slots s) ! j)))
     \<and> (\<forall>c. 0 < strong_count (sy_heap s) c \<longrightarrow> (\<exists>j < SLOT_SHARDS. c \<in> registered (ws_shards (sy_slots s) ! j)))
     \<and> (\<forall>c i j. i < SLOT_SHARDS \<and> j < SLOT_SHARDS \<and> c \<in> registered (ws_shards (sy_slots s) ! i)
          \<and> c \<in> registered (ws_shards (sy_slots s) ! j) \<longrightarrow> i = j)"

lemma shard_index_less [simp]: "shard_index hash key < SLOT_SHARDS"
  by (simp add: shard_index_def)

lemma system_okD:
  assumes "system_ok hash s"
  shows "length (ws_shards (sy_slots s)) = SLOT_SHARDS"
    "j < SLOT_SHARDS \<Longrightarrow> shard_ok hash j (sy_heap s) (ws_shards (sy_slots s) ! j)"
    "strong_count (sy_heap s) c = sy_clients s c + of_bool (\<exists>j < SLOT_SHARDS. c \<in> pooled (ws_shards (sy_slots s) ! j))"
    "0 < strong_count (sy_heap s) c \<Longrightarrow> \<exists>j < SLOT_SHARDS. c \<in> registered (ws_shards (sy_slots s) ! j)"
    "i < SLOT_SHARDS \<Longrightarrow> j < SLOT_SHARDS \<Longrightarrow> c \<in> registered (ws_shards (sy_slots s) ! i) \<Longrightarrow>
       c \<in> registered (ws_shards (sy_slots s) ! j) \<Longrightarrow> i = j"
  using assms unfolding system_ok_def by blast+

lemma registered_old: "system_ok hash s \<Longrightarrow> j < SLOT_SHARDS \<Longrightarrow> c \<in> registered (ws_shards (sy_slots s) ! j) \<Longrightarrow> c < next_control (sy_heap s)"
  using system_okD(2) unfolding shard_ok_def by blast

lemma unborn_control: "system_ok hash s \<Longrightarrow> next_control (sy_heap s) \<le> c \<Longrightarrow> strong_count (sy_heap s) c = 0"
  using system_okD(4) [of hash s c] registered_old [of hash s _ c] by fastforce

lemma shard_ok_heap:
  assumes "shard_ok hash i h sh" "next_control h \<le> next_control h'" "\<And>c. c \<in> registered sh \<Longrightarrow> strong_count h' c = strong_count h c"
  shows "shard_ok hash i h' sh"
proof -
  have "0 < strong_count h' c" if "c \<in> pooled sh" for c using assms(1,3) that unfolding shard_ok_def by (metis subsetD)
  then show ?thesis using assms(1,2) unfolding shard_ok_def by (meson order_less_le_trans)
qed

text \<open>A critical section of one shard that keeps its promise keeps the whole table well formed.\<close>

lemma system_step:
  assumes ok: "system_ok hash s" and j: "j < SLOT_SHARDS"
    and st: "shard_step hash j gained (ws_shards (sy_slots s) ! j) (sy_heap s) sh' h'"
    and s': "ws_shards (sy_slots s') = (ws_shards (sy_slots s))[j := sh']" "sy_heap s' = h'"
      "\<And>c. sy_clients s' c = sy_clients s c + of_bool (gained = Some c)"
  shows "system_ok hash s'"
proof -
  let ?sh = "ws_shards (sy_slots s) ! j"
  note len = system_okD(1) [OF ok]
  have nth: "ws_shards (sy_slots s') ! i = (if i = j then sh' else ws_shards (sy_slots s) ! i)" if "i < SLOT_SHARDS" for i
    using that len by (simp add: s')
  have ok_j: "shard_ok hash j (sy_heap s) ?sh" by (rule system_okD(2) [OF ok j])
  have sub: "c \<in> registered ?sh \<or> next_control (sy_heap s) \<le> c" if "c \<in> registered sh'" for c
    using that shard_stepD(4) [OF st] by (auto simp: ran_def)
  have apart: "c \<notin> registered (ws_shards (sy_slots s) ! i)" if "c \<in> registered ?sh \<or> c \<in> registered sh'" "i < SLOT_SHARDS" "i \<noteq> j" for c i
    using that sub system_okD(5) [OF ok that(2) j] registered_old [OF ok that(2)] by fastforce
  have pr: "pooled ?sh \<subseteq> registered ?sh" "pooled sh' \<subseteq> registered sh'" using ok_j shard_stepD(1) [OF st] by (auto simp: shard_ok_def)
  have same: "strong_count h' c = strong_count (sy_heap s) c" if "c \<notin> registered ?sh" "c \<notin> registered sh'" for c
  proof -
    have "c \<notin> pooled ?sh" "c \<notin> pooled sh'" "gained \<noteq> Some c" using that pr shard_stepD(7) [OF st, of c] by blast+
    then show ?thesis using shard_stepD(6) [OF st, of c] by simp
  qed
  have pooled_other: "c \<notin> pooled (ws_shards (sy_slots s) ! i)" if "c \<in> registered ?sh \<or> c \<in> registered sh'" "i < SLOT_SHARDS" "i \<noteq> j" for c i
    using apart [OF that] system_okD(2) [OF ok that(2)] unfolding shard_ok_def by blast
  have ex: "(\<exists>i < SLOT_SHARDS. c \<in> pooled (ws_shards (sy_slots s) ! i)) \<longleftrightarrow> c \<in> pooled ?sh"
    "(\<exists>i < SLOT_SHARDS. c \<in> pooled (ws_shards (sy_slots s') ! i)) \<longleftrightarrow> c \<in> pooled sh'" if "c \<in> registered ?sh \<or> c \<in> registered sh'" for c
    using pooled_other [OF that] j nth by metis+
  have ex': "(\<exists>i < SLOT_SHARDS. c \<in> pooled (ws_shards (sy_slots s') ! i)) \<longleftrightarrow> (\<exists>i < SLOT_SHARDS. c \<in> pooled (ws_shards (sy_slots s) ! i))"
    if "c \<notin> registered ?sh" "c \<notin> registered sh'" for c using that pr j nth by (metis subsetD)
  show ?thesis unfolding system_ok_def
  proof (intro conjI allI impI)
    show "length (ws_shards (sy_slots s')) = SLOT_SHARDS" using len by (simp add: s')
    show "shard_ok hash i (sy_heap s') (ws_shards (sy_slots s') ! i)" if "i < SLOT_SHARDS" for i
    proof (cases "i = j")
      case True
      then show ?thesis using shard_stepD(1) [OF st] nth [OF that] by (simp add: s')
    next
      case False
      have "strong_count h' c = strong_count (sy_heap s) c" if "c \<in> registered (ws_shards (sy_slots s) ! i)" for c
        using apart [of c i] that same \<open>i < SLOT_SHARDS\<close> False by blast
      then show ?thesis using shard_ok_heap [OF system_okD(2) [OF ok that] shard_stepD(2) [OF st]] nth [OF that] False by (simp add: s')
    qed
    show "strong_count (sy_heap s') c = sy_clients s' c + of_bool (\<exists>i < SLOT_SHARDS. c \<in> pooled (ws_shards (sy_slots s') ! i))" for c
    proof (cases "c \<in> registered ?sh \<or> c \<in> registered sh'")
      case True
      show ?thesis using shard_stepD(6) [OF st, of c] system_okD(3) [OF ok, of c] unfolding ex [OF True] s'(2,3) by (cases "c \<in> pooled ?sh") auto
    next
      case False
      then have "gained \<noteq> Some c" using shard_stepD(7) [OF st] by blast
      then show ?thesis using False same ex' system_okD(3) [OF ok, of c] by (simp add: s')
    qed
    show "\<exists>i < SLOT_SHARDS. c \<in> registered (ws_shards (sy_slots s') ! i)" if pos: "0 < strong_count (sy_heap s') c" for c
    proof (cases "c \<in> registered ?sh \<or> c \<in> registered sh'")
      case True
      then have "c \<in> registered sh'" using shard_stepD(3) [OF st] pos by (auto simp: s' ran_def)
      then show ?thesis using j nth [OF j] by auto
    next
      case False
      then obtain i where "i < SLOT_SHARDS" "c \<in> registered (ws_shards (sy_slots s) ! i)"
        using system_okD(4) [OF ok, of c] same [of c] pos by (auto simp: s'(2))
      then show ?thesis using False nth by metis
    qed
    show "i = k" if "i < SLOT_SHARDS \<and> k < SLOT_SHARDS \<and> c \<in> registered (ws_shards (sy_slots s') ! i)
        \<and> c \<in> registered (ws_shards (sy_slots s') ! k)" for c i k
      using that nth apart [of c] system_okD(5) [OF ok, of i k c] by metis
  qed
qed

lemma system_lookup_step:
  assumes ok: "system_ok hash s" and e: "system_lookup hash key s = (s', c)"
  obtains sh' where "shard_step hash (shard_index hash key) (Some c) (ws_shards (sy_slots s) ! shard_index hash key) (sy_heap s) sh' (sy_heap s')"
    "ws_shards (sy_slots s') = (ws_shards (sy_slots s))[shard_index hash key := sh']" "\<And>d. sy_clients s' d = sy_clients s d + of_bool (Some c = Some d)"
    "slot_of hash s' key = Some c" "\<And>d. slot_of hash s key = Some d \<Longrightarrow> 0 < strong_count (sy_heap s) d \<Longrightarrow> c = d"
proof -
  let ?j = "shard_index hash key"
  obtain sh' h' where l: "shard_lookup key (ws_shards (sy_slots s) ! ?j) (sy_heap s) = (sh', h', c)"
    and s': "s' = \<lparr>sy_slots = (sy_slots s)\<lparr>ws_shards := (ws_shards (sy_slots s))[?j := sh']\<rparr>, sy_heap = h',
        sy_clients = (sy_clients s)(c := sy_clients s c + 1)\<rparr>"
    using e by (auto simp: system_lookup_def slots_lookup_def Let_def split: prod.splits)
  note ls = shard_lookup_step [OF system_okD(2) [OF ok shard_index_less] refl unborn_control [OF ok order_refl] l]
  show ?thesis
    by (rule that [of sh']) (use ls system_okD(1) [OF ok] in \<open>auto simp: s' slot_of_def\<close>)
qed

lemma clean_shard_step:
  assumes ok: "system_ok hash s" and j: "j < SLOT_SHARDS" and e: "clean_shard_at j budget (sy_slots s) (sy_heap s) = (ws, h, r)"
  obtains sh' where "shard_step hash j None (ws_shards (sy_slots s) ! j) (sy_heap s) sh' h" "ws_shards ws = (ws_shards (sy_slots s))[j := sh']"
proof -
  let ?sh = "ws_shards (sy_slots s) ! j"
  obtain controls where c: "clean_idle budget (sl_controls ?sh) (sy_heap s) = (controls, h)"
    and ws: "ws_shards ws = (ws_shards (sy_slots s))[j := fst (shard_clean budget (?sh\<lparr>sl_controls := controls\<rparr>) h)]"
    using e by (auto simp: clean_shard_at_def Let_def split: prod.splits)
  note a = clean_idle_step [OF system_okD(2) [OF ok j] c]
  show ?thesis
    by (rule that [OF shard_step_trans [OF system_okD(2) [OF ok j] a shard_clean_step [OF shard_stepD(1) [OF a]]] ws])
qed

lemma system_okI:
  assumes "sy_slots s' = w" "sy_heap s' = h" "sy_clients s' = cl" "length (ws_shards w) = SLOT_SHARDS"
    "\<And>j. j < SLOT_SHARDS \<Longrightarrow> shard_ok hash j h (ws_shards w ! j)"
    "\<And>c. strong_count h c = cl c + of_bool (\<exists>j < SLOT_SHARDS. c \<in> pooled (ws_shards w ! j))"
    "\<And>c. 0 < strong_count h c \<Longrightarrow> \<exists>j < SLOT_SHARDS. c \<in> registered (ws_shards w ! j)"
    "\<And>c i j. i < SLOT_SHARDS \<Longrightarrow> j < SLOT_SHARDS \<Longrightarrow> c \<in> registered (ws_shards w ! i) \<Longrightarrow> c \<in> registered (ws_shards w ! j) \<Longrightarrow> i = j"
  shows "system_ok hash s'"
  unfolding system_ok_def assms(1-3) using assms(4-) by blast

lemma drop_ok:
  assumes ok: "system_ok hash s" and c: "sy_clients s c \<noteq> 0"
  shows "system_ok hash (s\<lparr>sy_heap := drop_control c (sy_heap s), sy_clients := (sy_clients s)(c := sy_clients s c - 1)\<rparr>)"
proof -
  have cnt: "strong_count (sy_heap s) d = sy_clients s d + of_bool (\<exists>j < SLOT_SHARDS. d \<in> pooled (ws_shards (sy_slots s) ! j))" for d
    by (rule system_okD(3) [OF ok])
  have "0 < strong_count (drop_control c (sy_heap s)) d" if "j < SLOT_SHARDS" "d \<in> pooled (ws_shards (sy_slots s) ! j)" for d j
  proof -
    have "0 < strong_count (sy_heap s) d" using system_okD(2) [OF ok that(1)] that(2) unfolding shard_ok_def by blast
    moreover have "strong_count (sy_heap s) c = sy_clients s c + 1" if "d = c" using cnt [of c] that \<open>j < _\<close> \<open>d \<in> _\<close> by auto
    ultimately show ?thesis using c by simp
  qed
  then have "shard_ok hash j (drop_control c (sy_heap s)) (ws_shards (sy_slots s) ! j)" if "j < SLOT_SHARDS" for j
    using system_okD(2) [OF ok that] that unfolding shard_ok_def by auto
  moreover have "\<exists>j < SLOT_SHARDS. d \<in> registered (ws_shards (sy_slots s) ! j)" if "0 < strong_count (drop_control c (sy_heap s)) d" for d
    using that system_okD(4) [OF ok, of d] by (cases "d = c") auto
  moreover have "strong_count (drop_control c (sy_heap s)) d = ((sy_clients s)(c := sy_clients s c - 1)) d
      + of_bool (\<exists>j < SLOT_SHARDS. d \<in> pooled (ws_shards (sy_slots s) ! j))" for d
    using cnt [of d] c by (cases "d = c") simp_all
  ultimately show ?thesis using system_okD(1) [OF ok] system_okD(5) [OF ok] 
    by (intro system_okI [where w = "sy_slots s" and h = "drop_control c (sy_heap s)" and cl = "(sy_clients s)(c := sy_clients s c - 1)"]) (simp, simp, simp, blast+)
qed

lemma clone_ok:
  assumes ok: "system_ok hash s" and c: "sy_clients s c \<noteq> 0"
  shows "system_ok hash (s\<lparr>sy_heap := clone_control c (sy_heap s), sy_clients := (sy_clients s)(c := sy_clients s c + 1)\<rparr>)"
proof -
  have live: "strong_count (sy_heap s) c \<noteq> 0" using c system_okD(3) [OF ok, of c] by simp
  then obtain j k where j: "j < SLOT_SHARDS" and k: "hm_get (sl_entries (ws_shards (sy_slots s) ! j)) k = Some c"
    using system_okD(4) [OF ok, of c] by (auto simp: ran_def)
  show ?thesis by (rule system_step [OF ok j clone_step [OF system_okD(2) [OF ok j] k live]]) auto
qed

lemma slot_act_ok:
  assumes ok: "system_ok hash s" and a: "slot_act hash ev s = Some s'"
  shows "system_ok hash s'"
proof (cases ev)
  case (SlotGet key)
  then obtain c where "system_lookup hash key s = (s', c)" using a by (auto simp: prod_eq_iff)
  from system_lookup_step [OF ok this] obtain sh'
    where "shard_step hash (shard_index hash key) (Some c) (ws_shards (sy_slots s) ! shard_index hash key) (sy_heap s) sh' (sy_heap s')"
      "ws_shards (sy_slots s') = (ws_shards (sy_slots s))[shard_index hash key := sh']"
      "\<And>d. sy_clients s' d = sy_clients s d + of_bool (Some c = Some d)" by blast
  then show ?thesis by (rule system_step [OF ok shard_index_less _ _ refl])
next
  case (SlotClone c)
  then show ?thesis using a clone_ok [OF ok] by (auto split: if_splits)
next
  case (SlotDrop c)
  then show ?thesis using a drop_ok [OF ok] by (auto split: if_splits)
next
  case (SlotCleanShard j budget)
  then obtain ws h r where j: "j < SLOT_SHARDS" and e: "clean_shard_at j budget (sy_slots s) (sy_heap s) = (ws, h, r)"
    and s': "s' = s\<lparr>sy_slots := ws, sy_heap := h\<rparr>"
    using a by (auto split: if_splits prod.splits)
  from clean_shard_step [OF ok j e] obtain sh'
    where "shard_step hash j None (ws_shards (sy_slots s) ! j) (sy_heap s) sh' h" "ws_shards ws = (ws_shards (sy_slots s))[j := sh']" by blast
  then show ?thesis by (intro system_step [OF ok j, where gained = None]) (simp_all add: s')
qed

interpretation slots: guarded_machine "slot_act hash" "system_ok hash" for hash
  by unfold_locales (rule slot_act_ok)

lemma new_system_ok: "system_ok hash (new_system plan)"
proof -
  have nth: "ws_shards (plan_slots plan) ! j = \<lparr>sl_entries = [], sl_sweep = [], sl_controls = (case plan of Transient \<Rightarrow> RetainWeak | ReusePlan \<Rightarrow> RetainReuse [])\<rparr>"
    if "j < SLOT_SHARDS" for j
    using that by (cases plan) (simp_all add: WeakSlots_new_def WeakSlots_reusable_def)
  have len: "length (ws_shards (plan_slots plan)) = SLOT_SHARDS" by (cases plan) (simp_all add: WeakSlots_new_def WeakSlots_reusable_def)
  have "shard_ok hash j h (ws_shards (plan_slots plan) ! j)" if "j < SLOT_SHARDS" for j h
    unfolding nth [OF that] by (cases plan) (simp_all add: shard_ok_def)
  moreover have "pooled (ws_shards (plan_slots plan) ! j) = {}" if "j < SLOT_SHARDS" for j unfolding nth [OF that] by (cases plan) simp_all
  moreover have "registered (ws_shards (plan_slots plan) ! j) = {}" if "j < SLOT_SHARDS" for j unfolding nth [OF that] by simp
  ultimately show ?thesis using len by (auto simp: system_ok_def new_system_def)
qed

section \<open>Theorems\<close>

text \<open>The slot of a control stays where it is for as long as anybody owns the control.\<close>

definition slot_kept :: "(string \<Rightarrow> nat) \<Rightarrow> string \<Rightarrow> nat \<Rightarrow> slot_system \<Rightarrow> bool" where
  "slot_kept hash key c s \<longleftrightarrow> c < next_control (sy_heap s) \<and> (slot_of hash s key = Some c \<or> strong_count (sy_heap s) c = 0)"

lemma slot_kept_step:
  assumes ok: "system_ok hash s" and j: "j < SLOT_SHARDS" and k: "slot_kept hash key c s"
    and st: "shard_step hash j gained (ws_shards (sy_slots s) ! j) (sy_heap s) sh' h'"
    and s': "ws_shards (sy_slots s') = (ws_shards (sy_slots s))[j := sh']" "sy_heap s' = h'"
  shows "slot_kept hash key c s'"
proof -
  have "slot_of hash s' key = Some c" if "slot_of hash s key = Some c" "0 < strong_count h' c"
    using that shard_stepD(3) [OF st, of key c] system_okD(1) [OF ok] by (cases "shard_index hash key = j") (auto simp: slot_of_def s' j)
  then show ?thesis using k shard_stepD(5) [OF st, of c] shard_stepD(2) [OF st] unfolding slot_kept_def s' by force
qed

lemma slot_kept_act:
  assumes ok: "system_ok hash s" and a: "slot_act hash ev s = Some s'" and k: "slot_kept hash key c s"
  shows "slot_kept hash key c s'"
proof (cases ev)
  case (SlotGet key')
  then obtain d where "system_lookup hash key' s = (s', d)" using a by (auto simp: prod_eq_iff)
  from system_lookup_step [OF ok this] obtain sh'
    where "shard_step hash (shard_index hash key') (Some d) (ws_shards (sy_slots s) ! shard_index hash key') (sy_heap s) sh' (sy_heap s')"
      "ws_shards (sy_slots s') = (ws_shards (sy_slots s))[shard_index hash key' := sh']" by blast
  then show ?thesis by (rule slot_kept_step [OF ok shard_index_less k _ _ refl])
next
  case (SlotCleanShard j budget)
  then obtain ws h r where j: "j < SLOT_SHARDS" and e: "clean_shard_at j budget (sy_slots s) (sy_heap s) = (ws, h, r)"
    and s': "s' = s\<lparr>sy_slots := ws, sy_heap := h\<rparr>"
    using a by (auto split: if_splits prod.splits)
  from clean_shard_step [OF ok j e] obtain sh'
    where "shard_step hash j None (ws_shards (sy_slots s) ! j) (sy_heap s) sh' h" "ws_shards ws = (ws_shards (sy_slots s))[j := sh']" by blast
  then show ?thesis by (intro slot_kept_step [OF ok j k]) (simp_all add: s')
next
  case (SlotClone d)
  have "sy_clients s d \<noteq> 0 \<Longrightarrow> strong_count (sy_heap s) d \<noteq> 0" using system_okD(3) [OF ok, of d] by simp
  then show ?thesis using a k SlotClone by (auto simp: slot_kept_def slot_of_def split: if_splits)
qed (use a k in \<open>auto simp: slot_kept_def slot_of_def split: if_splits\<close>)

lemma slot_kept_run:
  "system_ok hash s \<Longrightarrow> slot_kept hash key c s \<Longrightarrow> run_guarded (slot_act hash) evs s = Some s' \<Longrightarrow> slot_kept hash key c s'"
  by (rule slots.run_keeps [where P = "slot_kept hash key c"]) (blast intro: slot_kept_act)+

lemma lookup_live:
  assumes ok: "system_ok hash s" and "slot_of hash s key = Some c" "0 < strong_count (sy_heap s) c"
  shows "snd (system_lookup hash key s) = c"
proof -
  obtain s' d where e: "system_lookup hash key s = (s', d)" by fastforce
  from system_lookup_step [OF ok e] obtain sh' where "\<And>d'. slot_of hash s key = Some d' \<Longrightarrow> 0 < strong_count (sy_heap s) d' \<Longrightarrow> d = d'" by blast
  then have "d = c" using assms(2,3) by simp
  then show ?thesis using e by simp
qed

lemma slot_unique:
  assumes ok: "system_ok hash s" and a: "slot_of hash s key = Some c" and b: "slot_of hash s key' = Some c"
  shows "key = key'"
proof -
  have "shard_index hash key = shard_index hash key'"
    using a b by (intro system_okD(5) [OF ok]) (auto simp: slot_of_def intro: ranI)
  then show ?thesis using a b system_okD(2) [OF ok shard_index_less [of hash key]] unfolding slot_of_def shard_ok_def by metis
qed

lemma lookup_owned:
  assumes ok: "system_ok hash s" and e: "system_lookup hash key s = (s', c)"
  shows "system_ok hash s'" "slot_of hash s' key = Some c" "0 < strong_count (sy_heap s') c"
proof -
  show ok': "system_ok hash s'" using slot_act_ok [OF ok, of "SlotGet key"] e by simp
  from system_lookup_step [OF ok e] obtain sh' where "\<And>d. sy_clients s' d = sy_clients s d + of_bool (Some c = Some d)"
    and c: "slot_of hash s' key = Some c" by blast
  then have "sy_clients s' c = sy_clients s c + 1" by simp
  then show "slot_of hash s' key = Some c" "0 < strong_count (sy_heap s') c" using system_okD(3) [OF ok', of c] using c by auto
qed

text \<open>
  C14. Two callers of the same key meet at the same control: once a lookup of the key has returned
  a control, every later lookup of the key returns that very control for as long as anybody owns it
  (a holder, a waiter, a retained clone or the pool), whatever lookups, clones, drops, evictions
  and maintenance passes happen in between; and a live control is never handed out for two
  different keys.
\<close>
theorem one_control_per_key:
  assumes "run_guarded (slot_act hash) before (new_system plan) = Some s"
    and "system_lookup hash key s = (s1, c)"
    and "run_guarded (slot_act hash) later s1 = Some s2"
    and "0 < strong_count (sy_heap s2) c"
  shows "snd (system_lookup hash key s2) = c \<and> (key' \<noteq> key \<longrightarrow> snd (system_lookup hash key' s2) \<noteq> c)"
proof -
  have ok: "system_ok hash s" by (rule slots.run_ok [OF new_system_ok assms(1)])
  note l1 = lookup_owned [OF ok assms(2)]
  have ok2: "system_ok hash s2" by (rule slots.run_ok [OF l1(1) assms(3)])
  have "c < next_control (sy_heap s1)"
    using l1(2) registered_old [OF l1(1) shard_index_less [of hash key], of c] by (auto simp: slot_of_def intro: ranI)
  then have "slot_kept hash key c s1" using l1(2) by (simp add: slot_kept_def)
  then have kept: "slot_kept hash key c s2" by (rule slot_kept_run [OF l1(1) _ assms(3)])
  then have at2: "slot_of hash s2 key = Some c" using assms(4) by (simp add: slot_kept_def)
  have "snd (system_lookup hash key' s2) \<noteq> c" if ne: "key' \<noteq> key"
  proof
    obtain s3 d where e: "system_lookup hash key' s2 = (s3, d)" by fastforce
    assume "snd (system_lookup hash key' s2) = c"
    then have l3: "system_ok hash s3" "slot_of hash s3 key' = Some c" "0 < strong_count (sy_heap s3) c"
      using e lookup_owned [OF ok2 e] by auto
    have "slot_kept hash key c s3" using slot_kept_act [OF ok2, of "SlotGet key'" s3 key c] e kept by simp
    then have "slot_of hash s3 key = Some c" using l3(3) by (simp add: slot_kept_def)
    from slot_unique [OF l3(1) this l3(2)] show False using ne by simp
  qed
  then show ?thesis using lookup_live [OF ok2 at2 assms(4)] by blast
qed


theorem one_control_per_key_witness:
  "snd (system_lookup (\<lambda>_. 3) ''a'' (the (run_guarded (slot_act (\<lambda>_. 3)) [SlotGet ''b'', SlotCleanShard 3 8]
     (fst (system_lookup (\<lambda>_. 3) ''a'' (new_system ReusePlan)))))) = 0"
proof -
  have "(case run_guarded (slot_act (\<lambda>_. 3)) [SlotGet ''b'', SlotCleanShard 3 8] (fst (system_lookup (\<lambda>_. 3) ''a'' (new_system ReusePlan))) of
      None \<Rightarrow> False | Some s2 \<Rightarrow> 0 < strong_count (sy_heap s2) 0) \<and> snd (system_lookup (\<lambda>_. 3) ''a'' (new_system ReusePlan)) = 0"
    by code_simp
  then obtain s2 where s2: "run_guarded (slot_act (\<lambda>_. 3)) [SlotGet ''b'', SlotCleanShard 3 8] (fst (system_lookup (\<lambda>_. 3) ''a'' (new_system ReusePlan))) = Some s2"
    "0 < strong_count (sy_heap s2) 0" "system_lookup (\<lambda>_. 3) ''a'' (new_system ReusePlan) = (fst (system_lookup (\<lambda>_. 3) ''a'' (new_system ReusePlan)), 0)"
    by (auto simp: prod_eq_iff split: option.splits)
  show ?thesis using one_control_per_key [OF _ s2(3,1,2), of "[]"] s2(1) by simp
qed

section \<open>Maintenance\<close>

lemma pool_le_sweep:
  assumes "shard_ok hash j h sh"
  shows "length (pool (sl_controls sh)) \<le> length (sl_sweep sh)"
proof -
  have "card (pooled sh) \<le> card (registered sh)"
    using assms by (intro card_mono) (auto simp: shard_ok_def finite_ran finite_dom_map_of)
  also have "registered sh = (\<lambda>k. the (hm_get (sl_entries sh) k)) ` dom (hm_get (sl_entries sh))"
    by (force simp: ran_def dom_def image_def)
  also have "card \<dots> \<le> card (dom (hm_get (sl_entries sh)))" by (rule card_image_le) (rule finite_dom_map_of)
  also have "dom (hm_get (sl_entries sh)) = set (sl_sweep sh)" using assms by (simp add: shard_ok_def)
  also have "card \<dots> \<le> length (sl_sweep sh)" by (rule card_length)
  finally show ?thesis using assms distinct_card [of "pool (sl_controls sh)"] by (simp add: shard_ok_def)
qed

text \<open>A pass over one shard whose budget reaches its whole queue leaves the controls of clients only.\<close>

lemma clean_shard_complete:
  assumes ok: "system_ok hash s" and j: "j < SLOT_SHARDS" and b: "length (sl_sweep (ws_shards (sy_slots s) ! j)) \<le> budget"
    and e: "clean_shard_at j budget (sy_slots s) (sy_heap s) = (ws, h, r)"
  shows "\<And>c. c \<in> registered (ws_shards ws ! j) \<Longrightarrow> 0 < sy_clients s c"
    "r = budget - length (sl_sweep (ws_shards (sy_slots s) ! j))"
    "i \<noteq> j \<Longrightarrow> ws_shards ws ! i = ws_shards (sy_slots s) ! i" "length (ws_shards ws) = SLOT_SHARDS"
proof -
  let ?sh = "ws_shards (sy_slots s) ! j"
  note okj = system_okD(2) [OF ok j]
  obtain controls where c: "clean_idle budget (sl_controls ?sh) (sy_heap s) = (controls, h)"
    and ws: "ws_shards ws = (ws_shards (sy_slots s))[j := fst (shard_clean budget (?sh\<lparr>sl_controls := controls\<rparr>) h)]"
    and r: "r = budget - snd (shard_clean budget (?sh\<lparr>sl_controls := controls\<rparr>) h)"
    using e by (auto simp: clean_shard_at_def Let_def split: prod.splits)
  note st = clean_idle_step [OF okj c]
  note ok1 = shard_stepD(1) [OF st]
  have cl: "shard_clean budget (?sh\<lparr>sl_controls := controls\<rparr>) h =
     (?sh\<lparr>sl_controls := controls, sl_entries := hm_remove_all (filter (\<lambda>k. strong_count h (the (hm_get (sl_entries ?sh) k)) = 0) (sl_sweep ?sh)) (sl_entries ?sh),
        sl_sweep := filter (\<lambda>k. strong_count h (the (hm_get (sl_entries ?sh) k)) \<noteq> 0) (sl_sweep ?sh)\<rparr>, length (sl_sweep ?sh))"
    using shard_clean_eq [OF ok1, of budget] b by (simp add: Let_def)
  show "r = budget - length (sl_sweep ?sh)" by (simp add: r cl)
  show "i \<noteq> j \<Longrightarrow> ws_shards ws ! i = ws_shards (sy_slots s) ! i" "length (ws_shards ws) = SLOT_SHARDS"
    using system_okD(1) [OF ok] by (simp_all add: ws)
  show "0 < sy_clients s c" if reg: "c \<in> registered (ws_shards ws ! j)" for c
  proof -
    have hok: "hm_ok (sl_entries ?sh)" and sw: "set (sl_sweep ?sh) = dom (hm_get (sl_entries ?sh))" using okj by (simp_all add: shard_ok_def)
    obtain k where "hm_get (hm_remove_all (filter (\<lambda>k. strong_count h (the (hm_get (sl_entries ?sh) k)) = 0) (sl_sweep ?sh)) (sl_entries ?sh)) k = Some c"
      using reg j system_okD(1) [OF ok] by (auto simp: ws cl ran_def)
    then have k: "hm_get (sl_entries ?sh) k = Some c" "strong_count h c \<noteq> 0"
      using sw by (auto simp: hm.get_rem_all [OF hok] domIff split: if_splits)
    have cnt: "strong_count (sy_heap s) c = sy_clients s c + of_bool (c \<in> pooled ?sh)"
    proof -
      have "(\<exists>i < SLOT_SHARDS. c \<in> pooled (ws_shards (sy_slots s) ! i)) \<longleftrightarrow> c \<in> pooled ?sh"
      proof
        assume "\<exists>i < SLOT_SHARDS. c \<in> pooled (ws_shards (sy_slots s) ! i)"
        then obtain i where i: "i < SLOT_SHARDS" "c \<in> pooled (ws_shards (sy_slots s) ! i)" by blast
        then have "c \<in> registered (ws_shards (sy_slots s) ! i)" using system_okD(2) [OF ok i(1)] unfolding shard_ok_def by blast
        then have "i = j" using system_okD(5) [OF ok i(1) j] k(1) by (blast intro: ranI)
        then show "c \<in> pooled ?sh" using i by simp
      qed (use j in blast)
      then show ?thesis using system_okD(3) [OF ok, of c] by simp
    qed
    show ?thesis
    proof (cases "sl_controls ?sh")
      case RetainWeak
      then show ?thesis using cnt c k(2) by simp
    next
      case (RetainReuse recent)
      have d: "distinct recent" "length recent \<le> budget" using okj pool_le_sweep [OF okj] b RetainReuse by (auto simp: shard_ok_def)
      have h: "h = (sy_heap s)\<lparr>strong_count := \<lambda>c. if c \<in> set recent \<and> strong_count (sy_heap s) c \<le> 1
         then strong_count (sy_heap s) c - 1 else strong_count (sy_heap s) c\<rparr>"
        using c RetainReuse idle_pass_eq [OF d(1) order_refl] d(2) by (simp add: Let_def)
      show ?thesis using cnt k(2) RetainReuse by (cases "c \<in> set recent") (auto simp: h split: if_splits)
    qed
  qed
qed

lemma idle_pass_next: "next_control (snd (idle_pass n recent h)) = next_control h"
  by (induction n recent h rule: idle_pass.induct) simp_all

lemma clean_idle_next: "next_control (snd (clean_idle budget controls h)) = next_control h"
  by (cases controls) (simp_all add: Let_def case_prod_unfold idle_pass_next)

lemma clean_kept:
  assumes ok: "system_ok hash s" and j: "j < SLOT_SHARDS" and e: "clean_shard_at j budget (sy_slots s) (sy_heap s) = (ws, h, r)"
  shows "system_ok hash (s\<lparr>sy_slots := ws, sy_heap := h\<rparr>)"
    "slot_of hash s key = Some c \<Longrightarrow> 0 < sy_clients s c \<Longrightarrow> slot_of hash (s\<lparr>sy_slots := ws, sy_heap := h\<rparr>) key = Some c"
    "slot_of hash (s\<lparr>sy_slots := ws, sy_heap := h\<rparr>) key = Some c \<Longrightarrow> slot_of hash s key = Some c"
proof -
  have a: "slot_act hash (SlotCleanShard j budget) s = Some (s\<lparr>sy_slots := ws, sy_heap := h\<rparr>)" using j e by simp
  show ok': "system_ok hash (s\<lparr>sy_slots := ws, sy_heap := h\<rparr>)" by (rule slot_act_ok [OF ok a])
  show "slot_of hash (s\<lparr>sy_slots := ws, sy_heap := h\<rparr>) key = Some c" if c: "slot_of hash s key = Some c" "0 < sy_clients s c"
  proof -
    have "slot_kept hash key c s"
      using c registered_old [OF ok shard_index_less [of hash key], of c] by (auto simp: slot_kept_def slot_of_def intro: ranI)
    then have "slot_kept hash key c (s\<lparr>sy_slots := ws, sy_heap := h\<rparr>)" by (rule slot_kept_act [OF ok a])
    then show ?thesis using system_okD(3) [OF ok', of c] c(2) by (simp add: slot_kept_def)
  qed
  from clean_shard_step [OF ok j e] obtain sh'
    where st: "shard_step hash j None (ws_shards (sy_slots s) ! j) (sy_heap s) sh' h" and ws: "ws_shards ws = (ws_shards (sy_slots s))[j := sh']" by blast
  show "slot_of hash s key = Some c" if c: "slot_of hash (s\<lparr>sy_slots := ws, sy_heap := h\<rparr>) key = Some c"
  proof (cases "shard_index hash key = j")
    case True
    then have k: "hm_get (sl_entries sh') key = Some c" using c j system_okD(1) [OF ok] by (auto simp: slot_of_def ws)
    have "next_control h = next_control (sy_heap s)"
      using e clean_idle_next [of budget "sl_controls (ws_shards (sy_slots s) ! j)" "sy_heap s"] by (auto simp: clean_shard_at_def Let_def split: prod.splits)
    then have "c < next_control (sy_heap s)" using k shard_stepD(1) [OF st] by (auto simp: shard_ok_def ranI)
    then show ?thesis using shard_stepD(4) [OF st k] True by (simp add: slot_of_def)
  next
    case False
    then show ?thesis using c by (simp add: slot_of_def ws)
  qed
qed


lemma system_ok_cong:
  "ws_shards (sy_slots s') = ws_shards (sy_slots s) \<Longrightarrow> sy_heap s' = sy_heap s \<Longrightarrow> sy_clients s' = sy_clients s \<Longrightarrow>
     system_ok hash s' = system_ok hash s"
  by (simp only: system_ok_def)

lemma clean_offsets_complete:
  assumes "system_ok hash s" "distinct (map (\<lambda>i. (start + i) mod SLOT_SHARDS) offs)"
    "(\<Sum>i \<leftarrow> offs. length (sl_sweep (ws_shards (sy_slots s) ! ((start + i) mod SLOT_SHARDS)))) \<le> budget"
    "\<forall>j < SLOT_SHARDS. j \<in> (\<lambda>i. (start + i) mod SLOT_SHARDS) ` set offs \<or> (\<forall>c \<in> registered (ws_shards (sy_slots s) ! j). 0 < sy_clients s c)"
    "clean_offsets (\<lambda>_. False) start offs budget (sy_slots s) (sy_heap s) = (ws, h, r)"
  shows "system_ok hash (s\<lparr>sy_slots := ws, sy_heap := h\<rparr>) \<and> (\<forall>j < SLOT_SHARDS. \<forall>c \<in> registered (ws_shards ws ! j). 0 < sy_clients s c)
    \<and> (\<forall>key c. 0 < sy_clients s c \<longrightarrow> (slot_of hash (s\<lparr>sy_slots := ws, sy_heap := h\<rparr>) key = Some c \<longleftrightarrow> slot_of hash s key = Some c))"
  using assms
proof (induction offs arbitrary: s budget)
  case Nil
  then have "ws = sy_slots s" "h = sy_heap s" by simp_all
  then show ?case using Nil.prems(1,4) by simp
next
  case (Cons i offs)
  let ?j = "(start + i) mod SLOT_SHARDS"
  have j: "?j < SLOT_SHARDS" by simp
  show ?case
  proof (cases "budget = 0")
    case True
    have eq: "ws = sy_slots s" "h = sy_heap s" using Cons.prems(5) True by simp_all
    have "registered (ws_shards (sy_slots s) ! k) = {}" if "k < SLOT_SHARDS" "k \<in> (\<lambda>i. (start + i) mod SLOT_SHARDS) ` set (i # offs)" for k
    proof -
      have "sl_sweep (ws_shards (sy_slots s) ! k) = []" using Cons.prems(3) True that(2) by auto
      then have "dom (hm_get (sl_entries (ws_shards (sy_slots s) ! k))) = {}" using system_okD(2) [OF Cons.prems(1) that(1)] by (simp add: shard_ok_def)
      then show ?thesis by (auto simp: ran_def dom_def)
    qed
    then have "\<forall>j < SLOT_SHARDS. \<forall>c \<in> registered (ws_shards (sy_slots s) ! j). 0 < sy_clients s c" using Cons.prems(4) by (metis emptyE)
    moreover have "s\<lparr>sy_slots := sy_slots s, sy_heap := sy_heap s\<rparr> = s" by simp
    ultimately show ?thesis using Cons.prems(1) unfolding eq by metis
  next
    case False
    obtain ws1 h1 r1 where e1: "clean_shard_at ?j budget (sy_slots s) (sy_heap s) = (ws1, h1, r1)" by (metis prod_cases3)
    define s1 where "s1 = s\<lparr>sy_slots := ws1, sy_heap := h1\<rparr>"
    have le: "length (sl_sweep (ws_shards (sy_slots s) ! ?j)) \<le> budget" using Cons.prems(3) by simp
    note cc = clean_shard_complete [OF Cons.prems(1) j le e1]
    note ck = clean_kept [OF Cons.prems(1) j e1, folded s1_def]
    have other: "ws_shards ws1 ! ((start + k) mod SLOT_SHARDS) = ws_shards (sy_slots s) ! ((start + k) mod SLOT_SHARDS)" if "k \<in> set offs" for k
      using cc(3) Cons.prems(2) that by (metis (no_types, lifting) distinct.simps(2) image_eqI list.set_map list.simps(9))
    have "(\<Sum>k \<leftarrow> offs. length (sl_sweep (ws_shards (sy_slots s1) ! ((start + k) mod SLOT_SHARDS)))) =
        (\<Sum>k \<leftarrow> offs. length (sl_sweep (ws_shards (sy_slots s) ! ((start + k) mod SLOT_SHARDS))))"
      by (rule arg_cong [of _ _ sum_list], rule map_cong) (simp_all add: s1_def other)
    then have "(\<Sum>k \<leftarrow> offs. length (sl_sweep (ws_shards (sy_slots s1) ! ((start + k) mod SLOT_SHARDS)))) \<le> r1"
      using Cons.prems(3) cc(2) by simp
    moreover have "k \<in> (\<lambda>i. (start + i) mod SLOT_SHARDS) ` set offs \<or> (\<forall>c \<in> registered (ws_shards (sy_slots s1) ! k). 0 < sy_clients s1 c)" if "k < SLOT_SHARDS" for k
      using Cons.prems(4) that cc(1,3) [of _ ] by (cases "k = ?j") (auto simp: s1_def)
    moreover have "clean_offsets (\<lambda>_. False) start offs r1 (sy_slots s1) (sy_heap s1) = (ws, h, r)"
      using Cons.prems(5) False e1 by (simp add: s1_def Let_def)
    ultimately have IH: "system_ok hash (s1\<lparr>sy_slots := ws, sy_heap := h\<rparr>) \<and> (\<forall>j < SLOT_SHARDS. \<forall>c \<in> registered (ws_shards ws ! j). 0 < sy_clients s1 c)
      \<and> (\<forall>key c. 0 < sy_clients s1 c \<longrightarrow> (slot_of hash (s1\<lparr>sy_slots := ws, sy_heap := h\<rparr>) key = Some c \<longleftrightarrow> slot_of hash s1 key = Some c))"
      using Cons.prems(2) by (intro Cons.IH [OF ck(1)]) auto
    have s1s: "s1\<lparr>sy_slots := ws, sy_heap := h\<rparr> = s\<lparr>sy_slots := ws, sy_heap := h\<rparr>" "sy_clients s1 = sy_clients s" by (simp_all add: s1_def)
    have "slot_of hash s1 key = Some c \<longleftrightarrow> slot_of hash s key = Some c" if "0 < sy_clients s c" for key c
      using ck(2,3) that by blast
    then show ?thesis using IH unfolding s1s by blast
  qed
qed


lemma mod_rotation_inj:
  assumes "i < n" "j < n" "(s + i) mod n = (s + j) mod (n :: nat)"
  shows "i = j"
proof -
  have *: "i = j" if "i \<le> j" "i < n" "j < n" "(s + i) mod n = (s + j) mod n" for i j
  proof -
    have "n dvd (s + j) - (s + i)" using that by (metis mod_eq_dvd_iff_nat add_left_mono)
    then show ?thesis using that by (auto dest: dvd_imp_le)
  qed
  show ?thesis using * [of i j] * [of j i] assms by (cases "i \<le> j") auto
qed

text \<open>
  A complete maintenance pass is exact: when no shard is busy and the budget is at least the
  number of slots, the pass keeps precisely the slots whose control some client outside the table
  owns, at the same identity, and frees every other control, including the idle ones the pools
  retained.
\<close>
theorem maintenance_reclaims_idle:
  assumes "run_guarded (slot_act hash) evs (new_system plan) = Some s"
    and "(\<Sum>j \<leftarrow> [0..<SLOT_SHARDS]. length (sl_entries (ws_shards (sy_slots s) ! j))) \<le> budget"
    and "slots_clean (\<lambda>_. False) budget (sy_slots s) (sy_heap s) = (ws, h, r)"
  shows "slot_of hash (s\<lparr>sy_slots := ws, sy_heap := h\<rparr>) key =
      (case slot_of hash s key of Some c \<Rightarrow> if 0 < sy_clients s c then Some c else None | None \<Rightarrow> None)
    \<and> (0 < strong_count h c \<longleftrightarrow> 0 < sy_clients s c)"
proof -
  have ok: "system_ok hash s" by (rule slots.run_ok [OF new_system_ok assms(1)])
  define s0 where "s0 = s\<lparr>sy_slots := (sy_slots s)\<lparr>ws_maintenance := (ws_maintenance (sy_slots s) + 1) mod 2 ^ 64\<rparr>\<rparr>"
  have sh0: "ws_shards (sy_slots s0) = ws_shards (sy_slots s)" by (simp add: s0_def)
  define start where "start = ws_maintenance (sy_slots s) mod SLOT_SHARDS"
  have ok0: "system_ok hash s0" using ok system_ok_cong [of s0 s hash] by (simp add: s0_def)
  have len: "length (sl_sweep (ws_shards (sy_slots s) ! j)) = length (sl_entries (ws_shards (sy_slots s) ! j))" if "j < SLOT_SHARDS" for j
  proof -
    have "distinct (sl_sweep (ws_shards (sy_slots s) ! j))" "distinct (map fst (sl_entries (ws_shards (sy_slots s) ! j)))"
      "set (sl_sweep (ws_shards (sy_slots s) ! j)) = set (map fst (sl_entries (ws_shards (sy_slots s) ! j)))"
      using system_okD(2) [OF ok that] by (auto simp: shard_ok_def hm_ok_def dom_map_of_conv_image_fst)
    then show ?thesis by (metis distinct_card length_map)
  qed
  have dist: "distinct (map (\<lambda>i. (start + i) mod SLOT_SHARDS) [0..<SLOT_SHARDS])"
    unfolding distinct_map inj_on_def by (auto dest: mod_rotation_inj [rotated 2])
  have all: "set (map (\<lambda>i. (start + i) mod SLOT_SHARDS) [0..<SLOT_SHARDS]) = {0..<SLOT_SHARDS}"
  proof (rule card_subset_eq)
    show "card (set (map (\<lambda>i. (start + i) mod SLOT_SHARDS) [0..<SLOT_SHARDS])) = card {0..<SLOT_SHARDS}"
      using distinct_card [OF dist] by simp
  qed auto
  have "(\<Sum>i \<leftarrow> [0..<SLOT_SHARDS]. length (sl_sweep (ws_shards (sy_slots s) ! ((start + i) mod SLOT_SHARDS))))
      = sum (\<lambda>j. length (sl_sweep (ws_shards (sy_slots s) ! j))) {0..<SLOT_SHARDS}"
    unfolding all [symmetric] using sum_list_distinct_conv_sum_set [OF dist, of "\<lambda>j. length (sl_sweep (ws_shards (sy_slots s) ! j))"]
    by (simp add: comp_def)
  also have "\<dots> = sum (\<lambda>j. length (sl_entries (ws_shards (sy_slots s) ! j))) {0..<SLOT_SHARDS}" by (rule sum.cong) (simp_all add: len)
  also have "\<dots> = (\<Sum>j \<leftarrow> [0..<SLOT_SHARDS]. length (sl_entries (ws_shards (sy_slots s) ! j)))"
    by (simp only: sum_list_distinct_conv_sum_set [OF distinct_upt] set_upt)
  finally have le: "(\<Sum>i \<leftarrow> [0..<SLOT_SHARDS]. length (sl_sweep (ws_shards (sy_slots s0) ! ((start + i) mod SLOT_SHARDS)))) \<le> budget"
    using assms(2) unfolding sh0 by (simp only:)
  have cover: "j \<in> (\<lambda>i. (start + i) mod SLOT_SHARDS) ` set [0..<SLOT_SHARDS]" if "j < SLOT_SHARDS" for j
    using all that by (simp only: set_map) (simp only: atLeastLessThan_iff le0 simp_thms)
  have e: "clean_offsets (\<lambda>_. False) start [0..<SLOT_SHARDS] budget (sy_slots s0) (sy_heap s0) = (ws, h, r)"
    using assms(3) by (simp add: slots_clean_def s0_def start_def del: upt_rec_numeral)
  have same: "s0\<lparr>sy_slots := ws, sy_heap := h\<rparr> = s\<lparr>sy_slots := ws, sy_heap := h\<rparr>" "sy_clients s0 = sy_clients s"
    "slot_of hash s0 k = slot_of hash s k" for k by (simp_all add: s0_def slot_of_def)
  have cleaned: "system_ok hash (s\<lparr>sy_slots := ws, sy_heap := h\<rparr>)" "\<forall>j < SLOT_SHARDS. \<forall>c \<in> registered (ws_shards ws ! j). 0 < sy_clients s c"
    "\<And>key c. 0 < sy_clients s c \<Longrightarrow> slot_of hash (s\<lparr>sy_slots := ws, sy_heap := h\<rparr>) key = Some c \<longleftrightarrow> slot_of hash s key = Some c"
    using clean_offsets_complete [OF ok0 dist le _ e] cover unfolding same by blast+
  have owned: "0 < sy_clients s c" if "slot_of hash (s\<lparr>sy_slots := ws, sy_heap := h\<rparr>) key = Some c" for key c
  proof -
    have "c \<in> registered (ws_shards ws ! shard_index hash key)" using that by (auto simp: slot_of_def intro: ranI)
    then show ?thesis using cleaned(2) shard_index_less by blast
  qed
  have "slot_of hash (s\<lparr>sy_slots := ws, sy_heap := h\<rparr>) key =
      (case slot_of hash s key of Some c \<Rightarrow> if 0 < sy_clients s c then Some c else None | None \<Rightarrow> None)"
  proof (cases "slot_of hash (s\<lparr>sy_slots := ws, sy_heap := h\<rparr>) key")
    case None
    then have "\<not> 0 < sy_clients s d" if "slot_of hash s key = Some d" for d using cleaned(3) [of d key] that by auto
    then show ?thesis using None by (auto split: option.splits)
  next
    case (Some c)
    then show ?thesis using cleaned(3) [OF owned [OF Some]] owned [OF Some] by auto
  qed
  moreover have "0 < strong_count h c \<longleftrightarrow> 0 < sy_clients s c"
  proof
    assume "0 < strong_count h c"
    then obtain j where "j < SLOT_SHARDS" "c \<in> registered (ws_shards ws ! j)" using system_okD(4) [OF cleaned(1), of c] by auto
    then show "0 < sy_clients s c" using cleaned(2) by blast
  qed (use system_okD(3) [OF cleaned(1), of c] in simp)
  ultimately show ?thesis ..
qed


theorem maintenance_reclaims_idle_witness:
  "slot_of (\<lambda>_. 3) (let s = fst (system_lookup (\<lambda>_. 3) ''a'' (new_system ReusePlan)); (ws, h, r) = slots_clean (\<lambda>_. False) 1 (sy_slots s) (sy_heap s)
     in s\<lparr>sy_slots := ws, sy_heap := h\<rparr>) ''a'' = Some 0"
proof -
  define s where "s = fst (system_lookup (\<lambda>_. 3) ''a'' (new_system ReusePlan))"
  have run: "run_guarded (slot_act (\<lambda>_. 3)) [SlotGet ''a''] (new_system ReusePlan) = Some s" by (simp add: s_def)
  have sum: "(\<Sum>j \<leftarrow> [0..<SLOT_SHARDS]. length (sl_entries (ws_shards (sy_slots s) ! j))) \<le> 1" unfolding s_def by code_simp
  obtain ws h r where e: "slots_clean (\<lambda>_. False) 1 (sy_slots s) (sy_heap s) = (ws, h, r)" by (metis prod_cases3)
  have "slot_of (\<lambda>_. 3) s ''a'' = Some 0" "0 < sy_clients s 0" unfolding s_def by code_simp+
  then show ?thesis using maintenance_reclaims_idle [OF run sum e, of "''a''" 0] e by (simp add: s_def [symmetric])
qed

lemma sweep_pass_size:
  "hm_ok entries \<Longrightarrow> length (snd (sweep_pass n sweep entries h)) \<le> length entries \<and> length entries \<le> length (snd (sweep_pass n sweep entries h)) + n"
proof (induction n sweep entries h rule: sweep_pass.induct)
  case (1 n key sweep entries h)
  show ?case
  proof (cases "hm_get entries key")
    case None
    then show ?thesis using 1(1) [OF None 1(4)] by simp
  next
    case (Some slot)
    show ?thesis
    proof (cases "strong_count h slot = 0")
      case True
      then show ?thesis using 1(2) [OF Some True hm_ok_remove [OF 1(4)]] length_hm_remove [OF 1(4), of key] Some by auto
    next
      case False
      then show ?thesis using 1(3) [OF Some False 1(4)] Some by simp
    qed
  qed
qed simp_all

lemma shard_create_size:
  "length (sl_entries (fst (shard_create key sh h))) \<le> length (sl_entries sh) + 1 \<and> length (sl_entries sh) \<le> length (sl_entries (fst (shard_create key sh h)))"
  by (simp add: shard_create_def Let_def case_prod_unfold length_hm_insert)

lemma shard_lookup_size:
  assumes "hm_ok (sl_entries sh)"
  shows "length (sl_entries (fst (shard_lookup key sh h))) \<le> length (sl_entries sh) + 1
    \<and> length (sl_entries sh) \<le> length (sl_entries (fst (shard_lookup key sh h))) + 4"
proof -
  define n where "n = min 4 (length (sl_sweep sh))"
  have "length (sl_entries (fst (shard_clean 4 sh h))) \<le> length (sl_entries sh) \<and> length (sl_entries sh) \<le> length (sl_entries (fst (shard_clean 4 sh h))) + 4"
    using sweep_pass_size [OF assms, of n "sl_sweep sh" h] unfolding n_def
    by (simp add: shard_clean_def Let_def case_prod_unfold) linarith
  then show ?thesis using shard_create_size [of key "fst (shard_clean 4 sh h)" h]
    by (auto simp: shard_lookup_def split: option.splits)
qed

text \<open>
  The table stays bounded by what is in use: in every reachable state the sweep queue of a
  shard lists each of its slots exactly once, a pool retains at most sixteen distinct controls, all
  of them registered in its shard, and the strong count of a control is the number of its clients
  plus one for a pool slot; and a lookup adds at most one slot, after having examined at most four.
\<close>
theorem slots_bounded:
  assumes run: "run_guarded (slot_act hash) evs (new_system plan) = Some s" and j: "j < SLOT_SHARDS"
  shows "mset (sl_sweep (ws_shards (sy_slots s) ! j)) = mset (map fst (sl_entries (ws_shards (sy_slots s) ! j)))
    \<and> distinct (pool (sl_controls (ws_shards (sy_slots s) ! j)))
    \<and> length (pool (sl_controls (ws_shards (sy_slots s) ! j))) \<le> min RETAINED_CONTROLS_PER_SHARD (length (sl_entries (ws_shards (sy_slots s) ! j)))
    \<and> strong_count (sy_heap s) c = sy_clients s c + of_bool (\<exists>i < SLOT_SHARDS. c \<in> pooled (ws_shards (sy_slots s) ! i))
    \<and> length (sl_entries (ws_shards (sy_slots (fst (system_lookup hash key s))) ! j)) \<le> length (sl_entries (ws_shards (sy_slots s) ! j)) + 1
    \<and> length (sl_entries (ws_shards (sy_slots s) ! j)) \<le> length (sl_entries (ws_shards (sy_slots (fst (system_lookup hash key s))) ! j)) + 4"
proof -
  have ok: "system_ok hash s" by (rule slots.run_ok [OF new_system_ok run])
  let ?sh = "ws_shards (sy_slots s) ! j"
  have okj: "shard_ok hash j (sy_heap s) ?sh" by (rule system_okD(2) [OF ok j])
  then have d: "distinct (sl_sweep ?sh)" "distinct (map fst (sl_entries ?sh))" "set (sl_sweep ?sh) = set (map fst (sl_entries ?sh))"
    by (auto simp: shard_ok_def hm_ok_def dom_map_of_conv_image_fst)
  then have ms: "mset (sl_sweep ?sh) = mset (map fst (sl_entries ?sh))" by (metis set_eq_iff_mset_eq_distinct)
  then have len: "length (sl_sweep ?sh) = length (sl_entries ?sh)" by (metis length_map mset_eq_length)
  have look: "ws_shards (sy_slots (fst (system_lookup hash key s))) ! j = (if shard_index hash key = j then fst (shard_lookup key ?sh (sy_heap s)) else ?sh)"
    using j system_okD(1) [OF ok] by (auto simp: system_lookup_def slots_lookup_def Let_def case_prod_unfold)
  have "hm_ok (sl_entries ?sh)" using okj by (simp add: shard_ok_def)
  from shard_lookup_size [OF this] show ?thesis
    using ms okj pool_le_sweep [OF okj] len system_okD(3) [OF ok, of c] unfolding look by (simp add: shard_ok_def)
qed


theorem slots_bounded_witness:
  "length (pool (sl_controls (ws_shards (sy_slots (the (run_guarded (slot_act (\<lambda>_. 3)) [SlotGet ''a'', SlotGet ''b''] (new_system ReusePlan)))) ! 3))) \<le> 16"
proof -
  have "run_guarded (slot_act (\<lambda>_. 3)) [SlotGet ''a'', SlotGet ''b''] (new_system ReusePlan) \<noteq> None" by simp
  then show ?thesis using slots_bounded [of "\<lambda>_. 3" "[SlotGet ''a'', SlotGet ''b'']" ReusePlan _ 3] by auto
qed

end
