(* ===== verification/Amalgam_Flights.thy ===== *)
theory Amalgam_Flights
  imports Amalgam_Distributed
begin

text \<open>
  \<open>single_flight.rs\<close>: the table of active computations behind stampede protection. Callers of one
  identity share a flight; the leader's work is polled by whoever finds it runnable; completion,
  cancellation and the drop of subscriptions are several critical sections each, and every
  critical section (the shard lock of the table, the cell lock of a flight, one atomic access of
  its request or its runnable flag) is one step here. A step relation interleaves the callers,
  the pollers, the cancellers and the wake-ups freely. The user's future is opaque: an event says
  what a poll of it returned. Identities are a type parameter with equality; sharding only
  distributes identities over locks and does not appear.

  The theorems: at most one flight per identity runs uncancelled, and a caller that arrives while
  one runs joins it; a subscription that joined an unfinished flight is never refused its
  completion, and the published outcome does not change under it.
\<close>

section \<open>Flights, subscriptions and the steps in progress\<close>

datatype ('v, 'p) terminal =
    T_Owned "cache_error + 'v" | T_Shared "cache_error + 'v" | T_Panicked "'p option" | T_Cancelled factory_cancellation_reason

datatype ('v, 'p) flight_state =
    F_Starting | F_Pending | F_Polling | F_Completed "('v, 'p) terminal" | F_Finished

datatype ('v, 'p) completion =
    C_Owned "cache_error + 'v" | C_Shared "cache_error + 'v" | C_Panicked 'p | C_FollowerPanicked

record ('k, 'v, 'p) flight =
  fl_key :: 'k
  fl_subscribers :: nat
  fl_state :: "('v, 'p) flight_state"
  fl_runnable :: bool
  fl_reason :: "factory_cancellation_reason option"
  fl_panicked :: bool
  fl_wakers :: "nat list"

text \<open>
  Where the owner of a subscription stands: between polls; after registering its waker; after
  arming the flight; while its call of \<open>poll_work\<close> is in progress; before \<open>try_complete\<close>; after its
  completion was consumed; dropped; or in the panic of \<open>try_complete\<close> on a finished flight.
\<close>

datatype sub_pc = S_Idle | S_Registered | S_Armed | S_Polling | S_Check | S_Consumed | S_Dropped | S_Panic

record subscription =
  su_flight :: nat
  su_leader :: bool
  su_polled :: bool
  su_pc :: sub_pc
  su_woken :: bool

text \<open>
  A call in progress between two of its critical sections. The last argument of the poll stages is
  the subscription on whose behalf \<open>poll_work\<close> runs, if any (a driver has none).
\<close>

datatype ('v, 'p) flight_task =
    TaskPolling nat "nat option"
  | TaskYield nat "nat option"
  | TaskRecheck nat "nat option"
  | TaskRetire nat "('v, 'p) terminal" "nat option"
  | TaskReason nat "('v, 'p) terminal" "nat option"
  | TaskPublish nat "('v, 'p) terminal" "nat option"
  | TaskEnd nat "nat option"
  | TaskCancel nat factory_cancellation_reason "nat option"
  | TaskCancelCell nat factory_cancellation_reason "nat option"
  | TaskCancelTable nat "nat option"
  | TaskAbandon nat
  | TaskAbandoned nat
  | TaskRunnable nat
  | TaskNotify nat "nat option"
  | TaskWake "nat list" "nat option"
  | TaskDone

record ('k, 'v, 'p) flights =
  fs_table :: "('k, nat) hmap"
  fs_flights :: "('k, 'v, 'p) flight list"
  fs_subs :: "subscription list"
  fs_tasks :: "('v, 'p) flight_task list"

definition Flights_new :: "('k, 'v, 'p) flights" where
  "Flights_new = \<lparr>fs_table = [], fs_flights = [], fs_subs = [], fs_tasks = []\<rparr>"

definition upd_flight :: "nat \<Rightarrow> (('k, 'v, 'p) flight \<Rightarrow> ('k, 'v, 'p) flight) \<Rightarrow> ('k, 'v, 'p) flights \<Rightarrow> ('k, 'v, 'p) flights" where
  "upd_flight f u s = s\<lparr>fs_flights := (fs_flights s)[f := u (fs_flights s ! f)]\<rparr>"

definition upd_sub :: "nat \<Rightarrow> (subscription \<Rightarrow> subscription) \<Rightarrow> ('k, 'v, 'p) flights \<Rightarrow> ('k, 'v, 'p) flights" where
  "upd_sub i u s = s\<lparr>fs_subs := (fs_subs s)[i := u (fs_subs s ! i)]\<rparr>"

definition set_task :: "nat \<Rightarrow> ('v, 'p) flight_task \<Rightarrow> ('k, 'v, 'p) flights \<Rightarrow> ('k, 'v, 'p) flights" where
  "set_task k t s = s\<lparr>fs_tasks := (fs_tasks s)[k := t]\<rparr>"

definition add_task :: "('v, 'p) flight_task \<Rightarrow> ('k, 'v, 'p) flights \<Rightarrow> ('k, 'v, 'p) flights" where
  "add_task t s = s\<lparr>fs_tasks := fs_tasks s @ [t]\<rparr>"

abbreviation state_of :: "('k, 'v, 'p) flights \<Rightarrow> nat \<Rightarrow> ('v, 'p) flight_state" where
  "state_of s f \<equiv> fl_state (fs_flights s ! f)"

section \<open>Operations\<close>

definition new_flight :: "'k \<Rightarrow> ('k, 'v, 'p) flight" where
  "new_flight key = \<lparr>fl_key = key, fl_subscribers = 1, fl_state = F_Starting, fl_runnable = True, fl_reason = None,
     fl_panicked = False, fl_wakers = []\<rparr>"

definition flights_active :: "'k \<Rightarrow> ('k, 'v, 'p) flights \<Rightarrow> nat option" where
  "flights_active key s = hm_get (fs_table s) key"

definition new_subscription :: "nat \<Rightarrow> bool \<Rightarrow> subscription" where
  "new_subscription f leader = \<lparr>su_flight = f, su_leader = leader, su_polled = False, su_pc = S_Idle, su_woken = True\<rparr>"

definition flights_acquire :: "'k \<Rightarrow> ('k, 'v, 'p) flights \<Rightarrow> ('k, 'v, 'p) flights" where
  "flights_acquire key s =
     (case hm_get (fs_table s) key of
        Some f \<Rightarrow> (upd_flight f (\<lambda>fl. fl\<lparr>fl_subscribers := fl_subscribers fl + 1\<rparr>) s)
                     \<lparr>fs_subs := fs_subs s @ [new_subscription f False]\<rparr>
      | None \<Rightarrow> s\<lparr>fs_table := hm_insert key (length (fs_flights s)) (fs_table s),
                   fs_flights := fs_flights s @ [new_flight key],
                   fs_subs := fs_subs s @ [new_subscription (length (fs_flights s)) True]\<rparr>)"

definition flight_install :: "nat \<Rightarrow> ('k, 'v, 'p) flights \<Rightarrow> ('k, 'v, 'p) flights" where
  "flight_install f s = (if state_of s f = F_Starting then upd_flight f (\<lambda>fl. fl\<lparr>fl_state := F_Pending\<rparr>) s else s)"

text \<open>The first critical section of \<open>poll_work\<close>: whether this call is the one that polls.\<close>

definition poll_begins :: "nat \<Rightarrow> ('k, 'v, 'p) flights \<Rightarrow> bool" where
  "poll_begins f s \<longleftrightarrow> state_of s f = F_Pending \<and> fl_runnable (fs_flights s ! f)"

definition poll_begin :: "nat \<Rightarrow> nat option \<Rightarrow> ('k, 'v, 'p) flights \<Rightarrow> ('k, 'v, 'p) flights" where
  "poll_begin f owner s = add_task (TaskPolling f owner) (upd_flight f (\<lambda>fl. fl\<lparr>fl_state := F_Polling, fl_runnable := False\<rparr>) s)"

text \<open>
  \<open>runnable.swap(false)\<close> is evaluated only for a pending flight; a call that does not poll goes on to
  \<open>try_complete\<close>.
\<close>

definition sub_poll_work :: "nat \<Rightarrow> ('k, 'v, 'p) flights \<Rightarrow> ('k, 'v, 'p) flights" where
  "sub_poll_work i s = (let f = su_flight (fs_subs s ! i) in
     if poll_begins f s then upd_sub i (\<lambda>su. su\<lparr>su_pc := S_Polling\<rparr>) (poll_begin f (Some i) s)
     else upd_sub i (\<lambda>su. su\<lparr>su_pc := S_Check\<rparr>) s)"

definition driver_poll_work :: "nat \<Rightarrow> ('k, 'v, 'p) flights \<Rightarrow> ('k, 'v, 'p) flights" where
  "driver_poll_work f s = (if poll_begins f s then poll_begin f None s else s)"

definition request_cancel :: "factory_cancellation_reason \<Rightarrow> ('k, 'v, 'p) flight \<Rightarrow> ('k, 'v, 'p) flight" where
  "request_cancel r fl = (case fl_reason fl of None \<Rightarrow> fl\<lparr>fl_reason := Some r\<rparr> | Some _ \<Rightarrow> fl)"

definition retire_entry :: "nat \<Rightarrow> ('k, 'v, 'p) flights \<Rightarrow> ('k, 'v, 'p) flights" where
  "retire_entry f s = (let key = fl_key (fs_flights s ! f) in
     if hm_get (fs_table s) key = Some f then s\<lparr>fs_table := hm_remove key (fs_table s)\<rparr> else s)"

definition resolve_terminal ::
  "factory_cancellation_reason option \<Rightarrow> ('v, 'p) terminal \<Rightarrow> ('v, 'p) terminal" where
  "resolve_terminal reason t =
     (case reason of
        None \<Rightarrow> t
      | Some r \<Rightarrow> if r = LeaseLostReason \<and> t = T_Owned (Inl (ErrLease LeaseLost)) then t else T_Cancelled r)"

definition publish :: "('v, 'p) terminal \<Rightarrow> ('k, 'v, 'p) flight \<Rightarrow> ('k, 'v, 'p) flight" where
  "publish t fl =
     (let t' = (case t of T_Owned r \<Rightarrow> if 1 < fl_subscribers fl then T_Shared r else t | _ \<Rightarrow> t)
      in if fl_subscribers fl = 0 then fl\<lparr>fl_state := F_Finished\<rparr> else fl\<lparr>fl_state := F_Completed t'\<rparr>)"

definition cancel_cell :: "factory_cancellation_reason \<Rightarrow> ('k, 'v, 'p) flight \<Rightarrow> ('k, 'v, 'p) flight" where
  "cancel_cell r fl = (if fl_state fl = F_Starting \<or> fl_state fl = F_Pending then fl\<lparr>fl_state := F_Completed (T_Cancelled r)\<rparr> else fl)"

definition abandons :: "('k, 'v, 'p) flight \<Rightarrow> bool" where
  "abandons fl \<longleftrightarrow> fl_subscribers fl = 0 \<and> fl_state fl = F_Starting"

definition abandon_start :: "nat \<Rightarrow> ('k, 'v, 'p) flights \<Rightarrow> ('k, 'v, 'p) flights" where
  "abandon_start f s = (upd_flight f (\<lambda>fl. fl\<lparr>fl_state := F_Finished\<rparr>) s)\<lparr>fs_table := hm_remove (fl_key (fs_flights s ! f)) (fs_table s)\<rparr>"

definition is_finished :: "('k, 'v, 'p) flight \<Rightarrow> bool" where
  "is_finished fl \<longleftrightarrow> (case fl_state fl of F_Completed _ \<Rightarrow> True | F_Finished \<Rightarrow> True | _ \<Rightarrow> False)"

text \<open>\<open>try_complete\<close> under the cell lock: the new state of the flight, and the completion if there is one.\<close>

definition completion_for :: "bool \<Rightarrow> ('v, 'p) terminal \<Rightarrow> ('v, 'p) completion" where
  "completion_for leader t =
     (case t of
        T_Owned r \<Rightarrow> C_Owned r
      | T_Shared r \<Rightarrow> C_Shared r
      | T_Panicked p \<Rightarrow> (if leader then (case p of Some x \<Rightarrow> C_Panicked x | None \<Rightarrow> C_FollowerPanicked) else C_FollowerPanicked)
      | T_Cancelled r \<Rightarrow> C_Owned (Inl (ErrOperationCancelled r)))"

definition after_completion :: "bool \<Rightarrow> ('v, 'p) terminal \<Rightarrow> ('v, 'p) flight_state" where
  "after_completion leader t =
     (case t of
        T_Owned r \<Rightarrow> F_Finished
      | T_Panicked p \<Rightarrow> F_Completed (T_Panicked (if leader then None else p))
      | _ \<Rightarrow> F_Completed t)"

definition try_complete :: "nat \<Rightarrow> ('k, 'v, 'p) flights \<Rightarrow> ('k, 'v, 'p) flights \<times> ('v, 'p) completion option" where
  "try_complete i s = (let f = su_flight (fs_subs s ! i); leader = su_leader (fs_subs s ! i) in
     case state_of s f of
       F_Completed t \<Rightarrow> (upd_sub i (\<lambda>su. su\<lparr>su_pc := S_Consumed\<rparr>) (upd_flight f (\<lambda>fl. fl\<lparr>fl_state := after_completion leader t\<rparr>) s),
                         Some (completion_for leader t))
     | F_Finished \<Rightarrow> (upd_sub i (\<lambda>su. su\<lparr>su_pc := S_Panic\<rparr>) s, None)
     | _ \<Rightarrow> (upd_sub i (\<lambda>su. su\<lparr>su_pc := S_Idle\<rparr>) s, None))"

definition has_completion :: "('k, 'v, 'p) flight \<Rightarrow> bool" where
  "has_completion fl \<longleftrightarrow> (case fl_state fl of F_Completed _ \<Rightarrow> True | _ \<Rightarrow> False)"

definition subscription_drop :: "nat \<Rightarrow> ('k, 'v, 'p) flights \<Rightarrow> ('k, 'v, 'p) flights" where
  "subscription_drop i s =
     (let f = su_flight (fs_subs s ! i); fl = fs_flights s ! f; n = fl_subscribers fl - 1;
          abandoned = (n = 0 \<and> fl_state fl = F_Starting);
          st = (if n = 0 \<and> has_completion fl then F_Finished else fl_state fl)
      in add_task (if abandoned then TaskAbandon f else TaskRunnable f)
           (upd_sub i (\<lambda>su. su\<lparr>su_pc := S_Dropped\<rparr>) (upd_flight f (\<lambda>fl. fl\<lparr>fl_subscribers := n, fl_state := st\<rparr>) s)))"

definition sub_register :: "nat \<Rightarrow> ('k, 'v, 'p) flights \<Rightarrow> ('k, 'v, 'p) flights" where
  "sub_register i s = upd_sub i (\<lambda>su. su\<lparr>su_pc := S_Registered, su_woken := False\<rparr>)
     (upd_flight (su_flight (fs_subs s ! i)) (\<lambda>fl. fl\<lparr>fl_wakers := (if i \<in> set (fl_wakers fl) then fl_wakers fl else fl_wakers fl @ [i])\<rparr>) s)"

definition sub_arm :: "nat \<Rightarrow> ('k, 'v, 'p) flights \<Rightarrow> ('k, 'v, 'p) flights" where
  "sub_arm i s = upd_sub i (\<lambda>su. su\<lparr>su_pc := S_Armed, su_polled := True\<rparr>)
     (if su_polled (fs_subs s ! i) then s else upd_flight (su_flight (fs_subs s ! i)) (\<lambda>fl. fl\<lparr>fl_runnable := True\<rparr>) s)"

section \<open>Steps\<close>

datatype ('v, 'p) poll_outcome = PollReady "cache_error + 'v" | PollPanic "'p option" | PollPending

datatype ('k, 'v, 'p) flight_event =
    EvAcquire 'k
  | EvInstall nat
  | EvRegister nat
  | EvArm nat
  | EvPollWork nat
  | EvDriverArm nat
  | EvDriver nat
  | EvReturned nat "('v, 'p) poll_outcome"
  | EvTask nat
  | EvCheck nat
  | EvDrop nat
  | EvCancel nat factory_cancellation_reason
  | EvRequest nat factory_cancellation_reason
  | EvWake nat

definition owner_done :: "nat option \<Rightarrow> ('k, 'v, 'p) flights \<Rightarrow> ('k, 'v, 'p) flights" where
  "owner_done owner s = (case owner of None \<Rightarrow> s | Some i \<Rightarrow> upd_sub i (\<lambda>su. su\<lparr>su_pc := S_Check\<rparr>) s)"

text \<open>
  What follows the return of the user's poll: a result, a panic (with the payload the identity
  keeps), or a suspended future, whose cancellation is looked at before it is put back.
\<close>

definition poll_returned :: "nat \<Rightarrow> nat option \<Rightarrow> ('v, 'p) poll_outcome \<Rightarrow> ('k, 'v, 'p) flights \<Rightarrow> ('v, 'p) flight_task" where
  "poll_returned f owner out s =
     (case out of
        PollReady r \<Rightarrow> TaskRetire f (T_Owned r) owner
      | PollPanic p \<Rightarrow> TaskRetire f (T_Panicked p) owner
      | PollPending \<Rightarrow> (case fl_reason (fs_flights s ! f) of
            Some r \<Rightarrow> TaskRetire f (T_Cancelled r) owner
          | None \<Rightarrow> TaskYield f owner))"

definition mark_panicked :: "nat \<Rightarrow> ('v, 'p) poll_outcome \<Rightarrow> ('k, 'v, 'p) flights \<Rightarrow> ('k, 'v, 'p) flights" where
  "mark_panicked f out s = (case out of PollPanic _ \<Rightarrow> upd_flight f (\<lambda>fl. fl\<lparr>fl_panicked := True\<rparr>) s | _ \<Rightarrow> s)"

text \<open>The next critical section of the call in progress at position \<open>k\<close>.\<close>

fun task_step :: "nat \<Rightarrow> ('v, 'p) flight_task \<Rightarrow> ('k, 'v, 'p) flights \<Rightarrow> ('k, 'v, 'p) flights option" where
  "task_step k (TaskYield f ow) s = Some (set_task k (TaskRecheck f ow) (upd_flight f (\<lambda>fl. fl\<lparr>fl_state := F_Pending\<rparr>) s))"
| "task_step k (TaskRecheck f ow) s =
     Some (case fl_reason (fs_flights s ! f) of
             Some r \<Rightarrow> set_task k (TaskCancel f r ow) s
           | None \<Rightarrow> owner_done ow (set_task k TaskDone s))"
| "task_step k (TaskRetire f t ow) s = Some (set_task k (TaskReason f t ow) (retire_entry f s))"
| "task_step k (TaskReason f t ow) s =
     Some (set_task k (TaskPublish f (resolve_terminal (fl_reason (fs_flights s ! f)) t) ow) s)"
| "task_step k (TaskPublish f t ow) s = Some (set_task k (TaskEnd f ow) (upd_flight f (publish t) s))"
| "task_step k (TaskEnd f ow) s = Some (set_task k (TaskNotify f ow) (upd_flight f (request_cancel ScopeFinished) s))"
| "task_step k (TaskCancel f r ow) s = Some (set_task k (TaskCancelCell f r ow) (upd_flight f (request_cancel r) s))"
| "task_step k (TaskCancelCell f r ow) s = Some (set_task k (TaskCancelTable f ow) (upd_flight f (cancel_cell r) s))"
| "task_step k (TaskCancelTable f ow) s = Some (set_task k (TaskNotify f ow) (retire_entry f s))"
| "task_step k (TaskAbandon f) s =
     Some (if abandons (fs_flights s ! f) then set_task k (TaskAbandoned f) (abandon_start f s) else set_task k (TaskRunnable f) s)"
| "task_step k (TaskAbandoned f) s =
     Some (add_task (TaskNotify f None) (set_task k (TaskRunnable f) (upd_flight f (request_cancel ScopeFinished) s)))"
| "task_step k (TaskRunnable f) s = Some (set_task k (TaskNotify f None) (upd_flight f (\<lambda>fl. fl\<lparr>fl_runnable := True\<rparr>) s))"
| "task_step k (TaskNotify f ow) s =
     Some (set_task k (TaskWake (fl_wakers (fs_flights s ! f)) ow) (upd_flight f (\<lambda>fl. fl\<lparr>fl_wakers := []\<rparr>) s))"
| "task_step k (TaskWake (i # ws) ow) s = Some (set_task k (TaskWake ws ow) (upd_sub i (\<lambda>su. su\<lparr>su_woken := True\<rparr>) s))"
| "task_step k (TaskWake [] ow) s = Some (owner_done ow (set_task k TaskDone s))"
| "task_step k (TaskPolling f ow) s = None"
| "task_step k TaskDone s = None"

text \<open>
  The executor polls a subscription only after a wake-up (a new one counts as woken); a caller may
  also drive the work and look at the result without registering.
\<close>

fun flight_act :: "('k, 'v, 'p) flight_event \<Rightarrow> ('k, 'v, 'p) flights \<Rightarrow> ('k, 'v, 'p) flights option" where
  "flight_act (EvAcquire key) s = Some (flights_acquire key s)"
| "flight_act (EvInstall f) s = (if f < length (fs_flights s) then Some (flight_install f s) else None)"
| "flight_act (EvRegister i) s =
     (if i < length (fs_subs s) \<and> su_pc (fs_subs s ! i) = S_Idle \<and> su_woken (fs_subs s ! i) then Some (sub_register i s) else None)"
| "flight_act (EvArm i) s = (if i < length (fs_subs s) \<and> su_pc (fs_subs s ! i) = S_Registered then Some (sub_arm i s) else None)"
| "flight_act (EvPollWork i) s =
     (if i < length (fs_subs s) \<and> (su_pc (fs_subs s ! i) = S_Armed \<or> su_pc (fs_subs s ! i) = S_Idle) then Some (sub_poll_work i s) else None)"
| "flight_act (EvDriverArm f) s = (if f < length (fs_flights s) then Some (upd_flight f (\<lambda>fl. fl\<lparr>fl_runnable := True\<rparr>) s) else None)"
| "flight_act (EvDriver f) s = (if f < length (fs_flights s) then Some (driver_poll_work f s) else None)"
| "flight_act (EvReturned k out) s =
     (if k < length (fs_tasks s)
      then case fs_tasks s ! k of
             TaskPolling f ow \<Rightarrow> Some (set_task k (poll_returned f ow out s) (mark_panicked f out s))
           | _ \<Rightarrow> None
      else None)"
| "flight_act (EvTask k) s = (if k < length (fs_tasks s) then task_step k (fs_tasks s ! k) s else None)"
| "flight_act (EvCheck i) s =
     (if i < length (fs_subs s) \<and> (su_pc (fs_subs s ! i) = S_Check \<or> su_pc (fs_subs s ! i) = S_Idle) then Some (fst (try_complete i s)) else None)"
| "flight_act (EvDrop i) s =
     (if i < length (fs_subs s) \<and> su_pc (fs_subs s ! i) \<in> {S_Idle, S_Consumed, S_Panic} then Some (subscription_drop i s) else None)"
| "flight_act (EvCancel f r) s = (if f < length (fs_flights s) then Some (add_task (TaskCancel f r None) s) else None)"
| "flight_act (EvRequest f r) s = (if f < length (fs_flights s) then Some (upd_flight f (request_cancel r) s) else None)"
| "flight_act (EvWake f) s = (if f < length (fs_flights s) then Some (add_task (TaskRunnable f) s) else None)"

section \<open>Invariant\<close>

fun is_poll :: "nat \<Rightarrow> ('v, 'p) flight_task \<Rightarrow> bool" where
  "is_poll f (TaskPolling g _) = (g = f)"
| "is_poll f (TaskYield g _) = (g = f)"
| "is_poll f (TaskRetire g _ _) = (g = f)"
| "is_poll f (TaskReason g _ _) = (g = f)"
| "is_poll f (TaskPublish g _ _) = (g = f)"
| "is_poll f _ = False"

fun is_retired :: "nat \<Rightarrow> ('v, 'p) flight_task \<Rightarrow> bool" where
  "is_retired f (TaskReason g _ _) = (g = f)"
| "is_retired f (TaskPublish g _ _) = (g = f)"
| "is_retired f _ = False"

fun is_cancelling :: "nat \<Rightarrow> ('v, 'p) flight_task \<Rightarrow> bool" where
  "is_cancelling f (TaskCancelCell g _ _) = (g = f)"
| "is_cancelling f (TaskCancelTable g _) = (g = f)"
| "is_cancelling f _ = False"

fun is_cancel_table :: "nat \<Rightarrow> ('v, 'p) flight_task \<Rightarrow> bool" where
  "is_cancel_table f (TaskCancelTable g _) = (g = f)"
| "is_cancel_table f _ = False"

fun task_flight :: "('v, 'p) flight_task \<Rightarrow> nat option" where
  "task_flight (TaskPolling f _) = Some f" | "task_flight (TaskYield f _) = Some f" | "task_flight (TaskRecheck f _) = Some f"
| "task_flight (TaskRetire f _ _) = Some f" | "task_flight (TaskReason f _ _) = Some f" | "task_flight (TaskPublish f _ _) = Some f"
| "task_flight (TaskEnd f _) = Some f" | "task_flight (TaskCancel f _ _) = Some f" | "task_flight (TaskCancelCell f _ _) = Some f"
| "task_flight (TaskCancelTable f _) = Some f" | "task_flight (TaskAbandon f) = Some f" | "task_flight (TaskAbandoned f) = Some f"
| "task_flight (TaskRunnable f) = Some f" | "task_flight (TaskNotify f _) = Some f" | "task_flight (TaskWake _ _) = None" | "task_flight TaskDone = None"

fun task_owner :: "('v, 'p) flight_task \<Rightarrow> nat option" where
  "task_owner (TaskPolling _ ow) = ow" | "task_owner (TaskYield _ ow) = ow" | "task_owner (TaskRecheck _ ow) = ow"
| "task_owner (TaskRetire _ _ ow) = ow" | "task_owner (TaskReason _ _ ow) = ow" | "task_owner (TaskPublish _ _ ow) = ow"
| "task_owner (TaskEnd _ ow) = ow" | "task_owner (TaskCancel _ _ ow) = ow" | "task_owner (TaskCancelCell _ _ ow) = ow"
| "task_owner (TaskCancelTable _ ow) = ow" | "task_owner (TaskAbandon _) = None" | "task_owner (TaskAbandoned _) = None"
| "task_owner (TaskRunnable _) = None" | "task_owner (TaskNotify _ ow) = ow" | "task_owner (TaskWake _ ow) = ow" | "task_owner TaskDone = None"

definition ntasks :: "(('v, 'p) flight_task \<Rightarrow> bool) \<Rightarrow> ('k, 'v, 'p) flights \<Rightarrow> nat" where
  "ntasks P s = length (filter P (fs_tasks s))"

definition live_subs :: "nat \<Rightarrow> ('k, 'v, 'p) flights \<Rightarrow> nat" where
  "live_subs f s = length (filter (\<lambda>su. su_flight su = f \<and> su_pc su \<noteq> S_Dropped) (fs_subs s))"

definition enlisted :: "('k, 'v, 'p) flights \<Rightarrow> nat \<Rightarrow> bool" where
  "enlisted s f \<longleftrightarrow> hm_get (fs_table s) (fl_key (fs_flights s ! f)) = Some f"

text \<open>
  What holds of a flight: in terms of the numbers of its live subscriptions, of the polls in
  progress, of cancellations past their first step, of cancellations about to clean the table, of
  completions past the table, and of whether the table lists it.
\<close>

definition flight_cond :: "nat \<Rightarrow> nat \<Rightarrow> nat \<Rightarrow> nat \<Rightarrow> nat \<Rightarrow> bool \<Rightarrow> ('k, 'v, 'p) flight \<Rightarrow> bool" where
  "flight_cond live polls cancels tables retired listed fl \<longleftrightarrow>
       fl_subscribers fl = live
     \<and> polls = of_bool (fl_state fl = F_Polling)
     \<and> (0 < cancels \<longrightarrow> fl_reason fl \<noteq> None)
     \<and> (0 < tables \<longrightarrow> fl_state fl \<noteq> F_Starting)
     \<and> (0 < retired \<longrightarrow> \<not> listed)
     \<and> (fl_state fl = F_Starting \<longrightarrow> listed)
     \<and> ((fl_state fl = F_Pending \<or> fl_state fl = F_Polling) \<and> fl_reason fl = None \<and> retired = 0 \<longrightarrow> listed)
     \<and> (\<forall>t. fl_state fl = F_Completed t \<and> (\<forall>r. t \<noteq> T_Cancelled r) \<longrightarrow> \<not> listed)
     \<and> (\<forall>r. fl_state fl = F_Completed (T_Owned r) \<longrightarrow> fl_subscribers fl = 1)"

definition flight_ok :: "('k, 'v, 'p) flights \<Rightarrow> nat \<Rightarrow> bool" where
  "flight_ok s f \<longleftrightarrow> flight_cond (live_subs f s) (ntasks (is_poll f) s) (ntasks (is_cancelling f) s) (ntasks (is_cancel_table f) s)
     (ntasks (is_retired f) s) (enlisted s f) (fs_flights s ! f)"

definition sub_ok :: "('k, 'v, 'p) flights \<Rightarrow> nat \<Rightarrow> bool" where
  "sub_ok s i \<longleftrightarrow> su_flight (fs_subs s ! i) < length (fs_flights s)
     \<and> ntasks (\<lambda>t. task_owner t = Some i) s = of_bool (su_pc (fs_subs s ! i) = S_Polling)"

definition flights_ok :: "('k, 'v, 'p) flights \<Rightarrow> bool" where
  "flights_ok s \<longleftrightarrow> hm_ok (fs_table s)
     \<and> (\<forall>key f. hm_get (fs_table s) key = Some f \<longrightarrow> f < length (fs_flights s) \<and> fl_key (fs_flights s ! f) = key)
     \<and> (\<forall>f < length (fs_flights s). flight_ok s f) \<and> (\<forall>i < length (fs_subs s). sub_ok s i)
     \<and> (\<forall>t \<in> set (fs_tasks s). \<forall>f. task_flight t = Some f \<longrightarrow> f < length (fs_flights s))
     \<and> (\<forall>t \<in> set (fs_tasks s). \<forall>i. task_owner t = Some i \<longrightarrow> i < length (fs_subs s))"

section \<open>How the steps change what the invariant looks at\<close>

named_theorems flight_view \<open>components and counts after an update\<close>

lemma flights_update_simps [flight_view]:
  "fs_table (upd_flight f u s) = fs_table s" "fs_subs (upd_flight f u s) = fs_subs s" "fs_tasks (upd_flight f u s) = fs_tasks s"
  "fs_flights (upd_flight f u s) = (fs_flights s)[f := u (fs_flights s ! f)]"
  "fs_table (upd_sub i v s) = fs_table s" "fs_flights (upd_sub i v s) = fs_flights s" "fs_tasks (upd_sub i v s) = fs_tasks s"
  "fs_subs (upd_sub i v s) = (fs_subs s)[i := v (fs_subs s ! i)]"
  "fs_table (set_task k t s) = fs_table s" "fs_flights (set_task k t s) = fs_flights s" "fs_subs (set_task k t s) = fs_subs s"
  "fs_tasks (set_task k t s) = (fs_tasks s)[k := t]"
  "fs_table (add_task t s) = fs_table s" "fs_flights (add_task t s) = fs_flights s" "fs_subs (add_task t s) = fs_subs s"
  "fs_tasks (add_task t s) = fs_tasks s @ [t]"
  by (simp_all add: upd_flight_def upd_sub_def set_task_def add_task_def)

lemma filter_list_update:
  "k < length xs \<Longrightarrow> length (filter P (xs[k := y])) = length (filter P xs) + of_bool (P y) - of_bool (P (xs ! k))"
proof (induction xs arbitrary: k)
  case (Cons x xs)
  show ?case
  proof (cases k)
    case (Suc n)
    have "P (xs ! n) \<Longrightarrow> 0 < length (filter P xs)" using Cons.prems Suc by (auto simp: filter_empty_conv)
    then show ?thesis using Cons Suc by auto
  qed simp
qed simp

lemma ntasks_simps [flight_view]:
  "ntasks P (upd_flight f u s) = ntasks P s" "ntasks P (upd_sub i v s) = ntasks P s"
  "k < length (fs_tasks s) \<Longrightarrow> ntasks P (set_task k t s) = ntasks P s + of_bool (P t) - of_bool (P (fs_tasks s ! k))"
  "ntasks P (add_task t s) = ntasks P s + of_bool (P t)"
  "ntasks P (s\<lparr>fs_table := tb\<rparr>) = ntasks P s" "ntasks P (s\<lparr>fs_subs := sb\<rparr>) = ntasks P s"
  "ntasks P (s\<lparr>fs_flights := fb\<rparr>) = ntasks P s"
  by (simp_all add: ntasks_def flight_view filter_list_update)

lemma live_subs_simps [flight_view]:
  "live_subs g (upd_flight f u s) = live_subs g s" "live_subs g (set_task k t s) = live_subs g s" "live_subs g (add_task t s) = live_subs g s"
  "live_subs g (s\<lparr>fs_table := tb\<rparr>) = live_subs g s" "live_subs g (s\<lparr>fs_flights := fb\<rparr>) = live_subs g s"
  "i < length (fs_subs s) \<Longrightarrow> live_subs g (upd_sub i v s) = live_subs g s
     + of_bool (su_flight (v (fs_subs s ! i)) = g \<and> su_pc (v (fs_subs s ! i)) \<noteq> S_Dropped)
     - of_bool (su_flight (fs_subs s ! i) = g \<and> su_pc (fs_subs s ! i) \<noteq> S_Dropped)"
  by (simp_all add: live_subs_def flight_view filter_list_update)

lemma ntasks_pos: "k < length (fs_tasks s) \<Longrightarrow> P (fs_tasks s ! k) \<Longrightarrow> 0 < ntasks P s"
  by (auto simp: ntasks_def filter_empty_conv)

lemma ntasks_mono: "(\<And>t. P t \<Longrightarrow> Q t) \<Longrightarrow> ntasks P s \<le> ntasks Q s"
proof -
  assume "\<And>t. P t \<Longrightarrow> Q t"
  then have "filter P xs = filter P (filter Q xs)" for xs by (induction xs) auto
  then show ?thesis unfolding ntasks_def by (metis length_filter_le)
qed

lemma retired_polls: "ntasks (is_retired f) s \<le> ntasks (is_poll f) s"
  by (rule ntasks_mono) (erule is_retired.elims; simp)

lemma cancel_table_cancels: "ntasks (is_cancel_table f) s \<le> ntasks (is_cancelling f) s"
  by (rule ntasks_mono) (erule is_cancel_table.elims; simp)

lemma live_subs_pos: "i < length (fs_subs s) \<Longrightarrow> su_flight (fs_subs s ! i) = f \<Longrightarrow> su_pc (fs_subs s ! i) \<noteq> S_Dropped \<Longrightarrow> 0 < live_subs f s"
  by (auto simp: live_subs_def filter_empty_conv)

lemma flight_ok_cong:
  assumes "fs_flights s' ! g = fs_flights s ! g" "live_subs g s' = live_subs g s" "ntasks (is_poll g) s' = ntasks (is_poll g) s"
    "ntasks (is_cancelling g) s' = ntasks (is_cancelling g) s" "ntasks (is_cancel_table g) s' = ntasks (is_cancel_table g) s"
    "ntasks (is_retired g) s' = ntasks (is_retired g) s" "enlisted s' g = enlisted s g"
  shows "flight_ok s' g = flight_ok s g"
  by (simp only: flight_ok_def assms)

lemma flights_okD:
  assumes "flights_ok s"
  shows "hm_ok (fs_table s)" "hm_get (fs_table s) key = Some f \<Longrightarrow> f < length (fs_flights s)"
    "hm_get (fs_table s) key = Some f \<Longrightarrow> fl_key (fs_flights s ! f) = key"
    "f < length (fs_flights s) \<Longrightarrow> flight_ok s f" "i < length (fs_subs s) \<Longrightarrow> sub_ok s i"
    "k < length (fs_tasks s) \<Longrightarrow> task_flight (fs_tasks s ! k) = Some f \<Longrightarrow> f < length (fs_flights s)"
    "k < length (fs_tasks s) \<Longrightarrow> task_owner (fs_tasks s ! k) = Some i \<Longrightarrow> i < length (fs_subs s)"
  using assms unfolding flights_ok_def by (blast, blast, blast, blast, blast, meson nth_mem, meson nth_mem)

text \<open>The owner of a call in progress is in its poll.\<close>

lemma owner_polling: "flights_ok s \<Longrightarrow> k < length (fs_tasks s) \<Longrightarrow> task_owner (fs_tasks s ! k) = Some i \<Longrightarrow> su_pc (fs_subs s ! i) = S_Polling"
  using flights_okD(5) [of s i] flights_okD(7) [of s k i] ntasks_pos [of k s "\<lambda>t. task_owner t = Some i"]
  by (auto simp: sub_ok_def split: if_splits)

lemma task_flight_of:
  "is_poll f t \<Longrightarrow> task_flight t = Some f" "is_retired f t \<Longrightarrow> task_flight t = Some f"
  "is_cancelling f t \<Longrightarrow> task_flight t = Some f" "is_cancel_table f t \<Longrightarrow> task_flight t = Some f"
  by (cases t; simp)+

lemma ntasks_via_flight:
  assumes "\<And>t. P t \<Longrightarrow> task_flight t = Some g"
    and "filter (\<lambda>t. task_flight t = Some g) (fs_tasks s') = filter (\<lambda>t. task_flight t = Some g) (fs_tasks s)"
  shows "ntasks P s' = ntasks P s"
proof -
  have "filter P xs = filter P (filter (\<lambda>t. task_flight t = Some g) xs)" for xs using assms(1) by (induction xs) auto
  then show ?thesis unfolding ntasks_def using assms(2) by metis
qed

lemma filter_update_other: "\<not> P y \<Longrightarrow> k < length xs \<Longrightarrow> \<not> P (xs ! k) \<Longrightarrow> filter P (xs[k := y]) = filter P xs"
proof (induction xs arbitrary: k)
  case (Cons x xs)
  then show ?case by (cases k) auto
qed simp

text \<open>
  A step concerns one flight: it may change that flight, take it out of the table, and touch calls
  in progress and subscriptions of that flight. Everything the invariant says of other flights is
  then unchanged.
\<close>

lemma step_frame:
  assumes ok: "flights_ok s"
    and table: "hm_ok (fs_table s')" "\<And>key g. hm_get (fs_table s') key = Some g \<Longrightarrow> hm_get (fs_table s) key = Some g"
      "\<And>g. g \<noteq> f \<Longrightarrow> enlisted s g \<Longrightarrow> hm_get (fs_table s') (fl_key (fs_flights s ! g)) = Some g"
    and flights: "length (fs_flights s') = length (fs_flights s)" "\<And>g. g \<noteq> f \<Longrightarrow> fs_flights s' ! g = fs_flights s ! g"
      "fl_key (fs_flights s' ! f) = fl_key (fs_flights s ! f)"
    and tasks: "\<And>g. g \<noteq> f \<Longrightarrow> filter (\<lambda>t. task_flight t = Some g) (fs_tasks s') = filter (\<lambda>t. task_flight t = Some g) (fs_tasks s)"
    and subs: "length (fs_subs s') = length (fs_subs s)" "\<And>i. i < length (fs_subs s) \<Longrightarrow> sub_ok s' i"
      "\<And>g. g \<noteq> f \<Longrightarrow> live_subs g s' = live_subs g s"
    and range: "\<And>t g. t \<in> set (fs_tasks s') \<Longrightarrow> task_flight t = Some g \<Longrightarrow> g < length (fs_flights s)"
      "\<And>t i. t \<in> set (fs_tasks s') \<Longrightarrow> task_owner t = Some i \<Longrightarrow> i < length (fs_subs s)"
    and here: "flight_ok s' f"
  shows "flights_ok s'"
proof -
  have keys: "fl_key (fs_flights s' ! g) = fl_key (fs_flights s ! g)" for g using flights by (cases "g = f") simp_all
  have other: "flight_ok s' g" if "g < length (fs_flights s)" "g \<noteq> f" for g
  proof -
    have "enlisted s' g = enlisted s g" using table(2) [of _ g] table(3) [of g] that(2) unfolding enlisted_def keys by blast
    then have "flight_ok s' g = flight_ok s g"
      using that(2) by (intro flight_ok_cong flights(2) subs(3) ntasks_via_flight [where g = g] task_flight_of tasks)
    then show ?thesis using flights_okD(4) [OF ok that(1)] by simp
  qed
  show ?thesis unfolding flights_ok_def
  proof (intro conjI allI impI ballI)
    show "g < length (fs_flights s')" if "hm_get (fs_table s') key = Some g" for key g using flights_okD(2) [OF ok table(2) [OF that]] flights(1) by simp
    show "fl_key (fs_flights s' ! g) = key" if "hm_get (fs_table s') key = Some g" for key g unfolding keys by (rule flights_okD(3) [OF ok table(2) [OF that]])
    show "flight_ok s' g" if "g < length (fs_flights s')" for g using that other here flights(1) by (cases "g = f") simp_all
    show "sub_ok s' i" if "i < length (fs_subs s')" for i using that subs(1,2) by simp
    show "g < length (fs_flights s')" if "x \<in> set (fs_tasks s')" "task_flight x = Some g" for x g using range(1) [OF that] flights(1) by simp
    show "i < length (fs_subs s')" if "x \<in> set (fs_tasks s')" "task_owner x = Some i" for x i using range(2) [OF that] subs(1) by simp
  qed (rule table(1))
qed

text \<open>A call in progress moves on, with an update of its flight that the invariant allows.\<close>

lemma task_moves:
  assumes ok: "flights_ok s" and k: "k < length (fs_tasks s)"
    and t: "task_owner t' = task_owner (fs_tasks s ! k)" "task_flight t' = Some f \<or> task_flight t' = None" "task_flight (fs_tasks s ! k) = Some f"
    and s': "fs_tasks s' = (fs_tasks s)[k := t']" "fs_subs s' = fs_subs s" "fs_flights s' = (fs_flights s)[f := u (fs_flights s ! f)]"
      "fs_table s' = fs_table s \<or> fs_table s' = hm_remove (fl_key (fs_flights s ! f)) (fs_table s) \<and> enlisted s f"
    and key: "\<And>fl. fl_key (u fl) = fl_key fl"
    and f_ok: "flight_ok s' f"
  shows "flights_ok s'"
proof (rule step_frame [OF ok])
  have f: "f < length (fs_flights s)" by (rule flights_okD(6) [OF ok k t(3)])
  have nt: "ntasks P s' = ntasks P (set_task k t' s)" for P by (simp add: ntasks_def s' flight_view)
  show "hm_ok (fs_table s')" using s'(4) flights_okD(1) [OF ok] by auto
  show "hm_get (fs_table s) x = Some g" if "hm_get (fs_table s') x = Some g" for x g using that s'(4) by (auto simp: hmap_simps split: if_splits)
  show "hm_get (fs_table s') (fl_key (fs_flights s ! g)) = Some g" if "g \<noteq> f" "enlisted s g" for g
    using that s'(4) by (auto simp: hmap_simps enlisted_def)
  show "filter (\<lambda>t. task_flight t = Some g) (fs_tasks s') = filter (\<lambda>t. task_flight t = Some g) (fs_tasks s)" if "g \<noteq> f" for g
    unfolding s' using that t(2,3) k by (intro filter_update_other) auto
  show "sub_ok s' i" if "i < length (fs_subs s)" for i
    using flights_okD(5) [OF ok that] k t(1) ntasks_pos [OF k, of "\<lambda>t. task_owner t = Some i"]
    by (auto simp: sub_ok_def nt flight_view s')
  show "g < length (fs_flights s)" if "x \<in> set (fs_tasks s')" "task_flight x = Some g" for x g
    using that ok f t(2) unfolding flights_ok_def s' by (auto dest!: set_update_subset_insert [THEN subsetD])
  show "i < length (fs_subs s)" if "x \<in> set (fs_tasks s')" "task_owner x = Some i" for x i
    using that ok t(1) flights_okD(7) [OF ok k] unfolding flights_ok_def s' by (auto dest!: set_update_subset_insert [THEN subsetD])
  show "live_subs g s' = live_subs g s" for g by (simp add: live_subs_def s')
  show "fl_key (fs_flights s' ! f) = fl_key (fs_flights s ! f)" using f key by (simp add: s')
qed (simp_all add: s' f_ok)

lemma ntasks_task_moves: "fs_tasks s' = (fs_tasks s)[k := t'] \<Longrightarrow> k < length (fs_tasks s) \<Longrightarrow>
    ntasks P s' = ntasks P s + of_bool (P t') - of_bool (P (fs_tasks s ! k))"
  by (simp add: ntasks_def filter_list_update)

lemma retire_entry_view [flight_view]:
  "fs_flights (retire_entry f s) = fs_flights s" "fs_subs (retire_entry f s) = fs_subs s" "fs_tasks (retire_entry f s) = fs_tasks s"
  "fs_table (retire_entry f s) = (if enlisted s f then hm_remove (fl_key (fs_flights s ! f)) (fs_table s) else fs_table s)"
  by (simp_all add: retire_entry_def enlisted_def Let_def)

lemma not_enlisted_removed: "fs_table s' = hm_remove (fl_key (fs_flights s ! f)) (fs_table s) \<Longrightarrow>
    fl_key (fs_flights s' ! f) = fl_key (fs_flights s ! f) \<Longrightarrow> \<not> enlisted s' f"
  by (simp add: enlisted_def hmap_simps)

lemma request_cancel_view [flight_view]:
  "fl_key (request_cancel r fl) = fl_key fl" "fl_subscribers (request_cancel r fl) = fl_subscribers fl" "fl_state (request_cancel r fl) = fl_state fl"
  "fl_reason (request_cancel r fl) \<noteq> None"
  by (simp_all add: request_cancel_def split: option.splits)

lemma cancel_cell_view [flight_view]: "fl_key (cancel_cell r fl) = fl_key fl" "fl_subscribers (cancel_cell r fl) = fl_subscribers fl"
  by (simp_all add: cancel_cell_def)

text \<open>The two shapes of a step of a call in progress, with what is left to show of its flight.\<close>

lemma task_upd:
  assumes ok: "flights_ok s" and k: "k < length (fs_tasks s)" "fs_tasks s ! k = t0"
    and t: "task_owner t' = task_owner t0" "task_flight t' = Some f \<or> task_flight t' = None" "task_flight t0 = Some f"
    and key: "\<And>fl. fl_key (u fl) = fl_key fl"
    and here: "f < length (fs_flights s) \<Longrightarrow> flight_ok s f \<Longrightarrow>
      flight_cond (live_subs f s) (ntasks (is_poll f) s + of_bool (is_poll f t') - of_bool (is_poll f t0))
        (ntasks (is_cancelling f) s + of_bool (is_cancelling f t') - of_bool (is_cancelling f t0))
        (ntasks (is_cancel_table f) s + of_bool (is_cancel_table f t') - of_bool (is_cancel_table f t0))
        (ntasks (is_retired f) s + of_bool (is_retired f t') - of_bool (is_retired f t0)) (enlisted s f) (u (fs_flights s ! f))"
  shows "flights_ok (set_task k t' (upd_flight f u s))" (is "flights_ok ?s")
proof -
  have f: "f < length (fs_flights s)" using flights_okD(6) [OF ok k(1)] k(2) t(3) by simp
  have nt: "ntasks P ?s = ntasks P s + of_bool (P t') - of_bool (P t0)" for P using k by (simp add: flight_view)
  have e: "enlisted ?s f = enlisted s f" using f key by (simp add: enlisted_def flight_view)
  have fl: "fs_flights ?s ! f = u (fs_flights s ! f)" "live_subs f ?s = live_subs f s" using f by (simp_all add: flight_view)
  have "flight_ok ?s f" unfolding flight_ok_def nt e fl by (rule here [OF f flights_okD(4) [OF ok f]])
  then show ?thesis using k t f key by (intro task_moves [OF ok k(1), where t' = t' and f = f and u = u]) (simp_all add: flight_view)
qed

lemma task_retire:
  assumes ok: "flights_ok s" and k: "k < length (fs_tasks s)" "fs_tasks s ! k = t0"
    and t: "task_owner t' = task_owner t0" "task_flight t' = Some f" "task_flight t0 = Some f"
    and here: "f < length (fs_flights s) \<Longrightarrow> flight_ok s f \<Longrightarrow>
      flight_cond (live_subs f s) (ntasks (is_poll f) s + of_bool (is_poll f t') - of_bool (is_poll f t0))
        (ntasks (is_cancelling f) s + of_bool (is_cancelling f t') - of_bool (is_cancelling f t0))
        (ntasks (is_cancel_table f) s + of_bool (is_cancel_table f t') - of_bool (is_cancel_table f t0))
        (ntasks (is_retired f) s + of_bool (is_retired f t') - of_bool (is_retired f t0)) False (fs_flights s ! f)"
  shows "flights_ok (set_task k t' (retire_entry f s))" (is "flights_ok ?s")
proof -
  have f: "f < length (fs_flights s)" using flights_okD(6) [OF ok k(1)] k(2) t(3) by simp
  have nt: "ntasks P ?s = ntasks P s + of_bool (P t') - of_bool (P t0)" for P using k by (simp add: ntasks_def flight_view filter_list_update)
  have e: "enlisted ?s f = False"
    by (cases "enlisted s f") (simp_all add: enlisted_def flight_view hmap_simps)
  have fl: "fs_flights ?s ! f = fs_flights s ! f" "live_subs f ?s = live_subs f s" by (simp_all add: flight_view live_subs_def)
  have "flight_ok ?s f" unfolding flight_ok_def nt e fl by (rule here [OF f flights_okD(4) [OF ok f]])
  then show ?thesis using k t f by (intro task_moves [OF ok k(1), where t' = t' and f = f and u = "\<lambda>fl. fl"]) (auto simp: flight_view)
qed

lemma polling_task:
  assumes ok: "flight_ok s f" and k: "k < length (fs_tasks s)" and p: "is_poll f (fs_tasks s ! k)"
  shows "fl_state (fs_flights s ! f) = F_Polling" "ntasks (is_poll f) s = Suc 0"
    "is_retired f (fs_tasks s ! k) \<Longrightarrow> \<not> enlisted s f" "ntasks (is_retired f) s = of_bool (is_retired f (fs_tasks s ! k))"
proof -
  show q: "fl_state (fs_flights s ! f) = F_Polling" "ntasks (is_poll f) s = Suc 0"
    using ntasks_pos [OF k, of "is_poll f"] p ok by (auto simp: flight_ok_def flight_cond_def split: if_splits)
  have "ntasks (is_poll f) s = ntasks (is_poll f) (set_task k TaskDone s) + 1" using k p q(2) by (simp add: flight_view)
  moreover have "ntasks (is_retired f) (set_task k TaskDone s) + of_bool (is_retired f (fs_tasks s ! k)) = ntasks (is_retired f) s"
    using k ntasks_pos [OF k, of "is_retired f"] by (auto simp: flight_view)
  ultimately show r: "ntasks (is_retired f) s = of_bool (is_retired f (fs_tasks s ! k))"
    using retired_polls [of f "set_task k TaskDone s"] q by simp
  show "\<not> enlisted s f" if "is_retired f (fs_tasks s ! k)" using r that ok by (simp add: flight_ok_def flight_cond_def)
qed

lemma cancelling_task:
  assumes ok: "flight_ok s f" and k: "k < length (fs_tasks s)"
  shows "is_cancelling f (fs_tasks s ! k) \<Longrightarrow> fl_reason (fs_flights s ! f) \<noteq> None"
    "is_cancel_table f (fs_tasks s ! k) \<Longrightarrow> fl_state (fs_flights s ! f) \<noteq> F_Starting"
  using ntasks_pos [OF k, of "is_cancelling f"] ntasks_pos [OF k, of "is_cancel_table f"] ok by (auto simp: flight_ok_def flight_cond_def)

lemma polling_cond:
  assumes "flight_ok s f" "k < length (fs_tasks s)" "is_poll f (fs_tasks s ! k)"
  shows "flight_cond (live_subs f s) (Suc 0) (ntasks (is_cancelling f) s) (ntasks (is_cancel_table f) s)
     (of_bool (is_retired f (fs_tasks s ! k))) (enlisted s f) (fs_flights s ! f)"
  using assms polling_task(2,4) [OF assms] by (simp add: flight_ok_def)

text \<open>What the invariant of a flight becomes under each update of it.\<close>

lemma cond_yield: "flight_cond live (Suc 0) c b 0 l fl \<Longrightarrow> flight_cond live 0 c b 0 l (fl\<lparr>fl_state := F_Pending\<rparr>)"
  by (auto simp: flight_cond_def split: if_splits)

lemma cond_retire: "flight_cond live (Suc 0) c b 0 l fl \<Longrightarrow> flight_cond live (Suc 0) c b (Suc 0) False fl"
  by (auto simp: flight_cond_def split: if_splits)

lemma cond_publish: "flight_cond live (Suc 0) c b (Suc 0) l fl \<Longrightarrow> flight_cond live 0 c b 0 l (publish t fl)"
  by (cases t; cases "fl_subscribers fl = 0"; cases "1 < fl_subscribers fl") (simp_all add: flight_cond_def publish_def Let_def)

lemma cond_request: "flight_cond live n c b r l fl \<Longrightarrow> flight_cond live n (c + x) b r l (request_cancel reason fl)"
  by (auto simp: flight_cond_def request_cancel_def split: option.splits)

lemma cond_cell: "flight_cond live n c b r l fl \<Longrightarrow> 0 < c \<Longrightarrow> flight_cond live n c (Suc b) r l (cancel_cell reason fl)"
  by (auto simp: flight_cond_def cancel_cell_def split: if_splits)

lemma cond_table: "flight_cond live n c b r l fl \<Longrightarrow> 0 < b \<Longrightarrow> 0 < c \<Longrightarrow> flight_cond live n (c - Suc 0) (b - Suc 0) r False fl"
  by (auto simp: flight_cond_def)

lemma cond_scalars: "flight_cond live n c b r l (fl\<lparr>fl_runnable := x\<rparr>) = flight_cond live n c b r l fl"
  "flight_cond live n c b r l (fl\<lparr>fl_wakers := w\<rparr>) = flight_cond live n c b r l fl"
  "flight_cond live n c b r l (fl\<lparr>fl_panicked := y\<rparr>) = flight_cond live n c b r l fl"
  by (simp_all add: flight_cond_def)

lemma cond_drop:
  assumes "flight_cond live n c b r l fl" "0 < live"
  shows "flight_cond (live - 1) n c b r l (fl\<lparr>fl_subscribers := fl_subscribers fl - 1,
    fl_state := (if fl_subscribers fl - 1 = 0 \<and> has_completion fl then F_Finished else fl_state fl)\<rparr>)"
proof (cases "fl_state fl")
  case (F_Completed t)
  then show ?thesis using assms by (cases t; cases "fl_subscribers fl = Suc 0") (simp_all add: flight_cond_def has_completion_def)
qed (use assms in \<open>auto simp: flight_cond_def has_completion_def\<close>)

lemma poll_stage_ok:
  assumes ok: "flights_ok s" and k: "k < length (fs_tasks s)"
  shows "fs_tasks s ! k = TaskYield f ow \<Longrightarrow> flights_ok (set_task k (TaskRecheck f ow) (upd_flight f (\<lambda>fl. fl\<lparr>fl_state := F_Pending\<rparr>) s))"
    "fs_tasks s ! k = TaskRetire f t ow \<Longrightarrow> flights_ok (set_task k (TaskReason f t ow) (retire_entry f s))"
    "fs_tasks s ! k = TaskPublish f t ow \<Longrightarrow> flights_ok (set_task k (TaskEnd f ow) (upd_flight f (publish t) s))"
  subgoal premises t
    by (rule task_upd [OF ok k t]) (use polling_task(2,4) [OF _ k, of f] polling_cond [OF _ k, of f] t in \<open>simp_all add: cond_yield\<close>)
  subgoal premises t
    by (rule task_retire [OF ok k t]) (use polling_task(2,4) [OF _ k, of f] polling_cond [OF _ k, of f] t in \<open>simp_all add: cond_retire\<close>)
  subgoal premises t
    by (rule task_upd [OF ok k t])
      (use polling_task(2,4) [OF _ k, of f] polling_cond [OF _ k, of f] t in \<open>simp_all add: cond_publish\<close>, simp add: publish_def Let_def)
  done

lemma cancel_stage_ok:
  assumes ok: "flights_ok s" and k: "k < length (fs_tasks s)"
  shows "fs_tasks s ! k = TaskReason f t ow \<Longrightarrow> flights_ok (set_task k (TaskPublish f t' ow) s)"
    "fs_tasks s ! k = TaskEnd f ow \<Longrightarrow> flights_ok (set_task k (TaskNotify f ow) (upd_flight f (request_cancel r) s))"
    "fs_tasks s ! k = TaskCancel f r ow \<Longrightarrow> flights_ok (set_task k (TaskCancelCell f r ow) (upd_flight f (request_cancel r) s))"
    "fs_tasks s ! k = TaskCancelCell f r ow \<Longrightarrow> flights_ok (set_task k (TaskCancelTable f ow) (upd_flight f (cancel_cell r) s))"
    "fs_tasks s ! k = TaskCancelTable f ow \<Longrightarrow> flights_ok (set_task k (TaskNotify f ow) (retire_entry f s))"
    "fs_tasks s ! k = TaskRecheck f ow \<Longrightarrow> flights_ok (set_task k (TaskCancel f r ow) s)"
    "fs_tasks s ! k = TaskRunnable f \<Longrightarrow> flights_ok (set_task k (TaskNotify f None) (upd_flight f (\<lambda>fl. fl\<lparr>fl_runnable := True\<rparr>) s))"
    "fs_tasks s ! k = TaskNotify f ow \<Longrightarrow> flights_ok (set_task k (TaskWake ws ow) (upd_flight f (\<lambda>fl. fl\<lparr>fl_wakers := []\<rparr>) s))"
    "fs_tasks s ! k = TaskAbandon f \<Longrightarrow> flights_ok (set_task k (TaskRunnable f) s)"
    "fs_tasks s ! k = TaskAbandoned f \<Longrightarrow> flights_ok (set_task k (TaskRunnable f) (upd_flight f (request_cancel r) s))"
proof -
  have same: "set_task j u s = set_task j u (upd_flight g (\<lambda>fl. fl) s)" for j u g by (simp add: upd_flight_def)
  show "flights_ok (set_task k (TaskPublish f t' ow) s)" if t: "fs_tasks s ! k = TaskReason f t ow"
    unfolding same [of _ _ f] by (rule task_upd [OF ok k t]) (simp_all add: flight_ok_def)
  show "flights_ok (set_task k (TaskCancel f r ow) s)" if t: "fs_tasks s ! k = TaskRecheck f ow"
    unfolding same [of _ _ f] by (rule task_upd [OF ok k t]) (simp_all add: flight_ok_def)
  show "flights_ok (set_task k (TaskRunnable f) s)" if t: "fs_tasks s ! k = TaskAbandon f"
    unfolding same [of _ _ f] by (rule task_upd [OF ok k t]) (simp_all add: flight_ok_def)
  show "flights_ok (set_task k (TaskNotify f ow) (upd_flight f (request_cancel r) s))" if t: "fs_tasks s ! k = TaskEnd f ow"
    by (rule task_upd [OF ok k t]) (use cond_request [where x = 0] in \<open>simp_all add: flight_ok_def flight_view\<close>)
  show "flights_ok (set_task k (TaskRunnable f) (upd_flight f (request_cancel r) s))" if t: "fs_tasks s ! k = TaskAbandoned f"
    by (rule task_upd [OF ok k t]) (use cond_request [where x = 0] in \<open>simp_all add: flight_ok_def flight_view\<close>)
  show "flights_ok (set_task k (TaskCancelCell f r ow) (upd_flight f (request_cancel r) s))" if t: "fs_tasks s ! k = TaskCancel f r ow"
    by (rule task_upd [OF ok k t]) (use cond_request [where x = 1] in \<open>simp_all add: flight_ok_def flight_view\<close>)
  show "flights_ok (set_task k (TaskCancelTable f ow) (upd_flight f (cancel_cell r) s))" if t: "fs_tasks s ! k = TaskCancelCell f r ow"
    by (rule task_upd [OF ok k t]) (use ntasks_pos [OF k, of "is_cancelling f"] t in \<open>simp_all add: flight_ok_def cond_cell flight_view\<close>)
  show "flights_ok (set_task k (TaskNotify f ow) (retire_entry f s))" if t: "fs_tasks s ! k = TaskCancelTable f ow"
    by (rule task_retire [OF ok k t])
      (use ntasks_pos [OF k, of "is_cancelling f"] ntasks_pos [OF k, of "is_cancel_table f"] t in \<open>simp_all add: flight_ok_def cond_table\<close>)
  show "flights_ok (set_task k (TaskNotify f None) (upd_flight f (\<lambda>fl. fl\<lparr>fl_runnable := True\<rparr>) s))" if t: "fs_tasks s ! k = TaskRunnable f"
    by (rule task_upd [OF ok k t]) (simp_all add: flight_ok_def cond_scalars)
  show "flights_ok (set_task k (TaskWake ws ow) (upd_flight f (\<lambda>fl. fl\<lparr>fl_wakers := []\<rparr>) s))" if t: "fs_tasks s ! k = TaskNotify f ow"
    by (rule task_upd [OF ok k t]) (simp_all add: flight_ok_def cond_scalars)
qed

lemma flights_ok_quiet:
  assumes ok: "flights_ok s" and same: "fs_table s' = fs_table s" "fs_flights s' = fs_flights s" "length (fs_subs s') = length (fs_subs s)"
    and tasks: "\<And>f. filter (\<lambda>t. task_flight t = Some f) (fs_tasks s') = filter (\<lambda>t. task_flight t = Some f) (fs_tasks s)"
    and subs: "\<And>f. live_subs f s' = live_subs f s" "\<And>i. i < length (fs_subs s) \<Longrightarrow> sub_ok s' i"
    and range: "\<And>t i. t \<in> set (fs_tasks s') \<Longrightarrow> task_owner t = Some i \<Longrightarrow> i < length (fs_subs s)"
  shows "flights_ok s'"
proof -
  have "flight_ok s' f = flight_ok s f" for f
    by (rule flight_ok_cong) (simp_all add: same subs enlisted_def, (rule ntasks_via_flight [where g = f], erule task_flight_of, rule tasks)+)
  moreover have "f < length (fs_flights s)" if "t \<in> set (fs_tasks s')" "task_flight t = Some f" for t f
  proof -
    have "t \<in> set (filter (\<lambda>t. task_flight t = Some f) (fs_tasks s))" using that by (simp flip: tasks)
    then show ?thesis using ok that(2) unfolding flights_ok_def by auto
  qed
  ultimately show ?thesis using ok subs(2) range unfolding flights_ok_def same by auto
qed

text \<open>A call in progress ends, and its owner goes on to look at the flight.\<close>

lemma task_ends:
  assumes ok: "flights_ok s" and k: "k < length (fs_tasks s)" "\<And>f. \<not> is_poll f (fs_tasks s ! k) \<and> \<not> is_cancelling f (fs_tasks s ! k)"
  shows "flights_ok (owner_done (task_owner (fs_tasks s ! k)) (set_task k TaskDone s))" (is "flights_ok ?s")
proof -
  let ?ow = "task_owner (fs_tasks s ! k)"
  have tasks: "fs_tasks ?s = (fs_tasks s)[k := TaskDone]" by (simp add: owner_done_def flight_view split: option.splits)
  have same: "fs_table ?s = fs_table s" "fs_flights ?s = fs_flights s" "length (fs_subs ?s) = length (fs_subs s)"
    by (simp_all add: owner_done_def flight_view split: option.splits)
  have own: "i < length (fs_subs s)" "su_pc (fs_subs s ! i) = S_Polling" if "?ow = Some i" for i
    using flights_okD(7) [OF ok k(1) that] owner_polling [OF ok k(1) that] by simp_all
  have sub: "fs_subs ?s ! i = (if ?ow = Some i then (fs_subs s ! i)\<lparr>su_pc := S_Check\<rparr> else fs_subs s ! i)" if "i < length (fs_subs s)" for i
    using that own by (auto simp: owner_done_def flight_view split: option.splits)
  have nt: "ntasks P ?s = ntasks P s + of_bool (P TaskDone) - of_bool (P (fs_tasks s ! k))" for P by (rule ntasks_task_moves [OF tasks k(1)])
  have live: "live_subs f ?s = live_subs f s" for f
    using own by (auto simp: owner_done_def flight_view split: option.splits)
  have fo: "flight_ok ?s f = flight_ok s f" for f
  proof (rule flight_ok_cong)
    have "\<not> is_retired f (fs_tasks s ! k)" "\<not> is_cancel_table f (fs_tasks s ! k)" using k(2) [of f] by (cases "fs_tasks s ! k"; simp)+
    then show "ntasks (is_poll f) ?s = ntasks (is_poll f) s" "ntasks (is_cancelling f) ?s = ntasks (is_cancelling f) s"
      "ntasks (is_retired f) ?s = ntasks (is_retired f) s" "ntasks (is_cancel_table f) ?s = ntasks (is_cancel_table f) s"
      using k(2) [of f] by (simp_all add: nt)
  qed (simp_all add: same live enlisted_def)
  have so: "sub_ok ?s i" if "i < length (fs_subs s)" for i
    using flights_okD(5) [OF ok that] own [of i] ntasks_pos [OF k(1), of "\<lambda>t. task_owner t = Some i"]
    by (auto simp: sub_ok_def sub [OF that] nt same)
  have sub_tasks: "x \<in> set (fs_tasks s) \<or> x = TaskDone" if "x \<in> set (fs_tasks ?s)" for x
    using that unfolding tasks by (auto dest!: set_update_subset_insert [THEN subsetD])
  show ?thesis using ok so sub_tasks unfolding flights_ok_def same fo by auto (metis option.distinct(1) task_flight.simps(16) task_owner.simps(16))+
qed

lemma wake_step_ok:
  assumes ok: "flights_ok s" and k: "k < length (fs_tasks s)" "fs_tasks s ! k = TaskWake (i # ws) ow"
  shows "flights_ok (set_task k (TaskWake ws ow) (upd_sub i (\<lambda>su. su\<lparr>su_woken := True\<rparr>) s))" (is "flights_ok ?s")
proof (rule flights_ok_quiet [OF ok])
  show "filter (\<lambda>t. task_flight t = Some f) (fs_tasks ?s) = filter (\<lambda>t. task_flight t = Some f) (fs_tasks s)" for f
    using k by (simp add: flight_view filter_update_other)
  have sub: "su_flight (fs_subs ?s ! j) = su_flight (fs_subs s ! j)" "su_pc (fs_subs ?s ! j) = su_pc (fs_subs s ! j)" for j
    by (cases "i < length (fs_subs s)"; cases "j = i"; simp add: flight_view list_update_beyond)+
  show "live_subs f ?s = live_subs f s" for f
    by (cases "i < length (fs_subs s)") (auto simp: live_subs_def flight_view filter_list_update list_update_beyond)
  show "sub_ok ?s j" if "j < length (fs_subs s)" for j
    using flights_okD(5) [OF ok that] k ntasks_pos [OF k(1), of "\<lambda>t. task_owner t = Some j"] unfolding sub_ok_def sub by (simp add: flight_view)
  show "j < length (fs_subs s)" if "x \<in> set (fs_tasks ?s)" "task_owner x = Some j" for x j
  proof -
    have "x \<in> set (fs_tasks s) \<or> x = TaskWake ws ow" using that(1) by (auto simp: flight_view dest!: set_update_subset_insert [THEN subsetD])
    then show ?thesis using that(2) ok flights_okD(7) [OF ok k(1), of j] k(2) unfolding flights_ok_def by auto
  qed
qed (simp_all add: flight_view)

lemma abandon_ok:
  assumes ok: "flights_ok s" and k: "k < length (fs_tasks s)" "fs_tasks s ! k = TaskAbandon f" and a: "abandons (fs_flights s ! f)"
  shows "flights_ok (set_task k (TaskAbandoned f) (abandon_start f s))" (is "flights_ok ?s")
proof -
  have f: "f < length (fs_flights s)" using flights_okD(6) [OF ok k(1)] k(2) by simp
  note fo = flights_okD(4) [OF ok f]
  have l: "enlisted s f" using fo a by (simp add: flight_ok_def flight_cond_def abandons_def)
  have nt: "ntasks P ?s = ntasks P s + of_bool (P (TaskAbandoned f)) - of_bool (P (TaskAbandon f))" for P
    using k by (simp add: abandon_start_def flight_view ntasks_def filter_list_update)
  have e: "enlisted ?s f = False" using f by (simp add: enlisted_def abandon_start_def flight_view hmap_simps)
  have fl: "fs_flights ?s ! f = (fs_flights s ! f)\<lparr>fl_state := F_Finished\<rparr>" "live_subs f ?s = live_subs f s"
    using f by (simp_all add: abandon_start_def flight_view)
  have "flight_ok ?s f" using fo a unfolding flight_ok_def nt e fl by (simp add: flight_cond_def abandons_def)
  then show ?thesis using k f l
    by (intro task_moves [OF ok k(1), where t' = "TaskAbandoned f" and f = f and u = "\<lambda>fl. fl\<lparr>fl_state := F_Finished\<rparr>"])
      (simp_all add: abandon_start_def flight_view)
qed

lemma range_tasks:
  assumes "flights_ok s" "t \<in> set (fs_tasks s)"
  shows "task_flight t = Some g \<Longrightarrow> g < length (fs_flights s)" "task_owner t = Some i \<Longrightarrow> i < length (fs_subs s)"
  using assms unfolding flights_ok_def by blast+

lemma add_task_ok:
  assumes ok: "flights_ok s" and t: "task_owner t = None" "\<And>f. \<not> is_poll f t \<and> \<not> is_cancelling f t" "\<And>f. task_flight t = Some f \<Longrightarrow> f < length (fs_flights s)"
  shows "flights_ok (add_task t s)"
proof -
  have z: "\<not> is_retired f t" "\<not> is_cancel_table f t" for f using t(2) [of f] by (cases t; simp)+
  have "flight_ok (add_task t s) f = flight_ok s f" for f
    using t(2) [of f] z [of f] by (intro flight_ok_cong) (simp_all add: flight_view enlisted_def)
  moreover have "sub_ok (add_task t s) i = sub_ok s i" for i using t(1) by (simp add: sub_ok_def flight_view)
  ultimately show ?thesis using ok t(1,3) unfolding flights_ok_def by (auto simp: flight_view)
qed

lemma upd_flight_ok:
  assumes ok: "flights_ok s" and f: "f < length (fs_flights s)" and key: "\<And>fl. fl_key (u fl) = fl_key fl"
    and here: "flight_ok s f \<Longrightarrow> flight_cond (live_subs f s) (ntasks (is_poll f) s) (ntasks (is_cancelling f) s) (ntasks (is_cancel_table f) s)
       (ntasks (is_retired f) s) (enlisted s f) (u (fs_flights s ! f))"
  shows "flights_ok (upd_flight f u s)"
proof (rule step_frame [OF ok, where f = f])
  have "enlisted (upd_flight f u s) f = enlisted s f" using f key by (simp add: enlisted_def flight_view)
  then show "flight_ok (upd_flight f u s) f" using here [OF flights_okD(4) [OF ok f]] f by (simp add: flight_ok_def flight_view)
  show "sub_ok (upd_flight f u s) i" if "i < length (fs_subs s)" for i using flights_okD(5) [OF ok that] by (simp add: sub_ok_def flight_view)
  show "fl_key (fs_flights (upd_flight f u s) ! f) = fl_key (fs_flights s ! f)" using f key by (simp add: flight_view)
qed (use flights_okD(1) [OF ok] range_tasks [OF ok] in \<open>simp_all add: flight_view enlisted_def\<close>)

lemma upd_sub_ok:
  assumes ok: "flights_ok s" and i: "i < length (fs_subs s)" "su_pc (fs_subs s ! i) \<notin> {S_Polling, S_Dropped}"
    and v: "su_flight (v (fs_subs s ! i)) = su_flight (fs_subs s ! i)" "su_pc (v (fs_subs s ! i)) \<notin> {S_Polling, S_Dropped}"
  shows "flights_ok (upd_sub i v s)"
proof (rule flights_ok_quiet [OF ok])
  show "live_subs f (upd_sub i v s) = live_subs f s" for f using i v by (simp add: flight_view)
  show "sub_ok (upd_sub i v s) j" if "j < length (fs_subs s)" for j
    using flights_okD(5) [OF ok that] i v by (cases "j = i") (simp_all add: sub_ok_def flight_view)
qed (use range_tasks [OF ok] in \<open>simp_all add: flight_view\<close>)

lemma poll_begin_ok:
  assumes ok: "flights_ok s" and f: "f < length (fs_flights s)" and b: "poll_begins f s"
    and ow: "\<And>i. owner = Some i \<Longrightarrow> i < length (fs_subs s) \<and> su_pc (fs_subs s ! i) \<notin> {S_Polling, S_Dropped}"
  shows "flights_ok (case owner of None \<Rightarrow> poll_begin f owner s | Some i \<Rightarrow> upd_sub i (\<lambda>su. su\<lparr>su_pc := S_Polling\<rparr>) (poll_begin f owner s))" (is "flights_ok ?s")
proof (rule step_frame [OF ok, where f = f])
  have v: "fs_table ?s = fs_table s" "fs_flights ?s = (fs_flights s)[f := (fs_flights s ! f)\<lparr>fl_state := F_Polling, fl_runnable := False\<rparr>]"
    "fs_tasks ?s = fs_tasks s @ [TaskPolling f owner]" "length (fs_subs ?s) = length (fs_subs s)"
    by (simp_all add: poll_begin_def flight_view split: option.splits)
  have nt: "ntasks P ?s = ntasks P s + of_bool (P (TaskPolling f owner))" for P by (simp add: ntasks_def v)
  have sub: "fs_subs ?s ! i = (if owner = Some i then (fs_subs s ! i)\<lparr>su_pc := S_Polling\<rparr> else fs_subs s ! i)" if "i < length (fs_subs s)" for i
    using that ow by (auto simp: poll_begin_def flight_view split: option.splits)
  have live: "live_subs g ?s = live_subs g s" for g
  proof (cases owner)
    case (Some i)
    then show ?thesis using ow [OF Some] by (simp add: poll_begin_def flight_view)
  qed (simp add: poll_begin_def flight_view)
  show "live_subs g ?s = live_subs g s" for g by (rule live)
  have e: "enlisted ?s f = enlisted s f" using f by (simp add: enlisted_def v)
  have "flight_ok s f" by (rule flights_okD(4) [OF ok f])
  then show "flight_ok ?s f" using b f unfolding flight_ok_def nt live e by (simp add: v flight_cond_def poll_begins_def)
  show "sub_ok ?s i" if "i < length (fs_subs s)" for i
    using flights_okD(5) [OF ok that] ow [of i] by (auto simp: sub_ok_def nt sub [OF that] v)
  show "hm_ok (fs_table ?s)" "\<And>key g. hm_get (fs_table ?s) key = Some g \<Longrightarrow> hm_get (fs_table s) key = Some g"
    "\<And>g. g \<noteq> f \<Longrightarrow> enlisted s g \<Longrightarrow> hm_get (fs_table ?s) (fl_key (fs_flights s ! g)) = Some g"
    "length (fs_flights ?s) = length (fs_flights s)" "\<And>g. g \<noteq> f \<Longrightarrow> fs_flights ?s ! g = fs_flights s ! g"
    "fl_key (fs_flights ?s ! f) = fl_key (fs_flights s ! f)" "length (fs_subs ?s) = length (fs_subs s)"
    "\<And>g. g \<noteq> f \<Longrightarrow> filter (\<lambda>t. task_flight t = Some g) (fs_tasks ?s) = filter (\<lambda>t. task_flight t = Some g) (fs_tasks s)"
    using flights_okD(1) [OF ok] f by (simp_all add: v enlisted_def)
  show "g < length (fs_flights s)" if "x \<in> set (fs_tasks ?s)" "task_flight x = Some g" for x g
    using that range_tasks(1) [OF ok] f unfolding v by auto
  show "i < length (fs_subs s)" if "x \<in> set (fs_tasks ?s)" "task_owner x = Some i" for x i
    using that range_tasks(2) [OF ok] ow unfolding v by auto
qed

lemma ntasks_ext: "fs_tasks s' = fs_tasks s \<Longrightarrow> ntasks P s' = ntasks P s"
  by (simp add: ntasks_def)

lemma no_owner_beyond: "flights_ok s \<Longrightarrow> ntasks (\<lambda>t. task_owner t = Some (length (fs_subs s))) s = 0"
  using range_tasks(2) [of s] by (fastforce simp: ntasks_def filter_empty_conv)

lemma no_task_beyond:
  assumes ok: "flights_ok s" and P: "\<And>t. P t \<Longrightarrow> task_flight t = Some (length (fs_flights s))"
  shows "ntasks P s = 0"
  using range_tasks(1) [OF ok] P by (fastforce simp: ntasks_def filter_empty_conv)

lemma live_append: "live_subs f (s\<lparr>fs_subs := fs_subs s0 @ [su]\<rparr>) =
    length (filter (\<lambda>su. su_flight su = f \<and> su_pc su \<noteq> S_Dropped) (fs_subs s0)) + of_bool (su_flight su = f \<and> su_pc su \<noteq> S_Dropped)"
  by (simp add: live_subs_def)

lemma live_beyond: "flights_ok s \<Longrightarrow> length (fs_flights s) \<le> f \<Longrightarrow> live_subs f s = 0"
proof -
  assume ok: "flights_ok s" and f: "length (fs_flights s) \<le> f"
  have "su_flight su < length (fs_flights s)" if su: "su \<in> set (fs_subs s)" for su
  proof -
    obtain i where "i < length (fs_subs s)" "fs_subs s ! i = su" using su by (auto simp: in_set_conv_nth)
    then show ?thesis using flights_okD(5) [OF ok, of i] by (simp add: sub_ok_def)
  qed
  then show "live_subs f s = 0" using f by (fastforce simp: live_subs_def filter_empty_conv)
qed

lemma acquire_joins_ok:
  assumes ok: "flights_ok s" and h: "hm_get (fs_table s) key = Some f"
  shows "flights_ok (flights_acquire key s)" (is "flights_ok ?s")
proof -
  have f: "f < length (fs_flights s)" "fl_key (fs_flights s ! f) = key" using flights_okD(2,3) [OF ok h] by simp_all
  have v: "fs_table ?s = fs_table s" "fs_tasks ?s = fs_tasks s" "fs_subs ?s = fs_subs s @ [new_subscription f False]"
    "fs_flights ?s = (fs_flights s)[f := (fs_flights s ! f)\<lparr>fl_subscribers := fl_subscribers (fs_flights s ! f) + 1\<rparr>]"
    using h by (simp_all add: flights_acquire_def flight_view)
  note nt = ntasks_ext [OF v(2)]
  have live: "live_subs g ?s = live_subs g s + of_bool (g = f)" for g by (simp add: live_subs_def v new_subscription_def)
  have keys: "fl_key (fs_flights ?s ! g) = fl_key (fs_flights s ! g)" for g using f by (cases "g = f") (simp_all add: v)
  have e: "enlisted ?s g = enlisted s g" for g unfolding enlisted_def keys by (simp add: v(1))
  have fo: "flight_ok ?s g" if "g < length (fs_flights s)" for g
  proof (cases "g = f")
    case True
    have "enlisted s f" using h f by (simp add: enlisted_def)
    then show ?thesis using True flights_okD(4) [OF ok f(1)] f unfolding flight_ok_def e live nt by (auto simp: v flight_cond_def)
  next
    case False
    then show ?thesis using flights_okD(4) [OF ok that] by (simp add: flight_ok_def e live v nt)
  qed
  have so: "sub_ok ?s i" if "i < length (fs_subs s) + 1" for i
  proof (cases "i < length (fs_subs s)")
    case True
    then show ?thesis using flights_okD(5) [OF ok True] by (simp add: sub_ok_def nt v nth_append)
  next
    case False
    then have "i = length (fs_subs s)" using that by simp
    then show ?thesis using no_owner_beyond [OF ok] f by (simp add: sub_ok_def nt v new_subscription_def)
  qed
  show ?thesis unfolding flights_ok_def
  proof (intro conjI allI impI ballI)
    show "hm_ok (fs_table ?s)" using flights_okD(1) [OF ok] by (simp add: v)
    show "g < length (fs_flights ?s)" if "hm_get (fs_table ?s) x = Some g" for x g using flights_okD(2) [OF ok] that by (simp add: v)
    show "fl_key (fs_flights ?s ! g) = x" if "hm_get (fs_table ?s) x = Some g" for x g using flights_okD(3) [OF ok] that unfolding keys by (simp add: v)
    show "flight_ok ?s g" if "g < length (fs_flights ?s)" for g using fo that by (simp add: v)
    show "sub_ok ?s i" if "i < length (fs_subs ?s)" for i using so that by (simp add: v)
    show "g < length (fs_flights ?s)" if "x \<in> set (fs_tasks ?s)" "task_flight x = Some g" for x g using range_tasks(1) [OF ok] that by (simp add: v)
    show "i < length (fs_subs ?s)" if "x \<in> set (fs_tasks ?s)" "task_owner x = Some i" for x i using range_tasks(2) [OF ok] that by (auto simp: v intro: less_SucI)
  qed
qed

lemma acquire_leads_ok:
  assumes ok: "flights_ok s" and h: "hm_get (fs_table s) key = None"
  shows "flights_ok (flights_acquire key s)" (is "flights_ok ?s")
proof -
  let ?n = "length (fs_flights s)"
  have v: "fs_table ?s = hm_insert key ?n (fs_table s)" "fs_tasks ?s = fs_tasks s" "fs_subs ?s = fs_subs s @ [new_subscription ?n True]"
    "fs_flights ?s = fs_flights s @ [new_flight key]" using h by (simp_all add: flights_acquire_def)
  note nt = ntasks_ext [OF v(2)]
  have live: "live_subs g ?s = live_subs g s + of_bool (g = ?n)" for g by (simp add: live_subs_def v new_subscription_def)
  have nth: "fs_flights ?s ! g = fs_flights s ! g" if "g < ?n" for g using that by (simp add: v nth_append)
  have e: "enlisted ?s g = enlisted s g" if "g < ?n" for g
    using that h unfolding enlisted_def nth [OF that] v(1) by (auto simp: hmap_simps split: if_splits)
  have fo: "flight_ok ?s g" if "g < ?n" for g
    using flights_okD(4) [OF ok that] that unfolding flight_ok_def e [OF that] live nt by (simp add: nth)
  have "ntasks (is_poll ?n) s = 0" "ntasks (is_cancelling ?n) s = 0" "ntasks (is_cancel_table ?n) s = 0" "ntasks (is_retired ?n) s = 0"
    by (intro no_task_beyond [OF ok], erule task_flight_of)+
  then have new: "flight_ok ?s ?n"
    using live_beyond [OF ok, of ?n] by (simp add: flight_ok_def flight_cond_def live nt v new_flight_def enlisted_def hmap_simps)
  have so: "sub_ok ?s i" if "i < length (fs_subs s) + 1" for i
  proof (cases "i < length (fs_subs s)")
    case True
    then show ?thesis using flights_okD(5) [OF ok True] by (simp add: sub_ok_def nt v nth_append)
  next
    case False
    then have "i = length (fs_subs s)" using that by simp
    then show ?thesis using no_owner_beyond [OF ok] by (simp add: sub_ok_def nt v new_subscription_def)
  qed
  show ?thesis unfolding flights_ok_def
  proof (intro conjI allI impI ballI)
    show "hm_ok (fs_table ?s)" using flights_okD(1) [OF ok] by (simp add: v)
    show "g < length (fs_flights ?s)" if "hm_get (fs_table ?s) x = Some g" for x g
      using flights_okD(2) [OF ok, of x g] that by (auto simp: v hmap_simps split: if_splits)
    show "fl_key (fs_flights ?s ! g) = x" if "hm_get (fs_table ?s) x = Some g" for x g
      using flights_okD(2,3) [OF ok, of x g] that by (auto simp: v hmap_simps nth_append new_flight_def split: if_splits)
    show "flight_ok ?s g" if "g < length (fs_flights ?s)" for g using fo new that by (cases "g = ?n") (simp_all add: v)
    show "sub_ok ?s i" if "i < length (fs_subs ?s)" for i using so that by (simp add: v)
    show "g < length (fs_flights ?s)" if "x \<in> set (fs_tasks ?s)" "task_flight x = Some g" for x g using range_tasks(1) [OF ok] that by (auto simp: v intro: less_SucI)
    show "i < length (fs_subs ?s)" if "x \<in> set (fs_tasks ?s)" "task_owner x = Some i" for x i using range_tasks(2) [OF ok] that by (auto simp: v intro: less_SucI)
  qed
qed

lemma drop_sub_ok:
  assumes ok: "flights_ok s" and i: "i < length (fs_subs s)" "su_pc (fs_subs s ! i) \<notin> {S_Polling, S_Dropped}"
  shows "flights_ok (subscription_drop i s)" (is "flights_ok ?s")
proof -
  let ?f = "su_flight (fs_subs s ! i)"
  have f: "?f < length (fs_flights s)" using flights_okD(5) [OF ok i(1)] by (simp add: sub_ok_def)
  define fl' where "fl' = (let fl = fs_flights s ! ?f; n = fl_subscribers fl - 1 in
     fl\<lparr>fl_subscribers := n, fl_state := (if n = 0 \<and> has_completion fl then F_Finished else fl_state fl)\<rparr>)"
  define s1 where "s1 = upd_sub i (\<lambda>su. su\<lparr>su_pc := S_Dropped\<rparr>) (upd_flight ?f (\<lambda>_. fl') s)"
  obtain t where t: "?s = add_task t s1" "t = TaskAbandon ?f \<or> t = TaskRunnable ?f"
    by (auto simp: subscription_drop_def s1_def fl'_def Let_def upd_flight_def)
  have v: "fs_table s1 = fs_table s" "fs_tasks s1 = fs_tasks s" "fs_flights s1 = (fs_flights s)[?f := fl']" by (simp_all add: s1_def flight_view)
  note nt = ntasks_ext [OF v(2)]
  have live: "live_subs g s1 = live_subs g s - of_bool (g = ?f)" for g using i by (auto simp: s1_def flight_view)
  have pos: "0 < live_subs ?f s" using live_subs_pos [OF i(1) refl] i(2) by simp
  have key: "fl_key fl' = fl_key (fs_flights s ! ?f)" by (simp add: fl'_def Let_def)
  have e: "enlisted s1 ?f = enlisted s ?f" using f key by (simp add: enlisted_def v)
  have "flights_ok s1"
  proof (rule step_frame [OF ok, where f = ?f])
    have "flight_ok s ?f" by (rule flights_okD(4) [OF ok f])
    then have "flight_cond (live_subs ?f s - 1) (ntasks (is_poll ?f) s) (ntasks (is_cancelling ?f) s) (ntasks (is_cancel_table ?f) s)
       (ntasks (is_retired ?f) s) (enlisted s ?f) fl'"
      unfolding flight_ok_def fl'_def Let_def by (rule cond_drop [OF _ pos])
    then show "flight_ok s1 ?f" using f unfolding flight_ok_def e live nt by (simp add: v)
    show "sub_ok s1 j" if "j < length (fs_subs s)" for j
      using flights_okD(5) [OF ok that] i by (cases "j = i") (simp_all add: sub_ok_def nt v s1_def flight_view)
    show "live_subs g s1 = live_subs g s" if "g \<noteq> ?f" for g using that by (simp add: live)
  qed (use flights_okD(1) [OF ok] range_tasks [OF ok] key f in \<open>simp_all add: v enlisted_def\<close>, simp add: s1_def flight_view)
  then show ?thesis using t f by (auto simp: v intro!: add_task_ok)
qed

lemma check_ok:
  assumes ok: "flights_ok s" and i: "i < length (fs_subs s)" "su_pc (fs_subs s ! i) \<notin> {S_Polling, S_Dropped}"
  shows "flights_ok (fst (try_complete i s))"
proof -
  let ?f = "su_flight (fs_subs s ! i)"
  have f: "?f < length (fs_flights s)" using flights_okD(5) [OF ok i(1)] by (simp add: sub_ok_def)
  show ?thesis
  proof (cases "state_of s ?f")
    case (F_Completed t)
    have "flights_ok (upd_flight ?f (\<lambda>fl. fl\<lparr>fl_state := after_completion (su_leader (fs_subs s ! i)) t\<rparr>) s)"
      by (rule upd_flight_ok [OF ok f]) (use F_Completed in \<open>cases t; simp_all add: flight_ok_def flight_cond_def after_completion_def\<close>)+
    then show ?thesis using F_Completed i by (simp add: try_complete_def Let_def) (rule upd_sub_ok; simp add: flight_view)
  qed (use ok i in \<open>simp_all add: try_complete_def Let_def upd_sub_ok\<close>)
qed

lemma task_step_ok:
  assumes ok: "flights_ok s" and k: "k < length (fs_tasks s)" and st: "task_step k (fs_tasks s ! k) s = Some s'"
  shows "flights_ok s'"
proof -
  note pk = poll_stage_ok [OF ok k] cancel_stage_ok [OF ok k]
  show ?thesis
  proof (cases "fs_tasks s ! k")
    case (TaskRecheck f ow)
    then show ?thesis using st pk(9) [OF TaskRecheck] task_ends [OF ok k] by (auto split: option.splits)
  next
    case (TaskAbandon f)
    then show ?thesis using st pk(12) [OF TaskAbandon] abandon_ok [OF ok k TaskAbandon] by (auto split: if_splits)
  next
    case (TaskAbandoned f)
    have "f < length (fs_flights s)" using flights_okD(6) [OF ok k] TaskAbandoned by simp
    then show ?thesis using st TaskAbandoned pk(13) [OF TaskAbandoned, of ScopeFinished] by (auto intro!: add_task_ok simp: flight_view)
  next
    case (TaskWake ws ow)
    show ?thesis
    proof (cases ws)
      case Nil
      then show ?thesis using st TaskWake task_ends [OF ok k] by auto
    next
      case (Cons i vs)
      then show ?thesis using st TaskWake wake_step_ok [OF ok k, of i vs ow] by auto
    qed
  qed (use st pk in auto)
qed

lemma returned_ok:
  assumes ok: "flights_ok s" and k: "k < length (fs_tasks s)" "fs_tasks s ! k = TaskPolling f ow"
  shows "flights_ok (set_task k (poll_returned f ow out s) (mark_panicked f out s))"
proof -
  obtain u where u: "mark_panicked f out s = upd_flight f u s" "u = (\<lambda>fl. fl) \<or> u = (\<lambda>fl. fl\<lparr>fl_panicked := True\<rparr>)"
  proof (cases out)
    case (PollPanic p)
    show ?thesis by (rule that [of "\<lambda>fl. fl\<lparr>fl_panicked := True\<rparr>"]) (simp_all add: mark_panicked_def PollPanic)
  qed (rule that [of "\<lambda>fl. fl"]; simp add: mark_panicked_def upd_flight_def)+
  have t: "(\<exists>t. poll_returned f ow out s = TaskRetire f t ow) \<or> poll_returned f ow out s = TaskYield f ow"
    by (simp add: poll_returned_def split: poll_outcome.splits option.splits)
  show ?thesis unfolding u(1) by (rule task_upd [OF ok k]) (use t u(2) in \<open>auto simp: flight_ok_def cond_scalars\<close>)
qed

lemma flight_act_ok:
  assumes ok: "flights_ok s" and a: "flight_act ev s = Some s'"
  shows "flights_ok s'"
proof (cases ev)
  case (EvAcquire key)
  then show ?thesis using a acquire_joins_ok [OF ok, of key] acquire_leads_ok [OF ok, of key] by (cases "hm_get (fs_table s) key") auto
next
  case (EvInstall f)
  have "flights_ok (upd_flight f (\<lambda>fl. fl\<lparr>fl_state := F_Pending\<rparr>) s)" if "f < length (fs_flights s)" "state_of s f = F_Starting"
    by (rule upd_flight_ok [OF ok that(1)]) (use that(2) in \<open>auto simp: flight_ok_def flight_cond_def\<close>)
  then show ?thesis using a ok EvInstall by (auto simp: flight_install_def split: if_splits)
next
  case (EvRegister i)
  then have i: "i < length (fs_subs s)" "su_pc (fs_subs s ! i) = S_Idle" and s': "s' = sub_register i s" using a by (auto split: if_splits)
  have f: "su_flight (fs_subs s ! i) < length (fs_flights s)" using flights_okD(5) [OF ok i(1)] by (simp add: sub_ok_def)
  show ?thesis unfolding s' sub_register_def
    by (rule upd_sub_ok [OF upd_flight_ok [OF ok f]]) (use i in \<open>simp_all add: flight_view flight_ok_def cond_scalars\<close>)
next
  case (EvArm i)
  then have i: "i < length (fs_subs s)" "su_pc (fs_subs s ! i) = S_Registered" and s': "s' = sub_arm i s" using a by (auto split: if_splits)
  have f: "su_flight (fs_subs s ! i) < length (fs_flights s)" using flights_okD(5) [OF ok i(1)] by (simp add: sub_ok_def)
  have "flights_ok (upd_flight (su_flight (fs_subs s ! i)) (\<lambda>fl. fl\<lparr>fl_runnable := True\<rparr>) s)"
    by (rule upd_flight_ok [OF ok f]) (simp_all add: flight_ok_def cond_scalars)
  then show ?thesis unfolding s' sub_arm_def using ok i by (intro upd_sub_ok) (simp_all add: flight_view)
next
  case (EvPollWork i)
  then have i: "i < length (fs_subs s)" "su_pc (fs_subs s ! i) \<notin> {S_Polling, S_Dropped}" and s': "s' = sub_poll_work i s" using a by (auto split: if_splits)
  have f: "su_flight (fs_subs s ! i) < length (fs_flights s)" using flights_okD(5) [OF ok i(1)] by (simp add: sub_ok_def)
  show ?thesis using poll_begin_ok [OF ok f, of "Some i"] upd_sub_ok [OF ok i, of "\<lambda>su. su\<lparr>su_pc := S_Check\<rparr>"] i
    unfolding s' sub_poll_work_def Let_def by auto
next
  case (EvDriverArm f)
  have "flights_ok (upd_flight f (\<lambda>fl. fl\<lparr>fl_runnable := True\<rparr>) s)" if "f < length (fs_flights s)"
    by (rule upd_flight_ok [OF ok that]) (simp_all add: flight_ok_def cond_scalars)
  then show ?thesis using a EvDriverArm by (auto split: if_splits)
next
  case (EvDriver f)
  then show ?thesis using a ok poll_begin_ok [OF ok, of f None] by (auto simp: driver_poll_work_def split: if_splits)
next
  case (EvReturned k out)
  then show ?thesis using a returned_ok [OF ok] by (auto split: if_splits flight_task.splits)
next
  case (EvTask k)
  then show ?thesis using a task_step_ok [OF ok] by (auto split: if_splits)
next
  case (EvCheck i)
  then show ?thesis using a check_ok [OF ok, of i] by (auto split: if_splits)
next
  case (EvDrop i)
  then show ?thesis using a drop_sub_ok [OF ok, of i] by (auto split: if_splits)
next
  case (EvCancel f r)
  then show ?thesis using a ok by (auto intro!: add_task_ok split: if_splits)
next
  case (EvRequest f r)
  have "flights_ok (upd_flight f (request_cancel r) s)" if "f < length (fs_flights s)"
    by (rule upd_flight_ok [OF ok that]) (use cond_request [where x = 0] in \<open>simp_all add: flight_ok_def flight_view\<close>)
  then show ?thesis using a EvRequest by (auto split: if_splits)
next
  case (EvWake f)
  then show ?thesis using a ok by (auto intro!: add_task_ok split: if_splits)
qed

interpretation flights: guarded_machine flight_act flights_ok
  by unfold_locales (rule flight_act_ok)

lemma Flights_new_ok: "flights_ok Flights_new"
  by (simp add: flights_ok_def Flights_new_def)

section \<open>At most one running flight per identity\<close>

definition running :: "('k, 'v, 'p) flights \<Rightarrow> nat \<Rightarrow> bool" where
  "running s f \<longleftrightarrow> f < length (fs_flights s) \<and> state_of s f \<in> {F_Starting, F_Pending, F_Polling}
     \<and> fl_reason (fs_flights s ! f) = None \<and> ntasks (is_retired f) s = 0"

lemma running_enlisted: "flights_ok s \<Longrightarrow> running s f \<Longrightarrow> enlisted s f"
  using flights_okD(4) [of s f] by (auto simp: running_def flight_ok_def flight_cond_def)

text \<open>
  C15. Single flight: in every reachable state, under every interleaving of callers, pollers,
  cancellations and drops, no two flights of the same identity run uncancelled at the same time,
  and a caller that arrives while one runs joins it as a follower instead of starting work.
  (A flight runs until its completion has taken it out of the table.)
\<close>
theorem one_running_flight_per_key:
  assumes "run_guarded flight_act evs Flights_new = Some s" and "running s f"
  shows "(\<forall>g. running s g \<and> fl_key (fs_flights s ! g) = fl_key (fs_flights s ! f) \<longrightarrow> g = f)
    \<and> flights_active (fl_key (fs_flights s ! f)) s = Some f
    \<and> fs_subs (flights_acquire (fl_key (fs_flights s ! f)) s) = fs_subs s @ [new_subscription f False]
    \<and> length (fs_flights (flights_acquire (fl_key (fs_flights s ! f)) s)) = length (fs_flights s)"
proof -
  have ok: "flights_ok s" by (rule flights.run_ok [OF Flights_new_ok assms(1)])
  have e: "hm_get (fs_table s) (fl_key (fs_flights s ! f)) = Some f" using running_enlisted [OF ok assms(2)] by (simp add: enlisted_def)
  have "g = f" if "running s g" "fl_key (fs_flights s ! g) = fl_key (fs_flights s ! f)" for g
    using running_enlisted [OF ok that(1)] e unfolding enlisted_def that(2) by simp
  moreover have "flights_acquire (fl_key (fs_flights s ! f)) s = (upd_flight f (\<lambda>fl. fl\<lparr>fl_subscribers := fl_subscribers fl + 1\<rparr>) s)
      \<lparr>fs_subs := fs_subs s @ [new_subscription f False]\<rparr>" unfolding flights_acquire_def e by simp
  ultimately show ?thesis using e by (simp add: flights_active_def flight_view)
qed

lemmas flight_run_defs = flights_acquire_def flight_install_def sub_poll_work_def poll_begins_def poll_begin_def new_subscription_def
  new_flight_def upd_flight_def upd_sub_def add_task_def set_task_def running_def ntasks_def Let_def

definition demo_flights :: "(string, nat, nat) flight_event list" where
  "demo_flights = [EvAcquire ''k'', EvInstall 0, EvPollWork 0, EvAcquire ''k'']"

theorem one_running_flight_per_key_witness:
  "flights_active ''k'' (the (run_guarded flight_act demo_flights Flights_new)) = Some 0"
proof -
  have "(case run_guarded flight_act demo_flights Flights_new of None \<Rightarrow> False | Some s \<Rightarrow> running s 0 \<and> fl_key (fs_flights s ! 0) = ''k'')"
    by (simp add: demo_flights_def Flights_new_def flight_run_defs)
  then obtain s where s: "run_guarded flight_act demo_flights Flights_new = Some s" "running s 0" "fl_key (fs_flights s ! 0) = ''k''"
    by (auto split: option.splits)
  show ?thesis using one_running_flight_per_key [OF s(1,2)] s by simp
qed

section \<open>What a subscriber is promised\<close>

definition awaiting :: "('k, 'v, 'p) flights \<Rightarrow> nat \<Rightarrow> bool" where
  "awaiting s i \<longleftrightarrow> i < length (fs_subs s) \<and> su_pc (fs_subs s ! i) \<notin> {S_Consumed, S_Dropped, S_Panic}"

lemma two_live:
  assumes "i < length (fs_subs s)" "j < length (fs_subs s)" "i \<noteq> j" "su_flight (fs_subs s ! i) = f" "su_flight (fs_subs s ! j) = f"
    "su_pc (fs_subs s ! i) \<noteq> S_Dropped" "su_pc (fs_subs s ! j) \<noteq> S_Dropped"
  shows "2 \<le> live_subs f s"
proof -
  have "live_subs f (upd_sub j (\<lambda>su. su\<lparr>su_pc := S_Dropped\<rparr>) s) = live_subs f s - 1" using assms by (simp add: flight_view)
  moreover have "0 < live_subs f (upd_sub j (\<lambda>su. su\<lparr>su_pc := S_Dropped\<rparr>) s)"
    using assms by (intro live_subs_pos [of i]) (simp_all add: flight_view)
  ultimately show ?thesis by simp
qed

lemma fs_flights_owner_done [flight_view]: "fs_flights (owner_done ow s) = fs_flights s" "fs_table (owner_done ow s) = fs_table s"
  "fs_tasks (owner_done ow s) = fs_tasks s"
  by (simp_all add: owner_done_def flight_view split: option.splits)

lemma owner_done_sub:
  "i < length (fs_subs s) \<Longrightarrow> fs_subs (owner_done ow s) ! i = (if ow = Some i then (fs_subs s ! i)\<lparr>su_pc := S_Check\<rparr> else fs_subs s ! i)"
  "length (fs_subs (owner_done ow s)) = length (fs_subs s)"
  by (auto simp: owner_done_def flight_view nth_list_update split: option.splits)

lemma nth_upd: "i < length xs \<Longrightarrow> xs[a := v] ! i = (if a = i then v else xs ! i)"
  by (cases "a < length xs") (simp_all add: list_update_beyond)

text \<open>The part of a step of a call in progress that concerns the subscriptions.\<close>

lemma task_step_sub:
  assumes ok: "flights_ok s" and k: "k < length (fs_tasks s)" and st: "task_step k (fs_tasks s ! k) s = Some s'" and i: "i < length (fs_subs s)"
  shows "length (fs_subs s') = length (fs_subs s)" "su_flight (fs_subs s' ! i) = su_flight (fs_subs s ! i)" "su_leader (fs_subs s' ! i) = su_leader (fs_subs s ! i)"
    "su_pc (fs_subs s' ! i) \<noteq> su_pc (fs_subs s ! i) \<Longrightarrow> su_pc (fs_subs s ! i) = S_Polling \<and> su_pc (fs_subs s' ! i) = S_Check"
proof -
  have own: "task_owner (fs_tasks s ! k) = Some i \<Longrightarrow> su_pc (fs_subs s ! i) = S_Polling" by (rule owner_polling [OF ok k])
  have "length (fs_subs s') = length (fs_subs s) \<and> su_flight (fs_subs s' ! i) = su_flight (fs_subs s ! i) \<and> su_leader (fs_subs s' ! i) = su_leader (fs_subs s ! i)
    \<and> (su_pc (fs_subs s' ! i) \<noteq> su_pc (fs_subs s ! i) \<longrightarrow> su_pc (fs_subs s ! i) = S_Polling \<and> su_pc (fs_subs s' ! i) = S_Check)"
  proof (cases "fs_tasks s ! k")
    case (TaskRecheck f ow)
    then show ?thesis using st own i owner_done_sub(1) [of i "set_task k TaskDone s" ow] owner_done_sub(2) [of ow "set_task k TaskDone s"] by (auto simp: flight_view split: option.splits)
  next
    case (TaskWake ws ow)
    then show ?thesis using st own i owner_done_sub(1) [of i "set_task k TaskDone s" ow] owner_done_sub(2) [of ow "set_task k TaskDone s"] by (cases ws) (auto simp: flight_view nth_upd split: if_splits)
  next
    case (TaskAbandon f)
    then show ?thesis using st by (auto simp: abandon_start_def flight_view split: if_splits)
  qed (use st in \<open>auto simp: flight_view\<close>)
  then show "length (fs_subs s') = length (fs_subs s)" "su_flight (fs_subs s' ! i) = su_flight (fs_subs s ! i)" "su_leader (fs_subs s' ! i) = su_leader (fs_subs s ! i)"
    "su_pc (fs_subs s' ! i) \<noteq> su_pc (fs_subs s ! i) \<Longrightarrow> su_pc (fs_subs s ! i) = S_Polling \<and> su_pc (fs_subs s' ! i) = S_Check" by blast+
qed

text \<open>
  Which steps end a flight: a completion nobody waits for, the completion of the only subscriber,
  the drop of the last one. As long as another subscriber waits, none of them does.
\<close>

lemma state_step:
  assumes ok: "flights_ok s" and a: "flight_act ev s = Some s'" and i: "awaiting s i" "awaiting s' i" and f: "su_flight (fs_subs s ! i) = f"
  shows "state_of s f \<noteq> F_Finished \<Longrightarrow> state_of s' f \<noteq> F_Finished"
    "state_of s f = F_Completed t \<Longrightarrow> state_of s' f = F_Completed t \<or>
       (\<exists>j. j \<noteq> i \<and> ev = EvCheck j \<and> j < length (fs_subs s) \<and> su_flight (fs_subs s ! j) = f \<and> state_of s' f = after_completion (su_leader (fs_subs s ! j)) t
          \<and> (\<forall>r. t \<noteq> T_Owned r))"
proof -
  have il: "i < length (fs_subs s)" "su_pc (fs_subs s ! i) \<noteq> S_Dropped" using i(1) by (auto simp: awaiting_def)
  have fl: "f < length (fs_flights s)" using flights_okD(5) [OF ok il(1)] f by (simp add: sub_ok_def)
  have pos: "0 < fl_subscribers (fs_flights s ! f)" "fl_subscribers (fs_flights s ! f) = live_subs f s"
    using flights_okD(4) [OF ok fl] live_subs_pos [OF il(1) f il(2)] by (simp_all add: flight_ok_def flight_cond_def)
  have nopoll: "k < length (fs_tasks s) \<Longrightarrow> is_poll f (fs_tasks s ! k) \<Longrightarrow> state_of s f = F_Polling" for k
    using polling_task(1) [OF flights_okD(4) [OF ok fl]] by blast
  have main: "(state_of s f \<noteq> F_Finished \<longrightarrow> state_of s' f \<noteq> F_Finished) \<and>
     (state_of s f = F_Completed t \<longrightarrow> state_of s' f = F_Completed t \<or>
       (\<exists>j. j \<noteq> i \<and> ev = EvCheck j \<and> j < length (fs_subs s) \<and> su_flight (fs_subs s ! j) = f \<and> state_of s' f = after_completion (su_leader (fs_subs s ! j)) t
          \<and> (\<forall>r. t \<noteq> T_Owned r)))"
  proof (cases ev)
    case (EvAcquire key)
    then show ?thesis using a fl by (auto simp: flights_acquire_def flight_view nth_append nth_upd split: option.splits if_splits)
  next
    case (EvInstall g)
    then show ?thesis using a fl by (auto simp: flight_install_def flight_view nth_upd split: if_splits)
  next
    case (EvRegister j)
    then show ?thesis using a fl by (auto simp: sub_register_def flight_view nth_upd split: if_splits)
  next
    case (EvArm j)
    then show ?thesis using a fl by (auto simp: sub_arm_def flight_view nth_upd split: if_splits)
  next
    case (EvPollWork j)
    then show ?thesis using a fl by (auto simp: sub_poll_work_def poll_begin_def poll_begins_def Let_def flight_view nth_upd split: if_splits)
  next
    case (EvDriverArm g)
    then show ?thesis using a fl by (auto simp: flight_view nth_upd split: if_splits)
  next
    case (EvDriver g)
    then show ?thesis using a fl by (auto simp: driver_poll_work_def poll_begin_def poll_begins_def flight_view nth_upd split: if_splits)
  next
    case (EvReturned k out)
    then show ?thesis using a fl by (auto simp: mark_panicked_def flight_view nth_upd split: if_splits flight_task.splits poll_outcome.splits)
  next
    case (EvTask k)
    then have k: "k < length (fs_tasks s)" and st: "task_step k (fs_tasks s ! k) s = Some s'" using a by (auto split: if_splits)
    show ?thesis
    proof (cases "fs_tasks s ! k")
      case (TaskYield g ow)
      then show ?thesis using st fl nopoll [OF k] by (auto simp: flight_view nth_upd split: if_splits)
    next
      case (TaskPublish g u ow)
      then show ?thesis using st fl nopoll [OF k] pos by (auto simp: flight_view nth_upd publish_def Let_def split: if_splits)
    next
      case (TaskCancelCell g r ow)
      then show ?thesis using st fl by (auto simp: flight_view nth_upd cancel_cell_def split: if_splits)
    next
      case (TaskAbandon g)
      then show ?thesis using st fl pos by (auto simp: flight_view nth_upd abandon_start_def abandons_def split: if_splits)
    next
      case (TaskWake ws ow)
      then show ?thesis using st by (cases ws) (auto simp: flight_view)
    qed (use st fl in \<open>auto simp: flight_view nth_upd split: option.splits if_splits\<close>)
  next
    case (EvCheck j)
    then have j: "j < length (fs_subs s)" "su_pc (fs_subs s ! j) \<noteq> S_Dropped" and s': "s' = fst (try_complete j s)" using a by (auto split: if_splits)
    show ?thesis
    proof (cases "su_flight (fs_subs s ! j) = f")
      case True
      show ?thesis
      proof (cases "state_of s f")
        case (F_Completed u)
        have "j \<noteq> i" using i(2) F_Completed True il(1) unfolding s' by (auto simp: try_complete_def Let_def awaiting_def flight_view)
        then have "live_subs f s \<noteq> 1" using two_live [of i s j f] il j f True by auto
        then have "u \<noteq> T_Owned r" for r using flights_okD(4) [OF ok fl] F_Completed pos by (auto simp: flight_ok_def flight_cond_def)
        then show ?thesis using F_Completed True fl j(1) \<open>j \<noteq> i\<close> EvCheck unfolding s'
          by (cases u) (auto simp: try_complete_def Let_def flight_view nth_upd after_completion_def split: if_splits)
      qed (auto simp: s' try_complete_def Let_def True flight_view)
    next
      case False
      then show ?thesis unfolding s' using fl by (auto simp: try_complete_def Let_def flight_view nth_upd split: flight_state.splits if_splits)
    qed
  next
    case (EvDrop j)
    then have j: "j < length (fs_subs s)" "su_pc (fs_subs s ! j) \<noteq> S_Dropped" and s': "s' = subscription_drop j s" using a by (auto split: if_splits)
    have "j \<noteq> i" using i(2) il(1) unfolding s' by (auto simp: subscription_drop_def Let_def awaiting_def flight_view)
    then have "su_flight (fs_subs s ! j) = f \<Longrightarrow> 2 \<le> fl_subscribers (fs_flights s ! f)" using two_live [of i s j f] il j f pos by simp
    then show ?thesis unfolding s' using fl by (auto simp: subscription_drop_def Let_def flight_view nth_upd split: if_splits)
  next
    case (EvCancel g r)
    then show ?thesis using a by (auto simp: flight_view split: if_splits)
  next
    case (EvRequest g r)
    then show ?thesis using a fl by (auto simp: flight_view nth_upd split: if_splits)
  next
    case (EvWake g)
    then show ?thesis using a by (auto simp: flight_view split: if_splits)
  qed
  then show "state_of s f \<noteq> F_Finished \<Longrightarrow> state_of s' f \<noteq> F_Finished"
    "state_of s f = F_Completed t \<Longrightarrow> state_of s' f = F_Completed t \<or>
       (\<exists>j. j \<noteq> i \<and> ev = EvCheck j \<and> j < length (fs_subs s) \<and> su_flight (fs_subs s ! j) = f \<and> state_of s' f = after_completion (su_leader (fs_subs s ! j)) t
          \<and> (\<forall>r. t \<noteq> T_Owned r))" by blast+
qed

text \<open>Every flight has exactly one leader, the caller that created it.\<close>

definition led :: "('k, 'v, 'p) flights \<Rightarrow> bool" where
  "led s \<longleftrightarrow> (\<forall>i j. i < length (fs_subs s) \<and> j < length (fs_subs s) \<and> su_leader (fs_subs s ! i) \<and> su_leader (fs_subs s ! j)
     \<and> su_flight (fs_subs s ! i) = su_flight (fs_subs s ! j) \<longrightarrow> i = j)"

lemma sub_step:
  assumes ok: "flights_ok s" and a: "flight_act ev s = Some s'" and i: "i < length (fs_subs s)"
  shows "su_flight (fs_subs s' ! i) = su_flight (fs_subs s ! i)" "su_leader (fs_subs s' ! i) = su_leader (fs_subs s ! i)"
    "length (fs_subs s) \<le> length (fs_subs s')" "(\<And>key. ev \<noteq> EvAcquire key) \<Longrightarrow> length (fs_subs s') = length (fs_subs s)"
    "\<not> awaiting s i \<Longrightarrow> su_pc (fs_subs s ! i) \<noteq> S_Panic \<Longrightarrow> \<not> awaiting s' i \<and> su_pc (fs_subs s' ! i) \<noteq> S_Panic"
    "awaiting s i \<Longrightarrow> state_of s (su_flight (fs_subs s ! i)) \<noteq> F_Finished \<Longrightarrow> su_pc (fs_subs s' ! i) \<noteq> S_Panic"
proof -
  have m: "su_flight (fs_subs s' ! i) = su_flight (fs_subs s ! i) \<and> su_leader (fs_subs s' ! i) = su_leader (fs_subs s ! i)
    \<and> length (fs_subs s) \<le> length (fs_subs s') \<and> ((\<forall>key. ev \<noteq> EvAcquire key) \<longrightarrow> length (fs_subs s') = length (fs_subs s))
    \<and> (\<not> awaiting s i \<and> su_pc (fs_subs s ! i) \<noteq> S_Panic \<longrightarrow> \<not> awaiting s' i \<and> su_pc (fs_subs s' ! i) \<noteq> S_Panic)
    \<and> (awaiting s i \<and> state_of s (su_flight (fs_subs s ! i)) \<noteq> F_Finished \<longrightarrow> su_pc (fs_subs s' ! i) \<noteq> S_Panic)"
  proof (cases ev)
    case (EvAcquire key)
    then show ?thesis using a i by (auto simp: flights_acquire_def flight_view nth_append awaiting_def split: option.splits)
  next
    case (EvTask k)
    then have k: "k < length (fs_tasks s)" and st: "task_step k (fs_tasks s ! k) s = Some s'" using a by (auto split: if_splits)
    note ts = task_step_sub [OF ok k st i]
    show ?thesis using ts i by (cases "su_pc (fs_subs s' ! i) = su_pc (fs_subs s ! i)") (auto simp: awaiting_def)
  next
    case (EvInstall f)
    then show ?thesis using a i by (auto simp: flight_install_def flight_view awaiting_def split: if_splits)
  next
    case (EvRegister j)
    then show ?thesis using a i by (auto simp: sub_register_def flight_view nth_upd awaiting_def split: if_splits)
  next
    case (EvArm j)
    then show ?thesis using a i by (auto simp: sub_arm_def flight_view nth_upd awaiting_def split: if_splits)
  next
    case (EvPollWork j)
    then show ?thesis using a i by (auto simp: sub_poll_work_def poll_begin_def Let_def flight_view nth_upd awaiting_def split: if_splits)
  next
    case (EvDriver f)
    then show ?thesis using a i by (auto simp: driver_poll_work_def poll_begin_def flight_view awaiting_def split: if_splits)
  next
    case (EvReturned k out)
    then show ?thesis using a i by (auto simp: mark_panicked_def flight_view awaiting_def split: if_splits flight_task.splits poll_outcome.splits)
  next
    case (EvCheck j)
    then show ?thesis using a i by (auto simp: try_complete_def Let_def flight_view nth_upd awaiting_def split: if_splits flight_state.splits)
  next
    case (EvDrop j)
    then show ?thesis using a i by (auto simp: subscription_drop_def Let_def flight_view nth_upd awaiting_def split: if_splits)
  qed (use a i in \<open>auto simp: flight_view awaiting_def split: if_splits\<close>)
  then show "su_flight (fs_subs s' ! i) = su_flight (fs_subs s ! i)" "su_leader (fs_subs s' ! i) = su_leader (fs_subs s ! i)"
    "length (fs_subs s) \<le> length (fs_subs s')" "(\<And>key. ev \<noteq> EvAcquire key) \<Longrightarrow> length (fs_subs s') = length (fs_subs s)"
    "\<not> awaiting s i \<Longrightarrow> su_pc (fs_subs s ! i) \<noteq> S_Panic \<Longrightarrow> \<not> awaiting s' i \<and> su_pc (fs_subs s' ! i) \<noteq> S_Panic"
    "awaiting s i \<Longrightarrow> state_of s (su_flight (fs_subs s ! i)) \<noteq> F_Finished \<Longrightarrow> su_pc (fs_subs s' ! i) \<noteq> S_Panic" by blast+
qed

lemma task_step_length: "task_step k t s = Some s' \<Longrightarrow> length (fs_subs s') = length (fs_subs s)"
  by (induction k t s rule: task_step.induct)
    (auto simp: flight_view owner_done_sub abandon_start_def split: if_splits option.splits)

lemma subs_length:
  assumes "flight_act ev s = Some s'" "\<And>key. ev \<noteq> EvAcquire key"
  shows "length (fs_subs s') = length (fs_subs s)"
proof (cases ev)
  case (EvTask k)
  then show ?thesis using assms(1) task_step_length by (auto split: if_splits)
qed (use assms in \<open>auto simp: flight_view flight_install_def driver_poll_work_def poll_begin_def sub_register_def sub_arm_def sub_poll_work_def
    try_complete_def subscription_drop_def Let_def mark_panicked_def split: if_splits flight_task.splits poll_outcome.splits flight_state.splits\<close>)

lemma led_step:
  assumes ok: "flights_ok s" and a: "flight_act ev s = Some s'" and l: "led s"
  shows "led s'"
proof -
  have old: "i = j" if "i < length (fs_subs s)" "j < length (fs_subs s)" "su_leader (fs_subs s' ! i)" "su_leader (fs_subs s' ! j)"
    "su_flight (fs_subs s' ! i) = su_flight (fs_subs s' ! j)" for i j
    using l that sub_step(1,2) [OF ok a that(1)] sub_step(1,2) [OF ok a that(2)] unfolding led_def by simp
  show ?thesis
  proof (cases "\<exists>key. ev = EvAcquire key")
    case True
    then obtain key where s': "s' = flights_acquire key s" using a by auto
    have below: "su_flight (fs_subs s ! i) < length (fs_flights s)" if "i < length (fs_subs s)" for i
      using flights_okD(5) [OF ok that] by (simp add: sub_ok_def)
    obtain f ld where subs: "fs_subs s' = fs_subs s @ [new_subscription f ld]" "ld \<Longrightarrow> f = length (fs_flights s)"
      unfolding s' flights_acquire_def by (cases "hm_get (fs_table s) key") (simp_all add: flight_view)
    have new: "su_leader (fs_subs s' ! i) \<and> su_flight (fs_subs s' ! i) = length (fs_flights s) \<or> \<not> su_leader (fs_subs s' ! i)" if "i = length (fs_subs s)" for i
      using subs that by (auto simp: new_subscription_def)
    have "i = j" if i: "i < length (fs_subs s')" "j < length (fs_subs s')" "su_leader (fs_subs s' ! i)" "su_leader (fs_subs s' ! j)"
      "su_flight (fs_subs s' ! i) = su_flight (fs_subs s' ! j)" for i j
    proof (cases "i < length (fs_subs s) \<and> j < length (fs_subs s)")
      case True
      then show ?thesis using old i by blast
    next
      case False
      then have "i = length (fs_subs s) \<or> j = length (fs_subs s)" using i subs by auto
      then show ?thesis using new i below sub_step(1) [OF ok a] subs(1) by (metis length_append_singleton less_antisym less_irrefl)
    qed
    then show ?thesis unfolding led_def by blast
  next
    case False
    then have "length (fs_subs s') = length (fs_subs s)" using subs_length [OF a] by blast
    then show ?thesis using old unfolding led_def by auto
  qed
qed

lemma led_new: "led Flights_new"
  by (simp add: led_def Flights_new_def)

interpretation led_flights: guarded_machine flight_act "\<lambda>s. flights_ok s \<and> led s"
  by unfold_locales (blast intro: flight_act_ok led_step)

section \<open>Delivery\<close>

definition promised :: "nat \<Rightarrow> nat \<Rightarrow> bool \<Rightarrow> ('v, 'p) completion option \<Rightarrow> ('k, 'v, 'p) flights \<Rightarrow> bool" where
  "promised i f leader c s \<longleftrightarrow> i < length (fs_subs s) \<and> su_flight (fs_subs s ! i) = f \<and> su_leader (fs_subs s ! i) = leader \<and> su_pc (fs_subs s ! i) \<noteq> S_Panic
     \<and> (awaiting s i \<longrightarrow> state_of s f \<noteq> F_Finished \<and> (\<forall>x. c = Some x \<longrightarrow> (\<exists>t. state_of s f = F_Completed t \<and> completion_for leader t = x)))"

lemma promised_step:
  assumes ok: "flights_ok s \<and> led s" and a: "flight_act ev s = Some s'" and p: "promised i f leader c s"
  shows "promised i f leader c s'"
proof -
  have i: "i < length (fs_subs s)" and su: "su_flight (fs_subs s ! i) = f" "su_leader (fs_subs s ! i) = leader" "su_pc (fs_subs s ! i) \<noteq> S_Panic"
    using p by (simp_all add: promised_def)
  note st = sub_step [OF conjunct1 [OF ok] a i]
  have panic: "su_pc (fs_subs s' ! i) \<noteq> S_Panic" using st(5,6) p su by (cases "awaiting s i") (auto simp: promised_def)
  have "state_of s' f \<noteq> F_Finished \<and> (\<forall>x. c = Some x \<longrightarrow> (\<exists>t. state_of s' f = F_Completed t \<and> completion_for leader t = x))" if aw': "awaiting s' i"
  proof -
    have aw: "awaiting s i" using st(5) aw' su(3) by blast
    note ss = state_step [OF conjunct1 [OF ok] a aw aw' su(1)]
    have nf: "state_of s' f \<noteq> F_Finished" using ss(1) p aw by (simp add: promised_def)
    moreover have "\<exists>t. state_of s' f = F_Completed t \<and> completion_for leader t = x" if c: "c = Some x" for x
    proof -
      obtain t where t: "state_of s f = F_Completed t" "completion_for leader t = x" using p aw c by (auto simp: promised_def)
      from ss(2) [OF t(1)] show ?thesis
      proof
        assume "\<exists>j. j \<noteq> i \<and> ev = EvCheck j \<and> j < length (fs_subs s) \<and> su_flight (fs_subs s ! j) = f
          \<and> state_of s' f = after_completion (su_leader (fs_subs s ! j)) t \<and> (\<forall>r. t \<noteq> T_Owned r)"
        then obtain j where j: "j \<noteq> i" "j < length (fs_subs s)" "su_flight (fs_subs s ! j) = f"
          "state_of s' f = after_completion (su_leader (fs_subs s ! j)) t" "\<forall>r. t \<noteq> T_Owned r" by blast
        have "\<not> (leader \<and> su_leader (fs_subs s ! j))" using conjunct2 [OF ok] i j su unfolding led_def by blast
        then show ?thesis using t j(4,5) by (cases t) (auto simp: after_completion_def completion_for_def split: if_splits)
      next
        assume "state_of s' f = F_Completed t"
        then show ?thesis using t(2) by simp
      qed
    qed
    ultimately show ?thesis by simp
  qed
  then show ?thesis using order_less_le_trans [OF i st(3)] st(1,2) su panic unfolding promised_def by simp
qed

text \<open>
  C16. Delivery: a subscription that waits on an unfinished flight can never run into the panic of
  a subscription polled after its end, whatever the other callers, pollers and cancellers do, and
  its flight does not finish under it; once the flight is complete, the completion that this
  subscription will receive is fixed, and asking for it yields exactly that completion.
\<close>
theorem delivery:
  assumes "run_guarded flight_act evs Flights_new = Some s" and "awaiting s i" and "state_of s (su_flight (fs_subs s ! i)) \<noteq> F_Finished"
    and "run_guarded flight_act later s = Some s2"
  shows "su_pc (fs_subs s2 ! i) \<noteq> S_Panic
    \<and> (awaiting s2 i \<longrightarrow> state_of s2 (su_flight (fs_subs s2 ! i)) \<noteq> F_Finished)
    \<and> (\<forall>t. state_of s (su_flight (fs_subs s ! i)) = F_Completed t \<and> awaiting s2 i \<longrightarrow>
         snd (try_complete i s2) = Some (completion_for (su_leader (fs_subs s ! i)) t))"
proof -
  let ?f = "su_flight (fs_subs s ! i)" and ?l = "su_leader (fs_subs s ! i)"
  have ok: "flights_ok s \<and> led s" by (rule led_flights.run_ok [OF _ assms(1)]) (simp add: Flights_new_ok led_new)
  have keep: "promised i ?f ?l c s2" if "promised i ?f ?l c s" for c
    by (rule led_flights.run_keeps [where P = "promised i ?f ?l c", OF _ ok that assms(4)]) (rule promised_step)
  have "promised i ?f ?l None s" using assms(2,3) by (auto simp: promised_def awaiting_def)
  from keep [OF this] have p: "promised i ?f ?l None s2" .
  moreover have "snd (try_complete i s2) = Some (completion_for ?l t)" if t: "state_of s ?f = F_Completed t" "awaiting s2 i" for t
  proof -
    have "promised i ?f ?l (Some (completion_for ?l t)) s" using assms(2,3) t by (auto simp: promised_def awaiting_def)
    from keep [OF this] obtain t' where "state_of s2 ?f = F_Completed t'" "completion_for ?l t' = completion_for ?l t"
      "su_flight (fs_subs s2 ! i) = ?f" "su_leader (fs_subs s2 ! i) = ?l" using t(2) by (auto simp: promised_def)
    then show ?thesis by (simp add: try_complete_def Let_def)
  qed
  ultimately show ?thesis by (auto simp: promised_def)
qed

lemmas delivery_run_defs = flight_run_defs Flights_new_def awaiting_def mark_panicked_def poll_returned_def retire_entry_def
  resolve_terminal_def publish_def request_cancel_def owner_done_def try_complete_def after_completion_def subscription_drop_def
  has_completion_def

definition demo_shared :: "(string, nat, nat) flight_event list" where
  "demo_shared = [EvAcquire ''k'', EvInstall 0, EvAcquire ''k'', EvPollWork 0, EvReturned 0 (PollReady (Inr 7)), EvTask 0, EvTask 0, EvTask 0]"

definition demo_leader_leaves :: "(string, nat, nat) flight_event list" where
  "demo_leader_leaves = [EvTask 0, EvTask 0, EvTask 0, EvCheck 0, EvDrop 0]"

theorem delivery_witness:
  "snd (try_complete 1 (the (run_guarded flight_act demo_leader_leaves (the (run_guarded flight_act demo_shared Flights_new)))))
    = Some (C_Shared (Inr 7))"
proof -
  have "(case run_guarded flight_act demo_shared Flights_new of None \<Rightarrow> False
     | Some s \<Rightarrow> awaiting s 1 \<and> state_of s (su_flight (fs_subs s ! 1)) = F_Completed (T_Shared (Inr 7)) \<and> \<not> su_leader (fs_subs s ! 1)
         \<and> (case run_guarded flight_act demo_leader_leaves s of None \<Rightarrow> False | Some s2 \<Rightarrow> awaiting s2 1))"
    by (simp add: demo_shared_def demo_leader_leaves_def delivery_run_defs)
  then obtain s s2 where s: "run_guarded flight_act demo_shared Flights_new = Some s" "awaiting s 1" "\<not> su_leader (fs_subs s ! 1)"
      "state_of s (su_flight (fs_subs s ! 1)) = F_Completed (T_Shared (Inr 7))"
    and s2: "run_guarded flight_act demo_leader_leaves s = Some s2" "awaiting s2 1"
    by (auto split: option.splits)
  have "state_of s (su_flight (fs_subs s ! 1)) \<noteq> F_Finished" using s(4) by simp
  from delivery [OF s(1,2) this s2(1)] show ?thesis using s s2 by (simp add: completion_for_def)
qed

end
