(* ===== verification/Amalgam_Origin_Facts.thy ===== *)
theory Amalgam_Origin_Facts
  imports Amalgam_Memory_Facts
begin

text \<open>
  Superseded factories: a factory that captured the origin of a key before some explicit
  mutation of that key (or a clear of the store) can never commit its value afterwards,
  whatever other operations, captures and drops happen in between.
\<close>

section \<open>What an operation does to origins\<close>

definition same_origins :: "'v retention \<Rightarrow> 'v retention \<Rightarrow> bool" where
  "same_origins r r' \<longleftrightarrow> rt_origins r' = rt_origins r \<and> rt_heap r' = rt_heap r
     \<and> rt_generation r' = rt_generation r"

lemma same_origins_refl [simp]: "same_origins r r"
  by (simp add: same_origins_def)

lemma same_origins_trans: "same_origins a b \<Longrightarrow> same_origins b c \<Longrightarrow> same_origins a c"
  by (simp add: same_origins_def)

lemma same_origins_remove: "same_origins r (fst (retention_remove k r))"
  by (simp add: same_origins_def retention_remove_def split: option.splits)

lemma same_origins_retire: "same_origins r (fst (retire_keys f ks r))"
proof (induction f ks r rule: retire_keys.induct)
  case (2 f k ks r)
  obtain r1 s where x: "retention_remove k r = (r1, s)" by fastforce
  have "same_origins r r1" using same_origins_remove [of r k] by (simp add: x)
  moreover have "same_origins r1 (fst (retire_keys f ks r1))" using 2 x by (cases s) auto
  ultimately have "same_origins r (fst (retire_keys f ks r1))" by (rule same_origins_trans)
  then show ?case by (cases s) (simp_all add: x split_beta Let_def)
qed simp

lemma same_origins_expired: "same_origins r (fst (remove_expired ep inow now r))"
  by (simp add: remove_expired_def same_origins_retire)

lemma same_origins_store: "same_origins r (retention_store inow k e c r)"
  by (simp add: same_origins_def retention_store_def ticket_def Let_def)

lemma same_origins_commit: "same_origins r (fst (retention_commit inow k e vs rs c ev r))"
proof -
  let ?r1 = "fst (retire_keys (\<lambda>s. Capacity) vs r)"
  have "same_origins r (fst (retention_remove k ?r1))"
    using same_origins_retire same_origins_remove by (rule same_origins_trans)
  then have "same_origins r (retention_store inow k e c' (fst (retention_remove k ?r1)))" for c'
    using same_origins_store by (rule same_origins_trans)
  then show ?thesis by (simp add: retention_commit_def split_beta Let_def)
qed

lemma same_origins_get: "same_origins r (fst (retention_get ep inow k now r))"
  by (simp add: same_origins_def retention_get_def ticket_def Let_def split: option.splits)

lemma same_origins_ready: "same_origins r (fst (with_ready ep inow k now r))"
  by (simp add: same_origins_def with_ready_def ticket_def Let_def split: option.splits)

lemma same_origins_removed: "same_origins r (fst (removed k ex r))"
  by (simp add: removed_def split_beta same_origins_remove)

lemmas same_origins_ops = same_origins_remove same_origins_expired same_origins_get same_origins_ready
  same_origins_removed

text \<open>Inserting advances the origin of its key or leaves all origins alone.\<close>

lemma retention_insert_origins:
  "same_origins r (fst (retention_insert ep inow k e now ex c ev r)) \<or>
   same_origins (advance_origin k r) (fst (retention_insert ep inow k e now ex c ev r))"
proof -
  obtain r' cm where x: "retention_insert ep inow k e now ex c ev r = (r', cm)" by fastforce
  have "r' = r \<or> same_origins (origin_advanced ex k r) r'"
    using x
  proof (cases rule: retention_insert_elim)
    case (protected rets reason)
    then show ?thesis
      using same_origins_expired [of "origin_advanced ex k r" ep inow "Some now"]
      by (auto simp: expire_under_pressure_def split: if_splits)
  next
    case (committed r1 rets victims)
    then have "same_origins (origin_advanced ex k r) r1"
      using same_origins_expired [of "origin_advanced ex k r" ep inow "Some now"]
      by (auto simp: expire_under_pressure_def split: if_splits)
    moreover have "same_origins r1 r'"
      using same_origins_commit [of r1 inow k e victims rets c ev] committed(3) by simp
    ultimately show ?thesis by (blast intro: same_origins_trans)
  qed simp_all
  then show ?thesis by (auto simp: x origin_advanced_def split: if_splits)
qed

lemma retention_insert_mutation:
  "same_origins (advance_origin k r) (fst (retention_insert ep inow k e now Mutation c ev r))"
proof -
  obtain r' cm where x: "retention_insert ep inow k e now Mutation c ev r = (r', cm)" by fastforce
  have adv: "origin_advanced Mutation k r = advance_origin k r"
    by (simp add: origin_advanced_def changes_origin_def)
  have "cm \<noteq> commit_rejected VersionChanged []"
    using x by (auto simp: retention_insert_def expected_matches_def Let_def commit_rejected_def
        retention_commit_def split_beta split: if_splits sum.splits option.splits dest: plan_Inl)
  show ?thesis using x
  proof (cases rule: retention_insert_elim)
    case version
    with \<open>cm \<noteq> _\<close> show ?thesis by simp
  next
    case (protected rets reason)
    then show ?thesis
      using same_origins_expired [of "advance_origin k r" ep inow "Some now"]
      by (auto simp: x adv expire_under_pressure_def split: if_splits)
  next
    case (committed r1 rets victims)
    then have "same_origins (advance_origin k r) r1"
      using same_origins_expired [of "advance_origin k r" ep inow "Some now"]
      by (auto simp: adv expire_under_pressure_def split: if_splits)
    moreover have "same_origins r1 r'"
      using same_origins_commit [of r1 inow k e victims rets c ev] committed(3) by simp
    ultimately show ?thesis using x by (auto intro: same_origins_trans)
  qed (simp_all add: x adv)
qed

section \<open>Traces with outstanding captures\<close>

type_synonym 'v traced = "(string \<times> nat) list \<times> 'v retention"

fun traced_step :: "'v traced \<Rightarrow> (nat \<Rightarrow> nat) \<times> 'v memory_op \<Rightarrow> 'v traced" where
  "traced_step (outs, r) (ep, OpCapture key provided) = (case capture_revision key provided r of
     Inl e \<Rightarrow> (outs, r) | Inr (r', s) \<Rightarrow> ((key, rs_revision s) # outs, r'))"
| "traced_step (outs, r) (ep, OpDrop key s) = (remove1 (key, rs_revision s) outs, drop_origin key s r)"
| "traced_step (outs, r) (ep, op) = (outs, memory_step r (ep, op))"

text \<open>A capture may share an existing revision; a drop belongs to an outstanding capture.\<close>

fun traced_ok :: "'v traced \<Rightarrow> 'v memory_op \<Rightarrow> bool" where
  "traced_ok (outs, r) (OpCapture key provided) =
     (case provided of None \<Rightarrow> True | Some p \<Rightarrow> p < rh_fresh (rt_heap r))"
| "traced_ok (outs, r) (OpDrop key s) = ((key, rs_revision s) \<in> set outs)"
| "traced_ok (outs, r) op = True"

fun held_trace :: "string \<Rightarrow> nat \<Rightarrow> 'v traced \<Rightarrow> ((nat \<Rightarrow> nat) \<times> 'v memory_op) list \<Rightarrow> bool" where
  "held_trace key rv st [] = ((key, rv) \<in> set (fst st))"
| "held_trace key rv st (op # ops) = ((key, rv) \<in> set (fst st) \<and> traced_ok st (snd op)
     \<and> held_trace key rv (traced_step st op) ops)"

definition counters_ok :: "'v retention \<Rightarrow> bool" where
  "counters_ok r \<longleftrightarrow> (\<forall>x. rh_value (rt_heap r) x \<le> u64_max) \<and> rt_generation r \<le> u64_max"

definition traced_inv :: "'v traced \<Rightarrow> bool" where
  "traced_inv st \<longleftrightarrow> (case st of (outs, r) \<Rightarrow>
     origins_ok outs (rt_origins r, rt_heap r) \<and> counters_ok r)"

definition advances :: "'v retention \<Rightarrow> 'v retention \<Rightarrow> bool" where
  "advances r r' \<longleftrightarrow> (\<forall>x < rh_fresh (rt_heap r). rh_value (rt_heap r) x \<le> rh_value (rt_heap r') x)
     \<and> rt_generation r \<le> rt_generation r' \<and> rh_fresh (rt_heap r) \<le> rh_fresh (rt_heap r')"

lemma advances_refl [simp]: "advances r r"
  by (simp add: advances_def)

lemma same_origins_advances: "same_origins r r' \<Longrightarrow> advances r r'"
  by (simp add: same_origins_def advances_def)

lemma traced_inv_same:
  "traced_inv (outs, r) \<Longrightarrow> same_origins r r' \<Longrightarrow> traced_inv (outs, r')"
  by (simp add: traced_inv_def same_origins_def counters_ok_def)

lemma advance_origin_heap:
  "(rt_origins (advance_origin k r), rt_heap (advance_origin k r)) = origins_advance k (rt_origins r, rt_heap r)"
  by (simp add: advance_origin_def split_beta)

lemma advance_origin_value:
  "rh_value (rt_heap (advance_origin k r)) x =
     (if og_active (rt_origins r) \<noteq> [] \<and> active_upgrade (rt_origins r) (rt_heap r) k = Some x
      then min (rh_value (rt_heap r) x + 1) u64_max else rh_value (rt_heap r) x)"
  using rh_value_advance [of k "rt_origins r" "rt_heap r" x] advance_origin_heap [of k r]
  by (metis snd_conv)

lemma advance_origin_fresh: "rh_fresh (rt_heap (advance_origin k r)) = rh_fresh (rt_heap r)"
  using origins_advance_frame(3) [of k "rt_origins r" "rt_heap r"] advance_origin_heap [of k r]
  by (metis snd_conv)

lemma advance_origin_inv:
  assumes "traced_inv (outs, r)"
  shows "traced_inv (outs, advance_origin k r) \<and> advances r (advance_origin k r)"
proof -
  have cnt: "rh_value (rt_heap r) x \<le> u64_max" for x
    using assms by (simp add: traced_inv_def counters_ok_def)
  have "rh_value (rt_heap r) x \<le> rh_value (rt_heap (advance_origin k r)) x
      \<and> rh_value (rt_heap (advance_origin k r)) x \<le> u64_max" for x
    using cnt [of x] unfolding advance_origin_value min_def by auto
  then show ?thesis
    using assms origins_ok_advance [of outs "(rt_origins r, rt_heap r)" k]
    by (simp add: traced_inv_def counters_ok_def advances_def advance_origin_heap advance_origin_fresh)
qed

lemma capture_revision_inv:
  assumes inv: "traced_inv (outs, r)" and cap: "capture_revision key provided r = Inr (r', s)"
    and prov: "\<forall>p. provided = Some p \<longrightarrow> p < rh_fresh (rt_heap r)"
  shows "traced_inv ((key, rs_revision s) # outs, r') \<and> advances r r'
    \<and> rs_captured s = rh_value (rt_heap r') (rs_revision s) \<and> rs_captured s < u64_max
    \<and> rs_generation s = rt_generation r' \<and> rs_generation s < u64_max
    \<and> rs_revision s < rh_fresh (rt_heap r')"
proof -
  have ok: "origins_ok outs (rt_origins r, rt_heap r)" and cnt: "counters_ok r"
    using inv by (simp_all add: traced_inv_def)
  from cap obtain og h c where cf: "capture_from key provided (rt_origins r, rt_heap r) = Inr ((og, h), rs_revision s, c)"
    and r': "r' = r\<lparr>rt_origins := og, rt_heap := h\<rparr>" and s: "rs_captured s = c" "rs_generation s = rt_generation r"
    and gen: "rt_generation r \<noteq> u64_max"
    by (auto simp: capture_revision_def RevisionSnapshot_new_def split: if_splits sum.splits)
  from capture_from_Inr [OF cf prov] origins_ok_upgrade_fresh [OF ok]
  obtain h1 where h: "h = retain_rev (rs_revision s) h1" and c: "c = rh_value h1 (rs_revision s)" "c \<noteq> u64_max"
    and keep: "\<And>x. x < rh_fresh (rt_heap r) \<Longrightarrow> rh_value h1 x = rh_value (rt_heap r) x"
    and fresh: "rs_revision s < rh_fresh h1" "rh_fresh (rt_heap r) \<le> rh_fresh h1"
    and vals: "\<And>x. rh_value h1 x = rh_value (rt_heap r) x \<or> rh_value h1 x = 1"
    by auto
  have "rh_value h1 x \<le> u64_max" for x
    using vals [of x] cnt by (auto simp: counters_ok_def)
  moreover have "rt_generation r < u64_max" using gen cnt by (simp add: counters_ok_def)
  moreover have "c < u64_max" using c calculation(1) [of "rs_revision s"] by simp
  ultimately show ?thesis
    using origins_ok_capture [OF ok cf prov] s c keep fresh cnt
    by (auto simp: traced_inv_def r' h retain_rev_def advances_def counters_ok_def)
qed

lemma drop_origin_inv:
  assumes "traced_inv (outs, r)" and "(key, rs_revision s) \<in> set outs"
  shows "traced_inv (remove1 (key, rs_revision s) outs, drop_origin key s r) \<and> advances r (drop_origin key s r)"
  using assms origins_ok_drop [of outs "rt_origins r" "rt_heap r" key "rs_revision s"]
  by (simp add: traced_inv_def drop_origin_def origin_drop_def release_rev_def counters_ok_def advances_def)

lemma insert_internal_origins:
  "same_origins r (fst (insert_internal ep inow a k e now ex c ev r)) \<or>
   same_origins (advance_origin k r) (fst (insert_internal ep inow a k e now ex c ev r))"
  using retention_insert_origins [of r ep inow k "prepare_entry a now e" now ex c ev]
  by (simp add: insert_internal_def apply_write_def split_beta)

lemma detach_origins: "same_origins (advance_origin k r) (fst (detach_remove k r))"
  by (simp add: detach_remove_def split_beta same_origins_remove)

lemma clear_inv:
  "traced_inv (outs, r) \<Longrightarrow> traced_inv (outs, fst (invalidate_all r)) \<and> advances r (fst (invalidate_all r))"
  by (auto simp: traced_inv_def invalidate_all_def counters_ok_def advances_def saturating_add_u64_def)

lemma via_same: "traced_inv (outs, r) \<Longrightarrow> same_origins r r' \<Longrightarrow> traced_inv (outs, r') \<and> advances r r'"
  by (simp add: traced_inv_same same_origins_advances)

lemma via_advance:
  assumes "traced_inv (outs, r)" and "same_origins (advance_origin k r) r'"
  shows "traced_inv (outs, r') \<and> advances r r'"
  using advance_origin_inv [OF assms(1), of k] assms(2)
  by (auto simp: same_origins_def advances_def traced_inv_def counters_ok_def)

lemma insert_inv:
  assumes "traced_inv (outs, r)"
  shows "traced_inv (outs, fst (insert_internal ep inow a k e now ex c ev r))
    \<and> advances r (fst (insert_internal ep inow a k e now ex c ev r))"
  using insert_internal_origins [of r ep inow a k e now ex c ev]
  by (elim disjE) (rule via_same [OF assms], assumption, rule via_advance [OF assms], assumption)

lemma traced_step_inv:
  assumes "traced_inv st" and "traced_ok st (snd op)"
  shows "traced_inv (traced_step st op) \<and> advances (snd st) (snd (traced_step st op))"
proof -
  obtain outs r ep o' where st: "st = (outs, r)" "op = (ep, o')" by (cases st; cases op)
  have inv: "traced_inv (outs, r)" using assms(1) by (simp add: st)
  show ?thesis
  proof (cases o')
    case (OpCapture key provided)
    then show ?thesis
      using assms capture_revision_inv [of outs r key provided]
      by (cases "capture_revision key provided r") (auto simp: st split: option.splits)
  next
    case (OpDrop key s)
    then show ?thesis using assms drop_origin_inv [of outs r key s] by (simp add: st)
  next
    case (OpInsert inow a k e now ex c ev)
    then show ?thesis using inv insert_inv [of outs r ep inow a k e now ex c ev] by (simp add: st)
  next
    case (OpDetach k)
    then show ?thesis using via_advance [OF inv detach_origins] by (simp add: st)
  next
    case (OpSkip k s)
    then show ?thesis using inv advance_origin_inv [of outs r k] by (simp add: st skip_revision_def)
  qed (use inv in \<open>simp_all add: st via_same same_origins_ops fst_store_read run_pending_tasks_def
        maintain_step_def clear_inv advance_origin_inv\<close>)
qed

section \<open>Superseded factories\<close>

fun supersedes :: "string \<Rightarrow> 'v memory_op \<Rightarrow> bool" where
  "supersedes key (OpInsert inow a k e now ex c ev) = (k = key \<and> ex = Mutation)"
| "supersedes key (OpDetach k) = (k = key)"
| "supersedes key (OpInvalidateOrigin k) = (k = key)"
| "supersedes key OpClear = True"
| "supersedes key op = False"

definition not_before :: "revision_snapshot \<Rightarrow> 'v retention \<Rightarrow> bool" where
  "not_before s r \<longleftrightarrow> rs_captured s \<le> rh_value (rt_heap r) (rs_revision s)
     \<and> rs_generation s \<le> rt_generation r \<and> rs_captured s < u64_max \<and> rs_generation s < u64_max
     \<and> rs_revision s < rh_fresh (rt_heap r)"

definition outdated :: "revision_snapshot \<Rightarrow> 'v retention \<Rightarrow> bool" where
  "outdated s r \<longleftrightarrow> not_before s r \<and> (rs_captured s < rh_value (rt_heap r) (rs_revision s)
     \<or> rs_generation s < rt_generation r)"

lemma not_before_advances: "not_before s r \<Longrightarrow> advances r r' \<Longrightarrow> not_before s r'"
  by (auto simp: not_before_def advances_def intro: order_trans)

lemma outdated_advances: "outdated s r \<Longrightarrow> advances r r' \<Longrightarrow> outdated s r'"
  unfolding outdated_def using not_before_advances [of s r r']
  by (auto simp: advances_def not_before_def intro: less_le_trans)

lemma outdated_refused: "outdated s r \<Longrightarrow> \<not> snapshot_matches (rt_heap r) (rt_generation r) s"
  by (auto simp: outdated_def snapshot_matches_def Revision_current_def)

lemma advance_outdates:
  assumes inv: "traced_inv (outs, r)" and mem: "(key, rs_revision s) \<in> set outs" and nb: "not_before s r"
    and adv: "same_origins (advance_origin key r) r'"
  shows "outdated s r'"
proof -
  have ok: "origins_ok outs (rt_origins r, rt_heap r)" using inv by (simp add: traced_inv_def)
  have "rh_value (rt_heap r') (rs_revision s) = min (rh_value (rt_heap r) (rs_revision s) + 1) u64_max"
    using origins_ok_active [OF ok mem] adv by (simp add: same_origins_def advance_origin_value)
  then have "rs_captured s < rh_value (rt_heap r') (rs_revision s)"
    using nb unfolding not_before_def min_def by auto
  moreover have "not_before s r'"
    using via_advance [OF inv adv] not_before_advances [OF nb] by blast
  ultimately show ?thesis by (simp add: outdated_def)
qed

lemma clear_outdates:
  assumes "traced_inv (outs, r)" and "not_before s r"
  shows "outdated s (fst (invalidate_all r))"
proof -
  have "rt_generation (fst (invalidate_all r)) = min (rt_generation r + 1) u64_max"
    by (simp add: invalidate_all_def saturating_add_u64_def)
  then have "rs_generation s < rt_generation (fst (invalidate_all r))"
    using assms(2) unfolding not_before_def min_def by auto
  moreover have "not_before s (fst (invalidate_all r))"
    using clear_inv [OF assms(1)] not_before_advances [OF assms(2)] by blast
  ultimately show ?thesis by (simp add: outdated_def)
qed

lemma supersedes_outdates:
  assumes inv: "traced_inv st" and mem: "(key, rs_revision s) \<in> set (fst st)" and nb: "not_before s (snd st)"
    and sup: "supersedes key (snd op)"
  shows "outdated s (snd (traced_step st op))"
proof -
  obtain outs r ep o' where st: "st = (outs, r)" "op = (ep, o')" by (cases st; cases op)
  have prem: "traced_inv (outs, r)" "(key, rs_revision s) \<in> set outs" "not_before s r"
    using inv mem nb by (simp_all add: st)
  note adv = advance_outdates [OF prem]
  show ?thesis
  proof (cases o')
    case (OpInsert inow a k e now ex c ev)
    with sup have k: "k = key" "ex = Mutation" by (simp_all add: st)
    have "same_origins (advance_origin key r) (fst (insert_internal ep inow a key e now Mutation c ev r))"
      using retention_insert_mutation [of key r] by (simp add: insert_internal_def apply_write_def split_beta)
    from adv [OF this] OpInsert k show ?thesis by (simp add: st)
  next
    case (OpDetach k)
    with sup adv [OF detach_origins] show ?thesis by (simp add: st)
  next
    case (OpInvalidateOrigin k)
    with sup adv [OF same_origins_refl] show ?thesis by (simp add: st)
  next
    case OpClear
    with clear_outdates [OF prem(1,3)] show ?thesis by (simp add: st)
  qed (use sup in \<open>simp_all add: st\<close>)
qed

lemma held_trace_outdated:
  assumes "traced_inv st" and "held_trace key rv st ops" and "outdated s (snd st)"
  shows "outdated s (snd (foldl traced_step st ops))"
  using assms
proof (induction ops arbitrary: st)
  case (Cons op ops)
  then show ?case using traced_step_inv [of st op] outdated_advances [of s "snd st"] by simp
qed simp

lemma held_trace_superseded:
  assumes "traced_inv st" and "held_trace key (rs_revision s) st ops" and "not_before s (snd st)"
    and "\<exists>op \<in> set ops. supersedes key (snd op)"
  shows "outdated s (snd (foldl traced_step st ops))"
  using assms
proof (induction ops arbitrary: st)
  case (Cons op ops)
  from Cons.prems have mem: "(key, rs_revision s) \<in> set (fst st)" and ok: "traced_ok st (snd op)"
    and rest: "held_trace key (rs_revision s) (traced_step st op) ops" by simp_all
  note inv = traced_step_inv [OF Cons.prems(1) ok]
  show ?case
  proof (cases "supersedes key (snd op)")
    case True
    from supersedes_outdates [OF Cons.prems(1) mem Cons.prems(3) True] held_trace_outdated [OF _ rest] inv
    show ?thesis by simp
  next
    case False
    with Cons.prems(4) have "\<exists>op \<in> set ops. supersedes key (snd op)" by auto
    from Cons.IH [OF _ rest _ this] inv not_before_advances [OF Cons.prems(3)] show ?thesis by simp
  qed
qed simp

lemma traced_inv_new: "traced_inv ([], Retention_new limits expiry)"
  by (simp add: traced_inv_def Retention_new_def origins_ok_empty counters_ok_def revision_heap_empty_def)

text \<open>
  C3. A superseded factory never commits: if a factory captured the origin of a key, and
  between the capture and its commit the store executed any operations including an explicit
  write or removal of the key, an invalidation of its origin or a clear, then its snapshot is
  no longer current, its write is refused with \<open>VersionChanged\<close> and changes nothing, and its
  skip request is refused too. Other captures and drops may be interleaved freely, also of the
  same key.
\<close>

theorem superseded_factory_refused:
  assumes "traced_inv (outs, r)" and "capture_revision key provided r = Inr (r1, s)"
    and "\<forall>p. provided = Some p \<longrightarrow> p < rh_fresh (rt_heap r)"
    and "held_trace key (rs_revision s) ((key, rs_revision s) # outs, r1) ops"
    and "\<exists>op \<in> set ops. supersedes key (snd op)"
    and "r2 = snd (foldl traced_step ((key, rs_revision s) # outs, r1) ops)"
  shows "\<not> origin_is_current s r2
    \<and> retention_insert ep inow key e now (ExpectOrigin s) capture event r2 =
        (r2, commit_rejected VersionChanged [])
    \<and> skip_revision key s r2 = (r2, False)"
proof -
  note cap = capture_revision_inv [OF assms(1,2,3)]
  then have "not_before s (snd ((key, rs_revision s) # outs, r1))" by (simp add: not_before_def)
  from held_trace_superseded [OF _ assms(4) this assms(5)] cap
  have "outdated s r2" by (simp add: assms(6))
  then have "\<not> snapshot_matches (rt_heap r2) (rt_generation r2) s" by (rule outdated_refused)
  then show ?thesis
    by (simp add: origin_is_current_def retention_insert_def expected_matches_def skip_revision_def)
qed

theorem superseded_factory_refused_witness:
  "case capture_revision ''k'' None (Retention_new (MemoryLimits_new (Some 4) None) ClockDriven :: string retention) of
     Inl e \<Rightarrow> False
   | Inr (r1, s) \<Rightarrow> \<not> origin_is_current s (snd (foldl traced_step ([(''k'', rs_revision s)], r1)
       [(\<lambda>c. 0, OpInsert 0 9 ''k'' (plain_arc 1 1 ''x'') 100 Mutation Unarmed SetEvent)]))"
proof -
  let ?r = "Retention_new (MemoryLimits_new (Some 4) None) ClockDriven :: string retention"
  let ?ops = "[(\<lambda>c. 0, OpInsert 0 9 ''k'' (plain_arc 1 1 ''x'') 100 Mutation Unarmed SetEvent)]"
  obtain r1 s where cap: "capture_revision ''k'' None ?r = Inr (r1, s)"
    by (simp add: capture_revision_def capture_from_def select_revision_def active_upgrade_def Retention_new_def
        Origins_default_def revision_heap_empty_def Revision_current_def Let_def)
  have "held_trace ''k'' (rs_revision s) ([(''k'', rs_revision s)], r1) ?ops" by simp
  from superseded_factory_refused [OF traced_inv_new cap _ this _ refl] have
    "\<not> origin_is_current s (snd (foldl traced_step ([(''k'', rs_revision s)], r1) ?ops))" by simp
  with cap show ?thesis by simp
qed

end
