(* ===== verification/Amalgam_Wire_Facts.thy ===== *)
theory Amalgam_Wire_Facts
  imports Amalgam_Wire
begin

text \<open>
  Properties of the wire format: the word-parallel decimal conversion, the agreement of the fast
  decoders with the layout the JSON library writes, and the round trip of framed snapshots.
\<close>

section \<open>Canonical integers\<close>

definition show_i64 :: "int \<Rightarrow> string" where
  "show_i64 n = (if n < 0 then ''-'' @ show_nat (nat (- n)) else show_nat (nat n))"

definition no_digit_first :: "string \<Rightarrow> bool" where
  "no_digit_first s \<longleftrightarrow> (case s of [] \<Rightarrow> True | c # cs \<Rightarrow> \<not> is_digit c)"

lemma not_digits [simp]: "\<not> is_digit CHR ''-''" "\<not> is_digit CHR '',''" "is_digit CHR ''0''"
  by (simp_all add: is_digit_def byte_of_def)

lemma takeWhile_digits: "list_all is_digit ds \<Longrightarrow> no_digit_first r \<Longrightarrow> takeWhile is_digit (ds @ r) = ds"
  by (induction ds) (auto simp: no_digit_first_def split: list.splits)

lemma length_show_nat: "n < 10 ^ k \<Longrightarrow> 0 < k \<Longrightarrow> length (show_nat n) \<le> k"
proof (induction n arbitrary: k rule: show_nat.induct)
  case (1 n)
  show ?case
  proof (cases "n < 10")
    case True
    then show ?thesis using 1(3) by (subst show_nat.simps) simp
  next
    case False
    then obtain j where k: "k = Suc j" "0 < j" using 1(2,3) by (cases k; cases "k - 1") auto
    then have "n div 10 < 10 ^ j" using 1(2) by (simp add: less_mult_imp_div_less mult.commute)
    then have "length (show_nat (n div 10)) \<le> j" using 1(1) [OF False] k(2) by simp
    then show ?thesis using False k(1) by (subst show_nat.simps) simp
  qed
qed

lemma hd_show_nat: "0 < n \<Longrightarrow> hd (show_nat n) \<noteq> CHR ''0''"
proof (induction n rule: show_nat.induct)
  case (1 n)
  show ?case
  proof (cases "n < 10")
    case True
    then have "byte_of (char_of (48 + n)) = 48 + n" by simp
    moreover have "byte_of CHR ''0'' = 48" by (simp add: byte_of_def)
    ultimately have "char_of (48 + n) \<noteq> CHR ''0''" using 1(2) by force
    then show ?thesis using True by (subst show_nat.simps) simp
  next
    case False
    then show ?thesis using 1 by (subst show_nat.simps) simp
  qed
qed

lemma char_of_48: "char_of (48 :: nat) = CHR ''0''"
  by (simp add: char_of_def bit_iff_odd)

lemma show_nat_zero: "show_nat 0 = ''0''"
  by (simp add: show_nat.simps char_of_48)

lemma char_of_digit: "is_digit d \<Longrightarrow> char_of (48 + (byte_of d - 48)) = d"
  by (simp add: is_digit_def byte_of_def)

lemma dec_val_pos: "list_all is_digit ds \<Longrightarrow> ds \<noteq> [] \<Longrightarrow> hd ds \<noteq> CHR ''0'' \<Longrightarrow> 0 < dec_val 0 ds"
proof (cases ds)
  case (Cons d r)
  assume a: "list_all is_digit ds" "hd ds \<noteq> CHR ''0''"
  have "byte_of d \<noteq> 48"
  proof
    assume "byte_of d = 48"
    then have "char_of (byte_of d) = CHR ''0''" by (simp add: char_of_48)
    then show False using a(2) Cons by (simp add: byte_of_def)
  qed
  then have "0 < byte_of d - 48" using a(1) Cons by (auto simp: is_digit_def)
  then show ?thesis using dec_val_acc [of "byte_of d - 48" r] Cons by simp
qed simp

text \<open>Digits without a superfluous leading zero are the rendering of their value.\<close>

lemma show_nat_dec_val:
  "list_all is_digit ds \<Longrightarrow> ds \<noteq> [] \<Longrightarrow> (1 < length ds \<longrightarrow> hd ds \<noteq> CHR ''0'') \<Longrightarrow> show_nat (dec_val 0 ds) = ds"
proof (induction ds rule: rev_induct)
  case (snoc d xs)
  have d: "is_digit d" using snoc.prems by simp
  show ?case
  proof (cases "xs = []")
    case True
    then show ?thesis using d char_of_digit [OF d] by (auto simp: show_nat.simps is_digit_def)
  next
    case False
    then have hd0: "hd xs \<noteq> CHR ''0''" using snoc.prems(3) by (cases xs) auto
    have pos: "0 < dec_val 0 xs" using snoc.prems False hd0 by (intro dec_val_pos) auto
    have "show_nat (dec_val 0 xs) = xs" using snoc.IH snoc.prems(1) False hd0 by simp
    moreover have "byte_of d - 48 < 10" using d by (auto simp: is_digit_def)
    ultimately show ?thesis using pos char_of_digit [OF d]
      by (subst show_nat.simps) (simp add: dec_val_append)
  qed
qed simp

lemma unat_decimal: "list_all is_digit ds \<Longrightarrow> length ds \<le> 19 \<Longrightarrow> unat (decimal ds) = dec_val 0 ds"
proof -
  assume a: "list_all is_digit ds" "length ds \<le> 19"
  have "(10::nat) ^ length ds \<le> 10 ^ 19" using a(2) by (rule power_increasing) simp
  then show ?thesis using unat_decimal_from [OF a(1), of 0] by (simp add: decimal_def)
qed

lemma canonical_digits:
  assumes "list_all is_digit ds" and "ds \<noteq> []" and "length ds \<le> 19" and "1 < length ds \<longrightarrow> hd ds \<noteq> CHR ''0''"
    and "no_digit_first r"
  shows "canonical_i64 (ds @ r) = (if int (dec_val 0 ds) > i64_max then None else Some (int (dec_val 0 ds), r))"
    and "canonical_i64 (CHR ''-'' # ds @ r) = (if int (dec_val 0 ds) > i64_max then None else Some (- int (dec_val 0 ds), r))"
proof -
  obtain c cs where ds: "ds = c # cs" using assms(2) by (cases ds) auto
  have c: "c \<noteq> CHR ''-''" using assms(1) ds not_digits(1) by (auto simp del: not_digits)
  note w = takeWhile_digits [OF assms(1,5)] and v = unat_decimal [OF assms(1,3)]
  show "canonical_i64 (CHR ''-'' # ds @ r) = (if int (dec_val 0 ds) > i64_max then None else Some (- int (dec_val 0 ds), r))"
    using assms(2-4) by (auto simp: canonical_i64_def w v Let_def hd_append)
  have "canonical_i64 (ds @ r) = (let len = length (takeWhile is_digit (ds @ r))
       in if len = 0 \<or> len > 19 \<or> (len > 1 \<and> hd (ds @ r) = CHR ''0'') then None
          else let magnitude = int (unat (decimal (take len (ds @ r))))
               in if magnitude > i64_max then None else Some (magnitude, drop len (ds @ r)))"
    using c by (simp add: canonical_i64_def ds Let_def)
  then show "canonical_i64 (ds @ r) = (if int (dec_val 0 ds) > i64_max then None else Some (int (dec_val 0 ds), r))"
    using assms(2-4) by (auto simp: w v Let_def hd_append)
qed

lemma show_nat_canonical:
  assumes "n \<le> 9223372036854775808"
  shows "length (show_nat n) \<le> 19" "1 < length (show_nat n) \<longrightarrow> hd (show_nat n) \<noteq> CHR ''0''"
proof -
  show "length (show_nat n) \<le> 19" using assms by (intro length_show_nat) simp_all
  show "1 < length (show_nat n) \<longrightarrow> hd (show_nat n) \<noteq> CHR ''0''"
    using hd_show_nat [of n] show_nat_zero by (cases n) auto
qed

text \<open>The fast reader returns every rendered number of the range except the least one.\<close>

lemma canonical_i64_show:
  assumes "i64_min \<le> n" "n \<le> i64_max" and "no_digit_first r"
  shows "canonical_i64 (show_i64 n @ r) = (if n = i64_min then None else Some (n, r))"
proof (cases "n < 0")
  case True
  have b: "nat (- n) \<le> 9223372036854775808" using assms(1) by simp
  show ?thesis
    using canonical_digits(2) [OF show_nat_digits show_nat_nonempty show_nat_canonical [OF b] assms(3)] True assms
    by (auto simp: show_i64_def dec_val_show_nat)
next
  case False
  then have b: "nat n \<le> 9223372036854775808" using assms(2) by simp
  show ?thesis
    using canonical_digits(1) [OF show_nat_digits show_nat_nonempty show_nat_canonical [OF b] assms(3)] False assms
    by (auto simp: show_i64_def dec_val_show_nat)
qed

text \<open>
  What it accepts is the rendering of the number, in the range without the least number, or the
  spelling \<open>-0\<close> of zero.
\<close>

definition tick_text :: "int \<Rightarrow> string \<Rightarrow> bool" where
  "tick_text n t \<longleftrightarrow> - i64_max \<le> n \<and> n \<le> i64_max \<and> (t = show_i64 n \<or> n = 0 \<and> t = ''-0'')"

lemma takeWhile_no_digit: "no_digit_first (drop (length (takeWhile is_digit ds)) ds)"
  by (induction ds) (auto simp: no_digit_first_def)

lemma canonical_i64_sound:
  assumes "canonical_i64 bytes = Some (n, r)"
  shows "\<exists>t. bytes = t @ r \<and> tick_text n t \<and> no_digit_first r"
proof -
  obtain c cs where b: "bytes = c # cs" using assms by (cases bytes) (auto simp: canonical_i64_def)
  define digits where "digits = (if c = CHR ''-'' then cs else bytes)"
  define ds where "ds = takeWhile is_digit digits"
  define r' where "r' = drop (length ds) digits"
  have split: "digits = ds @ r'" unfolding ds_def r'_def
    by (metis append_eq_conv_conj takeWhile_dropWhile_id)
  have ok: "list_all is_digit ds" unfolding ds_def by (metis list_all_iff set_takeWhileD)
  have nd: "no_digit_first r'" unfolding r'_def ds_def by (rule takeWhile_no_digit)
  have "canonical_i64 bytes = (if length ds = 0 \<or> length ds > 19 \<or> (length ds > 1 \<and> hd digits = CHR ''0'') then None
      else let magnitude = int (unat (decimal (take (length ds) digits)))
           in if magnitude > i64_max then None
              else Some (if c = CHR ''-'' then - magnitude else magnitude, drop (length ds) digits))"
    unfolding ds_def digits_def b canonical_i64_def by (cases "c = CHR ''-''") (simp_all only: Let_def list.case if_True if_False prod.case simp_thms)
  then have g: "ds \<noteq> []" "length ds \<le> 19" "1 < length ds \<longrightarrow> hd ds \<noteq> CHR ''0''"
    using assms split by (auto simp: hd_append split: if_splits)
  have sh: "show_nat (dec_val 0 ds) = ds" by (rule show_nat_dec_val [OF ok g(1,3)])
  note can = canonical_digits [OF ok g(1,2,3) nd]
  show ?thesis
  proof (cases "c = CHR ''-''")
    case True
    then have by1: "bytes = CHR ''-'' # ds @ r'" using b split by (simp add: digits_def)
    then have n: "n = - int (dec_val 0 ds)" "r = r'" "int (dec_val 0 ds) \<le> i64_max"
      using assms can(2) by (auto split: if_splits)
    have "tick_text n (CHR ''-'' # ds)"
    proof (cases "dec_val 0 ds = 0")
      case True
      then have "ds = ''0''" using sh show_nat_zero by simp
      then show ?thesis using True n by (simp add: tick_text_def)
    qed (use n sh in \<open>simp add: tick_text_def show_i64_def\<close>)
    then show ?thesis using by1 n nd by (intro exI [of _ "CHR ''-'' # ds"]) simp
  next
    case False
    then have by2: "bytes = ds @ r'" using split by (simp add: digits_def)
    then have n: "n = int (dec_val 0 ds)" "r = r'" "int (dec_val 0 ds) \<le> i64_max"
      using assms can(1) by (auto split: if_splits)
    then have "tick_text n ds" using sh by (simp add: tick_text_def show_i64_def)
    then show ?thesis using by2 n nd by blast
  qed
qed

section \<open>Headers and frames\<close>

text \<open>
  The layout the JSON library writes for a header: fields in declaration order, without spaces,
  and the retention as an internally tagged enum.
\<close>

definition header_layout :: "snapshot_header \<Rightarrow> string \<Rightarrow> bool" where
  \<open>header_layout h text \<longleftrightarrow> (\<exists>more.
     text = ''{"inserted_ticks":'' @ show_i64 (sh_inserted_ticks h) @ '',"retention":{"kind":"'' @ more
     \<and> (case sh_retention h of
          WireUnspecified \<Rightarrow> more = ''Unspecified"}}''
        | WireSpecified sz p \<Rightarrow> (\<exists>rest. more = ''Specified"'' @ rest)))\<close>

lemma no_digit_first_comma [simp]: "no_digit_first (CHR '','' # r)"
  by (simp add: no_digit_first_def)

lemma canonical_header_layout:
  assumes "header_layout h text" and "in_i64 (sh_inserted_ticks h)"
  shows "canonical_header text = (if sh_retention h = WireUnspecified \<and> sh_inserted_ticks h \<noteq> i64_min then Some h else None)"
proof -
  obtain more where t: \<open>text = ''{"inserted_ticks":'' @ show_i64 (sh_inserted_ticks h) @ '',"retention":{"kind":"'' @ more\<close>
    and m: \<open>case sh_retention h of WireUnspecified \<Rightarrow> more = ''Unspecified"}}''
        | WireSpecified sz p \<Rightarrow> (\<exists>rest. more = ''Specified"'' @ rest)\<close>
    using assms(1) by (auto simp: header_layout_def)
  have "canonical_i64 (show_i64 (sh_inserted_ticks h) @ '',\"retention\":{\"kind\":\"'' @ more)
      = (if sh_inserted_ticks h = i64_min then None else Some (sh_inserted_ticks h, '',\"retention\":{\"kind\":\"'' @ more))"
    using assms(2) by (intro canonical_i64_show) (simp_all add: in_i64_def)
  then show ?thesis using m
    by (cases h; cases "sh_retention h") (auto simp: t canonical_header_def strip_prefix_def)
qed

lemma length_magic [simp]: "length SNAPSHOT_MAGIC = 8"
  by (simp add: SNAPSHOT_MAGIC_def)

lemma byte_of_char_of_mod: "byte_of (char_of n) = n mod 256"
  by (simp add: byte_of_def)

lemma horner_bytes:
  "m = b * 65536 + k \<Longrightarrow> k = c * 256 + d \<Longrightarrow> a * 16777216 + m = n \<Longrightarrow> ((a * 256 + b) * 256 + c) * 256 + d = (n :: nat)"
  by simp

lemma u32_round_trip:
  assumes "n < 4294967296"
  shows "u32_from_be (u32_be_bytes n ! 0) (u32_be_bytes n ! 1) (u32_be_bytes n ! 2) (u32_be_bytes n ! 3) = n"
proof -
  have "n div 16777216 < 256" using assms by simp
  then have e: "u32_from_be (u32_be_bytes n ! 0) (u32_be_bytes n ! 1) (u32_be_bytes n ! 2) (u32_be_bytes n ! 3)
      = ((n div 16777216 * 256 + n div 65536 mod 256) * 256 + n div 256 mod 256) * 256 + n mod 256"
    by (simp add: u32_from_be_def u32_be_bytes_def byte_of_char_of_mod)
  have "n mod 16777216 = n div 65536 mod 256 * 65536 + n mod 65536" "n mod 65536 = n div 256 mod 256 * 256 + n mod 256"
    using mod_mult2_eq [of n 65536 256] mod_mult2_eq [of n 256 256] by (simp_all add: mult.commute)
  from horner_bytes [OF this div_mult_mod_eq] show ?thesis unfolding e .
qed

lemma frame_bytes:
  assumes "length header < 4294967296"
    and "bytes = SNAPSHOT_MAGIC @ [char_of SNAPSHOT_VERSION] @ u32_be_bytes (length header) @ header @ payload"
  shows "take 8 bytes = SNAPSHOT_MAGIC" and "13 + length header \<le> length bytes" and "byte_of (bytes ! 8) = SNAPSHOT_VERSION"
    and "u32_from_be (bytes ! 9) (bytes ! 10) (bytes ! 11) (bytes ! 12) = length header"
    and "take (length header) (drop 13 bytes) = header" and "drop (13 + length header) bytes = payload"
proof -
  obtain a b c d where u: "u32_be_bytes (length header) = [a, b, c, d]" by (simp add: u32_be_bytes_def)
  obtain m0 m1 m2 m3 m4 m5 m6 m7 where m: "SNAPSHOT_MAGIC = [m0, m1, m2, m3, m4, m5, m6, m7]" by (simp add: SNAPSHOT_MAGIC_def)
  show "take 8 bytes = SNAPSHOT_MAGIC" "13 + length header \<le> length bytes" "byte_of (bytes ! 8) = SNAPSHOT_VERSION"
    "take (length header) (drop 13 bytes) = header"
    by (simp_all add: assms(2) u m SNAPSHOT_VERSION_def)
  have "drop (length header) (drop 13 bytes) = payload" by (simp add: assms(2) u m)
  then show "drop (13 + length header) bytes = payload" by (simp add: add.commute)
  have "bytes ! 9 = a" "bytes ! 10 = b" "bytes ! 11 = c" "bytes ! 12 = d" by (simp_all add: assms(2) u m)
  then show "u32_from_be (bytes ! 9) (bytes ! 10) (bytes ! 11) (bytes ! 12) = length header"
    using u32_round_trip [OF assms(1)] by (simp add: u)
qed

lemma unframe_frame:
  assumes "length header < 4294967296" and "header_layout h header" and "in_i64 (sh_inserted_ticks h)"
    and "read_header header = Inr h"
  shows "unframe_snapshot read_header
      (SNAPSHOT_MAGIC @ [char_of SNAPSHOT_VERSION] @ u32_be_bytes (length header) @ header @ payload) = Inr (Some (h, payload))"
proof -
  define bytes where "bytes = SNAPSHOT_MAGIC @ [char_of SNAPSHOT_VERSION] @ u32_be_bytes (length header) @ header @ payload"
  show ?thesis
    unfolding bytes_def [symmetric]
    using frame_bytes [OF assms(1) bytes_def] canonical_header_layout [OF assms(2,3)] assms(4)
    by (simp add: unframe_snapshot_def Let_def)
qed

lemma byte_of_256: "byte_of c < 256"
  by (cases c) (simp add: byte_of_def)

lemma u32_bytes_of:
  "u32_be_bytes (u32_from_be a b c d) = [a, b, c, d]" "u32_from_be a b c d < 4294967296"
proof -
  define x y z w where xyzw: "x = byte_of a" "y = byte_of b" "z = byte_of c" "w = byte_of d"
  have lt: "x < 256" "y < 256" "z < 256" "w < 256"
    by (simp_all add: xyzw byte_of_256)
  define n where "n = u32_from_be a b c d"
  have n: "n = ((x * 256 + y) * 256 + z) * 256 + w" by (simp add: n_def u32_from_be_def xyzw)
  have q: "n div 256 = (x * 256 + y) * 256 + z" using n lt by simp
  have q2: "n div 65536 = x * 256 + y" using q lt div_mult2_eq [of n 256 256] by simp
  have q3: "n div 16777216 = x" using q2 lt div_mult2_eq [of n 65536 256] by simp
  have last: "v < 256 \<Longrightarrow> (k * 256 + v) mod 256 = v" for k v :: nat by simp
  have "n div 16777216 mod 256 = x" "n div 65536 mod 256 = y" "n div 256 mod 256 = z" "n mod 256 = w"
    unfolding q q2 q3 using lt last [OF lt(2)] last [OF lt(3)] last [OF lt(4)] n by (simp_all only: mod_less)
  then show "u32_be_bytes (u32_from_be a b c d) = [a, b, c, d]"
    unfolding n_def [symmetric] u32_be_bytes_def by (simp add: xyzw byte_of_def)
  show "u32_from_be a b c d < 4294967296" unfolding n_def [symmetric] using q3 lt(1) div_less_iff_less_mult [of 16777216 n 256] by simp
qed

text \<open>What a payload must look like to be taken for a frame.\<close>

lemma unframe_Some:
  assumes "unframe_snapshot read_header bytes = Inr (Some (h, payload))"
  shows "\<exists>header. bytes = SNAPSHOT_MAGIC @ [char_of SNAPSHOT_VERSION] @ u32_be_bytes (length header) @ header @ payload
    \<and> length header < 4294967296 \<and> (canonical_header header = Some h \<or> read_header header = Inr h)"
proof -
  let ?len = "u32_from_be (bytes ! 9) (bytes ! 10) (bytes ! 11) (bytes ! 12)"
  define header where "header = take ?len (drop 13 bytes)"
  have m: "length SNAPSHOT_MAGIC = 8" by (simp add: SNAPSHOT_MAGIC_def)
  have u: "take 8 bytes = SNAPSHOT_MAGIC" "13 \<le> length bytes" "byte_of (bytes ! 8) = SNAPSHOT_VERSION"
      "13 + ?len \<le> length bytes" "payload = drop (13 + ?len) bytes" "canonical_header header = Some h \<or> read_header header = Inr h"
    using assms m unfolding header_def
    by (auto simp: unframe_snapshot_def Let_def split: if_splits option.splits sum.splits)
  have len: "length header = ?len" using u(4) by (simp add: header_def)
  have "bytes = take 8 bytes @ bytes ! 8 # bytes ! 9 # bytes ! 10 # bytes ! 11 # bytes ! 12 # drop 13 bytes"
    using u(2) by (simp add: Cons_nth_drop_Suc numeral_eq_Suc)
  moreover have "bytes ! 8 = char_of SNAPSHOT_VERSION" using u(3) by (simp add: byte_of_def flip: u(3))
  moreover have "drop 13 bytes = header @ payload"
    by (metis append_take_drop_id header_def u(5) drop_drop add.commute)
  ultimately have "bytes = SNAPSHOT_MAGIC @ [char_of SNAPSHOT_VERSION] @ u32_be_bytes (length header) @ header @ payload"
    unfolding len u32_bytes_of(1) using u(1) by simp
  with u(6) len u32_bytes_of(2) show ?thesis by metis
qed

lemma unframe_None: "unframe_snapshot read_header bytes = Inr None \<longleftrightarrow> take 8 bytes \<noteq> SNAPSHOT_MAGIC"
proof -
  have m: "length SNAPSHOT_MAGIC = 8" by (simp add: SNAPSHOT_MAGIC_def)
  show ?thesis unfolding unframe_snapshot_def m Let_def by (auto split: option.splits sum.splits)
qed

lemma deserialize_framed:
  assumes "take 8 bytes = SNAPSHOT_MAGIC" and "deserialize_snapshot read_header deserialize bytes = Inr s"
  shows "\<exists>header payload h.
    bytes = SNAPSHOT_MAGIC @ [char_of SNAPSHOT_VERSION] @ u32_be_bytes (length header) @ header @ payload
    \<and> length header < 4294967296 \<and> (canonical_header header = Some h \<or> read_header header = Inr h)
    \<and> ds_inserted_at s = sh_inserted_ticks h \<and> wire_snapshot_retention (sh_retention h) = Inr (ds_retention s)
    \<and> deserialize payload = Inr (ds_entry s)"
proof -
  obtain h payload where u: "unframe_snapshot read_header bytes = Inr (Some (h, payload))"
    using assms unframe_None [of read_header bytes]
    by (auto simp: deserialize_snapshot_def split: sum.splits option.splits)
  have "ds_inserted_at s = sh_inserted_ticks h \<and> wire_snapshot_retention (sh_retention h) = Inr (ds_retention s)
      \<and> deserialize payload = Inr (ds_entry s)"
    using assms(2) by (auto simp: deserialize_snapshot_def u DistributedSnapshot_new_def split: sum.splits)
  with unframe_Some [OF u] show ?thesis by metis
qed

lemma wire_retention_round_trip:
  "wire_snapshot_retention (sh_retention (snapshot_header_of s)) = Inr (ds_retention s)"
proof -
  have "map_option (EntryWeight \<circ> units) sz = sz" for sz
    by (cases sz) (simp_all, metis entry_weight.exhaust units.simps)
  then show ?thesis
    by (auto simp: wire_snapshot_retention_def snapshot_header_of_def priority_from_byte_def priority_byte_def
        option.map_comp split: snapshot_retention.splits priority.splits)
qed

section \<open>Properties\<close>

text \<open>
  The word-parallel decimal conversion equals the digit-by-digit value for every number of up
  to nineteen digits, and none of its additions and multiplications on 64-bit words overflows.
\<close>

theorem decimal_exact:
  assumes "list_all is_digit ds" and "length ds \<le> 19"
  shows "unat (decimal ds) = dec_val 0 ds \<and> unat (decimal ds) < 10 ^ length ds"
  using unat_decimal [OF assms] dec_val_bound [OF assms(1), of 0] by simp

theorem decimal_exact_witness: "unat (decimal ''1234567890123456789'') = dec_val 0 ''1234567890123456789''"
  using decimal_exact [of "''1234567890123456789''"] by (simp add: is_digit_def byte_of_def)

text \<open>
  C39. A framed snapshot decodes to itself: when the JSON library writes the header in its layout
  and reads back what it wrote, and the entry codec reads back what it wrote, then
  deserialising a serialised snapshot returns it with its insertion time, retention and entry,
  whichever of the two header decoders is taken. Bytes that begin with the frame's magic are
  accepted only when they are a complete frame of the current version whose header one of the two
  decoders reads, and then what is returned is what header and payload say; a truncated frame or
  one of another version is an error and never taken for a payload of the older format. Bytes that do not
  begin with the magic are decoded as such a payload.
\<close>

theorem snapshot_frame_round_trip:
  assumes "write_header (snapshot_header_of s) = Inr header" and "read_header header = Inr (snapshot_header_of s)"
    and "header_layout (snapshot_header_of s) header" and "length header < 4294967296"
    and "serialize (ds_entry s) = Inr payload" and "deserialize payload = Inr (ds_entry s)"
    and "distributed_validate (ds_entry s) = Inr ()" and "in_i64 (ds_inserted_at s)"
  shows "(case serialize_snapshot write_header serialize s of
      Inl er \<Rightarrow> False
    | Inr bytes \<Rightarrow> deserialize_snapshot read_header deserialize bytes = Inr s)
    \<and> (if take 8 received = SNAPSHOT_MAGIC
       then (\<exists>er. deserialize_snapshot read_header deserialize received = Inl er)
         \<or> (\<exists>s' h' header' payload'.
             received = SNAPSHOT_MAGIC @ [char_of SNAPSHOT_VERSION] @ u32_be_bytes (length header') @ header' @ payload'
             \<and> length header' < 4294967296 \<and> (canonical_header header' = Some h' \<or> read_header header' = Inr h')
             \<and> deserialize_snapshot read_header deserialize received = Inr s'
             \<and> ds_inserted_at s' = sh_inserted_ticks h' \<and> wire_snapshot_retention (sh_retention h') = Inr (ds_retention s')
             \<and> deserialize payload' = Inr (ds_entry s'))
       else deserialize_snapshot read_header deserialize received = (case deserialize received of
          Inl er \<Rightarrow> Inl er
        | Inr d \<Rightarrow> DistributedSnapshot_new d (de_created_ticks d) SnapUnspecified))"
proof -
  let ?bytes = "SNAPSHOT_MAGIC @ [char_of SNAPSHOT_VERSION] @ u32_be_bytes (length header) @ header @ payload"
  let ?dec = "deserialize_snapshot read_header deserialize received"
  let ?framed = "\<lambda>s' h' header' payload'.
    received = SNAPSHOT_MAGIC @ [char_of SNAPSHOT_VERSION] @ u32_be_bytes (length header') @ header' @ payload'
    \<and> length header' < 4294967296 \<and> (canonical_header header' = Some h' \<or> read_header header' = Inr h')
    \<and> ?dec = Inr s'
    \<and> ds_inserted_at s' = sh_inserted_ticks h' \<and> wire_snapshot_retention (sh_retention h') = Inr (ds_retention s')
    \<and> deserialize payload' = Inr (ds_entry s')"
  have h: "in_i64 (sh_inserted_ticks (snapshot_header_of s))" "sh_inserted_ticks (snapshot_header_of s) = ds_inserted_at s"
    using assms(8) by (simp_all add: snapshot_header_of_def)
  have "serialize_snapshot write_header serialize s = Inr ?bytes"
    using assms(1,4,5) by (simp add: serialize_snapshot_def frame_snapshot_def)
  moreover have "deserialize_snapshot read_header deserialize ?bytes = Inr s"
    using unframe_frame [of header "snapshot_header_of s" read_header payload, OF assms(4,3) h(1) assms(2)] assms(6,7) h(2)
    by (simp add: deserialize_snapshot_def wire_retention_round_trip DistributedSnapshot_new_def)
  moreover have "deserialize_snapshot read_header deserialize received = (case deserialize received of
      Inl er \<Rightarrow> Inl er | Inr d \<Rightarrow> DistributedSnapshot_new d (de_created_ticks d) SnapUnspecified)"
    if "take 8 received \<noteq> SNAPSHOT_MAGIC"
    using that unframe_None [of read_header received] by (simp add: deserialize_snapshot_def)
  moreover have "(\<exists>er. ?dec = Inl er) \<or> (\<exists>s' h' header' payload'. ?framed s' h' header' payload')"
    if "take 8 received = SNAPSHOT_MAGIC"
    using deserialize_framed [OF that, of read_header deserialize] by (cases ?dec) blast+
  ultimately show ?thesis by simp
qed

definition wire_demo :: "nat distributed_snapshot" where
  "wire_demo = \<lparr>ds_entry = \<lparr>de_value = 7, de_created_ticks = 100, de_logical_ticks = 110, de_physical_ticks = 190,
     de_is_from_fail_safe = False, de_etag = None, de_last_modified_ticks = None, de_tags = []\<rparr>,
     ds_inserted_at = 5, ds_retention = SnapUnspecified\<rparr>"

lemma show_i64_5: "show_i64 5 = ''5''"
proof -
  have "char_of (53 :: nat) = CHR ''5''" by (simp add: char_of_def bit_iff_odd)
  then show ?thesis by (simp add: show_i64_def show_nat.simps)
qed

theorem snapshot_frame_round_trip_witness:
  \<open>let header = ''{"inserted_ticks":5,"retention":{"kind":"Unspecified"}}''
   in (case serialize_snapshot (\<lambda>h. Inr header) (\<lambda>d. Inr ''p'') wire_demo of
       Inl er \<Rightarrow> False
     | Inr bytes \<Rightarrow> deserialize_snapshot (\<lambda>t. Inr (snapshot_header_of wire_demo)) (\<lambda>t. Inr (ds_entry wire_demo)) bytes
         = Inr wire_demo)
     \<and> (\<exists>er. deserialize_snapshot (\<lambda>t. Inr (snapshot_header_of wire_demo)) (\<lambda>t. Inr (ds_entry wire_demo)) SNAPSHOT_MAGIC
         = Inl er)\<close>
proof -
  let ?header = \<open>''{"inserted_ticks":5,"retention":{"kind":"Unspecified"}}''\<close>
  have "header_layout (snapshot_header_of wire_demo) ?header"
    by (simp add: header_layout_def snapshot_header_of_def wire_demo_def show_i64_5)
  then show ?thesis unfolding Let_def
    using snapshot_frame_round_trip [of "\<lambda>h. Inr ?header" wire_demo ?header "\<lambda>t. Inr (snapshot_header_of wire_demo)"
        "\<lambda>d. Inr ''p''" "''p''" "\<lambda>t. Inr (ds_entry wire_demo)" SNAPSHOT_MAGIC]
    by (simp add: wire_demo_def distributed_validate_def in_i64_def SNAPSHOT_MAGIC_def)
qed

section \<open>Canonical entries\<close>

definition clean_text :: "string \<Rightarrow> bool" where
  "clean_text t \<longleftrightarrow> quote \<notin> set t \<and> from_utf8 t \<and> \<not> list_ex (\<lambda>c. c = CHR 0x5C \<or> byte_of c < 32) t"

definition bool_text :: "bool \<Rightarrow> string" where
  "bool_text b = (if b then ''true'' else ''false'')"

definition quoted :: "string \<Rightarrow> string" where
  "quoted t = quote # t @ [quote]"

definition optional_text :: "('a \<Rightarrow> string \<Rightarrow> bool) \<Rightarrow> 'a option \<Rightarrow> string \<Rightarrow> bool" where
  "optional_text P x t = (case x of None \<Rightarrow> t = ''null'' | Some y \<Rightarrow> P y t)"

definition string_text :: "string \<Rightarrow> string \<Rightarrow> bool" where
  "string_text s t \<longleftrightarrow> clean_text s \<and> t = quoted s"

fun tags_text :: "string list \<Rightarrow> string" where
  "tags_text [] = []"
| "tags_text [t] = quoted t"
| "tags_text (t # ts) = quoted t @ '','' @ tags_text ts"

lemma canonical_string_iff: "canonical_string s = Some (t, r) \<longleftrightarrow> s = quoted t @ r \<and> clean_text t"
  by (auto simp: canonical_string_Some quoted_def clean_text_def)

lemma canonical_i64_iff:
  "canonical_i64 s = Some (n, r) \<longleftrightarrow> (\<exists>t. s = t @ r \<and> tick_text n t) \<and> no_digit_first r"
proof
  assume "canonical_i64 s = Some (n, r)"
  then show "(\<exists>t. s = t @ r \<and> tick_text n t) \<and> no_digit_first r" using canonical_i64_sound by blast
next
  assume a: "(\<exists>t. s = t @ r \<and> tick_text n t) \<and> no_digit_first r"
  then obtain t where t: "s = t @ r" "tick_text n t" by blast
  show "canonical_i64 s = Some (n, r)"
  proof (cases "t = show_i64 n")
    case True
    then show ?thesis using t a canonical_i64_show [of n r] by (auto simp: tick_text_def)
  next
    case False
    then have "n = 0" "t = ''-0''" using t(2) by (auto simp: tick_text_def)
    moreover have "dec_val 0 ''0'' = 0" by (simp add: byte_of_def)
    ultimately show ?thesis using canonical_digits(2) [of "''0''" r] a t(1) by simp
  qed
qed

lemma canonical_bool_iff: "canonical_bool s = Some (b, r) \<longleftrightarrow> s = bool_text b @ r"
  by (auto simp: canonical_bool_def bool_text_def strip_prefix_Some split: option.splits)
    (auto simp: strip_prefix_def)

lemma canonical_optional_iff:
  assumes parse: "\<And>x r. parse s = Some (x, r) \<longleftrightarrow> (\<exists>t. s = t @ r \<and> P x t) \<and> Q r"
    and first: "\<And>x r. parse s = Some (x, r) \<Longrightarrow> hd s \<noteq> CHR ''n''"
  shows "canonical_optional parse s = Some (x, r) \<longleftrightarrow> (\<exists>t. s = t @ r \<and> optional_text P x t) \<and> (x = None \<or> Q r)"
proof (cases "strip_prefix ''null'' s")
  case None
  have "\<not> (\<exists>r. s = ''null'' @ r)" unfolding strip_prefix_Some [symmetric] by (simp add: None)
  then show ?thesis using None parse
    by (cases x) (auto simp: canonical_optional_def optional_text_def)
next
  case (Some after)
  then have s: "s = ''null'' @ after" by (simp add: strip_prefix_Some)
  then have "parse s = None" using first by (cases "parse s") auto
  then have "\<not> ((\<exists>t. s = t @ r \<and> P y t) \<and> Q r)" for y r using parse by simp
  then show ?thesis using Some s by (cases x) (auto simp: canonical_optional_def optional_text_def)
qed

lemma tick_text_hd: "tick_text n t \<Longrightarrow> t \<noteq> [] \<and> (hd t = CHR ''-'' \<or> is_digit (hd t))"
proof -
  assume a: "tick_text n t"
  have "is_digit (hd (show_nat m))" for m using show_nat_digits [of m] by (cases "show_nat m") auto
  then show ?thesis using a by (auto simp: tick_text_def show_i64_def split: if_splits)
qed

lemma not_digit_n [simp]: "\<not> is_digit CHR ''n''"
  by (simp add: is_digit_def byte_of_def)

lemma canonical_optional_i64:
  "canonical_optional canonical_i64 s = Some (x, r) \<longleftrightarrow>
     (\<exists>t. s = t @ r \<and> optional_text tick_text x t) \<and> (x = None \<or> no_digit_first r)"
proof (rule canonical_optional_iff [OF canonical_i64_iff])
  fix y q assume "canonical_i64 s = Some (y, q)"
  then obtain t where t: "s = t @ q" "tick_text y t" using canonical_i64_iff by blast
  show "hd s \<noteq> CHR ''n''"
  proof
    assume "hd s = CHR ''n''"
    then have "hd t = CHR ''n''" using t tick_text_hd [OF t(2)] by simp
    then show False using tick_text_hd [OF t(2)] by simp
  qed
qed

lemma canonical_optional_string:
  "canonical_optional canonical_string s = Some (x, r) \<longleftrightarrow> (\<exists>t. s = t @ r \<and> optional_text string_text x t)"
proof -
  have "canonical_optional canonical_string s = Some (x, r) \<longleftrightarrow>
     (\<exists>t. s = t @ r \<and> optional_text string_text x t) \<and> (x = None \<or> True)"
    by (rule canonical_optional_iff) (auto simp: canonical_string_iff string_text_def quoted_def)
  then show ?thesis by simp
qed

lemma canonical_tag_loop_iff:
  "canonical_tag_loop s acc = Some (ts, r) \<longleftrightarrow>
     (\<exists>us. us \<noteq> [] \<and> ts = acc @ us \<and> s = tags_text us @ '']'' @ r \<and> list_all clean_text us)"
proof (induction s acc arbitrary: ts rule: canonical_tag_loop.induct)
  case (1 s acc)
  show ?case
  proof (cases "canonical_string s")
    case None
    have "s \<noteq> tags_text us @ '']'' @ r" if ne: "us \<noteq> []" and clean: "list_all clean_text us" for us
    proof
      assume s: "s = tags_text us @ '']'' @ r"
      obtain u vs where us: "us = u # vs" using ne by (cases us) auto
      then have "\<exists>q. s = quoted u @ q" using s by (cases vs) auto
      then have "\<exists>q. canonical_string s = Some (u, q)" using clean us by (auto simp: canonical_string_iff)
      then show False using None by simp
    qed
    then show ?thesis using None by (subst canonical_tag_loop.simps) auto
  next
    case (Some p)
    then obtain t after where p: "canonical_string s = Some (t, after)" by (cases p) auto
    then have s: "s = quoted t @ after" and ct: "clean_text t" by (simp_all add: canonical_string_iff)
    have uniq: "us \<noteq> [] \<and> s = tags_text us @ '']'' @ r \<and> list_all clean_text us \<longleftrightarrow>
        (us = [t] \<and> after = '']'' @ r) \<or> (\<exists>vs. us = t # vs \<and> vs \<noteq> [] \<and> after = '','' @ tags_text vs @ '']'' @ r \<and> list_all clean_text vs)" for us
    proof (cases us)
      case (Cons u vs)
      have q: "quoted t @ after = quoted u @ q \<longleftrightarrow> t = u \<and> after = q" if "clean_text u" for q
        using canonical_string_iff [of "quoted t @ after" u q] canonical_string_iff [of "quoted t @ after" t after] that ct
        by auto
      show ?thesis using q ct unfolding Cons s by (cases vs) auto
    qed simp
    have key: "(\<exists>us. us \<noteq> [] \<and> ts = acc @ us \<and> s = tags_text us @ '']'' @ r \<and> list_all clean_text us) \<longleftrightarrow>
        ts = acc @ [t] \<and> after = '']'' @ r
        \<or> (\<exists>vs. ts = (acc @ [t]) @ vs \<and> vs \<noteq> [] \<and> after = '','' @ tags_text vs @ '']'' @ r \<and> list_all clean_text vs)"
      (is "?lhs \<longleftrightarrow> ?rhs")
    proof -
      have "?lhs \<longleftrightarrow> (\<exists>us. ts = acc @ us \<and> (us \<noteq> [] \<and> s = tags_text us @ '']'' @ r \<and> list_all clean_text us))" by blast
      also have "\<dots> \<longleftrightarrow> ?rhs" unfolding uniq by auto
      finally show ?thesis .
    qed
    show ?thesis
    proof (cases after)
      case Nil
      then have "canonical_tag_loop s acc = None" by (subst canonical_tag_loop.simps) (simp add: p)
      then show ?thesis unfolding key by (simp add: Nil)
    next
      case (Cons c nxt)
      have IH: "c = CHR '','' \<Longrightarrow> canonical_tag_loop nxt (acc @ [t]) = Some (ts, r) \<longleftrightarrow>
          (\<exists>us. us \<noteq> [] \<and> ts = (acc @ [t]) @ us \<and> nxt = tags_text us @ '']'' @ r \<and> list_all clean_text us)"
        using "1.IH" [OF p refl Cons] by simp
      have "canonical_tag_loop s acc = (if c = CHR '','' then canonical_tag_loop nxt (acc @ [t])
         else if c = CHR '']'' then Some (acc @ [t], nxt) else None)"
        by (subst canonical_tag_loop.simps) (simp add: p Cons)
      then show ?thesis
        using IH unfolding key Cons by (cases "c = CHR '',''"; cases "c = CHR '']''") (simp_all, blast+)
    qed
  qed
qed

lemma canonical_tags_iff:
  "canonical_tags s = Some (ts, r) \<longleftrightarrow> s = tags_text ts @ '']'' @ r \<and> list_all clean_text ts"
proof (cases "strip_prefix '']'' s")
  case (Some after)
  then have s: "s = '']'' @ after" by (simp add: strip_prefix_Some)
  have "tags_text ts @ '']'' @ r \<noteq> CHR '']'' # after" if "ts \<noteq> []"
    using that by (cases ts rule: tags_text.cases) (auto simp: quoted_def)
  then show ?thesis using Some s by (cases ts) (auto simp: canonical_tags_def)
next
  case None
  then have "s \<noteq> '']'' @ q" for q by (auto simp: strip_prefix_def)
  then show ?thesis using None by (cases ts) (auto simp: canonical_tags_def canonical_tag_loop_iff)
qed

text \<open>
  The layout the JSON library writes for an entry, from the texts of its value and numbers:
  fields in declaration order and without spaces.
\<close>

definition entry_text :: "string \<Rightarrow> string \<Rightarrow> string \<Rightarrow> string \<Rightarrow> string \<Rightarrow> string \<Rightarrow> 'v distributed_entry \<Rightarrow> string" where
  \<open>entry_text vt ct lt pt et mt d = ''{"value":'' @ vt @ '',"created_ticks":'' @ ct
     @ '',"logical_expiration_ticks":'' @ lt @ '',"physical_expiration_ticks":'' @ pt
     @ '',"is_from_fail_safe":'' @ bool_text (de_is_from_fail_safe d) @ '',"etag":'' @ et
     @ '',"last_modified_ticks":'' @ mt @ '',"tags":['' @ tags_text (de_tags d) @ '']}''\<close>

definition layout_by :: "(int \<Rightarrow> string \<Rightarrow> bool) \<Rightarrow> (string \<Rightarrow> ('v \<times> nat) option) \<Rightarrow> 'v distributed_entry
    \<Rightarrow> string \<Rightarrow> string \<Rightarrow> string \<Rightarrow> string \<Rightarrow> string \<Rightarrow> string \<Rightarrow> string \<Rightarrow> bool" where
  "layout_by number parse_value d bytes vt ct lt pt et mt \<longleftrightarrow> bytes = entry_text vt ct lt pt et mt d
     \<and> parse_value (drop 9 bytes) = Some (de_value d, length vt)
     \<and> number (de_created_ticks d) ct \<and> number (de_logical_ticks d) lt \<and> number (de_physical_ticks d) pt
     \<and> optional_text string_text (de_etag d) et \<and> optional_text number (de_last_modified_ticks d) mt
     \<and> list_all clean_text (de_tags d)"

text \<open>
  The number texts \<open>serde_json\<close> writes for an \<open>i64\<close> other than the least one, and the entries spelled
  with them. A second group of texts spells at least one zero as \<open>-0\<close>, which it never writes.
\<close>

definition written_tick :: "int \<Rightarrow> string \<Rightarrow> bool" where
  "written_tick n t \<longleftrightarrow> - i64_max \<le> n \<and> n \<le> i64_max \<and> t = show_i64 n"

definition entry_layout :: "(string \<Rightarrow> ('v \<times> nat) option) \<Rightarrow> 'v distributed_entry \<Rightarrow> string \<Rightarrow> bool" where
  "entry_layout parse_value d bytes \<longleftrightarrow> (\<exists>vt ct lt pt et mt. layout_by written_tick parse_value d bytes vt ct lt pt et mt)"

definition signed_zero_layout :: "(string \<Rightarrow> ('v \<times> nat) option) \<Rightarrow> 'v distributed_entry \<Rightarrow> string \<Rightarrow> bool" where
  "signed_zero_layout parse_value d bytes \<longleftrightarrow> (\<exists>vt ct lt pt et mt. ''-0'' \<in> {ct, lt, pt, mt}
     \<and> layout_by (\<lambda>n t. written_tick n t \<or> n = 0 \<and> t = ''-0'') parse_value d bytes vt ct lt pt et mt)"

lemma tick_text_written: "tick_text = (\<lambda>n t. written_tick n t \<or> n = 0 \<and> t = ''-0'')"
  by (auto simp: fun_eq_iff tick_text_def written_tick_def)

lemma signed_zero_tick_text:
  "signed_zero_layout parse_value d bytes \<longleftrightarrow> (\<exists>vt ct lt pt et mt. ''-0'' \<in> {ct, lt, pt, mt}
     \<and> layout_by tick_text parse_value d bytes vt ct lt pt et mt)"
  by (simp only: signed_zero_layout_def tick_text_written)

lemma layout_strict:
  assumes "layout_by tick_text parse_value d bytes vt ct lt pt et mt" and "''-0'' \<notin> {ct, lt, pt, mt}"
  shows "layout_by written_tick parse_value d bytes vt ct lt pt et mt"
  using assms by (auto simp: layout_by_def tick_text_written optional_text_def split: option.splits)

lemma layout_lenient:
  "layout_by written_tick parse_value d bytes vt ct lt pt et mt \<Longrightarrow> layout_by tick_text parse_value d bytes vt ct lt pt et mt"
  by (auto simp: layout_by_def tick_text_written optional_text_def split: option.splits)

lemma layouts_split:
  "(\<exists>vt ct lt pt et mt. layout_by tick_text parse_value d bytes vt ct lt pt et mt) \<longleftrightarrow>
     entry_layout parse_value d bytes \<or> signed_zero_layout parse_value d bytes"
proof
  assume "\<exists>vt ct lt pt et mt. layout_by tick_text parse_value d bytes vt ct lt pt et mt"
  then obtain vt ct lt pt et mt where l: "layout_by tick_text parse_value d bytes vt ct lt pt et mt" by (elim exE)
  show "entry_layout parse_value d bytes \<or> signed_zero_layout parse_value d bytes"
  proof (cases "''-0'' \<in> {ct, lt, pt, mt}")
    case True
    with l have "signed_zero_layout parse_value d bytes" unfolding signed_zero_tick_text by (intro exI conjI)
    then show ?thesis ..
  next
    case False
    have "entry_layout parse_value d bytes" unfolding entry_layout_def by (intro exI) (rule layout_strict [OF l False])
    then show ?thesis ..
  qed
next
  assume "entry_layout parse_value d bytes \<or> signed_zero_layout parse_value d bytes"
  then show "\<exists>vt ct lt pt et mt. layout_by tick_text parse_value d bytes vt ct lt pt et mt"
    unfolding entry_layout_def signed_zero_tick_text
    by (elim disjE exE conjE) (intro exI, (erule layout_lenient | assumption))+
qed

text \<open>One step of the decoder: a parsed field followed by the literal in front of the next one.\<close>

lemma canonical_entry_steps:
  "canonical_entry parse_value bytes = Some d \<longleftrightarrow> (\<exists>r0 off r1 r2 r3 r4 r5 r6 r7 r8 r9 r10 r11 r12 r13 r14.
     strip_prefix ''{\"value\":'' bytes = Some r0 \<and> parse_value r0 = Some (de_value d, off)
     \<and> strip_prefix '',\"created_ticks\":'' (drop off r0) = Some r1 \<and> canonical_i64 r1 = Some (de_created_ticks d, r2)
     \<and> strip_prefix '',\"logical_expiration_ticks\":'' r2 = Some r3 \<and> canonical_i64 r3 = Some (de_logical_ticks d, r4)
     \<and> strip_prefix '',\"physical_expiration_ticks\":'' r4 = Some r5 \<and> canonical_i64 r5 = Some (de_physical_ticks d, r6)
     \<and> strip_prefix '',\"is_from_fail_safe\":'' r6 = Some r7 \<and> canonical_bool r7 = Some (de_is_from_fail_safe d, r8)
     \<and> strip_prefix '',\"etag\":'' r8 = Some r9 \<and> canonical_optional canonical_string r9 = Some (de_etag d, r10)
     \<and> strip_prefix '',\"last_modified_ticks\":'' r10 = Some r11
     \<and> canonical_optional canonical_i64 r11 = Some (de_last_modified_ticks d, r12)
     \<and> strip_prefix '',\"tags\":['' r12 = Some r13 \<and> canonical_tags r13 = Some (de_tags d, r14) \<and> r14 = ''}'')"
  (is "_ \<longleftrightarrow> ?R")
proof
  assume "canonical_entry parse_value bytes = Some d"
  then show ?R unfolding canonical_entry_def Let_def by (auto simp: bind_eq_Some_conv split: if_splits)
next
  assume ?R
  then show "canonical_entry parse_value bytes = Some d" by (cases d) (auto simp: canonical_entry_def)
qed

lemma canonical_entry_layout:
  "canonical_entry parse_value bytes = Some d \<longleftrightarrow>
     (\<exists>vt ct lt pt et mt. layout_by tick_text parse_value d bytes vt ct lt pt et mt)"
  (is "_ \<longleftrightarrow> ?layout")
proof
  assume "canonical_entry parse_value bytes = Some d"
  then obtain r0 off r1 r2 r3 r4 r5 r6 r7 r8 r9 r10 r11 r12 r13 where
    r: "bytes = ''{\"value\":'' @ r0" "parse_value r0 = Some (de_value d, off)"
      "drop off r0 = '',\"created_ticks\":'' @ r1" "canonical_i64 r1 = Some (de_created_ticks d, r2)"
      "r2 = '',\"logical_expiration_ticks\":'' @ r3" "canonical_i64 r3 = Some (de_logical_ticks d, r4)"
      "r4 = '',\"physical_expiration_ticks\":'' @ r5" "canonical_i64 r5 = Some (de_physical_ticks d, r6)"
      "r6 = '',\"is_from_fail_safe\":'' @ r7" "canonical_bool r7 = Some (de_is_from_fail_safe d, r8)"
      "r8 = '',\"etag\":'' @ r9" "canonical_optional canonical_string r9 = Some (de_etag d, r10)"
      "r10 = '',\"last_modified_ticks\":'' @ r11" "canonical_optional canonical_i64 r11 = Some (de_last_modified_ticks d, r12)"
      "r12 = '',\"tags\":['' @ r13" "canonical_tags r13 = Some (de_tags d, ''}'')"
    unfolding canonical_entry_steps strip_prefix_Some by blast
  obtain ct lt pt et mt where t: "r1 = ct @ r2" "tick_text (de_created_ticks d) ct" "r3 = lt @ r4" "tick_text (de_logical_ticks d) lt"
      "r5 = pt @ r6" "tick_text (de_physical_ticks d) pt" "r9 = et @ r10" "optional_text string_text (de_etag d) et"
      "r11 = mt @ r12" "optional_text tick_text (de_last_modified_ticks d) mt"
    using r(4,6,8,12,14) unfolding canonical_i64_iff canonical_optional_string canonical_optional_i64 by blast
  have tags: "r13 = tags_text (de_tags d) @ '']'' @ ''}''" "list_all clean_text (de_tags d)" "r7 = bool_text (de_is_from_fail_safe d) @ r8"
    using r(10,16) by (simp_all add: canonical_bool_iff canonical_tags_iff)
  have "drop off r0 \<noteq> []" using r(3) by simp
  then have off: "length (take off r0) = off" by simp
  have v: "r0 = take off r0 @ '',\"created_ticks\":'' @ r1" using r(3) by (metis append_take_drop_id)
  have "bytes = entry_text (take off r0) ct lt pt et mt d"
    unfolding r(1) entry_text_def by (subst v) (simp add: t(1,3,5,7,9) r(5,7,9,11,13,15) tags(1,3))
  moreover have "drop 9 bytes = r0" by (simp add: r(1))
  ultimately show ?layout unfolding layout_by_def using r(2) off t tags(2) by metis
next
  assume ?layout
  then obtain vt ct lt pt et mt where b: "bytes = entry_text vt ct lt pt et mt d"
    and pv: "parse_value (drop 9 bytes) = Some (de_value d, length vt)"
    and t: "tick_text (de_created_ticks d) ct" "tick_text (de_logical_ticks d) lt" "tick_text (de_physical_ticks d) pt"
      "optional_text string_text (de_etag d) et" "optional_text tick_text (de_last_modified_ticks d) mt"
      "list_all clean_text (de_tags d)"
    unfolding layout_by_def by blast
  define r13 where "r13 = tags_text (de_tags d) @ '']'' @ ''}''"
  define r12 where "r12 = '',\"tags\":['' @ r13"
  define r11 where "r11 = mt @ r12"
  define r10 where "r10 = '',\"last_modified_ticks\":'' @ r11"
  define r9 where "r9 = et @ r10"
  define r8 where "r8 = '',\"etag\":'' @ r9"
  define r7 where "r7 = bool_text (de_is_from_fail_safe d) @ r8"
  define r6 where "r6 = '',\"is_from_fail_safe\":'' @ r7"
  define r5 where "r5 = pt @ r6"
  define r4 where "r4 = '',\"physical_expiration_ticks\":'' @ r5"
  define r3 where "r3 = lt @ r4"
  define r2 where "r2 = '',\"logical_expiration_ticks\":'' @ r3"
  define r1 where "r1 = ct @ r2"
  define r0 where "r0 = vt @ '',\"created_ticks\":'' @ r1"
  note rs = r13_def r12_def r11_def r10_def r9_def r8_def r7_def r6_def r5_def r4_def r3_def r2_def r1_def r0_def
  have bytes: "bytes = ''{\"value\":'' @ r0" by (simp add: b entry_text_def rs)
  then have "parse_value r0 = Some (de_value d, length vt)" using pv by simp
  moreover have "drop (length vt) r0 = '',\"created_ticks\":'' @ r1" by (simp add: r0_def)
  moreover have "canonical_i64 r1 = Some (de_created_ticks d, r2)" "canonical_i64 r3 = Some (de_logical_ticks d, r4)"
      "canonical_i64 r5 = Some (de_physical_ticks d, r6)"
    using t(1,2,3) by (auto simp: canonical_i64_iff r1_def r3_def r5_def r2_def r4_def r6_def)
  moreover have "canonical_bool r7 = Some (de_is_from_fail_safe d, r8)" by (simp add: canonical_bool_iff r7_def)
  moreover have "canonical_optional canonical_string r9 = Some (de_etag d, r10)"
    using t(4) by (auto simp: canonical_optional_string r9_def)
  moreover have "canonical_optional canonical_i64 r11 = Some (de_last_modified_ticks d, r12)"
    using t(5) by (auto simp: canonical_optional_i64 r11_def r12_def)
  moreover have "canonical_tags r13 = Some (de_tags d, ''}'')" using t(6) by (simp add: canonical_tags_iff r13_def)
  ultimately show "canonical_entry parse_value bytes = Some d"
    unfolding canonical_entry_steps strip_prefix_Some
    using bytes r2_def r4_def r6_def r8_def r10_def r12_def by blast
qed


text \<open>
  The header decoder, too, takes \<open>-0\<close> for a zero, a spelling the crate never writes and for
  which the general decoder would not have been asked.
\<close>

lemma minus_zero_header:
  \<open>canonical_header ''{"inserted_ticks":-0,"retention":{"kind":"Unspecified"}}''
     = Some \<lparr>sh_inserted_ticks = 0, sh_retention = WireUnspecified\<rparr>\<close>
proof -
  have \<open>canonical_i64 (''-0'' @ '',"retention":{"kind":"Unspecified"}}'') = Some (0, '',"retention":{"kind":"Unspecified"}}'')\<close>
    unfolding canonical_i64_iff by (auto simp: tick_text_def)
  then show ?thesis by (simp add: canonical_header_def strip_prefix_def)
qed

end
