(* ===== verification/Spec2Isabelle.thy ===== *)
theory Spec2Isabelle
  imports Amalgam_Inbound Amalgam_Control_Facts Amalgam_Slots Amalgam_Flights Amalgam_Origin_Facts Amalgam_Circuit Amalgam_Recovery_Props Amalgam_Lanes Amalgam_Wire_Facts Amalgam_Stores
begin

text \<open>
  Verification of the Amalgam hybrid cache.

  \<^bold>\<open>The program.\<close> Amalgam (\<open>src/src\<close>) is a two-level cache. The first level is a memory store in the
  process (\<open>memory.rs\<close>); the optional second level is a byte store shared by several processes
  (\<open>distributed.rs\<close>). A read (\<open>cache/read.rs\<close>) looks in the first level, then in the second, installs what it
  found in the first, and otherwise computes the value with the caller's factory, once per key
  (\<open>single_flight.rs\<close>) and under the ownership of the key (\<open>locking.rs\<close>, \<open>distributed_lock.rs\<close>). A mutation
  (\<open>cache/write.rs\<close>) takes the lane of its key (\<open>commit.rs\<close>), changes both levels and notifies the other
  processes over a backplane (\<open>backplane.rs\<close>); what fails is queued (\<open>recovery.rs\<close>) and replayed later
  (\<open>cache/recovery.rs\<close>). Invalidation by tag, soft clear and hard clear (\<open>tags.rs\<close>, \<open>cache/markers.rs\<close>) never
  enumerate entries: a marker with a revision makes older entries stale, markers are stored durably,
  cached as snapshots (\<open>marker_snapshots.rs\<close>), announced to peers and replayed when that fails
  (\<open>cache/marker_recovery.rs\<close>). Fail-safe serves a stale value when the factory fails. Notifications of
  peers are processed by a listener (\<open>cache/runtime.rs\<close>), and a lost connection discards the first level.

  \<^bold>\<open>The theories\<close>, in the order of the imports; each begins with what it models.

  \<^item> Amalgam_Prelude: machine bounds, saturating arithmetic, hash maps as association lists, and the three
    interfaces of the library: \<open>finite_map\<close>, \<open>invariant_machine\<close> (every operation keeps an invariant, hence every
    history does) and \<open>guarded_machine\<close> (the same for partial steps under an interleaving).
  \<^item> Amalgam_Time (\<open>time.rs\<close>, \<open>time/local.rs\<close>), Amalgam_Options (\<open>options.rs\<close>), Amalgam_Tags (\<open>tags.rs\<close>; the
    interface \<open>marker_journal\<close>), Amalgam_Entry (\<open>entry.rs\<close>, \<open>entry/plain.rs\<close>), Amalgam_Circuit (\<open>circuit.rs\<close>):
    timestamps and deadlines, option records and their builders, marker registries with compaction, cache
    entries with their three deadlines, the circuit breaker at the level of its atomic accesses.
  \<^item> Amalgam_Origins, Amalgam_Memory with Amalgam_Memory_Facts and Amalgam_Origin_Facts (\<open>memory.rs\<close>,
    \<open>memory/origin.rs\<close>, \<open>memory/deadlines.rs\<close>): the bounded first level with admission, eviction and the
    revisions that refuse the writes of superseded factories.
  \<^item> Amalgam_Backplane (\<open>backplane.rs\<close>), Amalgam_Snapshots (\<open>marker_snapshots.rs\<close>,
    \<open>recovery/marker_snapshots.rs\<close>), Amalgam_Distributed, Amalgam_Wire and Amalgam_Wire_Facts (\<open>distributed.rs\<close>,
    \<open>error.rs\<close>): messages, snapshots and the wire format with its word-parallel decoder.
  \<^item> Amalgam_Recovery, Amalgam_Recovery_Facts, Amalgam_Recovery_Props (\<open>recovery.rs\<close>): the recovery queue as a
    machine of its critical sections, and the drain that replays it.
  \<^item> Amalgam_Lanes (\<open>commit.rs\<close>, \<open>commit/ordered.rs\<close>), Amalgam_Slots (\<open>locking.rs\<close>), Amalgam_Flights
    (\<open>single_flight.rs\<close>), Amalgam_Leases (\<open>distributed_lock.rs\<close>, \<open>marker_leases.rs\<close>): the concurrent parts, as step
    relations over one step per atomic access or critical section, for any number of callers.
  \<^item> Amalgam_Stores (\<open>distributed.rs\<close>, \<open>marker_snapshots.rs\<close>): the in-process reference backends.
  \<^item> Amalgam_Observations (\<open>marker_reads.rs\<close>, \<open>marker_reads/memory.rs\<close>; the interface \<open>maximum_merge\<close>): what a
    cache remembers of the markers it read.
  \<^item> Amalgam_Keys (\<open>cache/physical_key.rs\<close>, \<open>cache/distributed_key.rs\<close>), Amalgam_Worker (\<open>cache.rs\<close>): the
    keys of an operation, and the record \<open>worker\<close> of what the operations of one cache share.
  \<^item> Amalgam_Reads, Amalgam_Read_Facts (\<open>cache/read.rs\<close>, \<open>cache/origin.rs\<close>): the read path.
  \<^item> Amalgam_Commits, Amalgam_Commit_Facts (\<open>cache/write.rs\<close>, \<open>cache/memory_inline.rs\<close>): the mutation pipeline.
  \<^item> Amalgam_Replay (\<open>cache/recovery.rs\<close>): the replay of queued mutations of a key.
  \<^item> Amalgam_Markers, Amalgam_Marker_Facts (\<open>cache/markers.rs\<close>, \<open>cache/marker_recovery.rs\<close>,
    \<open>cache/ordinary_markers.rs\<close>): invalidations and the reconciliation with the durable markers.
  \<^item> Amalgam_Marker_Replay (\<open>cache/marker_recovery.rs\<close>, \<open>cache/recovery.rs\<close>): the replay of queued marker work.
  \<^item> Amalgam_Marker_Orders, Amalgam_Control_Reads, Amalgam_Control_Facts (\<open>cache/markers.rs\<close>,
    \<open>cache/marker_eager.rs\<close>, \<open>cache/ordinary_markers.rs\<close>; the interfaces \<open>worker_order\<close> and \<open>site_order\<close>, an order
    on the state of a cache that every step of every operation keeps): the options-controlled reads of
    markers, with remembered observations, shared snapshots, leases and degradation.
  \<^item> Amalgam_Inbound (\<open>cache/runtime.rs\<close>): the notifications of peers.

  \<^bold>\<open>What is shown.\<close>

  \<^item> Data: options built by any sequence of builders have current budgets; entries copied, throttled or
    rehydrated never live longer; registries, limits of stores and queues hold after every history; an
    insertion reports every entry it displaces; the renewal of a marker snapshot is described completely;
    a framed snapshot decodes to itself and a malformed frame is an error; the canonical decoder accepts
    the layout of the encoder and, beside it, only a zero spelled \<open>-0\<close>.
  \<^item> Concurrency: the lane of a key is exclusive, served in the order of queueing, and a queued
    acquisition can always be woken and served; callers of one key meet
    at one control; one flight per identity runs at a time and every waiting caller is answered or released;
    a breaker transition is reported by exactly one caller; waiting for a lease ends.
  \<^item> Reads: a served value was alive, eligible under the options and not invalidated; a snapshot is installed
    only over what it was read against; the factory runs only after a miss; in an outage of the second level
    a read answers what the first level has; a failing factory is answered with an eligible stale value.
  \<^item> Mutations: an overtaken factory and a lost lease leave no trace in either level, the queue or at a peer; a
    failed write is returned or queued with the mutation itself; peers hear once of what the second level took and of nothing else;
    superseded work is not replayed, applied work was current at each stage.
  \<^item> Invalidations: once returned, effective for all later reads of the cache, even when the stores fail; when
    acknowledged, effective for every cache that reconciles with the store; when refused, queued and not
    announced; notifications of peers are effective once processed, and lost history discards the first level.
    A controlled read that reports a marker as observed has seen every revision the store held of it,
    as long as the store does not compact between the reads.

  \<^bold>\<open>Conventions.\<close> Timestamps are integers within the bounds of \<open>i64\<close>, durations and instants naturals in
  nanoseconds; every saturating, checked and wrapping operation of the code is written out. Strings are byte
  strings, hash maps association lists with distinct keys, errors the left summand of a sum. Values are a type
  parameter; cloning yields an equal value.

  \<^bold>\<open>Asynchrony.\<close> The operations of \<open>cache/\<close> are functions of the state of the cache and an environment record
  (\<open>read_env\<close>, \<open>commit_env\<close> and their extensions). At each \<open>await\<close> the environment may replace the shared state
  by any other (\<open>re_wait\<close>, \<open>ce_wait\<close>), so that a theorem on an operation holds for every behaviour of the
  operations running meanwhile; where a theorem needs more, its hypothesis says what the others keep. Code
  between two awaits is one step: it runs under a lock or on data of the operation. Scheduled continuations
  (background completion, side effects allowed to run later) are run to their end at the point where they
  are scheduled.

  \<^bold>\<open>Parameters.\<close> Code outside \<open>src/\<close> and user code enter as fields of the environments or as arguments: clock
  readings, random numbers, hash functions, the JSON codec of serde, the serializer and the cloner of values, the
  byte store, marker store and snapshot cache of the second level, lease providers, the backplane transport, the
  factory, and the outcome of a timer against a future. A hypothesis on one of them is the documented
  contract of that part, and the reference backends of Amalgam_Stores are such instances.

  \<^bold>\<open>Bounds.\<close> The waiting loop of a lease (\<open>acquire_loop\<close>) has as fuel the number of ten-millisecond pauses that fit
  the timeout, plus three; \<open>lease_wait_terminates\<close> shows that it is enough. The compare-and-swap loops that admit a
  marker observation retry once for each element of an explicit list of contending writes, one element
  per lost race, so they end for every list. The other recursions are on the data.

  \<^bold>\<open>Not modelled.\<close>
  The hosts of the first level other than the bounded store (\<open>memory/sharded.rs\<close>, \<open>memory/custom.rs\<close>,
  \<open>memory_storage.rs\<close>, and with it \<open>cache/marker_local.rs\<close>); the reader gate of unsafe code behind the store
  (\<open>reader_slots.rs\<close>) and the deferral of destructors (\<open>memory/reclamation.rs\<close>), whose exclusion the model takes as
  one step per critical section; ownership, cancellation and draining of futures and tasks (\<open>execution.rs\<close>,
  \<open>lifecycle.rs\<close>, \<open>retained_origin.rs\<close>, the maintenance timer and shutdown of \<open>cache/runtime.rs\<close>); the paths that run
  the same pipeline without suspending (\<open>cache/inline_cold.rs\<close>, \<open>cache/immediate_read.rs\<close>, \<open>cache/plain_ready.rs\<close>);
  the public interface (\<open>cache/api.rs\<close>, the request and option builders, \<open>cache/blocking\<close>, \<open>registry.rs\<close>, plugins);
  delivery of events, tracing and metrics; serializers; the Redis backend, whose effect is that of a
  server; and the coarse operating-system clock.
\<close>

end
